(* ===== verification/Prelude.thy ===== *)
theory Prelude
  imports Main "HOL-Library.AList" "HOL-Library.List_Lexorder" "HOL-Library.Char_ord"
begin

text \<open>
  Shared vocabulary of the marbor development: the types that stand for Go's
  \<^verbatim>\<open>time.Time\<close>, \<^verbatim>\<open>time.Duration\<close> and \<^verbatim>\<open>map[K]V\<close>, the integer conversions Go
  writes as casts, the bounded histories several components keep, the
  "first best element" loop the router runs over candidate slices, and the
  collections of facts the component proofs rewrite with.
\<close>

section \<open>Names for the proof automation\<close>

named_theorems frame_simps \<open>what an operation leaves unchanged\<close>
named_theorems inv_intros \<open>operations that keep a component's invariant\<close>

section \<open>Time\<close>

text \<open>
  A \<^verbatim>\<open>time.Time\<close> is its offset from the Unix epoch in nanoseconds and a
  \<^verbatim>\<open>time.Duration\<close> a count of nanoseconds.  The zero \<^verbatim>\<open>time.Time\<close>
  (year 1, January 1, UTC) is a point long before every timestamp the program takes.
\<close>

type_synonym gotime = int
type_synonym duration = int

definition time_zero :: gotime where
  "time_zero = - 62135596800 * 1000000000"

definition time_is_zero :: "gotime \<Rightarrow> bool" where
  "time_is_zero t \<longleftrightarrow> t = time_zero"

definition millisecond :: duration where "millisecond = 1000000"
definition second :: duration where "second = 1000 * millisecond"
definition minute :: duration where "minute = 60 * second"

lemmas duration_defs = millisecond_def second_def minute_def

section \<open>Integer conversions\<close>

text \<open>Go's \<^verbatim>\<open>int32(x)\<close> keeps the low 32 bits, read in two's complement.\<close>

definition to_int32 :: "int \<Rightarrow> int" where
  "to_int32 n = (let m = n mod 2 ^ 32 in if m < 2 ^ 31 then m else m - 2 ^ 32)"

lemma to_int32_small [simp]: "- (2 ^ 31) \<le> n \<Longrightarrow> n < 2 ^ 31 \<Longrightarrow> to_int32 n = n"
proof -
  assume lo: "- (2 ^ 31) \<le> n" and hi: "n < 2 ^ 31"
  show "to_int32 n = n"
  proof (cases "0 \<le> n")
    case True
    with hi show ?thesis by (simp add: to_int32_def)
  next
    case False
    have "n mod 2 ^ 32 = (n + 2 ^ 32) mod 2 ^ 32" by simp
    also have "\<dots> = n + 2 ^ 32" using False lo by (intro mod_pos_pos_trivial) auto
    finally have "n mod 2 ^ 32 = n + 2 ^ 32" .
    with False lo show ?thesis by (simp add: to_int32_def)
  qed
qed

lemma to_int32_range: "- (2 ^ 31) \<le> to_int32 n" "to_int32 n < 2 ^ 31"
proof -
  have "0 \<le> n mod 2 ^ 32" "n mod 2 ^ 32 < 2 ^ 32" by simp_all
  then show "- (2 ^ 31) \<le> to_int32 n" "to_int32 n < 2 ^ 31"
    by (auto simp: to_int32_def Let_def)
qed

text \<open>Go's integer division and remainder truncate towards zero.\<close>

definition quot :: "int \<Rightarrow> int \<Rightarrow> int" where
  "quot a b = sgn a * sgn b * (\<bar>a\<bar> div \<bar>b\<bar>)"

lemma quot_nonneg: "0 \<le> a \<Longrightarrow> 0 < b \<Longrightarrow> quot a b = a div b"
  by (cases "a = 0") (auto simp: quot_def)

section \<open>Go maps\<close>

text \<open>
  A Go \<^verbatim>\<open>map[K]V\<close> is an association list with distinct keys; the order of
  the list stands for the (unspecified) order in which \<^verbatim>\<open>range\<close> visits it.
  Writing \<^verbatim>\<open>m[k] = v\<close> is \<^const>\<open>AList.update\<close>, \<^verbatim>\<open>delete(m, k)\<close> is \<^const>\<open>AList.delete\<close> and
  \<^verbatim>\<open>v, ok := m[k]\<close> is \<^const>\<open>map_of\<close>.
\<close>

type_synonym ('k, 'v) gomap = "('k \<times> 'v) list"

abbreviation gm_get :: "('k, 'v) gomap \<Rightarrow> 'k \<Rightarrow> 'v option" where
  "gm_get \<equiv> map_of"

abbreviation gm_put :: "'k \<Rightarrow> 'v \<Rightarrow> ('k, 'v) gomap \<Rightarrow> ('k, 'v) gomap" where
  "gm_put \<equiv> AList.update"

abbreviation gm_del :: "'k \<Rightarrow> ('k, 'v) gomap \<Rightarrow> ('k, 'v) gomap" where
  "gm_del \<equiv> AList.delete"

definition gm_wf :: "('k, 'v) gomap \<Rightarrow> bool" where
  "gm_wf m \<longleftrightarrow> distinct (map fst m)"

text \<open>\<^verbatim>\<open>m[k]\<close> read as a value: the zero value when the key is absent.\<close>

definition gm_at :: "'v \<Rightarrow> ('k, 'v) gomap \<Rightarrow> 'k \<Rightarrow> 'v" where
  "gm_at z m k = (case gm_get m k of None \<Rightarrow> z | Some v \<Rightarrow> v)"

text \<open>The loop \<^verbatim>\<open>for k, v := range m { if p(k, v) { delete(m, k) } }\<close>.\<close>

definition gm_remove_if :: "('k \<Rightarrow> 'v \<Rightarrow> bool) \<Rightarrow> ('k, 'v) gomap \<Rightarrow> ('k, 'v) gomap" where
  "gm_remove_if p m = filter (\<lambda>(k, v). \<not> p k v) m"

lemma gm_wf_Nil [simp]: "gm_wf []"
  by (simp add: gm_wf_def)

lemma gm_wf_put [simp, intro]: "gm_wf m \<Longrightarrow> gm_wf (gm_put k v m)"
  by (simp add: gm_wf_def distinct_update)

lemma gm_wf_del [simp, intro]: "gm_wf m \<Longrightarrow> gm_wf (gm_del k m)"
  by (simp add: gm_wf_def distinct_delete)

lemma gm_wf_remove_if [simp, intro]: "gm_wf m \<Longrightarrow> gm_wf (gm_remove_if p m)"
  by (induction m) (auto simp: gm_wf_def gm_remove_if_def)

lemma gm_get_put: "gm_get (gm_put k v m) k' = (if k' = k then Some v else gm_get m k')"
  by (simp add: update_conv')

lemma gm_get_del: "gm_get (gm_del k m) k' = (if k' = k then None else gm_get m k')"
  by (simp add: delete_conv')

lemma gm_get_remove_if:
  "gm_wf m \<Longrightarrow> gm_get (gm_remove_if p m) k =
     (case gm_get m k of None \<Rightarrow> None | Some v \<Rightarrow> if p k v then None else Some v)"
proof (induction m)
  case (Cons a m)
  then show ?case
    by (cases a) (auto simp: gm_wf_def gm_remove_if_def map_of_eq_None_iff split: option.split)
qed (simp add: gm_remove_if_def)

lemma gm_key_iff: "k \<in> fst ` set m \<longleftrightarrow> (\<exists>v. gm_get m k = Some v)"
  by (cases "gm_get m k") (auto simp: map_of_eq_None_iff dest: map_of_SomeD intro: rev_image_eqI)

lemma gm_key: "gm_get m k = Some v \<Longrightarrow> k \<in> fst ` set m"
  by (auto simp: gm_key_iff)

lemma gm_ball_keys: "(\<forall>k \<in> fst ` set m. P k) \<longleftrightarrow> (\<forall>k v. gm_get m k = Some v \<longrightarrow> P k)"
  unfolding Ball_def gm_key_iff by blast

lemma gm_at_get [simp]: "gm_get m k = Some v \<Longrightarrow> gm_at z m k = v"
  by (simp add: gm_at_def)

lemma gm_get_eqI: "gm_wf m \<Longrightarrow> gm_wf m' \<Longrightarrow> set m = set m' \<Longrightarrow> gm_get m = gm_get m'"
  by (intro map_of_eqI) (auto simp: gm_wf_def)

lemma gm_get_rev: "gm_wf m \<Longrightarrow> gm_get (rev m) = gm_get m"
  by (rule gm_get_eqI) (auto simp: gm_wf_def rev_map [symmetric])

lemma gm_length_put: "length (gm_put k v m) = (if k \<in> fst ` set m then length m else Suc (length m))"
  by (induction m) auto

lemma gm_length_put_le: "length (gm_put k v m) \<le> Suc (length m)"
  by (simp add: gm_length_put)

lemma gm_length_del_le: "length (gm_del k m) \<le> length m"
  by (simp add: length_delete_le)

lemma gm_length_remove_if_le: "length (gm_remove_if p m) \<le> length m"
  by (simp add: gm_remove_if_def)

lemma gm_dom_put: "fst ` set (gm_put k v m) = insert k (fst ` set m)"
  by (simp add: dom_update)

lemma gm_dom_del: "fst ` set (gm_del k m) = fst ` set m - {k}"
  by (induction m) auto

text \<open>
  What a client of a map relies on, independent of its representation.
\<close>

locale go_map =
  fixes get :: "'m \<Rightarrow> 'k \<Rightarrow> 'v option"
    and put :: "'k \<Rightarrow> 'v \<Rightarrow> 'm \<Rightarrow> 'm"
    and del :: "'k \<Rightarrow> 'm \<Rightarrow> 'm"
  assumes get_put: "get (put k v m) k' = (if k' = k then Some v else get m k')"
    and get_del: "get (del k m) k' = (if k' = k then None else get m k')"
begin

lemma put_put_get: "get (put k v (put k w m)) j = get (put k v m) j"
  by (simp add: get_put)

lemma fold_del_get: "get (fold del ks m) j = (if j \<in> set ks then None else get m j)"
  by (induction ks arbitrary: m) (auto simp: get_del)

lemma fold_put_get:
  "get (fold (\<lambda>(k, v). put k v) kvs m) j =
     (case map_of (rev kvs) j of None \<Rightarrow> get m j | Some v \<Rightarrow> Some v)"
  by (induction kvs arbitrary: m) (auto simp: get_put map_add_def split: option.split)

end

interpretation gm: go_map gm_get gm_put gm_del
  by unfold_locales (simp_all add: gm_get_put gm_get_del)

section \<open>Bounded histories\<close>

text \<open>
  Several components append to a slice and then drop its oldest entries, so
  that only the last \<^verbatim>\<open>cap\<close> remain:
  \<^verbatim>\<open>xs = append(xs, x); if len(xs) > cap { xs = xs[len(xs)-cap:] }\<close>.
\<close>

definition push_capped :: "nat \<Rightarrow> 'a \<Rightarrow> 'a list \<Rightarrow> 'a list" where
  "push_capped cap x xs =
     (let ys = xs @ [x] in if length ys > cap then drop (length ys - cap) ys else ys)"

definition last_n :: "nat \<Rightarrow> 'a list \<Rightarrow> 'a list" where
  "last_n n xs = drop (length xs - n) xs"

lemma length_last_n [simp]: "length (last_n n xs) = min n (length xs)"
  by (simp add: last_n_def)

lemma last_n_last_n_append: "last_n n (last_n n xs @ ys) = last_n n (xs @ ys)"
  by (cases "n \<le> length xs") (simp_all add: last_n_def drop_append add.commute)

lemma push_capped_last_n: "push_capped cap x xs = last_n cap (xs @ [x])"
  by (simp add: push_capped_def last_n_def Let_def)

locale capped_history =
  fixes push :: "'a \<Rightarrow> 'a list \<Rightarrow> 'a list"
    and cap :: nat
  assumes push_last: "length xs \<le> cap \<Longrightarrow> push x xs = last_n cap (xs @ [x])"
begin

lemma push_bounded: "length xs \<le> cap \<Longrightarrow> length (push x xs) \<le> cap"
  by (simp add: push_last)

lemma pushes_last: "length xs \<le> cap \<Longrightarrow> fold push ys xs = last_n cap (xs @ ys)"
proof (induction ys arbitrary: xs)
  case Nil
  then show ?case by (simp add: last_n_def)
next
  case (Cons y ys)
  then show ?case
    using last_n_last_n_append [of cap "xs @ [y]" ys] by (simp add: push_last)
qed

lemma pushes_bounded: "length xs \<le> cap \<Longrightarrow> length (fold push ys xs) \<le> cap"
  by (simp add: pushes_last)

end

section \<open>Picking the first best element of a slice\<close>

text \<open>
  The loop \<^verbatim>\<open>for _, x := range xs { if best == nil || better(x, best) { best = x } }\<close>.
\<close>

fun pick_from :: "('a \<Rightarrow> 'a \<Rightarrow> bool) \<Rightarrow> 'a option \<Rightarrow> 'a list \<Rightarrow> 'a option" where
  "pick_from better b [] = b"
| "pick_from better b (x # xs) =
     pick_from better
       (case b of None \<Rightarrow> Some x | Some y \<Rightarrow> if better x y then Some x else Some y) xs"

abbreviation pick_best :: "('a \<Rightarrow> 'a \<Rightarrow> bool) \<Rightarrow> 'a list \<Rightarrow> 'a option" where
  "pick_best better \<equiv> pick_from better None"

lemma pick_from_Some_not_None: "pick_from better (Some y) xs \<noteq> None"
  by (induction xs arbitrary: y) auto

lemma pick_best_None_iff [simp]: "pick_best better xs = None \<longleftrightarrow> xs = []"
  by (cases xs) (auto simp: pick_from_Some_not_None)

lemma pick_from_mem: "pick_from better b xs = Some z \<Longrightarrow> z \<in> set xs \<or> b = Some z"
  by (induction xs arbitrary: b) (force split: option.splits if_splits)+

lemma pick_best_mem: "pick_best better xs = Some z \<Longrightarrow> z \<in> set xs"
  by (auto dest: pick_from_mem)

locale best_pick =
  fixes better :: "'a \<Rightarrow> 'a \<Rightarrow> bool"
  assumes better_asym: "better a b \<Longrightarrow> \<not> better b a"
    and better_negtrans: "\<not> better a b \<Longrightarrow> \<not> better b c \<Longrightarrow> \<not> better a c"
begin

lemma better_irrefl: "\<not> better a a"
  using better_asym by blast

lemma pick_from_max:
  "pick_from better (Some y) xs = Some z \<Longrightarrow> x \<in> insert y (set xs) \<Longrightarrow> \<not> better x z"
proof (induction xs arbitrary: y x)
  case Nil
  then show ?case using better_irrefl by simp
next
  case (Cons a xs)
  define w where "w = (if better a y then a else y)"
  from Cons.prems have w: "pick_from better (Some w) xs = Some z" by (auto simp: w_def split: if_splits)
  have wz: "\<not> better w z" by (rule Cons.IH [OF w]) simp
  have "\<not> better a w" "\<not> better y w"
    by (auto simp: w_def better_irrefl dest: better_asym)
  then have "\<not> better a z" "\<not> better y z" using wz by (auto dest: better_negtrans)
  moreover have "\<not> better x z" if "x \<in> set xs" using Cons.IH [OF w] that by simp
  ultimately show ?case using Cons.prems(2) by auto
qed

lemma pick_best_max: "pick_best better xs = Some z \<Longrightarrow> x \<in> set xs \<Longrightarrow> \<not> better x z"
  by (cases xs) (auto dest: pick_from_max)

lemma pick_best_unique:
  assumes tot: "\<And>x y. x \<in> set xs \<Longrightarrow> y \<in> set xs \<Longrightarrow> x \<noteq> y \<Longrightarrow> better x y \<or> better y x"
    and z: "z \<in> set xs" and max: "\<And>x. x \<in> set xs \<Longrightarrow> \<not> better x z"
  shows "pick_best better xs = Some z"
proof (cases "pick_best better xs")
  case None
  with z show ?thesis by simp
next
  case (Some w)
  then have "w \<in> set xs" "\<not> better z w" using z by (auto dest: pick_best_mem pick_best_max)
  with tot [of w z] z max Some show ?thesis by auto
qed

lemma pick_best_set_cong:
  assumes "set xs = set ys"
    and "\<And>x y. x \<in> set xs \<Longrightarrow> y \<in> set xs \<Longrightarrow> x \<noteq> y \<Longrightarrow> better x y \<or> better y x"
  shows "pick_best better xs = pick_best better ys"
proof (cases "pick_best better ys")
  case None
  with assms show ?thesis by simp
next
  case (Some z)
  then show ?thesis
    using assms by (auto intro!: pick_best_unique dest: pick_best_mem pick_best_max)
qed

end

text \<open>A comparison of keys in a linear order satisfies the interface.\<close>

interpretation min_key: best_pick "\<lambda>x y. (key x :: 'b :: linorder) < key y" for key
  by unfold_locales auto

section \<open>Updating the first match of a slice\<close>

text \<open>
  The loop \<^verbatim>\<open>for _, n := range ns { if p(n) { f(n); break } }\<close>, and its deleting
  counterpart \<^verbatim>\<open>ns = append(ns[:i], ns[i+1:]...)\<close>.
\<close>

fun upd_first :: "('a \<Rightarrow> bool) \<Rightarrow> ('a \<Rightarrow> 'a) \<Rightarrow> 'a list \<Rightarrow> 'a list" where
  "upd_first p f [] = []"
| "upd_first p f (x # xs) = (if p x then f x # xs else x # upd_first p f xs)"

fun del_first :: "('a \<Rightarrow> bool) \<Rightarrow> 'a list \<Rightarrow> 'a list" where
  "del_first p [] = []"
| "del_first p (x # xs) = (if p x then xs else x # del_first p xs)"

text \<open>The same loop without \<^verbatim>\<open>break\<close> that remembers the last match, as an index.\<close>

fun last_match :: "('a \<Rightarrow> bool) \<Rightarrow> 'a list \<Rightarrow> nat option" where
  "last_match p [] = None"
| "last_match p (x # xs) =
     (case last_match p xs of Some i \<Rightarrow> Some (Suc i) | None \<Rightarrow> if p x then Some 0 else None)"

lemma map_upd_first: "(\<And>x. p x \<Longrightarrow> g (f x) = g x) \<Longrightarrow> map g (upd_first p f xs) = map g xs"
  by (induction xs) auto

lemma upd_first_id: "\<forall>x \<in> set xs. \<not> p x \<Longrightarrow> upd_first p f xs = xs"
  by (induction xs) auto

lemma set_upd_first: "set (upd_first p f xs) \<subseteq> set xs \<union> f ` {x \<in> set xs. p x}"
  by (induction xs) auto

lemma find_upd_first:
  "(\<And>x. p x \<Longrightarrow> p (f x)) \<Longrightarrow> find p (upd_first p f xs) = map_option f (find p xs)"
  by (induction xs) auto

lemma upd_first_unique:
  assumes "distinct (map key xs)"
  shows "upd_first (\<lambda>x. key x = k) f xs = map (\<lambda>x. if key x = k then f x else x) xs"
  using assms
proof (induction xs)
  case (Cons x xs)
  show ?case
  proof (cases "key x = k")
    case True
    then have "\<forall>y \<in> set xs. key y \<noteq> k" using Cons.prems by (auto simp: image_iff)
    then have "map (\<lambda>x. if key x = k then f x else x) xs = xs" by (intro map_idI) auto
    with True show ?thesis by simp
  next
    case False
    then show ?thesis using Cons by simp
  qed
qed simp

lemma set_del_first_subset: "set (del_first p xs) \<subseteq> set xs"
  by (induction xs) auto

lemma distinct_map_del_first: "distinct (map g xs) \<Longrightarrow> distinct (map g (del_first p xs))"
proof (induction xs)
  case (Cons x xs)
  then show ?case using set_del_first_subset [of p xs] by auto
qed simp

lemma set_del_first_unique:
  assumes "distinct (map key xs)"
  shows "set (del_first (\<lambda>x. key x = k) xs) = {x \<in> set xs. key x \<noteq> k}"
  using assms by (induction xs) (auto simp: image_iff)

lemma last_match_Some: "last_match p xs = Some i \<Longrightarrow> i < length xs \<and> p (xs ! i)"
  by (induction xs arbitrary: i) (auto split: option.splits if_splits)

lemma last_match_None_iff: "last_match p xs = None \<longleftrightarrow> (\<forall>x \<in> set xs. \<not> p x)"
  by (induction xs) (auto split: option.splits)

lemma last_match_ge: "last_match p xs = Some i \<Longrightarrow> j < length xs \<Longrightarrow> p (xs ! j) \<Longrightarrow> j \<le> i"
proof (induction xs arbitrary: i j)
  case (Cons x xs)
  show ?case
  proof (cases j)
    case (Suc k)
    with Cons.prems have k: "k < length xs" "p (xs ! k)" by simp_all
    then have "last_match p xs \<noteq> None" by (auto simp: last_match_None_iff)
    then obtain l where "last_match p xs = Some l" by blast
    with Cons.IH [OF this k] Cons.prems(1) Suc show ?thesis by simp
  qed simp
qed simp

end
