(* ===== verification/Go_Strings.thy ===== *)
theory Go_Strings
  imports Prelude
begin

text \<open>
  The functions of Go's \<^verbatim>\<open>strings\<close>, \<^verbatim>\<open>unicode\<close> and \<^verbatim>\<open>strconv\<close> packages the program
  uses, on byte strings.
\<close>

section \<open>Searching and cutting\<close>

text \<open>\<^verbatim>\<open>strings.LastIndex\<close> of a one-byte needle: \<open>-1\<close> when it is absent.\<close>

fun last_index :: "char \<Rightarrow> string \<Rightarrow> int" where
  "last_index c [] = -1"
| "last_index c (x # xs) =
     (let r = last_index c xs in if r \<ge> 0 then r + 1 else if x = c then 0 else -1)"

lemma last_index_ge: "-1 \<le> last_index c s"
  by (induction s) (auto simp: Let_def)

lemma last_index_less: "last_index c s < int (length s)"
  by (induction s) (auto simp: Let_def)

lemma last_index_append:
  "last_index c (xs @ ys) =
     (if last_index c ys \<ge> 0 then int (length xs) + last_index c ys else last_index c xs)"
proof (induction xs)
  case Nil
  then show ?case using last_index_ge [of c ys] by simp
qed (auto simp: Let_def)

text \<open>\<^verbatim>\<open>strings.HasPrefix\<close>, \<^verbatim>\<open>strings.CutPrefix\<close>, \<^verbatim>\<open>strings.Contains\<close>.\<close>

definition has_prefix :: "string \<Rightarrow> string \<Rightarrow> bool" where
  "has_prefix s p \<longleftrightarrow> take (length p) s = p"

definition cut_prefix :: "string \<Rightarrow> string \<Rightarrow> string option" where
  "cut_prefix s p = (if has_prefix s p then Some (drop (length p) s) else None)"

fun contains_str :: "string \<Rightarrow> string \<Rightarrow> bool" where
  "contains_str [] p \<longleftrightarrow> p = []"
| "contains_str (c # s) p \<longleftrightarrow> has_prefix (c # s) p \<or> contains_str s p"

text \<open>\<^verbatim>\<open>strings.TrimRight(s, "c")\<close> and \<^verbatim>\<open>strings.TrimSuffix(s, "c")\<close> for a one-byte argument.\<close>

definition trim_right_char :: "char \<Rightarrow> string \<Rightarrow> string" where
  "trim_right_char c s = rev (dropWhile (\<lambda>x. x = c) (rev s))"

definition trim_suffix_char :: "char \<Rightarrow> string \<Rightarrow> string" where
  "trim_suffix_char c s = (if s \<noteq> [] \<and> last s = c then butlast s else s)"

text \<open>\<^verbatim>\<open>strings.Split\<close> at a one-byte separator, and the part before its first occurrence.\<close>

fun split_char :: "char \<Rightarrow> string \<Rightarrow> string list" where
  "split_char c [] = [[]]"
| "split_char c (x # xs) =
     (if x = c then [] # split_char c xs
      else case split_char c xs of p # ps \<Rightarrow> (x # p) # ps | [] \<Rightarrow> [[x]])"

definition before_char :: "char \<Rightarrow> string \<Rightarrow> string" where
  "before_char c s = takeWhile (\<lambda>x. x \<noteq> c) s"

lemma has_prefix_append [simp]: "has_prefix (p @ s) p"
  by (simp add: has_prefix_def)

lemma cut_prefix_append [simp]: "cut_prefix (p @ s) p = Some s"
  by (simp add: cut_prefix_def)

lemma cut_prefix_Some_iff: "cut_prefix s p = Some t \<longleftrightarrow> s = p @ t"
  by (auto simp: cut_prefix_def has_prefix_def) (metis append_take_drop_id)

lemma has_prefix_iff: "has_prefix s p \<longleftrightarrow> (\<exists>t. s = p @ t)"
  by (metis cut_prefix_Some_iff cut_prefix_append cut_prefix_def option.distinct(1))

section \<open>White space and control characters on UTF-8 bytes\<close>

text \<open>
  A Go string is its bytes.  The encodings below are those of the runes
  \<^verbatim>\<open>unicode.IsSpace\<close> accepts.  Each starts with a byte that is never a UTF-8
  continuation byte, so a rune is trimmed from either end exactly when its
  encoding is a prefix or a suffix of the string.
\<close>

definition space_encodings :: "nat list list" where
  "space_encodings =
     [[0x09], [0x0A], [0x0B], [0x0C], [0x0D], [0x20], [0xC2, 0x85], [0xC2, 0xA0],
      [0xE1, 0x9A, 0x80],
      [0xE2, 0x80, 0x80], [0xE2, 0x80, 0x81], [0xE2, 0x80, 0x82], [0xE2, 0x80, 0x83],
      [0xE2, 0x80, 0x84], [0xE2, 0x80, 0x85], [0xE2, 0x80, 0x86], [0xE2, 0x80, 0x87],
      [0xE2, 0x80, 0x88], [0xE2, 0x80, 0x89], [0xE2, 0x80, 0x8A],
      [0xE2, 0x80, 0xA8], [0xE2, 0x80, 0xA9], [0xE2, 0x80, 0xAF], [0xE2, 0x81, 0x9F],
      [0xE3, 0x80, 0x80]]"

definition byte_vals :: "string \<Rightarrow> nat list" where
  "byte_vals s = map of_char s"

definition leading_space :: "string \<Rightarrow> nat" where
  "leading_space s =
     (case find (\<lambda>e. take (length e) (byte_vals s) = e) space_encodings of
        None \<Rightarrow> 0 | Some e \<Rightarrow> length e)"

definition trailing_space :: "string \<Rightarrow> nat" where
  "trailing_space s =
     (case find (\<lambda>e. take (length e) (rev (byte_vals s)) = rev e) space_encodings of
        None \<Rightarrow> 0 | Some e \<Rightarrow> length e)"

lemma leading_space_pos: "leading_space s \<noteq> 0 \<Longrightarrow> s \<noteq> []"
  by (auto simp: leading_space_def space_encodings_def byte_vals_def)

lemma trailing_space_pos: "trailing_space s \<noteq> 0 \<Longrightarrow> s \<noteq> []"
  by (auto simp: trailing_space_def space_encodings_def byte_vals_def)

function trim_left :: "string \<Rightarrow> string" where
  "trim_left s = (if leading_space s = 0 then s else trim_left (drop (leading_space s) s))"
  by pat_completeness auto
termination
  by (relation "measure length") (use leading_space_pos in force)+

function trim_right :: "string \<Rightarrow> string" where
  "trim_right s =
     (if trailing_space s = 0 then s else trim_right (take (length s - trailing_space s) s))"
  by pat_completeness auto
termination
  by (relation "measure length") (use trailing_space_pos in force)+

declare trim_left.simps [simp del] trim_right.simps [simp del]

definition TrimSpace :: "string \<Rightarrow> string" where
  "TrimSpace s = trim_right (trim_left s)"

text \<open>
  Some rune of the string satisfies \<^verbatim>\<open>unicode.IsControl\<close>: a byte below 0x20, the
  byte 0x7F, or an encoding of U+0080 to U+009F.
\<close>

fun has_control :: "nat list \<Rightarrow> bool" where
  "has_control [] = False"
| "has_control (b # bs) =
     (b < 0x20 \<or> b = 0x7F \<or> (b = 0xC2 \<and> (case bs of c # _ \<Rightarrow> 0x80 \<le> c \<and> c \<le> 0x9F | [] \<Rightarrow> False))
      \<or> has_control bs)"

section \<open>Unsigned numbers\<close>

text \<open>
  \<^verbatim>\<open>strconv.ParseUint(s, base, 32)\<close> for a base between 2 and 36: a non-empty
  run of digits of that base whose value fits 32 bits.
\<close>

definition digit_val :: "char \<Rightarrow> nat option" where
  "digit_val c =
     (let n = (of_char c :: nat) in
      if 48 \<le> n \<and> n \<le> 57 then Some (n - 48)
      else if 97 \<le> n \<and> n \<le> 122 then Some (n - 97 + 10)
      else if 65 \<le> n \<and> n \<le> 90 then Some (n - 65 + 10)
      else None)"

fun digits_val :: "nat \<Rightarrow> nat \<Rightarrow> string \<Rightarrow> nat option" where
  "digits_val base acc [] = Some acc"
| "digits_val base acc (c # cs) =
     (case digit_val c of
        None \<Rightarrow> None
      | Some d \<Rightarrow> if d < base then digits_val base (acc * base + d) cs else None)"

definition ParseUint32 :: "nat \<Rightarrow> string \<Rightarrow> nat option" where
  "ParseUint32 base s =
     (if s = [] then None
      else case digits_val base 0 s of
        None \<Rightarrow> None
      | Some n \<Rightarrow> if n < 2 ^ 32 then Some n else None)"

end
