(* ===== verification/Model_Names.thy ===== *)
theory Model_Names
  imports Go_Strings
begin

text \<open>
  Model names (\<^verbatim>\<open>internal/router/modelname.go\<close> and the name helpers of
  \<^verbatim>\<open>eviction.go\<close> and \<^verbatim>\<open>replica_safety.go\<close>): when two names denote the same
  model, the canonical key bookkeeping is stored under, and the lookups that
  accept either spelling.
\<close>

section \<open>Name equivalence\<close>

definition modelNameTagged :: "string \<Rightarrow> bool" where
  "modelNameTagged name \<longleftrightarrow> last_index (CHR '':'') name > last_index (CHR ''/'') name"

definition ModelNamesEquivalent :: "string \<Rightarrow> string \<Rightarrow> bool" where
  "ModelNamesEquivalent a b =
     (if a = b then True
      else if CHR ''@'' \<in> set a \<or> CHR ''@'' \<in> set b then False
      else (let aTagged = modelNameTagged a; bTagged = modelNameTagged b in
        if aTagged \<and> \<not> bTagged then a = b @ '':latest''
        else if \<not> aTagged \<and> bTagged then b = a @ '':latest''
        else False))"

definition canonicalModelName :: "string \<Rightarrow> string" where
  "canonicalModelName model =
     (if model = [] \<or> CHR ''@'' \<in> set model \<or> modelNameTagged model then model
      else model @ '':latest'')"

definition modelKey :: "string \<Rightarrow> string \<Rightarrow> string" where
  "modelKey node model = node @ [CHR 0x00] @ canonicalModelName model"

definition runtimeOllama :: string where "runtimeOllama = ''ollama''"

definition normalizeRuntime :: "string \<Rightarrow> string" where
  "normalizeRuntime rt = (if rt = [] then runtimeOllama else rt)"

definition WarmupSupportedForRuntime :: "string \<Rightarrow> bool" where
  "WarmupSupportedForRuntime runtime \<longleftrightarrow> runtime = ''ollama'' \<or> runtime = []"

definition modelNamesMatchOnRuntime :: "string \<Rightarrow> string \<Rightarrow> string \<Rightarrow> bool" where
  "modelNamesMatchOnRuntime runtime a b =
     (if a = b then True
      else normalizeRuntime runtime = runtimeOllama \<and> ModelNamesEquivalent a b)"

section \<open>Lookups by name\<close>

record model_info =
  mi_Name :: string
  mi_SizeVRAM :: int
  mi_Digest :: string
  mi_sizeAttributed :: bool

text \<open>The exact name first, otherwise the first equivalent entry.\<close>

definition findLoadedModel :: "model_info list \<Rightarrow> string \<Rightarrow> model_info option" where
  "findLoadedModel models name =
     (case find (\<lambda>m. mi_Name m = name) models of
        Some m \<Rightarrow> Some m
      | None \<Rightarrow> find (\<lambda>m. ModelNamesEquivalent name (mi_Name m)) models)"

definition lookupByModelName :: "(string, 'v) gomap \<Rightarrow> string \<Rightarrow> 'v option" where
  "lookupByModelName m model =
     (case gm_get m model of
        Some v \<Rightarrow> Some v
      | None \<Rightarrow>
        (case gm_get m (canonicalModelName model) of
           Some v \<Rightarrow> Some v
         | None \<Rightarrow>
           (case pick_best (\<lambda>k best. k < best)
                   (filter (\<lambda>k. ModelNamesEquivalent k model) (map fst m)) of
              Some best \<Rightarrow> gm_get m best
            | None \<Rightarrow> None)))"

section \<open>Lemmas\<close>

lemma tagged_latest [simp]: "modelNameTagged (m @ '':latest'')"
proof -
  have "last_index (CHR '':'') (m @ '':latest'') = int (length m)"
    by (simp add: last_index_append)
  moreover have "last_index (CHR ''/'') (m @ '':latest'') = last_index (CHR ''/'') m"
    by (simp add: last_index_append)
  ultimately show ?thesis
    using last_index_less [of "CHR ''/''" m] by (simp add: modelNameTagged_def)
qed

lemma canonical_idem [simp]: "canonicalModelName (canonicalModelName m) = canonicalModelName m"
  by (auto simp: canonicalModelName_def)

lemma ModelNamesEquivalent_refl [simp]: "ModelNamesEquivalent a a"
  by (simp add: ModelNamesEquivalent_def)

lemma ModelNamesEquivalent_sym: "ModelNamesEquivalent a b \<longleftrightarrow> ModelNamesEquivalent b a"
  by (auto simp: ModelNamesEquivalent_def Let_def)

lemma equivalent_iff_canonical:
  assumes "a \<noteq> []" "b \<noteq> []"
  shows "ModelNamesEquivalent a b \<longleftrightarrow> canonicalModelName a = canonicalModelName b"
proof (cases "a = b")
  case False
  have at: "CHR ''@'' \<notin> set '':latest''" by simp
  from False assms show ?thesis
    by (auto simp: ModelNamesEquivalent_def canonicalModelName_def Let_def)
qed simp

lemma findLoadedModel_equiv:
  "findLoadedModel ms name = Some m \<Longrightarrow> m \<in> set ms \<and> ModelNamesEquivalent name (mi_Name m)"
  by (auto simp: findLoadedModel_def find_Some_iff split: option.splits)

lemma findLoadedModel_None_iff:
  "findLoadedModel ms name = None \<longleftrightarrow> (\<forall>m \<in> set ms. \<not> ModelNamesEquivalent name (mi_Name m))"
  by (auto simp: findLoadedModel_def find_None_iff find_Some_iff split: option.splits)
    (meson ModelNamesEquivalent_refl nth_mem)

lemma pick_key_Some_iff:
  "(pick_best (\<lambda>k best. (k :: 'a :: linorder) < best) ks = Some k) \<longleftrightarrow> k \<in> set ks \<and> (\<forall>j \<in> set ks. k \<le> j)"
proof
  assume "pick_best (\<lambda>k best. k < best) ks = Some k"
  then show "k \<in> set ks \<and> (\<forall>j \<in> set ks. k \<le> j)"
    using min_key.pick_best_max [where key = id, of ks k] pick_best_mem by (auto simp: not_less)
next
  assume "k \<in> set ks \<and> (\<forall>j \<in> set ks. k \<le> j)"
  then show "pick_best (\<lambda>k best. k < best) ks = Some k"
    by (intro min_key.pick_best_unique [where key = id, simplified]) (auto simp: not_less)
qed

lemma lookupByModelName_None_iff:
  "lookupByModelName m model = None \<longleftrightarrow>
     (\<forall>k \<in> fst ` set m. k \<noteq> canonicalModelName model \<and> \<not> ModelNamesEquivalent k model)"
proof (cases "gm_get m model")
  case None
  show ?thesis
  proof (cases "gm_get m (canonicalModelName model)")
    case None': None
    show ?thesis
    proof (cases "pick_best (\<lambda>k best. k < best) (filter (\<lambda>k. ModelNamesEquivalent k model) (map fst m))")
      case p: None
      then have "\<forall>k \<in> fst ` set m. \<not> ModelNamesEquivalent k model" by (auto simp: filter_empty_conv)
      moreover have "canonicalModelName model \<notin> fst ` set m" using None' by (simp add: map_of_eq_None_iff)
      ultimately show ?thesis using None None' p by (force simp: lookupByModelName_def)
    next
      case p: (Some k)
      then have "k \<in> fst ` set m" "ModelNamesEquivalent k model" by (auto dest: pick_best_mem)
      moreover from this obtain v where "gm_get m k = Some v"
        by (cases "gm_get m k") (auto simp: map_of_eq_None_iff)
      ultimately show ?thesis using None None' p by (auto simp: lookupByModelName_def)
    qed
  next
    case (Some v)
    then have "canonicalModelName model \<in> fst ` set m" by (auto dest!: map_of_SomeD intro: rev_image_eqI)
    moreover have "lookupByModelName m model \<noteq> None" using None Some by (simp add: lookupByModelName_def)
    ultimately show ?thesis by blast
  qed
next
  case (Some v)
  then have "model \<in> fst ` set m" by (auto dest!: map_of_SomeD intro: rev_image_eqI)
  moreover have "lookupByModelName m model \<noteq> None" using Some by (simp add: lookupByModelName_def)
  ultimately show ?thesis using ModelNamesEquivalent_refl by blast
qed

text \<open>
  For non-empty names the matching rule of \<^verbatim>\<open>ModelNamesEquivalent\<close> and the
  bookkeeping key of \<^verbatim>\<open>canonicalModelName\<close> agree: two names match exactly when
  they are stored under the same key.  In particular the matching rule is an
  equivalence relation on non-empty names.
\<close>

lemma names_equivalent_iff_same_key:
  assumes "a \<noteq> []" "b \<noteq> []"
  shows "ModelNamesEquivalent a b \<longleftrightarrow> modelKey node a = modelKey node b"
  using equivalent_iff_canonical [OF assms] by (simp add: modelKey_def)

text \<open>
  \<^verbatim>\<open>lookupByModelName\<close> is deterministic although it ranges over a Go map: two
  maps with the same contents, visited in any order, give the same answer, and
  the lookup succeeds exactly when some key is the name, its canonical form or
  an equivalent spelling.
\<close>

lemma lookup_order_independent:
  assumes "gm_wf m" "gm_wf m'" "set m = set m'"
  shows "lookupByModelName m model = lookupByModelName m' model
    \<and> (lookupByModelName m model = None \<longleftrightarrow>
         (\<forall>k \<in> fst ` set m. k \<noteq> canonicalModelName model \<and> \<not> ModelNamesEquivalent k model))"
proof
  have get: "gm_get m = gm_get m'"
    using assms by (intro map_of_eqI) (auto simp: gm_wf_def)
  have pick: "pick_best (\<lambda>k best. k < best) (filter (\<lambda>k. ModelNamesEquivalent k model) (map fst m)) =
        pick_best (\<lambda>k best. k < best) (filter (\<lambda>k. ModelNamesEquivalent k model) (map fst m'))"
    using assms(3) by (intro min_key.pick_best_set_cong [where key = id, simplified]) auto
  show "lookupByModelName m model = lookupByModelName m' model"
    unfolding lookupByModelName_def get pick ..
next
  show "lookupByModelName m model = None \<longleftrightarrow>
         (\<forall>k \<in> fst ` set m. k \<noteq> canonicalModelName model \<and> \<not> ModelNamesEquivalent k model)"
    by (rule lookupByModelName_None_iff)
qed

end
