(* ===== verification/Node_Url.thy ===== *)
theory Node_Url
  imports Go_Strings
begin

unbundle bit_operations_syntax

text \<open>
  Backend URLs (\<^verbatim>\<open>internal/config/config.go\<close>): the check that keeps an operator
  or API supplied node from pointing at a link-local or cloud-metadata address,
  the inet_aton reading behind it, and the normal form nodes are compared under.

  The general-purpose parsers \<^verbatim>\<open>net/url.Parse\<close>, \<^verbatim>\<open>net.ParseIP\<close> and the Unicode
  case mapping \<^verbatim>\<open>strings.ToLower\<close> are a parameter, the record \<open>url_lib\<close>; every
  theorem holds for every such library unless it names a hypothesis on it.
\<close>

section \<open>Library\<close>

datatype go_ip = IPv4 nat nat nat nat | IPv6 "nat list"

record go_url =
  u_Scheme :: string
  u_Host :: string
  u_Hostname :: string
  u_Path :: string

record url_lib =
  ul_Parse :: "string \<Rightarrow> go_url option"
  ul_ParseIP :: "string \<Rightarrow> go_ip option"
  ul_ToLower :: "string \<Rightarrow> string"

text \<open>\<^verbatim>\<open>net.IP.IsLinkLocalUnicast\<close> and \<^verbatim>\<open>IsLinkLocalMulticast\<close>.\<close>

fun isLinkLocalIP :: "go_ip \<Rightarrow> bool" where
  "isLinkLocalIP (IPv4 a b c d) \<longleftrightarrow> (a = 169 \<and> b = 254) \<or> (a = 224 \<and> b = 0 \<and> c = 0)"
| "isLinkLocalIP (IPv6 bs) \<longleftrightarrow>
     length bs = 16 \<and>
     ((bs ! 0 = 0xFE \<and> bs ! 1 AND 0xC0 = 0x80) \<or> (bs ! 0 = 0xFF \<and> bs ! 1 AND 0x0F = 0x02))"

section \<open>The inet_aton grammar\<close>

definition octalBase :: nat where "octalBase = 8"
definition decimalBase :: nat where "decimalBase = 10"

definition parseLegacyIPv4Part :: "string \<Rightarrow> nat \<Rightarrow> nat option" where
  "parseLegacyIPv4Part part leadingZeroBase =
     (if length part \<ge> 2 \<and> part ! 0 = CHR ''0'' \<and> (part ! 1 = CHR ''x'' \<or> part ! 1 = CHR ''X'') then
        (if length part = 2 then Some 0 else ParseUint32 16 (drop 2 part))
      else if length part > 1 \<and> part ! 0 = CHR ''0'' then ParseUint32 leadingZeroBase part
      else ParseUint32 decimalBase part)"

text \<open>The loop over the parts, at index \<open>i\<close> of \<open>k\<close> parts with the address built so far.\<close>

fun legacy_parts :: "nat \<Rightarrow> nat \<Rightarrow> nat \<Rightarrow> nat \<Rightarrow> string list \<Rightarrow> nat option" where
  "legacy_parts base k i addr [] = Some addr"
| "legacy_parts base k i addr (part # parts) =
     (case parseLegacyIPv4Part part base of
        None \<Rightarrow> None
      | Some n \<Rightarrow>
        if i < k - 1 then
          (if n > 255 then None
           else legacy_parts base k (i + 1) (addr OR push_bit (24 - 8 * i) n) parts)
        else if n \<ge> 2 ^ (8 * (5 - k)) then None
        else legacy_parts base k (i + 1) (addr OR n) parts)"

definition byte_at :: "nat \<Rightarrow> nat \<Rightarrow> nat" where
  "byte_at addr s = drop_bit s addr mod 256"

definition parseLegacyIPv4 :: "string \<Rightarrow> nat \<Rightarrow> go_ip option" where
  "parseLegacyIPv4 host leadingZeroBase =
     (let parts = split_char (CHR ''.'') (trim_suffix_char (CHR ''.'') host) in
      if length parts > 4 then None
      else case legacy_parts leadingZeroBase (length parts) 0 0 parts of
        None \<Rightarrow> None
      | Some addr \<Rightarrow> Some (IPv4 (byte_at addr 24) (byte_at addr 16) (byte_at addr 8) (byte_at addr 0)))"

definition isLinkLocalHost :: "('a url_lib_scheme) \<Rightarrow> string \<Rightarrow> bool" where
  "isLinkLocalHost lib host0 =
     (let host = before_char (CHR ''%'') host0 in
      case ul_ParseIP lib host of
        Some ip \<Rightarrow> isLinkLocalIP ip
      | None \<Rightarrow>
        (case parseLegacyIPv4 host octalBase of Some ip \<Rightarrow> isLinkLocalIP ip | None \<Rightarrow> False)
        \<or> (case parseLegacyIPv4 host decimalBase of Some ip \<Rightarrow> isLinkLocalIP ip | None \<Rightarrow> False))"

section \<open>Validation and normal form\<close>

datatype url_error = UrlInvalid string | UrlNotHttp string | UrlLinkLocal string

definition ValidateNodeURL :: "('a url_lib_scheme) \<Rightarrow> string \<Rightarrow> url_error option" where
  "ValidateNodeURL lib raw =
     (case ul_Parse lib raw of
        None \<Rightarrow> Some (UrlInvalid raw)
      | Some u \<Rightarrow>
        if (u_Scheme u \<noteq> ''http'' \<and> u_Scheme u \<noteq> ''https'') \<or> u_Host u = [] then Some (UrlNotHttp raw)
        else if isLinkLocalHost lib (u_Hostname u) then Some (UrlLinkLocal (u_Hostname u))
        else None)"

definition NormalizeNodeURL :: "('a url_lib_scheme) \<Rightarrow> string \<Rightarrow> string" where
  "NormalizeNodeURL lib raw =
     (let fallback = ul_ToLower lib (trim_right_char (CHR ''/'') (TrimSpace raw)) in
      case ul_Parse lib raw of
        None \<Rightarrow> fallback
      | Some u \<Rightarrow>
        if u_Host u = [] then fallback
        else ul_ToLower lib (u_Scheme u) @ ''://'' @ ul_ToLower lib (u_Host u)
          @ trim_right_char (CHR ''/'') (u_Path u))"

section \<open>What a C resolver reads\<close>

text \<open>
  A part spells \<open>n\<close>: decimal digits without a leading zero, \<^verbatim>\<open>0x\<close> and hexadecimal
  digits, or \<^verbatim>\<open>0\<close> and octal digits.
\<close>

definition digits_spell :: "nat \<Rightarrow> string \<Rightarrow> nat \<Rightarrow> bool" where
  "digits_spell base s n \<longleftrightarrow> s \<noteq> [] \<and> digits_val base 0 s = Some n"

definition part_spells :: "string \<Rightarrow> nat \<Rightarrow> bool" where
  "part_spells s n \<longleftrightarrow>
     (digits_spell 10 s n \<and> (s = ''0'' \<or> hd s \<noteq> CHR ''0''))
     \<or> (\<exists>h. (s = ''0x'' @ h \<or> s = ''0X'' @ h) \<and> digits_spell 16 h n)
     \<or> (\<exists>q. s = ''0'' @ q \<and> digits_spell 8 q n)"

text \<open>The 32-bit address of one to four numbers, the last filling the remaining bytes.\<close>

definition inet_aton_addr :: "nat list \<Rightarrow> nat option" where
  "inet_aton_addr vs =
     (case vs of
        [a] \<Rightarrow> if a < 2 ^ 32 then Some a else None
      | [a, b] \<Rightarrow> if a < 256 \<and> b < 2 ^ 24 then Some (a * 2 ^ 24 + b) else None
      | [a, b, c] \<Rightarrow>
          if a < 256 \<and> b < 256 \<and> c < 2 ^ 16 then Some (a * 2 ^ 24 + b * 2 ^ 16 + c) else None
      | [a, b, c, d] \<Rightarrow>
          if a < 256 \<and> b < 256 \<and> c < 256 \<and> d < 256
          then Some (a * 2 ^ 24 + b * 2 ^ 16 + c * 2 ^ 8 + d) else None
      | _ \<Rightarrow> None)"

fun join_dots :: "string list \<Rightarrow> string" where
  "join_dots [] = []"
| "join_dots [p] = p"
| "join_dots (p # ps) = p @ [CHR ''.''] @ join_dots ps"

definition ip_of_addr :: "nat \<Rightarrow> go_ip" where
  "ip_of_addr addr = IPv4 (addr div 2 ^ 24) (addr div 2 ^ 16 mod 256) (addr div 2 ^ 8 mod 256) (addr mod 256)"

section \<open>Lemmas\<close>

lemma digits_val_alnum: "digits_val base acc s = Some n \<Longrightarrow> c \<in> set s \<Longrightarrow> digit_val c \<noteq> None"
  by (induction s arbitrary: acc) (auto split: option.splits if_splits)

lemma digit_val_dot [simp]: "digit_val (CHR ''.'') = None" "digit_val (CHR ''%'') = None"
  by (simp_all add: digit_val_def)

lemma digits_spell_chars:
  assumes "digits_spell base s n"
  shows "s \<noteq> [] \<and> CHR ''.'' \<notin> set s \<and> CHR ''%'' \<notin> set s"
proof -
  have v: "digits_val base 0 s = Some n" "s \<noteq> []" using assms by (auto simp: digits_spell_def)
  show ?thesis using digits_val_alnum [OF v(1)] v(2) by (metis digit_val_dot)
qed

lemma part_spells_chars: "part_spells s n \<Longrightarrow> s \<noteq> [] \<and> CHR ''.'' \<notin> set s \<and> CHR ''%'' \<notin> set s"
  unfolding part_spells_def by (elim disjE exE conjE) (auto dest: digits_spell_chars)

lemma part_spells_parse:
  assumes "part_spells s n" "n < 2 ^ 32"
  shows "parseLegacyIPv4Part s octalBase = Some n"
proof -
  have pu: "digits_spell b t n \<Longrightarrow> ParseUint32 b t = Some n" for b t
    using assms(2) by (simp add: digits_spell_def ParseUint32_def)
  consider (dec) "digits_spell 10 s n" "s = ''0'' \<or> hd s \<noteq> CHR ''0''"
    | (hex) h where "s = ''0x'' @ h \<or> s = ''0X'' @ h" "digits_spell 16 h n"
    | (oct) q where "s = ''0'' @ q" "digits_spell 8 q n"
    using assms(1) unfolding part_spells_def by blast
  then show ?thesis
  proof cases
    case dec
    then have ne: "s \<noteq> []" and d: "ParseUint32 10 s = Some n" by (auto simp: digits_spell_def pu)
    then have "length s = 1 \<or> s ! 0 \<noteq> CHR ''0''" using dec(2) by (auto simp: hd_conv_nth)
    with d ne show ?thesis by (auto simp: parseLegacyIPv4Part_def decimalBase_def)
  next
    case hex
    then have "h \<noteq> []" by (simp add: digits_spell_def)
    with hex show ?thesis by (auto simp: parseLegacyIPv4Part_def pu)
  next
    case oct
    then obtain c r where q: "q = c # r" by (cases q) (auto simp: digits_spell_def)
    from oct(2) have "c \<noteq> CHR ''x''" "c \<noteq> CHR ''X''"
      by (auto simp: q digits_spell_def digit_val_def)
    moreover have "digits_spell 8 s n" using oct by (simp add: digits_spell_def digit_val_def)
    ultimately show ?thesis using oct by (simp add: parseLegacyIPv4Part_def q octalBase_def pu)
  qed
qed

lemma list_all2_part: "list_all2 P ps vs \<Longrightarrow> p \<in> set ps \<Longrightarrow> \<exists>v. P p v"
  by (induction rule: list_all2_induct) auto

lemma split_char_nodot: "c \<notin> set p \<Longrightarrow> split_char c p = [p]"
  by (induction p) auto

lemma split_char_append: "c \<notin> set p \<Longrightarrow> split_char c (p @ c # s) = p # split_char c s"
  by (induction p) auto

lemma split_join_dots:
  "ps \<noteq> [] \<Longrightarrow> \<forall>p \<in> set ps. CHR ''.'' \<notin> set p \<Longrightarrow> split_char (CHR ''.'') (join_dots ps) = ps"
  by (induction ps rule: join_dots.induct) (auto simp: split_char_nodot split_char_append)

lemma join_dots_last:
  "ps \<noteq> [] \<Longrightarrow> \<forall>p \<in> set ps. p \<noteq> [] \<and> CHR ''.'' \<notin> set p \<Longrightarrow>
     join_dots ps \<noteq> [] \<and> last (join_dots ps) \<noteq> CHR ''.''"
  by (induction ps rule: join_dots.induct) (auto, metis last_in_set)

lemma join_dots_chars: "c \<in> set (join_dots ps) \<Longrightarrow> c = CHR ''.'' \<or> (\<exists>p \<in> set ps. c \<in> set p)"
  by (induction ps rule: join_dots.induct) auto

lemma trim_suffix_join:
  assumes "ps \<noteq> []" "\<forall>p \<in> set ps. p \<noteq> [] \<and> CHR ''.'' \<notin> set p" "dot = [] \<or> dot = ''.''"
  shows "trim_suffix_char (CHR ''.'') (join_dots ps @ dot) = join_dots ps"
  using join_dots_last [OF assms(1,2)] assms(3) by (auto simp: trim_suffix_char_def)

lemma or_push_eq_add: "(b :: nat) < 2 ^ n \<Longrightarrow> push_bit n a OR b = push_bit n a + b"
proof -
  assume b: "b < 2 ^ n"
  then have "take_bit n b = b" by (simp add: take_bit_nat_eq_self)
  then have "push_bit n a AND b = 0"
    by (metis (no_types, lifting) and.commute bit_and_iff bit_eqI bit_push_bit_iff bit_take_bit_iff bit_0_eq
        bot_apply bot_bool_def not_less)
  then show ?thesis by (simp add: disjunctive_add_eq_or)
qed

lemma or_shift_add: "(b :: nat) < 2 ^ n \<Longrightarrow> (a * 2 ^ n) OR b = a * 2 ^ n + b"
  using or_push_eq_add [of b n a] by (simp add: push_bit_eq_mult)

lemma parse_legacy_spelled:
  assumes "list_all2 part_spells ps vs" "inet_aton_addr vs = Some addr"
  shows "ps \<noteq> []" "length ps \<le> 4" "legacy_parts octalBase (length ps) 0 0 ps = Some addr"
proof -
  have or2: "b < 16777216 \<Longrightarrow> 16777216 * a OR b = 16777216 * a + b" for a b :: nat
    using or_shift_add [of b 24 a] by (simp add: mult.commute)
  have or3: "c < 65536 \<Longrightarrow> 16777216 * a + 65536 * b OR c = 16777216 * a + 65536 * b + c" for a b c :: nat
    using or_shift_add [of c 16 "a * 256 + b"] by (simp add: algebra_simps)
  have or4: "d < 256 \<Longrightarrow> 16777216 * a + 65536 * b + 256 * c OR d = 16777216 * a + 65536 * b + 256 * c + d"
    for a b c d :: nat
    using or_shift_add [of d 8 "a * 65536 + b * 256 + c"] by (simp add: algebra_simps)
  have comm: "a * 16777216 = 16777216 * a" "a * 65536 = 65536 * a" "a * 256 = 256 * a" for a :: nat
    by simp_all
  note ors = or2 or3 or4 comm
  consider (1) p a where "ps = [p]" "vs = [a]" "part_spells p a"
    | (2) p q a b where "ps = [p, q]" "vs = [a, b]" "part_spells p a" "part_spells q b"
    | (3) p q r a b c where "ps = [p, q, r]" "vs = [a, b, c]"
        "part_spells p a" "part_spells q b" "part_spells r c"
    | (4) p q r t a b c d where "ps = [p, q, r, t]" "vs = [a, b, c, d]"
        "part_spells p a" "part_spells q b" "part_spells r c" "part_spells t d"
    using assms by (auto simp: inet_aton_addr_def list_all2_Cons2 split: list.splits)
  then show "ps \<noteq> []" "length ps \<le> 4" "legacy_parts octalBase (length ps) 0 0 ps = Some addr"
  proof (atomize (full), cases)
    case 1
    then show "ps \<noteq> [] \<and> length ps \<le> 4 \<and> legacy_parts octalBase (length ps) 0 0 ps = Some addr"
      using assms(2) by (auto simp: inet_aton_addr_def part_spells_parse split: if_splits)
  next
    case 2
    then show "ps \<noteq> [] \<and> length ps \<le> 4 \<and> legacy_parts octalBase (length ps) 0 0 ps = Some addr"
      using assms(2)
      by (auto simp: inet_aton_addr_def part_spells_parse push_bit_eq_mult ors split: if_splits)
  next
    case 3
    then show "ps \<noteq> [] \<and> length ps \<le> 4 \<and> legacy_parts octalBase (length ps) 0 0 ps = Some addr"
      using assms(2)
      by (auto simp: inet_aton_addr_def part_spells_parse push_bit_eq_mult ors split: if_splits)
  next
    case 4
    then show "ps \<noteq> [] \<and> length ps \<le> 4 \<and> legacy_parts octalBase (length ps) 0 0 ps = Some addr"
      using assms(2)
      by (auto simp: inet_aton_addr_def part_spells_parse push_bit_eq_mult ors split: if_splits)
  qed
qed

lemma inet_aton_addr_bound: "inet_aton_addr vs = Some addr \<Longrightarrow> addr < 2 ^ 32"
  by (auto simp: inet_aton_addr_def split: list.splits if_splits)

lemma parseLegacyIPv4_spelled:
  assumes "list_all2 part_spells ps vs" "inet_aton_addr vs = Some addr" "dot = [] \<or> dot = ''.''"
  shows "parseLegacyIPv4 (join_dots ps @ dot) octalBase = Some (ip_of_addr addr)"
proof -
  have chars: "\<forall>p \<in> set ps. p \<noteq> [] \<and> CHR ''.'' \<notin> set p"
    using list_all2_part [OF assms(1)] part_spells_chars by blast
  have "byte_at addr 24 = addr div 2 ^ 24"
    using inet_aton_addr_bound [OF assms(2)] by (simp add: byte_at_def drop_bit_eq_div less_mult_imp_div_less)
  then show ?thesis
    using parse_legacy_spelled [OF assms(1,2)] trim_suffix_join [OF _ chars assms(3)] chars
    by (simp add: parseLegacyIPv4_def split_join_dots ip_of_addr_def byte_at_def drop_bit_eq_div)
qed

text \<open>
  C38. No inet_aton spelling of a link-local address gets past \<^verbatim>\<open>ValidateNodeURL\<close>:
  if the host of a URL is one to four dotted parts, each written in decimal,
  \<^verbatim>\<open>0x\<close> hexadecimal or leading-zero octal, possibly with a trailing dot, and a C
  resolver reads it as a link-local IPv4 address (for instance 169.254.169.254),
  then the URL is refused.  The only hypothesis on the library is that
  \<^verbatim>\<open>net.ParseIP\<close> either does not accept this spelling or reads the same address.
\<close>

theorem link_local_spelling_refused:
  assumes "ul_Parse lib raw = Some u" "u_Hostname u = join_dots ps @ dot"
    and "dot = [] \<or> dot = ''.''" "list_all2 part_spells ps vs"
    and "inet_aton_addr vs = Some addr" "isLinkLocalIP (ip_of_addr addr)"
    and "ul_ParseIP lib (u_Hostname u) = None \<or> ul_ParseIP lib (u_Hostname u) = Some (ip_of_addr addr)"
  shows "ValidateNodeURL lib raw \<noteq> None"
proof -
  have "CHR ''%'' \<notin> set p" if "p \<in> set ps" for p
    using list_all2_part [OF assms(4) that] part_spells_chars by blast
  then have "CHR ''%'' \<notin> set (u_Hostname u)"
    using assms(2,3) by (auto dest: join_dots_chars)
  then have "before_char (CHR ''%'') (u_Hostname u) = u_Hostname u"
    by (auto simp: before_char_def takeWhile_eq_all_conv)
  then have "isLinkLocalHost lib (u_Hostname u)"
    using assms(6,7) parseLegacyIPv4_spelled [OF assms(4,5,3)] by (auto simp: isLinkLocalHost_def assms(2))
  then show ?thesis using assms(1) by (simp add: ValidateNodeURL_def)
qed

definition demo_lib :: url_lib where
  "demo_lib =
     \<lparr> ul_Parse = (\<lambda>s. if s = ''http://0xA9.0376.43518'' then
         Some \<lparr> u_Scheme = ''http'', u_Host = ''0xA9.0376.43518'', u_Hostname = ''0xA9.0376.43518'', u_Path = [] \<rparr>
         else None),
       ul_ParseIP = (\<lambda>_. None), ul_ToLower = (\<lambda>s. s) \<rparr>"

theorem link_local_spelling_refused_witness:
  "ValidateNodeURL demo_lib ''http://0xA9.0376.43518'' \<noteq> None"
proof -
  have "part_spells ''0xA9'' 169" "part_spells ''0376'' 254" "part_spells ''43518'' 43518"
    by (auto simp: part_spells_def digits_spell_def digit_val_def)
  then show ?thesis
    by (intro link_local_spelling_refused
      [where ps = "[''0xA9'', ''0376'', ''43518'']" and dot = "[]" and vs = "[169, 254, 43518]"
        and addr = 2852039166
        and u = "\<lparr> u_Scheme = ''http'', u_Host = ''0xA9.0376.43518'', u_Hostname = ''0xA9.0376.43518'', u_Path = [] \<rparr>"])
      (simp_all add: demo_lib_def inet_aton_addr_def ip_of_addr_def)
qed

end
