(* ===== verification/Float64.thy ===== *)
theory Float64
  imports Complex_Main Prelude "HOL-Library.Log_Nat"
begin

text \<open>
  IEEE-754 binary64 as the router's scores use it: a finite \<^verbatim>\<open>float64\<close> is the
  rational it denotes, and every arithmetic operation is the exact operation
  followed by rounding to nearest, ties to even, with 53 significant bits and
  the subnormal exponent floor.  Overflow to infinity and NaN are not
  represented: the modelled code divides only by non-zero values and stays far
  below \<^verbatim>\<open>2^1024\<close>.
\<close>

section \<open>Rounding\<close>

type_synonym float64 = rat

definition round_half_even :: "rat \<Rightarrow> int" where
  "round_half_even x =
     (let f = \<lfloor>x\<rfloor>; d = x - of_int f in
      if d < 1 / 2 then f else if d > 1 / 2 then f + 1 else if even f then f else f + 1)"

text \<open>The exponent \<open>e\<close> with \<open>2 ^ e \<le> x < 2 ^ (e + 1)\<close>, for positive \<open>x\<close>.\<close>

definition flog2 :: "rat \<Rightarrow> int" where
  "flog2 x =
     (let (a, b) = quotient_of x;
          k = int (floorlog 2 (nat a)) - int (floorlog 2 (nat b))
      in if 2 powi k \<le> x then k else k - 1)"

definition fexp :: "rat \<Rightarrow> int" where
  "fexp x = max (flog2 \<bar>x\<bar> - 52) (-1074)"

definition fl :: "rat \<Rightarrow> float64" where
  "fl x = (if x = 0 then 0 else of_int (round_half_even (x / 2 powi fexp x)) * 2 powi fexp x)"

definition fadd :: "float64 \<Rightarrow> float64 \<Rightarrow> float64" where "fadd x y = fl (x + y)"
definition fsub :: "float64 \<Rightarrow> float64 \<Rightarrow> float64" where "fsub x y = fl (x - y)"
definition fmul :: "float64 \<Rightarrow> float64 \<Rightarrow> float64" where "fmul x y = fl (x * y)"
definition fdiv :: "float64 \<Rightarrow> float64 \<Rightarrow> float64" where "fdiv x y = fl (x / y)"

text \<open>The conversions \<^verbatim>\<open>float64(i)\<close> and \<^verbatim>\<open>int64(f)\<close> (towards zero).\<close>

definition f_of_int :: "int \<Rightarrow> float64" where "f_of_int i = fl (of_int i)"

definition int_of_f :: "float64 \<Rightarrow> int" where
  "int_of_f x = (if x \<ge> 0 then \<lfloor>x\<rfloor> else - \<lfloor>- x\<rfloor>)"

lemmas float_op_defs = fadd_def fsub_def fmul_def fdiv_def f_of_int_def

section \<open>Rounding to an integer\<close>

lemma round_half_even_le:
  assumes "x \<le> of_int m"
  shows "round_half_even x \<le> m"
proof -
  have fl: "of_int \<lfloor>x\<rfloor> \<le> x" "x < of_int \<lfloor>x\<rfloor> + 1" by linarith+
  show ?thesis
  proof (cases "\<lfloor>x\<rfloor> < m")
    case True
    then show ?thesis by (auto simp: round_half_even_def Let_def)
  next
    case False
    with assms fl have "x = of_int \<lfloor>x\<rfloor>" "\<lfloor>x\<rfloor> = m" by linarith+
    then show ?thesis by (simp add: round_half_even_def Let_def)
  qed
qed

lemma round_half_even_ge:
  assumes "of_int m \<le> x"
  shows "m \<le> round_half_even x"
proof -
  have "m \<le> \<lfloor>x\<rfloor>" using assms by (simp add: le_floor_iff)
  then show ?thesis by (auto simp: round_half_even_def Let_def)
qed

lemma round_half_even_int [simp]: "round_half_even (of_int m) = m"
  by (simp add: round_half_even_def Let_def)

lemma round_half_even_mono:
  assumes "x \<le> y"
  shows "round_half_even x \<le> round_half_even y"
proof (cases "\<lfloor>x\<rfloor> = \<lfloor>y\<rfloor>")
  case True
  with assms show ?thesis by (auto simp: round_half_even_def Let_def)
next
  case False
  with floor_mono [OF assms] have lt: "\<lfloor>x\<rfloor> + 1 \<le> \<lfloor>y\<rfloor>" by linarith
  have "round_half_even x \<le> \<lfloor>x\<rfloor> + 1" by (auto simp: round_half_even_def Let_def)
  moreover have "\<lfloor>y\<rfloor> \<le> round_half_even y" by (auto simp: round_half_even_def Let_def)
  ultimately show ?thesis using lt by linarith
qed

lemma round_half_even_minus: "round_half_even (- x) = - round_half_even x"
proof (cases "x = of_int \<lfloor>x\<rfloor>")
  case True
  then show ?thesis by (metis of_int_minus round_half_even_int)
next
  case False
  then have c: "\<lfloor>- x\<rfloor> = - \<lfloor>x\<rfloor> - 1" by linarith
  show ?thesis by (auto simp: round_half_even_def Let_def c)
qed

section \<open>The binary exponent\<close>

lemma floorlog_bounds:
  assumes "n > 0"
  shows "2 powi (int (floorlog 2 n) - 1) \<le> (of_nat n :: rat)" "(of_nat n :: rat) < 2 powi int (floorlog 2 n)"
proof -
  have "2 ^ (floorlog 2 n - 1) \<le> n" "n < 2 ^ floorlog 2 n" "floorlog 2 n > 0"
    using floorlog_bounds [of n 2] assms by (auto simp: floorlog_def)
  then have "(2::rat) ^ (floorlog 2 n - 1) \<le> of_nat n" "(of_nat n :: rat) < 2 ^ floorlog 2 n"
    by (metis of_nat_le_iff of_nat_numeral of_nat_power, metis of_nat_less_iff of_nat_numeral of_nat_power)
  then show "2 powi (int (floorlog 2 n) - 1) \<le> (of_nat n :: rat)"
    "(of_nat n :: rat) < 2 powi int (floorlog 2 n)"
    using \<open>floorlog 2 n > 0\<close> by (simp_all add: power_int_def nat_diff_distrib)
qed

lemma flog2_bounds:
  assumes "x > 0"
  shows "2 powi flog2 x \<le> x" "x < 2 powi (flog2 x + 1)"
proof -
  obtain a b where q: "quotient_of x = (a, b)" by (cases "quotient_of x")
  then have b: "b > 0" and x: "x = of_int a / of_int b"
    by (auto simp: quotient_of_denom_pos quotient_of_div)
  with assms have a: "a > 0" by (simp add: zero_less_divide_iff)
  define la lb where "la = int (floorlog 2 (nat a))" and "lb = int (floorlog 2 (nat b))"
  have A: "2 powi (la - 1) \<le> (of_int a :: rat)" "(of_int a :: rat) < 2 powi la"
    using floorlog_bounds [of "nat a"] a by (auto simp: la_def)
  have B: "2 powi (lb - 1) \<le> (of_int b :: rat)" "(of_int b :: rat) < 2 powi lb"
    using floorlog_bounds [of "nat b"] b by (auto simp: lb_def)
  have lo: "2 powi (la - lb - 1) \<le> x"
  proof -
    have "2 powi (la - lb - 1) * of_int b \<le> 2 powi (la - lb - 1) * (2 powi lb :: rat)"
      using B by (intro mult_left_mono) auto
    also have "\<dots> = 2 powi (la - 1)" by (simp flip: power_int_add)
    finally show ?thesis using A b by (simp add: x le_divide_eq)
  qed
  have hi: "x < 2 powi (la - lb + 1)"
  proof -
    have "2 powi la = 2 powi (la - lb + 1) * (2 powi (lb - 1) :: rat)" by (simp flip: power_int_add)
    also have "\<dots> \<le> 2 powi (la - lb + 1) * of_int b" using B by (intro mult_left_mono) auto
    finally show ?thesis using A b by (simp add: x divide_less_eq)
  qed
  have e: "flog2 x = (if 2 powi (la - lb) \<le> x then la - lb else la - lb - 1)"
    by (simp add: flog2_def q Let_def la_def lb_def)
  show "2 powi flog2 x \<le> x" "x < 2 powi (flog2 x + 1)"
    using lo hi by (auto simp: e not_le)
qed

lemma pow2_le_iff: "(2 powi a :: rat) \<le> 2 powi b \<longleftrightarrow> a \<le> b"
  using power_int_increasing [of a b "2 :: rat"] power_int_strict_increasing [of b a "2 :: rat"]
  by (cases "a \<le> b") auto

lemma pow2_less_iff: "(2 powi a :: rat) < 2 powi b \<longleftrightarrow> a < b"
  using pow2_le_iff [of b a] by linarith

lemma flog2_mono:
  assumes "0 < x" "x \<le> y"
  shows "flog2 x \<le> flog2 y"
proof (rule ccontr)
  assume "\<not> flog2 x \<le> flog2 y"
  then have "2 powi (flog2 y + 1) \<le> (2 powi flog2 x :: rat)" by (simp add: pow2_le_iff)
  also have "\<dots> \<le> x" using assms flog2_bounds by simp
  also have "\<dots> \<le> y" by fact
  finally show False using flog2_bounds [of y] assms by simp
qed

lemma flog2_eqI:
  assumes "2 powi e \<le> x" "x < 2 powi (e + 1)"
  shows "flog2 x = e"
proof -
  have pos: "x > 0" using assms(1) by (meson less_le_trans zero_less_numeral zero_less_power_int)
  have "(2 powi flog2 x :: rat) < 2 powi (e + 1)" "(2 powi e :: rat) < 2 powi (flog2 x + 1)"
    using flog2_bounds [OF pos] assms by linarith+
  then show ?thesis by (auto simp: pow2_less_iff)
qed

section \<open>Rounding to binary64\<close>

lemma fl_0 [simp]: "fl 0 = 0"
  by (simp add: fl_def)

lemma fl_minus: "fl (- x) = - fl x"
  by (simp add: fl_def fexp_def round_half_even_minus)

lemma fl_scaled: "fl x = of_int (round_half_even (x / 2 powi fexp x)) * 2 powi fexp x"
  by (auto simp: fl_def round_half_even_def Let_def)

lemma fl_le_grid:
  assumes "x \<le> of_int m * 2 powi fexp x"
  shows "fl x \<le> of_int m * 2 powi fexp x"
proof -
  have "round_half_even (x / 2 powi fexp x) \<le> m"
    using assms by (intro round_half_even_le) (simp add: divide_le_eq)
  then show ?thesis unfolding fl_scaled by (intro mult_right_mono) auto
qed

lemma fl_ge_grid:
  assumes "of_int m * 2 powi fexp x \<le> x"
  shows "of_int m * 2 powi fexp x \<le> fl x"
proof -
  have "m \<le> round_half_even (x / 2 powi fexp x)"
    using assms by (intro round_half_even_ge) (simp add: le_divide_eq)
  then show ?thesis unfolding fl_scaled by (intro mult_right_mono) auto
qed

lemma pow2_grid: "k \<ge> e \<Longrightarrow> (2 powi k :: rat) = of_int (2 ^ nat (k - e)) * 2 powi e"
proof -
  assume "k \<ge> e"
  then have "(2 powi k :: rat) = 2 powi (k - e) * 2 powi e" by (simp flip: power_int_add)
  also have "(2 powi (k - e) :: rat) = of_int (2 ^ nat (k - e))"
    using \<open>k \<ge> e\<close> by (simp add: power_int_def)
  finally show ?thesis .
qed

lemma fl_nonneg: "0 \<le> x \<Longrightarrow> 0 \<le> fl x"
  using fl_ge_grid [of 0 x] by simp

lemma fl_mono_pos:
  assumes "0 < x" "x \<le> y"
  shows "fl x \<le> fl y"
proof (cases "fexp x = fexp y")
  case True
  have "round_half_even (x / 2 powi fexp y) \<le> round_half_even (y / 2 powi fexp y)"
    using assms by (intro round_half_even_mono divide_right_mono) auto
  then show ?thesis unfolding fl_scaled True by (intro mult_right_mono) auto
next
  case False
  have lm: "flog2 x \<le> flog2 y" using assms by (rule flog2_mono)
  with False assms have ey: "fexp y = flog2 y - 52" and lt: "flog2 x < flog2 y"
    and ex: "fexp x < fexp y" by (auto simp: fexp_def max_def split: if_splits)
  have "x \<le> 2 powi (flog2 x + 1)" using flog2_bounds [of x] assms by simp
  also have "\<dots> \<le> 2 powi flog2 y" using lt by (simp add: pow2_le_iff)
  finally have "fl x \<le> 2 powi flog2 y"
    using pow2_grid [of "fexp x" "flog2 y"] ex ey fl_le_grid [of x "2 ^ nat (flog2 y - fexp x)"] by simp
  also have "\<dots> \<le> fl y"
    using pow2_grid [of "fexp y" "flog2 y"] ey fl_ge_grid [of "2 ^ nat (flog2 y - fexp y)" y]
      flog2_bounds [of y] assms by simp
  finally show ?thesis .
qed

lemma fl_mono: "x \<le> y \<Longrightarrow> fl x \<le> fl y"
proof -
  assume le: "x \<le> y"
  consider "0 < x" | "x \<le> 0" "0 \<le> y" | "y < 0" by linarith
  then show ?thesis
  proof cases
    case 1
    then show ?thesis using le by (rule fl_mono_pos)
  next
    case 2
    then have "0 \<le> fl (- x)" "0 \<le> fl y" by (auto intro: fl_nonneg)
    then show ?thesis by (simp add: fl_minus)
  next
    case 3
    then have "fl (- y) \<le> fl (- x)" using le by (intro fl_mono_pos) auto
    then show ?thesis by (simp add: fl_minus)
  qed
qed

lemma fl_exact_pos:
  assumes "0 < m" "m < 2 ^ 53" "k \<ge> -1074"
  shows "fl (of_int m * 2 powi k) = of_int m * 2 powi k"
proof -
  let ?x = "of_int m * 2 powi k :: rat"
  have pos: "0 < ?x" using assms by simp
  have "?x < of_int (2 ^ 53) * 2 powi k" using assms by (intro mult_strict_right_mono) auto
  also have "\<dots> = 2 powi (k + 53)" by (simp add: power_int_add)
  finally have "(2 powi flog2 ?x :: rat) < 2 powi (k + 53)" using flog2_bounds [OF pos] by linarith
  then have "flog2 ?x < k + 53" by (simp add: pow2_less_iff)
  then have le: "fexp ?x \<le> k" using assms pos by (simp add: fexp_def)
  let ?e = "fexp ?x"
  have grid: "?x = of_int (m * 2 ^ nat (k - ?e)) * 2 powi ?e"
    using pow2_grid [OF le] by simp
  then show ?thesis
    using fl_le_grid [of ?x "m * 2 ^ nat (k - ?e)"] fl_ge_grid [of "m * 2 ^ nat (k - ?e)" ?x]
    by (intro antisym) (metis order_refl)+
qed

lemma fl_of_int: "\<bar>i\<bar> < 2 ^ 53 \<Longrightarrow> fl (of_int i) = of_int i"
  using fl_exact_pos [of i 0] fl_exact_pos [of "- i" 0] fl_minus [of "of_int i"]
  by (cases i "0 :: int" rule: linorder_cases) auto

text \<open>Floats are the multiples \<open>m * 2 ^ k\<close> with at most 53 significant bits; rounding fixes them.\<close>

lemma fl_exact:
  assumes "\<bar>m\<bar> \<le> 2 ^ 53" "k \<ge> -1074"
  shows "fl (of_int m * 2 powi k) = of_int m * 2 powi k"
proof -
  have pos: "fl (of_int i * 2 powi k) = of_int i * 2 powi k" if "0 < i" "i \<le> 2 ^ 53" for i
  proof (cases "i = 2 ^ 53")
    case True
    have "of_int i * 2 powi k = of_int (2 ^ 52) * (2 powi (k + 1) :: rat)"
      by (simp add: True power_int_add)
    then show ?thesis using fl_exact_pos [of "2 ^ 52" "k + 1"] assms(2) by simp
  next
    case False
    then show ?thesis using fl_exact_pos [of i k] that assms(2) by simp
  qed
  consider "m = 0" | "0 < m" | "0 < - m" by linarith
  then show ?thesis
  proof cases
    case 3
    then show ?thesis using pos [of "- m"] assms(1) fl_minus [of "of_int m * 2 powi k"] by simp
  qed (use pos [of m] assms(1) in auto)
qed

lemma fl_form: "\<exists>m k. fl x = of_int m * 2 powi k \<and> \<bar>m\<bar> \<le> 2 ^ 53 \<and> k \<ge> -1074"
proof (cases "x = 0")
  case True
  then show ?thesis by (intro exI [of _ 0]) auto
next
  case False
  let ?e = "fexp x" let ?y = "x / 2 powi ?e"
  have p: "(0::rat) < 2 powi ?e" by simp
  have "\<bar>x\<bar> < 2 powi (flog2 \<bar>x\<bar> + 1)" using flog2_bounds [of "\<bar>x\<bar>"] False by simp
  also have "\<dots> \<le> 2 powi (?e + 53)" unfolding pow2_le_iff by (simp add: fexp_def)
  also have "\<dots> = 2 ^ 53 * 2 powi ?e" by (simp add: power_int_add)
  finally have "\<bar>?y\<bar> \<le> 2 ^ 53" using p by (simp add: abs_divide pos_divide_le_eq)
  then have "?y \<le> 2 ^ 53" "- (2 ^ 53) \<le> ?y" by linarith+
  then have "round_half_even ?y \<le> 2 ^ 53" "- (2 ^ 53) \<le> round_half_even ?y"
    using round_half_even_le [of ?y "2 ^ 53"] round_half_even_ge [of "- (2 ^ 53)" ?y] by simp_all
  then show ?thesis
    using False by (intro exI [of _ "round_half_even ?y"] exI [of _ ?e]) (auto simp: fl_def fexp_def abs_le_iff)
qed

lemma fl_idem [simp]: "fl (fl x) = fl x"
proof -
  obtain m k where "fl x = of_int m * 2 powi k" "\<bar>m\<bar> \<le> 2 ^ 53" "k \<ge> -1074" using fl_form [of x] by blast
  then show ?thesis using fl_exact by simp
qed

text \<open>Subtracting a small integer from a larger float is exact.\<close>

lemma fl_sub_int:
  assumes "fl x = x" "of_int c \<le> x" "x < 2 ^ 53" "0 \<le> c"
  shows "fl (x - of_int c) = x - of_int c"
proof -
  obtain m k where f: "x = of_int m * 2 powi k" "\<bar>m\<bar> \<le> 2 ^ 53" "k \<ge> -1074"
    using fl_form [of x] assms(1) by metis
  show ?thesis
  proof (cases "k \<le> 0")
    case True
    let ?c = "c * 2 ^ nat (- k)"
    have "(2::rat) ^ nat (- k) * 2 powi k = 1"
      using True power_int_add [of "2::rat" "- k" k] by (simp add: power_int_def [of _ "- k"])
    then have "of_int ?c * 2 powi k = (of_int c :: rat)" by (simp add: mult.assoc)
    then have eq: "x - of_int c = of_int (m - ?c) * 2 powi k" by (simp add: f(1) left_diff_distrib)
    then have "0 \<le> of_int (m - ?c) * (2 powi k :: rat)" using assms(2) by linarith
    moreover have "(0::rat) < 2 powi k" by simp
    ultimately have "(0::rat) \<le> of_int (m - ?c)" using zero_le_mult_iff by (metis less_le_not_le)
    then have "0 \<le> m - ?c" by (simp only: of_int_0_le_iff)
    moreover have "0 \<le> ?c" using assms(4) by simp
    ultimately have "\<bar>m - ?c\<bar> \<le> 2 ^ 53" using f(2) by linarith
    then show ?thesis unfolding eq using f(3) by (rule fl_exact)
  next
    case False
    have "(2 powi k :: rat) = of_int (2 ^ nat k)" using False by (simp add: power_int_def)
    then have eq: "x - of_int c = of_int (m * 2 ^ nat k - c)" by (simp add: f(1))
    have "(0::rat) \<le> of_int c" using assms(4) by simp
    then have "x - of_int c < 2 ^ 53" using assms(3) by linarith
    then have "(of_int (m * 2 ^ nat k - c) :: rat) < of_int (2 ^ 53)" unfolding eq [symmetric] by simp
    then have "m * 2 ^ nat k - c < 2 ^ 53" unfolding of_int_less_iff .
    moreover have "0 \<le> m * 2 ^ nat k - c" using assms(2) eq by (metis diff_ge_0_iff_ge of_int_0_le_iff)
    ultimately show ?thesis unfolding eq by (intro fl_of_int) linarith
  qed
qed

section \<open>What the scoring code relies on\<close>

locale float_rounding =
  fixes rnd :: "rat \<Rightarrow> rat"
  assumes rnd_mono: "x \<le> y \<Longrightarrow> rnd x \<le> rnd y"
    and rnd_int: "\<bar>i\<bar> < 2 ^ 53 \<Longrightarrow> rnd (of_int i) = of_int i"
begin

lemma rnd_le_int: "x \<le> of_int i \<Longrightarrow> \<bar>i\<bar> < 2 ^ 53 \<Longrightarrow> rnd x \<le> of_int i"
  using rnd_mono [of x "of_int i"] by (simp add: rnd_int)

lemma rnd_ge_int: "of_int i \<le> x \<Longrightarrow> \<bar>i\<bar> < 2 ^ 53 \<Longrightarrow> of_int i \<le> rnd x"
  using rnd_mono [of "of_int i" x] by (simp add: rnd_int)

lemma rnd_numeral_le: "x \<le> numeral k \<Longrightarrow> (numeral k :: int) < 2 ^ 53 \<Longrightarrow> rnd x \<le> numeral k"
  using rnd_le_int [of x "numeral k"] by simp

lemma rnd_nonneg: "0 \<le> x \<Longrightarrow> 0 \<le> rnd x"
  using rnd_ge_int [of 0 x] by simp

lemma rnd_nonpos: "x \<le> 0 \<Longrightarrow> rnd x \<le> 0"
  using rnd_le_int [of x 0] by simp

lemma rnd_le_1: "x \<le> 1 \<Longrightarrow> rnd x \<le> 1"
  using rnd_le_int [of x 1] by simp

end

interpretation b64: float_rounding fl
  by unfold_locales (simp_all add: fl_mono fl_of_int)

end
