(* ===== verification/Nodes.thy ===== *)
theory Nodes
  imports Model_Names Node_Url Float64
begin

text \<open>
  One backend node: \<^verbatim>\<open>NodeState\<close> of \<^verbatim>\<open>internal/router/router.go\<close> with the
  operations that read or change a single node (construction, live patching,
  drain flags, GPU requirements, outcome histories).
\<close>

section \<open>Data\<close>

record gpu_scope =
  gs_Indices :: "int list"
  gs_CrossChecked :: bool

record gpu_info =
  gi_Index :: int
  gi_Vendor :: string
  gi_Model :: string
  gi_CorePercent :: "float64 option"
  gi_TemperatureC :: "float64 option"
  gi_FanPercent :: "float64 option"
  gi_PowerWatts :: "float64 option"
  gi_VRAMUsedMB :: int
  gi_VRAMTotalMB :: int

record replica_peers =
  rp_Members :: "string list"
  rp_Head :: string

text \<open>
  \<open>ns_probe\<close> is the runtime \<^verbatim>\<open>NewProbe\<close> was called with; a nil \<^verbatim>\<open>*T\<close> is \<open>None\<close>.
\<close>

record node_state =
  ns_Name :: string
  ns_URL :: string
  ns_Host :: string
  ns_GPUModel :: string
  ns_NvidiaIndex :: int
  ns_LoadedModels :: "model_info list"
  ns_ActiveConns :: int
  ns_modelInFlight :: "(string, int) gomap"
  ns_MaxInFlight :: int
  ns_TLSFingerprint :: string
  ns_Healthy :: bool
  ns_Draining :: bool
  ns_DrainedReason :: string
  ns_DrainedGraceSeconds :: int
  ns_PrewarmDisabled :: bool
  ns_ThermalBreaches :: int
  ns_LastPollAt :: gotime
  ns_Failures :: int
  ns_ConsecutiveSuccesses :: int
  ns_CPUPercent :: float64
  ns_Temperature :: "float64 option"
  ns_VRAMTotalMB :: int
  ns_VRAMUsedMB :: int
  ns_VRAMTotalMBConfig :: int
  ns_VRAMSource :: string
  ns_PowerDrawW :: float64
  ns_HealthHistory :: "float64 list"
  ns_FirstSeenAt :: gotime
  ns_Runtime :: string
  ns_RuntimeMismatchHint :: string
  ns_VRAMOverrides :: "(string, int) gomap"
  ns_DeclaredGPUIndices :: "int list"
  ns_ParallelismType :: string
  ns_ParallelismWidth :: int
  ns_ReplicaPeers :: "replica_peers option"
  ns_DetectedParallelismType :: string
  ns_DetectedParallelismWidth :: int
  ns_DetectedGPUGroup :: "int list"
  ns_DetectedGPUScope :: "gpu_scope option"
  ns_autoDetect :: bool
  ns_probe :: "string option"
  ns_LastErrorAt :: gotime
  ns_SuccessHistory :: "bool list"
  ns_RecentTTFT :: "float64 list"
  ns_AgentPresent :: bool
  ns_AgentStale :: bool
  ns_AgentTelemetryUnknown :: bool
  ns_AgentCapabilities :: "string list"
  ns_AgentGPUs :: "gpu_info list"
  ns_AgentFailures :: int

text \<open>The zero value \<^verbatim>\<open>NodeState{}\<close>.\<close>

definition zero_node :: node_state where
  "zero_node = \<lparr>
     ns_Name = [], ns_URL = [], ns_Host = [], ns_GPUModel = [], ns_NvidiaIndex = 0,
     ns_LoadedModels = [], ns_ActiveConns = 0, ns_modelInFlight = [], ns_MaxInFlight = 0,
     ns_TLSFingerprint = [], ns_Healthy = False, ns_Draining = False, ns_DrainedReason = [],
     ns_DrainedGraceSeconds = 0, ns_PrewarmDisabled = False, ns_ThermalBreaches = 0,
     ns_LastPollAt = time_zero, ns_Failures = 0, ns_ConsecutiveSuccesses = 0,
     ns_CPUPercent = 0, ns_Temperature = None, ns_VRAMTotalMB = 0, ns_VRAMUsedMB = 0,
     ns_VRAMTotalMBConfig = 0, ns_VRAMSource = [], ns_PowerDrawW = 0, ns_HealthHistory = [],
     ns_FirstSeenAt = time_zero, ns_Runtime = [], ns_RuntimeMismatchHint = [],
     ns_VRAMOverrides = [], ns_DeclaredGPUIndices = [], ns_ParallelismType = [],
     ns_ParallelismWidth = 0, ns_ReplicaPeers = None, ns_DetectedParallelismType = [],
     ns_DetectedParallelismWidth = 0, ns_DetectedGPUGroup = [], ns_DetectedGPUScope = None,
     ns_autoDetect = False, ns_probe = None, ns_LastErrorAt = time_zero, ns_SuccessHistory = [],
     ns_RecentTTFT = [], ns_AgentPresent = False, ns_AgentStale = False,
     ns_AgentTelemetryUnknown = False, ns_AgentCapabilities = [], ns_AgentGPUs = [],
     ns_AgentFailures = 0 \<rparr>"

record node_config =
  nc_Name :: string
  nc_URL :: string
  nc_GPUModel :: string
  nc_NvidiaIndex :: int
  nc_VRAMTotalMB :: int
  nc_Runtime :: string
  nc_VRAMOverrides :: "(string, int) gomap"
  nc_Host :: string
  nc_MaxInFlight :: int

section \<open>Host identity\<close>

definition hostOrDefault :: "('a url_lib_scheme) \<Rightarrow> string \<Rightarrow> string \<Rightarrow> string" where
  "hostOrDefault lib host rawURL =
     (if host \<noteq> [] then host
      else
        let parseURL = (if contains_str rawURL ''://'' then rawURL else ''//'' @ rawURL) in
        case ul_Parse lib parseURL of
          Some u \<Rightarrow> if u_Hostname u \<noteq> [] then u_Hostname u else rawURL
        | None \<Rightarrow> rawURL)"

definition ResultingHost :: "('a url_lib_scheme) \<Rightarrow> string \<Rightarrow> string \<Rightarrow> string \<Rightarrow> string" where
  "ResultingHost lib currentHost currentURL newURL =
     (if currentHost = hostOrDefault lib [] currentURL then hostOrDefault lib [] newURL
      else currentHost)"

section \<open>Construction\<close>

definition set_probe :: "string \<Rightarrow> node_state \<Rightarrow> node_state" where
  "set_probe rt n =
     (if rt = ''auto'' then n\<lparr> ns_autoDetect := True \<rparr> else n\<lparr> ns_probe := Some rt \<rparr>)"

text \<open>The node literal of \<^verbatim>\<open>New\<close>.\<close>

definition new_node :: "('a url_lib_scheme) \<Rightarrow> gotime \<Rightarrow> node_config \<Rightarrow> node_state" where
  "new_node lib now c =
     set_probe (nc_Runtime c)
       (zero_node\<lparr> ns_Name := nc_Name c, ns_URL := nc_URL c,
          ns_Host := hostOrDefault lib (nc_Host c) (nc_URL c),
          ns_GPUModel := nc_GPUModel c, ns_NvidiaIndex := nc_NvidiaIndex c,
          ns_VRAMTotalMBConfig := nc_VRAMTotalMB c, ns_VRAMOverrides := nc_VRAMOverrides c,
          ns_MaxInFlight := nc_MaxInFlight c, ns_Healthy := True, ns_FirstSeenAt := now,
          ns_Runtime := nc_Runtime c \<rparr>)"

text \<open>The node literal of \<^verbatim>\<open>AddNode\<close>: \<^verbatim>\<open>New\<close>'s, with a declared VRAM total shown at once.\<close>

definition added_node :: "('a url_lib_scheme) \<Rightarrow> gotime \<Rightarrow> node_config \<Rightarrow> node_state" where
  "added_node lib now c =
     (let n = new_node lib now c in
      if nc_VRAMTotalMB c > 0
      then n\<lparr> ns_VRAMTotalMB := nc_VRAMTotalMB c, ns_VRAMSource := ''declared'' \<rparr>
      else n)"

definition replacementNodeState :: "gotime \<Rightarrow> node_state \<Rightarrow> string \<Rightarrow> string \<Rightarrow> node_state" where
  "replacementNodeState now old newURL newHost =
     (let n = zero_node\<lparr> ns_Name := ns_Name old, ns_URL := newURL, ns_Host := newHost,
          ns_GPUModel := ns_GPUModel old, ns_NvidiaIndex := ns_NvidiaIndex old,
          ns_VRAMOverrides := ns_VRAMOverrides old,
          ns_VRAMTotalMBConfig := ns_VRAMTotalMBConfig old,
          ns_VRAMTotalMB := ns_VRAMTotalMB old, ns_VRAMSource := ns_VRAMSource old,
          ns_DeclaredGPUIndices := ns_DeclaredGPUIndices old,
          ns_MaxInFlight := ns_MaxInFlight old, ns_TLSFingerprint := ns_TLSFingerprint old,
          ns_ParallelismType := ns_ParallelismType old,
          ns_ParallelismWidth := ns_ParallelismWidth old,
          ns_ReplicaPeers := ns_ReplicaPeers old, ns_Draining := ns_Draining old,
          ns_DrainedReason := ns_DrainedReason old,
          ns_DrainedGraceSeconds := ns_DrainedGraceSeconds old,
          ns_PrewarmDisabled := ns_PrewarmDisabled old, ns_Healthy := True,
          ns_FirstSeenAt := now, ns_Runtime := ns_Runtime old \<rparr>
      in if ns_autoDetect old then n\<lparr> ns_autoDetect := True \<rparr>
         else n\<lparr> ns_probe := Some (ns_Runtime old) \<rparr>)"

text \<open>
  The fields \<^verbatim>\<open>AddNode\<close> refreshes on a node that is already registered under
  this name; runtime state (loaded models, counters, drain flags) is kept.
\<close>

definition refresh_node :: "('a url_lib_scheme) \<Rightarrow> node_config \<Rightarrow> node_state \<Rightarrow> node_state" where
  "refresh_node lib c n =
     (let runtimeChanged = ns_Runtime n \<noteq> nc_Runtime c;
          n1 = n\<lparr> ns_Host := hostOrDefault lib (nc_Host c) (nc_URL c), ns_GPUModel := nc_GPUModel c,
                  ns_NvidiaIndex := nc_NvidiaIndex c, ns_MaxInFlight := nc_MaxInFlight c,
                  ns_Runtime := nc_Runtime c \<rparr>;
          n2 = (if nc_VRAMTotalMB c > 0 then
                  let m = n1\<lparr> ns_VRAMTotalMBConfig := nc_VRAMTotalMB c \<rparr> in
                  if ns_VRAMSource m \<noteq> ''agent'' \<and> ns_VRAMSource m \<noteq> ''nvidia''
                  then m\<lparr> ns_VRAMTotalMB := nc_VRAMTotalMB c, ns_VRAMSource := ''declared'' \<rparr>
                  else m
                else n1);
          wantAuto = (nc_Runtime c = ''auto'')
      in if runtimeChanged \<or> ns_autoDetect n2 \<noteq> wantAuto then
           (if wantAuto then n2\<lparr> ns_autoDetect := True, ns_probe := None \<rparr>
            else n2\<lparr> ns_autoDetect := False, ns_probe := Some (nc_Runtime c) \<rparr>)
         else n2)"

section \<open>Live changes\<close>

record node_patch =
  np_VRAMTotalMB :: "int option"
  np_GPUModel :: "string option"
  np_Runtime :: "string option"
  np_GPUIndices :: "int list option"
  np_MaxInFlight :: "int option"
  np_TLSFingerprint :: "string option"
  np_ParallelismType :: "string option"
  np_ParallelismWidth :: "int option"
  np_VRAMOverrides :: "(string, int) gomap option"
  np_ReplicaPeers :: "replica_peers option"

definition patch_vram :: "int \<Rightarrow> node_state \<Rightarrow> node_state" where
  "patch_vram v n =
     (let m = n\<lparr> ns_VRAMTotalMBConfig := v \<rparr> in
      if ns_VRAMSource m = ''none'' \<or> ns_VRAMSource m = ''declared''
      then m\<lparr> ns_VRAMTotalMB := v, ns_VRAMSource := ''declared'' \<rparr> else m)"

definition patch_runtime :: "string \<Rightarrow> node_state \<Rightarrow> node_state" where
  "patch_runtime rt n =
     (let m = n\<lparr> ns_Runtime := rt, ns_RuntimeMismatchHint := [], ns_autoDetect := (rt = ''auto'') \<rparr> in
      if \<not> ns_autoDetect m then m\<lparr> ns_probe := Some rt \<rparr> else m)"

definition opt_upd :: "('v \<Rightarrow> 's \<Rightarrow> 's) \<Rightarrow> 'v option \<Rightarrow> 's \<Rightarrow> 's" where
  "opt_upd f p n = (case p of None \<Rightarrow> n | Some v \<Rightarrow> f v n)"

definition patch_node :: "node_patch \<Rightarrow> node_state \<Rightarrow> node_state" where
  "patch_node p n =
     (let n1 = opt_upd patch_vram (np_VRAMTotalMB p) n;
          n2 = opt_upd (\<lambda>v m. m\<lparr> ns_GPUModel := v \<rparr>) (np_GPUModel p) n1;
          n3 = opt_upd patch_runtime (np_Runtime p) n2;
          n4 = opt_upd (\<lambda>v m. m\<lparr> ns_DeclaredGPUIndices := v \<rparr>) (np_GPUIndices p) n3;
          n5 = opt_upd (\<lambda>v m. m\<lparr> ns_MaxInFlight := v \<rparr>) (np_MaxInFlight p) n4;
          n6 = opt_upd (\<lambda>v m. m\<lparr> ns_TLSFingerprint := v \<rparr>) (np_TLSFingerprint p) n5;
          n7 = opt_upd (\<lambda>v m. m\<lparr> ns_ParallelismType := v \<rparr>) (np_ParallelismType p) n6;
          n8 = opt_upd (\<lambda>v m. m\<lparr> ns_ParallelismWidth := v \<rparr>) (np_ParallelismWidth p) n7;
          n9 = opt_upd (\<lambda>v m. m\<lparr> ns_VRAMOverrides := v \<rparr>) (np_VRAMOverrides p) n8
      in opt_upd (\<lambda>v m. m\<lparr> ns_ReplicaPeers := Some v \<rparr>) (np_ReplicaPeers p) n9)"

definition drain_node :: "string \<Rightarrow> int \<Rightarrow> node_state \<Rightarrow> node_state" where
  "drain_node reason grace n =
     n\<lparr> ns_Draining := True, ns_DrainedReason := reason, ns_DrainedGraceSeconds := grace \<rparr>"

definition undrain_node :: "node_state \<Rightarrow> node_state" where
  "undrain_node n =
     n\<lparr> ns_Draining := False, ns_DrainedReason := [], ns_DrainedGraceSeconds := 0 \<rparr>"

section \<open>GPU requirements\<close>

definition deriveRequiredGPUs :: "int \<Rightarrow> int list \<Rightarrow> int" where
  "deriveRequiredGPUs width indices =
     (if width \<le> 0 then int (length indices)
      else if int (length indices) > width then int (length indices)
      else width)"

definition detectedVerifiedLocked :: "node_state \<Rightarrow> bool" where
  "detectedVerifiedLocked n =
     (case ns_DetectedGPUScope n of None \<Rightarrow> False | Some s \<Rightarrow> gs_CrossChecked s)"

definition effectiveRequiredGPUsLocked :: "node_state \<Rightarrow> int" where
  "effectiveRequiredGPUsLocked n =
     (if ns_ParallelismWidth n > 0 \<or> length (ns_DeclaredGPUIndices n) > 0
      then deriveRequiredGPUs (ns_ParallelismWidth n) (ns_DeclaredGPUIndices n)
      else if detectedVerifiedLocked n
              \<and> (ns_DetectedParallelismWidth n > 0 \<or> length (ns_DetectedGPUGroup n) > 0)
      then deriveRequiredGPUs (ns_DetectedParallelismWidth n) (ns_DetectedGPUGroup n)
      else 0)"

definition DetectedDrivesPlacement :: "node_state \<Rightarrow> bool" where
  "DetectedDrivesPlacement n =
     (if ns_ParallelismWidth n > 0 \<or> length (ns_DeclaredGPUIndices n) > 0 then False
      else detectedVerifiedLocked n
           \<and> (ns_DetectedParallelismWidth n > 0 \<or> length (ns_DetectedGPUGroup n) > 0))"

definition effectiveRequiredGPUsDeclaredLocked :: "node_state \<Rightarrow> int" where
  "effectiveRequiredGPUsDeclaredLocked n =
     deriveRequiredGPUs (ns_ParallelismWidth n) (ns_DeclaredGPUIndices n)"

definition effectiveDetectedRequiredGPUsLocked :: "node_state \<Rightarrow> int" where
  "effectiveDetectedRequiredGPUsLocked n =
     deriveRequiredGPUs (ns_DetectedParallelismWidth n) (ns_DetectedGPUGroup n)"

datatype mismatch = NoMismatch | GPUCountMismatch int int | TypeMismatch string string

definition MismatchWarning :: "node_state \<Rightarrow> mismatch" where
  "MismatchWarning n =
     (let declared = effectiveRequiredGPUsDeclaredLocked n;
          detected = effectiveDetectedRequiredGPUsLocked n
      in if declared = 0 \<or> detected = 0 then NoMismatch
         else if declared \<noteq> detected then GPUCountMismatch declared detected
         else if ns_ParallelismType n \<noteq> [] \<and> ns_DetectedParallelismType n \<noteq> []
                 \<and> ns_ParallelismType n \<noteq> ns_DetectedParallelismType n
         then TypeMismatch (ns_ParallelismType n) (ns_DetectedParallelismType n)
         else NoMismatch)"

section \<open>Histories\<close>

definition successHistoryCap :: nat where "successHistoryCap = 50"
definition recentTTFTCap :: nat where "recentTTFTCap = 10"

definition record_outcome :: "gotime \<Rightarrow> bool \<Rightarrow> node_state \<Rightarrow> node_state" where
  "record_outcome now success n =
     (let m = n\<lparr> ns_SuccessHistory := push_capped successHistoryCap success (ns_SuccessHistory n) \<rparr> in
      if \<not> success then m\<lparr> ns_LastErrorAt := now \<rparr> else m)"

text \<open>\<^verbatim>\<open>time.Duration.Seconds\<close> of a positive duration.\<close>

definition duration_seconds :: "duration \<Rightarrow> float64" where
  "duration_seconds d =
     fadd (f_of_int (d div 1000000000)) (fdiv (f_of_int (d mod 1000000000)) 1000000000)"

definition record_ttft :: "duration \<Rightarrow> node_state \<Rightarrow> node_state" where
  "record_ttft ttft n =
     n\<lparr> ns_RecentTTFT := push_capped recentTTFTCap (duration_seconds ttft) (ns_RecentTTFT n) \<rparr>"

section \<open>Lemmas\<close>

interpretation success_hist: capped_history "push_capped successHistoryCap" successHistoryCap
  by unfold_locales (rule push_capped_last_n)

interpretation ttft_hist: capped_history "push_capped recentTTFTCap" recentTTFTCap
  by unfold_locales (rule push_capped_last_n)

lemma set_probe_simps [simp]:
  "ns_Name (set_probe rt n) = ns_Name n" "ns_URL (set_probe rt n) = ns_URL n"
  "ns_Host (set_probe rt n) = ns_Host n" "ns_Draining (set_probe rt n) = ns_Draining n"
  "ns_Healthy (set_probe rt n) = ns_Healthy n"
  by (simp_all add: set_probe_def)

lemma new_node_simps [simp]:
  "ns_Name (new_node lib now c) = nc_Name c" "ns_URL (new_node lib now c) = nc_URL c"
  "ns_Draining (new_node lib now c) = False"
  by (simp_all add: new_node_def zero_node_def)

lemma added_node_simps [simp]:
  "ns_Name (added_node lib now c) = nc_Name c" "ns_URL (added_node lib now c) = nc_URL c"
  "ns_Draining (added_node lib now c) = False"
  by (simp_all add: added_node_def Let_def)

lemma replacementNodeState_simps [simp]:
  "ns_Name (replacementNodeState now old url host) = ns_Name old"
  "ns_URL (replacementNodeState now old url host) = url"
  "ns_Host (replacementNodeState now old url host) = host"
  "ns_Draining (replacementNodeState now old url host) = ns_Draining old"
  "ns_DrainedReason (replacementNodeState now old url host) = ns_DrainedReason old"
  "ns_DrainedGraceSeconds (replacementNodeState now old url host) = ns_DrainedGraceSeconds old"
  "ns_LoadedModels (replacementNodeState now old url host) = []"
  by (simp_all add: replacementNodeState_def Let_def zero_node_def)

lemma refresh_node_simps [simp]:
  "ns_Name (refresh_node lib c n) = ns_Name n" "ns_URL (refresh_node lib c n) = ns_URL n"
  "ns_Draining (refresh_node lib c n) = ns_Draining n"
  "ns_DrainedReason (refresh_node lib c n) = ns_DrainedReason n"
  "ns_DrainedGraceSeconds (refresh_node lib c n) = ns_DrainedGraceSeconds n"
  by (simp_all add: refresh_node_def Let_def)

lemma opt_upd_frame: "(\<And>v m. f (g v m) = f m) \<Longrightarrow> f (opt_upd g p n) = f n"
  by (simp add: opt_upd_def split: option.split)

lemma patch_vram_simps [simp]:
  "ns_Name (patch_vram v n) = ns_Name n" "ns_URL (patch_vram v n) = ns_URL n"
  "ns_Draining (patch_vram v n) = ns_Draining n" "ns_ReplicaPeers (patch_vram v n) = ns_ReplicaPeers n"
  by (simp_all add: patch_vram_def Let_def)

lemma patch_runtime_simps [simp]:
  "ns_Name (patch_runtime v n) = ns_Name n" "ns_URL (patch_runtime v n) = ns_URL n"
  "ns_Draining (patch_runtime v n) = ns_Draining n"
  by (simp_all add: patch_runtime_def Let_def)

lemma patch_node_simps [simp]:
  "ns_Name (patch_node p n) = ns_Name n" "ns_URL (patch_node p n) = ns_URL n"
  "ns_Draining (patch_node p n) = ns_Draining n"
  by (simp_all add: patch_node_def Let_def opt_upd_frame [where f = ns_Name]
      opt_upd_frame [where f = ns_URL] opt_upd_frame [where f = ns_Draining])

lemma drain_node_simps [simp]:
  "ns_Name (drain_node r g n) = ns_Name n" "ns_URL (drain_node r g n) = ns_URL n"
  "ns_Name (undrain_node n) = ns_Name n" "ns_URL (undrain_node n) = ns_URL n"
  by (simp_all add: drain_node_def undrain_node_def)

lemma deriveRequiredGPUs_ge: "int (length ix) \<le> deriveRequiredGPUs w ix" "w \<le> deriveRequiredGPUs w ix"
  by (auto simp: deriveRequiredGPUs_def)

lemma undrain_drain: "\<not> ns_Draining n \<Longrightarrow> ns_DrainedReason n = [] \<Longrightarrow> ns_DrainedGraceSeconds n = 0 \<Longrightarrow>
  undrain_node (drain_node r g n) = n"
  by (simp add: drain_node_def undrain_node_def)

end
