(* ===== verification/Union_Find.thy ===== *)
theory Union_Find
  imports Prelude "HOL-Library.Monad_Syntax"
begin

text \<open>
  The union-find closures of \<^verbatim>\<open>resolveSchedulingRolesAndHeads\<close> and
  \<^verbatim>\<open>componentFor\<close> (\<^verbatim>\<open>internal/router/placement.go\<close>): a \<^verbatim>\<open>parent\<close> map whose
  \<^verbatim>\<open>find\<close> compresses paths as it climbs.  \<^verbatim>\<open>find\<close> recurses on map contents, so
  it is a partial function; on every map built by \<^verbatim>\<open>union\<close> it returns, and the
  classes it computes are the connected components of the edges given to
  \<^verbatim>\<open>union\<close>.
\<close>

section \<open>Definitions\<close>

type_synonym 'a parents = "('a, 'a) gomap"

definition uf_touch :: "'a \<Rightarrow> 'a parents \<Rightarrow> 'a parents" where
  "uf_touch x parent = (case gm_get parent x of None \<Rightarrow> gm_put x x parent | Some _ \<Rightarrow> parent)"

partial_function (option) uf_find :: "'a parents \<Rightarrow> 'a \<Rightarrow> ('a parents \<times> 'a) option" where
  "uf_find parent x =
     (let parent1 = uf_touch x parent; px = gm_at x parent1 x in
      if px \<noteq> x then
        Option.bind (uf_find parent1 px) (\<lambda>(parent2, r). Some (gm_put x r parent2, r))
      else Some (parent1, x))"

definition uf_union :: "'a parents \<Rightarrow> 'a \<Rightarrow> 'a \<Rightarrow> 'a parents option" where
  "uf_union parent a b =
     Option.bind (uf_find parent a) (\<lambda>(parent1, ra).
       Option.bind (uf_find parent1 b) (\<lambda>(parent2, rb).
         Some (if ra \<noteq> rb then gm_put ra rb parent2 else parent2)))"

fun uf_unions :: "'a parents \<Rightarrow> ('a \<times> 'a) list \<Rightarrow> 'a parents option" where
  "uf_unions parent [] = Some parent"
| "uf_unions parent ((a, b) # es) =
     Option.bind (uf_union parent a b) (\<lambda>parent1. uf_unions parent1 es)"

section \<open>Roots\<close>

text \<open>The root a name climbs to; a name outside the map is its own root.\<close>

inductive uf_root :: "'a parents \<Rightarrow> 'a \<Rightarrow> 'a \<Rightarrow> bool" for p where
  none: "gm_get p x = None \<Longrightarrow> uf_root p x x"
| self: "gm_get p x = Some x \<Longrightarrow> uf_root p x x"
| up: "gm_get p x = Some y \<Longrightarrow> y \<noteq> x \<Longrightarrow> uf_root p y r \<Longrightarrow> uf_root p x r"

inductive_cases uf_rootE: "uf_root p x r"

definition uf_ok :: "'a parents \<Rightarrow> bool" where
  "uf_ok p \<longleftrightarrow> (\<forall>x. \<exists>r. uf_root p x r) \<and> (\<forall>x y. gm_get p x = Some y \<longrightarrow> y \<in> fst ` set p)"

definition uf_same :: "'a parents \<Rightarrow> 'a \<Rightarrow> 'a \<Rightarrow> bool" where
  "uf_same p x y \<longleftrightarrow> (\<exists>r. uf_root p x r \<and> uf_root p y r)"

lemma uf_root_det: "uf_root p x r \<Longrightarrow> uf_root p x s \<Longrightarrow> r = s"
proof (induction arbitrary: s rule: uf_root.induct)
  case (none x)
  from none(2,1) show ?case by (cases rule: uf_root.cases) auto
next
  case (self x)
  from self(2,1) show ?case by (cases rule: uf_root.cases) auto
next
  case (up x y r)
  from up(5,1,2) show ?case by (cases rule: uf_root.cases) (auto dest: up.IH)
qed

lemma uf_root_iff:
  assumes "uf_root p x r"
  shows "uf_root p x s \<longleftrightarrow> s = r"
proof
  assume "uf_root p x s"
  then show "s = r" using assms by (rule uf_root_det)
qed (use assms in simp)

lemma uf_root_fix: "uf_root p x r \<Longrightarrow> gm_get p r = None \<or> gm_get p r = Some r"
  by (induction rule: uf_root.induct) auto

lemma uf_root_in: "uf_root p x r \<Longrightarrow> uf_ok p \<Longrightarrow> x \<in> fst ` set p \<Longrightarrow> gm_get p r = Some r"
proof (induction rule: uf_root.induct)
  case (none x)
  then show ?case by (simp add: map_of_eq_None_iff)
next
  case (up x y r)
  then have "y \<in> fst ` set p" unfolding uf_ok_def by blast
  with up show ?case by blast
qed

lemma uf_root_self: "gm_get p r = None \<or> gm_get p r = Some r \<Longrightarrow> uf_root p r r"
  by (auto intro: uf_root.intros)

lemma uf_ok_Nil [simp]: "uf_ok []"
proof -
  have "\<exists>r. uf_root [] x r" for x :: 'a by (rule exI, rule uf_root.none) simp
  then show ?thesis by (simp add: uf_ok_def)
qed

lemma uf_root_ex: "uf_ok p \<Longrightarrow> \<exists>r. uf_root p x r"
  by (simp add: uf_ok_def)

lemma uf_same_sym: "uf_same p x y \<longleftrightarrow> uf_same p y x"
  by (auto simp: uf_same_def)

lemma uf_same_iff:
  assumes "uf_root p x rx" "uf_root p y ry"
  shows "uf_same p x y \<longleftrightarrow> rx = ry"
proof
  assume "uf_same p x y"
  then obtain r where "uf_root p x r" "uf_root p y r" by (auto simp: uf_same_def)
  then show "rx = ry" using uf_root_det [OF assms(1)] uf_root_det [OF assms(2)] by simp
qed (use assms in \<open>auto simp: uf_same_def\<close>)

lemma uf_same_trans: "uf_same p x y \<Longrightarrow> uf_same p y z \<Longrightarrow> uf_same p x z"
proof -
  assume "uf_same p x y" "uf_same p y z"
  then obtain r s where "uf_root p x r" and y: "uf_root p y r" "uf_root p y s" and "uf_root p z s"
    by (auto simp: uf_same_def)
  moreover have "r = s" using y by (rule uf_root_det)
  ultimately show ?thesis by (auto simp: uf_same_def)
qed

lemma uf_same_refl: "uf_ok p \<Longrightarrow> uf_same p x x"
  by (auto simp: uf_same_def uf_ok_def)

subsection \<open>Updates that keep or merge the classes\<close>

text \<open>Touching a new name and redirecting a name to its root both keep every root.\<close>

lemma uf_root_touch: "uf_root p x r \<Longrightarrow> uf_root (uf_touch z p) x r"
proof (induction rule: uf_root.induct)
  case (none x)
  then show ?case
    by (intro uf_root_self) (auto simp: uf_touch_def gm_get_put split: option.split)
next
  case (self x)
  then show ?case
    by (auto simp: uf_touch_def gm_get_put split: option.split intro!: uf_root.self)
next
  case (up x y r)
  then have "gm_get (uf_touch z p) x = Some y"
    by (auto simp: uf_touch_def gm_get_put split: option.split)
  then show ?case using up by (auto intro: uf_root.up)
qed

lemma uf_root_compress:
  assumes "uf_root p z rz" "uf_root p x r"
  shows "uf_root (gm_put z rz p) x r"
  using assms(2)
proof (induction rule: uf_root.induct)
  case (none x)
  then have "x = z \<Longrightarrow> rz = x" using assms(1) by (auto elim: uf_rootE)
  then show ?case using none by (cases "x = z") (auto intro!: uf_root_self simp: gm_get_put)
next
  case (self x)
  then have "x = z \<Longrightarrow> rz = x" using assms(1) by (auto elim: uf_rootE)
  then show ?case using self by (cases "x = z") (auto intro!: uf_root_self simp: gm_get_put)
next
  case (up x y r)
  show ?case
  proof (cases "x = z")
    case True
    with up have "rz = r" using assms(1) uf_root_det uf_root.up by metis
    moreover have "gm_get p r = None \<or> gm_get p r = Some r" using up.hyps(3) by (rule uf_root_fix)
    then have "uf_root (gm_put z r p) r r"
      by (cases "r = z") (auto intro!: uf_root_self simp: gm_get_put)
    ultimately show ?thesis
      using True by (cases "r = z") (auto intro: uf_root.intros simp: gm_get_put)
  next
    case False
    then show ?thesis using up by (auto intro: uf_root.up simp: gm_get_put)
  qed
qed

text \<open>Linking one root below another merges their classes.\<close>

lemma uf_root_link:
  assumes "gm_get p ra = Some ra" "gm_get p rb = Some rb" "ra \<noteq> rb" "uf_root p x r"
  shows "uf_root (gm_put ra rb p) x (if r = ra then rb else r)"
  using assms(4)
proof (induction rule: uf_root.induct)
  case (none x)
  then show ?case using assms by (auto intro!: uf_root_self simp: gm_get_put)
next
  case (self x)
  then show ?case
  proof (cases "x = ra")
    case True
    have "uf_root (gm_put ra rb p) rb rb" using assms by (intro uf_root_self) (simp add: gm_get_put)
    with True assms show ?thesis by (auto intro: uf_root.up simp: gm_get_put)
  next
    case False
    with self show ?thesis by (auto intro!: uf_root_self simp: gm_get_put)
  qed
next
  case (up x y r)
  then have "x \<noteq> ra" using assms(1) by auto
  then show ?case using up by (auto intro: uf_root.up simp: gm_get_put)
qed

section \<open>Find\<close>

text \<open>Same roots, and the keys of \<open>p\<close> plus \<open>xs\<close>.\<close>

definition uf_refines :: "'a parents \<Rightarrow> 'a set \<Rightarrow> 'a parents \<Rightarrow> bool" where
  "uf_refines p xs p' \<longleftrightarrow>
     uf_ok p' \<and> (\<forall>y s. uf_root p y s \<longrightarrow> uf_root p' y s)
     \<and> fst ` set p' = fst ` set p \<union> xs \<and> (gm_wf p \<longrightarrow> gm_wf p')"

lemma uf_find_root:
  assumes "uf_root p x r" "uf_ok p"
  shows "\<exists>p'. uf_find p x = Some (p', r) \<and> uf_refines p {x} p'"
  using assms(1)
proof (induction rule: uf_root.induct)
  case (none x)
  have "uf_find p x = Some (uf_touch x p, x)"
    using none by (subst uf_find.simps) (simp add: Let_def uf_touch_def gm_at_def gm_get_put)
  moreover have "uf_ok (uf_touch x p)"
    unfolding uf_ok_def
  proof (intro conjI allI impI)
    show "\<exists>r. uf_root (uf_touch x p) z r" for z
      using uf_root_ex [OF assms(2), of z] uf_root_touch [of p z _ x] by blast
    show "v \<in> fst ` set (uf_touch x p)" if "gm_get (uf_touch x p) u = Some v" for u v
      using that none assms(2) by (auto simp: uf_touch_def gm_get_put gm_dom_put uf_ok_def split: if_splits)
  qed
  moreover have "fst ` set (uf_touch x p) = fst ` set p \<union> {x}" "gm_wf p \<Longrightarrow> gm_wf (uf_touch x p)"
    using none by (auto simp: uf_touch_def gm_dom_put)
  ultimately show ?case by (auto simp: uf_refines_def uf_root_touch)
next
  case (self x)
  have "uf_find p x = Some (p, x)"
    using self by (subst uf_find.simps) (simp add: Let_def uf_touch_def gm_at_def)
  then show ?case using assms(2) gm_key [OF self] by (auto simp: uf_refines_def)
next
  case (up x y r)
  then obtain p2 where f: "uf_find p y = Some (p2, r)" and p2: "uf_refines p {y} p2" by blast
  have "uf_find p x = Some (gm_put x r p2, r)"
    using up(1,2) f by (subst uf_find.simps) (simp add: Let_def uf_touch_def gm_at_def)
  moreover have y: "y \<in> fst ` set p" using up(1) assms(2) unfolding uf_ok_def by blast
  then have keys: "fst ` set p2 = fst ` set p" "x \<in> fst ` set p2"
    using p2 gm_key [OF up(1)] by (auto simp: uf_refines_def)
  have ok2: "uf_ok p2" using p2 by (simp add: uf_refines_def)
  have xr: "uf_root p2 x r" using p2 uf_root.up [OF up(1-3)] by (auto simp: uf_refines_def)
  then have rr: "gm_get p2 r = Some r" using ok2 keys(2) by (rule uf_root_in)
  have "uf_ok (gm_put x r p2)"
    unfolding uf_ok_def
  proof (intro conjI allI impI)
    show "\<exists>s. uf_root (gm_put x r p2) z s" for z
      using uf_root_ex [OF ok2, of z] uf_root_compress [OF xr, of z] by blast
    show "v \<in> fst ` set (gm_put x r p2)" if "gm_get (gm_put x r p2) u = Some v" for u v
      using that ok2 gm_key [OF rr] by (auto simp: gm_get_put gm_dom_put uf_ok_def split: if_splits)
  qed
  moreover have "uf_root (gm_put x r p2) z t" if "uf_root p z t" for z t
    using p2 that by (intro uf_root_compress [OF xr]) (simp add: uf_refines_def)
  moreover have "fst ` set (gm_put x r p2) = fst ` set p \<union> {x}" using keys by (simp add: gm_dom_put)
  moreover have "gm_wf p \<longrightarrow> gm_wf (gm_put x r p2)" using p2 by (simp add: uf_refines_def)
  ultimately show ?case by (simp add: uf_refines_def)
qed

lemma uf_refines_root: "uf_refines p xs p' \<Longrightarrow> uf_ok p \<Longrightarrow> uf_root p' y s \<longleftrightarrow> uf_root p y s"
proof -
  assume r: "uf_refines p xs p'" and ok: "uf_ok p"
  obtain s' where "uf_root p y s'" using uf_root_ex [OF ok, of y] by blast
  moreover from this have "uf_root p' y s'" using r by (simp add: uf_refines_def)
  ultimately show ?thesis by (simp add: uf_root_iff)
qed

lemma uf_refines_same: "uf_refines p xs p' \<Longrightarrow> uf_ok p \<Longrightarrow> uf_same p' x y \<longleftrightarrow> uf_same p x y"
proof -
  assume r: "uf_refines p xs p'" and ok: "uf_ok p"
  obtain rx ry where "uf_root p x rx" "uf_root p y ry" using uf_root_ex [OF ok, of x] uf_root_ex [OF ok, of y] by blast
  moreover from this have "uf_root p' x rx" "uf_root p' y ry" using r by (auto simp: uf_refines_def)
  ultimately show ?thesis by (simp add: uf_same_iff)
qed

lemma uf_union_spec:
  assumes "uf_ok p"
  shows "\<exists>p'. uf_union p a b = Some p' \<and> uf_ok p' \<and> (gm_wf p \<longrightarrow> gm_wf p')
    \<and> fst ` set p' = fst ` set p \<union> {a, b}
    \<and> (\<forall>x y. uf_same p' x y \<longleftrightarrow>
         uf_same p x y \<or> (uf_same p x a \<and> uf_same p b y) \<or> (uf_same p x b \<and> uf_same p a y))"
proof -
  obtain ra where ra: "uf_root p a ra" using uf_root_ex [OF assms, of a] by blast
  then obtain p1 where f1: "uf_find p a = Some (p1, ra)" and p1: "uf_refines p {a} p1"
    using uf_find_root [OF ra assms] by blast
  then have ok1: "uf_ok p1" by (simp add: uf_refines_def)
  obtain rb where rb: "uf_root p1 b rb" using uf_root_ex [OF ok1, of b] by blast
  then obtain p2 where f2: "uf_find p1 b = Some (p2, rb)" and p2: "uf_refines p1 {b} p2"
    using uf_find_root [OF rb ok1] by blast
  then have ok2: "uf_ok p2" by (simp add: uf_refines_def)
  have keys: "fst ` set p2 = fst ` set p \<union> {a, b}" using p1 p2 by (auto simp: uf_refines_def)
  have ra2: "uf_root p2 a ra" and rb2: "uf_root p2 b rb"
    using ra rb p1 p2 by (auto simp: uf_refines_def)
  have same2: "uf_same p2 x y \<longleftrightarrow> uf_same p x y" for x y
    using uf_refines_same [OF p1 assms] uf_refines_same [OF p2 ok1] by blast
  have fa: "gm_get p2 ra = Some ra" and fb: "gm_get p2 rb = Some rb"
    using uf_root_in [OF ra2 ok2] uf_root_in [OF rb2 ok2] keys by blast+
  show ?thesis
  proof (cases "ra = rb")
    case True
    then have ab: "uf_same p a b" using ra2 rb2 same2 by (auto simp: uf_same_def)
    have "uf_union p a b = Some p2" using f1 f2 True by (simp add: uf_union_def)
    moreover have "uf_same p x y \<or> (uf_same p x a \<and> uf_same p b y) \<or> (uf_same p x b \<and> uf_same p a y)
      \<longleftrightarrow> uf_same p x y" for x y
      using ab uf_same_sym [of p] by (blast intro: uf_same_trans)
    ultimately show ?thesis using ok2 keys same2 p1 p2 by (auto simp: uf_refines_def)
  next
    case False
    let ?q = "gm_put ra rb p2"
    have link: "uf_root p2 x r \<Longrightarrow> uf_root ?q x (if r = ra then rb else r)" for x r
      using uf_root_link [OF fa fb False] .
    have okq: "uf_ok ?q" unfolding uf_ok_def
    proof (intro conjI allI impI)
      show "\<exists>r. uf_root ?q z r" for z using link [of z] uf_root_ex [OF ok2, of z] by blast
      show "v \<in> fst ` set ?q" if "gm_get ?q u = Some v" for u v
        using that ok2 gm_key [OF fb] by (auto simp: gm_get_put gm_dom_put uf_ok_def split: if_splits)
    qed
    have rq: "\<exists>r. uf_root p2 z r \<and> uf_root ?q z (if r = ra then rb else r)" for z
      using link [of z] uf_root_ex [OF ok2, of z] by blast
    have "uf_same ?q x y \<longleftrightarrow>
      uf_same p2 x y \<or> (uf_same p2 x a \<and> uf_same p2 b y) \<or> (uf_same p2 x b \<and> uf_same p2 a y)" for x y
    proof -
      obtain rx ry where x: "uf_root p2 x rx" "uf_root ?q x (if rx = ra then rb else rx)"
        and y: "uf_root p2 y ry" "uf_root ?q y (if ry = ra then rb else ry)" using rq [of x] rq [of y] by blast
      note s2 = uf_same_iff [of p2]
      have "uf_same ?q x y \<longleftrightarrow> (if rx = ra then rb else rx) = (if ry = ra then rb else ry)"
        using x(2) y(2) by (rule uf_same_iff)
      then show ?thesis
        using s2 [OF x(1) y(1)] s2 [OF x(1) ra2] s2 [OF rb2 y(1)] s2 [OF x(1) rb2] s2 [OF ra2 y(1)]
        by auto
    qed
    moreover have "uf_union p a b = Some ?q" using f1 f2 False by (simp add: uf_union_def)
    moreover have "fst ` set ?q = fst ` set p \<union> {a, b}"
      using keys gm_key [OF fa] by (auto simp: gm_dom_put)
    ultimately show ?thesis using okq same2 p1 p2 by (auto simp: uf_refines_def)
  qed
qed

section \<open>Classes are connected components\<close>

definition linked :: "('a \<times> 'a) set \<Rightarrow> 'a \<Rightarrow> 'a \<Rightarrow> bool" where
  "linked es x y \<longleftrightarrow> (x, y) \<in> (es \<union> es\<inverse>)\<^sup>*"

lemma linked_refl [simp]: "linked es x x"
  by (simp add: linked_def)

lemma linked_sym: "linked es x y \<longleftrightarrow> linked es y x"
proof -
  have "(es \<union> es\<inverse>)\<inverse> = es \<union> es\<inverse>" by auto
  then show ?thesis by (metis linked_def converse_iff rtrancl_converse)
qed

lemma linked_trans: "linked es x y \<Longrightarrow> linked es y z \<Longrightarrow> linked es x z"
  by (simp add: linked_def)

lemma linked_edge: "(x, y) \<in> es \<Longrightarrow> linked es x y"
  by (auto simp: linked_def)

lemma linked_insert:
  "linked (insert (a, b) es) x y \<longleftrightarrow>
     linked es x y \<or> (linked es x a \<and> linked es b y) \<or> (linked es x b \<and> linked es a y)"
proof
  assume "linked (insert (a, b) es) x y"
  then show "linked es x y \<or> (linked es x a \<and> linked es b y) \<or> (linked es x b \<and> linked es a y)"
    unfolding linked_def [of "insert (a, b) es"]
  proof (induction rule: rtrancl_induct)
    case base
    then show ?case by simp
  next
    case (step y z)
    then consider "linked es y z" | "y = a" "z = b" | "y = b" "z = a"
      using linked_edge [of y z es] linked_edge [of z y es] linked_sym [of es y z] by auto
    then show ?case
      using step.IH linked_trans [of es x y z] linked_trans [of es b y z] linked_trans [of es a y z]
      by cases auto
  qed
next
  have mono: "linked es u v \<Longrightarrow> linked (insert (a, b) es) u v" for u v
    unfolding linked_def by (erule rtrancl_mono [THEN subsetD, rotated]) auto
  have ab: "linked (insert (a, b) es) a b" "linked (insert (a, b) es) b a"
    using linked_edge [of a b "insert (a, b) es"] linked_sym [of "insert (a, b) es" a b] by simp_all
  assume "linked es x y \<or> (linked es x a \<and> linked es b y) \<or> (linked es x b \<and> linked es a y)"
  then show "linked (insert (a, b) es) x y"
    using mono [of x y] mono [of x a] mono [of b y] mono [of x b] mono [of a y] ab
      linked_trans [of "insert (a, b) es" x a b] linked_trans [of "insert (a, b) es" x b y]
      linked_trans [of "insert (a, b) es" x b a] linked_trans [of "insert (a, b) es" x a y] by auto
qed

lemma uf_unions_spec:
  assumes "uf_ok p" "\<And>x y. uf_same p x y \<longleftrightarrow> linked es x y" "gm_wf p"
  shows "\<exists>p'. uf_unions p ab = Some p' \<and> uf_ok p' \<and> gm_wf p'
    \<and> fst ` set p' = fst ` set p \<union> (fst ` set ab \<union> snd ` set ab)
    \<and> (\<forall>x y. uf_same p' x y \<longleftrightarrow> linked (es \<union> set ab) x y)"
  using assms
proof (induction ab arbitrary: p es)
  case Nil
  then show ?case by auto
next
  case (Cons e ab)
  obtain a b where e: "e = (a, b)" by (cases e)
  obtain q where q: "uf_union p a b = Some q" "uf_ok q" "gm_wf q"
    "fst ` set q = fst ` set p \<union> {a, b}"
    "\<And>x y. uf_same q x y \<longleftrightarrow>
       uf_same p x y \<or> (uf_same p x a \<and> uf_same p b y) \<or> (uf_same p x b \<and> uf_same p a y)"
    using uf_union_spec [OF Cons.prems(1), of a b] Cons.prems(3) by blast
  have "uf_same q x y \<longleftrightarrow> linked (insert e es) x y" for x y
    by (simp add: q(5) Cons.prems(2) e linked_insert)
  from Cons.IH [OF q(2) this q(3)] obtain p' where p': "uf_unions q ab = Some p' \<and> uf_ok p' \<and> gm_wf p'
    \<and> fst ` set p' = fst ` set q \<union> (fst ` set ab \<union> snd ` set ab)
    \<and> (\<forall>x y. uf_same p' x y \<longleftrightarrow> linked (insert e es \<union> set ab) x y)" by (rule exE)
  have "fst ` set p' = fst ` set p \<union> (fst ` set (e # ab) \<union> snd ` set (e # ab))"
    using p' q(4) e by auto
  then show ?case using p' q(1) e by simp
qed

lemma uf_unions_components:
  "\<exists>p. uf_unions [] ab = Some p \<and> uf_ok p \<and> gm_wf p
    \<and> fst ` set p = fst ` set ab \<union> snd ` set ab
    \<and> (\<forall>x y. uf_same p x y \<longleftrightarrow> linked (set ab) x y)"
proof -
  have "uf_same [] x y \<longleftrightarrow> linked {} x y" for x y :: 'a
    using uf_same_iff [of "[]" x x y y] uf_root.none [of "[]" x] uf_root.none [of "[]" y]
    by (simp add: linked_def)
  from uf_unions_spec [OF uf_ok_Nil this, of ab] show ?thesis by simp
qed

end
