(* ===== verification/Replicas.thy ===== *)
theory Replicas
  imports Nodes Union_Find
begin

text \<open>
  Multi-host replicas (\<^verbatim>\<open>internal/router/placement.go\<close>): from the peers each
  node declares, the scheduling role of every node and the head of every valid
  component, the heads whose workers are unreachable, and the replica a node
  belongs to.

  The fleet-wide resolution runs union-find over every declared edge and then
  validates each component; the specification states the same thing with
  connected components only.
\<close>

section \<open>Data\<close>

datatype scheduling_role = RoleStandalone | RoleHead | RoleWorker | RoleUnresolved

text \<open>A node's own declaration; \<open>rd_members\<close> lists the keys of the Go set without repetition.\<close>

record replica_decl =
  rd_members :: "string list"
  rd_head :: string

type_synonym roles = "(string, scheduling_role) gomap"
type_synonym heads = "(string, string) gomap"

text \<open>\<^verbatim>\<open>roles[name]\<close>, whose zero value is the standalone role.\<close>

definition role_of :: "roles \<Rightarrow> string \<Rightarrow> scheduling_role" where
  "role_of roles name = gm_at RoleStandalone roles name"

section \<open>Declarations\<close>

definition declared_peers :: "node_state \<Rightarrow> replica_peers option" where
  "declared_peers n =
     (case ns_ReplicaPeers n of
        None \<Rightarrow> None
      | Some rp \<Rightarrow> if rp_Members rp = [] then None else Some rp)"

definition decl_of :: "replica_peers \<Rightarrow> replica_decl" where
  "decl_of rp = \<lparr> rd_members = remdups (rp_Members rp), rd_head = rp_Head rp \<rparr>"

fun declare_loop ::
  "node_state list \<Rightarrow> string parents \<Rightarrow> (string, replica_decl) gomap
     \<Rightarrow> (string parents \<times> (string, replica_decl) gomap) option" where
  "declare_loop [] parent declBy = Some (parent, declBy)"
| "declare_loop (n # ns) parent declBy =
     (case declared_peers n of
        None \<Rightarrow> declare_loop ns parent declBy
      | Some rp \<Rightarrow>
        Option.bind (uf_unions parent (map (\<lambda>m. (ns_Name n, m)) (rp_Members rp)))
          (\<lambda>parent'. declare_loop ns parent' (gm_put (ns_Name n) (decl_of rp) declBy)))"

section \<open>Components and their validation\<close>

fun collect_components ::
  "string list \<Rightarrow> string parents \<Rightarrow> (string, string list) gomap
     \<Rightarrow> (string parents \<times> (string, string list) gomap) option" where
  "collect_components [] parent comps = Some (parent, comps)"
| "collect_components (name # names) parent comps =
     Option.bind (uf_find parent name) (\<lambda>(parent', root).
       collect_components names parent'
         (gm_put root (List.insert name (gm_at [] comps root)) comps))"

text \<open>The loop over the members, with the head agreed on so far; \<open>None\<close> is an early false return.\<close>

fun validate_members ::
  "string list \<Rightarrow> string list \<Rightarrow> (string, replica_decl) gomap \<Rightarrow> string list
     \<Rightarrow> string option \<Rightarrow> string option option" where
  "validate_members members nodeSet declBy [] agreed = Some agreed"
| "validate_members members nodeSet declBy (name # names) agreed =
     (if name \<notin> set nodeSet then None
      else case gm_get declBy name of
        None \<Rightarrow> None
      | Some d \<Rightarrow>
        if length (rd_members d) \<noteq> length members then None
        else if \<not> list_all (\<lambda>m. m \<in> set (rd_members d)) members then None
        else case agreed of
          None \<Rightarrow> validate_members members nodeSet declBy names (Some (rd_head d))
        | Some h \<Rightarrow> if rd_head d \<noteq> h then None
            else validate_members members nodeSet declBy names agreed)"

definition validateComponent ::
  "string list \<Rightarrow> string list \<Rightarrow> (string, replica_decl) gomap \<Rightarrow> bool \<times> string" where
  "validateComponent members nodeSet declBy =
     (case validate_members members nodeSet declBy members None of
        None \<Rightarrow> (False, [])
      | Some agreed \<Rightarrow>
        (case agreed of
           None \<Rightarrow> (False, [])
         | Some h \<Rightarrow> if h = [] \<or> h \<notin> set members then (False, []) else (True, h)))"

fun assign_members ::
  "bool \<Rightarrow> string \<Rightarrow> string list \<Rightarrow> string list \<Rightarrow> roles \<times> heads \<Rightarrow> roles \<times> heads" where
  "assign_members valid head nodeSet [] acc = acc"
| "assign_members valid head nodeSet (name # names) (roles, heads) =
     (if name \<notin> set nodeSet then assign_members valid head nodeSet names (roles, heads)
      else if \<not> valid then
        assign_members valid head nodeSet names (gm_put name RoleUnresolved roles, heads)
      else
        assign_members valid head nodeSet names
          (gm_put name (if name = head then RoleHead else RoleWorker) roles, gm_put name head heads))"

definition assign_component ::
  "string list \<Rightarrow> (string, replica_decl) gomap \<Rightarrow> string list \<Rightarrow> roles \<times> heads \<Rightarrow> roles \<times> heads" where
  "assign_component nodeSet declBy members acc =
     (case validateComponent members nodeSet declBy of
        (valid, head) \<Rightarrow> assign_members valid head nodeSet members acc)"

definition resolveSchedulingRolesAndHeads :: "node_state list \<Rightarrow> (roles \<times> heads) option" where
  "resolveSchedulingRolesAndHeads nodes =
     (let nodeSet = map ns_Name nodes in
      Option.bind (declare_loop nodes [] []) (\<lambda>(parent, declBy).
        if declBy = [] then Some ([], [])
        else
          Option.bind (collect_components (map fst parent) parent []) (\<lambda>(parent', components).
            Some (fold (assign_component nodeSet declBy) (map snd components) ([], [])))))"

text \<open>
  The total reading the placement code uses; that the resolution always returns
  is proved below.
\<close>

definition scheduling_roles :: "node_state list \<Rightarrow> roles \<times> heads" where
  "scheduling_roles nodes =
     (case resolveSchedulingRolesAndHeads nodes of None \<Rightarrow> ([], []) | Some rh \<Rightarrow> rh)"

definition resolveSchedulingRoles :: "node_state list \<Rightarrow> roles" where
  "resolveSchedulingRoles nodes = fst (scheduling_roles nodes)"

section \<open>Unreachable members\<close>

text \<open>\<^verbatim>\<open>down\<close>, from a head's name to the first stale worker found.\<close>

fun unreachable_loop ::
  "node_state list \<Rightarrow> roles \<Rightarrow> heads \<Rightarrow> (string, node_state) gomap \<Rightarrow> (string, node_state) gomap" where
  "unreachable_loop [] roles heads down = down"
| "unreachable_loop (n # ns) roles heads down =
     (if role_of roles (ns_Name n) \<noteq> RoleWorker then unreachable_loop ns roles heads down
      else
        let head = gm_at [] heads (ns_Name n) in
        if head = [] \<or> gm_get down head \<noteq> None then unreachable_loop ns roles heads down
        else if \<not> ns_AgentStale n then unreachable_loop ns roles heads down
        else unreachable_loop ns roles heads (gm_put head n down))"

definition unreachableReplicaHeads :: "node_state list \<Rightarrow> roles \<Rightarrow> heads \<Rightarrow> (string, node_state) gomap" where
  "unreachableReplicaHeads nodes roles heads =
     (if heads = [] then [] else unreachable_loop nodes roles heads [])"

section \<open>The replica of a node\<close>

definition by_name :: "node_state list \<Rightarrow> (string, node_state) gomap" where
  "by_name nodes = fold (\<lambda>n. gm_put (ns_Name n) n) nodes []"

text \<open>The names of the class of \<open>rootName\<close>, in the map's order.\<close>

fun class_names :: "string list \<Rightarrow> string \<Rightarrow> string parents \<Rightarrow> string list option" where
  "class_names [] rootName parent = Some []"
| "class_names (nm # names) rootName parent =
     Option.bind (uf_find parent nm) (\<lambda>(parent', r).
       Option.bind (class_names names rootName parent') (\<lambda>rest.
         Some (if r = rootName then nm # rest else rest)))"

text \<open>A nil entry of the returned slice is \<open>None\<close>.\<close>

definition componentFor :: "string \<Rightarrow> node_state list \<Rightarrow> (node_state option list \<times> string) option" where
  "componentFor name allNodes =
     (let byName = by_name allNodes; nodeSet = map ns_Name allNodes in
      Option.bind (declare_loop allNodes [] []) (\<lambda>(parent, declBy).
        if gm_get parent name = None then Some ([gm_get byName name], [])
        else
          Option.bind (uf_find parent name) (\<lambda>(parent1, root).
            Option.bind (class_names (map fst parent1) root parent1) (\<lambda>memberNames.
              Some (map Some (List.map_filter (gm_get byName) memberNames),
                    snd (validateComponent memberNames nodeSet declBy))))))"

definition effectiveGPUIndicesLocked :: "node_state \<Rightarrow> int list" where
  "effectiveGPUIndicesLocked n =
     (if length (ns_DeclaredGPUIndices n) > 0 then ns_DeclaredGPUIndices n
      else if detectedVerifiedLocked n then ns_DetectedGPUGroup n
      else [])"

definition primaryLoadedModelVariantLocked :: "node_state \<Rightarrow> string" where
  "primaryLoadedModelVariantLocked n =
     (case ns_LoadedModels n of
        [] \<Rightarrow> []
      | m # _ \<Rightarrow> if mi_Digest m = [] then mi_Name m else mi_Name m @ ''@'' @ mi_Digest m)"

definition allMembersAgreeOnModel :: "node_state list \<Rightarrow> bool" where
  "allMembersAgreeOnModel members =
     (case members of
        [] \<Rightarrow> False
      | m # ms \<Rightarrow>
        list_all (\<lambda>n. primaryLoadedModelVariantLocked n = primaryLoadedModelVariantLocked m) ms)"

definition allMembersCompatibleParallelism :: "node_state list \<Rightarrow> bool" where
  "allMembersCompatibleParallelism members =
     (case members of
        [] \<Rightarrow> False
      | m # ms \<Rightarrow>
        list_all (\<lambda>n. ns_ParallelismType n = ns_ParallelismType m) ms \<and> ns_ParallelismType m \<noteq> [])"

definition resolvedTopologyShape :: "node_state list \<Rightarrow> string \<times> int" where
  "resolvedTopologyShape members =
     fold (\<lambda>m (t, total). (if t = [] then ns_ParallelismType m else t, total + ns_ParallelismWidth m))
       members ([], 0)"

record replica =
  rep_Members :: "node_state list"
  rep_Head :: "node_state option"
  rep_GPUScopes :: "(string \<times> int list) list"
  rep_ParallelismType :: string
  rep_ParallelismWidth :: int
  rep_ModelVariant :: string

text \<open>
  A nil member slice entry would only arise for a name outside the parent map,
  and this code is reached only for heads and workers, which are in it.
\<close>

definition replicaFor :: "node_state \<Rightarrow> node_state list \<Rightarrow> replica" where
  "replicaFor n allNodes =
     (case role_of (resolveSchedulingRoles allNodes) (ns_Name n) of
        RoleStandalone \<Rightarrow>
          \<lparr> rep_Members = [n], rep_Head = Some n,
            rep_GPUScopes = [(ns_Name n, effectiveGPUIndicesLocked n)],
            rep_ParallelismType = ns_ParallelismType n, rep_ParallelismWidth = ns_ParallelismWidth n,
            rep_ModelVariant = primaryLoadedModelVariantLocked n \<rparr>
      | RoleUnresolved \<Rightarrow>
          \<lparr> rep_Members = [n], rep_Head = None, rep_GPUScopes = [], rep_ParallelismType = [],
            rep_ParallelismWidth = 0, rep_ModelVariant = [] \<rparr>
      | _ \<Rightarrow>
          (let (entries, headName) =
                 (case componentFor (ns_Name n) allNodes of None \<Rightarrow> ([], []) | Some mh \<Rightarrow> mh);
               members = List.map_filter id entries;
               headNode = find (\<lambda>m. ns_Name m = headName) members;
               modelVariant =
                 (case headNode of
                    Some h \<Rightarrow>
                      if allMembersAgreeOnModel members then primaryLoadedModelVariantLocked h else []
                  | None \<Rightarrow> []);
               (pt, pw) =
                 (if allMembersCompatibleParallelism members then resolvedTopologyShape members
                  else ([], 0))
           in \<lparr> rep_Members = members, rep_Head = headNode,
                rep_GPUScopes = map (\<lambda>m. (ns_Name m, effectiveGPUIndicesLocked m)) members,
                rep_ParallelismType = pt, rep_ParallelismWidth = pw,
                rep_ModelVariant = modelVariant \<rparr>))"

section \<open>Specification\<close>

text \<open>The edges every declaration contributes, and the class of a name.\<close>

definition replica_edges :: "node_state list \<Rightarrow> (string \<times> string) list" where
  "replica_edges nodes =
     concat (map (\<lambda>n. case declared_peers n of
        None \<Rightarrow> [] | Some rp \<Rightarrow> map (\<lambda>m. (ns_Name n, m)) (rp_Members rp)) nodes)"

definition touched :: "node_state list \<Rightarrow> string set" where
  "touched nodes = fst ` set (replica_edges nodes) \<union> snd ` set (replica_edges nodes)"

definition component :: "node_state list \<Rightarrow> string \<Rightarrow> string set" where
  "component nodes x = {y. linked (set (replica_edges nodes)) x y}"

text \<open>
  A component is valid with head \<open>h\<close> when every name in it is a node of the
  fleet that declares exactly this set of members and this head, and the head is
  a non-empty name of the set.
\<close>

definition valid_component :: "node_state list \<Rightarrow> string set \<Rightarrow> string \<Rightarrow> bool" where
  "valid_component nodes c h \<longleftrightarrow>
     h \<noteq> [] \<and> h \<in> c \<and>
     (\<forall>x \<in> c. \<exists>n \<in> set nodes. ns_Name n = x \<and>
        (\<exists>rp. declared_peers n = Some rp \<and> set (rp_Members rp) = c \<and> rp_Head rp = h))"

text \<open>
  The role and head a node must get: none when no declaration mentions it, head
  or worker of a valid component, unresolved in an invalid one.
\<close>

definition role_spec :: "node_state list \<Rightarrow> string \<Rightarrow> scheduling_role option \<Rightarrow> string option \<Rightarrow> bool" where
  "role_spec nodes x role head \<longleftrightarrow>
     (if x \<notin> touched nodes then role = None \<and> head = None
      else
        (\<exists>h. valid_component nodes (component nodes x) h \<and> head = Some h
             \<and> role = Some (if x = h then RoleHead else RoleWorker))
        \<or> ((\<nexists>h. valid_component nodes (component nodes x) h) \<and> role = Some RoleUnresolved \<and> head = None))"

text \<open>Helpers of the proofs: the declarations of a fleet, and the role inside a component.\<close>

definition decl_map :: "node_state list \<Rightarrow> (string, replica_decl) gomap \<Rightarrow> (string, replica_decl) gomap" where
  "decl_map nodes d0 =
     fold (\<lambda>n d. case declared_peers n of None \<Rightarrow> d | Some rp \<Rightarrow> gm_put (ns_Name n) (decl_of rp) d) nodes d0"

definition role_in :: "bool \<Rightarrow> string \<Rightarrow> string \<Rightarrow> scheduling_role" where
  "role_in valid head x = (if \<not> valid then RoleUnresolved else if x = head then RoleHead else RoleWorker)"

section \<open>Lemmas\<close>

lemma uf_unions_append:
  "uf_unions p (xs @ ys) = Option.bind (uf_unions p xs) (\<lambda>q. uf_unions q ys)"
  by (induction p xs rule: uf_unions.induct) (auto split: Option.bind_split)

lemma declare_loop_eq:
  "declare_loop nodes p d =
     Option.bind (uf_unions p (replica_edges nodes)) (\<lambda>q. Some (q, decl_map nodes d))"
  by (induction nodes p d rule: declare_loop.induct)
    (auto simp: replica_edges_def decl_map_def uf_unions_append split: option.split Option.bind_split)

lemma decl_map_get:
  "distinct (map ns_Name nodes) \<Longrightarrow>
   gm_get (decl_map nodes d0) x = Some d \<longleftrightarrow>
     (\<exists>n \<in> set nodes. ns_Name n = x \<and> (\<exists>rp. declared_peers n = Some rp \<and> d = decl_of rp))
     \<or> (gm_get d0 x = Some d \<and> (\<forall>n \<in> set nodes. ns_Name n = x \<longrightarrow> declared_peers n = None))"
proof (induction nodes arbitrary: d0)
  case (Cons n ns)
  have eq: "decl_map (n # ns) d0 =
      decl_map ns (case declared_peers n of None \<Rightarrow> d0 | Some rp \<Rightarrow> gm_put (ns_Name n) (decl_of rp) d0)"
    by (simp add: decl_map_def split: option.split)
  have other: "ns_Name m \<noteq> ns_Name n" if "m \<in> set ns" for m
    using Cons.prems that by (auto simp: image_iff)
  show ?case
    using Cons.prems other unfolding eq
    by (cases "declared_peers n") (auto simp: Cons.IH gm_get_put split: if_splits)
qed (simp add: decl_map_def)

lemma decl_map_Some_iff:
  assumes "distinct (map ns_Name nodes)"
  shows "gm_get (decl_map nodes []) x = Some d \<longleftrightarrow>
    (\<exists>n \<in> set nodes. ns_Name n = x \<and> (\<exists>rp. declared_peers n = Some rp \<and> d = decl_of rp))"
  using decl_map_get [OF assms, of "[]" x d] by simp

subsection \<open>Collecting the classes\<close>

lemma collect_components_spec:
  assumes "uf_ok p" "gm_wf comps" "\<And>r. distinct (gm_at [] comps r)"
  shows "\<exists>p' comps'. collect_components names p comps = Some (p', comps') \<and> gm_wf comps'
    \<and> (\<forall>r. distinct (gm_at [] comps' r) \<and>
        set (gm_at [] comps' r) = set (gm_at [] comps r) \<union> {x \<in> set names. uf_root p x r})
    \<and> fst ` set comps' = fst ` set comps \<union> {r. \<exists>x \<in> set names. uf_root p x r}"
  using assms
proof (induction names arbitrary: p comps)
  case Nil
  then show ?case by auto
next
  case (Cons x names)
  obtain r where r: "uf_root p x r" using uf_root_ex [OF Cons.prems(1), of x] by blast
  then obtain q where q: "uf_find p x = Some (q, r)" "uf_refines p {x} q"
    using uf_find_root [OF r Cons.prems(1)] by blast
  have okq: "uf_ok q" using q(2) by (simp add: uf_refines_def)
  note roots = uf_refines_root [OF q(2) Cons.prems(1)] and rx = uf_root_iff [OF r]
  define c where "c = gm_put r (List.insert x (gm_at [] comps r)) comps"
  have cat: "gm_at [] c s = (if s = r then List.insert x (gm_at [] comps r) else gm_at [] comps s)" for s
    by (simp add: c_def gm_at_def gm_get_put)
  have wfc: "gm_wf c" using Cons.prems(2) by (simp add: c_def)
  have "distinct (gm_at [] c s)" for s using Cons.prems(3) by (simp add: cat distinct_insert)
  from Cons.IH [OF okq wfc this] obtain p' comps' where IH':
    "collect_components names q c = Some (p', comps') \<and> gm_wf comps'
     \<and> (\<forall>s. distinct (gm_at [] comps' s) \<and>
         set (gm_at [] comps' s) = set (gm_at [] c s) \<union> {y \<in> set names. uf_root q y s})
     \<and> fst ` set comps' = fst ` set c \<union> {s. \<exists>y \<in> set names. uf_root q y s}" by (elim exE)
  note IH = IH' [THEN conjunct1] IH' [THEN conjunct2, THEN conjunct1]
    IH' [THEN conjunct2, THEN conjunct2, THEN conjunct1, rule_format]
    IH' [THEN conjunct2, THEN conjunct2, THEN conjunct2]
  have "set (gm_at [] comps' s) = set (gm_at [] comps s) \<union> {y \<in> set (x # names). uf_root p y s}" for s
    using IH(3) [of s] rx [of s] by (auto simp: cat roots)
  moreover have "fst ` set comps' = fst ` set comps \<union> {s. \<exists>y \<in> set (x # names). uf_root p y s}"
    using IH(4) rx by (auto simp: c_def gm_dom_put roots)
  moreover have "collect_components (x # names) p comps = Some (p', comps')"
    using q(1) IH(1) by (simp add: c_def)
  ultimately show ?case using IH(2,3) by blast
qed

subsection \<open>Validation depends on the set of names only\<close>

lemma validate_members_Some:
  "validate_members members nodeSet declBy names agreed = Some res \<longleftrightarrow>
     (\<forall>x \<in> set names. x \<in> set nodeSet \<and> (\<exists>d. gm_get declBy x = Some d
        \<and> length (rd_members d) = length members \<and> set members \<subseteq> set (rd_members d)
        \<and> res = Some (rd_head d)))
     \<and> (agreed \<noteq> None \<longrightarrow> res = agreed) \<and> (names = [] \<longrightarrow> res = agreed)"
  by (induction members nodeSet declBy names agreed rule: validate_members.induct)
    (auto simp: list_all_iff split: option.splits if_splits)

lemma distinct_same_length_subset:
  "distinct xs \<Longrightarrow> distinct ys \<Longrightarrow> length ys = length xs \<and> set xs \<subseteq> set ys \<longleftrightarrow> set ys = set xs"
  by (metis card_subset_eq distinct_card finite_set order_refl)

lemma decl_of_members:
  "distinct ms \<Longrightarrow> length (rd_members (decl_of rp)) = length ms \<and> set ms \<subseteq> set (rd_members (decl_of rp))
     \<longleftrightarrow> set (rp_Members rp) = set ms"
  using distinct_same_length_subset [of ms "remdups (rp_Members rp)"] by (simp add: decl_of_def)

lemma decl_of_head [simp]: "rd_head (decl_of rp) = rp_Head rp"
  by (simp add: decl_of_def)

lemma validate_members_nodes:
  assumes "distinct (map ns_Name nodes)" "distinct ms" "ms \<noteq> []"
  shows "validate_members ms (map ns_Name nodes) (decl_map nodes []) ms None = Some (Some h) \<longleftrightarrow>
    (\<forall>x \<in> set ms. \<exists>n \<in> set nodes. ns_Name n = x \<and>
        (\<exists>rp. declared_peers n = Some rp \<and> set (rp_Members rp) = set ms \<and> rp_Head rp = h))"
proof -
  have "x \<in> set (map ns_Name nodes) \<and> (\<exists>d. gm_get (decl_map nodes []) x = Some d
        \<and> length (rd_members d) = length ms \<and> set ms \<subseteq> set (rd_members d) \<and> h = rd_head d)
    \<longleftrightarrow> (\<exists>n \<in> set nodes. ns_Name n = x \<and>
        (\<exists>rp. declared_peers n = Some rp \<and> set (rp_Members rp) = set ms \<and> rp_Head rp = h))" for x
    unfolding decl_map_Some_iff [OF assms(1)] decl_of_members [OF assms(2), symmetric]
    by (auto intro!: exI [of _ "decl_of _"])
  then show ?thesis using assms(3) by (simp add: validate_members_Some)
qed

lemma validateComponent_valid_iff:
  assumes "distinct (map ns_Name nodes)" "distinct ms"
  shows "validateComponent ms (map ns_Name nodes) (decl_map nodes []) = (True, h) \<longleftrightarrow>
    valid_component nodes (set ms) h"
proof (cases "ms = []")
  case True
  then show ?thesis by (simp add: validateComponent_def valid_component_def)
next
  case False
  have "validateComponent ms (map ns_Name nodes) (decl_map nodes []) = (True, h) \<longleftrightarrow>
      validate_members ms (map ns_Name nodes) (decl_map nodes []) ms None = Some (Some h)
      \<and> h \<noteq> [] \<and> h \<in> set ms"
    by (auto simp: validateComponent_def split: option.splits)
  then show ?thesis
    unfolding validate_members_nodes [OF assms False] by (auto simp: valid_component_def)
qed

lemma validateComponent_cases:
  "validateComponent ms ns d = (False, []) \<or> (\<exists>h. validateComponent ms ns d = (True, h))"
  by (auto simp: validateComponent_def split: option.splits)

subsection \<open>Assigning roles\<close>

lemma assign_members_get:
  "gm_get (fst (assign_members valid head ns names acc)) x =
     (if x \<in> set names \<and> x \<in> set ns then Some (role_in valid head x) else gm_get (fst acc) x)"
  "gm_get (snd (assign_members valid head ns names acc)) x =
     (if x \<in> set names \<and> x \<in> set ns \<and> valid then Some head else gm_get (snd acc) x)"
  by (induction valid head ns names acc rule: assign_members.induct)
    (auto simp: gm_get_put role_in_def)

lemma fold_assign_get:
  assumes "\<And>ms. ms \<in> set mss \<Longrightarrow> x \<in> set ms \<Longrightarrow> validateComponent ms ns d = (v, h)" "x \<in> set ns"
  shows "gm_get (fst (fold (assign_component ns d) mss acc)) x =
      (if \<exists>ms \<in> set mss. x \<in> set ms then Some (role_in v h x) else gm_get (fst acc) x)
    \<and> gm_get (snd (fold (assign_component ns d) mss acc)) x =
      (if (\<exists>ms \<in> set mss. x \<in> set ms) \<and> v then Some h else gm_get (snd acc) x)"
  using assms(1)
proof (induction mss arbitrary: acc)
  case (Cons ms mss)
  obtain v' h' where vh: "validateComponent ms ns d = (v', h')" by fastforce
  have "x \<in> set ms \<Longrightarrow> v' = v \<and> h' = h" using Cons.prems [of ms] vh by auto
  then show ?case
    using Cons.IH [of "assign_component ns d ms acc"] Cons.prems assms(2) vh
    by (auto simp: assign_component_def assign_members_get)
qed simp

subsection \<open>The resolution returns and meets the specification\<close>

lemma touched_closed: "x \<in> touched nodes \<Longrightarrow> y \<in> component nodes x \<Longrightarrow> y \<in> touched nodes"
proof -
  assume x: "x \<in> touched nodes" and y: "y \<in> component nodes x"
  from y have "(x, y) \<in> (set (replica_edges nodes) \<union> (set (replica_edges nodes))\<inverse>)\<^sup>*"
    by (simp add: component_def linked_def)
  then show ?thesis
    using x by (induction rule: rtrancl_induct) (auto simp: touched_def intro: rev_image_eqI)
qed

lemma decl_map_Nil_iff: "decl_map nodes [] = [] \<Longrightarrow> distinct (map ns_Name nodes) \<Longrightarrow> touched nodes = {}"
proof -
  assume d: "decl_map nodes [] = []" and dist: "distinct (map ns_Name nodes)"
  have "declared_peers n = None" if "n \<in> set nodes" for n
    using decl_map_Some_iff [OF dist, of "ns_Name n"] that d by (cases "declared_peers n") auto
  then show ?thesis by (auto simp: touched_def replica_edges_def split: option.splits)
qed

text \<open>The map values of the collected classes are exactly the components of touched names.\<close>

lemma collected_values:
  assumes "uf_ok p" "gm_wf comps" "fst ` set p = touched nodes"
    and same: "\<forall>x y. uf_same p x y \<longleftrightarrow> linked (set (replica_edges nodes)) x y"
    and at: "\<And>r. set (gm_at [] comps r) = {x \<in> touched nodes. uf_root p x r}"
    and keys: "fst ` set comps = {r. \<exists>x \<in> touched nodes. uf_root p x r}"
    and ms: "ms \<in> snd ` set comps" "x \<in> set ms"
  shows "x \<in> touched nodes" "set ms = component nodes x"
proof -
  obtain r where "(r, ms) \<in> set comps" using ms(1) by auto
  then have "gm_at [] comps r = ms" using assms(2) by (simp add: gm_at_def gm_wf_def map_of_is_SomeI)
  then have S: "set ms = {z \<in> touched nodes. uf_root p z r}" using at [of r] by simp
  with ms(2) have x: "x \<in> touched nodes" "uf_root p x r" by auto
  have "uf_root p z r \<longleftrightarrow> linked (set (replica_edges nodes)) x z" for z
  proof -
    obtain s where s: "uf_root p z s" using uf_root_ex [OF assms(1), of z] by blast
    have "linked (set (replica_edges nodes)) x z \<longleftrightarrow> r = s"
      using same uf_same_iff [OF x(2) s] by simp
    then show ?thesis using uf_root_iff [OF s] by simp
  qed
  then show "x \<in> touched nodes" "set ms = component nodes x"
    using S x(1) touched_closed [OF x(1)] by (auto simp: component_def)
qed

lemma collected_components:
  assumes "uf_ok p" "fst ` set p = touched nodes"
    and same: "\<forall>x y. uf_same p x y \<longleftrightarrow> linked (set (replica_edges nodes)) x y"
  shows "\<exists>p' comps. collect_components (map fst p) p [] = Some (p', comps)
    \<and> (\<forall>ms \<in> snd ` set comps. distinct ms \<and>
         (\<forall>x \<in> set ms. x \<in> touched nodes \<and> set ms = component nodes x))
    \<and> (\<forall>x \<in> touched nodes. \<exists>ms \<in> snd ` set comps. x \<in> set ms)"
proof -
  have emp: "gm_wf ([] :: (string, string list) gomap)"
    "\<And>r. distinct (gm_at [] ([] :: (string, string list) gomap) r)" by (simp_all add: gm_at_def)
  obtain p' comps where c: "collect_components (map fst p) p [] = Some (p', comps)" "gm_wf comps"
    "\<And>r. distinct (gm_at [] comps r)"
    and at: "\<And>r. set (gm_at [] comps r) = {x \<in> touched nodes. uf_root p x r}"
    and keys: "fst ` set comps = {r. \<exists>x \<in> touched nodes. uf_root p x r}"
    using collect_components_spec [OF assms(1) emp, of "map fst p"] assms(2)
    by (auto simp: gm_at_def [of _ "[]"])
  have dist: "distinct ms" if "ms \<in> snd ` set comps" for ms
    using that c(2,3) by (auto simp: gm_at_def gm_wf_def) (metis map_of_is_SomeI option.simps(5))
  have "\<exists>ms \<in> snd ` set comps. x \<in> set ms" if "x \<in> touched nodes" for x
  proof -
    obtain r where "uf_root p x r" using uf_root_ex [OF assms(1), of x] by blast
    then have x: "x \<in> set (gm_at [] comps r)" using that at by simp
    then obtain ms where "gm_get comps r = Some ms" by (cases "gm_get comps r") (auto simp: gm_at_def)
    with x show ?thesis by (auto dest!: map_of_SomeD intro!: bexI [of _ "(r, ms)"])
  qed
  then show ?thesis
    using c(1) dist collected_values [OF assms(1) c(2) assms(2) same at keys] by blast
qed

lemma assign_role_spec:
  assumes "distinct (map ns_Name nodes)" "x \<in> set (map ns_Name nodes)"
    and comps: "\<forall>ms \<in> set mss. distinct ms \<and> (\<forall>x \<in> set ms. x \<in> touched nodes \<and> set ms = component nodes x)"
    and cover: "\<forall>x \<in> touched nodes. \<exists>ms \<in> set mss. x \<in> set ms"
    and rh: "fold (assign_component (map ns_Name nodes) (decl_map nodes [])) mss ([], []) = (roles, heads)"
  shows "role_spec nodes x (gm_get roles x) (gm_get heads x)"
proof -
  let ?V = "\<lambda>ms. validateComponent ms (map ns_Name nodes) (decl_map nodes [])"
  have V: "?V ms = (True, h) \<longleftrightarrow> valid_component nodes (component nodes x) h"
    if "ms \<in> set mss" "x \<in> set ms" for ms h
    using validateComponent_valid_iff [OF assms(1), of ms h] comps that by auto
  have ex: "(\<exists>ms \<in> set mss. x \<in> set ms) \<longleftrightarrow> x \<in> touched nodes" using comps cover by blast
  have get: "gm_get roles x = (if x \<in> touched nodes then Some (role_in v h x) else None)
      \<and> gm_get heads x = (if x \<in> touched nodes \<and> v then Some h else None)"
    if "\<And>ms. ms \<in> set mss \<Longrightarrow> x \<in> set ms \<Longrightarrow> ?V ms = (v, h)" for v h
    using fold_assign_get [of mss x, OF that assms(2), of "([], [])"] rh ex by simp
  consider (valid) h where "valid_component nodes (component nodes x) h"
    | (invalid) "\<nexists>h. valid_component nodes (component nodes x) h" by blast
  then show ?thesis
  proof cases
    case valid
    then show ?thesis using get [of True h] V by (auto simp: role_spec_def role_in_def)
  next
    case invalid
    then have "?V ms = (False, [])" if "ms \<in> set mss" "x \<in> set ms" for ms
      using V [OF that] validateComponent_cases [of ms] by blast
    from get [OF this] show ?thesis using invalid by (auto simp: role_spec_def role_in_def)
  qed
qed

lemma resolve_spec:
  assumes "distinct (map ns_Name nodes)"
  shows "\<exists>roles heads. resolveSchedulingRolesAndHeads nodes = Some (roles, heads) \<and>
    (\<forall>x \<in> ns_Name ` set nodes. role_spec nodes x (gm_get roles x) (gm_get heads x))"
proof -
  define d where "d = decl_map nodes []"
  obtain p where p: "uf_unions [] (replica_edges nodes) = Some p" "uf_ok p"
    "fst ` set p = touched nodes"
    "\<forall>x y. uf_same p x y \<longleftrightarrow> linked (set (replica_edges nodes)) x y"
    using uf_unions_components [of "replica_edges nodes"] unfolding touched_def by blast
  have loop: "declare_loop nodes [] [] = Some (p, d)" by (simp add: declare_loop_eq p(1) d_def)
  show ?thesis
  proof (cases "d = []")
    case True
    then show ?thesis
      using loop decl_map_Nil_iff [of nodes] assms
      by (simp add: resolveSchedulingRolesAndHeads_def d_def role_spec_def)
  next
    case False
    obtain p' comps where c: "collect_components (map fst p) p [] = Some (p', comps)"
      "\<forall>ms \<in> snd ` set comps. distinct ms \<and> (\<forall>x \<in> set ms. x \<in> touched nodes \<and> set ms = component nodes x)"
      "\<forall>x \<in> touched nodes. \<exists>ms \<in> snd ` set comps. x \<in> set ms"
      using collected_components [OF p(2-4)] by blast
    obtain roles heads
      where rh: "fold (assign_component (map ns_Name nodes) d) (map snd comps) ([], []) = (roles, heads)"
      by fastforce
    then have "resolveSchedulingRolesAndHeads nodes = Some (roles, heads)"
      using loop c(1) False by (simp add: resolveSchedulingRolesAndHeads_def)
    moreover have "role_spec nodes x (gm_get roles x) (gm_get heads x)" if "x \<in> ns_Name ` set nodes" for x
      using assign_role_spec [OF assms, of x "map snd comps" roles heads] that c(2,3) rh by (simp add: d_def)
    ultimately show ?thesis by blast
  qed
qed

lemma scheduling_roles_spec:
  assumes "distinct (map ns_Name nodes)" "x \<in> ns_Name ` set nodes"
  shows "role_spec nodes x (gm_get (fst (scheduling_roles nodes)) x) (gm_get (snd (scheduling_roles nodes)) x)"
  using resolve_spec [OF assms(1)] assms(2) by (auto simp: scheduling_roles_def)

lemma valid_component_member:
  "valid_component nodes c h \<Longrightarrow> x \<in> c \<Longrightarrow> \<exists>n \<in> set nodes. ns_Name n = x \<and>
     (\<exists>rp. declared_peers n = Some rp \<and> set (rp_Members rp) = c \<and> rp_Head rp = h)"
  by (simp add: valid_component_def)

lemma valid_component_head_unique: "valid_component nodes c h \<Longrightarrow> valid_component nodes' c h' \<Longrightarrow>
  set nodes = set nodes' \<Longrightarrow> distinct (map ns_Name nodes) \<Longrightarrow> h = h'"
proof -
  assume v: "valid_component nodes c h" "valid_component nodes' c h'" and s: "set nodes = set nodes'"
    and d: "distinct (map ns_Name nodes)"
  from v(1) have hc: "h \<in> c" by (simp add: valid_component_def)
  have A: "\<exists>n \<in> set nodes. ns_Name n = h \<and> (\<exists>rp. declared_peers n = Some rp \<and> rp_Head rp = h)"
    and B: "\<exists>n \<in> set nodes. ns_Name n = h \<and> (\<exists>rp. declared_peers n = Some rp \<and> rp_Head rp = h')"
    using valid_component_member [OF v(1) hc] valid_component_member [OF v(2) hc] s by auto
  from A obtain n rp where n: "n \<in> set nodes" "ns_Name n = h" "declared_peers n = Some rp" "rp_Head rp = h"
    by blast
  from B obtain n' rp' where n': "n' \<in> set nodes" "ns_Name n' = h" "declared_peers n' = Some rp'" "rp_Head rp' = h'"
    by blast
  have "n = n'" using d n(1,2) n'(1,2) by (metis distinct_map inj_onD)
  then show "h = h'" using n n' by simp
qed

lemma spec_set_cong:
  assumes "set nodes = set nodes'"
  shows "touched nodes = touched nodes'" "component nodes = component nodes'"
    "valid_component nodes = valid_component nodes'"
proof -
  have "set (replica_edges nodes) = set (replica_edges nodes')"
    using assms by (auto simp: replica_edges_def)
  then show "touched nodes = touched nodes'" "component nodes = component nodes'"
    by (simp_all add: touched_def component_def fun_eq_iff)
  show "valid_component nodes = valid_component nodes'"
    using assms by (simp add: valid_component_def fun_eq_iff)
qed

lemma role_spec_unique:
  assumes "role_spec nodes x r h" "role_spec nodes' x r' h'" "set nodes = set nodes'"
    "distinct (map ns_Name nodes)"
  shows "r = r' \<and> h = h'"
  using assms valid_component_head_unique [OF _ _ assms(3,4)]
  unfolding role_spec_def spec_set_cong [OF assms(3)] by (auto split: if_splits)

lemma unreachable_loop_get:
  "gm_get (unreachable_loop ns roles heads down) h =
     (case gm_get down h of
        Some m \<Rightarrow> Some m
      | None \<Rightarrow>
        if h = [] then None
        else find (\<lambda>n. role_of roles (ns_Name n) = RoleWorker \<and> gm_at [] heads (ns_Name n) = h
                       \<and> ns_AgentStale n) ns)"
proof (induction ns arbitrary: down h)
  case Nil
  then show ?case by (simp split: option.split)
next
  case (Cons n ns)
  show ?case
    by (cases "role_of roles (ns_Name n) = RoleWorker"; cases "ns_AgentStale n";
        cases "gm_at [] heads (ns_Name n) = []"; cases "gm_get down (gm_at [] heads (ns_Name n))";
        cases "gm_at [] heads (ns_Name n) = h")
      (simp_all add: Cons.IH Let_def gm_get_put split: option.split)
qed

text \<open>
  C11. The union-find based role resolution always returns, and for a fleet with
  unique node names every node gets exactly the role its connected component
  calls for: no role outside every declaration; head or worker when every name
  of the component is a node that declares this very set and the same head, itself a
  member; unresolved otherwise.  The head map names that head and is unset otherwise.
\<close>

theorem scheduling_roles_correct:
  assumes "distinct (map ns_Name nodes)"
  shows "\<exists>roles heads. resolveSchedulingRolesAndHeads nodes = Some (roles, heads) \<and>
    (\<forall>n \<in> set nodes. role_spec nodes (ns_Name n) (gm_get roles (ns_Name n)) (gm_get heads (ns_Name n)))"
  using resolve_spec [OF assms] by blast

text \<open>
  Scheduling roles do not depend on the order in which the fleet lists its
  nodes or on the iteration order of any map involved.
\<close>

lemma scheduling_roles_order_independent:
  assumes "distinct (map ns_Name nodes)" "distinct (map ns_Name nodes')" "set nodes = set nodes'"
    and "n \<in> set nodes"
  shows "role_of (fst (scheduling_roles nodes)) (ns_Name n) = role_of (fst (scheduling_roles nodes')) (ns_Name n)
    \<and> gm_get (snd (scheduling_roles nodes)) (ns_Name n) = gm_get (snd (scheduling_roles nodes')) (ns_Name n)"
  using role_spec_unique [OF scheduling_roles_spec [OF assms(1)] scheduling_roles_spec [OF assms(2)] assms(3,1)]
    assms(3,4) by (simp add: role_of_def gm_at_def)

definition demo_peer :: "string \<Rightarrow> node_state" where
  "demo_peer x = zero_node\<lparr> ns_Name := x,
     ns_ReplicaPeers := Some \<lparr> rp_Members = [''a'', ''b''], rp_Head = ''a'' \<rparr> \<rparr>"

lemma demo_peer_name [simp]: "ns_Name (demo_peer x) = x"
  by (simp add: demo_peer_def)

theorem scheduling_roles_correct_witness:
  "\<exists>roles heads. resolveSchedulingRolesAndHeads [demo_peer ''a'', demo_peer ''b''] = Some (roles, heads) \<and>
    (\<forall>n \<in> set [demo_peer ''a'', demo_peer ''b'']. role_spec [demo_peer ''a'', demo_peer ''b'']
       (ns_Name n) (gm_get roles (ns_Name n)) (gm_get heads (ns_Name n)))"
  by (rule scheduling_roles_correct) simp

end
