(* ===== verification/Aliases.thy ===== *)
theory Aliases
  imports Go_Strings
begin

text \<open>
  Model aliases: the validation and clean-up of an alias map
  (\<^verbatim>\<open>internal/config/model_aliases.go\<close>) and the published alias table the
  request path resolves against (\<^verbatim>\<open>internal/router/aliases.go\<close>).
  An error return is a value of \<open>alias_error option\<close>, \<open>None\<close> being \<^verbatim>\<open>nil\<close>.
\<close>

section \<open>Validation\<close>

datatype alias_error =
    AliasEmpty string
  | AliasSurroundingSpace string string
  | AliasTooLong string
  | AliasControlChar string string
  | AliasSelf string
  | AliasChained string string

definition MaxModelAliasNameLen :: nat where "MaxModelAliasNameLen = 256"

definition validateModelAliasName :: "string \<Rightarrow> string \<Rightarrow> alias_error option" where
  "validateModelAliasName field name =
     (if TrimSpace name = [] then Some (AliasEmpty field)
      else if TrimSpace name \<noteq> name then Some (AliasSurroundingSpace field name)
      else if length name > MaxModelAliasNameLen then Some (AliasTooLong field)
      else if has_control (byte_vals name) then Some (AliasControlChar field name)
      else None)"

definition ValidateModelAliasEntry :: "string \<Rightarrow> string \<Rightarrow> alias_error option" where
  "ValidateModelAliasEntry alias target =
     (case validateModelAliasName ''alias'' alias of
        Some err \<Rightarrow> Some err
      | None \<Rightarrow>
        (case validateModelAliasName ''target'' target of
           Some err \<Rightarrow> Some err
         | None \<Rightarrow> if alias = target then Some (AliasSelf alias) else None))"

definition SortedModelAliasNames :: "(string, string) gomap \<Rightarrow> string list" where
  "SortedModelAliasNames aliases = sort (map fst aliases)"

fun validate_names :: "(string, string) gomap \<Rightarrow> string list \<Rightarrow> alias_error option" where
  "validate_names aliases [] = None"
| "validate_names aliases (alias # names) =
     (let target = gm_at [] aliases alias in
      case ValidateModelAliasEntry alias target of
        Some err \<Rightarrow> Some err
      | None \<Rightarrow>
        (case gm_get aliases target of
           Some _ \<Rightarrow> Some (AliasChained alias target)
         | None \<Rightarrow> validate_names aliases names))"

definition ValidateModelAliases :: "(string, string) gomap \<Rightarrow> alias_error option" where
  "ValidateModelAliases aliases = validate_names aliases (sort (map fst aliases))"

section \<open>Clean-up of a persisted map\<close>

text \<open>The first loop of \<^verbatim>\<open>SanitizeModelAliases\<close>: entries of good shape, and the errors of the rest.\<close>

fun sanitize_shape ::
  "(string, string) gomap \<Rightarrow> string list \<Rightarrow> (string, string) gomap \<times> alias_error list
     \<Rightarrow> (string, string) gomap \<times> alias_error list" where
  "sanitize_shape aliases [] acc = acc"
| "sanitize_shape aliases (alias # names) (valid, dropped) =
     (case ValidateModelAliasEntry alias (gm_at [] aliases alias) of
        Some err \<Rightarrow> sanitize_shape aliases names (valid, dropped @ [err])
      | None \<Rightarrow> sanitize_shape aliases names (gm_put alias (gm_at [] aliases alias) valid, dropped))"

text \<open>The second loop: entries whose target is itself a well-shaped alias are dropped.\<close>

fun sanitize_hops ::
  "(string, string) gomap \<Rightarrow> string list \<Rightarrow> (string, string) gomap \<times> alias_error list
     \<Rightarrow> (string, string) gomap \<times> alias_error list" where
  "sanitize_hops valid [] acc = acc"
| "sanitize_hops valid (alias # names) (out, dropped) =
     (case gm_get valid alias of
        None \<Rightarrow> sanitize_hops valid names (out, dropped)
      | Some target \<Rightarrow>
        (case gm_get valid target of
           Some _ \<Rightarrow> sanitize_hops valid names (out, dropped @ [AliasChained alias target])
         | None \<Rightarrow> sanitize_hops valid names (gm_put alias target out, dropped)))"

definition SanitizeModelAliases :: "(string, string) gomap \<Rightarrow> (string, string) gomap \<times> alias_error list" where
  "SanitizeModelAliases aliases =
     (if aliases = [] then ([], [])
      else
        let names = sort (map fst aliases);
            (valid, dropped) = sanitize_shape aliases names ([], [])
        in sanitize_hops valid names ([], dropped))"

section \<open>The published table\<close>

text \<open>\<^verbatim>\<open>Router.modelAliases\<close>, an atomic pointer to a map; \<open>None\<close> is the nil pointer.\<close>

type_synonym alias_table = "(string, string) gomap option"

definition SetModelAliases :: "(string, string) gomap \<Rightarrow> alias_table" where
  "SetModelAliases aliases =
     (if aliases = [] then None else Some (fold (\<lambda>(k, v). gm_put k v) aliases []))"

definition ResolveModelAlias :: "alias_table \<Rightarrow> string \<Rightarrow> string option" where
  "ResolveModelAlias tbl name =
     (if name = [] then None else case tbl of None \<Rightarrow> None | Some m \<Rightarrow> gm_get m name)"

definition ModelAliases :: "alias_table \<Rightarrow> (string, string) gomap" where
  "ModelAliases tbl = (case tbl of None \<Rightarrow> [] | Some m \<Rightarrow> fold (\<lambda>(k, v). gm_put k v) m [])"

text \<open>The alias has an entry of good shape.\<close>

definition shape_ok :: "(string, string) gomap \<Rightarrow> string \<Rightarrow> bool" where
  "shape_ok m a = (case gm_get m a of None \<Rightarrow> False | Some t \<Rightarrow> ValidateModelAliasEntry a t = None)"

section \<open>Lemmas\<close>

lemma validate_names_None_iff:
  "validate_names aliases names = None \<longleftrightarrow>
     (\<forall>a \<in> set names. ValidateModelAliasEntry a (gm_at [] aliases a) = None
        \<and> gm_get aliases (gm_at [] aliases a) = None)"
  by (induction names) (auto simp: Let_def split: option.splits)

lemma ValidateModelAliases_None_iff:
  "ValidateModelAliases m = None \<longleftrightarrow>
     (\<forall>a t. gm_get m a = Some t \<longrightarrow> ValidateModelAliasEntry a t = None \<and> gm_get m t = None)"
  unfolding ValidateModelAliases_def validate_names_None_iff set_sort set_map gm_ball_keys by simp

lemma sanitize_shape_get:
  "gm_get (fst (sanitize_shape aliases names (valid, dropped))) k =
     (if k \<in> set names \<and> ValidateModelAliasEntry k (gm_at [] aliases k) = None
      then Some (gm_at [] aliases k) else gm_get valid k)"
  by (induction names arbitrary: valid dropped) (auto simp: gm_get_put split: option.split)

lemma sanitize_shape_dropped:
  "\<forall>a \<in> set names. ValidateModelAliasEntry a (gm_at [] aliases a) = None \<Longrightarrow>
     snd (sanitize_shape aliases names (valid, dropped)) = dropped"
  by (induction names arbitrary: valid dropped) (auto split: option.split)

lemma sanitize_hops_get:
  "gm_get (fst (sanitize_hops valid names (out, dropped))) k =
     (case gm_get valid k of
        None \<Rightarrow> gm_get out k
      | Some t \<Rightarrow> if k \<in> set names \<and> gm_get valid t = None then Some t else gm_get out k)"
proof (induction names arbitrary: out dropped k)
  case Nil
  show ?case by (simp split: option.split)
next
  case (Cons a names)
  show ?case
  proof (cases "gm_get valid a")
    case None
    then show ?thesis by (simp add: Cons.IH split: option.split)
  next
    case (Some t)
    show ?thesis
      by (cases "gm_get valid t"; cases "k = a") (simp_all add: Some Cons.IH gm_get_put split: option.split)
  qed
qed

lemma sanitize_hops_dropped:
  "\<forall>a \<in> set names. \<forall>t. gm_get valid a = Some t \<longrightarrow> gm_get valid t = None \<Longrightarrow>
     snd (sanitize_hops valid names (out, dropped)) = dropped"
proof (induction names arbitrary: out dropped)
  case (Cons a names)
  have IH: "snd (sanitize_hops valid names (out, dropped)) = dropped" for out dropped
    using Cons by (meson list.set_intros(2))
  show ?case
  proof (cases "gm_get valid a")
    case (Some t)
    then have "gm_get valid t = None" using Cons.prems by (meson list.set_intros(1))
    with Some show ?thesis by (simp add: IH)
  qed (simp add: IH)
qed simp

lemma SanitizeModelAliases_unfold:
  "SanitizeModelAliases aliases =
     sanitize_hops (fst (sanitize_shape aliases (sort (map fst aliases)) ([], [])))
       (sort (map fst aliases)) ([], snd (sanitize_shape aliases (sort (map fst aliases)) ([], [])))"
  by (simp add: SanitizeModelAliases_def Let_def split_beta)

lemma shape_pass_get:
  "gm_get (fst (sanitize_shape aliases (sort (map fst aliases)) ([], []))) k =
     (if shape_ok aliases k then gm_get aliases k else None)"
proof (cases "gm_get aliases k")
  case None
  then have "k \<notin> set (sort (map fst aliases))" by (simp add: map_of_eq_None_iff)
  then show ?thesis by (simp add: sanitize_shape_get None)
next
  case (Some t)
  then have "k \<in> set (sort (map fst aliases))" using gm_key by simp
  then show ?thesis by (simp add: sanitize_shape_get shape_ok_def Some)
qed

lemma SanitizeModelAliases_get:
  "gm_get (fst (SanitizeModelAliases aliases)) a = Some t \<longleftrightarrow>
     gm_get aliases a = Some t \<and> ValidateModelAliasEntry a t = None \<and> \<not> shape_ok aliases t"
proof -
  have k: "gm_get aliases a = Some t \<Longrightarrow> a \<in> set (sort (map fst aliases))" using gm_key by simp
  have n: "(if shape_ok aliases t then gm_get aliases t else None) = None \<longleftrightarrow> \<not> shape_ok aliases t"
    by (auto simp: shape_ok_def split: option.splits)
  show ?thesis
    unfolding SanitizeModelAliases_unfold sanitize_hops_get shape_pass_get
    using k n by (cases "gm_get aliases a") (auto simp: shape_ok_def)
qed

lemma SetModelAliases_get:
  "gm_wf m \<Longrightarrow> name \<noteq> [] \<Longrightarrow> ResolveModelAlias (SetModelAliases m) name = gm_get m name"
  by (auto simp: ResolveModelAlias_def SetModelAliases_def gm.fold_put_get gm_get_rev
      split: option.split)

lemma SanitizeModelAliases_valid: "ValidateModelAliases (fst (SanitizeModelAliases m)) = None"
proof -
  have none: "gm_get (fst (SanitizeModelAliases m)) t = None" if "\<not> shape_ok m t" for t
  proof (rule ccontr)
    assume "gm_get (fst (SanitizeModelAliases m)) t \<noteq> None"
    then obtain v where "gm_get (fst (SanitizeModelAliases m)) t = Some v" by blast
    then have "shape_ok m t" unfolding SanitizeModelAliases_get by (simp add: shape_ok_def)
    with that show False ..
  qed
  show ?thesis unfolding ValidateModelAliases_None_iff
    using none by (simp add: SanitizeModelAliases_get)
qed

lemma SanitizeModelAliases_id:
  assumes "ValidateModelAliases m = None"
  shows "gm_get (fst (SanitizeModelAliases m)) = gm_get m" "snd (SanitizeModelAliases m) = []"
proof -
  have ok: "ValidateModelAliasEntry a t = None" "gm_get m t = None" if "gm_get m a = Some t" for a t
    using assms that by (auto simp: ValidateModelAliases_None_iff)
  have "gm_get (fst (SanitizeModelAliases m)) a = Some t \<longleftrightarrow> gm_get m a = Some t" for a t
    using ok by (auto simp: SanitizeModelAliases_get shape_ok_def)
  then show "gm_get (fst (SanitizeModelAliases m)) = gm_get m"
    by (intro ext) (metis not_Some_eq)
  have "snd (sanitize_shape m (sort (map fst m)) ([], [])) = []"
    by (rule sanitize_shape_dropped) (unfold set_sort set_map gm_ball_keys, simp add: ok)
  moreover have "snd (sanitize_hops (fst (sanitize_shape m (sort (map fst m)) ([], [])))
      (sort (map fst m)) ([], d)) = d" for d
    by (rule sanitize_hops_dropped) (auto simp: shape_pass_get dest: ok split: if_splits)
  ultimately show "snd (SanitizeModelAliases m) = []" by (simp add: SanitizeModelAliases_unfold)
qed

lemma chat_alias_valid: "ValidateModelAliases [(''chat'', ''llama3'')] = None"
  by code_simp

text \<open>
  \<^verbatim>\<open>SanitizeModelAliases\<close> always returns a map that \<^verbatim>\<open>ValidateModelAliases\<close>
  accepts, and it drops nothing it could have kept: an entry survives exactly when it
  is well shaped and its target is not itself a well-shaped alias.  A map that
  already validates is returned unchanged, with no dropped entry.
\<close>

lemma sanitize_aliases_correct:
  "ValidateModelAliases (fst (SanitizeModelAliases m)) = None
   \<and> (\<forall>a t. gm_get (fst (SanitizeModelAliases m)) a = Some t \<longleftrightarrow>
        gm_get m a = Some t \<and> ValidateModelAliasEntry a t = None
        \<and> \<not> (\<exists>t'. gm_get m t = Some t' \<and> ValidateModelAliasEntry t t' = None))
   \<and> (ValidateModelAliases m = None \<longrightarrow>
        gm_get (fst (SanitizeModelAliases m)) = gm_get m \<and> snd (SanitizeModelAliases m) = [])"
  using SanitizeModelAliases_id [of m]
  by (simp add: SanitizeModelAliases_valid SanitizeModelAliases_get shape_ok_def split: option.split)

text \<open>
  Resolution is a single hop: once a validated map is published, the target an
  alias resolves to is the one configured and is never itself an alias.
\<close>

lemma resolve_single_hop:
  assumes "gm_wf m" "ValidateModelAliases m = None"
    and "ResolveModelAlias (SetModelAliases m) name = Some target"
  shows "gm_get m name = Some target \<and> ResolveModelAlias (SetModelAliases m) target = None"
proof -
  have "name \<noteq> []" using assms(3) by (auto simp: ResolveModelAlias_def)
  then have "gm_get m name = Some target" using assms by (simp add: SetModelAliases_get)
  then show ?thesis
    using assms(1,2) SetModelAliases_get [of m target]
    by (cases "target = []") (auto simp: ValidateModelAliases_None_iff ResolveModelAlias_def)
qed

end
