(* ===== verification/Router_State.thy ===== *)
theory Router_State
  imports Replicas Aliases "HOL-Library.Multiset"
begin

text \<open>
  The router's shared state (\<^verbatim>\<open>Router\<close> of \<^verbatim>\<open>internal/router/router.go\<close>), its
  construction, and the operations on configuration it holds: routing rules,
  strategy, cloud providers, fallback chains, per-node settings, and the single
  node operations addressed by name.

  Every operation runs under the router's locks, so it is one state transition.
  Log lines and Prometheus counters are left out; a webhook that would be sent is
  recorded in \<open>r_webhooks\<close>; the persistent store appears through the rows these
  operations delete or replace.
\<close>

section \<open>Data\<close>

record routing_rule =
  rr_ID :: string
  rr_Priority :: int
  rr_Condition :: string
  rr_TargetNode :: string
  rr_Strategy :: string
  rr_Enabled :: bool

record cloud_provider =
  cp_Name :: string
  cp_Provider :: string
  cp_BaseURL :: string
  cp_APIKey :: string
  cp_DefaultModel :: string
  cp_CostPer1KTokens :: float64
  cp_Enabled :: bool
  cp_Priority :: int

record litellm_config =
  ll_Enabled :: bool
  ll_URL :: string
  ll_APIKey :: string

record webhook_config =
  wh_Enabled :: bool
  wh_URL :: string

record thermal_config =
  tw_Enabled :: bool
  tw_MaxTempCelsius :: float64
  tw_ConsecutiveBreaches :: int

record tag_model =
  tm_Name :: string
  tm_Size :: int

record tags_cache =
  tc_Models :: "tag_model list"
  tc_FetchedAt :: gotime

record affinity_entry =
  ae_nodeURL :: string
  ae_model :: string
  ae_lastSeen :: gotime

record affinity_record =
  ar_SessionID :: string
  ar_NodeURL :: string
  ar_LastSeen :: gotime

record node_warmup =
  nw_Enabled :: bool
  nw_Models :: "string list"

record marbor_agent_config =
  ma_Enabled :: bool
  ma_Port :: int
  ma_Token :: string
  ma_Scheme :: string

record control_config =
  cc_Driver :: string
  cc_Identifier :: string
  cc_Configured :: bool
  cc_StartCommand :: string

record arch_facts =
  af_NumLayers :: int
  af_NumKVHeads :: int
  af_NumAttnHeads :: int
  af_HiddenSize :: int

record warm_reservation =
  wr_bytes :: int
  wr_at :: gotime
  wr_placeholder :: bool

record suppressed_info =
  si_Reason :: string
  si_Since :: gotime

text \<open>A recorded transition; the time stamp is an instant with the name of the location it is read in.\<close>

record transition_entry =
  te_FromModel :: string
  te_ToModel :: string
  te_Timestamp :: gotime
  te_Location :: string
  te_HourOfDay :: int

record active_prediction =
  ap_Model :: string
  ap_ExpiresAt :: gotime
  ap_Met :: bool

text \<open>The rows of the persistent store the modelled operations read or write.\<close>

record warm_row =
  wr_last_used :: int
  wr_vram_bytes :: int
  wr_load_count :: int

record store_rows =
  sr_warm :: "(string \<times> string, warm_row) gomap"
  sr_affinity :: "affinity_record list"
  sr_transitions :: "(string \<times> string \<times> gotime) list"
  sr_drains :: "(string, bool \<times> string \<times> int) gomap"

record router =
  r_nodes :: "node_state list"
  r_strategy :: string
  r_fallback :: string
  r_interval :: duration
  r_rules :: "routing_rule list"
  r_clouds :: "cloud_provider list"
  r_liteLLM :: litellm_config
  r_webhookCfg :: webhook_config
  r_webhooks :: "(string \<times> string \<times> string) list"
  r_discoveredURLs :: "(string, unit) gomap"
  r_prevHealthy :: "(string, bool) gomap"
  r_prevAgentPresent :: "(string, bool) gomap"
  r_tagsCache :: "(string, tags_cache) gomap"
  r_showCache :: "(string, unit) gomap"
  r_upstreamTimeout :: duration
  r_maxRetries :: int
  r_healthFailureThreshold :: int
  r_healthSuccessThreshold :: int
  r_fallbackChains :: "(string, string list) gomap"
  r_localDegradationChains :: "(string, string list) gomap"
  r_modelAliases :: alias_table
  r_overflowSLAMs :: int
  r_thermalWatchdog :: thermal_config
  r_timezone :: string
  r_affinity :: "(string, affinity_entry) gomap"
  r_affinityTTL :: duration
  r_sessionAffinity :: bool
  r_nvidiaPollInterval :: duration
  r_modelDigests :: "(string, string) gomap"
  r_contextWindows :: "(string, int) gomap"
  r_modelArchFacts :: "(string, arch_facts) gomap"
  r_queueDepth :: int
  r_queueMaxDepth :: int
  r_queueTimeoutMs :: int
  r_maxInFlightPerNode :: int
  r_nodeWarmup :: "(string, node_warmup) gomap"
  r_marborAgents :: "(string, marbor_agent_config) gomap"
  r_nodeControl :: "(string, control_config) gomap"
  r_lastUsed :: "(string, gotime) gomap"
  r_lastUsedCount :: "(string, int) gomap"
  r_lastUsedKeys :: "(string, string list) gomap"
  r_pinned :: "(string, string list) gomap"
  r_lastKnownVRAM :: "(string, int) gomap"
  r_lastKnownCount :: "(string, int) gomap"
  r_lastKnownKeys :: "(string, string list) gomap"
  r_lastEvictAt :: "(string, gotime) gomap"
  r_evictClaimID :: "(string, int) gomap"
  r_evictClaimSeq :: int
  r_warmReserved :: "(string, (string, warm_reservation) gomap) gomap"
  r_warmPriority :: "(string, (string, int) gomap) gomap"
  r_warmupSuppressed :: "(string, (string, suppressed_info) gomap) gomap"
  r_store :: "store_rows option"
  r_predictiveHistory :: "transition_entry list"
  r_lastModelRequested :: string
  r_activePredictions :: "active_prediction list"
  r_prefixLocalityEnabled :: bool
  r_prefixLocalityWeight :: float64

record routing_config =
  rc_Strategy :: string
  rc_PollIntervalMs :: int
  rc_Fallback :: string
  rc_Rules :: "routing_rule list"
  rc_UpstreamTimeoutMs :: int
  rc_MaxRetries :: int
  rc_SessionAffinity :: bool
  rc_SessionAffinityTTL :: string
  rc_NvidiaPollIntervalMs :: int
  rc_QueueMaxDepth :: int
  rc_QueueTimeoutMs :: int
  rc_HealthFailureThreshold :: int
  rc_HealthSuccessThreshold :: int
  rc_FallbackChains :: "(string, string list) gomap"
  rc_LocalDegradationChains :: "(string, string list) gomap"
  rc_ModelAliases :: "(string, string) gomap"
  rc_OverflowSLAMs :: int
  rc_MaxInFlightPerNode :: int
  rc_ThermalWatchdog :: thermal_config
  rc_PrefixLocalityEnabled :: bool
  rc_PrefixLocalityWeight :: float64

section \<open>Construction\<close>

text \<open>A stable sort by falling priority, as \<^verbatim>\<open>sort.SliceStable\<close> gives.\<close>

definition sortCloudsByPriority :: "cloud_provider list \<Rightarrow> cloud_provider list" where
  "sortCloudsByPriority clouds = sort_key (\<lambda>c. - cp_Priority c) clouds"

definition clampQueueDepth :: "int \<Rightarrow> int" where
  "clampQueueDepth n = (if n \<le> 0 then 0 else if n > 2 ^ 31 - 1 then 2 ^ 31 - 1 else to_int32 n)"

definition SetQueueTimeout :: "int \<Rightarrow> router \<Rightarrow> router" where
  "SetQueueTimeout ms r = r\<lparr> r_queueTimeoutMs := max ms 0 \<rparr>"

definition SetQueueMaxDepth :: "int \<Rightarrow> router \<Rightarrow> router" where
  "SetQueueMaxDepth n r = r\<lparr> r_queueMaxDepth := clampQueueDepth n \<rparr>"

definition SetOverflowSLA :: "int \<Rightarrow> router \<Rightarrow> router" where
  "SetOverflowSLA ms r = r\<lparr> r_overflowSLAMs := max ms 0 \<rparr>"

definition or_default :: "int \<Rightarrow> int \<Rightarrow> int" where
  "or_default x d = (if x \<le> 0 then d else x)"

text \<open>
  \<^verbatim>\<open>New\<close>.  \<open>parse_duration\<close> is \<^verbatim>\<open>time.ParseDuration\<close>.  The queue timeout is
  stored as given; the setters used later clamp it at 0.
\<close>

definition New ::
  "('a url_lib_scheme) \<Rightarrow> (string \<Rightarrow> duration option) \<Rightarrow> gotime \<Rightarrow> routing_config \<Rightarrow> node_config list
     \<Rightarrow> cloud_provider list \<Rightarrow> router" where
  "New lib parse_duration now cfg nodesCfg clouds =
     (let nodes = map (new_node lib now) nodesCfg;
          tw = rc_ThermalWatchdog cfg;
          ttl = (if rc_SessionAffinityTTL cfg = [] then 10 * minute
                 else case parse_duration (rc_SessionAffinityTTL cfg) of
                   None \<Rightarrow> 10 * minute | Some d \<Rightarrow> if d > 0 then d else 10 * minute)
      in \<lparr> r_nodes = nodes, r_strategy = rc_Strategy cfg, r_fallback = rc_Fallback cfg,
           r_interval = or_default (rc_PollIntervalMs cfg * millisecond) (2 * second),
           r_rules = rc_Rules cfg, r_clouds = sortCloudsByPriority clouds,
           r_liteLLM = \<lparr> ll_Enabled = False, ll_URL = [], ll_APIKey = [] \<rparr>,
           r_webhookCfg = \<lparr> wh_Enabled = False, wh_URL = [] \<rparr>, r_webhooks = [],
           r_discoveredURLs = [],
           r_prevHealthy = fold (\<lambda>n. gm_put (ns_Name n) True) nodes [],
           r_prevAgentPresent = [], r_tagsCache = [], r_showCache = [],
           r_upstreamTimeout = or_default (rc_UpstreamTimeoutMs cfg * millisecond) (120 * second),
           r_maxRetries = or_default (rc_MaxRetries cfg) 2,
           r_healthFailureThreshold = or_default (rc_HealthFailureThreshold cfg) 3,
           r_healthSuccessThreshold = or_default (rc_HealthSuccessThreshold cfg) 2,
           r_fallbackChains = rc_FallbackChains cfg,
           r_localDegradationChains = rc_LocalDegradationChains cfg,
           r_modelAliases = SetModelAliases (rc_ModelAliases cfg),
           r_overflowSLAMs = rc_OverflowSLAMs cfg,
           r_thermalWatchdog =
             (if tw_Enabled tw \<and> tw_ConsecutiveBreaches tw \<le> 0
              then tw\<lparr> tw_ConsecutiveBreaches := 3 \<rparr> else tw),
           r_timezone = [],
           r_affinity = [], r_affinityTTL = ttl, r_sessionAffinity = rc_SessionAffinity cfg,
           r_nvidiaPollInterval = or_default (rc_NvidiaPollIntervalMs cfg * millisecond) (30 * second),
           r_modelDigests = [], r_contextWindows = [], r_modelArchFacts = [],
           r_queueDepth = 0, r_queueMaxDepth = clampQueueDepth (rc_QueueMaxDepth cfg),
           r_queueTimeoutMs = rc_QueueTimeoutMs cfg,
           r_maxInFlightPerNode = rc_MaxInFlightPerNode cfg,
           r_nodeWarmup = [], r_marborAgents = [], r_nodeControl = [],
           r_lastUsed = [], r_lastUsedCount = [], r_lastUsedKeys = [], r_pinned = [],
           r_lastKnownVRAM = [], r_lastKnownCount = [], r_lastKnownKeys = [],
           r_lastEvictAt = [], r_evictClaimID = [], r_evictClaimSeq = 0, r_warmReserved = [],
           r_warmPriority = [], r_warmupSuppressed = [], r_store = None,
           r_predictiveHistory = [], r_lastModelRequested = [], r_activePredictions = [],
           r_prefixLocalityEnabled = rc_PrefixLocalityEnabled cfg,
           r_prefixLocalityWeight = rc_PrefixLocalityWeight cfg \<rparr>)"

section \<open>Rules, strategy and clouds\<close>

definition AddRule :: "routing_rule \<Rightarrow> router \<Rightarrow> router" where
  "AddRule rule r = r\<lparr> r_rules := r_rules r @ [rule] \<rparr>"

definition RemoveRule :: "string \<Rightarrow> router \<Rightarrow> router" where
  "RemoveRule rid r = r\<lparr> r_rules := del_first (\<lambda>rule. rr_ID rule = rid) (r_rules r) \<rparr>"

definition ToggleRule :: "string \<Rightarrow> router \<Rightarrow> router" where
  "ToggleRule rid r =
     r\<lparr> r_rules := upd_first (\<lambda>rule. rr_ID rule = rid)
                     (\<lambda>rule. rule\<lparr> rr_Enabled := \<not> rr_Enabled rule \<rparr>) (r_rules r) \<rparr>"

definition validStrategies :: "string list" where
  "validStrategies = [''warm-first'', ''least-connections'', ''round-robin'', ''vram-aware'']"

text \<open>\<open>None\<close> is the error return.\<close>

definition SetStrategy :: "string \<Rightarrow> router \<Rightarrow> router option" where
  "SetStrategy strategy r =
     (if strategy \<notin> set validStrategies then None else Some (r\<lparr> r_strategy := strategy \<rparr>))"

definition RouteCloud :: "router \<Rightarrow> cloud_provider option" where
  "RouteCloud r = find cp_Enabled (r_clouds r)"

definition SetClouds :: "cloud_provider list \<Rightarrow> router \<Rightarrow> router" where
  "SetClouds providers r = r\<lparr> r_clouds := sortCloudsByPriority providers \<rparr>"

definition CloudChain :: "router \<Rightarrow> cloud_provider list" where
  "CloudChain r =
     (if ll_Enabled (r_liteLLM r) \<and> ll_URL (r_liteLLM r) \<noteq> [] then
        [\<lparr> cp_Name = ''litellm'', cp_Provider = ''openai'', cp_BaseURL = ll_URL (r_liteLLM r),
           cp_APIKey = ll_APIKey (r_liteLLM r), cp_DefaultModel = [], cp_CostPer1KTokens = 0, cp_Enabled = True,
           cp_Priority = 0 \<rparr>]
      else filter cp_Enabled (r_clouds r))"

definition FallbackChainFor :: "router \<Rightarrow> string \<Rightarrow> string list" where
  "FallbackChainFor r model = gm_at [] (r_fallbackChains r) model"

definition LocalDegradationChainFor :: "router \<Rightarrow> string \<Rightarrow> string list" where
  "LocalDegradationChainFor r model = gm_at [] (r_localDegradationChains r) model"

section \<open>Time zone\<close>

definition SetTimezone :: "string \<Rightarrow> router \<Rightarrow> router" where
  "SetTimezone tz r = r\<lparr> r_timezone := tz \<rparr>"

text \<open>
  \<^verbatim>\<open>localNow\<close>: the location in which an instant of the clock is read.  The configured name is one
  \<^verbatim>\<open>time.LoadLocation\<close> knows, as \<^verbatim>\<open>Validate\<close> requires; unset means the zone of the server.
\<close>

definition localZone :: "router \<Rightarrow> string" where
  "localZone r = (if r_timezone r = [] then ''Local'' else r_timezone r)"

section \<open>Per-node settings\<close>

definition clearAllWarmupSuppress :: "string \<Rightarrow> router \<Rightarrow> router" where
  "clearAllWarmupSuppress node r = r\<lparr> r_warmupSuppressed := gm_del node (r_warmupSuppressed r) \<rparr>"

definition SetNodeWarmup :: "string \<Rightarrow> bool \<Rightarrow> string list \<Rightarrow> router \<Rightarrow> router" where
  "SetNodeWarmup name enabled models r =
     (if \<not> enabled \<and> models = [] then r\<lparr> r_nodeWarmup := gm_del name (r_nodeWarmup r) \<rparr>
      else clearAllWarmupSuppress name
             (r\<lparr> r_nodeWarmup := gm_put name \<lparr> nw_Enabled = enabled, nw_Models = models \<rparr> (r_nodeWarmup r) \<rparr>))"

definition NodeWarmupSetting :: "router \<Rightarrow> string \<Rightarrow> node_warmup" where
  "NodeWarmupSetting r name = gm_at \<lparr> nw_Enabled = False, nw_Models = [] \<rparr> (r_nodeWarmup r) name"

definition SetMarborAgent :: "string \<Rightarrow> bool \<Rightarrow> int \<Rightarrow> string \<Rightarrow> string \<Rightarrow> router \<Rightarrow> router" where
  "SetMarborAgent host enabled port token scheme r =
     (if \<not> enabled then r\<lparr> r_marborAgents := gm_del host (r_marborAgents r) \<rparr>
      else r\<lparr> r_marborAgents := gm_put host
             \<lparr> ma_Enabled = True, ma_Port = port, ma_Token = token,
               ma_Scheme = (if scheme = [] then ''http'' else scheme) \<rparr> (r_marborAgents r) \<rparr>)"

definition SetNodeControl :: "string \<Rightarrow> control_config \<Rightarrow> router \<Rightarrow> router" where
  "SetNodeControl name cfg r =
     (if \<not> cc_Configured cfg then r\<lparr> r_nodeControl := gm_del name (r_nodeControl r) \<rparr>
      else r\<lparr> r_nodeControl := gm_put name cfg (r_nodeControl r) \<rparr>)"

section \<open>Nodes by name\<close>

definition FindNode :: "router \<Rightarrow> string \<Rightarrow> node_state option" where
  "FindNode r name = find (\<lambda>n. ns_Name n = name) (r_nodes r)"

definition nodeExists :: "router \<Rightarrow> string \<Rightarrow> bool" where
  "nodeExists r name \<longleftrightarrow> list_ex (\<lambda>n. ns_Name n = name) (r_nodes r)"

definition hostOfLocked :: "router \<Rightarrow> string \<Rightarrow> string option" where
  "hostOfLocked r name = map_option ns_Host (FindNode r name)"

definition MarborAgentSetting :: "router \<Rightarrow> string \<Rightarrow> marbor_agent_config option" where
  "MarborAgentSetting r name =
     (case hostOfLocked r name of None \<Rightarrow> None | Some host \<Rightarrow> gm_get (r_marborAgents r) host)"

definition NodeURLs :: "router \<Rightarrow> (string, string) gomap" where
  "NodeURLs r = fold (\<lambda>n. gm_put (ns_Name n) (ns_URL n)) (r_nodes r) []"

definition FindNodeByURL :: "('a url_lib_scheme) \<Rightarrow> router \<Rightarrow> string \<Rightarrow> string \<Rightarrow> string option" where
  "FindNodeByURL lib r url excludeName =
     map_option ns_Name
       (find (\<lambda>n. ns_Name n \<noteq> excludeName \<and> NormalizeNodeURL lib (ns_URL n) = NormalizeNodeURL lib url)
          (r_nodes r))"

definition upd_node :: "string \<Rightarrow> (node_state \<Rightarrow> node_state) \<Rightarrow> router \<Rightarrow> router" where
  "upd_node name f r = r\<lparr> r_nodes := upd_first (\<lambda>n. ns_Name n = name) f (r_nodes r) \<rparr>"

definition fireWebhook :: "string \<Rightarrow> string \<Rightarrow> string \<Rightarrow> router \<Rightarrow> router" where
  "fireWebhook event nodeName nodeURL r =
     (if \<not> wh_Enabled (r_webhookCfg r) \<or> wh_URL (r_webhookCfg r) = [] then r
      else r\<lparr> r_webhooks := r_webhooks r @ [(event, nodeName, nodeURL)] \<rparr>)"

definition DrainNode :: "string \<Rightarrow> string \<Rightarrow> int \<Rightarrow> router \<Rightarrow> bool \<times> router" where
  "DrainNode name reason grace r =
     (case FindNode r name of
        None \<Rightarrow> (False, r)
      | Some n \<Rightarrow> (True, fireWebhook ''node_drain'' name (ns_URL n) (upd_node name (drain_node reason grace) r)))"

definition UndrainNode :: "string \<Rightarrow> router \<Rightarrow> bool \<times> router" where
  "UndrainNode name r =
     (case FindNode r name of
        None \<Rightarrow> (False, r)
      | Some n \<Rightarrow> (True, fireWebhook ''node_undrain'' name (ns_URL n) (upd_node name undrain_node r)))"

definition SetPrewarmDisabled :: "string \<Rightarrow> bool \<Rightarrow> router \<Rightarrow> bool \<times> router" where
  "SetPrewarmDisabled name disabled r =
     (case FindNode r name of
        None \<Rightarrow> (False, r)
      | Some n \<Rightarrow> (True, upd_node name (\<lambda>n. n\<lparr> ns_PrewarmDisabled := disabled \<rparr>) r))"

definition PatchNode :: "string \<Rightarrow> node_patch \<Rightarrow> router \<Rightarrow> bool \<times> router" where
  "PatchNode name patch r =
     (case FindNode r name of
        None \<Rightarrow> (False, r)
      | Some n \<Rightarrow> (True, upd_node name (patch_node patch) r))"

definition RecordRequestOutcome :: "gotime \<Rightarrow> string \<Rightarrow> bool \<Rightarrow> router \<Rightarrow> router" where
  "RecordRequestOutcome now name success r =
     (case FindNode r name of None \<Rightarrow> r | Some n \<Rightarrow> upd_node name (record_outcome now success) r)"

definition RecordTTFT :: "string \<Rightarrow> duration \<Rightarrow> router \<Rightarrow> router" where
  "RecordTTFT name ttft r =
     (if ttft \<le> 0 then r
      else case FindNode r name of None \<Rightarrow> r | Some n \<Rightarrow> upd_node name (record_ttft ttft) r)"

section \<open>Lemmas\<close>

lemma FindNode_Some: "FindNode r name = Some n \<Longrightarrow> n \<in> set (r_nodes r) \<and> ns_Name n = name"
  by (auto simp: FindNode_def find_Some_iff)

lemma FindNode_None_iff: "FindNode r name = None \<longleftrightarrow> name \<notin> ns_Name ` set (r_nodes r)"
  by (auto simp: FindNode_def find_None_iff)

lemma nodeExists_iff: "nodeExists r name \<longleftrightarrow> name \<in> ns_Name ` set (r_nodes r)"
  by (auto simp: nodeExists_def list_ex_iff)

lemma nodeExists_FindNode: "nodeExists r name \<longleftrightarrow> FindNode r name \<noteq> None"
  by (simp add: nodeExists_iff FindNode_None_iff)

lemma upd_node_names [simp]:
  "(\<And>n. ns_Name (f n) = ns_Name n) \<Longrightarrow> map ns_Name (r_nodes (upd_node name f r)) = map ns_Name (r_nodes r)"
  by (simp add: upd_node_def map_upd_first)

lemma upd_node_urls [simp]:
  "(\<And>n. ns_URL (f n) = ns_URL n) \<Longrightarrow> map ns_URL (r_nodes (upd_node name f r)) = map ns_URL (r_nodes r)"
  by (simp add: upd_node_def map_upd_first)

lemma fireWebhook_nodes [simp]: "r_nodes (fireWebhook e n u r) = r_nodes r"
  by (simp add: fireWebhook_def)

lemma fireWebhook_FindNode [simp]: "FindNode (fireWebhook e m u r) name = FindNode r name"
  by (simp add: FindNode_def)

lemma FindNode_upd_node:
  "(\<And>n. ns_Name (f n) = ns_Name n) \<Longrightarrow>
   FindNode (upd_node name f r) name = map_option f (FindNode r name)"
  unfolding FindNode_def upd_node_def by (simp add: find_upd_first)

lemma sortCloudsByPriority_mset: "mset (sortCloudsByPriority cs) = mset cs"
  by (simp add: sortCloudsByPriority_def)

lemma sortCloudsByPriority_sorted: "sorted_wrt (\<lambda>a b. cp_Priority a \<ge> cp_Priority b) (sortCloudsByPriority cs)"
proof -
  have "sorted (map (\<lambda>c. - cp_Priority c) (sortCloudsByPriority cs))"
    by (simp add: sortCloudsByPriority_def)
  then show ?thesis by (simp add: sorted_map)
qed

lemma find_first_sorted:
  "sorted_wrt R xs \<Longrightarrow> find p xs = Some x \<Longrightarrow> y \<in> set xs \<Longrightarrow> p y \<Longrightarrow> y = x \<or> R x y"
  by (induction xs) (auto split: if_splits)

lemma clampQueueDepth_range: "0 \<le> clampQueueDepth n" "clampQueueDepth n \<le> 2 ^ 31 - 1"
  "0 \<le> n \<Longrightarrow> n \<le> 2 ^ 31 - 1 \<Longrightarrow> clampQueueDepth n = n"
  by (auto simp: clampQueueDepth_def)

section \<open>A small concrete router\<close>

text \<open>Concrete inputs on which the theorems of the later theories are instantiated.\<close>

definition demo_config :: "string \<Rightarrow> string \<Rightarrow> node_config" where
  "demo_config name url = \<lparr> nc_Name = name, nc_URL = url, nc_GPUModel = [], nc_NvidiaIndex = 0,
     nc_VRAMTotalMB = 0, nc_Runtime = ''ollama'', nc_VRAMOverrides = [], nc_Host = [], nc_MaxInFlight = 0 \<rparr>"

text \<open>A URL library in which every string is a valid http URL that is its own host.\<close>

definition plain_lib :: url_lib where
  "plain_lib = \<lparr> ul_Parse = (\<lambda>s. Some \<lparr> u_Scheme = ''http'', u_Host = s, u_Hostname = s, u_Path = [] \<rparr>),
     ul_ParseIP = (\<lambda>_. None), ul_ToLower = (\<lambda>s. s) \<rparr>"

definition demo_routing :: routing_config where
  "demo_routing = \<lparr> rc_Strategy = ''warm-first'', rc_PollIntervalMs = 0, rc_Fallback = [], rc_Rules = [],
     rc_UpstreamTimeoutMs = 0, rc_MaxRetries = 0, rc_SessionAffinity = True, rc_SessionAffinityTTL = [],
     rc_NvidiaPollIntervalMs = 0, rc_QueueMaxDepth = 4, rc_QueueTimeoutMs = 1000,
     rc_HealthFailureThreshold = 0, rc_HealthSuccessThreshold = 0, rc_FallbackChains = [],
     rc_LocalDegradationChains = [], rc_ModelAliases = [], rc_OverflowSLAMs = 0, rc_MaxInFlightPerNode = 0,
     rc_ThermalWatchdog = \<lparr> tw_Enabled = False, tw_MaxTempCelsius = 0, tw_ConsecutiveBreaches = 0 \<rparr>,
     rc_PrefixLocalityEnabled = False, rc_PrefixLocalityWeight = 0 \<rparr>"

definition demo_router :: "node_config list \<Rightarrow> router" where
  "demo_router cfgs = New plain_lib (\<lambda>_. None) 0 demo_routing cfgs []"

lemma demo_router_simps [simp]:
  "r_nodes (demo_router cfgs) = map (new_node plain_lib 0) cfgs"
  "r_lastUsed (demo_router cfgs) = []" "r_lastKnownVRAM (demo_router cfgs) = []"
  "r_affinity (demo_router cfgs) = []" "r_sessionAffinity (demo_router cfgs) = True"
  "r_maxInFlightPerNode (demo_router cfgs) = 0" "r_modelDigests (demo_router cfgs) = []"
  "r_warmReserved (demo_router cfgs) = []" "r_pinned (demo_router cfgs) = []"
  "r_healthFailureThreshold (demo_router cfgs) = 3" "r_healthSuccessThreshold (demo_router cfgs) = 2"
  "r_interval (demo_router cfgs) = 2 * second" "r_affinityTTL (demo_router cfgs) = 10 * minute"
  by (simp_all add: demo_router_def New_def Let_def demo_routing_def or_default_def)

lemma demo_config_simps [simp]: "nc_Name (demo_config n u) = n" "nc_URL (demo_config n u) = u"
  by (simp_all add: demo_config_def)

lemma plain_lib_norm [simp]: "u \<noteq> [] \<Longrightarrow> NormalizeNodeURL plain_lib u = ''http://'' @ u"
  by (simp add: NormalizeNodeURL_def plain_lib_def trim_right_char_def)

lemma plain_lib_valid:
  "ValidateNodeURL plain_lib ''u1'' = None" "ValidateNodeURL plain_lib ''u2'' = None"
  "ValidateNodeURL plain_lib ''u3'' = None"
  by (simp_all add: ValidateNodeURL_def plain_lib_def isLinkLocalHost_def before_char_def parseLegacyIPv4_def
      trim_suffix_char_def parseLegacyIPv4Part_def ParseUint32_def digit_val_def octalBase_def decimalBase_def)

end
