(* ===== verification/Prefix_Locality.thy ===== *)
theory Prefix_Locality
  imports Router_State
begin

text \<open>
  Prefix locality (\<^verbatim>\<open>internal/router/prefixlocality.go\<close>): the canonical form of a conversation,
  the keys it is recorded and looked up under, and the bounded in-memory store behind
  them, which refines a plain list of the most recently written keys.

  The JSON decoder is a parameter: it gives the prompt and the messages of a body, a
  message's content being \<open>None\<close> unless it is a string.  Decoded strings are valid UTF-8,
  so dropping the three delimiter bytes is dropping the three runes.  The digest
  is a parameter too.  The write counter is 64 bits wide and does not wrap.
\<close>

section \<open>Keys\<close>

definition prefixLocalityMaxEntries :: nat where "prefixLocalityMaxEntries = 10000"
definition prefixLocalityTTL :: duration where "prefixLocalityTTL = 10 * minute"
definition prefixLocalityProbeDepth :: nat where "prefixLocalityProbeDepth = 4"
definition prefixLocalityMaxChars :: nat where "prefixLocalityMaxChars = 200"

abbreviation NUL :: char where "NUL \<equiv> CHR 0x00"
abbreviation RS :: char where "RS \<equiv> CHR 0x1E"
abbreviation US :: char where "US \<equiv> CHR 0x1F"

definition anonymousDomain :: string where "anonymousDomain = NUL # ''anonymous''"

record chat_body =
  cb_Prompt :: string
  cb_Messages :: "(string \<times> string option) list"

definition stripDelims :: "string \<Rightarrow> string" where
  "stripDelims s = filter (\<lambda>c. c \<noteq> NUL \<and> c \<noteq> RS \<and> c \<noteq> US) s"

fun canonical_messages :: "(string \<times> string option) list \<Rightarrow> string list option" where
  "canonical_messages [] = Some []"
| "canonical_messages ((role, content) # ms) =
     (case content of
        None \<Rightarrow> None
      | Some text \<Rightarrow> map_option ((#) (stripDelims role @ US # stripDelims text)) (canonical_messages ms))"

definition canonicalSequence :: "(string \<Rightarrow> chat_body option) \<Rightarrow> string \<Rightarrow> string list option" where
  "canonicalSequence decode body =
     (case decode body of
        None \<Rightarrow> None
      | Some b \<Rightarrow>
          if cb_Prompt b \<noteq> [] then Some [''prompt'' @ US # stripDelims (cb_Prompt b)]
          else if cb_Messages b = [] then None
          else canonical_messages (cb_Messages b))"

fun serializeCandidate :: "string list \<Rightarrow> string" where
  "serializeCandidate [] = []"
| "serializeCandidate [s] = s"
| "serializeCandidate (s # t # ss) = s @ RS # serializeCandidate (t # ss)"

definition prefixLookupCandidates :: "string list \<Rightarrow> string list" where
  "prefixLookupCandidates seq =
     (if length seq \<le> 1 then []
      else map (\<lambda>i. serializeCandidate (take (length seq - i) seq))
             (filter (\<lambda>i. length seq - i \<ge> 1) [1..<Suc prefixLocalityProbeDepth]))"

text \<open>The key name in the context is empty for a request without a key.\<close>

definition prefixDomain :: "string \<Rightarrow> string" where
  "prefixDomain keyName = (if keyName \<noteq> [] then CHR ''k'' # NUL # keyName else anonymousDomain)"

definition prefixHashKey :: "(string \<Rightarrow> string) \<Rightarrow> string \<Rightarrow> string \<Rightarrow> string \<Rightarrow> string" where
  "prefixHashKey digest domain model candidate =
     digest (domain @ NUL # model @ NUL # take prefixLocalityMaxChars candidate)"

section \<open>The store\<close>

record prefix_entry =
  pe_node :: string
  pe_ts :: gotime
  pe_seq :: int

type_synonym order_slot = "string \<times> int"

record prefix_store =
  ps_entries :: "(string, prefix_entry) gomap"
  ps_order :: "order_slot list"
  ps_nextSeq :: int
  ps_hits :: int
  ps_misses :: int

definition newPrefixLocalityStore :: prefix_store where
  "newPrefixLocalityStore = \<lparr> ps_entries = [], ps_order = [], ps_nextSeq = 0, ps_hits = 0, ps_misses = 0 \<rparr>"

definition prefix_lookup :: "gotime \<Rightarrow> prefix_store \<Rightarrow> string \<Rightarrow> string option" where
  "prefix_lookup now s key =
     (case gm_get (ps_entries s) key of
        None \<Rightarrow> None
      | Some e \<Rightarrow> if now - pe_ts e > prefixLocalityTTL then None else Some (pe_node e))"

definition recordHitOrMiss :: "bool \<Rightarrow> prefix_store \<Rightarrow> prefix_store" where
  "recordHitOrMiss hit s =
     (if hit then s\<lparr> ps_hits := ps_hits s + 1 \<rparr> else s\<lparr> ps_misses := ps_misses s + 1 \<rparr>)"

text \<open>A slot is current when its entry still has its sequence number.\<close>

definition current_in :: "(string, prefix_entry) gomap \<Rightarrow> order_slot \<Rightarrow> bool" where
  "current_in entries slot = (case gm_get entries (fst slot) of None \<Rightarrow> False | Some e \<Rightarrow> pe_seq e = snd slot)"

fun evict_loop_order ::
  "(string, prefix_entry) gomap \<Rightarrow> order_slot list \<Rightarrow> (string, prefix_entry) gomap \<times> order_slot list" where
  "evict_loop_order entries [] = (entries, [])"
| "evict_loop_order entries (slot # rest) =
     (if current_in entries slot then (gm_del (fst slot) entries, rest) else evict_loop_order entries rest)"

definition evictOldestLocked :: "prefix_store \<Rightarrow> prefix_store" where
  "evictOldestLocked s =
     (case evict_loop_order (ps_entries s) (ps_order s) of (es, ord) \<Rightarrow> s\<lparr> ps_entries := es, ps_order := ord \<rparr>)"

definition setLocked :: "gotime \<Rightarrow> string \<Rightarrow> string \<Rightarrow> prefix_store \<Rightarrow> prefix_store" where
  "setLocked now key node s =
     (let s1 = (if gm_get (ps_entries s) key = None \<and> length (ps_entries s) \<ge> prefixLocalityMaxEntries
                then evictOldestLocked s else s);
          seq = ps_nextSeq s1 + 1
      in s1\<lparr> ps_nextSeq := seq,
             ps_entries := gm_put key \<lparr> pe_node = node, pe_ts = now, pe_seq = seq \<rparr> (ps_entries s1),
             ps_order := ps_order s1 @ [(key, seq)] \<rparr>)"

definition prefix_set :: "gotime \<Rightarrow> string \<Rightarrow> string \<Rightarrow> prefix_store \<Rightarrow> prefix_store" where
  "prefix_set now key node s = setLocked now key node s"

definition setIfAbsent :: "gotime \<Rightarrow> string \<Rightarrow> string \<Rightarrow> prefix_store \<Rightarrow> bool \<times> prefix_store" where
  "setIfAbsent now key node s =
     (if gm_get (ps_entries s) key \<noteq> None then (False, s) else (True, setLocked now key node s))"

fun sweep_loop ::
  "gotime \<Rightarrow> (string, prefix_entry) gomap \<Rightarrow> order_slot list \<Rightarrow> (string, prefix_entry) gomap \<times> order_slot list" where
  "sweep_loop now entries [] = (entries, [])"
| "sweep_loop now entries (slot # rest) =
     (case gm_get entries (fst slot) of
        None \<Rightarrow> sweep_loop now entries rest
      | Some e \<Rightarrow>
          if pe_seq e \<noteq> snd slot then sweep_loop now entries rest
          else if now - pe_ts e > prefixLocalityTTL then sweep_loop now (gm_del (fst slot) entries) rest
          else case sweep_loop now entries rest of (es, live) \<Rightarrow> (es, slot # live))"

definition prefix_sweep :: "gotime \<Rightarrow> prefix_store \<Rightarrow> prefix_store" where
  "prefix_sweep now s = (case sweep_loop now (ps_entries s) (ps_order s) of (es, live) \<Rightarrow> s\<lparr> ps_entries := es, ps_order := live \<rparr>)"

definition prefix_stats :: "prefix_store \<Rightarrow> int \<times> int" where
  "prefix_stats s = (ps_hits s, ps_misses s)"

definition prefix_len :: "prefix_store \<Rightarrow> nat" where
  "prefix_len s = length (ps_entries s)"

section \<open>Lookups and records\<close>

fun first_hit :: "gotime \<Rightarrow> prefix_store \<Rightarrow> string list \<Rightarrow> string option" where
  "first_hit now s [] = None"
| "first_hit now s (k # ks) = (case prefix_lookup now s k of Some node \<Rightarrow> Some node | None \<Rightarrow> first_hit now s ks)"

text \<open>The keys a request probes: those of the truncations, then its own record key.\<close>

definition lookup_keys :: "(string \<Rightarrow> string) \<Rightarrow> string \<Rightarrow> string \<Rightarrow> string list \<Rightarrow> string list" where
  "lookup_keys digest domain model seq =
     map (prefixHashKey digest domain model) (prefixLookupCandidates seq) @ [prefixHashKey digest domain model (serializeCandidate seq)]"

text \<open>The record key and the preferred node, both empty when there is nothing to look up.\<close>

definition PrefixLocalityLookup ::
  "(string \<Rightarrow> chat_body option) \<Rightarrow> (string \<Rightarrow> string) \<Rightarrow> gotime \<Rightarrow> router \<Rightarrow> string \<Rightarrow> string \<Rightarrow> string \<Rightarrow> prefix_store
     \<Rightarrow> (string \<times> string) \<times> prefix_store" where
  "PrefixLocalityLookup decode digest now r keyName model body s =
     (if \<not> r_prefixLocalityEnabled r then (([], []), s)
      else case canonicalSequence decode body of
        None \<Rightarrow> (([], []), s)
      | Some seq \<Rightarrow>
          (let domain = prefixDomain keyName;
               m = stripDelims model;
               recordKey = prefixHashKey digest domain m (serializeCandidate seq)
           in case first_hit now s (lookup_keys digest domain m seq) of
                Some node \<Rightarrow> ((recordKey, node), recordHitOrMiss True s)
              | None \<Rightarrow> ((recordKey, []), recordHitOrMiss False s)))"

record prefix_row =
  px_hash :: string
  px_node :: string
  px_ts :: gotime

text \<open>The persisted rows grow at the end; \<open>writes\<close> counts the rows written by this process.\<close>

definition AppendPrefixLocality :: "string \<Rightarrow> string \<Rightarrow> gotime \<Rightarrow> int \<times> prefix_row list \<Rightarrow> int \<times> prefix_row list" where
  "AppendPrefixLocality key node ts db =
     (let writes = fst db + 1;
          rows = snd db @ [\<lparr> px_hash = key, px_node = node, px_ts = ts \<rparr>]
      in (writes, if writes mod 50 = 0 then last_n 10000 rows else rows))"

definition RecordPrefixLocality ::
  "gotime \<Rightarrow> router \<Rightarrow> string \<Rightarrow> string \<Rightarrow> bool \<Rightarrow> prefix_store \<times> (int \<times> prefix_row list) \<Rightarrow> prefix_store \<times> (int \<times> prefix_row list)" where
  "RecordPrefixLocality now r key nodeName success st =
     (if \<not> r_prefixLocalityEnabled r \<or> \<not> success \<or> key = [] \<or> nodeName = [] then st
      else (prefix_set now key nodeName (fst st),
            if r_store r = None then snd st else AppendPrefixLocality key nodeName now (snd st)))"

text \<open>The walk over the rows from the newest to the oldest.\<close>

fun seed_loop :: "gotime \<Rightarrow> string list \<Rightarrow> prefix_row list \<Rightarrow> nat \<Rightarrow> prefix_store \<Rightarrow> prefix_store" where
  "seed_loop now valid [] seeded s = s"
| "seed_loop now valid (row # rows) seeded s =
     (if now - px_ts row > prefixLocalityTTL then seed_loop now valid rows seeded s
      else if px_node row \<notin> set valid then seed_loop now valid rows seeded s
      else case setIfAbsent now (px_hash row) (px_node row) s of
        (False, s') \<Rightarrow> seed_loop now valid rows seeded s'
      | (True, s') \<Rightarrow>
          if Suc seeded \<ge> prefixLocalityMaxEntries then s' else seed_loop now valid rows (Suc seeded) s')"

definition seedPrefixLocalityFromStore :: "gotime \<Rightarrow> router \<Rightarrow> prefix_row list \<Rightarrow> prefix_store \<Rightarrow> prefix_store" where
  "seedPrefixLocalityFromStore now r rows s =
     (if \<not> r_prefixLocalityEnabled r \<or> r_store r = None then s
      else seed_loop now (map ns_Name (r_nodes r)) (rev rows) 0 s)"

definition SetPrefixLocality ::
  "gotime \<Rightarrow> bool \<Rightarrow> float64 \<Rightarrow> prefix_row list \<Rightarrow> router \<times> prefix_store \<Rightarrow> router \<times> prefix_store" where
  "SetPrefixLocality now enabled weight rows st =
     (let r = fst st; r' = r\<lparr> r_prefixLocalityWeight := weight, r_prefixLocalityEnabled := enabled \<rparr> in
      (r', if enabled \<and> \<not> r_prefixLocalityEnabled r then seedPrefixLocalityFromStore now r' rows (snd st) else snd st))"

section \<open>The abstract store\<close>

text \<open>
  What the store stands for: keys with their node and time, least recently written first.  A write moves
  its key to the end; a new key pushes out the first one when the list is full.
\<close>

type_synonym recency_list = "(string \<times> string \<times> gotime) list"

definition recency_put :: "nat \<Rightarrow> gotime \<Rightarrow> string \<Rightarrow> string \<Rightarrow> recency_list \<Rightarrow> recency_list" where
  "recency_put cap now key node xs =
     (if key \<in> fst ` set xs then filter (\<lambda>x. fst x \<noteq> key) xs else if length xs \<ge> cap then tl xs else xs) @ [(key, node, now)]"

definition recency_get :: "gotime \<Rightarrow> recency_list \<Rightarrow> string \<Rightarrow> string option" where
  "recency_get now xs key =
     (case map_of xs key of None \<Rightarrow> None | Some (node, ts) \<Rightarrow> if now - ts > prefixLocalityTTL then None else Some node)"

definition recency_sweep :: "gotime \<Rightarrow> recency_list \<Rightarrow> recency_list" where
  "recency_sweep now xs = filter (\<lambda>(key, node, ts). \<not> now - ts > prefixLocalityTTL) xs"

lemma recency_put_distinct: "distinct (map fst xs) \<Longrightarrow> distinct (map fst (recency_put cap now key node xs))"
  by (cases xs) (auto simp: recency_put_def distinct_map_filter)

lemma recency_put_length: "length xs \<le> cap \<Longrightarrow> 0 < cap \<Longrightarrow> length (recency_put cap now key node xs) \<le> cap"
proof (cases "key \<in> fst ` set xs")
  case True
  assume "length xs \<le> cap"
  from True obtain x where "x \<in> set xs" "fst x = key" by auto
  then have "length (filter (\<lambda>x. fst x \<noteq> key) xs) < length xs"
    by (metis (mono_tags, lifting) length_filter_less)
  then show ?thesis using \<open>length xs \<le> cap\<close> True by (simp add: recency_put_def)
qed (auto simp: recency_put_def)

text \<open>An interface: a store whose writes act on its contents as on the list.\<close>

locale recency_store =
  fixes ok :: "'s \<Rightarrow> bool" and contents :: "'s \<Rightarrow> recency_list" and cap :: nat
    and enter :: "gotime \<Rightarrow> string \<Rightarrow> string \<Rightarrow> 's \<Rightarrow> 's" and look :: "gotime \<Rightarrow> 's \<Rightarrow> string \<Rightarrow> string option"
    and expire :: "gotime \<Rightarrow> 's \<Rightarrow> 's"
  assumes cap_pos: "0 < cap"
    and ok_distinct: "ok s \<Longrightarrow> distinct (map fst (contents s))"
    and ok_bound: "ok s \<Longrightarrow> length (contents s) \<le> cap"
    and ok_write: "ok s \<Longrightarrow> ok (enter now key node s)"
    and ok_expire: "ok s \<Longrightarrow> ok (expire now s)"
    and contents_write: "ok s \<Longrightarrow> contents (enter now key node s) = recency_put cap now key node (contents s)"
    and contents_expire: "ok s \<Longrightarrow> contents (expire now s) = recency_sweep now (contents s)"
    and look_contents: "ok s \<Longrightarrow> look now s key = recency_get now (contents s) key"
begin

lemma look_after_write: "ok s \<Longrightarrow> now' - now \<le> prefixLocalityTTL \<Longrightarrow> look now' (enter now key node s) key = Some node"
proof -
  assume ok: "ok s" and now: "now' - now \<le> prefixLocalityTTL"
  have "(key, node, now) \<in> set (contents (enter now key node s))"
    by (simp add: contents_write [OF ok] recency_put_def)
  from map_of_is_SomeI [OF ok_distinct [OF ok_write [OF ok]] this] show ?thesis
    using now by (simp add: look_contents [OF ok_write [OF ok]] recency_get_def)
qed

lemma look_expire: "ok s \<Longrightarrow> look now (expire now s) key = look now s key"
proof -
  assume ok: "ok s"
  have "recency_sweep now (contents s) = gm_remove_if (\<lambda>key (node, ts). now - ts > prefixLocalityTTL) (contents s)"
    by (auto simp: recency_sweep_def gm_remove_if_def intro!: filter_cong)
  moreover have "gm_wf (contents s)"
    using ok_distinct [OF ok] by (simp add: gm_wf_def)
  ultimately show ?thesis
    by (simp add: look_contents [OF ok] look_contents [OF ok_expire [OF ok]] contents_expire [OF ok] recency_get_def
        gm_get_remove_if split: option.split)
qed

lemma writes_ok: "ok s \<Longrightarrow> ok (fold (\<lambda>(now, key, node). enter now key node) ws s)"
  by (induction ws arbitrary: s) (auto simp: ok_write)

lemma writes_contents:
  "ok s \<Longrightarrow> contents (fold (\<lambda>(now, key, node). enter now key node) ws s)
     = fold (\<lambda>(now, key, node). recency_put cap now key node) ws (contents s)"
  by (induction ws arbitrary: s) (auto simp: ok_write contents_write)

end

section \<open>The store refines the list\<close>

definition contents_of :: "(string, prefix_entry) gomap \<Rightarrow> order_slot list \<Rightarrow> recency_list" where
  "contents_of es ord =
     map (\<lambda>(k, q). (k, pe_node (the (gm_get es k)), pe_ts (the (gm_get es k)))) (filter (current_in es) ord)"

definition prefix_contents :: "prefix_store \<Rightarrow> recency_list" where
  "prefix_contents s = contents_of (ps_entries s) (ps_order s)"

text \<open>Slots are in write order and every entry has its slot.\<close>

definition slots_ok :: "(string, prefix_entry) gomap \<Rightarrow> order_slot list \<Rightarrow> bool" where
  "slots_ok es ord \<longleftrightarrow> gm_wf es \<and> sorted_wrt (<) (map snd ord) \<and> (\<forall>k e. gm_get es k = Some e \<longrightarrow> (k, pe_seq e) \<in> set ord)"

definition prefix_ok :: "prefix_store \<Rightarrow> bool" where
  "prefix_ok s \<longleftrightarrow> slots_ok (ps_entries s) (ps_order s) \<and> (\<forall>q \<in> snd ` set (ps_order s). q \<le> ps_nextSeq s)
     \<and> length (ps_entries s) \<le> prefixLocalityMaxEntries"

lemma contents_keys: "map fst (contents_of es ord) = map fst (filter (current_in es) ord)"
  by (simp add: contents_of_def case_prod_beta o_def)

lemma current_unique:
  assumes "sorted_wrt (<) (map snd ord)"
  shows "distinct (map fst (filter (current_in es) ord))"
proof -
  have "distinct ord"
    using assms by (metis distinct_map strict_sorted_iff)
  moreover have "a = b" if "current_in es a" "current_in es b" "fst a = fst b" for a b
    using that by (auto simp: current_in_def prod_eq_iff split: option.splits)
  ultimately show ?thesis
    by (auto simp: distinct_map inj_on_def)
qed

lemma contents_dom:
  assumes "slots_ok es ord"
  shows "fst ` set (contents_of es ord) = fst ` set es" "length (contents_of es ord) = length es" "distinct (map fst (contents_of es ord))"
proof -
  show keys: "fst ` set (contents_of es ord) = fst ` set es"
  proof -
    have "fst ` set (contents_of es ord) = fst ` {slot \<in> set ord. current_in es slot}"
      by (metis contents_keys list.set_map set_filter)
    also have "\<dots> = fst ` set es"
    proof
      show "fst ` {slot \<in> set ord. current_in es slot} \<subseteq> fst ` set es"
        by (auto simp: current_in_def gm_key_iff split: option.splits)
      show "fst ` set es \<subseteq> fst ` {slot \<in> set ord. current_in es slot}"
      proof
        fix k
        assume "k \<in> fst ` set es"
        then obtain e where e: "gm_get es k = Some e" by (auto simp: gm_key_iff)
        then have "(k, pe_seq e) \<in> {slot \<in> set ord. current_in es slot}"
          using assms by (simp add: slots_ok_def current_in_def)
        then show "k \<in> fst ` {slot \<in> set ord. current_in es slot}" by force
      qed
    qed
    finally show ?thesis .
  qed
  show dist: "distinct (map fst (contents_of es ord))"
    using assms by (simp add: contents_keys current_unique slots_ok_def)
  show "length (contents_of es ord) = length es"
    using distinct_card [OF dist] keys assms distinct_card [of "map fst es"] by (simp add: slots_ok_def gm_wf_def)
qed

lemma contents_get:
  assumes "slots_ok es ord"
  shows "map_of (contents_of es ord) k = map_option (\<lambda>e. (pe_node e, pe_ts e)) (gm_get es k)"
proof (cases "gm_get es k")
  case None
  then have "k \<notin> fst ` set (contents_of es ord)"
    using contents_dom(1) [OF assms] by (simp add: map_of_eq_None_iff)
  then have "map_of (contents_of es ord) k = None"
    by (rule map_of_eq_None_iff [THEN iffD2])
  then show ?thesis by (simp only: None option.map)
next
  case (Some e)
  then have "(k, pe_seq e) \<in> set ord" "current_in es (k, pe_seq e)"
    using assms by (simp_all add: slots_ok_def current_in_def)
  then have "(k, pe_node e, pe_ts e) \<in> set (contents_of es ord)"
    using Some by (force simp: contents_of_def)
  then show ?thesis
    using contents_dom(3) [OF assms] Some by simp
qed

lemma contents_simps [simp]:
  "contents_of es [] = []" "contents_of es (xs @ ys) = contents_of es xs @ contents_of es ys"
  "contents_of es (slot # ord) =
     (if current_in es slot
      then [(fst slot, pe_node (the (gm_get es (fst slot))), pe_ts (the (gm_get es (fst slot))))] else []) @ contents_of es ord"
  by (simp_all add: contents_of_def case_prod_beta)

lemma contents_cong:
  assumes "\<forall>z \<in> set zs. current_in es' z = current_in es z \<and> (current_in es z \<longrightarrow> gm_get es' (fst z) = gm_get es (fst z))"
  shows "contents_of es' zs = contents_of es zs"
  using assms by (induction zs) auto

text \<open>A stale slot can be dropped.\<close>

lemma drop_stale:
  assumes "slots_ok es (xs @ slot # ys)" "\<not> current_in es slot"
  shows "slots_ok es (xs @ ys)"
proof -
  have "(k, pe_seq e) \<in> set (xs @ ys)" if "gm_get es k = Some e" for k e
  proof -
    have "(k, pe_seq e) \<noteq> slot" using assms(2) that by (auto simp: current_in_def)
    then show ?thesis using assms(1) that by (auto simp: slots_ok_def)
  qed
  then show ?thesis
    using assms(1) by (simp add: slots_ok_def sorted_wrt_append)
qed

text \<open>A current slot is removed together with its entry; nothing else changes.\<close>

lemma drop_current:
  assumes "slots_ok es (xs @ slot # ys)" "current_in es slot"
  shows "slots_ok (gm_del (fst slot) es) (xs @ ys)"
    "contents_of (gm_del (fst slot) es) xs = contents_of es xs" "contents_of (gm_del (fst slot) es) ys = contents_of es ys"
    "\<forall>x \<in> set xs. current_in (gm_del (fst slot) es) x = current_in es x"
proof -
  obtain e where e: "gm_get es (fst slot) = Some e" "pe_seq e = snd slot"
    using assms(2) by (auto simp: current_in_def split: option.splits)
  have other: "snd z \<noteq> snd slot" if "z \<in> set (xs @ ys)" for z
    using assms(1) that by (auto simp: slots_ok_def sorted_wrt_append)
  have cur: "current_in (gm_del (fst slot) es) z = current_in es z" if "z \<in> set (xs @ ys)" for z
    using other [OF that] e by (auto simp: current_in_def gm_get_del split: option.split)
  have get: "gm_get (gm_del (fst slot) es) (fst z) = gm_get es (fst z)" if "z \<in> set (xs @ ys)" "current_in es z" for z
    using other [OF that(1)] that(2) e by (auto simp: current_in_def gm_get_del split: option.splits if_splits)
  show "contents_of (gm_del (fst slot) es) xs = contents_of es xs" "contents_of (gm_del (fst slot) es) ys = contents_of es ys"
    by (rule contents_cong, use cur get in simp)+
  show "\<forall>x \<in> set xs. current_in (gm_del (fst slot) es) x = current_in es x"
    using cur by simp
  have "(k, pe_seq e') \<in> set (xs @ ys)" if "gm_get (gm_del (fst slot) es) k = Some e'" for k e'
    using that assms(1) by (cases slot) (auto simp: slots_ok_def gm_get_del split: if_splits)
  then show "slots_ok (gm_del (fst slot) es) (xs @ ys)"
    using assms(1) by (simp add: slots_ok_def sorted_wrt_append)
qed

lemma evict_loop_contents:
  assumes "slots_ok es ord" "evict_loop_order es ord = (es', ord')"
  shows "slots_ok es' ord' \<and> contents_of es' ord' = tl (contents_of es ord) \<and> set ord' \<subseteq> set ord"
  using assms
proof (induction es ord rule: evict_loop_order.induct)
  case (2 es slot rest)
  show ?case
  proof (cases "current_in es slot")
    case True
    then show ?thesis
      using 2(3) drop_current [of es "[]" slot rest] 2(2) by auto
  next
    case False
    then show ?thesis
      using 2(1) [OF False] drop_stale [of es "[]" slot rest] 2(2,3) by auto
  qed
qed (auto simp: slots_ok_def)

lemma put_contents:
  assumes "slots_ok es ord" "\<forall>q \<in> snd ` set ord. q < pe_seq e"
  shows "slots_ok (gm_put key e es) (ord @ [(key, pe_seq e)])"
    "contents_of (gm_put key e es) (ord @ [(key, pe_seq e)])
       = filter (\<lambda>x. fst x \<noteq> key) (contents_of es ord) @ [(key, pe_node e, pe_ts e)]"
proof -
  show "slots_ok (gm_put key e es) (ord @ [(key, pe_seq e)])"
    using assms by (auto simp: slots_ok_def gm_get_put sorted_wrt_append)
  have "contents_of (gm_put key e es) zs = filter (\<lambda>x. fst x \<noteq> key) (contents_of es zs)" if "set zs \<subseteq> set ord" for zs
    using that
  proof (induction zs)
    case (Cons z zs)
    then have "snd z \<noteq> pe_seq e" using assms(2) by force
    then show ?case
      using Cons by (cases "fst z = key") (auto simp: current_in_def gm_get_put)
  qed simp
  then show "contents_of (gm_put key e es) (ord @ [(key, pe_seq e)])
       = filter (\<lambda>x. fst x \<noteq> key) (contents_of es ord) @ [(key, pe_node e, pe_ts e)]"
    by (simp add: current_in_def gm_get_put)
qed

lemma recency_sweep_simps [simp]:
  "recency_sweep now [] = []" "recency_sweep now ((k, n, t) # xs) =
     (if now - t > prefixLocalityTTL then recency_sweep now xs else (k, n, t) # recency_sweep now xs)"
  by (simp_all add: recency_sweep_def)

lemma recency_sweep_length: "length (recency_sweep now xs) \<le> length xs"
  by (simp add: recency_sweep_def)

lemma sweep_loop_contents:
  assumes "slots_ok es (kept @ ord)" "\<forall>x \<in> set kept. current_in es x" "sweep_loop now es ord = (es', live)"
  shows "slots_ok es' (kept @ live) \<and> contents_of es' (kept @ live) = contents_of es kept @ recency_sweep now (contents_of es ord)
     \<and> set live \<subseteq> set ord"
  using assms
proof (induction now es ord arbitrary: kept live rule: sweep_loop.induct)
  case (2 now es slot rest)
  consider (stale) "\<not> current_in es slot"
    | (old) e where "current_in es slot" "gm_get es (fst slot) = Some e" "pe_seq e = snd slot" "now - pe_ts e > prefixLocalityTTL"
    | (fresh) e where "current_in es slot" "gm_get es (fst slot) = Some e" "pe_seq e = snd slot" "\<not> now - pe_ts e > prefixLocalityTTL"
    by (cases "gm_get es (fst slot)") (auto simp: current_in_def)
  then show ?case
  proof cases
    case stale
    have "sweep_loop now es rest = (es', live)"
      using 2(7) stale by (auto simp: current_in_def split: option.splits)
    then show ?thesis
      using 2(1,2) stale drop_stale [OF 2(5) stale] 2(6)
      by (cases "gm_get es (fst slot)") (auto simp: current_in_def)
  next
    case old
    note d = drop_current [OF 2(5) old(1)]
    have "sweep_loop now (gm_del (fst slot) es) rest = (es', live)"
      using 2(7) old by simp
    from 2(3) [OF old(2) _ old(4) d(1) _ this] d(4) 2(6) old(3)
    show ?thesis using old d(2,3) by (auto simp: recency_sweep_def)
  next
    case fresh
    obtain live' where l: "sweep_loop now es rest = (es', live')" "live = slot # live'"
      using 2(7) fresh by (auto split: prod.splits)
    have "slots_ok es ((kept @ [slot]) @ rest)" "\<forall>x \<in> set (kept @ [slot]). current_in es x"
      using 2(5,6) fresh(1) by auto
    from 2(4) [OF fresh(2) _ fresh(4) this l(1)] fresh(3)
    show ?thesis using fresh l(2) by (auto simp: recency_sweep_def)
  qed
qed auto

lemma setLocked_refines:
  assumes "prefix_ok s"
  shows "prefix_ok (setLocked now key node s)"
    "prefix_contents (setLocked now key node s) = recency_put prefixLocalityMaxEntries now key node (prefix_contents s)"
proof -
  have slots: "slots_ok (ps_entries s) (ps_order s)" and seqs: "\<forall>q \<in> snd ` set (ps_order s). q \<le> ps_nextSeq s"
    and len: "length (ps_entries s) \<le> prefixLocalityMaxEntries"
    using assms by (simp_all add: prefix_ok_def)
  note dom = contents_dom [OF slots]
  have in_dom: "gm_get (ps_entries s) key = None \<longleftrightarrow> key \<notin> fst ` set (prefix_contents s)"
    using dom(1) by (simp add: prefix_contents_def map_of_eq_None_iff)
  define full where "full \<longleftrightarrow> gm_get (ps_entries s) key = None \<and> length (ps_entries s) \<ge> prefixLocalityMaxEntries"
  define s1 where "s1 = (if full then evictOldestLocked s else s)"
  have s1: "slots_ok (ps_entries s1) (ps_order s1)" "set (ps_order s1) \<subseteq> set (ps_order s)" "ps_nextSeq s1 = ps_nextSeq s"
    "prefix_contents s1 = (if full then tl (prefix_contents s) else prefix_contents s)"
    using slots evict_loop_contents [OF slots] by (auto simp: s1_def evictOldestLocked_def prefix_contents_def split: prod.splits)
  define e where "e = \<lparr> pe_node = node, pe_ts = now, pe_seq = ps_nextSeq s1 + 1 \<rparr>"
  have new: "setLocked now key node s = s1\<lparr> ps_nextSeq := pe_seq e, ps_entries := gm_put key e (ps_entries s1),
      ps_order := ps_order s1 @ [(key, pe_seq e)] \<rparr>"
    by (simp add: setLocked_def s1_def full_def e_def Let_def)
  have below: "\<forall>q \<in> snd ` set (ps_order s1). q < pe_seq e"
    using seqs s1(2,3) by (auto simp: e_def dest!: subsetD)
  note put = put_contents [OF s1(1) below, of key]
  have "\<forall>x \<in> set (tl (prefix_contents s)). x \<in> set (prefix_contents s)"
    by (cases "prefix_contents s") auto
  then have "filter (\<lambda>x. fst x \<noteq> key) (prefix_contents s1) =
      (if key \<in> fst ` set (prefix_contents s) then filter (\<lambda>x. fst x \<noteq> key) (prefix_contents s)
       else if length (prefix_contents s) \<ge> prefixLocalityMaxEntries then tl (prefix_contents s) else prefix_contents s)"
    using in_dom dom(2) [folded prefix_contents_def] unfolding s1(4) full_def by (force simp: filter_id_conv)
  then show put': "prefix_contents (setLocked now key node s) = recency_put prefixLocalityMaxEntries now key node (prefix_contents s)"
    using put(2) by (simp add: new prefix_contents_def recency_put_def e_def)
  have "length (gm_put key e (ps_entries s1)) \<le> prefixLocalityMaxEntries"
  proof -
    have "length (gm_put key e (ps_entries s1)) = length (prefix_contents (setLocked now key node s))"
      using contents_dom(2) [OF put(1)] by (simp add: new prefix_contents_def del: contents_simps)
    also have "\<dots> \<le> prefixLocalityMaxEntries"
      unfolding put' using dom(2) [folded prefix_contents_def] len
      by (intro recency_put_length) (simp_all add: prefixLocalityMaxEntries_def)
    finally show ?thesis .
  qed
  then show "prefix_ok (setLocked now key node s)"
    using put(1) below by (auto simp: prefix_ok_def new)
qed

lemma prefix_sweep_refines:
  assumes "prefix_ok s"
  shows "prefix_ok (prefix_sweep now s)" "prefix_contents (prefix_sweep now s) = recency_sweep now (prefix_contents s)"
proof -
  obtain es live where sw: "sweep_loop now (ps_entries s) (ps_order s) = (es, live)" by fastforce
  have slots: "slots_ok (ps_entries s) (ps_order s)" using assms by (simp add: prefix_ok_def)
  from sweep_loop_contents [of "ps_entries s" "[]" "ps_order s" now es live] slots sw
  have r: "slots_ok es live" "contents_of es live = recency_sweep now (prefix_contents s)" "set live \<subseteq> set (ps_order s)"
    by (simp_all add: prefix_contents_def)
  show "prefix_contents (prefix_sweep now s) = recency_sweep now (prefix_contents s)"
    using r(2) sw by (simp add: prefix_sweep_def prefix_contents_def)
  have "length es \<le> length (prefix_contents s)"
    using contents_dom(2) [OF r(1)] r(2) recency_sweep_length [of now "prefix_contents s"] by simp
  then show "prefix_ok (prefix_sweep now s)"
    using assms r(1,3) sw contents_dom(2) [OF slots] by (auto simp: prefix_ok_def prefix_sweep_def prefix_contents_def)
qed

interpretation pfx: recency_store prefix_ok prefix_contents prefixLocalityMaxEntries setLocked prefix_lookup prefix_sweep
proof
  show "0 < prefixLocalityMaxEntries" by (simp add: prefixLocalityMaxEntries_def)
next
  fix s assume "prefix_ok s"
  then have "slots_ok (ps_entries s) (ps_order s)" "length (ps_entries s) \<le> prefixLocalityMaxEntries"
    by (simp_all add: prefix_ok_def)
  from contents_dom(2,3) [OF this(1)] this(2)
  show "distinct (map fst (prefix_contents s))" "length (prefix_contents s) \<le> prefixLocalityMaxEntries"
    by (simp_all add: prefix_contents_def)
next
  fix s now key assume "prefix_ok s"
  then have "slots_ok (ps_entries s) (ps_order s)" by (simp add: prefix_ok_def)
  from contents_get [OF this, of key] show "prefix_lookup now s key = recency_get now (prefix_contents s) key"
    by (simp add: prefix_lookup_def recency_get_def prefix_contents_def split: option.split)
qed (simp_all add: setLocked_refines prefix_sweep_refines)

text \<open>The ways the store changes.\<close>

inductive prefix_step :: "prefix_store \<Rightarrow> prefix_store \<Rightarrow> bool" where
  recorded: "prefix_step s (fst (RecordPrefixLocality now r key nodeName success (s, db)))"
| lookup: "prefix_step s (snd (PrefixLocalityLookup decode digest now r keyName model body s))"
| sweep: "prefix_step s (prefix_sweep now s)"
| seed: "prefix_step s (seedPrefixLocalityFromStore now r rows s)"

lemma prefix_ok_hits [simp]:
  "prefix_ok (recordHitOrMiss hit s) = prefix_ok s" "prefix_contents (recordHitOrMiss hit s) = prefix_contents s"
  by (simp_all add: recordHitOrMiss_def prefix_ok_def prefix_contents_def)

lemma seed_loop_ok: "prefix_ok s \<Longrightarrow> prefix_ok (seed_loop now valid rows seeded s)"
  by (induction now valid rows seeded s rule: seed_loop.induct)
     (simp_all add: setIfAbsent_def setLocked_refines Let_def split: prod.split bool.split)

lemma prefix_step_ok:
  assumes "prefix_step s s'" "prefix_ok s"
  shows "prefix_ok s'"
  using assms(1)
proof cases
  case (lookup decode digest now r keyName model body)
  then show ?thesis
    using assms(2) by (auto simp: PrefixLocalityLookup_def Let_def split: option.split)
qed (use assms(2) in \<open>simp_all add: RecordPrefixLocality_def prefix_set_def setLocked_refines prefix_sweep_refines
    seedPrefixLocalityFromStore_def seed_loop_ok\<close>)

lemma new_prefix_ok: "prefix_ok newPrefixLocalityStore" "prefix_contents newPrefixLocalityStore = []"
  by (simp_all add: prefix_ok_def slots_ok_def newPrefixLocalityStore_def prefix_contents_def)

lemma reachable_prefix_ok: "prefix_step\<^sup>*\<^sup>* newPrefixLocalityStore s \<Longrightarrow> prefix_ok s"
  by (induction rule: rtranclp_induct) (rule new_prefix_ok, rule prefix_step_ok)

text \<open>
  C13. The locality store, with its append-only write order full of stale slots, behaves like a list of at most
  \<^verbatim>\<open>prefixLocalityMaxEntries\<close> keys in order of their last write: a write moves or appends its key and
  pushes out the least recently written one when full, a sweep removes exactly the expired keys, and a
  lookup finds exactly the unexpired last write of its key.
\<close>

theorem prefix_store_refines_recency_list:
  assumes "prefix_step\<^sup>*\<^sup>* newPrefixLocalityStore s"
  shows "prefix_len s \<le> prefixLocalityMaxEntries \<and> distinct (map fst (prefix_contents s))
    \<and> prefix_contents (prefix_set now key node s) = recency_put prefixLocalityMaxEntries now key node (prefix_contents s)
    \<and> prefix_contents (prefix_sweep now s) = recency_sweep now (prefix_contents s)
    \<and> prefix_lookup now s key = recency_get now (prefix_contents s) key
    \<and> prefix_lookup now (prefix_sweep now s) key = prefix_lookup now s key
    \<and> (now' - now \<le> prefixLocalityTTL \<longrightarrow> prefix_lookup now' (prefix_set now key node s) key = Some node)"
proof -
  have ok: "prefix_ok s" by (rule reachable_prefix_ok [OF assms])
  then have "prefix_len s \<le> prefixLocalityMaxEntries" by (simp add: prefix_ok_def prefix_len_def)
  then show ?thesis
    using pfx.ok_distinct [OF ok] pfx.contents_write [OF ok] pfx.contents_expire [OF ok] pfx.look_contents [OF ok]
      pfx.look_expire [OF ok] pfx.look_after_write [OF ok]
    by (simp add: prefix_set_def)
qed

section \<open>Isolation\<close>

lemma first_delim_unique:
  "xs @ a # ys = xs' @ a # ys' \<Longrightarrow> a \<notin> set xs \<Longrightarrow> a \<notin> set xs' \<Longrightarrow> xs = xs' \<and> ys = ys'"
  by (induction xs arbitrary: xs') (auto simp: Cons_eq_append_conv)

lemma last_delim_unique:
  assumes "xs @ a # ys = xs' @ a # ys'" "a \<notin> set ys" "a \<notin> set ys'"
  shows "xs = xs' \<and> ys = ys'"
proof -
  have "rev ys @ a # rev xs = rev ys' @ a # rev xs'"
    using arg_cong [OF assms(1), of rev] by simp
  from first_delim_unique [OF this] show ?thesis
    using assms(2,3) by simp
qed

lemma prefixDomain_inj: "prefixDomain a = prefixDomain b \<longleftrightarrow> a = b"
  by (auto simp: prefixDomain_def anonymousDomain_def)

lemma prefixHashKey_inj:
  assumes "inj digest" "NUL \<notin> set m" "NUL \<notin> set m'" "NUL \<notin> set c" "NUL \<notin> set c'"
    and "prefixHashKey digest d m c = prefixHashKey digest d' m' c'"
  shows "d = d'" "m = m'" "take prefixLocalityMaxChars c = take prefixLocalityMaxChars c'"
proof -
  have eq: "(d @ NUL # m) @ NUL # take prefixLocalityMaxChars c = (d' @ NUL # m') @ NUL # take prefixLocalityMaxChars c'"
    using assms(1,6) by (simp add: prefixHashKey_def inj_eq)
  have "NUL \<notin> set (take prefixLocalityMaxChars c)" "NUL \<notin> set (take prefixLocalityMaxChars c')"
    using assms(4,5) by (meson in_set_takeD)+
  from last_delim_unique [OF eq this]
  have *: "d @ NUL # m = d' @ NUL # m'" "take prefixLocalityMaxChars c = take prefixLocalityMaxChars c'"
    by blast+
  show "take prefixLocalityMaxChars c = take prefixLocalityMaxChars c'" by (rule *(2))
  show "d = d'" "m = m'" using last_delim_unique [OF *(1) assms(2,3)] by auto
qed

definition clean :: "string list \<Rightarrow> bool" where
  "clean seq \<longleftrightarrow> seq \<noteq> [] \<and> (\<forall>x \<in> set seq. NUL \<notin> set x \<and> RS \<notin> set x)"

lemma stripDelims_clean [simp]: "NUL \<notin> set (stripDelims x)" "RS \<notin> set (stripDelims x)" "US \<notin> set (stripDelims x)"
  by (simp_all add: stripDelims_def)

lemma canonical_messages_clean:
  "canonical_messages ms = Some seq \<Longrightarrow> \<forall>x \<in> set seq. NUL \<notin> set x \<and> RS \<notin> set x"
  "canonical_messages ms = Some seq \<Longrightarrow> length seq = length ms"
  by (induction ms arbitrary: seq rule: canonical_messages.induct) (auto split: option.splits)

lemma canonicalSequence_clean: "canonicalSequence decode body = Some seq \<Longrightarrow> clean seq"
  using canonical_messages_clean
  by (fastforce simp: canonicalSequence_def clean_def split: option.splits if_splits)

lemma clean_take: "clean seq \<Longrightarrow> 0 < n \<Longrightarrow> clean (take n seq)"
  by (auto simp: clean_def dest: in_set_takeD)

lemma serialize_NUL: "clean seq \<Longrightarrow> NUL \<notin> set (serializeCandidate seq)"
  by (induction seq rule: serializeCandidate.induct) (auto simp: clean_def)

text \<open>The serialisation determines the sequence.\<close>

lemma serialize_inj: "clean xs \<Longrightarrow> clean ys \<Longrightarrow> serializeCandidate xs = serializeCandidate ys \<Longrightarrow> xs = ys"
proof (induction xs arbitrary: ys rule: serializeCandidate.induct)
  case (2 x)
  then show ?case by (cases ys rule: serializeCandidate.cases) (auto simp: clean_def)
next
  case (3 x x' xs)
  then show ?case
  proof (cases ys rule: serializeCandidate.cases)
    case (3 y y' ys')
    have eq: "x @ RS # serializeCandidate (x' # xs) = y @ RS # serializeCandidate (y' # ys')" "RS \<notin> set x" "RS \<notin> set y"
      using 3 "3.prems" by (auto simp: clean_def)
    from first_delim_unique [OF eq] have "x = y" "serializeCandidate (x' # xs) = serializeCandidate (y' # ys')"
      by simp_all
    then show ?thesis
      using "3.IH" [of "y' # ys'"] "3.prems" 3 by (auto simp: clean_def)
  qed (auto simp: clean_def)
qed (simp add: clean_def)

text \<open>The sequences a request may match: its own and its truncations by up to four messages.\<close>

definition probed :: "string list \<Rightarrow> string list list" where
  "probed seq = filter (\<lambda>x. x \<noteq> []) (map (\<lambda>i. take (length seq - i) seq) [0..<Suc prefixLocalityProbeDepth])"

lemma set_probed: "x \<in> set (probed seq) \<longleftrightarrow> x \<noteq> [] \<and> (\<exists>i \<le> prefixLocalityProbeDepth. x = take (length seq - i) seq)"
  by (auto simp: probed_def less_Suc_eq_le simp del: upt_Suc)

lemma lookup_keys_probed:
  assumes "k \<in> set (lookup_keys digest d m seq)" "seq \<noteq> []"
  shows "\<exists>x \<in> set (probed seq). k = prefixHashKey digest d m (serializeCandidate x)"
proof -
  consider "k = prefixHashKey digest d m (serializeCandidate seq)"
    | i where "1 \<le> i" "i \<le> prefixLocalityProbeDepth" "length seq - i \<ge> 1"
        "k = prefixHashKey digest d m (serializeCandidate (take (length seq - i) seq))"
    using assms(1)
    by (auto simp: lookup_keys_def prefixLookupCandidates_def less_Suc_eq_le simp del: upt_Suc split: if_splits)
  then show ?thesis
  proof cases
    case 1
    then show ?thesis using assms(2) by (auto simp: set_probed intro!: bexI [of _ seq] exI [of _ 0])
  next
    case (2 i)
    then show ?thesis using assms(2) by (intro bexI [of _ "take (length seq - i) seq"]) (auto simp: set_probed)
  qed
qed

text \<open>
  Locality never leaks between callers: if a request probes the key another request is recorded under, then both carry
  the same API key name (or both none), ask for the same model up to the stripped delimiter bytes, and
  the first 200 bytes of the recorded conversation and of the probed prefix agree; conversations
  that fit into those bytes are then equal, whatever delimiters a client puts into its messages.
\<close>

lemma prefix_keys_isolated:
  assumes "inj digest" and "canonicalSequence decode body = Some seq" and "canonicalSequence decode body' = Some seq'"
    and "prefixHashKey digest (prefixDomain keyName) (stripDelims model) (serializeCandidate seq)
           \<in> set (lookup_keys digest (prefixDomain keyName') (stripDelims model') seq')"
  shows "keyName = keyName' \<and> stripDelims model = stripDelims model'
    \<and> (\<exists>x \<in> set (probed seq').
         take prefixLocalityMaxChars (serializeCandidate seq) = take prefixLocalityMaxChars (serializeCandidate x)
         \<and> (length (serializeCandidate seq) \<le> prefixLocalityMaxChars \<and> length (serializeCandidate x) \<le> prefixLocalityMaxChars
            \<longrightarrow> x = seq))"
proof -
  have clean: "clean seq" "clean seq'" using canonicalSequence_clean assms(2,3) by blast+
  then have "seq' \<noteq> []" by (simp add: clean_def)
  from lookup_keys_probed [OF assms(4) this] obtain x where x: "x \<in> set (probed seq')"
    "prefixHashKey digest (prefixDomain keyName) (stripDelims model) (serializeCandidate seq)
      = prefixHashKey digest (prefixDomain keyName') (stripDelims model') (serializeCandidate x)"
    by blast
  have cx: "clean x" using x(1) clean(2) by (auto simp: set_probed intro!: clean_take)
  note inj = prefixHashKey_inj [OF assms(1) _ _ serialize_NUL [OF clean(1)] serialize_NUL [OF cx] x(2)]
  have "keyName = keyName'" using inj(1) by (simp add: prefixDomain_inj)
  moreover have "x = seq" if "length (serializeCandidate seq) \<le> prefixLocalityMaxChars" "length (serializeCandidate x) \<le> prefixLocalityMaxChars"
    using inj(3) that serialize_inj [OF cx clean(1)] by simp
  ultimately show ?thesis
    using inj(2,3) x(1) by auto
qed

section \<open>Reseeding\<close>

lemma setIfAbsent_new:
  assumes "prefix_ok s" "key \<notin> fst ` set (prefix_contents s)"
  shows "setIfAbsent now key node s = (True, setLocked now key node s)"
  using assms contents_dom(1) [of "ps_entries s" "ps_order s"]
  by (simp add: setIfAbsent_def prefix_ok_def prefix_contents_def map_of_eq_None_iff)

lemma seed_loop_contents:
  assumes "prefix_ok s" "distinct (map px_hash rows)"
    and "\<forall>row \<in> set rows. now - px_ts row \<le> prefixLocalityTTL \<and> px_node row \<in> set valid \<and> px_hash row \<notin> fst ` set (prefix_contents s)"
    and "length (prefix_contents s) + length rows \<le> prefixLocalityMaxEntries" "seeded + length rows \<le> prefixLocalityMaxEntries"
  shows "prefix_contents (seed_loop now valid rows seeded s)
    = prefix_contents s @ map (\<lambda>row. (px_hash row, px_node row, now)) rows"
  using assms
proof (induction rows arbitrary: s seeded)
  case (Cons row rows)
  let ?s = "setLocked now (px_hash row) (px_node row) s"
  have row: "\<not> now - px_ts row > prefixLocalityTTL" "px_node row \<in> set valid" "px_hash row \<notin> fst ` set (prefix_contents s)"
    using Cons.prems(3) by auto
  have ok: "prefix_ok ?s" using Cons.prems(1) by (rule setLocked_refines)
  have c: "prefix_contents ?s = prefix_contents s @ [(px_hash row, px_node row, now)]"
    using setLocked_refines(2) [OF Cons.prems(1), of now "px_hash row" "px_node row"] row(3) Cons.prems(4)
    by (simp add: recency_put_def)
  have step: "seed_loop now valid (row # rows) seeded s =
      (if Suc seeded \<ge> prefixLocalityMaxEntries then ?s else seed_loop now valid rows (Suc seeded) ?s)"
    using row(1,2) by (simp add: setIfAbsent_new [OF Cons.prems(1) row(3)])
  show ?case
  proof (cases "Suc seeded \<ge> prefixLocalityMaxEntries")
    case True
    then have "rows = []" using Cons.prems(5) by (cases rows) auto
    then show ?thesis using True step c by simp
  next
    case False
    have "\<forall>row' \<in> set rows. now - px_ts row' \<le> prefixLocalityTTL \<and> px_node row' \<in> set valid \<and> px_hash row' \<notin> fst ` set (prefix_contents ?s)"
      using Cons.prems(2,3) by (auto simp: c image_iff)
    from Cons.IH [OF ok _ this, of "Suc seeded"] Cons.prems(2,4,5) show ?thesis
      using False step c by simp
  qed
qed simp

text \<open>
  C40. A reseed inverts the eviction order.  When the store is refilled from as many persisted rows as it holds, the newest row
  is entered first, so the next new key pushes out the most recently recorded conversation while
  every older one stays.
\<close>

theorem reseed_evicts_newest:
  assumes "r_prefixLocalityEnabled r" "r_store r \<noteq> None" and "length rows = prefixLocalityMaxEntries" and "distinct (map px_hash rows)"
    and "\<forall>row \<in> set rows. now - px_ts row \<le> prefixLocalityTTL \<and> px_node row \<in> ns_Name ` set (r_nodes r)"
    and "key \<notin> px_hash ` set rows"
  shows "prefix_lookup now (prefix_set now key node (seedPrefixLocalityFromStore now r rows newPrefixLocalityStore)) (px_hash (last rows)) = None
    \<and> (\<forall>row \<in> set (butlast rows).
         prefix_lookup now (prefix_set now key node (seedPrefixLocalityFromStore now r rows newPrefixLocalityStore)) (px_hash row)
           = Some (px_node row))"
proof -
  let ?s = "seedPrefixLocalityFromStore now r rows newPrefixLocalityStore" and ?e = "\<lambda>row. (px_hash row, px_node row, now)"
  have s: "?s = seed_loop now (map ns_Name (r_nodes r)) (rev rows) 0 newPrefixLocalityStore"
    using assms(1,2) by (auto simp: seedPrefixLocalityFromStore_def)
  have ok: "prefix_ok ?s" unfolding s using new_prefix_ok(1) by (rule seed_loop_ok)
  have c: "prefix_contents ?s = map ?e (rev rows)"
    unfolding s using seed_loop_contents [OF new_prefix_ok(1), of "rev rows" now "map ns_Name (r_nodes r)" 0] assms(3-5) new_prefix_ok(2)
    by (simp add: rev_map [symmetric])
  have ne: "rows \<noteq> []" using assms(3) by (auto simp: prefixLocalityMaxEntries_def)
  then obtain front row where rows: "rows = front @ [row]" by (metis append_butlast_last_id)
  have put: "prefix_contents (setLocked now key node ?s) = map ?e (rev front) @ [(key, node, now)]"
    using setLocked_refines(2) [OF ok, of now key node] c assms(3,6)
    by (auto simp: recency_put_def rows image_iff)
  have ok': "prefix_ok (setLocked now key node ?s)" by (rule setLocked_refines(1) [OF ok])
  note look = pfx.look_contents [OF ok', of now]
  have dist: "distinct (map fst (map ?e (rev front) @ [(key, node, now)]))"
    using pfx.ok_distinct [OF ok'] unfolding put .
  have "px_hash row \<notin> fst ` set (map ?e (rev front) @ [(key, node, now)])"
    using assms(4,6) by (auto simp: rows)
  moreover define C where "C = map ?e (rev front) @ [(key, node, now)]"
  ultimately have "map_of C (px_hash row) = None"
    by (simp only: map_of_eq_None_iff not_False_eq_True)
  moreover have "map_of C (px_hash w) = Some (px_node w, now)" if "w \<in> set front" for w
    using that unfolding C_def by (intro map_of_is_SomeI [OF dist]) auto
  ultimately show ?thesis
    unfolding prefix_set_def look put [folded C_def] recency_get_def
    by (simp add: rows prefixLocalityTTL_def duration_defs)
qed

section \<open>Examples\<close>

theorem prefix_store_refines_recency_list_witness:
  "prefix_lookup 7 (prefix_set 5 ''h'' ''a'' newPrefixLocalityStore) ''h'' = Some ''a''"
  using prefix_store_refines_recency_list [OF rtranclp.rtrancl_refl, where now = 5 and now' = 7 and key = "''h''" and node = "''a''"]
  by (simp add: prefixLocalityTTL_def duration_defs)

definition demo_decode :: "string \<Rightarrow> chat_body option" where
  "demo_decode body = Some \<lparr> cb_Prompt = body, cb_Messages = [] \<rparr>"

definition demo_rows :: "prefix_row list" where
  "demo_rows = map (\<lambda>i. \<lparr> px_hash = CHR ''h'' # replicate i (CHR ''x''), px_node = ''a'', px_ts = 0 \<rparr>) [0..<10000]"

definition demo_local :: router where
  "demo_local = (demo_router [])\<lparr> r_prefixLocalityEnabled := True, r_nodes := [zero_node\<lparr> ns_Name := ''a'' \<rparr>],
     r_store := Some \<lparr> sr_warm = [], sr_affinity = [], sr_transitions = [], sr_drains = [] \<rparr> \<rparr>"

theorem reseed_evicts_newest_witness:
  "prefix_lookup 5 (prefix_set 5 ''new'' ''a'' (seedPrefixLocalityFromStore 5 demo_local demo_rows newPrefixLocalityStore))
     (px_hash (last demo_rows)) = None"
proof -
  have "distinct (map px_hash demo_rows)"
    by (simp add: demo_rows_def distinct_map inj_on_def comp_def del: upt_rec)
  moreover have "''new'' \<notin> px_hash ` set demo_rows" by (auto simp: demo_rows_def)
  moreover have "\<forall>row \<in> set demo_rows. 5 - px_ts row \<le> prefixLocalityTTL \<and> px_node row \<in> ns_Name ` set (r_nodes demo_local)"
    by (auto simp: demo_rows_def demo_local_def prefixLocalityTTL_def duration_defs)
  moreover have "r_prefixLocalityEnabled demo_local" "r_store demo_local \<noteq> None" "length demo_rows = prefixLocalityMaxEntries"
    by (simp_all add: demo_local_def demo_rows_def prefixLocalityMaxEntries_def)
  ultimately show ?thesis
    using reseed_evicts_newest [of demo_local demo_rows 5 "''new''" "''a''"] by blast
qed

end
