(* ===== verification/Registry.thy ===== *)
theory Registry
  imports Router_State
begin

text \<open>
  The node registry of \<^verbatim>\<open>internal/router/router.go\<close>: adding, re-addressing,
  removing and reconciling nodes, with all the per-node bookkeeping each of these
  operations drops.  The background poll that \<^verbatim>\<open>AddNode\<close> and \<^verbatim>\<open>UpdateNodeURL\<close>
  start is a later step of its own (theory \<^verbatim>\<open>Health\<close>), and the log
  rate-limiter keys \<^verbatim>\<open>dropNodeLogKeys\<close> clears are not state of the model.
\<close>

section \<open>Operations\<close>

definition delete_warm_rows :: "string \<Rightarrow> router \<Rightarrow> router" where
  "delete_warm_rows name r =
     (case r_store r of
        None \<Rightarrow> r
      | Some st \<Rightarrow> r\<lparr> r_store := Some (st\<lparr> sr_warm := filter (\<lambda>((m, node), row). node \<noteq> name) (sr_warm st) \<rparr>) \<rparr>)"

definition swapNodeForURLChange :: "nat \<Rightarrow> node_state \<Rightarrow> string \<Rightarrow> router \<Rightarrow> router" where
  "swapNodeForURLChange i repl oldURL r =
     r\<lparr> r_nodes := (r_nodes r)[i := repl], r_discoveredURLs := gm_del oldURL (r_discoveredURLs r),
        r_tagsCache := gm_del oldURL (r_tagsCache r) \<rparr>"

text \<open>Some node with another name has this normal form.\<close>

definition url_taken :: "('a url_lib_scheme) \<Rightarrow> router \<Rightarrow> string \<Rightarrow> string \<Rightarrow> bool" where
  "url_taken lib r name url \<longleftrightarrow>
     list_ex (\<lambda>e. ns_Name e \<noteq> name \<and> NormalizeNodeURL lib (ns_URL e) = NormalizeNodeURL lib url) (r_nodes r)"

definition AddNode :: "('a url_lib_scheme) \<Rightarrow> gotime \<Rightarrow> node_config \<Rightarrow> router \<Rightarrow> bool \<times> router" where
  "AddNode lib now c r =
     (if ValidateNodeURL lib (nc_URL c) \<noteq> None then (False, r)
      else if url_taken lib r (nc_Name c) (nc_URL c) then (False, r)
      else case last_match (\<lambda>e. ns_Name e = nc_Name c) (r_nodes r) of
        Some i \<Rightarrow>
          (let old = r_nodes r ! i;
               urlChanging = ns_URL old \<noteq> nc_URL c;
               r1 = (if urlChanging
                     then swapNodeForURLChange i
                            (replacementNodeState now old (nc_URL c) (hostOrDefault lib (nc_Host c) (nc_URL c)))
                            (ns_URL old) r
                     else r);
               r2 = r1\<lparr> r_nodes := (r_nodes r1)[i := refresh_node lib c (r_nodes r1 ! i)] \<rparr>
           in (True, if urlChanging then delete_warm_rows (nc_Name c) r2 else r2))
      | None \<Rightarrow> (True, r\<lparr> r_nodes := r_nodes r @ [added_node lib now c] \<rparr>))"

datatype url_change_error = InvalidURL url_error | URLTaken string | NodeNotFound string

text \<open>The scan of \<^verbatim>\<open>UpdateNodeURL\<close>: the first colliding node, or the last node of that name.\<close>

definition UpdateNodeURL ::
  "('a url_lib_scheme) \<Rightarrow> gotime \<Rightarrow> string \<Rightarrow> string \<Rightarrow> router \<Rightarrow> url_change_error option \<times> router" where
  "UpdateNodeURL lib now name newURL r =
     (case ValidateNodeURL lib newURL of
        Some err \<Rightarrow> (Some (InvalidURL err), r)
      | None \<Rightarrow>
        (case find (\<lambda>e. ns_Name e \<noteq> name \<and> NormalizeNodeURL lib (ns_URL e) = NormalizeNodeURL lib newURL)
                (r_nodes r) of
           Some e \<Rightarrow> (Some (URLTaken (ns_Name e)), r)
         | None \<Rightarrow>
           (case last_match (\<lambda>e. ns_Name e = name) (r_nodes r) of
              None \<Rightarrow> (Some (NodeNotFound name), r)
            | Some i \<Rightarrow>
              (let old = r_nodes r ! i;
                   node = replacementNodeState now old newURL
                            (ResultingHost lib (ns_Host old) (ns_URL old) newURL)
               in (None, delete_warm_rows name (swapNodeForURLChange i node (ns_URL old) r))))))"

definition drop_prefixed :: "string \<Rightarrow> (string, 'v) gomap \<Rightarrow> (string, 'v) gomap" where
  "drop_prefixed prefix m = gm_remove_if (\<lambda>k v. has_prefix k prefix) m"

text \<open>What is dropped for a removed URL and for a removed host no other node shares.\<close>

definition forget_url :: "string \<Rightarrow> router \<Rightarrow> router" where
  "forget_url url r =
     (if url = [] then r
      else r\<lparr> r_discoveredURLs := gm_del url (r_discoveredURLs r),
              r_tagsCache := gm_del url (r_tagsCache r),
              r_affinity := gm_remove_if (\<lambda>sid e. ae_nodeURL e = url) (r_affinity r),
              r_showCache := drop_prefixed (url @ ''|'') (r_showCache r) \<rparr>)"

definition forget_host :: "string \<Rightarrow> router \<Rightarrow> router" where
  "forget_host host r =
     (if host = [] \<or> list_ex (\<lambda>n. ns_Host n = host) (r_nodes r) then r
      else r\<lparr> r_marborAgents := gm_del host (r_marborAgents r) \<rparr>)"

definition forget_name :: "string \<Rightarrow> router \<Rightarrow> router" where
  "forget_name name r =
     (let prefix = name @ [CHR 0x00] in
      r\<lparr> r_prevHealthy := gm_del name (r_prevHealthy r),
         r_prevAgentPresent := gm_del name (r_prevAgentPresent r),
         r_pinned := gm_del name (r_pinned r),
         r_lastUsedCount := gm_del name (r_lastUsedCount r),
         r_lastUsedKeys := gm_del name (r_lastUsedKeys r),
         r_lastUsed := drop_prefixed prefix (r_lastUsed r),
         r_lastKnownCount := gm_del name (r_lastKnownCount r),
         r_lastKnownKeys := gm_del name (r_lastKnownKeys r),
         r_lastKnownVRAM := drop_prefixed prefix (r_lastKnownVRAM r),
         r_lastEvictAt := gm_del name (r_lastEvictAt r),
         r_evictClaimID := gm_del name (r_evictClaimID r),
         r_warmReserved := gm_del name (r_warmReserved r),
         r_warmupSuppressed := gm_del name (r_warmupSuppressed r) \<rparr>)"

definition RemoveNode :: "string \<Rightarrow> router \<Rightarrow> router" where
  "RemoveNode name r =
     (let (url, host) = (case FindNode r name of None \<Rightarrow> ([], []) | Some n \<Rightarrow> (ns_URL n, ns_Host n));
          r1 = r\<lparr> r_nodes := del_first (\<lambda>n. ns_Name n = name) (r_nodes r) \<rparr>
      in delete_warm_rows name (forget_name name (forget_url url (forget_host host r1))))"

text \<open>
  \<^verbatim>\<open>SyncNodes\<close>: the two maps it builds, the removal pass in the order \<^verbatim>\<open>range\<close>
  visits the current names, and the pass over the new configuration.
\<close>

definition new_by_name :: "node_config list \<Rightarrow> (string, node_config) gomap" where
  "new_by_name newNodes = fold (\<lambda>c. gm_put (nc_Name c) c) newNodes []"

definition sync_remove :: "(string, node_config) gomap \<Rightarrow> string \<Rightarrow> router \<times> int \<Rightarrow> router \<times> int" where
  "sync_remove newByName name acc =
     (case acc of (r, removed) \<Rightarrow>
        if gm_get newByName name = None then (RemoveNode name r, removed + 1) else (r, removed))"

definition sync_add ::
  "('a url_lib_scheme) \<Rightarrow> gotime \<Rightarrow> (string, string) gomap \<Rightarrow> node_config
     \<Rightarrow> router \<times> int \<times> int \<Rightarrow> router \<times> int \<times> int" where
  "sync_add lib now currentNames c acc =
     (case acc of (r, added, removed) \<Rightarrow>
        (case gm_get currentNames (nc_Name c) of
           None \<Rightarrow> (snd (AddNode lib now c r), added + 1, removed)
         | Some existingURL \<Rightarrow>
             if existingURL \<noteq> nc_URL c
             then (snd (AddNode lib now c (RemoveNode (nc_Name c) r)), added + 1, removed + 1)
             else (r, added, removed)))"

definition SyncNodes ::
  "('a url_lib_scheme) \<Rightarrow> gotime \<Rightarrow> node_config list \<Rightarrow> router \<Rightarrow> router \<times> int \<times> int" where
  "SyncNodes lib now newNodes r =
     (let newByName = new_by_name newNodes;
          currentNames = NodeURLs r;
          (r1, removed) = fold (sync_remove newByName) (map fst currentNames) (r, 0)
      in fold (sync_add lib now currentNames) newNodes (r1, 0, removed))"

section \<open>Invariant\<close>

text \<open>No two nodes share a name, and no two share a backend.\<close>

definition registry_ok :: "('a url_lib_scheme) \<Rightarrow> router \<Rightarrow> bool" where
  "registry_ok lib r \<longleftrightarrow>
     distinct (map ns_Name (r_nodes r))
     \<and> distinct (map (\<lambda>n. NormalizeNodeURL lib (ns_URL n)) (r_nodes r))"

section \<open>Lemmas\<close>

lemma delete_warm_rows_nodes [simp]: "r_nodes (delete_warm_rows name r) = r_nodes r"
  by (simp add: delete_warm_rows_def split: option.split)

lemma swapNode_nodes [simp]: "r_nodes (swapNodeForURLChange i n u r) = (r_nodes r)[i := n]"
  by (simp add: swapNodeForURLChange_def)

lemma forget_nodes [simp]:
  "r_nodes (forget_url u r) = r_nodes r" "r_nodes (forget_host h r) = r_nodes r"
  "r_nodes (forget_name n r) = r_nodes r"
  by (simp_all add: forget_url_def forget_host_def forget_name_def Let_def)

lemma RemoveNode_nodes: "r_nodes (RemoveNode name r) = del_first (\<lambda>n. ns_Name n = name) (r_nodes r)"
  by (simp add: RemoveNode_def Let_def split_beta)

lemma registry_ok_RemoveNode [inv_intros]: "registry_ok lib r \<Longrightarrow> registry_ok lib (RemoveNode name r)"
  by (simp add: registry_ok_def RemoveNode_nodes distinct_map_del_first)

text \<open>Replacing an entry by one with the same name and a URL nobody else has.\<close>

lemma distinct_list_update_same:
  "distinct (map f xs) \<Longrightarrow> i < length xs \<Longrightarrow> f y = f (xs ! i) \<Longrightarrow> distinct (map f (xs[i := y]))"
  by (metis list_update_id map_update)

lemma distinct_list_update_fresh:
  assumes "distinct (map f xs)" "i < length xs"
    and "\<And>j. j < length xs \<Longrightarrow> j \<noteq> i \<Longrightarrow> f (xs ! j) \<noteq> f y"
  shows "distinct (map f (xs[i := y]))"
proof -
  have "f y \<notin> set (map f xs) - {f (xs ! i)}"
  proof
    assume "f y \<in> set (map f xs) - {f (xs ! i)}"
    then obtain j where "j < length xs" "f y = f (xs ! j)" "f (xs ! j) \<noteq> f (xs ! i)"
      by (auto simp: in_set_conv_nth)
    then show False using assms(3) [of j] by auto
  qed
  then have "distinct ((map f xs)[i := f y])"
    using assms(1,2) by (cases "f y = f (xs ! i)") (auto intro!: distinct_list_update)
  then show ?thesis by (simp add: map_update)
qed

lemma registry_ok_update:
  assumes "registry_ok lib r" "i < length (r_nodes r)" "r_nodes r' = (r_nodes r)[i := n]"
    and "ns_Name n = ns_Name (r_nodes r ! i)"
    and "\<not> url_taken lib r (ns_Name n) (ns_URL n)"
  shows "registry_ok lib r'"
proof -
  have names: "distinct (map ns_Name (r_nodes r))" using assms(1) by (simp add: registry_ok_def)
  have "NormalizeNodeURL lib (ns_URL (r_nodes r ! j)) \<noteq> NormalizeNodeURL lib (ns_URL n)"
    if "j < length (r_nodes r)" "j \<noteq> i" for j
  proof -
    have "ns_Name (r_nodes r ! j) \<noteq> ns_Name n"
      using names assms(2,4) that by (simp add: distinct_conv_nth)
    then show ?thesis using assms(5) that(1) by (auto simp: url_taken_def list_ex_iff)
  qed
  then show ?thesis
    using assms(1-4)
    by (simp add: registry_ok_def distinct_list_update_same distinct_list_update_fresh)
qed

lemma registry_ok_nodes_cong: "r_nodes r' = r_nodes r \<Longrightarrow> registry_ok lib r' = registry_ok lib r"
  by (simp add: registry_ok_def)

lemma registry_ok_upd_node [inv_intros]:
  assumes "registry_ok lib r" "\<And>n. ns_Name (f n) = ns_Name n" "\<And>n. ns_URL (f n) = ns_URL n"
  shows "registry_ok lib (upd_node name f r)"
proof -
  have "map ns_Name (r_nodes (upd_node name f r)) = map ns_Name (r_nodes r)"
    "map ns_URL (r_nodes (upd_node name f r)) = map ns_URL (r_nodes r)"
    using assms(2,3) by simp_all
  moreover from this(2) have eq: "map (NormalizeNodeURL lib) (map ns_URL (r_nodes (upd_node name f r))) =
      map (NormalizeNodeURL lib) (map ns_URL (r_nodes r))" by simp
  from eq have "map (\<lambda>n. NormalizeNodeURL lib (ns_URL n)) (r_nodes (upd_node name f r)) =
      map (\<lambda>n. NormalizeNodeURL lib (ns_URL n)) (r_nodes r)" by (simp add: comp_def)
  ultimately show ?thesis using assms(1) by (simp add: registry_ok_def)
qed

text \<open>The shape of a successful \<^verbatim>\<open>AddNode\<close>.\<close>

lemma AddNode_cases:
  assumes "AddNode lib now c r = (ok, r')"
  obtains (rejected) "\<not> ok" "r' = r"
  | (appended) "ok" "\<not> url_taken lib r (nc_Name c) (nc_URL c)" "nc_Name c \<notin> ns_Name ` set (r_nodes r)"
      "r' = r\<lparr> r_nodes := r_nodes r @ [added_node lib now c] \<rparr>"
  | (upserted) i n where "ok" "\<not> url_taken lib r (nc_Name c) (nc_URL c)"
      "last_match (\<lambda>e. ns_Name e = nc_Name c) (r_nodes r) = Some i"
      "r_nodes r' = (r_nodes r)[i := n]" "ns_Name n = nc_Name c" "ns_URL n = nc_URL c"
      "ns_Draining n = ns_Draining (r_nodes r ! i)" "ns_DrainedReason n = ns_DrainedReason (r_nodes r ! i)"
proof (cases "ValidateNodeURL lib (nc_URL c) \<noteq> None \<or> url_taken lib r (nc_Name c) (nc_URL c)")
  case True
  then have "AddNode lib now c r = (False, r)" by (auto simp: AddNode_def)
  then show ?thesis using assms rejected by simp
next
  case ok: False
  show ?thesis
  proof (cases "last_match (\<lambda>e. ns_Name e = nc_Name c) (r_nodes r)")
    case None
    then have "AddNode lib now c r = (True, r\<lparr> r_nodes := r_nodes r @ [added_node lib now c] \<rparr>)"
      using ok by (simp add: AddNode_def)
    moreover have "nc_Name c \<notin> ns_Name ` set (r_nodes r)" using None by (auto simp: last_match_None_iff)
    ultimately show ?thesis using assms ok appended by simp
  next
    case (Some i)
    then have i: "i < length (r_nodes r)" "ns_Name (r_nodes r ! i) = nc_Name c"
      using last_match_Some by fastforce+
    define old where "old = r_nodes r ! i"
    define n where "n = refresh_node lib c (if ns_URL old \<noteq> nc_URL c
      then replacementNodeState now old (nc_URL c) (hostOrDefault lib (nc_Host c) (nc_URL c)) else old)"
    have "ok" "r_nodes r' = (r_nodes r)[i := n]"
      using assms ok Some i by (auto simp: AddNode_def Let_def n_def old_def split: if_splits)
    moreover have "ns_Name n = nc_Name c" "ns_URL n = nc_URL c" "ns_Draining n = ns_Draining old"
      "ns_DrainedReason n = ns_DrainedReason old"
      using i by (auto simp: n_def old_def)
    ultimately show ?thesis using upserted Some ok by (simp add: old_def)
  qed
qed

lemma registry_ok_AddNode [inv_intros]:
  assumes "registry_ok lib r"
  shows "registry_ok lib (snd (AddNode lib now c r))"
proof -
  obtain ok r' where a: "AddNode lib now c r = (ok, r')" by fastforce
  then show ?thesis
  proof (cases rule: AddNode_cases)
    case rejected
    then show ?thesis using a assms by simp
  next
    case appended
    have "NormalizeNodeURL lib (nc_URL c) \<notin> (\<lambda>n. NormalizeNodeURL lib (ns_URL n)) ` set (r_nodes r)"
    proof
      assume "NormalizeNodeURL lib (nc_URL c) \<in> (\<lambda>n. NormalizeNodeURL lib (ns_URL n)) ` set (r_nodes r)"
      then obtain n where "n \<in> set (r_nodes r)" "NormalizeNodeURL lib (ns_URL n) = NormalizeNodeURL lib (nc_URL c)"
        by auto
      moreover have "ns_Name n \<noteq> nc_Name c" using appended(3) \<open>n \<in> set (r_nodes r)\<close> by (metis imageI)
      ultimately show False using appended(2) by (auto simp: url_taken_def list_ex_iff)
    qed
    then show ?thesis using a assms appended by (simp add: registry_ok_def)
  next
    case (upserted i n)
    have "i < length (r_nodes r)" "ns_Name (r_nodes r ! i) = nc_Name c"
      using last_match_Some [OF upserted(3)] by simp_all
    then show ?thesis using a assms upserted registry_ok_update [of lib r i r' n] by simp
  qed
qed

lemma registry_ok_UpdateNodeURL [inv_intros]:
  assumes "registry_ok lib r"
  shows "registry_ok lib (snd (UpdateNodeURL lib now name url r))"
proof (cases "ValidateNodeURL lib url")
  case ok: None
  show ?thesis
  proof (cases "find (\<lambda>e. ns_Name e \<noteq> name \<and> NormalizeNodeURL lib (ns_URL e) = NormalizeNodeURL lib url) (r_nodes r)")
    case free: None
    show ?thesis
    proof (cases "last_match (\<lambda>e. ns_Name e = name) (r_nodes r)")
      case (Some i)
      have "i < length (r_nodes r)" "ns_Name (r_nodes r ! i) = name"
        using last_match_Some [OF Some] by simp_all
      moreover have "\<not> url_taken lib r name url"
        using free by (auto simp: find_None_iff url_taken_def list_ex_iff)
      moreover define n where "n = replacementNodeState now (r_nodes r ! i) url
        (ResultingHost lib (ns_Host (r_nodes r ! i)) (ns_URL (r_nodes r ! i)) url)"
      moreover have "snd (UpdateNodeURL lib now name url r) =
        delete_warm_rows name (swapNodeForURLChange i n (ns_URL (r_nodes r ! i)) r)"
        using ok free Some by (simp add: UpdateNodeURL_def Let_def n_def)
      ultimately show ?thesis using assms registry_ok_update [of lib r i _ n] by simp
    qed (use assms ok free in \<open>simp add: UpdateNodeURL_def\<close>)
  qed (use assms ok in \<open>simp add: UpdateNodeURL_def\<close>)
qed (use assms in \<open>simp add: UpdateNodeURL_def\<close>)

lemma registry_ok_sync_remove:
  "registry_ok lib (fst acc) \<Longrightarrow> registry_ok lib (fst (fold (sync_remove m) names acc))"
proof (induction names arbitrary: acc)
  case (Cons a names)
  then have "registry_ok lib (fst (sync_remove m a acc))"
    by (auto simp: sync_remove_def split: prod.split intro: registry_ok_RemoveNode)
  then show ?case using Cons.IH by simp
qed simp

lemma registry_ok_sync_add:
  "registry_ok lib (fst acc) \<Longrightarrow> registry_ok lib (fst (fold (sync_add lib now m) cs acc))"
proof (induction cs arbitrary: acc)
  case (Cons c cs)
  then have "registry_ok lib (fst (sync_add lib now m c acc))"
    by (auto simp: sync_add_def split: prod.split option.split
        intro!: registry_ok_AddNode registry_ok_RemoveNode)
  then show ?case using Cons.IH by simp
qed simp

lemma registry_ok_SyncNodes [inv_intros]:
  assumes "registry_ok lib r"
  shows "registry_ok lib (fst (SyncNodes lib now cs r))"
  using registry_ok_sync_remove [of lib "(r, 0)"] assms
  by (auto simp: SyncNodes_def Let_def split_beta intro!: registry_ok_sync_add)

lemma registry_ok_FindNode:
  assumes "registry_ok lib r" "n \<in> set (r_nodes r)"
  shows "FindNode r (ns_Name n) = Some n"
proof (cases "FindNode r (ns_Name n)")
  case None
  then show ?thesis using assms(2) by (auto simp: FindNode_None_iff)
next
  case (Some m)
  then have "m \<in> set (r_nodes r)" "ns_Name m = ns_Name n" using FindNode_Some by blast+
  then have "m = n" using assms unfolding registry_ok_def by (metis distinct_map inj_onD)
  with Some show ?thesis by simp
qed

lemma drop_prefixed_get:
  "gm_wf m \<Longrightarrow> gm_get (drop_prefixed p m) k = (if has_prefix k p then None else gm_get m k)"
  by (auto simp: drop_prefixed_def gm_get_remove_if split: option.split)

text \<open>Keys of two node names without NUL bytes never collide.\<close>

lemma modelKey_prefix:
  assumes "CHR 0x00 \<notin> set name" "CHR 0x00 \<notin> set other"
  shows "has_prefix (modelKey other model) (name @ [CHR 0x00]) \<longleftrightarrow> other = name"
proof
  assume "has_prefix (modelKey other model) (name @ [CHR 0x00])"
  then obtain t where "other @ CHR 0x00 # canonicalModelName model = name @ CHR 0x00 # t"
    by (auto simp: has_prefix_iff modelKey_def)
  then have "takeWhile (\<lambda>c. c \<noteq> CHR 0x00) (other @ CHR 0x00 # canonicalModelName model) =
      takeWhile (\<lambda>c. c \<noteq> CHR 0x00) (name @ CHR 0x00 # t)" by simp
  moreover have "takeWhile (\<lambda>c. c \<noteq> CHR 0x00) (xs @ CHR 0x00 # ys) = xs" if "CHR 0x00 \<notin> set xs" for xs ys
    using that by (subst takeWhile_append2) auto
  ultimately show "other = name" using assms by simp
qed (auto simp: has_prefix_iff modelKey_def)

section \<open>Steps of the registry\<close>

text \<open>Every operation that changes which nodes exist, where they are or what they declare.\<close>

inductive registry_step :: "('a url_lib_scheme) \<Rightarrow> router \<Rightarrow> router \<Rightarrow> bool" for lib where
  add: "registry_step lib r (snd (AddNode lib now c r))"
| remove: "registry_step lib r (RemoveNode name r)"
| move: "registry_step lib r (snd (UpdateNodeURL lib now name url r))"
| sync: "registry_step lib r (fst (SyncNodes lib now cs r))"
| patch: "registry_step lib r (snd (PatchNode name p r))"
| drain: "registry_step lib r (snd (DrainNode name reason grace r))"
| undrain: "registry_step lib r (snd (UndrainNode name r))"
| prewarm: "registry_step lib r (snd (SetPrewarmDisabled name b r))"
| outcome: "registry_step lib r (RecordRequestOutcome now name ok r)"

inductive_cases registry_stepE: "registry_step lib r r'"

lemma record_outcome_simps [simp]:
  "ns_Name (record_outcome now s n) = ns_Name n" "ns_URL (record_outcome now s n) = ns_URL n"
  by (simp_all add: record_outcome_def Let_def)

lemma registry_ok_step: "registry_step lib r r' \<Longrightarrow> registry_ok lib r \<Longrightarrow> registry_ok lib r'"
proof (induction rule: registry_step.induct)
  case (patch r name p)
  then show ?case by (auto simp: PatchNode_def split: option.split intro!: inv_intros)
next
  case (drain r name reason grace)
  have "registry_ok lib (upd_node name (drain_node reason grace) r)"
    using drain by (rule registry_ok_upd_node) simp_all
  then show ?case using drain by (simp add: DrainNode_def registry_ok_def split: option.split)
next
  case (undrain r name)
  have "registry_ok lib (upd_node name undrain_node r)"
    using undrain by (rule registry_ok_upd_node) simp_all
  then show ?case using undrain by (simp add: UndrainNode_def registry_ok_def split: option.split)
next
  case (prewarm r name b)
  then show ?case by (auto simp: SetPrewarmDisabled_def split: option.split intro!: inv_intros)
next
  case (outcome r now name ok)
  then show ?case by (auto simp: RecordRequestOutcome_def split: option.split intro!: inv_intros)
qed (auto intro: inv_intros)

section \<open>Reconciliation\<close>

lemma sync_remove_nodes:
  assumes "distinct (map ns_Name (r_nodes r))"
  shows "set (r_nodes (fst (fold (sync_remove m) names (r, k)))) =
      {n \<in> set (r_nodes r). ns_Name n \<in> set names \<longrightarrow> gm_get m (ns_Name n) \<noteq> None}"
  using assms
proof (induction names arbitrary: r k)
  case (Cons a names)
  show ?case
  proof (cases "gm_get m a")
    case None
    have "distinct (map ns_Name (r_nodes (RemoveNode a r)))"
      using Cons.prems by (simp add: RemoveNode_nodes distinct_map_del_first)
    moreover have "set (r_nodes (RemoveNode a r)) = {n \<in> set (r_nodes r). ns_Name n \<noteq> a}"
      using set_del_first_unique [OF Cons.prems] by (simp add: RemoveNode_nodes)
    ultimately show ?thesis
      using Cons.IH [of "RemoveNode a r" "k + 1"] None by (auto simp: sync_remove_def)
  next
    case (Some c)
    then show ?thesis using Cons.IH [OF Cons.prems, of k] by (auto simp: sync_remove_def)
  qed
qed simp

lemma fold_put_keys:
  "gm_get (fold (\<lambda>c. gm_put (f c) (g c)) cs m) k = None \<longleftrightarrow> k \<notin> f ` set cs \<and> gm_get m k = None"
  by (induction cs arbitrary: m) (auto simp: gm_get_put)

lemma new_by_name_None: "gm_get (new_by_name cs) k = None \<longleftrightarrow> k \<notin> nc_Name ` set cs"
  by (simp add: new_by_name_def fold_put_keys)

lemma NodeURLs_get:
  assumes "distinct (map ns_Name (r_nodes r))"
  shows "gm_get (NodeURLs r) x = map_option ns_URL (FindNode r x)"
proof -
  have "gm_get (fold (\<lambda>n. gm_put (ns_Name n) (ns_URL n)) ns m) x =
      (case find (\<lambda>n. ns_Name n = x) ns of None \<Rightarrow> gm_get m x | Some n \<Rightarrow> Some (ns_URL n))"
    if "distinct (map ns_Name ns)" for ns m
    using that
  proof (induction ns arbitrary: m)
    case (Cons n ns)
    have "find (\<lambda>k. ns_Name k = ns_Name n) ns = None" using Cons.prems by (auto simp: find_None_iff image_iff)
    then show ?case using Cons by (auto simp: gm_get_put split: option.split)
  qed simp
  from this [OF assms] show ?thesis
    by (simp add: NodeURLs_def FindNode_def split: option.split)
qed

lemma AddNode_names:
  "ns_Name ` set (r_nodes (snd (AddNode lib now c r))) \<subseteq> insert (nc_Name c) (ns_Name ` set (r_nodes r))"
proof -
  obtain ok r' where a: "AddNode lib now c r = (ok, r')" by fastforce
  then show ?thesis
  proof (cases rule: AddNode_cases)
    case (upserted i n)
    then have "set (r_nodes r') \<subseteq> insert n (set (r_nodes r))" by (simp add: set_update_subset_insert)
    then show ?thesis using a upserted by auto
  qed (use a in auto)
qed

lemma AddNode_keeps:
  assumes "n \<in> set (r_nodes r)" "ns_Name n \<noteq> nc_Name c"
  shows "n \<in> set (r_nodes (snd (AddNode lib now c r)))"
proof -
  obtain ok r' where a: "AddNode lib now c r = (ok, r')" by fastforce
  then show ?thesis
  proof (cases rule: AddNode_cases)
    case (upserted i m)
    have "ns_Name (r_nodes r ! i) = nc_Name c" using last_match_Some [OF upserted(3)] by simp
    moreover obtain j where "j < length (r_nodes r)" "r_nodes r ! j = n"
      using assms(1) by (auto simp: in_set_conv_nth)
    moreover have "j \<noteq> i" using assms(2) calculation by auto
    ultimately have "j < length (r_nodes r')" "r_nodes r' ! j = n" using upserted(4) by auto
    then show ?thesis using a by (auto simp: in_set_conv_nth)
  qed (use a assms in auto)
qed

lemma RemoveNode_keeps:
  assumes "n \<in> set (r_nodes r)" "ns_Name n \<noteq> name" shows "n \<in> set (r_nodes (RemoveNode name r))"
proof -
  have "n \<in> set ns \<Longrightarrow> n \<in> set (del_first (\<lambda>n. ns_Name n = name) ns)" for ns
    using assms(2) by (induction ns) auto
  then show ?thesis using assms(1) by (simp add: RemoveNode_nodes)
qed

lemma sync_add_keeps:
  assumes "n \<in> set (r_nodes (fst acc))" "gm_get m (ns_Name n) = Some (ns_URL n)"
    and "\<forall>c \<in> set cs. nc_Name c = ns_Name n \<longrightarrow> nc_URL c = ns_URL n"
  shows "n \<in> set (r_nodes (fst (fold (sync_add lib now m) cs acc)))"
  using assms(1,3)
proof (induction cs arbitrary: acc)
  case (Cons c cs)
  have "n \<in> set (r_nodes (fst (sync_add lib now m c acc)))"
  proof (cases "nc_Name c = ns_Name n")
    case True
    then have "nc_URL c = ns_URL n" using Cons.prems(2) by simp
    then show ?thesis using True Cons.prems(1) assms(2) by (auto simp: sync_add_def split: prod.split)
  next
    case False
    then show ?thesis
      using Cons.prems(1)
      by (auto simp: sync_add_def split: prod.split option.split intro!: AddNode_keeps RemoveNode_keeps)
  qed
  then show ?case using Cons by simp
qed simp

lemma sync_add_names:
  "ns_Name ` set (r_nodes (fst (fold (sync_add lib now m) cs acc))) \<subseteq>
     ns_Name ` set (r_nodes (fst acc)) \<union> nc_Name ` set cs"
proof (induction cs arbitrary: acc)
  case (Cons c cs)
  have "ns_Name ` set (r_nodes (fst (sync_add lib now m c acc))) \<subseteq>
      insert (nc_Name c) (ns_Name ` set (r_nodes (fst acc)))"
  proof -
    have del: "ns_Name ` set (r_nodes (RemoveNode (nc_Name c) (fst acc))) \<subseteq> ns_Name ` set (r_nodes (fst acc))"
      by (simp add: RemoveNode_nodes image_mono set_del_first_subset)
    have "fst (sync_add lib now m c acc) \<in>
      {fst acc, snd (AddNode lib now c (fst acc)), snd (AddNode lib now c (RemoveNode (nc_Name c) (fst acc)))}"
      by (auto simp: sync_add_def split: prod.split option.split)
    then consider "fst (sync_add lib now m c acc) = fst acc"
      | "fst (sync_add lib now m c acc) = snd (AddNode lib now c (fst acc))"
      | "fst (sync_add lib now m c acc) = snd (AddNode lib now c (RemoveNode (nc_Name c) (fst acc)))" by blast
    then show ?thesis
    proof cases
      case 1
      then show ?thesis by auto
    next
      case 2
      then show ?thesis using AddNode_names [of lib now c "fst acc"] by simp
    next
      case 3
      show ?thesis
        unfolding 3
        by (rule subset_trans [OF AddNode_names insert_mono [OF del]])
    qed
  qed
  from subset_trans [OF Cons.IH [of "sync_add lib now m c acc"] Un_mono [OF this subset_refl]]
  show ?case by simp
qed simp

section \<open>Properties\<close>

text \<open>
  Starting from a configuration without duplicate names or backends, no
  sequence of registry operations (add, upsert, remove, re-address, reconcile,
  patch, drain, undrain) ever yields two nodes with one name or two nodes with
  the same normalised backend URL.
\<close>

lemma registry_invariant:
  assumes "distinct (map nc_Name cfgs)" "distinct (map (\<lambda>c. NormalizeNodeURL lib (nc_URL c)) cfgs)"
    and "(registry_step lib)\<^sup>*\<^sup>* (New lib pd now cfg cfgs clouds) r"
  shows "distinct (map ns_Name (r_nodes r))
    \<and> distinct (map (\<lambda>n. NormalizeNodeURL lib (ns_URL n)) (r_nodes r))"
proof -
  have "registry_ok lib (New lib pd now cfg cfgs clouds)"
    using assms(1,2) by (simp add: registry_ok_def New_def Let_def comp_def)
  with assms(3) have "registry_ok lib r"
    by (induction rule: rtranclp_induct) (auto intro: registry_ok_step)
  then show ?thesis by (simp add: registry_ok_def)
qed

text \<open>
  \<^verbatim>\<open>RemoveNode\<close> leaves nothing of the node behind: it is no longer found, none
  of the per-node maps has an entry for it, no usage or size record is keyed by
  it and no session stays pinned to its URL; and it disturbs no other node, whose
  state and usage records are unchanged.
\<close>

lemma remove_node_forgets:
  assumes "registry_ok lib r" "gm_wf (r_lastUsed r)" "gm_wf (r_lastKnownVRAM r)" "gm_wf (r_affinity r)"
    and "FindNode r name = Some n" "ns_URL n \<noteq> []" "CHR 0x00 \<notin> set name"
  shows "FindNode (RemoveNode name r) name = None
    \<and> (\<forall>model. gm_get (r_lastUsed (RemoveNode name r)) (modelKey name model) = None
         \<and> gm_get (r_lastKnownVRAM (RemoveNode name r)) (modelKey name model) = None)
    \<and> gm_get (r_pinned (RemoveNode name r)) name = None
    \<and> gm_get (r_warmReserved (RemoveNode name r)) name = None
    \<and> gm_get (r_lastEvictAt (RemoveNode name r)) name = None
    \<and> gm_get (r_warmupSuppressed (RemoveNode name r)) name = None
    \<and> (\<forall>sid e. gm_get (r_affinity (RemoveNode name r)) sid = Some e \<longrightarrow> ae_nodeURL e \<noteq> ns_URL n)
    \<and> (\<forall>m \<in> set (r_nodes r). ns_Name m \<noteq> name \<longrightarrow> FindNode (RemoveNode name r) (ns_Name m) = Some m)
    \<and> (\<forall>other model. other \<noteq> name \<longrightarrow> CHR 0x00 \<notin> set other \<longrightarrow>
         gm_get (r_lastUsed (RemoveNode name r)) (modelKey other model) = gm_get (r_lastUsed r) (modelKey other model))"
proof -
  have names: "distinct (map ns_Name (r_nodes r))" using assms(1) by (simp add: registry_ok_def)
  have "name \<notin> ns_Name ` set (r_nodes (RemoveNode name r))"
    using set_del_first_unique [OF names, of name] by (auto simp: RemoveNode_nodes)
  then have gone: "FindNode (RemoveNode name r) name = None" by (simp add: FindNode_None_iff)
  have kept: "FindNode (RemoveNode name r) (ns_Name m) = Some m"
    if "m \<in> set (r_nodes r)" "ns_Name m \<noteq> name" for m
    using registry_ok_FindNode [OF registry_ok_RemoveNode [OF assms(1)] RemoveNode_keeps [OF that]] .
  have frame: "r_lastUsed (delete_warm_rows x s) = r_lastUsed s"
    "r_lastKnownVRAM (delete_warm_rows x s) = r_lastKnownVRAM s"
    "r_pinned (delete_warm_rows x s) = r_pinned s" "r_warmReserved (delete_warm_rows x s) = r_warmReserved s"
    "r_lastEvictAt (delete_warm_rows x s) = r_lastEvictAt s" "r_affinity (delete_warm_rows x s) = r_affinity s"
    "r_warmupSuppressed (delete_warm_rows x s) = r_warmupSuppressed s"
    "r_lastUsed (forget_host x s) = r_lastUsed s" "r_lastKnownVRAM (forget_host x s) = r_lastKnownVRAM s"
    "r_affinity (forget_host x s) = r_affinity s" for x s
    by (simp_all add: delete_warm_rows_def forget_host_def split: option.split)
  show ?thesis
    using gone kept assms(2-)
    by (auto simp: RemoveNode_def Let_def frame forget_name_def forget_url_def gm_get_del drop_prefixed_get
        modelKey_prefix gm_get_remove_if split: option.splits if_splits)
qed

text \<open>
  Draining is not undone by re-registering or re-addressing a node: after a
  successful \<^verbatim>\<open>AddNode\<close> upsert of the same name or a successful
  \<^verbatim>\<open>UpdateNodeURL\<close>, the node found under that name has the drain flag and the
  drain reason it had before.
\<close>

lemma drain_survives_reregistration:
  assumes "registry_ok lib r" "FindNode r name = Some n"
    and "(nc_Name c = name \<and> AddNode lib now c r = (True, r')) \<or> UpdateNodeURL lib now name url r = (None, r')"
  shows "\<exists>n'. FindNode r' name = Some n' \<and> ns_Draining n' = ns_Draining n \<and> ns_DrainedReason n' = ns_DrainedReason n"
proof -
  have n: "n \<in> set (r_nodes r)" "ns_Name n = name" using FindNode_Some [OF assms(2)] by simp_all
  have at: "r_nodes r ! i = n" if "last_match (\<lambda>e. ns_Name e = name) (r_nodes r) = Some i" for i
  proof -
    have "r_nodes r ! i \<in> set (r_nodes r)" "ns_Name (r_nodes r ! i) = name"
      using last_match_Some [OF that] by simp_all
    then show ?thesis using registry_ok_FindNode [OF assms(1), of "r_nodes r ! i"] assms(2) by simp
  qed
  have ok': "registry_ok lib r'"
    using assms(3) registry_ok_AddNode [OF assms(1), of now c]
      registry_ok_UpdateNodeURL [OF assms(1), of now name url] by auto
  have "\<exists>i m. last_match (\<lambda>e. ns_Name e = name) (r_nodes r) = Some i \<and> r_nodes r' = (r_nodes r)[i := m]
      \<and> ns_Name m = name \<and> ns_Draining m = ns_Draining (r_nodes r ! i)
      \<and> ns_DrainedReason m = ns_DrainedReason (r_nodes r ! i)"
    using assms(3)
  proof
    assume a: "nc_Name c = name \<and> AddNode lib now c r = (True, r')"
    then show ?thesis using n by (cases rule: AddNode_cases [OF conjunct2 [OF a]]) auto
  next
    assume "UpdateNodeURL lib now name url r = (None, r')"
    then show ?thesis
      using last_match_Some [of "\<lambda>e. ns_Name e = name" "r_nodes r"]
      by (fastforce simp: UpdateNodeURL_def Let_def split: option.splits)
  qed
  then obtain i m where i: "last_match (\<lambda>e. ns_Name e = name) (r_nodes r) = Some i"
    and m: "r_nodes r' = (r_nodes r)[i := m]" "ns_Name m = name" "ns_Draining m = ns_Draining (r_nodes r ! i)"
      "ns_DrainedReason m = ns_DrainedReason (r_nodes r ! i)" by blast
  have "m \<in> set (r_nodes r')" using m(1) last_match_Some [OF i] by (simp add: set_update_memI)
  then have "FindNode r' name = Some m" using registry_ok_FindNode [OF ok'] m(2) by metis
  then show ?thesis using m(3,4) at [OF i] by auto
qed

text \<open>
  \<^verbatim>\<open>SyncNodes\<close> never leaves a node that the new configuration does not
  name, and a node whose name and URL the new configuration keeps is left exactly
  as it was, health history, connections and drain state included.
\<close>

lemma sync_nodes_reconciles:
  assumes "registry_ok lib r"
  shows "ns_Name ` set (r_nodes (fst (SyncNodes lib now cs r))) \<subseteq> nc_Name ` set cs
    \<and> (\<forall>n \<in> set (r_nodes r).
         (\<exists>c \<in> set cs. nc_Name c = ns_Name n)
         \<and> (\<forall>c \<in> set cs. nc_Name c = ns_Name n \<longrightarrow> nc_URL c = ns_URL n)
         \<longrightarrow> n \<in> set (r_nodes (fst (SyncNodes lib now cs r))))"
proof -
  have names: "distinct (map ns_Name (r_nodes r))" using assms by (simp add: registry_ok_def)
  have cur: "x \<in> set (map fst (NodeURLs r)) \<longleftrightarrow> x \<in> ns_Name ` set (r_nodes r)" for x
    using NodeURLs_get [OF names, of x] FindNode_None_iff [of r x] gm_key_iff [of x "NodeURLs r"] by auto
  obtain r1 k where r1: "fold (sync_remove (new_by_name cs)) (map fst (NodeURLs r)) (r, 0) = (r1, k)" by fastforce
  have nodes1: "set (r_nodes r1) = {n \<in> set (r_nodes r). ns_Name n \<in> nc_Name ` set cs}"
    using sync_remove_nodes [OF names, of "new_by_name cs" "map fst (NodeURLs r)" 0] r1 cur
      new_by_name_None [of cs] by auto
  have res: "fst (SyncNodes lib now cs r) = fst (fold (sync_add lib now (NodeURLs r)) cs (r1, 0, k))"
    by (simp add: SyncNodes_def Let_def r1)
  have sub: "ns_Name ` set (r_nodes (fst (SyncNodes lib now cs r))) \<subseteq> nc_Name ` set cs"
    using sync_add_names [of lib now "NodeURLs r" cs "(r1, 0, k)"] nodes1 unfolding res by auto
  have "n \<in> set (r_nodes (fst (SyncNodes lib now cs r)))"
    if "n \<in> set (r_nodes r)" "\<exists>c \<in> set cs. nc_Name c = ns_Name n"
      "\<forall>c \<in> set cs. nc_Name c = ns_Name n \<longrightarrow> nc_URL c = ns_URL n" for n
    unfolding res
  proof (rule sync_add_keeps)
    have "ns_Name n \<in> nc_Name ` set cs" using that(2) by (metis imageI)
    then show "n \<in> set (r_nodes (fst (r1, 0, k)))" using that(1) nodes1 by simp
    show "gm_get (NodeURLs r) (ns_Name n) = Some (ns_URL n)"
      using NodeURLs_get [OF names] registry_ok_FindNode [OF assms that(1)] by simp
    show "\<forall>c \<in> set cs. nc_Name c = ns_Name n \<longrightarrow> nc_URL c = ns_URL n" by (rule that(3))
  qed
  with sub show ?thesis by blast
qed

text \<open>
  C39. A reconciliation that exchanges the URLs of two nodes loses one of them:
  the first is removed and then refused, because the second still holds its new
  URL at that moment, and nothing retries it.
\<close>

theorem sync_url_exchange_drops_node:
  assumes "r_nodes r = [a, b]" "ns_Name a \<noteq> ns_Name b"
    and "ValidateNodeURL lib (ns_URL a) = None" "ValidateNodeURL lib (ns_URL b) = None"
    and "NormalizeNodeURL lib (ns_URL a) \<noteq> NormalizeNodeURL lib (ns_URL b)"
    and "nc_Name c1 = ns_Name a" "nc_URL c1 = ns_URL b" "nc_Name c2 = ns_Name b" "nc_URL c2 = ns_URL a"
  shows "map ns_Name (r_nodes (fst (SyncNodes lib now [c1, c2] r))) = [ns_Name b]"
proof -
  have ne: "ns_URL a \<noteq> ns_URL b" using assms(5) by auto
  have keep: "fold (sync_remove (new_by_name [c1, c2])) (map fst (NodeURLs r)) (r, 0) = (r, 0)"
    using assms by (simp add: NodeURLs_def sync_remove_def new_by_name_def gm_get_put)
  have urls: "gm_get (NodeURLs r) (ns_Name a) = Some (ns_URL a)" "gm_get (NodeURLs r) (ns_Name b) = Some (ns_URL b)"
    using assms(1,2) by (simp_all add: NodeURLs_def)
  define r1 where "r1 = RemoveNode (ns_Name a) r"
  have n1: "r_nodes r1 = [b]" using assms(1,2) by (simp add: r1_def RemoveNode_nodes)
  have rej: "AddNode lib now c1 r1 = (False, r1)"
    using assms n1 by (simp add: AddNode_def url_taken_def)
  have "r_nodes (RemoveNode (ns_Name b) r1) = []" using n1 by (simp add: RemoveNode_nodes)
  then have "r_nodes (snd (AddNode lib now c2 (RemoveNode (ns_Name b) r1))) = [added_node lib now c2]"
    using assms by (simp add: AddNode_def url_taken_def)
  moreover have "fst (SyncNodes lib now [c1, c2] r) = snd (AddNode lib now c2 (RemoveNode (ns_Name b) r1))"
    using assms(6-9) urls ne rej by (simp add: SyncNodes_def Let_def keep sync_add_def r1_def [symmetric])
  ultimately show ?thesis using assms(8) by simp
qed

theorem sync_url_exchange_drops_node_witness:
  "map ns_Name (r_nodes (fst (SyncNodes plain_lib 0 [demo_config ''a'' ''u2'', demo_config ''b'' ''u1'']
      (demo_router [demo_config ''a'' ''u1'', demo_config ''b'' ''u2''])))) = [''b'']"
  using sync_url_exchange_drops_node
    [of "demo_router [demo_config ''a'' ''u1'', demo_config ''b'' ''u2'']"
      "new_node plain_lib 0 (demo_config ''a'' ''u1'')" "new_node plain_lib 0 (demo_config ''b'' ''u2'')"
      plain_lib "demo_config ''a'' ''u2''" "demo_config ''b'' ''u1''" 0]
  by (simp add: plain_lib_valid)

end
