(* ===== verification/Usage.thy ===== *)
theory Usage
  imports Registry "HOL-Library.Product_Lexorder"
begin

text \<open>
  Per-node model bookkeeping (\<^verbatim>\<open>internal/router/eviction.go\<close>): when each model
  was last requested and the VRAM size it was last seen with.  Model names come
  from clients, so both maps are bounded per node and trimmed in batches.

  The two maps have the same layout (the values, a per-node count and a per-node
  index of keys), modelled once as \<open>tracked\<close>.
\<close>

section \<open>A bounded map per node\<close>

record 'v tracked =
  tr_vals :: "(string, 'v) gomap"
  tr_count :: "(string, int) gomap"
  tr_keys :: "(string, string list) gomap"

definition maxTrackedModelsPerNode :: nat where "maxTrackedModelsPerNode = 1024"
definition trimBatch :: nat where "trimBatch = maxTrackedModelsPerNode div 8"

definition node_prefix :: "string \<Rightarrow> string" where
  "node_prefix node = node @ [CHR 0x00]"

text \<open>An entry of the slice that is sorted: how strongly to keep it, its stamp, its key.\<close>

type_synonym trim_entry = "nat \<times> gotime \<times> string"

definition trim_entry_of ::
  "(string, 'v) gomap \<Rightarrow> string \<Rightarrow> string list \<Rightarrow> gotime \<Rightarrow> ('v \<Rightarrow> gotime) \<Rightarrow> string \<Rightarrow> trim_entry option" where
  "trim_entry_of m node loaded recentSince stamp k =
     (case (gm_get m k, cut_prefix k (node_prefix node)) of
        (Some v, Some name) \<Rightarrow>
          (let ts = stamp v;
               keep = (if \<not> time_is_zero recentSince \<and> ts > recentSince then 1 else 0);
               keep' = (if name \<in> set loaded then 2 else keep)
           in Some (keep', ts, k))
      | _ \<Rightarrow> None)"

text \<open>The map, the key index and the number of entries left.\<close>

definition trimNodeEntries ::
  "(string, 'v) gomap \<Rightarrow> string list \<Rightarrow> string \<Rightarrow> string list \<Rightarrow> gotime \<Rightarrow> ('v \<Rightarrow> gotime)
     \<Rightarrow> (string, 'v) gomap \<times> string list \<times> int" where
  "trimNodeEntries m keys node loaded recentSince stamp =
     (let entries = sort (List.map_filter (trim_entry_of m node loaded recentSince stamp) keys);
          live = filter (\<lambda>k. trim_entry_of m node loaded recentSince stamp k \<noteq> None) keys;
          drp = min trimBatch (length entries);
          dropped = map (\<lambda>(keep, ts, k). k) (take drp entries)
      in (fold gm_del dropped m, filter (\<lambda>k. k \<notin> set dropped) live, int (length entries) - int drp))"

definition noteKey :: "(string, string list) gomap \<Rightarrow> string \<Rightarrow> string \<Rightarrow> (string, string list) gomap" where
  "noteKey idx node key = gm_put node (List.insert key (gm_at [] idx node)) idx"

text \<open>The common body of \<^verbatim>\<open>stampLastUsedLocked\<close> and \<^verbatim>\<open>storeLastKnownLocked\<close>.\<close>

definition track_put ::
  "string \<Rightarrow> string \<Rightarrow> 'v \<Rightarrow> string list \<Rightarrow> gotime \<Rightarrow> ('v \<Rightarrow> gotime) \<Rightarrow> 'v tracked \<Rightarrow> 'v tracked" where
  "track_put node key v loaded recentSince stamp t =
     (let t1 = (if gm_get (tr_vals t) key = None then
                  let t0 = (if gm_at 0 (tr_count t) node \<ge> int maxTrackedModelsPerNode then
                              (case trimNodeEntries (tr_vals t) (gm_at [] (tr_keys t) node) node loaded recentSince stamp of
                                 (m, ks, c) \<Rightarrow> t\<lparr> tr_vals := m, tr_keys := gm_put node ks (tr_keys t),
                                                   tr_count := gm_put node c (tr_count t) \<rparr>)
                            else t)
                  in t0\<lparr> tr_count := gm_put node (gm_at 0 (tr_count t0) node + 1) (tr_count t0) \<rparr>
                else t)
      in t1\<lparr> tr_vals := gm_put key v (tr_vals t1), tr_keys := noteKey (tr_keys t1) node key \<rparr>)"

definition track_forget :: "string \<Rightarrow> 'v tracked \<Rightarrow> 'v tracked" where
  "track_forget node t =
     t\<lparr> tr_count := gm_del node (tr_count t), tr_keys := gm_del node (tr_keys t),
        tr_vals := drop_prefixed (node_prefix node) (tr_vals t) \<rparr>"

section \<open>Last use\<close>

definition last_used :: "router \<Rightarrow> gotime tracked" where
  "last_used r = \<lparr> tr_vals = r_lastUsed r, tr_count = r_lastUsedCount r, tr_keys = r_lastUsedKeys r \<rparr>"

definition set_last_used :: "gotime tracked \<Rightarrow> router \<Rightarrow> router" where
  "set_last_used t r =
     r\<lparr> r_lastUsed := tr_vals t, r_lastUsedCount := tr_count t, r_lastUsedKeys := tr_keys t \<rparr>"

definition defaultPollInterval :: duration where "defaultPollInterval = 2 * second"

definition recentRequestCutoff :: "router \<Rightarrow> gotime \<Rightarrow> gotime" where
  "recentRequestCutoff r now = now - (if r_interval r \<le> 0 then defaultPollInterval else r_interval r)"

definition stampLastUsedLocked :: "string \<Rightarrow> string \<Rightarrow> gotime \<Rightarrow> string list \<Rightarrow> router \<Rightarrow> router" where
  "stampLastUsedLocked node model ts loaded r =
     set_last_used
       (track_put node (modelKey node model) ts loaded (recentRequestCutoff r ts) (\<lambda>t. t) (last_used r)) r"

definition lastUsedFullLocked :: "router \<Rightarrow> string \<Rightarrow> string \<Rightarrow> bool" where
  "lastUsedFullLocked r node model =
     (if gm_at 0 (r_lastUsedCount r) node < int maxTrackedModelsPerNode then False
      else gm_get (r_lastUsed r) (modelKey node model) = None)"

definition loadedModelSet :: "router \<Rightarrow> string \<Rightarrow> string list" where
  "loadedModelSet r node =
     (case FindNode r node of
        None \<Rightarrow> [] | Some n \<Rightarrow> map (\<lambda>m. canonicalModelName (mi_Name m)) (ns_LoadedModels n))"

definition forgetLastUsedForNode :: "string \<Rightarrow> router \<Rightarrow> router" where
  "forgetLastUsedForNode node r = set_last_used (track_forget node (last_used r)) r"

text \<open>The post-check for a node removed meanwhile.\<close>

definition undoIfNodeRemoved :: "string \<Rightarrow> (string \<Rightarrow> router \<Rightarrow> router) \<Rightarrow> router \<Rightarrow> router" where
  "undoIfNodeRemoved node forget r = (if nodeExists r node then r else forget node r)"

definition RecordModelUse :: "gotime \<Rightarrow> string \<Rightarrow> string \<Rightarrow> router \<Rightarrow> router" where
  "RecordModelUse now node model r =
     (if node = [] \<or> model = [] then r
      else if \<not> nodeExists r node then r
      else
        let loaded = (if lastUsedFullLocked r node model then loadedModelSet r node else [])
        in undoIfNodeRemoved node forgetLastUsedForNode (stampLastUsedLocked node model now loaded r))"

definition lastUsedAt :: "router \<Rightarrow> string \<Rightarrow> string \<Rightarrow> gotime" where
  "lastUsedAt r node model = gm_at time_zero (r_lastUsed r) (modelKey node model)"

section \<open>Last known size\<close>

definition last_known :: "router \<Rightarrow> int tracked" where
  "last_known r = \<lparr> tr_vals = r_lastKnownVRAM r, tr_count = r_lastKnownCount r, tr_keys = r_lastKnownKeys r \<rparr>"

definition set_last_known :: "int tracked \<Rightarrow> router \<Rightarrow> router" where
  "set_last_known t r =
     r\<lparr> r_lastKnownVRAM := tr_vals t, r_lastKnownCount := tr_count t, r_lastKnownKeys := tr_keys t \<rparr>"

definition storeLastKnownLocked :: "string \<Rightarrow> string \<Rightarrow> int \<Rightarrow> string list \<Rightarrow> router \<Rightarrow> router" where
  "storeLastKnownLocked node key sz loaded r =
     set_last_known (track_put node key sz loaded time_zero (\<lambda>_. time_zero) (last_known r)) r"

definition putLastKnownVRAM :: "string \<Rightarrow> string \<Rightarrow> int \<Rightarrow> router \<Rightarrow> router" where
  "putLastKnownVRAM node model sz r =
     (if sz \<le> 0 then r
      else
        let key = modelKey node model;
            full = gm_get (r_lastKnownVRAM r) key = None
                   \<and> gm_at 0 (r_lastKnownCount r) node \<ge> int maxTrackedModelsPerNode;
            loaded = (if full then loadedModelSet r node else [])
        in storeLastKnownLocked node key sz loaded r)"

definition forgetLastKnownForNode :: "string \<Rightarrow> router \<Rightarrow> router" where
  "forgetLastKnownForNode node r = set_last_known (track_forget node (last_known r)) r"

definition recordLastKnownVRAM :: "string \<Rightarrow> string \<Rightarrow> int \<Rightarrow> router \<Rightarrow> router" where
  "recordLastKnownVRAM node model sz r =
     (if sz \<le> 0 \<or> \<not> nodeExists r node then r
      else undoIfNodeRemoved node forgetLastKnownForNode (putLastKnownVRAM node model sz r))"

definition lastKnownVRAMBytes :: "router \<Rightarrow> string \<Rightarrow> string \<Rightarrow> int" where
  "lastKnownVRAMBytes r node model = gm_at 0 (r_lastKnownVRAM r) (modelKey node model)"

section \<open>Invariant\<close>

text \<open>
  For a node name without NUL bytes, the index lists exactly the keys of the
  node, the count is their number, and there are at most the maximum.
\<close>

definition node_tracked :: "'v tracked \<Rightarrow> string \<Rightarrow> bool" where
  "node_tracked t node \<longleftrightarrow>
     (let ks = gm_at [] (tr_keys t) node in
      distinct ks \<and> set ks = {k \<in> fst ` set (tr_vals t). has_prefix k (node_prefix node)}
      \<and> gm_at 0 (tr_count t) node = int (length ks) \<and> length ks \<le> maxTrackedModelsPerNode)"

definition tracked_ok :: "'v tracked \<Rightarrow> bool" where
  "tracked_ok t \<longleftrightarrow> gm_wf (tr_vals t) \<and> (\<forall>node. CHR 0x00 \<notin> set node \<longrightarrow> node_tracked t node)"

definition tracked_empty :: "'v tracked" where
  "tracked_empty = \<lparr> tr_vals = [], tr_count = [], tr_keys = [] \<rparr>"

section \<open>Lemmas\<close>

lemma fold_gm_del_wf: "gm_wf m \<Longrightarrow> gm_wf (fold gm_del ks m)"
  by (induction ks arbitrary: m) auto

lemma map_filter_total: "\<forall>x \<in> set xs. f x \<noteq> None \<Longrightarrow> List.map_filter f xs = map (the \<circ> f) xs"
  by (induction xs) (auto simp: map_filter_simps)

lemma trim_entry_key: "trim_entry_of m node loaded rs stamp k = Some (keep, ts, k') \<Longrightarrow> k' = k"
  by (auto simp: trim_entry_of_def Let_def split: option.splits prod.splits)

lemma trim_entry_total:
  "k \<in> fst ` set m \<Longrightarrow> has_prefix k (node_prefix node) \<Longrightarrow> trim_entry_of m node loaded rs stamp k \<noteq> None"
  unfolding gm_key_iff by (auto simp: trim_entry_of_def cut_prefix_def Let_def)

text \<open>
  A trim drops the lowest-ranked entries, a batch of them or all there are, and
  nothing else.
\<close>

lemma trimNodeEntries_spec:
  assumes "trimNodeEntries m ks node loaded rs stamp = (m', ks', c)"
    and "gm_wf m" "distinct ks" "set ks = {k \<in> fst ` set m. has_prefix k (node_prefix node)}"
  shows "gm_wf m'" "distinct ks'" "set ks' \<subseteq> set ks" "c = int (length ks')"
    "length ks' = length ks - min trimBatch (length ks)"
    "gm_get m' k = (if k \<in> set ks - set ks' then None else gm_get m k)"
    "k \<in> set ks' \<Longrightarrow> d \<in> set ks - set ks' \<Longrightarrow>
       the (trim_entry_of m node loaded rs stamp d) \<le> the (trim_entry_of m node loaded rs stamp k)"
proof -
  let ?e = "\<lambda>k. the (trim_entry_of m node loaded rs stamp k)"
  have tot: "trim_entry_of m node loaded rs stamp k \<noteq> None" if "k \<in> set ks" for k
    using that assms(4) by (intro trim_entry_total) auto
  define es where "es = sort (map ?e ks)"
  define n where "n = min trimBatch (length ks)"
  have key: "(\<lambda>(keep, ts, k). k) (?e k) = k" if "k \<in> set ks" for k
    using tot [OF that] trim_entry_key [of m node loaded rs stamp k] by auto
  have set_es: "set es = ?e ` set ks" by (simp add: es_def)
  have inj: "inj_on ?e (set ks)" by (rule inj_on_inverseI) (rule key)
  have dist_es: "distinct es" using assms(3) inj by (simp add: es_def distinct_map)
  have sorted: "sorted es" by (simp add: es_def)
  define dropped where "dropped = map (\<lambda>(keep, ts, k). k) (take n es)"
  have mf: "List.map_filter (trim_entry_of m node loaded rs stamp) ks = map ?e ks"
    using tot by (subst map_filter_total) auto
  have live: "filter (\<lambda>k. trim_entry_of m node loaded rs stamp k \<noteq> None) ks = ks"
    using tot by (intro filter_True) auto
  have res: "m' = fold gm_del dropped m" "ks' = filter (\<lambda>k. k \<notin> set dropped) ks" "c = int (length ks) - int n"
    using assms(1) unfolding trimNodeEntries_def Let_def mf live es_def dropped_def n_def by auto
  have keyd: "k \<in> set dropped \<longleftrightarrow> k \<in> set ks \<and> ?e k \<in> set (take n es)" for k
  proof
    assume "k \<in> set dropped"
    then obtain e where e: "e \<in> set (take n es)" "k = (\<lambda>(keep, ts, k). k) e" by (auto simp: dropped_def)
    then obtain j where "j \<in> set ks" "e = ?e j" using set_es in_set_takeD by fastforce
    then show "k \<in> set ks \<and> ?e k \<in> set (take n es)" using e key by auto
  next
    assume "k \<in> set ks \<and> ?e k \<in> set (take n es)"
    then show "k \<in> set dropped" using key [of k] by (force simp: dropped_def)
  qed
  have "inj_on (\<lambda>(keep, ts, k). k) (set es)"
  proof (rule inj_on_inverseI)
    fix e assume "e \<in> set es"
    then show "?e ((\<lambda>(keep, ts, k). k) e) = e" using set_es key by auto
  qed
  then have "distinct (map (\<lambda>(keep, ts, k). k) es)" using dist_es by (simp add: distinct_map)
  then have "distinct dropped" unfolding dropped_def take_map [symmetric] by (rule distinct_take)
  moreover have "length dropped = n" by (simp add: dropped_def es_def n_def)
  ultimately have card: "card (set dropped) = n" by (simp add: distinct_card)
  have sub: "set dropped \<subseteq> set ks" using keyd by blast
  have "card (set ks') = length ks - n"
    using res(2) card sub assms(3) by (simp add: distinct_card [symmetric] set_diff_eq [symmetric] card_Diff_subset)
  moreover have "distinct ks'" using res(2) assms(3) by simp
  ultimately show len: "length ks' = length ks - min trimBatch (length ks)"
    by (simp add: distinct_card n_def)
  show "gm_wf m'" using assms(2) res(1) by (simp add: fold_gm_del_wf)
  show "distinct ks'" "set ks' \<subseteq> set ks" using assms(3) res(2) by auto
  show "c = int (length ks')" using res(3) len by (simp add: n_def of_nat_diff)
  show "gm_get m' k = (if k \<in> set ks - set ks' then None else gm_get m k)"
    using res sub by (auto simp: gm.fold_del_get)
  show "?e d \<le> ?e k" if "k \<in> set ks'" "d \<in> set ks - set ks'"
  proof -
    have "?e d \<in> set (take n es)" using that(2) res(2) keyd by auto
    moreover have "?e k \<notin> set (take n es)" "?e k \<in> set es" using that(1) res(2) keyd [of k] set_es by auto
    then have "?e k \<in> set (drop n es)" by (metis UnE append_take_drop_id set_append)
    ultimately show ?thesis
      using sorted by (metis append_take_drop_id sorted_append)
  qed
qed

lemma node_prefix_unique:
  assumes "CHR 0x00 \<notin> set a" "CHR 0x00 \<notin> set b" "has_prefix k (node_prefix a)" "has_prefix k (node_prefix b)"
  shows "a = b"
proof -
  have tw: "takeWhile (\<lambda>c. c \<noteq> CHR 0x00) (x @ CHR 0x00 # t) = x" if "CHR 0x00 \<notin> set x" for x t
    using that by (subst takeWhile_append2) auto
  obtain s where "k = node_prefix a @ s" using assms(3) by (auto simp: has_prefix_iff)
  moreover obtain t where "k = node_prefix b @ t" using assms(4) by (auto simp: has_prefix_iff)
  ultimately have "a @ CHR 0x00 # s = b @ CHR 0x00 # t" by (simp add: node_prefix_def)
  then show ?thesis using tw [OF assms(1), of s] tw [OF assms(2), of t] by simp
qed

lemma modelKey_node_prefix [simp]: "has_prefix (modelKey node model) (node_prefix node)"
  by (auto simp: has_prefix_iff modelKey_def node_prefix_def)

text \<open>The state after making room: one entry can be added for the node.\<close>

definition make_room ::
  "string \<Rightarrow> string list \<Rightarrow> gotime \<Rightarrow> ('v \<Rightarrow> gotime) \<Rightarrow> 'v tracked \<Rightarrow> 'v tracked" where
  "make_room node loaded rs stamp t =
     (if gm_at 0 (tr_count t) node \<ge> int maxTrackedModelsPerNode then
        (case trimNodeEntries (tr_vals t) (gm_at [] (tr_keys t) node) node loaded rs stamp of
           (m, ks, c) \<Rightarrow> t\<lparr> tr_vals := m, tr_keys := gm_put node ks (tr_keys t),
                             tr_count := gm_put node c (tr_count t) \<rparr>)
      else t)"

lemma gm_at_put: "gm_at z (gm_put k v m) j = (if j = k then v else gm_at z m j)"
  by (simp add: gm_at_def gm_get_put)

lemma make_room_ok:
  assumes "tracked_ok t" "CHR 0x00 \<notin> set node"
  shows "tracked_ok (make_room node loaded rs stamp t)"
    "length (gm_at [] (tr_keys (make_room node loaded rs stamp t)) node) < maxTrackedModelsPerNode"
    "gm_get (tr_vals t) k = None \<Longrightarrow> gm_get (tr_vals (make_room node loaded rs stamp t)) k = None"
proof -
  define ks where "ks = gm_at [] (tr_keys t) node"
  have wf: "gm_wf (tr_vals t)" and nt: "\<And>x. CHR 0x00 \<notin> set x \<Longrightarrow> node_tracked t x"
    using assms(1) by (auto simp: tracked_ok_def)
  have ks: "distinct ks" "set ks = {k \<in> fst ` set (tr_vals t). has_prefix k (node_prefix node)}"
    "gm_at 0 (tr_count t) node = int (length ks)" "length ks \<le> maxTrackedModelsPerNode"
    using nt [OF assms(2)] by (simp_all add: node_tracked_def ks_def Let_def)
  have "tracked_ok (make_room node loaded rs stamp t)
    \<and> length (gm_at [] (tr_keys (make_room node loaded rs stamp t)) node) < maxTrackedModelsPerNode
    \<and> (gm_get (tr_vals t) k = None \<longrightarrow> gm_get (tr_vals (make_room node loaded rs stamp t)) k = None)"
  proof (cases "length ks \<ge> maxTrackedModelsPerNode")
    case False
    then show ?thesis using assms(1) ks(3) by (simp add: make_room_def ks_def)
  next
    case True
    obtain m ks' c where tr: "trimNodeEntries (tr_vals t) ks node loaded rs stamp = (m, ks', c)"
      using prod_cases3 by blast
    note sp = trimNodeEntries_spec [OF tr wf ks(1,2)]
    have eq: "make_room node loaded rs stamp t =
        t\<lparr> tr_vals := m, tr_keys := gm_put node ks' (tr_keys t), tr_count := gm_put node c (tr_count t) \<rparr>"
      using True ks(3) tr by (simp add: make_room_def ks_def)
    have dom: "j \<in> fst ` set m \<longleftrightarrow> j \<in> fst ` set (tr_vals t) \<and> j \<notin> set ks - set ks'" for j
      unfolding gm_key_iff using sp(6) [of j] by auto
    have len: "length ks' < maxTrackedModelsPerNode"
      using sp(5) ks(4) True by (simp add: trimBatch_def maxTrackedModelsPerNode_def)
    have "node_tracked (make_room node loaded rs stamp t) x" if x: "CHR 0x00 \<notin> set x" for x
    proof (cases "x = node")
      case True
      have "set ks' = {k \<in> fst ` set m. has_prefix k (node_prefix node)}"
        using sp(3) ks(2) unfolding dom by auto
      then show ?thesis using True sp(2,4) len by (simp add: eq node_tracked_def gm_at_put)
    next
      case False
      have "{k \<in> fst ` set m. has_prefix k (node_prefix x)} =
          {k \<in> fst ` set (tr_vals t). has_prefix k (node_prefix x)}"
        using node_prefix_unique [OF x assms(2)] False ks(2) unfolding dom by auto
      then show ?thesis using False nt [OF x] by (simp add: eq node_tracked_def gm_at_put Let_def)
    qed
    then have "tracked_ok (make_room node loaded rs stamp t)" using sp(1) by (simp add: tracked_ok_def eq)
    then show ?thesis using len sp(6) [of k] by (simp add: eq gm_at_put)
  qed
  then show "tracked_ok (make_room node loaded rs stamp t)"
    "length (gm_at [] (tr_keys (make_room node loaded rs stamp t)) node) < maxTrackedModelsPerNode"
    "gm_get (tr_vals t) k = None \<Longrightarrow> gm_get (tr_vals (make_room node loaded rs stamp t)) k = None"
    by simp_all
qed

lemma track_put_alt:
  "track_put node key v loaded rs stamp t =
     (let t0 = (if gm_get (tr_vals t) key = None then make_room node loaded rs stamp t else t);
          c = gm_at 0 (tr_count t0) node + (if gm_get (tr_vals t) key = None then 1 else 0)
      in t0\<lparr> tr_count := (if gm_get (tr_vals t) key = None then gm_put node c (tr_count t0) else tr_count t0),
             tr_vals := gm_put key v (tr_vals t0), tr_keys := noteKey (tr_keys t0) node key \<rparr>)"
  by (simp add: track_put_def make_room_def Let_def)

lemma track_put_ok:
  assumes "tracked_ok t" "CHR 0x00 \<notin> set node" "has_prefix key (node_prefix node)"
  shows "tracked_ok (track_put node key v loaded rs stamp t)"
proof -
  define new where "new \<longleftrightarrow> gm_get (tr_vals t) key = None"
  define t0 where "t0 = (if new then make_room node loaded rs stamp t else t)"
  have ok0: "tracked_ok t0" using assms(1) make_room_ok(1) [OF assms(1,2)] by (simp add: t0_def)
  have new0: "gm_get (tr_vals t0) key = None \<longleftrightarrow> new"
    using make_room_ok(3) [OF assms(1,2)] by (auto simp: t0_def new_def)
  have room: "new \<Longrightarrow> length (gm_at [] (tr_keys t0) node) < maxTrackedModelsPerNode"
    using make_room_ok(2) [OF assms(1,2)] by (simp add: t0_def)
  let ?t = "track_put node key v loaded rs stamp t"
  have eq: "tr_vals ?t = gm_put key v (tr_vals t0)" "tr_keys ?t = noteKey (tr_keys t0) node key"
    "gm_at 0 (tr_count ?t) x = gm_at 0 (tr_count t0) x + (if x = node \<and> new then 1 else 0)" for x
    by (auto simp: track_put_alt Let_def t0_def new_def gm_at_put)
  have "node_tracked ?t x" if x: "CHR 0x00 \<notin> set x" for x
  proof -
    have nt: "node_tracked t0 x" using ok0 x by (simp add: tracked_ok_def)
    show ?thesis
    proof (cases "x = node")
      case True
      let ?ks = "gm_at [] (tr_keys t0) node"
      have mem: "key \<in> set ?ks \<longleftrightarrow> \<not> new"
        using nt True assms(3) new0 by (auto simp: node_tracked_def Let_def map_of_eq_None_iff)
      have len: "length (List.insert key ?ks) = length ?ks + (if new then 1 else 0)"
        using mem by (simp add: List.insert_def)
      show ?thesis
        using nt True len room assms(3)
        by (auto simp: node_tracked_def Let_def eq noteKey_def gm_at_put gm_dom_put distinct_insert)
    next
      case False
      have "\<not> has_prefix key (node_prefix x)" using node_prefix_unique [OF x assms(2) _ assms(3)] False by blast
      then have "{k \<in> fst ` set (gm_put key v (tr_vals t0)). has_prefix k (node_prefix x)} =
          {k \<in> fst ` set (tr_vals t0). has_prefix k (node_prefix x)}" by (auto simp: gm_dom_put)
      then show ?thesis using nt False by (simp add: node_tracked_def Let_def eq noteKey_def gm_at_put)
    qed
  qed
  then show ?thesis using ok0 by (simp add: tracked_ok_def eq)
qed

lemma track_put_get:
  "gm_get (tr_vals (track_put node key v loaded rs stamp t)) key = Some v"
  by (simp add: track_put_alt Let_def gm_get_put)

text \<open>Trimming for one node never touches the records of another.\<close>

lemma make_room_other:
  assumes "tracked_ok t" "CHR 0x00 \<notin> set node" "\<not> has_prefix k (node_prefix node)"
  shows "gm_get (tr_vals (make_room node loaded rs stamp t)) k = gm_get (tr_vals t) k"
proof -
  define ks where "ks = gm_at [] (tr_keys t) node"
  have ks: "distinct ks" "set ks = {k \<in> fst ` set (tr_vals t). has_prefix k (node_prefix node)}"
    and wf: "gm_wf (tr_vals t)"
    using assms(1,2) by (auto simp: tracked_ok_def node_tracked_def ks_def Let_def)
  obtain m ks' c where tr: "trimNodeEntries (tr_vals t) ks node loaded rs stamp = (m, ks', c)"
    using prod_cases3 by blast
  show ?thesis
    using trimNodeEntries_spec(6) [OF tr wf ks, of k] ks(2) assms(3) tr
    by (simp add: make_room_def ks_def split: prod.split)
qed

lemma track_put_other:
  assumes "tracked_ok t" "CHR 0x00 \<notin> set node" "\<not> has_prefix k (node_prefix node)"
    and "has_prefix key (node_prefix node)"
  shows "gm_get (tr_vals (track_put node key v loaded rs stamp t)) k = gm_get (tr_vals t) k"
proof -
  have "k \<noteq> key" using assms(3,4) by auto
  then show ?thesis using make_room_other [OF assms(1-3)] by (simp add: track_put_alt Let_def gm_get_put)
qed

definition trim_keep :: "(string, 'v) gomap \<Rightarrow> string \<Rightarrow> string list \<Rightarrow> gotime \<Rightarrow> ('v \<Rightarrow> gotime) \<Rightarrow> string \<Rightarrow> nat" where
  "trim_keep m node loaded rs stamp k = fst (the (trim_entry_of m node loaded rs stamp k))"

lemma trim_keep_loaded:
  assumes "k = node_prefix node @ name" "k \<in> fst ` set m"
  shows "trim_keep m node loaded rs stamp k = 2 \<longleftrightarrow> name \<in> set loaded"
    "trim_keep m node loaded rs stamp k \<le> 2"
proof -
  obtain v where "gm_get m k = Some v" using assms(2) by (auto simp: gm_key_iff)
  then show "trim_keep m node loaded rs stamp k = 2 \<longleftrightarrow> name \<in> set loaded"
    "trim_keep m node loaded rs stamp k \<le> 2"
    using assms(1) by (auto simp: trim_keep_def trim_entry_of_def Let_def)
qed

text \<open>With a batch of weaker entries at hand, an entry of the strongest class survives a trim.\<close>

lemma trim_keeps_strong:
  assumes tr: "trimNodeEntries m ks node loaded rs stamp = (m', ks', c)"
    and wf: "gm_wf m" "distinct ks" "set ks = {k \<in> fst ` set m. has_prefix k (node_prefix node)}"
    and weak: "card {j \<in> set ks. trim_keep m node loaded rs stamp j < trim_keep m node loaded rs stamp k} \<ge> trimBatch"
    and k: "k \<in> set ks"
  shows "k \<in> set ks'"
proof (rule ccontr)
  note sp = trimNodeEntries_spec [OF tr wf]
  let ?W = "{j \<in> set ks. trim_keep m node loaded rs stamp j < trim_keep m node loaded rs stamp k}"
  assume "k \<notin> set ks'"
  then have kd: "k \<in> set ks - set ks'" using k by blast
  have "?W \<subseteq> set ks - set ks'"
  proof
    fix j assume j: "j \<in> ?W"
    have "\<not> j \<in> set ks'"
    proof
      assume "j \<in> set ks'"
      from sp(7) [OF this kd] have "trim_keep m node loaded rs stamp k \<le> trim_keep m node loaded rs stamp j"
        unfolding trim_keep_def by (auto simp: less_eq_prod_def split: prod.splits if_splits)
      then show False using j by simp
    qed
    then show "j \<in> set ks - set ks'" using j by simp
  qed
  then have "insert k ?W \<subseteq> set ks - set ks'" using kd by blast
  moreover have "card (insert k ?W) = Suc (card ?W)" by (subst card_insert_disjoint) auto
  ultimately have "Suc trimBatch \<le> card (set ks - set ks')"
    using weak card_mono [of "set ks - set ks'" "insert k ?W"] by simp
  also have "card (set ks - set ks') = length ks - length ks'"
    using sp(2,3) wf(2) by (simp add: card_Diff_subset distinct_card)
  also have "\<dots> \<le> trimBatch" using sp(5) by simp
  finally show False by simp
qed

section \<open>Properties\<close>

lemma last_used_simps [simp]:
  "tr_vals (last_used r) = r_lastUsed r" "tr_count (last_used r) = r_lastUsedCount r"
  "tr_keys (last_used r) = r_lastUsedKeys r" "last_used (set_last_used t r) = t"
  by (simp_all add: last_used_def set_last_used_def)

lemma set_last_used_exists [simp]: "nodeExists (set_last_used t r) n = nodeExists r n"
  by (simp add: nodeExists_def set_last_used_def)

lemma RecordModelUse_eq:
  "node \<noteq> [] \<Longrightarrow> model \<noteq> [] \<Longrightarrow> nodeExists r node \<Longrightarrow>
   last_used (RecordModelUse now node model r) =
     track_put node (modelKey node model) now
       (if lastUsedFullLocked r node model then loadedModelSet r node else [])
       (recentRequestCutoff r now) (\<lambda>t. t) (last_used r)"
  by (simp add: RecordModelUse_def Let_def undoIfNodeRemoved_def stampLastUsedLocked_def)

lemma RecordModelUse_ok:
  assumes "tracked_ok (last_used r)" "CHR 0x00 \<notin> set node"
  shows "tracked_ok (last_used (RecordModelUse now node model r))"
proof (cases "node = [] \<or> model = [] \<or> \<not> nodeExists r node")
  case True
  then have "RecordModelUse now node model r = r" by (auto simp: RecordModelUse_def)
  then show ?thesis using assms(1) by simp
next
  case False
  then show ?thesis
    using track_put_ok [OF assms, of "modelKey node model"] by (simp add: RecordModelUse_eq)
qed

lemma lastUsedAt_tracked: "lastUsedAt r node model = gm_at time_zero (tr_vals (last_used r)) (modelKey node model)"
  by (simp add: lastUsedAt_def)

text \<open>
  Recording a request keeps the per-node usage bookkeeping exact and bounded:
  for every node name without a NUL byte the key index lists exactly the keys
  stored for that node, the counter equals their number, and there are never
  more than \<^verbatim>\<open>maxTrackedModelsPerNode\<close> of them, whatever model names
  clients send.  The request is recorded under every equivalent spelling of the
  model, and no other node's records change.
\<close>

lemma record_use_bounded:
  assumes "tracked_ok (last_used r)" "CHR 0x00 \<notin> set node" "node \<noteq> []" "model \<noteq> []" "nodeExists r node"
  shows "tracked_ok (last_used (RecordModelUse now node model r))
    \<and> (\<forall>x. CHR 0x00 \<notin> set x \<longrightarrow>
         card {k \<in> fst ` set (r_lastUsed (RecordModelUse now node model r)). has_prefix k (node_prefix x)}
           \<le> maxTrackedModelsPerNode)
    \<and> (\<forall>m. m \<noteq> [] \<and> ModelNamesEquivalent m model \<longrightarrow> lastUsedAt (RecordModelUse now node model r) node m = now)
    \<and> (\<forall>x m. x \<noteq> node \<and> CHR 0x00 \<notin> set x \<longrightarrow>
         lastUsedAt (RecordModelUse now node model r) x m = lastUsedAt r x m)"
proof -
  let ?r = "RecordModelUse now node model r"
  have ok: "tracked_ok (last_used ?r)" using assms(1,2) by (rule RecordModelUse_ok)
  have card: "card {k \<in> fst ` set (r_lastUsed ?r). has_prefix k (node_prefix x)} \<le> maxTrackedModelsPerNode"
    if "CHR 0x00 \<notin> set x" for x
  proof -
    have "node_tracked (last_used ?r) x" using ok that by (simp add: tracked_ok_def)
    then show ?thesis
      by (simp add: node_tracked_def Let_def) (metis distinct_card)
  qed
  note eq = RecordModelUse_eq [OF assms(3-5), of now]
  have same: "lastUsedAt ?r node m = now" if "m \<noteq> []" "ModelNamesEquivalent m model" for m
    using equivalent_iff_canonical [OF that(1) assms(4)] that(2)
    by (simp add: lastUsedAt_tracked eq modelKey_def gm_at_def track_put_get [unfolded modelKey_def])
  have "lastUsedAt ?r x m = lastUsedAt r x m" if "x \<noteq> node" "CHR 0x00 \<notin> set x" for x m
  proof -
    have "\<not> has_prefix (modelKey x m) (node_prefix node)"
      using node_prefix_unique [OF that(2) assms(2) modelKey_node_prefix] that(1) by blast
    then show ?thesis
      using track_put_other [OF assms(1,2) _ modelKey_node_prefix]
      by (simp add: lastUsedAt_tracked eq gm_at_def)
  qed
  with ok card same show ?thesis by blast
qed

lemma tracked_ok_empty [simp]: "tracked_ok tracked_empty"
  by (simp add: tracked_ok_def node_tracked_def tracked_empty_def gm_at_def Let_def)

lemma demo_last_used [simp]: "last_used (demo_router cfgs) = tracked_empty"
  by (simp add: last_used_def demo_router_def New_def Let_def tracked_empty_def)

text \<open>The records of a node that belong to none of the given models.\<close>

definition other_records :: "(string, 'v) gomap \<Rightarrow> string \<Rightarrow> string set \<Rightarrow> string set" where
  "other_records m node names =
     {k \<in> fst ` set m. has_prefix k (node_prefix node) \<and> k \<notin> (\<lambda>x. node_prefix node @ x) ` names}"

lemma trim_keeps_named:
  assumes tr: "trimNodeEntries m ks node loaded rs stamp = (m', ks', c)"
    and wf: "gm_wf m" "distinct ks" "set ks = {k \<in> fst ` set m. has_prefix k (node_prefix node)}"
    and name: "name \<in> set loaded" "trimBatch \<le> card (other_records m node (set loaded))"
  shows "gm_get m' (node_prefix node @ name) = gm_get m (node_prefix node @ name)"
proof (cases "node_prefix node @ name \<in> set ks")
  case True
  let ?keep = "trim_keep m node loaded rs stamp"
  have keep: "?keep k = 2 \<longleftrightarrow> k \<in> (\<lambda>x. node_prefix node @ x) ` set loaded" "?keep k \<le> 2" if "k \<in> set ks" for k
  proof -
    have "has_prefix k (node_prefix node)" and mem: "k \<in> fst ` set m" using that unfolding wf(3) by auto
    then obtain x where x: "k = node_prefix node @ x" by (auto simp: has_prefix_iff)
    show "?keep k = 2 \<longleftrightarrow> k \<in> (\<lambda>x. node_prefix node @ x) ` set loaded" "?keep k \<le> 2"
      using trim_keep_loaded [OF x mem, of loaded rs stamp] x by auto
  qed
  have k2: "?keep (node_prefix node @ name) = 2" using keep(1) [OF True] name(1) by blast
  have "{j \<in> set ks. ?keep j < 2} = other_records m node (set loaded)"
    using keep unfolding other_records_def wf(3) by (force simp: order_less_le)
  then have "node_prefix node @ name \<in> set ks'"
    using trim_keeps_strong [OF tr wf _ True] name(2) by (simp add: k2)
  then show ?thesis using trimNodeEntries_spec(6) [OF tr wf, of "node_prefix node @ name"] by simp
next
  case False
  then show ?thesis using trimNodeEntries_spec(6) [OF tr wf, of "node_prefix node @ name"] by simp
qed

lemma make_room_keeps_named:
  assumes "tracked_ok t" "CHR 0x00 \<notin> set node" "name \<in> set loaded"
    and "trimBatch \<le> card (other_records (tr_vals t) node (set loaded))"
  shows "gm_get (tr_vals (make_room node loaded rs stamp t)) (node_prefix node @ name) =
    gm_get (tr_vals t) (node_prefix node @ name)"
proof -
  define ks where "ks = gm_at [] (tr_keys t) node"
  have ks: "distinct ks" "set ks = {k \<in> fst ` set (tr_vals t). has_prefix k (node_prefix node)}"
    and wf: "gm_wf (tr_vals t)"
    using assms(1,2) by (auto simp: tracked_ok_def node_tracked_def ks_def Let_def)
  obtain m ks' c where tr: "trimNodeEntries (tr_vals t) ks node loaded rs stamp = (m, ks', c)"
    using prod_cases3 by blast
  show ?thesis
    using trim_keeps_named [OF tr wf ks assms(3,4)] tr by (simp add: make_room_def ks_def split: prod.split)
qed

lemma modelKey_named: "modelKey node model = node_prefix node @ canonicalModelName model"
  by (simp add: modelKey_def node_prefix_def)

text \<open>
  Resident models keep their last-use record when the bookkeeping of a node is
  trimmed: after any recorded request for another model, the stamp of every
  model loaded on the node is what it was, unless fewer than one trim batch of the
  node's records belong to models that are not loaded.
\<close>

lemma record_use_keeps_resident:
  assumes "tracked_ok (last_used r)" "CHR 0x00 \<notin> set node" "FindNode r node = Some n"
    and "lm \<in> set (ns_LoadedModels n)" "modelKey node (mi_Name lm) \<noteq> modelKey node model"
  shows "lastUsedAt (RecordModelUse now node model r) node (mi_Name lm) = lastUsedAt r node (mi_Name lm)
    \<or> card (other_records (r_lastUsed r) node
         ((\<lambda>m. canonicalModelName (mi_Name m)) ` set (ns_LoadedModels n))) < trimBatch"
proof (cases "node = [] \<or> model = []")
  case True
  then show ?thesis by (auto simp: RecordModelUse_def)
next
  case ne: False
  let ?k = "modelKey node (mi_Name lm)"
  define loaded where "loaded = (if lastUsedFullLocked r node model then loadedModelSet r node else [])"
  have ex: "nodeExists r node" using assms(3) by (simp add: nodeExists_FindNode)
  have set_loaded: "set (loadedModelSet r node) = (\<lambda>m. canonicalModelName (mi_Name m)) ` set (ns_LoadedModels n)"
    using assms(3) by (simp add: loadedModelSet_def)
  have eq: "gm_get (r_lastUsed (RecordModelUse now node model r)) ?k =
      gm_get (tr_vals (if gm_get (r_lastUsed r) (modelKey node model) = None
        then make_room node loaded (recentRequestCutoff r now) (\<lambda>t. t) (last_used r) else last_used r)) ?k"
    using arg_cong [OF RecordModelUse_eq [of node model r now], of tr_vals] ne ex assms(5)
    by (simp add: track_put_alt Let_def gm_get_put loaded_def)
  show ?thesis
  proof (cases "lastUsedFullLocked r node model")
    case False
    then show ?thesis
      using eq by (auto simp: lastUsedAt_def gm_at_def lastUsedFullLocked_def make_room_def split: if_splits)
  next
    case True
    have "gm_get (tr_vals (make_room node loaded (recentRequestCutoff r now) (\<lambda>t. t) (last_used r))) ?k =
        gm_get (r_lastUsed r) ?k" if "trimBatch \<le> card (other_records (r_lastUsed r) node (set loaded))"
      using make_room_keeps_named [OF assms(1,2), of "canonicalModelName (mi_Name lm)" loaded] that assms(4)
      by (simp add: modelKey_named loaded_def True set_loaded)
    then show ?thesis using eq by (auto simp: lastUsedAt_def gm_at_def loaded_def True set_loaded)
  qed
qed

definition demo_loaded :: router where
  "demo_loaded = (demo_router [])\<lparr> r_nodes := [zero_node\<lparr> ns_Name := ''a'',
     ns_LoadedModels := [\<lparr> mi_Name = ''m'', mi_SizeVRAM = 1, mi_Digest = [], mi_sizeAttributed = False \<rparr>] \<rparr>] \<rparr>"

end
