(* ===== verification/Reservations.thy ===== *)
theory Reservations
  imports Usage
begin

text \<open>
  VRAM reservations and size estimates (\<^verbatim>\<open>internal/router/eviction.go\<close> and
  \<^verbatim>\<open>kvcache.go\<close>): how much memory in-flight loads have claimed on a node, and how
  large a model that is not loaded yet is expected to be.

  The catalog fetch \<^verbatim>\<open>FetchModelTags\<close> is network I/O and a parameter
  \<open>fetch_tags\<close>, \<open>None\<close> being its error return.
\<close>

section \<open>Size estimates\<close>

definition KVCacheBytesPerToken :: "int \<Rightarrow> int \<Rightarrow> int \<Rightarrow> int \<Rightarrow> int" where
  "KVCacheBytesPerToken numLayers numKVHeads hiddenSize numAttnHeads =
     (if numAttnHeads \<le> 0 then 0
      else 2 * numLayers * numKVHeads * quot hiddenSize numAttnHeads * 2)"

definition GGUFOverheadMult :: float64 where "GGUFOverheadMult = fl (11 / 10)"
definition GGUFPerTokenMBFallback :: float64 where "GGUFPerTokenMBFallback = fl (3 / 20)"
definition SafetensorsOverheadMult :: float64 where "SafetensorsOverheadMult = fl (6 / 5)"
definition SafetensorsPerTokenMBFallback :: float64 where "SafetensorsPerTokenMBFallback = fl (1 / 5)"
definition FragmentationOverheadMult :: float64 where "FragmentationOverheadMult = fl (27 / 25)"

definition GGUFOnlyRuntime :: "string \<Rightarrow> bool" where
  "GGUFOnlyRuntime runtime \<longleftrightarrow> runtime \<in> {[], ''ollama'', ''llamacpp''}"

definition runtimeOverheadConstants :: "string \<Rightarrow> float64 \<times> float64" where
  "runtimeOverheadConstants runtime =
     (if GGUFOnlyRuntime runtime then (GGUFOverheadMult, GGUFPerTokenMBFallback)
      else (SafetensorsOverheadMult, SafetensorsPerTokenMBFallback))"

definition EstimateContextAwareBytes :: "int \<Rightarrow> int \<Rightarrow> string \<Rightarrow> arch_facts option \<Rightarrow> int" where
  "EstimateContextAwareBytes sizeMB requestedCtx runtime arch =
     (let (overheadMult, perTokenMBFallback) = runtimeOverheadConstants runtime in
      case arch of
        None \<Rightarrow>
          int_of_f (fadd (fmul (f_of_int sizeMB) overheadMult) (fmul (f_of_int requestedCtx) perTokenMBFallback))
            * 1024 * 1024
      | Some a \<Rightarrow>
          (let perTokenBytes = KVCacheBytesPerToken (af_NumLayers a) (af_NumKVHeads a) (af_HiddenSize a) (af_NumAttnHeads a);
               kvBytes = perTokenBytes * requestedCtx;
               weightBytes = int_of_f (fmul (fmul (fmul (f_of_int sizeMB) overheadMult) 1024) 1024)
           in weightBytes + kvBytes))"

definition SetModelArchFacts :: "string \<Rightarrow> arch_facts \<Rightarrow> router \<Rightarrow> router" where
  "SetModelArchFacts model facts r = r\<lparr> r_modelArchFacts := gm_put model facts (r_modelArchFacts r) \<rparr>"

definition modelArchFactsFor :: "router \<Rightarrow> string \<Rightarrow> arch_facts option" where
  "modelArchFactsFor r model = lookupByModelName (r_modelArchFacts r) model"

definition SetContextWindows :: "(string, int) gomap \<Rightarrow> router \<Rightarrow> router" where
  "SetContextWindows cw r = r\<lparr> r_contextWindows := cw \<rparr>"

definition contextWindowFor :: "router \<Rightarrow> string \<Rightarrow> int option" where
  "contextWindowFor r model = gm_get (r_contextWindows r) model"

definition canUnloadDirect :: "string \<Rightarrow> bool" where
  "canUnloadDirect rt \<longleftrightarrow> rt = ''ollama'' \<or> rt = []"

text \<open>The estimate and whether the catalog fetch failed.\<close>

definition estimateModelSize ::
  "(string \<Rightarrow> tag_model list option) \<Rightarrow> router \<Rightarrow> string \<Rightarrow> string \<Rightarrow> bool \<Rightarrow> int \<Rightarrow> int \<times> bool" where
  "estimateModelSize fetch_tags r nodeURL model allowFetch requestedCtx =
     (let node = find (\<lambda>n. ns_URL n = nodeURL) (r_nodes r);
          nodeName = (case node of None \<Rightarrow> [] | Some n \<Rightarrow> ns_Name n);
          runtime = (case node of None \<Rightarrow> [] | Some n \<Rightarrow> ns_Runtime n);
          overrideMB = (case node of None \<Rightarrow> 0
             | Some n \<Rightarrow> (case lookupByModelName (ns_VRAMOverrides n) model of None \<Rightarrow> 0 | Some v \<Rightarrow> v));
          known = lastKnownVRAMBytes r nodeName model
      in if nodeName \<noteq> [] \<and> known > 0 then (known, False)
         else
           let tags = (if allowFetch then fetch_tags nodeURL else Some []);
               fetchFailed = (allowFetch \<and> tags = None \<and> canUnloadDirect runtime)
           in case find (\<lambda>t. ModelNamesEquivalent (tm_Name t) model) (case tags of None \<Rightarrow> [] | Some ts \<Rightarrow> ts) of
                Some t \<Rightarrow>
                  (EstimateContextAwareBytes (quot (tm_Size t) (1024 * 1024)) requestedCtx runtime (modelArchFactsFor r model), False)
              | None \<Rightarrow> if overrideMB > 0 then (overrideMB * 1024 * 1024, False) else (0, fetchFailed))"

definition estimateModelSizeBytes ::
  "(string \<Rightarrow> tag_model list option) \<Rightarrow> router \<Rightarrow> string \<Rightarrow> string \<Rightarrow> bool \<Rightarrow> int \<Rightarrow> int" where
  "estimateModelSizeBytes fetch_tags r nodeURL model allowFetch requestedCtx =
     fst (estimateModelSize fetch_tags r nodeURL model allowFetch requestedCtx)"

definition effectiveModelBytes :: "router \<Rightarrow> string \<Rightarrow> string \<Rightarrow> int \<Rightarrow> string \<Rightarrow> int" where
  "effectiveModelBytes r node runtime reported model =
     (if reported > 0 then reported
      else if runtime = ''ollama'' then 0
      else lastKnownVRAMBytes r node model)"

section \<open>Reservations\<close>

definition warmReservationTTL :: duration where "warmReservationTTL = 5 * minute"
definition maxWarmReservationsPerNode :: nat where "maxWarmReservationsPerNode = 256"
definition unknownModelReserveBytes :: int where "unknownModelReserveBytes = 2 * 1024 * 1024 * 1024"

type_synonym node_reservations = "(string, warm_reservation) gomap"

definition expired :: "gotime \<Rightarrow> warm_reservation \<Rightarrow> bool" where
  "expired now res \<longleftrightarrow> now - wr_at res > warmReservationTTL"

text \<open>
  The victim loop; an empty \<^verbatim>\<open>victim\<close> name means none is chosen yet.
\<close>

fun pick_victim :: "node_reservations \<Rightarrow> string \<times> warm_reservation \<Rightarrow> string \<times> warm_reservation" where
  "pick_victim [] v = v"
| "pick_victim ((m, res) # xs) (victim, victimRes) =
     (if victim = [] then pick_victim xs (m, res)
      else if wr_placeholder res \<noteq> wr_placeholder victimRes then
        (if \<not> wr_placeholder res then pick_victim xs (victim, victimRes) else pick_victim xs (m, res))
      else if wr_at res > wr_at victimRes \<or> (wr_at res = wr_at victimRes \<and> m > victim)
        then pick_victim xs (victim, victimRes)
      else pick_victim xs (m, res))"

definition zero_reservation :: warm_reservation where
  "zero_reservation = \<lparr> wr_bytes = 0, wr_at = time_zero, wr_placeholder = False \<rparr>"

definition bytes_of :: "node_reservations \<Rightarrow> int" where
  "bytes_of xs = sum_list (map (\<lambda>(m, res). wr_bytes res) xs)"

definition reserve_in ::
  "gotime \<Rightarrow> string \<Rightarrow> int \<Rightarrow> bool \<Rightarrow> node_reservations \<Rightarrow> int \<times> node_reservations" where
  "reserve_in now model estBytes placeholder byModel =
     (let live = gm_remove_if (\<lambda>m res. expired now res) byModel;
          others = bytes_of (gm_remove_if (\<lambda>m res. m = model) live);
          (others', kept) =
            (if gm_get live model = None \<and> length live \<ge> maxWarmReservationsPerNode then
               (case pick_victim live ([], zero_reservation) of
                  (victim, victimRes) \<Rightarrow> (others - wr_bytes victimRes, gm_del victim live))
             else (others, live))
      in (others', gm_put model \<lparr> wr_bytes = estBytes, wr_at = now, wr_placeholder = placeholder \<rparr> kept))"

definition node_reservations :: "router \<Rightarrow> string \<Rightarrow> node_reservations" where
  "node_reservations r node = gm_at [] (r_warmReserved r) node"

definition set_reservations :: "string \<Rightarrow> node_reservations \<Rightarrow> router \<Rightarrow> router" where
  "set_reservations node xs r = r\<lparr> r_warmReserved := gm_put node xs (r_warmReserved r) \<rparr>"

definition reserveWarmBytesAs ::
  "gotime \<Rightarrow> string \<Rightarrow> string \<Rightarrow> int \<Rightarrow> bool \<Rightarrow> router \<Rightarrow> int \<times> router" where
  "reserveWarmBytesAs now node model estBytes placeholder r =
     (case reserve_in now model estBytes placeholder (node_reservations r node) of
        (others, xs) \<Rightarrow> (others, set_reservations node xs r))"

definition reserveWarmBytes :: "gotime \<Rightarrow> string \<Rightarrow> string \<Rightarrow> int \<Rightarrow> router \<Rightarrow> int \<times> router" where
  "reserveWarmBytes now node model estBytes r = reserveWarmBytesAs now node model estBytes False r"

definition reserveColdStartBytes ::
  "(string \<Rightarrow> tag_model list option) \<Rightarrow> gotime \<Rightarrow> string \<Rightarrow> string \<Rightarrow> string \<Rightarrow> router \<Rightarrow> router" where
  "reserveColdStartBytes fetch_tags now nodeURL nodeName model r =
     (let est = estimateModelSizeBytes fetch_tags r nodeURL model False 0 in
      if est \<le> 0 then snd (reserveWarmBytesAs now nodeName model unknownModelReserveBytes True r)
      else snd (reserveWarmBytesAs now nodeName model est False r))"

text \<open>The total, and the map without the expired entries it met.\<close>

definition pendingPrewarmBytes :: "gotime \<Rightarrow> string \<Rightarrow> bool \<Rightarrow> router \<Rightarrow> int \<times> router" where
  "pendingPrewarmBytes now node includePlaceholders r =
     (case gm_get (r_warmReserved r) node of
        None \<Rightarrow> (0, r)
      | Some byModel \<Rightarrow>
        (let live = gm_remove_if (\<lambda>m res. expired now res) byModel in
         (bytes_of (gm_remove_if (\<lambda>m res. wr_placeholder res \<and> \<not> includePlaceholders) live),
          set_reservations node live r)))"

definition PendingPrewarmBytes :: "gotime \<Rightarrow> string \<Rightarrow> router \<Rightarrow> int \<times> router" where
  "PendingPrewarmBytes now node r = pendingPrewarmBytes now node True r"

definition PendingPrewarmReportedBytes :: "gotime \<Rightarrow> string \<Rightarrow> router \<Rightarrow> int \<times> router" where
  "PendingPrewarmReportedBytes now node r = pendingPrewarmBytes now node False r"

definition hasActiveWarmReservation :: "gotime \<Rightarrow> string \<Rightarrow> string \<Rightarrow> router \<Rightarrow> bool" where
  "hasActiveWarmReservation now node model r =
     (case gm_get (node_reservations r node) model of
        None \<Rightarrow> False | Some res \<Rightarrow> now - wr_at res \<le> warmReservationTTL)"

definition clearWarmReservation :: "string \<Rightarrow> string \<Rightarrow> router \<Rightarrow> router" where
  "clearWarmReservation node model r =
     (case gm_get (r_warmReserved r) node of
        None \<Rightarrow> r | Some byModel \<Rightarrow> set_reservations node (gm_del model byModel) r)"

section \<open>Lemmas\<close>

text \<open>What the victim loop minimises: placeholders first, then the oldest, then the name.\<close>

definition victim_key :: "string \<times> warm_reservation \<Rightarrow> bool \<times> gotime \<times> string" where
  "victim_key x = (\<not> wr_placeholder (snd x), wr_at (snd x), fst x)"

lemma pick_victim_step:
  "victim \<noteq> [] \<Longrightarrow>
   pick_victim (x # xs) (victim, res) =
     pick_victim xs (if victim_key x \<le> victim_key (victim, res) then x else (victim, res))"
  by (cases x) (auto simp: victim_key_def less_eq_prod_def)

lemma pick_victim_from:
  "[] \<notin> fst ` insert v (set xs) \<Longrightarrow>
   pick_victim xs v \<in> insert v (set xs) \<and> (\<forall>x \<in> insert v (set xs). victim_key (pick_victim xs v) \<le> victim_key x)"
proof (induction xs arbitrary: v)
  case (Cons x xs)
  define w where "w = (if victim_key x \<le> victim_key v then x else v)"
  have w: "victim_key w \<le> victim_key x" "victim_key w \<le> victim_key v" "w \<in> {x, v}" by (auto simp: w_def)
  have eq: "pick_victim (x # xs) v = pick_victim xs w"
    using Cons.prems pick_victim_step [of "fst v" x xs "snd v"] by (auto simp: w_def)
  have "[] \<notin> fst ` insert w (set xs)" using Cons.prems w(3) by auto
  from Cons.IH [OF this] show ?case unfolding eq using w by auto
qed simp

lemma pick_victim_min:
  assumes "xs \<noteq> []" "[] \<notin> fst ` set xs"
  shows "pick_victim xs ([], zero_reservation) \<in> set xs"
    "x \<in> set xs \<Longrightarrow> victim_key (pick_victim xs ([], zero_reservation)) \<le> victim_key x"
proof -
  obtain a ys where xs: "xs = a # ys" using assms(1) by (cases xs) auto
  have eq: "pick_victim xs ([], zero_reservation) = pick_victim ys a" by (cases a) (simp add: xs)
  show "pick_victim xs ([], zero_reservation) \<in> set xs"
    "x \<in> set xs \<Longrightarrow> victim_key (pick_victim xs ([], zero_reservation)) \<le> victim_key x"
    unfolding eq using pick_victim_from [of a ys] assms(2) by (auto simp: xs)
qed

lemma bytes_of_Cons [simp]: "bytes_of ((m, res) # xs) = wr_bytes res + bytes_of xs"
  and bytes_of_Nil [simp]: "bytes_of [] = 0"
  by (simp_all add: bytes_of_def)

lemma gm_remove_if_Cons:
  "gm_remove_if p ((k, v) # xs) = (if p k v then gm_remove_if p xs else (k, v) # gm_remove_if p xs)"
  and gm_remove_if_Nil: "gm_remove_if p [] = []"
  by (simp_all add: gm_remove_if_def)

lemma gm_remove_if_subset: "set (gm_remove_if p xs) \<subseteq> set xs"
  by (auto simp: gm_remove_if_def)

lemmas remove_if_simps = gm_remove_if_Cons gm_remove_if_Nil

lemma gm_remove_if_absent: "k \<notin> fst ` set xs \<Longrightarrow> gm_remove_if (\<lambda>m _. m = k) xs = xs"
  by (induction xs) (auto simp: remove_if_simps)

lemma bytes_of_put:
  "gm_wf xs \<Longrightarrow> bytes_of (gm_put k v xs) = wr_bytes v + bytes_of (gm_remove_if (\<lambda>m _. m = k) xs)"
proof (induction xs)
  case (Cons x xs)
  then show ?case
    by (cases x) (auto simp: remove_if_simps gm_wf_def gm_remove_if_absent)
qed (simp add: remove_if_simps)

lemma bytes_of_split:
  "gm_wf xs \<Longrightarrow> gm_get xs k = Some v \<Longrightarrow> bytes_of (gm_del k xs) = bytes_of xs - wr_bytes v"
proof (induction xs)
  case (Cons x xs)
  obtain m res where x: "x = (m, res)" by (cases x)
  show ?case
  proof (cases "m = k")
    case True
    then have "k \<notin> fst ` set xs" using Cons.prems(1) by (simp add: x gm_wf_def)
    then show ?thesis using Cons.prems(2) True by (simp add: x delete_id)
  next
    case False
    then show ?thesis using Cons by (simp add: x gm_wf_def)
  qed
qed simp

lemma gm_get_mem: "gm_wf xs \<Longrightarrow> (k, v) \<in> set xs \<longleftrightarrow> gm_get xs k = Some v"
  by (simp add: gm_wf_def)

definition live :: "gotime \<Rightarrow> node_reservations \<Rightarrow> node_reservations" where
  "live now xs = gm_remove_if (\<lambda>m res. expired now res) xs"

definition reservations_ok :: "node_reservations \<Rightarrow> bool" where
  "reservations_ok xs \<longleftrightarrow> gm_wf xs \<and> length xs \<le> maxWarmReservationsPerNode \<and> [] \<notin> fst ` set xs"

lemma live_ok: "reservations_ok xs \<Longrightarrow> reservations_ok (live now xs)"
  using gm_length_remove_if_le [of "\<lambda>m res. expired now res" xs] gm_remove_if_subset [of "\<lambda>m res. expired now res" xs]
  unfolding reservations_ok_def live_def by (auto dest: imageI)

lemma live_not_expired: "(m, res) \<in> set (live now xs) \<Longrightarrow> \<not> expired now res"
  by (auto simp: live_def gm_remove_if_def)

lemma live_id: "\<forall>(m, res) \<in> set xs. \<not> expired now res \<Longrightarrow> live now xs = xs"
  unfolding live_def gm_remove_if_def by (rule filter_True) auto

lemma live_idem [simp]: "live now (live now xs) = live now xs"
  by (rule live_id) (auto dest: live_not_expired)

definition reservation :: "gotime \<Rightarrow> int \<Rightarrow> bool \<Rightarrow> warm_reservation" where
  "reservation now b p = \<lparr> wr_bytes = b, wr_at = now, wr_placeholder = p \<rparr>"

lemma reservation_live [simp]: "\<not> expired now (reservation now b p)"
  by (simp add: expired_def reservation_def warmReservationTTL_def duration_defs)

definition full_for :: "string \<Rightarrow> node_reservations \<Rightarrow> bool" where
  "full_for model xs \<longleftrightarrow> gm_get xs model = None \<and> length xs \<ge> maxWarmReservationsPerNode"

lemma reserve_in_room:
  "\<not> full_for model (live now xs) \<Longrightarrow>
   reserve_in now model b p xs =
     (bytes_of (gm_remove_if (\<lambda>m _. m = model) (live now xs)),
      gm_put model (reservation now b p) (live now xs))"
  unfolding full_for_def live_def reserve_in_def reservation_def Let_def by auto

lemma reserve_in_full:
  "full_for model (live now xs) \<Longrightarrow>
   pick_victim (live now xs) ([], zero_reservation) = (victim, vres) \<Longrightarrow>
   reserve_in now model b p xs =
     (bytes_of (live now xs) - wr_bytes vres, gm_put model (reservation now b p) (gm_del victim (live now xs)))"
  unfolding full_for_def live_def reserve_in_def reservation_def Let_def
  by (simp add: gm_remove_if_absent map_of_eq_None_iff)

lemma full_victim:
  assumes "reservations_ok xs" "full_for model xs" "pick_victim xs ([], zero_reservation) = (victim, vres)"
  shows "gm_get xs victim = Some vres" "victim \<noteq> model"
    "(m, res) \<in> set xs \<Longrightarrow> victim_key (victim, vres) \<le> victim_key (m, res)"
proof -
  have ne: "xs \<noteq> []" "[] \<notin> fst ` set xs"
    using assms(1,2) by (auto simp: full_for_def reservations_ok_def maxWarmReservationsPerNode_def)
  show get: "gm_get xs victim = Some vres"
    using pick_victim_min(1) [OF ne] assms(1,3) by (simp add: reservations_ok_def gm_get_mem)
  then show "victim \<noteq> model" using assms(2) by (auto simp: full_for_def)
  show "(m, res) \<in> set xs \<Longrightarrow> victim_key (victim, vres) \<le> victim_key (m, res)"
    using pick_victim_min(2) [OF ne] assms(3) by simp
qed

lemma ok_put_del:
  assumes "reservations_ok xs" "full_for model xs" "gm_get xs victim = Some vres" "model \<noteq> []"
  shows "reservations_ok (gm_put model v (gm_del victim xs))"
proof -
  have "victim \<in> fst ` set xs" using assms(3) by (rule gm_key)
  then have "length (gm_del victim xs) < length xs"
    using length_filter_less [of "(victim, vres)" xs "\<lambda>x. victim \<noteq> fst x"] map_of_SomeD [OF assms(3)]
    by (simp add: AList.delete_eq split_def)
  moreover have "length (gm_put model v (gm_del victim xs)) \<le> Suc (length (gm_del victim xs))"
    by (rule gm_length_put_le)
  ultimately show ?thesis
    using assms(1,4) by (auto simp: reservations_ok_def gm_dom_put gm_dom_del)
qed

lemma ok_put:
  assumes "reservations_ok xs" "\<not> full_for model xs" "model \<noteq> []"
  shows "reservations_ok (gm_put model v xs)"
  using assms
  by (auto simp: reservations_ok_def full_for_def gm_dom_put gm_length_put map_of_eq_None_iff)

lemma live_put: "\<not> expired now v \<Longrightarrow> live now xs = xs \<Longrightarrow> live now (gm_put k v (gm_del j xs)) = gm_put k v (gm_del j xs)"
  "\<not> expired now v \<Longrightarrow> live now xs = xs \<Longrightarrow> live now (gm_put k v xs) = gm_put k v xs"
proof -
  have put: "live now (gm_put k v ys) = gm_put k v ys" if "\<not> expired now v" "\<forall>(m, res) \<in> set ys. \<not> expired now res" for ys
  proof (rule live_id)
    show "\<forall>(m, res) \<in> set (gm_put k v ys). \<not> expired now res"
      using that by (induction ys) auto
  qed
  assume a: "\<not> expired now v" "live now xs = xs"
  have xs: "\<forall>(m, res) \<in> set xs. \<not> expired now res" using live_not_expired [of _ _ now xs] a(2) by auto
  then have "\<forall>(m, res) \<in> set (gm_del j xs). \<not> expired now res" by (auto simp: AList.delete_eq)
  then show "live now (gm_put k v (gm_del j xs)) = gm_put k v (gm_del j xs)" using a(1) by (intro put)
  show "live now (gm_put k v xs) = gm_put k v xs" using a(1) xs by (intro put)
qed

lemma reserve_in_spec:
  assumes ok: "reservations_ok xs" and ne: "model \<noteq> []"
    and res: "reserve_in now model b p xs = (others, ys)"
  shows "reservations_ok ys" "live now ys = ys" "gm_get ys model = Some (reservation now b p)"
    "bytes_of ys = others + b"
    "m \<noteq> model \<Longrightarrow> gm_get ys m \<noteq> None \<Longrightarrow> gm_get ys m = gm_get (live now xs) m"
    "m \<noteq> model \<Longrightarrow> gm_get (live now xs) m = Some mres \<Longrightarrow> gm_get ys m = None \<Longrightarrow>
       full_for model (live now xs) \<and> (\<forall>x \<in> set (live now xs). victim_key (m, mres) \<le> victim_key x)"
proof -
  let ?l = "live now xs" let ?v = "reservation now b p"
  have lok: "reservations_ok ?l" using ok by (rule live_ok)
  then have wf: "gm_wf ?l" by (simp add: reservations_ok_def)
  have "reservations_ok ys \<and> live now ys = ys \<and> gm_get ys model = Some ?v \<and> bytes_of ys = others + b \<and>
     (m \<noteq> model \<longrightarrow> gm_get ys m \<noteq> None \<longrightarrow> gm_get ys m = gm_get ?l m) \<and>
     (m \<noteq> model \<longrightarrow> gm_get ?l m = Some mres \<longrightarrow> gm_get ys m = None \<longrightarrow>
       full_for model ?l \<and> (\<forall>x \<in> set ?l. victim_key (m, mres) \<le> victim_key x))"
  proof (cases "full_for model ?l")
    case True
    obtain victim vres where v: "pick_victim ?l ([], zero_reservation) = (victim, vres)" by (cases "pick_victim ?l ([], zero_reservation)")
    note fv = full_victim [OF lok True v]
    have ys: "ys = gm_put model ?v (gm_del victim ?l)" "others = bytes_of ?l - wr_bytes vres"
      using reserve_in_full [OF True v, of b p] res by simp_all
    have "gm_get (gm_del victim ?l) model = None" using True by (simp add: full_for_def gm_get_del)
    then have bytes: "bytes_of ys = others + b"
      using wf bytes_of_split [OF wf fv(1)]
      by (simp add: ys bytes_of_put gm_remove_if_absent map_of_eq_None_iff reservation_def)
    have "victim_key (m, mres) \<le> victim_key x" if "m \<noteq> model" "gm_get ?l m = Some mres" "gm_get ys m = None" "x \<in> set ?l" for x
    proof -
      have "m = victim" using that(1-3) by (simp add: ys gm_get_put gm_get_del split: if_splits)
      with that(2) fv(1) have "(victim, vres) = (m, mres)" by simp
      then show ?thesis using fv(3) [of "fst x" "snd x"] that(4) by simp
    qed
    then show ?thesis
      using ok_put_del [OF lok True fv(1) ne] bytes True
      by (auto simp: ys live_put gm_get_put gm_get_del)
  next
    case False
    have ys: "ys = gm_put model ?v ?l" "others = bytes_of (gm_remove_if (\<lambda>m _. m = model) ?l)"
      using reserve_in_room [OF False, of b p] res by simp_all
    have "bytes_of ys = others + b" using wf by (simp add: ys bytes_of_put reservation_def)
    then show ?thesis
      using ok_put [OF lok False ne] by (auto simp: ys live_put gm_get_put)
  qed
  then show "reservations_ok ys" "live now ys = ys" "gm_get ys model = Some ?v" "bytes_of ys = others + b"
    "m \<noteq> model \<Longrightarrow> gm_get ys m \<noteq> None \<Longrightarrow> gm_get ys m = gm_get ?l m"
    "m \<noteq> model \<Longrightarrow> gm_get ?l m = Some mres \<Longrightarrow> gm_get ys m = None \<Longrightarrow>
       full_for model ?l \<and> (\<forall>x \<in> set ?l. victim_key (m, mres) \<le> victim_key x)"
    by blast+
qed

lemma node_reservations_set [simp]:
  "node_reservations (set_reservations node xs r) x = (if x = node then xs else node_reservations r x)"
  by (simp add: node_reservations_def set_reservations_def gm_at_def gm_get_put)

lemma pendingPrewarmBytes_eq:
  "fst (PendingPrewarmBytes now node r) = bytes_of (live now (node_reservations r node))"
  by (simp add: PendingPrewarmBytes_def pendingPrewarmBytes_def node_reservations_def gm_at_def live_def Let_def
      gm_remove_if_def split: option.split)

lemma pendingPrewarmBytes_state:
  "node_reservations (snd (pendingPrewarmBytes now node q r)) x =
     (if x = node then live now (node_reservations r node) else node_reservations r x)"
  by (auto simp: pendingPrewarmBytes_def live_def Let_def remove_if_simps split: option.split)
    (auto simp: node_reservations_def gm_at_def remove_if_simps)

text \<open>
  C15. Reserving memory for a load accounts for it exactly: what the call returns
  plus the new reservation is the node's pending total right after it, at most
  \<^verbatim>\<open>maxWarmReservationsPerNode\<close> reservations remain and none is expired, the
  new one is active, and other nodes are untouched.  A reservation of another
  model that was still live is given up only when the node's table was full, and
  then it is the least valuable one: a placeholder if there is one, else the oldest.
\<close>

theorem reserve_accounts_exactly:
  assumes "reservations_ok (node_reservations r node)" "model \<noteq> []"
    and "reserveWarmBytesAs now node model b placeholder r = (others, r')"
  shows "fst (PendingPrewarmBytes now node r') = others + b
    \<and> reservations_ok (node_reservations r' node)
    \<and> live now (node_reservations r' node) = node_reservations r' node
    \<and> hasActiveWarmReservation now node model r'
    \<and> (\<forall>x. x \<noteq> node \<longrightarrow> node_reservations r' x = node_reservations r x)
    \<and> (\<forall>m res. m \<noteq> model \<and> gm_get (live now (node_reservations r node)) m = Some res \<longrightarrow>
         gm_get (node_reservations r' node) m = Some res
         \<or> (length (live now (node_reservations r node)) = maxWarmReservationsPerNode
            \<and> (\<forall>x \<in> set (live now (node_reservations r node)). victim_key (m, res) \<le> victim_key x)))"
proof -
  obtain ys where ri: "reserve_in now model b placeholder (node_reservations r node) = (others, ys)"
    and r': "r' = set_reservations node ys r"
    using assms(3) by (auto simp: reserveWarmBytesAs_def split: prod.splits)
  note sp = reserve_in_spec [OF assms(1,2) ri]
  have len: "length (live now (node_reservations r node)) \<le> maxWarmReservationsPerNode"
    using live_ok [OF assms(1)] by (simp add: reservations_ok_def)
  have "hasActiveWarmReservation now node model r'"
    using sp(3) reservation_live [of now b placeholder] by (simp add: r' hasActiveWarmReservation_def expired_def)
  moreover have "gm_get ys m = Some res
         \<or> (length (live now (node_reservations r node)) = maxWarmReservationsPerNode
            \<and> (\<forall>x \<in> set (live now (node_reservations r node)). victim_key (m, res) \<le> victim_key x))"
    if "m \<noteq> model" "gm_get (live now (node_reservations r node)) m = Some res" for m res
  proof (cases "gm_get ys m")
    case None
    with sp(6) [OF that] len show ?thesis by (simp add: full_for_def)
  next
    case (Some w)
    with sp(5) [OF that(1)] that(2) show ?thesis by simp
  qed
  ultimately show ?thesis using sp(1,2,4) by (auto simp: r' pendingPrewarmBytes_eq)
qed

lemma reservations_ok_Nil [simp]: "reservations_ok []"
  by (simp add: reservations_ok_def)

theorem reserve_accounts_exactly_witness:
  "fst (PendingPrewarmBytes 9 ''a'' (snd (reserveWarmBytesAs 9 ''a'' ''m'' 5 False (demo_router [])))) = 5"
proof -
  have "reserveWarmBytesAs 9 ''a'' ''m'' 5 False (demo_router []) =
    (0, snd (reserveWarmBytesAs 9 ''a'' ''m'' 5 False (demo_router [])))"
    by (simp add: reserveWarmBytesAs_def reserve_in_def node_reservations_def gm_at_def remove_if_simps
        maxWarmReservationsPerNode_def)
  from reserve_accounts_exactly [OF _ _ this] show ?thesis by (simp add: node_reservations_def gm_at_def)
qed

end
