(* ===== verification/Scoring.thy ===== *)
theory Scoring
  imports Reservations
begin

text \<open>
  Warmth, eligibility, capacity and the weighted node score of
  \<^verbatim>\<open>internal/router/placement.go\<close>, the decision records of
  \<^verbatim>\<open>internal/router/explain.go\<close> and the pins of \<^verbatim>\<open>eviction.go\<close>.

  Candidate slices hold pointers to nodes that routing only reads, so they are lists
  of node records.  Scoring a node drops its expired reservations, and picking the
  best node moves a provisional reservation along, so both thread the router.
\<close>

section \<open>Pins and digests\<close>

definition SetPinnedModels :: "string \<Rightarrow> string list \<Rightarrow> router \<Rightarrow> router" where
  "SetPinnedModels node models r =
     (if models = [] then r\<lparr> r_pinned := gm_del node (r_pinned r) \<rparr>
      else r\<lparr> r_pinned := gm_put node (remdups (filter (\<lambda>m. m \<noteq> []) models)) (r_pinned r) \<rparr>)"

definition PinnedModels :: "router \<Rightarrow> string \<Rightarrow> string list" where
  "PinnedModels r node = sort (gm_at [] (r_pinned r) node)"

definition isPinned :: "router \<Rightarrow> string \<Rightarrow> string \<Rightarrow> bool" where
  "isPinned r node model =
     (let pins = gm_at [] (r_pinned r) node in
      model \<in> set pins \<or> list_ex (\<lambda>p. ModelNamesEquivalent p model) pins)"

definition recordModelDigest :: "string \<Rightarrow> string \<Rightarrow> router \<Rightarrow> router" where
  "recordModelDigest name digest r =
     (if name = [] \<or> digest = [] then r
      else if gm_get (r_modelDigests r) name = None
        then r\<lparr> r_modelDigests := gm_put name digest (r_modelDigests r) \<rparr>
      else r)"

text \<open>One loaded model: the names seen with their recorded digest, and the replacements.\<close>

definition reconcile_model ::
  "(string, string) gomap \<Rightarrow> model_info \<Rightarrow> string list \<times> (string, string) gomap \<Rightarrow> string list \<times> (string, string) gomap" where
  "reconcile_model oldDigests m acc =
     (case acc of (oldSeen, replacement) \<Rightarrow>
        if mi_Name m = [] \<or> mi_Digest m = [] then acc
        else case gm_get oldDigests (mi_Name m) of
               None \<Rightarrow> acc
             | Some old \<Rightarrow>
                 if mi_Digest m = old then (List.insert (mi_Name m) oldSeen, replacement)
                 else (oldSeen, gm_put (mi_Name m) (mi_Digest m) replacement))"

definition reconcileModelDigests :: "node_state list \<Rightarrow> router \<Rightarrow> router" where
  "reconcileModelDigests nodes r =
     (let oldDigests = r_modelDigests r in
      if oldDigests = [] then r
      else
        case fold (reconcile_model oldDigests) (concat (map ns_LoadedModels nodes)) ([], []) of
          (oldSeen, replacement) \<Rightarrow>
            r\<lparr> r_modelDigests :=
                 fold (\<lambda>(name, newDigest) m. if name \<in> set oldSeen then m else gm_put name newDigest m)
                   replacement oldDigests \<rparr>)"

definition digestMismatch :: "router \<Rightarrow> string \<Rightarrow> string \<Rightarrow> bool" where
  "digestMismatch r name digest =
     (if name = [] \<or> digest = [] then False
      else case gm_get (r_modelDigests r) name of None \<Rightarrow> False | Some known \<Rightarrow> known \<noteq> digest)"

section \<open>Eligibility\<close>

definition isModelWarm :: "router \<Rightarrow> node_state \<Rightarrow> string \<Rightarrow> bool" where
  "isModelWarm r n modelName =
     (if modelName = [] then False
      else list_ex (\<lambda>m. modelNamesMatchOnRuntime (ns_Runtime n) (mi_Name m) modelName
                        \<and> \<not> digestMismatch r (mi_Name m) (mi_Digest m)) (ns_LoadedModels n))"

definition isEligibleForModel :: "router \<Rightarrow> node_state \<Rightarrow> string \<Rightarrow> bool" where
  "isEligibleForModel r n modelName =
     (if modelName = [] then True
      else if ns_Runtime n = [] \<or> ns_Runtime n = ''ollama'' \<or> ns_Runtime n = ''auto'' then True
      else isModelWarm r n modelName)"

definition isUnderCapacity :: "router \<Rightarrow> node_state \<Rightarrow> bool" where
  "isUnderCapacity r n =
     (let effectiveCap = (if ns_MaxInFlight n \<le> 0 then r_maxInFlightPerNode r else ns_MaxInFlight n) in
      if effectiveCap \<le> 0 then True else ns_ActiveConns n < to_int32 effectiveCap)"

definition scopeGPUsForPlacement :: "gpu_info list \<Rightarrow> int list \<Rightarrow> gpu_info list \<times> bool" where
  "scopeGPUsForPlacement agentGPUs declaredIndices =
     (if declaredIndices = [] then (agentGPUs, False)
      else
        let out = filter (\<lambda>g. gi_Index g \<in> set declaredIndices) agentGPUs in
        if out = [] then (agentGPUs, False) else (out, True))"

definition scoped_count :: "gpu_info list \<Rightarrow> int list \<Rightarrow> int" where
  "scoped_count agentGPUs indices =
     (if agentGPUs = [] then int (length indices)
      else case scopeGPUsForPlacement agentGPUs indices of
             (scoped, applied) \<Rightarrow> if \<not> applied then int (length agentGPUs) else int (length scoped))"

definition effectiveAvailableGPUs :: "node_state \<Rightarrow> int" where
  "effectiveAvailableGPUs n =
     (let detected = (if detectedVerifiedLocked n then ns_DetectedGPUGroup n else []) in
      if ns_DeclaredGPUIndices n \<noteq> [] then scoped_count (ns_AgentGPUs n) (ns_DeclaredGPUIndices n)
      else if detected \<noteq> [] then scoped_count (ns_AgentGPUs n) detected
      else int (length (ns_AgentGPUs n)))"

definition isGPUGroupSufficient :: "node_state \<Rightarrow> bool" where
  "isGPUGroupSufficient n =
     (let req = effectiveRequiredGPUsLocked n in
      if req = 0 then True
      else
        let avail = effectiveAvailableGPUs n in
        if avail = 0 then True else avail \<ge> req)"

section \<open>Decision records\<close>

record score_component =
  sc_Name :: string
  sc_Raw :: float64
  sc_Weight :: float64
  sc_Value :: float64
  sc_Phase :: string

definition PhaseLocality :: string where "PhaseLocality = ''locality''"
definition PhasePredictedPerformance :: string where "PhasePredictedPerformance = ''predicted_performance''"
definition PhaseReliability :: string where "PhaseReliability = ''reliability''"

datatype exclude_reason =
  ExcludeReasonUnhealthy | ExcludeReasonDraining | ExcludeReasonRuntimeMismatch
  | ExcludeReasonIneligibleModel | ExcludeReasonOverCapacity | ExcludeReasonInsufficientGPUGroup
  | ExcludeReasonReplicaWorker | ExcludeReasonReplicaUnresolved | ExcludeReasonReplicaMemberUnreachable

record excluded_candidate =
  ec_Node :: string
  ec_Reason :: exclude_reason

definition maxExcludedCandidates :: nat where "maxExcludedCandidates = 20"

datatype decision_reason =
  ReasonSessionAffinity | ReasonPinnedWarm | ReasonScoreBased | ReasonNoCandidate

datatype no_route =
  NoRouteNoNodeServesModel | NoRouteAllNodesUnavailable | NoRouteAtCapacityHealthy | NoRouteUnknownState

definition IsHardNoRoute :: "no_route \<Rightarrow> bool" where
  "IsHardNoRoute nr \<longleftrightarrow> nr = NoRouteNoNodeServesModel \<or> nr = NoRouteAllNodesUnavailable"

record routing_decision =
  rd_Node :: string
  rd_Reason :: decision_reason
  rd_Detail :: string
  rd_AffinityLost :: bool
  rd_Score :: float64
  rd_Components :: "score_component list"
  rd_Excluded :: "excluded_candidate list"
  rd_ExcludedTotal :: int
  rd_NoRoute :: "no_route option"
  rd_lastResort :: bool

definition new_decision :: "decision_reason \<Rightarrow> routing_decision" where
  "new_decision reason = \<lparr> rd_Node = [], rd_Reason = reason, rd_Detail = [], rd_AffinityLost = False,
     rd_Score = 0, rd_Components = [], rd_Excluded = [], rd_ExcludedTotal = 0, rd_NoRoute = None,
     rd_lastResort = False \<rparr>"

lemma new_decision_simps [simp]:
  "rd_Reason (new_decision x) = x" "rd_lastResort (new_decision x) = False" "rd_NoRoute (new_decision x) = None"
  "rd_Excluded (new_decision x) = []" "rd_AffinityLost (new_decision x) = False"
  by (simp_all add: new_decision_def)

definition sumComponents :: "score_component list \<Rightarrow> float64" where
  "sumComponents components = foldl (\<lambda>total c. fadd total (sc_Value c)) 0 components"

section \<open>The score\<close>

definition staticVRAMReservation :: "string \<Rightarrow> bool" where
  "staticVRAMReservation runtime \<longleftrightarrow> runtime = ''vllm''"

definition fsum :: "float64 list \<Rightarrow> float64" where
  "fsum xs = foldl fadd 0 xs"

definition effectiveLoad :: "node_state \<Rightarrow> int \<Rightarrow> float64" where
  "effectiveLoad n conns =
     (if ns_RecentTTFT n = [] then f_of_int conns
      else
        let avgTTFT = fdiv (fsum (ns_RecentTTFT n)) (f_of_int (int (length (ns_RecentTTFT n)))) in
        fmul (f_of_int conns) (fadd 1 avgTTFT))"

definition boolToFloat :: "bool \<Rightarrow> float64" where
  "boolToFloat b = (if b then 1 else 0)"

definition warm_raw :: "router \<Rightarrow> node_state \<Rightarrow> string \<Rightarrow> float64" where
  "warm_raw r n model =
     (if list_ex (\<lambda>m. modelNamesMatchOnRuntime (ns_Runtime n) (mi_Name m) model
                      \<and> \<not> digestMismatch r (mi_Name m) (mi_Digest m)) (ns_LoadedModels n)
      then 1 else 0)"

definition queue_raw :: "node_state \<Rightarrow> float64" where
  "queue_raw n = fdiv 1 (fadd 1 (effectiveLoad n (ns_ActiveConns n)))"

text \<open>The free-memory factor, given the bytes reserved on the node.\<close>

definition vram_raw :: "node_state \<Rightarrow> int \<Rightarrow> float64" where
  "vram_raw n reserved =
     (let free = ns_VRAMTotalMB n - int_of_f (fmul (f_of_int (ns_VRAMUsedMB n)) FragmentationOverheadMult);
          free' = (if reserved > 0 then free - quot reserved (1024 * 1024) else free)
      in if free' > 0 then fdiv (f_of_int free') (f_of_int (ns_VRAMTotalMB n)) else 0)"

definition free_raw :: "gotime \<Rightarrow> node_state \<Rightarrow> router \<Rightarrow> float64 \<times> router" where
  "free_raw now n r =
     (if staticVRAMReservation (ns_Runtime n) then (queue_raw n, r)
      else if ns_VRAMTotalMB n > 0 then
        (case PendingPrewarmBytes now (ns_Name n) r of (reserved, r') \<Rightarrow> (vram_raw n reserved, r'))
      else (0, r))"

definition health_raw :: "node_state \<Rightarrow> float64" where
  "health_raw n =
     (if ns_HealthHistory n = [] then 1
      else fdiv (fsum (ns_HealthHistory n)) (fmul 100 (f_of_int (int (length (ns_HealthHistory n))))))"

definition success_raw :: "node_state \<Rightarrow> float64" where
  "success_raw n =
     (if ns_SuccessHistory n = [] then 1
      else fdiv (fsum (map boolToFloat (filter id (ns_SuccessHistory n))))
             (f_of_int (int (length (ns_SuccessHistory n)))))"

definition component_of :: "string \<Rightarrow> float64 \<Rightarrow> float64 \<Rightarrow> string \<Rightarrow> score_component" where
  "component_of name raw weight phase =
     \<lparr> sc_Name = name, sc_Raw = raw, sc_Weight = weight, sc_Value = fmul raw weight, sc_Phase = phase \<rparr>"

definition cooldownTriggered :: "gotime \<Rightarrow> node_state \<Rightarrow> bool" where
  "cooldownTriggered now n \<longleftrightarrow> \<not> time_is_zero (ns_LastErrorAt n) \<and> now - ns_LastErrorAt n < 60 * second"

definition staleTriggered :: "gotime \<Rightarrow> router \<Rightarrow> node_state \<Rightarrow> bool" where
  "staleTriggered now r n \<longleftrightarrow>
     \<not> time_is_zero (ns_LastPollAt n) \<and> r_interval r > 0
     \<and> now - ns_LastPollAt n > r_healthFailureThreshold r * r_interval r"

text \<open>A penalty of 50 floored at 0: the running score after it and the component's value.\<close>

definition apply_penalty :: "bool \<Rightarrow> float64 \<Rightarrow> float64 \<times> float64" where
  "apply_penalty triggered running =
     (if triggered then
        let next = fsub running 50; next' = (if next < 0 then 0 else next) in (next', fsub next' running)
      else (running, 0))"

definition penalty_component :: "string \<Rightarrow> bool \<Rightarrow> float64 \<Rightarrow> score_component" where
  "penalty_component name triggered val =
     \<lparr> sc_Name = name, sc_Raw = boolToFloat triggered, sc_Weight = - 50, sc_Value = val,
       sc_Phase = PhaseReliability \<rparr>"

definition base_components :: "router \<Rightarrow> node_state \<Rightarrow> string \<Rightarrow> string \<Rightarrow> float64 \<Rightarrow> score_component list" where
  "base_components r n model preferredNode freeVRAM =
     [component_of ''warm_model_resident'' (warm_raw r n model) 50 PhaseLocality,
      component_of ''free_vram_headroom'' freeVRAM 20 PhaseLocality,
      component_of ''inverse_queue_depth'' (queue_raw n) 15 PhasePredictedPerformance,
      component_of ''node_health'' (health_raw n) 10 PhaseReliability,
      component_of ''success_rate'' (success_raw n) 5 PhaseReliability]
     @ (if r_prefixLocalityEnabled r then
          [component_of ''prefix_match''
             (if preferredNode \<noteq> [] \<and> ns_Name n = preferredNode then 1 else 0)
             (r_prefixLocalityWeight r) PhaseLocality]
        else [])"

definition penalty_components :: "gotime \<Rightarrow> router \<Rightarrow> node_state \<Rightarrow> float64 \<Rightarrow> score_component list" where
  "penalty_components now r n running =
     (let cooldown = cooldownTriggered now n;
          (running1, cooldownValue) = apply_penalty cooldown running;
          stale = staleTriggered now r n;
          (running2, staleValue) = apply_penalty stale running1
      in [penalty_component ''cooldown_penalty'' cooldown cooldownValue,
          penalty_component ''stale_telemetry_penalty'' stale staleValue])"

definition scoreComponents ::
  "gotime \<Rightarrow> node_state \<Rightarrow> string \<Rightarrow> string \<Rightarrow> router \<Rightarrow> score_component list \<times> router" where
  "scoreComponents now n model preferredNode r =
     (case free_raw now n r of (freeVRAM, r') \<Rightarrow>
        let components = base_components r n model preferredNode freeVRAM in
        (components @ penalty_components now r n (sumComponents components), r'))"

definition computeNodeScore :: "gotime \<Rightarrow> node_state \<Rightarrow> string \<Rightarrow> string \<Rightarrow> router \<Rightarrow> float64 \<times> router" where
  "computeNodeScore now n model preferredNode r =
     (case scoreComponents now n model preferredNode r of (components, r') \<Rightarrow> (sumComponents components, r'))"

section \<open>Selection\<close>

text \<open>
  \<^verbatim>\<open>findBestByScore\<close>.  \<open>best\<close> is the leading node with its score and components,
  \<open>reservedFor\<close> the node holding the provisional reservation.  Every pointer occurs once in
  the slice, so \<^verbatim>\<open>reservedFor != n\<close> always holds.
\<close>

type_synonym scored = "node_state \<times> float64 \<times> score_component list"

fun find_best_loop ::
  "(string \<Rightarrow> tag_model list option) \<Rightarrow> gotime \<Rightarrow> string \<Rightarrow> string \<Rightarrow> node_state list
     \<Rightarrow> scored option \<Rightarrow> node_state option \<Rightarrow> router \<Rightarrow> scored option \<times> router" where
  "find_best_loop fetch_tags now modelName preferredNode [] best reservedFor r = (best, r)"
| "find_best_loop fetch_tags now modelName preferredNode (n # ns) best reservedFor r =
     (case scoreComponents now n modelName preferredNode r of (components, r1) \<Rightarrow>
        let score = sumComponents components;
            isNewBest = (case best of None \<Rightarrow> True
               | Some (bestNode, bestScore, _) \<Rightarrow>
                   score > bestScore \<or> (score = bestScore \<and> ns_Name n < ns_Name bestNode))
        in if \<not> isNewBest then find_best_loop fetch_tags now modelName preferredNode ns best reservedFor r1
           else
             let r2 = (case reservedFor of None \<Rightarrow> r1 | Some old \<Rightarrow> clearWarmReservation (ns_Name old) modelName r1)
             in if modelName \<noteq> [] \<and> \<not> isModelWarm r2 n modelName
                then find_best_loop fetch_tags now modelName preferredNode ns (Some (n, score, components)) (Some n)
                       (reserveColdStartBytes fetch_tags now (ns_URL n) (ns_Name n) modelName r2)
                else find_best_loop fetch_tags now modelName preferredNode ns (Some (n, score, components)) None r2)"

definition findBestByScore ::
  "(string \<Rightarrow> tag_model list option) \<Rightarrow> gotime \<Rightarrow> node_state list \<Rightarrow> string \<Rightarrow> string \<Rightarrow> router
     \<Rightarrow> (node_state \<times> score_component list) option \<times> router" where
  "findBestByScore fetch_tags now nodes modelName preferredNode r =
     (case find_best_loop fetch_tags now modelName preferredNode nodes None None r of
        (best, r') \<Rightarrow> (map_option (\<lambda>(n, score, components). (n, components)) best, r'))"

text \<open>The node, whether the model is warm on it, the decision and the new state.\<close>

type_synonym route_result = "node_state option \<times> bool \<times> routing_decision option"

definition selectBestNode ::
  "(string \<Rightarrow> tag_model list option) \<Rightarrow> gotime \<Rightarrow> node_state list \<Rightarrow> string \<Rightarrow> string \<Rightarrow> router
     \<Rightarrow> route_result \<times> router" where
  "selectBestNode fetch_tags now candidates modelName preferredNode r =
     (if candidates = [] then ((None, False, Some (new_decision ReasonNoCandidate)), r)
      else
        let pinnedAndWarm =
              (if modelName = [] then []
               else filter (\<lambda>n. isPinned r (ns_Name n) modelName \<and> isModelWarm r n modelName) candidates)
        in if pinnedAndWarm \<noteq> [] then
             (case findBestByScore fetch_tags now pinnedAndWarm modelName preferredNode r of
                (None, r') \<Rightarrow> ((None, True, Some (new_decision ReasonPinnedWarm)), r')
              | (Some (bestNode, _), r') \<Rightarrow>
                  ((Some bestNode, True,
                    Some ((new_decision ReasonPinnedWarm)\<lparr> rd_Node := ns_Name bestNode,
                            rd_Detail := ''pinned+warm on node '' @ ns_Name bestNode \<rparr>)), r'))
           else
             (case findBestByScore fetch_tags now candidates modelName preferredNode r of
                (None, r') \<Rightarrow> ((None, False, None), r')
              | (Some (bestNode, components), r') \<Rightarrow>
                  ((Some bestNode, isModelWarm r' bestNode modelName,
                    Some ((new_decision ReasonScoreBased)\<lparr> rd_Node := ns_Name bestNode,
                            rd_Detail := ''score_based on node '' @ ns_Name bestNode,
                            rd_Score := sumComponents components, rd_Components := components \<rparr>)), r')))"

text \<open>Two helpers of the older strategies.\<close>

definition pickLeastConns :: "node_state list \<Rightarrow> node_state option" where
  "pickLeastConns nodes =
     fst (foldl (\<lambda>(best, minConns) n. if ns_ActiveConns n < minConns then (Some n, ns_ActiveConns n) else (best, minConns))
            (None, 2 ^ 31 - 1) nodes)"

definition pickMostFreeVRAM :: "node_state list \<Rightarrow> node_state option" where
  "pickMostFreeVRAM nodes =
     (let best = fst (foldl (\<lambda>(best, bestFree) n.
            if ns_VRAMTotalMB n \<le> 0 then (best, bestFree)
            else
              let free = ns_VRAMTotalMB n - ns_VRAMUsedMB n in
              if free \<le> 0 then (best, bestFree)
              else if free > bestFree then (Some n, free) else (best, bestFree)) (None, 0) nodes)
      in case best of None \<Rightarrow> pickLeastConns nodes | Some n \<Rightarrow> Some n)"

section \<open>Score arithmetic\<close>

lemma sumComponents_append:
  "sumComponents (xs @ ys) = foldl (\<lambda>total c. fadd total (sc_Value c)) (sumComponents xs) ys"
  by (simp add: sumComponents_def)

lemma sumComponents_float: "fl (sumComponents xs) = sumComponents xs"
  by (induction xs rule: rev_induct) (simp_all add: sumComponents_def fadd_def)

definition penalty :: "bool \<Rightarrow> float64 \<Rightarrow> float64" where
  "penalty triggered x = (if triggered then max 0 (x - 50) else x)"

lemma penalty_range: "0 \<le> x \<Longrightarrow> 0 \<le> penalty t x" "0 \<le> x \<Longrightarrow> penalty t x \<le> x"
  by (auto simp: penalty_def)

text \<open>
  Rounding never shows in a penalty: the running score, and the sum of the running
  score and the recorded value, are both the exact floored difference.
\<close>

lemma apply_penalty_exact:
  assumes x: "fl x = x" "0 \<le> x" "x < 2 ^ 53" and p: "apply_penalty t x = (y, v)"
  shows "y = penalty t x" "fadd x v = y" "fl y = y"
proof -
  have "y = penalty t x \<and> fadd x v = y \<and> fl y = y"
  proof (cases "t \<and> 50 \<le> x")
    case True
    then have s: "fl (x - 50) = x - 50" using fl_sub_int [of x 50] x by simp
    then have "y = x - 50" "v = - 50"
      using p True fl_of_int [of "- 50"] by (auto simp: apply_penalty_def fsub_def Let_def)
    then show ?thesis using True s by (simp add: fadd_def penalty_def)
  next
    case False
    show ?thesis
    proof (cases t)
      case True
      then have "fl (x - 50) \<le> 0" using False b64.rnd_nonpos [of "x - 50"] by simp
      then have "y = 0" "v = - x" using p True x(1) by (auto simp: apply_penalty_def fsub_def Let_def fl_minus split: if_splits)
      then show ?thesis using True False by (simp add: fadd_def penalty_def)
    next
      case False
      then show ?thesis using p x(1) by (auto simp: apply_penalty_def fadd_def penalty_def)
    qed
  qed
  then show "y = penalty t x" "fadd x v = y" "fl y = y" by auto
qed

lemma penalties_sum:
  assumes "0 \<le> sumComponents xs" "sumComponents xs < 2 ^ 53"
  shows "sumComponents (xs @ penalty_components now r n (sumComponents xs)) =
    penalty (staleTriggered now r n) (penalty (cooldownTriggered now n) (sumComponents xs))"
proof -
  let ?x = "sumComponents xs"
  obtain y v where p1: "apply_penalty (cooldownTriggered now n) ?x = (y, v)" by (cases "apply_penalty (cooldownTriggered now n) ?x")
  obtain z w where p2: "apply_penalty (staleTriggered now r n) y = (z, w)" by (cases "apply_penalty (staleTriggered now r n) y")
  note e1 = apply_penalty_exact [OF sumComponents_float assms p1]
  have y: "0 \<le> y" "y < 2 ^ 53"
    using e1(1) penalty_range [OF assms(1), of "cooldownTriggered now n"] assms(2) by linarith+
  note e2 = apply_penalty_exact [OF e1(3) y p2]
  show ?thesis
    unfolding sumComponents_append penalty_components_def p1 Let_def
    by (simp add: p2 penalty_component_def e1(2) e2(2) e2(1)) (simp add: e1(1))
qed

text \<open>What is known of a node's telemetry: counters and histories in their ranges.\<close>

definition telemetry_ok :: "node_state \<Rightarrow> bool" where
  "telemetry_ok n \<longleftrightarrow>
     0 \<le> ns_ActiveConns n \<and> 0 \<le> ns_VRAMUsedMB n
     \<and> (\<forall>t \<in> set (ns_RecentTTFT n). 0 \<le> t)
     \<and> (\<forall>h \<in> set (ns_HealthHistory n). 0 \<le> h \<and> h \<le> 100)
     \<and> length (ns_HealthHistory n) < 2 ^ 40 \<and> length (ns_SuccessHistory n) < 2 ^ 40"

lemma foldl_fadd_nonneg: "0 \<le> a \<Longrightarrow> \<forall>x \<in> set xs. 0 \<le> x \<Longrightarrow> 0 \<le> foldl fadd a xs"
  by (induction xs arbitrary: a) (simp_all add: fadd_def b64.rnd_nonneg)

lemma fsum_nonneg: "\<forall>x \<in> set xs. 0 \<le> x \<Longrightarrow> 0 \<le> fsum xs"
  by (simp add: fsum_def foldl_fadd_nonneg)

lemma foldl_fadd_le:
  "a \<le> of_int m \<Longrightarrow> 0 \<le> m \<Longrightarrow> \<forall>x \<in> set xs. x \<le> of_int c \<Longrightarrow> 0 \<le> c \<Longrightarrow> m + c * int (length xs) < 2 ^ 53 \<Longrightarrow>
   foldl fadd a xs \<le> of_int (m + c * int (length xs))"
proof (induction xs arbitrary: a m)
  case (Cons x xs)
  have le: "0 \<le> c * int (length xs)" using Cons.prems(4) by simp
  have "a + x \<le> of_int (m + c)" using Cons.prems by simp
  moreover have "c * int (length (x # xs)) = c + c * int (length xs)" by (simp add: ring_distribs)
  then have "\<bar>m + c\<bar> < 2 ^ 53" using Cons.prems(2,4,5) le by linarith
  ultimately have "fadd a x \<le> of_int (m + c)" unfolding fadd_def by (intro b64.rnd_le_int)
  from Cons.IH [OF this] Cons.prems show ?case by (simp add: ring_distribs)
qed simp

lemma fsum_le:
  assumes "\<forall>x \<in> set xs. x \<le> of_int c" "0 \<le> c" "c * int (length xs) < 2 ^ 53"
  shows "fsum xs \<le> of_int (c * int (length xs))"
  using foldl_fadd_le [of 0 0 xs c] assms by (simp add: fsum_def)

lemma fdiv_nonneg: "0 \<le> x \<Longrightarrow> 0 \<le> y \<Longrightarrow> 0 \<le> fdiv x y"
  by (simp add: fdiv_def b64.rnd_nonneg)

lemma fdiv_le_1: "0 \<le> y \<Longrightarrow> x \<le> y \<Longrightarrow> fdiv x y \<le> 1"
  unfolding fdiv_def by (cases "y = 0") (auto intro!: b64.rnd_le_1 simp: divide_le_eq)

lemma f_of_int_nonneg: "0 \<le> i \<Longrightarrow> 0 \<le> f_of_int i"
  by (simp add: f_of_int_def b64.rnd_nonneg)

lemma f_of_int_mono: "i \<le> j \<Longrightarrow> f_of_int i \<le> f_of_int j"
  by (simp add: f_of_int_def fl_mono)

lemma f_of_int_exact: "\<bar>i\<bar> < 2 ^ 53 \<Longrightarrow> f_of_int i = of_int i"
  by (simp add: f_of_int_def fl_of_int)

lemma effectiveLoad_nonneg: "telemetry_ok n \<Longrightarrow> 0 \<le> effectiveLoad n (ns_ActiveConns n)"
  by (auto simp: effectiveLoad_def telemetry_ok_def Let_def fmul_def fadd_def
      intro!: b64.rnd_nonneg f_of_int_nonneg mult_nonneg_nonneg add_nonneg_nonneg fdiv_nonneg fsum_nonneg)

lemma queue_raw_range:
  assumes "telemetry_ok n"
  shows "0 \<le> queue_raw n" "queue_raw n \<le> 1"
proof -
  have "1 \<le> fadd 1 (effectiveLoad n (ns_ActiveConns n))"
    unfolding fadd_def using b64.rnd_ge_int [of 1] effectiveLoad_nonneg [OF assms] by simp
  then show "0 \<le> queue_raw n" "queue_raw n \<le> 1"
    unfolding queue_raw_def by (auto intro!: fdiv_nonneg fdiv_le_1)
qed

lemma int_of_f_nonneg: "0 \<le> x \<Longrightarrow> 0 \<le> int_of_f x"
  by (simp add: int_of_f_def)

lemma quot_pos_nonneg: "0 < a \<Longrightarrow> 0 < b \<Longrightarrow> 0 \<le> quot a b"
  by (simp add: quot_nonneg pos_imp_zdiv_nonneg_iff)

lemma vram_raw_range:
  assumes "telemetry_ok n"
  shows "0 \<le> vram_raw n b" "vram_raw n b \<le> 1"
proof -
  let ?u = "int_of_f (fmul (f_of_int (ns_VRAMUsedMB n)) FragmentationOverheadMult)"
  have u: "0 \<le> ?u"
    using assms
    by (auto simp: telemetry_ok_def fmul_def FragmentationOverheadMult_def
        intro!: int_of_f_nonneg b64.rnd_nonneg mult_nonneg_nonneg f_of_int_nonneg)
  define free where "free = ns_VRAMTotalMB n - ?u - (if b > 0 then quot b (1024 * 1024) else 0)"
  have v: "vram_raw n b = (if free > 0 then fdiv (f_of_int free) (f_of_int (ns_VRAMTotalMB n)) else 0)"
    by (simp add: vram_raw_def free_def Let_def)
  have le: "free \<le> ns_VRAMTotalMB n" using u quot_pos_nonneg [of b "1024 * 1024"] by (auto simp: free_def)
  show "0 \<le> vram_raw n b" "vram_raw n b \<le> 1"
    unfolding v using le by (auto intro!: fdiv_nonneg fdiv_le_1 f_of_int_nonneg f_of_int_mono)
qed

lemma free_raw_range:
  assumes "telemetry_ok n"
  shows "0 \<le> fst (free_raw now n r)" "fst (free_raw now n r) \<le> 1"
  using queue_raw_range [OF assms] vram_raw_range [OF assms] by (auto simp: free_raw_def split: prod.split)

lemma health_raw_range:
  assumes "telemetry_ok n"
  shows "0 \<le> health_raw n" "health_raw n \<le> 1"
proof -
  let ?h = "ns_HealthHistory n" let ?k = "int (length ?h)"
  have k: "100 * ?k < 2 ^ 53" using assms by (simp add: telemetry_ok_def)
  then have d: "fmul 100 (f_of_int ?k) = of_int (100 * ?k)"
    using fl_of_int [of "100 * ?k"] by (simp add: fmul_def f_of_int_exact)
  have "fsum ?h \<le> of_int (100 * ?k)" using assms k by (intro fsum_le) (auto simp: telemetry_ok_def)
  then show "0 \<le> health_raw n" "health_raw n \<le> 1"
    unfolding health_raw_def d using assms
    by (auto simp: telemetry_ok_def intro!: fdiv_nonneg fdiv_le_1 fsum_nonneg)
qed

lemma success_raw_range:
  assumes "telemetry_ok n"
  shows "0 \<le> success_raw n" "success_raw n \<le> 1"
proof -
  let ?s = "ns_SuccessHistory n" let ?t = "map boolToFloat (filter id ?s)"
  have l: "length ?t \<le> length ?s" by simp
  have k: "int (length ?s) < 2 ^ 53" using assms by (simp add: telemetry_ok_def)
  have "1 * int (length ?t) < 2 ^ 53" using k l by linarith
  then have "fsum ?t \<le> of_int (1 * int (length ?t))" by (intro fsum_le) (auto simp: boolToFloat_def)
  also have "\<dots> \<le> of_int (int (length ?s))" using l by simp
  finally have "fsum ?t \<le> f_of_int (int (length ?s))" using k by (simp add: f_of_int_exact)
  moreover have "0 \<le> fsum ?t" by (rule fsum_nonneg) (auto simp: boolToFloat_def)
  ultimately show "0 \<le> success_raw n" "success_raw n \<le> 1"
    unfolding success_raw_def by (auto intro!: fdiv_nonneg fdiv_le_1 f_of_int_nonneg)
qed

lemma value_range: "0 \<le> x \<Longrightarrow> x \<le> 1 \<Longrightarrow> 0 \<le> w \<Longrightarrow> 0 \<le> fmul x w"
  "0 \<le> x \<Longrightarrow> x \<le> 1 \<Longrightarrow> 0 \<le> k \<Longrightarrow> k < 2 ^ 53 \<Longrightarrow> w \<le> of_int k \<Longrightarrow> 0 \<le> w \<Longrightarrow> fmul x w \<le> of_int k"
proof -
  show "0 \<le> x \<Longrightarrow> x \<le> 1 \<Longrightarrow> 0 \<le> w \<Longrightarrow> 0 \<le> fmul x w" by (simp add: fmul_def b64.rnd_nonneg)
  assume a: "0 \<le> x" "x \<le> 1" "0 \<le> k" "k < 2 ^ 53" "w \<le> of_int k" "0 \<le> w"
  have "x * w \<le> 1 * w" using a by (intro mult_right_mono)
  then have "x * w \<le> of_int k" using a by linarith
  then show "fmul x w \<le> of_int k" unfolding fmul_def using a(3,4) by (intro b64.rnd_le_int) auto
qed

lemma sumComponents_snoc: "sumComponents (xs @ [c]) = fadd (sumComponents xs) (sc_Value c)"
  by (simp add: sumComponents_def)

text \<open>Adding a component with a value between 0 and an integer weight.\<close>

lemma sum_snoc_range:
  assumes "0 \<le> sumComponents xs" "sumComponents xs \<le> of_int m" "0 \<le> m" "0 \<le> sc_Value c" "sc_Value c \<le> of_int k"
    "0 \<le> k" "m + k < 2 ^ 53"
  shows "0 \<le> sumComponents (xs @ [c])" "sumComponents (xs @ [c]) \<le> of_int (m + k)"
proof -
  show "0 \<le> sumComponents (xs @ [c])" using assms by (simp add: sumComponents_snoc fadd_def b64.rnd_nonneg)
  have "sumComponents xs + sc_Value c \<le> of_int (m + k)" using assms by simp
  then show "sumComponents (xs @ [c]) \<le> of_int (m + k)"
    unfolding sumComponents_snoc fadd_def using assms by (intro b64.rnd_le_int) auto
qed

lemma component_range:
  assumes "0 \<le> raw" "raw \<le> 1" "0 \<le> weight" "weight \<le> of_int k" "0 \<le> k" "k < 2 ^ 53"
  shows "0 \<le> sc_Value (component_of name raw weight ph)" "sc_Value (component_of name raw weight ph) \<le> of_int k"
  using value_range(1) [of raw weight] value_range(2) [of raw k weight] assms by (simp_all add: component_of_def)

lemma warm_raw_range: "0 \<le> warm_raw r n model" "warm_raw r n model \<le> 1"
  by (simp_all add: warm_raw_def)

text \<open>The score ceiling with and without the prefix term.\<close>

definition score_ceiling :: "router \<Rightarrow> int" where
  "score_ceiling r = (if r_prefixLocalityEnabled r then 115 else 100)"

text \<open>A component whose value lies between 0 and its weight, rounded up.\<close>

definition in_weight :: "score_component \<Rightarrow> bool" where
  "in_weight c \<longleftrightarrow> 0 \<le> sc_Value c \<and> sc_Value c \<le> of_int \<lceil>sc_Weight c\<rceil> \<and> 0 \<le> \<lceil>sc_Weight c\<rceil>"

lemma sum_range:
  assumes "\<forall>c \<in> set xs. in_weight c" "sum_list (map (\<lambda>c. \<lceil>sc_Weight c\<rceil>) xs) < 2 ^ 53"
  shows "0 \<le> sumComponents xs \<and> sumComponents xs \<le> of_int (sum_list (map (\<lambda>c. \<lceil>sc_Weight c\<rceil>) xs))
    \<and> 0 \<le> sum_list (map (\<lambda>c. \<lceil>sc_Weight c\<rceil>) xs)"
  using assms
proof (induction xs rule: rev_induct)
  case Nil
  then show ?case by (simp add: sumComponents_def)
next
  case (snoc c xs)
  let ?m = "sum_list (map (\<lambda>c. \<lceil>sc_Weight c\<rceil>) xs)"
  have c: "0 \<le> sc_Value c" "sc_Value c \<le> of_int \<lceil>sc_Weight c\<rceil>" "0 \<le> \<lceil>sc_Weight c\<rceil>"
    using snoc.prems(1) by (simp_all add: in_weight_def)
  have m2: "?m + \<lceil>sc_Weight c\<rceil> < 2 ^ 53" using snoc.prems(2) by simp
  then have "?m < 2 ^ 53" using c(3) by linarith
  then have ih: "0 \<le> sumComponents xs" "sumComponents xs \<le> of_int ?m" "0 \<le> ?m" using snoc by simp_all
  show ?case using sum_snoc_range [OF ih c m2] ih(3) c(3) by simp
qed

lemma component_in_weight:
  assumes "0 \<le> raw" "raw \<le> 1" "0 \<le> weight" "weight < 2 ^ 52"
  shows "in_weight (component_of name raw weight ph)"
proof -
  have "\<lceil>weight\<rceil> < 2 ^ 53" "0 \<le> \<lceil>weight\<rceil>" using assms by (simp_all add: ceiling_less_iff)
  then show ?thesis
    using component_range [OF assms(1-3) le_of_int_ceiling, of name ph] by (simp add: in_weight_def component_of_def)
qed

lemma base_range:
  assumes t: "telemetry_ok n" and f: "0 \<le> f" "f \<le> 1"
    and w: "0 \<le> r_prefixLocalityWeight r" "r_prefixLocalityWeight r < 15"
  shows "0 \<le> sumComponents (base_components r n model p f)"
    "sumComponents (base_components r n model p f) \<le> of_int (score_ceiling r)"
proof -
  let ?b = "base_components r n model p f"
  have "\<forall>c \<in> set ?b. in_weight c"
    using w f queue_raw_range [OF t] health_raw_range [OF t] success_raw_range [OF t] warm_raw_range [of r n model]
    by (auto simp: base_components_def intro!: component_in_weight)
  moreover have le: "sum_list (map (\<lambda>c. \<lceil>sc_Weight c\<rceil>) ?b) \<le> score_ceiling r"
    using w by (simp add: base_components_def component_of_def score_ceiling_def ceiling_le_iff)
  ultimately have "0 \<le> sumComponents ?b" "sumComponents ?b \<le> of_int (sum_list (map (\<lambda>c. \<lceil>sc_Weight c\<rceil>) ?b))"
    using sum_range [of ?b] by (simp_all add: score_ceiling_def split: if_splits)
  moreover have "(of_int (sum_list (map (\<lambda>c. \<lceil>sc_Weight c\<rceil>) ?b)) :: rat) \<le> of_int (score_ceiling r)"
    using le unfolding of_int_le_iff .
  ultimately show "0 \<le> sumComponents ?b" "sumComponents ?b \<le> of_int (score_ceiling r)" by simp_all
qed

definition node_score :: "gotime \<Rightarrow> router \<Rightarrow> string \<Rightarrow> string \<Rightarrow> node_state \<Rightarrow> float64" where
  "node_score now r model p n = fst (computeNodeScore now n model p r)"

definition unpenalised :: "gotime \<Rightarrow> router \<Rightarrow> string \<Rightarrow> string \<Rightarrow> node_state \<Rightarrow> float64" where
  "unpenalised now r model p n = sumComponents (base_components r n model p (fst (free_raw now n r)))"

lemma node_score_sum: "node_score now r model p n = sumComponents (fst (scoreComponents now n model p r))"
  by (simp add: node_score_def computeNodeScore_def split: prod.split)

lemma scoreComponents_fst:
  "fst (scoreComponents now n model p r) =
     base_components r n model p (fst (free_raw now n r)) @ penalty_components now r n (unpenalised now r model p n)"
  by (simp add: scoreComponents_def unpenalised_def Let_def split: prod.split)

text \<open>
  The node score is exact where it matters and bounded: the sum of the
  reported components, computed in binary64, is the sum of the positive
  factors with each triggered penalty (recent error, stale telemetry)
  subtracted exactly and floored at 0, and it lies between 0 and 100, or 115 when
  the prefix-locality term is enabled.
\<close>

lemma score_exact_and_bounded:
  assumes "telemetry_ok n" "0 \<le> r_prefixLocalityWeight r" "r_prefixLocalityWeight r < 15"
  shows "fst (computeNodeScore now n model p r) =
      penalty (staleTriggered now r n) (penalty (cooldownTriggered now n) (unpenalised now r model p n))
    \<and> 0 \<le> fst (computeNodeScore now n model p r)
    \<and> fst (computeNodeScore now n model p r) \<le> of_int (score_ceiling r)"
proof -
  note b = base_range [OF assms(1) free_raw_range [OF assms(1), of now r] assms(2,3), of model p]
  have u: "0 \<le> unpenalised now r model p n" "unpenalised now r model p n \<le> of_int (score_ceiling r)"
    using b by (simp_all add: unpenalised_def)
  have "(of_int (score_ceiling r) :: rat) < 2 ^ 53" by (simp add: score_ceiling_def)
  then have lt: "unpenalised now r model p n < 2 ^ 53" using u(2) by linarith
  have eq: "fst (computeNodeScore now n model p r) =
      penalty (staleTriggered now r n) (penalty (cooldownTriggered now n) (unpenalised now r model p n))"
    using penalties_sum [of "base_components r n model p (fst (free_raw now n r))" now r n] u(1) lt
    by (simp add: node_score_sum [unfolded node_score_def] scoreComponents_fst unpenalised_def)
  show ?thesis
    unfolding eq using penalty_range [of _ "staleTriggered now r n"] penalty_range [of _ "cooldownTriggered now n"] u
    by (meson order_trans)
qed

lemma demo_prefix [simp]: "r_prefixLocalityWeight (demo_router cfgs) = 0" "r_prefixLocalityEnabled (demo_router cfgs) = False"
  by (simp_all add: demo_router_def New_def Let_def demo_routing_def)

section \<open>Selection picks the best\<close>

text \<open>The part of the router that selection never changes: all but the reservations.\<close>

definition strip :: "router \<Rightarrow> router" where
  "strip r = r\<lparr> r_warmReserved := [] \<rparr>"

lemma strip_fields:
  assumes "strip r' = strip r"
  shows "r_modelDigests r' = r_modelDigests r" "r_prefixLocalityEnabled r' = r_prefixLocalityEnabled r"
    "r_prefixLocalityWeight r' = r_prefixLocalityWeight r" "r_interval r' = r_interval r"
    "r_healthFailureThreshold r' = r_healthFailureThreshold r" "r_nodes r' = r_nodes r"
    "r_affinity r' = r_affinity r" "r_pinned r' = r_pinned r"
  using arg_cong [OF assms, of r_modelDigests] arg_cong [OF assms, of r_prefixLocalityEnabled]
    arg_cong [OF assms, of r_prefixLocalityWeight] arg_cong [OF assms, of r_interval]
    arg_cong [OF assms, of r_healthFailureThreshold] arg_cong [OF assms, of r_nodes]
    arg_cong [OF assms, of r_affinity] arg_cong [OF assms, of r_pinned]
  by (simp_all add: strip_def)

lemma strip_set_reservations [simp]: "strip (set_reservations node xs r) = strip r"
  by (simp add: strip_def set_reservations_def)

lemma strip_clear [simp]: "strip (clearWarmReservation node model r) = strip r"
  by (simp add: clearWarmReservation_def split: option.split)

lemma strip_reserve [simp]: "strip (snd (reserveWarmBytesAs now node model b p r)) = strip r"
  by (simp add: reserveWarmBytesAs_def split: prod.split)

lemma strip_cold [simp]: "strip (reserveColdStartBytes ft now url node model r) = strip r"
  by (simp add: reserveColdStartBytes_def Let_def)

lemma strip_pending [simp]: "strip (snd (pendingPrewarmBytes now node q r)) = strip r"
  by (simp add: pendingPrewarmBytes_def Let_def split: option.split)

lemma free_raw_snd: "snd (free_raw now n r) = r \<or> snd (free_raw now n r) = snd (PendingPrewarmBytes now (ns_Name n) r)"
  by (simp add: free_raw_def split: prod.split)

lemma scoreComponents_snd: "snd (scoreComponents now n model p r) = snd (free_raw now n r)"
  by (simp add: scoreComponents_def Let_def split: prod.split)

lemma strip_score [simp]: "strip (snd (scoreComponents now n model p r)) = strip r"
  using free_raw_snd [of now n r] by (metis scoreComponents_snd PendingPrewarmBytes_def strip_pending)

lemma score_live [simp]:
  "live now (node_reservations (snd (scoreComponents now n model p r)) x) = live now (node_reservations r x)"
proof -
  have "node_reservations (snd (scoreComponents now n model p r)) x \<in>
      {node_reservations r x, node_reservations (snd (pendingPrewarmBytes now (ns_Name n) True r)) x}"
    using free_raw_snd [of now n r] by (metis insertCI scoreComponents_snd PendingPrewarmBytes_def)
  then show ?thesis by (auto simp: pendingPrewarmBytes_state)
qed

lemma digestMismatch_strip: assumes "strip r' = strip r" shows "digestMismatch r' = digestMismatch r"
  by (intro ext) (simp add: digestMismatch_def strip_fields(1) [OF assms])

lemma isModelWarm_strip: assumes "strip r' = strip r" shows "isModelWarm r' = isModelWarm r"
  by (intro ext) (simp add: isModelWarm_def digestMismatch_strip [OF assms])

lemma free_raw_frame:
  "live now (node_reservations r' (ns_Name n)) = live now (node_reservations r (ns_Name n)) \<Longrightarrow>
   fst (free_raw now n r') = fst (free_raw now n r)"
  using pendingPrewarmBytes_eq [of now "ns_Name n" r] pendingPrewarmBytes_eq [of now "ns_Name n" r']
  by (simp add: free_raw_def split: prod.split) auto

lemma scoreComponents_frame:
  assumes "strip r' = strip r" "live now (node_reservations r' (ns_Name n)) = live now (node_reservations r (ns_Name n))"
  shows "fst (scoreComponents now n model p r') = fst (scoreComponents now n model p r)"
  unfolding scoreComponents_fst unpenalised_def free_raw_frame [OF assms(2)]
  by (simp add: base_components_def penalty_components_def staleTriggered_def warm_raw_def
      digestMismatch_strip [OF assms(1)] strip_fields [OF assms(1)])

lemma clear_reservations:
  "node_reservations (clearWarmReservation node model r) x =
     (if x = node then gm_del model (node_reservations r node) else node_reservations r x)"
  by (auto simp: clearWarmReservation_def split: option.split) (auto simp: node_reservations_def gm_at_def)

lemma cold_reservations_other: "x \<noteq> node \<Longrightarrow> node_reservations (reserveColdStartBytes ft now url node model r) x = node_reservations r x"
  by (simp add: reserveColdStartBytes_def reserveWarmBytesAs_def Let_def split: prod.split)

lemma reserve_active: "hasActiveWarmReservation now node model (snd (reserveWarmBytesAs now node model b p r))"
  by (auto simp: reserveWarmBytesAs_def reserve_in_def hasActiveWarmReservation_def gm_get_put warmReservationTTL_def
      duration_defs Let_def split: prod.split)

lemma cold_active: "hasActiveWarmReservation now node model (reserveColdStartBytes ft now url node model r)"
  by (simp add: reserveColdStartBytes_def Let_def reserve_active)

text \<open>The comparison the loop implements, on the scores of the initial state.\<close>

definition rank :: "gotime \<Rightarrow> router \<Rightarrow> string \<Rightarrow> string \<Rightarrow> node_state \<Rightarrow> rat \<times> string" where
  "rank now r model p n = (- node_score now r model p n, ns_Name n)"

abbreviation better :: "gotime \<Rightarrow> router \<Rightarrow> string \<Rightarrow> string \<Rightarrow> node_state \<Rightarrow> node_state \<Rightarrow> bool" where
  "better now r model p x y \<equiv> rank now r model p x < rank now r model p y"

lemma better_iff:
  "better now r model p x y \<longleftrightarrow>
     node_score now r model p x > node_score now r model p y
     \<or> (node_score now r model p x = node_score now r model p y \<and> ns_Name x < ns_Name y)"
  by (auto simp: rank_def)

definition scored_node :: "gotime \<Rightarrow> router \<Rightarrow> string \<Rightarrow> string \<Rightarrow> node_state \<Rightarrow> scored" where
  "scored_node now r model p n = (n, node_score now r model p n, fst (scoreComponents now n model p r))"

definition cold :: "router \<Rightarrow> string \<Rightarrow> node_state \<Rightarrow> bool" where
  "cold r model n \<longleftrightarrow> model \<noteq> [] \<and> \<not> isModelWarm r n model"

text \<open>One iteration of the loop, in terms of the initial state \<open>r0\<close>.\<close>

lemma find_best_step:
  assumes "strip r = strip r0" "live now (node_reservations r (ns_Name n)) = live now (node_reservations r0 (ns_Name n))"
    and "best = map_option (scored_node now r0 model p) b"
  shows "find_best_loop ft now model p (n # ns) best rf r =
    (let r1 = snd (scoreComponents now n model p r);
         r2 = (case rf of None \<Rightarrow> r1 | Some old \<Rightarrow> clearWarmReservation (ns_Name old) model r1);
         best' = Some (scored_node now r0 model p n)
     in if (case b of None \<Rightarrow> False | Some y \<Rightarrow> \<not> better now r0 model p n y)
        then find_best_loop ft now model p ns best rf r1
        else if cold r0 model n
        then find_best_loop ft now model p ns best' (Some n) (reserveColdStartBytes ft now (ns_URL n) (ns_Name n) model r2)
        else find_best_loop ft now model p ns best' None r2)"
proof -
  let ?sc = "scoreComponents now n model p r"
  have comp: "fst ?sc = fst (scoreComponents now n model p r0)" using assms(1,2) by (rule scoreComponents_frame)
  obtain c r1 where sc: "?sc = (c, r1)" by (cases ?sc)
  have s1: "strip r1 = strip r0" using assms(1) strip_score [of now n model p r] sc by simp
  then have warm: "isModelWarm r1 = isModelWarm r0" "isModelWarm (clearWarmReservation a model r1) = isModelWarm r0" for a
    using isModelWarm_strip [of r1 r0] isModelWarm_strip [of "clearWarmReservation a model r1" r0] by simp_all
  have c: "c = fst (scoreComponents now n model p r0)" "sumComponents c = node_score now r0 model p n"
    using comp sc by (simp_all add: node_score_sum)
  have new: "(case best of None \<Rightarrow> True
      | Some (bestNode, bestScore, _) \<Rightarrow> node_score now r0 model p n > bestScore
          \<or> (node_score now r0 model p n = bestScore \<and> ns_Name n < ns_Name bestNode)) =
      (\<not> (case b of None \<Rightarrow> False | Some y \<Rightarrow> \<not> better now r0 model p n y))"
    by (cases b) (simp_all add: assms(3) scored_node_def better_iff)
  show ?thesis
    unfolding find_best_loop.simps sc prod.case Let_def c(2) snd_conv new not_not
    by (cases rf) (simp_all add: scored_node_def cold_def c(1) warm)
qed

lemma find_best_loop_spec:
  assumes "distinct (map ns_Name ns)" "strip r = strip r0"
    and "\<forall>n \<in> set ns. live now (node_reservations r (ns_Name n)) = live now (node_reservations r0 (ns_Name n))"
    and "best = map_option (scored_node now r0 model p) b"
    and "\<forall>m. rf = Some m \<longrightarrow> ns_Name m \<notin> ns_Name ` set ns"
  shows "fst (find_best_loop ft now model p ns best rf r) =
      map_option (scored_node now r0 model p) (pick_from (better now r0 model p) b ns)
    \<and> strip (snd (find_best_loop ft now model p ns best rf r)) = strip r0"
  using assms
proof (induction ns arbitrary: r best b rf)
  case Nil
  then show ?case by simp
next
  case (Cons n ns)
  let ?r1 = "snd (scoreComponents now n model p r)"
  let ?r2 = "case rf of None \<Rightarrow> ?r1 | Some old \<Rightarrow> clearWarmReservation (ns_Name old) model ?r1"
  let ?r3 = "reserveColdStartBytes ft now (ns_URL n) (ns_Name n) model ?r2"
  have dist: "distinct (map ns_Name ns)" and fresh: "ns_Name n \<notin> ns_Name ` set ns" using Cons.prems(1) by auto
  have ln: "live now (node_reservations r (ns_Name n)) = live now (node_reservations r0 (ns_Name n))" using Cons.prems(3) by simp
  note step = find_best_step [OF Cons.prems(2) ln Cons.prems(4), of ft ns rf, unfolded Let_def]
  have st: "strip ?r1 = strip r0" "strip ?r2 = strip r0" "strip ?r3 = strip r0"
    using Cons.prems(2) by (simp_all split: option.split)
  have lv: "live now (node_reservations ?r1 (ns_Name m)) = live now (node_reservations r0 (ns_Name m))"
    "live now (node_reservations ?r2 (ns_Name m)) = live now (node_reservations r0 (ns_Name m))"
    "live now (node_reservations ?r3 (ns_Name m)) = live now (node_reservations r0 (ns_Name m))" if "m \<in> set ns" for m
  proof -
    have ne: "ns_Name m \<noteq> ns_Name n" using fresh that by (metis imageI)
    have ne2: "ns_Name m \<noteq> ns_Name old" if "rf = Some old" for old
      using Cons.prems(5) that \<open>m \<in> set ns\<close> by (metis imageI list.set_intros(2))
    show 1: "live now (node_reservations ?r1 (ns_Name m)) = live now (node_reservations r0 (ns_Name m))"
      using Cons.prems(3) that by simp
    show 2: "live now (node_reservations ?r2 (ns_Name m)) = live now (node_reservations r0 (ns_Name m))"
      using 1 ne2 by (simp add: clear_reservations split: option.split)
    show "live now (node_reservations ?r3 (ns_Name m)) = live now (node_reservations r0 (ns_Name m))"
      using 2 ne by (simp add: cold_reservations_other)
  qed
  consider (keep) y where "b = Some y" "\<not> better now r0 model p n y"
    | (lead) "b = None \<or> (\<exists>y. b = Some y \<and> better now r0 model p n y)" by (cases b) auto
  then show ?case
  proof cases
    case keep
    have loop: "find_best_loop ft now model p (n # ns) best rf r = find_best_loop ft now model p ns best rf ?r1"
      unfolding step using keep by simp
    have pick: "pick_from (better now r0 model p) b (n # ns) = pick_from (better now r0 model p) b ns"
      using keep by simp
    show ?thesis
      unfolding loop pick using Cons.IH [OF dist st(1) _ Cons.prems(4), of rf] lv(1) Cons.prems(5) by simp
  next
    case lead
    let ?b = "Some (scored_node now r0 model p n)"
    have b': "?b = map_option (scored_node now r0 model p) (Some n)" by simp
    have loop: "find_best_loop ft now model p (n # ns) best rf r =
        (if cold r0 model n then find_best_loop ft now model p ns ?b (Some n) ?r3
         else find_best_loop ft now model p ns ?b None ?r2)"
      unfolding step using lead by auto
    have pick: "pick_from (better now r0 model p) b (n # ns) = pick_from (better now r0 model p) (Some n) ns"
      using lead by auto
    show ?thesis
      unfolding loop pick
      using Cons.IH [OF dist st(3) _ b', of "Some n"] Cons.IH [OF dist st(2) _ b', of None] lv fresh by simp
  qed
qed

text \<open>What the loop does to reservations.\<close>

lemma score_reservations_other:
  "x \<noteq> ns_Name n \<Longrightarrow> node_reservations (snd (scoreComponents now n model p r)) x = node_reservations r x"
  using free_raw_snd [of now n r] pendingPrewarmBytes_state [of now "ns_Name n" True r x]
  by (metis scoreComponents_snd PendingPrewarmBytes_def)

lemma find_best_untouched:
  "x \<notin> ns_Name ` set ns \<Longrightarrow> (\<forall>m. rf = Some m \<longrightarrow> ns_Name m \<noteq> x) \<Longrightarrow>
   node_reservations (snd (find_best_loop ft now model p ns best rf r)) x = node_reservations r x"
proof (induction ns arbitrary: best rf r)
  case Nil
  then show ?case by simp
next
  case (Cons n ns)
  obtain c r1 where sc: "scoreComponents now n model p r = (c, r1)" by (cases "scoreComponents now n model p r")
  have x: "x \<noteq> ns_Name n" "x \<notin> ns_Name ` set ns" using Cons.prems(1) by auto
  have r1: "node_reservations r1 x = node_reservations r x" using score_reservations_other [OF x(1), of now model p r] sc by simp
  have r2: "node_reservations (case rf of None \<Rightarrow> r1 | Some old \<Rightarrow> clearWarmReservation (ns_Name old) model r1) x = node_reservations r x"
    using r1 Cons.prems(2) by (auto simp: clear_reservations split: option.split)
  have r3: "node_reservations (reserveColdStartBytes ft now (ns_URL n) (ns_Name n) model
      (case rf of None \<Rightarrow> r1 | Some old \<Rightarrow> clearWarmReservation (ns_Name old) model r1)) x = node_reservations r x"
    using r2 x(1) by (simp add: cold_reservations_other)
  show ?case
    unfolding find_best_loop.simps sc prod.case Let_def
    using Cons.IH [OF x(2)] Cons.prems(2) x(1) r1 r2 r3 by simp
qed

lemma find_best_displaced:
  assumes "distinct (map ns_Name (a # ns))"
    and "find_best_loop ft now model p ns (Some (a, sa, ca)) (Some a) r = (Some (w, sw, cw), r')" "w \<noteq> a"
  shows "gm_get (node_reservations r' (ns_Name a)) model = None"
  using assms
proof (induction ns arbitrary: r)
  case Nil
  then show ?case by simp
next
  case (Cons n ns)
  obtain c r1 where sc: "scoreComponents now n model p r = (c, r1)" by (cases "scoreComponents now n model p r")
  have x: "ns_Name a \<noteq> ns_Name n" "ns_Name a \<notin> ns_Name ` set ns" using Cons.prems(1) by auto
  let ?r2 = "clearWarmReservation (ns_Name a) model r1"
  have cl: "gm_get (node_reservations ?r2 (ns_Name a)) model = None" by (simp add: clear_reservations gm_get_del)
  have cl3: "gm_get (node_reservations (reserveColdStartBytes ft now (ns_URL n) (ns_Name n) model ?r2) (ns_Name a)) model = None"
    using cl x(1) by (simp add: cold_reservations_other)
  show ?case
  proof (cases "sumComponents c > sa \<or> (sumComponents c = sa \<and> ns_Name n < ns_Name a)")
    case True
    then have "r' = snd (if cold ?r2 model n
        then find_best_loop ft now model p ns (Some (n, sumComponents c, c)) (Some n)
               (reserveColdStartBytes ft now (ns_URL n) (ns_Name n) model ?r2)
        else find_best_loop ft now model p ns (Some (n, sumComponents c, c)) None ?r2)"
      using Cons.prems(2) by (auto simp: sc Let_def cold_def)
    then show ?thesis using x cl cl3 by (simp add: find_best_untouched)
  next
    case False
    then have "find_best_loop ft now model p ns (Some (a, sa, ca)) (Some a) r1 = (Some (w, sw, cw), r')"
      using Cons.prems(2) by (auto simp: sc Let_def)
    then show ?thesis using Cons.IH Cons.prems(1,3) by auto
  qed
qed

definition holds_leader :: "gotime \<Rightarrow> router \<Rightarrow> string \<Rightarrow> node_state \<Rightarrow> node_state option \<Rightarrow> router \<Rightarrow> bool" where
  "holds_leader now r0 model b rf r \<longleftrightarrow>
     (cold r0 model b \<longrightarrow> rf = Some b \<and> hasActiveWarmReservation now (ns_Name b) model r) \<and> (\<not> cold r0 model b \<longrightarrow> rf = None)"

lemma find_best_holds:
  assumes "distinct (map ns_Name (b # ns))" "strip r = strip r0" "holds_leader now r0 model b rf r"
    and "find_best_loop ft now model p ns (Some (b, sb, cb)) rf r = (Some (w, sw, cw), r')"
  shows "cold r0 model w \<longrightarrow> hasActiveWarmReservation now (ns_Name w) model r'"
  using assms
proof (induction ns arbitrary: r b sb cb rf)
  case Nil
  then show ?case by (simp add: holds_leader_def)
next
  case (Cons n ns)
  obtain c r1 where sc: "scoreComponents now n model p r = (c, r1)" by (cases "scoreComponents now n model p r")
  have st1: "strip r1 = strip r0" using strip_score [of now n model p r] sc Cons.prems(2) by simp
  show ?case
  proof (cases "sumComponents c > sb \<or> (sumComponents c = sb \<and> ns_Name n < ns_Name b)")
    case True
    define r2 where "r2 = (case rf of None \<Rightarrow> r1 | Some old \<Rightarrow> clearWarmReservation (ns_Name old) model r1)"
    have st2: "strip r2 = strip r0" using st1 by (simp add: r2_def split: option.split)
    then have cold: "(model \<noteq> [] \<and> \<not> isModelWarm r2 n model) = cold r0 model n"
      by (simp add: cold_def isModelWarm_strip [of r2 r0])
    define r3 where "r3 = (if cold r0 model n then reserveColdStartBytes ft now (ns_URL n) (ns_Name n) model r2 else r2)"
    define rf3 where "rf3 = (if cold r0 model n then Some n else None)"
    have loop: "find_best_loop ft now model p ns (Some (n, sumComponents c, c)) rf3 r3 = (Some (w, sw, cw), r')"
      using Cons.prems(4) True
      unfolding find_best_loop.simps sc prod.case option.case Let_def r2_def [symmetric] cold r3_def rf3_def
      by (simp split: if_splits)
    have "holds_leader now r0 model n rf3 r3" by (simp add: holds_leader_def rf3_def r3_def cold_active)
    then show ?thesis using Cons.IH [OF _ _ _ loop] Cons.prems(1) st2 by (simp add: r3_def)
  next
    case False
    have loop: "find_best_loop ft now model p ns (Some (b, sb, cb)) rf r1 = (Some (w, sw, cw), r')"
      using Cons.prems(4) False by (auto simp: sc Let_def)
    have "node_reservations r1 (ns_Name b) = node_reservations r (ns_Name b)"
      using score_reservations_other [of "ns_Name b" n now model p r] sc Cons.prems(1) by simp
    then have "holds_leader now r0 model b rf r1" using Cons.prems(3) by (simp add: holds_leader_def hasActiveWarmReservation_def)
    then show ?thesis using Cons.IH [OF _ st1 _ loop] Cons.prems(1) by simp
  qed
qed

lemma find_best_first:
  "find_best_loop ft now model p (n # ns) None None r =
    find_best_loop ft now model p ns (Some (n, sumComponents (fst (scoreComponents now n model p r)), fst (scoreComponents now n model p r)))
      (if cold r model n then Some n else None)
      (if cold r model n then reserveColdStartBytes ft now (ns_URL n) (ns_Name n) model (snd (scoreComponents now n model p r))
       else snd (scoreComponents now n model p r))"
proof -
  obtain c r1 where sc: "scoreComponents now n model p r = (c, r1)" by (cases "scoreComponents now n model p r")
  then have "strip r1 = strip r" using strip_score [of now n model p r] by simp
  then have "isModelWarm r1 = isModelWarm r" by (rule isModelWarm_strip)
  then show ?thesis
    unfolding find_best_loop.simps sc prod.case fst_conv snd_conv option.case Let_def by (auto simp: cold_def)
qed

lemma findBestByScore_fst:
  assumes "distinct (map ns_Name nodes)"
  shows "fst (findBestByScore ft now nodes model p r) =
    map_option (\<lambda>n. (n, fst (scoreComponents now n model p r))) (pick_best (better now r model p) nodes)"
    "strip (snd (findBestByScore ft now nodes model p r)) = strip r"
proof -
  have "fst (find_best_loop ft now model p nodes None None r) =
      map_option (scored_node now r model p) (pick_best (better now r model p) nodes)
    \<and> strip (snd (find_best_loop ft now model p nodes None None r)) = strip r"
    using assms by (intro find_best_loop_spec) auto
  then show "fst (findBestByScore ft now nodes model p r) =
    map_option (\<lambda>n. (n, fst (scoreComponents now n model p r))) (pick_best (better now r model p) nodes)"
    "strip (snd (findBestByScore ft now nodes model p r)) = strip r"
    by (auto simp: findBestByScore_def scored_node_def option.map_comp comp_def split: prod.split)
qed

text \<open>
  C14. Node selection by score is an exact maximum: although it moves a provisional
  reservation from leader to leader while it reads scores, for candidates with
  distinct names it returns the candidate with the highest score before the call,
  ties broken by the smaller name, whatever the order of the slice, together with that
  candidate's score breakdown.  Nothing but reservations changes, and when the
  winner does not have the model loaded it holds an active reservation for it.
\<close>

theorem find_best_is_maximum:
  assumes "distinct (map ns_Name nodes)" "nodes \<noteq> []"
  shows "\<exists>w r'. findBestByScore ft now nodes model p r = (Some (w, fst (scoreComponents now w model p r)), r')
    \<and> w \<in> set nodes
    \<and> (\<forall>n \<in> set nodes. n \<noteq> w \<longrightarrow>
         node_score now r model p n < node_score now r model p w
         \<or> (node_score now r model p n = node_score now r model p w \<and> ns_Name w < ns_Name n))
    \<and> (model \<noteq> [] \<and> \<not> isModelWarm r w model \<longrightarrow> hasActiveWarmReservation now (ns_Name w) model r')
    \<and> r'\<lparr> r_warmReserved := r_warmReserved r \<rparr> = r"
proof -
  obtain w where w: "pick_best (better now r model p) nodes = Some w"
    using assms(2) by (cases "pick_best (better now r model p) nodes") auto
  define r' where "r' = snd (findBestByScore ft now nodes model p r)"
  note fb = findBestByScore_fst [OF assms(1), of ft now model p r]
  have eq: "findBestByScore ft now nodes model p r = (Some (w, fst (scoreComponents now w model p r)), r')"
    using fb(1) w by (simp add: r'_def prod_eq_iff)
  have "w \<in> set nodes" using w by (rule pick_best_mem)
  moreover have "node_score now r model p n < node_score now r model p w
         \<or> (node_score now r model p n = node_score now r model p w \<and> ns_Name w < ns_Name n)"
    if "n \<in> set nodes" "n \<noteq> w" for n
  proof -
    have "ns_Name n \<noteq> ns_Name w" using assms(1) that \<open>w \<in> set nodes\<close> by (metis distinct_map inj_onD)
    then show ?thesis using min_key.pick_best_max [OF w that(1)] by (auto simp: better_iff)
  qed
  moreover have "hasActiveWarmReservation now (ns_Name w) model r'" if "cold r model w"
  proof -
    obtain n ns where nodes: "nodes = n # ns" using assms(2) by (cases nodes) auto
    obtain sw cw where loop: "find_best_loop ft now model p nodes None None r = (Some (w, sw, cw), r')"
      using eq by (auto simp: findBestByScore_def split: prod.splits)
    show ?thesis
      using find_best_holds [OF _ _ _ loop [unfolded nodes find_best_first], of r] assms(1) that
      by (simp add: nodes holds_leader_def cold_active)
  qed
  moreover have "r'\<lparr> r_warmReserved := r_warmReserved r \<rparr> = r"
    using arg_cong [OF fb(2), of "\<lambda>x. x\<lparr> r_warmReserved := r_warmReserved r \<rparr>"] by (simp add: strip_def r'_def)
  ultimately show ?thesis using eq by (auto simp: cold_def)
qed

definition demo_pair :: "node_state list" where
  "demo_pair = [zero_node\<lparr> ns_Name := ''b'' \<rparr>, zero_node\<lparr> ns_Name := ''a'' \<rparr>]"

theorem find_best_is_maximum_witness:
  "\<exists>w r'. findBestByScore (\<lambda>_. None) 9 demo_pair ''m'' [] (demo_router []) =
     (Some (w, fst (scoreComponents 9 w ''m'' [] (demo_router []))), r') \<and> w \<in> set demo_pair"
proof -
  have "distinct (map ns_Name demo_pair)" "demo_pair \<noteq> []" by (simp_all add: demo_pair_def)
  from find_best_is_maximum [OF this, of "\<lambda>_. None" 9 "''m''" "[]" "demo_router []"] show ?thesis by blast
qed

text \<open>
  A candidate that leads for a while and is then displaced loses its
  reservation for the model, also one it held before the call: the loop overwrites
  the entry when the candidate leads and deletes it when another takes over.  Here the
  first candidate does not have the model loaded and does not win.
\<close>

lemma displaced_candidate_loses_reservation:
  assumes "distinct (map ns_Name (a # ns))" "model \<noteq> []" "\<not> isModelWarm r a model"
    and "findBestByScore ft now (a # ns) model p r = (Some (w, comps), r')" "w \<noteq> a"
  shows "\<not> hasActiveWarmReservation t (ns_Name a) model r'"
proof -
  obtain sw cw where "find_best_loop ft now model p (a # ns) None None r = (Some (w, sw, cw), r')"
    using assms(4) by (auto simp: findBestByScore_def split: prod.splits)
  moreover have "cold r model a" using assms(2,3) by (simp add: cold_def)
  ultimately have "gm_get (node_reservations r' (ns_Name a)) model = None"
    using find_best_displaced [OF assms(1) _ assms(5)] unfolding find_best_first by simp
  then show ?thesis by (simp add: hasActiveWarmReservation_def)
qed

definition demo_reserved :: router where
  "demo_reserved = snd (reserveWarmBytes 5 ''b'' ''m'' 7 (demo_router []))"

lemma demo_reserved_strip: "strip demo_reserved = strip (demo_router [])"
  by (simp add: demo_reserved_def reserveWarmBytes_def)

lemma zero_node_score: "node_score now demo_reserved ''m'' [] (zero_node\<lparr> ns_Name := x \<rparr>) = node_score now demo_reserved ''m'' [] zero_node"
  by (simp add: node_score_sum scoreComponents_fst unpenalised_def base_components_def penalty_components_def
      free_raw_def warm_raw_def queue_raw_def health_raw_def success_raw_def cooldownTriggered_def staleTriggered_def
      effectiveLoad_def zero_node_def strip_fields [OF demo_reserved_strip])

lemma demo_pair_pick: "pick_best (better now demo_reserved ''m'' []) demo_pair = Some (zero_node\<lparr> ns_Name := ''a'' \<rparr>)"
  by (simp add: demo_pair_def rank_def zero_node_score)

text \<open>The winner among a set of candidates: highest score, ties by name.\<close>

definition best_among :: "gotime \<Rightarrow> router \<Rightarrow> string \<Rightarrow> string \<Rightarrow> node_state set \<Rightarrow> node_state \<Rightarrow> bool" where
  "best_among now r model p cs w \<longleftrightarrow> w \<in> cs \<and> (\<forall>n \<in> cs. n \<noteq> w \<longrightarrow> better now r model p w n)"

lemma findBestByScore_best:
  assumes "distinct (map ns_Name nodes)" "nodes \<noteq> []"
  obtains w where "fst (findBestByScore ft now nodes model p r) = Some (w, fst (scoreComponents now w model p r))"
    "best_among now r model p (set nodes) w"
proof -
  obtain w where w: "pick_best (better now r model p) nodes = Some w"
    using assms(2) by (cases "pick_best (better now r model p) nodes") auto
  have mem: "w \<in> set nodes" using w by (rule pick_best_mem)
  have "better now r model p w n" if "n \<in> set nodes" "n \<noteq> w" for n
  proof -
    have "ns_Name n \<noteq> ns_Name w" using assms(1) that mem by (metis distinct_map inj_onD)
    then show ?thesis using min_key.pick_best_max [OF w that(1)] by (auto simp: better_iff)
  qed
  then show thesis using that findBestByScore_fst(1) [OF assms(1)] w mem by (simp add: best_among_def)
qed

definition pinned_warm :: "router \<Rightarrow> string \<Rightarrow> node_state list \<Rightarrow> node_state set" where
  "pinned_warm r model nodes = {n \<in> set nodes. isPinned r (ns_Name n) model \<and> isModelWarm r n model}"

lemma selectBestNode_spec:
  assumes "distinct (map ns_Name candidates)" "candidates \<noteq> []"
  obtains w d where "fst (selectBestNode ft now candidates model p r) = (Some w, isModelWarm r w model, Some d)"
    "rd_Node d = ns_Name w" "rd_lastResort d = False" "rd_NoRoute d = None"
    "pinned_warm r model candidates \<noteq> {} \<longrightarrow> rd_Reason d = ReasonPinnedWarm \<and> best_among now r model p (pinned_warm r model candidates) w"
    "pinned_warm r model candidates = {} \<longrightarrow> rd_Reason d = ReasonScoreBased \<and> best_among now r model p (set candidates) w
       \<and> rd_Score d = node_score now r model p w"
    "strip (snd (selectBestNode ft now candidates model p r)) = strip r"
proof -
  define pw where "pw = (if model = [] then []
    else filter (\<lambda>n. isPinned r (ns_Name n) model \<and> isModelWarm r n model) candidates)"
  have set_pw: "set pw = pinned_warm r model candidates"
    by (auto simp: pw_def pinned_warm_def isModelWarm_def)
  have d: "distinct (map ns_Name pw)" using assms(1) by (simp add: pw_def distinct_map_filter)
  define cs where "cs = (if pw \<noteq> [] then pw else candidates)"
  have cs: "distinct (map ns_Name cs)" "cs \<noteq> []" using d assms by (simp_all add: cs_def)
  obtain w where w: "fst (findBestByScore ft now cs model p r) = Some (w, fst (scoreComponents now w model p r))"
    "best_among now r model p (set cs) w" using findBestByScore_best [OF cs] .
  define r' where "r' = snd (findBestByScore ft now cs model p r)"
  have st: "strip r' = strip r" unfolding r'_def using cs(1) by (rule findBestByScore_fst(2))
  have fb: "findBestByScore ft now cs model p r = (Some (w, fst (scoreComponents now w model p r)), r')"
    using w(1) by (simp add: r'_def prod_eq_iff)
  have warm: "isModelWarm r' = isModelWarm r" using st by (rule isModelWarm_strip)
  have pww: "isModelWarm r w model" if "pw \<noteq> []"
    using w(2) that set_pw by (simp add: best_among_def cs_def pinned_warm_def)
  show thesis
  proof (cases "pw = []")
    case True
    define d where "d = (new_decision ReasonScoreBased)\<lparr> rd_Node := ns_Name w,
          rd_Detail := ''score_based on node '' @ ns_Name w, rd_Score := node_score now r model p w,
          rd_Components := fst (scoreComponents now w model p r) \<rparr>"
    have sel: "selectBestNode ft now candidates model p r = ((Some w, isModelWarm r w model, Some d), r')"
      using fb assms(2) True unfolding selectBestNode_def pw_def [symmetric] Let_def d_def
      by (simp add: cs_def warm node_score_sum)
    show ?thesis
    proof (rule that)
      show "fst (selectBestNode ft now candidates model p r) = (Some w, isModelWarm r w model, Some d)" by (simp add: sel)
    qed (use w(2) True set_pw in \<open>simp_all add: sel st d_def cs_def\<close>)
  next
    case False
    define d where "d = (new_decision ReasonPinnedWarm)\<lparr> rd_Node := ns_Name w,
          rd_Detail := ''pinned+warm on node '' @ ns_Name w \<rparr>"
    have sel: "selectBestNode ft now candidates model p r = ((Some w, isModelWarm r w model, Some d), r')"
      using fb assms(2) False pww unfolding selectBestNode_def pw_def [symmetric] Let_def d_def by (simp add: cs_def)
    show ?thesis
    proof (rule that)
      show "fst (selectBestNode ft now candidates model p r) = (Some w, isModelWarm r w model, Some d)" by (simp add: sel)
    qed (use w(2) False set_pw in \<open>auto simp: sel st d_def cs_def\<close>)
  qed
qed

end
