(* ===== verification/Placement.thy ===== *)
theory Placement
  imports Scoring
begin

text \<open>
  The hard filter in front of scoring and the routing entry points without session
  affinity (\<^verbatim>\<open>internal/router/placement.go\<close>, \<^verbatim>\<open>filterCandidatesWithFallback\<close> to
  \<^verbatim>\<open>RouteExcludingWithPrefix\<close>): which nodes a request may go to, the reason every
  other node is refused, the last-resort heads, and how a request with no node is
  classified.  Log lines are left out.
\<close>

section \<open>The filter\<close>

record candidate_filter =
  cf_healthy :: "node_state list"
  cf_excluded :: "excluded_candidate list"
  cf_excludedTotal :: int
  cf_lastResort :: "node_state list"
  cf_down :: "(string, node_state) gomap"
  cf_nodesSeen :: int
  cf_nUnavailable :: int
  cf_nOverCap :: int
  cf_nStatic :: int
  cf_nUnknown :: int

definition empty_filter :: "(string, node_state) gomap \<Rightarrow> candidate_filter" where
  "empty_filter down = \<lparr> cf_healthy = [], cf_excluded = [], cf_excludedTotal = 0, cf_lastResort = [],
     cf_down = down, cf_nodesSeen = 0, cf_nUnavailable = 0, cf_nOverCap = 0, cf_nStatic = 0, cf_nUnknown = 0 \<rparr>"

text \<open>The first check a node fails, in the order of the code.\<close>

definition exclusion_reason ::
  "router \<Rightarrow> roles \<Rightarrow> (string, node_state) gomap \<Rightarrow> string \<Rightarrow> string \<Rightarrow> node_state \<Rightarrow> exclude_reason option" where
  "exclusion_reason r roles down modelName runtimeFilter n =
     (if runtimeFilter \<noteq> [] \<and> ns_Runtime n \<noteq> runtimeFilter then Some ExcludeReasonRuntimeMismatch
      else if \<not> ns_Healthy n then Some ExcludeReasonUnhealthy
      else if ns_Draining n then Some ExcludeReasonDraining
      else if \<not> isEligibleForModel r n modelName then Some ExcludeReasonIneligibleModel
      else if \<not> isUnderCapacity r n then Some ExcludeReasonOverCapacity
      else if \<not> isGPUGroupSufficient n then Some ExcludeReasonInsufficientGPUGroup
      else if role_of roles (ns_Name n) = RoleWorker then Some ExcludeReasonReplicaWorker
      else if role_of roles (ns_Name n) = RoleUnresolved then Some ExcludeReasonReplicaUnresolved
      else if role_of roles (ns_Name n) = RoleHead \<and> gm_get down (ns_Name n) \<noteq> None
        then Some ExcludeReasonReplicaMemberUnreachable
      else None)"

text \<open>
  The classification counters.  \<^verbatim>\<open>neverPolled\<close> is only set once the runtime
  filter has passed, which every ineligible node has.
\<close>

definition count_reason :: "exclude_reason \<Rightarrow> bool \<Rightarrow> candidate_filter \<Rightarrow> candidate_filter" where
  "count_reason reason neverPolled f =
     (case reason of
        ExcludeReasonUnhealthy \<Rightarrow> f\<lparr> cf_nUnavailable := cf_nUnavailable f + 1 \<rparr>
      | ExcludeReasonDraining \<Rightarrow> f\<lparr> cf_nUnavailable := cf_nUnavailable f + 1 \<rparr>
      | ExcludeReasonReplicaMemberUnreachable \<Rightarrow> f\<lparr> cf_nUnavailable := cf_nUnavailable f + 1 \<rparr>
      | ExcludeReasonOverCapacity \<Rightarrow> f\<lparr> cf_nOverCap := cf_nOverCap f + 1 \<rparr>
      | ExcludeReasonIneligibleModel \<Rightarrow>
          if neverPolled then f\<lparr> cf_nUnknown := cf_nUnknown f + 1 \<rparr> else f\<lparr> cf_nStatic := cf_nStatic f + 1 \<rparr>
      | _ \<Rightarrow> f\<lparr> cf_nStatic := cf_nStatic f + 1 \<rparr>)"

text \<open>The loop; \<open>listedOther\<close> counts the listed exclusions that are not last-resort heads.\<close>

fun filter_loop ::
  "router \<Rightarrow> roles \<Rightarrow> string \<Rightarrow> string \<Rightarrow> (string, bool) gomap \<Rightarrow> node_state list \<Rightarrow> nat
     \<Rightarrow> candidate_filter \<Rightarrow> candidate_filter" where
  "filter_loop r roles modelName runtimeFilter exclude [] listedOther f = f"
| "filter_loop r roles modelName runtimeFilter exclude (n # ns) listedOther f =
     (if gm_at False exclude (ns_URL n) then filter_loop r roles modelName runtimeFilter exclude ns listedOther f
      else
        let f1 = f\<lparr> cf_nodesSeen := cf_nodesSeen f + 1 \<rparr> in
        case exclusion_reason r roles (cf_down f) modelName runtimeFilter n of
          None \<Rightarrow> filter_loop r roles modelName runtimeFilter exclude ns listedOther
                    (f1\<lparr> cf_healthy := cf_healthy f1 @ [n] \<rparr>)
        | Some reason \<Rightarrow>
            let f2 = count_reason reason (time_is_zero (ns_LastPollAt n))
                       (f1\<lparr> cf_excludedTotal := cf_excludedTotal f1 + 1 \<rparr>);
                entry = \<lparr> ec_Node = ns_Name n, ec_Reason = reason \<rparr>
            in if reason = ExcludeReasonReplicaMemberUnreachable then
                 filter_loop r roles modelName runtimeFilter exclude ns listedOther
                   (f2\<lparr> cf_lastResort := cf_lastResort f2 @ [n], cf_excluded := cf_excluded f2 @ [entry] \<rparr>)
               else if listedOther < maxExcludedCandidates then
                 filter_loop r roles modelName runtimeFilter exclude ns (Suc listedOther)
                   (f2\<lparr> cf_excluded := cf_excluded f2 @ [entry] \<rparr>)
               else filter_loop r roles modelName runtimeFilter exclude ns listedOther f2)"

definition filterCandidatesWithFallback ::
  "router \<Rightarrow> node_state list \<Rightarrow> string \<Rightarrow> string \<Rightarrow> (string, bool) gomap \<Rightarrow> candidate_filter" where
  "filterCandidatesWithFallback r nodes modelName runtimeFilter exclude =
     (case scheduling_roles nodes of (roles, heads) \<Rightarrow>
        filter_loop r roles modelName runtimeFilter exclude nodes 0
          (empty_filter (unreachableReplicaHeads nodes roles heads)))"

definition classifyNoRoute :: "candidate_filter \<Rightarrow> no_route" where
  "classifyNoRoute f =
     (if cf_nOverCap f > 0 then NoRouteAtCapacityHealthy
      else if cf_nUnknown f > 0 then NoRouteUnknownState
      else if cf_nUnavailable f > 0 then NoRouteAllNodesUnavailable
      else if cf_nStatic f > 0 \<or> cf_nodesSeen f = 0 then NoRouteNoNodeServesModel
      else NoRouteUnknownState)"

section \<open>Routing\<close>

definition lastResortDetail :: string where
  "lastResortDetail = '' (last resort: no other node was available or under capacity, and a replica member's host agent is not answering)''"

definition finishLastResort :: "node_state option \<Rightarrow> routing_decision option \<Rightarrow> routing_decision option" where
  "finishLastResort node decision =
     (case node of
        None \<Rightarrow> (case decision of None \<Rightarrow> Some (new_decision ReasonNoCandidate) | Some d \<Rightarrow> Some d)
      | Some n \<Rightarrow> map_option (\<lambda>d. d\<lparr> rd_Detail := rd_Detail d @ lastResortDetail, rd_lastResort := True \<rparr>) decision)"

definition applyExclusionExplainability ::
  "excluded_candidate list \<Rightarrow> int \<Rightarrow> routing_decision option \<Rightarrow> routing_decision option" where
  "applyExclusionExplainability excluded excludedTotal decision =
     map_option (\<lambda>d. let d' = d\<lparr> rd_Excluded := excluded \<rparr> in
        if excludedTotal > int (length excluded) then d'\<lparr> rd_ExcludedTotal := excludedTotal \<rparr> else d') decision"

definition filterAndSelect ::
  "(string \<Rightarrow> tag_model list option) \<Rightarrow> gotime \<Rightarrow> node_state list \<Rightarrow> string \<Rightarrow> string \<Rightarrow> string
     \<Rightarrow> (string, bool) gomap \<Rightarrow> router \<Rightarrow> route_result \<times> router" where
  "filterAndSelect fetch_tags now nodes modelName runtimeFilter preferredNode exclude r =
     (let f = filterCandidatesWithFallback r nodes modelName runtimeFilter exclude;
          useLastResort = (cf_healthy f = [] \<and> cf_lastResort f \<noteq> []);
          candidates = (if useLastResort then cf_lastResort f else cf_healthy f)
      in case selectBestNode fetch_tags now candidates modelName preferredNode r of
           ((node, warm, decision), r') \<Rightarrow>
             let d1 = (if useLastResort then finishLastResort node decision else decision);
                 d2 = applyExclusionExplainability (cf_excluded f) (cf_excludedTotal f) d1;
                 d3 = (case (node, d2) of
                         (None, Some d) \<Rightarrow>
                           if rd_Reason d = ReasonNoCandidate then Some (d\<lparr> rd_NoRoute := Some (classifyNoRoute f) \<rparr>)
                           else Some d
                       | _ \<Rightarrow> d2)
             in ((node, warm, d3), r'))"

definition routeInternal ::
  "(string \<Rightarrow> tag_model list option) \<Rightarrow> gotime \<Rightarrow> string \<Rightarrow> string \<Rightarrow> string \<Rightarrow> router \<Rightarrow> route_result \<times> router" where
  "routeInternal fetch_tags now modelName runtimeFilter preferredNode r =
     filterAndSelect fetch_tags now (r_nodes r) modelName runtimeFilter preferredNode [] r"

definition RouteExcludingWithPrefix ::
  "(string \<Rightarrow> tag_model list option) \<Rightarrow> gotime \<Rightarrow> string \<Rightarrow> string \<Rightarrow> (string, bool) gomap \<Rightarrow> string \<Rightarrow> router
     \<Rightarrow> route_result \<times> router" where
  "RouteExcludingWithPrefix fetch_tags now modelName runtimeFilter exclude preferredNode r =
     filterAndSelect fetch_tags now (r_nodes r) modelName runtimeFilter preferredNode exclude r"

definition RouteExcluding ::
  "(string \<Rightarrow> tag_model list option) \<Rightarrow> gotime \<Rightarrow> string \<Rightarrow> string \<Rightarrow> (string, bool) gomap \<Rightarrow> router
     \<Rightarrow> route_result \<times> router" where
  "RouteExcluding fetch_tags now modelName runtimeFilter exclude r =
     RouteExcludingWithPrefix fetch_tags now modelName runtimeFilter exclude [] r"

section \<open>What the filter computes\<close>

text \<open>The reason for a node of a fleet, with the fleet's roles resolved.\<close>

definition reason_in :: "router \<Rightarrow> node_state list \<Rightarrow> string \<Rightarrow> string \<Rightarrow> node_state \<Rightarrow> exclude_reason option" where
  "reason_in r nodes modelName runtimeFilter n =
     (case scheduling_roles nodes of (roles, heads) \<Rightarrow>
        exclusion_reason r roles (unreachableReplicaHeads nodes roles heads) modelName runtimeFilter n)"

definition seen :: "(string, bool) gomap \<Rightarrow> node_state list \<Rightarrow> node_state list" where
  "seen exclude nodes = filter (\<lambda>n. \<not> gm_at False exclude (ns_URL n)) nodes"

definition count_of :: "(node_state \<Rightarrow> bool) \<Rightarrow> node_state list \<Rightarrow> int" where
  "count_of p ns = int (length (filter p ns))"

definition unavailable_reason :: "exclude_reason option \<Rightarrow> bool" where
  "unavailable_reason x \<longleftrightarrow>
     x \<in> {Some ExcludeReasonUnhealthy, Some ExcludeReasonDraining, Some ExcludeReasonReplicaMemberUnreachable}"

definition unknown_reason :: "exclude_reason option \<Rightarrow> node_state \<Rightarrow> bool" where
  "unknown_reason x n \<longleftrightarrow> x = Some ExcludeReasonIneligibleModel \<and> time_is_zero (ns_LastPollAt n)"

definition static_reason :: "exclude_reason option \<Rightarrow> node_state \<Rightarrow> bool" where
  "static_reason x n \<longleftrightarrow>
     x \<noteq> None \<and> \<not> unavailable_reason x \<and> \<not> unknown_reason x n \<and> x \<noteq> Some ExcludeReasonOverCapacity"

text \<open>The filter in one view: what the loop has added, for a reason function \<open>why\<close>.\<close>

definition filter_spec ::
  "(node_state \<Rightarrow> exclude_reason option) \<Rightarrow> node_state list \<Rightarrow> candidate_filter \<Rightarrow> candidate_filter \<Rightarrow> bool" where
  "filter_spec why ns f f' \<longleftrightarrow>
     cf_healthy f' = cf_healthy f @ filter (\<lambda>n. why n = None) ns
     \<and> cf_lastResort f' = cf_lastResort f @ filter (\<lambda>n. why n = Some ExcludeReasonReplicaMemberUnreachable) ns
     \<and> cf_excludedTotal f' = cf_excludedTotal f + count_of (\<lambda>n. why n \<noteq> None) ns
     \<and> cf_nodesSeen f' = cf_nodesSeen f + int (length ns)
     \<and> cf_nUnavailable f' = cf_nUnavailable f + count_of (\<lambda>n. unavailable_reason (why n)) ns
     \<and> cf_nOverCap f' = cf_nOverCap f + count_of (\<lambda>n. why n = Some ExcludeReasonOverCapacity) ns
     \<and> cf_nStatic f' = cf_nStatic f + count_of (\<lambda>n. static_reason (why n) n) ns
     \<and> cf_nUnknown f' = cf_nUnknown f + count_of (\<lambda>n. unknown_reason (why n) n) ns
     \<and> cf_down f' = cf_down f"

lemma count_reason_frame [simp]:
  "cf_healthy (count_reason x b f) = cf_healthy f" "cf_lastResort (count_reason x b f) = cf_lastResort f"
  "cf_excluded (count_reason x b f) = cf_excluded f" "cf_excludedTotal (count_reason x b f) = cf_excludedTotal f"
  "cf_nodesSeen (count_reason x b f) = cf_nodesSeen f" "cf_down (count_reason x b f) = cf_down f"
  by (simp_all add: count_reason_def split: exclude_reason.split)

lemma count_reason_counts:
  "cf_nUnavailable (count_reason x b f) = cf_nUnavailable f + (if unavailable_reason (Some x) then 1 else 0)"
  "cf_nOverCap (count_reason x b f) = cf_nOverCap f + (if x = ExcludeReasonOverCapacity then 1 else 0)"
  "cf_nUnknown (count_reason x b f) = cf_nUnknown f + (if x = ExcludeReasonIneligibleModel \<and> b then 1 else 0)"
  "cf_nStatic (count_reason x b f) = cf_nStatic f +
     (if unavailable_reason (Some x) \<or> x = ExcludeReasonOverCapacity \<or> (x = ExcludeReasonIneligibleModel \<and> b) then 0 else 1)"
  by (simp_all add: count_reason_def unavailable_reason_def split: exclude_reason.split)

lemma count_of_Cons: "count_of p (n # ns) = (if p n then 1 else 0) + count_of p ns"
  by (simp add: count_of_def)

lemma count_of_pos: "count_of p ns > 0 \<longleftrightarrow> (\<exists>n \<in> set ns. p n)"
  by (auto simp: count_of_def filter_empty_conv)

text \<open>The filter record after one more node that is not skipped.\<close>

definition filter_step :: "(node_state \<Rightarrow> exclude_reason option) \<Rightarrow> nat \<Rightarrow> node_state \<Rightarrow> candidate_filter \<Rightarrow> candidate_filter \<times> nat" where
  "filter_step why listed n f =
     (let f1 = f\<lparr> cf_nodesSeen := cf_nodesSeen f + 1 \<rparr> in
      case why n of
        None \<Rightarrow> (f1\<lparr> cf_healthy := cf_healthy f1 @ [n] \<rparr>, listed)
      | Some reason \<Rightarrow>
          let f2 = count_reason reason (time_is_zero (ns_LastPollAt n)) (f1\<lparr> cf_excludedTotal := cf_excludedTotal f1 + 1 \<rparr>);
              entry = \<lparr> ec_Node = ns_Name n, ec_Reason = reason \<rparr>
          in if reason = ExcludeReasonReplicaMemberUnreachable then
               (f2\<lparr> cf_lastResort := cf_lastResort f2 @ [n], cf_excluded := cf_excluded f2 @ [entry] \<rparr>, listed)
             else if listed < maxExcludedCandidates then (f2\<lparr> cf_excluded := cf_excluded f2 @ [entry] \<rparr>, Suc listed)
             else (f2, listed))"

lemma filter_loop_step:
  "filter_loop r roles m rt ex (n # ns) listed f =
     (if gm_at False ex (ns_URL n) then filter_loop r roles m rt ex ns listed f
      else case filter_step (exclusion_reason r roles (cf_down f) m rt) listed n f of
        (f', listed') \<Rightarrow> filter_loop r roles m rt ex ns listed' f')"
  by (simp add: filter_step_def Let_def split: option.split)

lemma filter_step_spec:
  assumes "filter_step why listed n f = (f', listed')"
  shows "filter_spec why [n] f f'"
proof (cases "why n")
  case None
  then show ?thesis
    using assms by (auto simp: filter_step_def filter_spec_def count_of_def unavailable_reason_def static_reason_def
        unknown_reason_def)
next
  case (Some reason)
  have h: "cf_healthy f' = cf_healthy f" "cf_excludedTotal f' = cf_excludedTotal f + 1"
    "cf_nodesSeen f' = cf_nodesSeen f + 1" "cf_down f' = cf_down f"
    "cf_lastResort f' = cf_lastResort f @ (if reason = ExcludeReasonReplicaMemberUnreachable then [n] else [])"
    using assms by (auto simp: filter_step_def Some Let_def split: if_splits)
  have c: "cf_nUnavailable f' = cf_nUnavailable f + (if unavailable_reason (Some reason) then 1 else 0)"
    "cf_nOverCap f' = cf_nOverCap f + (if reason = ExcludeReasonOverCapacity then 1 else 0)"
    "cf_nUnknown f' = cf_nUnknown f + (if unknown_reason (Some reason) n then 1 else 0)"
    "cf_nStatic f' = cf_nStatic f + (if static_reason (Some reason) n then 1 else 0)"
    using assms
    by (auto simp: filter_step_def Some Let_def count_reason_counts unknown_reason_def static_reason_def split: if_splits)
  show ?thesis using h c by (simp add: filter_spec_def Some count_of_def)
qed

lemma filter_spec_Cons:
  "filter_spec why [n] f f' \<Longrightarrow> filter_spec why ns f' f'' \<Longrightarrow> filter_spec why (n # ns) f f''"
  by (auto simp: filter_spec_def count_of_Cons count_of_def)

lemma filter_loop_spec:
  "filter_spec (exclusion_reason r roles (cf_down f) m rt) (seen ex ns) f (filter_loop r roles m rt ex ns listed f)"
proof (induction ns arbitrary: f listed)
  case Nil
  then show ?case by (simp add: filter_spec_def seen_def count_of_def)
next
  case (Cons n ns)
  show ?case
  proof (cases "gm_at False ex (ns_URL n)")
    case True
    then show ?thesis using Cons.IH by (simp add: seen_def)
  next
    case False
    obtain f' l' where st: "filter_step (exclusion_reason r roles (cf_down f) m rt) listed n f = (f', l')"
      by (cases "filter_step (exclusion_reason r roles (cf_down f) m rt) listed n f")
    note sp = filter_step_spec [OF st]
    have "cf_down f' = cf_down f" using sp by (simp add: filter_spec_def)
    then show ?thesis
      using filter_spec_Cons [OF sp Cons.IH [of f' l', unfolded \<open>cf_down f' = cf_down f\<close>]] False st
      unfolding filter_loop_step by (simp add: seen_def)
  qed
qed

lemma filterCandidates_spec:
  "filter_spec (reason_in r nodes m rt) (seen ex nodes) (empty_filter (cf_down (filterCandidatesWithFallback r nodes m rt ex)))
     (filterCandidatesWithFallback r nodes m rt ex)"
proof -
  obtain roles heads where rh: "scheduling_roles nodes = (roles, heads)" by (cases "scheduling_roles nodes")
  have why: "reason_in r nodes m rt = exclusion_reason r roles (unreachableReplicaHeads nodes roles heads) m rt"
    by (rule ext) (simp add: reason_in_def rh)
  have sp: "filter_spec (exclusion_reason r roles (unreachableReplicaHeads nodes roles heads) m rt) (seen ex nodes)
      (empty_filter (unreachableReplicaHeads nodes roles heads))
      (filter_loop r roles m rt ex nodes 0 (empty_filter (unreachableReplicaHeads nodes roles heads)))"
    using filter_loop_spec [of r roles "empty_filter (unreachableReplicaHeads nodes roles heads)" m rt ex nodes 0]
    by (simp add: empty_filter_def)
  then have "cf_down (filter_loop r roles m rt ex nodes 0 (empty_filter (unreachableReplicaHeads nodes roles heads))) =
      unreachableReplicaHeads nodes roles heads" by (simp add: filter_spec_def empty_filter_def)
  then show ?thesis using sp by (simp add: filterCandidatesWithFallback_def rh why)
qed

text \<open>The listed exclusions: all last-resort heads and the first few others.\<close>

fun listing :: "(node_state \<Rightarrow> exclude_reason option) \<Rightarrow> nat \<Rightarrow> node_state list \<Rightarrow> excluded_candidate list" where
  "listing why k [] = []"
| "listing why k (n # ns) =
     (case why n of
        None \<Rightarrow> listing why k ns
      | Some x \<Rightarrow>
          if x = ExcludeReasonReplicaMemberUnreachable then \<lparr> ec_Node = ns_Name n, ec_Reason = x \<rparr> # listing why k ns
          else if k = 0 then listing why 0 ns
          else \<lparr> ec_Node = ns_Name n, ec_Reason = x \<rparr> # listing why (k - 1) ns)"

lemma filter_step_excluded:
  assumes "filter_step why listed n f = (f', listed')" "listed \<le> maxExcludedCandidates"
  shows "cf_excluded f' @ listing why (maxExcludedCandidates - listed') ns =
      cf_excluded f @ listing why (maxExcludedCandidates - listed) (n # ns) \<and> listed' \<le> maxExcludedCandidates"
  using assms by (auto simp: filter_step_def Let_def split: option.splits if_splits)

lemma filter_loop_excluded:
  "listed \<le> maxExcludedCandidates \<Longrightarrow>
   cf_excluded (filter_loop r roles m rt ex ns listed f) =
     cf_excluded f @ listing (exclusion_reason r roles (cf_down f) m rt) (maxExcludedCandidates - listed) (seen ex ns)"
proof (induction ns arbitrary: f listed)
  case (Cons n ns)
  show ?case
  proof (cases "gm_at False ex (ns_URL n)")
    case True
    then show ?thesis using Cons by (simp add: seen_def)
  next
    case False
    obtain f' l' where st: "filter_step (exclusion_reason r roles (cf_down f) m rt) listed n f = (f', l')"
      by (cases "filter_step (exclusion_reason r roles (cf_down f) m rt) listed n f")
    have d: "cf_down f' = cf_down f" using filter_step_spec [OF st] by (simp add: filter_spec_def)
    note e = filter_step_excluded [OF st Cons.prems, of "seen ex ns"]
    have "cf_excluded (filter_loop r roles m rt ex ns l' f') =
        cf_excluded f @ listing (exclusion_reason r roles (cf_down f) m rt) (maxExcludedCandidates - listed) (n # seen ex ns)"
      using Cons.IH [of l' f'] e by (simp only: d)
    then show ?thesis using False st unfolding filter_loop_step by (simp add: seen_def del: listing.simps)
  qed
qed (simp add: seen_def)

lemma filterCandidates_excluded:
  "cf_excluded (filterCandidatesWithFallback r nodes m rt ex) =
     listing (reason_in r nodes m rt) maxExcludedCandidates (seen ex nodes)"
proof -
  obtain roles heads where rh: "scheduling_roles nodes = (roles, heads)" by (cases "scheduling_roles nodes")
  have why: "reason_in r nodes m rt = exclusion_reason r roles (unreachableReplicaHeads nodes roles heads) m rt"
    by (rule ext) (simp add: reason_in_def rh)
  show ?thesis
    using filter_loop_excluded [of 0 r roles m rt ex nodes "empty_filter (unreachableReplicaHeads nodes roles heads)"]
    by (simp add: filterCandidatesWithFallback_def rh why empty_filter_def)
qed

lemma listing_sound: "e \<in> set (listing why k ns) \<Longrightarrow> \<exists>n \<in> set ns. ec_Node e = ns_Name n \<and> why n = Some (ec_Reason e)"
  by (induction ns arbitrary: k) (fastforce split: option.splits if_splits)+

lemma listing_last_resort:
  "n \<in> set ns \<Longrightarrow> why n = Some ExcludeReasonReplicaMemberUnreachable \<Longrightarrow>
   \<lparr> ec_Node = ns_Name n, ec_Reason = ExcludeReasonReplicaMemberUnreachable \<rparr> \<in> set (listing why k ns)"
  by (induction ns arbitrary: k) (auto split: option.split)

lemma listing_length:
  "length (listing why k ns) \<le> k + length (filter (\<lambda>n. why n = Some ExcludeReasonReplicaMemberUnreachable) ns)"
proof (induction ns arbitrary: k)
  case (Cons n ns)
  show ?case using Cons.IH [of k] Cons.IH [of "k - 1"] Cons.IH [of 0] by (auto split: option.split)
qed simp

lemma listing_complete:
  "length (filter (\<lambda>n. why n \<noteq> None) ns) \<le> k \<Longrightarrow> n \<in> set ns \<Longrightarrow> why n = Some x \<Longrightarrow>
   \<lparr> ec_Node = ns_Name n, ec_Reason = x \<rparr> \<in> set (listing why k ns)"
proof (induction ns arbitrary: k)
  case (Cons a ns)
  show ?case
  proof (cases "why a")
    case None
    then show ?thesis using Cons by auto
  next
    case (Some y)
    then have k: "length (filter (\<lambda>n. why n \<noteq> None) ns) \<le> k - 1" "k \<noteq> 0" using Cons.prems(1) by auto
    show ?thesis
    proof (cases "n = a")
      case True
      then show ?thesis using Cons.prems(3) k(2) by simp
    next
      case False
      then have m: "n \<in> set ns" using Cons.prems(2) by simp
      have "\<lparr> ec_Node = ns_Name n, ec_Reason = x \<rparr> \<in> set (listing why k ns)"
        using k(1) by (intro Cons.IH [OF _ m Cons.prems(3)]) simp
      moreover have "\<lparr> ec_Node = ns_Name n, ec_Reason = x \<rparr> \<in> set (listing why (k - 1) ns)"
        using k(1) by (intro Cons.IH [OF _ m Cons.prems(3)])
      ultimately show ?thesis using Some k(2) by simp
    qed
  qed
qed simp

section \<open>Properties\<close>

lemma filter_results:
  fixes r :: router and nodes :: "node_state list" and m rt :: string and ex :: "(string, bool) gomap"
  defines "f \<equiv> filterCandidatesWithFallback r nodes m rt ex"
  shows "cf_healthy f = filter (\<lambda>n. reason_in r nodes m rt n = None) (seen ex nodes)"
    "cf_lastResort f = filter (\<lambda>n. reason_in r nodes m rt n = Some ExcludeReasonReplicaMemberUnreachable) (seen ex nodes)"
    "cf_excludedTotal f = count_of (\<lambda>n. reason_in r nodes m rt n \<noteq> None) (seen ex nodes)"
    "cf_nodesSeen f = int (length (seen ex nodes))"
    "cf_nUnavailable f = count_of (\<lambda>n. unavailable_reason (reason_in r nodes m rt n)) (seen ex nodes)"
    "cf_nOverCap f = count_of (\<lambda>n. reason_in r nodes m rt n = Some ExcludeReasonOverCapacity) (seen ex nodes)"
    "cf_nStatic f = count_of (\<lambda>n. static_reason (reason_in r nodes m rt n) n) (seen ex nodes)"
    "cf_nUnknown f = count_of (\<lambda>n. unknown_reason (reason_in r nodes m rt n) n) (seen ex nodes)"
  using filterCandidates_spec [of r nodes m rt ex] by (simp_all add: filter_spec_def empty_filter_def f_def)

lemma counts_partition:
  "count_of (\<lambda>n. unavailable_reason (why n)) ns + count_of (\<lambda>n. why n = Some ExcludeReasonOverCapacity) ns
   + count_of (\<lambda>n. static_reason (why n) n) ns + count_of (\<lambda>n. unknown_reason (why n) n) ns = count_of (\<lambda>n. why n \<noteq> None) ns"
proof (induction ns)
  case (Cons n ns)
  have "(if unavailable_reason (why n) then 1 else 0) + (if why n = Some ExcludeReasonOverCapacity then 1 else 0)
    + (if static_reason (why n) n then 1 else 0) + (if unknown_reason (why n) n then 1 else 0) = (if why n \<noteq> None then 1 else (0::int))"
    by (auto simp: static_reason_def unavailable_reason_def unknown_reason_def)
  then show ?case using Cons by (simp add: count_of_Cons)
qed (simp add: count_of_def)

text \<open>
  The hard filter accounts for every node it looks at.  The candidates are
  exactly the nodes that pass every check, in fleet order; the four classification
  counters add up to the number of refused nodes; a listed exclusion names a node
  with the first check it fails; heads held back only for an unreachable replica
  member are always listed; beside them at most \<^verbatim>\<open>maxExcludedCandidates\<close> are;
  and when no more than that many nodes are refused, all of them are.
\<close>

lemma filter_accounts_for_every_node:
  "let f = filterCandidatesWithFallback r nodes m rt ex; why = reason_in r nodes m rt in
     cf_healthy f = filter (\<lambda>n. why n = None) (seen ex nodes)
   \<and> cf_excludedTotal f = cf_nodesSeen f - int (length (cf_healthy f))
   \<and> cf_nUnavailable f + cf_nOverCap f + cf_nStatic f + cf_nUnknown f = cf_excludedTotal f
   \<and> (\<forall>e \<in> set (cf_excluded f). \<exists>n \<in> set (seen ex nodes). ec_Node e = ns_Name n \<and> why n = Some (ec_Reason e))
   \<and> (\<forall>n \<in> set (cf_lastResort f). \<lparr> ec_Node = ns_Name n, ec_Reason = ExcludeReasonReplicaMemberUnreachable \<rparr> \<in> set (cf_excluded f))
   \<and> length (cf_excluded f) \<le> maxExcludedCandidates + length (cf_lastResort f)
   \<and> (cf_excludedTotal f \<le> int maxExcludedCandidates \<longrightarrow>
        (\<forall>n \<in> set (seen ex nodes). \<forall>x. why n = Some x \<longrightarrow> \<lparr> ec_Node = ns_Name n, ec_Reason = x \<rparr> \<in> set (cf_excluded f)))"
proof -
  let ?why = "reason_in r nodes m rt" let ?s = "seen ex nodes"
  have "count_of (\<lambda>n. ?why n \<noteq> None) ?s = int (length ?s) - int (length (filter (\<lambda>n. ?why n = None) ?s))"
    using sum_length_filter_compl [of "\<lambda>n. ?why n = None" ?s] by (simp add: count_of_def)
  then show ?thesis
    unfolding Let_def filter_results filterCandidates_excluded
    using counts_partition [of ?why ?s] listing_sound [of _ ?why maxExcludedCandidates ?s]
      listing_last_resort [of _ ?s ?why maxExcludedCandidates] listing_length [of ?why maxExcludedCandidates ?s]
      listing_complete [of ?why ?s maxExcludedCandidates]
    by (auto simp: count_of_def)
qed

lemma reason_unhealthy [simp]: "\<not> ns_Healthy n \<Longrightarrow> reason_in r nodes m [] n = Some ExcludeReasonUnhealthy"
  by (simp add: reason_in_def exclusion_reason_def split: prod.split)

definition demo_down :: node_state where
  "demo_down = zero_node\<lparr> ns_Name := ''a'' \<rparr>"

lemma demo_down_simps [simp]: "ns_Name demo_down = ''a''" "ns_Healthy demo_down = False" "ns_URL demo_down = []"
  by (simp_all add: demo_down_def zero_node_def)

text \<open>What every routed-to node satisfies.\<close>

definition routable :: "router \<Rightarrow> node_state list \<Rightarrow> string \<Rightarrow> string \<Rightarrow> node_state \<Rightarrow> bool" where
  "routable r nodes m rt n \<longleftrightarrow>
     (rt = [] \<or> ns_Runtime n = rt) \<and> ns_Healthy n \<and> \<not> ns_Draining n \<and> isEligibleForModel r n m
     \<and> isUnderCapacity r n \<and> isGPUGroupSufficient n
     \<and> role_of (fst (scheduling_roles nodes)) (ns_Name n) \<in> {RoleStandalone, RoleHead}"

definition member_down :: "node_state list \<Rightarrow> node_state \<Rightarrow> bool" where
  "member_down nodes n \<longleftrightarrow>
     role_of (fst (scheduling_roles nodes)) (ns_Name n) = RoleHead
     \<and> gm_get (unreachableReplicaHeads nodes (fst (scheduling_roles nodes)) (snd (scheduling_roles nodes))) (ns_Name n) \<noteq> None"

lemma reason_in_eq:
  "reason_in r nodes m rt n =
     exclusion_reason r (fst (scheduling_roles nodes))
       (unreachableReplicaHeads nodes (fst (scheduling_roles nodes)) (snd (scheduling_roles nodes))) m rt n"
  by (simp add: reason_in_def split: prod.split)

lemma reason_None_iff: "reason_in r nodes m rt n = None \<longleftrightarrow> routable r nodes m rt n \<and> \<not> member_down nodes n"
  unfolding reason_in_eq exclusion_reason_def routable_def member_down_def
  by (cases "role_of (fst (scheduling_roles nodes)) (ns_Name n)") auto

lemma reason_unreachable_iff:
  "reason_in r nodes m rt n = Some ExcludeReasonReplicaMemberUnreachable \<longleftrightarrow> routable r nodes m rt n \<and> member_down nodes n"
  unfolding reason_in_eq exclusion_reason_def routable_def member_down_def
  by (cases "role_of (fst (scheduling_roles nodes)) (ns_Name n)") auto

definition candidates_of :: "router \<Rightarrow> node_state list \<Rightarrow> string \<Rightarrow> string \<Rightarrow> (string, bool) gomap \<Rightarrow> node_state list" where
  "candidates_of r nodes m rt ex =
     (let ok = filter (\<lambda>n. routable r nodes m rt n \<and> \<not> member_down nodes n) (seen ex nodes) in
      if ok \<noteq> [] then ok else filter (\<lambda>n. routable r nodes m rt n \<and> member_down nodes n) (seen ex nodes))"

lemma candidates_of_filter:
  fixes r :: router and nodes :: "node_state list" and m rt :: string and ex :: "(string, bool) gomap"
  defines "f \<equiv> filterCandidatesWithFallback r nodes m rt ex"
  shows "(if cf_healthy f = [] \<and> cf_lastResort f \<noteq> [] then cf_lastResort f else cf_healthy f) = candidates_of r nodes m rt ex"
    "cf_healthy f = [] \<and> cf_lastResort f \<noteq> [] \<longleftrightarrow> (\<exists>n \<in> set (candidates_of r nodes m rt ex). member_down nodes n)"
proof -
  have h: "cf_healthy f = filter (\<lambda>n. routable r nodes m rt n \<and> \<not> member_down nodes n) (seen ex nodes)"
    "cf_lastResort f = filter (\<lambda>n. routable r nodes m rt n \<and> member_down nodes n) (seen ex nodes)"
    unfolding f_def filter_results reason_None_iff reason_unreachable_iff by simp_all
  show "(if cf_healthy f = [] \<and> cf_lastResort f \<noteq> [] then cf_lastResort f else cf_healthy f) = candidates_of r nodes m rt ex"
    unfolding h candidates_of_def Let_def by simp
  show "cf_healthy f = [] \<and> cf_lastResort f \<noteq> [] \<longleftrightarrow> (\<exists>n \<in> set (candidates_of r nodes m rt ex). member_down nodes n)"
    unfolding h candidates_of_def Let_def by (auto simp: filter_empty_conv split: if_splits)
qed

lemma candidates_distinct: "distinct (map ns_Name nodes) \<Longrightarrow> distinct (map ns_Name (candidates_of r nodes m rt ex))"
  by (simp add: candidates_of_def seen_def Let_def distinct_map_filter)

lemma candidates_sound:
  assumes "w \<in> set (candidates_of r nodes m rt ex)"
  shows "w \<in> set nodes" "\<not> gm_at False ex (ns_URL w)" "routable r nodes m rt w"
    "member_down nodes w \<Longrightarrow> n \<in> set (seen ex nodes) \<Longrightarrow> routable r nodes m rt n \<Longrightarrow> member_down nodes n"
proof -
  have "w \<in> set nodes \<and> \<not> gm_at False ex (ns_URL w) \<and> routable r nodes m rt w
    \<and> (member_down nodes w \<longrightarrow> (\<forall>n \<in> set (seen ex nodes). routable r nodes m rt n \<longrightarrow> member_down nodes n))"
    using assms by (auto simp: candidates_of_def Let_def seen_def filter_empty_conv split: if_splits)
  then show "w \<in> set nodes" "\<not> gm_at False ex (ns_URL w)" "routable r nodes m rt w"
    "member_down nodes w \<Longrightarrow> n \<in> set (seen ex nodes) \<Longrightarrow> routable r nodes m rt n \<Longrightarrow> member_down nodes n" by blast+
qed

lemma candidates_member_down:
  "w \<in> set (candidates_of r nodes m rt ex) \<Longrightarrow>
   (\<exists>n \<in> set (candidates_of r nodes m rt ex). member_down nodes n) \<longleftrightarrow> member_down nodes w"
  by (auto simp: candidates_of_def Let_def split: if_splits)

lemma explain_option: "applyExclusionExplainability xs k (Some d) =
    Some (let d' = d\<lparr> rd_Excluded := xs \<rparr> in if k > int (length xs) then d'\<lparr> rd_ExcludedTotal := k \<rparr> else d')"
  by (simp add: applyExclusionExplainability_def)

text \<open>The two outcomes of routing.\<close>

lemma filterAndSelect_found:
  assumes "distinct (map ns_Name nodes)" "candidates_of r nodes m rt ex \<noteq> []"
  obtains w d where "fst (filterAndSelect ft now nodes m rt p ex r) = (Some w, isModelWarm r w m, Some d)"
    "w \<in> set (candidates_of r nodes m rt ex)" "rd_Node d = ns_Name w" "rd_lastResort d \<longleftrightarrow> member_down nodes w"
    "rd_NoRoute d = None" "rd_Reason d \<in> {ReasonPinnedWarm, ReasonScoreBased}"
    "strip (snd (filterAndSelect ft now nodes m rt p ex r)) = strip r"
    "pinned_warm r m (candidates_of r nodes m rt ex) \<noteq> {} \<longrightarrow>
       best_among now r m p (pinned_warm r m (candidates_of r nodes m rt ex)) w"
    "pinned_warm r m (candidates_of r nodes m rt ex) = {} \<longrightarrow> best_among now r m p (set (candidates_of r nodes m rt ex)) w"
proof -
  let ?c = "candidates_of r nodes m rt ex"
  obtain w d where sel: "fst (selectBestNode ft now ?c m p r) = (Some w, isModelWarm r w m, Some d)"
    "rd_Node d = ns_Name w" "rd_lastResort d = False" "rd_NoRoute d = None"
    "pinned_warm r m ?c \<noteq> {} \<longrightarrow> rd_Reason d = ReasonPinnedWarm \<and> best_among now r m p (pinned_warm r m ?c) w"
    "pinned_warm r m ?c = {} \<longrightarrow> rd_Reason d = ReasonScoreBased \<and> best_among now r m p (set ?c) w
       \<and> rd_Score d = node_score now r m p w"
    "strip (snd (selectBestNode ft now ?c m p r)) = strip r"
    using selectBestNode_spec [OF candidates_distinct [OF assms(1)] assms(2), of ft now m p r] .
  have w: "w \<in> set ?c"
    using sel(5,6) by (cases "pinned_warm r m ?c = {}") (auto simp: best_among_def pinned_warm_def)
  define f where "f = filterCandidatesWithFallback r nodes m rt ex"
  note cf = candidates_of_filter [of r nodes m rt ex, folded f_def]
  have down: "(cf_healthy f = [] \<and> cf_lastResort f \<noteq> []) = member_down nodes w"
    unfolding cf(2) using candidates_member_down [OF w] .
  define d1 where "d1 = (if member_down nodes w
      then d\<lparr> rd_Detail := rd_Detail d @ lastResortDetail, rd_lastResort := True \<rparr> else d)"
  define d' where "d' = (let d2 = d1\<lparr> rd_Excluded := cf_excluded f \<rparr> in
      if cf_excludedTotal f > int (length (cf_excluded f)) then d2\<lparr> rd_ExcludedTotal := cf_excludedTotal f \<rparr> else d2)"
  obtain r' where sel': "selectBestNode ft now ?c m p r = ((Some w, isModelWarm r w m, Some d), r')"
    using sel(1) by (metis prod.collapse)
  have eq: "filterAndSelect ft now nodes m rt p ex r = ((Some w, isModelWarm r w m, Some d'), r')"
    unfolding filterAndSelect_def Let_def f_def [symmetric] cf(1) sel' prod.case
    unfolding down finishLastResort_def
    by (simp add: d'_def d1_def explain_option Let_def)
  show thesis
  proof (rule that)
    show "fst (filterAndSelect ft now nodes m rt p ex r) = (Some w, isModelWarm r w m, Some d')" by (simp add: eq)
    show "rd_Node d' = ns_Name w" "rd_NoRoute d' = None" using sel(2,4) by (simp_all add: d'_def d1_def Let_def)
    show "rd_lastResort d' \<longleftrightarrow> member_down nodes w" using sel(3) by (simp add: d'_def d1_def Let_def)
    have "rd_Reason d' = rd_Reason d" by (simp add: d'_def d1_def Let_def)
    then show "rd_Reason d' \<in> {ReasonPinnedWarm, ReasonScoreBased}" using sel(5,6) by (cases "pinned_warm r m ?c = {}") auto
    show "strip (snd (filterAndSelect ft now nodes m rt p ex r)) = strip r" using sel(7) by (simp add: eq sel')
  qed (use w sel(5,6) in blast)+
qed

lemma filterAndSelect_none:
  assumes "candidates_of r nodes m rt ex = []"
  obtains d where "filterAndSelect ft now nodes m rt p ex r = ((None, False, Some d), r)" "rd_Reason d = ReasonNoCandidate"
    "rd_NoRoute d = Some (classifyNoRoute (filterCandidatesWithFallback r nodes m rt ex))" "rd_lastResort d = False"
proof -
  define f where "f = filterCandidatesWithFallback r nodes m rt ex"
  note cf = candidates_of_filter [of r nodes m rt ex, folded f_def]
  have nl: "(cf_healthy f = [] \<and> cf_lastResort f \<noteq> []) = False" unfolding cf(2) using assms by simp
  have c: "cf_healthy f = []" using cf(1) nl assms by simp
  define d where "d = (let d2 = (new_decision ReasonNoCandidate)\<lparr> rd_Excluded := cf_excluded f \<rparr> in
      (if cf_excludedTotal f > int (length (cf_excluded f)) then d2\<lparr> rd_ExcludedTotal := cf_excludedTotal f \<rparr> else d2)
        \<lparr> rd_NoRoute := Some (classifyNoRoute f) \<rparr>)"
  have "filterAndSelect ft now nodes m rt p ex r = ((None, False, Some d), r)"
    unfolding filterAndSelect_def Let_def f_def [symmetric] nl
    by (simp add: c selectBestNode_def explain_option d_def Let_def)
  then show thesis by (rule that) (simp_all add: d_def Let_def f_def)
qed

lemma filterAndSelect_Some:
  assumes "distinct (map ns_Name nodes)" "fst (filterAndSelect ft now nodes m rt p ex r) = (Some w, warm, dec)"
  obtains d where "w \<in> set (candidates_of r nodes m rt ex)" "warm = isModelWarm r w m" "dec = Some d"
    "rd_Node d = ns_Name w" "rd_lastResort d \<longleftrightarrow> member_down nodes w" "rd_NoRoute d = None"
    "rd_Reason d \<in> {ReasonPinnedWarm, ReasonScoreBased}"
    "best_among now r m p
        (if pinned_warm r m (candidates_of r nodes m rt ex) \<noteq> {} then pinned_warm r m (candidates_of r nodes m rt ex)
         else set (candidates_of r nodes m rt ex)) w"
proof -
  let ?c = "candidates_of r nodes m rt ex"
  have ne: "?c \<noteq> []"
  proof
    assume e: "?c = []"
    then obtain d where "filterAndSelect ft now nodes m rt p ex r = ((None, False, Some d), r)"
      using filterAndSelect_none [OF e, of ft now p] by metis
    with assms(2) show False by simp
  qed
  obtain w' d where f: "fst (filterAndSelect ft now nodes m rt p ex r) = (Some w', isModelWarm r w' m, Some d)"
    "w' \<in> set ?c" "rd_Node d = ns_Name w'" "rd_lastResort d \<longleftrightarrow> member_down nodes w'"
    "rd_NoRoute d = None" "rd_Reason d \<in> {ReasonPinnedWarm, ReasonScoreBased}"
    "strip (snd (filterAndSelect ft now nodes m rt p ex r)) = strip r"
    "pinned_warm r m ?c \<noteq> {} \<longrightarrow> best_among now r m p (pinned_warm r m ?c) w'"
    "pinned_warm r m ?c = {} \<longrightarrow> best_among now r m p (set ?c) w'"
    using filterAndSelect_found [OF assms(1) ne, of ft now p] .
  have eq: "w' = w" "warm = isModelWarm r w m" "dec = Some d" using f(1) assms(2) by auto
  show thesis using f(2-6,8,9) eq by (intro that [of d]) auto
qed

lemma filterAndSelect_strip:
  assumes "distinct (map ns_Name nodes)"
  shows "strip (snd (filterAndSelect ft now nodes m rt p ex r)) = strip r"
proof (cases "candidates_of r nodes m rt ex = []")
  case True
  then show ?thesis using filterAndSelect_none [OF True, of ft now p] by (metis snd_conv)
next
  case False
  then show ?thesis using filterAndSelect_found [OF assms False, of ft now p] by metis
qed

text \<open>
  C1. Routing never breaks a hard constraint.  A node it returns belongs to the
  fleet, is not one the caller excluded, matches the requested runtime, is healthy,
  not draining, able to serve the model, below its capacity limit, has enough GPUs
  and is neither a replica worker nor unresolved.  The reported warmth is true.
  Pinned and warm candidates come first; among the preferred ones the best
  score wins, ties by name.  A head with an unreachable replica member is used
  only as a flagged last resort, when no other node passes the checks.
\<close>

theorem route_respects_hard_constraints:
  assumes "distinct (map ns_Name (r_nodes r))"
    and "fst (RouteExcludingWithPrefix ft now m rt ex p r) = (Some w, warm, dec)"
  shows "w \<in> set (r_nodes r) \<and> \<not> gm_at False ex (ns_URL w) \<and> routable r (r_nodes r) m rt w
    \<and> warm = isModelWarm r w m
    \<and> (\<exists>d. dec = Some d \<and> rd_Node d = ns_Name w \<and> rd_NoRoute d = None
         \<and> (rd_lastResort d \<longleftrightarrow> member_down (r_nodes r) w))
    \<and> (member_down (r_nodes r) w \<longrightarrow>
         (\<forall>n \<in> set (seen ex (r_nodes r)). routable r (r_nodes r) m rt n \<longrightarrow> member_down (r_nodes r) n))
    \<and> best_among now r m p
        (if pinned_warm r m (candidates_of r (r_nodes r) m rt ex) \<noteq> {}
         then pinned_warm r m (candidates_of r (r_nodes r) m rt ex)
         else set (candidates_of r (r_nodes r) m rt ex)) w"
proof -
  have fs: "fst (filterAndSelect ft now (r_nodes r) m rt p ex r) = (Some w, warm, dec)"
    using assms(2) by (simp add: RouteExcludingWithPrefix_def)
  obtain d where d: "w \<in> set (candidates_of r (r_nodes r) m rt ex)" "warm = isModelWarm r w m" "dec = Some d"
    "rd_Node d = ns_Name w" "rd_lastResort d \<longleftrightarrow> member_down (r_nodes r) w" "rd_NoRoute d = None"
    "rd_Reason d \<in> {ReasonPinnedWarm, ReasonScoreBased}"
    "best_among now r m p
        (if pinned_warm r m (candidates_of r (r_nodes r) m rt ex) \<noteq> {} then pinned_warm r m (candidates_of r (r_nodes r) m rt ex)
         else set (candidates_of r (r_nodes r) m rt ex)) w"
    using filterAndSelect_Some [OF assms(1) fs] .
  show ?thesis using candidates_sound [OF d(1)] d(2-6,8) by auto
qed

definition demo_healthy :: "string \<Rightarrow> node_state" where
  "demo_healthy name = zero_node\<lparr> ns_Name := name, ns_Healthy := True \<rparr>"

lemma roles_no_peers:
  assumes "\<forall>n \<in> set nodes. ns_ReplicaPeers n = None" "distinct (map ns_Name nodes)" "n \<in> set nodes"
  shows "role_of (fst (scheduling_roles nodes)) (ns_Name n) = RoleStandalone"
proof -
  have "declared_peers x = None" if "x \<in> set nodes" for x using assms(1) that by (simp add: declared_peers_def)
  then have "replica_edges nodes = []" by (simp add: replica_edges_def)
  then have "ns_Name n \<notin> touched nodes" by (simp add: touched_def)
  then show ?thesis using scheduling_roles_spec [OF assms(2) imageI [OF assms(3)]] by (simp add: role_spec_def role_of_def gm_at_def)
qed

definition demo_one :: router where
  "demo_one = (demo_router [])\<lparr> r_nodes := [demo_healthy ''a''] \<rparr>"

lemma demo_routable: "routable demo_one [demo_healthy ''a''] ''m'' [] (demo_healthy ''a'')"
  using roles_no_peers [of "[demo_healthy ''a'']" "demo_healthy ''a''"]
  by (simp add: routable_def demo_healthy_def zero_node_def isEligibleForModel_def isUnderCapacity_def
      isGPUGroupSufficient_def effectiveRequiredGPUsLocked_def deriveRequiredGPUs_def detectedVerifiedLocked_def
      demo_one_def)

theorem route_respects_hard_constraints_witness:
  "\<exists>w. fst (fst (RouteExcludingWithPrefix (\<lambda>_. None) 9 ''m'' [] [] [] demo_one)) = Some w \<and> ns_Healthy w \<and> \<not> ns_Draining w"
proof -
  note demo_routable
  moreover have "\<not> member_down [demo_healthy ''a''] (demo_healthy ''a'')"
    using roles_no_peers [of "[demo_healthy ''a'']" "demo_healthy ''a''"]
    by (simp add: member_down_def demo_healthy_def zero_node_def)
  ultimately have c: "candidates_of demo_one (r_nodes demo_one) ''m'' [] [] \<noteq> []"
    by (simp add: candidates_of_def seen_def demo_one_def gm_at_def)
  have d: "distinct (map ns_Name (r_nodes demo_one))" by (simp add: demo_one_def)
  obtain w dd where f: "fst (filterAndSelect (\<lambda>_. None) 9 (r_nodes demo_one) ''m'' [] [] [] demo_one) = (Some w, isModelWarm demo_one w ''m'', Some dd)"
    using filterAndSelect_found [OF d c, of "\<lambda>_. None" 9 "[]"] by metis
  then have "fst (RouteExcludingWithPrefix (\<lambda>_. None) 9 ''m'' [] [] [] demo_one) = (Some w, isModelWarm demo_one w ''m'', Some dd)"
    by (simp add: RouteExcludingWithPrefix_def)
  from route_respects_hard_constraints [OF d this] this show ?thesis by (auto simp: routable_def)
qed

text \<open>The classification, for any partition of the refusals into four kinds.\<close>

lemma classify_cases:
  assumes c: "c = (if \<exists>n \<in> S. ov n then NoRouteAtCapacityHealthy else if \<exists>n \<in> S. un n then NoRouteUnknownState
      else if \<exists>n \<in> S. av n then NoRouteAllNodesUnavailable
      else if (\<exists>n \<in> S. st n) \<or> S = {} then NoRouteNoNodeServesModel else NoRouteUnknownState)"
    and four: "\<forall>n \<in> S. ov n \<or> un n \<or> av n \<or> st n" and st: "\<forall>n \<in> S. st n \<longrightarrow> \<not> ov n \<and> \<not> un n \<and> \<not> av n"
  shows "(c = NoRouteAtCapacityHealthy \<longleftrightarrow> (\<exists>n \<in> S. ov n))
    \<and> (c = NoRouteUnknownState \<longleftrightarrow> (\<forall>n \<in> S. \<not> ov n) \<and> (\<exists>n \<in> S. un n))
    \<and> (c = NoRouteNoNodeServesModel \<longleftrightarrow> (\<forall>n \<in> S. st n))
    \<and> (IsHardNoRoute c \<longrightarrow> (\<forall>n \<in> S. \<not> ov n \<and> \<not> un n))"
proof -
  have last: "(\<exists>n \<in> S. st n) \<or> S = {}" if "\<forall>n \<in> S. \<not> ov n \<and> \<not> un n \<and> \<not> av n" using four that by blast
  consider "\<exists>n \<in> S. ov n" | "\<forall>n \<in> S. \<not> ov n" "\<exists>n \<in> S. un n" | "\<forall>n \<in> S. \<not> ov n \<and> \<not> un n" "\<exists>n \<in> S. av n"
    | "\<forall>n \<in> S. \<not> ov n \<and> \<not> un n \<and> \<not> av n" by blast
  then show ?thesis
  proof cases
    case 1
    then have "c = NoRouteAtCapacityHealthy" by (simp add: c)
    then show ?thesis using 1 st by (auto simp: IsHardNoRoute_def)
  next
    case 2
    then have "c = NoRouteUnknownState" by (simp add: c)
    then show ?thesis using 2 st by (auto simp: IsHardNoRoute_def)
  next
    case 3
    then have "c = NoRouteAllNodesUnavailable" by (simp add: c)
    then show ?thesis using 3 st by auto
  next
    case 4
    then have "c = NoRouteNoNodeServesModel" using last by (simp add: c)
    then show ?thesis using 4 four by auto
  qed
qed

text \<open>
  C35. When routing finds no node, the reason it reports is the right one.  No
  node passes the checks, not even as a last resort, and the classification is: at
  capacity if some node failed on its capacity limit; else unknown if a node never
  polled could not be judged; else unavailable if a node is unhealthy or draining;
  else no node serves the model, every failing check being a lasting one.  A hard
  refusal therefore never hides a node that is merely busy or not yet polled.
\<close>

theorem no_route_classified:
  assumes "distinct (map ns_Name (r_nodes r))"
    and "fst (RouteExcludingWithPrefix ft now m rt ex p r) = (None, warm, dec)"
  shows "let why = reason_in r (r_nodes r) m rt; ns = set (seen ex (r_nodes r)) in
    (\<forall>n \<in> ns. \<not> routable r (r_nodes r) m rt n)
    \<and> (\<exists>d c. dec = Some d \<and> rd_Reason d = ReasonNoCandidate \<and> rd_NoRoute d = Some c
         \<and> (c = NoRouteAtCapacityHealthy \<longleftrightarrow> (\<exists>n \<in> ns. why n = Some ExcludeReasonOverCapacity))
         \<and> (c = NoRouteUnknownState \<longleftrightarrow> (\<forall>n \<in> ns. why n \<noteq> Some ExcludeReasonOverCapacity) \<and> (\<exists>n \<in> ns. unknown_reason (why n) n))
         \<and> (c = NoRouteNoNodeServesModel \<longleftrightarrow> (\<forall>n \<in> ns. static_reason (why n) n))
         \<and> (IsHardNoRoute c \<longrightarrow> (\<forall>n \<in> ns. why n \<noteq> Some ExcludeReasonOverCapacity \<and> \<not> unknown_reason (why n) n)))"
proof -
  let ?ns = "r_nodes r" let ?c = "candidates_of r (r_nodes r) m rt ex" let ?why = "reason_in r (r_nodes r) m rt"
  let ?S = "set (seen ex (r_nodes r))"
  have fs: "fst (filterAndSelect ft now ?ns m rt p ex r) = (None, warm, dec)"
    using assms(2) by (simp add: RouteExcludingWithPrefix_def)
  have e: "?c = []"
  proof (rule ccontr)
    assume "?c \<noteq> []"
    from filterAndSelect_found [OF assms(1) this, of ft now p] fs show False by (metis option.distinct(1) prod.inject)
  qed
  then have no: "\<not> routable r ?ns m rt n" if "n \<in> ?S" for n
    using that by (auto simp: candidates_of_def Let_def filter_empty_conv split: if_splits)
  obtain d where d: "filterAndSelect ft now ?ns m rt p ex r = ((None, False, Some d), r)" "rd_Reason d = ReasonNoCandidate"
    "rd_NoRoute d = Some (classifyNoRoute (filterCandidatesWithFallback r ?ns m rt ex))"
    using filterAndSelect_none [OF e, of ft now p] by metis
  have some: "?why n \<noteq> None" if "n \<in> ?S" for n using no [OF that] by (simp add: reason_None_iff del: not_None_eq)
  have cl: "classifyNoRoute (filterCandidatesWithFallback r ?ns m rt ex) =
      (if \<exists>n \<in> ?S. ?why n = Some ExcludeReasonOverCapacity then NoRouteAtCapacityHealthy
       else if \<exists>n \<in> ?S. unknown_reason (?why n) n then NoRouteUnknownState
       else if \<exists>n \<in> ?S. unavailable_reason (?why n) then NoRouteAllNodesUnavailable
       else if (\<exists>n \<in> ?S. static_reason (?why n) n) \<or> seen ex ?ns = [] then NoRouteNoNodeServesModel
       else NoRouteUnknownState)"
    unfolding classifyNoRoute_def filter_results count_of_pos by simp
  have four: "?why n = Some ExcludeReasonOverCapacity \<or> unknown_reason (?why n) n \<or> unavailable_reason (?why n) \<or> static_reason (?why n) n"
    if "n \<in> ?S" for n using some [OF that] by (auto simp: static_reason_def)
  have st: "static_reason (?why n) n \<Longrightarrow> ?why n \<noteq> Some ExcludeReasonOverCapacity \<and> \<not> unknown_reason (?why n) n \<and> \<not> unavailable_reason (?why n)" for n
    by (simp add: static_reason_def)
  have dec: "dec = Some d" using fs d(1) by simp
  define c where "c = classifyNoRoute (filterCandidatesWithFallback r ?ns m rt ex)"
  have "(c = NoRouteAtCapacityHealthy \<longleftrightarrow> (\<exists>n \<in> ?S. ?why n = Some ExcludeReasonOverCapacity))
    \<and> (c = NoRouteUnknownState \<longleftrightarrow> (\<forall>n \<in> ?S. ?why n \<noteq> Some ExcludeReasonOverCapacity) \<and> (\<exists>n \<in> ?S. unknown_reason (?why n) n))
    \<and> (c = NoRouteNoNodeServesModel \<longleftrightarrow> (\<forall>n \<in> ?S. static_reason (?why n) n))
    \<and> (IsHardNoRoute c \<longrightarrow> (\<forall>n \<in> ?S. ?why n \<noteq> Some ExcludeReasonOverCapacity \<and> \<not> unknown_reason (?why n) n))"
    by (intro classify_cases [where S = ?S and av = "\<lambda>n. unavailable_reason (?why n)"]) (simp add: c_def cl, use four st in \<open>simp_all only: Ball_def\<close>, simp_all)
  with d(2) d(3) [folded c_def] dec have "\<exists>d c. dec = Some d \<and> rd_Reason d = ReasonNoCandidate \<and> rd_NoRoute d = Some c
    \<and> (c = NoRouteAtCapacityHealthy \<longleftrightarrow> (\<exists>n \<in> ?S. ?why n = Some ExcludeReasonOverCapacity))
    \<and> (c = NoRouteUnknownState \<longleftrightarrow> (\<forall>n \<in> ?S. ?why n \<noteq> Some ExcludeReasonOverCapacity) \<and> (\<exists>n \<in> ?S. unknown_reason (?why n) n))
    \<and> (c = NoRouteNoNodeServesModel \<longleftrightarrow> (\<forall>n \<in> ?S. static_reason (?why n) n))
    \<and> (IsHardNoRoute c \<longrightarrow> (\<forall>n \<in> ?S. ?why n \<noteq> Some ExcludeReasonOverCapacity \<and> \<not> unknown_reason (?why n) n))"
    by (intro exI [of _ d] exI [of _ c] conjI) (elim conjE, assumption)+
  then show ?thesis unfolding Let_def using no by (intro conjI ballI)
qed

definition demo_downed :: router where
  "demo_downed = (demo_router [])\<lparr> r_nodes := [demo_down] \<rparr>"

theorem no_route_classified_witness:
  "\<exists>d. snd (snd (fst (RouteExcludingWithPrefix (\<lambda>_. None) 9 ''m'' [] [] [] demo_downed))) = Some d
     \<and> rd_Reason d = ReasonNoCandidate \<and> rd_NoRoute d \<noteq> Some NoRouteAtCapacityHealthy"
proof -
  have d: "distinct (map ns_Name (r_nodes demo_downed))" by (simp add: demo_downed_def)
  have c: "candidates_of demo_downed (r_nodes demo_downed) ''m'' [] [] = []"
    by (simp add: candidates_of_def routable_def demo_downed_def seen_def Let_def)
  obtain dd where f: "filterAndSelect (\<lambda>_. None) 9 (r_nodes demo_downed) ''m'' [] [] [] demo_downed = ((None, False, Some dd), demo_downed)"
    using filterAndSelect_none [OF c, of "\<lambda>_. None" 9 "[]"] by metis
  then have r: "fst (RouteExcludingWithPrefix (\<lambda>_. None) 9 ''m'' [] [] [] demo_downed) = (None, False, Some dd)"
    by (simp add: RouteExcludingWithPrefix_def)
  have "\<forall>n \<in> set (seen [] (r_nodes demo_downed)). reason_in demo_downed (r_nodes demo_downed) ''m'' [] n = Some ExcludeReasonUnhealthy"
    by (simp add: seen_def demo_downed_def)
  with no_route_classified [OF d r] r show ?thesis by (auto simp: Let_def)
qed

end
