(* ===== verification/Affinity.thy ===== *)
theory Affinity
  imports Placement
begin

text \<open>
  Session affinity (\<^verbatim>\<open>internal/router/placement.go\<close>): the bounded map of session
  pins with its time-to-live sweep and its snapshot in the store, the routing
  entry point that honours pins, and the transition history it feeds
  (\<^verbatim>\<open>predictive.go\<close>).

  \<open>hour_of\<close> stands for the hour of the day in the configured time zone.  The
  operations run one after another, so the pointer comparisons that guard against a
  concurrent replacement of an entry always succeed.
\<close>

section \<open>The map of pins\<close>

definition maxAffinityEntries :: nat where "maxAffinityEntries = 10000"

definition sweepAffinity :: "gotime \<Rightarrow> router \<Rightarrow> router" where
  "sweepAffinity now r =
     r\<lparr> r_affinity := gm_remove_if (\<lambda>sid e. now - ae_lastSeen e \<ge> r_affinityTTL r) (r_affinity r) \<rparr>"

text \<open>
  The store keeps whole seconds (\<^verbatim>\<open>warmUsedToUnix\<close>, \<^verbatim>\<open>warmUnixToUsed\<close> in
  \<^verbatim>\<open>internal/store/sqlite.go\<close>); 0 stands for the zero time.
\<close>

definition warmUsedToUnix :: "gotime \<Rightarrow> int" where
  "warmUsedToUnix t = (if time_is_zero t then 0 else t div second)"

definition warmUnixToUsed :: "int \<Rightarrow> gotime" where
  "warmUnixToUsed v = (if v = 0 then time_zero else v * second)"

text \<open>A row as it reads back after having been written.\<close>

definition stored_record :: "affinity_record \<Rightarrow> affinity_record" where
  "stored_record a = a\<lparr> ar_LastSeen := warmUnixToUsed (warmUsedToUnix (ar_LastSeen a)) \<rparr>"

definition SnapshotAffinity :: "affinity_record list \<Rightarrow> store_rows \<Rightarrow> store_rows" where
  "SnapshotAffinity entries st = st\<lparr> sr_affinity := map stored_record entries \<rparr>"

definition FlushAffinity :: "router \<Rightarrow> router" where
  "FlushAffinity r =
     (case r_store r of
        None \<Rightarrow> r
      | Some st \<Rightarrow>
          r\<lparr> r_store := Some (SnapshotAffinity
               (map (\<lambda>(sid, e). \<lparr> ar_SessionID = sid, ar_NodeURL = ae_nodeURL e, ar_LastSeen = ae_lastSeen e \<rparr>)
                  (r_affinity r)) st) \<rparr>)"

text \<open>The loop over the rows; the count and the map.\<close>

fun restore_loop ::
  "gotime \<Rightarrow> duration \<Rightarrow> affinity_record list \<Rightarrow> int \<Rightarrow> (string, affinity_entry) gomap
     \<Rightarrow> int \<times> (string, affinity_entry) gomap" where
  "restore_loop now ttl [] restored m = (restored, m)"
| "restore_loop now ttl (w # ws) restored m =
     (if time_is_zero (ar_LastSeen w) \<or> now - ar_LastSeen w \<ge> ttl then restore_loop now ttl ws restored m
      else if length m \<ge> maxAffinityEntries then (restored, m)
      else restore_loop now ttl ws (restored + 1)
             (gm_put (ar_SessionID w)
                \<lparr> ae_nodeURL = ar_NodeURL w, ae_model = [], ae_lastSeen = ar_LastSeen w \<rparr> m))"

definition RestoreAffinity :: "gotime \<Rightarrow> router \<Rightarrow> int \<times> router" where
  "RestoreAffinity now r =
     (case r_store r of
        None \<Rightarrow> (0, r)
      | Some st \<Rightarrow>
          (case restore_loop now (r_affinityTTL r) (sr_affinity st) 0 (r_affinity r) of
             (restored, m) \<Rightarrow> (restored, r\<lparr> r_affinity := m \<rparr>)))"

section \<open>Pins in routing\<close>

definition drop_pin :: "string \<Rightarrow> router \<Rightarrow> router" where
  "drop_pin sid r = r\<lparr> r_affinity := gm_del sid (r_affinity r) \<rparr>"

text \<open>The pinned node, whether an entry existed, and the new state.\<close>

definition stickyNode :: "gotime \<Rightarrow> string \<Rightarrow> router \<Rightarrow> (node_state option \<times> bool) \<times> router" where
  "stickyNode now sid r =
     (case gm_get (r_affinity r) sid of
        None \<Rightarrow> ((None, False), r)
      | Some entry \<Rightarrow>
          if now - ae_lastSeen entry \<ge> r_affinityTTL r then ((None, True), r)
          else case find (\<lambda>n. ns_URL n = ae_nodeURL entry) (r_nodes r) of
                 None \<Rightarrow> ((None, True), drop_pin sid r)
               | Some sticky \<Rightarrow>
                   if \<not> ns_Healthy sticky \<or> ns_Draining sticky then ((None, True), drop_pin sid r)
                   else ((Some sticky, True),
                         r\<lparr> r_affinity := gm_put sid (entry\<lparr> ae_lastSeen := now \<rparr>) (r_affinity r) \<rparr>))"

definition stampAffinityModel :: "string \<Rightarrow> string \<Rightarrow> string \<Rightarrow> router \<Rightarrow> router" where
  "stampAffinityModel sid nodeURL modelName r =
     (case gm_get (r_affinity r) sid of
        None \<Rightarrow> r
      | Some e \<Rightarrow>
          if ae_nodeURL e \<noteq> nodeURL \<or> ae_model e = modelName then r
          else r\<lparr> r_affinity := gm_put sid (e\<lparr> ae_model := modelName \<rparr>) (r_affinity r) \<rparr>)"

definition affinityProtectedModels :: "gotime \<Rightarrow> router \<Rightarrow> string \<Rightarrow> string list" where
  "affinityProtectedModels now r nodeURL =
     (if nodeURL = [] then []
      else map (\<lambda>(sid, e). ae_model e)
             (filter (\<lambda>(sid, e). ae_nodeURL e = nodeURL \<and> ae_model e \<noteq> [] \<and> now - ae_lastSeen e < r_affinityTTL r)
                (r_affinity r)))"

definition predictiveHistoryCap :: nat where "predictiveHistoryCap = 500"

definition AppendPredictiveTransition :: "string \<Rightarrow> string \<Rightarrow> gotime \<Rightarrow> store_rows \<Rightarrow> store_rows" where
  "AppendPredictiveTransition fromModel toModel ts st =
     st\<lparr> sr_transitions := last_n predictiveHistoryCap (sr_transitions st @ [(fromModel, toModel, ts)]) \<rparr>"

definition RecordTransition :: "(gotime \<Rightarrow> int) \<Rightarrow> string \<Rightarrow> gotime \<Rightarrow> router \<Rightarrow> router" where
  "RecordTransition hour_of toModel now r =
     (if toModel = [] then r
      else
        let fromModel = r_lastModelRequested r;
            entry = \<lparr> te_FromModel = fromModel, te_ToModel = toModel, te_Timestamp = now, te_Location = localZone r,
                       te_HourOfDay = hour_of now \<rparr>;
            hist = r_predictiveHistory r @ [entry]
        in r\<lparr> r_lastModelRequested := toModel,
              r_predictiveHistory := (if length hist > predictiveHistoryCap then drop 1 hist else hist),
              r_activePredictions :=
                map (\<lambda>p. if ap_Model p = toModel \<and> \<not> now > ap_ExpiresAt p then p\<lparr> ap_Met := True \<rparr> else p)
                  (r_activePredictions r),
              r_store := map_option (AppendPredictiveTransition fromModel toModel now) (r_store r) \<rparr>)"

definition SeedPredictiveHistory :: "transition_entry list \<Rightarrow> router \<Rightarrow> router" where
  "SeedPredictiveHistory entries r =
     (let es = (if length entries > predictiveHistoryCap
                then drop (length entries - predictiveHistoryCap) entries else entries);
          r1 = r\<lparr> r_predictiveHistory := es \<rparr>
      in if es \<noteq> [] then r1\<lparr> r_lastModelRequested := te_ToModel (last es) \<rparr> else r1)"

definition withAffinityLostDetail :: "string \<Rightarrow> bool \<Rightarrow> bool \<Rightarrow> string" where
  "withAffinityLostDetail detail bypassed lastResort =
     (if \<not> bypassed then detail @ '' (session affinity existed but its target node was no longer usable for this request)''
      else if lastResort then detail @ '' (the session pin was skipped for this request and kept)''
      else detail @ '' (session pin kept but skipped for this request: a replica member's host agent is not answering)'')"

text \<open>Whether the pinned node may serve the request at all, load aside.\<close>

definition hardValid :: "router \<Rightarrow> roles \<Rightarrow> string \<Rightarrow> string \<Rightarrow> node_state \<Rightarrow> bool" where
  "hardValid r roles modelName runtimeFilter node \<longleftrightarrow>
     (runtimeFilter = [] \<or> ns_Runtime node = runtimeFilter) \<and> isEligibleForModel r node modelName
     \<and> isGPUGroupSufficient node
     \<and> role_of roles (ns_Name node) \<noteq> RoleWorker \<and> role_of roles (ns_Name node) \<noteq> RoleUnresolved"

text \<open>What the pin of a session means for this request.\<close>

datatype pin_outcome =
  UsePin node_state   \<comment> \<open>route to the pinned node\<close>
| NoPin bool bool     \<comment> \<open>route normally: \<^verbatim>\<open>affinityLost\<close>, \<^verbatim>\<open>keepPin\<close>\<close>

definition checkPin :: "gotime \<Rightarrow> string \<Rightarrow> string \<Rightarrow> string \<Rightarrow> router \<Rightarrow> pin_outcome \<times> router" where
  "checkPin now sid modelName runtimeFilter r =
     (if sid = [] then (NoPin False False, r)
      else
        case stickyNode now sid r of
          ((None, hadEntry), r1) \<Rightarrow> (NoPin hadEntry False, r1)
        | ((Some node, _), r1) \<Rightarrow>
            (let (roles, heads) = scheduling_roles (r_nodes r1);
                 hv = hardValid r1 roles modelName runtimeFilter node
             in if hv \<and> role_of roles (ns_Name node) = RoleHead
                     \<and> gm_get (unreachableReplicaHeads (r_nodes r1) roles heads) (ns_Name node) \<noteq> None
                then (NoPin True True, r1)
                else if hv \<and> isUnderCapacity r1 node then (UsePin node, r1)
                else if \<not> hv then (NoPin True False, drop_pin sid r1)
                else (NoPin True False, r1)))"

definition pin_session :: "gotime \<Rightarrow> string \<Rightarrow> string \<Rightarrow> string \<Rightarrow> router \<Rightarrow> router" where
  "pin_session now sid nodeURL modelName r =
     (if length (r_affinity r) < maxAffinityEntries
      then r\<lparr> r_affinity := gm_put sid \<lparr> ae_nodeURL = nodeURL, ae_model = modelName, ae_lastSeen = now \<rparr> (r_affinity r) \<rparr>
      else r)"

definition RouteWithPrefix ::
  "(string \<Rightarrow> tag_model list option) \<Rightarrow> (gotime \<Rightarrow> int) \<Rightarrow> gotime \<Rightarrow> string \<Rightarrow> string \<Rightarrow> string \<Rightarrow> string
     \<Rightarrow> router \<Rightarrow> route_result \<times> router" where
  "RouteWithPrefix fetch_tags hour_of now modelName sessionID runtimeFilter preferredNode r =
     (let sid = (if \<not> r_sessionAffinity r then [] else sessionID) in
      case checkPin now sid modelName runtimeFilter r of
        (UsePin node, r1) \<Rightarrow>
          (let r2 = RecordTransition hour_of modelName now r1;
               warm = isModelWarm r2 node modelName;
               r3 = (if \<not> warm then reserveColdStartBytes fetch_tags now (ns_URL node) (ns_Name node) modelName r2 else r2)
           in ((Some node, warm,
                Some ((new_decision ReasonSessionAffinity)\<lparr> rd_Node := ns_Name node,
                        rd_Detail := ''sticky to node '' @ ns_Name node \<rparr>)),
               stampAffinityModel sid (ns_URL node) modelName r3))
      | (NoPin affinityLost keepPin, r1) \<Rightarrow>
          (case routeInternal fetch_tags now modelName runtimeFilter preferredNode r1 of
             ((None, warm, decision), r2) \<Rightarrow> ((None, warm, decision), r2)
           | ((Some node, warm, decision), r2) \<Rightarrow>
               (let r3 = RecordTransition hour_of modelName now r2;
                    r4 = (if sid \<noteq> [] \<and> \<not> keepPin then pin_session now sid (ns_URL node) modelName r3 else r3);
                    decision' = (if affinityLost
                       then map_option (\<lambda>d. d\<lparr> rd_AffinityLost := True,
                              rd_Detail := withAffinityLostDetail (rd_Detail d) keepPin (rd_lastResort d) \<rparr>) decision
                       else decision)
                in ((Some node, warm, decision'), r4))))"

definition Route ::
  "(string \<Rightarrow> tag_model list option) \<Rightarrow> (gotime \<Rightarrow> int) \<Rightarrow> gotime \<Rightarrow> string \<Rightarrow> string \<Rightarrow> string
     \<Rightarrow> router \<Rightarrow> route_result \<times> router" where
  "Route fetch_tags hour_of now modelName sessionID runtimeFilter r =
     RouteWithPrefix fetch_tags hour_of now modelName sessionID runtimeFilter [] r"

section \<open>Lemmas\<close>

text \<open>The transition history is a capped history of its own.\<close>

definition push_transition :: "transition_entry \<Rightarrow> transition_entry list \<Rightarrow> transition_entry list" where
  "push_transition e hist =
     (if length (hist @ [e]) > predictiveHistoryCap then drop 1 (hist @ [e]) else hist @ [e])"

interpretation transitions: capped_history push_transition predictiveHistoryCap
proof
  fix xs :: "transition_entry list" and x
  assume "length xs \<le> predictiveHistoryCap"
  then show "push_transition x xs = last_n predictiveHistoryCap (xs @ [x])"
    by (cases "length xs = predictiveHistoryCap") (auto simp: push_transition_def last_n_def)
qed

definition affinity_ok :: "router \<Rightarrow> bool" where
  "affinity_ok r \<longleftrightarrow> gm_wf (r_affinity r) \<and> length (r_affinity r) \<le> maxAffinityEntries"

lemma affinity_ok_cong: "r_affinity r' = r_affinity r \<Longrightarrow> affinity_ok r' = affinity_ok r"
  by (simp add: affinity_ok_def)

lemma affinity_ok_shrink:
  assumes "affinity_ok r" "r_affinity r' = gm_remove_if p (r_affinity r)"
  shows "affinity_ok r'"
  using assms gm_length_remove_if_le [of p "r_affinity r"] by (auto simp: affinity_ok_def)

lemma RecordTransition_frame [frame_simps]:
  "r_affinity (RecordTransition h m now r) = r_affinity r" "r_nodes (RecordTransition h m now r) = r_nodes r"
  "r_modelDigests (RecordTransition h m now r) = r_modelDigests r"
  "r_warmReserved (RecordTransition h m now r) = r_warmReserved r"
  by (simp_all add: RecordTransition_def Let_def)

lemma strip_affinity: "strip r' = strip r \<Longrightarrow> affinity_ok r' = affinity_ok r"
  by (rule affinity_ok_cong) (rule strip_fields(7))

lemma affinity_ok_drop_pin [inv_intros]: "affinity_ok r \<Longrightarrow> affinity_ok (drop_pin sid r)"
  using gm_length_del_le [of sid "r_affinity r"] by (auto simp: affinity_ok_def drop_pin_def)

lemma affinity_ok_put_existing:
  assumes "affinity_ok r" "gm_get (r_affinity r) sid = Some e" "r_affinity r' = gm_put sid e' (r_affinity r)"
  shows "affinity_ok r'"
  using assms gm_key [OF assms(2)] by (simp add: affinity_ok_def gm_length_put)

lemma affinity_ok_sticky [inv_intros]: "affinity_ok r \<Longrightarrow> affinity_ok (snd (stickyNode now sid r))"
  by (auto simp: stickyNode_def affinity_ok_drop_pin split: option.split
      intro: affinity_ok_put_existing)

lemma affinity_ok_stamp [inv_intros]: "affinity_ok r \<Longrightarrow> affinity_ok (stampAffinityModel sid u m r)"
  by (auto simp: stampAffinityModel_def split: option.split intro: affinity_ok_put_existing)

lemma affinity_ok_pin [inv_intros]: "affinity_ok r \<Longrightarrow> affinity_ok (pin_session now sid u m r)"
  using gm_length_put_le [of sid _ "r_affinity r"] by (auto simp: affinity_ok_def pin_session_def gm_length_put)

lemma affinity_ok_checkPin [inv_intros]: "affinity_ok r \<Longrightarrow> affinity_ok (snd (checkPin now sid m rt r))"
  using affinity_ok_sticky [of r now sid]
  by (auto simp: checkPin_def Let_def split: prod.split option.split intro: affinity_ok_drop_pin)

lemma stickyNode_nodes [simp]: "r_nodes (snd (stickyNode now sid r)) = r_nodes r"
  by (simp add: stickyNode_def drop_pin_def split: option.split)

text \<open>Everything a pin check may change is the map of pins.\<close>

definition unpin :: "router \<Rightarrow> router" where
  "unpin r = r\<lparr> r_affinity := [] \<rparr>"

lemma stickyNode_unpin: "unpin (snd (stickyNode now sid r)) = unpin r"
  by (simp add: stickyNode_def drop_pin_def unpin_def split: option.split)

lemma checkPin_unpin: "unpin (snd (checkPin now sid m rt r)) = unpin r"
proof (cases "sid = []")
  case False
  have d: "unpin (drop_pin sid r') = unpin r'" for r' by (simp add: unpin_def drop_pin_def)
  show ?thesis
    using stickyNode_unpin [of now sid r] False
    by (auto simp: checkPin_def Let_def d split: prod.split option.split)
qed (simp add: checkPin_def)

lemma unpin_fields:
  assumes "unpin r' = unpin r"
  shows "r_modelDigests r' = r_modelDigests r" "r_maxInFlightPerNode r' = r_maxInFlightPerNode r" "r_nodes r' = r_nodes r"
    "r_warmReserved r' = r_warmReserved r" "r_pinned r' = r_pinned r" "r_sessionAffinity r' = r_sessionAffinity r"
  using arg_cong [OF assms, of r_modelDigests] arg_cong [OF assms, of r_maxInFlightPerNode] arg_cong [OF assms, of r_nodes]
    arg_cong [OF assms, of r_warmReserved] arg_cong [OF assms, of r_pinned] arg_cong [OF assms, of r_sessionAffinity]
  by (simp_all add: unpin_def)

lemma checkPin_nodes: "r_nodes (snd (checkPin now sid m rt r)) = r_nodes r"
  by (rule unpin_fields(3) [OF checkPin_unpin])

lemma routable_unpin:
  assumes "unpin r' = unpin r"
  shows "routable r' = routable r" "isModelWarm r' = isModelWarm r" "isUnderCapacity r' = isUnderCapacity r"
    "isEligibleForModel r' = isEligibleForModel r"
proof -
  show w: "isModelWarm r' = isModelWarm r"
    by (intro ext) (simp add: isModelWarm_def digestMismatch_def unpin_fields(1) [OF assms])
  show c: "isUnderCapacity r' = isUnderCapacity r"
    by (intro ext) (simp add: isUnderCapacity_def unpin_fields(2) [OF assms])
  show e: "isEligibleForModel r' = isEligibleForModel r"
    by (intro ext) (simp add: isEligibleForModel_def w)
  show "routable r' = routable r" by (intro ext) (simp add: routable_def c e)
qed

lemma RouteWithPrefix_affinity_ok:
  assumes "affinity_ok r" "distinct (map ns_Name (r_nodes r))"
  shows "affinity_ok (snd (RouteWithPrefix ft h now m sid rt p r))"
proof -
  define s where "s = (if \<not> r_sessionAffinity r then [] else sid)"
  obtain out r1 where cp: "checkPin now s m rt r = (out, r1)" by (cases "checkPin now s m rt r")
  have r1: "affinity_ok r1" "r_nodes r1 = r_nodes r"
    using affinity_ok_checkPin [OF assms(1), of now s m rt] checkPin_nodes [of now s m rt r] cp by simp_all
  show ?thesis
  proof (cases out)
    case (UsePin node)
    define r2 where "r2 = RecordTransition h m now r1"
    have "affinity_ok r2" using r1(1) by (simp add: affinity_ok_def r2_def frame_simps)
    then have "affinity_ok (reserveColdStartBytes ft now (ns_URL node) (ns_Name node) m r2)"
      using strip_affinity [OF strip_cold] by blast
    with \<open>affinity_ok r2\<close> show ?thesis
      using cp UsePin unfolding RouteWithPrefix_def s_def [symmetric] Let_def
      by (simp add: r2_def affinity_ok_stamp)
  next
    case (NoPin lost keep)
    obtain node warm dec r2 where ri: "routeInternal ft now m rt p r1 = ((node, warm, dec), r2)" by (metis prod_cases3 prod.exhaust)
    have "strip r2 = strip r1"
      using filterAndSelect_strip [of "r_nodes r1" ft now m rt p "[]" r1] assms(2) r1(2) ri by (simp add: routeInternal_def)
    then have r2: "affinity_ok r2" using r1(1) strip_affinity by blast
    have r3: "affinity_ok (RecordTransition h m now r2)" using r2 by (simp add: affinity_ok_def frame_simps)
    show ?thesis
      using cp NoPin ri r2 r3 unfolding RouteWithPrefix_def s_def [symmetric] Let_def
      by (cases node) (simp_all add: affinity_ok_pin)
  qed
qed

lemma restore_loop_ok:
  "gm_wf m \<Longrightarrow> length m \<le> maxAffinityEntries \<Longrightarrow>
   gm_wf (snd (restore_loop now ttl ws k m)) \<and> length (snd (restore_loop now ttl ws k m)) \<le> maxAffinityEntries"
proof (induction ws arbitrary: k m)
  case (Cons w ws)
  show ?case
  proof (cases "time_is_zero (ar_LastSeen w) \<or> now - ar_LastSeen w \<ge> ttl \<or> length m \<ge> maxAffinityEntries")
    case True
    then show ?thesis using Cons by auto
  next
    case False
    let ?m = "gm_put (ar_SessionID w) \<lparr> ae_nodeURL = ar_NodeURL w, ae_model = [], ae_lastSeen = ar_LastSeen w \<rparr> m"
    have "length ?m \<le> maxAffinityEntries" using False by (auto simp: gm_length_put)
    then show ?thesis using Cons.IH [of ?m "k + 1"] Cons.prems False by auto
  qed
qed simp

lemma affinity_ok_restore [inv_intros]: "affinity_ok r \<Longrightarrow> affinity_ok (snd (RestoreAffinity now r))"
  by (cases "r_store r") (simp_all add: affinity_ok_def RestoreAffinity_def split_beta restore_loop_ok)

lemma affinity_ok_RemoveNode [inv_intros]: "affinity_ok r \<Longrightarrow> affinity_ok (RemoveNode name r)"
proof -
  have w: "r_affinity (delete_warm_rows n x) = r_affinity x" for n x by (simp add: delete_warm_rows_def split: option.split)
  have "r_affinity (RemoveNode name r) = r_affinity r \<or> (\<exists>p. r_affinity (RemoveNode name r) = gm_remove_if p (r_affinity r))"
    by (auto simp: RemoveNode_def Let_def w forget_name_def forget_url_def forget_host_def split_beta)
  then show "affinity_ok r \<Longrightarrow> affinity_ok (RemoveNode name r)"
    using affinity_ok_shrink affinity_ok_cong by blast
qed

lemma delete_warm_rows_affinity [simp]: "r_affinity (delete_warm_rows n r) = r_affinity r"
  by (simp add: delete_warm_rows_def split: option.split)

lemma AddNode_affinity [frame_simps]: "r_affinity (snd (AddNode lib now c r)) = r_affinity r"
  by (simp add: AddNode_def swapNodeForURLChange_def Let_def split: option.split)

lemma UpdateNodeURL_affinity [frame_simps]: "r_affinity (snd (UpdateNodeURL lib now n u r)) = r_affinity r"
  by (simp add: UpdateNodeURL_def swapNodeForURLChange_def Let_def split: option.split)

lemma affinity_ok_SyncNodes [inv_intros]: "affinity_ok r \<Longrightarrow> affinity_ok (fst (SyncNodes lib now cs r))"
proof -
  assume ok: "affinity_ok r"
  have add: "affinity_ok x \<Longrightarrow> affinity_ok (snd (AddNode lib now c x))" for c x
    by (simp add: affinity_ok_def frame_simps)
  have 1: "affinity_ok (fst acc) \<Longrightarrow> affinity_ok (fst (fold (sync_remove m) ns acc))" for m ns acc
    by (induction ns arbitrary: acc) (auto simp: sync_remove_def affinity_ok_RemoveNode split: prod.split)
  have 2: "affinity_ok (fst acc) \<Longrightarrow> affinity_ok (fst (fold (sync_add lib now cn) cs acc))" for cn acc
    by (induction cs arbitrary: acc) (auto simp: sync_add_def add affinity_ok_RemoveNode split: prod.split option.split)
  show ?thesis
    unfolding SyncNodes_def Let_def split_beta by (rule 2) (simp add: 1 ok)
qed

lemma upd_node_affinity [simp]: "r_affinity (upd_node n f r) = r_affinity r"
  by (simp add: upd_node_def)

lemma fireWebhook_affinity [simp]: "r_affinity (fireWebhook e n u r) = r_affinity r"
  by (simp add: fireWebhook_def)

lemma affinity_ok_registry_step: "registry_step lib r r' \<Longrightarrow> affinity_ok r \<Longrightarrow> affinity_ok r'"
proof (induction rule: registry_step.induct)
  case (remove r name)
  then show ?case by (rule affinity_ok_RemoveNode)
next
  case (sync r now cs)
  then show ?case by (rule affinity_ok_SyncNodes)
qed (simp_all add: affinity_ok_def frame_simps PatchNode_def DrainNode_def UndrainNode_def SetPrewarmDisabled_def
    RecordRequestOutcome_def split: option.split)

lemma RouteWithPrefix_nodes:
  assumes "distinct (map ns_Name (r_nodes r))"
  shows "r_nodes (snd (RouteWithPrefix ft h now m sid rt p r)) = r_nodes r"
proof -
  define s where "s = (if \<not> r_sessionAffinity r then [] else sid)"
  obtain out r1 where cp: "checkPin now s m rt r = (out, r1)" by (cases "checkPin now s m rt r")
  have r1: "r_nodes r1 = r_nodes r" using checkPin_nodes [of now s m rt r] cp by simp
  have stamp: "r_nodes (stampAffinityModel sid' u m r') = r_nodes r'" for sid' u r'
    by (simp add: stampAffinityModel_def split: option.split)
  show ?thesis
  proof (cases out)
    case (UsePin node)
    have "r_nodes (reserveColdStartBytes ft now (ns_URL node) (ns_Name node) m (RecordTransition h m now r1)) = r_nodes r"
      using strip_fields(6) [OF strip_cold] r1 by (simp add: frame_simps)
    then show ?thesis
      using cp UsePin r1 unfolding RouteWithPrefix_def s_def [symmetric] Let_def by (simp add: stamp frame_simps)
  next
    case (NoPin lost keep)
    obtain node warm dec r2 where ri: "routeInternal ft now m rt p r1 = ((node, warm, dec), r2)" by (metis prod_cases3 prod.exhaust)
    have "strip r2 = strip r1"
      using filterAndSelect_strip [of "r_nodes r1" ft now m rt p "[]" r1] assms r1 ri by (simp add: routeInternal_def)
    then have "r_nodes r2 = r_nodes r" using strip_fields(6) r1 by metis
    then show ?thesis
      using cp NoPin ri unfolding RouteWithPrefix_def s_def [symmetric] Let_def
      by (cases node) (simp_all add: frame_simps pin_session_def)
  qed
qed

section \<open>Properties\<close>

text \<open>
  What happens to the fleet, in any order: registry changes, requests routed by session or by exclusion, the usage and the size
  that answers and polls record, and the maintenance of pins.
\<close>

inductive fleet_step :: "('a url_lib_scheme) \<Rightarrow> router \<Rightarrow> router \<Rightarrow> bool" for lib where
  registry: "registry_step lib r r' \<Longrightarrow> fleet_step lib r r'"
| route: "fleet_step lib r (snd (RouteWithPrefix ft h now m sid rt p r))"
| retry: "fleet_step lib r (snd (RouteExcludingWithPrefix ft now m rt ex p r))"
| use_model: "fleet_step lib r (RecordModelUse now node m r)"
| size_seen: "fleet_step lib r (recordLastKnownVRAM node m sz r)"
| sweep: "fleet_step lib r (sweepAffinity now r)"
| flush: "fleet_step lib r (FlushAffinity r)"
| restore: "fleet_step lib r (snd (RestoreAffinity now r))"

definition fleet_ok :: "('a url_lib_scheme) \<Rightarrow> router \<Rightarrow> bool" where
  "fleet_ok lib r \<longleftrightarrow> registry_ok lib r \<and> affinity_ok r"

lemma fleet_ok_cong: "r_nodes r' = r_nodes r \<Longrightarrow> r_affinity r' = r_affinity r \<Longrightarrow> fleet_ok lib r' = fleet_ok lib r"
  using registry_ok_nodes_cong [of r' r lib] affinity_ok_cong [of r' r] by (simp add: fleet_ok_def)

lemma set_usage_frame:
  "r_nodes (set_last_used t r) = r_nodes r" "r_affinity (set_last_used t r) = r_affinity r"
  "r_nodes (set_last_known t' r) = r_nodes r" "r_affinity (set_last_known t' r) = r_affinity r"
  by (simp_all add: set_last_used_def set_last_known_def)

lemma usage_frame [frame_simps]:
  "r_nodes (RecordModelUse now node m r) = r_nodes r" "r_affinity (RecordModelUse now node m r) = r_affinity r"
  "r_nodes (recordLastKnownVRAM node m sz r) = r_nodes r" "r_affinity (recordLastKnownVRAM node m sz r) = r_affinity r"
  unfolding RecordModelUse_def recordLastKnownVRAM_def putLastKnownVRAM_def storeLastKnownLocked_def Let_def
    undoIfNodeRemoved_def stampLastUsedLocked_def forgetLastUsedForNode_def forgetLastKnownForNode_def
  by (simp_all only: set_usage_frame if_distrib [of r_nodes] if_distrib [of r_affinity] if_cancel)

lemma RouteExcludingWithPrefix_frame:
  assumes "distinct (map ns_Name (r_nodes r))"
  shows "r_nodes (snd (RouteExcludingWithPrefix ft now m rt ex p r)) = r_nodes r"
    "r_affinity (snd (RouteExcludingWithPrefix ft now m rt ex p r)) = r_affinity r"
proof -
  have "strip (snd (RouteExcludingWithPrefix ft now m rt ex p r)) = strip r"
    using filterAndSelect_strip [OF assms, of ft now m rt p ex r] by (simp add: RouteExcludingWithPrefix_def)
  then show "r_nodes (snd (RouteExcludingWithPrefix ft now m rt ex p r)) = r_nodes r"
    "r_affinity (snd (RouteExcludingWithPrefix ft now m rt ex p r)) = r_affinity r"
    by (rule strip_fields(6), rule strip_fields(7))
qed

lemma fleet_ok_step: "fleet_step lib r r' \<Longrightarrow> fleet_ok lib r \<Longrightarrow> fleet_ok lib r'"
proof (induction rule: fleet_step.induct)
  case (registry r r')
  then show ?case using registry_ok_step affinity_ok_registry_step by (auto simp: fleet_ok_def)
next
  case (route r ft h now m sid rt p)
  then have d: "distinct (map ns_Name (r_nodes r))" by (simp add: fleet_ok_def registry_ok_def)
  then show ?case
    using route RouteWithPrefix_affinity_ok [OF _ d] registry_ok_nodes_cong [where lib = lib, OF RouteWithPrefix_nodes [OF d]]
    by (simp add: fleet_ok_def)
next
  case (retry r ft now m rt ex p)
  then have "distinct (map ns_Name (r_nodes r))" by (simp add: fleet_ok_def registry_ok_def)
  note frame = RouteExcludingWithPrefix_frame [OF this, of ft now m rt ex p]
  from retry show ?case unfolding fleet_ok_cong [OF frame] .
next
  case (use_model r now node m)
  then show ?case by (simp add: fleet_ok_cong [OF usage_frame(1,2)])
next
  case (size_seen r node m sz)
  then show ?case by (simp add: fleet_ok_cong [OF usage_frame(3,4)])
next
  case (sweep r now)
  have "registry_ok lib (sweepAffinity now r) = registry_ok lib r"
    by (rule registry_ok_nodes_cong) (simp add: sweepAffinity_def)
  then show ?case using sweep affinity_ok_shrink [of r "sweepAffinity now r"] by (auto simp: fleet_ok_def sweepAffinity_def)
next
  case (flush r)
  then show ?case by (auto simp: fleet_ok_def FlushAffinity_def affinity_ok_def registry_ok_def split: option.split)
next
  case (restore r now)
  have "registry_ok lib (snd (RestoreAffinity now r)) = registry_ok lib r"
    by (rule registry_ok_nodes_cong) (simp add: RestoreAffinity_def split: option.split prod.split)
  then show ?case using restore affinity_ok_restore by (simp add: fleet_ok_def)
qed

text \<open>The sessions with a pin.\<close>

definition pinned_sessions :: "router \<Rightarrow> string set" where
  "pinned_sessions r = {sid. gm_get (r_affinity r) sid \<noteq> None}"

lemma pinned_sessions_card: "affinity_ok r \<Longrightarrow> card (pinned_sessions r) \<le> maxAffinityEntries"
proof -
  assume ok: "affinity_ok r"
  have "pinned_sessions r = fst ` set (r_affinity r)"
    using dom_map_of_conv_image_fst [of "r_affinity r"] by (simp add: pinned_sessions_def dom_def)
  then have "card (pinned_sessions r) \<le> length (r_affinity r)"
    by (metis card_image_le card_length finite_set le_trans)
  then show ?thesis using ok by (simp add: affinity_ok_def)
qed

text \<open>
  C16. The fleet invariant holds in every state reached from a router built by
  \<^verbatim>\<open>New\<close> for a configuration with unique names and URLs, by any sequence of
  registry changes, requests routed with a session or a list of excluded nodes,
  recorded uses and sizes, and affinity maintenance: no two nodes have the same
  name, no two have URLs that normalise to the same one, and at most
  \<^verbatim>\<open>maxAffinityEntries\<close> sessions are pinned, whatever session identifiers
  clients send.
\<close>

theorem fleet_invariant:
  assumes "registry_ok lib (New lib pd now cfg nodesCfg clouds)"
    and "(fleet_step lib)\<^sup>*\<^sup>* (New lib pd now cfg nodesCfg clouds) r"
  shows "distinct (map ns_Name (r_nodes r)) \<and> distinct (map (\<lambda>n. NormalizeNodeURL lib (ns_URL n)) (r_nodes r))
    \<and> card (pinned_sessions r) \<le> maxAffinityEntries"
proof -
  have "affinity_ok (New lib pd now cfg nodesCfg clouds)" by (simp add: affinity_ok_def New_def Let_def)
  then have "fleet_ok lib (New lib pd now cfg nodesCfg clouds)" using assms(1) by (simp add: fleet_ok_def)
  with assms(2) have "fleet_ok lib r"
    by (induction rule: rtranclp_induct) (auto intro: fleet_ok_step)
  then show ?thesis using pinned_sessions_card by (simp add: fleet_ok_def registry_ok_def)
qed

text \<open>A second node joins, its name and its URL are refused to others, requests are routed, retried and recorded.\<close>

definition demo_grown :: router where
  "demo_grown = snd (AddNode plain_lib 3 (demo_config ''c'' ''u2'') (snd (AddNode plain_lib 2 (demo_config ''a'' ''u3'')
     (snd (AddNode plain_lib 1 (demo_config ''b'' ''u2'') (demo_router [demo_config ''a'' ''u1'']))))))"

definition demo_used :: router where
  "demo_used = RecordModelUse 7 ''b'' ''m'' (recordLastKnownVRAM ''b'' ''m'' 5 (snd (RouteExcludingWithPrefix (\<lambda>_. None) 6 ''m'' [] [] []
     (snd (RouteWithPrefix (\<lambda>_. None) (\<lambda>_. 0) 5 ''m'' ''s1'' [] [] demo_grown)))))"

theorem fleet_invariant_witness:
  "map ns_Name (r_nodes demo_used) = [''a'', ''b''] \<and> distinct (map (\<lambda>n. NormalizeNodeURL plain_lib (ns_URL n)) (r_nodes demo_used))
     \<and> card (pinned_sessions demo_used) \<le> 10000"
proof -
  have names: "map ns_Name (r_nodes demo_grown) = [''a'', ''b'']" by code_simp
  then have d: "distinct (map ns_Name (r_nodes demo_grown))" by simp
  have nodes: "r_nodes demo_used = r_nodes demo_grown"
    by (simp add: demo_used_def frame_simps RouteExcludingWithPrefix_frame RouteWithPrefix_nodes d)
  have start: "registry_ok plain_lib (demo_router [demo_config ''a'' ''u1''])" by (simp add: registry_ok_def)
  have grown: "(fleet_step plain_lib)\<^sup>*\<^sup>* (demo_router [demo_config ''a'' ''u1'']) demo_grown"
    unfolding demo_grown_def
    by (rule rtranclp.rtrancl_into_rtrancl, rule rtranclp.rtrancl_into_rtrancl, rule rtranclp.rtrancl_into_rtrancl,
        rule rtranclp.rtrancl_refl) (rule fleet_step.registry, rule registry_step.add)+
  have run: "(fleet_step plain_lib)\<^sup>*\<^sup>* (demo_router [demo_config ''a'' ''u1'']) demo_used"
    unfolding demo_used_def
    by (rule rtranclp.rtrancl_into_rtrancl, rule rtranclp.rtrancl_into_rtrancl, rule rtranclp.rtrancl_into_rtrancl,
        rule rtranclp.rtrancl_into_rtrancl, rule grown)
      (rule fleet_step.route fleet_step.retry fleet_step.size_seen fleet_step.use_model)+
  show ?thesis
    using fleet_invariant [OF start [unfolded demo_router_def] run [unfolded demo_router_def]] names
    by (simp add: nodes maxAffinityEntries_def)
qed

text \<open>A pin the router may follow: fresh, and its node is the one with that URL.\<close>

definition live_pin :: "gotime \<Rightarrow> router \<Rightarrow> string \<Rightarrow> node_state \<Rightarrow> bool" where
  "live_pin now r sid n \<longleftrightarrow>
     r_sessionAffinity r \<and> sid \<noteq> []
     \<and> (\<exists>e. gm_get (r_affinity r) sid = Some e \<and> now - ae_lastSeen e < r_affinityTTL r
          \<and> find (\<lambda>x. ns_URL x = ae_nodeURL e) (r_nodes r) = Some n)"

lemma member_down_eq:
  "scheduling_roles nodes = (roles, heads) \<Longrightarrow>
   member_down nodes n \<longleftrightarrow> role_of roles (ns_Name n) = RoleHead
     \<and> gm_get (unreachableReplicaHeads nodes roles heads) (ns_Name n) \<noteq> None"
  by (simp add: member_down_def)

lemma routable_hardValid:
  "scheduling_roles nodes = (roles, heads) \<Longrightarrow>
   routable r nodes m rt n \<longleftrightarrow> hardValid r roles m rt n \<and> ns_Healthy n \<and> \<not> ns_Draining n \<and> isUnderCapacity r n"
  by (cases "role_of roles (ns_Name n)") (auto simp: routable_def hardValid_def)

lemma hardValid_unpin: assumes "unpin r' = unpin r" shows "hardValid r' = hardValid r"
  by (intro ext) (simp add: hardValid_def routable_unpin(4) [OF assms])

lemma RecordTransition_warm [frame_simps]: "isModelWarm (RecordTransition h m now r) = isModelWarm r"
  by (intro ext) (simp add: isModelWarm_def digestMismatch_def frame_simps)

lemma stickyNode_Some:
  assumes "stickyNode now sid r = ((Some n, b), r1)"
  shows "\<exists>e. gm_get (r_affinity r) sid = Some e \<and> now - ae_lastSeen e < r_affinityTTL r
      \<and> find (\<lambda>x. ns_URL x = ae_nodeURL e) (r_nodes r) = Some n
      \<and> r1 = r\<lparr> r_affinity := gm_put sid (e\<lparr> ae_lastSeen := now \<rparr>) (r_affinity r) \<rparr>"
    "ns_Healthy n" "\<not> ns_Draining n"
  using assms by (auto simp: stickyNode_def split: option.splits if_splits)

lemma checkPin_UsePin:
  assumes "checkPin now sid m rt r = (UsePin n, r1)"
  shows "sid \<noteq> []" "stickyNode now sid r = ((Some n, True), r1)" "routable r (r_nodes r) m rt n" "\<not> member_down (r_nodes r) n"
proof -
  show "sid \<noteq> []" using assms by (auto simp: checkPin_def)
  obtain roles heads where rh: "scheduling_roles (r_nodes r) = (roles, heads)" by (cases "scheduling_roles (r_nodes r)")
  obtain x b r1' where st: "stickyNode now sid r = ((x, b), r1')" by (metis prod.exhaust)
  have nodes: "r_nodes r1' = r_nodes r" using stickyNode_nodes [of now sid r] st by simp
  have un: "unpin r1' = unpin r" using stickyNode_unpin [of now sid r] st by simp
  from assms \<open>sid \<noteq> []\<close> st nodes rh have f: "x = Some n" "r1' = r1" "hardValid r1 roles m rt n" "isUnderCapacity r1 n"
    "\<not> (role_of roles (ns_Name n) = RoleHead \<and> gm_get (unreachableReplicaHeads (r_nodes r) roles heads) (ns_Name n) \<noteq> None)"
    by (auto simp: checkPin_def Let_def split: option.splits if_splits)
  have "b = True" using st f(1) by (auto simp: stickyNode_def split: option.splits if_splits)
  then show sn: "stickyNode now sid r = ((Some n, True), r1)" using st f(1,2) by simp
  show "routable r (r_nodes r) m rt n"
    using f(3,4) stickyNode_Some(2,3) [OF sn] f(2)
    by (simp add: routable_hardValid [OF rh] hardValid_unpin [OF un, unfolded f(2)] routable_unpin(3) [OF un, unfolded f(2)])
  show "\<not> member_down (r_nodes r) n" using f(5) by (simp add: member_down_eq [OF rh])
qed

lemma checkPin_live:
  assumes "live_pin now r sid n" "routable r (r_nodes r) m rt n" "\<not> member_down (r_nodes r) n"
  shows "\<exists>e. gm_get (r_affinity r) sid = Some e \<and> ns_URL n = ae_nodeURL e \<and>
    checkPin now sid m rt r = (UsePin n, r\<lparr> r_affinity := gm_put sid (e\<lparr> ae_lastSeen := now \<rparr>) (r_affinity r) \<rparr>)"
proof -
  obtain e where e: "gm_get (r_affinity r) sid = Some e" "now - ae_lastSeen e < r_affinityTTL r"
    "find (\<lambda>x. ns_URL x = ae_nodeURL e) (r_nodes r) = Some n" and sid: "sid \<noteq> []"
    using assms(1) by (auto simp: live_pin_def)
  obtain roles heads where rh: "scheduling_roles (r_nodes r) = (roles, heads)" by (cases "scheduling_roles (r_nodes r)")
  define r1 where "r1 = r\<lparr> r_affinity := gm_put sid (e\<lparr> ae_lastSeen := now \<rparr>) (r_affinity r) \<rparr>"
  have un: "unpin r1 = unpin r" by (simp add: r1_def unpin_def)
  have nd: "r_nodes r1 = r_nodes r" by (simp add: r1_def)
  note ok = assms(2) [unfolded routable_hardValid [OF rh]]
  have st: "stickyNode now sid r = ((Some n, True), r1)" using e ok by (simp add: stickyNode_def r1_def)
  have "checkPin now sid m rt r = (UsePin n, r1)"
    using sid ok assms(3)
    by (auto simp: checkPin_def st nd rh Let_def hardValid_unpin [OF un] routable_unpin(3) [OF un] member_down_eq [OF rh])
  moreover have "ns_URL n = ae_nodeURL e" using e(3) by (auto simp: find_Some_iff)
  ultimately show ?thesis using e(1) by (auto simp: r1_def)
qed

lemma candidates_unpin:
  assumes "unpin r' = unpin r"
  shows "candidates_of r' nodes m rt ex = candidates_of r nodes m rt ex"
  by (simp add: candidates_of_def routable_unpin(1) [OF assms] Let_def)

text \<open>
  C10. Session affinity never overrides a hard constraint: whether a request
  follows its pin or is placed afresh, the node it gets belongs to the fleet,
  passes every hard check and is reported warm exactly when it is.  A decision
  labelled as session affinity goes to the node the session is pinned to, within
  the time-to-live.  A head with an unreachable member is only used as the
  flagged last resort.
\<close>

theorem affinity_route_safe:
  assumes "distinct (map ns_Name (r_nodes r))"
    and "fst (RouteWithPrefix ft h now m sid rt p r) = (Some w, warm, dec)"
  shows "w \<in> set (r_nodes r) \<and> routable r (r_nodes r) m rt w \<and> warm = isModelWarm r w m
    \<and> (\<exists>d. dec = Some d \<and> rd_Node d = ns_Name w
         \<and> (rd_Reason d = ReasonSessionAffinity \<longrightarrow> live_pin now r sid w)
         \<and> (member_down (r_nodes r) w \<longrightarrow> rd_lastResort d
              \<and> (\<forall>n \<in> set (r_nodes r). routable r (r_nodes r) m rt n \<longrightarrow> member_down (r_nodes r) n)))"
proof -
  define s where "s = (if \<not> r_sessionAffinity r then [] else sid)"
  obtain out r1 where cp: "checkPin now s m rt r = (out, r1)" by (cases "checkPin now s m rt r")
  have un: "unpin r1 = unpin r" using checkPin_unpin [of now s m rt r] cp by simp
  note res = assms(2) [unfolded RouteWithPrefix_def s_def [symmetric] Let_def cp prod.case]
  show ?thesis
  proof (cases out)
    case (UsePin n)
    note up = checkPin_UsePin [OF cp [unfolded UsePin]]
    have w: "w = n" "warm = isModelWarm r n m" and
      d: "dec = Some ((new_decision ReasonSessionAffinity)\<lparr> rd_Node := ns_Name n, rd_Detail := ''sticky to node '' @ ns_Name n \<rparr>)"
      using res UsePin by (auto simp: frame_simps routable_unpin(2) [OF un])
    have lp: "live_pin now r sid n"
      using stickyNode_Some(1) [OF up(2)] up(1) by (auto simp: live_pin_def s_def split: if_splits)
    have "n \<in> set (r_nodes r)" using lp by (auto simp: live_pin_def find_Some_iff)
    then show ?thesis using up(3,4) lp by (simp add: w d)
  next
    case (NoPin lost keep)
    obtain node wm dc r2 where ri: "routeInternal ft now m rt p r1 = ((node, wm, dc), r2)" by (metis prod_cases3 prod.exhaust)
    have nd: "r_nodes r1 = r_nodes r" using un by (rule unpin_fields(3))
    have f: "node = Some w" "wm = warm" "dec = (if lost
         then map_option (\<lambda>d. d\<lparr> rd_AffinityLost := True, rd_Detail := withAffinityLostDetail (rd_Detail d) keep (rd_lastResort d) \<rparr>) dc
         else dc)"
      using res NoPin ri by (auto split: option.splits)
    have fs: "fst (filterAndSelect ft now (r_nodes r) m rt p [] r1) = (Some w, warm, dc)"
      using ri f(1,2) by (simp add: routeInternal_def nd)
    obtain d where d: "w \<in> set (candidates_of r1 (r_nodes r) m rt [])" "warm = isModelWarm r1 w m" "dc = Some d"
      "rd_Node d = ns_Name w" "rd_lastResort d \<longleftrightarrow> member_down (r_nodes r) w" "rd_NoRoute d = None"
      "rd_Reason d \<in> {ReasonPinnedWarm, ReasonScoreBased}"
      "best_among now r1 m p
          (if pinned_warm r1 m (candidates_of r1 (r_nodes r) m rt []) \<noteq> {} then pinned_warm r1 m (candidates_of r1 (r_nodes r) m rt [])
           else set (candidates_of r1 (r_nodes r) m rt [])) w"
      using filterAndSelect_Some [OF assms(1) fs] .
    have w: "w \<in> set (candidates_of r (r_nodes r) m rt [])" using d(1) by (simp add: candidates_unpin [OF un])
    have seen: "seen [] (r_nodes r) = r_nodes r" by (simp add: seen_def gm_at_def)
    obtain d' where d': "dec = Some d'" "rd_Node d' = ns_Name w" "rd_Reason d' \<noteq> ReasonSessionAffinity"
      "rd_lastResort d' \<longleftrightarrow> member_down (r_nodes r) w"
      using f(3) d(3-5,7) by (cases lost) auto
    show ?thesis
      using candidates_sound [OF w, unfolded seen] d' d(2) routable_unpin(2) [OF un] by auto
  qed
qed

lemma demo_one_live: "live_pin 9 (demo_one\<lparr> r_affinity := [(''s1'', \<lparr> ae_nodeURL = [], ae_model = [], ae_lastSeen = 5 \<rparr>)] \<rparr>) ''s1'' (demo_healthy ''a'')"
  by (simp add: live_pin_def demo_one_def demo_healthy_def zero_node_def duration_defs)

definition demo_pinned :: router where
  "demo_pinned = demo_one\<lparr> r_affinity := [(''s1'', \<lparr> ae_nodeURL = [], ae_model = [], ae_lastSeen = 5 \<rparr>)] \<rparr>"

lemma demo_pinned_ok:
  "routable demo_pinned (r_nodes demo_pinned) ''m'' [] (demo_healthy ''a'')" "\<not> member_down (r_nodes demo_pinned) (demo_healthy ''a'')"
  "distinct (map ns_Name (r_nodes demo_pinned))" "live_pin 9 demo_pinned ''s1'' (demo_healthy ''a'')"
proof -
  have "unpin demo_pinned = unpin demo_one" by (simp add: demo_pinned_def unpin_def)
  then have "routable demo_pinned = routable demo_one" by (rule routable_unpin(1))
  then show "routable demo_pinned (r_nodes demo_pinned) ''m'' [] (demo_healthy ''a'')"
    using demo_routable by (simp add: demo_pinned_def demo_one_def)
  show "\<not> member_down (r_nodes demo_pinned) (demo_healthy ''a'')"
    using roles_no_peers [of "[demo_healthy ''a'']" "demo_healthy ''a''"]
    by (simp add: member_down_def demo_pinned_def demo_one_def demo_healthy_def zero_node_def)
  show "distinct (map ns_Name (r_nodes demo_pinned))" by (simp add: demo_pinned_def demo_one_def)
  show "live_pin 9 demo_pinned ''s1'' (demo_healthy ''a'')" using demo_one_live by (simp add: demo_pinned_def)
qed

text \<open>
  Stickiness: a session with a fresh pin whose node still passes every check
  (health, drain, runtime, eligibility, capacity, GPUs, role, reachable
  members) is routed to that node, whatever other nodes score, and the pin is
  renewed with the current time and model.  Every other session's pin is left alone.
\<close>

lemma session_sticks_to_its_node:
  assumes "live_pin now r sid n" "routable r (r_nodes r) m rt n" "\<not> member_down (r_nodes r) n"
  shows "\<exists>warm d r'. RouteWithPrefix ft h now m sid rt p r = ((Some n, warm, Some d), r')
    \<and> rd_Reason d = ReasonSessionAffinity \<and> rd_AffinityLost d = False
    \<and> gm_get (r_affinity r') sid = Some \<lparr> ae_nodeURL = ns_URL n, ae_model = m, ae_lastSeen = now \<rparr>
    \<and> (\<forall>s. s \<noteq> sid \<longrightarrow> gm_get (r_affinity r') s = gm_get (r_affinity r) s)"
proof -
  obtain e where e: "gm_get (r_affinity r) sid = Some e" "ns_URL n = ae_nodeURL e"
    "checkPin now sid m rt r = (UsePin n, r\<lparr> r_affinity := gm_put sid (e\<lparr> ae_lastSeen := now \<rparr>) (r_affinity r) \<rparr>)"
    using checkPin_live [OF assms] by blast
  have on: "r_sessionAffinity r" using assms(1) by (simp add: live_pin_def)
  define r1 where "r1 = r\<lparr> r_affinity := gm_put sid (e\<lparr> ae_lastSeen := now \<rparr>) (r_affinity r) \<rparr>"
  define r2 where "r2 = RecordTransition h m now r1"
  define r3 where "r3 = (if \<not> isModelWarm r2 n m then reserveColdStartBytes ft now (ns_URL n) (ns_Name n) m r2 else r2)"
  have "strip r3 = strip r2" by (simp add: r3_def)
  then have "r_affinity r3 = r_affinity r2" by (rule strip_fields(7))
  then have a3: "r_affinity r3 = gm_put sid (e\<lparr> ae_lastSeen := now \<rparr>) (r_affinity r)" by (simp add: r2_def r1_def frame_simps)
  have eq: "RouteWithPrefix ft h now m sid rt p r =
    ((Some n, isModelWarm r2 n m, Some ((new_decision ReasonSessionAffinity)\<lparr> rd_Node := ns_Name n, rd_Detail := ''sticky to node '' @ ns_Name n \<rparr>)),
     stampAffinityModel sid (ns_URL n) m r3)"
    using e(3) on unfolding RouteWithPrefix_def Let_def by (simp add: r1_def [symmetric] r2_def [symmetric] r3_def)
  have "gm_get (r_affinity (stampAffinityModel sid (ns_URL n) m r3)) sid = Some \<lparr> ae_nodeURL = ns_URL n, ae_model = m, ae_lastSeen = now \<rparr>"
    using e(2) by (cases e) (auto simp: stampAffinityModel_def a3 gm_get_put)
  moreover have "gm_get (r_affinity (stampAffinityModel sid (ns_URL n) m r3)) s = gm_get (r_affinity r) s" if "s \<noteq> sid" for s
    using that by (simp add: stampAffinityModel_def a3 gm_get_put)
  ultimately show ?thesis unfolding eq by auto
qed

theorem affinity_route_safe_witness:
  "\<exists>w. fst (fst (RouteWithPrefix (\<lambda>_. None) (\<lambda>_. 0) 9 ''m'' ''s1'' [] [] demo_pinned)) = Some w \<and> ns_Healthy w"
proof -
  obtain e where "checkPin 9 ''s1'' ''m'' [] demo_pinned =
      (UsePin (demo_healthy ''a''), demo_pinned\<lparr> r_affinity := gm_put ''s1'' (e\<lparr> ae_lastSeen := 9 \<rparr>) (r_affinity demo_pinned) \<rparr>)"
    using checkPin_live [OF demo_pinned_ok(4,1,2)] by blast
  moreover have "r_sessionAffinity demo_pinned" using demo_pinned_ok(4) by (simp add: live_pin_def)
  ultimately obtain warm dec where f: "fst (RouteWithPrefix (\<lambda>_. None) (\<lambda>_. 0) 9 ''m'' ''s1'' [] [] demo_pinned) = (Some (demo_healthy ''a''), warm, dec)"
    by (simp add: RouteWithPrefix_def Let_def)
  show ?thesis using affinity_route_safe [OF demo_pinned_ok(3) f] f by (auto simp: routable_def)
qed

section \<open>Snapshot and restart\<close>

definition fresh_row :: "gotime \<Rightarrow> duration \<Rightarrow> affinity_record \<Rightarrow> bool" where
  "fresh_row now ttl w \<longleftrightarrow> \<not> time_is_zero (ar_LastSeen w) \<and> now - ar_LastSeen w < ttl"

definition entry_of_row :: "affinity_record \<Rightarrow> affinity_entry" where
  "entry_of_row w = \<lparr> ae_nodeURL = ar_NodeURL w, ae_model = [], ae_lastSeen = ar_LastSeen w \<rparr>"

lemma restore_loop_all:
  "length m + length ws \<le> maxAffinityEntries \<Longrightarrow>
   restore_loop now ttl ws k m =
     (k + int (length (filter (fresh_row now ttl) ws)),
      fold (\<lambda>w. gm_put (ar_SessionID w) (entry_of_row w)) (filter (fresh_row now ttl) ws) m)"
proof (induction ws arbitrary: k m)
  case (Cons w ws)
  have "length (gm_put (ar_SessionID w) (entry_of_row w) m) \<le> Suc (length m)" by (rule gm_length_put_le)
  then have "length (gm_put (ar_SessionID w) (entry_of_row w) m) + length ws \<le> maxAffinityEntries"
    using Cons.prems by simp
  note ih = Cons.IH [OF this, of "k + 1"]
  show ?case
    using Cons.IH [of m k] ih Cons.prems by (auto simp: fresh_row_def entry_of_row_def)
qed simp

text \<open>The entry a restarted router has for a session, if its second-resolution stamp is fresh.\<close>

definition restored_entry :: "gotime \<Rightarrow> duration \<Rightarrow> affinity_entry \<Rightarrow> affinity_entry option" where
  "restored_entry now ttl e =
     (let seen = ae_lastSeen e div second * second in
      if now - seen < ttl then Some \<lparr> ae_nodeURL = ae_nodeURL e, ae_model = [], ae_lastSeen = seen \<rparr> else None)"

definition row_of :: "string \<times> affinity_entry \<Rightarrow> affinity_record" where
  "row_of x = \<lparr> ar_SessionID = fst x, ar_NodeURL = ae_nodeURL (snd x), ar_LastSeen = ae_lastSeen (snd x) \<rparr>"

lemma stored_seen:
  assumes "second \<le> t"
  shows "warmUnixToUsed (warmUsedToUnix t) = t div second * second" "\<not> time_is_zero (t div second * second)"
proof -
  have s: "0 < second" by (simp add: duration_defs)
  have "1 \<le> t div second" using assms s by (simp add: pos_imp_zdiv_pos_iff [symmetric] int_one_le_iff_zero_less)
  then have d: "0 < t div second" by simp
  have "t \<noteq> time_zero" using assms s by (simp add: time_zero_def)
  then show "warmUnixToUsed (warmUsedToUnix t) = t div second * second"
    using d by (simp add: warmUnixToUsed_def warmUsedToUnix_def time_is_zero_def)
  have "0 < t div second * second" using d s by simp
  then show "\<not> time_is_zero (t div second * second)" by (simp add: time_is_zero_def time_zero_def)
qed

lemma restored_row:
  assumes "second \<le> ae_lastSeen e"
  shows "fresh_row now ttl (stored_record (row_of (sid, e))) \<longleftrightarrow> restored_entry now ttl e \<noteq> None"
    "restored_entry now ttl e = Some e' \<Longrightarrow> entry_of_row (stored_record (row_of (sid, e))) = e'"
  using stored_seen [OF assms]
  by (auto simp: fresh_row_def stored_record_def row_of_def restored_entry_def entry_of_row_def Let_def split: if_splits)

lemma restore_map:
  "\<forall>(sid, e) \<in> set m. second \<le> ae_lastSeen e \<Longrightarrow>
   map (\<lambda>w. (ar_SessionID w, entry_of_row w)) (filter (fresh_row now ttl) (map (\<lambda>x. stored_record (row_of x)) m)) =
     List.map_filter (\<lambda>(sid, e). map_option (Pair sid) (restored_entry now ttl e)) m"
proof (induction m)
  case (Cons x m)
  obtain sid e where x: "x = (sid, e)" by (cases x)
  have s: "second \<le> ae_lastSeen e" using Cons.prems x by simp
  note r = restored_row [OF s, where now = now and ttl = ttl and sid = sid]
  have id: "ar_SessionID (stored_record (row_of (sid, e))) = sid" by (simp add: stored_record_def row_of_def)
  show ?case
    using Cons r by (cases "restored_entry now ttl e") (simp_all add: x id map_filter_simps)
qed (simp add: map_filter_simps)

lemma map_filter_get:
  "gm_wf m \<Longrightarrow> map_of (List.map_filter (\<lambda>(k, e). map_option (Pair k) (f e)) m) k = Option.bind (gm_get m k) f"
  "fst ` set (List.map_filter (\<lambda>(k, e). map_option (Pair k) (f e)) m) \<subseteq> fst ` set m"
proof -
  show sub: "fst ` set (List.map_filter (\<lambda>(k, e). map_option (Pair k) (f e)) m) \<subseteq> fst ` set m" for m
    by (induction m) (auto simp: map_filter_simps split: option.split)
  show "gm_wf m \<Longrightarrow> map_of (List.map_filter (\<lambda>(k, e). map_option (Pair k) (f e)) m) k = Option.bind (gm_get m k) f"
  proof (induction m)
    case (Cons x m)
    obtain j e where x: "x = (j, e)" by (cases x)
    have wf: "gm_wf m" "j \<notin> fst ` set m" using Cons.prems by (auto simp: gm_wf_def x)
    have none: "map_of (List.map_filter (\<lambda>(k, e). map_option (Pair k) (f e)) m) j = None"
      using wf(2) sub [of m] by (auto simp: map_of_eq_None_iff)
    show ?case using Cons.IH [OF wf(1)] none by (cases "f e") (auto simp: x map_filter_simps)
  qed (simp add: map_filter_simps)
qed

lemma map_filter_wf: "gm_wf m \<Longrightarrow> gm_wf (List.map_filter (\<lambda>(k, e). map_option (Pair k) (f e)) m)"
proof (induction m)
  case (Cons x m)
  obtain j e where x: "x = (j, e)" by (cases x)
  have wf: "gm_wf m" "j \<notin> fst ` set m" using Cons.prems by (auto simp: gm_wf_def x)
  have "j \<notin> fst ` set (List.map_filter (\<lambda>(k, e). map_option (Pair k) (f e)) m)"
    using wf(2) map_filter_get(2) [where f = f and m = m] by blast
  then show ?case using Cons.IH [OF wf(1)] by (cases "f e") (auto simp: x map_filter_simps gm_wf_def)
qed (simp add: map_filter_simps)

text \<open>
  C37. A snapshot survives a restart: flushing the pins and restoring them into
  a fresh router gives back exactly the sessions whose last use, cut to
  whole seconds as the store keeps it, is still within the time-to-live, each
  pinned to the same node with that stamp and no model; the call reports their number.
\<close>

theorem affinity_survives_restart:
  assumes "affinity_ok r" "r_store r = Some st" "\<forall>(sid, e) \<in> set (r_affinity r). second \<le> ae_lastSeen e"
    and "r_store r0 = r_store (FlushAffinity r)" "r_affinity r0 = []"
    and "RestoreAffinity now r0 = (k, r')"
  shows "gm_get (r_affinity r') sid = Option.bind (gm_get (r_affinity r) sid) (restored_entry now (r_affinityTTL r0))
    \<and> k = int (card {s \<in> fst ` set (r_affinity r). Option.bind (gm_get (r_affinity r) s) (restored_entry now (r_affinityTTL r0)) \<noteq> None})"
proof -
  let ?m = "r_affinity r" let ?f = "restored_entry now (r_affinityTTL r0)"
  have wf: "gm_wf ?m" and len: "length ?m \<le> maxAffinityEntries" using assms(1) by (auto simp: affinity_ok_def)
  have st0: "r_store r0 = Some (SnapshotAffinity (map row_of ?m) st)"
    using assms(2,4) by (simp add: FlushAffinity_def row_of_def [abs_def] split_def)
  let ?ws = "map (\<lambda>x. stored_record (row_of x)) ?m"
  let ?kvs = "List.map_filter (\<lambda>(sid, e). map_option (Pair sid) (?f e)) ?m"
  have rl: "restore_loop now (r_affinityTTL r0) ?ws 0 [] =
      (int (length ?kvs), fold (\<lambda>(k, v). gm_put k v) ?kvs [])"
    using restore_loop_all [of "[]" ?ws now "r_affinityTTL r0" 0] len restore_map [OF assms(3), of now "r_affinityTTL r0", symmetric]
    by (simp add: fold_map comp_def)
  then have r': "k = int (length ?kvs)" "r_affinity r' = fold (\<lambda>(k, v). gm_put k v) ?kvs []"
    using assms(5,6) st0 by (auto simp: RestoreAffinity_def SnapshotAffinity_def comp_def)
  have wfk: "gm_wf ?kvs" using wf by (rule map_filter_wf)
  have "gm_get (r_affinity r') sid = gm_get ?kvs sid"
    unfolding r'(2) gm.fold_put_get gm_get_rev [OF wfk] by (simp split: option.split)
  also have "\<dots> = Option.bind (gm_get ?m sid) ?f" using wf by (rule map_filter_get(1))
  finally have get: "gm_get (r_affinity r') sid = Option.bind (gm_get ?m sid) ?f" .
  have "fst ` set ?kvs = {s \<in> fst ` set ?m. Option.bind (gm_get ?m s) ?f \<noteq> None}"
  proof (rule set_eqI)
    fix s
    have "s \<in> fst ` set ?kvs \<longleftrightarrow> gm_get ?kvs s \<noteq> None" by (simp add: gm_key_iff)
    also have "\<dots> \<longleftrightarrow> Option.bind (gm_get ?m s) ?f \<noteq> None" by (simp only: map_filter_get(1) [OF wf])
    also have "\<dots> \<longleftrightarrow> s \<in> {s \<in> fst ` set ?m. Option.bind (gm_get ?m s) ?f \<noteq> None}"
      by (cases "gm_get ?m s") (auto dest: gm_key)
    finally show "s \<in> fst ` set ?kvs \<longleftrightarrow> s \<in> {s \<in> fst ` set ?m. Option.bind (gm_get ?m s) ?f \<noteq> None}" .
  qed
  moreover have "length ?kvs = card (fst ` set ?kvs)" using distinct_card [OF wfk [unfolded gm_wf_def]] by simp
  ultimately show ?thesis using get r'(1) by simp
qed

definition demo_stored :: router where
  "demo_stored = (demo_router [])\<lparr> r_affinity := [(''s1'', \<lparr> ae_nodeURL = ''u1'', ae_model = ''m'', ae_lastSeen = 2500000000 \<rparr>)],
     r_store := Some \<lparr> sr_warm = [], sr_affinity = [], sr_transitions = [], sr_drains = [] \<rparr> \<rparr>"

theorem affinity_survives_restart_witness:
  "gm_get (r_affinity (snd (RestoreAffinity 3000000000 (demo_stored\<lparr> r_affinity := [], r_store := r_store (FlushAffinity demo_stored) \<rparr>)))) ''s1''
     = Some \<lparr> ae_nodeURL = ''u1'', ae_model = [], ae_lastSeen = 2000000000 \<rparr>"
proof -
  define r0 where "r0 = demo_stored\<lparr> r_affinity := [], r_store := r_store (FlushAffinity demo_stored) \<rparr>"
  obtain k r' where rs: "RestoreAffinity 3000000000 r0 = (k, r')" by (cases "RestoreAffinity 3000000000 r0")
  have ok: "affinity_ok demo_stored" by (simp add: affinity_ok_def demo_stored_def gm_wf_def maxAffinityEntries_def)
  have st: "r_store demo_stored = Some \<lparr> sr_warm = [], sr_affinity = [], sr_transitions = [], sr_drains = [] \<rparr>" by (simp add: demo_stored_def)
  have ls: "\<forall>(sid, e) \<in> set (r_affinity demo_stored). second \<le> ae_lastSeen e" by (simp add: demo_stored_def duration_defs)
  have "gm_get (r_affinity r') ''s1'' = Option.bind (gm_get (r_affinity demo_stored) ''s1'') (restored_entry 3000000000 (r_affinityTTL r0))"
    using affinity_survives_restart [OF ok st ls _ _ rs] by (simp add: r0_def)
  also have "\<dots> = Some \<lparr> ae_nodeURL = ''u1'', ae_model = [], ae_lastSeen = 2000000000 \<rparr>"
    by (simp add: demo_stored_def restored_entry_def r0_def duration_defs)
  finally show ?thesis using rs by (simp add: r0_def)
qed

text \<open>
  With a full map of pins the router cannot move a session it already
  tracks: when the session's pin has expired, the request is placed afresh but
  the map is not written, so the expired pin stays and every later request of the
  session loses its affinity again until a sweep makes room.
\<close>

lemma full_map_freezes_expired_pin:
  assumes "distinct (map ns_Name (r_nodes r))" "r_sessionAffinity r" "sid \<noteq> []"
    and "gm_get (r_affinity r) sid = Some e" "now - ae_lastSeen e \<ge> r_affinityTTL r"
    and "length (r_affinity r) \<ge> maxAffinityEntries"
  shows "r_affinity (snd (RouteWithPrefix ft h now m sid rt p r)) = r_affinity r"
proof -
  have cp: "checkPin now sid m rt r = (NoPin True False, r)"
    using assms(3-5) by (simp add: checkPin_def stickyNode_def)
  obtain node warm dec r2 where ri: "routeInternal ft now m rt p r = ((node, warm, dec), r2)" by (metis prod_cases3 prod.exhaust)
  have "strip r2 = strip r"
    using filterAndSelect_strip [OF assms(1), of ft now m rt p "[]" r] ri by (simp add: routeInternal_def)
  then have "r_affinity r2 = r_affinity r" by (rule strip_fields(7))
  then show ?thesis
    using cp ri assms(2,6) unfolding RouteWithPrefix_def Let_def
    by (cases node) (simp_all add: frame_simps pin_session_def)
qed

definition demo_full :: router where
  "demo_full = demo_one\<lparr> r_affinityTTL := 10, r_affinity :=
     (''s1'', \<lparr> ae_nodeURL = ''u9'', ae_model = ''m'', ae_lastSeen = 0 \<rparr>)
     # map (\<lambda>i. (replicate i (CHR ''x''), \<lparr> ae_nodeURL = ''u9'', ae_model = ''m'', ae_lastSeen = 95 \<rparr>)) [0..<9999] \<rparr>"

end
