(* ===== verification/Eviction.thy ===== *)
theory Eviction
  imports Affinity
begin

text \<open>
  Making room for a model (\<^verbatim>\<open>internal/router/eviction.go\<close>): warm priorities,
  suppressed warmups, unloads, the eviction loop, the per-node cooldown and the
  headroom check in front of a warm load.

  The backend's answers are the environment: \<open>env k\<close> is what the \<open>k\<close>-th round of the loop
  observes, the node's in-flight counts re-read just before the unload and whether
  the unload request succeeded.  The in-flight counters are \<^verbatim>\<open>int32\<close>; sums of
  them stay far below the limit.
\<close>

section \<open>Warm priorities and suppressed warmups\<close>

definition setWarmPriority :: "string \<Rightarrow> string list \<Rightarrow> router \<Rightarrow> router" where
  "setWarmPriority node ranked r =
     r\<lparr> r_warmPriority :=
          gm_put node (fold (\<lambda>(i, m). gm_put m (int i)) (enumerate 0 ranked) []) (r_warmPriority r) \<rparr>"

text \<open>The rank, \<open>None\<close> when the model is not ranked on the node.\<close>

definition warmRank :: "router \<Rightarrow> string \<Rightarrow> string \<Rightarrow> int option" where
  "warmRank r node model =
     (let ranks = gm_at [] (r_warmPriority r) node in
      case gm_get ranks model of
        Some rk \<Rightarrow> Some rk
      | None \<Rightarrow>
          foldl (\<lambda>best (name, rk).
              if ModelNamesEquivalent name model \<and> (case best of None \<Rightarrow> True | Some b \<Rightarrow> rk < b) then Some rk else best)
            None ranks)"

definition suppressed_of :: "router \<Rightarrow> string \<Rightarrow> (string, suppressed_info) gomap" where
  "suppressed_of r node = gm_at [] (r_warmupSuppressed r) node"

definition suppressWarmup :: "gotime \<Rightarrow> string \<Rightarrow> string \<Rightarrow> string \<Rightarrow> router \<Rightarrow> router" where
  "suppressWarmup now node model reason r =
     r\<lparr> r_warmupSuppressed :=
          gm_put node (gm_put model \<lparr> si_Reason = reason @ ''_unload'', si_Since = now \<rparr> (suppressed_of r node))
            (r_warmupSuppressed r) \<rparr>"

definition isWarmupSuppressed :: "router \<Rightarrow> string \<Rightarrow> string \<Rightarrow> bool" where
  "isWarmupSuppressed r node model \<longleftrightarrow> gm_get (suppressed_of r node) model \<noteq> None"

definition SuppressedWarmupInfo :: "router \<Rightarrow> string \<Rightarrow> (string, suppressed_info) gomap" where
  "SuppressedWarmupInfo r node = suppressed_of r node"

definition clearWarmupSuppress :: "string \<Rightarrow> string list \<Rightarrow> router \<Rightarrow> router" where
  "clearWarmupSuppress node models r =
     (case gm_get (r_warmupSuppressed r) node of
        None \<Rightarrow> r
      | Some m \<Rightarrow> r\<lparr> r_warmupSuppressed := gm_put node (fold gm_del models m) (r_warmupSuppressed r) \<rparr>)"

section \<open>Unloads\<close>

definition delete_warm_row :: "string \<Rightarrow> string \<Rightarrow> router \<Rightarrow> router" where
  "delete_warm_row model node r =
     r\<lparr> r_store := map_option (\<lambda>st. st\<lparr> sr_warm := gm_del (model, node) (sr_warm st) \<rparr>) (r_store r) \<rparr>"

definition recordUnloadSideEffects :: "gotime \<Rightarrow> string \<Rightarrow> string \<Rightarrow> string \<Rightarrow> router \<Rightarrow> router" where
  "recordUnloadSideEffects now nodeName model reason r =
     delete_warm_row model nodeName
       (if reason = ''manual'' \<or> reason = ''scheduled'' then suppressWarmup now nodeName model reason r else r)"

datatype unload_error = ErrUnloadUnsupported | ErrModelPinned | UnloadFailed

text \<open>\<open>sent\<close> says whether the request to the backend came back with a success status.\<close>

definition unloadModel :: "gotime \<Rightarrow> bool \<Rightarrow> node_state \<Rightarrow> string \<Rightarrow> string \<Rightarrow> router \<Rightarrow> unload_error option \<times> router" where
  "unloadModel now sent n model reason r =
     (if ns_Runtime n \<noteq> ''ollama'' \<and> ns_Runtime n \<noteq> [] then (Some ErrUnloadUnsupported, r)
      else if \<not> sent then (Some UnloadFailed, r)
      else (None, recordUnloadSideEffects now (ns_Name n) model reason r))"

definition RecordManualUnload :: "gotime \<Rightarrow> string \<Rightarrow> string \<Rightarrow> router \<Rightarrow> router" where
  "RecordManualUnload now nodeName model r = recordUnloadSideEffects now nodeName model ''manual'' r"

definition UnloadModel :: "gotime \<Rightarrow> bool \<Rightarrow> string \<Rightarrow> string \<Rightarrow> router \<Rightarrow> (bool \<times> unload_error option) \<times> router" where
  "UnloadModel now sent nodeName model r =
     (case FindNode r nodeName of
        None \<Rightarrow> ((False, None), r)
      | Some n \<Rightarrow>
          if isPinned r nodeName model then ((True, Some ErrModelPinned), r)
          else case unloadModel now sent n model ''manual'' r of (err, r') \<Rightarrow> ((True, err), r'))"

definition nodeHasAgentCapability :: "node_state option \<Rightarrow> string \<Rightarrow> bool" where
  "nodeHasAgentCapability n capability =
     (case n of None \<Rightarrow> False | Some x \<Rightarrow> capability \<in> set (ns_AgentCapabilities x))"

definition ShouldUseAgentForUnload :: "router \<Rightarrow> string \<Rightarrow> marbor_agent_config option \<times> bool" where
  "ShouldUseAgentForUnload r nodeName =
     (case MarborAgentSetting r nodeName of
        None \<Rightarrow> (None, False)
      | Some cfg \<Rightarrow>
          if \<not> ma_Enabled cfg then (Some cfg, False)
          else (Some cfg, nodeHasAgentCapability (FindNode r nodeName) ''models.unload''))"

section \<open>The eviction loop\<close>

definition inFlightFor :: "(string, int) gomap \<Rightarrow> string \<Rightarrow> string \<Rightarrow> int" where
  "inFlightFor counts model runtime =
     sum_list (map (\<lambda>(name, n). if modelNamesMatchOnRuntime runtime name model then n else 0) counts)"

text \<open>What a round may not touch: a loaded model is its name and its size in bytes.\<close>

type_synonym loaded_model = "string \<times> int"

definition evictable :: "router \<Rightarrow> string \<Rightarrow> string \<Rightarrow> int option \<Rightarrow> (string, int) gomap \<Rightarrow> loaded_model \<Rightarrow> bool" where
  "evictable r node rt forRank inFlight m \<longleftrightarrow>
     \<not> isPinned r node (fst m) \<and> snd m > 0
     \<and> \<not> (case (forRank, warmRank r node (fst m)) of (Some fr, Some rk) \<Rightarrow> rk < fr | _ \<Rightarrow> False)
     \<and> \<not> inFlightFor inFlight (fst m) rt > 0"

definition sessionProtected :: "string list \<Rightarrow> string \<Rightarrow> bool" where
  "sessionProtected sessionModels name = list_ex (\<lambda>m. ModelNamesEquivalent m name) sessionModels"

text \<open>The scan: the oldest evictable model without a live session, and the oldest with one.\<close>

type_synonym oldest = "(nat \<times> gotime) option"

definition note_older :: "nat \<Rightarrow> gotime \<Rightarrow> oldest \<Rightarrow> oldest" where
  "note_older i t best = (case best of None \<Rightarrow> Some (i, t) | Some (j, s) \<Rightarrow> if t < s then Some (i, t) else best)"

fun scan_loaded ::
  "router \<Rightarrow> string \<Rightarrow> string \<Rightarrow> int option \<Rightarrow> string list \<Rightarrow> (string, int) gomap \<Rightarrow> nat \<Rightarrow> loaded_model list
     \<Rightarrow> oldest \<Rightarrow> oldest \<Rightarrow> oldest \<times> oldest" where
  "scan_loaded r node rt forRank sess inFlight i [] coldest prot = (coldest, prot)"
| "scan_loaded r node rt forRank sess inFlight i (m # ms) coldest prot =
     (if \<not> evictable r node rt forRank inFlight m then scan_loaded r node rt forRank sess inFlight (Suc i) ms coldest prot
      else
        let t = lastUsedAt r node (fst m) in
        if sessionProtected sess (fst m)
        then scan_loaded r node rt forRank sess inFlight (Suc i) ms coldest (note_older i t prot)
        else scan_loaded r node rt forRank sess inFlight (Suc i) ms (note_older i t coldest) prot)"

definition choose_victim ::
  "router \<Rightarrow> string \<Rightarrow> string \<Rightarrow> int option \<Rightarrow> string list \<Rightarrow> (string, int) gomap \<Rightarrow> loaded_model list \<Rightarrow> nat option" where
  "choose_victim r node rt forRank sess inFlight loaded =
     (case scan_loaded r node rt forRank sess inFlight 0 loaded None None of
        (Some (i, _), _) \<Rightarrow> Some i
      | (None, Some (j, _)) \<Rightarrow> Some j
      | (None, None) \<Rightarrow> None)"

definition scaled :: "int \<Rightarrow> int" where
  "scaled b = int_of_f (fmul (f_of_int b) FragmentationOverheadMult)"

record evict_state =
  es_free :: int
  es_loaded :: "loaded_model list"
  es_inFlight :: "(string, int) gomap"
  es_evicted :: "loaded_model list"
  es_router :: router

partial_function (option) evict_loop ::
  "gotime \<Rightarrow> (nat \<Rightarrow> (string, int) gomap \<times> bool) \<Rightarrow> string \<Rightarrow> string \<Rightarrow> int option \<Rightarrow> string list \<Rightarrow> int
     \<Rightarrow> nat \<Rightarrow> evict_state \<Rightarrow> evict_state option" where
  "evict_loop now env node rt forRank sess needed k s =
     (if \<not> es_free s < needed then Some s
      else case choose_victim (es_router s) node rt forRank sess (es_inFlight s) (es_loaded s) of
        None \<Rightarrow> Some s
      | Some i \<Rightarrow>
          (let victim = es_loaded s ! i; live = inFlightFor (fst (env k)) (fst victim) rt in
           if live > 0 then
             evict_loop now env node rt forRank sess needed (Suc k)
               (s\<lparr> es_inFlight := gm_put (fst victim) live (es_inFlight s) \<rparr>)
           else if \<not> snd (env k) then Some s
           else
             evict_loop now env node rt forRank sess needed (Suc k)
               (s\<lparr> es_free := es_free s + scaled (snd victim),
                  es_loaded := take i (es_loaded s) @ drop (Suc i) (es_loaded s),
                  es_evicted := es_evicted s @ [victim],
                  es_router := recordUnloadSideEffects now node (fst victim) ''LRU headroom'' (es_router s) \<rparr>)))"

text \<open>The state of the loop at its start, \<open>None\<close> for the early returns.\<close>

definition evict_start :: "string \<Rightarrow> router \<Rightarrow> (node_state \<times> evict_state) option" where
  "evict_start nodeName r =
     (case FindNode r nodeName of
        None \<Rightarrow> None
      | Some target \<Rightarrow>
          (let totalBytes = ns_VRAMTotalMB target * 1024 * 1024; rt = ns_Runtime target in
           if totalBytes \<le> 0 then None
           else if \<not> canUnloadDirect rt then None
           else
             let loaded = map (\<lambda>m. (mi_Name m, effectiveModelBytes r nodeName rt (mi_SizeVRAM m) (mi_Name m))) (ns_LoadedModels target);
                 usedBytes = sum_list (map snd loaded)
             in Some (target, \<lparr> es_free = totalBytes - scaled usedBytes, es_loaded = loaded,
                                 es_inFlight = ns_modelInFlight target, es_evicted = [], es_router = r \<rparr>)))"

text \<open>
  Whether there is room, the models evicted, and the router.  The result is \<open>None\<close> when the loop does
  not return.
\<close>

definition evictForHeadroom ::
  "gotime \<Rightarrow> (nat \<Rightarrow> (string, int) gomap \<times> bool) \<Rightarrow> string \<Rightarrow> string \<Rightarrow> int \<Rightarrow> router
     \<Rightarrow> (bool \<times> loaded_model list \<times> router) option" where
  "evictForHeadroom now env nodeName forModel neededBytes r =
     (case evict_start nodeName r of
        None \<Rightarrow> Some (False, [], r)
      | Some (target, s) \<Rightarrow>
          map_option (\<lambda>s'. (es_free s' \<ge> neededBytes, es_evicted s', es_router s'))
            (evict_loop now env nodeName (ns_Runtime target) (warmRank r nodeName forModel)
               (affinityProtectedModels now r (ns_URL target)) neededBytes 0 s))"

definition EvictForHeadroom ::
  "gotime \<Rightarrow> (nat \<Rightarrow> (string, int) gomap \<times> bool) \<Rightarrow> string \<Rightarrow> string \<Rightarrow> int \<Rightarrow> router \<Rightarrow> (nat \<times> router) option" where
  "EvictForHeadroom now env nodeName forModel neededBytes r =
     map_option (\<lambda>(ok, evicted, r'). (length evicted, r')) (evictForHeadroom now env nodeName forModel neededBytes r)"

section \<open>Fit checks\<close>

fun fits_loop ::
  "(string \<Rightarrow> tag_model list option) \<Rightarrow> router \<Rightarrow> string \<Rightarrow> int \<Rightarrow> node_state list \<Rightarrow> bool \<Rightarrow> bool \<Rightarrow> bool \<Rightarrow> bool" where
  "fits_loop fetch_tags r model ctx [] known ferr cap = (if \<not> cap then False else \<not> known \<and> \<not> ferr)"
| "fits_loop fetch_tags r model ctx (n # ns) known ferr cap =
     (if \<not> (ns_Healthy n \<and> \<not> ns_Draining n) \<or> \<not> ns_VRAMTotalMB n > 0 then fits_loop fetch_tags r model ctx ns known ferr cap
      else
        case estimateModelSize fetch_tags r (ns_URL n) model True ctx of (sz, fetchFailed) \<Rightarrow>
          if sz \<le> 0 then fits_loop fetch_tags r model ctx ns known (ferr \<or> fetchFailed) True
          else if (ns_VRAMTotalMB n - scaled (ns_VRAMUsedMB n)) * 1024 * 1024 \<ge> sz then True
          else fits_loop fetch_tags r model ctx ns True ferr True)"

definition ModelFitsAnyHealthyNode ::
  "(string \<Rightarrow> tag_model list option) \<Rightarrow> router \<Rightarrow> string \<Rightarrow> int \<Rightarrow> bool" where
  "ModelFitsAnyHealthyNode fetch_tags r model requestedCtx =
     fits_loop fetch_tags r model requestedCtx (r_nodes r) False False False"

definition ModelDownloadedAnyNode :: "(string \<Rightarrow> tag_model list option) \<Rightarrow> router \<Rightarrow> string \<Rightarrow> bool" where
  "ModelDownloadedAnyNode fetch_tags r model =
     list_ex (\<lambda>n. case fetch_tags (ns_URL n) of
        None \<Rightarrow> False | Some tags \<Rightarrow> list_ex (\<lambda>t. ModelNamesEquivalent (tm_Name t) model) tags) (r_nodes r)"

section \<open>Cooldown and headroom\<close>

definition evictCooldown :: duration where "evictCooldown = 15 * second"

record evict_claim =
  ec_id :: int
  ec_prev :: "gotime option"

definition claimEvictCooldown :: "gotime \<Rightarrow> string \<Rightarrow> router \<Rightarrow> evict_claim option \<times> router" where
  "claimEvictCooldown now nodeName r =
     (let prev = gm_get (r_lastEvictAt r) nodeName in
      if (case prev of None \<Rightarrow> False | Some p \<Rightarrow> now - p < evictCooldown) then (None, r)
      else
        let seq = r_evictClaimSeq r + 1 in
        (Some \<lparr> ec_id = seq, ec_prev = prev \<rparr>,
         r\<lparr> r_evictClaimSeq := seq, r_evictClaimID := gm_put nodeName seq (r_evictClaimID r),
            r_lastEvictAt := gm_put nodeName now (r_lastEvictAt r) \<rparr>))"

definition releaseEvictClaim :: "string \<Rightarrow> evict_claim \<Rightarrow> router \<Rightarrow> router" where
  "releaseEvictClaim nodeName claim r =
     (if gm_at 0 (r_evictClaimID r) nodeName \<noteq> ec_id claim then r
      else
        let r1 = r\<lparr> r_evictClaimID := gm_del nodeName (r_evictClaimID r) \<rparr> in
        case ec_prev claim of
          Some p \<Rightarrow> r1\<lparr> r_lastEvictAt := gm_put nodeName p (r_lastEvictAt r1) \<rparr>
        | None \<Rightarrow> r1\<lparr> r_lastEvictAt := gm_del nodeName (r_lastEvictAt r1) \<rparr>)"

datatype headroom_error = errNoHeadroom | errHeadroomCooldown

text \<open>The error, if any, the models evicted on the way, and the router.\<close>

definition makeHeadroom ::
  "(string \<Rightarrow> tag_model list option) \<Rightarrow> gotime \<Rightarrow> (nat \<Rightarrow> (string, int) gomap \<times> bool) \<Rightarrow> node_state \<Rightarrow> string \<Rightarrow> router
     \<Rightarrow> (headroom_error option \<times> loaded_model list \<times> router) option" where
  "makeHeadroom fetch_tags now env n model r =
     (let nodeName = ns_Name n;
          totalBytes = ns_VRAMTotalMB n * 1024 * 1024;
          resident = findLoadedModel (ns_LoadedModels n) model \<noteq> None;
          r1 = (if resident then clearWarmReservation nodeName model r else r)
      in if resident \<or> totalBytes \<le> 0 then Some (None, [], r1)
         else
           let usedBytes = sum_list (map (\<lambda>m. effectiveModelBytes r1 nodeName (ns_Runtime n) (mi_SizeVRAM m) (mi_Name m)) (ns_LoadedModels n));
               requestedCtx = (case contextWindowFor r1 model of Some w \<Rightarrow> if w > 0 then w else 0 | None \<Rightarrow> 0);
               est = estimateModelSizeBytes fetch_tags r1 (ns_URL n) model True requestedCtx
           in if est \<le> 0 then Some (None, [], r1)
              else if est > totalBytes then Some (Some errNoHeadroom, [], r1)
              else
                case reserveWarmBytes now nodeName model est r1 of (reservedByOthers, r2) \<Rightarrow>
                  if est + reservedByOthers > totalBytes
                  then Some (Some errNoHeadroom, [], clearWarmReservation nodeName model r2)
                  else if totalBytes - scaled usedBytes - reservedByOthers \<ge> est then Some (None, [], r2)
                  else
                    case claimEvictCooldown now nodeName r2 of
                      (None, r3) \<Rightarrow> Some (Some errHeadroomCooldown, [], clearWarmReservation nodeName model r3)
                    | (Some claim, r3) \<Rightarrow>
                        map_option (\<lambda>(madeRoom, evicted, r4).
                            let r5 = (if madeRoom then r4 else clearWarmReservation nodeName model r4);
                                r6 = (if evicted = [] then releaseEvictClaim nodeName claim r5 else r5)
                            in (if madeRoom then None else Some errNoHeadroom, evicted, r6))
                          (evictForHeadroom now env nodeName model (est + reservedByOthers) r3))"

definition ensureHeadroom ::
  "(string \<Rightarrow> tag_model list option) \<Rightarrow> gotime \<Rightarrow> (nat \<Rightarrow> (string, int) gomap \<times> bool) \<Rightarrow> node_state \<Rightarrow> string \<Rightarrow> router
     \<Rightarrow> (bool \<times> router) option" where
  "ensureHeadroom fetch_tags now env n model r =
     map_option (\<lambda>(err, evicted, r'). (err = None, r')) (makeHeadroom fetch_tags now env n model r)"

section \<open>The eviction loop: lemmas\<close>

text \<open>
  The order in which models go: those without a live session first, then by last use.
\<close>

definition goes_before :: "router \<Rightarrow> string \<Rightarrow> string list \<Rightarrow> loaded_model \<Rightarrow> loaded_model \<Rightarrow> bool" where
  "goes_before r node sess a b \<longleftrightarrow>
     (if sessionProtected sess (fst a) = sessionProtected sess (fst b)
      then lastUsedAt r node (fst a) \<le> lastUsedAt r node (fst b)
      else sessionProtected sess (fst b))"

lemma goes_before_trans:
  "goes_before r node sess a b \<Longrightarrow> goes_before r node sess b c \<Longrightarrow> goes_before r node sess a c"
  by (auto simp: goes_before_def split: if_splits)

text \<open>What an accumulator of the scan holds: the position of the oldest model that satisfies \<open>p\<close>.\<close>

definition oldest_of :: "(loaded_model \<Rightarrow> bool) \<Rightarrow> (loaded_model \<Rightarrow> gotime) \<Rightarrow> loaded_model list \<Rightarrow> oldest \<Rightarrow> bool" where
  "oldest_of p t xs best \<longleftrightarrow>
     (case best of
        None \<Rightarrow> \<forall>x \<in> set xs. \<not> p x
      | Some (i, s) \<Rightarrow> i < length xs \<and> p (xs ! i) \<and> s = t (xs ! i) \<and> (\<forall>x \<in> set xs. p x \<longrightarrow> s \<le> t x))"

lemma oldest_of_note: "oldest_of p t xs best \<Longrightarrow> p m \<Longrightarrow> oldest_of p t (xs @ [m]) (note_older (length xs) (t m) best)"
  by (auto simp: oldest_of_def note_older_def nth_append split: option.splits prod.splits)

lemma oldest_of_skip: "oldest_of p t xs best \<Longrightarrow> \<not> p m \<Longrightarrow> oldest_of p t (xs @ [m]) best"
  by (auto simp: oldest_of_def nth_append split: option.splits prod.splits)

definition in_class ::
  "router \<Rightarrow> string \<Rightarrow> string \<Rightarrow> int option \<Rightarrow> string list \<Rightarrow> (string, int) gomap \<Rightarrow> bool \<Rightarrow> loaded_model \<Rightarrow> bool" where
  "in_class r node rt fr sess busy protected m \<longleftrightarrow>
     evictable r node rt fr busy m \<and> sessionProtected sess (fst m) = protected"

lemma scan_loaded_oldest:
  assumes "oldest_of (in_class r node rt fr sess busy False) (\<lambda>m. lastUsedAt r node (fst m)) xs c"
    and "oldest_of (in_class r node rt fr sess busy True) (\<lambda>m. lastUsedAt r node (fst m)) xs q"
    and "scan_loaded r node rt fr sess busy (length xs) ms c q = (c', q')"
  shows "oldest_of (in_class r node rt fr sess busy False) (\<lambda>m. lastUsedAt r node (fst m)) (xs @ ms) c'
       \<and> oldest_of (in_class r node rt fr sess busy True) (\<lambda>m. lastUsedAt r node (fst m)) (xs @ ms) q'"
  using assms
proof (induction ms arbitrary: xs c q)
  case (Cons m ms)
  note prems = Cons.prems(1,2)
  note step = Cons.IH [of "xs @ [m]", unfolded append_assoc append_Cons append_Nil length_append_singleton]
  consider "\<not> evictable r node rt fr busy m" | "in_class r node rt fr sess busy False m" | "in_class r node rt fr sess busy True m"
    by (auto simp: in_class_def)
  then show ?case
  proof cases
    case 1
    then show ?thesis
      using Cons.prems(3) by (intro step [of c q] oldest_of_skip prems) (auto simp: in_class_def)
  next
    case 2
    then show ?thesis
      using Cons.prems(3)
      by (intro step [of "note_older (length xs) (lastUsedAt r node (fst m)) c" q]
          oldest_of_note [where t = "\<lambda>m. lastUsedAt r node (fst m)"] oldest_of_skip prems)
         (auto simp: in_class_def Let_def)
  next
    case 3
    then show ?thesis
      using Cons.prems(3)
      by (intro step [of c "note_older (length xs) (lastUsedAt r node (fst m)) q"]
          oldest_of_note [where t = "\<lambda>m. lastUsedAt r node (fst m)"] oldest_of_skip prems)
         (auto simp: in_class_def Let_def)
  qed
qed simp

lemma scan_loaded_start:
  assumes "scan_loaded r node rt fr sess busy 0 loaded None None = (c, q)"
  shows "oldest_of (in_class r node rt fr sess busy False) (\<lambda>m. lastUsedAt r node (fst m)) loaded c"
    "oldest_of (in_class r node rt fr sess busy True) (\<lambda>m. lastUsedAt r node (fst m)) loaded q"
  using scan_loaded_oldest [of r node rt fr sess busy "[]" None None loaded c q] assms
  by (simp_all add: oldest_of_def)

lemma choose_victim_Some:
  assumes "choose_victim r node rt fr sess busy loaded = Some i"
  shows "i < length loaded" "evictable r node rt fr busy (loaded ! i)"
    "\<forall>x \<in> set loaded. evictable r node rt fr busy x \<longrightarrow> goes_before r node sess (loaded ! i) x"
proof -
  obtain c q where scan: "scan_loaded r node rt fr sess busy 0 loaded None None = (c, q)"
    by fastforce
  note ok = scan_loaded_start [OF scan]
  show "i < length loaded" "evictable r node rt fr busy (loaded ! i)"
    "\<forall>x \<in> set loaded. evictable r node rt fr busy x \<longrightarrow> goes_before r node sess (loaded ! i) x"
    using ok assms scan
    by (auto simp: choose_victim_def oldest_of_def goes_before_def in_class_def split: option.splits prod.splits)
qed

lemma choose_victim_None:
  assumes "choose_victim r node rt fr sess busy loaded = None" and "x \<in> set loaded"
  shows "\<not> evictable r node rt fr busy x"
proof -
  obtain c q where scan: "scan_loaded r node rt fr sess busy 0 loaded None None = (c, q)"
    by fastforce
  show ?thesis
    using scan_loaded_start [OF scan] scan assms
    by (auto simp: choose_victim_def oldest_of_def in_class_def split: option.splits prod.splits)
qed

text \<open>An unload for headroom touches nothing but the persisted row.\<close>

lemma record_headroom [simp]: "recordUnloadSideEffects now node m ''LRU headroom'' r = delete_warm_row m node r"
  by (simp add: recordUnloadSideEffects_def)

lemma delete_warm_row_frame [simp]:
  "isPinned (delete_warm_row m node r) = isPinned r"
  "warmRank (delete_warm_row m node r) = warmRank r"
  "lastUsedAt (delete_warm_row m node r) = lastUsedAt r"
  "evictable (delete_warm_row m node r) = evictable r"
  "goes_before (delete_warm_row m node r) = goes_before r"
  by (auto simp: fun_eq_iff delete_warm_row_def isPinned_def warmRank_def lastUsedAt_def evictable_def goes_before_def)

definition counts_ok :: "(string, int) gomap \<Rightarrow> bool" where
  "counts_ok counts \<longleftrightarrow> gm_wf counts \<and> (\<forall>(m, c) \<in> set counts. 0 \<le> c)"

lemma set_gm_put_subset: "set (gm_put k v m) \<subseteq> insert (k, v) (set m)"
  by (induction m) auto

lemma counts_ok_put: "counts_ok counts \<Longrightarrow> 0 \<le> c \<Longrightarrow> counts_ok (gm_put m c counts)"
  using set_gm_put_subset [of m c counts] by (auto simp: counts_ok_def)

lemma inFlightFor_Cons:
  "inFlightFor (e # counts) m rt = (if modelNamesMatchOnRuntime rt (fst e) m then snd e else 0) + inFlightFor counts m rt"
  by (simp add: inFlightFor_def case_prod_beta)

lemma inFlightFor_nonneg: "\<forall>(m, c) \<in> set counts. 0 \<le> c \<Longrightarrow> 0 \<le> inFlightFor counts m rt"
  unfolding inFlightFor_def by (intro sum_list_nonneg) fastforce

lemma inFlightFor_put:
  assumes "gm_get counts v = None \<or> gm_get counts v = Some 0"
  shows "inFlightFor (gm_put v c counts) m rt
    = (if modelNamesMatchOnRuntime rt v m then c else 0) + inFlightFor counts m rt"
  using assms
  by (induction counts) (auto simp: inFlightFor_Cons inFlightFor_def split: if_splits)

lemma inFlightFor_zero_entry:
  assumes "\<forall>(m, c) \<in> set counts. 0 \<le> c" and "\<not> inFlightFor counts v rt > 0"
  shows "gm_get counts v = None \<or> gm_get counts v = Some 0"
  using assms
proof (induction counts)
  case (Cons e counts)
  have "0 \<le> inFlightFor counts v rt" "0 \<le> snd e"
    using Cons.prems(1) by (auto intro: inFlightFor_nonneg)
  then show ?case
    using Cons by (cases e) (auto simp: inFlightFor_Cons modelNamesMatchOnRuntime_def split: if_splits)
qed simp

text \<open>Marking a model busy takes it, and possibly its other spellings, out of the running.\<close>

lemma evictable_mark_busy:
  assumes "counts_ok counts" and "evictable r node rt fr counts v" and "c > 0"
  shows "evictable r node rt fr (gm_put (fst v) c counts) m
    \<longleftrightarrow> evictable r node rt fr counts m \<and> \<not> modelNamesMatchOnRuntime rt (fst v) (fst m)"
proof -
  have nn: "\<forall>(m, c) \<in> set counts. 0 \<le> c"
    using assms(1) by (simp add: counts_ok_def)
  have "gm_get counts (fst v) = None \<or> gm_get counts (fst v) = Some 0"
    using inFlightFor_zero_entry [OF nn, of "fst v" rt] assms(2) by (simp add: evictable_def)
  from inFlightFor_put [OF this, of c "fst m" rt] show ?thesis
    using inFlightFor_nonneg [OF nn, of "fst m" rt] assms(3) by (auto simp: evictable_def)
qed

text \<open>
  The runs of the loop as a relation: what was taken out between two states, least recently used first.
\<close>

definition take_out :: "string \<Rightarrow> loaded_model list \<Rightarrow> loaded_model \<Rightarrow> evict_state \<Rightarrow> evict_state" where
  "take_out node rest v s =
     s\<lparr> es_free := es_free s + scaled (snd v), es_loaded := rest, es_evicted := es_evicted s @ [v],
        es_router := delete_warm_row (fst v) node (es_router s) \<rparr>"

inductive evict_run ::
  "(nat \<Rightarrow> (string, int) gomap \<times> bool) \<Rightarrow> string \<Rightarrow> string \<Rightarrow> int option \<Rightarrow> string list \<Rightarrow> int
     \<Rightarrow> nat \<Rightarrow> evict_state \<Rightarrow> loaded_model list \<Rightarrow> evict_state \<Rightarrow> bool"
  for env :: "nat \<Rightarrow> (string, int) gomap \<times> bool" and node rt :: string and fr :: "int option"
    and sess :: "string list" and needed :: int
where
  stop: "es_free s \<ge> needed
      \<or> (\<forall>x \<in> set (es_loaded s). \<not> evictable (es_router s) node rt fr (es_inFlight s) x) \<or> \<not> snd (env k)
    \<Longrightarrow> evict_run env node rt fr sess needed k s [] s"
| busy: "evictable (es_router s) node rt fr (es_inFlight s) v \<Longrightarrow> inFlightFor (fst (env k)) (fst v) rt = c \<Longrightarrow> c > 0
    \<Longrightarrow> evict_run env node rt fr sess needed (Suc k) (s\<lparr> es_inFlight := gm_put (fst v) c (es_inFlight s) \<rparr>) taken s'
    \<Longrightarrow> evict_run env node rt fr sess needed k s taken s'"
| evict: "es_free s < needed \<Longrightarrow> mset (es_loaded s) = add_mset v (mset rest)
    \<Longrightarrow> evictable (es_router s) node rt fr (es_inFlight s) v
    \<Longrightarrow> \<forall>x \<in> set (es_loaded s). evictable (es_router s) node rt fr (es_inFlight s) x
           \<longrightarrow> goes_before (es_router s) node sess v x
    \<Longrightarrow> inFlightFor (fst (env k)) (fst v) rt \<le> 0 \<Longrightarrow> snd (env k)
    \<Longrightarrow> evict_run env node rt fr sess needed (Suc k) (take_out node rest v s) taken s'
    \<Longrightarrow> evict_run env node rt fr sess needed k s (v # taken) s'"

inductive_cases evict_runE: "evict_run env node rt fr sess needed k s taken s'"

lemma mset_without: "i < length xs \<Longrightarrow> mset xs = add_mset (xs ! i) (mset (take i xs @ drop (Suc i) xs))"
  by (metis add_mset_add_single add.commute id_take_nth_drop mset.simps(2) mset_append union_mset_add_mset_right)

definition candidates_left :: "string \<Rightarrow> string \<Rightarrow> int option \<Rightarrow> evict_state \<Rightarrow> nat" where
  "candidates_left node rt fr s =
     size (filter_mset (evictable (es_router s) node rt fr (es_inFlight s)) (mset (es_loaded s)))"

lemma candidates_left_busy:
  assumes "counts_ok (es_inFlight s)" and "evictable (es_router s) node rt fr (es_inFlight s) v"
    and "v \<in> set (es_loaded s)" and "c > 0"
  shows "candidates_left node rt fr (s\<lparr> es_inFlight := gm_put (fst v) c (es_inFlight s) \<rparr>) < candidates_left node rt fr s"
proof -
  have "filter_mset (\<lambda>m. evictable (es_router s) node rt fr (es_inFlight s) m
          \<and> \<not> modelNamesMatchOnRuntime rt (fst v) (fst m)) (mset (es_loaded s))
      \<subset># filter_mset (evictable (es_router s) node rt fr (es_inFlight s)) (mset (es_loaded s))"
    (is "?A \<subset># ?B")
  proof (rule subset_mset.le_neq_trans)
    show "?A \<subseteq># ?B"
      by (rule mset_subset_eqI) auto
    have "v \<in># ?B" "v \<notin># ?A"
      using assms(2,3) by (auto simp: modelNamesMatchOnRuntime_def)
    then show "?A \<noteq> ?B"
      by metis
  qed
  then show ?thesis
    unfolding candidates_left_def
    using evictable_mark_busy [OF assms(1,2,4)] by (auto intro!: mset_subset_size cong: filter_mset_cong)
qed

lemma candidates_left_evict:
  assumes "mset (es_loaded s) = add_mset v (mset rest)" and "evictable (es_router s) node rt fr (es_inFlight s) v"
  shows "candidates_left node rt fr (take_out node rest v s) < candidates_left node rt fr s"
  using assms by (simp add: candidates_left_def take_out_def)

text \<open>The loop returns: every round uses up a candidate.\<close>

lemma evict_loop_run:
  assumes "counts_ok (es_inFlight s)"
  shows "\<exists>taken s'. evict_loop now env node rt fr sess needed k s = Some s'
     \<and> evict_run env node rt fr sess needed k s taken s'"
  using assms
proof (induction "candidates_left node rt fr s" arbitrary: s k rule: less_induct)
  case less
  show ?case
  proof (cases "es_free s < needed")
    case False
    then show ?thesis
      by (subst evict_loop.simps) (auto intro!: exI [of _ "[]"] stop)
  next
    case free: True
    show ?thesis
    proof (cases "choose_victim (es_router s) node rt fr sess (es_inFlight s) (es_loaded s)")
      case None
      then show ?thesis
        using choose_victim_None [OF None] by (subst evict_loop.simps) (auto intro!: exI [of _ "[]"] stop simp: free)
    next
      case (Some i)
      define v where "v = es_loaded s ! i"
      define rest where "rest = take i (es_loaded s) @ drop (Suc i) (es_loaded s)"
      note victim = choose_victim_Some [OF Some, folded v_def]
      have v: "v \<in> set (es_loaded s)" and split: "mset (es_loaded s) = add_mset v (mset rest)"
        using victim(1) mset_without [of i "es_loaded s"] by (auto simp: v_def rest_def)
      have round: "evict_loop now env node rt fr sess needed k s
        = (if inFlightFor (fst (env k)) (fst v) rt > 0 then
             evict_loop now env node rt fr sess needed (Suc k)
               (s\<lparr> es_inFlight := gm_put (fst v) (inFlightFor (fst (env k)) (fst v) rt) (es_inFlight s) \<rparr>)
           else if \<not> snd (env k) then Some s
           else evict_loop now env node rt fr sess needed (Suc k) (take_out node rest v s))"
        by (subst evict_loop.simps) (simp add: free Some Let_def v_def rest_def take_out_def)
      consider "inFlightFor (fst (env k)) (fst v) rt > 0" | "\<not> inFlightFor (fst (env k)) (fst v) rt > 0" "\<not> snd (env k)"
        | "\<not> inFlightFor (fst (env k)) (fst v) rt > 0" "snd (env k)"
        by blast
      then show ?thesis
      proof cases
        case 1
        from less(1) [OF candidates_left_busy [OF less(2) victim(2) v 1], of "Suc k"] counts_ok_put [OF less(2)] 1
        show ?thesis
          using busy [OF victim(2), of env k] by (fastforce simp: round)
      next
        case 2
        then show ?thesis
          by (auto simp: round intro!: exI [of _ "[]"] stop)
      next
        case 3
        have "counts_ok (es_inFlight (take_out node rest v s))"
          using less(2) by (simp add: take_out_def)
        from less(1) [OF candidates_left_evict [OF split victim(2)] this, of "Suc k"] 3 show ?thesis
          using evict [OF free split victim(2,3), of env k] by (fastforce simp: round)
      qed
    qed
  qed
qed

lemma take_out_fields [simp]:
  "es_free (take_out node rest v s) = es_free s + scaled (snd v)" "es_loaded (take_out node rest v s) = rest"
  "es_inFlight (take_out node rest v s) = es_inFlight s" "es_evicted (take_out node rest v s) = es_evicted s @ [v]"
  "es_router (take_out node rest v s) = delete_warm_row (fst v) node (es_router s)"
  by (simp_all add: take_out_def)

lemma evict_run_accounts:
  assumes "evict_run env node rt fr sess needed k s taken s'"
  shows "es_evicted s' = es_evicted s @ taken" "mset (es_loaded s) = mset (es_loaded s') + mset taken"
    "es_free s' = es_free s + sum_list (map (\<lambda>v. scaled (snd v)) taken)"
    "es_router s' = fold (\<lambda>v. delete_warm_row (fst v) node) taken (es_router s)"
    "taken \<noteq> [] \<Longrightarrow> es_free s + sum_list (map (\<lambda>v. scaled (snd v)) (butlast taken)) < needed"
    "\<forall>v \<in> set taken. \<exists>j. inFlightFor (fst (env j)) (fst v) rt \<le> 0 \<and> snd (env j)"
  using assms by (induction rule: evict_run.induct) auto

lemma evict_run_stops:
  assumes "evict_run env node rt fr sess needed k s taken s'" and "es_free s' < needed"
  shows "(\<forall>x \<in> set (es_loaded s'). \<not> evictable (es_router s') node rt fr (es_inFlight s') x) \<or> (\<exists>j. \<not> snd (env j))"
  using assms by (induction rule: evict_run.induct) auto

text \<open>The set of candidates only shrinks, so what went was a candidate all along and went in order.\<close>

lemma evict_run_shrinks:
  assumes "evict_run env node rt fr sess needed k s taken s'" and "counts_ok (es_inFlight s)"
  shows "counts_ok (es_inFlight s')
     \<and> (\<forall>x. evictable (es_router s') node rt fr (es_inFlight s') x \<longrightarrow> evictable (es_router s) node rt fr (es_inFlight s) x)
     \<and> (\<forall>v \<in> set taken. evictable (es_router s) node rt fr (es_inFlight s) v)"
  using assms
proof (induction rule: evict_run.induct)
  case (busy s v c k taken s')
  then show ?case
    using evictable_mark_busy [OF busy.prems busy.hyps(1,3)] by (auto simp: counts_ok_put)
qed auto

lemma evict_run_order:
  assumes "evict_run env node rt fr sess needed k s taken s'" and "counts_ok (es_inFlight s)"
  shows "sorted_wrt (goes_before (es_router s) node sess) taken
     \<and> (\<forall>v \<in> set taken. \<forall>x \<in> set (es_loaded s'). evictable (es_router s') node rt fr (es_inFlight s') x
          \<longrightarrow> goes_before (es_router s) node sess v x)"
  using assms
proof (induction rule: evict_run.induct)
  case (busy s v c k taken s')
  then show ?case by (simp add: counts_ok_put)
next
  case (evict s v rest k taken s')
  have "\<forall>x \<in> set taken \<union> set (es_loaded s'). x \<in> set (es_loaded s)"
    using evict_run_accounts(2) [OF evict.hyps(7)] evict.hyps(2)
    by (metis Un_iff take_out_fields(2) insert_iff set_mset_add_mset_insert set_mset_mset set_mset_union)
  then show ?case
    using evict evict_run_shrinks [OF evict.hyps(7)] by auto
qed simp

text \<open>Some round found a request in flight for the model or for another spelling of its name.\<close>

definition seen_busy :: "(nat \<Rightarrow> (string, int) gomap \<times> bool) \<Rightarrow> string \<Rightarrow> loaded_model \<Rightarrow> bool" where
  "seen_busy env rt x \<longleftrightarrow> (\<exists>j v. modelNamesMatchOnRuntime rt v (fst x) \<and> inFlightFor (fst (env j)) v rt > 0)"

lemma evict_run_kept:
  assumes "evict_run env node rt fr sess needed k s taken s'" and "counts_ok (es_inFlight s)"
    and "evictable (es_router s) node rt fr (es_inFlight s) x" and "\<not> evictable (es_router s') node rt fr (es_inFlight s') x"
  shows "seen_busy env rt x"
  using assms
proof (induction rule: evict_run.induct)
  case (busy s v c k taken s')
  then show ?case
    using evictable_mark_busy [OF busy.prems(1) busy.hyps(1,3), of x] by (auto simp: counts_ok_put seen_busy_def)
qed auto

section \<open>Eviction\<close>

text \<open>The models a node holds with the sizes eviction accounts for, and the room it starts from.\<close>

definition sized_models :: "router \<Rightarrow> node_state \<Rightarrow> loaded_model list" where
  "sized_models r n =
     map (\<lambda>m. (mi_Name m, effectiveModelBytes r (ns_Name n) (ns_Runtime n) (mi_SizeVRAM m) (mi_Name m))) (ns_LoadedModels n)"

definition room :: "router \<Rightarrow> node_state \<Rightarrow> int" where
  "room r n = ns_VRAMTotalMB n * 1024 * 1024 - scaled (sum_list (map snd (sized_models r n)))"

lemma FindNode_name: "FindNode r name = Some n \<Longrightarrow> ns_Name n = name"
  by (auto simp: FindNode_def find_Some_iff)

lemma evict_start_Some:
  assumes "FindNode r node = Some n"
  shows "evict_start node r =
    (if ns_VRAMTotalMB n > 0 \<and> canUnloadDirect (ns_Runtime n)
     then Some (n, \<lparr> es_free = room r n, es_loaded = sized_models r n, es_inFlight = ns_modelInFlight n,
                     es_evicted = [], es_router = r \<rparr>)
     else None)"
  using FindNode_name [OF assms]
  by (simp add: evict_start_def assms room_def sized_models_def Let_def)

lemma evictForHeadroom_run:
  assumes "FindNode r node = Some n" and "counts_ok (ns_modelInFlight n)"
    and "ns_VRAMTotalMB n > 0" and "canUnloadDirect (ns_Runtime n)"
  obtains s' taken where
    "evict_run env node (ns_Runtime n) (warmRank r node forModel) (affinityProtectedModels now r (ns_URL n)) needed 0
       \<lparr> es_free = room r n, es_loaded = sized_models r n, es_inFlight = ns_modelInFlight n,
         es_evicted = [], es_router = r \<rparr> taken s'"
    "evictForHeadroom now env node forModel needed r = Some (es_free s' \<ge> needed, taken, es_router s')"
proof -
  let ?s = "\<lparr> es_free = room r n, es_loaded = sized_models r n, es_inFlight = ns_modelInFlight n,
              es_evicted = [], es_router = r \<rparr>"
  have "counts_ok (es_inFlight ?s)"
    using assms(2) by simp
  from evict_loop_run [OF this, of now env node "ns_Runtime n" "warmRank r node forModel"
      "affinityProtectedModels now r (ns_URL n)" needed 0]
  obtain taken s' where loop: "evict_loop now env node (ns_Runtime n) (warmRank r node forModel)
      (affinityProtectedModels now r (ns_URL n)) needed 0 ?s = Some s'"
    and run: "evict_run env node (ns_Runtime n) (warmRank r node forModel)
      (affinityProtectedModels now r (ns_URL n)) needed 0 ?s taken s'"
    by blast
  have "es_evicted s' = taken"
    using evict_run_accounts(1) [OF run] by simp
  then show thesis
    using that [OF run] loop assms(3,4) by (simp add: evictForHeadroom_def evict_start_Some [OF assms(1)])
qed

lemma evictForHeadroom_early:
  assumes "FindNode r node = Some n" and "\<not> (ns_VRAMTotalMB n > 0 \<and> canUnloadDirect (ns_Runtime n))"
  shows "evictForHeadroom now env node forModel needed r = Some (False, [], r)"
  using assms(2) by (auto simp: evictForHeadroom_def evict_start_Some [OF assms(1)])

lemma evictable_iff:
  "evictable r node rt fr counts m \<longleftrightarrow>
     \<not> isPinned r node (fst m) \<and> 0 < snd m \<and> inFlightFor counts (fst m) rt \<le> 0
     \<and> (\<forall>a b. fr = Some a \<and> warmRank r node (fst m) = Some b \<longrightarrow> a \<le> b)"
  by (auto simp: evictable_def not_less split: option.splits)

text \<open>
  C2. Eviction for headroom returns, and it unloads only models the node holds, that are not pinned, have a known
  size, serve no request at the start nor at the check just before the unload, and do not outrank the
  model room is made for.  They go least recently used first, those with a live session last; a
  candidate is passed over only because a request for it was seen in flight.  No more goes than is
  needed, and when there is still too little room an unload failed or no candidate is left.
\<close>

theorem eviction_is_safe_lru:
  assumes "FindNode r node = Some n" and "counts_ok (ns_modelInFlight n)"
  shows "\<exists>ok evicted r'. evictForHeadroom now env node forModel needed r = Some (ok, evicted, r')
    \<and> mset evicted \<subseteq># mset (sized_models r n)
    \<and> (\<forall>m \<in> set evicted. \<not> isPinned r node (fst m) \<and> 0 < snd m
          \<and> inFlightFor (ns_modelInFlight n) (fst m) (ns_Runtime n) \<le> 0
          \<and> (\<forall>a b. warmRank r node forModel = Some a \<and> warmRank r node (fst m) = Some b \<longrightarrow> a \<le> b)
          \<and> (\<exists>j. inFlightFor (fst (env j)) (fst m) (ns_Runtime n) \<le> 0 \<and> snd (env j)))
    \<and> sorted_wrt (goes_before r node (affinityProtectedModels now r (ns_URL n))) evicted
    \<and> (\<forall>m \<in> set evicted. \<forall>x \<in># mset (sized_models r n) - mset evicted.
          evictable r node (ns_Runtime n) (warmRank r node forModel) (ns_modelInFlight n) x
          \<longrightarrow> goes_before r node (affinityProtectedModels now r (ns_URL n)) m x \<or> seen_busy env (ns_Runtime n) x)
    \<and> (evicted \<noteq> [] \<longrightarrow> room r n + sum_list (map (\<lambda>m. scaled (snd m)) (butlast evicted)) < needed)
    \<and> (ok \<longrightarrow> needed \<le> room r n + sum_list (map (\<lambda>m. scaled (snd m)) evicted))
    \<and> (\<not> ok \<longrightarrow> ns_VRAMTotalMB n \<le> 0 \<or> \<not> canUnloadDirect (ns_Runtime n) \<or> (\<exists>j. \<not> snd (env j))
          \<or> (\<forall>x \<in># mset (sized_models r n) - mset evicted.
               \<not> evictable r node (ns_Runtime n) (warmRank r node forModel) (ns_modelInFlight n) x
               \<or> seen_busy env (ns_Runtime n) x))
    \<and> r' = fold (\<lambda>m. delete_warm_row (fst m) node) evicted r"
proof (cases "ns_VRAMTotalMB n > 0 \<and> canUnloadDirect (ns_Runtime n)")
  case False
  then have "ns_VRAMTotalMB n \<le> 0 \<or> \<not> canUnloadDirect (ns_Runtime n)"
    by auto
  then show ?thesis
    unfolding evictForHeadroom_early [OF assms(1) False]
    by (intro exI [of _ False] exI [of _ "[]"] exI [of _ r] conjI) (simp_all, blast)
next
  case True
  let ?s = "\<lparr> es_free = room r n, es_loaded = sized_models r n, es_inFlight = ns_modelInFlight n,
              es_evicted = [], es_router = r \<rparr>"
  obtain s' taken where
    run: "evict_run env node (ns_Runtime n) (warmRank r node forModel) (affinityProtectedModels now r (ns_URL n)) needed 0
       ?s taken s'"
    and result: "evictForHeadroom now env node forModel needed r = Some (es_free s' \<ge> needed, taken, es_router s')"
    using evictForHeadroom_run [OF assms, of env forModel now needed] True by blast
  have counts: "counts_ok (es_inFlight ?s)"
    using assms(2) by simp
  note acc = evict_run_accounts [OF run, simplified]
  have rest: "mset (sized_models r n) - mset taken = mset (es_loaded s')"
    using acc(2) by simp
  have kept: "seen_busy env (ns_Runtime n) x"
    if "evictable r node (ns_Runtime n) (warmRank r node forModel) (ns_modelInFlight n) x"
      "\<not> evictable (es_router s') node (ns_Runtime n) (warmRank r node forModel) (es_inFlight s') x" for x
    using evict_run_kept [OF run counts, of x] that by simp
  have order: "sorted_wrt (goes_before r node (affinityProtectedModels now r (ns_URL n))) taken"
    and first: "\<forall>v \<in> set taken. \<forall>x \<in> set (es_loaded s').
      evictable (es_router s') node (ns_Runtime n) (warmRank r node forModel) (es_inFlight s') x
      \<longrightarrow> goes_before r node (affinityProtectedModels now r (ns_URL n)) v x"
    using evict_run_order [OF run counts] by simp_all
  have all: "\<forall>v \<in> set taken. evictable r node (ns_Runtime n) (warmRank r node forModel) (ns_modelInFlight n) v"
    using evict_run_shrinks [OF run counts] by simp
  have each: "\<forall>m \<in> set taken. \<not> isPinned r node (fst m) \<and> 0 < snd m
      \<and> inFlightFor (ns_modelInFlight n) (fst m) (ns_Runtime n) \<le> 0
      \<and> (\<forall>a b. warmRank r node forModel = Some a \<and> warmRank r node (fst m) = Some b \<longrightarrow> a \<le> b)
      \<and> (\<exists>j. inFlightFor (fst (env j)) (fst m) (ns_Runtime n) \<le> 0 \<and> snd (env j))"
    using all [unfolded evictable_iff] acc(6) by fast
  have passed: "\<forall>m \<in> set taken. \<forall>x \<in># mset (sized_models r n) - mset taken.
      evictable r node (ns_Runtime n) (warmRank r node forModel) (ns_modelInFlight n) x
      \<longrightarrow> goes_before r node (affinityProtectedModels now r (ns_URL n)) m x \<or> seen_busy env (ns_Runtime n) x"
    unfolding rest set_mset_mset using first kept by blast
  have short: "\<not> es_free s' \<ge> needed \<longrightarrow> (\<exists>j. \<not> snd (env j))
      \<or> (\<forall>x \<in># mset (sized_models r n) - mset taken.
           \<not> evictable r node (ns_Runtime n) (warmRank r node forModel) (ns_modelInFlight n) x
           \<or> seen_busy env (ns_Runtime n) x)"
    unfolding rest set_mset_mset not_le using evict_run_stops [OF run] kept by blast
  show ?thesis
    unfolding result
    using each order passed short acc(2-5)
    by (intro exI [of _ "es_free s' \<ge> needed"] exI [of _ taken] exI [of _ "es_router s'"] conjI) simp_all
qed

section \<open>Headroom\<close>

lemma rows_frame [simp]:
  "r_lastEvictAt (fold (\<lambda>m. delete_warm_row (fst m) node) ms r) = r_lastEvictAt r"
  "r_warmReserved (fold (\<lambda>m. delete_warm_row (fst m) node) ms r) = r_warmReserved r"
  "r_evictClaimID (fold (\<lambda>m. delete_warm_row (fst m) node) ms r) = r_evictClaimID r"
  by (induction ms arbitrary: r) (simp_all add: delete_warm_row_def)

lemma room_frame:
  "r_lastKnownVRAM r' = r_lastKnownVRAM r \<Longrightarrow> room r' n = room r n"
  by (simp add: room_def sized_models_def effectiveModelBytes_def lastKnownVRAMBytes_def cong: if_cong)

lemma clear_frame [simp]:
  "r_lastEvictAt (clearWarmReservation node model r) = r_lastEvictAt r"
  "r_evictClaimID (clearWarmReservation node model r) = r_evictClaimID r"
  "gm_get (node_reservations (clearWarmReservation node model r) node) model = None"
  by (auto simp: clearWarmReservation_def set_reservations_def node_reservations_def gm_at_def gm_get_put gm_get_del
      split: option.splits)

lemma release_frame [simp]:
  "r_warmReserved (releaseEvictClaim node claim r) = r_warmReserved r"
  "node_reservations (releaseEvictClaim node claim r) = node_reservations r"
  by (auto simp: releaseEvictClaim_def Let_def node_reservations_def fun_eq_iff split: option.splits)

text \<open>A claim given back leaves every node's cooldown as it was before the claim.\<close>

lemma claim_release:
  assumes "claimEvictCooldown now node r = (Some claim, r1)"
    and "r_lastEvictAt r2 = r_lastEvictAt r1" and "r_evictClaimID r2 = r_evictClaimID r1"
  shows "gm_get (r_lastEvictAt (releaseEvictClaim node claim r2)) = gm_get (r_lastEvictAt r)"
  using assms
  by (auto simp: claimEvictCooldown_def releaseEvictClaim_def Let_def fun_eq_iff gm_get_put gm_get_del gm_at_def
      split: if_splits option.splits)

lemma claim_taken:
  assumes "claimEvictCooldown now node r = (Some claim, r1)"
  shows "gm_get (r_lastEvictAt r1) node = Some now"
    "\<forall>p. gm_get (r_lastEvictAt r) node = Some p \<longrightarrow> evictCooldown \<le> now - p"
    "\<And>x. x \<noteq> node \<Longrightarrow> gm_get (r_lastEvictAt r1) x = gm_get (r_lastEvictAt r) x"
    "r_warmReserved r1 = r_warmReserved r" "r_nodes r1 = r_nodes r" "r_lastKnownVRAM r1 = r_lastKnownVRAM r"
  using assms by (auto simp: claimEvictCooldown_def Let_def gm_get_put split: if_splits option.splits)

lemma claim_refused:
  "claimEvictCooldown now node r = (None, r1) \<Longrightarrow> r1 = r"
  by (auto simp: claimEvictCooldown_def Let_def split: if_splits)

lemma evictForHeadroom_result:
  assumes "FindNode r node = Some n" and "counts_ok (ns_modelInFlight n)"
  obtains ok evicted where
    "evictForHeadroom now env node forModel needed r
       = Some (ok, evicted, fold (\<lambda>m. delete_warm_row (fst m) node) evicted r)"
    "ok \<longrightarrow> needed \<le> room r n + sum_list (map (\<lambda>m. scaled (snd m)) evicted)"
proof (cases "ns_VRAMTotalMB n > 0 \<and> canUnloadDirect (ns_Runtime n)")
  case False
  show thesis
    by (rule that [of False "[]"]) (simp_all add: evictForHeadroom_early [OF assms(1) False])
next
  case True
  from evictForHeadroom_run [OF assms True [THEN conjunct1] True [THEN conjunct2], of env forModel now needed]
  obtain s' taken where
    run: "evict_run env node (ns_Runtime n) (warmRank r node forModel) (affinityProtectedModels now r (ns_URL n)) needed 0
       \<lparr> es_free = room r n, es_loaded = sized_models r n, es_inFlight = ns_modelInFlight n,
         es_evicted = [], es_router = r \<rparr> taken s'"
    and result: "evictForHeadroom now env node forModel needed r = Some (es_free s' \<ge> needed, taken, es_router s')"
    by blast
  show thesis
    by (rule that [of "es_free s' \<ge> needed" taken])
       (use result evict_run_accounts(3,4) [OF run] in simp_all)
qed

text \<open>The estimate a warm load is checked with.\<close>

definition headroom_estimate :: "(string \<Rightarrow> tag_model list option) \<Rightarrow> router \<Rightarrow> node_state \<Rightarrow> string \<Rightarrow> int" where
  "headroom_estimate fetch_tags r n model =
     estimateModelSizeBytes fetch_tags r (ns_URL n) model True
       (case contextWindowFor r model of Some w \<Rightarrow> if w > 0 then w else 0 | None \<Rightarrow> 0)"

lemma makeHeadroom_eq:
  assumes "findLoadedModel (ns_LoadedModels n) model = None" and "ns_VRAMTotalMB n > 0"
    and "0 < headroom_estimate fetch_tags r n model"
    and "reserveWarmBytes now (ns_Name n) model (headroom_estimate fetch_tags r n model) r = (others, r2)"
  shows "makeHeadroom fetch_tags now env n model r =
    (let name = ns_Name n; total = ns_VRAMTotalMB n * 1024 * 1024; est = headroom_estimate fetch_tags r n model in
     if est > total then Some (Some errNoHeadroom, [], r)
     else if est + others > total then Some (Some errNoHeadroom, [], clearWarmReservation name model r2)
     else if room r n - others \<ge> est then Some (None, [], r2)
     else case claimEvictCooldown now name r2 of
         (None, r3) \<Rightarrow> Some (Some errHeadroomCooldown, [], clearWarmReservation name model r3)
       | (Some claim, r3) \<Rightarrow>
           map_option (\<lambda>(madeRoom, evicted, r4).
               let r5 = (if madeRoom then r4 else clearWarmReservation name model r4);
                   r6 = (if evicted = [] then releaseEvictClaim name claim r5 else r5)
               in (if madeRoom then None else Some errNoHeadroom, evicted, r6))
             (evictForHeadroom now env name model (est + others) r3))"
proof -
  have used: "(\<Sum>m\<leftarrow>ns_LoadedModels n. effectiveModelBytes r (ns_Name n) (ns_Runtime n) (mi_SizeVRAM m) (mi_Name m))
      = sum_list (map snd (sized_models r n))"
    by (simp add: sized_models_def o_def)
  show ?thesis
    using assms unfolding headroom_estimate_def
    by (simp add: makeHeadroom_def Let_def used room_def cong: if_cong)
qed

lemma makeHeadroom_trivial:
  assumes "findLoadedModel (ns_LoadedModels n) model \<noteq> None \<or> ns_VRAMTotalMB n \<le> 0 \<or> headroom_estimate fetch_tags r n model \<le> 0"
  shows "\<exists>r'. makeHeadroom fetch_tags now env n model r = Some (None, [], r') \<and> r_lastEvictAt r' = r_lastEvictAt r"
  using assms unfolding headroom_estimate_def
  by (cases "findLoadedModel (ns_LoadedModels n) model \<noteq> None"; cases "ns_VRAMTotalMB n \<le> 0")
     (simp_all add: makeHeadroom_def Let_def cong: if_cong)

lemma reserveWarmBytes_ok:
  assumes "reservations_ok (node_reservations r node)" and "model \<noteq> []"
    and "reserveWarmBytes now node model b r = (others, r')"
  shows "fst (PendingPrewarmBytes now node r') = others + b" "hasActiveWarmReservation now node model r'"
    "r_lastEvictAt r' = r_lastEvictAt r" "r_evictClaimID r' = r_evictClaimID r" "r_nodes r' = r_nodes r"
    "r_lastKnownVRAM r' = r_lastKnownVRAM r"
proof -
  obtain ys where ri: "reserve_in now model b False (node_reservations r node) = (others, ys)"
    and r': "r' = set_reservations node ys r"
    using assms(3) by (auto simp: reserveWarmBytes_def reserveWarmBytesAs_def split: prod.splits)
  note sp = reserve_in_spec [OF assms(1,2) ri]
  show "fst (PendingPrewarmBytes now node r') = others + b" "hasActiveWarmReservation now node model r'"
    using sp(2,3,4) reservation_live [of now b False]
    by (simp_all add: r' pendingPrewarmBytes_eq hasActiveWarmReservation_def expired_def)
  show "r_lastEvictAt r' = r_lastEvictAt r" "r_evictClaimID r' = r_evictClaimID r" "r_nodes r' = r_nodes r"
    "r_lastKnownVRAM r' = r_lastKnownVRAM r"
    by (simp_all add: r' set_reservations_def)
qed

lemma pending_frame:
  "r_warmReserved r' = r_warmReserved r \<Longrightarrow> fst (PendingPrewarmBytes now node r') = fst (PendingPrewarmBytes now node r)"
  "r_warmReserved r' = r_warmReserved r \<Longrightarrow> hasActiveWarmReservation now node model r' = hasActiveWarmReservation now node model r"
  by (simp_all add: pendingPrewarmBytes_eq node_reservations_def hasActiveWarmReservation_def)

definition headroom_kept ::
  "gotime \<Rightarrow> node_state \<Rightarrow> string \<Rightarrow> router \<Rightarrow> headroom_error option \<times> loaded_model list \<times> router \<Rightarrow> bool" where
  "headroom_kept now n model r = (\<lambda>(err, evicted, r').
     (err \<noteq> None \<longrightarrow> gm_get (node_reservations r' (ns_Name n)) model = None)
     \<and> (evicted = [] \<longrightarrow> gm_get (r_lastEvictAt r') = gm_get (r_lastEvictAt r))
     \<and> (evicted \<noteq> [] \<longrightarrow> gm_get (r_lastEvictAt r') (ns_Name n) = Some now
          \<and> (\<forall>p. gm_get (r_lastEvictAt r) (ns_Name n) = Some p \<longrightarrow> evictCooldown \<le> now - p)))"

definition headroom_fits :: "gotime \<Rightarrow> node_state \<Rightarrow> string \<Rightarrow> router \<Rightarrow> headroom_error option \<times> loaded_model list \<times> router \<Rightarrow> bool" where
  "headroom_fits now n model r = (\<lambda>(err, evicted, r').
     err = None \<longrightarrow>
       hasActiveWarmReservation now (ns_Name n) model r'
       \<and> fst (PendingPrewarmBytes now (ns_Name n) r') \<le> room r n + sum_list (map (\<lambda>m. scaled (snd m)) evicted)
       \<and> fst (PendingPrewarmBytes now (ns_Name n) r') \<le> ns_VRAMTotalMB n * 1024 * 1024)"

lemma eviction_pass:
  assumes claim: "claimEvictCooldown now (ns_Name n) r2 = (Some claim, r3)"
    and find: "FindNode r2 (ns_Name n) = Some n" "counts_ok (ns_modelInFlight n)"
    and pend: "fst (PendingPrewarmBytes now (ns_Name n) r2) = needed" "needed \<le> ns_VRAMTotalMB n * 1024 * 1024"
      "hasActiveWarmReservation now (ns_Name n) model r2"
  shows "\<exists>res. map_option (\<lambda>(madeRoom, evicted, r4).
               let r5 = (if madeRoom then r4 else clearWarmReservation (ns_Name n) model r4);
                   r6 = (if evicted = [] then releaseEvictClaim (ns_Name n) claim r5 else r5)
               in (if madeRoom then None else Some errNoHeadroom, evicted, r6))
             (evictForHeadroom now env (ns_Name n) model needed r3) = Some res
     \<and> headroom_kept now n model r2 res \<and> headroom_fits now n model r2 res"
proof -
  note taken = claim_taken [OF claim]
  have "FindNode r3 (ns_Name n) = Some n"
    using find(1) taken(5) by (simp add: FindNode_def)
  from evictForHeadroom_result [OF this find(2), of now env model needed]
  obtain ok evicted where res: "evictForHeadroom now env (ns_Name n) model needed r3
       = Some (ok, evicted, fold (\<lambda>m. delete_warm_row (fst m) (ns_Name n)) evicted r3)"
    and enough: "ok \<longrightarrow> needed \<le> room r3 n + sum_list (map (\<lambda>m. scaled (snd m)) evicted)"
    by blast
  let ?r4 = "fold (\<lambda>m. delete_warm_row (fst m) (ns_Name n)) evicted r3"
  let ?r5 = "if ok then ?r4 else clearWarmReservation (ns_Name n) model ?r4"
  let ?r6 = "if evicted = [] then releaseEvictClaim (ns_Name n) claim ?r5 else ?r5"
  have release: "gm_get (r_lastEvictAt (releaseEvictClaim (ns_Name n) claim ?r5)) = gm_get (r_lastEvictAt r2)"
    by (rule claim_release [OF claim]) simp_all
  have "gm_get (node_reservations ?r6 (ns_Name n)) model = None" if "\<not> ok"
    using that by simp
  then have "headroom_kept now n model r2 (if ok then None else Some errNoHeadroom, evicted, ?r6)"
    using release taken(1,2) by (simp add: headroom_kept_def)
  moreover have "r_warmReserved ?r6 = r_warmReserved r2" if ok
    using that taken(4) by simp
  then have "headroom_fits now n model r2 (if ok then None else Some errNoHeadroom, evicted, ?r6)"
    using enough pend pending_frame [of ?r6 r2] room_frame [OF taken(6), of n] by (simp add: headroom_fits_def)
  ultimately show ?thesis
    unfolding res option.map prod.case Let_def by blast
qed

lemma headroom_frame:
  assumes "r_lastEvictAt r2 = r_lastEvictAt r" and "r_lastKnownVRAM r2 = r_lastKnownVRAM r"
  shows "headroom_kept now n model r2 = headroom_kept now n model r" "headroom_fits now n model r2 = headroom_fits now n model r"
  by (simp_all add: headroom_kept_def headroom_fits_def assms(1) room_frame [OF assms(2)])

lemma makeHeadroom_contract:
  assumes node: "FindNode r (ns_Name n) = Some n" "counts_ok (ns_modelInFlight n)"
    and table: "reservations_ok (node_reservations r (ns_Name n))" "model \<noteq> []"
    and load: "findLoadedModel (ns_LoadedModels n) model = None" "ns_VRAMTotalMB n > 0"
      "0 < headroom_estimate fetch_tags r n model"
  shows "\<exists>res. makeHeadroom fetch_tags now env n model r = Some res \<and> headroom_fits now n model r res
    \<and> (headroom_kept now n model r res
       \<or> headroom_estimate fetch_tags r n model > ns_VRAMTotalMB n * 1024 * 1024 \<and> res = (Some errNoHeadroom, [], r))"
proof -
  let ?est = "headroom_estimate fetch_tags r n model" and ?total = "ns_VRAMTotalMB n * 1024 * 1024"
  obtain others r2 where res: "reserveWarmBytes now (ns_Name n) model ?est r = (others, r2)"
    by fastforce
  note ok = reserveWarmBytes_ok [OF table res]
  note mk = makeHeadroom_eq [OF load res, of env, unfolded Let_def]
  have find: "FindNode r2 (ns_Name n) = Some n"
    using node(1) ok(5) by (simp add: FindNode_def)
  note frame = headroom_frame [OF ok(3,6)]
  consider "?est > ?total" | "?est \<le> ?total" "?est + others > ?total"
    | "?est \<le> ?total" "?est + others \<le> ?total" "room r n - others \<ge> ?est"
    | "?est \<le> ?total" "?est + others \<le> ?total" "\<not> room r n - others \<ge> ?est"
    by linarith
  then show ?thesis
  proof cases
    case 1
    then show ?thesis by (simp add: mk headroom_fits_def)
  next
    case 2
    then show ?thesis by (simp add: mk headroom_fits_def headroom_kept_def ok(3))
  next
    case 3
    then show ?thesis by (simp add: mk headroom_fits_def headroom_kept_def ok)
  next
    case 4
    have pend: "fst (PendingPrewarmBytes now (ns_Name n) r2) = ?est + others"
      using ok(1) by simp
    obtain c r3 where claim: "claimEvictCooldown now (ns_Name n) r2 = (c, r3)"
      by fastforce
    show ?thesis
    proof (cases c)
      case None
      then show ?thesis
        using 4 claim claim_refused [of now "ns_Name n" r2 r3]
        by (simp add: mk headroom_fits_def headroom_kept_def ok(3))
    next
      case (Some cl)
      have c: "\<not> ?est > ?total" "\<not> ?est + others > ?total" "\<not> room r n - others \<ge> ?est"
        using 4 by simp_all
      note pass = eviction_pass [OF claim [unfolded Some] find node(2) pend 4(2) ok(2), of env, unfolded frame Let_def]
      show ?thesis
        unfolding mk claim Some prod.case option.case if_not_P [OF c(1)] if_not_P [OF c(2)] if_not_P [OF c(3)]
        using pass by blast
    qed
  qed
qed

text \<open>
  C4. The headroom check in front of a warm load returns.  When it lets the load of a model of known size
  go ahead, the model holds an active reservation and all pending loads of the node together
  fit both its memory and the room left after the evictions.  When it refuses, no reservation
  for the model stays behind (nothing was reserved if the model alone exceeds the node).  A pass that
  evicts nothing leaves the eviction cooldown of every node as it was; one that evicts
  stamps it, and it never runs within the cooldown of an earlier one.
\<close>

theorem headroom_never_overcommits:
  assumes "FindNode r (ns_Name n) = Some n" and "counts_ok (ns_modelInFlight n)"
    and "reservations_ok (node_reservations r (ns_Name n))" and "model \<noteq> []"
  shows "\<exists>err evicted r'. makeHeadroom fetch_tags now env n model r = Some (err, evicted, r')
    \<and> (findLoadedModel (ns_LoadedModels n) model = None \<and> 0 < ns_VRAMTotalMB n \<and> 0 < headroom_estimate fetch_tags r n model
        \<and> err = None \<longrightarrow>
         hasActiveWarmReservation now (ns_Name n) model r'
         \<and> fst (PendingPrewarmBytes now (ns_Name n) r') \<le> room r n + sum_list (map (\<lambda>m. scaled (snd m)) evicted)
         \<and> fst (PendingPrewarmBytes now (ns_Name n) r') \<le> ns_VRAMTotalMB n * 1024 * 1024)
    \<and> (err \<noteq> None \<longrightarrow>
         gm_get (node_reservations r' (ns_Name n)) model = None
         \<or> headroom_estimate fetch_tags r n model > ns_VRAMTotalMB n * 1024 * 1024 \<and> r' = r)
    \<and> (evicted = [] \<longrightarrow> gm_get (r_lastEvictAt r') = gm_get (r_lastEvictAt r))
    \<and> (evicted \<noteq> [] \<longrightarrow> gm_get (r_lastEvictAt r') (ns_Name n) = Some now
          \<and> (\<forall>p. gm_get (r_lastEvictAt r) (ns_Name n) = Some p \<longrightarrow> evictCooldown \<le> now - p))"
proof (cases "findLoadedModel (ns_LoadedModels n) model = None \<and> ns_VRAMTotalMB n > 0 \<and> 0 < headroom_estimate fetch_tags r n model")
  case True
  then obtain err evicted r' where "makeHeadroom fetch_tags now env n model r = Some (err, evicted, r')"
    "headroom_fits now n model r (err, evicted, r')"
    "headroom_kept now n model r (err, evicted, r')
       \<or> headroom_estimate fetch_tags r n model > ns_VRAMTotalMB n * 1024 * 1024 \<and> (err, evicted, r') = (Some errNoHeadroom, [], r)"
    using makeHeadroom_contract [OF assms, of fetch_tags now env] by (metis prod_cases3)
  then show ?thesis
    by (intro exI [of _ err] exI [of _ evicted] exI [of _ r']) (auto simp: headroom_fits_def headroom_kept_def)
next
  case False
  then show ?thesis
    using makeHeadroom_trivial [of n model fetch_tags r now env] by fastforce
qed

section \<open>Examples\<close>

definition demo_holder :: node_state where
  "demo_holder = (demo_healthy ''a'')\<lparr> ns_VRAMTotalMB := 1,
     ns_LoadedModels := [\<lparr> mi_Name = ''m'', mi_SizeVRAM = 1000000, mi_Digest = [], mi_sizeAttributed = False \<rparr>] \<rparr>"

definition demo_loaded :: router where
  "demo_loaded = demo_one\<lparr> r_nodes := [demo_holder] \<rparr>"

lemma demo_loaded_simps:
  "FindNode demo_loaded ''a'' = Some demo_holder" "ns_Name demo_holder = ''a''" "counts_ok (ns_modelInFlight demo_holder)"
  "sized_models demo_loaded demo_holder = [(''m'', 1000000)]" "reservations_ok (node_reservations demo_loaded ''a'')"
  by (simp_all add: demo_loaded_def demo_holder_def demo_one_def demo_healthy_def zero_node_def FindNode_def counts_ok_def
      sized_models_def effectiveModelBytes_def node_reservations_def gm_at_def)

theorem eviction_is_safe_lru_witness:
  "\<exists>ok evicted r'. evictForHeadroom 9 (\<lambda>_. ([], True)) ''a'' ''big'' 500000 demo_loaded = Some (ok, evicted, r')
     \<and> set evicted \<subseteq> {(''m'', 1000000)}"
proof -
  obtain ok evicted r' where res: "evictForHeadroom 9 (\<lambda>_. ([], True)) ''a'' ''big'' 500000 demo_loaded = Some (ok, evicted, r')"
    "mset evicted \<subseteq># mset (sized_models demo_loaded demo_holder)"
    using eviction_is_safe_lru [OF demo_loaded_simps(1,3), of 9 "\<lambda>_. ([], True)" "''big''" 500000] by blast
  then show ?thesis
    using set_mset_mono [OF res(2)] by (auto simp: demo_loaded_simps)
qed

theorem headroom_never_overcommits_witness:
  "\<exists>err evicted r'. makeHeadroom (\<lambda>_. Some []) 9 (\<lambda>_. ([], True)) demo_holder ''big'' demo_loaded = Some (err, evicted, r')
     \<and> (evicted = [] \<longrightarrow> gm_get (r_lastEvictAt r') ''a'' = None)"
proof -
  have "gm_get (r_lastEvictAt demo_loaded) ''a'' = None"
    by (simp add: demo_loaded_def demo_one_def demo_router_def New_def Let_def)
  then show ?thesis
    using headroom_never_overcommits [of demo_loaded demo_holder "''big''" "\<lambda>_. Some []" 9 "\<lambda>_. ([], True)",
        unfolded demo_loaded_simps(2), OF demo_loaded_simps(1,3,5)] by fastforce
qed

end
