(* ===== verification/Queue.thy ===== *)
theory Queue
  imports Eviction
begin

text \<open>
  Requests in flight (\<^verbatim>\<open>internal/router/queue.go\<close>) and the queued wait for a node
  (\<^verbatim>\<open>internal/router/queue_wait.go\<close>).

  A wait is driven by a list of wake-ups: which channel of the \<^verbatim>\<open>select\<close> fired, at what time, and
  what the other requests did to the router since the last one.  A wait whose list is used up
  is still waiting.
\<close>

section \<open>Requests in flight\<close>

definition IncrConn :: "node_state \<Rightarrow> node_state" where
  "IncrConn n = n\<lparr> ns_ActiveConns := to_int32 (ns_ActiveConns n + 1) \<rparr>"

definition DecrConn :: "node_state \<Rightarrow> node_state" where
  "DecrConn n = (let v = to_int32 (ns_ActiveConns n - 1) in n\<lparr> ns_ActiveConns := (if v < 0 then 0 else v) \<rparr>)"

definition IncrModelInFlight :: "string \<Rightarrow> node_state \<Rightarrow> node_state" where
  "IncrModelInFlight model n =
     (if model = [] then n
      else n\<lparr> ns_modelInFlight := gm_put model (to_int32 (gm_at 0 (ns_modelInFlight n) model + 1)) (ns_modelInFlight n) \<rparr>)"

definition DecrModelInFlight :: "string \<Rightarrow> node_state \<Rightarrow> node_state" where
  "DecrModelInFlight model n =
     (if model = [] then n
      else case gm_get (ns_modelInFlight n) model of
        None \<Rightarrow> n
      | Some v \<Rightarrow>
          if v \<le> 1 then n\<lparr> ns_modelInFlight := gm_del model (ns_modelInFlight n) \<rparr>
          else n\<lparr> ns_modelInFlight := gm_put model (v - 1) (ns_modelInFlight n) \<rparr>)"

text \<open>How the proxy holds a node for a request and lets it go.\<close>

definition hold_node :: "string \<Rightarrow> node_state \<Rightarrow> node_state" where
  "hold_node model n = IncrModelInFlight model (IncrConn n)"

definition release_node :: "string \<Rightarrow> node_state \<Rightarrow> node_state" where
  "release_node model n = DecrModelInFlight model (DecrConn n)"

section \<open>Waiting for a node\<close>

definition QueueDepth :: "router \<Rightarrow> int" where
  "QueueDepth r = r_queueDepth r"

datatype wait_outcome =
  WaitRouted | WaitSkipHard | WaitSLAExpired | WaitQueueTimeout | WaitQueueFull | WaitQueueDisabled | WaitCtxCancelled

record wait_result =
  wt_Node :: "node_state option"
  wt_Warm :: bool
  wt_Decision :: "routing_decision option"
  wt_Outcome :: wait_outcome
  wt_NoRoute :: "no_route option"
  wt_Waited :: duration

definition noRouteOf :: "routing_decision option \<Rightarrow> no_route option" where
  "noRouteOf d = (case d of None \<Rightarrow> None | Some x \<Rightarrow> rd_NoRoute x)"

definition hard_no_route :: "no_route option \<Rightarrow> bool" where
  "hard_no_route nr = (case nr of None \<Rightarrow> False | Some x \<Rightarrow> IsHardNoRoute x)"

definition gave_up :: "routing_decision option \<Rightarrow> wait_outcome \<Rightarrow> duration \<Rightarrow> wait_result" where
  "gave_up d out waited =
     \<lparr> wt_Node = None, wt_Warm = False, wt_Decision = d, wt_Outcome = out, wt_NoRoute = noRouteOf d, wt_Waited = waited \<rparr>"

definition got_node :: "node_state \<Rightarrow> bool \<Rightarrow> routing_decision option \<Rightarrow> duration \<Rightarrow> wait_result" where
  "got_node n warm d waited =
     \<lparr> wt_Node = Some n, wt_Warm = warm, wt_Decision = d, wt_Outcome = WaitRouted, wt_NoRoute = None, wt_Waited = waited \<rparr>"

text \<open>What a request asks for, and whether a cloud provider could take it instead.\<close>

record wait_request =
  wq_fetch :: "string \<Rightarrow> tag_model list option"
  wq_hour :: "gotime \<Rightarrow> int"
  wq_model :: string
  wq_session :: string
  wq_runtime :: string
  wq_preferred :: string
  wq_cloudUsable :: bool

definition try_route :: "wait_request \<Rightarrow> gotime \<Rightarrow> router \<Rightarrow> route_result \<times> router" where
  "try_route q now r = RouteWithPrefix (wq_fetch q) (wq_hour q) now (wq_model q) (wq_session q) (wq_runtime q) (wq_preferred q) r"

text \<open>One more attempt: the final result if the wait is over, the decision to remember, and the router.\<close>

definition recheck ::
  "wait_request \<Rightarrow> gotime \<Rightarrow> gotime \<Rightarrow> routing_decision option \<Rightarrow> router
     \<Rightarrow> (wait_result option \<times> routing_decision option) \<times> router" where
  "recheck q started now prior r =
     (case try_route q now r of
        ((Some node, warm, decision), r1) \<Rightarrow> ((Some (got_node node warm decision (now - started)), prior), r1)
      | ((None, warm, decision), r1) \<Rightarrow>
          (let prior' = (if decision \<noteq> None then decision else prior) in
           if wq_cloudUsable q \<and> hard_no_route (noRouteOf decision)
           then ((Some (gave_up decision WaitSkipHard (now - started)), prior'), r1)
           else ((None, prior'), r1)))"

datatype wake = CtxDone | TimerFired | SlotFreed | RetryTick

fun wait_loop ::
  "wait_request \<Rightarrow> bool \<Rightarrow> gotime \<Rightarrow> routing_decision option \<Rightarrow> (wake \<times> gotime \<times> (router \<Rightarrow> router)) list \<Rightarrow> router
     \<Rightarrow> (wait_result \<times> router) option" where
  "wait_loop q slaCapped started prior [] r = None"
| "wait_loop q slaCapped started prior ((w, now, others) # ws) r =
     (if w = CtxDone then Some (gave_up prior WaitCtxCancelled (now - started), others r)
      else case recheck q started now prior (others r) of
        ((Some res, _), r1) \<Rightarrow> Some (res, r1)
      | ((None, prior'), r1) \<Rightarrow>
          if w = TimerFired
          then Some (gave_up prior' (if slaCapped then WaitSLAExpired else WaitQueueTimeout) (now - started), r1)
          else wait_loop q slaCapped started prior' ws r1)"

definition sla_capped :: "wait_request \<Rightarrow> router \<Rightarrow> bool" where
  "sla_capped q r \<longleftrightarrow> wq_cloudUsable q \<and> r_overflowSLAMs r > 0 \<and> r_overflowSLAMs r < r_queueTimeoutMs r"

text \<open>When the timer is set to fire.\<close>

definition wait_timeout :: "wait_request \<Rightarrow> router \<Rightarrow> duration" where
  "wait_timeout q r = (if sla_capped q r then r_overflowSLAMs r else r_queueTimeoutMs r) * millisecond"

definition add_depth :: "int \<Rightarrow> router \<Rightarrow> router" where
  "add_depth d r = r\<lparr> r_queueDepth := to_int32 (r_queueDepth r + d) \<rparr>"

definition waitForNodeInternal ::
  "wait_request \<Rightarrow> gotime \<Rightarrow> (wake \<times> gotime \<times> (router \<Rightarrow> router)) list \<Rightarrow> router \<Rightarrow> (wait_result \<times> router) option" where
  "waitForNodeInternal q now ws r =
     (if r_queueTimeoutMs r * millisecond \<le> 0 \<or> r_queueMaxDepth r \<le> 0 then Some (gave_up None WaitQueueDisabled 0, r)
      else
        let r1 = add_depth 1 r in
        if r_queueDepth r1 > r_queueMaxDepth r then Some (gave_up None WaitQueueFull 0, add_depth (- 1) r1)
        else map_option (\<lambda>(res, r2). (res, add_depth (- 1) r2)) (wait_loop q (sla_capped q r1) now None ws r1))"

definition WaitForNodeWithPrefixOpts ::
  "wait_request \<Rightarrow> gotime \<Rightarrow> (wake \<times> gotime \<times> (router \<Rightarrow> router)) list \<Rightarrow> router \<Rightarrow> (wait_result \<times> router) option" where
  "WaitForNodeWithPrefixOpts q now ws r =
     (case try_route q now r of
        ((Some node, warm, decision), r1) \<Rightarrow> Some (got_node node warm decision 0, r1)
      | ((None, warm, decision), r1) \<Rightarrow>
          if wq_cloudUsable q \<and> hard_no_route (noRouteOf decision) then Some (gave_up decision WaitSkipHard 0, r1)
          else map_option (\<lambda>(res, r2).
              (if wt_Decision res = None then res\<lparr> wt_Decision := decision, wt_NoRoute := noRouteOf decision \<rparr> else res, r2))
            (waitForNodeInternal q now ws r1))"

definition WaitForNodeWithPrefix ::
  "wait_request \<Rightarrow> gotime \<Rightarrow> (wake \<times> gotime \<times> (router \<Rightarrow> router)) list \<Rightarrow> router
     \<Rightarrow> ((node_state option \<times> bool \<times> routing_decision option) \<times> router) option" where
  "WaitForNodeWithPrefix q now ws r =
     map_option (\<lambda>(res, r'). ((wt_Node res, wt_Warm res, wt_Decision res), r'))
       (WaitForNodeWithPrefixOpts (q\<lparr> wq_cloudUsable := False \<rparr>) now ws r)"

definition WaitForNode ::
  "wait_request \<Rightarrow> gotime \<Rightarrow> (wake \<times> gotime \<times> (router \<Rightarrow> router)) list \<Rightarrow> router
     \<Rightarrow> ((node_state option \<times> bool \<times> routing_decision option) \<times> router) option" where
  "WaitForNode q0 now ws r =
     (let q = q0\<lparr> wq_preferred := [], wq_cloudUsable := False \<rparr> in
      case Route (wq_fetch q) (wq_hour q) now (wq_model q) (wq_session q) (wq_runtime q) r of
        ((Some node, warm, decision), r1) \<Rightarrow> Some ((Some node, warm, decision), r1)
      | ((None, _), r1) \<Rightarrow>
          map_option (\<lambda>(res, r2). ((wt_Node res, wt_Warm res, wt_Decision res), r2)) (waitForNodeInternal q now ws r1))"

section \<open>In-flight counts are the open requests\<close>

lemma inFlightFor_update:
  "inFlightFor (gm_put v c counts) m rt = inFlightFor counts m rt
     + (if modelNamesMatchOnRuntime rt v m then c - gm_at 0 counts v else 0)"
  by (induction counts) (auto simp: inFlightFor_Cons inFlightFor_def gm_at_def)

lemma inFlightFor_del:
  "gm_wf counts \<Longrightarrow> inFlightFor (gm_del v counts) m rt = inFlightFor counts m rt
     - (if modelNamesMatchOnRuntime rt v m then gm_at 0 counts v else 0)"
proof (induction counts)
  case (Cons e counts)
  show ?case
  proof (cases "fst e = v")
    case True
    then have "gm_del v (e # counts) = counts"
      using Cons.prems by (cases e) (simp add: gm_wf_def delete_id)
    then show ?thesis using True by (cases e) (simp add: inFlightFor_Cons gm_at_def)
  next
    case False
    then show ?thesis
      using Cons by (cases e) (auto simp: inFlightFor_Cons gm_at_def gm_wf_def)
  qed
qed (simp add: inFlightFor_def gm_at_def)

text \<open>
  The node's counters stand for the multiset of the models of its open requests (an empty name is a request whose
  model is unknown).
\<close>

definition counts_requests :: "string multiset \<Rightarrow> node_state \<Rightarrow> bool" where
  "counts_requests M n \<longleftrightarrow>
     ns_ActiveConns n = int (size M) \<and> counts_ok (ns_modelInFlight n)
     \<and> (\<forall>m. gm_at 0 (ns_modelInFlight n) m = (if m = [] then 0 else int (count M m)))
     \<and> (\<forall>m v. gm_get (ns_modelInFlight n) m = Some v \<longrightarrow> v > 0)
     \<and> (\<forall>m rt. inFlightFor (ns_modelInFlight n) m rt = int (size (filter_mset (\<lambda>x. x \<noteq> [] \<and> modelNamesMatchOnRuntime rt x m) M)))"

lemma counts_ok_del: "counts_ok counts \<Longrightarrow> counts_ok (gm_del m counts)"
  using gm_wf_del [of counts m] by (auto simp: counts_ok_def AList.delete_eq)

lemma hold_counts:
  assumes "counts_requests M n" "size M + 1 < 2 ^ 31"
  shows "counts_requests (add_mset model M) (hold_node model n)"
proof -
  have small: "to_int32 (int (size M) + 1) = int (size M) + 1"
    using assms(2) by (intro to_int32_small) simp_all
  have "count M model \<le> size M" by (rule count_le_size)
  then have small': "to_int32 (int (count M model) + 1) = int (count M model) + 1"
    using assms(2) by (intro to_int32_small) simp_all
  show ?thesis
    using assms(1) small small'
    by (auto simp: counts_requests_def hold_node_def IncrConn_def IncrModelInFlight_def inFlightFor_update counts_ok_put
        gm_get_put gm_at_def split: option.splits if_splits)
qed

lemma release_counts:
  assumes "counts_requests (add_mset model M) n" "size M + 1 < 2 ^ 31"
  shows "counts_requests M (release_node model n)"
proof -
  let ?c = "ns_modelInFlight n"
  have conns: "ns_ActiveConns (DecrConn n) = int (size M)"
  proof -
    have "to_int32 (int (size M)) = int (size M)" using assms(2) by (intro to_int32_small) simp_all
    then show ?thesis using assms(1) by (simp add: counts_requests_def DecrConn_def)
  qed
  have wf: "gm_wf ?c" and ok: "counts_ok ?c"
    using assms(1) by (simp_all add: counts_requests_def counts_ok_def)
  have get: "gm_at 0 ?c m = (if m = [] then 0 else int (count (add_mset model M) m))" for m
    using assms(1) by (simp add: counts_requests_def)
  have pos: "v > 0" if "gm_get ?c m = Some v" for m v
    using assms(1) that by (simp add: counts_requests_def)
  have fl: "inFlightFor ?c m rt = int (size (filter_mset (\<lambda>x. x \<noteq> [] \<and> modelNamesMatchOnRuntime rt x m) (add_mset model M)))" for m rt
    using assms(1) by (simp add: counts_requests_def)
  show ?thesis
  proof (cases "model = []")
    case True
    then show ?thesis
      using conns wf ok get pos fl by (auto simp: counts_requests_def release_node_def DecrModelInFlight_def DecrConn_def Let_def)
  next
    case False
    obtain v where v: "gm_get ?c model = Some v" "v = int (count M model) + 1"
      using get [of model] False by (cases "gm_get ?c model") (auto simp: gm_at_def)
    let ?c' = "if v \<le> 1 then gm_del model ?c else gm_put model (v - 1) ?c"
    have n': "release_node model n = (DecrConn n)\<lparr> ns_modelInFlight := ?c' \<rparr>"
      using False v(1) by (simp add: release_node_def DecrModelInFlight_def DecrConn_def Let_def)
    have "counts_ok ?c'" using ok v(2) by (simp add: counts_ok_del counts_ok_put)
    moreover have "gm_at 0 ?c' m = (if m = [] then 0 else int (count M m))" for m
      using get [of m] v False by (auto simp: gm_at_def gm_get_put gm_get_del split: option.splits)
    moreover have "w > 0" if "gm_get ?c' m = Some w" for m w
      using that pos by (auto simp: gm_get_put gm_get_del split: if_splits)
    moreover have "inFlightFor ?c' m rt = int (size (filter_mset (\<lambda>x. x \<noteq> [] \<and> modelNamesMatchOnRuntime rt x m) M))" for m rt
      using fl [of m rt] v False by (simp add: inFlightFor_update inFlightFor_del [OF wf] gm_at_def)
    ultimately show ?thesis
      using conns by (simp add: counts_requests_def n')
  qed
qed

text \<open>The proxy's side: requests open and close, and only an open one closes.\<close>

datatype conn_event = Open string | Close string

fun conn_run :: "conn_event list \<Rightarrow> string multiset \<Rightarrow> node_state \<Rightarrow> (string multiset \<times> node_state) option" where
  "conn_run [] M n = Some (M, n)"
| "conn_run (Open m # es) M n = (if size M + 1 < 2 ^ 31 then conn_run es (add_mset m M) (hold_node m n) else None)"
| "conn_run (Close m # es) M n = (if m \<in># M then conn_run es (M - {#m#}) (release_node m n) else None)"

lemma conn_run_counts:
  "conn_run es M n = Some (M', n') \<Longrightarrow> counts_requests M n \<Longrightarrow> size M < 2 ^ 31 \<Longrightarrow> counts_requests M' n'"
proof (induction es M n rule: conn_run.induct)
  case (2 m es M n)
  then show ?case using hold_counts by (simp split: if_splits)
next
  case (3 m es M n)
  then have m: "m \<in># M" "conn_run es (M - {#m#}) (release_node m n) = Some (M', n')"
    by (simp_all split: if_splits)
  have M: "M = add_mset m (M - {#m#})" using m(1) by simp
  then have "size M = size (M - {#m#}) + 1" by (metis Suc_eq_plus1 size_add_mset)
  then have "counts_requests (M - {#m#}) (release_node m n)"
    using release_counts [of m "M - {#m#}" n] 3(3,4) M by simp
  then show ?case using 3(1) m 3(4) \<open>size M = _\<close> by simp
qed simp

text \<open>
  C36. The in-flight bookkeeping is exact: after any sequence of requests that start and finish on a node (fewer than \<open>2 ^ 31\<close>
  at once), its connection counter is the number of open requests, and the count that eviction
  consults for a model on a runtime is the number of open requests for that model under any
  of its spellings; in particular the counts are never negative, which is what makes
  eviction return.
\<close>

theorem in_flight_counts_open_requests:
  assumes "conn_run es {#} n = Some (M, n')" and "ns_ActiveConns n = 0" "ns_modelInFlight n = []"
  shows "ns_ActiveConns n' = int (size M)
    \<and> inFlightFor (ns_modelInFlight n') m rt = int (size (filter_mset (\<lambda>x. x \<noteq> [] \<and> modelNamesMatchOnRuntime rt x m) M))
    \<and> counts_ok (ns_modelInFlight n')
    \<and> (M = {#} \<longrightarrow> ns_modelInFlight n' = [])"
proof -
  have "counts_requests {#} n"
    using assms(2,3) by (simp add: counts_requests_def counts_ok_def gm_at_def inFlightFor_def)
  then have c: "counts_requests M n'"
    using conn_run_counts [OF assms(1)] by simp
  have "ns_modelInFlight n' = []" if "M = {#}"
  proof (cases "ns_modelInFlight n'")
    case (Cons e es)
    then have get: "gm_get (ns_modelInFlight n') (fst e) = Some (snd e)" by (cases e) simp
    then have "gm_at 0 (ns_modelInFlight n') (fst e) = snd e" by (simp add: gm_at_def)
    moreover have "gm_at 0 (ns_modelInFlight n') (fst e) = 0" using c that by (simp add: counts_requests_def)
    moreover have "snd e > 0" using c get unfolding counts_requests_def by blast
    ultimately show ?thesis by simp
  qed simp
  then show ?thesis using c by (simp add: counts_requests_def)
qed

theorem in_flight_counts_open_requests_witness:
  "ns_ActiveConns (release_node ''llama3'' (hold_node ''llama3:latest'' (hold_node ''llama3'' zero_node))) = 1
   \<and> inFlightFor (ns_modelInFlight (release_node ''llama3'' (hold_node ''llama3:latest'' (hold_node ''llama3'' zero_node)))) ''llama3'' ''ollama'' = 1"
proof -
  let ?es = "[Open ''llama3'', Open ''llama3:latest'', Close ''llama3'']"
  have run: "conn_run ?es {#} zero_node
      = Some ({#''llama3:latest''#}, release_node ''llama3'' (hold_node ''llama3:latest'' (hold_node ''llama3'' zero_node)))"
    by simp
  have m: "modelNamesMatchOnRuntime ''ollama'' ''llama3:latest'' ''llama3''" by code_simp
  show ?thesis
    using in_flight_counts_open_requests [OF run, of "''llama3''" "''ollama''"] m by (simp add: zero_node_def)
qed

section \<open>A wait ends, and leaves the queue as it was\<close>

lemma strip_depth: assumes "strip r' = strip r" shows "r_queueDepth r' = r_queueDepth r"
  using arg_cong [OF assms, of r_queueDepth] by (simp add: strip_def)

lemma unpin_depth: assumes "unpin r' = unpin r" shows "r_queueDepth r' = r_queueDepth r"
  using arg_cong [OF assms, of r_queueDepth] by (simp add: unpin_def)

lemma RouteWithPrefix_depth:
  assumes "distinct (map ns_Name (r_nodes r))"
  shows "r_queueDepth (snd (RouteWithPrefix ft h now m sid rt p r)) = r_queueDepth r"
proof -
  define s where "s = (if \<not> r_sessionAffinity r then [] else sid)"
  obtain out r1 where cp: "checkPin now s m rt r = (out, r1)" by (cases "checkPin now s m rt r")
  have r1: "r_nodes r1 = r_nodes r" "r_queueDepth r1 = r_queueDepth r"
    using checkPin_nodes [of now s m rt r] unpin_depth [OF checkPin_unpin [of now s m rt r]] cp by simp_all
  have rec: "r_queueDepth (RecordTransition h m now r') = r_queueDepth r'" for r'
    by (simp add: RecordTransition_def Let_def)
  show ?thesis
  proof (cases out)
    case (UsePin node)
    have stamp: "r_queueDepth (stampAffinityModel sid' u m r') = r_queueDepth r'" for sid' u r'
      by (simp add: stampAffinityModel_def split: option.split)
    show ?thesis
      using cp UsePin r1(2)
      unfolding RouteWithPrefix_def s_def [symmetric] Let_def by (simp add: stamp rec strip_depth [OF strip_cold])
  next
    case (NoPin lost keep)
    obtain node warm dec r2 where ri: "routeInternal ft now m rt p r1 = ((node, warm, dec), r2)" by (metis prod_cases3 prod.exhaust)
    have "strip r2 = strip r1"
      using filterAndSelect_strip [of "r_nodes r1" ft now m rt p "[]" r1] assms r1 ri by (simp add: routeInternal_def)
    then have "r_queueDepth r2 = r_queueDepth r1" by (rule strip_depth)
    then have "r_queueDepth r2 = r_queueDepth r" using r1(2) by simp
    then show ?thesis
      using cp NoPin ri unfolding RouteWithPrefix_def s_def [symmetric] Let_def
      by (cases node) (simp_all add: rec pin_session_def)
  qed
qed

text \<open>What the attempts of a waiting request keep: the names of the nodes and the depth of the queue.\<close>

definition waits_with :: "int \<Rightarrow> router \<Rightarrow> bool" where
  "waits_with d r \<longleftrightarrow> distinct (map ns_Name (r_nodes r)) \<and> r_queueDepth r = d"

definition others_keep :: "(wake \<times> gotime \<times> (router \<Rightarrow> router)) list \<Rightarrow> bool" where
  "others_keep ws \<longleftrightarrow> (\<forall>(w, t, f) \<in> set ws. \<forall>d r. waits_with d r \<longrightarrow> waits_with d (f r))"

lemma try_route_waits: "waits_with d r \<Longrightarrow> waits_with d (snd (try_route q now r))"
  by (simp add: waits_with_def try_route_def RouteWithPrefix_depth RouteWithPrefix_nodes)

lemma recheck_snd: "snd (recheck q st now prior r) = snd (try_route q now r)"
  by (simp add: recheck_def Let_def split: prod.split option.split)

lemma wait_loop_waits:
  "waits_with d r \<Longrightarrow> others_keep ws \<Longrightarrow> wait_loop q c st prior ws r = Some (res, r') \<Longrightarrow> waits_with d r'"
proof (induction q c st prior ws r rule: wait_loop.induct)
  case (2 q c st prior w now f ws r)
  have f: "waits_with d (f r)" and ws: "others_keep ws" using 2(2,3) by (auto simp: others_keep_def)
  obtain out p' r1 where rc: "recheck q st now prior (f r) = ((out, p'), r1)" by (metis prod.exhaust)
  have r1: "waits_with d r1" using try_route_waits [OF f, of q now] recheck_snd [of q st now prior "f r"] rc by simp
  show ?case
  proof (cases "w = CtxDone")
    case True
    then show ?thesis using 2(4) f by simp
  next
    case False
    then show ?thesis using 2(1) [OF False rc [symmetric] refl _ _ r1 ws] 2(4) rc r1
      by (cases out; cases "w = TimerFired") simp_all
  qed
qed simp

text \<open>How a wait may end.\<close>

definition end_ok :: "wait_request \<Rightarrow> bool \<Rightarrow> wait_result \<Rightarrow> bool" where
  "end_ok q capped res \<longleftrightarrow>
     (wt_Outcome res = WaitRouted \<longleftrightarrow> wt_Node res \<noteq> None)
     \<and> (wt_Outcome res = WaitSkipHard \<longrightarrow> wq_cloudUsable q \<and> hard_no_route (wt_NoRoute res))
     \<and> (wt_Outcome res = WaitSLAExpired \<longrightarrow> capped)
     \<and> (wt_Outcome res = WaitQueueTimeout \<longrightarrow> \<not> capped)
     \<and> (wt_Node res = None \<longrightarrow> wt_NoRoute res = noRouteOf (wt_Decision res))"

lemma end_ok_intros:
  "end_ok q c (got_node n warm d t)"
  "wq_cloudUsable q \<Longrightarrow> hard_no_route (noRouteOf d) \<Longrightarrow> end_ok q c (gave_up d WaitSkipHard t)"
  "end_ok q c (gave_up d WaitCtxCancelled t)"
  "end_ok q c (gave_up d (if c then WaitSLAExpired else WaitQueueTimeout) t)"
  "end_ok q c (gave_up d WaitQueueFull t)" "end_ok q c (gave_up d WaitQueueDisabled t)"
  by (simp_all add: end_ok_def got_node_def gave_up_def)

lemma recheck_end: "recheck q st now prior r = ((Some res, p'), r1) \<Longrightarrow> end_ok q c res"
  by (auto simp: recheck_def Let_def end_ok_intros split: prod.splits option.splits if_splits)

lemma wait_loop_end: "wait_loop q c st prior ws r = Some (res, r') \<Longrightarrow> end_ok q c res"
proof (induction q c st prior ws r rule: wait_loop.induct)
  case (2 q c st prior w now f ws r)
  obtain out p' r1 where rc: "recheck q st now prior (f r) = ((out, p'), r1)" by (metis prod.exhaust)
  show ?case
  proof (cases "w = CtxDone")
    case True
    then show ?thesis using 2(2) by (auto simp: end_ok_intros)
  next
    case False
    show ?thesis
    proof (cases out)
      case None
      then show ?thesis using 2(1) [OF False rc [symmetric] refl] 2(2) False rc
        by (cases "w = TimerFired") (auto simp: end_ok_intros)
    next
      case (Some x)
      then show ?thesis using 2(2) False rc recheck_end [of q st now prior "f r" x p' r1 c] by auto
    qed
  qed
qed simp

lemma wait_loop_returns: "w \<in> {CtxDone, TimerFired} \<Longrightarrow> (w, t, f) \<in> set ws \<Longrightarrow> wait_loop q c st prior ws r \<noteq> None"
proof (induction q c st prior ws r rule: wait_loop.induct)
  case (2 q c st prior w' now f' ws r)
  obtain out p' r1 where rc: "recheck q st now prior (f' r) = ((out, p'), r1)" by (metis prod.exhaust)
  show ?case
  proof (cases "w' = CtxDone \<or> w' = TimerFired \<or> out \<noteq> None")
    case True
    then show ?thesis using rc by (cases out) auto
  next
    case False
    then have "(w, t, f) \<in> set ws" using 2(2,3) by auto
    then show ?thesis using 2(1) [OF _ rc [symmetric] refl] 2(2) False rc by simp
  qed
qed simp

lemma internal_end:
  assumes "waits_with d r" "0 \<le> d" "d < 2 ^ 31 - 1" "others_keep ws" "w \<in> {CtxDone, TimerFired}" "(w, t, f) \<in> set ws"
  obtains res r' c where "waitForNodeInternal q now ws r = Some (res, r')" "r_queueDepth r' = d" "end_ok q c res"
    "c \<longrightarrow> wq_cloudUsable q"
proof (cases "r_queueTimeoutMs r * millisecond \<le> 0 \<or> r_queueMaxDepth r \<le> 0")
  case True
  then show thesis using assms(1)
    by (intro that [of "gave_up None WaitQueueDisabled 0" r False])
      (simp_all add: waitForNodeInternal_def end_ok_intros waits_with_def)
next
  case enabled: False
  define r1 where "r1 = add_depth 1 r"
  have small: "to_int32 (d + 1) = d + 1" "to_int32 d = d" using assms(2,3) by simp_all
  have r1: "waits_with (d + 1) r1" using assms(1) small by (simp add: waits_with_def r1_def add_depth_def)
  show thesis
  proof (cases "r_queueDepth r1 > r_queueMaxDepth r")
    case True
    have "r_queueDepth (add_depth (- 1) r1) = d" using r1 small by (simp add: waits_with_def add_depth_def)
    then show thesis using True enabled
      by (intro that [of "gave_up None WaitQueueFull 0" "add_depth (- 1) r1" False])
        (simp_all add: waitForNodeInternal_def end_ok_intros r1_def Let_def)
  next
    case False
    obtain res r2 where wl: "wait_loop q (sla_capped q r1) now None ws r1 = Some (res, r2)"
      using wait_loop_returns [OF assms(5,6)] by fastforce
    have "waits_with (d + 1) r2" using wait_loop_waits [OF r1 assms(4) wl] .
    then have "r_queueDepth (add_depth (- 1) r2) = d" using small by (simp add: waits_with_def add_depth_def)
    then show thesis using False enabled wl wait_loop_end [OF wl]
      by (intro that [of res "add_depth (- 1) r2" "sla_capped q r1"])
        (simp_all add: waitForNodeInternal_def r1_def [symmetric] Let_def sla_capped_def)
  qed
qed

text \<open>
  C12. A queued request always comes to an end once its timer fires or its client goes away, whatever
  wakes it before and whatever the other requests do meanwhile, and it gives its place in the queue back
  on every path out.  It is routed exactly when a node is returned; the local wait is skipped only when
  the reason is one waiting cannot cure and a cloud provider can take the request; an overflow deadline
  is reported only with such a provider; and the reported reason is that of the reported decision.
\<close>

theorem wait_ends_and_frees_its_place:
  assumes "distinct (map ns_Name (r_nodes r))" "0 \<le> r_queueDepth r" "r_queueDepth r < 2 ^ 31 - 1"
    and "others_keep ws" "w \<in> {CtxDone, TimerFired}" "(w, t, f) \<in> set ws"
  shows "\<exists>res r'. WaitForNodeWithPrefixOpts q now ws r = Some (res, r') \<and> r_queueDepth r' = r_queueDepth r
    \<and> (wt_Outcome res = WaitRouted \<longleftrightarrow> wt_Node res \<noteq> None)
    \<and> (wt_Outcome res = WaitSkipHard \<longrightarrow> wq_cloudUsable q \<and> hard_no_route (wt_NoRoute res))
    \<and> (wt_Outcome res = WaitSLAExpired \<longrightarrow> wq_cloudUsable q)
    \<and> (wt_Node res = None \<longrightarrow> wt_NoRoute res = noRouteOf (wt_Decision res))"
proof -
  define d where "d = r_queueDepth r"
  obtain node warm dec r1 where tr: "try_route q now r = ((node, warm, dec), r1)" by (metis prod_cases3 prod.exhaust)
  have "waits_with d r" using assms(1) by (simp add: waits_with_def d_def)
  then have r1: "waits_with d r1" using try_route_waits [of d r q now] tr by simp
  note bounds = assms(2,3) [folded d_def]
  consider n where "node = Some n" | "node = None" "wq_cloudUsable q" "hard_no_route (noRouteOf dec)"
    | "node = None" "\<not> (wq_cloudUsable q \<and> hard_no_route (noRouteOf dec))" by (cases node) auto
  then show ?thesis
  proof cases
    case 1
    then show ?thesis using tr r1
      by (simp add: WaitForNodeWithPrefixOpts_def got_node_def waits_with_def d_def)
  next
    case 2
    then show ?thesis using tr r1
      by (simp add: WaitForNodeWithPrefixOpts_def gave_up_def waits_with_def d_def)
  next
    case 3
    obtain res r2 c where i: "waitForNodeInternal q now ws r1 = Some (res, r2)" "r_queueDepth r2 = d" "end_ok q c res"
      "c \<longrightarrow> wq_cloudUsable q" using internal_end [OF r1 bounds assms(4,5,6)] .
    have eq: "WaitForNodeWithPrefixOpts q now ws r =
        Some (if wt_Decision res = None then res\<lparr> wt_Decision := dec, wt_NoRoute := noRouteOf dec \<rparr> else res, r2)"
      using tr 3 i(1) unfolding WaitForNodeWithPrefixOpts_def by auto
    show ?thesis
      unfolding eq using i(2-4)
      by (cases "wt_Decision res = None") (auto simp: end_ok_def d_def noRouteOf_def hard_no_route_def)
  qed
qed

theorem wait_ends_and_frees_its_place_witness:
  "\<exists>res r'. WaitForNodeWithPrefixOpts
       \<lparr> wq_fetch = (\<lambda>_. None), wq_hour = (\<lambda>_. 0), wq_model = ''m'', wq_session = [], wq_runtime = [], wq_preferred = [],
         wq_cloudUsable = False \<rparr> 0 [(RetryTick, 5, id), (TimerFired, 9, \<lambda>r. clearWarmReservation ''a'' ''m'' r)] (demo_router [demo_config ''a'' ''u1'']) = Some (res, r')
     \<and> r_queueDepth r' = r_queueDepth (demo_router [demo_config ''a'' ''u1'']) \<and> wt_Outcome res \<noteq> WaitSkipHard"
proof -
  let ?r = "demo_router [demo_config ''a'' ''u1'']"
  let ?ws = "[(RetryTick, 5, id), (TimerFired, 9, \<lambda>r. clearWarmReservation ''a'' ''m'' r)]"
  have r: "distinct (map ns_Name (r_nodes ?r))" "0 \<le> r_queueDepth ?r" "r_queueDepth ?r < 2 ^ 31 - 1"
    by (simp_all add: demo_router_def New_def Let_def)
  have c: "waits_with d (clearWarmReservation n m r) = waits_with d r" for d n m r
    using strip_depth [OF strip_clear [of n m r]] strip_fields(6) [OF strip_clear [of n m r]] by (simp add: waits_with_def)
  have o: "others_keep ?ws" by (simp add: others_keep_def c)
  have e: "TimerFired \<in> {CtxDone, TimerFired}" "(TimerFired, 9, \<lambda>r. clearWarmReservation ''a'' ''m'' r) \<in> set ?ws" by simp_all
  show ?thesis
    using wait_ends_and_frees_its_place [OF r o e, of "\<lparr> wq_fetch = (\<lambda>_. None), wq_hour = (\<lambda>_. 0), wq_model = ''m'',
      wq_session = [], wq_runtime = [], wq_preferred = [], wq_cloudUsable = False \<rparr>" 0] by auto
qed

end
