(* ===== verification/Auth.thy ===== *)
theory Auth
  imports Float64
begin

text \<open>
  API keys (\<^verbatim>\<open>internal/auth\<close>): token buckets in binary64, daily and monthly
  counters, the key table with its two indexes, the request handler, expiry checks
  with their once-only audit, live patches, reload, revocation and the persisted
  counters.

  The two indexes hold pointers to shared key states, so the table has an explicit
  heap and the indexes hold positions in it.  The digest (SHA-256 in hex), the calendar
  of the local time zone and the three time formats are parameters.  Every operation reads
  the clock once.
\<close>

record time_lib =
  tl_date :: "gotime \<Rightarrow> int \<times> int \<times> int"
  tl_next_day :: "gotime \<Rightarrow> gotime"
  tl_next_midnight :: "gotime \<Rightarrow> gotime"
  tl_next_month :: "gotime \<Rightarrow> gotime"
  tl_parse_date :: "string \<Rightarrow> gotime option"
  tl_parse_minute :: "string \<Rightarrow> gotime option"
  tl_parse_rfc3339 :: "string \<Rightarrow> gotime option"

abbreviation year_of :: "time_lib \<Rightarrow> gotime \<Rightarrow> int" where "year_of lib t \<equiv> fst (tl_date lib t)"
abbreviation month_of :: "time_lib \<Rightarrow> gotime \<Rightarrow> int" where "month_of lib t \<equiv> fst (snd (tl_date lib t))"
abbreviation day_of :: "time_lib \<Rightarrow> gotime \<Rightarrow> int" where "day_of lib t \<equiv> snd (snd (tl_date lib t))"

section \<open>Counters\<close>

record key_counter =
  kc_today :: int
  kc_month :: int
  kc_tokensToday :: int
  kc_tokensMonth :: int
  kc_lastReset :: gotime

definition resetLocked :: "time_lib \<Rightarrow> gotime \<Rightarrow> key_counter \<Rightarrow> key_counter" where
  "resetLocked lib now c =
     (if month_of lib now \<noteq> month_of lib (kc_lastReset c) \<or> year_of lib now \<noteq> year_of lib (kc_lastReset c)
      then c\<lparr> kc_today := 0, kc_month := 0, kc_tokensToday := 0, kc_tokensMonth := 0 \<rparr>
      else if day_of lib now \<noteq> day_of lib (kc_lastReset c) then c\<lparr> kc_today := 0, kc_tokensToday := 0 \<rparr>
      else c)"

definition incrementAndStats :: "time_lib \<Rightarrow> gotime \<Rightarrow> key_counter \<Rightarrow> (int \<times> int) \<times> key_counter" where
  "incrementAndStats lib now c =
     (let c1 = resetLocked lib now c;
          c2 = c1\<lparr> kc_lastReset := now, kc_today := kc_today c1 + 1, kc_month := kc_month c1 + 1 \<rparr>
      in ((kc_today c2, kc_month c2), c2))"

definition increment :: "time_lib \<Rightarrow> gotime \<Rightarrow> key_counter \<Rightarrow> key_counter" where
  "increment lib now c =
     (let c1 = resetLocked lib now c
      in c1\<lparr> kc_lastReset := now, kc_today := kc_today c1 + 1, kc_month := kc_month c1 + 1 \<rparr>)"

definition decrement :: "key_counter \<Rightarrow> key_counter" where
  "decrement c =
     (let c1 = (if kc_today c > 0 then c\<lparr> kc_today := kc_today c - 1 \<rparr> else c)
      in if kc_month c1 > 0 then c1\<lparr> kc_month := kc_month c1 - 1 \<rparr> else c1)"

definition addTokens :: "time_lib \<Rightarrow> gotime \<Rightarrow> int \<Rightarrow> key_counter \<Rightarrow> key_counter" where
  "addTokens lib now n c =
     (if n \<le> 0 then c
      else let c1 = resetLocked lib now c
           in c1\<lparr> kc_lastReset := now, kc_tokensToday := kc_tokensToday c1 + n, kc_tokensMonth := kc_tokensMonth c1 + n \<rparr>)"

definition stats :: "time_lib \<Rightarrow> gotime \<Rightarrow> key_counter \<Rightarrow> int \<times> int \<times> int" where
  "stats lib now c =
     (if month_of lib now \<noteq> month_of lib (kc_lastReset c) \<or> year_of lib now \<noteq> year_of lib (kc_lastReset c) then (0, 0, 0)
      else if day_of lib now \<noteq> day_of lib (kc_lastReset c) then (0, kc_month c, kc_tokensMonth c)
      else (kc_today c, kc_month c, kc_tokensMonth c))"

section \<open>Token buckets\<close>

record token_bucket =
  tb_tokens :: float64
  tb_capacity :: float64
  tb_lastRefill :: gotime
  tb_rate :: float64
  tb_unlimited :: bool

definition newTokenBucket :: "gotime \<Rightarrow> int \<Rightarrow> token_bucket" where
  "newTokenBucket now ratePerHour =
     (if ratePerHour \<le> 0
      then \<lparr> tb_tokens = 0, tb_capacity = 0, tb_lastRefill = now, tb_rate = 0, tb_unlimited = True \<rparr>
      else \<lparr> tb_tokens = f_of_int ratePerHour, tb_capacity = f_of_int ratePerHour, tb_lastRefill = now,
             tb_rate = fdiv (f_of_int ratePerHour) 3600, tb_unlimited = False \<rparr>)"

text \<open>\<^verbatim>\<open>Duration.Seconds\<close>: whole seconds plus the remaining nanoseconds.\<close>

definition seconds :: "duration \<Rightarrow> float64" where
  "seconds d = fadd (f_of_int (quot d second)) (fdiv (f_of_int (d - quot d second * second)) 1000000000)"

text \<open>The tokens at time \<open>now\<close>: refilled at the rate, capped at the capacity.\<close>

definition refilled :: "gotime \<Rightarrow> token_bucket \<Rightarrow> float64" where
  "refilled now tb =
     (let current = fadd (tb_tokens tb) (fmul (seconds (now - tb_lastRefill tb)) (tb_rate tb))
      in if current > tb_capacity tb then tb_capacity tb else current)"

definition allow :: "gotime \<Rightarrow> token_bucket \<Rightarrow> bool \<times> token_bucket" where
  "allow now tb =
     (if tb_unlimited tb then (True, tb)
      else
        let tb1 = tb\<lparr> tb_tokens := refilled now tb, tb_lastRefill := now \<rparr>
        in if tb_tokens tb1 \<ge> 1 then (True, tb1\<lparr> tb_tokens := fsub (tb_tokens tb1) 1 \<rparr>) else (False, tb1))"

definition refund :: "token_bucket \<Rightarrow> token_bucket" where
  "refund tb =
     (let tokens = fadd (tb_tokens tb) 1
      in tb\<lparr> tb_tokens := (if tokens > tb_capacity tb then tb_capacity tb else tokens) \<rparr>)"

definition snapshot :: "gotime \<Rightarrow> token_bucket \<Rightarrow> float64 \<times> float64 \<times> int" where
  "snapshot now tb =
     (if tb_unlimited tb then (- 1, - 1, 0)
      else
        let current = refilled now tb;
            secsUntilFull = (if tb_rate tb > 0 then fdiv (fsub (tb_capacity tb) current) (tb_rate tb) else 0);
            secs = (if secsUntilFull < 0 then 0 else secsUntilFull)
        in (current, tb_capacity tb, (now + int_of_f (fmul secs 1000000000)) div second))"

definition retryAfterSeconds :: "gotime \<Rightarrow> token_bucket \<Rightarrow> int" where
  "retryAfterSeconds now tb =
     (let current = refilled now tb in
      if current \<ge> 1 \<or> tb_rate tb \<le> 0 then 1 else \<lceil>fdiv (fsub 1 current) (tb_rate tb)\<rceil>)"

section \<open>Keys\<close>

record key_config =
  kf_Name :: string
  kf_Key :: string
  kf_RateLimit :: int
  kf_Models :: "string list"
  kf_ExpiresAt :: string
  kf_DailyLimit :: int
  kf_MonthlyLimit :: int
  kf_DailyUsdCap :: float64
  kf_MonthlyUsdCap :: float64
  kf_LocalOnly :: bool
  kf_AllowLocalDegradation :: bool

record auth_config =
  ac_Enabled :: "bool option"
  ac_Keys :: "key_config list"

definition IsEnabled :: "auth_config \<Rightarrow> bool" where
  "IsEnabled cfg = (case ac_Enabled cfg of None \<Rightarrow> True | Some b \<Rightarrow> b)"

datatype key_error = MissingNameOrKey | DuplicateKeyName string | DuplicateKeyValue string

text \<open>The check of the key list when the configuration is loaded.\<close>

fun check_keys :: "string list \<Rightarrow> string list \<Rightarrow> key_config list \<Rightarrow> key_error option" where
  "check_keys names tokens [] = None"
| "check_keys names tokens (k # ks) =
     (if kf_Name k = [] \<or> kf_Key k = [] then Some MissingNameOrKey
      else if kf_Name k \<in> set names then Some (DuplicateKeyName (kf_Name k))
      else if kf_Key k \<in> set tokens then Some (DuplicateKeyValue (kf_Name k))
      else check_keys (kf_Name k # names) (kf_Key k # tokens) ks)"

definition validate_auth :: "auth_config \<Rightarrow> key_error option" where
  "validate_auth cfg = (if IsEnabled cfg then check_keys [] [] (ac_Keys cfg) else None)"

record key_state =
  ks_name :: string
  ks_key :: string
  ks_rateLimit :: int
  ks_limiter :: token_bucket
  ks_counter :: key_counter
  ks_models :: "string list"
  ks_expiresAt :: string
  ks_createdAt :: gotime
  ks_dailyLimit :: int
  ks_monthlyLimit :: int
  ks_dailyUsdCap :: float64
  ks_monthlyUsdCap :: float64
  ks_localOnly :: bool
  ks_allowLocalDegradation :: bool

definition fresh_counter :: "gotime \<Rightarrow> key_counter" where
  "fresh_counter now = \<lparr> kc_today = 0, kc_month = 0, kc_tokensToday = 0, kc_tokensMonth = 0, kc_lastReset = now \<rparr>"

definition new_key :: "gotime \<Rightarrow> key_config \<Rightarrow> key_state" where
  "new_key now k =
     \<lparr> ks_name = kf_Name k, ks_key = kf_Key k, ks_rateLimit = kf_RateLimit k,
       ks_limiter = newTokenBucket now (kf_RateLimit k), ks_counter = fresh_counter now,
       ks_models = kf_Models k, ks_expiresAt = kf_ExpiresAt k, ks_createdAt = now,
       ks_dailyLimit = kf_DailyLimit k, ks_monthlyLimit = kf_MonthlyLimit k,
       ks_dailyUsdCap = kf_DailyUsdCap k, ks_monthlyUsdCap = kf_MonthlyUsdCap k,
       ks_localOnly = kf_LocalOnly k, ks_allowLocalDegradation = kf_AllowLocalDegradation k \<rparr>"

text \<open>
  \<open>mw_heap\<close> holds the key states and the indexes hold positions in it; \<open>mw_audit\<close> is the
  sequence of the audit hook's calls: the key name it got and the digest of the value reported.
\<close>

record middleware =
  mw_enabled :: bool
  mw_keys :: "(string, nat) gomap"
  mw_byName :: "(string, nat) gomap"
  mw_heap :: "key_state list"
  mw_expiryWarned :: "(string, gotime) gomap"
  mw_expiryHook :: bool
  mw_expiryAudited :: "(string \<times> string) list"
  mw_audit :: "(string \<times> string) list"

definition upd_key :: "nat \<Rightarrow> (key_state \<Rightarrow> key_state) \<Rightarrow> middleware \<Rightarrow> middleware" where
  "upd_key i f m = m\<lparr> mw_heap := (mw_heap m)[i := f (mw_heap m ! i)] \<rparr>"

definition by_key_name :: "middleware \<Rightarrow> string \<Rightarrow> key_state option" where
  "by_key_name m name = map_option (\<lambda>i. mw_heap m ! i) (gm_get (mw_byName m) name)"

section \<open>Expiry\<close>

definition ExpiryStatus :: "time_lib \<Rightarrow> string \<Rightarrow> gotime \<Rightarrow> bool \<times> bool" where
  "ExpiryStatus lib expiresAt now =
     (if expiresAt = [] then (False, False)
      else case tl_parse_date lib expiresAt of
        Some t \<Rightarrow> (now > tl_next_day lib t, False)
      | None \<Rightarrow>
          (case tl_parse_minute lib expiresAt of
             Some t \<Rightarrow> (now > t, False)
           | None \<Rightarrow>
               (case tl_parse_rfc3339 lib expiresAt of
                  Some t \<Rightarrow> (now > t, False)
                | None \<Rightarrow> (False, True))))"

definition collectMalformed ::
  "time_lib \<Rightarrow> (string \<Rightarrow> string) \<Rightarrow> gotime \<Rightarrow> (string \<times> string) list \<Rightarrow> string \<Rightarrow> string \<Rightarrow> (string \<times> string) list" where
  "collectMalformed lib digest now found name expiresAt =
     (if snd (ExpiryStatus lib expiresAt now) then found @ [(name, digest expiresAt)] else found)"

fun report_loop :: "(string \<times> string) list \<Rightarrow> middleware \<Rightarrow> middleware" where
  "report_loop [] m = m"
| "report_loop (f # fs) m =
     (if f \<in> set (mw_expiryAudited m) then report_loop fs m
      else report_loop fs (m\<lparr> mw_expiryAudited := f # mw_expiryAudited m, mw_audit := mw_audit m @ [f] \<rparr>))"

definition reportMalformedExpiries :: "(string \<times> string) list \<Rightarrow> middleware \<Rightarrow> middleware" where
  "reportMalformedExpiries found m = (if found = [] \<or> \<not> mw_expiryHook m then m else report_loop found m)"

definition SetExpiryAuditHook :: "time_lib \<Rightarrow> (string \<Rightarrow> string) \<Rightarrow> gotime \<Rightarrow> bool \<Rightarrow> middleware \<Rightarrow> middleware" where
  "SetExpiryAuditHook lib digest now fn m =
     (let m1 = m\<lparr> mw_expiryHook := fn \<rparr> in
      if \<not> fn then m1
      else reportMalformedExpiries
             (foldl (\<lambda>found (name, i). collectMalformed lib digest now found name (ks_expiresAt (mw_heap m1 ! i)))
                [] (mw_byName m1)) m1)"

definition expiryWarnInterval :: duration where "expiryWarnInterval = minute"

definition warnMalformedExpiry :: "gotime \<Rightarrow> string \<Rightarrow> middleware \<Rightarrow> middleware" where
  "warnMalformedExpiry now name m =
     (case gm_get (mw_expiryWarned m) name of
        Some t \<Rightarrow> if now - t < expiryWarnInterval then m else m\<lparr> mw_expiryWarned := gm_put name now (mw_expiryWarned m) \<rparr>
      | None \<Rightarrow> m\<lparr> mw_expiryWarned := gm_put name now (mw_expiryWarned m) \<rparr>)"

section \<open>The key table\<close>

definition install :: "(string \<Rightarrow> string) \<Rightarrow> key_state \<Rightarrow> middleware \<Rightarrow> middleware" where
  "install digest ks m =
     m\<lparr> mw_heap := mw_heap m @ [ks],
        mw_keys := gm_put (digest (ks_key ks)) (length (mw_heap m)) (mw_keys m),
        mw_byName := gm_put (ks_name ks) (length (mw_heap m)) (mw_byName m) \<rparr>"

definition NewMiddleware :: "(string \<Rightarrow> string) \<Rightarrow> gotime \<Rightarrow> auth_config \<Rightarrow> middleware" where
  "NewMiddleware digest now cfg =
     fold (\<lambda>k. install digest (new_key now k)) (ac_Keys cfg)
       \<lparr> mw_enabled = IsEnabled cfg, mw_keys = [], mw_byName = [], mw_heap = [], mw_expiryWarned = [],
         mw_expiryHook = False, mw_expiryAudited = [], mw_audit = [] \<rparr>"

record key_patch =
  kp_RateLimit :: "int option"
  kp_DailyLimit :: "int option"
  kp_MonthlyLimit :: "int option"
  kp_DailyUsdCap :: "float64 option"
  kp_MonthlyUsdCap :: "float64 option"
  kp_Models :: "string list option"
  kp_ExpiresAt :: "string option"
  kp_LocalOnly :: "bool option"
  kp_AllowLocalDegradation :: "bool option"

definition apply_patch :: "gotime \<Rightarrow> key_patch \<Rightarrow> key_state \<Rightarrow> key_state" where
  "apply_patch now p ks =
     (let ks1 = (case kp_RateLimit p of None \<Rightarrow> ks
                 | Some v \<Rightarrow> ks\<lparr> ks_rateLimit := v, ks_limiter := newTokenBucket now v \<rparr>);
          ks2 = (case kp_DailyLimit p of None \<Rightarrow> ks1 | Some v \<Rightarrow> ks1\<lparr> ks_dailyLimit := v \<rparr>);
          ks3 = (case kp_MonthlyLimit p of None \<Rightarrow> ks2 | Some v \<Rightarrow> ks2\<lparr> ks_monthlyLimit := v \<rparr>);
          ks4 = (case kp_DailyUsdCap p of None \<Rightarrow> ks3 | Some v \<Rightarrow> ks3\<lparr> ks_dailyUsdCap := v \<rparr>);
          ks5 = (case kp_MonthlyUsdCap p of None \<Rightarrow> ks4 | Some v \<Rightarrow> ks4\<lparr> ks_monthlyUsdCap := v \<rparr>);
          ks6 = (case kp_Models p of None \<Rightarrow> ks5 | Some v \<Rightarrow> ks5\<lparr> ks_models := v \<rparr>);
          ks7 = (case kp_ExpiresAt p of None \<Rightarrow> ks6 | Some v \<Rightarrow> ks6\<lparr> ks_expiresAt := v \<rparr>);
          ks8 = (case kp_LocalOnly p of None \<Rightarrow> ks7 | Some v \<Rightarrow> ks7\<lparr> ks_localOnly := v \<rparr>)
      in case kp_AllowLocalDegradation p of None \<Rightarrow> ks8 | Some v \<Rightarrow> ks8\<lparr> ks_allowLocalDegradation := v \<rparr>)"

definition patchKey ::
  "time_lib \<Rightarrow> (string \<Rightarrow> string) \<Rightarrow> gotime \<Rightarrow> string \<Rightarrow> key_patch \<Rightarrow> middleware
     \<Rightarrow> (bool \<times> (string \<times> string) list) \<times> middleware" where
  "patchKey lib digest now name p m =
     (case gm_get (mw_byName m) name of
        None \<Rightarrow> ((False, []), m)
      | Some i \<Rightarrow>
          ((True, case kp_ExpiresAt p of None \<Rightarrow> [] | Some v \<Rightarrow> collectMalformed lib digest now [] name v),
           upd_key i (apply_patch now p) m))"

definition PatchKey ::
  "time_lib \<Rightarrow> (string \<Rightarrow> string) \<Rightarrow> gotime \<Rightarrow> string \<Rightarrow> key_patch \<Rightarrow> middleware \<Rightarrow> bool \<times> middleware" where
  "PatchKey lib digest now name p m =
     (case patchKey lib digest now name p m of ((ok, found), m') \<Rightarrow> (ok, reportMalformedExpiries found m'))"

definition AddKey :: "time_lib \<Rightarrow> (string \<Rightarrow> string) \<Rightarrow> gotime \<Rightarrow> key_config \<Rightarrow> middleware \<Rightarrow> middleware" where
  "AddKey lib digest now k m =
     (let m1 = (case by_key_name m (kf_Name k) of
                  None \<Rightarrow> m
                | Some existing \<Rightarrow>
                    if ks_key existing \<noteq> kf_Key k
                    then m\<lparr> mw_keys := gm_del (digest (ks_key existing)) (mw_keys m) \<rparr> else m)
      in reportMalformedExpiries (collectMalformed lib digest now [] (kf_Name k) (kf_ExpiresAt k))
           (install digest (new_key now k) m1))"

text \<open>A key that keeps its name and token keeps its counters, and its bucket unless the rate changes.\<close>

definition keep_key :: "gotime \<Rightarrow> key_config \<Rightarrow> key_state \<Rightarrow> key_state" where
  "keep_key now k ks =
     (let ks1 = ks\<lparr> ks_models := kf_Models k, ks_dailyLimit := kf_DailyLimit k, ks_monthlyLimit := kf_MonthlyLimit k,
                    ks_dailyUsdCap := kf_DailyUsdCap k, ks_monthlyUsdCap := kf_MonthlyUsdCap k,
                    ks_localOnly := kf_LocalOnly k, ks_allowLocalDegradation := kf_AllowLocalDegradation k \<rparr>;
          ks2 = (if kf_RateLimit k \<noteq> ks_rateLimit ks1
                 then ks1\<lparr> ks_rateLimit := kf_RateLimit k, ks_limiter := newTokenBucket now (kf_RateLimit k) \<rparr> else ks1)
      in ks2\<lparr> ks_expiresAt := kf_ExpiresAt k \<rparr>)"

text \<open>The loop of the reload: the old index by name, and the heap and new indexes being built.\<close>

fun swap_loop ::
  "(string \<Rightarrow> string) \<Rightarrow> gotime \<Rightarrow> (string, nat) gomap \<Rightarrow> key_config list \<Rightarrow> middleware \<Rightarrow> middleware" where
  "swap_loop digest now old [] m = m"
| "swap_loop digest now old (k # ks) m =
     (case gm_get old (kf_Name k) of
        Some i \<Rightarrow>
          if ks_key (mw_heap m ! i) = kf_Key k
          then swap_loop digest now old ks
                 ((upd_key i (keep_key now k) m)
                    \<lparr> mw_keys := gm_put (digest (kf_Key k)) i (mw_keys m),
                      mw_byName := gm_put (kf_Name k) i (mw_byName m) \<rparr>)
          else swap_loop digest now old ks (install digest (new_key now k) m)
      | None \<Rightarrow> swap_loop digest now old ks (install digest (new_key now k) m))"

definition swapKeys ::
  "time_lib \<Rightarrow> (string \<Rightarrow> string) \<Rightarrow> gotime \<Rightarrow> auth_config \<Rightarrow> middleware \<Rightarrow> (string \<times> string) list \<times> middleware" where
  "swapKeys lib digest now cfg m =
     (foldl (\<lambda>found k. collectMalformed lib digest now found (kf_Name k) (kf_ExpiresAt k)) [] (ac_Keys cfg),
      (swap_loop digest now (mw_byName m) (ac_Keys cfg) (m\<lparr> mw_keys := [], mw_byName := [] \<rparr>))
        \<lparr> mw_enabled := IsEnabled cfg \<rparr>)"

definition Reload ::
  "time_lib \<Rightarrow> (string \<Rightarrow> string) \<Rightarrow> gotime \<Rightarrow> auth_config \<Rightarrow> middleware \<Rightarrow> middleware" where
  "Reload lib digest now cfg m = (case swapKeys lib digest now cfg m of (found, m') \<Rightarrow> reportMalformedExpiries found m')"

definition RevokeKey :: "(string \<Rightarrow> string) \<Rightarrow> string \<Rightarrow> middleware \<Rightarrow> middleware" where
  "RevokeKey digest name m =
     (case by_key_name m name of
        None \<Rightarrow> m
      | Some ks \<Rightarrow>
          m\<lparr> mw_keys := gm_del (digest (ks_key ks)) (mw_keys m), mw_byName := gm_del name (mw_byName m),
             mw_expiryWarned := gm_del name (mw_expiryWarned m) \<rparr>)"

definition KeyUsdCaps :: "middleware \<Rightarrow> string \<Rightarrow> (float64 \<times> float64) option" where
  "KeyUsdCaps m name = map_option (\<lambda>ks. (ks_dailyUsdCap ks, ks_monthlyUsdCap ks)) (by_key_name m name)"

definition KeyRequestLimits :: "middleware \<Rightarrow> string \<Rightarrow> (int \<times> int) option" where
  "KeyRequestLimits m name = map_option (\<lambda>ks. (ks_dailyLimit ks, ks_monthlyLimit ks)) (by_key_name m name)"

definition IsLocalOnly :: "middleware \<Rightarrow> string \<Rightarrow> bool" where
  "IsLocalOnly m name = (case by_key_name m name of None \<Rightarrow> False | Some ks \<Rightarrow> ks_localOnly ks)"

definition IsAllowLocalDegradation :: "middleware \<Rightarrow> string \<Rightarrow> bool" where
  "IsAllowLocalDegradation m name = (case by_key_name m name of None \<Rightarrow> False | Some ks \<Rightarrow> ks_allowLocalDegradation ks)"

definition Refund :: "string \<Rightarrow> middleware \<Rightarrow> middleware" where
  "Refund name m =
     (if name = [] then m
      else case gm_get (mw_byName m) name of
        None \<Rightarrow> m
      | Some i \<Rightarrow> upd_key i (\<lambda>ks. ks\<lparr> ks_limiter := refund (ks_limiter ks), ks_counter := decrement (ks_counter ks) \<rparr>) m)"

definition KeyStats ::
  "time_lib \<Rightarrow> gotime \<Rightarrow> middleware \<Rightarrow> string \<Rightarrow> ((int \<times> int \<times> int) \<times> string list \<times> string \<times> int \<times> gotime) option" where
  "KeyStats lib now m name =
     map_option (\<lambda>ks. (stats lib now (ks_counter ks), ks_models ks, ks_expiresAt ks, ks_rateLimit ks, ks_createdAt ks))
       (by_key_name m name)"

definition AddKeyTokens :: "time_lib \<Rightarrow> gotime \<Rightarrow> string \<Rightarrow> int \<Rightarrow> middleware \<Rightarrow> middleware" where
  "AddKeyTokens lib now name n m =
     (if n \<le> 0 then m
      else case gm_get (mw_byName m) name of
        None \<Rightarrow> m | Some i \<Rightarrow> upd_key i (\<lambda>ks. ks\<lparr> ks_counter := addTokens lib now n (ks_counter ks) \<rparr>) m)"

definition AllKeyNames :: "middleware \<Rightarrow> string list" where
  "AllKeyNames m = map fst (mw_byName m)"

section \<open>The handler\<close>

datatype header =
    WWW_Authenticate | Retry_After int | X_RateLimit_Limit int | X_RateLimit_Remaining int | X_RateLimit_Reset int
  | X_Quota_Limit int | X_Quota_Reset int

text \<open>
  Passed on, with the key name and the allowed models put into the context, or
  answered with a status and an error code.
\<close>

datatype auth_reply =
    Served "string option" "string list option" "header list"
  | Refused nat string "header list"

text \<open>
  \<^verbatim>\<open>strings.SplitN(h, " ", 2)\<close>, and the scheme without regard to case.  No character outside
  ASCII has a lower case among the letters of the scheme, so lowering ASCII decides.
\<close>

definition lower_ascii :: "char \<Rightarrow> char" where
  "lower_ascii c = (if of_char c \<ge> (65::nat) \<and> of_char c \<le> (90::nat) then char_of (of_char c + 32 :: nat) else c)"

definition bearer_token :: "string \<Rightarrow> string option" where
  "bearer_token h =
     (case dropWhile (\<lambda>c. c \<noteq> CHR '' '') h of
        [] \<Rightarrow> None
      | _ # rest \<Rightarrow>
          if map lower_ascii (takeWhile (\<lambda>c. c \<noteq> CHR '' '') h) = ''bearer'' then Some rest else None)"

definition quota_refused :: "time_lib \<Rightarrow> gotime \<Rightarrow> header list \<Rightarrow> int \<Rightarrow> gotime \<Rightarrow> string \<Rightarrow> auth_reply" where
  "quota_refused lib now hs limit reset code =
     Refused 429 code (hs @ [X_Quota_Limit limit, X_Quota_Reset (reset div second), Retry_After \<lceil>seconds (reset - now)\<rceil>])"

text \<open>What happens to the key state of a request that presents a known token.\<close>

definition serve_key :: "time_lib \<Rightarrow> gotime \<Rightarrow> key_state \<Rightarrow> auth_reply \<times> key_state" where
  "serve_key lib now ks =
     (case allow now (ks_limiter ks) of (allowed, tb) \<Rightarrow>
        if \<not> allowed
        then (Refused 429 ''rate_limit_exceeded'' [Retry_After (retryAfterSeconds now tb)], ks\<lparr> ks_limiter := tb \<rparr>)
        else
          (case snapshot now tb of (remaining, capacity, resetAt) \<Rightarrow>
             (let hs = [X_RateLimit_Limit (int_of_f capacity), X_RateLimit_Remaining (int_of_f remaining), X_RateLimit_Reset resetAt]
              in case incrementAndStats lib now (ks_counter ks) of ((today, month), c) \<Rightarrow>
                   if ks_dailyLimit ks > 0 \<and> today > ks_dailyLimit ks
                   then (quota_refused lib now hs (ks_dailyLimit ks) (tl_next_midnight lib now) ''daily_quota_exceeded'',
                         ks\<lparr> ks_limiter := refund tb, ks_counter := decrement c \<rparr>)
                   else if ks_monthlyLimit ks > 0 \<and> month > ks_monthlyLimit ks
                   then (quota_refused lib now hs (ks_monthlyLimit ks) (tl_next_month lib now) ''monthly_quota_exceeded'',
                         ks\<lparr> ks_limiter := refund tb, ks_counter := decrement c \<rparr>)
                   else (Served (Some (ks_name ks)) (Some (ks_models ks)) hs, ks\<lparr> ks_limiter := tb, ks_counter := c \<rparr>))))"

definition Handler ::
  "time_lib \<Rightarrow> (string \<Rightarrow> string) \<Rightarrow> gotime \<Rightarrow> string \<Rightarrow> middleware \<Rightarrow> auth_reply \<times> middleware" where
  "Handler lib digest now authorization m =
     (if \<not> mw_enabled m then
        (let ks = (if authorization = [] then None
                   else Option.bind (bearer_token authorization) (\<lambda>t. gm_get (mw_keys m) (digest t)))
         in (Served (map_option (\<lambda>i. ks_name (mw_heap m ! i)) ks) None [], m))
      else if authorization = [] then (Refused 401 ''missing_auth_header'' [WWW_Authenticate], m)
      else case bearer_token authorization of
        None \<Rightarrow> (Refused 401 ''invalid_auth_format'' [WWW_Authenticate], m)
      | Some token \<Rightarrow>
          (case gm_get (mw_keys m) (digest token) of
             None \<Rightarrow> (Refused 401 ''invalid_api_key'' [WWW_Authenticate], m)
           | Some i \<Rightarrow>
               (let ks = mw_heap m ! i in
                case ExpiryStatus lib (ks_expiresAt ks) now of (isExpired, malformed) \<Rightarrow>
                  let m1 = (if malformed then warnMalformedExpiry now (ks_name ks) m else m) in
                  if isExpired \<or> malformed then (Refused 401 ''api_key_expired'' [WWW_Authenticate], m1)
                  else case serve_key lib now ks of (reply, ks') \<Rightarrow> (reply, upd_key i (\<lambda>_. ks') m1))))"

section \<open>Persisted counters\<close>

record counter_snapshot =
  cs_Today :: int
  cs_Month :: int
  cs_TokensToday :: int
  cs_TokensMonth :: int
  cs_LastReset :: gotime

definition export_counter :: "time_lib \<Rightarrow> gotime \<Rightarrow> key_counter \<Rightarrow> counter_snapshot \<times> key_counter" where
  "export_counter lib now c =
     (let c1 = (resetLocked lib now c)\<lparr> kc_lastReset := now \<rparr>
      in (\<lparr> cs_Today = kc_today c1, cs_Month = kc_month c1, cs_TokensToday = kc_tokensToday c1,
            cs_TokensMonth = kc_tokensMonth c1, cs_LastReset = kc_lastReset c1 \<rparr>, c1))"

definition restore_counter :: "counter_snapshot \<Rightarrow> key_counter" where
  "restore_counter s =
     \<lparr> kc_today = cs_Today s, kc_month = cs_Month s, kc_tokensToday = cs_TokensToday s,
       kc_tokensMonth = cs_TokensMonth s, kc_lastReset = cs_LastReset s \<rparr>"

text \<open>The store keeps whole seconds.\<close>

definition SaveKeyCounters :: "string \<Rightarrow> counter_snapshot \<Rightarrow> (string, counter_snapshot) gomap \<Rightarrow> (string, counter_snapshot) gomap" where
  "SaveKeyCounters name snap rows = gm_put name (snap\<lparr> cs_LastReset := cs_LastReset snap div second * second \<rparr>) rows"

fun save_loop ::
  "time_lib \<Rightarrow> gotime \<Rightarrow> (string \<times> nat) list \<Rightarrow> (string, counter_snapshot) gomap \<Rightarrow> middleware
     \<Rightarrow> (string, counter_snapshot) gomap \<times> middleware" where
  "save_loop lib now [] rows m = (rows, m)"
| "save_loop lib now ((name, i) # es) rows m =
     (case export_counter lib now (ks_counter (mw_heap m ! i)) of (snap, c) \<Rightarrow>
        save_loop lib now es (SaveKeyCounters name snap rows) (upd_key i (\<lambda>ks. ks\<lparr> ks_counter := c \<rparr>) m))"

definition SaveToStore ::
  "time_lib \<Rightarrow> gotime \<Rightarrow> (string, counter_snapshot) gomap \<Rightarrow> middleware \<Rightarrow> (string, counter_snapshot) gomap \<times> middleware" where
  "SaveToStore lib now rows m = save_loop lib now (mw_byName m) rows m"

definition LoadFromStore :: "(string, counter_snapshot) gomap \<Rightarrow> middleware \<Rightarrow> middleware" where
  "LoadFromStore rows m =
     fold (\<lambda>(name, snap) m. case gm_get (mw_byName m) name of
         None \<Rightarrow> m | Some i \<Rightarrow> upd_key i (\<lambda>ks. ks\<lparr> ks_counter := restore_counter snap \<rparr>) m) rows m"

section \<open>The table invariant\<close>

text \<open>
  Every token index entry leads to the key state that is current for its name and
  whose token has that digest; the audit hook was called once per recorded pair.
\<close>

definition table_ok :: "(string \<Rightarrow> string) \<Rightarrow> middleware \<Rightarrow> bool" where
  "table_ok digest m \<longleftrightarrow>
     (\<forall>h i. gm_get (mw_keys m) h = Some i \<longrightarrow>
        digest (ks_key (mw_heap m ! i)) = h \<and> gm_get (mw_byName m) (ks_name (mw_heap m ! i)) = Some i)
     \<and> (\<forall>n i. gm_get (mw_byName m) n = Some i \<longrightarrow> i < length (mw_heap m) \<and> ks_name (mw_heap m ! i) = n)
     \<and> distinct (mw_audit m) \<and> set (mw_audit m) = set (mw_expiryAudited m) \<and> gm_wf (mw_byName m)"

lemma table_okD:
  assumes "table_ok digest m"
  shows "gm_get (mw_keys m) h = Some i \<Longrightarrow> digest (ks_key (mw_heap m ! i)) = h"
    "gm_get (mw_keys m) h = Some i \<Longrightarrow> gm_get (mw_byName m) (ks_name (mw_heap m ! i)) = Some i"
    "gm_get (mw_keys m) h = Some i \<Longrightarrow> i < length (mw_heap m)"
    "gm_get (mw_byName m) n = Some i \<Longrightarrow> i < length (mw_heap m)"
    "gm_get (mw_byName m) n = Some i \<Longrightarrow> ks_name (mw_heap m ! i) = n"
  using assms unfolding table_ok_def by blast+

lemma table_okI:
  assumes "\<And>h i. gm_get (mw_keys m) h = Some i \<Longrightarrow>
      digest (ks_key (mw_heap m ! i)) = h \<and> gm_get (mw_byName m) (ks_name (mw_heap m ! i)) = Some i"
    and "\<And>n i. gm_get (mw_byName m) n = Some i \<Longrightarrow> i < length (mw_heap m) \<and> ks_name (mw_heap m ! i) = n"
    and "distinct (mw_audit m)" "set (mw_audit m) = set (mw_expiryAudited m)" "gm_wf (mw_byName m)"
  shows "table_ok digest m"
  using assms by (simp add: table_ok_def)

lemma table_ok_audit: "table_ok digest m \<Longrightarrow> distinct (mw_audit m)" "table_ok digest m \<Longrightarrow> set (mw_audit m) = set (mw_expiryAudited m)"
  "table_ok digest m \<Longrightarrow> gm_wf (mw_byName m)"
  by (simp_all add: table_ok_def)

definition same_index :: "middleware \<Rightarrow> middleware \<Rightarrow> bool" where
  "same_index m' m \<longleftrightarrow> mw_keys m' = mw_keys m \<and> mw_byName m' = mw_byName m \<and> length (mw_heap m') = length (mw_heap m)
     \<and> (\<forall>i < length (mw_heap m). ks_name (mw_heap m' ! i) = ks_name (mw_heap m ! i)
          \<and> ks_key (mw_heap m' ! i) = ks_key (mw_heap m ! i))"

lemma same_index_refl [simp]: "same_index m m"
  by (simp add: same_index_def)

lemma same_index_trans: "same_index m'' m' \<Longrightarrow> same_index m' m \<Longrightarrow> same_index m'' m"
  by (simp add: same_index_def)

lemma same_index_table_ok:
  assumes "same_index m' m" and "table_ok digest m"
    and "mw_audit m' = mw_audit m" and "mw_expiryAudited m' = mw_expiryAudited m"
  shows "table_ok digest m'"
proof -
  note ok = table_okD [OF assms(2)]
  have eq: "ks_key (mw_heap m' ! i) = ks_key (mw_heap m ! i)" "ks_name (mw_heap m' ! i) = ks_name (mw_heap m ! i)"
    if "i < length (mw_heap m)" for i
    using assms(1) that by (simp_all add: same_index_def)
  have idx: "mw_keys m' = mw_keys m" "mw_byName m' = mw_byName m" "length (mw_heap m') = length (mw_heap m)"
    using assms(1) by (simp_all add: same_index_def)
  show ?thesis
  proof (rule table_okI)
    fix h i
    assume "gm_get (mw_keys m') h = Some i"
    then have "gm_get (mw_keys m) h = Some i" by (simp add: idx)
    from ok(1-3) [OF this] eq [OF ok(3) [OF this]]
    show "digest (ks_key (mw_heap m' ! i)) = h \<and> gm_get (mw_byName m') (ks_name (mw_heap m' ! i)) = Some i"
      by (simp add: idx)
  next
    fix n i
    assume "gm_get (mw_byName m') n = Some i"
    then have "gm_get (mw_byName m) n = Some i" by (simp add: idx)
    from ok(4,5) [OF this] eq [OF ok(4) [OF this]]
    show "i < length (mw_heap m') \<and> ks_name (mw_heap m' ! i) = n" by (simp add: idx)
  qed (use assms(3,4) table_ok_audit [OF assms(2)] in \<open>simp_all add: idx\<close>)
qed

lemma upd_key_same_index:
  assumes "ks_name (f (mw_heap m ! i)) = ks_name (mw_heap m ! i)" "ks_key (f (mw_heap m ! i)) = ks_key (mw_heap m ! i)"
  shows "same_index (upd_key i f m) m"
  unfolding same_index_def
proof (intro conjI allI impI)
  fix j
  assume j: "j < length (mw_heap m)"
  show "ks_name (mw_heap (upd_key i f m) ! j) = ks_name (mw_heap m ! j)"
    "ks_key (mw_heap (upd_key i f m) ! j) = ks_key (mw_heap m ! j)"
    using assms j by (cases "i = j"; simp add: upd_key_def)+
qed (simp_all add: upd_key_def)

lemma upd_key_fields [simp]:
  "mw_audit (upd_key i f m) = mw_audit m" "mw_expiryAudited (upd_key i f m) = mw_expiryAudited m"
  "mw_keys (upd_key i f m) = mw_keys m" "mw_byName (upd_key i f m) = mw_byName m"
  "mw_enabled (upd_key i f m) = mw_enabled m" "length (mw_heap (upd_key i f m)) = length (mw_heap m)"
  by (simp_all add: upd_key_def)

lemma upd_key_nth: "j < length (mw_heap m) \<Longrightarrow> mw_heap (upd_key i f m) ! j = (if i = j then f (mw_heap m ! j) else mw_heap m ! j)"
  by (auto simp: upd_key_def)

lemma upd_key_table_ok:
  assumes "ks_name (f (mw_heap m ! i)) = ks_name (mw_heap m ! i)" "ks_key (f (mw_heap m ! i)) = ks_key (mw_heap m ! i)"
    and "table_ok digest m"
  shows "table_ok digest (upd_key i f m)"
  by (rule same_index_table_ok [OF upd_key_same_index [where f = f and m = m and i = i, OF assms(1,2)] assms(3)]) simp_all

lemma report_loop_fields [simp]:
  "mw_keys (report_loop fs m) = mw_keys m" "mw_byName (report_loop fs m) = mw_byName m"
  "mw_heap (report_loop fs m) = mw_heap m" "mw_enabled (report_loop fs m) = mw_enabled m"
  by (induction fs m rule: report_loop.induct) simp_all

lemma report_loop_audit:
  "distinct (mw_audit m) \<Longrightarrow> set (mw_audit m) = set (mw_expiryAudited m) \<Longrightarrow>
   distinct (mw_audit (report_loop fs m)) \<and> set (mw_audit (report_loop fs m)) = set (mw_expiryAudited (report_loop fs m))"
  by (induction fs m rule: report_loop.induct) simp_all

lemma report_fields [simp]:
  "mw_keys (reportMalformedExpiries fs m) = mw_keys m" "mw_byName (reportMalformedExpiries fs m) = mw_byName m"
  "mw_heap (reportMalformedExpiries fs m) = mw_heap m" "mw_enabled (reportMalformedExpiries fs m) = mw_enabled m"
  by (simp_all add: reportMalformedExpiries_def)

lemma report_table_ok: "table_ok digest m \<Longrightarrow> table_ok digest (reportMalformedExpiries fs m)"
  using report_loop_audit [of m fs] by (auto simp: reportMalformedExpiries_def table_ok_def)

lemma install_fields [simp]:
  "mw_heap (install digest ks m) = mw_heap m @ [ks]"
  "gm_get (mw_keys (install digest ks m)) h = (if h = digest (ks_key ks) then Some (length (mw_heap m)) else gm_get (mw_keys m) h)"
  "gm_get (mw_byName (install digest ks m)) n = (if n = ks_name ks then Some (length (mw_heap m)) else gm_get (mw_byName m) n)"
  "mw_audit (install digest ks m) = mw_audit m" "mw_expiryAudited (install digest ks m) = mw_expiryAudited m"
  "mw_enabled (install digest ks m) = mw_enabled m" "gm_wf (mw_byName m) \<Longrightarrow> gm_wf (mw_byName (install digest ks m))"
  by (simp_all add: install_def gm_get_put)

text \<open>A key may be installed once no other token leads to its name.\<close>

lemma install_table_ok:
  assumes "table_ok digest m"
    and "\<forall>h i. gm_get (mw_keys m) h = Some i \<and> ks_name (mw_heap m ! i) = ks_name ks \<longrightarrow> h = digest (ks_key ks)"
  shows "table_ok digest (install digest ks m)"
proof -
  note ok = table_okD [OF assms(1)]
  show ?thesis
  proof (rule table_okI)
    fix h i
    assume "gm_get (mw_keys (install digest ks m)) h = Some i"
    then consider "h = digest (ks_key ks)" "i = length (mw_heap m)" | "h \<noteq> digest (ks_key ks)" "gm_get (mw_keys m) h = Some i"
      by (cases "h = digest (ks_key ks)") simp_all
    then show "digest (ks_key (mw_heap (install digest ks m) ! i)) = h
        \<and> gm_get (mw_byName (install digest ks m)) (ks_name (mw_heap (install digest ks m) ! i)) = Some i"
    proof cases
      case 2
      then have "ks_name (mw_heap m ! i) \<noteq> ks_name ks"
        using assms(2) by blast
      then show ?thesis
        using ok(1-3) [OF 2(2)] 2(1) by (simp add: nth_append)
    qed simp
  next
    fix n i
    assume "gm_get (mw_byName (install digest ks m)) n = Some i"
    then consider "n = ks_name ks" "i = length (mw_heap m)" | "gm_get (mw_byName m) n = Some i"
      by (cases "n = ks_name ks") simp_all
    then show "i < length (mw_heap (install digest ks m)) \<and> ks_name (mw_heap (install digest ks m) ! i) = n"
    proof cases
      case 2
      then show ?thesis
        using ok(4,5) [OF 2] by (simp add: nth_append)
    qed simp
  qed (use table_ok_audit [OF assms(1)] in simp_all)
qed

lemma by_key_name_Some:
  "by_key_name m name = Some ks \<longleftrightarrow> (\<exists>i. gm_get (mw_byName m) name = Some i \<and> ks = mw_heap m ! i)"
  by (auto simp: by_key_name_def)

lemma drop_index_table_ok:
  assumes "table_ok digest m"
  shows "table_ok digest (m\<lparr> mw_keys := gm_del h (mw_keys m) \<rparr>)"
proof (rule table_okI)
  fix h' i
  assume "gm_get (mw_keys (m\<lparr> mw_keys := gm_del h (mw_keys m) \<rparr>)) h' = Some i"
  then have "gm_get (mw_keys m) h' = Some i"
    by (simp add: gm_get_del split: if_splits)
  then show "digest (ks_key (mw_heap (m\<lparr> mw_keys := gm_del h (mw_keys m) \<rparr>) ! i)) = h' \<and>
      gm_get (mw_byName (m\<lparr> mw_keys := gm_del h (mw_keys m) \<rparr>))
        (ks_name (mw_heap (m\<lparr> mw_keys := gm_del h (mw_keys m) \<rparr>) ! i)) = Some i"
    using table_okD(1,2) [OF assms] by simp
qed (use table_okD(4,5) [OF assms] table_ok_audit [OF assms] in simp_all)

lemma AddKey_table_ok:
  assumes "table_ok digest m"
  shows "table_ok digest (AddKey lib digest now k m)"
proof -
  define m1 where "m1 = (case by_key_name m (kf_Name k) of None \<Rightarrow> m
      | Some existing \<Rightarrow> if ks_key existing \<noteq> kf_Key k
          then m\<lparr> mw_keys := gm_del (digest (ks_key existing)) (mw_keys m) \<rparr> else m)"
  have ok: "table_ok digest m1"
    using assms drop_index_table_ok by (simp add: m1_def split: option.split)
  have "h = digest (kf_Key k)" if "gm_get (mw_keys m1) h = Some i" "ks_name (mw_heap m1 ! i) = kf_Name k" for h i
  proof -
    have i: "gm_get (mw_byName m) (kf_Name k) = Some i"
      using table_okD(2) [OF ok that(1)] that(2) by (simp add: m1_def split: option.splits if_splits)
    have "digest (ks_key (mw_heap m ! i)) = h"
      using table_okD(1) [OF ok that(1)] by (simp add: m1_def split: option.splits if_splits)
    then show ?thesis
      using that(1) i by (auto simp: m1_def by_key_name_def gm_get_del split: if_splits)
  qed
  then have "table_ok digest (install digest (new_key now k) m1)"
    by (intro install_table_ok [OF ok]) (simp add: new_key_def)
  then show ?thesis
    by (simp add: AddKey_def m1_def [symmetric] report_table_ok)
qed

lemma RevokeKey_table_ok:
  assumes "table_ok digest m"
  shows "table_ok digest (RevokeKey digest name m)"
proof (cases "by_key_name m name")
  case (Some ks)
  let ?m = "RevokeKey digest name m"
  have m: "?m = m\<lparr> mw_keys := gm_del (digest (ks_key ks)) (mw_keys m), mw_byName := gm_del name (mw_byName m),
      mw_expiryWarned := gm_del name (mw_expiryWarned m) \<rparr>"
    by (simp add: RevokeKey_def Some)
  obtain i where i: "gm_get (mw_byName m) name = Some i" "ks = mw_heap m ! i"
    using Some by (auto simp: by_key_name_Some)
  show ?thesis
  proof (rule table_okI)
    fix h j
    assume "gm_get (mw_keys ?m) h = Some j"
    then have j: "gm_get (mw_keys m) h = Some j" and "h \<noteq> digest (ks_key ks)"
      by (simp_all add: m gm_get_del split: if_splits)
    note okj = table_okD(1,2) [OF assms j]
    have "ks_name (mw_heap m ! j) \<noteq> name"
      using okj i \<open>h \<noteq> digest (ks_key ks)\<close> by auto
    then show "digest (ks_key (mw_heap ?m ! j)) = h \<and> gm_get (mw_byName ?m) (ks_name (mw_heap ?m ! j)) = Some j"
      using okj by (simp add: m gm_get_del)
  next
    fix n j
    assume "gm_get (mw_byName ?m) n = Some j"
    then have j: "gm_get (mw_byName m) n = Some j"
      by (simp add: m gm_get_del split: if_splits)
    show "j < length (mw_heap ?m) \<and> ks_name (mw_heap ?m ! j) = n"
      using table_okD(4,5) [OF assms j] by (simp add: m)
  qed (use table_ok_audit [OF assms] in \<open>simp_all add: m\<close>)
qed (simp add: RevokeKey_def assms)

lemma new_key_fields [simp]: "ks_name (new_key now k) = kf_Name k" "ks_key (new_key now k) = kf_Key k"
  by (simp_all add: new_key_def)

lemma keep_key_fields [simp]: "ks_name (keep_key now k ks) = ks_name ks" "ks_key (keep_key now k ks) = ks_key ks"
  by (simp_all add: keep_key_def Let_def)

lemma apply_patch_fields [simp]: "ks_name (apply_patch now p ks) = ks_name ks" "ks_key (apply_patch now p ks) = ks_key ks"
  by (simp_all add: apply_patch_def Let_def split: option.split)

text \<open>Keys are installed one by one under names the new index does not have yet.\<close>

lemma install_new_name:
  assumes "table_ok digest m" and "gm_get (mw_byName m) (ks_name ks) = None"
  shows "table_ok digest (install digest ks m)"
  using table_okD(2) [OF assms(1)] assms(2) by (intro install_table_ok [OF assms(1)]) fastforce

lemma distinct_head: "distinct (map f (x # xs)) \<Longrightarrow> \<forall>y \<in> set xs. f y \<noteq> f x"
  by (auto simp: image_iff)

lemma NewMiddleware_loop:
  assumes "table_ok digest m" and "distinct (map kf_Name ks)" and "\<forall>k \<in> set ks. gm_get (mw_byName m) (kf_Name k) = None"
  shows "table_ok digest (fold (\<lambda>k. install digest (new_key now k)) ks m)"
  using assms
proof (induction ks arbitrary: m)
  case (Cons k ks)
  have "table_ok digest (install digest (new_key now k) m)"
    using Cons.prems by (intro install_new_name) simp_all
  moreover have "\<forall>k' \<in> set ks. gm_get (mw_byName (install digest (new_key now k) m)) (kf_Name k') = None"
    using Cons.prems(3) distinct_head [OF Cons.prems(2)] by simp
  ultimately show ?case
    using Cons.IH Cons.prems(2) by simp
qed simp

lemma NewMiddleware_table_ok:
  assumes "distinct (map kf_Name (ac_Keys cfg))"
  shows "table_ok digest (NewMiddleware digest now cfg)"
  unfolding NewMiddleware_def using assms
  by (intro NewMiddleware_loop) (simp_all add: table_ok_def)

text \<open>The old index stays valid while the heap grows and key states are updated in place.\<close>

definition old_ok :: "(string, nat) gomap \<Rightarrow> middleware \<Rightarrow> bool" where
  "old_ok old m \<longleftrightarrow> (\<forall>n i. gm_get old n = Some i \<longrightarrow> i < length (mw_heap m) \<and> ks_name (mw_heap m ! i) = n)"

lemma old_ok_install: "old_ok old m \<Longrightarrow> old_ok old (install digest ks m)"
  by (auto simp: old_ok_def nth_append intro: less_SucI)

definition keep_at :: "(string \<Rightarrow> string) \<Rightarrow> gotime \<Rightarrow> nat \<Rightarrow> key_config \<Rightarrow> middleware \<Rightarrow> middleware" where
  "keep_at digest now i k m =
     (upd_key i (keep_key now k) m)
       \<lparr> mw_keys := gm_put (digest (kf_Key k)) i (mw_keys m), mw_byName := gm_put (kf_Name k) i (mw_byName m) \<rparr>"

lemma keep_at_fields [simp]:
  "gm_get (mw_keys (keep_at digest now i k m)) h = (if h = digest (kf_Key k) then Some i else gm_get (mw_keys m) h)"
  "gm_get (mw_byName (keep_at digest now i k m)) n = (if n = kf_Name k then Some i else gm_get (mw_byName m) n)"
  "mw_heap (keep_at digest now i k m) = mw_heap (upd_key i (keep_key now k) m)"
  "mw_audit (keep_at digest now i k m) = mw_audit m" "mw_expiryAudited (keep_at digest now i k m) = mw_expiryAudited m"
  "mw_enabled (keep_at digest now i k m) = mw_enabled m"
  "gm_wf (mw_byName m) \<Longrightarrow> gm_wf (mw_byName (keep_at digest now i k m))"
  by (simp_all add: keep_at_def gm_get_put)

lemma keep_heap [simp]:
  "j < length (mw_heap m) \<Longrightarrow> ks_name (mw_heap (upd_key i (keep_key now k) m) ! j) = ks_name (mw_heap m ! j)"
  "j < length (mw_heap m) \<Longrightarrow> ks_key (mw_heap (upd_key i (keep_key now k) m) ! j) = ks_key (mw_heap m ! j)"
  by (simp_all add: upd_key_nth)

lemma old_ok_keep: "old_ok old m \<Longrightarrow> old_ok old (keep_at digest now i k m)"
  by (auto simp: old_ok_def)

lemma keep_at_table_ok:
  assumes "table_ok digest m" and "gm_get (mw_byName m) (kf_Name k) = None"
    and "i < length (mw_heap m)" "ks_name (mw_heap m ! i) = kf_Name k" "ks_key (mw_heap m ! i) = kf_Key k"
  shows "table_ok digest (keep_at digest now i k m)"
proof (rule table_okI)
  fix h j
  assume "gm_get (mw_keys (keep_at digest now i k m)) h = Some j"
  then consider "h = digest (kf_Key k)" "j = i" | "gm_get (mw_keys m) h = Some j"
    by (cases "h = digest (kf_Key k)") simp_all
  then show "digest (ks_key (mw_heap (keep_at digest now i k m) ! j)) = h \<and>
      gm_get (mw_byName (keep_at digest now i k m)) (ks_name (mw_heap (keep_at digest now i k m) ! j)) = Some j"
  proof cases
    case 1
    then show ?thesis using assms(3-5) by simp
  next
    case 2
    note ok = table_okD(1-3) [OF assms(1) 2]
    then have "ks_name (mw_heap m ! j) \<noteq> kf_Name k" using assms(2) by auto
    then show ?thesis using ok by simp
  qed
next
  fix n j
  assume "gm_get (mw_byName (keep_at digest now i k m)) n = Some j"
  then consider "n = kf_Name k" "j = i" | "gm_get (mw_byName m) n = Some j"
    by (cases "n = kf_Name k") simp_all
  then show "j < length (mw_heap (keep_at digest now i k m)) \<and> ks_name (mw_heap (keep_at digest now i k m) ! j) = n"
  proof cases
    case 1
    then show ?thesis using assms(3,4) by simp
  next
    case 2
    then show ?thesis using table_okD(4,5) [OF assms(1) 2] by simp
  qed
qed (use table_ok_audit [OF assms(1)] in simp_all)

lemma swap_loop_Cons:
  "swap_loop digest now old (k # ks) m =
     (case gm_get old (kf_Name k) of
        Some i \<Rightarrow> if ks_key (mw_heap m ! i) = kf_Key k then swap_loop digest now old ks (keep_at digest now i k m)
                  else swap_loop digest now old ks (install digest (new_key now k) m)
      | None \<Rightarrow> swap_loop digest now old ks (install digest (new_key now k) m))"
  unfolding swap_loop.simps keep_at_def by (rule refl)

declare swap_loop.simps(2) [simp del]

lemma swap_loop_table_ok:
  assumes "table_ok digest m" and "old_ok old m" and "distinct (map kf_Name ks)"
    and "\<forall>k \<in> set ks. gm_get (mw_byName m) (kf_Name k) = None"
  shows "table_ok digest (swap_loop digest now old ks m)"
  using assms
proof (induction ks arbitrary: m)
  case (Cons k ks)
  let ?new = "install digest (new_key now k) m"
  have new: "table_ok digest ?new" "old_ok old ?new" "\<forall>k' \<in> set ks. gm_get (mw_byName ?new) (kf_Name k') = None"
    using Cons.prems distinct_head [OF Cons.prems(3)] by (simp_all add: install_new_name old_ok_install)
  show ?case
  proof (cases "gm_get old (kf_Name k)")
    case (Some i)
    then have i: "i < length (mw_heap m)" "ks_name (mw_heap m ! i) = kf_Name k"
      using Cons.prems(2) by (auto simp: old_ok_def)
    show ?thesis
    proof (cases "ks_key (mw_heap m ! i) = kf_Key k")
      case True
      let ?kept = "keep_at digest now i k m"
      have "table_ok digest ?kept" "old_ok old ?kept" "\<forall>k' \<in> set ks. gm_get (mw_byName ?kept) (kf_Name k') = None"
        using Cons.prems i True distinct_head [OF Cons.prems(3)] by (simp_all add: keep_at_table_ok old_ok_keep)
      then show ?thesis
        using Cons.IH Cons.prems(3) by (simp add: swap_loop_Cons Some True)
    next
      case False
      then show ?thesis
        using Cons.IH [OF new(1,2)] Cons.prems(3) new(3) by (simp add: swap_loop_Cons Some)
    qed
  next
    case None
    then show ?thesis
      using Cons.IH [OF new(1,2)] Cons.prems(3) new(3) by (simp add: swap_loop_Cons)
  qed
qed simp

lemma table_ok_enabled [simp]: "table_ok digest (m\<lparr> mw_enabled := b \<rparr>) = table_ok digest m"
  by (simp add: table_ok_def)

lemma Reload_table_ok:
  assumes "table_ok digest m" and "distinct (map kf_Name (ac_Keys cfg))"
  shows "table_ok digest (Reload lib digest now cfg m)"
proof -
  let ?m0 = "m\<lparr> mw_keys := [], mw_byName := [] \<rparr>"
  have "table_ok digest ?m0" "old_ok (mw_byName m) ?m0"
    using assms(1) by (auto simp: table_ok_def old_ok_def)
  then have "table_ok digest (swap_loop digest now (mw_byName m) (ac_Keys cfg) ?m0)"
    using assms(2) by (intro swap_loop_table_ok) simp_all
  then show ?thesis
    by (simp add: Reload_def swapKeys_def report_table_ok)
qed

lemma serve_key_fields:
  assumes "serve_key lib now ks = (reply, ks')"
  shows "ks_name ks' = ks_name ks" "ks_key ks' = ks_key ks" "ks_dailyLimit ks' = ks_dailyLimit ks"
    "ks_monthlyLimit ks' = ks_monthlyLimit ks" "ks_models ks' = ks_models ks" "ks_expiresAt ks' = ks_expiresAt ks"
  using assms by (auto simp: serve_key_def Let_def split: prod.splits if_splits)

lemma warn_fields [simp]:
  "mw_keys (warnMalformedExpiry now name m) = mw_keys m" "mw_byName (warnMalformedExpiry now name m) = mw_byName m"
  "mw_heap (warnMalformedExpiry now name m) = mw_heap m" "mw_audit (warnMalformedExpiry now name m) = mw_audit m"
  "mw_expiryAudited (warnMalformedExpiry now name m) = mw_expiryAudited m"
  "mw_enabled (warnMalformedExpiry now name m) = mw_enabled m"
  by (simp_all add: warnMalformedExpiry_def split: option.split)

lemma warn_table_ok: "table_ok digest m \<Longrightarrow> table_ok digest (warnMalformedExpiry now name m)"
  by (rule same_index_table_ok [of _ m]) (simp_all add: same_index_def)

text \<open>The handler either leaves the keys alone or updates the state of the key presented.\<close>

lemma Handler_cases:
  assumes "Handler lib digest now authorization m = (reply, m')"
  obtains (alone) "mw_heap m' = mw_heap m" "mw_keys m' = mw_keys m" "mw_byName m' = mw_byName m"
      "mw_audit m' = mw_audit m" "mw_expiryAudited m' = mw_expiryAudited m" "mw_enabled m' = mw_enabled m"
      "mw_enabled m \<longrightarrow> (\<exists>code hs. reply = Refused 401 code hs)"
  | (key) token i ks' where "mw_enabled m" "bearer_token authorization = Some token"
      "gm_get (mw_keys m) (digest token) = Some i" "ExpiryStatus lib (ks_expiresAt (mw_heap m ! i)) now = (False, False)"
      "serve_key lib now (mw_heap m ! i) = (reply, ks')" "m' = upd_key i (\<lambda>_. ks') m"
proof (cases "mw_enabled m \<and> authorization \<noteq> []")
  case False
  then show thesis
    by (intro alone) (use assms in \<open>auto simp: Handler_def Let_def split: if_splits\<close>)
next
  case on: True
  show thesis
  proof (cases "Option.bind (bearer_token authorization) (\<lambda>t. gm_get (mw_keys m) (digest t))")
    case None
    then show thesis
      by (intro alone) (use assms on in \<open>auto simp: Handler_def split: option.splits\<close>)
  next
    case (Some i)
    then obtain token where t: "bearer_token authorization = Some token" "gm_get (mw_keys m) (digest token) = Some i"
      by (auto simp: bind_eq_Some_conv)
    obtain ex mal where e: "ExpiryStatus lib (ks_expiresAt (mw_heap m ! i)) now = (ex, mal)"
      by fastforce
    obtain rep ks' where k: "serve_key lib now (mw_heap m ! i) = (rep, ks')"
      by fastforce
    show thesis
    proof (cases "ex \<or> mal")
      case True
      then show thesis
        by (intro alone) (use assms on t e in \<open>auto simp: Handler_def Let_def\<close>)
    next
      case False
      then show thesis
        using key [of token i ks'] assms on t e k by (simp add: Handler_def Let_def)
    qed
  qed
qed

lemma Handler_table_ok:
  assumes "table_ok digest m" and "Handler lib digest now authorization m = (reply, m')"
  shows "table_ok digest m'"
  using assms(2)
proof (cases rule: Handler_cases)
  case alone
  then show ?thesis
    by (intro same_index_table_ok [OF _ assms(1)]) (simp_all add: same_index_def)
next
  case (key token i ks')
  then show ?thesis
    using serve_key_fields(1,2) [OF key(5)] assms(1) by (simp add: upd_key_table_ok)
qed

lemma save_loop_table_ok: "table_ok digest m \<Longrightarrow> table_ok digest (snd (save_loop lib now es rows m))"
  by (induction lib now es rows m rule: save_loop.induct) (simp_all add: upd_key_table_ok split: prod.split)

lemma LoadFromStore_table_ok: "table_ok digest m \<Longrightarrow> table_ok digest (LoadFromStore rows m)"
  unfolding LoadFromStore_def
  by (induction rows arbitrary: m) (auto simp: upd_key_table_ok split: option.split)

text \<open>What may happen to the table: every operation, in any order; reloads come from a validated configuration.\<close>

inductive auth_step :: "time_lib \<Rightarrow> (string \<Rightarrow> string) \<Rightarrow> middleware \<Rightarrow> middleware \<Rightarrow> bool"
  for lib :: time_lib and digest :: "string \<Rightarrow> string"
where
  request: "Handler lib digest now authorization m = (reply, m') \<Longrightarrow> auth_step lib digest m m'"
| add: "auth_step lib digest m (AddKey lib digest now k m)"
| patch: "auth_step lib digest m (snd (PatchKey lib digest now name p m))"
| revoke: "auth_step lib digest m (RevokeKey digest name m)"
| reload: "IsEnabled cfg \<Longrightarrow> validate_auth cfg = None \<Longrightarrow> auth_step lib digest m (Reload lib digest now cfg m)"
| refund: "auth_step lib digest m (Refund name m)"
| tokens: "auth_step lib digest m (AddKeyTokens lib now name n m)"
| hook: "auth_step lib digest m (SetExpiryAuditHook lib digest now fn m)"
| save: "auth_step lib digest m (snd (SaveToStore lib now rows m))"
| load: "auth_step lib digest m (LoadFromStore rows m)"

lemma check_keys_distinct:
  "check_keys names tokens ks = None \<Longrightarrow>
     distinct (map kf_Name ks) \<and> distinct (map kf_Key ks)
     \<and> set names \<inter> kf_Name ` set ks = {} \<and> set tokens \<inter> kf_Key ` set ks = {}"
  by (induction names tokens ks rule: check_keys.induct) (auto split: if_splits)

lemma validate_auth_distinct:
  "IsEnabled cfg \<Longrightarrow> validate_auth cfg = None \<Longrightarrow> distinct (map kf_Name (ac_Keys cfg)) \<and> distinct (map kf_Key (ac_Keys cfg))"
  using check_keys_distinct [of "[]" "[]" "ac_Keys cfg"] by (simp add: validate_auth_def)

lemma hook_table_ok: "table_ok digest m \<Longrightarrow> table_ok digest (SetExpiryAuditHook lib digest now fn m)"
proof -
  assume ok: "table_ok digest m"
  have "table_ok digest (m\<lparr> mw_expiryHook := fn \<rparr>)"
    by (rule same_index_table_ok [OF _ ok]) (simp_all add: same_index_def)
  then show ?thesis
    by (cases fn) (simp_all add: SetExpiryAuditHook_def Let_def report_table_ok)
qed

lemma auth_step_table_ok:
  assumes "auth_step lib digest m m'" and "table_ok digest m"
  shows "table_ok digest m'"
  using assms
proof (cases rule: auth_step.cases)
  case (request now authorization reply)
  then show ?thesis using Handler_table_ok [OF assms(2)] by blast
next
  case (reload cfg now)
  then show ?thesis using Reload_table_ok [OF assms(2)] validate_auth_distinct by simp
next
  case (patch now name p)
  then show ?thesis
    using assms(2)
    by (auto simp: PatchKey_def patchKey_def upd_key_table_ok report_table_ok split: option.split)
next
  case (save now rows)
  then show ?thesis
    using assms(2) by (simp add: SaveToStore_def save_loop_table_ok)
qed (use assms(2) in \<open>simp_all add: AddKey_table_ok RevokeKey_table_ok hook_table_ok LoadFromStore_table_ok
      Refund_def AddKeyTokens_def upd_key_table_ok split: option.split\<close>)

lemma swap_loop_append: "swap_loop digest now old (xs @ ys) m = swap_loop digest now old ys (swap_loop digest now old xs m)"
  by (induction xs arbitrary: m) (simp_all add: swap_loop_Cons split: option.split)

lemma swap_loop_index:
  shows "n \<notin> kf_Name ` set ks \<Longrightarrow> gm_get (mw_byName (swap_loop digest now old ks m)) n = gm_get (mw_byName m) n"
    "h \<notin> digest ` kf_Key ` set ks \<Longrightarrow> gm_get (mw_keys (swap_loop digest now old ks m)) h = gm_get (mw_keys m) h"
  by (induction ks arbitrary: m) (auto simp: swap_loop_Cons split: option.split)

section \<open>Authentication\<close>

lemma reachable_table_ok:
  assumes "IsEnabled cfg" and "validate_auth cfg = None" and "(auth_step lib digest)\<^sup>*\<^sup>* (NewMiddleware digest now cfg) m"
  shows "table_ok digest m"
  using assms(3)
proof (induction rule: rtranclp_induct)
  case base
  then show ?case using NewMiddleware_table_ok validate_auth_distinct [OF assms(1,2)] by blast
next
  case (step m m')
  then show ?case using auth_step_table_ok by blast
qed

text \<open>
  C17. The key table stays consistent under any sequence of requests, key additions, rotations,
  patches, revocations, reloads, refunds and snapshots: a token index entry always
  leads to the key state that is registered under its own name and whose token has
  that digest, so no stale key state can be reached through a token; and
  each malformed expiry is reported to the audit hook at most once.
\<close>

theorem key_table_invariant:
  assumes "IsEnabled cfg" and "validate_auth cfg = None" and "(auth_step lib digest)\<^sup>*\<^sup>* (NewMiddleware digest now cfg) m"
  shows "(\<forall>h i. gm_get (mw_keys m) h = Some i \<longrightarrow>
            digest (ks_key (mw_heap m ! i)) = h \<and> by_key_name m (ks_name (mw_heap m ! i)) = Some (mw_heap m ! i))
      \<and> (\<forall>n ks. by_key_name m n = Some ks \<longrightarrow> ks \<in> set (mw_heap m) \<and> ks_name ks = n)
      \<and> distinct (mw_audit m)"
proof -
  have ok: "table_ok digest m" by (rule reachable_table_ok [OF assms])
  show ?thesis
    using table_okD [OF ok] table_ok_audit(1) [OF ok] by (auto simp: by_key_name_def)
qed

lemma serve_key_Served:
  assumes "serve_key lib now ks = (Served name models hs, ks')"
  shows "name = Some (ks_name ks)" "models = Some (ks_models ks)"
    "fst (allow now (ks_limiter ks))"
    "ks_dailyLimit ks > 0 \<longrightarrow> fst (fst (incrementAndStats lib now (ks_counter ks))) \<le> ks_dailyLimit ks"
    "ks_monthlyLimit ks > 0 \<longrightarrow> snd (fst (incrementAndStats lib now (ks_counter ks))) \<le> ks_monthlyLimit ks"
    "ks_counter ks' = snd (incrementAndStats lib now (ks_counter ks))"
    "ks_limiter ks' = snd (allow now (ks_limiter ks))"
  using assms by (auto simp: serve_key_def quota_refused_def Let_def split: prod.splits if_splits)

text \<open>
  C3. With enforcement on, a request is passed on only if it presents the current token of a registered
  key whose expiry is well formed and not past, whose bucket had a token left and whose daily
  and monthly quotas include this request; the context then carries
  that key's name and model list.
\<close>

theorem served_only_with_live_key:
  assumes "IsEnabled cfg" and "validate_auth cfg = None" and "(auth_step lib digest)\<^sup>*\<^sup>* (NewMiddleware digest start cfg) m"
    and "inj digest" and "mw_enabled m"
    and "Handler lib digest now authorization m = (Served name models hs, m')"
  shows "\<exists>token n ks. bearer_token authorization = Some token \<and> name = Some n \<and> by_key_name m n = Some ks
     \<and> ks_key ks = token \<and> models = Some (ks_models ks)
     \<and> ExpiryStatus lib (ks_expiresAt ks) now = (False, False)
     \<and> fst (allow now (ks_limiter ks))
     \<and> (ks_dailyLimit ks > 0 \<longrightarrow> fst (stats lib now (ks_counter ks)) < ks_dailyLimit ks)
     \<and> (ks_monthlyLimit ks > 0 \<longrightarrow> fst (snd (stats lib now (ks_counter ks))) < ks_monthlyLimit ks)"
proof -
  have ok: "table_ok digest m" by (rule reachable_table_ok [OF assms(1-3)])
  have stats: "fst (fst (incrementAndStats lib now c)) = fst (stats lib now c) + 1"
    "snd (fst (incrementAndStats lib now c)) = fst (snd (stats lib now c)) + 1" for c
    by (simp_all add: incrementAndStats_def stats_def resetLocked_def Let_def)
  from assms(6) show ?thesis
  proof (cases rule: Handler_cases)
    case (key token i ks')
    have "ks_key (mw_heap m ! i) = token"
      using table_okD(1) [OF ok key(3)] assms(4) by (simp add: inj_eq)
    moreover have "by_key_name m (ks_name (mw_heap m ! i)) = Some (mw_heap m ! i)"
      using table_okD(2) [OF ok key(3)] by (simp add: by_key_name_def)
    ultimately show ?thesis
      using serve_key_Served(1-5) [OF key(5)] key(2,4) stats [of "ks_counter (mw_heap m ! i)"] by auto
  qed (use assms(5) in auto)
qed

text \<open>
  C18. Taking a key away works at once: after a key is revoked, rotated to another token by \<^verbatim>\<open>AddKey\<close>, or
  left out of a reloaded configuration, a request with its old token is answered 401 and changes no key.
\<close>

theorem old_token_refused:
  assumes "inj digest" and "mw_enabled m" and "by_key_name m n = Some ks"
    and "m' = RevokeKey digest n m
       \<or> (\<exists>k. m' = AddKey lib digest t k m \<and> kf_Name k = n \<and> kf_Key k \<noteq> ks_key ks)
       \<or> (\<exists>cfg'. m' = Reload lib digest t cfg' m \<and> IsEnabled cfg' \<and> ks_key ks \<notin> kf_Key ` set (ac_Keys cfg'))"
    and "bearer_token authorization = Some (ks_key ks)"
  shows "fst (Handler lib digest now authorization m') = Refused 401 ''invalid_api_key'' [WWW_Authenticate]"
proof -
  have "gm_get (mw_keys m') (digest (ks_key ks)) = None \<and> mw_enabled m'"
    using assms(4)
  proof (elim disjE exE conjE)
    assume "m' = RevokeKey digest n m"
    then show ?thesis using assms(2,3) by (simp add: RevokeKey_def gm_get_del)
  next
    fix k
    assume "m' = AddKey lib digest t k m" "kf_Name k = n" "kf_Key k \<noteq> ks_key ks"
    then show ?thesis using assms(1-3) by (simp add: AddKey_def Let_def gm_get_del inj_eq)
  next
    fix cfg'
    assume m': "m' = Reload lib digest t cfg' m" "IsEnabled cfg'" and gone: "ks_key ks \<notin> kf_Key ` set (ac_Keys cfg')"
    have "digest (ks_key ks) \<notin> digest ` kf_Key ` set (ac_Keys cfg')"
      using gone assms(1) by (simp add: inj_image_mem_iff)
    from swap_loop_index(2) [OF this, of t "mw_byName m" "m\<lparr> mw_keys := [], mw_byName := [] \<rparr>"] show ?thesis
      using m' by (simp add: Reload_def swapKeys_def)
  qed
  moreover have "authorization \<noteq> []"
    using assms(5) by (auto simp: bearer_token_def)
  ultimately show ?thesis
    by (simp add: Handler_def assms(2,5))
qed

section \<open>Quotas\<close>

text \<open>Requests one after another, and how many of the replies serve a given key.\<close>

fun handle_all ::
  "time_lib \<Rightarrow> (string \<Rightarrow> string) \<Rightarrow> (gotime \<times> string) list \<Rightarrow> middleware \<Rightarrow> auth_reply list \<times> middleware" where
  "handle_all lib digest [] m = ([], m)"
| "handle_all lib digest ((now, authorization) # reqs) m =
     (case Handler lib digest now authorization m of (reply, m1) \<Rightarrow>
        case handle_all lib digest reqs m1 of (replies, m2) \<Rightarrow> (reply # replies, m2))"

fun serves :: "string \<Rightarrow> auth_reply \<Rightarrow> bool" where
  "serves n (Served (Some x) _ _) \<longleftrightarrow> x = n"
| "serves n _ \<longleftrightarrow> False"

definition served_for :: "string \<Rightarrow> auth_reply list \<Rightarrow> int" where
  "served_for n replies = int (length (filter (serves n) replies))"

lemma served_for_simps [simp]:
  "served_for n [] = 0" "served_for n (r # rs) = (if serves n r then 1 else 0) + served_for n rs"
  by (simp_all add: served_for_def)

text \<open>
  A meter of a key's counter is charged by every request served and never goes back within the
  period; a request is served only below the limit.
\<close>

definition metered :: "time_lib \<Rightarrow> gotime set \<Rightarrow> (key_counter \<Rightarrow> int) \<Rightarrow> (key_state \<Rightarrow> int) \<Rightarrow> bool" where
  "metered lib period v limit \<longleftrightarrow>
     (\<forall>t \<in> period. \<forall>ks reply ks'. serve_key lib t ks = (reply, ks') \<longrightarrow> limit ks' = limit ks \<and>
        (case reply of
           Served _ _ _ \<Rightarrow> v (ks_counter ks') = v (ks_counter ks) + 1 \<and> (limit ks > 0 \<longrightarrow> v (ks_counter ks) < limit ks)
         | Refused _ _ _ \<Rightarrow> v (ks_counter ks) \<le> v (ks_counter ks')))"

lemma metered_bound:
  assumes "metered lib period v limit" and "table_ok digest m" and "mw_enabled m"
    and "gm_get (mw_byName m) n = Some i" and "limit (mw_heap m ! i) > 0" and "\<forall>(t, a) \<in> set reqs. t \<in> period"
  shows "served_for n (fst (handle_all lib digest reqs m)) \<le> max 0 (limit (mw_heap m ! i) - v (ks_counter (mw_heap m ! i)))"
  using assms(2-)
proof (induction reqs arbitrary: m)
  case (Cons req reqs)
  obtain t a where req: "req = (t, a)" by fastforce
  obtain reply m1 where h: "Handler lib digest t a m = (reply, m1)" by fastforce
  obtain replies m2 where rest: "handle_all lib digest reqs m1 = (replies, m2)" by fastforce
  have t: "t \<in> period" using Cons.prems(5) req by auto
  have ok1: "table_ok digest m1" by (rule Handler_table_ok [OF Cons.prems(1) h])
  have sum: "served_for n (fst (handle_all lib digest (req # reqs) m)) = (if serves n reply then 1 else 0) + served_for n replies"
    by (simp add: req h rest)
  have IH: "served_for n replies \<le> max 0 (limit (mw_heap m1 ! i) - v (ks_counter (mw_heap m1 ! i)))"
    if "mw_enabled m1" "gm_get (mw_byName m1) n = Some i" "limit (mw_heap m1 ! i) > 0"
    using Cons.IH [OF ok1 that] Cons.prems(5) rest by simp
  from h show ?case
  proof (cases rule: Handler_cases)
    case alone
    then have "\<not> serves n reply" using Cons.prems(2) by auto
    then show ?thesis using IH alone Cons.prems(2-4) by (simp add: sum)
  next
    case (key token j ks')
    have j: "j < length (mw_heap m)" "gm_get (mw_byName m) (ks_name (mw_heap m ! j)) = Some j"
      using table_okD(2,3) [OF Cons.prems(1) key(3)] by auto
    have m1: "mw_enabled m1" "mw_byName m1 = mw_byName m" using key(1,6) by simp_all
    show ?thesis
    proof (cases "j = i")
      case True
      have i: "i < length (mw_heap m)" "mw_heap m1 ! i = ks'" using j(1) True key(6) by (simp_all add: upd_key_nth)
      from assms(1) t key(5) True
      have meter: "limit ks' = limit (mw_heap m ! i)" "case reply of
           Served _ _ _ \<Rightarrow> v (ks_counter ks') = v (ks_counter (mw_heap m ! i)) + 1
             \<and> (limit (mw_heap m ! i) > 0 \<longrightarrow> v (ks_counter (mw_heap m ! i)) < limit (mw_heap m ! i))
         | Refused _ _ _ \<Rightarrow> v (ks_counter (mw_heap m ! i)) \<le> v (ks_counter ks')"
        unfolding metered_def by blast+
      have "served_for n replies \<le> max 0 (limit (mw_heap m ! i) - v (ks_counter ks'))"
        using IH m1 Cons.prems(3,4) meter(1) i(2) by simp
      then show ?thesis
        unfolding sum using meter(2) Cons.prems(4) by (cases reply) (auto split: if_splits)
    next
      case False
      have "\<not> serves n reply"
        using serve_key_Served(1) [of lib t "mw_heap m ! j"] key(5) j(2) False Cons.prems(3)
        by (cases "(n, reply)" rule: serves.cases) auto
      moreover have "i < length (mw_heap m)"
        using table_okD(4) [OF Cons.prems(1,3)] .
      then have "mw_heap m1 ! i = mw_heap m ! i"
        using False key(6) by (simp add: upd_key_nth)
      ultimately show ?thesis
        using IH m1 Cons.prems(3,4) by (simp add: sum)
    qed
  qed
qed simp

lemma incrementAndStats_snd:
  "snd (incrementAndStats lib now c) =
     (resetLocked lib now c)\<lparr> kc_lastReset := now, kc_today := kc_today (resetLocked lib now c) + 1,
        kc_month := kc_month (resetLocked lib now c) + 1 \<rparr>"
  "fst (fst (incrementAndStats lib now c)) = kc_today (resetLocked lib now c) + 1"
  "snd (fst (incrementAndStats lib now c)) = kc_month (resetLocked lib now c) + 1"
  by (simp_all add: incrementAndStats_def Let_def)

lemma serve_key_counter:
  assumes "serve_key lib now ks = (reply, ks')"
  shows "case reply of
      Served _ _ _ \<Rightarrow> ks_counter ks' = snd (incrementAndStats lib now (ks_counter ks))
    | Refused _ _ _ \<Rightarrow> ks_counter ks' = ks_counter ks \<or> ks_counter ks' = decrement (snd (incrementAndStats lib now (ks_counter ks)))"
  using assms by (auto simp: serve_key_def quota_refused_def Let_def split: prod.splits if_splits)

lemma metered_intro:
  assumes "\<And>t c. t \<in> period \<Longrightarrow> v (snd (incrementAndStats lib t c)) = v c + 1"
    and "\<And>t c. t \<in> period \<Longrightarrow> v c \<le> v (decrement (snd (incrementAndStats lib t c)))"
    and "\<And>t ks name models hs ks'. t \<in> period \<Longrightarrow> serve_key lib t ks = (Served name models hs, ks')
           \<Longrightarrow> limit ks > 0 \<Longrightarrow> v (ks_counter ks) < limit ks"
    and "\<And>t ks reply ks'. serve_key lib t ks = (reply, ks') \<Longrightarrow> limit ks' = limit ks"
  shows "metered lib period v limit"
  unfolding metered_def
proof (intro ballI allI impI conjI)
  fix t ks reply ks'
  assume t: "t \<in> period" and k: "serve_key lib t ks = (reply, ks')"
  show "limit ks' = limit ks" by (rule assms(4) [OF k])
  show "case reply of
      Served _ _ _ \<Rightarrow> v (ks_counter ks') = v (ks_counter ks) + 1 \<and> (limit ks > 0 \<longrightarrow> v (ks_counter ks) < limit ks)
    | Refused _ _ _ \<Rightarrow> v (ks_counter ks) \<le> v (ks_counter ks')"
    using serve_key_counter [OF k] assms(1,2) [OF t, of "ks_counter ks"] assms(3) [OF t] k
    by (cases reply) auto
qed

lemma metered_daily:
  "metered lib {t. tl_date lib t = tl_date lib T} (\<lambda>c. fst (stats lib T c)) ks_dailyLimit"
proof (rule metered_intro)
  fix t ks name models hs ks'
  assume "t \<in> {t. tl_date lib t = tl_date lib T}" "serve_key lib t ks = (Served name models hs, ks')" "ks_dailyLimit ks > 0"
  then show "fst (stats lib T (ks_counter ks)) < ks_dailyLimit ks"
    using serve_key_Served(4) [of lib t ks] by (auto simp: incrementAndStats_snd resetLocked_def stats_def split: if_splits)
qed (auto simp: incrementAndStats_snd stats_def resetLocked_def decrement_def Let_def dest: serve_key_fields(3))

lemma metered_monthly:
  "metered lib {t. year_of lib t = year_of lib T \<and> month_of lib t = month_of lib T} (\<lambda>c. fst (snd (stats lib T c))) ks_monthlyLimit"
proof (rule metered_intro)
  fix t ks name models hs ks'
  assume "t \<in> {t. year_of lib t = year_of lib T \<and> month_of lib t = month_of lib T}"
    "serve_key lib t ks = (Served name models hs, ks')" "ks_monthlyLimit ks > 0"
  then show "fst (snd (stats lib T (ks_counter ks))) < ks_monthlyLimit ks"
    using serve_key_Served(5) [of lib t ks] by (auto simp: incrementAndStats_snd resetLocked_def stats_def split: if_splits)
qed (auto simp: incrementAndStats_snd stats_def resetLocked_def decrement_def Let_def dest: serve_key_fields(4))

text \<open>
  C5. Hard quotas hold whatever mix of requests arrives: among any sequence of requests within one
  calendar day (month) at most as many are served for a key as its daily (monthly) limit had left
  at the start, for every interleaving with requests of other keys and with refused requests.
\<close>

theorem quotas_enforced:
  assumes "IsEnabled cfg" and "validate_auth cfg = None" and "(auth_step lib digest)\<^sup>*\<^sup>* (NewMiddleware digest start cfg) m"
    and "mw_enabled m" and "by_key_name m n = Some ks"
  shows "(ks_dailyLimit ks > 0 \<and> (\<forall>(t, a) \<in> set reqs. tl_date lib t = tl_date lib T) \<longrightarrow>
            served_for n (fst (handle_all lib digest reqs m)) \<le> max 0 (ks_dailyLimit ks - fst (stats lib T (ks_counter ks))))
       \<and> (ks_monthlyLimit ks > 0 \<and> (\<forall>(t, a) \<in> set reqs. year_of lib t = year_of lib T \<and> month_of lib t = month_of lib T) \<longrightarrow>
            served_for n (fst (handle_all lib digest reqs m))
              \<le> max 0 (ks_monthlyLimit ks - fst (snd (stats lib T (ks_counter ks)))))"
proof -
  have ok: "table_ok digest m" by (rule reachable_table_ok [OF assms(1-3)])
  obtain i where i: "gm_get (mw_byName m) n = Some i" "mw_heap m ! i = ks"
    using assms(5) by (auto simp: by_key_name_Some)
  show ?thesis
    using metered_bound [OF metered_daily [of lib T] ok assms(4) i(1), of reqs]
      metered_bound [OF metered_monthly [of lib T] ok assms(4) i(1), of reqs]
    by (simp add: i(2) case_prod_unfold)
qed

section \<open>Token buckets in binary64\<close>

definition bucket_ok :: "int \<Rightarrow> token_bucket \<Rightarrow> bool" where
  "bucket_ok R tb \<longleftrightarrow> \<not> tb_unlimited tb \<and> 0 \<le> tb_tokens tb \<and> tb_tokens tb \<le> tb_capacity tb
     \<and> tb_capacity tb = of_int R \<and> fl (tb_tokens tb) = tb_tokens tb \<and> 0 \<le> tb_rate tb"

inductive bucket_step :: "token_bucket \<Rightarrow> token_bucket \<Rightarrow> bool" where
  allow: "tb_lastRefill tb \<le> now \<Longrightarrow> bucket_step tb (snd (allow now tb))"
| refund: "bucket_step tb (refund tb)"

lemma seconds_nonneg: "0 \<le> d \<Longrightarrow> 0 \<le> seconds d"
proof -
  assume d: "0 \<le> d"
  then have "quot d second = d div second"
    by (intro quot_nonneg) (simp_all add: duration_defs)
  then have "0 \<le> quot d second" "0 \<le> d - quot d second * second"
    using d by (simp_all add: duration_defs minus_div_mult_eq_mod)
  moreover define r where "r = d - quot d second * second"
  ultimately show ?thesis
    unfolding seconds_def r_def [symmetric] float_op_defs
    by (intro fl_nonneg add_nonneg_nonneg divide_nonneg_nonneg) simp_all
qed

lemma seconds_0 [simp]: "seconds 0 = 0"
  by (simp add: seconds_def quot_def float_op_defs)

lemma newTokenBucket_ok:
  assumes "0 < R" "R < 2 ^ 53"
  shows "bucket_ok R (newTokenBucket now R)"
  using assms fl_of_int [of R]
  by (auto simp: bucket_ok_def newTokenBucket_def float_op_defs intro!: fl_nonneg)

lemma refilled_bounds:
  assumes "bucket_ok R tb" "\<bar>R\<bar> < 2 ^ 53" "tb_lastRefill tb \<le> now"
  shows "0 \<le> refilled now tb" "refilled now tb \<le> of_int R" "fl (refilled now tb) = refilled now tb"
proof -
  have "0 \<le> fmul (seconds (now - tb_lastRefill tb)) (tb_rate tb)"
    using assms seconds_nonneg [of "now - tb_lastRefill tb"] unfolding float_op_defs bucket_ok_def
    by (intro fl_nonneg mult_nonneg_nonneg) simp_all
  then have "0 \<le> fadd (tb_tokens tb) (fmul (seconds (now - tb_lastRefill tb)) (tb_rate tb))"
    using assms(1) unfolding fadd_def bucket_ok_def by (intro fl_nonneg) simp
  then show "0 \<le> refilled now tb" "refilled now tb \<le> of_int R"
    using assms(1) by (auto simp: refilled_def bucket_ok_def Let_def)
  show "fl (refilled now tb) = refilled now tb"
    using assms(1,2) by (auto simp: refilled_def bucket_ok_def Let_def fadd_def fl_of_int)
qed

lemma fl_minus_one:
  assumes "fl x = x" "1 \<le> x" "x \<le> of_int R" "\<bar>R\<bar> < 2 ^ 53"
  shows "fl (x - 1) = x - 1"
proof -
  have "(of_int R :: rat) < 2 ^ 53"
    using assms(4) by (metis abs_less_iff of_int_less_iff of_int_numeral of_int_power)
  then show ?thesis
    using fl_sub_int [of x 1] assms by simp
qed

lemma allow_ok:
  assumes "bucket_ok R tb" "\<bar>R\<bar> < 2 ^ 53" "tb_lastRefill tb \<le> now"
  shows "bucket_ok R (snd (allow now tb))"
  using refilled_bounds [OF assms] assms(1) fl_minus_one [of "refilled now tb" R] assms(2)
  by (auto simp: allow_def bucket_ok_def Let_def fsub_def)

lemma refund_ok:
  assumes "bucket_ok R tb" "\<bar>R\<bar> < 2 ^ 53"
  shows "bucket_ok R (refund tb)"
proof -
  have "0 \<le> fadd (tb_tokens tb) 1"
    using assms(1) unfolding fadd_def bucket_ok_def by (intro fl_nonneg) simp
  then show ?thesis
    using assms by (auto simp: refund_def bucket_ok_def Let_def fadd_def fl_of_int)
qed

text \<open>A burst of \<open>k\<close> requests at one instant, and how many of them pass.\<close>

fun burst :: "gotime \<Rightarrow> nat \<Rightarrow> token_bucket \<Rightarrow> nat" where
  "burst now 0 tb = 0"
| "burst now (Suc k) tb = (case allow now tb of (ok, tb') \<Rightarrow> (if ok then 1 else 0) + burst now k tb')"

lemma refilled_now: "bucket_ok R tb \<Longrightarrow> tb_lastRefill tb = now \<Longrightarrow> refilled now tb = tb_tokens tb"
  by (auto simp: refilled_def bucket_ok_def Let_def fadd_def fmul_def)

lemma burst_exact:
  assumes "bucket_ok R tb" "\<bar>R\<bar> < 2 ^ 53" "tb_lastRefill tb \<le> now"
  shows "burst now k tb = min k (nat \<lfloor>refilled now tb\<rfloor>)"
  using assms
proof (induction k arbitrary: tb)
  case (Suc k)
  let ?x = "refilled now tb" and ?tb' = "snd (allow now tb)"
  note x = refilled_bounds [OF Suc.prems]
  have ok': "bucket_ok R ?tb'" by (rule allow_ok [OF Suc.prems])
  have last: "tb_lastRefill ?tb' = now" and ul: "\<not> tb_unlimited tb"
    using Suc.prems(1) by (auto simp: allow_def Let_def bucket_ok_def)
  have IH: "burst now k ?tb' = min k (nat \<lfloor>tb_tokens ?tb'\<rfloor>)"
    using Suc.IH [OF ok' Suc.prems(2)] last refilled_now [OF ok' last] by simp
  show ?case
  proof (cases "1 \<le> ?x")
    case True
    then have "fst (allow now tb)" "tb_tokens ?tb' = ?x - 1"
      using ul fl_minus_one [OF x(3) True x(2) Suc.prems(2)] by (simp_all add: allow_def Let_def fsub_def)
    moreover have "nat \<lfloor>?x\<rfloor> = Suc (nat \<lfloor>?x - 1\<rfloor>)"
      using True by linarith
    ultimately show ?thesis
      using IH by (simp add: case_prod_beta)
  next
    case False
    then have "\<not> fst (allow now tb)" "tb_tokens ?tb' = ?x"
      using ul by (simp_all add: allow_def Let_def)
    moreover have "\<lfloor>?x\<rfloor> = 0"
      using False x(1) by linarith
    ultimately show ?thesis
      using IH by (simp add: case_prod_beta)
  qed
qed simp

lemma reachable_bucket_ok:
  assumes "bucket_step\<^sup>*\<^sup>* (newTokenBucket start R) tb" "0 < R" "R < 2 ^ 53"
  shows "bucket_ok R tb"
  using assms(1)
proof (induction rule: rtranclp_induct)
  case base
  then show ?case using newTokenBucket_ok assms(2,3) by blast
next
  case (step tb tb')
  from step(2,3) show ?case
    by cases (use assms(2,3) in \<open>simp_all add: allow_ok refund_ok\<close>)
qed

text \<open>
  A key's token bucket works as intended in binary64 arithmetic: for an hourly rate
  below \<open>2 ^ 53\<close> every bucket reached by requests (with a clock that does not run backwards) and refunds
  holds between 0 and the hourly rate of tokens, and of a burst of \<open>k\<close> requests at one instant exactly as many
  pass as there are whole tokens after the refill, never more than the hourly rate.
\<close>

lemma bucket_burst_bounded:
  assumes "bucket_step\<^sup>*\<^sup>* (newTokenBucket start R) tb" and "0 < R" "R < 2 ^ 53" and "tb_lastRefill tb \<le> now"
  shows "0 \<le> tb_tokens tb \<and> tb_tokens tb \<le> of_int R
     \<and> burst now k tb = min k (nat \<lfloor>refilled now tb\<rfloor>) \<and> int (burst now k tb) \<le> R"
proof -
  have ok: "bucket_ok R tb" by (rule reachable_bucket_ok [OF assms(1-3)])
  have R: "\<bar>R\<bar> < 2 ^ 53" using assms(2,3) by simp
  note b = burst_exact [OF ok R assms(4), of k] refilled_bounds [OF ok R assms(4)]
  have "\<lfloor>refilled now tb\<rfloor> \<le> R"
    using b(3) by linarith
  then show ?thesis
    using ok b(1) assms(2) by (auto simp: bucket_ok_def)
qed

section \<open>Reload\<close>

text \<open>The loop leaves alone the states of keys whose names it does not meet.\<close>

lemma swap_loop_heap:
  assumes "old_ok old m" "i < length (mw_heap m)" "ks_name (mw_heap m ! i) \<notin> kf_Name ` set ks"
  shows "i < length (mw_heap (swap_loop digest now old ks m)) \<and> mw_heap (swap_loop digest now old ks m) ! i = mw_heap m ! i
    \<and> old_ok old (swap_loop digest now old ks m)"
  using assms
proof (induction ks arbitrary: m)
  case (Cons k ks)
  have new: "i < length (mw_heap (install digest (new_key now k) m))" "mw_heap (install digest (new_key now k) m) ! i = mw_heap m ! i"
    using Cons.prems(2) by (simp_all add: nth_append)
  have kept: "mw_heap (keep_at digest now j k m) ! i = mw_heap m ! i" if "gm_get old (kf_Name k) = Some j" for j
  proof -
    have "j \<noteq> i" using Cons.prems that by (auto simp: old_ok_def)
    then show ?thesis using Cons.prems(2) by (simp add: upd_key_nth)
  qed
  show ?case
    using Cons.IH [OF old_ok_install [OF Cons.prems(1)] new(1)] Cons.IH [OF old_ok_keep [OF Cons.prems(1)]] Cons.prems(2,3) new kept
    by (auto simp: swap_loop_Cons split: option.split)
qed simp

definition policy_of :: "key_state \<Rightarrow> key_config" where
  "policy_of ks =
     \<lparr> kf_Name = ks_name ks, kf_Key = ks_key ks, kf_RateLimit = ks_rateLimit ks, kf_Models = ks_models ks,
       kf_ExpiresAt = ks_expiresAt ks, kf_DailyLimit = ks_dailyLimit ks, kf_MonthlyLimit = ks_monthlyLimit ks,
       kf_DailyUsdCap = ks_dailyUsdCap ks, kf_MonthlyUsdCap = ks_monthlyUsdCap ks, kf_LocalOnly = ks_localOnly ks,
       kf_AllowLocalDegradation = ks_allowLocalDegradation ks \<rparr>"

lemma policy_of_new [simp]: "policy_of (new_key now k) = k"
  by (simp add: policy_of_def new_key_def)

lemma policy_of_keep: "ks_name ks = kf_Name k \<Longrightarrow> ks_key ks = kf_Key k \<Longrightarrow> policy_of (keep_key now k ks) = k"
  by (simp add: policy_of_def keep_key_def Let_def)

lemma swap_loop_result:
  assumes old: "old_ok old m" and split: "keys = xs @ k # ys"
    and dist: "distinct (map kf_Name keys)" "distinct (map kf_Key keys)" "inj digest"
  shows "\<exists>i. gm_get (mw_byName (swap_loop digest now old keys m)) (kf_Name k) = Some i
     \<and> gm_get (mw_keys (swap_loop digest now old keys m)) (digest (kf_Key k)) = Some i
     \<and> mw_heap (swap_loop digest now old keys m) ! i =
         (case gm_get old (kf_Name k) of
            None \<Rightarrow> new_key now k
          | Some j \<Rightarrow> if ks_key (mw_heap m ! j) = kf_Key k then keep_key now k (mw_heap m ! j) else new_key now k)"
proof -
  have fresh: "kf_Name k \<notin> kf_Name ` set xs" "kf_Name k \<notin> kf_Name ` set ys" "digest (kf_Key k) \<notin> digest ` kf_Key ` set ys"
    using dist by (auto simp: split inj_image_mem_iff)
  have old_xs: "old_ok old (swap_loop digest now old zs m')" if "old_ok old m'" for zs m'
    using that
    by (induction zs arbitrary: m') (auto simp: swap_loop_Cons old_ok_install old_ok_keep split: option.split)
  let ?p = "swap_loop digest now old xs m"
  have p: "old_ok old ?p" using old_xs [OF old] .
  have same: "mw_heap ?p ! j = mw_heap m ! j" "j < length (mw_heap ?p)" "ks_name (mw_heap ?p ! j) = kf_Name k"
    if "gm_get old (kf_Name k) = Some j" for j
    using swap_loop_heap [OF old, of j xs] that old fresh(1) by (auto simp: old_ok_def)
  have finish: "\<exists>i. gm_get (mw_byName (swap_loop digest now old ys q)) (kf_Name k) = Some i
       \<and> gm_get (mw_keys (swap_loop digest now old ys q)) (digest (kf_Key k)) = Some i
       \<and> mw_heap (swap_loop digest now old ys q) ! i = ks"
    if "old_ok old q" "i < length (mw_heap q)" "mw_heap q ! i = ks" "ks_name ks = kf_Name k"
      "gm_get (mw_byName q) (kf_Name k) = Some i" "gm_get (mw_keys q) (digest (kf_Key k)) = Some i" for q i ks
    using swap_loop_heap [OF that(1,2), of ys] swap_loop_index(1) [OF fresh(2)] swap_loop_index(2) [OF fresh(3)]
      that(3-6) fresh(2) by auto
  show ?thesis
  proof (cases "\<exists>j. gm_get old (kf_Name k) = Some j \<and> ks_key (mw_heap m ! j) = kf_Key k")
    case True
    then obtain j where j: "gm_get old (kf_Name k) = Some j" "ks_key (mw_heap m ! j) = kf_Key k" by blast
    show ?thesis
      using finish [OF old_ok_keep [OF p], of j digest now j k "keep_key now k (mw_heap m ! j)"] same [OF j(1)] j
      by (simp add: split swap_loop_append swap_loop_Cons upd_key_nth)
  next
    case False
    then show ?thesis
      using finish [OF old_ok_install [OF p], of "length (mw_heap ?p)" digest "new_key now k" "new_key now k"] same
      by (auto simp: split swap_loop_append swap_loop_Cons split: option.split)
  qed
qed

text \<open>
  A reload puts exactly the configured keys in force: every configured key is found by name and by
  token with the configured policy, one that kept its name and token keeps its usage counters
  and, when the rate is unchanged, its token bucket, every other one starts afresh, and names and
  tokens that are not configured are gone.
\<close>

lemma reload_applies_config:
  assumes "IsEnabled cfg" and "validate_auth cfg = None" and "(auth_step lib digest)\<^sup>*\<^sup>* (NewMiddleware digest start cfg) m"
    and "inj digest" and "IsEnabled cfg'" and "validate_auth cfg' = None" and "m' = Reload lib digest now cfg' m"
  shows "(\<forall>k \<in> set (ac_Keys cfg'). \<exists>i.
        gm_get (mw_byName m') (kf_Name k) = Some i \<and> gm_get (mw_keys m') (digest (kf_Key k)) = Some i
        \<and> policy_of (mw_heap m' ! i) = k
        \<and> (case by_key_name m (kf_Name k) of
             None \<Rightarrow> mw_heap m' ! i = new_key now k
           | Some old \<Rightarrow>
               if ks_key old = kf_Key k
               then ks_counter (mw_heap m' ! i) = ks_counter old
                  \<and> (kf_RateLimit k = ks_rateLimit old \<longrightarrow> ks_limiter (mw_heap m' ! i) = ks_limiter old)
               else mw_heap m' ! i = new_key now k))
     \<and> (\<forall>n. n \<notin> kf_Name ` set (ac_Keys cfg') \<longrightarrow> by_key_name m' n = None)
     \<and> (\<forall>token. token \<notin> kf_Key ` set (ac_Keys cfg') \<longrightarrow> gm_get (mw_keys m') (digest token) = None)"
proof -
  have ok: "table_ok digest m" by (rule reachable_table_ok [OF assms(1-3)])
  let ?m0 = "m\<lparr> mw_keys := [], mw_byName := [] \<rparr>" and ?old = "mw_byName m"
  let ?s = "swap_loop digest now ?old (ac_Keys cfg') ?m0"
  have idx: "mw_byName m' = mw_byName ?s" "mw_keys m' = mw_keys ?s" "mw_heap m' = mw_heap ?s"
    by (simp_all add: assms(7) Reload_def swapKeys_def)
  have heap0: "mw_heap ?m0 = mw_heap m" by simp
  have old: "old_ok ?old ?m0"
    using table_okD(4,5) [OF ok] by (simp add: old_ok_def)
  note dist = validate_auth_distinct [OF assms(5,6)]
  have "\<exists>i. gm_get (mw_byName m') (kf_Name k) = Some i \<and> gm_get (mw_keys m') (digest (kf_Key k)) = Some i
        \<and> policy_of (mw_heap m' ! i) = k
        \<and> (case by_key_name m (kf_Name k) of
             None \<Rightarrow> mw_heap m' ! i = new_key now k
           | Some old \<Rightarrow>
               if ks_key old = kf_Key k
               then ks_counter (mw_heap m' ! i) = ks_counter old
                  \<and> (kf_RateLimit k = ks_rateLimit old \<longrightarrow> ks_limiter (mw_heap m' ! i) = ks_limiter old)
               else mw_heap m' ! i = new_key now k)" if k: "k \<in> set (ac_Keys cfg')" for k
  proof -
    obtain xs ys where "ac_Keys cfg' = xs @ k # ys" using k by (meson split_list)
    from swap_loop_result [OF old this _ _ assms(4), of now, unfolded heap0] dist
    obtain i where i: "gm_get (mw_byName m') (kf_Name k) = Some i" "gm_get (mw_keys m') (digest (kf_Key k)) = Some i"
      "mw_heap m' ! i = (case gm_get ?old (kf_Name k) of None \<Rightarrow> new_key now k
          | Some j \<Rightarrow> if ks_key (mw_heap m ! j) = kf_Key k then keep_key now k (mw_heap m ! j) else new_key now k)"
      by (auto simp: idx)
    have name: "ks_name (mw_heap m ! j) = kf_Name k" if "gm_get ?old (kf_Name k) = Some j" for j
      using table_okD(5) [OF ok that] .
    have keep: "ks_counter (keep_key now k ks) = ks_counter ks"
      "kf_RateLimit k = ks_rateLimit ks \<Longrightarrow> ks_limiter (keep_key now k ks) = ks_limiter ks" for ks
      by (simp_all add: keep_key_def Let_def)
    show ?thesis
      using i name by (intro exI [of _ i]) (simp add: by_key_name_def policy_of_keep keep split: option.split)
  qed
  moreover have "by_key_name m' n = None" if "n \<notin> kf_Name ` set (ac_Keys cfg')" for n
    using swap_loop_index(1) [OF that, of digest now ?old ?m0] by (simp add: by_key_name_def idx)
  moreover have "gm_get (mw_keys m') (digest token) = None" if "token \<notin> kf_Key ` set (ac_Keys cfg')" for token
    using swap_loop_index(2) [of "digest token" digest "ac_Keys cfg'" now ?old ?m0] that assms(4)
    by (simp add: idx inj_image_mem_iff)
  ultimately show ?thesis by blast
qed

section \<open>Counters across a restart\<close>

definition stored_counter :: "time_lib \<Rightarrow> gotime \<Rightarrow> key_counter \<Rightarrow> counter_snapshot" where
  "stored_counter lib now c = (fst (export_counter lib now c))\<lparr> cs_LastReset := now div second * second \<rparr>"

lemma save_loop_rows:
  assumes "\<forall>(name, i) \<in> set es. i < length (mw_heap m) \<and> ks_name (mw_heap m ! i) = name" and "distinct (map fst es)"
  shows "gm_get (fst (save_loop lib now es rows m)) n =
    (case gm_get es n of None \<Rightarrow> gm_get rows n | Some i \<Rightarrow> Some (stored_counter lib now (ks_counter (mw_heap m ! i))))"
  using assms
proof (induction es arbitrary: rows m)
  case (Cons e es)
  obtain name i where e: "e = (name, i)" by fastforce
  let ?f = "\<lambda>ks. ks\<lparr> ks_counter := snd (export_counter lib now (ks_counter (mw_heap m ! i))) \<rparr>"
  let ?m = "upd_key i ?f m" and ?rows = "SaveKeyCounters name (fst (export_counter lib now (ks_counter (mw_heap m ! i)))) rows"
  have step: "save_loop lib now (e # es) rows m = save_loop lib now es ?rows ?m"
    by (simp add: e case_prod_beta)
  have other: "mw_heap ?m ! j = mw_heap m ! j \<and> j < length (mw_heap m) \<and> ks_name (mw_heap m ! j) = n'" if "(n', j) \<in> set es" for n' j
  proof -
    have "n' \<noteq> name" using Cons.prems(2) that by (force simp: e)
    then have "j \<noteq> i" using Cons.prems(1) that by (auto simp: e)
    then show ?thesis using Cons.prems(1) that by (auto simp: upd_key_nth)
  qed
  have "\<forall>(name, i) \<in> set es. i < length (mw_heap ?m) \<and> ks_name (mw_heap ?m ! i) = name"
    using other by auto
  from Cons.IH [OF this, of ?rows] Cons.prems(2)
  have "gm_get (fst (save_loop lib now (e # es) rows m)) n = (case gm_get es n of None \<Rightarrow> gm_get ?rows n
      | Some j \<Rightarrow> Some (stored_counter lib now (ks_counter (mw_heap ?m ! j))))"
    by (simp add: step)
  moreover have "gm_get es name = None"
    using Cons.prems(2) by (simp add: e map_of_eq_None_iff)
  moreover have "gm_get ?rows n = (if n = name then Some (stored_counter lib now (ks_counter (mw_heap m ! i))) else gm_get rows n)"
    by (simp add: SaveKeyCounters_def gm_get_put stored_counter_def export_counter_def Let_def)
  ultimately show ?case
    using other [OF map_of_SomeD] by (auto simp: e split: option.split)
qed simp

lemma save_loop_wf: "gm_wf rows \<Longrightarrow> gm_wf (fst (save_loop lib now es rows m))"
  by (induction lib now es rows m rule: save_loop.induct) (auto simp: SaveKeyCounters_def split: prod.split)

lemma LoadFromStore_counter:
  assumes "gm_wf rows" and "table_ok digest m" and "gm_get (mw_byName m) n = Some i"
  shows "gm_get (mw_byName (LoadFromStore rows m)) n = Some i
    \<and> mw_heap (LoadFromStore rows m) ! i =
        (case gm_get rows n of None \<Rightarrow> mw_heap m ! i | Some snap \<Rightarrow> (mw_heap m ! i)\<lparr> ks_counter := restore_counter snap \<rparr>)"
  using assms
proof (induction rows arbitrary: m)
  case (Cons row rows)
  obtain name snap where row: "row = (name, snap)" by fastforce
  define m1 where "m1 = (case gm_get (mw_byName m) name of None \<Rightarrow> m
      | Some j \<Rightarrow> upd_key j (\<lambda>ks. ks\<lparr> ks_counter := restore_counter snap \<rparr>) m)"
  have step: "LoadFromStore (row # rows) m = LoadFromStore rows m1"
    by (simp add: LoadFromStore_def row m1_def)
  have ok1: "table_ok digest m1"
    using Cons.prems(2) by (auto simp: m1_def upd_key_table_ok split: option.split)
  have i1: "gm_get (mw_byName m1) n = Some i"
    using Cons.prems(3) by (simp add: m1_def split: option.split)
  have wf: "gm_wf rows" "gm_get rows name = None"
    using Cons.prems(1) by (auto simp: gm_wf_def row map_of_eq_None_iff)
  have i: "i < length (mw_heap m)" using table_okD(4) [OF Cons.prems(2,3)] .
  have other: "j \<noteq> i" if "gm_get (mw_byName m) name = Some j" "name \<noteq> n" for j
    using table_okD(5) [OF Cons.prems(2)] that Cons.prems(3) by metis
  have "mw_heap m1 ! i = (if name = n then (mw_heap m ! i)\<lparr> ks_counter := restore_counter snap \<rparr> else mw_heap m ! i)"
    using Cons.prems(3) other i by (auto simp: m1_def upd_key_nth split: option.split)
  then show ?case
    unfolding step using Cons.IH [OF wf(1) ok1 i1] wf(2) by (auto simp: row split: option.split)
qed (simp add: LoadFromStore_def)

text \<open>
  Usage survives a restart: when the counters are saved and loaded again into the table of a new process,
  a key with the same name shows the same request and token counts for the rest of the day of the
  snapshot, and the same monthly counts for the rest of its month.  (Calendar days begin on whole
  seconds, which is all the store keeps.)
\<close>

lemma counters_survive_restart:
  assumes "IsEnabled cfg" "validate_auth cfg = None" "(auth_step lib digest)\<^sup>*\<^sup>* (NewMiddleware digest start cfg) m"
    and "IsEnabled cfg'" "validate_auth cfg' = None" and "\<And>u. tl_date lib (u div second * second) = tl_date lib u"
    and "gm_wf rows" and "by_key_name m n = Some ks" and "by_key_name (NewMiddleware digest boot cfg') n = Some fresh"
  shows "\<exists>ks'. by_key_name (LoadFromStore (fst (SaveToStore lib now rows m)) (NewMiddleware digest boot cfg')) n = Some ks'
     \<and> policy_of ks' = policy_of fresh
     \<and> (tl_date lib t = tl_date lib now \<longrightarrow> stats lib t (ks_counter ks') = stats lib t (ks_counter ks))
     \<and> (year_of lib t = year_of lib now \<and> month_of lib t = month_of lib now \<longrightarrow>
          snd (stats lib t (ks_counter ks')) = snd (stats lib t (ks_counter ks)))"
proof -
  have ok: "table_ok digest m" by (rule reachable_table_ok [OF assms(1-3)])
  have ok': "table_ok digest (NewMiddleware digest boot cfg')"
    using NewMiddleware_table_ok validate_auth_distinct [OF assms(4,5)] by blast
  obtain i where i: "gm_get (mw_byName m) n = Some i" "ks = mw_heap m ! i"
    using assms(8) by (auto simp: by_key_name_Some)
  obtain j where j: "gm_get (mw_byName (NewMiddleware digest boot cfg')) n = Some j"
    "fresh = mw_heap (NewMiddleware digest boot cfg') ! j"
    using assms(9) by (auto simp: by_key_name_Some)
  have wf: "distinct (map fst (mw_byName m))"
    using table_ok_audit(3) [OF ok] by (simp add: gm_wf_def)
  have "\<forall>(name, i) \<in> set (mw_byName m). i < length (mw_heap m) \<and> ks_name (mw_heap m ! i) = name"
    using table_okD(4,5) [OF ok] map_of_is_SomeI [OF wf] by fastforce
  from save_loop_rows [OF this wf, of lib now rows n]
  have row: "gm_get (fst (SaveToStore lib now rows m)) n = Some (stored_counter lib now (ks_counter ks))"
    by (simp add: SaveToStore_def i)
  have rows: "gm_wf (fst (SaveToStore lib now rows m))"
    by (simp add: SaveToStore_def save_loop_wf assms(7))
  from LoadFromStore_counter [OF rows ok' j(1)] row j(2)
  have "by_key_name (LoadFromStore (fst (SaveToStore lib now rows m)) (NewMiddleware digest boot cfg')) n
      = Some (fresh\<lparr> ks_counter := restore_counter (stored_counter lib now (ks_counter ks)) \<rparr>)"
    by (simp add: by_key_name_def)
  moreover have "stats lib t (restore_counter (stored_counter lib now c)) = stats lib t c" if "tl_date lib t = tl_date lib now" for c
    using that by (auto simp: stats_def restore_counter_def stored_counter_def export_counter_def resetLocked_def Let_def assms(6))
  moreover have "snd (stats lib t (restore_counter (stored_counter lib now c))) = snd (stats lib t c)"
    if "year_of lib t = year_of lib now \<and> month_of lib t = month_of lib now" for c
    using that by (auto simp: stats_def restore_counter_def stored_counter_def export_counter_def resetLocked_def Let_def assms(6))
  ultimately show ?thesis
    by (simp add: policy_of_def)
qed

section \<open>Examples\<close>

text \<open>A calendar of equal days in one month, and a table with one key.\<close>

definition demo_time :: time_lib where
  "demo_time =
     \<lparr> tl_date = (\<lambda>t. (1970, 1, t div (86400 * second))), tl_next_day = (\<lambda>t. t + 86400 * second),
       tl_next_midnight = (\<lambda>t. (t div (86400 * second) + 1) * (86400 * second)), tl_next_month = (\<lambda>t. t),
       tl_parse_date = (\<lambda>_. None), tl_parse_minute = (\<lambda>_. None), tl_parse_rfc3339 = (\<lambda>_. None) \<rparr>"

definition demo_key :: key_config where
  "demo_key =
     \<lparr> kf_Name = ''k'', kf_Key = ''t'', kf_RateLimit = 0, kf_Models = [''m''], kf_ExpiresAt = [], kf_DailyLimit = 1,
       kf_MonthlyLimit = 0, kf_DailyUsdCap = 0, kf_MonthlyUsdCap = 0, kf_LocalOnly = False, kf_AllowLocalDegradation = False \<rparr>"

definition demo_auth :: auth_config where
  "demo_auth = \<lparr> ac_Enabled = None, ac_Keys = [demo_key] \<rparr>"

abbreviation demo_mw :: middleware where
  "demo_mw \<equiv> NewMiddleware id 0 demo_auth"

lemma demo_auth_ok: "IsEnabled demo_auth" "validate_auth demo_auth = None" "inj (id :: string \<Rightarrow> string)" "mw_enabled demo_mw"
  by (simp_all add: demo_auth_def IsEnabled_def validate_auth_def demo_key_def NewMiddleware_def)

lemma demo_mw_key: "by_key_name demo_mw ''k'' = Some (new_key 0 demo_key)"
  by (simp add: by_key_name_def NewMiddleware_def demo_auth_def demo_key_def)

lemma demo_key_simps: "ks_key (new_key 0 demo_key) = ''t''" "ks_dailyLimit (new_key 0 demo_key) = 1"
  "stats demo_time 5 (ks_counter (new_key 0 demo_key)) = (0, 0, 0)"
  by (simp_all add: new_key_def demo_key_def stats_def fresh_counter_def demo_time_def duration_defs)

lemma demo_bearer: "bearer_token ''Bearer t'' = Some ''t''"
  by code_simp

lemma demo_served: "\<exists>hs m'. Handler demo_time id 5 ''Bearer t'' demo_mw = (Served (Some ''k'') (Some [''m'']) hs, m')"
  by (simp add: Handler_def demo_bearer NewMiddleware_def demo_auth_def IsEnabled_def install_def ExpiryStatus_def
      new_key_def demo_key_def serve_key_def allow_def newTokenBucket_def snapshot_def incrementAndStats_def Let_def
      resetLocked_def fresh_counter_def demo_time_def duration_defs)

theorem key_table_invariant_witness:
  "distinct (mw_audit (RevokeKey id ''k'' demo_mw))
   \<and> (\<exists>ks \<in> set (mw_heap demo_mw). by_key_name demo_mw ''k'' = Some ks \<and> ks_name ks = ''k'')"
proof
  show "distinct (mw_audit (RevokeKey id ''k'' demo_mw))"
    using key_table_invariant [OF demo_auth_ok(1,2), of demo_time id 0 "RevokeKey id ''k'' demo_mw"]
      r_into_rtranclp [of "auth_step demo_time id", OF auth_step.revoke] by blast
  show "\<exists>ks \<in> set (mw_heap demo_mw). by_key_name demo_mw ''k'' = Some ks \<and> ks_name ks = ''k''"
    using key_table_invariant [OF demo_auth_ok(1,2) rtranclp.rtrancl_refl, of id] demo_mw_key by blast
qed

theorem served_only_with_live_key_witness:
  "\<exists>ks. by_key_name demo_mw ''k'' = Some ks \<and> ks_key ks = ''t'' \<and> fst (stats demo_time 5 (ks_counter ks)) < 1"
proof -
  obtain hs m' where h: "Handler demo_time id 5 ''Bearer t'' demo_mw = (Served (Some ''k'') (Some [''m'']) hs, m')"
    using demo_served by blast
  show ?thesis
    using served_only_with_live_key [OF demo_auth_ok(1,2) rtranclp.rtrancl_refl demo_auth_ok(3,4) h]
    by (auto simp: demo_bearer demo_mw_key demo_key_simps)
qed

theorem old_token_refused_witness:
  "fst (Handler demo_time id 9 ''Bearer t'' (RevokeKey id ''k'' demo_mw)) = Refused 401 ''invalid_api_key'' [WWW_Authenticate]"
  by (rule old_token_refused [OF demo_auth_ok(3,4) demo_mw_key disjI1 [OF refl]]) (simp only: demo_bearer demo_key_simps)

theorem quotas_enforced_witness:
  "served_for ''k'' (fst (handle_all demo_time id [(5, ''Bearer t''), (6, ''Bearer x''), (7, ''Bearer t'')] demo_mw)) \<le> 1"
proof -
  have "\<forall>(t, a) \<in> set [(5, ''Bearer t''), (6, ''Bearer x''), (7, ''Bearer t'')]. tl_date demo_time t = tl_date demo_time 5"
    by (simp add: demo_time_def duration_defs)
  then show ?thesis
    using quotas_enforced [OF demo_auth_ok(1,2) rtranclp.rtrancl_refl demo_auth_ok(4) demo_mw_key,
        where lib = demo_time and reqs = "[(5, ''Bearer t''), (6, ''Bearer x''), (7, ''Bearer t'')]" and T = 5]
    by (simp add: demo_key_simps)
qed

end
