(* ===== verification/Health.thy ===== *)
theory Health
  imports Eviction
begin

text \<open>
  Health polling (\<^verbatim>\<open>internal/router/health.go\<close>), the thermal watchdog
  (\<^verbatim>\<open>thermal.go\<close>) and the persisted residency map (\<^verbatim>\<open>warmstate.go\<close> with its statements
  in \<^verbatim>\<open>internal/store/sqlite.go\<close>).

  A poll is one step.  What the node answers, the local GPU readings and the addresses
  of the machine are part of the step's environment; a probe that panics is a probe that
  fails, since the deferred recovery does what the error branch does.
\<close>

section \<open>The persisted residency map\<close>

definition RecordWarmLoad :: "string \<Rightarrow> string \<Rightarrow> gotime \<Rightarrow> int \<Rightarrow> store_rows \<Rightarrow> store_rows" where
  "RecordWarmLoad model node used bytes st =
     st\<lparr> sr_warm := gm_put (model, node)
           (case gm_get (sr_warm st) (model, node) of
              None \<Rightarrow> \<lparr> wr_last_used = warmUsedToUnix used, wr_vram_bytes = bytes, wr_load_count = 1 \<rparr>
            | Some w \<Rightarrow> w\<lparr> wr_last_used := warmUsedToUnix used, wr_vram_bytes := bytes, wr_load_count := wr_load_count w + 1 \<rparr>)
           (sr_warm st) \<rparr>"

definition SnapshotWarmState :: "string \<Rightarrow> string \<Rightarrow> gotime \<Rightarrow> int \<Rightarrow> store_rows \<Rightarrow> store_rows" where
  "SnapshotWarmState model node used bytes st =
     st\<lparr> sr_warm := gm_put (model, node)
           (case gm_get (sr_warm st) (model, node) of
              None \<Rightarrow> \<lparr> wr_last_used = warmUsedToUnix used, wr_vram_bytes = bytes, wr_load_count = 0 \<rparr>
            | Some w \<Rightarrow> w\<lparr> wr_last_used := warmUsedToUnix used, wr_vram_bytes := bytes \<rparr>)
           (sr_warm st) \<rparr>"

definition ReconcileNodeWarmState :: "string \<Rightarrow> string list \<Rightarrow> store_rows \<Rightarrow> store_rows" where
  "ReconcileNodeWarmState node residentModels st =
     st\<lparr> sr_warm := gm_remove_if (\<lambda>(m, nd) w. nd = node \<and> m \<notin> set residentModels) (sr_warm st) \<rparr>"

definition upd_store :: "(store_rows \<Rightarrow> store_rows) \<Rightarrow> router \<Rightarrow> router" where
  "upd_store f r = r\<lparr> r_store := map_option f (r_store r) \<rparr>"

definition persistResidencyDiff :: "string \<Rightarrow> model_info list \<Rightarrow> model_info list \<Rightarrow> router \<Rightarrow> router" where
  "persistResidencyDiff node prev current r =
     upd_store
       (\<lambda>st. fold (\<lambda>m st. st\<lparr> sr_warm := gm_del (mi_Name m, node) (sr_warm st) \<rparr>)
          (filter (\<lambda>m. mi_Name m \<notin> mi_Name ` set current) prev)
          (fold (\<lambda>m. RecordWarmLoad (mi_Name m) node (lastUsedAt r node (mi_Name m)) (mi_SizeVRAM m))
             (filter (\<lambda>m. mi_Name m \<notin> mi_Name ` set prev) current) st)) r"

definition reconcileNodeResidency :: "string \<Rightarrow> model_info list \<Rightarrow> router \<Rightarrow> router" where
  "reconcileNodeResidency node current r = upd_store (ReconcileNodeWarmState node (map mi_Name current)) r"

definition snapshot_models :: "router \<Rightarrow> node_state \<Rightarrow> store_rows \<Rightarrow> store_rows" where
  "snapshot_models r n =
     fold (\<lambda>m. SnapshotWarmState (mi_Name m) (ns_Name n) (lastUsedAt r (ns_Name n) (mi_Name m)) (mi_SizeVRAM m)) (ns_LoadedModels n)"

definition snapshotNode :: "node_state \<Rightarrow> router \<Rightarrow> router" where
  "snapshotNode n r = upd_store (snapshot_models r n) r"

definition FlushWarmState :: "router \<Rightarrow> router" where
  "FlushWarmState r = upd_store (fold (snapshot_models r) (r_nodes r)) r"

text \<open>The rows as they are read back, and the loop over them.\<close>

fun restore_warm_loop ::
  "((string \<times> string) \<times> warm_row) list \<Rightarrow> string list \<Rightarrow> (string, model_info list) gomap \<Rightarrow> nat \<Rightarrow> router
     \<Rightarrow> (nat \<times> (string, model_info list) gomap) \<times> router" where
  "restore_warm_loop [] known byNode k r = ((k, byNode), r)"
| "restore_warm_loop (((model, node), w) # ws) known byNode k r =
     (if node \<notin> set known then restore_warm_loop ws known byNode k r
      else
        let used = warmUnixToUsed (wr_last_used w);
            r1 = (if time_is_zero used then r else stampLastUsedLocked node model used [] r)
        in restore_warm_loop ws known
             (gm_put node (gm_at [] byNode node @
                [\<lparr> mi_Name = model, mi_SizeVRAM = wr_vram_bytes w, mi_Digest = [], mi_sizeAttributed = False \<rparr>]) byNode)
             (Suc k) r1)"

definition restore_models :: "(string, model_info list) gomap \<Rightarrow> node_state \<Rightarrow> node_state" where
  "restore_models byNode n =
     (case gm_get byNode (ns_Name n) of
        None \<Rightarrow> n
      | Some models \<Rightarrow> if ns_LoadedModels n = [] then n\<lparr> ns_LoadedModels := models \<rparr> else n)"

definition RestoreWarmState :: "router \<Rightarrow> nat \<times> router" where
  "RestoreWarmState r =
     (case r_store r of
        None \<Rightarrow> (0, r)
      | Some st \<Rightarrow>
          (case restore_warm_loop (sr_warm st) (map ns_Name (r_nodes r)) [] 0 r of
             ((k, byNode), r1) \<Rightarrow>
               (let r2 = fold (\<lambda>(node, models). undoIfNodeRemoved node forgetLastUsedForNode) byNode r1
                in (k, r2\<lparr> r_nodes := map (restore_models byNode) (r_nodes r2) \<rparr>))))"

section \<open>Readings of a poll\<close>

definition attributeSoleModelVRAM :: "node_state \<Rightarrow> node_state" where
  "attributeSoleModelVRAM n =
     (case ns_LoadedModels n of
        [m] \<Rightarrow>
          if ns_VRAMUsedMB n \<le> 0 \<or> mi_SizeVRAM m > 0 then n
          else n\<lparr> ns_LoadedModels := [m\<lparr> mi_SizeVRAM := ns_VRAMUsedMB n * 1024 * 1024, mi_sizeAttributed := True \<rparr>] \<rparr>
      | _ \<Rightarrow> n)"

record gpu_stats =
  gs_VRAMTotalMB :: int
  gs_VRAMUsedMB :: int
  gs_TempCelsius :: float64
  gs_PowerDrawW :: float64

record nvidia_cache =
  nv_cache :: "(int, gpu_stats) gomap"
  nv_at :: gotime

definition nvidiaStaleIntervals :: int where "nvidiaStaleIntervals = 3"

definition nvidiaCacheMaxAge :: "router \<Rightarrow> duration" where
  "nvidiaCacheMaxAge r =
     nvidiaStaleIntervals * (if r_nvidiaPollInterval r \<le> 0 then 30 * second else r_nvidiaPollInterval r)"

definition nvidiaReading :: "gotime \<Rightarrow> nvidia_cache \<Rightarrow> router \<Rightarrow> int \<Rightarrow> gpu_stats option" where
  "nvidiaReading now nv r idx =
     (if \<not> time_is_zero (nv_at nv) \<and> now - nv_at nv > nvidiaCacheMaxAge r then None else gm_get (nv_cache nv) idx)"

text \<open>\<open>local_ip\<close> says whether an address is one of the machine's interfaces.\<close>

definition isLocalNode :: "('a url_lib_scheme) \<Rightarrow> (go_ip \<Rightarrow> bool) \<Rightarrow> string \<Rightarrow> bool" where
  "isLocalNode lib local_ip rawURL =
     (case ul_Parse lib rawURL of
        None \<Rightarrow> False
      | Some u \<Rightarrow>
          if u_Hostname u \<in> {''localhost'', ''127.0.0.1'', ''::1'', ''0.0.0.0''} then True
          else case ul_ParseIP lib (before_char (CHR ''%'') (u_Hostname u)) of
            None \<Rightarrow> False | Some ip \<Rightarrow> local_ip ip)"

section \<open>The thermal watchdog\<close>

definition thermalBreachLimit :: "router \<Rightarrow> int" where
  "thermalBreachLimit r = max (tw_ConsecutiveBreaches (r_thermalWatchdog r)) 1"

definition watchdog_on :: "router \<Rightarrow> bool" where
  "watchdog_on r \<longleftrightarrow> tw_Enabled (r_thermalWatchdog r) \<and> tw_MaxTempCelsius (r_thermalWatchdog r) > 0"

definition SetNodeDrain :: "string \<Rightarrow> bool \<Rightarrow> string \<Rightarrow> int \<Rightarrow> store_rows \<Rightarrow> store_rows" where
  "SetNodeDrain name draining reason grace st = st\<lparr> sr_drains := gm_put name (draining, reason, grace) (sr_drains st) \<rparr>"

definition thermalDrain :: "string \<Rightarrow> router \<Rightarrow> router" where
  "thermalDrain nodeName r =
     (case DrainNode nodeName ''thermal'' 0 r of
        (False, r1) \<Rightarrow> r1
      | (True, r1) \<Rightarrow> upd_store (SetNodeDrain nodeName True ''thermal'' 0) r1)"

text \<open>One temperature reading: whether the node is to be drained, and the node.\<close>

definition thermal_reading :: "router \<Rightarrow> float64 \<Rightarrow> node_state \<Rightarrow> bool \<times> node_state" where
  "thermal_reading r temp n =
     (if \<not> watchdog_on r then (False, n)
      else if temp \<ge> tw_MaxTempCelsius (r_thermalWatchdog r) then
        let n1 = n\<lparr> ns_ThermalBreaches := ns_ThermalBreaches n + 1 \<rparr>
        in (ns_ThermalBreaches n1 \<ge> thermalBreachLimit r \<and> \<not> ns_Draining n1, n1)
      else (False, n\<lparr> ns_ThermalBreaches := 0 \<rparr>))"

definition scopedThermalReadingLocked :: "node_state \<Rightarrow> gpu_info list \<Rightarrow> (float64 \<times> int) option \<times> bool" where
  "scopedThermalReadingLocked n devices =
     (case scopeGPUsForPlacement devices (effectiveGPUIndicesLocked n) of
        (scoped, scopeApplied) \<Rightarrow>
          (pick_best (\<lambda>x y. fst x > fst y)
             (List.map_filter (\<lambda>d. map_option (\<lambda>t. (t, gi_Index d)) (gi_TemperatureC d)) scoped), scopeApplied))"

text \<open>The agent's readings: whether the node is to be drained, and the node.\<close>

definition trackAgentThermalLocked :: "router \<Rightarrow> gpu_info list \<Rightarrow> node_state \<Rightarrow> bool \<times> node_state" where
  "trackAgentThermalLocked r devices n =
     (if ns_VRAMSource n = ''nvidia'' \<or> \<not> watchdog_on r then (False, n)
      else case fst (scopedThermalReadingLocked n devices) of
        None \<Rightarrow> (False, n\<lparr> ns_ThermalBreaches := 0 \<rparr>)
      | Some (temp, device) \<Rightarrow> thermal_reading r temp n)"

section \<open>Polling\<close>

record probe_result =
  pr_LoadedModels :: "(string \<times> int \<times> string) list"
  pr_VRAMUsedMB :: int

datatype probe_error = HealthStatusError int | ProbeFailed

record poll_env =
  pe_lib :: url_lib
  pe_local_ip :: "go_ip \<Rightarrow> bool"
  pe_nvidia :: nvidia_cache
  pe_detect :: "string \<Rightarrow> string \<times> bool"
  pe_probe :: "string \<Rightarrow> string \<Rightarrow> probe_error + probe_result"

definition healthHistoryCap :: nat where "healthHistoryCap = 60"

interpretation health_hist: capped_history "push_capped healthHistoryCap" healthHistoryCap
  by unfold_locales (rule push_capped_last_n)

definition fail_node :: "router \<Rightarrow> node_state \<Rightarrow> node_state" where
  "fail_node r n =
     n\<lparr> ns_Failures := ns_Failures n + 1, ns_ConsecutiveSuccesses := 0,
        ns_Healthy := ns_Healthy n \<and> \<not> ns_Failures n + 1 \<ge> r_healthFailureThreshold r,
        ns_HealthHistory := push_capped healthHistoryCap 0 (ns_HealthHistory n) \<rparr>"

definition markFailure :: "string \<Rightarrow> router \<Rightarrow> router" where
  "markFailure name r =
     (case FindNode r name of
        None \<Rightarrow> r
      | Some n \<Rightarrow>
          (let r1 = upd_node name (fail_node r) r;
               becameUnhealthy = (ns_Failures n + 1 \<ge> r_healthFailureThreshold r \<and> ns_Healthy n)
           in if \<not> becameUnhealthy then r1
              else
                let r2 = snapshotNode (fail_node r n) r1 in
                if nodeExists r2 name
                then fireWebhook ''node_down'' name (ns_URL n) (r2\<lparr> r_prevHealthy := gm_put name False (r_prevHealthy r2) \<rparr>)
                else r2))"

text \<open>The readings of a node without a local GPU reading.\<close>

definition no_gpu_reading :: "int \<Rightarrow> node_state \<Rightarrow> node_state" where
  "no_gpu_reading psUsedMB n =
     (let n1 = (if \<not> ns_AgentPresent n then n\<lparr> ns_PowerDrawW := 0, ns_Temperature := None \<rparr> else n);
          n2 = (if psUsedMB > 0 then n1\<lparr> ns_VRAMUsedMB := psUsedMB \<rparr>
                else if ns_VRAMSource n1 \<noteq> ''agent'' then n1\<lparr> ns_VRAMUsedMB := 0 \<rparr> else n1)
      in if ns_VRAMSource n2 \<noteq> ''agent'' then
           if ns_VRAMTotalMBConfig n2 > 0
           then n2\<lparr> ns_VRAMTotalMB := ns_VRAMTotalMBConfig n2, ns_VRAMSource := ''declared'' \<rparr>
           else n2\<lparr> ns_VRAMTotalMB := 0, ns_VRAMSource := (if psUsedMB > 0 then ''api'' else ''none'') \<rparr>
         else n2)"

definition succeed_node :: "router \<Rightarrow> node_state \<Rightarrow> node_state" where
  "succeed_node r n =
     (let n1 = n\<lparr> ns_Failures := 0 \<rparr> in
      if \<not> ns_Healthy n1 then
        let s = ns_ConsecutiveSuccesses n1 + 1
        in n1\<lparr> ns_ConsecutiveSuccesses := s, ns_Healthy := s \<ge> r_healthSuccessThreshold r \<rparr>
      else n1)"

text \<open>The node after a successful probe, with the verdict of the thermal watchdog.\<close>

definition polled_node ::
  "router \<Rightarrow> gotime \<Rightarrow> model_info list \<Rightarrow> int \<Rightarrow> gpu_stats option \<Rightarrow> node_state \<Rightarrow> bool \<times> node_state" where
  "polled_node r now models psUsedMB gpu n =
     (let n1 = (succeed_node r (n\<lparr> ns_LoadedModels := models \<rparr>))\<lparr> ns_LastPollAt := now \<rparr> in
      case (case gpu of
              Some g \<Rightarrow> thermal_reading r (gs_TempCelsius g)
                (n1\<lparr> ns_VRAMTotalMB := gs_VRAMTotalMB g, ns_VRAMUsedMB := gs_VRAMUsedMB g, ns_PowerDrawW := gs_PowerDrawW g,
                     ns_Temperature := Some (gs_TempCelsius g), ns_VRAMSource := ''nvidia'' \<rparr>)
            | None \<Rightarrow> (False, no_gpu_reading psUsedMB n1)) of
        (drain, n2) \<Rightarrow>
          (drain, (attributeSoleModelVRAM n2)
             \<lparr> ns_HealthHistory := push_capped healthHistoryCap 100 (ns_HealthHistory n2) \<rparr>))"

definition model_of_probe :: "string \<times> int \<times> string \<Rightarrow> model_info" where
  "model_of_probe = (\<lambda>(name, sz, digest). \<lparr> mi_Name = name, mi_SizeVRAM = sz, mi_Digest = digest, mi_sizeAttributed = False \<rparr>)"

definition record_residents :: "string \<Rightarrow> model_info list \<Rightarrow> router \<Rightarrow> router" where
  "record_residents name models r =
     (let recordSizes = nodeExists r name;
          r1 = fold (\<lambda>m r. clearWarmReservation name (mi_Name m)
                  (if recordSizes \<and> \<not> mi_sizeAttributed m then putLastKnownVRAM name (mi_Name m) (mi_SizeVRAM m) r else r)) models r
      in if recordSizes then undoIfNodeRemoved name forgetLastKnownForNode r1 else r1)"

definition note_up :: "string \<Rightarrow> string \<Rightarrow> bool \<Rightarrow> router \<Rightarrow> router" where
  "note_up name url nowHealthy r =
     (if \<not> nowHealthy \<or> \<not> nodeExists r name then r
      else case gm_get (r_prevHealthy r) name of
        None \<Rightarrow> r\<lparr> r_prevHealthy := gm_put name True (r_prevHealthy r) \<rparr>
      | Some prev \<Rightarrow>
          if \<not> prev then fireWebhook ''node_up'' name url (r\<lparr> r_prevHealthy := gm_put name True (r_prevHealthy r) \<rparr>)
          else r)"

definition poll_success :: "poll_env \<Rightarrow> gotime \<Rightarrow> string \<Rightarrow> string \<Rightarrow> int \<Rightarrow> probe_result \<Rightarrow> router \<Rightarrow> router" where
  "poll_success env now name url nvidiaIndex res r =
     (let r1 = upd_node name (\<lambda>n. n\<lparr> ns_RuntimeMismatchHint := [] \<rparr>) r;
          models = map model_of_probe (pr_LoadedModels res);
          r2 = fold (\<lambda>m. recordModelDigest (mi_Name m) (mi_Digest m)) models r1;
          gpu = (if isLocalNode (pe_lib env) (pe_local_ip env) url then nvidiaReading now (pe_nvidia env) r2 nvidiaIndex else None)
      in case FindNode r2 name of
           None \<Rightarrow> r2
         | Some n \<Rightarrow>
             (case polled_node r2 now models (pr_VRAMUsedMB res) gpu n of
                (drain, n1) \<Rightarrow>
                  (let r3 = upd_node name (\<lambda>_. n1) r2;
                       r4 = record_residents name (ns_LoadedModels n1) r3;
                       r5 = (if drain then thermalDrain name r4 else r4);
                       r6 = reconcileNodeResidency name (ns_LoadedModels n1)
                              (persistResidencyDiff name (ns_LoadedModels n) (ns_LoadedModels n1) r5)
                   in note_up name url (ns_Healthy n1) r6)))"

definition llamacpp404Hint :: string where
  "llamacpp404Hint = ''currently running as llamacpp, but /health returned 404 (no such route) - this is the exact signature of an MLX (mlx_lm.server) node, which cannot be auto-detected and must be set manually via runtime: mlx (a 404 here could also mean a llama.cpp build without /health, or a broken reverse proxy)''"

definition hint_mismatch :: "probe_error \<Rightarrow> node_state \<Rightarrow> node_state" where
  "hint_mismatch err n =
     (if ns_Runtime n = ''llamacpp'' \<and> err = HealthStatusError 404 then n\<lparr> ns_RuntimeMismatchHint := llamacpp404Hint \<rparr> else n)"

definition resolve_runtime :: "string \<Rightarrow> node_state \<Rightarrow> node_state" where
  "resolve_runtime detected n = n\<lparr> ns_Runtime := detected, ns_probe := Some detected, ns_autoDetect := False \<rparr>"

definition pollNode :: "poll_env \<Rightarrow> gotime \<Rightarrow> string \<Rightarrow> router \<Rightarrow> router" where
  "pollNode env now name r =
     (case FindNode r name of
        None \<Rightarrow> r
      | Some n \<Rightarrow>
          (let needsDetect = (ns_autoDetect n \<and> ns_Runtime n = ''auto'') in
           case pe_detect env (ns_URL n) of (detected, reached) \<Rightarrow>
             if needsDetect \<and> \<not> reached then markFailure name r
             else
               let r1 = (if needsDetect then upd_node name (resolve_runtime detected) r else r);
                   n1 = (if needsDetect then resolve_runtime detected n else n)
               in case ns_probe n1 of
                    None \<Rightarrow> markFailure name r1
                  | Some probe \<Rightarrow>
                      (case pe_probe env probe (ns_URL n) of
                         Inl err \<Rightarrow> markFailure name (upd_node name (hint_mismatch err) r1)
                       | Inr res \<Rightarrow> poll_success env now name (ns_URL n) (ns_NvidiaIndex n) res r1)))"

text \<open>The nodes are polled concurrently; \<open>order\<close> is the order in which their polls complete.\<close>

definition pollAll :: "poll_env \<Rightarrow> gotime \<Rightarrow> string list \<Rightarrow> router \<Rightarrow> router" where
  "pollAll env now order r =
     (let r1 = fold (pollNode env now) order r in reconcileModelDigests (r_nodes r1) r1)"

definition ProbeNodeOnDemand :: "poll_env \<Rightarrow> string \<Rightarrow> router \<Rightarrow> (probe_error option + unit) option" where
  "ProbeNodeOnDemand env name r =
     (case FindNode r name of
        None \<Rightarrow> None
      | Some n \<Rightarrow>
          (case ns_probe n of
             None \<Rightarrow> Some (Inl None)
           | Some probe \<Rightarrow> (case pe_probe env probe (ns_URL n) of Inl e \<Rightarrow> Some (Inl (Some e)) | Inr _ \<Rightarrow> Some (Inr ()))))"

definition discoverAndAddDockerNodes ::
  "('a url_lib_scheme) \<Rightarrow> gotime \<Rightarrow> bool \<Rightarrow> node_config list option \<Rightarrow> router \<Rightarrow> router" where
  "discoverAndAddDockerNodes lib now enabled found r =
     (if \<not> enabled then r
      else case found of
        None \<Rightarrow> r
      | Some cfgs \<Rightarrow>
          fold (\<lambda>c r. if gm_get (r_discoveredURLs r) (nc_URL c) \<noteq> None then r
                     else case AddNode lib now c r of
                       (added, r') \<Rightarrow>
                         if added then r'\<lparr> r_discoveredURLs := gm_put (nc_URL c) () (r_discoveredURLs r') \<rparr> else r') cfgs r)"

section \<open>What a poll leaves alone\<close>

definition quiet :: "router \<Rightarrow> node_state list \<times> int \<times> int \<times> (string, bool) gomap \<times> webhook_config \<times> (string \<times> string \<times> string) list" where
  "quiet r = (r_nodes r, r_healthFailureThreshold r, r_healthSuccessThreshold r, r_prevHealthy r, r_webhookCfg r, r_webhooks r)"

lemma quiet_upd_store [simp]: "quiet (upd_store f r) = quiet r"
  by (simp add: quiet_def upd_store_def)

lemma quiet_recordModelDigest [simp]: "quiet (recordModelDigest a d r) = quiet r"
  by (simp add: quiet_def recordModelDigest_def)

lemma quiet_residency [simp]:
  "quiet (persistResidencyDiff name prev cur r) = quiet r" "quiet (reconcileNodeResidency name cur r) = quiet r"
  "quiet (snapshotNode n r) = quiet r" "quiet (FlushWarmState r) = quiet r"
  by (simp_all add: persistResidencyDiff_def reconcileNodeResidency_def snapshotNode_def FlushWarmState_def)

lemma quiet_clear [simp]: "quiet (clearWarmReservation a m r) = quiet r"
  by (simp add: quiet_def clearWarmReservation_def set_reservations_def split: option.split)

lemma quiet_last_known [simp]: "quiet (set_last_known t r) = quiet r"
  by (simp add: quiet_def set_last_known_def)

lemma quiet_putLastKnown [simp]: "quiet (putLastKnownVRAM a m sz r) = quiet r"
  by (simp add: putLastKnownVRAM_def storeLastKnownLocked_def Let_def)

lemma quiet_fold: "(\<And>x r. quiet (f x r) = quiet r) \<Longrightarrow> quiet (fold f xs r) = quiet r"
  by (induction xs arbitrary: r) simp_all

lemma quiet_nodes: "quiet r' = quiet r \<Longrightarrow> r_nodes r' = r_nodes r"
  by (simp add: quiet_def)

lemma quiet_record_residents [simp]: "quiet (record_residents name models r) = quiet r"
  by (simp add: record_residents_def Let_def undoIfNodeRemoved_def forgetLastKnownForNode_def quiet_fold)

section \<open>One poll, seen from outside\<close>

text \<open>The counters that decide about health, and how an outcome moves them.\<close>

type_synonym hstate = "bool \<times> int \<times> int"

definition hstate :: "node_state \<Rightarrow> hstate" where
  "hstate n = (ns_Healthy n, ns_Failures n, ns_ConsecutiveSuccesses n)"

fun hstep :: "int \<Rightarrow> int \<Rightarrow> bool \<Rightarrow> hstate \<Rightarrow> hstate" where
  "hstep ft st True (h, f, s) = (if h then (True, 0, s) else (st \<le> s + 1, 0, s + 1))"
| "hstep ft st False (h, f, s) = (h \<and> \<not> ft \<le> f + 1, f + 1, 0)"

definition poll_ok :: "poll_env \<Rightarrow> node_state \<Rightarrow> bool" where
  "poll_ok env n =
     (let needsDetect = (ns_autoDetect n \<and> ns_Runtime n = ''auto'');
          (detected, reached) = pe_detect env (ns_URL n)
      in if needsDetect \<and> \<not> reached then False
         else case (if needsDetect then Some detected else ns_probe n) of
           None \<Rightarrow> False
         | Some probe \<Rightarrow> (case pe_probe env probe (ns_URL n) of Inl _ \<Rightarrow> False | Inr _ \<Rightarrow> True))"

text \<open>The health notifications sent about a node.\<close>

definition health_events :: "string \<Rightarrow> router \<Rightarrow> string list" where
  "health_events name r =
     map fst (filter (\<lambda>(e, nm, u). nm = name \<and> e \<in> {''node_up'', ''node_down''}) (r_webhooks r))"

definition hooks_on :: "router \<Rightarrow> bool" where
  "hooks_on r \<longleftrightarrow> wh_Enabled (r_webhookCfg r) \<and> wh_URL (r_webhookCfg r) \<noteq> []"

text \<open>The router watches the node: it knows its health, and notifications are sent.\<close>

definition watched :: "string \<Rightarrow> node_state \<Rightarrow> router \<Rightarrow> bool" where
  "watched name n r \<longleftrightarrow> FindNode r name = Some n \<and> gm_get (r_prevHealthy r) name = Some (ns_Healthy n) \<and> hooks_on r"

text \<open>What a poll does to the observable health of the node it polls.\<close>

definition polled :: "string \<Rightarrow> bool \<Rightarrow> node_state \<Rightarrow> router \<Rightarrow> router \<Rightarrow> bool" where
  "polled name ok n r r' \<longleftrightarrow>
     (\<exists>n'. watched name n' r'
        \<and> hstate n' = hstep (r_healthFailureThreshold r) (r_healthSuccessThreshold r) ok (hstate n)
        \<and> ns_HealthHistory n' = push_capped healthHistoryCap (if ok then 100 else 0) (ns_HealthHistory n)
        \<and> health_events name r' = health_events name r
            @ (if ns_Healthy n' = ns_Healthy n then [] else if ns_Healthy n' then [''node_up''] else [''node_down'']))
     \<and> r_healthFailureThreshold r' = r_healthFailureThreshold r \<and> r_healthSuccessThreshold r' = r_healthSuccessThreshold r"

lemma FindNode_quiet: "quiet r' = quiet r \<Longrightarrow> FindNode r' name = FindNode r name"
  by (simp add: quiet_def FindNode_def)

lemma health_events_fire [simp]:
  "health_events name (fireWebhook e nm u r) = health_events name r
     @ (if hooks_on r \<and> nm = name \<and> e \<in> {''node_up'', ''node_down''} then [e] else [])"
  by (simp add: health_events_def fireWebhook_def hooks_on_def)

lemma hooks_on_fire [simp]: "hooks_on (fireWebhook e nm u r) = hooks_on r"
  by (simp add: fireWebhook_def hooks_on_def)

lemma fire_fields [simp]:
  "r_prevHealthy (fireWebhook e nm u r) = r_prevHealthy r" "r_healthFailureThreshold (fireWebhook e nm u r) = r_healthFailureThreshold r"
  "r_healthSuccessThreshold (fireWebhook e nm u r) = r_healthSuccessThreshold r" "r_webhookCfg (fireWebhook e nm u r) = r_webhookCfg r"
  by (simp_all add: fireWebhook_def)

lemma upd_node_fields [simp]:
  "r_prevHealthy (upd_node nm f r) = r_prevHealthy r" "r_healthFailureThreshold (upd_node nm f r) = r_healthFailureThreshold r"
  "r_healthSuccessThreshold (upd_node nm f r) = r_healthSuccessThreshold r" "r_webhookCfg (upd_node nm f r) = r_webhookCfg r"
  "r_webhooks (upd_node nm f r) = r_webhooks r"
  by (simp_all add: upd_node_def)

lemma fail_node_name [simp]: "ns_Name (fail_node r n) = ns_Name n" "ns_Healthy (fail_node r n) \<longleftrightarrow> ns_Healthy n \<and> \<not> r_healthFailureThreshold r \<le> ns_Failures n + 1"
  "ns_HealthHistory (fail_node r n) = push_capped healthHistoryCap 0 (ns_HealthHistory n)"
  by (auto simp: fail_node_def)

lemma markFailure_polled:
  assumes "watched name n r"
  shows "polled name False n r (markFailure name r)"
proof -
  have n: "FindNode r name = Some n" "gm_get (r_prevHealthy r) name = Some (ns_Healthy n)" "hooks_on r"
    using assms by (simp_all add: watched_def)
  define r1 where "r1 = upd_node name (fail_node r) r"
  have r1: "FindNode r1 name = Some (fail_node r n)" using n(1) by (simp add: r1_def FindNode_upd_node)
  have h: "hstate (fail_node r n) = hstep (r_healthFailureThreshold r) (r_healthSuccessThreshold r) False (hstate n)"
    by (simp add: hstate_def fail_node_def)
  show ?thesis
  proof (cases "r_healthFailureThreshold r \<le> ns_Failures n + 1 \<and> ns_Healthy n")
    case False
    then have eq: "markFailure name r = r1" using n(1) by (simp add: markFailure_def r1_def Let_def)
    have "watched name (fail_node r n) r1" using r1 n False by (auto simp: watched_def r1_def hooks_on_def)
    then show ?thesis using h False unfolding polled_def eq
      by (intro conjI exI [of _ "fail_node r n"]) (auto simp: r1_def health_events_def)
  next
    case True
    define r2 where "r2 = snapshotNode (fail_node r n) r1"
    have q: "quiet r2 = quiet r1" by (simp add: r2_def)
    have r2: "FindNode r2 name = Some (fail_node r n)" using FindNode_quiet [OF q] r1 by simp
    then have ex: "nodeExists r2 name" by (simp add: nodeExists_FindNode)
    have eq: "markFailure name r = fireWebhook ''node_down'' name (ns_URL n) (r2\<lparr> r_prevHealthy := gm_put name False (r_prevHealthy r2) \<rparr>)"
      using True n(1) ex by (simp add: markFailure_def r1_def [symmetric] r2_def [symmetric] Let_def)
    let ?r3 = "r2\<lparr> r_prevHealthy := gm_put name False (r_prevHealthy r2) \<rparr>"
    have r3: "FindNode ?r3 name = Some (fail_node r n)" using r2 by (simp add: FindNode_def)
    have f: "hooks_on ?r3" "health_events name ?r3 = health_events name r" "r_healthFailureThreshold ?r3 = r_healthFailureThreshold r"
      "r_healthSuccessThreshold ?r3 = r_healthSuccessThreshold r"
      using q n(3) by (simp_all add: quiet_def r1_def hooks_on_def health_events_def)
    have w: "watched name (fail_node r n) (markFailure name r)"
      using r3 f(1) True unfolding eq watched_def by (simp add: gm_get_put)
    show ?thesis using w h True f unfolding polled_def eq
      by (intro conjI exI [of _ "fail_node r n"]) simp_all
  qed
qed

lemma thermal_reading_fields:
  assumes "thermal_reading r t n = (d, n')"
  shows "ns_Name n' = ns_Name n" "hstate n' = hstate n" "ns_HealthHistory n' = ns_HealthHistory n" "ns_LoadedModels n' = ns_LoadedModels n"
  using assms by (auto simp: thermal_reading_def hstate_def Let_def split: if_splits)

lemma no_gpu_reading_fields:
  "ns_Name (no_gpu_reading ps n) = ns_Name n" "hstate (no_gpu_reading ps n) = hstate n"
  "ns_HealthHistory (no_gpu_reading ps n) = ns_HealthHistory n" "ns_LoadedModels (no_gpu_reading ps n) = ns_LoadedModels n"
  by (simp_all add: no_gpu_reading_def hstate_def Let_def)

lemma attribute_fields [simp]:
  "ns_Name (attributeSoleModelVRAM n) = ns_Name n" "hstate (attributeSoleModelVRAM n) = hstate n"
  "ns_HealthHistory (attributeSoleModelVRAM n) = ns_HealthHistory n"
  "map mi_Name (ns_LoadedModels (attributeSoleModelVRAM n)) = map mi_Name (ns_LoadedModels n)"
  by (auto simp: attributeSoleModelVRAM_def hstate_def split: list.split)

lemma polled_node_fields:
  assumes "polled_node r now models ps gpu n = (drain, n')"
  shows "ns_Name n' = ns_Name n" "hstate n' = hstep (r_healthFailureThreshold r) (r_healthSuccessThreshold r) True (hstate n)"
    "ns_HealthHistory n' = push_capped healthHistoryCap 100 (ns_HealthHistory n)"
    "map mi_Name (ns_LoadedModels n') = map mi_Name models"
proof -
  let ?n1 = "(succeed_node r (n\<lparr> ns_LoadedModels := models \<rparr>))\<lparr> ns_LastPollAt := now \<rparr>"
  have n1: "ns_Name ?n1 = ns_Name n" "hstate ?n1 = hstep (r_healthFailureThreshold r) (r_healthSuccessThreshold r) True (hstate n)"
    "ns_HealthHistory ?n1 = ns_HealthHistory n" "ns_LoadedModels ?n1 = models"
    by (simp_all add: succeed_node_def hstate_def Let_def)
  have hist: "hstate (x\<lparr> ns_HealthHistory := y \<rparr>) = hstate x" for x y by (simp add: hstate_def)
  obtain n2 where n2: "ns_Name n2 = ns_Name n" "hstate n2 = hstate ?n1" "ns_HealthHistory n2 = ns_HealthHistory n" "ns_LoadedModels n2 = models"
    and n': "n' = (attributeSoleModelVRAM n2)\<lparr> ns_HealthHistory := push_capped healthHistoryCap 100 (ns_HealthHistory n2) \<rparr>"
  proof (cases gpu)
    case None
    then show thesis using assms n1 that [of "no_gpu_reading ps ?n1"] by (simp add: polled_node_def Let_def no_gpu_reading_fields)
  next
    case (Some g)
    let ?m = "?n1\<lparr> ns_VRAMTotalMB := gs_VRAMTotalMB g, ns_VRAMUsedMB := gs_VRAMUsedMB g, ns_PowerDrawW := gs_PowerDrawW g,
                     ns_Temperature := Some (gs_TempCelsius g), ns_VRAMSource := ''nvidia'' \<rparr>"
    obtain d n2 where t: "thermal_reading r (gs_TempCelsius g) ?m = (d, n2)" by (cases "thermal_reading r (gs_TempCelsius g) ?m")
    have "hstate ?m = hstate ?n1" by (simp add: hstate_def)
    then show thesis using assms n1 t thermal_reading_fields [OF t] Some that [of n2] unfolding polled_node_def Let_def by simp
  qed
  show "ns_Name n' = ns_Name n" "hstate n' = hstep (r_healthFailureThreshold r) (r_healthSuccessThreshold r) True (hstate n)"
    "ns_HealthHistory n' = push_capped healthHistoryCap 100 (ns_HealthHistory n)" "map mi_Name (ns_LoadedModels n') = map mi_Name models"
    using n2 n1(2) by (simp_all add: n' hist)
qed

text \<open>A thermal drain does not touch health.\<close>

lemma thermalDrain_health:
  assumes "FindNode r name = Some n"
  shows "\<exists>n'. FindNode (thermalDrain name r) name = Some n' \<and> hstate n' = hstate n \<and> ns_HealthHistory n' = ns_HealthHistory n
      \<and> ns_LoadedModels n' = ns_LoadedModels n"
    "health_events nm (thermalDrain name r) = health_events nm r" "hooks_on (thermalDrain name r) = hooks_on r"
    "r_prevHealthy (thermalDrain name r) = r_prevHealthy r"
    "r_healthFailureThreshold (thermalDrain name r) = r_healthFailureThreshold r"
    "r_healthSuccessThreshold (thermalDrain name r) = r_healthSuccessThreshold r"
    "map_option sr_warm (r_store (thermalDrain name r)) = map_option sr_warm (r_store r)"
    "map ns_Name (r_nodes (thermalDrain name r)) = map ns_Name (r_nodes r)"
proof -
  let ?r1 = "fireWebhook ''node_drain'' name (ns_URL n) (upd_node name (drain_node ''thermal'' 0) r)"
  have eq: "thermalDrain name r = upd_store (SetNodeDrain name True ''thermal'' 0) ?r1"
    using assms by (simp add: thermalDrain_def DrainNode_def)
  have nm: "ns_Name (drain_node a b x) = ns_Name x" for a b x by (simp add: drain_node_def)
  have "FindNode ?r1 name = Some (drain_node ''thermal'' 0 n)" using assms by (simp add: FindNode_upd_node nm)
  then show "\<exists>n'. FindNode (thermalDrain name r) name = Some n' \<and> hstate n' = hstate n \<and> ns_HealthHistory n' = ns_HealthHistory n
      \<and> ns_LoadedModels n' = ns_LoadedModels n"
    unfolding eq by (auto simp: hstate_def drain_node_def FindNode_quiet [OF quiet_upd_store])
  show "health_events nm (thermalDrain name r) = health_events nm r" "hooks_on (thermalDrain name r) = hooks_on r"
    "r_prevHealthy (thermalDrain name r) = r_prevHealthy r"
    "r_healthFailureThreshold (thermalDrain name r) = r_healthFailureThreshold r"
    "r_healthSuccessThreshold (thermalDrain name r) = r_healthSuccessThreshold r"
    "map_option sr_warm (r_store (thermalDrain name r)) = map_option sr_warm (r_store r)"
    unfolding eq
    by (simp_all add: upd_store_def fireWebhook_def health_events_def hooks_on_def upd_node_def SetNodeDrain_def option.map_comp comp_def)
  show "map ns_Name (r_nodes (thermalDrain name r)) = map ns_Name (r_nodes r)"
    unfolding eq using upd_node_names [of "drain_node ''thermal'' 0", OF nm] by (simp add: upd_store_def fireWebhook_def)
qed

lemma same_store [simp]:
  "r_store (recordModelDigest a d r) = r_store r" "r_store (clearWarmReservation a b r) = r_store r"
  "r_store (putLastKnownVRAM a b c r) = r_store r" "r_store (upd_node a f r) = r_store r" "r_store (fireWebhook e a u r) = r_store r"
  "r_store (note_up a u h r) = r_store r"
  by (simp_all add: recordModelDigest_def clearWarmReservation_def set_reservations_def putLastKnownVRAM_def storeLastKnownLocked_def
      set_last_known_def Let_def upd_node_def fireWebhook_def note_up_def split: option.split)

lemma fold_store: "(\<And>x r. r_store (f x r) = r_store r) \<Longrightarrow> r_store (fold f xs r) = r_store r"
  by (induction xs arbitrary: r) simp_all

lemma record_residents_store [simp]: "r_store (record_residents name models r) = r_store r"
  by (simp add: record_residents_def Let_def undoIfNodeRemoved_def forgetLastKnownForNode_def set_last_known_def fold_store)

text \<open>
  A successful poll in two parts: the state \<open>r5\<close> with the node's new readings, and the residency rows and the
  notification that follow.
\<close>

lemma poll_success_shape:
  assumes "FindNode r name = Some n"
  obtains n1 r5 prev where
    "poll_success env now name url idx res r = note_up name url (ns_Healthy n1)
       (reconcileNodeResidency name (ns_LoadedModels n1) (persistResidencyDiff name prev (ns_LoadedModels n1) r5))"
    "FindNode r5 name = Some n1" "hstate n1 = hstep (r_healthFailureThreshold r) (r_healthSuccessThreshold r) True (hstate n)"
    "ns_HealthHistory n1 = push_capped healthHistoryCap 100 (ns_HealthHistory n)"
    "map mi_Name (ns_LoadedModels n1) = map fst (pr_LoadedModels res)"
    "r_prevHealthy r5 = r_prevHealthy r" "hooks_on r5 = hooks_on r" "health_events name r5 = health_events name r"
    "r_healthFailureThreshold r5 = r_healthFailureThreshold r" "r_healthSuccessThreshold r5 = r_healthSuccessThreshold r"
    "map_option sr_warm (r_store r5) = map_option sr_warm (r_store r)" "map ns_Name (r_nodes r5) = map ns_Name (r_nodes r)"
proof -
  define m where "m = n\<lparr> ns_RuntimeMismatchHint := [] \<rparr>"
  have m: "ns_Name m = ns_Name n" "hstate m = hstate n" "ns_HealthHistory m = ns_HealthHistory n" by (simp_all add: m_def hstate_def)
  define r1 where "r1 = upd_node name (\<lambda>n. n\<lparr> ns_RuntimeMismatchHint := [] \<rparr>) r"
  define models where "models = map model_of_probe (pr_LoadedModels res)"
  define r2 where "r2 = fold (\<lambda>m. recordModelDigest (mi_Name m) (mi_Digest m)) models r1"
  define gpu where "gpu = (if isLocalNode (pe_lib env) (pe_local_ip env) url then nvidiaReading now (pe_nvidia env) r2 idx else None)"
  have q2: "quiet r2 = quiet r1" unfolding r2_def by (rule quiet_fold) simp
  have s2: "r_store r2 = r_store r" unfolding r2_def by (subst fold_store) (simp_all add: r1_def)
  have r2: "FindNode r2 name = Some m" using assms by (simp add: FindNode_quiet [OF q2] r1_def FindNode_upd_node m_def)
  have same2: "r_healthFailureThreshold r2 = r_healthFailureThreshold r" "r_healthSuccessThreshold r2 = r_healthSuccessThreshold r"
    "r_prevHealthy r2 = r_prevHealthy r" "r_webhookCfg r2 = r_webhookCfg r" "r_webhooks r2 = r_webhooks r"
    "map ns_Name (r_nodes r2) = map ns_Name (r_nodes r)"
    using q2 by (simp_all add: quiet_def r1_def)
  obtain drain n0 where pn: "polled_node r2 now models (pr_VRAMUsedMB res) gpu m = (drain, n0)" by (cases "polled_node r2 now models (pr_VRAMUsedMB res) gpu m")
  note n0 = polled_node_fields [OF pn]
  define r3 where "r3 = upd_node name (\<lambda>_. n0) r2"
  have nm: "ns_Name n0 = name" using n0(1) m(1) FindNode_Some [OF assms] by simp
  then have r3: "FindNode r3 name = Some n0"
    using r2 unfolding r3_def FindNode_def upd_node_def by (simp add: find_upd_first)
  have names3: "map ns_Name (r_nodes r3) = map ns_Name (r_nodes r)"
    using same2(6) nm by (simp add: r3_def upd_node_def map_upd_first)
  define r4 where "r4 = record_residents name (ns_LoadedModels n0) r3"
  have q4: "quiet r4 = quiet r3" by (simp add: r4_def)
  have r4: "FindNode r4 name = Some n0" "r_prevHealthy r4 = r_prevHealthy r" "hooks_on r4 = hooks_on r"
    "health_events name r4 = health_events name r" "r_healthFailureThreshold r4 = r_healthFailureThreshold r"
    "r_healthSuccessThreshold r4 = r_healthSuccessThreshold r" "r_store r4 = r_store r" "map ns_Name (r_nodes r4) = map ns_Name (r_nodes r)"
    using FindNode_quiet [OF q4, of name] q4 r3 same2 s2 names3 by (simp_all add: quiet_def r4_def r3_def hooks_on_def health_events_def)
  define r5 where "r5 = (if drain then thermalDrain name r4 else r4)"
  obtain n1 where n1: "FindNode r5 name = Some n1" "hstate n1 = hstate n0" "ns_HealthHistory n1 = ns_HealthHistory n0"
    "ns_LoadedModels n1 = ns_LoadedModels n0"
    using thermalDrain_health(1) [OF r4(1)] r4(1) by (cases drain) (auto simp: r5_def)
  have r5: "r_prevHealthy r5 = r_prevHealthy r" "hooks_on r5 = hooks_on r" "health_events name r5 = health_events name r"
    "r_healthFailureThreshold r5 = r_healthFailureThreshold r" "r_healthSuccessThreshold r5 = r_healthSuccessThreshold r"
    "map_option sr_warm (r_store r5) = map_option sr_warm (r_store r)" "map ns_Name (r_nodes r5) = map ns_Name (r_nodes r)"
    using thermalDrain_health [OF r4(1)] r4 by (simp_all add: r5_def)
  have hh: "ns_Healthy n1 = ns_Healthy n0" using n1(2) by (simp add: hstate_def)
  have "poll_success env now name url idx res r = note_up name url (ns_Healthy n1)
       (reconcileNodeResidency name (ns_LoadedModels n1) (persistResidencyDiff name (ns_LoadedModels m) (ns_LoadedModels n1) r5))"
    unfolding poll_success_def Let_def r1_def [symmetric] models_def [symmetric] r2_def [symmetric] gpu_def [symmetric] r2
    by (simp add: pn r5_def r4_def r3_def n1(4) hh)
  moreover have "map mi_Name (ns_LoadedModels n1) = map fst (pr_LoadedModels res)"
    using n0(4) n1(4) by (simp add: models_def model_of_probe_def comp_def split_beta)
  ultimately show thesis using that n1(1-3) r5 n0 m same2 by simp
qed

lemma poll_success_polled:
  assumes "watched name n r"
  shows "polled name True n r (poll_success env now name url idx res r)"
proof -
  have n: "FindNode r name = Some n" "gm_get (r_prevHealthy r) name = Some (ns_Healthy n)" "hooks_on r"
    using assms by (simp_all add: watched_def)
  obtain n5 r5 prev where eq: "poll_success env now name url idx res r = note_up name url (ns_Healthy n5)
       (reconcileNodeResidency name (ns_LoadedModels n5) (persistResidencyDiff name prev (ns_LoadedModels n5) r5))"
    and r5: "FindNode r5 name = Some n5" "hstate n5 = hstep (r_healthFailureThreshold r) (r_healthSuccessThreshold r) True (hstate n)"
      "ns_HealthHistory n5 = push_capped healthHistoryCap 100 (ns_HealthHistory n)"
      "r_prevHealthy r5 = r_prevHealthy r" "hooks_on r5 = hooks_on r" "health_events name r5 = health_events name r"
      "r_healthFailureThreshold r5 = r_healthFailureThreshold r" "r_healthSuccessThreshold r5 = r_healthSuccessThreshold r"
    using poll_success_shape [OF n(1)] by metis
  define r6 where "r6 = reconcileNodeResidency name (ns_LoadedModels n5) (persistResidencyDiff name prev (ns_LoadedModels n5) r5)"
  have q6: "quiet r6 = quiet r5" by (simp add: r6_def)
  have r6: "FindNode r6 name = Some n5" "r_prevHealthy r6 = r_prevHealthy r" "hooks_on r6" "health_events name r6 = health_events name r"
    "r_healthFailureThreshold r6 = r_healthFailureThreshold r" "r_healthSuccessThreshold r6 = r_healthSuccessThreshold r"
    using FindNode_quiet [OF q6, of name] q6 r5 n(3) by (simp_all add: quiet_def hooks_on_def health_events_def)
  have keep: "ns_Healthy n \<longrightarrow> ns_Healthy n5" using r5(2) by (auto simp: hstate_def split: if_splits)
  have ex: "nodeExists r6 name" using r6(1) by (simp add: nodeExists_FindNode)
  have find_put: "FindNode (x\<lparr> r_prevHealthy := y \<rparr>) nm = FindNode x nm" "hooks_on (x\<lparr> r_prevHealthy := y \<rparr>) = hooks_on x"
    "health_events nm (x\<lparr> r_prevHealthy := y \<rparr>) = health_events nm x" for x y nm
    by (simp_all add: FindNode_def hooks_on_def health_events_def)
  consider "ns_Healthy n5 = ns_Healthy n" | "ns_Healthy n5" "\<not> ns_Healthy n" using keep by blast
  then show ?thesis
  proof cases
    case 1
    then have e: "poll_success env now name url idx res r = r6"
      unfolding eq r6_def [symmetric] using n(2) r6(2) by (simp add: note_up_def)
    show ?thesis unfolding polled_def e using 1 r5(2,3) r6 n
      by (intro conjI exI [of _ n5]) (simp_all add: watched_def)
  next
    case 2
    then have e: "poll_success env now name url idx res r = fireWebhook ''node_up'' name url (r6\<lparr> r_prevHealthy := gm_put name True (r_prevHealthy r6) \<rparr>)"
      unfolding eq r6_def [symmetric] using n(2) r6(2) ex by (simp add: note_up_def)
    show ?thesis unfolding polled_def e using 2 r5(2,3) r6 n
      by (intro conjI exI [of _ n5]) (simp_all add: watched_def find_put gm_get_put)
  qed
qed

lemma watched_upd:
  assumes "watched name n r" "\<And>x. ns_Name (f x) = ns_Name x" "ns_Healthy (f n) = ns_Healthy n"
  shows "watched name (f n) (upd_node name f r)"
  using assms by (simp add: watched_def FindNode_upd_node hooks_on_def)

lemma polled_upd:
  assumes "polled name ok (f n) (upd_node name f r) r'" "hstate (f n) = hstate n" "ns_HealthHistory (f n) = ns_HealthHistory n"
  shows "polled name ok n r r'"
  using assms by (simp add: polled_def health_events_def hstate_def)

lemma hint_fields: "ns_Name (hint_mismatch err n) = ns_Name n" "hstate (hint_mismatch err n) = hstate n"
  "ns_HealthHistory (hint_mismatch err n) = ns_HealthHistory n" "ns_Healthy (hint_mismatch err n) = ns_Healthy n"
  by (simp_all add: hint_mismatch_def hstate_def)

lemma resolve_fields: "ns_Name (resolve_runtime d n) = ns_Name n" "hstate (resolve_runtime d n) = hstate n"
  "ns_HealthHistory (resolve_runtime d n) = ns_HealthHistory n" "ns_Healthy (resolve_runtime d n) = ns_Healthy n"
  by (simp_all add: resolve_runtime_def hstate_def)

text \<open>The probe of a node whose runtime is known.\<close>

lemma probe_polled:
  assumes "watched name n r"
  shows "polled name (case ns_probe n of None \<Rightarrow> False | Some p \<Rightarrow> (case pe_probe env p url of Inl _ \<Rightarrow> False | Inr _ \<Rightarrow> True)) n r
    (case ns_probe n of
       None \<Rightarrow> markFailure name r
     | Some p \<Rightarrow> (case pe_probe env p url of
         Inl err \<Rightarrow> markFailure name (upd_node name (hint_mismatch err) r)
       | Inr res \<Rightarrow> poll_success env now name url idx res r))"
proof (cases "ns_probe n")
  case None
  then show ?thesis using markFailure_polled [OF assms] by simp
next
  case (Some p)
  show ?thesis
  proof (cases "pe_probe env p url")
    case (Inl err)
    have "watched name (hint_mismatch err n) (upd_node name (hint_mismatch err) r)"
      by (rule watched_upd [OF assms]) (simp_all add: hint_fields)
    then show ?thesis
      using polled_upd [OF markFailure_polled] hint_fields Some Inl by simp
  next
    case (Inr res)
    then show ?thesis using poll_success_polled [OF assms] Some by simp
  qed
qed

lemma pollNode_polled:
  assumes "watched name n r"
  shows "polled name (poll_ok env n) n r (pollNode env now name r)"
proof -
  have n: "FindNode r name = Some n" using assms by (simp add: watched_def)
  obtain d reached where det: "pe_detect env (ns_URL n) = (d, reached)" by (cases "pe_detect env (ns_URL n)")
  consider "ns_autoDetect n \<and> ns_Runtime n = ''auto''" "\<not> reached" | "ns_autoDetect n \<and> ns_Runtime n = ''auto''" reached
    | "\<not> (ns_autoDetect n \<and> ns_Runtime n = ''auto'')" by blast
  then show ?thesis
  proof cases
    case 1
    then show ?thesis using markFailure_polled [OF assms] n det by (simp add: pollNode_def poll_ok_def Let_def)
  next
    case 2
    let ?f = "resolve_runtime d"
    have w: "watched name (?f n) (upd_node name ?f r)" by (rule watched_upd [OF assms]) (simp_all add: resolve_fields)
    have eq: "pollNode env now name r =
      (case ns_probe (?f n) of
         None \<Rightarrow> markFailure name (upd_node name ?f r)
       | Some p \<Rightarrow> (case pe_probe env p (ns_URL n) of
           Inl err \<Rightarrow> markFailure name (upd_node name (hint_mismatch err) (upd_node name ?f r))
         | Inr res \<Rightarrow> poll_success env now name (ns_URL n) (ns_NvidiaIndex n) res (upd_node name ?f r)))"
      using 2 n det unfolding pollNode_def Let_def by simp
    have ok: "poll_ok env n = (case ns_probe (?f n) of None \<Rightarrow> False | Some p \<Rightarrow> (case pe_probe env p (ns_URL n) of Inl _ \<Rightarrow> False | Inr _ \<Rightarrow> True))"
      using 2 det by (simp add: poll_ok_def resolve_runtime_def Let_def)
    show ?thesis unfolding eq ok by (rule polled_upd [OF probe_polled [OF w]]) (simp_all add: resolve_fields)
  next
    case 3
    then have nd: "(ns_autoDetect n \<and> ns_Runtime n = ''auto'') = False" by blast
    have eq: "pollNode env now name r =
      (case ns_probe n of
         None \<Rightarrow> markFailure name r
       | Some p \<Rightarrow> (case pe_probe env p (ns_URL n) of
           Inl err \<Rightarrow> markFailure name (upd_node name (hint_mismatch err) r)
         | Inr res \<Rightarrow> poll_success env now name (ns_URL n) (ns_NvidiaIndex n) res r))"
      and ok: "poll_ok env n = (case ns_probe n of None \<Rightarrow> False | Some p \<Rightarrow> (case pe_probe env p (ns_URL n) of Inl _ \<Rightarrow> False | Inr _ \<Rightarrow> True))"
      unfolding pollNode_def poll_ok_def Let_def n det option.case prod.case nd by simp_all
    show ?thesis unfolding eq ok by (rule probe_polled [OF assms])
  qed
qed

section \<open>Hysteresis\<close>

text \<open>
  A node is down when some \<open>ft\<close> polls in a row failed and no \<open>st\<close> polls in a row have succeeded
  since.
\<close>

definition down :: "nat \<Rightarrow> nat \<Rightarrow> bool list \<Rightarrow> bool" where
  "down ft st os \<longleftrightarrow> (\<exists>a b. os = a @ replicate ft False @ b \<and> (\<nexists>c d. b = c @ replicate st True @ d))"

text \<open>How many outcomes at the end are equal to \<open>v\<close>.\<close>

definition run_length :: "bool \<Rightarrow> bool list \<Rightarrow> nat" where
  "run_length v os = length (takeWhile (\<lambda>x. x = v) (rev os))"

lemma run_length_snoc [simp]: "run_length v (os @ [x]) = (if x = v then Suc (run_length v os) else 0)"
  by (simp add: run_length_def)

lemma run_length_Nil [simp]: "run_length v [] = 0"
  by (simp add: run_length_def)

lemma run_length_ge: "k \<le> run_length v os \<longleftrightarrow> (\<exists>a. os = a @ replicate k v)"
proof (induction k arbitrary: os)
  case (Suc k)
  show ?case
  proof (cases os rule: rev_cases)
    case (snoc ys x)
    have "(\<exists>a. ys @ [x] = a @ replicate (Suc k) v) \<longleftrightarrow> x = v \<and> (\<exists>a. ys = a @ replicate k v)"
      by (auto simp: replicate_append_same [symmetric] simp flip: append_assoc)
    then show ?thesis using Suc.IH [of ys] by (auto simp: snoc)
  qed simp
qed simp

lemma no_run_butlast: "\<nexists>c d. b @ [x] = c @ rs @ d \<Longrightarrow> \<nexists>c d. b = c @ rs @ d"
  by (metis append_assoc)

lemma down_Nil [simp]: "0 < ft \<Longrightarrow> \<not> down ft st []"
  by (simp add: down_def)

lemma down_fail:
  assumes "0 < ft" "0 < st"
  shows "down ft st (os @ [False]) \<longleftrightarrow> down ft st os \<or> ft \<le> Suc (run_length False os)"
proof
  assume "down ft st (os @ [False])"
  then obtain a b where ab: "os @ [False] = a @ replicate ft False @ b" "\<nexists>c d. b = c @ replicate st True @ d" by (auto simp: down_def)
  show "down ft st os \<or> ft \<le> Suc (run_length False os)"
  proof (cases b rule: rev_cases)
    case Nil
    then have "ft \<le> run_length False (os @ [False])" using ab(1) unfolding run_length_ge by auto
    then show ?thesis by simp
  next
    case (snoc b' x)
    then have "os = a @ replicate ft False @ b'" using ab(1) by simp
    moreover have "\<nexists>c d. b' = c @ replicate st True @ d" by (rule no_run_butlast) (use ab(2) snoc in simp)
    ultimately show ?thesis by (auto simp: down_def)
  qed
next
  assume "down ft st os \<or> ft \<le> Suc (run_length False os)"
  then show "down ft st (os @ [False])"
  proof
    assume "down ft st os"
    then obtain a b where ab: "os = a @ replicate ft False @ b" "\<nexists>c d. b = c @ replicate st True @ d" by (auto simp: down_def)
    have "\<nexists>c d. b @ [False] = c @ replicate st True @ d"
    proof clarify
      fix c d assume e: "b @ [False] = c @ replicate st True @ d"
      show False
      proof (cases d rule: rev_cases)
        case Nil
        then have "last (b @ [False]) = True" using e assms(2) by (simp add: last_append)
        then show ?thesis by simp
      next
        case (snoc d' x)
        then have "b = c @ replicate st True @ d'" using e by simp
        then show ?thesis using ab(2) by blast
      qed
    qed
    then show ?thesis using ab(1) by (auto simp: down_def)
  next
    assume "ft \<le> Suc (run_length False os)"
    then have "ft \<le> run_length False (os @ [False])" by simp
    then obtain a where "os @ [False] = a @ replicate ft False @ []" unfolding run_length_ge by auto
    then show ?thesis using assms(2) unfolding down_def by (intro exI conjI) auto
  qed
qed

lemma down_success:
  assumes "0 < ft" "0 < st"
  shows "down ft st (os @ [True]) \<longleftrightarrow> down ft st os \<and> Suc (run_length True os) < st"
proof
  assume "down ft st (os @ [True])"
  then obtain a b where ab: "os @ [True] = a @ replicate ft False @ b" "\<nexists>c d. b = c @ replicate st True @ d" by (auto simp: down_def)
  obtain b' where b: "b = b' @ [True]"
  proof (cases b rule: rev_cases)
    case Nil
    then have "last (os @ [True]) = False" using ab(1) assms(1) by (simp add: last_append)
    then show thesis by simp
  qed (use ab(1) that in auto)
  have os: "os = a @ replicate ft False @ b'" using ab(1) b by simp
  have b': "\<nexists>c d. b' = c @ replicate st True @ d" by (rule no_run_butlast) (use ab(2) b in simp)
  have "\<not> st \<le> run_length True (os @ [True])"
  proof
    assume "st \<le> run_length True (os @ [True])"
    then obtain c where c: "os @ [True] = c @ replicate st True" unfolding run_length_ge by auto
    have e: "(a @ replicate ft False) @ b = c @ replicate st True" using ab(1) c by simp
    then obtain us where "a @ replicate ft False = c @ us \<and> us @ b = replicate st True
        \<or> (a @ replicate ft False) @ us = c \<and> b = us @ replicate st True"
      using append_eq_append_conv2 [THEN iffD1, OF e] by (elim exE) (rule that)
    then show False
    proof
      assume u: "a @ replicate ft False = c @ us \<and> us @ b = replicate st True"
      show False
      proof (cases us rule: rev_cases)
        case Nil
        then show ?thesis using u ab(2) by (metis append_Nil append_Nil2)
      next
        case (snoc us' x)
        then have "x = False" using u assms(1) by (metis append_is_Nil_conv last_append last_replicate last_snoc less_numeral_extra(3) replicate_empty snoc_eq_iff_butlast)
        moreover have "x \<in> set (us @ b)" using snoc by simp
        ultimately show ?thesis using u by simp
      qed
    next
      assume "(a @ replicate ft False) @ us = c \<and> b = us @ replicate st True"
      then have "b = us @ replicate st True @ []" by simp
      then show False using ab(2) by blast
    qed
  qed
  then have "Suc (run_length True os) < st" by simp
  then show "down ft st os \<and> Suc (run_length True os) < st" using os b' unfolding down_def by blast
next
  assume asm: "down ft st os \<and> Suc (run_length True os) < st"
  then obtain a b where ab: "os = a @ replicate ft False @ b" "\<nexists>c d. b = c @ replicate st True @ d"
    unfolding down_def by blast
  have short: "\<not> st \<le> run_length True (os @ [True])" using asm by simp
  have "\<nexists>c d. b @ [True] = c @ replicate st True @ d"
  proof clarify
    fix c d assume e: "b @ [True] = c @ replicate st True @ d"
    show False
    proof (cases d rule: rev_cases)
      case Nil
      then have "os @ [True] = (a @ replicate ft False @ c) @ replicate st True" using e ab(1) by simp
      then show ?thesis using short unfolding run_length_ge by blast
    next
      case (snoc d' x)
      then have "b = c @ replicate st True @ d'" using e by simp
      then show ?thesis using ab(2) by blast
    qed
  qed
  then show "down ft st (os @ [True])" using ab(1) by (auto simp: down_def)
qed

text \<open>Polls of one node, with whether each of them succeeded.\<close>

fun poll_run :: "string \<Rightarrow> (poll_env \<times> gotime) list \<Rightarrow> router \<Rightarrow> bool list \<times> router" where
  "poll_run name [] r = ([], r)"
| "poll_run name ((env, now) # es) r =
     (case FindNode r name of
        None \<Rightarrow> ([], r)
      | Some n \<Rightarrow> (case poll_run name es (pollNode env now name r) of (os, r') \<Rightarrow> (poll_ok env n # os, r')))"

text \<open>The counters after the outcomes \<open>os\<close> on a fresh node.\<close>

definition health_inv :: "nat \<Rightarrow> nat \<Rightarrow> bool list \<Rightarrow> hstate \<Rightarrow> bool" where
  "health_inv ft st os hs \<longleftrightarrow>
     (case hs of (h, f, s) \<Rightarrow>
        f = int (run_length False os) \<and> (h \<longleftrightarrow> \<not> down ft st os) \<and> (\<not> h \<longrightarrow> s = int (run_length True os)))"

lemma hstep_inv:
  assumes "0 < ft" "0 < st" "health_inv ft st os hs"
  shows "health_inv ft st (os @ [ok]) (hstep (int ft) (int st) ok hs)"
proof -
  obtain h f s where hs: "hs = (h, f, s)" by (cases hs)
  have i: "f = int (run_length False os)" "h \<longleftrightarrow> \<not> down ft st os" "\<not> h \<longrightarrow> s = int (run_length True os)"
    using assms(3) by (simp_all add: health_inv_def hs)
  show ?thesis
  proof (cases ok)
    case True
    then show ?thesis using i down_success [OF assms(1,2), of os] by (cases h) (simp_all add: health_inv_def hs, linarith+)
  next
    case False
    then show ?thesis using i down_fail [OF assms(1,2), of os] by (auto simp: health_inv_def hs)
  qed
qed

text \<open>Notifications alternate, starting with the first change.\<close>

fun changes :: "bool \<Rightarrow> bool list \<Rightarrow> string list" where
  "changes h [] = []"
| "changes h (x # xs) = (if x = h then [] else if x then [''node_up''] else [''node_down'']) @ changes x xs"

lemma changes_append: "changes h (xs @ ys) = changes h xs @ changes (last (h # xs)) ys"
  by (induction xs arbitrary: h) auto

lemma poll_run_spec:
  assumes "watched name n r" "0 < ft" "0 < st" "r_healthFailureThreshold r = int ft" "r_healthSuccessThreshold r = int st"
    and "health_inv ft st pre (hstate n)" "length (ns_HealthHistory n) \<le> healthHistoryCap"
    and "poll_run name es r = (os, r')"
  shows "\<exists>n'. watched name n' r' \<and> health_inv ft st (pre @ os) (hstate n') \<and> length os = length es
    \<and> ns_HealthHistory n' = last_n healthHistoryCap (ns_HealthHistory n @ map (\<lambda>ok. if ok then 100 else 0) os)
    \<and> health_events name r' = health_events name r
        @ changes (\<not> down ft st pre) (map (\<lambda>k. \<not> down ft st (pre @ take k os)) [1..<Suc (length os)])"
  using assms
proof (induction es arbitrary: n r pre os)
  case Nil
  then show ?case by (auto simp: last_n_def)
next
  case (Cons e es)
  obtain env now where e: "e = (env, now)" by (cases e)
  have n: "FindNode r name = Some n" using Cons.prems(1) by (simp add: watched_def)
  define r1 where "r1 = pollNode env now name r"
  obtain os1 where run: "poll_run name es r1 = (os1, r')" "os = poll_ok env n # os1"
    using Cons.prems(8) n by (auto simp: e r1_def split: prod.splits)
  define ok where "ok = poll_ok env n"
  obtain n1 where n1: "watched name n1 r1" "hstate n1 = hstep (int ft) (int st) ok (hstate n)"
    "ns_HealthHistory n1 = push_capped healthHistoryCap (if ok then 100 else 0) (ns_HealthHistory n)"
    "health_events name r1 = health_events name r
        @ (if ns_Healthy n1 = ns_Healthy n then [] else if ns_Healthy n1 then [''node_up''] else [''node_down''])"
    and thr: "r_healthFailureThreshold r1 = int ft" "r_healthSuccessThreshold r1 = int st"
    using pollNode_polled [OF Cons.prems(1), of env now] Cons.prems(4,5) unfolding polled_def r1_def ok_def by auto
  have inv: "health_inv ft st (pre @ [ok]) (hstate n1)"
    using hstep_inv [OF Cons.prems(2,3,6), of ok] n1(2) by simp
  have len: "length (ns_HealthHistory n1) \<le> healthHistoryCap"
    using n1(3) health_hist.push_bounded [OF Cons.prems(7)] by simp
  obtain n' where n': "watched name n' r'" "health_inv ft st ((pre @ [ok]) @ os1) (hstate n')" "length os1 = length es"
    "ns_HealthHistory n' = last_n healthHistoryCap (ns_HealthHistory n1 @ map (\<lambda>ok. if ok then 100 else 0) os1)"
    "health_events name r' = health_events name r1
        @ changes (\<not> down ft st (pre @ [ok])) (map (\<lambda>k. \<not> down ft st ((pre @ [ok]) @ take k os1)) [1..<Suc (length os1)])"
    using Cons.IH [OF n1(1) Cons.prems(2,3) thr inv len run(1)] by blast
  have h: "ns_Healthy n \<longleftrightarrow> \<not> down ft st pre" "ns_Healthy n1 \<longleftrightarrow> \<not> down ft st (pre @ [ok])"
    using Cons.prems(6) inv by (simp_all add: health_inv_def hstate_def)
  have "map (\<lambda>k. \<not> down ft st (pre @ take k os)) [1..<Suc (length os)]
      = (\<not> down ft st (pre @ [ok])) # map (\<lambda>k. \<not> down ft st ((pre @ [ok]) @ take k os1)) [1..<Suc (length os1)]"
  proof -
    have "[1..<Suc (length os)] = 1 # map Suc [1..<Suc (length os1)]"
      by (simp add: run(2) map_Suc_upt upt_conv_Cons del: upt_Suc)
    then show ?thesis by (simp add: run(2) ok_def comp_def del: upt_Suc)
  qed
  then have ev: "health_events name r' = health_events name r
        @ changes (\<not> down ft st pre) (map (\<lambda>k. \<not> down ft st (pre @ take k os)) [1..<Suc (length os)])"
    using n'(5) n1(4) h by auto
  have "ns_HealthHistory n' = last_n healthHistoryCap (ns_HealthHistory n @ map (\<lambda>ok. if ok then 100 else 0) os)"
    using n'(4) n1(3) by (simp add: push_capped_last_n last_n_last_n_append run(2) ok_def)
  then show ?case using n'(1,2,3) ev run(2) by (intro exI [of _ n']) (simp add: ok_def)
qed

text \<open>
  C21. Health has the documented hysteresis.  Whatever a node answers to a sequence of polls, starting healthy, it is unhealthy
  afterwards exactly when some \<open>ft\<close> polls in a row failed and no \<open>st\<close> polls in a row have succeeded since;
  its history holds the last 60 outcomes; and the notifications sent are exactly the changes of health,
  so that they alternate between \<^verbatim>\<open>node_down\<close> and \<^verbatim>\<open>node_up\<close>.
\<close>

theorem health_hysteresis:
  assumes "watched name n r" "ns_Healthy n" "ns_Failures n = 0" "ns_HealthHistory n = []" "health_events name r = []"
    and "0 < ft" "0 < st" "r_healthFailureThreshold r = int ft" "r_healthSuccessThreshold r = int st"
    and "poll_run name es r = (os, r')"
  shows "\<exists>n'. FindNode r' name = Some n' \<and> (ns_Healthy n' \<longleftrightarrow> \<not> down ft st os)
    \<and> ns_HealthHistory n' = last_n 60 (map (\<lambda>ok. if ok then 100 else 0) os)
    \<and> health_events name r' = changes True (map (\<lambda>k. \<not> down ft st (take k os)) [1..<Suc (length es)])"
proof -
  have "health_inv ft st [] (hstate n)" using assms(2,3,6) by (simp add: health_inv_def hstate_def)
  from poll_run_spec [OF assms(1,6,7,8,9) this _ assms(10)] assms(4,5,6)
  show ?thesis by (auto simp: health_inv_def hstate_def watched_def healthHistoryCap_def)
qed

text \<open>A node that never answers, watched by a router that sends notifications.\<close>

definition demo_silent :: poll_env where
  "demo_silent = \<lparr> pe_lib = plain_lib, pe_local_ip = (\<lambda>_. False), pe_nvidia = \<lparr> nv_cache = [], nv_at = time_zero \<rparr>,
     pe_detect = (\<lambda>_. ([], False)), pe_probe = (\<lambda>_ _. Inl ProbeFailed) \<rparr>"

definition demo_watched :: router where
  "demo_watched = (demo_router [demo_config ''a'' ''u1''])\<lparr> r_webhookCfg := \<lparr> wh_Enabled = True, wh_URL = ''w'' \<rparr> \<rparr>"

lemma demo_watched_ok: "watched ''a'' (new_node plain_lib 0 (demo_config ''a'' ''u1'')) demo_watched"
  by (simp add: watched_def demo_watched_def FindNode_def hooks_on_def demo_router_def New_def Let_def new_node_def set_probe_def demo_config_def)

lemma demo_silent_run:
  "fst (poll_run ''a'' [(demo_silent, 1), (demo_silent, 2), (demo_silent, 3)] demo_watched) = [False, False, False]"
  by code_simp

theorem health_hysteresis_witness:
  "\<exists>n. FindNode (snd (poll_run ''a'' [(demo_silent, 1), (demo_silent, 2), (demo_silent, 3)] demo_watched)) ''a'' = Some n
     \<and> \<not> ns_Healthy n"
proof -
  let ?es = "[(demo_silent, 1), (demo_silent, 2), (demo_silent, 3)]"
  obtain r' where run: "poll_run ''a'' ?es demo_watched = ([False, False, False], r')"
    using demo_silent_run by (metis prod.collapse)
  have n: "ns_Healthy (new_node plain_lib 0 (demo_config ''a'' ''u1''))" "ns_Failures (new_node plain_lib 0 (demo_config ''a'' ''u1'')) = 0"
    "ns_HealthHistory (new_node plain_lib 0 (demo_config ''a'' ''u1'')) = []" "health_events ''a'' demo_watched = []"
    "r_healthFailureThreshold demo_watched = int 3" "r_healthSuccessThreshold demo_watched = int 2"
    by (simp_all add: new_node_def set_probe_def demo_config_def zero_node_def health_events_def demo_watched_def demo_router_def New_def
        Let_def or_default_def demo_routing_def)
  have "[False, False, False] = [] @ replicate 3 False @ []" by (simp add: numeral_3_eq_3)
  then have "down 3 2 [False, False, False]" unfolding down_def by (intro exI conjI) auto
  then show ?thesis
    using health_hysteresis [OF demo_watched_ok n(1-4) _ _ n(5,6) run] run by auto
qed

section \<open>Residency across a restart\<close>

definition rows_ok :: "router \<Rightarrow> bool" where
  "rows_ok r \<longleftrightarrow> (\<forall>st. r_store r = Some st \<longrightarrow> gm_wf (sr_warm st))"

text \<open>The persisted rows of a node belong to models it holds.\<close>

definition rows_resident :: "string \<Rightarrow> string set \<Rightarrow> router \<Rightarrow> bool" where
  "rows_resident name names r \<longleftrightarrow>
     (\<forall>st m w. r_store r = Some st \<longrightarrow> gm_get (sr_warm st) (m, name) = Some w \<longrightarrow> m \<in> names)"

lemma warm_write_wf:
  "gm_wf (sr_warm st) \<Longrightarrow> gm_wf (sr_warm (RecordWarmLoad m nd u b st))"
  "gm_wf (sr_warm st) \<Longrightarrow> gm_wf (sr_warm (SnapshotWarmState m nd u b st))"
  "gm_wf (sr_warm st) \<Longrightarrow> gm_wf (sr_warm (ReconcileNodeWarmState nd ms st))"
  by (simp_all add: RecordWarmLoad_def SnapshotWarmState_def ReconcileNodeWarmState_def)

lemma fold_wf: "(\<And>x st. gm_wf (sr_warm st) \<Longrightarrow> gm_wf (sr_warm (f x st))) \<Longrightarrow> gm_wf (sr_warm st) \<Longrightarrow> gm_wf (sr_warm (fold f xs st))"
  by (induction xs arbitrary: st) simp_all

lemma persist_rows_ok:
  assumes "rows_ok r"
  shows "rows_ok (persistResidencyDiff name prev cur r)"
  using assms by (auto simp: rows_ok_def persistResidencyDiff_def upd_store_def intro!: fold_wf warm_write_wf)

lemma reconcile_rows:
  assumes "rows_ok r"
  shows "rows_ok (reconcileNodeResidency name cur r)" "rows_resident name (mi_Name ` set cur) (reconcileNodeResidency name cur r)"
proof -
  show "rows_ok (reconcileNodeResidency name cur r)"
    using assms by (auto simp: rows_ok_def reconcileNodeResidency_def upd_store_def intro!: warm_write_wf)
  have "m \<in> mi_Name ` set cur"
    if "gm_wf (sr_warm st)" "gm_get (sr_warm (ReconcileNodeWarmState name (map mi_Name cur) st)) (m, name) = Some w" for st m w
    using that(2) by (auto simp: ReconcileNodeWarmState_def gm_get_remove_if [OF that(1)] split: option.splits if_splits)
  then show "rows_resident name (mi_Name ` set cur) (reconcileNodeResidency name cur r)"
    using assms by (auto simp: rows_resident_def rows_ok_def reconcileNodeResidency_def upd_store_def)
qed

text \<open>After a successful poll the persisted rows of the node are among the models it reported.\<close>

lemma poll_success_rows:
  assumes "FindNode r name = Some n" "rows_ok r" "r_store r \<noteq> None"
  obtains n1 where "FindNode (poll_success env now name url idx res r) name = Some n1"
    "map mi_Name (ns_LoadedModels n1) = map fst (pr_LoadedModels res)"
    "rows_ok (poll_success env now name url idx res r)"
    "rows_resident name (mi_Name ` set (ns_LoadedModels n1)) (poll_success env now name url idx res r)"
    "r_store (poll_success env now name url idx res r) \<noteq> None"
    "map ns_Name (r_nodes (poll_success env now name url idx res r)) = map ns_Name (r_nodes r)"
proof -
  obtain n1 r5 prev where eq: "poll_success env now name url idx res r = note_up name url (ns_Healthy n1)
       (reconcileNodeResidency name (ns_LoadedModels n1) (persistResidencyDiff name prev (ns_LoadedModels n1) r5))"
    and r5: "FindNode r5 name = Some n1" "map mi_Name (ns_LoadedModels n1) = map fst (pr_LoadedModels res)"
      "map_option sr_warm (r_store r5) = map_option sr_warm (r_store r)" "map ns_Name (r_nodes r5) = map ns_Name (r_nodes r)"
    using poll_success_shape [OF assms(1)] by metis
  define r6 where "r6 = reconcileNodeResidency name (ns_LoadedModels n1) (persistResidencyDiff name prev (ns_LoadedModels n1) r5)"
  have "rows_ok r5" using assms(2) r5(3) by (auto simp: rows_ok_def map_option_case split: option.splits)
  then have r6: "rows_ok r6" "rows_resident name (mi_Name ` set (ns_LoadedModels n1)) r6"
    unfolding r6_def using reconcile_rows [OF persist_rows_ok] by blast+
  have st: "r_store r6 \<noteq> None"
    using assms(3) r5(3) by (auto simp: r6_def reconcileNodeResidency_def persistResidencyDiff_def upd_store_def)
  have q: "quiet r6 = quiet r5" by (simp add: r6_def)
  have up: "r_nodes (note_up name url h x) = r_nodes x" "r_store (note_up name url h x) = r_store x" for h x
    by (simp_all add: note_up_def fireWebhook_def split: option.split)
  have e: "poll_success env now name url idx res r = note_up name url (ns_Healthy n1) r6" using eq by (simp add: r6_def)
  show thesis
  proof (rule that)
    show "FindNode (poll_success env now name url idx res r) name = Some n1"
      using FindNode_quiet [OF q, of name] r5(1) unfolding e by (simp add: FindNode_def up)
    show "map ns_Name (r_nodes (poll_success env now name url idx res r)) = map ns_Name (r_nodes r)"
      using quiet_nodes [OF q] r5(4) unfolding e by (simp add: up)
    show "rows_ok (poll_success env now name url idx res r)" "r_store (poll_success env now name url idx res r) \<noteq> None"
      "rows_resident name (mi_Name ` set (ns_LoadedModels n1)) (poll_success env now name url idx res r)"
      using r6 st unfolding e rows_ok_def rows_resident_def up by auto
  qed (rule r5(2))
qed

text \<open>What a snapshot writes.\<close>

definition row_for :: "router \<Rightarrow> string \<Rightarrow> model_info \<Rightarrow> warm_row \<Rightarrow> bool" where
  "row_for r node m w \<longleftrightarrow> wr_vram_bytes w = mi_SizeVRAM m \<and> wr_last_used w = warmUsedToUnix (lastUsedAt r node (mi_Name m))"

lemma snapshot_get:
  "gm_get (sr_warm (SnapshotWarmState m nd u b st)) k =
     (if k = (m, nd)
      then Some (case gm_get (sr_warm st) (m, nd) of
          None \<Rightarrow> \<lparr> wr_last_used = warmUsedToUnix u, wr_vram_bytes = b, wr_load_count = 0 \<rparr>
        | Some w \<Rightarrow> w\<lparr> wr_last_used := warmUsedToUnix u, wr_vram_bytes := b \<rparr>)
      else gm_get (sr_warm st) k)"
  by (simp add: SnapshotWarmState_def gm_get_put)

lemma snapshot_fold:
  fixes r nd
  defines "f \<equiv> (\<lambda>m. SnapshotWarmState (mi_Name m) nd (lastUsedAt r nd (mi_Name m)) (mi_SizeVRAM m))"
  shows "k \<notin> (\<lambda>m. (mi_Name m, nd)) ` set ms \<Longrightarrow> gm_get (sr_warm (fold f ms st)) k = gm_get (sr_warm st) k"
    "distinct (map mi_Name ms) \<Longrightarrow> m \<in> set ms \<Longrightarrow> \<exists>w. gm_get (sr_warm (fold f ms st)) (mi_Name m, nd) = Some w \<and> row_for r nd m w"
proof -
  show other: "k \<notin> (\<lambda>m. (mi_Name m, nd)) ` set ms \<Longrightarrow> gm_get (sr_warm (fold f ms st)) k = gm_get (sr_warm st) k" for k ms st
    by (induction ms arbitrary: st) (auto simp: f_def snapshot_get)
  show "distinct (map mi_Name ms) \<Longrightarrow> m \<in> set ms \<Longrightarrow> \<exists>w. gm_get (sr_warm (fold f ms st)) (mi_Name m, nd) = Some w \<and> row_for r nd m w"
  proof (induction ms arbitrary: st)
    case (Cons x ms)
    show ?case
    proof (cases "m = x")
      case True
      have "(mi_Name x, nd) \<notin> (\<lambda>m. (mi_Name m, nd)) ` set ms" using Cons.prems(1) by auto
      then show ?thesis using other [of "(mi_Name x, nd)" ms "f x st"] True
        by (auto simp: f_def snapshot_get row_for_def split: option.split)
    next
      case False
      then show ?thesis using Cons by auto
    qed
  qed simp
qed

lemma snapshot_models_other: "ns_Name n \<noteq> nd \<Longrightarrow> gm_get (sr_warm (snapshot_models r n st)) (m, nd) = gm_get (sr_warm st) (m, nd)"
  unfolding snapshot_models_def by (rule snapshot_fold(1)) auto

lemma flush_fold_other:
  "\<forall>n \<in> set ns. ns_Name n \<noteq> nd \<Longrightarrow> gm_get (sr_warm (fold (snapshot_models r) ns st)) (m, nd) = gm_get (sr_warm st) (m, nd)"
  by (induction ns arbitrary: st) (simp_all add: snapshot_models_other)

lemma FlushWarmState_rows:
  assumes "rows_ok r" "r_store r = Some st" "distinct (map ns_Name (r_nodes r))" "FindNode r name = Some n"
    and "distinct (map mi_Name (ns_LoadedModels n))" "rows_resident name (mi_Name ` set (ns_LoadedModels n)) r"
  obtains st' where "r_store (FlushWarmState r) = Some st'" "gm_wf (sr_warm st')"
    "\<forall>m w. gm_get (sr_warm st') (m, name) = Some w \<longrightarrow> (\<exists>i \<in> set (ns_LoadedModels n). m = mi_Name i \<and> row_for r name i w)"
    "\<forall>i \<in> set (ns_LoadedModels n). gm_get (sr_warm st') (mi_Name i, name) \<noteq> None"
proof -
  define st' where "st' = fold (snapshot_models r) (r_nodes r) st"
  have st': "r_store (FlushWarmState r) = Some st'" using assms(2) by (simp add: FlushWarmState_def upd_store_def st'_def)
  have n: "n \<in> set (r_nodes r)" "ns_Name n = name" using FindNode_Some [OF assms(4)] by auto
  then obtain as bs where nodes: "r_nodes r = as @ n # bs" by (auto dest: split_list)
  have "name \<notin> ns_Name ` set as" "name \<notin> ns_Name ` set bs" using assms(3) n(2) by (simp_all add: nodes)
  then have oth: "\<forall>x \<in> set as. ns_Name x \<noteq> name" "\<forall>x \<in> set bs. ns_Name x \<noteq> name" by blast+
  define st1 where "st1 = fold (snapshot_models r) as st"
  have eq: "gm_get (sr_warm st') (m, name) = gm_get (sr_warm (snapshot_models r n st1)) (m, name)" for m
    unfolding st'_def nodes st1_def by (simp add: flush_fold_other [OF oth(2)])
  have st1: "gm_get (sr_warm st1) (m, name) = gm_get (sr_warm st) (m, name)" for m
    unfolding st1_def by (rule flush_fold_other [OF oth(1)])
  have in_: "\<exists>w. gm_get (sr_warm st') (mi_Name i, name) = Some w \<and> row_for r name i w" if "i \<in> set (ns_LoadedModels n)" for i
    unfolding eq snapshot_models_def n(2) by (rule snapshot_fold(2) [OF assms(5) that])
  have out: "gm_get (sr_warm st') (m, name) = None" if "m \<notin> mi_Name ` set (ns_LoadedModels n)" for m
  proof -
    have "gm_get (sr_warm st') (m, name) = gm_get (sr_warm st) (m, name)"
      unfolding eq snapshot_models_def n(2) st1 [symmetric] by (rule snapshot_fold(1)) (use that in auto)
    then show ?thesis using assms(2,6) that unfolding rows_resident_def by (metis not_Some_eq)
  qed
  have wf: "gm_wf (sr_warm st')"
  proof -
    have "gm_wf (sr_warm (snapshot_models r x s))" if "gm_wf (sr_warm s)" for x s
      unfolding snapshot_models_def by (rule fold_wf [OF warm_write_wf(2) that])
    then show ?thesis unfolding st'_def using assms(1,2) by (intro fold_wf) (auto simp: rows_ok_def)
  qed
  have "\<exists>i \<in> set (ns_LoadedModels n). m = mi_Name i \<and> row_for r name i w" if "gm_get (sr_warm st') (m, name) = Some w" for m w
    using that out [of m] in_ by fastforce
  moreover have "gm_get (sr_warm st') (mi_Name i, name) \<noteq> None" if "i \<in> set (ns_LoadedModels n)" for i
    using in_ [OF that] by auto
  ultimately show thesis using that [OF st' wf] by blast
qed

definition model_of_row :: "(string \<times> string) \<times> warm_row \<Rightarrow> model_info" where
  "model_of_row = (\<lambda>((model, node), w). \<lparr> mi_Name = model, mi_SizeVRAM = wr_vram_bytes w, mi_Digest = [], mi_sizeAttributed = False \<rparr>)"

lemma restore_warm_loop_spec:
  assumes "restore_warm_loop ws known byNode k r = ((k', byNode'), r')"
  shows "gm_at [] byNode' node = gm_at [] byNode node
      @ map model_of_row (filter (\<lambda>((m, nd), w). nd = node \<and> nd \<in> set known) ws)"
    "r_nodes r' = r_nodes r"
  using assms
proof (induction ws known byNode k r rule: restore_warm_loop.induct)
  case (2 model nd w ws known byNode k r)
  { case 1
    then show ?case using 2(1) 2(3) by (cases "nd \<in> set known") (auto simp: Let_def model_of_row_def gm_at_put)
  next
    case 2
    then show ?case using "2.IH"(2) "2.IH"(4)
      by (cases "nd \<in> set known") (simp_all add: Let_def stampLastUsedLocked_def set_last_used_def split: if_splits)
  }
qed simp_all

lemma find_map_name:
  "(\<And>x. ns_Name (f x) = ns_Name x) \<Longrightarrow> find (\<lambda>n. ns_Name n = name) (map f ns) = map_option f (find (\<lambda>n. ns_Name n = name) ns)"
  by (induction ns) simp_all

lemma forget_fold_nodes: "r_nodes (fold (\<lambda>(node, models). undoIfNodeRemoved node forgetLastUsedForNode) xs r) = r_nodes r"
  by (induction xs arbitrary: r) (auto simp: undoIfNodeRemoved_def forgetLastUsedForNode_def set_last_used_def)

lemma RestoreWarmState_node:
  assumes "r_store r = Some st" "FindNode r name = Some n" "ns_LoadedModels n = []" "RestoreWarmState r = (k, r')"
  shows "\<exists>n'. FindNode r' name = Some n' \<and> ns_LoadedModels n' = map model_of_row (filter (\<lambda>((m, nd), w). nd = name) (sr_warm st))"
proof -
  obtain k' byNode r1 where loop: "restore_warm_loop (sr_warm st) (map ns_Name (r_nodes r)) [] 0 r = ((k', byNode), r1)"
    by (metis prod.exhaust)
  define r2 where "r2 = fold (\<lambda>(node, models). undoIfNodeRemoved node forgetLastUsedForNode) byNode r1"
  have r': "r' = r2\<lparr> r_nodes := map (restore_models byNode) (r_nodes r2) \<rparr>"
    using assms(1,4) loop by (simp add: RestoreWarmState_def r2_def Let_def)
  have nodes: "r_nodes r2 = r_nodes r"
    using restore_warm_loop_spec(2) [OF loop] by (simp add: r2_def forget_fold_nodes)
  have nm: "ns_Name (restore_models byNode x) = ns_Name x" for x by (simp add: restore_models_def split: option.split)
  have name: "ns_Name n = name" "name \<in> set (map ns_Name (r_nodes r))" using FindNode_Some [OF assms(2)] by auto
  have "FindNode r' name = Some (restore_models byNode n)"
    using assms(2) nodes by (simp add: r' FindNode_def find_map_name nm)
  moreover have "ns_LoadedModels (restore_models byNode n) = gm_at [] byNode name"
    using assms(3) name(1) by (simp add: restore_models_def gm_at_def split: option.split)
  moreover have "gm_at [] byNode name = map model_of_row (filter (\<lambda>((m, nd), w). nd = name) (sr_warm st))"
  proof -
    have "filter (\<lambda>((m, nd), w). nd = name \<and> nd \<in> set (map ns_Name (r_nodes r))) (sr_warm st) = filter (\<lambda>((m, nd), w). nd = name) (sr_warm st)"
      using name(2) by (intro filter_cong) auto
    then show ?thesis using restore_warm_loop_spec(1) [OF loop, of name] by (simp add: gm_at_def)
  qed
  ultimately show ?thesis by simp
qed

text \<open>
  The router starts warm.  When a node has answered a poll and the residency map is flushed, a router that
  restarts on that store and restores it believes the node to hold exactly the models it reported, each once and with its
  size, whatever rows earlier polls, evictions or other nodes had left behind.
\<close>

lemma restart_restores_residents:
  assumes "FindNode r name = Some n" "rows_ok r" "r_store r \<noteq> None" "distinct (map ns_Name (r_nodes r))"
    and "distinct (map fst (pr_LoadedModels res))"
    and "r1 = poll_success env now name url idx res r"
    and "r_store r2 = r_store (FlushWarmState r1)" "FindNode r2 name = Some n2" "ns_LoadedModels n2 = []"
    and "RestoreWarmState r2 = (k, r3)"
  shows "\<exists>n1 n3. FindNode r1 name = Some n1 \<and> map mi_Name (ns_LoadedModels n1) = map fst (pr_LoadedModels res)
    \<and> FindNode r3 name = Some n3 \<and> distinct (map mi_Name (ns_LoadedModels n3))
    \<and> (\<lambda>m. (mi_Name m, mi_SizeVRAM m)) ` set (ns_LoadedModels n3) = (\<lambda>m. (mi_Name m, mi_SizeVRAM m)) ` set (ns_LoadedModels n1)"
proof -
  obtain n1 where n1: "FindNode r1 name = Some n1" "map mi_Name (ns_LoadedModels n1) = map fst (pr_LoadedModels res)"
    "rows_ok r1" "rows_resident name (mi_Name ` set (ns_LoadedModels n1)) r1" "r_store r1 \<noteq> None"
    "map ns_Name (r_nodes r1) = map ns_Name (r_nodes r)"
    using poll_success_rows [OF assms(1-3)] unfolding assms(6) .
  obtain st1 where st1: "r_store r1 = Some st1" using n1(5) by blast
  obtain st' where st': "r_store (FlushWarmState r1) = Some st'" "gm_wf (sr_warm st')"
    "\<forall>m w. gm_get (sr_warm st') (m, name) = Some w \<longrightarrow> (\<exists>i \<in> set (ns_LoadedModels n1). m = mi_Name i \<and> row_for r1 name i w)"
    "\<forall>i \<in> set (ns_LoadedModels n1). gm_get (sr_warm st') (mi_Name i, name) \<noteq> None"
    using FlushWarmState_rows [OF n1(3) st1 _ n1(1) _ n1(4)] assms(4,5) n1(2,6) by metis
  let ?rows = "filter (\<lambda>((m, nd), w). nd = name) (sr_warm st')"
  obtain n3 where n3: "FindNode r3 name = Some n3" "ns_LoadedModels n3 = map model_of_row ?rows"
    using RestoreWarmState_node [of r2 st', OF _ assms(8,9,10)] assms(7) st'(1) by auto
  have row: "((m, nd), w) \<in> set ?rows \<longleftrightarrow> nd = name \<and> gm_get (sr_warm st') (m, nd) = Some w" for m nd w
    using st'(2) by (auto simp: gm_wf_def)
  have "distinct (map (\<lambda>((m, nd), w). m) ?rows)"
  proof -
    have "distinct (map fst ?rows)" using st'(2) by (simp add: gm_wf_def distinct_map_filter)
    then have "distinct ?rows" by (simp add: distinct_map)
    have "inj_on (\<lambda>((m, nd), w). m) (set ?rows)"
    proof (rule inj_onI)
      fix x y assume "x \<in> set ?rows" "y \<in> set ?rows" and e: "(\<lambda>((m, nd), w). m) x = (\<lambda>((m, nd), w). m) y"
      moreover obtain m nd w m' nd' w' where xy: "x = ((m, nd), w)" "y = ((m', nd'), w')" by (metis prod.exhaust)
      ultimately have g: "nd = name \<and> gm_get (sr_warm st') (m, nd) = Some w" "nd' = name \<and> gm_get (sr_warm st') (m', nd') = Some w'"
        using row by blast+
      have m: "m = m'" using e xy by simp
      then have "Some w = Some w'" using g by metis
      then show "x = y" using m g xy by simp
    qed
    then show ?thesis using \<open>distinct ?rows\<close> by (simp add: distinct_map)
  qed
  moreover have "map mi_Name (ns_LoadedModels n3) = map (\<lambda>((m, nd), w). m) ?rows"
    unfolding n3(2) by (auto simp: model_of_row_def)
  ultimately have d: "distinct (map mi_Name (ns_LoadedModels n3))" by simp
  have "(\<lambda>m. (mi_Name m, mi_SizeVRAM m)) ` set (ns_LoadedModels n3) = (\<lambda>m. (mi_Name m, mi_SizeVRAM m)) ` set (ns_LoadedModels n1)"
  proof (intro equalityI subsetI)
    fix x assume "x \<in> (\<lambda>m. (mi_Name m, mi_SizeVRAM m)) ` set (ns_LoadedModels n3)"
    then obtain m nd w where x: "((m, nd), w) \<in> set ?rows" "x = (m, wr_vram_bytes w)"
      unfolding n3(2) by (auto simp: model_of_row_def)
    have "gm_get (sr_warm st') (m, name) = Some w" using row [THEN iffD1, OF x(1)] by blast
    then obtain i where "i \<in> set (ns_LoadedModels n1)" "m = mi_Name i" "row_for r1 name i w" using st'(3) by blast
    then show "x \<in> (\<lambda>m. (mi_Name m, mi_SizeVRAM m)) ` set (ns_LoadedModels n1)" using x(2) by (auto simp: row_for_def)
  next
    fix x assume "x \<in> (\<lambda>m. (mi_Name m, mi_SizeVRAM m)) ` set (ns_LoadedModels n1)"
    then obtain i where i: "i \<in> set (ns_LoadedModels n1)" "x = (mi_Name i, mi_SizeVRAM i)" by blast
    then obtain w where w: "gm_get (sr_warm st') (mi_Name i, name) = Some w" using st'(4) by blast
    then obtain j where j: "j \<in> set (ns_LoadedModels n1)" "mi_Name i = mi_Name j" "row_for r1 name j w" using st'(3) by blast
    have "distinct (map mi_Name (ns_LoadedModels n1))" using n1(2) assms(5) by simp
    then have "i = j" using i(1) j(1,2) by (auto simp: distinct_map inj_on_def)
    then have "model_of_row ((mi_Name i, name), w) \<in> set (ns_LoadedModels n3)" "x = (mi_Name i, wr_vram_bytes w)"
      using row [of "mi_Name i" name w] w j(3) i(2) unfolding n3(2) set_map by (auto simp: row_for_def intro: imageI)
    then show "x \<in> (\<lambda>m. (mi_Name m, mi_SizeVRAM m)) ` set (ns_LoadedModels n3)"
      by (intro image_eqI [of _ _ "model_of_row ((mi_Name i, name), w)"]) (simp_all add: model_of_row_def)
  qed
  then show ?thesis using n1(1,2) n3(1) d by blast
qed


text \<open>A node that reports one model, on a router with a store that holds a stale row.\<close>

definition demo_answer :: probe_result where
  "demo_answer = \<lparr> pr_LoadedModels = [(''m'', 7, ''d'')], pr_VRAMUsedMB = 0 \<rparr>"

definition demo_kept :: router where
  "demo_kept = demo_watched\<lparr> r_store := Some \<lparr> sr_warm = [((''old'', ''a''), \<lparr> wr_last_used = 0, wr_vram_bytes = 3, wr_load_count = 1 \<rparr>)],
     sr_affinity = [], sr_transitions = [], sr_drains = [] \<rparr> \<rparr>"

end
