(* ===== verification/Telemetry.thy ===== *)
theory Telemetry
  imports Nodes
begin

text \<open>
  The status report of a node agent (\<^verbatim>\<open>internal/marboragent/telemetry.go\<close>, \<^verbatim>\<open>deployment.go\<close>,
  \<^verbatim>\<open>topology.go\<close>) and the bounds the router puts on it before it stores any of it
  (\<^verbatim>\<open>internal/router/agent_sanitize.go\<close>).  A nil slice and an empty one are the same list.  A decoded JSON
  number is finite, so the tests of the code for NaN and infinity have no counterpart here.
\<close>

section \<open>Runes in UTF-8\<close>

definition cont :: "nat \<Rightarrow> bool" where
  "cont b \<longleftrightarrow> 0x80 \<le> b \<and> b \<le> 0xBF"

text \<open>The range of the second byte, by the first.\<close>

definition second_ok :: "nat \<Rightarrow> nat \<Rightarrow> bool" where
  "second_ok b0 b1 \<longleftrightarrow> cont b1 \<and> (b0 = 0xE0 \<longrightarrow> 0xA0 \<le> b1) \<and> (b0 = 0xED \<longrightarrow> b1 \<le> 0x9F)
     \<and> (b0 = 0xF0 \<longrightarrow> 0x90 \<le> b1) \<and> (b0 = 0xF4 \<longrightarrow> b1 \<le> 0x8F)"

text \<open>The size \<^verbatim>\<open>utf8.DecodeRune\<close> finds at the front, and 0 for an invalid encoding.\<close>

definition rune_size :: "nat list \<Rightarrow> nat" where
  "rune_size bs =
     (case bs of [] \<Rightarrow> 0 | b0 # r1 \<Rightarrow>
        if b0 < 0x80 then 1
        else case r1 of [] \<Rightarrow> 0 | b1 # r2 \<Rightarrow>
          if \<not> second_ok b0 b1 then 0
          else if 0xC2 \<le> b0 \<and> b0 \<le> 0xDF then 2
          else case r2 of [] \<Rightarrow> 0 | b2 # r3 \<Rightarrow>
            if \<not> cont b2 then 0
            else if 0xE0 \<le> b0 \<and> b0 \<le> 0xEF then 3
            else case r3 of [] \<Rightarrow> 0 | b3 # _ \<Rightarrow>
              if cont b3 \<and> 0xF0 \<le> b0 \<and> b0 \<le> 0xF4 then 4 else 0)"

definition rune_value :: "nat list \<Rightarrow> nat" where
  "rune_value bs =
     (case bs of
        [b0, b1] \<Rightarrow> (b0 - 0xC0) * 0x40 + (b1 - 0x80)
      | [b0, b1, b2] \<Rightarrow> (b0 - 0xE0) * 0x1000 + (b1 - 0x80) * 0x40 + (b2 - 0x80)
      | [b0, b1, b2, b3] \<Rightarrow> (b0 - 0xF0) * 0x40000 + (b1 - 0x80) * 0x1000 + (b2 - 0x80) * 0x40 + (b3 - 0x80)
      | b # _ \<Rightarrow> b
      | [] \<Rightarrow> 0)"

text \<open>The encodings of the valid runes of a string, one by one; invalid bytes are passed over.\<close>

function runes :: "string \<Rightarrow> string list" where
  "runes s =
     (if s = [] then []
      else let k = rune_size (byte_vals s) in
        if k = 0 then runes (drop 1 s) else take k s # runes (drop k s))"
  by pat_completeness auto
termination
  by (relation "measure length") auto

declare runes.simps [simp del]

definition ToValidUTF8 :: "string \<Rightarrow> string" where
  "ToValidUTF8 s = concat (runes s)"

definition rune_of :: "string \<Rightarrow> nat" where
  "rune_of e = rune_value (byte_vals e)"

definition drop_runes :: "(nat \<Rightarrow> bool) \<Rightarrow> string \<Rightarrow> string" where
  "drop_runes p s = concat (filter (\<lambda>e. \<not> p (rune_of e)) (runes s))"

text \<open>\<^verbatim>\<open>utf8.RuneStart\<close>, and the loop that moves a cut back to a start.\<close>

definition RuneStart :: "char \<Rightarrow> bool" where
  "RuneStart c \<longleftrightarrow> \<not> cont (of_char c)"

fun rune_cut :: "string \<Rightarrow> nat \<Rightarrow> nat" where
  "rune_cut s 0 = 0"
| "rune_cut s (Suc n) = (if RuneStart (s ! Suc n) then Suc n else rune_cut s n)"

section \<open>The report\<close>

record agent_id =
  ai_NodeID :: string
  ai_Version :: string
  ai_ProtocolVersion :: int
  ai_Build :: string
  ai_Platform :: string
  ai_Architecture :: string

record gpu_block =
  gb_Count :: int
  gb_Vendor :: string
  gb_DriverVersion :: string
  gb_CUDAVersion :: string
  gb_Devices :: "gpu_info list"

record host_telemetry =
  ht_CPUPercent :: "float64 option"
  ht_RAMUsedMB :: int
  ht_RAMTotalMB :: int
  ht_DiskFreeGB :: float64
  ht_DiskTotalGB :: float64
  ht_Hostname :: string
  ht_UptimeSeconds :: int
  ht_BootTime :: int
  ht_Addrs :: "string list"

record engine_state =
  es_RunningRequests :: "int option"
  es_WaitingRequests :: "int option"
  es_KVCacheUsagePercent :: "float64 option"
  es_PrefixCacheQueries :: "float64 option"
  es_PrefixCacheHits :: "float64 option"

record runtime_info =
  ri_Name :: string
  ri_ID :: string
  ri_Port :: int
  ri_Version :: string
  ri_Status :: string
  ri_WarmModels :: "string list"
  ri_QueueDepth :: int
  ri_Engine :: "engine_state option"

record control_discovery =
  cd_Driver :: string
  cd_Identifier :: string
  cd_Evidence :: "string list"

record control_info =
  ci_Driver :: string
  ci_Configured :: bool
  ci_Capabilities :: "string list"
  ci_Discovered :: "control_discovery option"

record scope_report =
  gr_Indices :: "int list"
  gr_UUIDs :: "string list"
  gr_Raw :: string
  gr_Source :: string
  gr_CrossChecked :: bool
  gr_Note :: string

record parallelism_info =
  pi_Type :: string
  pi_Width :: int
  pi_PipelineWidth :: int
  pi_DataWidth :: int

record runtime_caps =
  rc_TP :: bool
  rc_PP :: bool
  rc_EP :: bool
  rc_DP :: bool
  rc_MaxTPWidth :: int

record topology =
  tp_Launcher :: string
  tp_RoleHint :: string
  tp_NNodes :: "int option"
  tp_NodeRank :: "int option"
  tp_MasterPort :: "int option"
  tp_MasterAddr :: string
  tp_RPCServers :: "string list"
  tp_Evidence :: "string list"

record deployment_report =
  dr_Runtime :: string
  dr_RuntimeID :: string
  dr_Port :: int
  dr_GPUGroup :: "int list"
  dr_GPUScope :: "scope_report option"
  dr_Parallelism :: "parallelism_info option"
  dr_Caps :: "runtime_caps option"
  dr_Source :: string
  dr_Topology :: "topology option"

record telemetry =
  tm_Agent :: agent_id
  tm_Capabilities :: "string list"
  tm_Host :: "host_telemetry option"
  tm_GPU :: "gpu_block option"
  tm_Runtime :: "runtime_info option"
  tm_Runtimes :: "runtime_info list"
  tm_Control :: "control_info option"
  tm_RuntimeReachable :: bool
  tm_Deployments :: "deployment_report list"
  tm_LastUpdated :: gotime

section \<open>Bounds\<close>

definition maxTelemetryMB :: int where "maxTelemetryMB = 2 ^ 30"
definition maxTelemetryListLen :: nat where "maxTelemetryListLen = 64"
definition maxTelemetryStringBytes :: nat where "maxTelemetryStringBytes = 256"
definition maxTelemetryCount :: int where "maxTelemetryCount = 2 ^ 20"
definition maxTelemetryGPUIndex :: int where "maxTelemetryGPUIndex = 1023"
definition maxTelemetryDiskGB :: float64 where "maxTelemetryDiskGB = 2 ^ 30"
definition maxPort :: int where "maxPort = 65535"
definition maxTelemetrySeconds :: int where "maxTelemetrySeconds = 2 ^ 34"

definition isUnsafeRune :: "nat \<Rightarrow> bool" where
  "isUnsafeRune c \<longleftrightarrow>
     c < 0x20 \<or> (0x7F \<le> c \<and> c < 0xA0) \<or> c \<in> {0x2028, 0x2029, 0x200E, 0x200F, 0x061C}
     \<or> (0x202A \<le> c \<and> c \<le> 0x202E) \<or> (0x2066 \<le> c \<and> c \<le> 0x2069)"

definition clampMB :: "int \<Rightarrow> int" where
  "clampMB v = (if v < 0 then 0 else if v > maxTelemetryMB then maxTelemetryMB else v)"

definition clampCount :: "int \<Rightarrow> int" where
  "clampCount v = (if v < 0 then 0 else if v > maxTelemetryCount then maxTelemetryCount else v)"

definition clampPort :: "int \<Rightarrow> int" where
  "clampPort v = (if v < 0 \<or> v > maxPort then 0 else v)"

definition clampCountPtr :: "int option \<Rightarrow> int option" where
  "clampCountPtr p = (case p of None \<Rightarrow> None | Some v \<Rightarrow> if v < 0 \<or> v > maxTelemetryCount then None else p)"

definition clampPortPtr :: "int option \<Rightarrow> int option" where
  "clampPortPtr p = (case p of None \<Rightarrow> None | Some v \<Rightarrow> if v < 0 \<or> v > maxPort then None else p)"

definition clampStr :: "string \<Rightarrow> string" where
  "clampStr s0 =
     (let s = drop_runes isUnsafeRune (ToValidUTF8 s0) in
      if TrimSpace s = [] then []
      else if length s \<le> maxTelemetryStringBytes then s
      else take (rune_cut s maxTelemetryStringBytes) s)"

definition clampStrs :: "string list \<Rightarrow> string list" where
  "clampStrs xs = map clampStr (take maxTelemetryListLen xs)"

definition clampIndices :: "int list \<Rightarrow> int list" where
  "clampIndices xs =
     (if length xs > maxTelemetryListLen then []
      else if list_ex (\<lambda>v. v < 0 \<or> v > maxTelemetryGPUIndex) xs then [] else xs)"

definition clampPercent :: "float64 option \<Rightarrow> float64 option" where
  "clampPercent p = map_option (\<lambda>v. min 100 (max 0 v)) p"

definition finiteNonNeg :: "float64 option \<Rightarrow> float64 option" where
  "finiteNonNeg p = (case p of None \<Rightarrow> None | Some v \<Rightarrow> if v < 0 then None else p)"

definition clampDiskGB :: "float64 \<Rightarrow> float64" where
  "clampDiskGB v = (if v < 0 then 0 else min v maxTelemetryDiskGB)"

definition clampSeconds :: "int \<Rightarrow> int" where
  "clampSeconds v = (if v < 0 then 0 else if v > maxTelemetrySeconds then maxTelemetrySeconds else v)"

text \<open>A used amount never exceeds a known total.\<close>

definition cap_used :: "int \<Rightarrow> int \<Rightarrow> int" where
  "cap_used tot used = (if tot > 0 \<and> used > tot then tot else used)"

definition sanitize_device :: "gpu_info \<Rightarrow> gpu_info" where
  "sanitize_device d = d\<lparr>
     gi_Index := (if clampCount (gi_Index d) > maxTelemetryGPUIndex then maxTelemetryGPUIndex else clampCount (gi_Index d)),
     gi_Vendor := clampStr (gi_Vendor d), gi_Model := clampStr (gi_Model d),
     gi_CorePercent := clampPercent (gi_CorePercent d), gi_FanPercent := clampPercent (gi_FanPercent d),
     gi_TemperatureC := finiteNonNeg (gi_TemperatureC d), gi_PowerWatts := finiteNonNeg (gi_PowerWatts d),
     gi_VRAMUsedMB := cap_used (clampMB (gi_VRAMTotalMB d)) (clampMB (gi_VRAMUsedMB d)),
     gi_VRAMTotalMB := clampMB (gi_VRAMTotalMB d) \<rparr>"

definition sanitizeGPU :: "gpu_block \<Rightarrow> gpu_block" where
  "sanitizeGPU g =
     (let devices = map sanitize_device (take maxTelemetryListLen (gb_Devices g));
          c1 = clampCount (gb_Count g);
          c2 = (if c1 > int maxTelemetryListLen then int maxTelemetryListLen else c1);
          c3 = (if c2 < int (length devices) then int (length devices) else c2)
      in \<lparr> gb_Count = c3, gb_Vendor = clampStr (gb_Vendor g), gb_DriverVersion = clampStr (gb_DriverVersion g),
           gb_CUDAVersion = clampStr (gb_CUDAVersion g), gb_Devices = devices \<rparr>)"

definition sanitize_scope :: "scope_report \<Rightarrow> scope_report" where
  "sanitize_scope s = s\<lparr> gr_Indices := clampIndices (gr_Indices s), gr_UUIDs := clampStrs (gr_UUIDs s),
     gr_Raw := clampStr (gr_Raw s), gr_Source := clampStr (gr_Source s), gr_Note := clampStr (gr_Note s) \<rparr>"

definition sanitize_parallelism :: "parallelism_info \<Rightarrow> parallelism_info" where
  "sanitize_parallelism p = \<lparr> pi_Type = clampStr (pi_Type p), pi_Width = clampCount (pi_Width p),
     pi_PipelineWidth = clampCount (pi_PipelineWidth p), pi_DataWidth = clampCount (pi_DataWidth p) \<rparr>"

definition sanitize_topology :: "topology \<Rightarrow> topology" where
  "sanitize_topology t = \<lparr> tp_Launcher = clampStr (tp_Launcher t), tp_RoleHint = clampStr (tp_RoleHint t),
     tp_NNodes = clampCountPtr (tp_NNodes t), tp_NodeRank = clampCountPtr (tp_NodeRank t),
     tp_MasterPort = clampPortPtr (tp_MasterPort t), tp_MasterAddr = clampStr (tp_MasterAddr t),
     tp_RPCServers = clampStrs (tp_RPCServers t), tp_Evidence = clampStrs (tp_Evidence t) \<rparr>"

definition sanitizeDeployment :: "deployment_report \<Rightarrow> deployment_report" where
  "sanitizeDeployment d = \<lparr> dr_Runtime = clampStr (dr_Runtime d), dr_RuntimeID = clampStr (dr_RuntimeID d),
     dr_Port = clampPort (dr_Port d), dr_GPUGroup = clampIndices (dr_GPUGroup d),
     dr_GPUScope = map_option sanitize_scope (dr_GPUScope d), dr_Parallelism = map_option sanitize_parallelism (dr_Parallelism d),
     dr_Caps = map_option (\<lambda>c. c\<lparr> rc_MaxTPWidth := clampCount (rc_MaxTPWidth c) \<rparr>) (dr_Caps d),
     dr_Source = clampStr (dr_Source d), dr_Topology = map_option sanitize_topology (dr_Topology d) \<rparr>"

definition sanitize_engine :: "engine_state \<Rightarrow> engine_state" where
  "sanitize_engine e = \<lparr> es_RunningRequests = clampCountPtr (es_RunningRequests e),
     es_WaitingRequests = clampCountPtr (es_WaitingRequests e), es_KVCacheUsagePercent = clampPercent (es_KVCacheUsagePercent e),
     es_PrefixCacheQueries = finiteNonNeg (es_PrefixCacheQueries e), es_PrefixCacheHits = finiteNonNeg (es_PrefixCacheHits e) \<rparr>"

definition sanitizeRuntime :: "runtime_info \<Rightarrow> runtime_info" where
  "sanitizeRuntime rt = \<lparr> ri_Name = clampStr (ri_Name rt), ri_ID = clampStr (ri_ID rt), ri_Port = clampPort (ri_Port rt),
     ri_Version = clampStr (ri_Version rt), ri_Status = clampStr (ri_Status rt), ri_WarmModels = clampStrs (ri_WarmModels rt),
     ri_QueueDepth = clampCount (ri_QueueDepth rt), ri_Engine = map_option sanitize_engine (ri_Engine rt) \<rparr>"

definition sanitize_agent :: "agent_id \<Rightarrow> agent_id" where
  "sanitize_agent a = \<lparr> ai_NodeID = clampStr (ai_NodeID a), ai_Version = clampStr (ai_Version a),
     ai_ProtocolVersion = clampCount (ai_ProtocolVersion a), ai_Build = clampStr (ai_Build a),
     ai_Platform = clampStr (ai_Platform a), ai_Architecture = clampStr (ai_Architecture a) \<rparr>"

definition sanitize_host :: "host_telemetry \<Rightarrow> host_telemetry" where
  "sanitize_host h = \<lparr> ht_CPUPercent = clampPercent (ht_CPUPercent h),
     ht_RAMUsedMB = cap_used (clampMB (ht_RAMTotalMB h)) (clampMB (ht_RAMUsedMB h)), ht_RAMTotalMB = clampMB (ht_RAMTotalMB h),
     ht_DiskFreeGB = clampDiskGB (ht_DiskFreeGB h), ht_DiskTotalGB = clampDiskGB (ht_DiskTotalGB h),
     ht_Hostname = clampStr (ht_Hostname h), ht_UptimeSeconds = clampSeconds (ht_UptimeSeconds h),
     ht_BootTime = clampSeconds (ht_BootTime h), ht_Addrs = clampStrs (ht_Addrs h) \<rparr>"

definition sanitize_control :: "control_info \<Rightarrow> control_info" where
  "sanitize_control c = c\<lparr> ci_Driver := clampStr (ci_Driver c), ci_Capabilities := clampStrs (ci_Capabilities c),
     ci_Discovered := map_option (\<lambda>d. \<lparr> cd_Driver = clampStr (cd_Driver d), cd_Identifier = clampStr (cd_Identifier d),
       cd_Evidence = clampStrs (cd_Evidence d) \<rparr>) (ci_Discovered c) \<rparr>"

definition sanitizeTelemetry :: "telemetry \<Rightarrow> telemetry" where
  "sanitizeTelemetry t = t\<lparr> tm_Agent := sanitize_agent (tm_Agent t), tm_Capabilities := clampStrs (tm_Capabilities t),
     tm_Host := map_option sanitize_host (tm_Host t), tm_GPU := map_option sanitizeGPU (tm_GPU t),
     tm_Runtime := map_option sanitizeRuntime (tm_Runtime t),
     tm_Runtimes := map sanitizeRuntime (take maxTelemetryListLen (tm_Runtimes t)),
     tm_Control := map_option sanitize_control (tm_Control t),
     tm_Deployments := map sanitizeDeployment (take maxTelemetryListLen (tm_Deployments t)) \<rparr>"


section \<open>Cutting keeps runes whole\<close>

definition is_rune :: "string \<Rightarrow> bool" where
  "is_rune e \<longleftrightarrow> e \<noteq> [] \<and> rune_size (byte_vals e) = length e"

lemma rune_size_le: "rune_size bs \<le> length bs"
  by (auto simp: rune_size_def split: list.split)

lemma rune_size_prefix:
  assumes "rune_size bs = k" "k \<noteq> 0"
  shows "rune_size (take k bs @ xs) = k"
  using assms by (auto simp: rune_size_def split: list.splits if_splits)

lemma rune_size_bytes:
  assumes "rune_size bs = k" "k \<noteq> 0"
  shows "\<not> cont (bs ! 0)" "0 < i \<Longrightarrow> i < k \<Longrightarrow> cont (bs ! i)"
proof -
  show "\<not> cont (bs ! 0)" using assms by (auto simp: rune_size_def cont_def split: list.splits if_splits)
  show "cont (bs ! i)" if "0 < i" "i < k"
  proof -
    have "i = 1 \<or> i = 2 \<or> i = 3" using that assms(1) by (auto simp: rune_size_def split: list.splits if_splits)
    then show ?thesis using that assms by (auto simp: rune_size_def second_ok_def split: list.splits if_splits)
  qed
qed

lemma is_rune_start:
  assumes "is_rune e"
  shows "RuneStart (e ! 0)" "0 < i \<Longrightarrow> i < length e \<Longrightarrow> \<not> RuneStart (e ! i)"
proof -
  have k: "rune_size (byte_vals e) = length e" "length e \<noteq> 0" using assms by (auto simp: is_rune_def)
  show "RuneStart (e ! 0)" using rune_size_bytes(1) [OF k] k(2) by (simp add: RuneStart_def byte_vals_def)
  show "\<not> RuneStart (e ! i)" if "0 < i" "i < length e"
    using rune_size_bytes(2) [OF k that] that by (simp add: RuneStart_def byte_vals_def)
qed

lemma byte_vals_simps: "byte_vals (s @ t) = byte_vals s @ byte_vals t" "byte_vals (take k s) = take k (byte_vals s)" "length (byte_vals s) = length s"
  by (simp_all add: byte_vals_def take_map)

lemma runes_are_runes: "\<forall>e \<in> set (runes s). is_rune e"
proof (induction s rule: runes.induct)
  case (1 s)
  show ?case
  proof (cases "s = [] \<or> rune_size (byte_vals s) = 0")
    case True
    then show ?thesis using 1 by (subst runes.simps) auto
  next
    case False
    let ?k = "rune_size (byte_vals s)"
    have "is_rune (take ?k s)"
      using False rune_size_le [of "byte_vals s"] rune_size_prefix [of "byte_vals s" ?k "[]"]
      by (simp add: is_rune_def byte_vals_simps)
    then show ?thesis using 1 False by (subst runes.simps) (auto simp: Let_def)
  qed
qed

lemma runes_concat: "\<forall>e \<in> set es. is_rune e \<Longrightarrow> runes (concat es) = es"
proof (induction es)
  case (Cons e es)
  have e: "e \<noteq> []" "rune_size (byte_vals e) = length e" using Cons.prems by (auto simp: is_rune_def)
  have "rune_size (byte_vals (e @ concat es)) = length e"
    using rune_size_prefix [OF e(2), of "byte_vals (concat es)"] e(1) by (simp add: byte_vals_simps)
  then show ?case using Cons e(1) by (subst runes.simps) simp
qed (simp add: runes.simps)

lemma rune_cut_le: "rune_cut s n \<le> n"
  by (induction n) auto

lemma rune_cut_start: "rune_cut s n = 0 \<or> RuneStart (s ! rune_cut s n)"
  by (induction n) auto

lemma take_at_start:
  assumes "\<forall>e \<in> set es. is_rune e" "k < length (concat es)" "k = 0 \<or> RuneStart (concat es ! k)"
  shows "\<exists>j. take k (concat es) = concat (take j es)"
  using assms
proof (induction es arbitrary: k)
  case (Cons e es)
  show ?case
  proof (cases "k = 0")
    case True
    then show ?thesis by (intro exI [of _ 0]) simp
  next
    case k: False
    have "is_rune e" using Cons.prems(1) by simp
    then have "\<not> k < length e" using is_rune_start(2) [of e k] k Cons.prems(3) by (auto simp: nth_append)
    then have "RuneStart (concat es ! (k - length e))" using k Cons.prems(3) by (simp add: nth_append)
    moreover have "k - length e < length (concat es)" using Cons.prems(2) \<open>\<not> k < length e\<close> by simp
    ultimately obtain j where "take (k - length e) (concat es) = concat (take j es)"
      using Cons.IH [of "k - length e"] Cons.prems(1) by auto
    then show ?thesis using \<open>\<not> k < length e\<close> by (intro exI [of _ "Suc j"]) simp
  qed
qed simp

text \<open>A string the router stores: short, valid UTF-8, no unsafe rune.\<close>

definition str_ok :: "string \<Rightarrow> bool" where
  "str_ok s \<longleftrightarrow> length s \<le> maxTelemetryStringBytes \<and> concat (runes s) = s \<and> (\<forall>e \<in> set (runes s). \<not> isUnsafeRune (rune_of e))"

lemma str_ok_concat:
  assumes "\<forall>e \<in> set es. is_rune e \<and> \<not> isUnsafeRune (rune_of e)" "length (concat es) \<le> maxTelemetryStringBytes"
  shows "str_ok (concat es)"
  using assms runes_concat [of es] by (simp add: str_ok_def)

lemma clampStr_ok: "str_ok (clampStr s)"
proof -
  define es where "es = filter (\<lambda>e. \<not> isUnsafeRune (rune_of e)) (runes s)"
  have es: "\<forall>e \<in> set es. is_rune e \<and> \<not> isUnsafeRune (rune_of e)" using runes_are_runes [of s] by (auto simp: es_def)
  have clean: "drop_runes isUnsafeRune (ToValidUTF8 s) = concat es"
    by (simp add: drop_runes_def ToValidUTF8_def es_def runes_concat [OF runes_are_runes])
  have nil: "str_ok []" using str_ok_concat [of "[]"] by simp
  let ?k = "rune_cut (concat es) maxTelemetryStringBytes"
  have cut: "str_ok (take ?k (concat es))" if "\<not> length (concat es) \<le> maxTelemetryStringBytes"
  proof -
    have "?k < length (concat es)" using that rune_cut_le [of "concat es" maxTelemetryStringBytes] by linarith
    then obtain j where j: "take ?k (concat es) = concat (take j es)"
      using take_at_start [of es ?k] es rune_cut_start by blast
    have "length (take ?k (concat es)) \<le> maxTelemetryStringBytes" using rune_cut_le [of "concat es" maxTelemetryStringBytes] by simp
    then show ?thesis using es unfolding j by (intro str_ok_concat) (auto dest: in_set_takeD)
  qed
  show ?thesis using nil cut str_ok_concat [OF es] by (auto simp: clampStr_def Let_def clean)
qed

lemma clampStr_id:
  assumes "str_ok s" "s = [] \<or> TrimSpace s \<noteq> []"
  shows "clampStr s = s"
proof -
  have "drop_runes isUnsafeRune (ToValidUTF8 s) = s"
    using assms(1) by (simp add: drop_runes_def ToValidUTF8_def str_ok_def filter_True)
  then show ?thesis using assms by (auto simp: clampStr_def str_ok_def)
qed


section \<open>Well-formed reports\<close>

text \<open>Every predicate takes the property \<open>P\<close> its strings have.\<close>

definition strs_ok :: "(string \<Rightarrow> bool) \<Rightarrow> string list \<Rightarrow> bool" where
  "strs_ok P xs \<longleftrightarrow> length xs \<le> maxTelemetryListLen \<and> list_all P xs"

definition percent_ok :: "float64 option \<Rightarrow> bool" where
  "percent_ok p \<longleftrightarrow> pred_option (\<lambda>v. 0 \<le> v \<and> v \<le> 100) p"

definition count_ok :: "int \<Rightarrow> bool" where "count_ok v \<longleftrightarrow> 0 \<le> v \<and> v \<le> maxTelemetryCount"
definition port_ok :: "int \<Rightarrow> bool" where "port_ok v \<longleftrightarrow> 0 \<le> v \<and> v \<le> maxPort"
definition seconds_ok :: "int \<Rightarrow> bool" where "seconds_ok v \<longleftrightarrow> 0 \<le> v \<and> v \<le> maxTelemetrySeconds"
definition disk_ok :: "float64 \<Rightarrow> bool" where "disk_ok v \<longleftrightarrow> 0 \<le> v \<and> v \<le> maxTelemetryDiskGB"

definition indices_ok :: "int list \<Rightarrow> bool" where
  "indices_ok xs \<longleftrightarrow> length xs \<le> maxTelemetryListLen \<and> list_all (\<lambda>v. 0 \<le> v \<and> v \<le> maxTelemetryGPUIndex) xs"

definition memory_ok :: "int \<Rightarrow> int \<Rightarrow> bool" where
  "memory_ok used tot \<longleftrightarrow> 0 \<le> used \<and> used \<le> maxTelemetryMB \<and> 0 \<le> tot \<and> tot \<le> maxTelemetryMB \<and> (0 < tot \<longrightarrow> used \<le> tot)"

definition device_ok :: "(string \<Rightarrow> bool) \<Rightarrow> gpu_info \<Rightarrow> bool" where
  "device_ok P d \<longleftrightarrow> 0 \<le> gi_Index d \<and> gi_Index d \<le> maxTelemetryGPUIndex \<and> P (gi_Vendor d) \<and> P (gi_Model d)
     \<and> percent_ok (gi_CorePercent d) \<and> percent_ok (gi_FanPercent d)
     \<and> pred_option ((\<le>) 0) (gi_TemperatureC d) \<and> pred_option ((\<le>) 0) (gi_PowerWatts d)
     \<and> memory_ok (gi_VRAMUsedMB d) (gi_VRAMTotalMB d)"

definition gpu_ok :: "(string \<Rightarrow> bool) \<Rightarrow> gpu_block \<Rightarrow> bool" where
  "gpu_ok P g \<longleftrightarrow> P (gb_Vendor g) \<and> P (gb_DriverVersion g) \<and> P (gb_CUDAVersion g) \<and> list_all (device_ok P) (gb_Devices g)
     \<and> int (length (gb_Devices g)) \<le> gb_Count g \<and> gb_Count g \<le> int maxTelemetryListLen"

definition host_ok :: "(string \<Rightarrow> bool) \<Rightarrow> host_telemetry \<Rightarrow> bool" where
  "host_ok P h \<longleftrightarrow> percent_ok (ht_CPUPercent h) \<and> memory_ok (ht_RAMUsedMB h) (ht_RAMTotalMB h) \<and> disk_ok (ht_DiskFreeGB h)
     \<and> disk_ok (ht_DiskTotalGB h) \<and> P (ht_Hostname h) \<and> seconds_ok (ht_UptimeSeconds h) \<and> seconds_ok (ht_BootTime h)
     \<and> strs_ok P (ht_Addrs h)"

definition engine_ok :: "engine_state \<Rightarrow> bool" where
  "engine_ok e \<longleftrightarrow> pred_option count_ok (es_RunningRequests e) \<and> pred_option count_ok (es_WaitingRequests e)
     \<and> percent_ok (es_KVCacheUsagePercent e) \<and> pred_option ((\<le>) 0) (es_PrefixCacheQueries e) \<and> pred_option ((\<le>) 0) (es_PrefixCacheHits e)"

definition runtime_ok :: "(string \<Rightarrow> bool) \<Rightarrow> runtime_info \<Rightarrow> bool" where
  "runtime_ok P rt \<longleftrightarrow> P (ri_Name rt) \<and> P (ri_ID rt) \<and> port_ok (ri_Port rt) \<and> P (ri_Version rt) \<and> P (ri_Status rt)
     \<and> strs_ok P (ri_WarmModels rt) \<and> count_ok (ri_QueueDepth rt) \<and> pred_option engine_ok (ri_Engine rt)"

definition discovery_ok :: "(string \<Rightarrow> bool) \<Rightarrow> control_discovery \<Rightarrow> bool" where
  "discovery_ok P d \<longleftrightarrow> P (cd_Driver d) \<and> P (cd_Identifier d) \<and> strs_ok P (cd_Evidence d)"

definition control_ok :: "(string \<Rightarrow> bool) \<Rightarrow> control_info \<Rightarrow> bool" where
  "control_ok P c \<longleftrightarrow> P (ci_Driver c) \<and> strs_ok P (ci_Capabilities c) \<and> pred_option (discovery_ok P) (ci_Discovered c)"

definition scope_ok :: "(string \<Rightarrow> bool) \<Rightarrow> scope_report \<Rightarrow> bool" where
  "scope_ok P s \<longleftrightarrow> indices_ok (gr_Indices s) \<and> strs_ok P (gr_UUIDs s) \<and> P (gr_Raw s) \<and> P (gr_Source s) \<and> P (gr_Note s)"

definition parallelism_ok :: "(string \<Rightarrow> bool) \<Rightarrow> parallelism_info \<Rightarrow> bool" where
  "parallelism_ok P p \<longleftrightarrow> P (pi_Type p) \<and> count_ok (pi_Width p) \<and> count_ok (pi_PipelineWidth p) \<and> count_ok (pi_DataWidth p)"

definition topology_ok :: "(string \<Rightarrow> bool) \<Rightarrow> topology \<Rightarrow> bool" where
  "topology_ok P t \<longleftrightarrow> P (tp_Launcher t) \<and> P (tp_RoleHint t) \<and> pred_option count_ok (tp_NNodes t) \<and> pred_option count_ok (tp_NodeRank t)
     \<and> pred_option port_ok (tp_MasterPort t) \<and> P (tp_MasterAddr t) \<and> strs_ok P (tp_RPCServers t) \<and> strs_ok P (tp_Evidence t)"

definition deployment_ok :: "(string \<Rightarrow> bool) \<Rightarrow> deployment_report \<Rightarrow> bool" where
  "deployment_ok P d \<longleftrightarrow> P (dr_Runtime d) \<and> P (dr_RuntimeID d) \<and> port_ok (dr_Port d) \<and> indices_ok (dr_GPUGroup d)
     \<and> pred_option (scope_ok P) (dr_GPUScope d) \<and> pred_option (parallelism_ok P) (dr_Parallelism d)
     \<and> pred_option (\<lambda>c. count_ok (rc_MaxTPWidth c)) (dr_Caps d) \<and> P (dr_Source d) \<and> pred_option (topology_ok P) (dr_Topology d)"

definition agent_ok :: "(string \<Rightarrow> bool) \<Rightarrow> agent_id \<Rightarrow> bool" where
  "agent_ok P a \<longleftrightarrow> P (ai_NodeID a) \<and> P (ai_Version a) \<and> count_ok (ai_ProtocolVersion a) \<and> P (ai_Build a) \<and> P (ai_Platform a)
     \<and> P (ai_Architecture a)"

definition telemetry_ok :: "(string \<Rightarrow> bool) \<Rightarrow> telemetry \<Rightarrow> bool" where
  "telemetry_ok P t \<longleftrightarrow> agent_ok P (tm_Agent t) \<and> strs_ok P (tm_Capabilities t) \<and> pred_option (host_ok P) (tm_Host t)
     \<and> pred_option (gpu_ok P) (tm_GPU t) \<and> pred_option (runtime_ok P) (tm_Runtime t)
     \<and> length (tm_Runtimes t) \<le> maxTelemetryListLen \<and> list_all (runtime_ok P) (tm_Runtimes t)
     \<and> pred_option (control_ok P) (tm_Control t)
     \<and> length (tm_Deployments t) \<le> maxTelemetryListLen \<and> list_all (deployment_ok P) (tm_Deployments t)"

lemmas bounds = maxTelemetryMB_def maxTelemetryListLen_def maxTelemetryCount_def maxTelemetryGPUIndex_def maxTelemetryDiskGB_def
  maxPort_def maxTelemetrySeconds_def

text \<open>A sanitiser that establishes a property and leaves alone what has a stronger one.\<close>

locale sanitiser =
  fixes f :: "'a \<Rightarrow> 'a" and good :: "'a \<Rightarrow> bool" and fixed :: "'a \<Rightarrow> bool"
  assumes establishes: "good (f x)"
    and leaves: "fixed x \<Longrightarrow> f x = x"
begin

lemma option_ok: "pred_option good (map_option f p)"
  by (cases p) (simp_all add: establishes)

lemma option_id: "pred_option fixed p \<Longrightarrow> map_option f p = p"
  by (cases p) (simp_all add: leaves)

lemma list_ok: "list_all good (map f (take n xs))"
  by (simp add: list_all_iff establishes)

lemma list_id: "list_all fixed xs \<Longrightarrow> map f xs = xs"
  by (simp add: list_all_iff leaves map_idI)

end

definition shown :: "string \<Rightarrow> bool" where
  "shown s \<longleftrightarrow> str_ok s \<and> (s = [] \<or> TrimSpace s \<noteq> [])"

interpretation str_san: sanitiser clampStr str_ok shown
  by unfold_locales (simp_all add: clampStr_ok clampStr_id shown_def)

interpretation strs_san: sanitiser clampStrs "strs_ok str_ok" "strs_ok shown"
  by unfold_locales (simp_all add: clampStrs_def strs_ok_def str_san.list_ok str_san.list_id)

interpretation count_san: sanitiser clampCount count_ok count_ok
  by unfold_locales (auto simp: clampCount_def count_ok_def bounds)

interpretation port_san: sanitiser clampPort port_ok port_ok
  by unfold_locales (auto simp: clampPort_def port_ok_def bounds)

interpretation seconds_san: sanitiser clampSeconds seconds_ok seconds_ok
  by unfold_locales (auto simp: clampSeconds_def seconds_ok_def bounds)

interpretation disk_san: sanitiser clampDiskGB disk_ok disk_ok
  by unfold_locales (auto simp: clampDiskGB_def disk_ok_def bounds min_def)

interpretation percent_san: sanitiser clampPercent percent_ok percent_ok
proof unfold_locales
  show "percent_ok (clampPercent p)" for p by (cases p) (simp_all add: clampPercent_def percent_ok_def)
  show "clampPercent p = p" if "percent_ok p" for p using that by (cases p) (simp_all add: clampPercent_def percent_ok_def)
qed

interpretation indices_san: sanitiser clampIndices indices_ok indices_ok
  by unfold_locales (auto simp: clampIndices_def indices_ok_def list_all_iff list_ex_iff not_less)

interpretation count_ptr_san: sanitiser clampCountPtr "pred_option count_ok" "pred_option count_ok"
  by unfold_locales (auto simp: clampCountPtr_def count_ok_def split: option.split)

interpretation port_ptr_san: sanitiser clampPortPtr "pred_option port_ok" "pred_option port_ok"
  by unfold_locales (auto simp: clampPortPtr_def port_ok_def split: option.split)

interpretation nonneg_san: sanitiser finiteNonNeg "pred_option ((\<le>) 0)" "pred_option ((\<le>) 0)"
  by unfold_locales (auto simp: finiteNonNeg_def split: option.split)


lemma memory_san:
  "memory_ok (cap_used (clampMB t) (clampMB u)) (clampMB t)"
  "memory_ok u t \<Longrightarrow> clampMB t = t" "memory_ok u t \<Longrightarrow> cap_used t (clampMB u) = u"
  by (auto simp: memory_ok_def cap_used_def clampMB_def bounds)

lemmas sanitised = str_san.establishes strs_san.establishes count_san.establishes port_san.establishes seconds_san.establishes
  disk_san.establishes percent_san.establishes indices_san.establishes count_ptr_san.establishes port_ptr_san.establishes
  nonneg_san.establishes memory_san(1)

lemmas untouched = str_san.leaves strs_san.leaves count_san.leaves port_san.leaves seconds_san.leaves disk_san.leaves
  percent_san.leaves indices_san.leaves count_ptr_san.leaves port_ptr_san.leaves nonneg_san.leaves memory_san(3)

interpretation device_san: sanitiser sanitize_device "device_ok str_ok" "device_ok shown"
proof unfold_locales
  have i: "0 \<le> (if clampCount v > maxTelemetryGPUIndex then maxTelemetryGPUIndex else clampCount v)"
    "(if clampCount v > maxTelemetryGPUIndex then maxTelemetryGPUIndex else clampCount v) \<le> maxTelemetryGPUIndex" for v
    by (auto simp: clampCount_def bounds)
  show "device_ok str_ok (sanitize_device d)" for d by (simp add: device_ok_def sanitize_device_def sanitised i del: if_split)
  have j: "0 \<le> v \<Longrightarrow> v \<le> maxTelemetryGPUIndex \<Longrightarrow> clampCount v = v" for v by (simp add: clampCount_def bounds)
  show "sanitize_device d = d" if "device_ok shown d" for d
    using that memory_san(2) [of "gi_VRAMUsedMB d" "gi_VRAMTotalMB d"] by (simp add: device_ok_def sanitize_device_def untouched j)
qed

interpretation gpu_san: sanitiser sanitizeGPU "gpu_ok str_ok" "gpu_ok shown"
proof unfold_locales
  show "gpu_ok str_ok (sanitizeGPU g)" for g
    using device_san.list_ok [of maxTelemetryListLen "gb_Devices g"]
    by (auto simp: gpu_ok_def sanitizeGPU_def Let_def sanitised)
  show "sanitizeGPU g = g" if "gpu_ok shown g" for g
  proof -
    have g: "int (length (gb_Devices g)) \<le> gb_Count g" "gb_Count g \<le> int maxTelemetryListLen" "list_all (device_ok shown) (gb_Devices g)"
      using that by (simp_all add: gpu_ok_def)
    then have "map sanitize_device (take maxTelemetryListLen (gb_Devices g)) = gb_Devices g" by (simp add: device_san.list_id)
    moreover have "clampCount (gb_Count g) = gb_Count g" using g(1,2) by (simp add: clampCount_def bounds)
    ultimately show ?thesis using that g by (simp add: gpu_ok_def sanitizeGPU_def Let_def untouched)
  qed
qed

interpretation host_san: sanitiser sanitize_host "host_ok str_ok" "host_ok shown"
proof unfold_locales
  show "host_ok str_ok (sanitize_host h)" for h by (simp add: host_ok_def sanitize_host_def sanitised)
  show "sanitize_host h = h" if "host_ok shown h" for h
    using that memory_san(2) [of "ht_RAMUsedMB h" "ht_RAMTotalMB h"] by (simp add: host_ok_def sanitize_host_def untouched)
qed

interpretation engine_san: sanitiser sanitize_engine engine_ok engine_ok
  by unfold_locales (simp_all add: engine_ok_def sanitize_engine_def sanitised untouched)

interpretation runtime_san: sanitiser sanitizeRuntime "runtime_ok str_ok" "runtime_ok shown"
  by unfold_locales (simp_all add: runtime_ok_def sanitizeRuntime_def sanitised untouched engine_san.option_ok engine_san.option_id)

interpretation control_san: sanitiser sanitize_control "control_ok str_ok" "control_ok shown"
proof unfold_locales
  show "control_ok str_ok (sanitize_control c)" for c
    by (cases "ci_Discovered c") (simp_all add: control_ok_def sanitize_control_def discovery_ok_def sanitised)
  show "sanitize_control c = c" if "control_ok shown c" for c
    using that by (cases "ci_Discovered c") (auto simp: control_ok_def sanitize_control_def discovery_ok_def untouched)
qed

interpretation scope_san: sanitiser sanitize_scope "scope_ok str_ok" "scope_ok shown"
  by unfold_locales (simp_all add: scope_ok_def sanitize_scope_def sanitised untouched)

interpretation parallelism_san: sanitiser sanitize_parallelism "parallelism_ok str_ok" "parallelism_ok shown"
  by unfold_locales (simp_all add: parallelism_ok_def sanitize_parallelism_def sanitised untouched)

interpretation topology_san: sanitiser sanitize_topology "topology_ok str_ok" "topology_ok shown"
  by unfold_locales (simp_all add: topology_ok_def sanitize_topology_def sanitised untouched)

interpretation caps_san: sanitiser "\<lambda>c. c\<lparr> rc_MaxTPWidth := clampCount (rc_MaxTPWidth c) \<rparr>"
    "\<lambda>c :: runtime_caps. count_ok (rc_MaxTPWidth c)" "\<lambda>c. count_ok (rc_MaxTPWidth c)"
  by unfold_locales (simp_all add: sanitised untouched)

lemmas nested_san = scope_san.option_ok scope_san.option_id parallelism_san.option_ok parallelism_san.option_id
  topology_san.option_ok topology_san.option_id caps_san.option_ok caps_san.option_id

interpretation deployment_san: sanitiser sanitizeDeployment "deployment_ok str_ok" "deployment_ok shown"
  by unfold_locales (simp_all add: deployment_ok_def sanitizeDeployment_def sanitised untouched nested_san)

interpretation agent_san: sanitiser sanitize_agent "agent_ok str_ok" "agent_ok shown"
  by unfold_locales (simp_all add: agent_ok_def sanitize_agent_def sanitised untouched)

text \<open>
  C34. Whatever an agent sends, what the router keeps of it is well formed: every string is valid UTF-8 of at most
  256 bytes without control or bidirectional-override characters, every list has at most 64 entries,
  every percentage lies between 0 and 100, every size, count, port, index and duration within its bound, no device or host
  uses more memory than its known total, and the reported number of GPUs covers the device list.  A report that is
  well formed already, and whose strings are not blank, is kept as it is.
\<close>

theorem sanitize_telemetry_well_formed:
  "telemetry_ok str_ok (sanitizeTelemetry t) \<and> (telemetry_ok shown t \<longrightarrow> sanitizeTelemetry t = t)"
proof
  show "telemetry_ok str_ok (sanitizeTelemetry t)"
    by (simp add: telemetry_ok_def sanitizeTelemetry_def sanitised agent_san.establishes host_san.option_ok gpu_san.option_ok
        runtime_san.option_ok runtime_san.list_ok control_san.option_ok deployment_san.list_ok)
  show "telemetry_ok shown t \<longrightarrow> sanitizeTelemetry t = t"
    by (simp add: telemetry_ok_def sanitizeTelemetry_def untouched agent_san.leaves host_san.option_id gpu_san.option_id
        runtime_san.option_id runtime_san.list_id control_san.option_id deployment_san.list_id)
qed

text \<open>A report with one device that says it uses more memory than it has.\<close>

definition demo_device :: gpu_info where
  "demo_device = \<lparr> gi_Index = 0, gi_Vendor = [], gi_Model = [], gi_CorePercent = None, gi_TemperatureC = None, gi_FanPercent = None,
     gi_PowerWatts = None, gi_VRAMUsedMB = 3, gi_VRAMTotalMB = 8 \<rparr>"

definition demo_report :: telemetry where
  "demo_report = \<lparr> tm_Agent = \<lparr> ai_NodeID = ''n'', ai_Version = [], ai_ProtocolVersion = 1, ai_Build = [], ai_Platform = [], ai_Architecture = [] \<rparr>,
     tm_Capabilities = [], tm_Host = None, tm_GPU = Some \<lparr> gb_Count = 1, gb_Vendor = [], gb_DriverVersion = [], gb_CUDAVersion = [], gb_Devices = [demo_device] \<rparr>,
     tm_Runtime = None, tm_Runtimes = [], tm_Control = None, tm_RuntimeReachable = True, tm_Deployments = [], tm_LastUpdated = 5 \<rparr>"

lemma shown_small: "shown []" "shown ''n''"
  by (simp_all add: shown_def str_ok_def runes.simps byte_vals_def rune_size_def rune_of_def rune_value_def isUnsafeRune_def
      maxTelemetryStringBytes_def TrimSpace_def trim_left.simps trim_right.simps leading_space_def trailing_space_def space_encodings_def)

theorem sanitize_telemetry_well_formed_witness:
  "telemetry_ok shown demo_report \<and> sanitizeTelemetry demo_report = demo_report \<and> telemetry_ok str_ok (sanitizeTelemetry demo_report)"
proof -
  have "telemetry_ok shown demo_report"
    by (simp add: demo_report_def demo_device_def telemetry_ok_def agent_ok_def strs_ok_def gpu_ok_def device_ok_def percent_ok_def
        memory_ok_def count_ok_def shown_small bounds)
  then show ?thesis using sanitize_telemetry_well_formed [of demo_report] by blast
qed


text \<open>
  The blank test of \<open>clampStr\<close> looks at the string before it is cut: 256 spaces in front of a letter are cut to
  256 spaces, a blank value that is not empty.
\<close>

lemma runes_ascii: "\<forall>c \<in> set s. of_char c < (128 :: nat) \<Longrightarrow> runes s = map (\<lambda>c. [c]) s"
  using runes_concat [of "map (\<lambda>c. [c]) s"] by (simp add: is_rune_def byte_vals_def rune_size_def)

lemma trim_left_blanks: "trim_left (replicate n CHR '' '' @ s) = trim_left s"
  by (induction n) (simp_all add: trim_left.simps [of "CHR '' '' # _"] leading_space_def space_encodings_def byte_vals_def)

lemma clampStr_keeps_blank:
  "clampStr (replicate 256 CHR '' '' @ ''x'') = replicate 256 CHR '' ''" "TrimSpace (replicate 256 CHR '' '') = []"
proof -
  let ?s = "replicate 256 CHR '' '' @ ''x''"
  have "runes ?s = map (\<lambda>c. [c]) ?s" by (rule runes_ascii) (auto simp: set_replicate_conv_if)
  moreover have "\<not> isUnsafeRune (rune_of [c])" if "c \<in> set ?s" for c
    using that by (auto simp: isUnsafeRune_def rune_of_def rune_value_def byte_vals_def set_replicate_conv_if)
  ultimately have clean: "drop_runes isUnsafeRune (ToValidUTF8 ?s) = ?s"
    by (simp add: ToValidUTF8_def drop_runes_def comp_def filter_map filter_True)
  have "TrimSpace ?s \<noteq> []"
    unfolding TrimSpace_def trim_left_blanks
    by (simp add: trim_left.simps trim_right.simps leading_space_def trailing_space_def space_encodings_def byte_vals_def)
  moreover have "rune_cut ?s 256 = 256"
    unfolding eval_nat_numeral rune_cut.simps by (simp add: RuneStart_def cont_def nth_append eval_nat_numeral)
  ultimately show "clampStr ?s = replicate 256 CHR '' ''"
    unfolding clampStr_def Let_def clean by (simp add: maxTelemetryStringBytes_def)
  show "TrimSpace (replicate 256 CHR '' '') = []"
    using trim_left_blanks [of 256 "[]"] by (simp add: TrimSpace_def trim_left.simps trim_right.simps leading_space_def trailing_space_def
        space_encodings_def byte_vals_def)
qed

end
