(* ===== verification/Agent.thy ===== *)
theory Agent
  imports Health Telemetry
begin

text \<open>
  Polling of the node agents (\<^verbatim>\<open>internal/router/agent_poll.go\<close>) and what is kept per host
  (\<^verbatim>\<open>internal/router/host_evidence.go\<close>).  The fields of \<^verbatim>\<open>NodeState\<close> that only this code writes and routing never
  reads are a record of their own, \<open>agent_fields\<close>, kept per node beside the router.
\<close>

section \<open>State\<close>

record agent_fields =
  af_NodeID :: string
  af_Version :: string
  af_Platform :: string
  af_Architecture :: string
  af_protocolWarned :: bool
  af_RAMUsedMB :: int
  af_RAMTotalMB :: int
  af_DiskFreeGB :: float64
  af_DiskTotalGB :: float64
  af_Hostname :: string
  af_UptimeSeconds :: int
  af_BootTime :: int
  af_GPUVendor :: string
  af_GPUCount :: int
  af_DriverVersion :: string
  af_CUDAVersion :: string
  af_FanPercent :: "float64 option"
  af_Runtime :: string
  af_RuntimeVersion :: string
  af_RuntimeStatus :: string
  af_RuntimeID :: string
  af_EngineRunningRequests :: "int option"
  af_EngineWaitingRequests :: "int option"
  af_EngineKVCacheUsagePercent :: "float64 option"
  af_EnginePrefixCacheHitRatePercent :: "float64 option"
  af_prevEnginePrefixCacheQueries :: "float64 option"
  af_prevEnginePrefixCacheHits :: "float64 option"
  af_DetectedRuntime :: string
  af_DetectedPipelineWidth :: int
  af_DetectedDataWidth :: int
  af_DetectedSource :: string
  af_DetectedCaps :: "runtime_caps option"
  af_ControlDiscoveredDriver :: string
  af_ControlDiscoveredIdentifier :: string
  af_ControlDiscoveredEvidence :: "string list"
  af_TLSMismatch :: bool

definition zero_fields :: agent_fields where
  "zero_fields = \<lparr> af_NodeID = [], af_Version = [], af_Platform = [], af_Architecture = [], af_protocolWarned = False,
     af_RAMUsedMB = 0, af_RAMTotalMB = 0, af_DiskFreeGB = 0, af_DiskTotalGB = 0, af_Hostname = [], af_UptimeSeconds = 0,
     af_BootTime = 0, af_GPUVendor = [], af_GPUCount = 0, af_DriverVersion = [], af_CUDAVersion = [], af_FanPercent = None,
     af_Runtime = [], af_RuntimeVersion = [], af_RuntimeStatus = [], af_RuntimeID = [], af_EngineRunningRequests = None,
     af_EngineWaitingRequests = None, af_EngineKVCacheUsagePercent = None, af_EnginePrefixCacheHitRatePercent = None,
     af_prevEnginePrefixCacheQueries = None, af_prevEnginePrefixCacheHits = None, af_DetectedRuntime = [],
     af_DetectedPipelineWidth = 0, af_DetectedDataWidth = 0, af_DetectedSource = [], af_DetectedCaps = None,
     af_ControlDiscoveredDriver = [], af_ControlDiscoveredIdentifier = [], af_ControlDiscoveredEvidence = [], af_TLSMismatch = False \<rparr>"

record host_evidence =
  he_Host :: string
  he_Hostname :: string
  he_Addrs :: "string list"
  he_Capabilities :: "string list"
  he_Deployments :: "deployment_report list"
  he_PolledAt :: gotime

record agent_state =
  as_router :: router
  as_fields :: "(string, agent_fields) gomap"
  as_hostEvidence :: "(string, host_evidence) gomap"
  as_hostLogAt :: "(string, gotime) gomap"

section \<open>Host evidence and rate-limited warnings\<close>

definition maxHostEvidenceAddrs :: nat where "maxHostEvidenceAddrs = 64"
definition maxHostEvidenceDeployments :: nat where "maxHostEvidenceDeployments = 64"
definition hostLogInterval :: duration where "hostLogInterval = 10 * minute"

definition hostLogKeyPrefixes :: "string list" where "hostLogKeyPrefixes = [''truncate:'', ''oversize:'', ''read:'']"

definition hostLogAgedKeyPrefixes :: "string list" where
  "hostLogAgedKeyPrefixes = [''tags:'', ''probe:'', ''docker-add:'', ''docker-discovery'', ''panic:'']"

definition hostLogPollKeyPrefixes :: "string list" where
  "hostLogPollKeyPrefixes = [''badurl:'', ''badreq:'', ''dial:'', ''mismatch:'', ''status:'', ''decode:'']"

definition lastResortLogPrefix :: string where "lastResortLogPrefix = ''lastresort:''"

definition hasAnyPrefix :: "string \<Rightarrow> string list \<Rightarrow> bool" where
  "hasAnyPrefix s prefixes = list_ex (has_prefix s) prefixes"

text \<open>Whether a warning may be logged, and the state with its time stamped.\<close>

definition allowHostLog :: "gotime \<Rightarrow> string \<Rightarrow> agent_state \<Rightarrow> bool \<times> agent_state" where
  "allowHostLog now key s =
     (case gm_get (as_hostLogAt s) key of
        Some at' \<Rightarrow>
          if now - at' < hostLogInterval then (False, s)
          else (True, s\<lparr> as_hostLogAt := gm_put key now (as_hostLogAt s) \<rparr>)
      | None \<Rightarrow> (True, s\<lparr> as_hostLogAt := gm_put key now (as_hostLogAt s) \<rparr>))"

definition RecordHostEvidence :: "gotime \<Rightarrow> host_evidence \<Rightarrow> agent_state \<Rightarrow> agent_state" where
  "RecordHostEvidence now ev s =
     (if length (he_Addrs ev) > maxHostEvidenceAddrs \<or> length (he_Deployments ev) > maxHostEvidenceDeployments then
        let s1 = snd (allowHostLog now (''truncate:'' @ he_Host ev) s);
            ev1 = ev\<lparr> he_Addrs := take maxHostEvidenceAddrs (he_Addrs ev), he_Deployments := take maxHostEvidenceDeployments (he_Deployments ev) \<rparr>
        in s1\<lparr> as_hostEvidence := gm_put (he_Host ev) ev1 (as_hostEvidence s1) \<rparr>
      else s\<lparr> as_hostEvidence := gm_put (he_Host ev) ev (as_hostEvidence s) \<rparr>)"

definition DropHostEvidence :: "string \<Rightarrow> agent_state \<Rightarrow> agent_state" where
  "DropHostEvidence host s = s\<lparr> as_hostEvidence := gm_del host (as_hostEvidence s),
     as_hostLogAt := fold (\<lambda>prefix. gm_del (prefix @ host)) hostLogKeyPrefixes (as_hostLogAt s) \<rparr>"

definition dropHostEvidenceOnly :: "string \<Rightarrow> agent_state \<Rightarrow> agent_state" where
  "dropHostEvidenceOnly host s = s\<lparr> as_hostEvidence := gm_del host (as_hostEvidence s) \<rparr>"

definition log_key_dropped :: "gotime \<Rightarrow> string list \<Rightarrow> string \<Rightarrow> gotime \<Rightarrow> bool" where
  "log_key_dropped now keep key at' \<longleftrightarrow>
     (if hasAnyPrefix key hostLogAgedKeyPrefixes then now - at' \<ge> hostLogInterval
      else if has_prefix key lastResortLogPrefix then now - at' \<ge> hostLogInterval
      else list_ex (\<lambda>prefix. case cut_prefix key prefix of None \<Rightarrow> False | Some host \<Rightarrow> host \<notin> set keep)
             (hostLogKeyPrefixes @ hostLogPollKeyPrefixes))"

definition dropHostEvidenceNotIn :: "gotime \<Rightarrow> string list \<Rightarrow> agent_state \<Rightarrow> agent_state" where
  "dropHostEvidenceNotIn now keep s = s\<lparr> as_hostEvidence := gm_remove_if (\<lambda>host _. host \<notin> set keep) (as_hostEvidence s),
     as_hostLogAt := gm_remove_if (log_key_dropped now keep) (as_hostLogAt s) \<rparr>"

definition dropNodeLogKeys :: "string \<Rightarrow> agent_state \<Rightarrow> agent_state" where
  "dropNodeLogKeys name s =
     (let m1 = fold gm_del [''tags:'' @ name, ''probe:'' @ name, ''panic:'' @ name] (as_hostLogAt s)
      in s\<lparr> as_hostLogAt := gm_remove_if (\<lambda>k _. has_prefix k (''panic:'' @ name @ ''/'')) m1 \<rparr>)"

section \<open>Matching a report to a node\<close>

definition url_port :: "go_url \<Rightarrow> string" where
  "url_port u =
     (let i = last_index CHR '':'' (u_Host u); p = drop (nat i + 1) (u_Host u)
      in if i \<ge> 0 \<and> list_all (\<lambda>c. 48 \<le> (of_char c :: nat) \<and> (of_char c :: nat) \<le> 57) p then p else [])"

definition parsePort :: "('a url_lib_scheme) \<Rightarrow> string \<Rightarrow> bool \<Rightarrow> int" where
  "parsePort lib rawURL schemeDefault =
     (case ul_Parse lib rawURL of
        None \<Rightarrow> 0
      | Some u \<Rightarrow>
          if url_port u = [] then
            if \<not> schemeDefault then 0
            else if u_Scheme u = ''http'' then 80 else if u_Scheme u = ''https'' then 443 else 0
          else case digits_val 10 0 (url_port u) of
            None \<Rightarrow> 0 | Some v \<Rightarrow> if v < 2 ^ 63 then int v else 0)"

definition portOfOrDefault :: "('a url_lib_scheme) \<Rightarrow> string \<Rightarrow> int" where
  "portOfOrDefault lib rawURL = parsePort lib rawURL True"

definition matchRuntime :: "telemetry \<Rightarrow> string \<Rightarrow> int \<Rightarrow> runtime_info option \<times> string" where
  "matchRuntime t pinnedID nodePort =
     (case (if pinnedID \<noteq> [] then find (\<lambda>rt. ri_ID rt = pinnedID) (tm_Runtimes t) else None) of
        Some rt \<Rightarrow> (Some rt, pinnedID)
      | None \<Rightarrow>
          (case (if nodePort > 0 then find (\<lambda>rt. ri_Port rt = nodePort) (tm_Runtimes t) else None) of
             Some rt \<Rightarrow> (Some rt, ri_ID rt)
           | None \<Rightarrow> (if tm_Runtimes t = [] then tm_Runtime t else None, pinnedID)))"

definition matchDeploymentForHost :: "deployment_report list \<Rightarrow> string \<Rightarrow> int \<Rightarrow> nat \<Rightarrow> deployment_report option" where
  "matchDeploymentForHost deployments pinnedID nodePort hostMembers =
     (case (if pinnedID \<noteq> [] then find (\<lambda>d. dr_RuntimeID d = pinnedID) deployments else None) of
        Some d \<Rightarrow> Some d
      | None \<Rightarrow>
          (case (if nodePort > 0 then find (\<lambda>d. dr_Port d = nodePort) deployments else None) of
             Some d \<Rightarrow> Some d
           | None \<Rightarrow>
               (case deployments of
                  [d] \<Rightarrow> if hostMembers = 1 \<and> dr_Port d = 0 then Some d else None
                | _ \<Rightarrow> None)))"

definition derivePrefixCacheHitRate :: "float64 option \<Rightarrow> float64 option \<Rightarrow> agent_fields \<Rightarrow> float64 option \<times> agent_fields" where
  "derivePrefixCacheHitRate queries hits a =
     (let a1 = (if queries \<noteq> None \<and> hits \<noteq> None
                then a\<lparr> af_prevEnginePrefixCacheQueries := queries, af_prevEnginePrefixCacheHits := hits \<rparr>
                else a\<lparr> af_prevEnginePrefixCacheQueries := None, af_prevEnginePrefixCacheHits := None \<rparr>)
      in (case (queries, hits, af_prevEnginePrefixCacheQueries a, af_prevEnginePrefixCacheHits a) of
            (Some q, Some h, Some pq, Some ph) \<Rightarrow>
              if q < pq \<or> h < ph then None
              else
                let deltaQ = fsub q pq; deltaH = fsub h ph in
                if deltaQ \<le> 0 \<or> deltaH > deltaQ then None else Some (fmul (fdiv deltaH deltaQ) 100)
          | _ \<Rightarrow> None, a1))"

section \<open>Clearing what an agent reported\<close>

definition clear_live_fields :: "agent_fields \<Rightarrow> agent_fields" where
  "clear_live_fields a = a\<lparr> af_FanPercent := None, af_RuntimeStatus := [], af_EngineRunningRequests := None,
     af_EngineWaitingRequests := None, af_EngineKVCacheUsagePercent := None, af_EnginePrefixCacheHitRatePercent := None,
     af_prevEnginePrefixCacheQueries := None, af_prevEnginePrefixCacheHits := None, af_DiskFreeGB := 0, af_DiskTotalGB := 0,
     af_RAMUsedMB := 0, af_RAMTotalMB := 0, af_UptimeSeconds := 0, af_BootTime := 0 \<rparr>"

definition clear_live_node :: "node_state \<Rightarrow> node_state" where
  "clear_live_node n = n\<lparr> ns_CPUPercent := 0, ns_AgentGPUs := [] \<rparr>"

definition fallBackAgentVRAM :: "node_state \<Rightarrow> node_state" where
  "fallBackAgentVRAM n =
     (if ns_VRAMTotalMBConfig n > 0
      then n\<lparr> ns_VRAMTotalMB := ns_VRAMTotalMBConfig n, ns_VRAMSource := ''declared'', ns_VRAMUsedMB := 0 \<rparr>
      else n\<lparr> ns_VRAMTotalMB := 0, ns_VRAMSource := ''none'', ns_VRAMUsedMB := 0 \<rparr>)"

definition clear_agent_fields :: "agent_fields \<Rightarrow> agent_fields" where
  "clear_agent_fields a = (clear_live_fields a)\<lparr> af_NodeID := [], af_Version := [], af_Platform := [], af_Architecture := [],
     af_GPUVendor := [], af_GPUCount := 0, af_DriverVersion := [], af_CUDAVersion := [], af_Runtime := [], af_RuntimeVersion := [],
     af_RuntimeID := [], af_Hostname := [], af_DetectedPipelineWidth := 0, af_DetectedDataWidth := 0, af_DetectedSource := [],
     af_DetectedCaps := None, af_DetectedRuntime := [], af_ControlDiscoveredDriver := [], af_ControlDiscoveredIdentifier := [],
     af_ControlDiscoveredEvidence := [] \<rparr>"

definition clear_agent_node :: "node_state \<Rightarrow> node_state" where
  "clear_agent_node n =
     (let n1 = (clear_live_node n)\<lparr> ns_AgentFailures := 0, ns_AgentPresent := False, ns_AgentCapabilities := [],
                  ns_DetectedParallelismType := [], ns_DetectedParallelismWidth := 0, ns_DetectedGPUGroup := [], ns_DetectedGPUScope := None,
                  ns_AgentTelemetryUnknown := False \<rparr>;
          n2 = (if ns_VRAMSource n = ''agent'' then (fallBackAgentVRAM n1)\<lparr> ns_Temperature := None, ns_PowerDrawW := 0 \<rparr> else n1)
      in if ns_AgentPresent n \<and> ns_VRAMSource n \<noteq> ''nvidia'' then n2\<lparr> ns_ThermalBreaches := 0 \<rparr> else n2)"

definition clearAgentTelemetry :: "node_state \<times> agent_fields \<Rightarrow> node_state \<times> agent_fields" where
  "clearAgentTelemetry = (\<lambda>(n, a). (clear_agent_node n, clear_agent_fields a))"

definition applyOversizeTelemetry :: "node_state \<times> agent_fields \<Rightarrow> node_state \<times> agent_fields" where
  "applyOversizeTelemetry = (\<lambda>(n, a).
     let n1 = (clear_live_node n)\<lparr> ns_AgentFailures := 0, ns_AgentPresent := True, ns_AgentStale := False,
                 ns_AgentTelemetryUnknown := True \<rparr>;
         n2 = (if ns_VRAMSource n \<noteq> ''nvidia'' then n1\<lparr> ns_Temperature := None, ns_PowerDrawW := 0, ns_ThermalBreaches := 0 \<rparr> else n1)
     in (if ns_VRAMSource n = ''agent'' then fallBackAgentVRAM n2 else n2, clear_live_fields a))"


section \<open>Applying a report\<close>

definition derefOr :: "float64 option \<Rightarrow> float64 \<Rightarrow> float64" where
  "derefOr p fallback = (case p of Some v \<Rightarrow> v | None \<Rightarrow> fallback)"

definition apply_identity :: "telemetry \<Rightarrow> node_state \<times> agent_fields \<Rightarrow> node_state \<times> agent_fields" where
  "apply_identity t = (\<lambda>(n, a).
     (n\<lparr> ns_AgentFailures := 0, ns_AgentPresent := True, ns_AgentStale := False, ns_AgentTelemetryUnknown := False,
         ns_AgentCapabilities := tm_Capabilities t \<rparr>,
      a\<lparr> af_NodeID := ai_NodeID (tm_Agent t), af_Version := ai_Version (tm_Agent t), af_Platform := ai_Platform (tm_Agent t),
         af_Architecture := ai_Architecture (tm_Agent t),
         af_protocolWarned := af_protocolWarned a \<or> ai_ProtocolVersion (tm_Agent t) > 1 \<rparr>))"

definition apply_host :: "host_telemetry option \<Rightarrow> node_state \<times> agent_fields \<Rightarrow> node_state \<times> agent_fields" where
  "apply_host host = (\<lambda>(n, a).
     case host of
       Some h \<Rightarrow>
         (n\<lparr> ns_CPUPercent := derefOr (ht_CPUPercent h) (ns_CPUPercent n) \<rparr>,
          a\<lparr> af_RAMUsedMB := ht_RAMUsedMB h, af_DiskFreeGB := ht_DiskFreeGB h, af_RAMTotalMB := ht_RAMTotalMB h,
             af_DiskTotalGB := ht_DiskTotalGB h, af_Hostname := ht_Hostname h, af_UptimeSeconds := ht_UptimeSeconds h, af_BootTime := ht_BootTime h \<rparr>)
     | None \<Rightarrow>
         (n\<lparr> ns_CPUPercent := 0 \<rparr>,
          a\<lparr> af_RAMUsedMB := 0, af_DiskFreeGB := 0, af_RAMTotalMB := 0, af_DiskTotalGB := 0, af_Hostname := [], af_UptimeSeconds := 0, af_BootTime := 0 \<rparr>))"

text \<open>The memory of all devices of the report, unless the local NVIDIA reading is the source.\<close>

definition apply_vram :: "gpu_info list \<Rightarrow> node_state \<Rightarrow> node_state" where
  "apply_vram devices n =
     (let totalMB = clampMB (sum_list (map gi_VRAMTotalMB devices));
          usedMB = cap_used totalMB (clampMB (sum_list (map gi_VRAMUsedMB devices)))
      in if totalMB > 0 \<or> usedMB > 0 then n\<lparr> ns_VRAMTotalMB := totalMB, ns_VRAMUsedMB := usedMB, ns_VRAMSource := ''agent'' \<rparr>
         else if ns_VRAMSource n = ''agent'' then fallBackAgentVRAM n else n)"

definition no_device :: "bool \<Rightarrow> node_state \<Rightarrow> node_state" where
  "no_device hasGPU n =
     (if hasGPU then n
      else let n1 = n\<lparr> ns_Temperature := None, ns_PowerDrawW := 0 \<rparr> in
        if ns_VRAMSource n1 = ''agent'' then fallBackAgentVRAM n1 else n1)"

definition apply_gpu :: "bool \<Rightarrow> gpu_block option \<Rightarrow> node_state \<times> agent_fields \<Rightarrow> node_state \<times> agent_fields" where
  "apply_gpu hasGPU gpu = (\<lambda>(n, a).
     case gpu of
       Some g \<Rightarrow>
         (let n1 = n\<lparr> ns_AgentGPUs := gb_Devices g \<rparr>;
              a1 = a\<lparr> af_GPUVendor := gb_Vendor g, af_GPUCount := gb_Count g, af_DriverVersion := gb_DriverVersion g,
                      af_CUDAVersion := gb_CUDAVersion g \<rparr>
          in case gb_Devices g of
               primary # _ \<Rightarrow>
                 (let n2 = (if gi_Model primary \<noteq> [] \<and> (ns_GPUModel n1 = [] \<or> ns_GPUModel n1 = ''Unknown GPU'')
                            then n1\<lparr> ns_GPUModel := gi_Model primary \<rparr> else n1)
                  in (if hasGPU then n2
                      else apply_vram (gb_Devices g)
                             (n2\<lparr> ns_Temperature := gi_TemperatureC primary, ns_PowerDrawW := derefOr (gi_PowerWatts primary) 0 \<rparr>),
                      a1\<lparr> af_FanPercent := gi_FanPercent primary \<rparr>))
             | [] \<Rightarrow> (no_device hasGPU n1, a1\<lparr> af_FanPercent := None \<rparr>))
     | None \<Rightarrow>
         (no_device hasGPU (n\<lparr> ns_AgentGPUs := [] \<rparr>),
          a\<lparr> af_GPUVendor := [], af_GPUCount := 0, af_DriverVersion := [], af_CUDAVersion := [], af_FanPercent := None \<rparr>))"

definition no_engine :: "agent_fields \<Rightarrow> agent_fields" where
  "no_engine a = a\<lparr> af_EngineRunningRequests := None, af_EngineWaitingRequests := None, af_EngineKVCacheUsagePercent := None,
     af_EnginePrefixCacheHitRatePercent := None, af_prevEnginePrefixCacheQueries := None, af_prevEnginePrefixCacheHits := None \<rparr>"

definition apply_runtime :: "runtime_info option \<Rightarrow> string \<Rightarrow> agent_fields \<Rightarrow> agent_fields" where
  "apply_runtime entry matchedID a =
     (case entry of
        Some rt \<Rightarrow>
          (let a1 = a\<lparr> af_Runtime := ri_Name rt, af_RuntimeVersion := ri_Version rt, af_RuntimeStatus := ri_Status rt, af_RuntimeID := matchedID \<rparr>
           in case ri_Engine rt of
                None \<Rightarrow> no_engine a1
              | Some e \<Rightarrow>
                  (case derivePrefixCacheHitRate (es_PrefixCacheQueries e) (es_PrefixCacheHits e)
                          (a1\<lparr> af_EngineRunningRequests := es_RunningRequests e, af_EngineWaitingRequests := es_WaitingRequests e,
                               af_EngineKVCacheUsagePercent := es_KVCacheUsagePercent e \<rparr>) of
                     (rate, a2) \<Rightarrow> a2\<lparr> af_EnginePrefixCacheHitRatePercent := rate \<rparr>))
      | None \<Rightarrow> no_engine (a\<lparr> af_Runtime := [], af_RuntimeVersion := [], af_RuntimeStatus := [], af_RuntimeID := [] \<rparr>))"

definition copyGPUScope :: "scope_report option \<Rightarrow> gpu_scope option" where
  "copyGPUScope s = map_option (\<lambda>c. \<lparr> gs_Indices = gr_Indices c, gs_CrossChecked = gr_CrossChecked c \<rparr>) s"

definition apply_deployment :: "deployment_report option \<Rightarrow> node_state \<times> agent_fields \<Rightarrow> node_state \<times> agent_fields" where
  "apply_deployment dep = (\<lambda>(n, a).
     case dep of
       Some d \<Rightarrow>
         (let p = (case dr_Parallelism d of Some p \<Rightarrow> p | None \<Rightarrow> \<lparr> pi_Type = [], pi_Width = 0, pi_PipelineWidth = 0, pi_DataWidth = 0 \<rparr>)
          in (n\<lparr> ns_DetectedParallelismType := pi_Type p, ns_DetectedParallelismWidth := pi_Width p,
                 ns_DetectedGPUGroup := dr_GPUGroup d, ns_DetectedGPUScope := copyGPUScope (dr_GPUScope d) \<rparr>,
              a\<lparr> af_DetectedRuntime := dr_Runtime d, af_DetectedPipelineWidth := pi_PipelineWidth p, af_DetectedDataWidth := pi_DataWidth p,
                 af_DetectedSource := dr_Source d, af_DetectedCaps := dr_Caps d \<rparr>))
     | None \<Rightarrow>
         (n\<lparr> ns_DetectedParallelismType := [], ns_DetectedParallelismWidth := 0, ns_DetectedGPUGroup := [], ns_DetectedGPUScope := None \<rparr>,
          a\<lparr> af_DetectedRuntime := [], af_DetectedPipelineWidth := 0, af_DetectedDataWidth := 0, af_DetectedSource := [], af_DetectedCaps := None \<rparr>))"

definition apply_control :: "control_info option \<Rightarrow> agent_fields \<Rightarrow> agent_fields" where
  "apply_control control a =
     (case Option.bind control ci_Discovered of
        Some d \<Rightarrow> a\<lparr> af_ControlDiscoveredDriver := cd_Driver d, af_ControlDiscoveredIdentifier := cd_Identifier d,
                     af_ControlDiscoveredEvidence := cd_Evidence d \<rparr>
      | None \<Rightarrow> a\<lparr> af_ControlDiscoveredDriver := [], af_ControlDiscoveredIdentifier := [], af_ControlDiscoveredEvidence := [] \<rparr>)"

text \<open>Whether the node is to be drained for its temperature, and the node.\<close>

definition applyAgentTelemetryLocked ::
  "('a url_lib_scheme) \<Rightarrow> router \<Rightarrow> telemetry \<Rightarrow> nat \<Rightarrow> node_state \<times> agent_fields \<Rightarrow> bool \<times> node_state \<times> agent_fields" where
  "applyAgentTelemetryLocked lib r t hostMembers na =
     (let hasGPU = (ns_VRAMSource (fst na) = ''nvidia'');
          pinnedID = af_RuntimeID (snd na);
          nodePort = portOfOrDefault lib (ns_URL (fst na));
          (entry, matchedID) = matchRuntime t pinnedID nodePort;
          (n1, a1) = apply_gpu hasGPU (tm_GPU t) (apply_host (tm_Host t) (apply_identity t na));
          (n2, a2) = apply_deployment (matchDeploymentForHost (tm_Deployments t) pinnedID nodePort hostMembers)
                       (n1, apply_runtime entry matchedID a1);
          a3 = apply_control (tm_Control t) a2;
          (hot, n3) = trackAgentThermalLocked r (case tm_GPU t of Some g \<Rightarrow> gb_Devices g | None \<Rightarrow> []) (attributeSoleModelVRAM n2)
      in (hot, n3, a3))"


section \<open>Nodes of the fleet\<close>

definition fields_of :: "agent_state \<Rightarrow> string \<Rightarrow> agent_fields" where
  "fields_of s name = gm_at zero_fields (as_fields s) name"

text \<open>Both records of one node are changed under its lock.\<close>

definition upd_agent :: "string \<Rightarrow> (node_state \<times> agent_fields \<Rightarrow> node_state \<times> agent_fields) \<Rightarrow> agent_state \<Rightarrow> agent_state" where
  "upd_agent name f s =
     (case FindNode (as_router s) name of
        None \<Rightarrow> s
      | Some n \<Rightarrow>
          (case f (n, fields_of s name) of
             (n', a') \<Rightarrow> s\<lparr> as_router := upd_node name (\<lambda>_. n') (as_router s), as_fields := gm_put name a' (as_fields s) \<rparr>))"

definition setAgentTLSMismatch :: "bool \<Rightarrow> string \<Rightarrow> agent_state \<Rightarrow> agent_state" where
  "setAgentTLSMismatch mismatch name = upd_agent name (\<lambda>(n, a). (n, a\<lparr> af_TLSMismatch := mismatch \<rparr>))"

definition setAgentStale :: "bool \<Rightarrow> string \<Rightarrow> agent_state \<Rightarrow> agent_state" where
  "setAgentStale stale name = upd_agent name (\<lambda>(n, a). (n\<lparr> ns_AgentStale := stale \<rparr>, a))"

definition applyAgentTelemetryForHost :: "('a url_lib_scheme) \<Rightarrow> telemetry \<Rightarrow> nat \<Rightarrow> string \<Rightarrow> agent_state \<Rightarrow> agent_state" where
  "applyAgentTelemetryForHost lib t hostMembers name s =
     (case FindNode (as_router s) name of
        None \<Rightarrow> s
      | Some n \<Rightarrow>
          (let s1 = upd_agent name (\<lambda>na. snd (applyAgentTelemetryLocked lib (as_router s) t hostMembers na)) s
           in if fst (applyAgentTelemetryLocked lib (as_router s) t hostMembers (n, fields_of s name))
              then s1\<lparr> as_router := thermalDrain name (as_router s1) \<rparr> else s1))"

definition agent_event :: "bool \<Rightarrow> string \<Rightarrow> router \<Rightarrow> router" where
  "agent_event up name r =
     (case FindNode r name of
        None \<Rightarrow> r
      | Some n \<Rightarrow>
          (let prev = gm_get (r_prevAgentPresent r) name in
           if up then
             (let r1 = r\<lparr> r_prevAgentPresent := gm_put name True (r_prevAgentPresent r) \<rparr>
              in if prev = Some False then fireWebhook ''agent_up'' name (ns_URL n) r1 else r1)
           else if prev = Some True
           then fireWebhook ''agent_down'' name (ns_URL n) (r\<lparr> r_prevAgentPresent := gm_put name False (r_prevAgentPresent r) \<rparr>)
           else r))"

definition agentReachable :: "string \<Rightarrow> agent_state \<Rightarrow> agent_state" where
  "agentReachable name s = s\<lparr> as_router := agent_event True name (as_router s) \<rparr>"

definition agentUnreachable :: "string \<Rightarrow> agent_state \<Rightarrow> agent_state" where
  "agentUnreachable name s =
     (case FindNode (as_router s) name of
        None \<Rightarrow> s
      | Some n \<Rightarrow>
          (let s1 = upd_agent name (\<lambda>(n, a). (n\<lparr> ns_AgentFailures := ns_AgentFailures n + 1 \<rparr>, a)) s
           in if \<not> ns_AgentFailures n + 1 \<ge> r_healthFailureThreshold (as_router s) then s1
              else
                let s2 = setAgentStale True name (upd_agent name clearAgentTelemetry (DropHostEvidence (ns_Host n) s1))
                in s2\<lparr> as_router := agent_event False name (as_router s2) \<rparr>))"

section \<open>Polling the agents\<close>

fun dec_digits :: "nat \<Rightarrow> string" where
  "dec_digits n = (if n < 10 then [char_of (48 + n)] else dec_digits (n div 10) @ [char_of (48 + n mod 10)])"

declare dec_digits.simps [simp del]

definition itoa :: "int \<Rightarrow> string" where
  "itoa i = (if i < 0 then ''-'' @ dec_digits (nat (- i)) else dec_digits (nat i))"

definition buildAgentURL :: "('a url_lib_scheme) \<Rightarrow> string \<Rightarrow> int \<Rightarrow> string \<Rightarrow> string option" where
  "buildAgentURL lib host0 port scheme0 =
     (let host1 = (case ul_Parse lib host0 of Some u \<Rightarrow> if u_Hostname u \<noteq> [] then u_Hostname u else host0 | None \<Rightarrow> host0);
          scheme = (if scheme0 = [] then ''http'' else scheme0);
          host = (if ul_ParseIP lib host1 \<noteq> None \<and> CHR '':'' \<in> set host1 then ''['' @ host1 @ '']'' else host1)
      in if host1 = [] then None else Some (scheme @ ''://'' @ host @ '':'' @ itoa port @ ''/v1/status''))"

definition maxAgentStatusBodyBytes :: nat where "maxAgentStatusBodyBytes = 8 * 2 ^ 20"

definition looksLikeJSONObject :: "string \<Rightarrow> bool" where
  "looksLikeJSONObject body =
     (case dropWhile (\<lambda>c. (of_char c :: nat) \<in> {32, 9, 13, 10}) body of [] \<Rightarrow> False | c # _ \<Rightarrow> c = CHR ''{'')"

definition looksLikeAgentReport :: "telemetry \<Rightarrow> bool" where
  "looksLikeAgentReport t \<longleftrightarrow> ai_ProtocolVersion (tm_Agent t) \<noteq> 0 \<or> ai_Platform (tm_Agent t) \<noteq> [] \<or> ai_Version (tm_Agent t) \<noteq> []
     \<or> \<not> time_is_zero (tm_LastUpdated t)"

text \<open>
  What a status request comes back with: a request that cannot be built, a failed dial (for a wrong TLS
  fingerprint or not), a status other than 200, a body that cannot be read, or at most one byte more than the limit of it.
\<close>

datatype agent_reply = BadRequest | DialError bool | BadStatus int | ReadError | ReplyBody string

record agent_env =
  ae_lib :: url_lib
  ae_fetch :: "string \<Rightarrow> string \<Rightarrow> agent_reply"
  ae_decode :: "string \<Rightarrow> telemetry option"

definition logAgentPoll :: "gotime \<Rightarrow> string \<Rightarrow> string \<Rightarrow> agent_state \<Rightarrow> agent_state" where
  "logAgentPoll now host kind s = snd (allowHostLog now (kind @ '':'' @ host) s)"

definition all_unreachable :: "bool \<Rightarrow> string list \<Rightarrow> agent_state \<Rightarrow> agent_state" where
  "all_unreachable mismatch members = fold (\<lambda>name s. agentUnreachable name (setAgentTLSMismatch mismatch name s)) members"

definition evidence_of :: "gotime \<Rightarrow> string \<Rightarrow> telemetry \<Rightarrow> host_evidence" where
  "evidence_of now host t = \<lparr> he_Host = host, he_Hostname = (case tm_Host t of Some h \<Rightarrow> ht_Hostname h | None \<Rightarrow> []),
     he_Addrs = (case tm_Host t of Some h \<Rightarrow> ht_Addrs h | None \<Rightarrow> []), he_Capabilities = tm_Capabilities t,
     he_Deployments = tm_Deployments t, he_PolledAt = now \<rparr>"

definition accept_report :: "agent_env \<Rightarrow> gotime \<Rightarrow> string \<Rightarrow> string list \<Rightarrow> telemetry \<Rightarrow> agent_state \<Rightarrow> agent_state" where
  "accept_report env now host members t s =
     fold (\<lambda>name s. agentReachable name (applyAgentTelemetryForHost (ae_lib env) t (length members) name (setAgentTLSMismatch False name s)))
       members (RecordHostEvidence now (evidence_of now host t) s)"

definition handle_body :: "agent_env \<Rightarrow> gotime \<Rightarrow> string \<Rightarrow> string list \<Rightarrow> string \<Rightarrow> agent_state \<Rightarrow> agent_state" where
  "handle_body env now host members body s =
     (if length body > maxAgentStatusBodyBytes then
        let s1 = snd (allowHostLog now (''oversize:'' @ host) s) in
        if \<not> looksLikeJSONObject body then all_unreachable False members s1
        else fold (\<lambda>name s. agentReachable name (upd_agent name applyOversizeTelemetry (setAgentTLSMismatch False name s))) members
               (dropHostEvidenceOnly host s1)
      else case ae_decode env body of
        None \<Rightarrow> all_unreachable False members (logAgentPoll now host ''decode'' s)
      | Some t0 \<Rightarrow>
          if \<not> looksLikeAgentReport t0 then all_unreachable False members (logAgentPoll now host ''notagent'' s)
          else let t = sanitizeTelemetry t0 in
            if TrimSpace (ai_NodeID (tm_Agent t)) = [] then all_unreachable False members (logAgentPoll now host ''nonodeid'' s)
            else accept_report env now host members t s)"

definition pollAgentHost :: "agent_env \<Rightarrow> gotime \<Rightarrow> string \<Rightarrow> marbor_agent_config \<Rightarrow> string list \<Rightarrow> agent_state \<Rightarrow> agent_state" where
  "pollAgentHost env now host cfg members s =
     (if members = [] then s
      else case buildAgentURL (ae_lib env) host (ma_Port cfg) (ma_Scheme cfg) of
        None \<Rightarrow> all_unreachable False members (logAgentPoll now host ''badurl'' s)
      | Some agentURL \<Rightarrow>
          (case ae_fetch env agentURL (ma_Token cfg) of
             BadRequest \<Rightarrow> all_unreachable False members (logAgentPoll now host ''badreq'' s)
           | DialError mismatch \<Rightarrow> all_unreachable mismatch members (logAgentPoll now host (if mismatch then ''mismatch'' else ''dial'') s)
           | BadStatus _ \<Rightarrow> all_unreachable False members (logAgentPoll now host ''status'' s)
           | ReadError \<Rightarrow> all_unreachable False members (snd (allowHostLog now (''read:'' @ host) s))
           | ReplyBody body \<Rightarrow> handle_body env now host members body s))"

definition agent_config :: "router \<Rightarrow> string \<Rightarrow> marbor_agent_config option" where
  "agent_config r host =
     (case gm_get (r_marborAgents r) host of Some cfg \<Rightarrow> if ma_Enabled cfg then Some cfg else None | None \<Rightarrow> None)"

definition without_agent :: "string \<Rightarrow> agent_state \<Rightarrow> agent_state" where
  "without_agent name s =
     (let s1 = setAgentTLSMismatch False name (setAgentStale False name (upd_agent name clearAgentTelemetry s))
      in s1\<lparr> as_router := (as_router s1)\<lparr> r_prevAgentPresent := gm_del name (r_prevAgentPresent (as_router s1)) \<rparr> \<rparr>)"

text \<open>The hosts are polled concurrently; \<open>order\<close> lists them in the order in which their polls complete.\<close>

definition pollAgentHosts :: "agent_env \<Rightarrow> gotime \<Rightarrow> string list \<Rightarrow> agent_state \<Rightarrow> agent_state" where
  "pollAgentHosts env now order s =
     (let nodes = r_nodes (as_router s);
          cfgs = agent_config (as_router s);
          members = (\<lambda>host. map ns_Name (filter (\<lambda>n. ns_Host n = host) nodes));
          s1 = fold (\<lambda>n. without_agent (ns_Name n)) (filter (\<lambda>n. cfgs (ns_Host n) = None) nodes) s;
          hosts = filter (\<lambda>h. cfgs h \<noteq> None) (remdups (map ns_Host nodes));
          s2 = fold (\<lambda>host s. case cfgs host of None \<Rightarrow> s | Some cfg \<Rightarrow> pollAgentHost env now host cfg (members host) s)
                 (filter (\<lambda>h. h \<in> set hosts) order) s1
      in dropHostEvidenceNotIn now hosts s2)"


section \<open>What is stored is well formed\<close>

definition node_fields_ok :: "node_state \<Rightarrow> bool" where
  "node_fields_ok n \<longleftrightarrow> list_all (device_ok str_ok) (ns_AgentGPUs n) \<and> strs_ok str_ok (ns_AgentCapabilities n)
     \<and> 0 \<le> ns_CPUPercent n \<and> ns_CPUPercent n \<le> 100
     \<and> (ns_VRAMSource n = ''agent'' \<longrightarrow> memory_ok (ns_VRAMUsedMB n) (ns_VRAMTotalMB n))
     \<and> str_ok (ns_DetectedParallelismType n) \<and> count_ok (ns_DetectedParallelismWidth n) \<and> indices_ok (ns_DetectedGPUGroup n)
     \<and> pred_option (\<lambda>sc. indices_ok (gs_Indices sc)) (ns_DetectedGPUScope n)"

definition agent_fields_ok :: "agent_fields \<Rightarrow> bool" where
  "agent_fields_ok a \<longleftrightarrow> list_all str_ok [af_NodeID a, af_Version a, af_Platform a, af_Architecture a, af_Hostname a, af_GPUVendor a,
       af_DriverVersion a, af_CUDAVersion a, af_Runtime a, af_RuntimeVersion a, af_RuntimeStatus a, af_RuntimeID a, af_DetectedRuntime a,
       af_DetectedSource a, af_ControlDiscoveredDriver a, af_ControlDiscoveredIdentifier a]
     \<and> strs_ok str_ok (af_ControlDiscoveredEvidence a) \<and> memory_ok (af_RAMUsedMB a) (af_RAMTotalMB a)
     \<and> disk_ok (af_DiskFreeGB a) \<and> disk_ok (af_DiskTotalGB a) \<and> seconds_ok (af_UptimeSeconds a) \<and> seconds_ok (af_BootTime a)
     \<and> 0 \<le> af_GPUCount a \<and> af_GPUCount a \<le> int maxTelemetryListLen \<and> percent_ok (af_FanPercent a)
     \<and> pred_option count_ok (af_EngineRunningRequests a) \<and> pred_option count_ok (af_EngineWaitingRequests a)
     \<and> percent_ok (af_EngineKVCacheUsagePercent a) \<and> percent_ok (af_EnginePrefixCacheHitRatePercent a)
     \<and> count_ok (af_DetectedPipelineWidth a) \<and> count_ok (af_DetectedDataWidth a)
     \<and> pred_option (\<lambda>c. count_ok (rc_MaxTPWidth c)) (af_DetectedCaps a)"

definition both_ok :: "node_state \<times> agent_fields \<Rightarrow> bool" where
  "both_ok na \<longleftrightarrow> node_fields_ok (fst na) \<and> agent_fields_ok (snd na)"

lemma zeros_ok: "str_ok []" "strs_ok P []" "count_ok 0" "memory_ok 0 0" "disk_ok 0" "seconds_ok 0" "percent_ok None" "indices_ok []"
  by (simp_all add: str_ok_def runes.simps strs_ok_def count_ok_def memory_ok_def disk_ok_def seconds_ok_def percent_ok_def indices_ok_def bounds)

lemma zero_fields_ok: "agent_fields_ok zero_fields"
  by (simp add: agent_fields_ok_def zero_fields_def zeros_ok)

text \<open>A rate is a percentage: rounding is monotone and exact at 1 and 100.\<close>

lemma hit_rate_percent:
  assumes "derivePrefixCacheHitRate q h a = (rate, a')"
  shows "percent_ok rate" "a' = a\<lparr> af_prevEnginePrefixCacheQueries := af_prevEnginePrefixCacheQueries a', af_prevEnginePrefixCacheHits := af_prevEnginePrefixCacheHits a' \<rparr>"
proof -
  have "0 \<le> fmul (fdiv x y) 100 \<and> fmul (fdiv x y) 100 \<le> 100" if "0 \<le> x" "0 < y" "x \<le> y" for x y :: float64
  proof -
    have "0 \<le> fdiv x y" using that by (simp add: fdiv_def fl_nonneg)
    moreover have "fdiv x y \<le> 1" using that fl_mono [of "x / y" 1] fl_of_int [of 1] by (simp add: fdiv_def)
    ultimately show ?thesis using fl_mono [of "fdiv x y * 100" 100] fl_of_int [of 100] by (simp add: fmul_def fl_nonneg)
  qed
  moreover have "0 \<le> fsub u v" if "\<not> u < v" for u v using that by (simp add: fsub_def fl_nonneg)
  ultimately show "percent_ok rate" using assms
    by (auto simp: derivePrefixCacheHitRate_def percent_ok_def Let_def not_less split: option.splits if_splits)
  show "a' = a\<lparr> af_prevEnginePrefixCacheQueries := af_prevEnginePrefixCacheQueries a', af_prevEnginePrefixCacheHits := af_prevEnginePrefixCacheHits a' \<rparr>"
    using assms by (auto simp: derivePrefixCacheHitRate_def Let_def)
qed

lemma agent_fields_ok_prev [simp]:
  "agent_fields_ok (a\<lparr> af_prevEnginePrefixCacheQueries := x \<rparr>) = agent_fields_ok a" "agent_fields_ok (a\<lparr> af_prevEnginePrefixCacheHits := y \<rparr>) = agent_fields_ok a"
  "agent_fields_ok (a\<lparr> af_TLSMismatch := z \<rparr>) = agent_fields_ok a" "agent_fields_ok (a\<lparr> af_protocolWarned := z \<rparr>) = agent_fields_ok a"
  by (simp_all add: agent_fields_ok_def)

lemma cleared_ok:
  "both_ok na \<Longrightarrow> both_ok (clearAgentTelemetry na)" "both_ok na \<Longrightarrow> both_ok (applyOversizeTelemetry na)"
proof -
  have v: "node_fields_ok n \<Longrightarrow> node_fields_ok (fallBackAgentVRAM n)" for n by (simp add: node_fields_ok_def fallBackAgentVRAM_def)
  have l: "node_fields_ok n \<Longrightarrow> node_fields_ok (clear_live_node n)" for n by (simp add: node_fields_ok_def clear_live_node_def)
  have lf: "agent_fields_ok a \<Longrightarrow> agent_fields_ok (clear_live_fields a)" for a
    by (simp add: agent_fields_ok_def clear_live_fields_def zeros_ok)
  have t: "node_fields_ok (n\<lparr> ns_Temperature := x, ns_PowerDrawW := y \<rparr>) = node_fields_ok n" "node_fields_ok (n\<lparr> ns_ThermalBreaches := k \<rparr>) = node_fields_ok n" for n x y k
    by (simp_all add: node_fields_ok_def)
  show "both_ok (clearAgentTelemetry na)" if "both_ok na"
  proof -
    have n: "node_fields_ok (fst na)" and a: "agent_fields_ok (snd na)" using that by (simp_all add: both_ok_def)
    have "node_fields_ok ((clear_live_node (fst na))\<lparr> ns_AgentFailures := 0, ns_AgentPresent := False, ns_AgentCapabilities := [],
        ns_DetectedParallelismType := [], ns_DetectedParallelismWidth := 0, ns_DetectedGPUGroup := [], ns_DetectedGPUScope := None,
        ns_AgentTelemetryUnknown := False \<rparr>)" using l [OF n] by (simp add: node_fields_ok_def zeros_ok)
    then have "node_fields_ok (clear_agent_node (fst na))" using v by (simp add: clear_agent_node_def Let_def t)
    moreover have "agent_fields_ok (clear_agent_fields (snd na))" using lf [OF a] by (simp add: clear_agent_fields_def agent_fields_ok_def zeros_ok)
    ultimately show ?thesis by (simp add: clearAgentTelemetry_def both_ok_def case_prod_beta)
  qed
  show "both_ok (applyOversizeTelemetry na)" if "both_ok na"
  proof -
    have n: "node_fields_ok (fst na)" and a: "agent_fields_ok (snd na)" using that by (simp_all add: both_ok_def)
    have "node_fields_ok ((clear_live_node (fst na))\<lparr> ns_AgentFailures := 0, ns_AgentPresent := True, ns_AgentStale := False,
        ns_AgentTelemetryUnknown := True \<rparr>)" using l [OF n] by (simp add: node_fields_ok_def)
    then show ?thesis using v lf [OF a] by (simp add: applyOversizeTelemetry_def both_ok_def case_prod_beta Let_def t)
  qed
qed


lemma telemetry_parts:
  assumes "telemetry_ok str_ok t"
  shows "agent_ok str_ok (tm_Agent t)" "strs_ok str_ok (tm_Capabilities t)" "pred_option (host_ok str_ok) (tm_Host t)"
    "pred_option (gpu_ok str_ok) (tm_GPU t)" "pred_option (runtime_ok str_ok) (tm_Runtime t)" "\<forall>rt \<in> set (tm_Runtimes t). runtime_ok str_ok rt"
    "pred_option (control_ok str_ok) (tm_Control t)" "\<forall>d \<in> set (tm_Deployments t). deployment_ok str_ok d"
  using assms by (simp_all add: telemetry_ok_def list_all_iff)

lemma apply_identity_ok:
  "telemetry_ok str_ok t \<Longrightarrow> both_ok na \<Longrightarrow> both_ok (apply_identity t na)"
  using telemetry_parts(1,2) [of t]
  by (cases na) (simp add: both_ok_def apply_identity_def node_fields_ok_def agent_fields_ok_def agent_ok_def)

lemma apply_host_ok: "pred_option (host_ok str_ok) h \<Longrightarrow> both_ok na \<Longrightarrow> both_ok (apply_host h na)"
  by (cases na; cases h) (auto simp: both_ok_def apply_host_def node_fields_ok_def agent_fields_ok_def host_ok_def zeros_ok derefOr_def
      percent_ok_def split: option.split)

lemma apply_vram_ok: "node_fields_ok n \<Longrightarrow> node_fields_ok (apply_vram ds n)"
  using memory_san(1) [of "sum_list (map gi_VRAMTotalMB ds)" "sum_list (map gi_VRAMUsedMB ds)"]
  by (auto simp: apply_vram_def Let_def node_fields_ok_def fallBackAgentVRAM_def)

lemma apply_gpu_ok:
  assumes "pred_option (gpu_ok str_ok) g" "both_ok na"
  shows "both_ok (apply_gpu hasGPU g na)"
proof -
  obtain n a where na: "na = (n, a)" by (cases na)
  have n: "node_fields_ok n" and a: "agent_fields_ok a" using assms(2) by (simp_all add: na both_ok_def)
  have nd: "node_fields_ok m \<Longrightarrow> node_fields_ok (no_device hasGPU m)" for m
    by (auto simp: no_device_def Let_def node_fields_ok_def fallBackAgentVRAM_def)
  have g: "node_fields_ok (n\<lparr> ns_AgentGPUs := ds \<rparr>)" if "list_all (device_ok str_ok) ds" for ds using n that by (simp add: node_fields_ok_def)
  have m: "node_fields_ok (k\<lparr> ns_GPUModel := x \<rparr>) = node_fields_ok k" "node_fields_ok (k\<lparr> ns_Temperature := y, ns_PowerDrawW := z \<rparr>) = node_fields_ok k" for k x y z
    by (simp_all add: node_fields_ok_def)
  show ?thesis
  proof (cases g)
    case None
    then show ?thesis using nd [OF g [of "[]"]] a by (simp add: apply_gpu_def na both_ok_def agent_fields_ok_def zeros_ok)
  next
    case (Some b)
    then have b: "gpu_ok str_ok b" using assms(1) by simp
    then have ds: "node_fields_ok (n\<lparr> ns_AgentGPUs := gb_Devices b \<rparr>)" using g by (simp add: gpu_ok_def)
    have f: "agent_fields_ok (a\<lparr> af_GPUVendor := gb_Vendor b, af_GPUCount := gb_Count b, af_DriverVersion := gb_DriverVersion b,
        af_CUDAVersion := gb_CUDAVersion b, af_FanPercent := p \<rparr>)" if "percent_ok p" for p
      using a b that by (simp add: agent_fields_ok_def gpu_ok_def)
    show ?thesis
    proof (cases "gb_Devices b")
      case Nil
      then show ?thesis using Some nd [OF ds] f [of None] by (simp add: apply_gpu_def na both_ok_def zeros_ok Let_def)
    next
      case (Cons d dd)
      then have "percent_ok (gi_FanPercent d)" using b by (simp add: gpu_ok_def device_ok_def)
      then show ?thesis using Some Cons ds f apply_vram_ok m by (simp add: apply_gpu_def na both_ok_def Let_def)
    qed
  qed
qed

lemma apply_runtime_ok:
  assumes "pred_option (runtime_ok str_ok) e" "str_ok i" "agent_fields_ok a"
  shows "agent_fields_ok (apply_runtime e i a)"
proof (cases e)
  case None
  then show ?thesis using assms(3) by (simp add: apply_runtime_def no_engine_def agent_fields_ok_def zeros_ok)
next
  case (Some rt)
  then have rt: "runtime_ok str_ok rt" using assms(1) by simp
  define a1 where "a1 = a\<lparr> af_Runtime := ri_Name rt, af_RuntimeVersion := ri_Version rt, af_RuntimeStatus := ri_Status rt, af_RuntimeID := i \<rparr>"
  have a1: "agent_fields_ok a1" using assms(2,3) rt by (simp add: a1_def agent_fields_ok_def runtime_ok_def)
  show ?thesis
  proof (cases "ri_Engine rt")
    case None
    then show ?thesis using Some a1 by (simp add: apply_runtime_def a1_def [symmetric] no_engine_def agent_fields_ok_def zeros_ok)
  next
    case e: (Some e)
    have en: "engine_ok e" using rt e by (simp add: runtime_ok_def)
    define a2 where "a2 = a1\<lparr> af_EngineRunningRequests := es_RunningRequests e, af_EngineWaitingRequests := es_WaitingRequests e,
      af_EngineKVCacheUsagePercent := es_KVCacheUsagePercent e \<rparr>"
    have a2: "agent_fields_ok a2" using a1 en by (simp add: a2_def agent_fields_ok_def engine_ok_def)
    obtain rate a3 where d: "derivePrefixCacheHitRate (es_PrefixCacheQueries e) (es_PrefixCacheHits e) a2 = (rate, a3)" by (metis surj_pair)
    note hr = hit_rate_percent [OF d]
    have "agent_fields_ok a3" using a2 by (subst hr(2)) simp
    then have "agent_fields_ok (a3\<lparr> af_EnginePrefixCacheHitRatePercent := rate \<rparr>)" using hr(1) by (simp add: agent_fields_ok_def)
    then show ?thesis using d by (simp add: apply_runtime_def Some e a1_def [symmetric] a2_def [symmetric] Let_def)
  qed
qed

lemma apply_deployment_ok:
  assumes "pred_option (deployment_ok str_ok) d" "both_ok na"
  shows "both_ok (apply_deployment d na)"
proof (cases d)
  case None
  then show ?thesis using assms(2) by (cases na) (simp add: both_ok_def apply_deployment_def node_fields_ok_def agent_fields_ok_def zeros_ok)
next
  case (Some e)
  then have "deployment_ok str_ok e" using assms(1) by simp
  then have e: "str_ok (dr_Runtime e)" "indices_ok (dr_GPUGroup e)" "str_ok (dr_Source e)" "pred_option (\<lambda>c. count_ok (rc_MaxTPWidth c)) (dr_Caps e)"
    "pred_option (\<lambda>sc. indices_ok (gs_Indices sc)) (copyGPUScope (dr_GPUScope e))" "pred_option (parallelism_ok str_ok) (dr_Parallelism e)"
    by (auto simp: deployment_ok_def copyGPUScope_def option.pred_map scope_ok_def elim!: option.pred_mono_strong)
  then show ?thesis using assms(2) Some
    by (cases na; cases "dr_Parallelism e") (simp_all add: both_ok_def apply_deployment_def node_fields_ok_def agent_fields_ok_def zeros_ok parallelism_ok_def)
qed

lemma apply_control_ok: "pred_option (control_ok str_ok) c \<Longrightarrow> agent_fields_ok a \<Longrightarrow> agent_fields_ok (apply_control c a)"
  by (cases c) (auto simp: apply_control_def agent_fields_ok_def zeros_ok control_ok_def discovery_ok_def split: option.split)


lemma matchRuntime_ok:
  assumes "telemetry_ok str_ok t" "str_ok pin" "matchRuntime t pin port = (entry, i)"
  shows "pred_option (runtime_ok str_ok) entry" "str_ok i"
proof -
  have f: "find p (tm_Runtimes t) = Some x \<Longrightarrow> runtime_ok str_ok x" for p x
    using telemetry_parts(6) [OF assms(1)] by (auto simp: find_Some_iff)
  have i: "runtime_ok str_ok x \<Longrightarrow> str_ok (ri_ID x)" for x by (simp add: runtime_ok_def)
  show "pred_option (runtime_ok str_ok) entry" "str_ok i"
    using assms(2,3) f i telemetry_parts(5) [OF assms(1)] by (auto simp: matchRuntime_def split: option.splits if_splits)
qed

lemma matchDeployment_ok:
  assumes "telemetry_ok str_ok t"
  shows "pred_option (deployment_ok str_ok) (matchDeploymentForHost (tm_Deployments t) pin port k)"
proof -
  have f: "find p (tm_Deployments t) = Some x \<Longrightarrow> deployment_ok str_ok x" for p x
    using telemetry_parts(8) [OF assms] by (auto simp: find_Some_iff)
  show ?thesis using f telemetry_parts(8) [OF assms]
    by (auto simp: matchDeploymentForHost_def split: option.splits list.splits if_splits)
qed

lemma node_fields_ok_frame: "node_fields_ok (attributeSoleModelVRAM n) = node_fields_ok n" "node_fields_ok (snd (trackAgentThermalLocked r ds n)) = node_fields_ok n"
  by (auto simp: attributeSoleModelVRAM_def trackAgentThermalLocked_def thermal_reading_def node_fields_ok_def Let_def
      split: list.split option.split prod.split)

lemma apply_telemetry_ok:
  assumes "telemetry_ok str_ok t" "both_ok na"
  shows "both_ok (snd (applyAgentTelemetryLocked lib r t k na))"
proof -
  define pin where "pin = af_RuntimeID (snd na)"
  define port where "port = portOfOrDefault lib (ns_URL (fst na))"
  obtain entry i where m: "matchRuntime t pin port = (entry, i)" by (metis surj_pair)
  obtain n1 a1 where g: "apply_gpu (ns_VRAMSource (fst na) = ''nvidia'') (tm_GPU t) (apply_host (tm_Host t) (apply_identity t na)) = (n1, a1)" by (metis surj_pair)
  obtain n2 a2 where d: "apply_deployment (matchDeploymentForHost (tm_Deployments t) pin port k) (n1, apply_runtime entry i a1) = (n2, a2)" by (metis surj_pair)
  have "str_ok pin" using assms(2) by (simp add: pin_def both_ok_def agent_fields_ok_def)
  note mo = matchRuntime_ok [OF assms(1) this m]
  have 1: "both_ok (n1, a1)"
    unfolding g [symmetric] by (intro apply_gpu_ok apply_host_ok apply_identity_ok assms telemetry_parts(3,4) [OF assms(1)])
  then have "both_ok (n1, apply_runtime entry i a1)" using apply_runtime_ok [OF mo] by (simp add: both_ok_def)
  then have 2: "both_ok (n2, a2)" unfolding d [symmetric] by (intro apply_deployment_ok matchDeployment_ok assms(1))
  have "snd (applyAgentTelemetryLocked lib r t k na) =
      (snd (trackAgentThermalLocked r (case tm_GPU t of Some g \<Rightarrow> gb_Devices g | None \<Rightarrow> []) (attributeSoleModelVRAM n2)), apply_control (tm_Control t) a2)"
    unfolding applyAgentTelemetryLocked_def Let_def pin_def [symmetric] port_def [symmetric] m g prod.case d by (simp add: case_prod_beta)
  then show ?thesis
    using 2 apply_control_ok [OF telemetry_parts(7) [OF assms(1)], of a2] by (simp add: both_ok_def node_fields_ok_frame)
qed

lemma apply_telemetry_name: "ns_Name (fst (snd (applyAgentTelemetryLocked lib r t k na))) = ns_Name (fst na)"
proof -
  have f: "ns_Name (fallBackAgentVRAM n) = ns_Name n" "ns_Name (apply_vram ds n) = ns_Name n" "ns_Name (no_device b n) = ns_Name n"
    "ns_Name (attributeSoleModelVRAM n) = ns_Name n" "ns_Name (snd (trackAgentThermalLocked r ds n)) = ns_Name n" for n ds b
    by (auto simp: fallBackAgentVRAM_def apply_vram_def no_device_def attributeSoleModelVRAM_def trackAgentThermalLocked_def
        thermal_reading_def Let_def split: list.split option.split prod.split)
  have g: "ns_Name (fst (apply_gpu b gp na)) = ns_Name (fst na)" "ns_Name (fst (apply_host h na)) = ns_Name (fst na)"
    "ns_Name (fst (apply_identity t na)) = ns_Name (fst na)" "ns_Name (fst (apply_deployment d na)) = ns_Name (fst na)" for b gp h na d
    by (cases na; auto simp: apply_gpu_def apply_host_def apply_identity_def apply_deployment_def Let_def f split: option.split list.split)+
  show ?thesis
    unfolding applyAgentTelemetryLocked_def Let_def
    by (simp add: case_prod_beta f g)
qed

section \<open>The invariant over all nodes\<close>

definition agent_inv :: "agent_state \<Rightarrow> bool" where
  "agent_inv s \<longleftrightarrow> distinct (map ns_Name (r_nodes (as_router s)))
     \<and> (\<forall>n \<in> set (r_nodes (as_router s)). both_ok (n, fields_of s (ns_Name n)))"

lemma agent_inv_upd:
  assumes "agent_inv s" "\<And>na. both_ok na \<Longrightarrow> both_ok (f na)" "\<And>na. ns_Name (fst (f na)) = ns_Name (fst na)"
  shows "agent_inv (upd_agent name f s)"
proof (cases "FindNode (as_router s) name")
  case None
  then show ?thesis using assms(1) by (simp add: upd_agent_def)
next
  case (Some n)
  have nm: "ns_Name n = name" "n \<in> set (r_nodes (as_router s))" using FindNode_Some [OF Some] by auto
  obtain n' a' where na: "f (n, fields_of s name) = (n', a')" by (metis surj_pair)
  have d: "distinct (map ns_Name (r_nodes (as_router s)))" using assms(1) by (simp add: agent_inv_def)
  have ok: "both_ok (n', a')" unfolding na [symmetric] using assms(1,2) nm by (auto simp: agent_inv_def)
  have n': "ns_Name n' = name" using assms(3) [of "(n, fields_of s name)"] na nm(1) by simp
  have nodes: "r_nodes (upd_node name (\<lambda>_. n') (as_router s)) = map (\<lambda>x. if ns_Name x = name then n' else x) (r_nodes (as_router s))"
    by (simp add: upd_node_def upd_first_unique [OF d])
  have names: "map ns_Name (map (\<lambda>x. if ns_Name x = name then n' else x) xs) = map ns_Name xs" for xs using n' by simp
  have fo: "fields_of (upd_agent name f s) x = (if x = name then a' else fields_of s x)" for x
    using Some na by (simp add: upd_agent_def fields_of_def gm_at_def gm_get_put)
  have rt: "as_router (upd_agent name f s) = upd_node name (\<lambda>_. n') (as_router s)" using Some na by (simp add: upd_agent_def)
  have "both_ok (x, fields_of (upd_agent name f s) (ns_Name x))" if "x \<in> set (r_nodes (as_router (upd_agent name f s)))" for x
    using that assms(1) ok n' by (auto simp: rt nodes fo agent_inv_def split: if_splits)
  then show ?thesis using d unfolding agent_inv_def rt nodes names by simp
qed

lemma agent_inv_router:
  assumes "agent_inv s" "map (\<lambda>n. (ns_Name n, node_fields_ok n)) (r_nodes r) = map (\<lambda>n. (ns_Name n, node_fields_ok n)) (r_nodes (as_router s))"
  shows "agent_inv (s\<lparr> as_router := r \<rparr>)"
proof -
  have n: "map ns_Name (r_nodes r) = map ns_Name (r_nodes (as_router s))" using arg_cong [OF assms(2), of "map fst"] by (simp add: comp_def)
  have "both_ok (x, fields_of s (ns_Name x))" if "x \<in> set (r_nodes r)" for x
  proof -
    have "(ns_Name x, node_fields_ok x) \<in> set (map (\<lambda>n. (ns_Name n, node_fields_ok n)) (r_nodes (as_router s)))"
      unfolding assms(2) [symmetric] using that by simp
    then obtain y where "y \<in> set (r_nodes (as_router s))" "ns_Name y = ns_Name x" "node_fields_ok y = node_fields_ok x" by auto
    then show ?thesis using assms(1) by (force simp: agent_inv_def both_ok_def)
  qed
  then show ?thesis using assms(1) n by (simp add: agent_inv_def fields_of_def)
qed

lemma agent_inv_frame [simp]:
  "agent_inv (s\<lparr> as_hostEvidence := e \<rparr>) = agent_inv s" "agent_inv (s\<lparr> as_hostLogAt := l \<rparr>) = agent_inv s"
  by (simp_all add: agent_inv_def fields_of_def)

lemma agent_inv_logs:
  "agent_inv s \<Longrightarrow> agent_inv (snd (allowHostLog now k s))" "agent_inv s \<Longrightarrow> agent_inv (logAgentPoll now h k s)"
  "agent_inv s \<Longrightarrow> agent_inv (DropHostEvidence h s)" "agent_inv s \<Longrightarrow> agent_inv (dropHostEvidenceOnly h s)"
  "agent_inv s \<Longrightarrow> agent_inv (dropHostEvidenceNotIn now hs s)" "agent_inv s \<Longrightarrow> agent_inv (RecordHostEvidence now ev s)"
  by (auto simp: allowHostLog_def logAgentPoll_def DropHostEvidence_def dropHostEvidenceOnly_def dropHostEvidenceNotIn_def
      RecordHostEvidence_def Let_def split: option.split)


lemma node_fields_ok_other: "node_fields_ok (n\<lparr> ns_AgentFailures := k \<rparr>) = node_fields_ok n" "node_fields_ok (n\<lparr> ns_AgentStale := b \<rparr>) = node_fields_ok n"
  "node_fields_ok (drain_node rs g n) = node_fields_ok n"
  by (simp_all add: node_fields_ok_def drain_node_def)

lemma agent_event_nodes [simp]: "r_nodes (agent_event up name r) = r_nodes r"
  by (simp add: agent_event_def Let_def split: option.split)

lemma thermalDrain_view:
  "map (\<lambda>n. (ns_Name n, node_fields_ok n)) (r_nodes (thermalDrain name r)) = map (\<lambda>n. (ns_Name n, node_fields_ok n)) (r_nodes r)"
proof -
  have "map (\<lambda>n. (ns_Name n, node_fields_ok n)) (upd_first p (drain_node rs g) ns) = map (\<lambda>n. (ns_Name n, node_fields_ok n)) ns" for p rs g ns
    by (rule map_upd_first) (simp add: node_fields_ok_other)
  then show ?thesis by (simp add: thermalDrain_def DrainNode_def upd_store_def upd_node_def split: option.split)
qed

lemma agent_inv_flags: "agent_inv s \<Longrightarrow> agent_inv (setAgentTLSMismatch b name s)" "agent_inv s \<Longrightarrow> agent_inv (setAgentStale b name s)"
  unfolding setAgentTLSMismatch_def setAgentStale_def
  by (intro agent_inv_upd; auto simp: both_ok_def node_fields_ok_other)+

lemma clear_names: "ns_Name (fst (clearAgentTelemetry na)) = ns_Name (fst na)" "ns_Name (fst (applyOversizeTelemetry na)) = ns_Name (fst na)"
  by (simp_all add: clearAgentTelemetry_def applyOversizeTelemetry_def clear_agent_node_def clear_live_node_def fallBackAgentVRAM_def Let_def case_prod_beta)

lemma agent_inv_event: "agent_inv s \<Longrightarrow> agent_inv (s\<lparr> as_router := agent_event up name (as_router s) \<rparr>)"
  by (rule agent_inv_router) simp_all

lemma agent_inv_unreachable:
  assumes "agent_inv s"
  shows "agent_inv (agentUnreachable name s)"
proof (cases "FindNode (as_router s) name")
  case (Some n)
  have 1: "agent_inv (upd_agent name (\<lambda>(n, a). (n\<lparr> ns_AgentFailures := ns_AgentFailures n + 1 \<rparr>, a)) s)"
    by (rule agent_inv_upd [OF assms]) (auto simp: both_ok_def node_fields_ok_other)
  have "agent_inv (setAgentStale True name (upd_agent name clearAgentTelemetry (DropHostEvidence h u)))" if "agent_inv u" for h u
    using that by (intro agent_inv_flags agent_inv_upd agent_inv_logs cleared_ok clear_names)
  then show ?thesis using 1 Some by (simp add: agentUnreachable_def Let_def agent_inv_event)
qed (use assms in \<open>simp add: agentUnreachable_def\<close>)

lemma agent_inv_apply:
  assumes "agent_inv s" "telemetry_ok str_ok t"
  shows "agent_inv (applyAgentTelemetryForHost lib t k name s)"
proof -
  have 1: "agent_inv (upd_agent name (\<lambda>na. snd (applyAgentTelemetryLocked lib (as_router s) t k na)) s)"
    by (intro agent_inv_upd assms apply_telemetry_ok apply_telemetry_name)
  then show ?thesis using agent_inv_router [OF 1 thermalDrain_view] assms(1)
    by (simp add: applyAgentTelemetryForHost_def Let_def split: option.split)
qed

lemma agent_inv_fold: "(\<And>x s. agent_inv s \<Longrightarrow> agent_inv (f x s)) \<Longrightarrow> agent_inv s \<Longrightarrow> agent_inv (fold f xs s)"
  by (induction xs arbitrary: s) simp_all

lemma agent_inv_poll:
  assumes "agent_inv s"
  shows "agent_inv (pollAgentHost env now host cfg members s)"
proof -
  have un: "agent_inv (all_unreachable b members s)" if "agent_inv s" for b s
    unfolding all_unreachable_def by (intro agent_inv_fold agent_inv_unreachable agent_inv_flags that)
  have body: "agent_inv (handle_body env now host members body s)" for body
  proof -
    have ok: "telemetry_ok str_ok (sanitizeTelemetry t0)" for t0
      by (simp add: telemetry_ok_def sanitizeTelemetry_def sanitised agent_san.establishes host_san.option_ok gpu_san.option_ok
          runtime_san.option_ok runtime_san.list_ok control_san.option_ok deployment_san.list_ok)
    have "agent_inv (accept_report env now host members (sanitizeTelemetry t0) s)" for t0
      unfolding accept_report_def agentReachable_def
      by (intro agent_inv_fold agent_inv_event agent_inv_apply agent_inv_flags agent_inv_logs ok assms)
    moreover have "agent_inv (fold (\<lambda>name s. agentReachable name (upd_agent name applyOversizeTelemetry (setAgentTLSMismatch False name s))) members s')"
      if "agent_inv s'" for s'
      unfolding agentReachable_def
      by (intro agent_inv_fold agent_inv_event agent_inv_upd cleared_ok clear_names agent_inv_flags that)
    ultimately show ?thesis using un [OF agent_inv_logs(1) [OF assms]] un [OF agent_inv_logs(2) [OF assms]]
        agent_inv_logs(4) [OF agent_inv_logs(1) [OF assms]]
      by (simp add: handle_body_def Let_def split: option.split)
  qed
  show ?thesis using assms body un [OF agent_inv_logs(1) [OF assms]] un [OF agent_inv_logs(2) [OF assms]]
    by (simp add: pollAgentHost_def split: option.split agent_reply.split)
qed

lemma agent_inv_without:
  assumes "agent_inv s"
  shows "agent_inv (without_agent name s)"
proof -
  have 1: "agent_inv (setAgentTLSMismatch False name (setAgentStale False name (upd_agent name clearAgentTelemetry s)))"
    by (intro agent_inv_flags agent_inv_upd assms cleared_ok clear_names)
  show ?thesis unfolding without_agent_def Let_def by (rule agent_inv_router [OF 1]) simp
qed

text \<open>
  Whatever the agents of a fleet answer, in whatever order the hosts complete and whoever has lost the agent meanwhile, a
  round of polling keeps everything stored from agents within bounds: on every node the GPU list, the
  capabilities, the detected deployment and all display fields are well formed, percentages (the
  derived cache hit rate too, in binary64) lie between 0 and 100, and memory figures that come from an agent
  are in range with the used amount within a known total.
\<close>

lemma agent_data_well_formed:
  assumes "agent_inv s"
  shows "agent_inv (pollAgentHosts env now order s)"
proof -
  have "agent_inv (case c of None \<Rightarrow> s | Some cfg \<Rightarrow> pollAgentHost env now h cfg ms s)" if "agent_inv s" for c h ms s
    using that by (cases c) (simp_all add: agent_inv_poll)
  then show ?thesis unfolding pollAgentHosts_def Let_def
    by (intro agent_inv_logs agent_inv_fold agent_inv_without assms)
qed


text \<open>One node whose agent answers with a small report.\<close>

definition demo_agent_env :: "agent_reply \<Rightarrow> agent_env" where
  "demo_agent_env reply = \<lparr> ae_lib = plain_lib, ae_fetch = (\<lambda>_ _. reply), ae_decode = (\<lambda>_. Some demo_report) \<rparr>"

definition demo_agents :: agent_state where
  "demo_agents = \<lparr> as_router = demo_watched, as_fields = [], as_hostEvidence = [], as_hostLogAt = [] \<rparr>"

lemma demo_agents_inv: "agent_inv demo_agents"
proof -
  have "node_fields_ok (new_node plain_lib 0 (demo_config ''a'' ''u1''))"
    by (simp add: node_fields_ok_def new_node_def zeros_ok set_probe_def Let_def zero_node_def)
  then show ?thesis
    by (simp add: agent_inv_def demo_agents_def demo_watched_def fields_of_def gm_at_def both_ok_def zero_fields_ok)
qed

text \<open>
  Pruning forgets the warning times of hosts that are gone for every kind of failed poll but two: those of
  replies that are not an agent report or carry no node id, like those of the headroom warnings, stay for ever.
\<close>

lemma has_prefix_cons: "has_prefix s []" "has_prefix (c # s) (d # p) \<longleftrightarrow> c = d \<and> has_prefix s p"
  by (auto simp: has_prefix_def)

lemma poll_log_keys_pruned:
  assumes "k \<in> set (hostLogKeyPrefixes @ hostLogPollKeyPrefixes)" "host \<notin> set keep"
  shows "log_key_dropped now keep (k @ host) at'"
proof -
  have "\<not> hasAnyPrefix (k @ host) hostLogAgedKeyPrefixes" "\<not> has_prefix (k @ host) lastResortLogPrefix"
    using assms(1) unfolding hostLogKeyPrefixes_def hostLogPollKeyPrefixes_def append.simps list.set insert_iff empty_iff
    by (elim disjE FalseE; simp add: hasAnyPrefix_def hostLogAgedKeyPrefixes_def lastResortLogPrefix_def has_prefix_cons)+
  moreover have "list_ex (\<lambda>prefix. case cut_prefix (k @ host) prefix of None \<Rightarrow> False | Some host \<Rightarrow> host \<notin> set keep) (hostLogKeyPrefixes @ hostLogPollKeyPrefixes)"
    unfolding list_ex_iff using assms by (intro bexI [of _ k]) simp_all
  ultimately show ?thesis by (simp add: log_key_dropped_def)
qed

lemma poll_log_keys_linger:
  assumes "k \<in> {''notagent:'', ''nonodeid:'', ''headroom:''}"
  shows "\<not> log_key_dropped now keep (k @ host) at'"
proof -
  have "\<not> has_prefix (k @ host) p" if "p \<in> set (lastResortLogPrefix # hostLogAgedKeyPrefixes @ hostLogKeyPrefixes @ hostLogPollKeyPrefixes)" for p
    using assms that unfolding hostLogAgedKeyPrefixes_def lastResortLogPrefix_def hostLogKeyPrefixes_def hostLogPollKeyPrefixes_def
      append.simps list.set insert_iff empty_iff
    by (elim disjE FalseE; simp add: has_prefix_cons)
  then show ?thesis by (auto simp: log_key_dropped_def hasAnyPrefix_def list_ex_iff cut_prefix_def)
qed

section \<open>Silence\<close>

definition agent_answers :: "agent_env \<Rightarrow> string \<Rightarrow> marbor_agent_config \<Rightarrow> bool" where
  "agent_answers env host cfg \<longleftrightarrow>
     (case buildAgentURL (ae_lib env) host (ma_Port cfg) (ma_Scheme cfg) of
        None \<Rightarrow> False
      | Some agentURL \<Rightarrow>
          (case ae_fetch env agentURL (ma_Token cfg) of
             ReplyBody body \<Rightarrow>
               if length body > maxAgentStatusBodyBytes then looksLikeJSONObject body
               else (case ae_decode env body of
                       None \<Rightarrow> False
                     | Some t0 \<Rightarrow> looksLikeAgentReport t0 \<and> TrimSpace (ai_NodeID (tm_Agent (sanitizeTelemetry t0))) \<noteq> [])
           | _ \<Rightarrow> False))"

definition agent_events :: "string \<Rightarrow> router \<Rightarrow> string list" where
  "agent_events name r = map fst (filter (\<lambda>(e, nm, u). nm = name \<and> e \<in> {''agent_up'', ''agent_down''}) (r_webhooks r))"

definition no_agent_data :: "node_state \<Rightarrow> bool" where
  "no_agent_data n \<longleftrightarrow> ns_AgentGPUs n = [] \<and> ns_VRAMSource n \<noteq> ''agent'' \<and> \<not> ns_AgentPresent n"

type_synonym agent_view = "int \<times> bool \<times> (int \<times> bool \<times> bool) option \<times> bool option \<times> string list"

definition router_view :: "string \<Rightarrow> router \<Rightarrow> agent_view" where
  "router_view name r = (r_healthFailureThreshold r, hooks_on r,
     map_option (\<lambda>n. (ns_AgentFailures n, ns_AgentStale n, no_agent_data n)) (FindNode r name),
     gm_get (r_prevAgentPresent r) name, agent_events name r)"

definition agent_view :: "string \<Rightarrow> agent_state \<Rightarrow> agent_view" where
  "agent_view name s = router_view name (as_router s)"

lemma find_upd_const_other:
  "ns_Name n' = other \<Longrightarrow> other \<noteq> name \<Longrightarrow> FindNode (upd_node other (\<lambda>_. n') r) name = FindNode r name"
proof -
  assume a: "ns_Name n' = other" "other \<noteq> name"
  have "find (\<lambda>n. ns_Name n = name) (upd_first (\<lambda>n. ns_Name n = other) (\<lambda>_. n') ns) = find (\<lambda>n. ns_Name n = name) ns" for ns
    using a by (induction ns) auto
  then show ?thesis by (simp add: FindNode_def upd_node_def)
qed

lemma find_upd_const_same:
  "ns_Name n' = name \<Longrightarrow> FindNode r name = Some n \<Longrightarrow> FindNode (upd_node name (\<lambda>_. n') r) name = Some n'"
proof -
  assume a: "ns_Name n' = name" "FindNode r name = Some n"
  have "find (\<lambda>n. ns_Name n = name) ns = Some n \<Longrightarrow> find (\<lambda>n. ns_Name n = name) (upd_first (\<lambda>n. ns_Name n = name) (\<lambda>_. n') ns) = Some n'" for ns
    using a(1) by (induction ns) (auto split: if_splits)
  then show ?thesis using a(2) by (simp add: FindNode_def upd_node_def)
qed

lemma agent_events_fire [simp]:
  "agent_events name (fireWebhook e nm u r) = agent_events name r
     @ (if hooks_on r \<and> nm = name \<and> e \<in> {''agent_up'', ''agent_down''} then [e] else [])"
  by (simp add: agent_events_def fireWebhook_def hooks_on_def)

lemma fire_prev [simp]: "r_prevAgentPresent (fireWebhook e nm u r) = r_prevAgentPresent r"
  by (simp add: fireWebhook_def)

lemma upd_frame [simp]: "r_prevAgentPresent (upd_node nm f r) = r_prevAgentPresent r" "hooks_on (upd_node nm f r) = hooks_on r"
  "agent_events name (upd_node nm f r) = agent_events name r"
  by (simp_all add: upd_node_def hooks_on_def agent_events_def)

text \<open>What an update of one node does to the view of another, and to its own.\<close>

lemma view_upd_other:
  assumes "\<And>na. ns_Name (fst (f na)) = ns_Name (fst na)" "other \<noteq> name"
  shows "agent_view name (upd_agent other f s) = agent_view name s"
proof (cases "FindNode (as_router s) other")
  case (Some n)
  then have "ns_Name (fst (f (n, fields_of s other))) = other" using assms(1) FindNode_Some [OF Some] by simp
  then show ?thesis using Some assms(2)
    by (simp add: upd_agent_def agent_view_def router_view_def case_prod_beta find_upd_const_other)
qed (simp add: upd_agent_def)

lemma view_upd_same:
  assumes "\<And>na. ns_Name (fst (f na)) = ns_Name (fst na)" "FindNode (as_router s) name = Some n"
  shows "FindNode (as_router (upd_agent name f s)) name = Some (fst (f (n, fields_of s name)))"
    "agent_view name (upd_agent name f s) =
      (let n' = fst (f (n, fields_of s name)) in
       (r_healthFailureThreshold (as_router s), hooks_on (as_router s), Some (ns_AgentFailures n', ns_AgentStale n', no_agent_data n'),
        gm_get (r_prevAgentPresent (as_router s)) name, agent_events name (as_router s)))"
proof -
  have "ns_Name (fst (f (n, fields_of s name))) = name" using assms(1) FindNode_Some [OF assms(2)] by simp
  then show "FindNode (as_router (upd_agent name f s)) name = Some (fst (f (n, fields_of s name)))"
    using assms(2) by (simp add: upd_agent_def case_prod_beta find_upd_const_same)
  then show "agent_view name (upd_agent name f s) =
      (let n' = fst (f (n, fields_of s name)) in
       (r_healthFailureThreshold (as_router s), hooks_on (as_router s), Some (ns_AgentFailures n', ns_AgentStale n', no_agent_data n'),
        gm_get (r_prevAgentPresent (as_router s)) name, agent_events name (as_router s)))"
    using assms(2) by (simp add: agent_view_def router_view_def Let_def) (simp add: upd_agent_def case_prod_beta)
qed


fun fail_view :: "agent_view \<Rightarrow> agent_view" where
  "fail_view (ft, hk, Some (f, st, q), prev, ev) =
     (if f + 1 \<ge> ft
      then (ft, hk, Some (0, True, True), if prev = Some True then Some False else prev, ev @ (if prev = Some True \<and> hk then [''agent_down''] else []))
      else (ft, hk, Some (f + 1, st, q), prev, ev))"
| "fail_view v = v"

definition ok_views :: "agent_view \<Rightarrow> agent_view set" where
  "ok_views = (\<lambda>(ft, hk, node, prev, ev).
     case node of None \<Rightarrow> {(ft, hk, None, prev, ev)}
     | Some _ \<Rightarrow> {(ft, hk, Some (0, False, q), Some True, ev @ (if prev = Some False \<and> hk then [''agent_up''] else [])) |q. True})"

lemma cleared_no_data: "no_agent_data (clear_agent_node n)"
  "ns_AgentFailures (clear_agent_node n) = 0"
  by (auto simp: no_agent_data_def clear_agent_node_def clear_live_node_def fallBackAgentVRAM_def Let_def)

lemma no_agent_data_frame: "no_agent_data (n\<lparr> ns_AgentStale := b \<rparr>) = no_agent_data n" "no_agent_data (n\<lparr> ns_AgentFailures := k \<rparr>) = no_agent_data n"
  by (simp_all add: no_agent_data_def)

lemma view_frame: "as_router s' = as_router s \<Longrightarrow> agent_view name s' = agent_view name s"
  by (simp add: agent_view_def)

lemma router_logs [simp]:
  "as_router (snd (allowHostLog now k s)) = as_router s" "as_router (logAgentPoll now h k s) = as_router s"
  "as_router (DropHostEvidence h s) = as_router s" "as_router (dropHostEvidenceOnly h s) = as_router s"
  "as_router (RecordHostEvidence now ev s) = as_router s" "as_fields (DropHostEvidence h s) = as_fields s"
  by (auto simp: allowHostLog_def logAgentPoll_def DropHostEvidence_def dropHostEvidenceOnly_def RecordHostEvidence_def Let_def
      split: option.split)

lemma event_view:
  assumes "FindNode r name = Some n"
  shows "router_view name (agent_event False name r) =
      (r_healthFailureThreshold r, hooks_on r, Some (ns_AgentFailures n, ns_AgentStale n, no_agent_data n),
       if gm_get (r_prevAgentPresent r) name = Some True then Some False else gm_get (r_prevAgentPresent r) name,
       agent_events name r @ (if gm_get (r_prevAgentPresent r) name = Some True \<and> hooks_on r then [''agent_down''] else []))"
    "router_view name (agent_event True name r) =
      (r_healthFailureThreshold r, hooks_on r, Some (ns_AgentFailures n, ns_AgentStale n, no_agent_data n), Some True,
       agent_events name r @ (if gm_get (r_prevAgentPresent r) name = Some False \<and> hooks_on r then [''agent_up''] else []))"
    "other \<noteq> name \<Longrightarrow> router_view name (agent_event up other r) = router_view name r"
proof -
  have f: "FindNode (r\<lparr> r_prevAgentPresent := p \<rparr>) x = FindNode r x" "hooks_on (r\<lparr> r_prevAgentPresent := p \<rparr>) = hooks_on r"
    "agent_events x (r\<lparr> r_prevAgentPresent := p \<rparr>) = agent_events x r" for p x
    by (simp_all add: FindNode_def hooks_on_def agent_events_def)
  show "router_view name (agent_event False name r) =
      (r_healthFailureThreshold r, hooks_on r, Some (ns_AgentFailures n, ns_AgentStale n, no_agent_data n),
       if gm_get (r_prevAgentPresent r) name = Some True then Some False else gm_get (r_prevAgentPresent r) name,
       agent_events name r @ (if gm_get (r_prevAgentPresent r) name = Some True \<and> hooks_on r then [''agent_down''] else []))"
    using assms by (simp add: agent_event_def router_view_def Let_def f gm_get_put)
  show "router_view name (agent_event True name r) =
      (r_healthFailureThreshold r, hooks_on r, Some (ns_AgentFailures n, ns_AgentStale n, no_agent_data n), Some True,
       agent_events name r @ (if gm_get (r_prevAgentPresent r) name = Some False \<and> hooks_on r then [''agent_up''] else []))"
    using assms by (simp add: agent_event_def router_view_def Let_def f gm_get_put)
  show "router_view name (agent_event up other r) = router_view name r" if "other \<noteq> name"
    using that by (simp add: agent_event_def router_view_def Let_def f gm_get_put split: option.split)
qed

lemma unreachable_view: "agent_view name (agentUnreachable name s) = fail_view (agent_view name s)"
proof (cases "FindNode (as_router s) name")
  case None
  then show ?thesis by (simp add: agentUnreachable_def agent_view_def router_view_def)
next
  case (Some n)
  define s1 where "s1 = upd_agent name (\<lambda>(n, a). (n\<lparr> ns_AgentFailures := ns_AgentFailures n + 1 \<rparr>, a)) s"
  have nm1: "\<And>na. ns_Name (fst (case na of (n, a) \<Rightarrow> (n\<lparr> ns_AgentFailures := ns_AgentFailures n + 1 \<rparr> :: node_state, a))) = ns_Name (fst na)"
    by (simp add: case_prod_beta)
  note v1 = view_upd_same [OF nm1 Some, folded s1_def]
  define s2 where "s2 = upd_agent name clearAgentTelemetry (DropHostEvidence (ns_Host n) s1)"
  have f1: "FindNode (as_router (DropHostEvidence (ns_Host n) s1)) name = Some (n\<lparr> ns_AgentFailures := ns_AgentFailures n + 1 \<rparr>)"
    using v1(1) by simp
  note v2 = view_upd_same [OF clear_names(1) f1, folded s2_def]
  define s3 where "s3 = setAgentStale True name s2"
  have nm3: "\<And>na. ns_Name (fst (case na of (n, a) \<Rightarrow> (n\<lparr> ns_AgentStale := True \<rparr> :: node_state, a))) = ns_Name (fst na)"
    by (simp add: case_prod_beta)
  note v3 = view_upd_same [OF nm3 v2(1), folded setAgentStale_def, folded s3_def]
  have c: "fst (clearAgentTelemetry (m, a)) = clear_agent_node m" for m a by (simp add: clearAgentTelemetry_def)
  have r: "r_healthFailureThreshold (as_router s2) = r_healthFailureThreshold (as_router s)" "hooks_on (as_router s2) = hooks_on (as_router s)"
    "r_prevAgentPresent (as_router s2) = r_prevAgentPresent (as_router s)" "agent_events name (as_router s2) = agent_events name (as_router s)"
    by (simp_all add: s2_def s1_def upd_agent_def case_prod_beta split: option.split)
  have r3: "r_healthFailureThreshold (as_router s3) = r_healthFailureThreshold (as_router s)" "hooks_on (as_router s3) = hooks_on (as_router s)"
    "r_prevAgentPresent (as_router s3) = r_prevAgentPresent (as_router s)" "agent_events name (as_router s3) = agent_events name (as_router s)"
    using r by (simp_all add: s3_def setAgentStale_def upd_agent_def case_prod_beta split: option.split)
  have cross: "agent_view name (s3\<lparr> as_router := agent_event False name (as_router s3) \<rparr>) =
      (r_healthFailureThreshold (as_router s), hooks_on (as_router s), Some (0, True, True),
       if gm_get (r_prevAgentPresent (as_router s)) name = Some True then Some False else gm_get (r_prevAgentPresent (as_router s)) name,
       agent_events name (as_router s) @ (if gm_get (r_prevAgentPresent (as_router s)) name = Some True \<and> hooks_on (as_router s) then [''agent_down''] else []))"
    using event_view(1) [OF v3(1)] by (simp add: agent_view_def r3 c no_agent_data_frame cleared_no_data)
  have eq: "agentUnreachable name s = (if \<not> ns_AgentFailures n + 1 \<ge> r_healthFailureThreshold (as_router s) then s1
      else s3\<lparr> as_router := agent_event False name (as_router s3) \<rparr>)"
    using Some by (simp add: agentUnreachable_def s1_def s2_def s3_def Let_def)
  show ?thesis
  proof (cases "ns_AgentFailures n + 1 \<ge> r_healthFailureThreshold (as_router s)")
    case True
    then show ?thesis using cross Some by (simp add: eq agent_view_def router_view_def)
  next
    case False
    then show ?thesis using v1(2) Some by (simp add: eq agent_view_def router_view_def no_agent_data_frame)
  qed
qed


lemma event_other: "other \<noteq> name \<Longrightarrow> agent_view name (s\<lparr> as_router := agent_event up other (as_router s) \<rparr>) = agent_view name s"
proof -
  assume o: "other \<noteq> name"
  have f: "FindNode (r\<lparr> r_prevAgentPresent := p \<rparr>) x = FindNode r x" "hooks_on (r\<lparr> r_prevAgentPresent := p \<rparr>) = hooks_on r"
    "agent_events x (r\<lparr> r_prevAgentPresent := p \<rparr>) = agent_events x r" for p x and r :: router
    by (simp_all add: FindNode_def hooks_on_def agent_events_def)
  show ?thesis using o by (simp add: agent_event_def agent_view_def router_view_def Let_def f gm_get_put split: option.split)
qed

lemma flag_views [simp]: "agent_view name (setAgentTLSMismatch b other s) = agent_view name s"
proof (cases "other = name")
  case False
  then show ?thesis unfolding setAgentTLSMismatch_def by (intro view_upd_other) auto
next
  case True
  show ?thesis
  proof (cases "FindNode (as_router s) name")
    case None
    then show ?thesis using True by (simp add: setAgentTLSMismatch_def upd_agent_def)
  next
    case (Some n)
    have nm: "\<And>na. ns_Name (fst (case na of (n, a) \<Rightarrow> (n :: node_state, a\<lparr> af_TLSMismatch := b \<rparr>))) = ns_Name (fst na)" by (simp add: case_prod_beta)
    show ?thesis unfolding setAgentTLSMismatch_def True view_upd_same(2) [OF nm Some] by (simp add: agent_view_def router_view_def Some Let_def)
  qed
qed

lemma unreachable_other: "other \<noteq> name \<Longrightarrow> agent_view name (agentUnreachable other s) = agent_view name s"
proof -
  assume o: "other \<noteq> name"
  have 1: "agent_view name (upd_agent other (\<lambda>(n, a). (n\<lparr> ns_AgentFailures := ns_AgentFailures n + 1 \<rparr>, a)) s) = agent_view name s" for s
    by (rule view_upd_other [OF _ o]) (simp add: case_prod_beta)
  have 2: "agent_view name (setAgentStale True other s) = agent_view name s" for s
    unfolding setAgentStale_def by (rule view_upd_other [OF _ o]) (simp add: case_prod_beta)
  have 3: "agent_view name (upd_agent other clearAgentTelemetry s) = agent_view name s" for s by (rule view_upd_other [OF clear_names(1) o])
  have 4: "agent_view name (DropHostEvidence h s) = agent_view name s" for h s by (rule view_frame) simp
  show ?thesis by (simp add: agentUnreachable_def Let_def event_other [OF o] 1 2 3 4 split: option.split)
qed

lemma thermalDrain_router_view: "router_view name (thermalDrain other r) = router_view name r"
proof -
  have d: "ns_AgentFailures (drain_node rs g n) = ns_AgentFailures n" "ns_AgentStale (drain_node rs g n) = ns_AgentStale n"
    "no_agent_data (drain_node rs g n) = no_agent_data n" "ns_Name (drain_node rs g n) = ns_Name n" for rs g and n :: node_state
    by (simp_all add: drain_node_def no_agent_data_def)
  have "map_option (\<lambda>n. (ns_AgentFailures n, ns_AgentStale n, no_agent_data n))
        (find (\<lambda>n. ns_Name n = name) (upd_first (\<lambda>n. ns_Name n = other) (drain_node rs g) ns))
      = map_option (\<lambda>n. (ns_AgentFailures n, ns_AgentStale n, no_agent_data n)) (find (\<lambda>n. ns_Name n = name) ns)" for rs g ns
    by (induction ns) (auto simp: d)
  then show ?thesis
    by (simp add: thermalDrain_def DrainNode_def router_view_def upd_store_def upd_node_def FindNode_def hooks_on_def agent_events_def
        fireWebhook_def split: option.split)
qed

lemma apply_view_other: "other \<noteq> name \<Longrightarrow> agent_view name (applyAgentTelemetryForHost lib t k other s) = agent_view name s"
  using view_upd_other [where f = "\<lambda>na. snd (applyAgentTelemetryLocked lib (as_router s) t k na)" and other = other and name = name and s = s]
    apply_telemetry_name [of lib "as_router s" t k]
  by (simp add: applyAgentTelemetryForHost_def Let_def agent_view_def thermalDrain_router_view split: option.split)

lemma apply_flags:
  "ns_AgentFailures (fst (snd (applyAgentTelemetryLocked lib r t k na))) = 0" "\<not> ns_AgentStale (fst (snd (applyAgentTelemetryLocked lib r t k na)))"
proof -
  let ?v = "\<lambda>n :: node_state. (ns_AgentFailures n, ns_AgentStale n)"
  have f: "?v (fallBackAgentVRAM n) = ?v n" "?v (apply_vram ds n) = ?v n" "?v (no_device b n) = ?v n"
    "?v (attributeSoleModelVRAM n) = ?v n" "?v (snd (trackAgentThermalLocked r ds n)) = ?v n" for n ds b
    by (auto simp: fallBackAgentVRAM_def apply_vram_def no_device_def attributeSoleModelVRAM_def trackAgentThermalLocked_def
        thermal_reading_def Let_def split: list.split option.split prod.split)
  have g: "?v (fst (apply_gpu b gp na)) = ?v (fst na)" "?v (fst (apply_host h na)) = ?v (fst na)"
    "?v (fst (apply_identity t na)) = (0, False)" "?v (fst (apply_deployment d na)) = ?v (fst na)" for b gp h na d
    using f by (cases na; auto simp: apply_gpu_def apply_host_def apply_identity_def apply_deployment_def Let_def split: option.split list.split)+
  have "?v (fst (snd (applyAgentTelemetryLocked lib r t k na))) = (0, False)"
    unfolding applyAgentTelemetryLocked_def Let_def using f g by (simp add: case_prod_beta)
  then show "ns_AgentFailures (fst (snd (applyAgentTelemetryLocked lib r t k na))) = 0" "\<not> ns_AgentStale (fst (snd (applyAgentTelemetryLocked lib r t k na)))"
    by simp_all
qed


lemma reachable_view:
  assumes "FindNode (as_router s) name = Some n" "ns_AgentFailures n = 0" "\<not> ns_AgentStale n"
    and "router_view name (as_router s) = (ft, hk, v, prev, ev)" "v0 = Some x"
  shows "agent_view name (agentReachable name s) \<in> ok_views (ft, hk, v0, prev, ev)"
  using assms event_view(2) [OF assms(1)] by (auto simp: agentReachable_def agent_view_def router_view_def ok_views_def)

lemma answered_view:
  assumes "\<And>na. ns_Name (fst (f na)) = ns_Name (fst na)" "\<And>na. ns_AgentFailures (fst (f na)) = 0 \<and> \<not> ns_AgentStale (fst (f na))"
    and "agent_view name s = w" "s1 = upd_agent name f s" "router_view name r2 = router_view name (as_router s1)"
  shows "agent_view name (agentReachable name (s1\<lparr> as_router := r2 \<rparr>)) \<in> ok_views w"
proof (cases "FindNode (as_router s) name")
  case None
  then have "s1 = s" by (simp add: assms(4) upd_agent_def)
  moreover from this None assms(5) have "FindNode r2 name = None" by (simp add: router_view_def)
  ultimately show ?thesis using None assms(3,5) by (auto simp: agentReachable_def agent_event_def agent_view_def router_view_def ok_views_def)
next
  case (Some n)
  let ?n = "fst (f (n, fields_of s name))"
  note v = view_upd_same [OF assms(1) Some, folded assms(4)]
  have "map_option (\<lambda>n. (ns_AgentFailures n, ns_AgentStale n, no_agent_data n)) (FindNode r2 name) = Some (ns_AgentFailures ?n, ns_AgentStale ?n, no_agent_data ?n)"
    using assms(5) v(1) by (simp add: router_view_def)
  then obtain n2 where n2: "FindNode r2 name = Some n2" "ns_AgentFailures n2 = 0" "\<not> ns_AgentStale n2" using assms(2) by auto
  have r2: "router_view name r2 = (r_healthFailureThreshold (as_router s), hooks_on (as_router s), Some (ns_AgentFailures ?n, ns_AgentStale ?n, no_agent_data ?n),
        gm_get (r_prevAgentPresent (as_router s)) name, agent_events name (as_router s))"
    using assms(5) v(2) by (simp add: agent_view_def Let_def)
  have "agent_view name (agentReachable name (s1\<lparr> as_router := r2 \<rparr>))
      \<in> ok_views (r_healthFailureThreshold (as_router s), hooks_on (as_router s), Some (ns_AgentFailures n, ns_AgentStale n, no_agent_data n),
        gm_get (r_prevAgentPresent (as_router s)) name, agent_events name (as_router s))"
    by (rule reachable_view [of _ _ n2]) (use n2 r2 in simp_all)
  then show ?thesis using assms(3) Some by (simp add: agent_view_def router_view_def)
qed

lemma fold_one:
  assumes "name \<in> set xs" "distinct xs" "\<And>x s. x \<noteq> name \<Longrightarrow> g (f x s) = g s" "\<And>s. P (g s) (g (f name s))"
  shows "P (g s) (g (fold f xs s))"
proof -
  obtain ys zs where xs: "xs = ys @ name # zs" using split_list [OF assms(1)] by blast
  have skip: "name \<notin> set ws \<Longrightarrow> g (fold f ws s) = g s" for ws s by (induction ws arbitrary: s) (auto simp: assms(3))
  have "name \<notin> set ys" "name \<notin> set zs" using assms(2) xs by auto
  then show ?thesis using skip assms(4) [of "fold f ys s"] by (simp add: xs)
qed

lemma all_unreachable_view:
  assumes "name \<in> set members" "distinct members"
  shows "agent_view name (all_unreachable b members s) = fail_view (agent_view name s)"
  unfolding all_unreachable_def
  by (rule fold_one [where P = "\<lambda>v v'. v' = fail_view v" and g = "agent_view name", OF assms])
    (simp_all add: unreachable_other unreachable_view)

lemma oversize_flags: "ns_AgentFailures (fst (applyOversizeTelemetry na)) = 0 \<and> \<not> ns_AgentStale (fst (applyOversizeTelemetry na))"
  by (auto simp: applyOversizeTelemetry_def case_prod_beta Let_def fallBackAgentVRAM_def)

lemma oversize_view:
  assumes "name \<in> set members" "distinct members"
  shows "agent_view name (fold (\<lambda>name s. agentReachable name (upd_agent name applyOversizeTelemetry (setAgentTLSMismatch False name s))) members s) \<in> ok_views (agent_view name s)"
proof (rule fold_one [where P = "\<lambda>v v'. v' \<in> ok_views v" and g = "agent_view name", OF assms])
  show "agent_view name (agentReachable x (upd_agent x applyOversizeTelemetry (setAgentTLSMismatch False x s))) = agent_view name s" if "x \<noteq> name" for x s
    using that by (simp add: agentReachable_def event_other view_upd_other [OF clear_names(2)])
  show "agent_view name (agentReachable name (upd_agent name applyOversizeTelemetry (setAgentTLSMismatch False name s))) \<in> ok_views (agent_view name s)" for s
    using answered_view [OF clear_names(2) oversize_flags refl refl refl, of name "setAgentTLSMismatch False name s"] by simp
qed

lemma apply_one_view:
  "agent_view name (agentReachable name (applyAgentTelemetryForHost lib t k name s)) \<in> ok_views (agent_view name s)"
proof (cases "FindNode (as_router s) name")
  case None
  then show ?thesis
    by (simp add: applyAgentTelemetryForHost_def agentReachable_def agent_event_def agent_view_def router_view_def ok_views_def)
next
  case (Some n)
  let ?f = "\<lambda>na. snd (applyAgentTelemetryLocked lib (as_router s) t k na)"
  define s1 where "s1 = upd_agent name ?f s"
  have fl: "ns_AgentFailures (fst (?f na)) = 0 \<and> \<not> ns_AgentStale (fst (?f na))" for na by (intro conjI apply_flags)
  have "applyAgentTelemetryForHost lib t k name s = s1\<lparr> as_router := r2 \<rparr>"
    if "r2 = (if fst (applyAgentTelemetryLocked lib (as_router s) t k (n, fields_of s name)) then thermalDrain name (as_router s1) else as_router s1)" for r2
    using Some that by (simp add: applyAgentTelemetryForHost_def s1_def Let_def)
  then show ?thesis
    using answered_view [where f = ?f, OF apply_telemetry_name fl refl s1_def [symmetric, THEN sym]] thermalDrain_router_view by (metis (full_types))
qed

lemma accept_view:
  assumes "name \<in> set members" "distinct members"
  shows "agent_view name (accept_report env now host members t s) \<in> ok_views (agent_view name s)"
proof -
  have "agent_view name (RecordHostEvidence now (evidence_of now host t) s) = agent_view name s" by (rule view_frame) simp
  moreover have "agent_view name (accept_report env now host members t s) \<in> ok_views (agent_view name (RecordHostEvidence now (evidence_of now host t) s))"
    unfolding accept_report_def
  proof (rule fold_one [where P = "\<lambda>v v'. v' \<in> ok_views v" and g = "agent_view name", OF assms])
    show "agent_view name (agentReachable x (applyAgentTelemetryForHost (ae_lib env) t (length members) x (setAgentTLSMismatch False x s))) = agent_view name s"
      if "x \<noteq> name" for x s using that by (simp add: agentReachable_def event_other apply_view_other)
    show "agent_view name (agentReachable name (applyAgentTelemetryForHost (ae_lib env) t (length members) name (setAgentTLSMismatch False name s))) \<in> ok_views (agent_view name s)" for s
      using apply_one_view [of name "ae_lib env" t "length members" "setAgentTLSMismatch False name s"] by simp
  qed
  ultimately show ?thesis by simp
qed


text \<open>One poll of the host, seen from one of its nodes.\<close>

lemma poll_view:
  assumes "name \<in> set members" "distinct members"
  shows "if agent_answers env host cfg then agent_view name (pollAgentHost env now host cfg members s) \<in> ok_views (agent_view name s)
    else agent_view name (pollAgentHost env now host cfg members s) = fail_view (agent_view name s)"
proof -
  have ne: "members \<noteq> []" using assms(1) by auto
  have un: "agent_view name (all_unreachable b members s') = fail_view (agent_view name s)" if "as_router s' = as_router s" for b s'
    using all_unreachable_view [OF assms, of b s'] view_frame [OF that] by simp
  have over: "agent_view name (fold (\<lambda>name s. agentReachable name (upd_agent name applyOversizeTelemetry (setAgentTLSMismatch False name s))) members s')
      \<in> ok_views (agent_view name s)" if "as_router s' = as_router s" for s'
    using oversize_view [OF assms, of s'] view_frame [OF that] by simp
  show ?thesis
    using ne un over accept_view [OF assms]
    by (auto simp: pollAgentHost_def handle_body_def agent_answers_def Let_def split: option.split agent_reply.split)
qed

fun agent_run :: "string \<Rightarrow> marbor_agent_config \<Rightarrow> string list \<Rightarrow> (agent_env \<times> gotime) list \<Rightarrow> agent_state \<Rightarrow> bool list \<times> agent_state" where
  "agent_run host cfg members [] s = ([], s)"
| "agent_run host cfg members ((env, now) # es) s =
     (case agent_run host cfg members es (pollAgentHost env now host cfg members s) of
        (os, s') \<Rightarrow> (agent_answers env host cfg # os, s'))"

text \<open>The notifications for a sequence of states, up or down, after state \<open>u\<close>.\<close>

fun agent_edges :: "bool \<Rightarrow> bool list \<Rightarrow> string list" where
  "agent_edges u [] = []"
| "agent_edges u (x # xs) = (if x = u then [] else if x then [''agent_up''] else [''agent_down'']) @ agent_edges x xs"

definition silent :: "nat \<Rightarrow> bool list \<Rightarrow> bool" where
  "silent ft os \<longleftrightarrow> ft \<le> run_length False os"

definition view_inv :: "nat \<Rightarrow> bool list \<Rightarrow> agent_view \<Rightarrow> bool" where
  "view_inv ft os v \<longleftrightarrow>
     (\<exists>f st q ev. v = (int ft, True, Some (f, st, q), Some (\<not> silent ft os), ev) \<and> st = silent ft os \<and> (st \<longrightarrow> q)
        \<and> (\<not> silent ft os \<longrightarrow> f = int (run_length False os)))"

definition view_events :: "agent_view \<Rightarrow> string list" where
  "view_events = (\<lambda>(ft, hk, node, prev, ev). ev)"

lemma view_step:
  assumes "0 < ft" "view_inv ft os v" "if ok then v' \<in> ok_views v else v' = fail_view v"
  shows "view_inv ft (os @ [ok]) v'" "view_events v' = view_events v @ agent_edges (\<not> silent ft os) [\<not> silent ft (os @ [ok])]"
proof -
  obtain f q ev where v: "v = (int ft, True, Some (f, silent ft os, q), Some (\<not> silent ft os), ev)" "silent ft os \<longrightarrow> q"
    "\<not> silent ft os \<longrightarrow> f = int (run_length False os)"
    using assms(2) by (auto simp: view_inv_def)
  have "view_inv ft (os @ [ok]) v' \<and> view_events v' = view_events v @ agent_edges (\<not> silent ft os) [\<not> silent ft (os @ [ok])]"
  proof (cases ok)
    case True
    then have "\<not> silent ft (os @ [ok])" using assms(1) by (simp add: silent_def)
    then show ?thesis using True assms v by (auto simp: ok_views_def view_inv_def view_events_def)
  next
    case False
    then have v': "v' = fail_view v" using assms(3) by simp
    consider "silent ft os" | "\<not> silent ft os" "f + 1 \<ge> int ft" | "\<not> silent ft os" "\<not> f + 1 \<ge> int ft" by blast
    then show ?thesis
    proof cases
      case 1
      then have "silent ft (os @ [ok])" using False by (simp add: silent_def)
      then show ?thesis using 1 v by (auto simp: v' view_inv_def view_events_def)
    next
      case 2
      then have "silent ft (os @ [ok])" using False v(3) by (simp add: silent_def)
      then show ?thesis using 2 v by (auto simp: v' view_inv_def view_events_def)
    next
      case 3
      then have "\<not> silent ft (os @ [ok])" using False v(3) by (simp add: silent_def)
      then show ?thesis using 3 v False by (auto simp: v' view_inv_def view_events_def)
    qed
  qed
  then show "view_inv ft (os @ [ok]) v'" "view_events v' = view_events v @ agent_edges (\<not> silent ft os) [\<not> silent ft (os @ [ok])]" by blast+
qed

lemma agent_run_inv:
  assumes "0 < ft" "name \<in> set members" "distinct members" "view_inv ft pre (agent_view name s)" "agent_run host cfg members es s = (os, s')"
  shows "length os = length es \<and> view_inv ft (pre @ os) (agent_view name s')
    \<and> view_events (agent_view name s') = view_events (agent_view name s)
        @ agent_edges (\<not> silent ft pre) (map (\<lambda>k. \<not> silent ft (pre @ take k os)) [1..<Suc (length os)])"
  using assms(4,5)
proof (induction es arbitrary: s pre os)
  case Nil
  then show ?case by simp
next
  case (Cons e es)
  obtain env now where e: "e = (env, now)" by (cases e)
  define ok where "ok = agent_answers env host cfg"
  define s1 where "s1 = pollAgentHost env now host cfg members s"
  obtain os1 where run: "agent_run host cfg members es s1 = (os1, s')" "os = ok # os1"
    using Cons.prems(2) by (auto simp: e s1_def ok_def split: prod.splits)
  have st: "if ok then agent_view name s1 \<in> ok_views (agent_view name s) else agent_view name s1 = fail_view (agent_view name s)"
    unfolding ok_def s1_def by (rule poll_view [OF assms(2,3)])
  note vs = view_step [OF assms(1) Cons.prems(1) st]
  note ih = Cons.IH [OF vs(1) run(1)]
  have up: "[1..<Suc (length os)] = 1 # map Suc [1..<Suc (length os1)]" by (simp add: run(2) map_Suc_upt upt_conv_Cons del: upt_Suc)
  have "map (\<lambda>k. \<not> silent ft (pre @ take k os)) [1..<Suc (length os)]
      = (\<not> silent ft (pre @ [ok])) # map (\<lambda>k. \<not> silent ft ((pre @ [ok]) @ take k os1)) [1..<Suc (length os1)]"
    unfolding up by (simp add: run(2) comp_def del: upt_Suc)
  then show ?case using ih vs(2) run(2) by simp
qed

text \<open>
  C22. A silent agent stops being believed after as many failed polls in a row as the health threshold says, and not before.  Take a node
  whose agent answers, and any sequence of polls of its host with any replies (refused connections, wrong
  fingerprints, error statuses, oversized, undecodable or foreign bodies, reports without an id, good reports).
  Afterwards its agent is marked stale exactly when the last \<open>ft\<close> or more polls all failed; then the node keeps no GPU
  list and no memory figures of the agent; and the notifications are exactly the changes between the two states,
  whatever other nodes share the host.
\<close>

theorem agent_silence_hysteresis:
  assumes "0 < ft" "r_healthFailureThreshold (as_router s) = int ft" "hooks_on (as_router s)"
    and "FindNode (as_router s) name = Some n" "ns_AgentFailures n = 0" "\<not> ns_AgentStale n"
    and "gm_get (r_prevAgentPresent (as_router s)) name = Some True"
    and "name \<in> set members" "distinct members" "agent_run host cfg members es s = (os, s')"
  shows "\<exists>n'. FindNode (as_router s') name = Some n' \<and> (ns_AgentStale n' \<longleftrightarrow> (\<exists>pre. os = pre @ replicate ft False))
    \<and> (ns_AgentStale n' \<longrightarrow> ns_AgentGPUs n' = [] \<and> ns_VRAMSource n' \<noteq> ''agent'' \<and> \<not> ns_AgentPresent n')
    \<and> agent_events name (as_router s') = agent_events name (as_router s)
        @ agent_edges True (map (\<lambda>k. \<not> (\<exists>pre. take k os = pre @ replicate ft False)) [1..<Suc (length os)])"
proof -
  have i0: "view_inv ft [] (agent_view name s)"
    using assms(1-7) by (auto simp: view_inv_def agent_view_def router_view_def silent_def)
  have sil: "silent ft xs \<longleftrightarrow> (\<exists>pre. xs = pre @ replicate ft False)" for xs by (simp add: silent_def run_length_ge)
  have s0: "\<not> silent ft []" using assms(1) by (simp add: silent_def)
  note run = agent_run_inv [OF assms(1,8,9) i0 assms(10), simplified s0 append_Nil not_False_eq_True]
  obtain f q ev where v: "agent_view name s' = (int ft, True, Some (f, silent ft os, q), Some (\<not> silent ft os), ev)" "silent ft os \<longrightarrow> q"
    using run by (auto simp: view_inv_def)
  then obtain n' where n': "FindNode (as_router s') name = Some n'" "ns_AgentStale n' = silent ft os" "no_agent_data n' = q"
    by (auto simp: agent_view_def router_view_def)
  have "view_events (agent_view name x) = agent_events name (as_router x)" for x by (simp add: view_events_def agent_view_def router_view_def)
  then have ev: "agent_events name (as_router s') = agent_events name (as_router s) @ agent_edges True (map (\<lambda>k. \<not> silent ft (take k os)) [1..<Suc (length os)])"
    using run by (simp del: upt_Suc)
  show ?thesis using n' v(2) ev unfolding sil no_agent_data_def by (intro exI [of _ n']) blast
qed


text \<open>The agent of the node was seen and then refuses three connections.\<close>

definition demo_seen :: agent_state where
  "demo_seen = demo_agents\<lparr> as_router := demo_watched\<lparr> r_prevAgentPresent := [(''a'', True)] \<rparr> \<rparr>"

definition demo_cfg :: marbor_agent_config where
  "demo_cfg = \<lparr> ma_Enabled = True, ma_Port = 9, ma_Token = [], ma_Scheme = [] \<rparr>"

theorem agent_silence_hysteresis_witness:
  "\<exists>n'. FindNode (as_router (snd (agent_run ''h'' demo_cfg [''a''] (replicate 3 (demo_agent_env (DialError False), 5)) demo_seen))) ''a'' = Some n'
     \<and> ns_AgentStale n' \<and> ns_AgentGPUs n' = []"
proof -
  let ?n = "new_node plain_lib 0 (demo_config ''a'' ''u1'')"
  let ?es = "replicate 3 (demo_agent_env (DialError False), 5 :: gotime)"
  have ans: "agent_answers (demo_agent_env (DialError False)) ''h'' demo_cfg = False"
    by (simp add: agent_answers_def demo_agent_env_def split: option.split)
  have "fst (agent_run ''h'' demo_cfg [''a''] (replicate k (demo_agent_env (DialError False), 5)) s) = replicate k False" for k s
    by (induction k arbitrary: s) (simp_all add: ans case_prod_beta)
  then obtain s' where run: "agent_run ''h'' demo_cfg [''a''] ?es demo_seen = (replicate 3 False, s')" by (metis prod.collapse)
  have r: "r_healthFailureThreshold (as_router demo_seen) = int 3" "hooks_on (as_router demo_seen)" "FindNode (as_router demo_seen) ''a'' = Some ?n"
    "ns_AgentFailures ?n = 0" "\<not> ns_AgentStale ?n" "gm_get (r_prevAgentPresent (as_router demo_seen)) ''a'' = Some True"
    by (simp_all add: demo_seen_def demo_watched_def hooks_on_def FindNode_def new_node_def set_probe_def Let_def zero_node_def)
  have sil: "\<exists>pre. replicate 3 False = pre @ replicate 3 False" by (intro exI [of _ "[]"]) simp
  obtain n' where n': "FindNode (as_router s') ''a'' = Some n'" "ns_AgentStale n' \<longleftrightarrow> (\<exists>pre. replicate 3 False = pre @ replicate 3 False)"
    "ns_AgentStale n' \<longrightarrow> ns_AgentGPUs n' = [] \<and> ns_VRAMSource n' \<noteq> ''agent'' \<and> \<not> ns_AgentPresent n'"
    using agent_silence_hysteresis [OF _ r(1-6) _ _ run] by auto
  then show ?thesis using sil by (simp add: run)
qed

end
