(* ===== verification/Sole_Replica.thy ===== *)
theory Sole_Replica
  imports Placement
begin

text \<open>
  Taking a node out of service safely: which models would lose every server
  (\<^verbatim>\<open>internal/router/replica_safety.go\<close>), and the check in front of a drain or a
  restart (\<^verbatim>\<open>internal/admin/sole_replica.go\<close> and \<^verbatim>\<open>handleDrainNode\<close> of \<^verbatim>\<open>internal/admin/admin.go\<close>).
  The reasons of unknown verdicts are constructors; the code renders them as English sentences.
\<close>

section \<open>The impact of losing a node\<close>

datatype gap_reason =
  TargetNotHealthy | TargetNotReported | NotPolledYet | NotReportedRecently | RuntimeUndetected | DeclarationUnresolved
  | MemberNotAnswering | OnlyOpenAICompatible

record sole_model =
  sm_Model :: string
  sm_Runtime :: string

record cold_load_model =
  cl_Model :: string
  cl_Runtime :: string
  cl_Peers :: "string list"

record sole_unknown =
  su_Node :: string
  su_Model :: string
  su_Reason :: gap_reason

record sole_impact =
  si_Models :: "sole_model list"
  si_ColdLoadOnly :: "cold_load_model list"
  si_Unknown :: "sole_unknown list"

datatype peer_verdict = verdictIneligible | verdictUnknown gap_reason | verdictWarm | verdictCold

definition pollIsStale :: "gotime \<Rightarrow> router \<Rightarrow> gotime \<Rightarrow> bool" where
  "pollIsStale now r lastPoll =
     (if r_interval r \<le> 0 then False else now - lastPoll > r_healthFailureThreshold r * r_interval r)"

record safety_view =
  sv_node :: node_state
  sv_name :: string
  sv_runtime :: string
  sv_healthy :: bool
  sv_draining :: bool
  sv_lastPoll :: gotime

definition snapshotSafetyNode :: "node_state \<Rightarrow> safety_view" where
  "snapshotSafetyNode n = \<lparr> sv_node = n, sv_name = ns_Name n, sv_runtime = normalizeRuntime (ns_Runtime n),
     sv_healthy = ns_Healthy n, sv_draining = ns_Draining n, sv_lastPoll = ns_LastPollAt n \<rparr>"

text \<open>\<open>None\<close> goes on; \<open>Some gap\<close> stops with or without an unknown entry.\<close>

definition targetGate :: "gotime \<Rightarrow> router \<Rightarrow> safety_view \<Rightarrow> scheduling_role \<Rightarrow> sole_unknown option option" where
  "targetGate now r tv role =
     (if sv_draining tv \<or> role = RoleWorker \<or> role = RoleUnresolved then Some None
      else if \<not> sv_healthy tv then Some (Some \<lparr> su_Node = sv_name tv, su_Model = [], su_Reason = TargetNotHealthy \<rparr>)
      else if time_is_zero (sv_lastPoll tv) \<or> pollIsStale now r (sv_lastPoll tv)
      then Some (Some \<lparr> su_Node = sv_name tv, su_Model = [], su_Reason = TargetNotReported \<rparr>)
      else None)"

definition keep_first :: "'a list \<Rightarrow> 'a list" where
  "keep_first xs = rev (remdups (rev xs))"

definition loadedModelNames :: "node_state \<Rightarrow> string list" where
  "loadedModelNames n = keep_first (filter (\<lambda>x. x \<noteq> []) (map mi_Name (ns_LoadedModels n)))"

definition peerDataGap :: "gotime \<Rightarrow> router \<Rightarrow> safety_view \<Rightarrow> string \<Rightarrow> scheduling_role \<Rightarrow> bool \<Rightarrow> gap_reason option" where
  "peerDataGap now r p targetRuntime role headUnreachable =
     (if time_is_zero (sv_lastPoll p) then Some NotPolledYet
      else if pollIsStale now r (sv_lastPoll p) then Some NotReportedRecently
      else if sv_runtime p = ''auto'' \<or> targetRuntime = ''auto'' then Some RuntimeUndetected
      else if role = RoleUnresolved then Some DeclarationUnresolved
      else if role = RoleHead \<and> headUnreachable then Some MemberNotAnswering
      else None)"

definition judgePeer :: "gotime \<Rightarrow> router \<Rightarrow> safety_view \<Rightarrow> string \<Rightarrow> string \<Rightarrow> scheduling_role \<Rightarrow> bool \<Rightarrow> peer_verdict" where
  "judgePeer now r p model targetRuntime role headUnreachable =
     (if \<not> sv_healthy p \<or> sv_draining p \<or> role = RoleWorker \<or> \<not> isGPUGroupSufficient (sv_node p) then verdictIneligible
      else case peerDataGap now r p targetRuntime role headUnreachable of
        Some gap \<Rightarrow> verdictUnknown gap
      | None \<Rightarrow>
          if isModelWarm r (sv_node p) model then
            if targetRuntime = runtimeOllama \<and> sv_runtime p \<noteq> runtimeOllama then verdictUnknown OnlyOpenAICompatible
            else verdictWarm
          else if sv_runtime p = runtimeOllama \<and> targetRuntime = runtimeOllama then verdictCold
          else verdictIneligible)"

text \<open>The loop over the peers; \<open>None\<close> is the early return at a warm one.\<close>

fun classify_peers ::
  "(safety_view \<Rightarrow> peer_verdict) \<Rightarrow> string \<Rightarrow> safety_view list \<Rightarrow> string list \<Rightarrow> sole_unknown list
     \<Rightarrow> (string list \<times> sole_unknown list) option" where
  "classify_peers judge model [] coldPeers unknowns = Some (coldPeers, unknowns)"
| "classify_peers judge model (p # ps) coldPeers unknowns =
     (case judge p of
        verdictWarm \<Rightarrow> None
      | verdictCold \<Rightarrow> classify_peers judge model ps (coldPeers @ [sv_name p]) unknowns
      | verdictUnknown reason \<Rightarrow>
          classify_peers judge model ps coldPeers (unknowns @ [\<lparr> su_Node = sv_name p, su_Model = model, su_Reason = reason \<rparr>])
      | verdictIneligible \<Rightarrow> classify_peers judge model ps coldPeers unknowns)"

definition classifyModel ::
  "gotime \<Rightarrow> router \<Rightarrow> safety_view \<Rightarrow> safety_view list \<Rightarrow> roles \<Rightarrow> (string, node_state) gomap \<Rightarrow> string \<Rightarrow> sole_impact \<Rightarrow> sole_impact" where
  "classifyModel now r tv peers roles down model impact =
     (case classify_peers
             (\<lambda>p. judgePeer now r p model (sv_runtime tv) (role_of roles (sv_name p)) (gm_get down (sv_name p) \<noteq> None))
             model peers [] [] of
        None \<Rightarrow> impact
      | Some (coldPeers, unknowns) \<Rightarrow>
          if coldPeers \<noteq> [] then
            impact\<lparr> si_ColdLoadOnly := si_ColdLoadOnly impact
                      @ [\<lparr> cl_Model = model, cl_Runtime = sv_runtime tv, cl_Peers = sort coldPeers \<rparr>] \<rparr>
          else if unknowns \<noteq> [] then impact\<lparr> si_Unknown := si_Unknown impact @ unknowns \<rparr>
          else impact\<lparr> si_Models := si_Models impact @ [\<lparr> sm_Model = model, sm_Runtime = sv_runtime tv \<rparr>] \<rparr>)"

definition sortImpact :: "sole_impact \<Rightarrow> sole_impact" where
  "sortImpact i = \<lparr> si_Models = sort_key sm_Model (si_Models i), si_ColdLoadOnly = sort_key cl_Model (si_ColdLoadOnly i),
     si_Unknown = sort_key (\<lambda>u. (su_Node u, su_Model u)) (si_Unknown i) \<rparr>"

definition no_impact :: sole_impact where
  "no_impact = \<lparr> si_Models = [], si_ColdLoadOnly = [], si_Unknown = [] \<rparr>"

definition SoleReplicaImpact :: "gotime \<Rightarrow> router \<Rightarrow> string \<Rightarrow> (string, bool) gomap \<Rightarrow> sole_impact option" where
  "SoleReplicaImpact now r target alsoDown =
     (case FindNode r target of
        None \<Rightarrow> None
      | Some tn \<Rightarrow>
          (let nodes = r_nodes r;
               (roles, heads) = scheduling_roles nodes;
               down = unreachableReplicaHeads nodes roles heads;
               tv = snapshotSafetyNode tn
           in case targetGate now r tv (role_of roles target) of
                Some None \<Rightarrow> Some no_impact
              | Some (Some gap) \<Rightarrow> Some (no_impact\<lparr> si_Unknown := [gap] \<rparr>)
              | None \<Rightarrow>
                  (let peers = map snapshotSafetyNode
                         (filter (\<lambda>n. \<not> gm_at False alsoDown (ns_Name n)) (del_first (\<lambda>n. ns_Name n = target) nodes))
                   in Some (sortImpact (fold (classifyModel now r tv peers roles down) (loadedModelNames tn) no_impact)))))"

section \<open>The check before a drain or a restart\<close>

record restart_marker =
  rm_started :: gotime
  rm_returned :: gotime
  rm_inflight :: int
  rm_maybeDown :: bool

definition restartMarkerTTL :: duration where "restartMarkerTTL = 15 * minute"

type_synonym restarts = "(string, restart_marker) gomap"

definition restart_over :: "gotime \<Rightarrow> router \<Rightarrow> string \<Rightarrow> restart_marker \<Rightarrow> bool" where
  "restart_over now r name mk \<longleftrightarrow>
     now - rm_started mk > restartMarkerTTL
     \<or> (\<not> time_is_zero (rm_returned mk)
        \<and> (case FindNode r name of None \<Rightarrow> time_zero | Some n \<Rightarrow> ns_LastPollAt n) > rm_returned mk + r_interval r)"

definition restartingNodesLocked :: "gotime \<Rightarrow> router \<Rightarrow> restarts \<Rightarrow> (string, bool) gomap \<times> restarts" where
  "restartingNodesLocked now r marks =
     (let kept = gm_remove_if (restart_over now r) marks in (map (\<lambda>(name, mk). (name, True)) kept, kept))"

definition markRestartStarted :: "gotime \<Rightarrow> string \<Rightarrow> restarts \<Rightarrow> restarts" where
  "markRestartStarted now name marks =
     (let mk = gm_at \<lparr> rm_started = time_zero, rm_returned = time_zero, rm_inflight = 0, rm_maybeDown = False \<rparr> marks name
      in gm_put name (mk\<lparr> rm_inflight := rm_inflight mk + 1, rm_started := now, rm_returned := time_zero \<rparr>) marks)"

definition finishRestart :: "gotime \<Rightarrow> string \<Rightarrow> bool \<Rightarrow> restarts \<Rightarrow> restarts" where
  "finishRestart now name refused marks =
     (case gm_get marks name of
        None \<Rightarrow> marks
      | Some mk \<Rightarrow>
          (let mk1 = (if rm_inflight mk > 0 then mk\<lparr> rm_inflight := rm_inflight mk - 1 \<rparr> else mk);
               mk2 = (if \<not> refused then mk1\<lparr> rm_maybeDown := True \<rparr> else mk1)
           in if rm_inflight mk2 = 0 then
                if \<not> rm_maybeDown mk2 then gm_del name marks
                else gm_put name (mk2\<lparr> rm_returned := now \<rparr>) marks
              else gm_put name mk2 marks))"

record sole_consent =
  sc_force :: bool
  sc_ackGiven :: bool
  sc_acked :: "string list"
  sc_parseErr :: bool

text \<open>\<open>query\<close> is the parsed query string, \<open>None\<close> when it does not parse.\<close>

definition soleConsentFrom :: "(string, string list) gomap option \<Rightarrow> sole_consent" where
  "soleConsentFrom query =
     (case query of
        None \<Rightarrow> \<lparr> sc_force = False, sc_ackGiven = False, sc_acked = [], sc_parseErr = True \<rparr>
      | Some values \<Rightarrow>
          \<lparr> sc_force = (case gm_at [] values ''force'' of [] \<Rightarrow> False | v # _ \<Rightarrow> v = ''true''),
            sc_ackGiven = (gm_get values ''acknowledge_sole'' \<noteq> None),
            sc_acked = filter (\<lambda>a. a \<noteq> []) (gm_at [] values ''acknowledge_sole''), sc_parseErr = False \<rparr>)"

definition unacknowledged :: "sole_consent \<Rightarrow> sole_model list \<Rightarrow> string list" where
  "unacknowledged c models =
     keep_first (filter (\<lambda>m. m \<notin> set (sc_acked c)) (map sm_Model models))"

datatype sole_outcome = soleNodeMissing | soleProceed | soleForced | soleBlocked | soleStaleAck | soleBadQuery

record sole_check =
  sk_impact :: sole_impact
  sk_outcome :: sole_outcome
  sk_unacknowledged :: "string list"
  sk_ackEmpty :: bool
  sk_reviewed :: bool

definition plain_check :: "sole_impact \<Rightarrow> sole_outcome \<Rightarrow> sole_check" where
  "plain_check i out = \<lparr> sk_impact = i, sk_outcome = out, sk_unacknowledged = [], sk_ackEmpty = False, sk_reviewed = False \<rparr>"

text \<open>
  The change itself is \<open>commit\<close>, which runs under the same lock.  The state is the router and
  the restart markers.
\<close>

definition checkSoleReplica ::
  "gotime \<Rightarrow> string \<Rightarrow> sole_consent \<Rightarrow> (router \<times> restarts \<Rightarrow> router \<times> restarts) \<Rightarrow> router \<times> restarts
     \<Rightarrow> sole_check \<times> router \<times> restarts" where
  "checkSoleReplica now name consent commit s =
     (case s of (r, marks) \<Rightarrow>
        case restartingNodesLocked now r marks of (away, marks1) \<Rightarrow>
          case SoleReplicaImpact now r name away of
            None \<Rightarrow> (plain_check no_impact soleNodeMissing, r, marks1)
          | Some impact \<Rightarrow>
              if si_Models impact = [] then (plain_check impact soleProceed, commit (r, marks1))
              else if sc_parseErr consent then (plain_check impact soleBadQuery, r, marks1)
              else if \<not> sc_force consent then (plain_check impact soleBlocked, r, marks1)
              else if sc_ackGiven consent \<and> unacknowledged consent (si_Models impact) \<noteq> []
              then ((plain_check impact soleStaleAck)
                      \<lparr> sk_unacknowledged := unacknowledged consent (si_Models impact), sk_ackEmpty := (sc_acked consent = []) \<rparr>,
                    r, marks1)
              else ((plain_check impact soleForced)\<lparr> sk_reviewed := sc_ackGiven consent \<rparr>, commit (r, marks1)))"

text \<open>The two changes that are checked.\<close>

definition drain_commit :: "string \<Rightarrow> string \<Rightarrow> int \<Rightarrow> router \<times> restarts \<Rightarrow> router \<times> restarts" where
  "drain_commit name reason grace = (\<lambda>(r, marks).
     case DrainNode name reason grace r of
       (False, r1) \<Rightarrow> (r1, marks)
     | (True, r1) \<Rightarrow>
         (r1\<lparr> r_store := map_option (\<lambda>st. st\<lparr> sr_drains := gm_put name (True, reason, grace) (sr_drains st) \<rparr>) (r_store r1) \<rparr>, marks))"

datatype drain_reply = DrainBadRequest | DrainRefused sole_check | DrainNotFound | DrainOK sole_check

text \<open>The body is the decoded reason and grace period, \<open>None\<close> when it is not JSON.\<close>

definition handleDrainNode ::
  "gotime \<Rightarrow> string \<Rightarrow> (string \<times> int option) option \<Rightarrow> (string, string list) gomap option \<Rightarrow> router \<times> restarts
     \<Rightarrow> drain_reply \<times> router \<times> restarts" where
  "handleDrainNode now name body query s =
     (case body of
        None \<Rightarrow> (DrainBadRequest, s)
      | Some (reason0, grace0) \<Rightarrow>
          let reason = (if reason0 = [] then ''manual'' else reason0) in
          if (case grace0 of None \<Rightarrow> False | Some g \<Rightarrow> g < 0) then (DrainBadRequest, s)
          else
            let grace = (case grace0 of None \<Rightarrow> 0 | Some g \<Rightarrow> g) in
            case checkSoleReplica now name (soleConsentFrom query) (drain_commit name reason grace) s of
              (sole, s1) \<Rightarrow>
                (if sk_outcome sole \<in> {soleBlocked, soleStaleAck, soleBadQuery} then DrainRefused sole
                 else if sk_outcome sole = soleNodeMissing then DrainNotFound
                 else DrainOK sole, s1))"

definition guardRuntimeActionSole ::
  "gotime \<Rightarrow> string \<Rightarrow> bool \<Rightarrow> (string, string list) gomap option \<Rightarrow> router \<times> restarts \<Rightarrow> sole_check option \<times> router \<times> restarts" where
  "guardRuntimeActionSole now name restart query s =
     (if \<not> restart then (None, s)
      else case checkSoleReplica now name (soleConsentFrom query) (\<lambda>(r, marks). (r, markRestartStarted now name marks)) s of
        (sole, s1) \<Rightarrow> (Some sole, s1))"

section \<open>Draining a node changes nothing else\<close>

lemma declare_loop_upd:
  assumes "\<And>n. declared_peers (f n) = declared_peers n" "\<And>n. ns_Name (f n) = ns_Name n"
  shows "declare_loop (upd_first p f ns) parent decls = declare_loop ns parent decls"
  using assms by (induction ns arbitrary: parent decls) (auto split: option.split)

lemma scheduling_roles_upd:
  assumes "\<And>n. declared_peers (f n) = declared_peers n" "\<And>n. ns_Name (f n) = ns_Name n"
  shows "scheduling_roles (upd_first p f ns) = scheduling_roles ns"
  by (simp add: scheduling_roles_def resolveSchedulingRolesAndHeads_def declare_loop_upd [OF assms] map_upd_first assms(2))

lemma unreachable_loop_cong:
  "\<forall>x. (gm_get d x = None) = (gm_get d' x = None) \<Longrightarrow>
   (gm_get (unreachable_loop ns roles heads d) y = None) = (gm_get (unreachable_loop ns roles heads d') y = None)"
  by (induction ns arbitrary: d d') (auto simp: Let_def gm_get_put)

lemma unreachable_loop_upd:
  assumes "\<And>n. ns_Name (f n) = ns_Name n" "\<And>n. ns_AgentStale (f n) = ns_AgentStale n"
  shows "(gm_get (unreachable_loop (upd_first p f ns) roles heads d) y = None) = (gm_get (unreachable_loop ns roles heads d) y = None)"
proof (induction ns arbitrary: d)
  case (Cons n ns)
  show ?case
  proof (cases "p n")
    case True
    let ?h = "gm_at [] heads (ns_Name n)"
    have "(gm_get (unreachable_loop ns roles heads (gm_put ?h (f n) d)) y = None) = (gm_get (unreachable_loop ns roles heads (gm_put ?h n d)) y = None)"
      by (rule unreachable_loop_cong) (simp add: gm_get_put)
    then show ?thesis using True assms by (simp add: Let_def)
  next
    case False
    then show ?thesis using Cons by (simp add: Let_def)
  qed
qed simp

lemma member_down_upd:
  assumes "\<And>n. declared_peers (f n) = declared_peers n" "\<And>n. ns_Name (f n) = ns_Name n" "\<And>n. ns_AgentStale (f n) = ns_AgentStale n"
  shows "member_down (upd_first p f ns) n = member_down ns n"
  unfolding member_down_def scheduling_roles_upd [OF assms(1,2)]
  using unreachable_loop_upd [OF assms(2,3), of p ns "fst (scheduling_roles ns)" "snd (scheduling_roles ns)" "[]" "ns_Name n"]
  by (simp add: unreachableReplicaHeads_def del: not_None_eq)

definition drained :: "string \<Rightarrow> string \<Rightarrow> int \<Rightarrow> router \<Rightarrow> router" where
  "drained target reason grace r = snd (DrainNode target reason grace r)"

lemma drained_fields:
  assumes "FindNode r target = Some tn"
  shows "r_nodes (drained target reason grace r) = upd_first (\<lambda>n. ns_Name n = target) (drain_node reason grace) (r_nodes r)"
    "r_modelDigests (drained target reason grace r) = r_modelDigests r" "r_maxInFlightPerNode (drained target reason grace r) = r_maxInFlightPerNode r"
  using assms by (simp_all add: drained_def DrainNode_def fireWebhook_def upd_node_def)

lemma drained_routable:
  assumes "FindNode r target = Some tn"
  shows "routable (drained target reason grace r) (r_nodes (drained target reason grace r)) m rt n = routable r (r_nodes r) m rt n"
    "member_down (r_nodes (drained target reason grace r)) n = member_down (r_nodes r) n"
proof -
  have d: "declared_peers (drain_node reason grace n) = declared_peers n" "ns_Name (drain_node reason grace n) = ns_Name n"
    "ns_AgentStale (drain_node reason grace n) = ns_AgentStale n" for n
    by (simp_all add: declared_peers_def drain_node_def)
  note f = drained_fields [OF assms, of reason grace]
  have w: "isModelWarm (drained target reason grace r) n m = isModelWarm r n m" by (simp add: isModelWarm_def digestMismatch_def f)
  show "routable (drained target reason grace r) (r_nodes (drained target reason grace r)) m rt n = routable r (r_nodes r) m rt n"
    by (simp add: routable_def f scheduling_roles_upd [OF d(1,2)] isEligibleForModel_def w isUnderCapacity_def)
  show "member_down (r_nodes (drained target reason grace r)) n = member_down (r_nodes r) n"
    by (simp add: f member_down_upd [OF d])
qed

lemma drained_set:
  assumes "distinct (map ns_Name (r_nodes r))" "FindNode r target = Some tn"
  shows "set (r_nodes (drained target reason grace r)) = insert (drain_node reason grace tn) {n \<in> set (r_nodes r). ns_Name n \<noteq> target}"
    "distinct (map ns_Name (r_nodes (drained target reason grace r)))"
proof -
  have tn: "tn \<in> set (r_nodes r)" "ns_Name tn = target" using FindNode_Some [OF assms(2)] by auto
  have nm: "ns_Name (drain_node reason grace n) = ns_Name n" for n by (simp add: drain_node_def)
  show "distinct (map ns_Name (r_nodes (drained target reason grace r)))"
    using assms(1) by (simp add: drained_fields(1) [OF assms(2)] map_upd_first nm)
  have "set (upd_first (\<lambda>n. ns_Name n = target) f ns) = insert (f tn) {n \<in> set ns. ns_Name n \<noteq> target}"
    if "distinct (map ns_Name ns)" "tn \<in> set ns" for ns f
    using that
  proof (induction ns)
    case (Cons n ns)
    show ?case
    proof (cases "ns_Name n = target")
      case True
      then have "n = tn" using Cons.prems tn(2) by (auto simp: rev_image_eqI)
      moreover have "target \<notin> ns_Name ` set ns" using Cons.prems(1) True by simp
      then have "\<forall>x \<in> set ns. ns_Name x \<noteq> target" by blast
      ultimately show ?thesis using True by auto
    next
      case False
      then show ?thesis using Cons tn(2) by auto
    qed
  qed simp
  then show "set (r_nodes (drained target reason grace r)) = insert (drain_node reason grace tn) {n \<in> set (r_nodes r). ns_Name n \<noteq> target}"
    using assms(1) tn(1) by (simp add: drained_fields(1) [OF assms(2)])
qed

section \<open>What the lists say\<close>

lemma classify_peers_None: "classify_peers judge m ps c u = None \<longleftrightarrow> (\<exists>p \<in> set ps. judge p = verdictWarm)"
  by (induction ps arbitrary: c u) (auto split: peer_verdict.split)

lemma classify_peers_Some:
  "classify_peers judge m ps c u = Some (c', u') \<Longrightarrow>
   (c' = [] \<longleftrightarrow> c = [] \<and> (\<forall>p \<in> set ps. judge p \<noteq> verdictCold))
   \<and> (u' = [] \<longleftrightarrow> u = [] \<and> (\<forall>p \<in> set ps. \<forall>g. judge p \<noteq> verdictUnknown g))
   \<and> su_Model ` set u' \<subseteq> insert m (su_Model ` set u)"
proof (induction ps arbitrary: c u)
  case (Cons p ps)
  show ?case
  proof (cases "judge p")
    case (verdictUnknown g)
    then show ?thesis using Cons.IH [of c "u @ [\<lparr> su_Node = sv_name p, su_Model = m, su_Reason = g \<rparr>]"] Cons.prems by auto
  next
    case verdictCold
    then show ?thesis using Cons.IH [of "c @ [sv_name p]" u] Cons.prems by auto
  qed (use Cons in auto)
qed (simp add: subset_insertI)

text \<open>How a model is listed, given the verdicts on the peers.\<close>

definition sole_of :: "(safety_view \<Rightarrow> peer_verdict) \<Rightarrow> safety_view list \<Rightarrow> bool" where
  "sole_of judge ps \<longleftrightarrow> (\<forall>p \<in> set ps. judge p = verdictIneligible)"

definition cold_of :: "(safety_view \<Rightarrow> peer_verdict) \<Rightarrow> safety_view list \<Rightarrow> bool" where
  "cold_of judge ps \<longleftrightarrow> (\<forall>p \<in> set ps. judge p \<noteq> verdictWarm) \<and> (\<exists>p \<in> set ps. judge p = verdictCold)"

definition unknown_of :: "(safety_view \<Rightarrow> peer_verdict) \<Rightarrow> safety_view list \<Rightarrow> bool" where
  "unknown_of judge ps \<longleftrightarrow>
     (\<forall>p \<in> set ps. judge p \<noteq> verdictWarm \<and> judge p \<noteq> verdictCold) \<and> (\<exists>p \<in> set ps. \<exists>g. judge p = verdictUnknown g)"

abbreviation judge_in :: "gotime \<Rightarrow> router \<Rightarrow> safety_view \<Rightarrow> roles \<Rightarrow> (string, node_state) gomap \<Rightarrow> string \<Rightarrow> safety_view \<Rightarrow> peer_verdict" where
  "judge_in now r tv roles down model p \<equiv>
     judgePeer now r p model (sv_runtime tv) (role_of roles (sv_name p)) (gm_get down (sv_name p) \<noteq> None)"

lemma classifyModel_lists:
  fixes now r tv roles down model ps
  defines "judge \<equiv> judge_in now r tv roles down model"
  shows "sm_Model ` set (si_Models (classifyModel now r tv ps roles down model i))
      = sm_Model ` set (si_Models i) \<union> (if sole_of judge ps then {model} else {})"
    "cl_Model ` set (si_ColdLoadOnly (classifyModel now r tv ps roles down model i))
      = cl_Model ` set (si_ColdLoadOnly i) \<union> (if cold_of judge ps then {model} else {})"
    "su_Model ` set (si_Unknown (classifyModel now r tv ps roles down model i))
      = su_Model ` set (si_Unknown i) \<union> (if unknown_of judge ps then {model} else {})"
proof -
  define res where "res = classify_peers judge model ps [] []"
  have eq: "classifyModel now r tv ps roles down model i =
     (case res of
        None \<Rightarrow> i
      | Some (c, u) \<Rightarrow>
          if c \<noteq> [] then i\<lparr> si_ColdLoadOnly := si_ColdLoadOnly i @ [\<lparr> cl_Model = model, cl_Runtime = sv_runtime tv, cl_Peers = sort c \<rparr>] \<rparr>
          else if u \<noteq> [] then i\<lparr> si_Unknown := si_Unknown i @ u \<rparr>
          else i\<lparr> si_Models := si_Models i @ [\<lparr> sm_Model = model, sm_Runtime = sv_runtime tv \<rparr>] \<rparr>)"
    by (simp add: classifyModel_def res_def judge_def)
  have all: "sm_Model ` set (si_Models (classifyModel now r tv ps roles down model i))
        = sm_Model ` set (si_Models i) \<union> (if sole_of judge ps then {model} else {})
      \<and> cl_Model ` set (si_ColdLoadOnly (classifyModel now r tv ps roles down model i))
        = cl_Model ` set (si_ColdLoadOnly i) \<union> (if cold_of judge ps then {model} else {})
      \<and> su_Model ` set (si_Unknown (classifyModel now r tv ps roles down model i))
        = su_Model ` set (si_Unknown i) \<union> (if unknown_of judge ps then {model} else {})"
  proof (cases res)
    case None
    then obtain p where "p \<in> set ps" "judge p = verdictWarm" unfolding res_def classify_peers_None by blast
    then have "\<not> sole_of judge ps" "\<not> cold_of judge ps" "\<not> unknown_of judge ps"
      by (force simp: sole_of_def cold_of_def unknown_of_def)+
    then show ?thesis using None by (simp add: eq)
  next
    case (Some cu)
    obtain c u where cu: "cu = (c, u)" by (cases cu)
    have nowarm: "\<forall>p \<in> set ps. judge p \<noteq> verdictWarm" using Some classify_peers_None [of judge model ps "[]" "[]"] unfolding res_def by auto
    have sp: "c = [] \<longleftrightarrow> (\<forall>p \<in> set ps. judge p \<noteq> verdictCold)" "u = [] \<longleftrightarrow> (\<forall>p \<in> set ps. \<forall>g. judge p \<noteq> verdictUnknown g)"
      "su_Model ` set u \<subseteq> {model}"
      using classify_peers_Some [of judge model ps "[]" "[]" c u] Some unfolding res_def cu by simp_all
    have others: "judge p \<in> {verdictIneligible, verdictCold} \<or> (\<exists>g. judge p = verdictUnknown g)" if "p \<in> set ps" for p
      using nowarm that by (cases "judge p") auto
    consider "c \<noteq> []" | "c = []" "u \<noteq> []" | "c = []" "u = []" by blast
    then show ?thesis
    proof cases
      case 1
      then have "cold_of judge ps" "\<not> sole_of judge ps" "\<not> unknown_of judge ps"
        using sp(1) nowarm by (force simp: sole_of_def cold_of_def unknown_of_def)+
      then show ?thesis using 1 Some cu by (simp add: eq)
    next
      case 2
      then have "\<not> cold_of judge ps" "\<not> sole_of judge ps" "unknown_of judge ps"
        using sp nowarm by (force simp: sole_of_def cold_of_def unknown_of_def)+
      moreover have "su_Model ` set u = {model}" using sp(3) 2(2) by (cases u) auto
      ultimately show ?thesis using 2 Some cu by (simp add: eq image_Un)
    next
      case 3
      have "\<forall>p \<in> set ps. judge p = verdictIneligible" using sp(1,2) 3 others by fastforce
      then have "\<not> cold_of judge ps" "sole_of judge ps" "\<not> unknown_of judge ps"
        by (auto simp: sole_of_def cold_of_def unknown_of_def)
      then show ?thesis using 3 Some cu by (simp add: eq)
    qed
  qed
  show "sm_Model ` set (si_Models (classifyModel now r tv ps roles down model i))
      = sm_Model ` set (si_Models i) \<union> (if sole_of judge ps then {model} else {})" by (rule all [THEN conjunct1])
  show "cl_Model ` set (si_ColdLoadOnly (classifyModel now r tv ps roles down model i))
      = cl_Model ` set (si_ColdLoadOnly i) \<union> (if cold_of judge ps then {model} else {})" by (rule all [THEN conjunct2, THEN conjunct1])
  show "su_Model ` set (si_Unknown (classifyModel now r tv ps roles down model i))
      = su_Model ` set (si_Unknown i) \<union> (if unknown_of judge ps then {model} else {})" by (rule all [THEN conjunct2, THEN conjunct2])
qed

lemma fold_collect:
  assumes "\<And>m i. g (f m i) = g i \<union> (if P m then {m} else {})"
  shows "g (fold f ms i) = g i \<union> {m \<in> set ms. P m}"
proof (induction ms arbitrary: i)
  case (Cons m ms)
  have "{x \<in> set (m # ms). P x} = (if P m then {m} else {}) \<union> {x \<in> set ms. P x}" by auto
  then show ?case using Cons [of "f m i"] assms [of m i] by (simp only: fold_Cons comp_def Un_assoc)
qed simp

lemma classify_fold_lists:
  "sm_Model ` set (si_Models (fold (classifyModel now r tv ps roles down) ms i))
      = sm_Model ` set (si_Models i) \<union> {m \<in> set ms. sole_of (judge_in now r tv roles down m) ps}"
  "cl_Model ` set (si_ColdLoadOnly (fold (classifyModel now r tv ps roles down) ms i))
      = cl_Model ` set (si_ColdLoadOnly i) \<union> {m \<in> set ms. cold_of (judge_in now r tv roles down m) ps}"
  "su_Model ` set (si_Unknown (fold (classifyModel now r tv ps roles down) ms i))
      = su_Model ` set (si_Unknown i) \<union> {m \<in> set ms. unknown_of (judge_in now r tv roles down m) ps}"
proof -
  let ?f = "classifyModel now r tv ps roles down"
  show "sm_Model ` set (si_Models (fold ?f ms i)) = sm_Model ` set (si_Models i) \<union> {m \<in> set ms. sole_of (judge_in now r tv roles down m) ps}"
    by (rule fold_collect [where f = ?f and g = "\<lambda>i. sm_Model ` set (si_Models i)" and P = "\<lambda>m. sole_of (judge_in now r tv roles down m) ps"])
      (rule classifyModel_lists(1))
  show "cl_Model ` set (si_ColdLoadOnly (fold ?f ms i)) = cl_Model ` set (si_ColdLoadOnly i) \<union> {m \<in> set ms. cold_of (judge_in now r tv roles down m) ps}"
    by (rule fold_collect [where f = ?f and g = "\<lambda>i. cl_Model ` set (si_ColdLoadOnly i)" and P = "\<lambda>m. cold_of (judge_in now r tv roles down m) ps"])
      (rule classifyModel_lists(2))
  show "su_Model ` set (si_Unknown (fold ?f ms i)) = su_Model ` set (si_Unknown i) \<union> {m \<in> set ms. unknown_of (judge_in now r tv roles down m) ps}"
    by (rule fold_collect [where f = ?f and g = "\<lambda>i. su_Model ` set (si_Unknown i)" and P = "\<lambda>m. unknown_of (judge_in now r tv roles down m) ps"])
      (rule classifyModel_lists(3))
qed

text \<open>The peers that are judged, and the verdict on one of them.\<close>

definition peers_of :: "router \<Rightarrow> string \<Rightarrow> (string, bool) gomap \<Rightarrow> node_state list" where
  "peers_of r target away = filter (\<lambda>n. \<not> gm_at False away (ns_Name n)) (del_first (\<lambda>n. ns_Name n = target) (r_nodes r))"

definition verdict :: "gotime \<Rightarrow> router \<Rightarrow> string \<Rightarrow> string \<Rightarrow> node_state \<Rightarrow> peer_verdict" where
  "verdict now r rt model n =
     judgePeer now r (snapshotSafetyNode n) model rt (role_of (fst (scheduling_roles (r_nodes r))) (ns_Name n))
       (gm_get (unreachableReplicaHeads (r_nodes r) (fst (scheduling_roles (r_nodes r))) (snd (scheduling_roles (r_nodes r)))) (ns_Name n) \<noteq> None)"

text \<open>The node serves requests and its models are known.\<close>

definition serving :: "gotime \<Rightarrow> router \<Rightarrow> node_state \<Rightarrow> bool" where
  "serving now r n \<longleftrightarrow>
     ns_Healthy n \<and> \<not> ns_Draining n \<and> \<not> time_is_zero (ns_LastPollAt n) \<and> \<not> pollIsStale now r (ns_LastPollAt n)
     \<and> role_of (fst (scheduling_roles (r_nodes r))) (ns_Name n) \<in> {RoleStandalone, RoleHead}"

lemma impact_lists:
  assumes "FindNode r target = Some tn" "serving now r tn" "SoleReplicaImpact now r target away = Some imp"
  shows "sm_Model ` set (si_Models imp) = {m \<in> set (loadedModelNames tn).
      \<forall>n \<in> set (peers_of r target away). verdict now r (normalizeRuntime (ns_Runtime tn)) m n = verdictIneligible}"
    "cl_Model ` set (si_ColdLoadOnly imp) = {m \<in> set (loadedModelNames tn).
      (\<forall>n \<in> set (peers_of r target away). verdict now r (normalizeRuntime (ns_Runtime tn)) m n \<noteq> verdictWarm)
      \<and> (\<exists>n \<in> set (peers_of r target away). verdict now r (normalizeRuntime (ns_Runtime tn)) m n = verdictCold)}"
    "su_Model ` set (si_Unknown imp) = {m \<in> set (loadedModelNames tn).
      (\<forall>n \<in> set (peers_of r target away). verdict now r (normalizeRuntime (ns_Runtime tn)) m n \<notin> {verdictWarm, verdictCold})
      \<and> (\<exists>n \<in> set (peers_of r target away). \<exists>g. verdict now r (normalizeRuntime (ns_Runtime tn)) m n = verdictUnknown g)}"
proof -
  have nm: "ns_Name tn = target" using FindNode_Some [OF assms(1)] by simp
  let ?roles = "fst (scheduling_roles (r_nodes r))"
  let ?down = "unreachableReplicaHeads (r_nodes r) ?roles (snd (scheduling_roles (r_nodes r)))"
  let ?tv = "snapshotSafetyNode tn" let ?ps = "map snapshotSafetyNode (peers_of r target away)"
  have gate: "targetGate now r ?tv (role_of ?roles target) = None"
    using assms(2) nm by (auto simp: serving_def targetGate_def snapshotSafetyNode_def)
  have imp: "imp = sortImpact (fold (classifyModel now r ?tv ?ps ?roles ?down) (loadedModelNames tn) no_impact)"
    using assms(3) gate unfolding SoleReplicaImpact_def assms(1) option.case Let_def peers_of_def
    by (simp add: case_prod_beta)
  have v: "judge_in now r ?tv ?roles ?down m (snapshotSafetyNode n) = verdict now r (normalizeRuntime (ns_Runtime tn)) m n" for m n
    by (simp add: verdict_def snapshotSafetyNode_def)
  show "sm_Model ` set (si_Models imp) = {m \<in> set (loadedModelNames tn).
      \<forall>n \<in> set (peers_of r target away). verdict now r (normalizeRuntime (ns_Runtime tn)) m n = verdictIneligible}"
    unfolding imp sortImpact_def by (simp add: classify_fold_lists(1) no_impact_def sole_of_def v del: not_None_eq)
  show "cl_Model ` set (si_ColdLoadOnly imp) = {m \<in> set (loadedModelNames tn).
      (\<forall>n \<in> set (peers_of r target away). verdict now r (normalizeRuntime (ns_Runtime tn)) m n \<noteq> verdictWarm)
      \<and> (\<exists>n \<in> set (peers_of r target away). verdict now r (normalizeRuntime (ns_Runtime tn)) m n = verdictCold)}"
    unfolding imp sortImpact_def by (simp add: classify_fold_lists(2) no_impact_def cold_of_def v del: not_None_eq)
  show "su_Model ` set (si_Unknown imp) = {m \<in> set (loadedModelNames tn).
      (\<forall>n \<in> set (peers_of r target away). verdict now r (normalizeRuntime (ns_Runtime tn)) m n \<notin> {verdictWarm, verdictCold})
      \<and> (\<exists>n \<in> set (peers_of r target away). \<exists>g. verdict now r (normalizeRuntime (ns_Runtime tn)) m n = verdictUnknown g)}"
    unfolding imp sortImpact_def by (simp add: classify_fold_lists(3) no_impact_def unknown_of_def v del: not_None_eq)
qed


section \<open>What the verdicts mean for routing\<close>

lemma loaded_nonempty: "m \<in> set (loadedModelNames n) \<Longrightarrow> m \<noteq> []"
  by (simp add: loadedModelNames_def keep_first_def)

lemma snapshot_fields:
  "sv_node (snapshotSafetyNode n) = n" "sv_runtime (snapshotSafetyNode n) = normalizeRuntime (ns_Runtime n)"
  "sv_healthy (snapshotSafetyNode n) = ns_Healthy n" "sv_draining (snapshotSafetyNode n) = ns_Draining n"
  by (simp_all add: snapshotSafetyNode_def)

lemma verdict_peer:
  "verdict now r rt m n =
     (if \<not> ns_Healthy n \<or> ns_Draining n \<or> role_of (fst (scheduling_roles (r_nodes r))) (ns_Name n) = RoleWorker
         \<or> \<not> isGPUGroupSufficient n then verdictIneligible
      else case peerDataGap now r (snapshotSafetyNode n) rt (role_of (fst (scheduling_roles (r_nodes r))) (ns_Name n))
             (gm_get (unreachableReplicaHeads (r_nodes r) (fst (scheduling_roles (r_nodes r))) (snd (scheduling_roles (r_nodes r)))) (ns_Name n) \<noteq> None) of
        Some gap \<Rightarrow> verdictUnknown gap
      | None \<Rightarrow>
          if isModelWarm r n m then
            if rt = runtimeOllama \<and> normalizeRuntime (ns_Runtime n) \<noteq> runtimeOllama then verdictUnknown OnlyOpenAICompatible else verdictWarm
          else if normalizeRuntime (ns_Runtime n) = runtimeOllama \<and> rt = runtimeOllama then verdictCold
          else verdictIneligible)"
  unfolding verdict_def judgePeer_def snapshot_fields ..

lemma ollama_runtime: "normalizeRuntime rt = runtimeOllama \<longleftrightarrow> rt = [] \<or> rt = ''ollama''"
  by (simp add: normalizeRuntime_def runtimeOllama_def)

lemma no_gap:
  "peerDataGap now r (snapshotSafetyNode n) rt role down = None \<Longrightarrow>
   role \<noteq> RoleUnresolved \<and> \<not> (role = RoleHead \<and> down) \<and> ns_Runtime n \<noteq> ''auto''"
  by (auto simp: peerDataGap_def snapshotSafetyNode_def normalizeRuntime_def split: if_splits)

lemma verdict_serves:
  assumes "verdict now r rt m n \<in> {verdictWarm, verdictCold}" "isUnderCapacity r n"
  shows "routable r (r_nodes r) m [] n \<and> \<not> member_down (r_nodes r) n"
proof -
  let ?role = "role_of (fst (scheduling_roles (r_nodes r))) (ns_Name n)"
  let ?down = "gm_get (unreachableReplicaHeads (r_nodes r) (fst (scheduling_roles (r_nodes r))) (snd (scheduling_roles (r_nodes r)))) (ns_Name n) \<noteq> None"
  have up: "ns_Healthy n" "\<not> ns_Draining n" "?role \<noteq> RoleWorker" "isGPUGroupSufficient n"
    and gap: "peerDataGap now r (snapshotSafetyNode n) rt ?role ?down = None"
    and el: "isModelWarm r n m \<or> normalizeRuntime (ns_Runtime n) = runtimeOllama"
    using assms(1) by (auto simp: verdict_peer split: if_splits option.splits simp del: not_None_eq)
  have "isEligibleForModel r n m" using el by (auto simp: isEligibleForModel_def ollama_runtime)
  moreover have "?role \<in> {RoleStandalone, RoleHead}" using up(3) no_gap [OF gap] by (cases ?role) auto
  ultimately show ?thesis using up assms(2) no_gap [OF gap] by (simp add: routable_def member_down_def del: not_None_eq)
qed

lemma verdict_ineligible_blocks:
  assumes "verdict now r runtimeOllama m n = verdictIneligible" "m \<noteq> []"
  shows "\<not> routable r (r_nodes r) m f n"
proof -
  consider "\<not> ns_Healthy n \<or> ns_Draining n \<or> role_of (fst (scheduling_roles (r_nodes r))) (ns_Name n) = RoleWorker \<or> \<not> isGPUGroupSufficient n"
    | "ns_Runtime n \<noteq> ''auto''" "\<not> isModelWarm r n m" "normalizeRuntime (ns_Runtime n) \<noteq> runtimeOllama"
    using assms(1) no_gap [of now r n runtimeOllama] by (auto simp: verdict_peer split: if_splits option.splits simp del: not_None_eq)
  then show ?thesis
    by cases (use assms(2) in \<open>auto simp: routable_def isEligibleForModel_def ollama_runtime\<close>)
qed

lemma set_peers_of:
  assumes "distinct (map ns_Name (r_nodes r))"
  shows "set (peers_of r target []) = {n \<in> set (r_nodes r). ns_Name n \<noteq> target}"
  by (simp add: peers_of_def set_del_first_unique [OF assms] gm_at_def)

lemma candidates_nonempty:
  "n \<in> set (seen ex nodes) \<Longrightarrow> routable r nodes m rt n \<Longrightarrow> candidates_of r nodes m rt ex \<noteq> []"
  by (auto simp: candidates_of_def Let_def filter_empty_conv)

lemma candidates_empty:
  "\<forall>n \<in> set nodes. \<not> routable r nodes m rt n \<Longrightarrow> candidates_of r nodes m rt ex = []"
  by (auto simp: candidates_of_def Let_def filter_empty_conv seen_def)

lemma drained_candidates:
  fixes reason grace
  assumes "distinct (map ns_Name (r_nodes r))" "FindNode r target = Some tn"
  defines "r' \<equiv> drained target reason grace r"
  shows "n \<in> set (r_nodes r) \<Longrightarrow> ns_Name n \<noteq> target \<Longrightarrow> routable r (r_nodes r) m rt n \<Longrightarrow> candidates_of r' (r_nodes r') m rt [] \<noteq> []"
    "\<forall>n \<in> set (r_nodes r). ns_Name n \<noteq> target \<longrightarrow> \<not> routable r (r_nodes r) m rt n \<Longrightarrow> candidates_of r' (r_nodes r') m rt ex = []"
    "w \<in> set (candidates_of r' (r_nodes r') m rt ex) \<Longrightarrow> ns_Name w \<noteq> target \<and> w \<in> set (r_nodes r)"
proof -
  note rt = drained_routable(1) [OF assms(2), of reason grace, folded r'_def]
  note st = drained_set(1) [OF assms(1,2), of reason grace, folded r'_def]
  have dr: "\<not> routable r (r_nodes r) m rt (drain_node reason grace tn)" for m rt by (simp add: routable_def drain_node_def)
  show "candidates_of r' (r_nodes r') m rt [] \<noteq> []" if "n \<in> set (r_nodes r)" "ns_Name n \<noteq> target" "routable r (r_nodes r) m rt n"
    by (rule candidates_nonempty [of n]) (use that in \<open>simp_all add: seen_def gm_at_def st rt\<close>)
  show "candidates_of r' (r_nodes r') m rt ex = []" if "\<forall>n \<in> set (r_nodes r). ns_Name n \<noteq> target \<longrightarrow> \<not> routable r (r_nodes r) m rt n"
    by (rule candidates_empty) (use that in \<open>simp add: st rt dr\<close>)
  show "ns_Name w \<noteq> target \<and> w \<in> set (r_nodes r)" if "w \<in> set (candidates_of r' (r_nodes r') m rt ex)"
    using candidates_sound(1,3) [OF that] dr by (auto simp: st rt)
qed


lemma listed_nowhere_serves:
  assumes "FindNode r target = Some tn" "serving now r tn" "SoleReplicaImpact now r target away = Some imp"
    and "m \<in> set (loadedModelNames tn)" "m \<notin> sm_Model ` set (si_Models imp)" "m \<notin> su_Model ` set (si_Unknown imp)"
  obtains n where "n \<in> set (peers_of r target away)"
    "verdict now r (normalizeRuntime (ns_Runtime tn)) m n \<in> {verdictWarm, verdictCold}"
proof -
  let ?v = "verdict now r (normalizeRuntime (ns_Runtime tn)) m" let ?ps = "set (peers_of r target away)"
  note lists = impact_lists [OF assms(1-3)]
  obtain q where q: "q \<in> ?ps" "?v q \<noteq> verdictIneligible" using assms(4,5) unfolding lists(1) by blast
  have "(\<exists>n \<in> ?ps. ?v n \<in> {verdictWarm, verdictCold}) \<or> (\<forall>n \<in> ?ps. \<forall>g. ?v n \<noteq> verdictUnknown g)"
    using assms(4,6) unfolding lists(3) by blast
  then show thesis using that q by (cases "?v q") auto
qed

text \<open>
  C20. The safety check predicts what routing does once the node is drained.  Take a fleet with
  distinct names, a node that serves and whose models are known, and a model loaded on it.  If
  the impact lists the model neither as sole nor as unknown and no node is full, then after the
  drain every request for the model is routed to another node, whatever the prefix preference and
  however the store answers.  If the node runs Ollama and the impact lists the model as sole, then
  after the drain no request for it is routed anywhere, whatever runtime is asked for and whatever
  nodes are excluded: the warning is neither too weak nor, there, too strong.
\<close>

theorem drain_impact_predicts_routing:
  assumes "distinct (map ns_Name (r_nodes r))" "FindNode r target = Some tn" "serving now r tn"
    and "SoleReplicaImpact now r target [] = Some imp" "m \<in> set (loadedModelNames tn)"
  shows "(m \<notin> sm_Model ` set (si_Models imp) \<and> m \<notin> su_Model ` set (si_Unknown imp) \<and> (\<forall>n \<in> set (r_nodes r). isUnderCapacity r n) \<longrightarrow>
      (\<exists>w warm d. fst (RouteExcludingWithPrefix ft later m [] [] p (drained target reason grace r)) = (Some w, warm, d)
         \<and> w \<in> set (r_nodes r) \<and> ns_Name w \<noteq> target))
    \<and> (m \<in> sm_Model ` set (si_Models imp) \<and> normalizeRuntime (ns_Runtime tn) = runtimeOllama \<longrightarrow>
      (\<exists>d. fst (RouteExcludingWithPrefix ft later m rt ex p (drained target reason grace r)) = (None, False, d)))"
proof (intro conjI impI)
  let ?r = "drained target reason grace r"
  note peers = set_peers_of [OF assms(1), of target] and cands = drained_candidates [OF assms(1,2), where reason = reason and grace = grace]
  note dist = drained_set(2) [OF assms(1,2), of reason grace]
  {
    assume a: "m \<notin> sm_Model ` set (si_Models imp) \<and> m \<notin> su_Model ` set (si_Unknown imp) \<and> (\<forall>n \<in> set (r_nodes r). isUnderCapacity r n)"
    then obtain n where n: "n \<in> set (peers_of r target [])"
      "verdict now r (normalizeRuntime (ns_Runtime tn)) m n \<in> {verdictWarm, verdictCold}"
      using listed_nowhere_serves [OF assms(2-5)] by blast
    have "routable r (r_nodes r) m [] n" using verdict_serves [OF n(2)] a n(1) peers by blast
    then have ne: "candidates_of ?r (r_nodes ?r) m [] [] \<noteq> []" using cands(1) [where n = n and m = m and rt = "[]"] n(1) peers by blast
    obtain w d where "fst (filterAndSelect ft later (r_nodes ?r) m [] p [] ?r) = (Some w, isModelWarm ?r w m, Some d)"
      "w \<in> set (candidates_of ?r (r_nodes ?r) m [] [])"
      using filterAndSelect_found [OF dist ne, of ft later p] by metis
    then show "\<exists>w warm d. fst (RouteExcludingWithPrefix ft later m [] [] p ?r) = (Some w, warm, d) \<and> w \<in> set (r_nodes r) \<and> ns_Name w \<noteq> target"
      using cands(3) unfolding RouteExcludingWithPrefix_def by blast
  }
  {
    assume a: "m \<in> sm_Model ` set (si_Models imp) \<and> normalizeRuntime (ns_Runtime tn) = runtimeOllama"
    then have "\<forall>n \<in> set (peers_of r target []). verdict now r runtimeOllama m n = verdictIneligible"
      unfolding impact_lists(1) [OF assms(2-4)] by auto
    then have "\<forall>n \<in> set (r_nodes r). ns_Name n \<noteq> target \<longrightarrow> \<not> routable r (r_nodes r) m rt n"
      using verdict_ineligible_blocks [OF _ loaded_nonempty [OF assms(5)]] peers by blast
    from filterAndSelect_none [OF cands(2) [OF this], of ft later p]
    show "\<exists>d. fst (RouteExcludingWithPrefix ft later m rt ex p ?r) = (None, False, d)"
      unfolding RouteExcludingWithPrefix_def by (metis fst_conv)
  }
qed


text \<open>Two Ollama nodes; only \<^verbatim>\<open>a\<close> has the model.\<close>

definition demo_peer :: "string \<Rightarrow> node_state" where
  "demo_peer name = (demo_healthy name)\<lparr> ns_LastPollAt := 10 * second \<rparr>"

definition demo_owner :: node_state where
  "demo_owner = (demo_peer ''a'')\<lparr> ns_LoadedModels := [\<lparr> mi_Name = ''m'', mi_SizeVRAM = 0, mi_Digest = [], mi_sizeAttributed = False \<rparr>] \<rparr>"

definition demo_pair :: router where
  "demo_pair = (demo_router [])\<lparr> r_nodes := [demo_owner, demo_peer ''b''] \<rparr>"

definition demo_lone :: router where
  "demo_lone = (demo_router [])\<lparr> r_nodes := [demo_owner] \<rparr>"


lemma demo_fleet:
  assumes "r \<in> {demo_pair, demo_lone}"
  shows "distinct (map ns_Name (r_nodes r))" "FindNode r ''a'' = Some demo_owner" "serving (11 * second) r demo_owner"
    "loadedModelNames demo_owner = [''m'']" "\<forall>n \<in> set (r_nodes r). isUnderCapacity r n"
    "n \<in> set (r_nodes r) \<Longrightarrow> role_of (fst (scheduling_roles (r_nodes r))) (ns_Name n) = RoleStandalone"
proof -
  note defs = demo_pair_def demo_lone_def demo_owner_def demo_peer_def demo_healthy_def zero_node_def
  show dist: "distinct (map ns_Name (r_nodes r))" and find: "FindNode r ''a'' = Some demo_owner"
    using assms by (auto simp: defs FindNode_def)
  show "loadedModelNames demo_owner = [''m'']" by (simp add: defs loadedModelNames_def keep_first_def)
  show "\<forall>n \<in> set (r_nodes r). isUnderCapacity r n" using assms by (auto simp: defs isUnderCapacity_def)
  have np: "\<forall>n \<in> set (r_nodes r). ns_ReplicaPeers n = None" using assms by (auto simp: defs)
  then show role: "role_of (fst (scheduling_roles (r_nodes r))) (ns_Name n) = RoleStandalone" if "n \<in> set (r_nodes r)" for n
    using roles_no_peers dist that by blast
  have "demo_owner \<in> set (r_nodes r)" using assms by (auto simp: demo_pair_def demo_lone_def)
  from role [OF this] show "serving (11 * second) r demo_owner"
    using assms by (auto simp: serving_def defs pollIsStale_def time_is_zero_def time_zero_def second_def millisecond_def)
qed

lemma impact_exists: "FindNode r target = Some n \<Longrightarrow> \<exists>i. SoleReplicaImpact now r target away = Some i"
  by (simp add: SoleReplicaImpact_def Let_def split: prod.split option.split)

lemma demo_pair_verdict: "verdict (11 * second) demo_pair runtimeOllama ''m'' (demo_peer ''b'') = verdictCold"
proof -
  have "demo_peer ''b'' \<in> set (r_nodes demo_pair)" by (simp add: demo_pair_def)
  from demo_fleet(6) [OF _ this] have role: "role_of (fst (scheduling_roles (r_nodes demo_pair))) (ns_Name (demo_peer ''b'')) = RoleStandalone" by simp
  then show ?thesis
    by (simp add: verdict_peer peerDataGap_def snapshotSafetyNode_def demo_peer_def demo_healthy_def zero_node_def isModelWarm_def
        isGPUGroupSufficient_def effectiveRequiredGPUsLocked_def deriveRequiredGPUs_def detectedVerifiedLocked_def
        normalizeRuntime_def runtimeOllama_def pollIsStale_def demo_pair_def time_is_zero_def time_zero_def second_def millisecond_def)
qed

theorem drain_impact_predicts_routing_witness:
  "(\<exists>w. fst (fst (RouteExcludingWithPrefix (\<lambda>_. None) 9 ''m'' [] [] [] (drained ''a'' ''manual'' 0 demo_pair))) = Some w \<and> ns_Name w \<noteq> ''a'')
   \<and> fst (fst (RouteExcludingWithPrefix (\<lambda>_. None) 9 ''m'' [] [] [] (drained ''a'' ''manual'' 0 demo_lone))) = None"
proof
  have rt: "normalizeRuntime (ns_Runtime demo_owner) = runtimeOllama"
    by (simp add: demo_owner_def demo_peer_def demo_healthy_def zero_node_def normalizeRuntime_def)
  have imp: "\<exists>imp. SoleReplicaImpact (11 * second) r ''a'' [] = Some imp" if "r \<in> {demo_pair, demo_lone}" for r
    by (rule impact_exists [OF demo_fleet(2) [OF that]])
  have pp: "peers_of demo_pair ''a'' [] = [demo_peer ''b'']" "peers_of demo_lone ''a'' [] = []"
    by (simp_all add: peers_of_def demo_pair_def demo_lone_def gm_at_def demo_owner_def demo_peer_def demo_healthy_def)
  show "\<exists>w. fst (fst (RouteExcludingWithPrefix (\<lambda>_. None) 9 ''m'' [] [] [] (drained ''a'' ''manual'' 0 demo_pair))) = Some w \<and> ns_Name w \<noteq> ''a''"
  proof -
    obtain i where i: "SoleReplicaImpact (11 * second) demo_pair ''a'' [] = Some i" using imp by blast
    note d = demo_fleet [of demo_pair, simplified]
    note l = impact_lists [OF d(2,3) i, unfolded d(4) pp rt, simplified demo_pair_verdict list.set, simplified]
    have "''m'' \<notin> sm_Model ` set (si_Models i)" "''m'' \<notin> su_Model ` set (si_Unknown i)" using l(1,3) demo_pair_verdict by auto
    then show ?thesis
      using drain_impact_predicts_routing [OF d(1-3) i, of "''m''" "\<lambda>_. None" 9 "[]" "''manual''" 0 "[]" "[]"] d(4,5) by auto
  qed
  show "fst (fst (RouteExcludingWithPrefix (\<lambda>_. None) 9 ''m'' [] [] [] (drained ''a'' ''manual'' 0 demo_lone))) = None"
  proof -
    obtain i where i: "SoleReplicaImpact (11 * second) demo_lone ''a'' [] = Some i" using imp by blast
    note d = demo_fleet [of demo_lone, simplified]
    have "''m'' \<in> sm_Model ` set (si_Models i)" using impact_lists(1) [OF d(2,3) i] d(4) pp by simp
    then show ?thesis
      using drain_impact_predicts_routing [OF d(1-3) i, of "''m''" "\<lambda>_. None" 9 "[]" "''manual''" 0 "[]" "[]"] d(4) rt by auto
  qed
qed


section \<open>The check in front of a drain\<close>

definition consents :: "(string, string list) gomap option \<Rightarrow> sole_impact \<Rightarrow> bool" where
  "consents query i \<longleftrightarrow>
     (\<exists>values v vs. query = Some values \<and> gm_at [] values ''force'' = v # vs \<and> v = ''true''
        \<and> (gm_get values ''acknowledge_sole'' = None \<or> sm_Model ` set (si_Models i) \<subseteq> set (gm_at [] values ''acknowledge_sole'')))"

lemma unacknowledged_empty: "unacknowledged c ms = [] \<longleftrightarrow> sm_Model ` set ms \<subseteq> set (sc_acked c)"
proof -
  have "set (unacknowledged c ms) = sm_Model ` set ms - set (sc_acked c)" by (auto simp: unacknowledged_def keep_first_def)
  then show ?thesis by (metis Diff_eq_empty_iff set_empty)
qed

lemma impact_models_nonempty:
  assumes "SoleReplicaImpact now r target away = Some imp"
  shows "[] \<notin> sm_Model ` set (si_Models imp)"
proof -
  have *: "sm_Model ` set (si_Models (fold (classifyModel now r tv ps roles down) ms no_impact)) \<subseteq> set ms" for tv ps roles down ms
    by (auto simp: classify_fold_lists(1) no_impact_def)
  obtain tn where tn: "FindNode r target = Some tn" using assms by (auto simp: SoleReplicaImpact_def split: option.splits)
  have "sm_Model ` set (si_Models imp) \<subseteq> set (loadedModelNames tn)"
    using assms * unfolding SoleReplicaImpact_def tn option.case Let_def
    by (auto simp: no_impact_def sortImpact_def image_subset_iff split: option.splits prod.splits)
  then show ?thesis using loaded_nonempty by blast
qed

lemma consents_iff:
  assumes "[] \<notin> sm_Model ` set (si_Models i)"
  shows "consents query i \<longleftrightarrow>
    \<not> sc_parseErr (soleConsentFrom query) \<and> sc_force (soleConsentFrom query)
    \<and> \<not> (sc_ackGiven (soleConsentFrom query) \<and> unacknowledged (soleConsentFrom query) (si_Models i) \<noteq> [])"
proof (cases query)
  case (Some vals)
  have "sm_Model ` set (si_Models i) \<subseteq> set (filter (\<lambda>a. a \<noteq> []) xs) \<longleftrightarrow> sm_Model ` set (si_Models i) \<subseteq> set xs" for xs
    using assms by (auto intro: rev_image_eqI)
  then show ?thesis using Some
    by (simp add: consents_def soleConsentFrom_def unacknowledged_empty split: list.split)
qed (simp add: consents_def soleConsentFrom_def)


lemma restarting_marks: "set (snd (restartingNodesLocked now r marks)) \<subseteq> set marks"
  by (auto simp: restartingNodesLocked_def Let_def gm_remove_if_def)

lemma drain_commit_effect:
  assumes "FindNode r name = Some n"
  shows "drain_commit name reason grace (r, marks) =
    ((drained name reason grace r)\<lparr> r_store :=
        map_option (\<lambda>st. st\<lparr> sr_drains := gm_put name (True, reason, grace) (sr_drains st) \<rparr>) (r_store (drained name reason grace r)) \<rparr>, marks)"
  using assms by (simp add: drain_commit_def drained_def DrainNode_def)

lemma checkSoleReplica_cases:
  assumes "checkSoleReplica now name (soleConsentFrom query) commit (r, marks) = (sole, s1)"
  obtains (missing) "sk_outcome sole = soleNodeMissing" "FindNode r name = None" "s1 = (r, snd (restartingNodesLocked now r marks))"
  | (refused) n where "FindNode r name = Some n" "sk_outcome sole \<in> {soleBlocked, soleStaleAck, soleBadQuery}"
      "SoleReplicaImpact now r name (fst (restartingNodesLocked now r marks)) = Some (sk_impact sole)"
      "si_Models (sk_impact sole) \<noteq> []" "\<not> consents query (sk_impact sole)" "s1 = (r, snd (restartingNodesLocked now r marks))"
  | (committed) n where "FindNode r name = Some n" "sk_outcome sole \<in> {soleProceed, soleForced}"
      "SoleReplicaImpact now r name (fst (restartingNodesLocked now r marks)) = Some (sk_impact sole)"
      "si_Models (sk_impact sole) = [] \<or> consents query (sk_impact sole)" "s1 = commit (r, snd (restartingNodesLocked now r marks))"
proof (cases "FindNode r name")
  case None
  then show thesis using assms missing
    by (auto simp: checkSoleReplica_def SoleReplicaImpact_def plain_check_def split: prod.splits)
next
  case (Some n)
  let ?away = "fst (restartingNodesLocked now r marks)"
  obtain i where i: "SoleReplicaImpact now r name ?away = Some i"
    using impact_exists [OF Some] by blast
  note c = consents_iff [OF impact_models_nonempty [OF i], of query]
  show thesis
  proof (cases "si_Models i = [] \<or> consents query i")
    case True
    then show ?thesis using assms i Some c
      by (intro committed [OF Some]) (auto simp: checkSoleReplica_def plain_check_def split: prod.splits if_splits)
  next
    case False
    then show ?thesis using assms i Some c
      by (intro refused [OF Some]) (auto simp: checkSoleReplica_def plain_check_def split: prod.splits if_splits)
  qed
qed


text \<open>
  A drain request over the API never takes the last server of a model away by accident.  A
  negative grace is a bad request and changes nothing.  An unknown node is reported and the router
  is as before.  A refusal means some model would lose its last server, with the nodes that are
  restarting counted as gone, and the query does not consent: it did not parse, its first \<^verbatim>\<open>force\<close> is
  not \<^verbatim>\<open>true\<close>, or it acknowledges models and leaves out one of those; the router is as before.  A success
  means there was nothing to lose or the query consents; then exactly that node is drained, with
  the reason and the grace that were asked for, and the store keeps the drain for the next start.
  In every case the restart markers only ever shrink.
\<close>

lemma drain_needs_consent:
  fixes reason0 :: string and grace0 :: "int option"
  defines "reason \<equiv> (if reason0 = [] then ''manual'' else reason0)" and "grace \<equiv> (case grace0 of None \<Rightarrow> 0 | Some g \<Rightarrow> g)"
  assumes "handleDrainNode now name (Some (reason0, grace0)) query (r, marks) = (reply, r', marks')"
  shows "set marks' \<subseteq> set marks
    \<and> (case reply of
         DrainBadRequest \<Rightarrow> grace < 0 \<and> r' = r \<and> marks' = marks
       | DrainNotFound \<Rightarrow> 0 \<le> grace \<and> FindNode r name = None \<and> r' = r
       | DrainRefused sole \<Rightarrow> 0 \<le> grace \<and> r' = r
           \<and> SoleReplicaImpact now r name (fst (restartingNodesLocked now r marks)) = Some (sk_impact sole)
           \<and> si_Models (sk_impact sole) \<noteq> [] \<and> \<not> consents query (sk_impact sole)
       | DrainOK sole \<Rightarrow> 0 \<le> grace
           \<and> SoleReplicaImpact now r name (fst (restartingNodesLocked now r marks)) = Some (sk_impact sole)
           \<and> (si_Models (sk_impact sole) = [] \<or> consents query (sk_impact sole))
           \<and> r_nodes r' = upd_first (\<lambda>n. ns_Name n = name) (drain_node reason grace) (r_nodes r)
           \<and> map_option (\<lambda>st. gm_get (sr_drains st) name) (r_store r') = map_option (\<lambda>_. Some (True, reason, grace)) (r_store r))"
proof (cases "grace < 0")
  case True
  then show ?thesis using assms(3) unfolding handleDrainNode_def grace_def by (cases grace0) auto
next
  case False
  then have bad: "\<not> (case grace0 of None \<Rightarrow> False | Some g \<Rightarrow> g < 0)" unfolding grace_def by (cases grace0) auto
  obtain sole s1 where c: "checkSoleReplica now name (soleConsentFrom query) (drain_commit name reason grace) (r, marks) = (sole, s1)" by (metis surj_pair)
  have h: "reply = (if sk_outcome sole \<in> {soleBlocked, soleStaleAck, soleBadQuery} then DrainRefused sole
      else if sk_outcome sole = soleNodeMissing then DrainNotFound else DrainOK sole)" "s1 = (r', marks')"
    using assms(3) bad unfolding handleDrainNode_def option.case prod.case Let_def reason_def [symmetric] grace_def [symmetric] c by auto
  have m: "set marks' \<subseteq> set marks" if "marks' = snd (restartingNodesLocked now r marks)" using restarting_marks that by simp
  from c show ?thesis
  proof (cases rule: checkSoleReplica_cases)
    case missing
    then show ?thesis using h m False by auto
  next
    case (refused n)
    then show ?thesis using h m False by auto
  next
    case (committed n)
    have "r_store (drained name reason grace r) = r_store r"
      using committed(1) by (simp add: drained_def DrainNode_def fireWebhook_def upd_node_def)
    then have "r_nodes r' = upd_first (\<lambda>n. ns_Name n = name) (drain_node reason grace) (r_nodes r)"
      "map_option (\<lambda>st. gm_get (sr_drains st) name) (r_store r') = map_option (\<lambda>_. Some (True, reason, grace)) (r_store r)"
      "marks' = snd (restartingNodesLocked now r marks)"
      using committed(5) h(2) drain_commit_effect [OF committed(1)] drained_fields(1) [OF committed(1), of reason grace]
      by (auto simp: option.map_comp comp_def gm_get_put)
    then show ?thesis using committed(2-4) h(1) m False by auto
  qed
qed

end
