(* ===== verification/Warming.thy ===== *)
theory Warming
  imports Health
begin

text \<open>
  Loading models ahead of requests (\<^verbatim>\<open>internal/router/warmer.go\<close>) and the operator's schedules
  (\<^verbatim>\<open>internal/router/scheduler.go\<close>, the scheduled unload of \<^verbatim>\<open>eviction.go\<close>).  The requests that are sent to nodes are
  kept in \<open>wm_pings\<close> and the schedules that fire in \<open>wm_fired\<close>, so that theorems can speak of them.
\<close>

section \<open>State\<close>

record warmup_entry =
  we_Model :: string
  we_Nodes :: "string list"

record warmup_config =
  wc_Enabled :: bool
  wc_IntervalMs :: int
  wc_KeepAlive :: string
  wc_Models :: "warmup_entry list"

datatype ping_reply = PingOK | PingStatus int | PingError

datatype load_error = HeadroomRefused headroom_error | NodeUnhealthy | PingFailed ping_reply | PingsFailed ping_reply ping_reply

datatype schedule_note =
  NoNote | NodeNotFound | UnresolvedDeclaration | WorkerWithoutHead | RuntimeUnsupported | NodeDraining | NodeDown | TooFewGPUs
  | LoadsFailed "(string \<times> load_error) list"
  | UnloadReport "string list" "(string \<times> unload_error) list"

record schedule =
  sd_ID :: string
  sd_Action :: string
  sd_Node :: string
  sd_Models :: "string list"
  sd_At :: string
  sd_Days :: "int list"
  sd_Enabled :: bool
  sd_LastRunAt :: gotime
  sd_LastStatus :: string
  sd_LastError :: schedule_note

datatype warm_warning = WorkerSkipped string bool bool | UnresolvedSkipped | DigestDrift

record warming =
  wm_router :: router
  wm_config :: warmup_config
  wm_schedules :: "schedule list"
  wm_lastFired :: "(string, string) gomap"
  wm_inProgress :: "(string, bool) gomap"
  wm_errors :: "(string \<times> string, load_error) gomap"
  wm_unloadErrors :: "(string \<times> string, unload_error) gomap"
  wm_warnings :: "(string \<times> string, warm_warning) gomap"
  wm_audit :: "(string \<times> string \<times> string \<times> schedule_note) list"
  wm_pings :: "(string \<times> string \<times> string \<times> string) list"
  wm_fired :: "(string \<times> string) list"

text \<open>
  What the outside answers: the catalog fetch, the requests of an eviction, the pings by URL, path and model, an
  unload directly or through the agent, and Go's duration syntax.
\<close>

record warm_env =
  wv_tags :: "string \<Rightarrow> tag_model list option"
  wv_evict :: "string \<Rightarrow> string \<Rightarrow> nat \<Rightarrow> (string, int) gomap \<times> bool"
  wv_ping :: "string \<Rightarrow> string \<Rightarrow> string \<Rightarrow> ping_reply"
  wv_unload :: "string \<Rightarrow> string \<Rightarrow> bool"
  wv_agent_unload :: "string \<Rightarrow> string \<Rightarrow> bool"
  wv_parse_duration :: "string \<Rightarrow> duration option"
  wv_show_duration :: "duration \<Rightarrow> string"

section \<open>One load\<close>

definition effectiveKeepAlive :: "warm_env \<Rightarrow> string \<Rightarrow> duration \<Rightarrow> string" where
  "effectiveKeepAlive env configured interval0 =
     (let interval = (if interval0 \<le> 0 then 5 * minute else interval0) in
      if configured \<noteq> [] \<and> (case wv_parse_duration env configured of Some d \<Rightarrow> d \<ge> interval | None \<Rightarrow> False) then configured
      else wv_show_duration env (2 * interval))"

text \<open>The keep-alive of the next pings.\<close>

definition warm_keepAlive :: "warm_env \<Rightarrow> warming \<Rightarrow> string" where
  "warm_keepAlive env w = effectiveKeepAlive env (wc_KeepAlive (wm_config w)) (wc_IntervalMs (wm_config w) * millisecond)"

definition send_ping :: "string \<Rightarrow> string \<Rightarrow> string \<Rightarrow> string \<Rightarrow> warming \<Rightarrow> warming" where
  "send_ping node path model keepAlive w = w\<lparr> wm_pings := wm_pings w @ [(node, path, model, keepAlive)] \<rparr>"

definition pingNode :: "warm_env \<Rightarrow> node_state \<Rightarrow> string \<Rightarrow> string \<Rightarrow> warming \<Rightarrow> load_error option \<times> warming" where
  "pingNode env n model keepAlive w =
     (if \<not> ns_Healthy n then (Some NodeUnhealthy, w)
      else
        let w1 = send_ping (ns_Name n) ''/api/generate'' model keepAlive w;
            err = wv_ping env (ns_URL n) ''/api/generate'' model
        in if err = PingOK then (None, w1)
           else if err \<noteq> PingStatus 400 then (Some (PingFailed err), w1)
           else
             let w2 = send_ping (ns_Name n) ''/api/embed'' model keepAlive w1;
                 embedErr = wv_ping env (ns_URL n) ''/api/embed'' model
             in (if embedErr = PingOK then None else Some (PingsFailed err embedErr), w2))"

text \<open>The node as the router has it now; a removed one is the object the caller still holds.\<close>

definition current_node :: "node_state \<Rightarrow> router \<Rightarrow> node_state" where
  "current_node n r = (case FindNode r (ns_Name n) of Some m \<Rightarrow> m | None \<Rightarrow> n)"

definition loadWithHeadroom :: "warm_env \<Rightarrow> gotime \<Rightarrow> node_state \<Rightarrow> string \<Rightarrow> string \<Rightarrow> warming \<Rightarrow> (load_error option \<times> warming) option" where
  "loadWithHeadroom env now n0 model keepAlive w =
     (let n = current_node n0 (wm_router w) in
      case makeHeadroom (wv_tags env) now (wv_evict env (ns_Name n) model) n model (wm_router w) of
        None \<Rightarrow> None
      | Some (err, evicted, r') \<Rightarrow>
          (let w1 = w\<lparr> wm_router := r' \<rparr> in
           case err of
             Some e \<Rightarrow> Some (Some (HeadroomRefused e), w1)
           | None \<Rightarrow> Some (pingNode env (current_node n0 r') model keepAlive w1)))"

text \<open>What every caller does with the outcome: a failure gives the reservation back and is kept as the node's error.\<close>

definition settle_load :: "string \<Rightarrow> string \<Rightarrow> load_error option \<times> warming \<Rightarrow> warming" where
  "settle_load node model = (\<lambda>(err, w).
     case err of
       None \<Rightarrow> w\<lparr> wm_errors := gm_del (node, model) (wm_errors w) \<rparr>
     | Some e \<Rightarrow> w\<lparr> wm_router := clearWarmReservation node model (wm_router w), wm_errors := gm_put (node, model) e (wm_errors w) \<rparr>)"

section \<open>The warmer\<close>

definition nodesForEntry :: "node_state list \<Rightarrow> string list \<Rightarrow> node_state list" where
  "nodesForEntry nodes allowList = (if allowList = [] then nodes else filter (\<lambda>n. ns_Name n \<in> set allowList) nodes)"

text \<open>The sources that name a node explicitly: its own list, the global entry.\<close>

type_synonym warm_sources = "(string \<times> string, bool \<times> bool) gomap"

definition plan_add :: "string \<Rightarrow> string \<Rightarrow> bool \<times> bool \<Rightarrow> (string, string list) gomap \<times> warm_sources \<Rightarrow> (string, string list) gomap \<times> warm_sources" where
  "plan_add nodeName model src = (\<lambda>(byNode, explicit).
     if model = [] then (byNode, explicit)
     else
       let old = gm_at (False, False) explicit (nodeName, model);
           explicit1 = (if src \<noteq> (False, False) then gm_put (nodeName, model) (fst old \<or> fst src, snd old \<or> snd src) explicit else explicit)
       in if model \<in> set (gm_at [] byNode nodeName) then (byNode, explicit1)
          else (gm_put nodeName (gm_at [] byNode nodeName @ [model]) byNode, explicit1))"

definition warm_plan :: "warmup_config \<Rightarrow> router \<Rightarrow> (string, string list) gomap \<times> warm_sources" where
  "warm_plan cfg r =
     (let p1 = (if wc_Enabled cfg
                then fold (\<lambda>entry. fold (\<lambda>n. plan_add (ns_Name n) (we_Model entry) (False, we_Nodes entry \<noteq> []))
                       (nodesForEntry (r_nodes r) (we_Nodes entry))) (wc_Models cfg) ([], [])
                else ([], []))
      in fold (\<lambda>(name, nw). if nw_Enabled nw then fold (\<lambda>m. plan_add name m (True, False)) (nw_Models nw) else id) (r_nodeWarmup r) p1)"

definition tryStartWarmup :: "string \<Rightarrow> warming \<Rightarrow> bool \<times> warming" where
  "tryStartWarmup nodeName w =
     (if gm_at False (wm_inProgress w) nodeName then (False, w)
      else (True, w\<lparr> wm_inProgress := gm_put nodeName True (wm_inProgress w) \<rparr>))"

definition finishWarmup :: "string \<Rightarrow> warming \<Rightarrow> warming" where
  "finishWarmup nodeName w = w\<lparr> wm_inProgress := gm_del nodeName (wm_inProgress w) \<rparr>"

definition add_warning :: "string \<Rightarrow> string \<Rightarrow> warm_warning \<Rightarrow> warming \<Rightarrow> warming" where
  "add_warning node model msg w = w\<lparr> wm_warnings := gm_put (node, model) msg (wm_warnings w) \<rparr>"

text \<open>What a pass decides for one node: the job to run, if any.\<close>

definition warm_node ::
  "scheduling_role \<Rightarrow> string \<Rightarrow> warm_sources \<Rightarrow> string \<Rightarrow> string list \<Rightarrow> warming \<Rightarrow> (string \<times> string list) option \<times> warming" where
  "warm_node role head explicit nodeName models w =
     (case FindNode (wm_router w) nodeName of
        None \<Rightarrow> (None, w)
      | Some n \<Rightarrow>
          if role = RoleWorker then
            (None, fold (\<lambda>m w. case gm_at (False, False) explicit (nodeName, m) of
                                 (own, global) \<Rightarrow> if own \<or> global then add_warning nodeName m (WorkerSkipped head own global) w else w) models w)
          else if role = RoleUnresolved then (None, fold (\<lambda>m. add_warning nodeName m UnresolvedSkipped) models w)
          else if \<not> WarmupSupportedForRuntime (ns_Runtime n) \<or> ns_Draining n \<or> \<not> ns_Healthy n \<or> \<not> isGPUGroupSufficient n then (None, w)
          else
            let w1 = w\<lparr> wm_router := setWarmPriority nodeName models (wm_router w) \<rparr>;
                w2 = fold (\<lambda>m w. case findLoadedModel (ns_LoadedModels n) m of
                                   Some e \<Rightarrow> if digestMismatch (wm_router w) (mi_Name e) (mi_Digest e) then add_warning nodeName m DigestDrift w else w
                                 | None \<Rightarrow> w) models w1
            in case tryStartWarmup nodeName w2 of
                 (started, w3) \<Rightarrow> (if started then Some (nodeName, models) else None, w3))"

definition pingWarmupModels :: "warming \<Rightarrow> (string \<times> string list) list \<times> warming" where
  "pingWarmupModels w =
     (let r = wm_router w;
          (roles, heads) = scheduling_roles (r_nodes r);
          (byNode, explicit) = warm_plan (wm_config w) r
      in fold (\<lambda>(nodeName, models) (jobs, w).
                case warm_node (role_of roles nodeName) (gm_at [] heads nodeName) explicit nodeName models w of
                  (job, w') \<Rightarrow> (jobs @ (case job of None \<Rightarrow> [] | Some j \<Rightarrow> [j]), w'))
           byNode ([], w\<lparr> wm_warnings := gm_remove_if (\<lambda>(node, _) _. node \<in> ns_Name ` set (r_nodes r)) (wm_warnings w) \<rparr>))"

text \<open>The job of one node: its models one after the other.\<close>

fun warm_job :: "warm_env \<Rightarrow> gotime \<Rightarrow> string \<Rightarrow> node_state \<Rightarrow> string list \<Rightarrow> warming \<Rightarrow> warming option" where
  "warm_job env now keepAlive n [] w = Some (finishWarmup (ns_Name n) w)"
| "warm_job env now keepAlive n (model # models) w =
     (if isWarmupSuppressed (wm_router w) (ns_Name n) model then warm_job env now keepAlive n models w
      else case loadWithHeadroom env now n model keepAlive w of
        None \<Rightarrow> None
      | Some res \<Rightarrow> warm_job env now keepAlive n models (settle_load (ns_Name n) model res))"


section \<open>Schedules\<close>

definition ValidScheduleAction :: "string \<Rightarrow> bool" where
  "ValidScheduleAction a \<longleftrightarrow> a = ''warmup'' \<or> a = ''unload'' \<or> a = ''drain'' \<or> a = ''undrain''"

definition SetSchedules :: "schedule list \<Rightarrow> warming \<Rightarrow> warming" where
  "SetSchedules s w = w\<lparr> wm_schedules := s, wm_lastFired := gm_remove_if (\<lambda>sid _. sid \<notin> sd_ID ` set s) (wm_lastFired w) \<rparr>"

text \<open>Loading the models of a scheduled warm-up, with the failures in order.\<close>

fun warm_models_loop ::
  "warm_env \<Rightarrow> gotime \<Rightarrow> string \<Rightarrow> node_state \<Rightarrow> string list \<Rightarrow> (string \<times> load_error) list \<Rightarrow> warming \<Rightarrow> ((string \<times> load_error) list \<times> warming) option" where
  "warm_models_loop env now keepAlive n [] failures w = Some (failures, w)"
| "warm_models_loop env now keepAlive n (m # ms) failures w =
     (if m = [] then warm_models_loop env now keepAlive n ms failures w
      else case loadWithHeadroom env now n m keepAlive w of
        None \<Rightarrow> None
      | Some (err, w1) \<Rightarrow>
          warm_models_loop env now keepAlive n ms (case err of None \<Rightarrow> failures | Some e \<Rightarrow> failures @ [(m, e)]) (settle_load (ns_Name n) m (err, w1)))"

text \<open>The node a scheduled warm-up runs on, or why there is none.\<close>

definition warm_target :: "router \<Rightarrow> string \<Rightarrow> schedule_note + node_state" where
  "warm_target r nodeName0 =
     (let (roles, heads) = scheduling_roles (r_nodes r);
          role = role_of roles nodeName0;
          head = gm_at [] heads nodeName0
      in if role = RoleUnresolved then Inl UnresolvedDeclaration
         else if role = RoleWorker \<and> head = [] then Inl WorkerWithoutHead
         else
           let nodeName = (if role = RoleWorker then head else nodeName0) in
           case FindNode r nodeName of
             None \<Rightarrow> Inl NodeNotFound
           | Some n \<Rightarrow>
               if \<not> WarmupSupportedForRuntime (ns_Runtime n) then Inl RuntimeUnsupported
               else if ns_Draining n then Inl NodeDraining
               else if \<not> ns_Healthy n then Inl NodeDown
               else if \<not> isGPUGroupSufficient n then Inl TooFewGPUs
               else Inr n)"

definition WarmModels :: "warm_env \<Rightarrow> gotime \<Rightarrow> string \<Rightarrow> string list \<Rightarrow> warming \<Rightarrow> (schedule_note \<times> warming) option" where
  "WarmModels env now nodeName models w =
     (case warm_target (wm_router w) nodeName of
        Inl why \<Rightarrow> Some (why, w)
      | Inr n \<Rightarrow>
          map_option (\<lambda>(failures, w'). (if failures = [] then NoNote else LoadsFailed failures, w'))
            (warm_models_loop env now (warm_keepAlive env w) n models [] (w\<lparr> wm_router := clearWarmupSuppress (ns_Name n) models (wm_router w) \<rparr>)))"

definition unload_one :: "warm_env \<Rightarrow> gotime \<Rightarrow> node_state \<Rightarrow> bool \<Rightarrow> string \<Rightarrow> warming \<Rightarrow> unload_error option \<times> warming" where
  "unload_one env now n useAgent m w =
     (case (if useAgent then
              if \<not> ns_Healthy n \<or> \<not> wv_agent_unload env (ns_Name n) m then (Some UnloadFailed, wm_router w)
              else (None, recordUnloadSideEffects now (ns_Name n) m ''scheduled'' (wm_router w))
            else unloadModel now (wv_unload env (ns_Name n) m) n m ''scheduled'' (wm_router w)) of
        (err, r') \<Rightarrow>
          (err, w\<lparr> wm_router := r',
                  wm_unloadErrors := (case err of None \<Rightarrow> gm_del (ns_Name n, m) (wm_unloadErrors w)
                                      | Some e \<Rightarrow> gm_put (ns_Name n, m) e (wm_unloadErrors w)) \<rparr>))"

text \<open>The unloads run concurrently; they are taken in the order of the list.\<close>

definition UnloadModelsWithWarnings :: "warm_env \<Rightarrow> gotime \<Rightarrow> string \<Rightarrow> string list \<Rightarrow> warming \<Rightarrow> schedule_note \<times> warming" where
  "UnloadModelsWithWarnings env now nodeName models w =
     (case FindNode (wm_router w) nodeName of
        None \<Rightarrow> (NodeNotFound, w)
      | Some n \<Rightarrow>
          (let useAgent = snd (ShouldUseAgentForUnload (wm_router w) nodeName);
               named = filter (\<lambda>m. m \<noteq> []) models;
               pinnedSkipped = filter (isPinned (wm_router w) nodeName) named
           in case fold (\<lambda>m (failures, w). case unload_one env now n useAgent m w of
                            (err, w') \<Rightarrow> (failures @ (case err of None \<Rightarrow> [] | Some e \<Rightarrow> [(m, e)]), w'))
                     (filter (\<lambda>m. \<not> isPinned (wm_router w) nodeName m) named) ([], w) of
                (failures, w') \<Rightarrow> (if pinnedSkipped = [] \<and> failures = [] then NoNote else UnloadReport pinnedSkipped failures, w')))"

definition is_failure :: "schedule_note \<Rightarrow> bool" where
  "is_failure note = (case note of NoNote \<Rightarrow> False | UnloadReport _ failures \<Rightarrow> failures \<noteq> [] | _ \<Rightarrow> True)"

definition recordScheduleRun :: "gotime \<Rightarrow> string \<Rightarrow> string \<Rightarrow> schedule_note \<Rightarrow> warming \<Rightarrow> warming" where
  "recordScheduleRun now sid status note w =
     w\<lparr> wm_schedules := upd_first (\<lambda>s. sd_ID s = sid) (\<lambda>s. s\<lparr> sd_LastRunAt := now, sd_LastStatus := status, sd_LastError := note \<rparr>) (wm_schedules w) \<rparr>"

definition auditScheduled :: "schedule \<Rightarrow> string \<Rightarrow> schedule_note \<Rightarrow> warming \<Rightarrow> warming" where
  "auditScheduled s status note w =
     (if r_store (wm_router w) = None then w
      else w\<lparr> wm_audit := wm_audit w @ [(''scheduled_'' @ sd_Action s, sd_Node s, status, note)] \<rparr>)"

definition run_action :: "warm_env \<Rightarrow> gotime \<Rightarrow> schedule \<Rightarrow> warming \<Rightarrow> (schedule_note \<times> warming) option" where
  "run_action env now s w =
     (if sd_Action s = ''warmup'' then WarmModels env now (sd_Node s) (sd_Models s) w
      else if sd_Action s = ''unload'' then Some (UnloadModelsWithWarnings env now (sd_Node s) (sd_Models s) w)
      else if sd_Action s = ''drain'' then
        (case DrainNode (sd_Node s) ''scheduled'' 0 (wm_router w) of
           (found, r1) \<Rightarrow>
             Some (if found then (NoNote, w\<lparr> wm_router := upd_store (SetNodeDrain (sd_Node s) True ''scheduled'' 0) r1 \<rparr>)
                   else (NodeNotFound, w\<lparr> wm_router := r1 \<rparr>)))
      else if sd_Action s = ''undrain'' then
        (case UndrainNode (sd_Node s) (wm_router w) of
           (found, r1) \<Rightarrow>
             Some (if found then (NoNote, w\<lparr> wm_router := upd_store (SetNodeDrain (sd_Node s) False [] 0) r1 \<rparr>)
                   else (NodeNotFound, w\<lparr> wm_router := r1 \<rparr>)))
      else Some (NoNote, w))"

definition fireSchedule :: "warm_env \<Rightarrow> gotime \<Rightarrow> schedule \<Rightarrow> warming \<Rightarrow> warming option" where
  "fireSchedule env now s w =
     map_option (\<lambda>(note, w').
         let status = (if is_failure note then ''error'' else ''ok'')
         in auditScheduled s status note (recordScheduleRun now (sd_ID s) status note w'))
       (run_action env now s w)"

text \<open>The local wall clock: date, hour, minute and day of the week.\<close>

record wall_clock =
  wk_date :: string
  wk_hour :: nat
  wk_minute :: nat
  wk_weekday :: int

definition two_digits :: "nat \<Rightarrow> string" where
  "two_digits n = [char_of (48 + n div 10), char_of (48 + n mod 10)]"

definition hhmm :: "wall_clock \<Rightarrow> string" where
  "hhmm c = two_digits (wk_hour c) @ '':'' @ two_digits (wk_minute c)"

definition stamp_of :: "wall_clock \<Rightarrow> string" where
  "stamp_of c = wk_date c @ ''T'' @ hhmm c"

definition is_due :: "wall_clock \<Rightarrow> schedule \<Rightarrow> bool" where
  "is_due c s \<longleftrightarrow> sd_Enabled s \<and> sd_At s = hhmm c \<and> ValidScheduleAction (sd_Action s) \<and> (sd_Days s = [] \<or> wk_weekday c \<in> set (sd_Days s))"

fun run_loop :: "warm_env \<Rightarrow> gotime \<Rightarrow> wall_clock \<Rightarrow> schedule list \<Rightarrow> warming \<Rightarrow> warming option" where
  "run_loop env now c [] w = Some w"
| "run_loop env now c (s # ss) w =
     (if \<not> is_due c s \<or> gm_at [] (wm_lastFired w) (sd_ID s) = stamp_of c then run_loop env now c ss w
      else
        let w1 = w\<lparr> wm_lastFired := gm_put (sd_ID s) (stamp_of c) (wm_lastFired w), wm_fired := wm_fired w @ [(sd_ID s, stamp_of c)] \<rparr>
        in Option.bind (fireSchedule env now s w1) (run_loop env now c ss))"

definition runSchedules :: "warm_env \<Rightarrow> gotime \<Rightarrow> wall_clock \<Rightarrow> warming \<Rightarrow> warming option" where
  "runSchedules env now c w = run_loop env now c (wm_schedules w) w"


section \<open>Loads return and leave the fleet alone\<close>

definition counts_all :: "router \<Rightarrow> bool" where
  "counts_all r \<longleftrightarrow> (\<forall>n \<in> set (r_nodes r). counts_ok (ns_modelInFlight n))"

lemma reservation_nodes [simp]:
  "r_nodes (clearWarmReservation node m r) = r_nodes r" "r_nodes (snd (reserveWarmBytes now node m b r)) = r_nodes r"
  "r_nodes (releaseEvictClaim node c r) = r_nodes r" "r_nodes (snd (claimEvictCooldown now node r)) = r_nodes r"
  by (auto simp: clearWarmReservation_def set_reservations_def reserveWarmBytes_def reserveWarmBytesAs_def releaseEvictClaim_def
      claimEvictCooldown_def Let_def split: prod.split option.split)

lemma rows_nodes [simp]: "r_nodes (fold (\<lambda>m. delete_warm_row (fst m) node) ms r) = r_nodes r"
  by (induction ms arbitrary: r) (simp_all add: delete_warm_row_def)

lemma evict_returns:
  assumes "counts_all r"
  shows "\<exists>ok evicted. evictForHeadroom now env node m b r = Some (ok, evicted, fold (\<lambda>m. delete_warm_row (fst m) node) evicted r)"
proof (cases "FindNode r node")
  case None
  then show ?thesis by (intro exI [of _ False] exI [of _ "[]"]) (simp add: evictForHeadroom_def evict_start_def)
next
  case (Some n)
  then have "counts_ok (ns_modelInFlight n)" using assms FindNode_Some [OF Some] by (auto simp: counts_all_def)
  from evictForHeadroom_result [OF Some this] show ?thesis by metis
qed

lemma makeHeadroom_returns:
  assumes "counts_all r"
  shows "\<exists>err evicted r'. makeHeadroom ft now env n m r = Some (err, evicted, r') \<and> r_nodes r' = r_nodes r"
proof -
  have nodes: "counts_all r'" if "r_nodes r' = r_nodes r" for r' using assms that by (simp add: counts_all_def)
  define r1 where "r1 = (if findLoadedModel (ns_LoadedModels n) m \<noteq> None then clearWarmReservation (ns_Name n) m r else r)"
  have r1: "r_nodes r1 = r_nodes r" by (simp add: r1_def)
  define est where "est = estimateModelSizeBytes ft r1 (ns_URL n) m True (case contextWindowFor r1 m of Some w \<Rightarrow> if w > 0 then w else 0 | None \<Rightarrow> 0)"
  obtain others r2 where r2: "reserveWarmBytes now (ns_Name n) m est r1 = (others, r2)" by fastforce
  have n2: "r_nodes r2 = r_nodes r" using reservation_nodes(2) [of now "ns_Name n" m est r1] r1 r2 by simp
  obtain claim r3 where r3: "claimEvictCooldown now (ns_Name n) r2 = (claim, r3)" by fastforce
  have n3: "r_nodes r3 = r_nodes r" using reservation_nodes(4) [of now "ns_Name n" r2] n2 r3 by simp
  obtain ok evicted where ev: "evictForHeadroom now env (ns_Name n) m (est + others) r3 = Some (ok, evicted, fold (\<lambda>m. delete_warm_row (fst m) (ns_Name n)) evicted r3)"
    using evict_returns [OF nodes [OF n3]] by metis
  show ?thesis
    unfolding makeHeadroom_def Let_def r1_def [symmetric] est_def [symmetric] r2 prod.case r3
    using n2 n3 r1 ev by (cases claim) (auto simp: Let_def split del: if_split split: if_split)
qed

lemma pingNode_effect:
  assumes "pingNode env n m ka w = (err, w')"
  shows "\<exists>sent. w' = w\<lparr> wm_pings := wm_pings w @ sent \<rparr> \<and> (\<forall>(node, path, model, k) \<in> set sent. node = ns_Name n \<and> model = m \<and> k = ka \<and> ns_Healthy n)
    \<and> (err = None \<longrightarrow> sent \<noteq> [])"
proof (cases "ns_Healthy n")
  case False
  then show ?thesis using assms by (intro exI [of _ "[]"]) (auto simp: pingNode_def)
next
  case True
  let ?g = "(ns_Name n, ''/api/generate'', m, ka)" let ?e = "(ns_Name n, ''/api/embed'', m, ka)"
  have "w' = w\<lparr> wm_pings := wm_pings w @ [?g] \<rparr> \<or> w' = w\<lparr> wm_pings := wm_pings w @ [?g, ?e] \<rparr>"
    using assms True by (auto simp: pingNode_def send_ping_def Let_def split: if_splits)
  then show ?thesis using True by (elim disjE) (rule exI [of _ "[?g]"], simp, rule exI [of _ "[?g, ?e]"], simp)
qed


text \<open>A step that only sends pings for models of \<open>ms\<close> to \<open>node\<close> and changes memory bookkeeping and load errors.\<close>

definition loads :: "string \<Rightarrow> string \<Rightarrow> string set \<Rightarrow> warming \<Rightarrow> warming \<Rightarrow> bool" where
  "loads ka node ms w w' \<longleftrightarrow>
     (\<exists>sent. wm_pings w' = wm_pings w @ sent \<and> (\<forall>(nd, path, m, k) \<in> set sent. nd = node \<and> m \<in> ms \<and> k = ka))
     \<and> r_nodes (wm_router w') = r_nodes (wm_router w) \<and> wm_schedules w' = wm_schedules w \<and> wm_lastFired w' = wm_lastFired w
     \<and> wm_fired w' = wm_fired w \<and> wm_config w' = wm_config w \<and> wm_warnings w' = wm_warnings w \<and> wm_inProgress w' = wm_inProgress w"

lemma loads_refl: "loads ka node ms w w"
  by (auto simp: loads_def intro: exI [of _ "[]"])

lemma loads_trans: "loads ka node ms w1 w2 \<Longrightarrow> loads ka node ms w2 w3 \<Longrightarrow> loads ka node ms w1 w3"
proof -
  assume a: "loads ka node ms w1 w2" "loads ka node ms w2 w3"
  obtain s1 s2 where "wm_pings w2 = wm_pings w1 @ s1" "wm_pings w3 = wm_pings w2 @ s2"
    "\<forall>(nd, path, m, k) \<in> set s1. nd = node \<and> m \<in> ms \<and> k = ka" "\<forall>(nd, path, m, k) \<in> set s2. nd = node \<and> m \<in> ms \<and> k = ka"
    using a by (auto simp: loads_def)
  then have "\<exists>sent. wm_pings w3 = wm_pings w1 @ sent \<and> (\<forall>(nd, path, m, k) \<in> set sent. nd = node \<and> m \<in> ms \<and> k = ka)"
    by (intro exI [of _ "s1 @ s2"]) auto
  then show ?thesis using a by (simp add: loads_def)
qed

lemma settle_loads: "loads ka node ms w (settle_load nd m (err, w)) \<and> gm_get (wm_errors (settle_load nd m (err, w))) (nd, m) = err"
  by (cases err) (auto simp: settle_load_def loads_def gm_get_put gm_get_del intro: exI [of _ "[]"])

text \<open>The requests between two states.\<close>

definition sent_between :: "warming \<Rightarrow> warming \<Rightarrow> (string \<times> string \<times> string \<times> string) list" where
  "sent_between w w' = drop (length (wm_pings w)) (wm_pings w')"

lemma sent_trans: "loads ka node ms w1 w2 \<Longrightarrow> loads ka node ms w2 w3 \<Longrightarrow> sent_between w1 w3 = sent_between w1 w2 @ sent_between w2 w3"
  by (auto simp: loads_def sent_between_def)

lemma sent_loads: "loads ka node ms w w' \<Longrightarrow> wm_pings w' = wm_pings w @ sent_between w w' \<and> (\<forall>(nd, path, m, k) \<in> set (sent_between w w'). nd = node \<and> m \<in> ms \<and> k = ka)"
  by (auto simp: loads_def sent_between_def)

lemma sent_settle: "sent_between w (settle_load nd m (err, w1)) = sent_between w w1"
  by (cases err) (simp_all add: sent_between_def settle_load_def)

lemma load_returns:
  assumes "counts_all (wm_router w)" "m \<in> ms"
  shows "\<exists>err w'. loadWithHeadroom env now n m keepAlive w = Some (err, w') \<and> loads keepAlive (ns_Name n) ms w w'
    \<and> (err = None \<longrightarrow> (\<exists>path. (ns_Name n, path, m, keepAlive) \<in> set (sent_between w w')))"
proof -
  define n1 where "n1 = current_node n (wm_router w)"
  obtain err evicted r' where mk: "makeHeadroom (wv_tags env) now (wv_evict env (ns_Name n1) m) n1 m (wm_router w) = Some (err, evicted, r')"
    and nodes: "r_nodes r' = r_nodes (wm_router w)"
    using makeHeadroom_returns [OF assms(1)] by metis
  let ?w1 = "w\<lparr> wm_router := r' \<rparr>"
  have nm: "ns_Name (current_node n r) = ns_Name n" for r using FindNode_Some by (auto simp: current_node_def split: option.split)
  have w1: "loads keepAlive (ns_Name n) ms w ?w1" using nodes by (auto simp: loads_def intro: exI [of _ "[]"])
  show ?thesis
  proof (cases err)
    case (Some e)
    then show ?thesis using mk w1 by (auto simp: loadWithHeadroom_def n1_def Let_def)
  next
    case None
    obtain e w' where p: "pingNode env (current_node n r') m keepAlive ?w1 = (e, w')" by fastforce
    from pingNode_effect [OF p] obtain sent where s: "w' = ?w1\<lparr> wm_pings := wm_pings ?w1 @ sent \<rparr>"
      "\<forall>(node, path, model, k) \<in> set sent. node = ns_Name n \<and> model = m \<and> k = keepAlive" "e = None \<longrightarrow> sent \<noteq> []"
      unfolding nm by fastforce
    have "loads keepAlive (ns_Name n) ms ?w1 w'" using s assms(2) by (auto simp: loads_def)
    moreover have "\<exists>path. (ns_Name n, path, m, keepAlive) \<in> set (sent_between w w')" if "e = None"
      using s that by (cases sent) (auto simp: sent_between_def)
    ultimately show ?thesis using mk None p loads_trans [OF w1] by (auto simp: loadWithHeadroom_def n1_def Let_def)
  qed
qed

lemma counts_loads: "loads ka node ms w w' \<Longrightarrow> counts_all (wm_router w) \<Longrightarrow> counts_all (wm_router w')"
  by (simp add: loads_def counts_all_def)

lemma warm_loop_returns:
  assumes "counts_all (wm_router w)" "set models - {[]} \<subseteq> ms"
  shows "\<exists>fs w'. warm_models_loop env now keepAlive n models failures w = Some (fs, w') \<and> loads keepAlive (ns_Name n) ms w w'
    \<and> (\<exists>new. fs = failures @ new \<and> fst ` set new \<subseteq> set models - {[]})
    \<and> (\<forall>m \<in> set models - {[]}. m \<in> fst ` set fs \<or> (\<exists>path. (ns_Name n, path, m, keepAlive) \<in> set (sent_between w w')))"
  using assms
proof (induction models arbitrary: failures w)
  case Nil
  then show ?case by (auto intro: loads_refl)
next
  case (Cons m models)
  show ?case
  proof (cases "m = []")
    case True
    then show ?thesis using Cons.IH [OF Cons.prems(1), of failures] Cons.prems(2) by auto
  next
    case False
    then have "m \<in> ms" using Cons.prems(2) by auto
    from load_returns [OF Cons.prems(1) this, of env now n keepAlive]
    obtain err w1 where l: "loadWithHeadroom env now n m keepAlive w = Some (err, w1)" "loads keepAlive (ns_Name n) ms w w1"
      "err = None \<longrightarrow> (\<exists>path. (ns_Name n, path, m, keepAlive) \<in> set (sent_between w w1))" by blast
    let ?w2 = "settle_load (ns_Name n) m (err, w1)"
    let ?f = "case err of None \<Rightarrow> failures | Some e \<Rightarrow> failures @ [(m, e)]"
    have w2: "loads keepAlive (ns_Name n) ms w ?w2" using loads_trans [OF l(2)] settle_loads by blast
    have sub: "set models - {[]} \<subseteq> ms" using Cons.prems(2) by auto
    from Cons.IH [OF counts_loads [OF w2 Cons.prems(1)] sub, of ?f]
    obtain fs w' new where r: "warm_models_loop env now keepAlive n models ?f ?w2 = Some (fs, w')" "loads keepAlive (ns_Name n) ms ?w2 w'"
      "fs = ?f @ new" "fst ` set new \<subseteq> set models - {[]}"
      "\<forall>m \<in> set models - {[]}. m \<in> fst ` set fs \<or> (\<exists>path. (ns_Name n, path, m, keepAlive) \<in> set (sent_between ?w2 w'))" by blast
    have all: "\<forall>x \<in> set (m # models) - {[]}. x \<in> fst ` set fs \<or> (\<exists>path. (ns_Name n, path, x, keepAlive) \<in> set (sent_between w w'))"
    proof
      fix x assume x: "x \<in> set (m # models) - {[]}"
      show "x \<in> fst ` set fs \<or> (\<exists>path. (ns_Name n, path, x, keepAlive) \<in> set (sent_between w w'))"
      proof (cases "x \<in> set models")
        case True
        then show ?thesis using r(5) x by (auto simp: sent_trans [OF w2 r(2)])
      next
        case False
        then have "x = m" using x by simp
        then show ?thesis using l(3) r(3) by (cases err) (auto simp: sent_trans [OF w2 r(2)] sent_settle)
      qed
    qed
    have "\<exists>new'. fs = failures @ new' \<and> fst ` set new' \<subseteq> set (m # models) - {[]}"
      using r(3,4) False by (cases err) (force intro: exI [of _ "(m, _) # new"])+
    then show ?thesis using r(1) l(1) loads_trans [OF w2 r(2)] False all by simp
  qed
qed

section \<open>The target of a scheduled warm-up\<close>

lemma assign_keys: "gm_get (fst (assign_members valid head nodeSet names acc)) x \<noteq> None \<Longrightarrow> gm_get (fst acc) x \<noteq> None \<or> x \<in> set nodeSet"
proof (induction names arbitrary: acc)
  case (Cons name names)
  obtain roles heads where acc: "acc = (roles, heads)" by fastforce
  from Cons.prems have "gm_get roles x \<noteq> None \<or> x = name \<or> x \<in> set nodeSet"
    using Cons.IH by (fastforce simp: acc gm_get_put split: if_splits)
  then show ?case using Cons.prems Cons.IH by (fastforce simp: acc gm_get_put split: if_splits)
qed simp

lemma fold_assign_keys: "gm_get (fst (fold (assign_component nodeSet d) mss acc)) x \<noteq> None \<Longrightarrow> gm_get (fst acc) x \<noteq> None \<or> x \<in> set nodeSet"
proof (induction mss arbitrary: acc)
  case (Cons ms mss)
  obtain v h where v: "validateComponent ms nodeSet d = (v, h)" by fastforce
  have "gm_get (fst (assign_members v h nodeSet ms acc)) x \<noteq> None \<or> x \<in> set nodeSet"
    using Cons.IH [of "assign_component nodeSet d ms acc"] Cons.prems by (simp add: assign_component_def v del: not_None_eq)
  then show ?case using assign_keys [of v h nodeSet ms acc x] by blast
qed simp

lemma roles_of_fleet: "gm_get (fst (scheduling_roles nodes)) x \<noteq> None \<Longrightarrow> x \<in> ns_Name ` set nodes"
proof -
  assume a: "gm_get (fst (scheduling_roles nodes)) x \<noteq> None"
  then obtain roles heads where r: "resolveSchedulingRolesAndHeads nodes = Some (roles, heads)" "gm_get roles x \<noteq> None"
    by (cases "resolveSchedulingRolesAndHeads nodes") (auto simp: scheduling_roles_def)
  from r(1) have "roles = [] \<or> (\<exists>d mss. fold (assign_component (map ns_Name nodes) d) mss ([], []) = (roles, heads))"
    by (auto simp: resolveSchedulingRolesAndHeads_def Let_def bind_eq_Some_conv split: if_splits)
  moreover have "x \<in> set (map ns_Name nodes)" if "fold (assign_component (map ns_Name nodes) d) mss ([], []) = (roles, heads)" for d mss
    using fold_assign_keys [of "map ns_Name nodes" d mss "([], [])" x] r(2) that by simp
  ultimately show ?thesis using r(2) by (elim disjE exE) simp_all
qed

lemma component_eq: "h \<in> component nodes x \<Longrightarrow> component nodes h = component nodes x"
proof -
  let ?L = "linked (set (replica_edges nodes))"
  assume "h \<in> component nodes x"
  then have "?L x h" "?L h x" using linked_sym [of "set (replica_edges nodes)" x h] by (simp_all add: component_def)
  then have "?L h y \<longleftrightarrow> ?L x y" for y using linked_trans [of "set (replica_edges nodes)" _ _ y] by blast
  then show ?thesis by (simp add: component_def)
qed

lemma role_of_head:
  assumes "distinct (map ns_Name nodes)" "role_of (fst (scheduling_roles nodes)) x = RoleWorker" "gm_get (snd (scheduling_roles nodes)) x = Some h"
  shows "role_of (fst (scheduling_roles nodes)) h = RoleHead"
proof -
  let ?roles = "fst (scheduling_roles nodes)" let ?heads = "snd (scheduling_roles nodes)"
  have "gm_get ?roles x \<noteq> None" using assms(2) by (cases "gm_get ?roles x") (simp_all add: role_of_def gm_at_def)
  from scheduling_roles_spec [OF assms(1) roles_of_fleet [OF this]] assms(3) have v: "valid_component nodes (component nodes x) h" "x \<in> touched nodes"
    by (auto simp: role_spec_def split: if_splits)
  then have h: "h \<in> component nodes x" by (simp add: valid_component_def)
  then have same: "component nodes h = component nodes x" by (rule component_eq)
  have "h \<in> ns_Name ` set nodes" using valid_component_member [OF v(1) h] by auto
  from scheduling_roles_spec [OF assms(1) this] obtain h' where "valid_component nodes (component nodes x) h'"
    "gm_get ?roles h = Some (if h = h' then RoleHead else RoleWorker)"
    using v(1) touched_closed [OF v(2) h] unfolding role_spec_def same by (auto split del: if_split)
  then show ?thesis using valid_component_head_unique [OF v(1) _ refl assms(1), of h'] by (simp add: role_of_def gm_at_def)
qed


lemma keepAlive_outlasts:
  assumes "\<forall>d > 0. wv_parse_duration env (wv_show_duration env d) = Some d"
  shows "\<exists>d. wv_parse_duration env (effectiveKeepAlive env configured interval) = Some d \<and> interval \<le> d \<and> 0 < d"
proof -
  define i where "i = (if interval \<le> 0 then 5 * minute else interval)"
  have i: "0 < i" "interval \<le> i" by (auto simp: i_def duration_defs)
  then show ?thesis using assms [rule_format, of "2 * i"] unfolding effectiveKeepAlive_def i_def [symmetric] Let_def by (auto split: option.splits)
qed

lemma warm_target_fit:
  assumes "warm_target r node = Inr n" "distinct (map ns_Name (r_nodes r))"
  shows "FindNode r (ns_Name n) = Some n" "WarmupSupportedForRuntime (ns_Runtime n)" "\<not> ns_Draining n" "ns_Healthy n" "isGPUGroupSufficient n"
    "role_of (fst (scheduling_roles (r_nodes r))) (ns_Name n) \<in> {RoleStandalone, RoleHead}"
    "ns_Name n = node \<or> role_of (fst (scheduling_roles (r_nodes r))) node = RoleWorker \<and> gm_get (snd (scheduling_roles (r_nodes r))) node = Some (ns_Name n)"
proof -
  obtain roles heads where rh: "scheduling_roles (r_nodes r) = (roles, heads)" by fastforce
  define target where "target = (if role_of roles node = RoleWorker then gm_at [] heads node else node)"
  from assms(1) have find: "FindNode r target = Some n" and fit: "WarmupSupportedForRuntime (ns_Runtime n)" "\<not> ns_Draining n" "ns_Healthy n"
      "isGPUGroupSufficient n" "role_of roles node \<noteq> RoleUnresolved" "role_of roles node = RoleWorker \<longrightarrow> gm_at [] heads node \<noteq> []"
    unfolding warm_target_def rh Let_def prod.case target_def [symmetric] by (auto split: if_splits option.splits)
  have nm: "ns_Name n = target" using FindNode_Some [OF find] by simp
  show "FindNode r (ns_Name n) = Some n" "WarmupSupportedForRuntime (ns_Runtime n)" "\<not> ns_Draining n" "ns_Healthy n" "isGPUGroupSufficient n"
    using find fit nm by simp_all
  show named: "ns_Name n = node \<or> role_of (fst (scheduling_roles (r_nodes r))) node = RoleWorker \<and> gm_get (snd (scheduling_roles (r_nodes r))) node = Some (ns_Name n)"
    using fit(6) by (auto simp: rh nm target_def gm_at_def split: option.splits)
  show "role_of (fst (scheduling_roles (r_nodes r))) (ns_Name n) \<in> {RoleStandalone, RoleHead}"
  proof (cases "role_of roles node = RoleWorker")
    case True
    then have "gm_get heads node = Some (ns_Name n)" using fit(6) by (auto simp: nm target_def gm_at_def split: option.splits)
    then show ?thesis using role_of_head [OF assms(2), of node "ns_Name n"] True by (simp add: rh)
  next
    case False
    then show ?thesis using fit(5) by (cases "role_of roles node") (auto simp: rh nm target_def)
  qed
qed

lemma clearWarmupSuppress_nodes [simp]: "r_nodes (clearWarmupSuppress node ms r) = r_nodes r"
  by (simp add: clearWarmupSuppress_def split: option.split)

lemma WarmModels_refused: "warm_target (wm_router w) node = Inl why \<Longrightarrow> WarmModels env now node models w = Some (why, w)"
  by (simp add: WarmModels_def)

lemma WarmModels_loads:
  assumes "counts_all (wm_router w)" "warm_target (wm_router w) node = Inr n"
  shows "\<exists>note w'. WarmModels env now node models w = Some (note, w') \<and> loads (warm_keepAlive env w) (ns_Name n) (set models - {[]}) w w'
    \<and> (note = NoNote \<longrightarrow> (\<forall>m \<in> set models - {[]}. \<exists>path. (ns_Name n, path, m, warm_keepAlive env w) \<in> set (sent_between w w')))"
proof -
  let ?w0 = "w\<lparr> wm_router := clearWarmupSuppress (ns_Name n) models (wm_router w) \<rparr>"
  have w0: "loads ka nd ms w ?w0" "sent_between ?w0 w' = sent_between w w'" for ka nd ms w'
    by (auto simp: loads_def sent_between_def intro: exI [of _ "[]"])
  obtain fs w' where l: "warm_models_loop env now (warm_keepAlive env w) n models [] ?w0 = Some (fs, w')"
    "loads (warm_keepAlive env w) (ns_Name n) (set models - {[]}) ?w0 w'"
    "\<forall>m \<in> set models - {[]}. m \<in> fst ` set fs \<or> (\<exists>path. (ns_Name n, path, m, warm_keepAlive env w) \<in> set (sent_between w w'))"
    using warm_loop_returns [of ?w0 models "set models - {[]}" env now "warm_keepAlive env w" n "[]"] assms(1) w0(2)
    by (simp add: counts_all_def) metis
  then show ?thesis using assms(2) loads_trans [OF w0(1) l(2)] by (auto simp: WarmModels_def)
qed

text \<open>
  A scheduled warm-up returns, leaves the node records alone and sends a request only where it may: to the named node, or to the head of the
  replica the named node is a worker of, and that node is standalone or a head, supports the keep-alive request, is healthy, is
  not draining and has the GPUs its parallelism needs.  Every request is for a non-empty model of the list and carries a keep-alive that outlasts
  the warm interval.  A refusal leaves the state unchanged, and a run without failures has sent a request for every model.
\<close>

lemma scheduled_warmup_targets:
  assumes "counts_all (wm_router w)" "distinct (map ns_Name (r_nodes (wm_router w)))"
    and "\<forall>d > 0. wv_parse_duration env (wv_show_duration env d) = Some d"
  shows "\<exists>note w'. WarmModels env now node models w = Some (note, w') \<and> wm_pings w' = wm_pings w @ sent_between w w'
    \<and> r_nodes (wm_router w') = r_nodes (wm_router w)
    \<and> (\<forall>(nd, path, m, keepAlive) \<in> set (sent_between w w').
         (\<exists>n. FindNode (wm_router w) nd = Some n \<and> WarmupSupportedForRuntime (ns_Runtime n) \<and> \<not> ns_Draining n \<and> ns_Healthy n \<and> isGPUGroupSufficient n)
         \<and> role_of (fst (scheduling_roles (r_nodes (wm_router w)))) nd \<in> {RoleStandalone, RoleHead}
         \<and> (nd = node \<or> role_of (fst (scheduling_roles (r_nodes (wm_router w)))) node = RoleWorker
              \<and> gm_get (snd (scheduling_roles (r_nodes (wm_router w)))) node = Some nd)
         \<and> m \<in> set models - {[]}
         \<and> (\<exists>d. wv_parse_duration env keepAlive = Some d \<and> wc_IntervalMs (wm_config w) * millisecond \<le> d \<and> 0 < d))
    \<and> (note = NoNote \<longrightarrow> (\<forall>m \<in> set models - {[]}. \<exists>nd path keepAlive. (nd, path, m, keepAlive) \<in> set (sent_between w w')))
    \<and> (\<forall>why. warm_target (wm_router w) node = Inl why \<longrightarrow> note = why \<and> w' = w)"
proof (cases "warm_target (wm_router w) node")
  case (Inl why)
  moreover have "why \<noteq> NoNote" using Inl by (auto simp: warm_target_def Let_def split: prod.splits if_splits option.splits)
  ultimately show ?thesis by (simp add: WarmModels_refused sent_between_def)
next
  case (Inr n)
  obtain why w' where run: "WarmModels env now node models w = Some (why, w')"
    "loads (warm_keepAlive env w) (ns_Name n) (set models - {[]}) w w'"
    "why = NoNote \<longrightarrow> (\<forall>m \<in> set models - {[]}. \<exists>path. (ns_Name n, path, m, warm_keepAlive env w) \<in> set (sent_between w w'))"
    using WarmModels_loads [OF assms(1) Inr] by blast
  have ka: "\<exists>d. wv_parse_duration env (warm_keepAlive env w) = Some d \<and> wc_IntervalMs (wm_config w) * millisecond \<le> d \<and> 0 < d"
    unfolding warm_keepAlive_def using assms(3) by (rule keepAlive_outlasts)
  note fit = warm_target_fit [OF Inr assms(2)] and sent = sent_loads [OF run(2)]
  have each: "nd = ns_Name n \<and> m \<in> set models - {[]} \<and> k = warm_keepAlive env w" if "(nd, path, m, k) \<in> set (sent_between w w')" for nd path m k
    using bspec [OF conjunct2 [OF sent] that] by simp
  have ok: "(\<exists>n. FindNode (wm_router w) nd = Some n \<and> WarmupSupportedForRuntime (ns_Runtime n) \<and> \<not> ns_Draining n \<and> ns_Healthy n \<and> isGPUGroupSufficient n)
         \<and> role_of (fst (scheduling_roles (r_nodes (wm_router w)))) nd \<in> {RoleStandalone, RoleHead}
         \<and> (nd = node \<or> role_of (fst (scheduling_roles (r_nodes (wm_router w)))) node = RoleWorker
              \<and> gm_get (snd (scheduling_roles (r_nodes (wm_router w)))) node = Some nd)
         \<and> m \<in> set models - {[]}
         \<and> (\<exists>d. wv_parse_duration env k = Some d \<and> wc_IntervalMs (wm_config w) * millisecond \<le> d \<and> 0 < d)"
    if "(nd, path, m, k) \<in> set (sent_between w w')" for nd path m k
    unfolding conjunct1 [OF each [OF that]] conjunct2 [OF conjunct2 [OF each [OF that]]]
    by (intro conjI exI [of _ n] fit ka conjunct1 [OF conjunct2 [OF each [OF that]]])
  have every: "\<forall>m \<in> set models - {[]}. \<exists>nd path k. (nd, path, m, k) \<in> set (sent_between w w')" if "why = NoNote"
    using mp [OF run(3) that] by blast
  show ?thesis
    apply (rule exI [of _ why], rule exI [of _ w'], intro conjI)
         apply (rule run(1))
        apply (rule conjunct1 [OF sent])
       apply (use run(2) in \<open>simp add: loads_def\<close>)
      apply (rule ballI, clarify, rule ok, assumption)
     apply (rule impI, erule every)
    apply (simp add: Inr)
    done
qed


section \<open>A pass of the warmer\<close>

text \<open>The configuration asks for a model on a node.\<close>

definition wanted :: "warmup_config \<Rightarrow> router \<Rightarrow> string \<Rightarrow> string \<Rightarrow> bool" where
  "wanted cfg r node model \<longleftrightarrow>
     (wc_Enabled cfg \<and> (\<exists>e \<in> set (wc_Models cfg). we_Model e = model \<and> (we_Nodes e = [] \<or> node \<in> set (we_Nodes e))))
     \<or> (\<exists>nw. (node, nw) \<in> set (r_nodeWarmup r) \<and> nw_Enabled nw \<and> model \<in> set (nw_Models nw))"

definition plan_ok :: "(string \<Rightarrow> string \<Rightarrow> bool) \<Rightarrow> (string, string list) gomap \<times> warm_sources \<Rightarrow> bool" where
  "plan_ok P plan \<longleftrightarrow> gm_wf (fst plan) \<and> (\<forall>(node, models) \<in> set (fst plan). distinct models \<and> (\<forall>m \<in> set models. m \<noteq> [] \<and> P node m))"

lemma plan_add_ok:
  assumes "plan_ok P plan" "P node model"
  shows "plan_ok P (plan_add node model src plan)"
proof -
  obtain byNode explicit where plan: "plan = (byNode, explicit)" by fastforce
  have "distinct (gm_at [] byNode node) \<and> (\<forall>m \<in> set (gm_at [] byNode node). m \<noteq> [] \<and> P node m)"
    using assms(1) by (cases "gm_get byNode node") (auto simp: plan_ok_def plan gm_at_def dest!: map_of_SomeD)
  moreover have "x = (node, gm_at [] byNode node @ [model]) \<or> x \<in> set byNode" if "x \<in> set (gm_put node (gm_at [] byNode node @ [model]) byNode)" for x
    using that set_gm_put_subset [of node "gm_at [] byNode node @ [model]" byNode] by blast
  ultimately show ?thesis using assms by (fastforce simp: plan_ok_def plan plan_add_def Let_def)
qed

lemma fold_plan_ok: "plan_ok P plan \<Longrightarrow> (\<And>x p. x \<in> set xs \<Longrightarrow> plan_ok P p \<Longrightarrow> plan_ok P (f x p)) \<Longrightarrow> plan_ok P (fold f xs plan)"
  by (induction xs arbitrary: plan) simp_all

lemma warm_plan_ok: "plan_ok (wanted cfg r) (warm_plan cfg r)"
proof -
  have empty: "plan_ok (wanted cfg r) ([], [])" by (simp add: plan_ok_def gm_wf_def)
  have entries: "plan_ok (wanted cfg r) (fold (\<lambda>entry. fold (\<lambda>n. plan_add (ns_Name n) (we_Model entry) (False, we_Nodes entry \<noteq> []))
      (nodesForEntry (r_nodes r) (we_Nodes entry))) (wc_Models cfg) ([], []))" if "wc_Enabled cfg"
  proof (rule fold_plan_ok [OF empty], rule fold_plan_ok, assumption)
    fix e n p assume "e \<in> set (wc_Models cfg)" "n \<in> set (nodesForEntry (r_nodes r) (we_Nodes e))" "plan_ok (wanted cfg r) p"
    then show "plan_ok (wanted cfg r) (plan_add (ns_Name n) (we_Model e) (False, we_Nodes e \<noteq> []) p)"
      using that by (intro plan_add_ok) (auto simp: wanted_def nodesForEntry_def split: if_splits)
  qed
  have own: "plan_ok (wanted cfg r) ((if nw_Enabled nw then fold (\<lambda>m. plan_add name m (True, False)) (nw_Models nw) else id) p)"
    if "(name, nw) \<in> set (r_nodeWarmup r)" "plan_ok (wanted cfg r) p" for name nw p
    using that by (auto intro!: fold_plan_ok plan_add_ok simp: wanted_def)
  show ?thesis unfolding warm_plan_def Let_def
  proof (rule fold_plan_ok)
    fix x p assume "x \<in> set (r_nodeWarmup r)" "plan_ok (wanted cfg r) p"
    then show "plan_ok (wanted cfg r) ((case x of (name, nw) \<Rightarrow> if nw_Enabled nw then fold (\<lambda>m. plan_add name m (True, False)) (nw_Models nw) else id) p)"
      using own [of "fst x" "snd x" p] by (simp add: case_prod_beta)
  qed (use entries empty in auto)
qed

text \<open>A node the warmer may use.\<close>

definition warmable :: "router \<Rightarrow> string \<Rightarrow> bool" where
  "warmable r node \<longleftrightarrow> (\<exists>n. FindNode r node = Some n \<and> WarmupSupportedForRuntime (ns_Runtime n) \<and> \<not> ns_Draining n \<and> ns_Healthy n \<and> isGPUGroupSufficient n)"

lemma setWarmPriority_nodes [simp]: "r_nodes (setWarmPriority node ms r) = r_nodes r"
  by (simp add: setWarmPriority_def)

lemma fold_warnings:
  assumes "\<And>m w. r_nodes (wm_router (f m w)) = r_nodes (wm_router w) \<and> wm_inProgress (f m w) = wm_inProgress w"
  shows "r_nodes (wm_router (fold f ms w)) = r_nodes (wm_router w) \<and> wm_inProgress (fold f ms w) = wm_inProgress w"
  by (induction ms arbitrary: w) (simp_all add: assms)

lemma warm_node_effect:
  assumes "warm_node role head explicit node models w = (job, w')"
  shows "r_nodes (wm_router w') = r_nodes (wm_router w)
    \<and> (case job of
         None \<Rightarrow> wm_inProgress w' = wm_inProgress w
       | Some j \<Rightarrow> j = (node, models) \<and> role \<noteq> RoleWorker \<and> role \<noteq> RoleUnresolved \<and> warmable (wm_router w) node
           \<and> \<not> gm_at False (wm_inProgress w) node \<and> wm_inProgress w' = gm_put node True (wm_inProgress w))"
proof (cases "FindNode (wm_router w) node")
  case None
  then show ?thesis using assms by (simp add: warm_node_def)
next
  case (Some n)
  have warn: "r_nodes (wm_router (add_warning node m x v)) = r_nodes (wm_router v) \<and> wm_inProgress (add_warning node m x v) = wm_inProgress v" for m x v
    by (simp add: add_warning_def)
  consider "role = RoleWorker" | "role = RoleUnresolved" | "role \<noteq> RoleWorker" "role \<noteq> RoleUnresolved"
      "\<not> WarmupSupportedForRuntime (ns_Runtime n) \<or> ns_Draining n \<or> \<not> ns_Healthy n \<or> \<not> isGPUGroupSufficient n"
    | (fit) "role \<noteq> RoleWorker" "role \<noteq> RoleUnresolved" "WarmupSupportedForRuntime (ns_Runtime n)" "\<not> ns_Draining n" "ns_Healthy n" "isGPUGroupSufficient n"
    by blast
  then show ?thesis
  proof cases
    case fit
    define f where "f = (\<lambda>m w. case findLoadedModel (ns_LoadedModels n) m of
        Some e \<Rightarrow> if digestMismatch (wm_router w) (mi_Name e) (mi_Digest e) then add_warning node m DigestDrift w else w | None \<Rightarrow> w)"
    define w2 where "w2 = fold f models (w\<lparr> wm_router := setWarmPriority node models (wm_router w) \<rparr>)"
    have "r_nodes (wm_router (f m v)) = r_nodes (wm_router v) \<and> wm_inProgress (f m v) = wm_inProgress v" for m v
      using warn by (simp add: f_def split: option.split)
    from fold_warnings [where f = f, OF this] have w2: "r_nodes (wm_router w2) = r_nodes (wm_router w)" "wm_inProgress w2 = wm_inProgress w"
      by (simp_all add: w2_def)
    have "(case tryStartWarmup node w2 of (started, w3) \<Rightarrow> (if started then Some (node, models) else None, w3)) = (job, w')"
      using assms fit by (simp add: warm_node_def Some Let_def f_def [symmetric] w2_def [symmetric])
    then show ?thesis using w2 fit Some by (auto simp: tryStartWarmup_def warmable_def split: if_splits)
  qed (use assms Some in \<open>auto simp: warm_node_def intro!: conjunct1 [OF fold_warnings] conjunct2 [OF fold_warnings] simp: warn split: prod.split\<close>)
qed

text \<open>What a pass has done after the nodes of \<open>byNode\<close>.\<close>

definition pass_ok :: "(string \<times> string list) list \<Rightarrow> warming \<Rightarrow> (string \<times> string list) list \<times> warming \<Rightarrow> bool" where
  "pass_ok byNode w0 acc \<longleftrightarrow> r_nodes (wm_router (snd acc)) = r_nodes (wm_router w0) \<and> distinct (map fst (fst acc)) \<and> set (fst acc) \<subseteq> set byNode
     \<and> (\<forall>(node, models) \<in> set (fst acc). warmable (wm_router w0) node \<and> \<not> gm_at False (wm_inProgress w0) node)
     \<and> (\<forall>node. gm_at False (wm_inProgress (snd acc)) node \<longleftrightarrow> gm_at False (wm_inProgress w0) node \<or> node \<in> fst ` set (fst acc))"

lemma pass_step:
  assumes ok: "pass_ok byNode w0 (jobs, v)" and x: "node \<notin> fst ` set byNode"
    and step: "warm_node role head explicit node models v = (job, v')"
  shows "pass_ok (byNode @ [(node, models)]) w0 (jobs @ (case job of None \<Rightarrow> [] | Some j \<Rightarrow> [j]), v')"
proof -
  have nodes: "warmable (wm_router v) nd = warmable (wm_router w0) nd" for nd
    using ok by (simp add: warmable_def FindNode_def pass_ok_def)
  show ?thesis
  proof (cases job)
    case None
    then show ?thesis using warm_node_effect [OF step] ok by (auto simp: pass_ok_def)
  next
    case (Some j)
    then have e: "j = (node, models)" "warmable (wm_router w0) node" "\<not> gm_at False (wm_inProgress v) node"
      "wm_inProgress v' = gm_put node True (wm_inProgress v)" "r_nodes (wm_router v') = r_nodes (wm_router v)"
      using warm_node_effect [OF step] nodes by simp_all
    have "gm_at False (wm_inProgress v') nd \<longleftrightarrow> nd = node \<or> gm_at False (wm_inProgress v) nd" for nd
      by (simp add: e(4) gm_at_def gm_get_put)
    moreover have "node \<notin> fst ` set jobs" using ok x by (auto simp: pass_ok_def)
    ultimately show ?thesis using ok e(1,2,3,5) Some by (auto simp: pass_ok_def)
  qed
qed

lemma pass_fold:
  assumes "pass_ok byNode w0 acc" "distinct (map fst (byNode @ rest))"
  shows "pass_ok (byNode @ rest) w0 (fold (\<lambda>(nodeName, models) (jobs, w).
    case warm_node (role nodeName) (head nodeName) explicit nodeName models w of
      (job, w') \<Rightarrow> (jobs @ (case job of None \<Rightarrow> [] | Some j \<Rightarrow> [j]), w')) rest acc)"
  using assms
proof (induction rest arbitrary: byNode acc)
  case (Cons x rest)
  obtain node models where x: "x = (node, models)" by fastforce
  obtain jobs v where acc: "acc = (jobs, v)" by fastforce
  obtain job v' where step: "warm_node (role node) (head node) explicit node models v = (job, v')" by fastforce
  have "node \<notin> fst ` set byNode" using Cons.prems(2) by (auto simp: x)
  from pass_step [OF Cons.prems(1) [unfolded acc] this step]
  have "pass_ok (byNode @ [(node, models)]) w0 (jobs @ (case job of None \<Rightarrow> [] | Some j \<Rightarrow> [j]), v')" .
  from Cons.IH [OF this] Cons.prems(2) show ?case by (simp add: x acc step)
qed simp

lemma job_roles:
  assumes "(node, models) \<in> set (fst (fold (\<lambda>(nodeName, models) (jobs, w).
    case warm_node (role nodeName) (head nodeName) explicit nodeName models w of
      (job, w') \<Rightarrow> (jobs @ (case job of None \<Rightarrow> [] | Some j \<Rightarrow> [j]), w')) rest acc))"
  shows "(node, models) \<in> set (fst acc) \<or> role node \<noteq> RoleWorker \<and> role node \<noteq> RoleUnresolved"
  using assms
proof (induction rest arbitrary: acc)
  case (Cons x rest)
  obtain nd ms where x: "x = (nd, ms)" by fastforce
  obtain jobs v where acc: "acc = (jobs, v)" by fastforce
  obtain job v' where step: "warm_node (role nd) (head nd) explicit nd ms v = (job, v')" by fastforce
  show ?case using Cons.IH [of "(jobs @ (case job of None \<Rightarrow> [] | Some j \<Rightarrow> [j]), v')"] Cons.prems warm_node_effect [OF step]
    by (auto simp: x acc step split: option.splits)
qed simp

text \<open>
  C24. A pass of the warmer starts at most one job per node, only where none is running, and marks those nodes as busy and no others.  A job is for a
  node in the fleet that is standalone or the head of its replica, supports the keep-alive request, is healthy, not draining and has its GPUs; its
  models are distinct, non-empty and asked for on that node by the configuration.
\<close>

theorem keep_warm_pass_safe:
  assumes "pingWarmupModels w = (jobs, w')"
  shows "distinct (map fst jobs) \<and> r_nodes (wm_router w') = r_nodes (wm_router w)
    \<and> (\<forall>node. gm_at False (wm_inProgress w') node \<longleftrightarrow> gm_at False (wm_inProgress w) node \<or> node \<in> fst ` set jobs)
    \<and> (\<forall>(node, models) \<in> set jobs. \<not> gm_at False (wm_inProgress w) node
         \<and> (\<exists>n. FindNode (wm_router w) node = Some n \<and> WarmupSupportedForRuntime (ns_Runtime n) \<and> \<not> ns_Draining n \<and> ns_Healthy n \<and> isGPUGroupSufficient n)
         \<and> role_of (fst (scheduling_roles (r_nodes (wm_router w)))) node \<in> {RoleStandalone, RoleHead}
         \<and> distinct models \<and> (\<forall>m \<in> set models. m \<noteq> [] \<and> wanted (wm_config w) (wm_router w) node m))"
proof -
  let ?r = "wm_router w"
  obtain roles heads where rh: "scheduling_roles (r_nodes ?r) = (roles, heads)" by fastforce
  obtain byNode explicit where plan: "warm_plan (wm_config w) ?r = (byNode, explicit)" by fastforce
  let ?w0 = "w\<lparr> wm_warnings := gm_remove_if (\<lambda>(node, _) _. node \<in> ns_Name ` set (r_nodes ?r)) (wm_warnings w) \<rparr>"
  have run: "fold (\<lambda>(nodeName, models) (jobs, w). case warm_node (role_of roles nodeName) (gm_at [] heads nodeName) explicit nodeName models w of
      (job, w') \<Rightarrow> (jobs @ (case job of None \<Rightarrow> [] | Some j \<Rightarrow> [j]), w')) byNode ([], ?w0) = (jobs, w')"
    using assms by (simp only: pingWarmupModels_def Let_def rh plan prod.case)
  have p: "plan_ok (wanted (wm_config w) ?r) (byNode, explicit)" using warm_plan_ok [of "wm_config w" ?r] unfolding plan .
  then have "distinct (map fst byNode)" by (simp add: plan_ok_def gm_wf_def)
  moreover have "pass_ok [] ?w0 ([], ?w0)" by (simp add: pass_ok_def)
  ultimately have ok: "pass_ok byNode ?w0 (jobs, w')"
    using pass_fold [of "[]" ?w0 "([], ?w0)" byNode "role_of roles" "gm_at [] heads" explicit] unfolding run by simp
  have roles: "role_of roles node \<in> {RoleStandalone, RoleHead}" if "(node, models) \<in> set jobs" for node models
    using job_roles [of node models "role_of roles" "gm_at [] heads" explicit byNode "([], ?w0)"] that unfolding run
    by (cases "role_of roles node") auto
  have models: "distinct models \<and> (\<forall>m \<in> set models. m \<noteq> [] \<and> wanted (wm_config w) ?r node m)" if "(node, models) \<in> set jobs" for node models
    using that p ok by (fastforce simp: plan_ok_def pass_ok_def)
  have each: "\<not> gm_at False (wm_inProgress w) node
         \<and> (\<exists>n. FindNode ?r node = Some n \<and> WarmupSupportedForRuntime (ns_Runtime n) \<and> \<not> ns_Draining n \<and> ns_Healthy n \<and> isGPUGroupSufficient n)"
    if "(node, models) \<in> set jobs" for node models
    using that ok by (auto simp: pass_ok_def warmable_def FindNode_def)
  have rest: "distinct (map fst jobs) \<and> r_nodes (wm_router w') = r_nodes ?r
    \<and> (\<forall>node. gm_at False (wm_inProgress w') node \<longleftrightarrow> gm_at False (wm_inProgress w) node \<or> node \<in> fst ` set jobs)"
    using ok by (simp add: pass_ok_def)
  show ?thesis unfolding rh fst_conv
    apply (intro conjI)
       apply (rule conjunct1 [OF rest])
      apply (rule conjunct1 [OF conjunct2 [OF rest]])
     apply (rule conjunct2 [OF conjunct2 [OF rest]])
    apply (rule ballI, clarsimp simp del: insert_iff)
    apply (use each roles models in \<open>simp del: insert_iff\<close>)
    done
qed

section \<open>Firing schedules\<close>

text \<open>What a run of a schedule never changes: the schedules up to their last-run fields, and which of them fired.\<close>

definition sched_key :: "schedule \<Rightarrow> string \<times> string \<times> string \<times> string list \<times> string \<times> int list \<times> bool" where
  "sched_key s = (sd_ID s, sd_Action s, sd_Node s, sd_Models s, sd_At s, sd_Days s, sd_Enabled s)"

definition keeps_schedules :: "warming \<Rightarrow> warming \<Rightarrow> bool" where
  "keeps_schedules w w' \<longleftrightarrow> map sched_key (wm_schedules w') = map sched_key (wm_schedules w) \<and> wm_lastFired w' = wm_lastFired w
     \<and> wm_fired w' = wm_fired w \<and> counts_all (wm_router w')"

lemma counts_upd:
  assumes "counts_all r" "\<And>n. ns_modelInFlight (f n) = ns_modelInFlight n" "r_nodes r' = upd_first p f (r_nodes r)"
  shows "counts_all r'"
proof -
  have "map ns_modelInFlight (r_nodes r') = map ns_modelInFlight (r_nodes r)" unfolding assms(3) by (rule map_upd_first) (simp add: assms(2))
  then have "ns_modelInFlight ` set (r_nodes r') = ns_modelInFlight ` set (r_nodes r)" by (metis list.set_map)
  moreover have "counts_all q \<longleftrightarrow> (\<forall>c \<in> ns_modelInFlight ` set (r_nodes q). counts_ok c)" for q by (simp add: counts_all_def)
  ultimately show ?thesis using assms(1) by metis
qed

lemma drain_counts:
  assumes "counts_all r"
  shows "counts_all (snd (DrainNode name reason grace r))" "counts_all (snd (UndrainNode name r))" "counts_all (upd_store f r)"
proof -
  have "r_nodes (fireWebhook ev nm url q) = r_nodes q" for ev nm url q by (simp add: fireWebhook_def)
  then show "counts_all (snd (DrainNode name reason grace r))" "counts_all (snd (UndrainNode name r))"
    using assms counts_upd [OF assms, of "drain_node reason grace" _ "\<lambda>n. ns_Name n = name"]
      counts_upd [OF assms, of undrain_node _ "\<lambda>n. ns_Name n = name"]
    by (simp_all add: DrainNode_def UndrainNode_def upd_node_def drain_node_def undrain_node_def split: option.split)
  show "counts_all (upd_store f r)" using assms by (simp add: counts_all_def upd_store_def)
qed

lemma unload_effects_nodes [simp]: "r_nodes (recordUnloadSideEffects now node m reason r) = r_nodes r"
  by (simp add: recordUnloadSideEffects_def delete_warm_row_def suppressWarmup_def)

lemma unload_one_keeps: "keeps_schedules w w' \<Longrightarrow> keeps_schedules w (snd (unload_one env now n ua m w'))"
  by (auto simp: keeps_schedules_def unload_one_def unloadModel_def counts_all_def split: prod.split)

lemma unload_keeps:
  assumes "counts_all (wm_router w)"
  shows "keeps_schedules w (snd (UnloadModelsWithWarnings env now node models w))"
proof -
  have loop: "keeps_schedules w (snd acc) \<Longrightarrow> keeps_schedules w (snd (fold (\<lambda>m (failures, w). case unload_one env now n ua m w of
      (err, w') \<Rightarrow> (failures @ (case err of None \<Rightarrow> [] | Some e \<Rightarrow> [(m, e)]), w')) ms acc))" for n ua ms acc
  proof (induction ms arbitrary: acc)
    case (Cons m ms)
    then show ?case using unload_one_keeps [of w "snd acc" env now n ua m] by (cases acc) (auto split: prod.split)
  qed simp
  have "keeps_schedules w w" using assms by (simp add: keeps_schedules_def)
  then show ?thesis
  proof (cases "FindNode (wm_router w) node")
    case None
    then show ?thesis using \<open>keeps_schedules w w\<close> by (simp add: UnloadModelsWithWarnings_def)
  next
    case (Some n)
    have "snd (case acc of (failures, w') \<Rightarrow> (f failures, w')) = snd acc" for f :: "(string \<times> unload_error) list \<Rightarrow> schedule_note" and acc :: "_ \<times> warming"
      by (cases acc) simp
    then show ?thesis unfolding UnloadModelsWithWarnings_def Some option.case Let_def
      using loop [of "([], w)"] \<open>keeps_schedules w w\<close> by (simp only: snd_conv)
  qed
qed

lemma run_action_keeps:
  assumes "counts_all (wm_router w)"
  shows "\<exists>why w'. run_action env now s w = Some (why, w') \<and> keeps_schedules w w'"
proof -
  have refl: "keeps_schedules w w" using assms by (simp add: keeps_schedules_def)
  have router: "keeps_schedules w (w\<lparr> wm_router := r' \<rparr>)" if "counts_all r'" for r' using that by (simp add: keeps_schedules_def)
  consider "sd_Action s = ''warmup''" | "sd_Action s = ''unload''" | "sd_Action s = ''drain''" | "sd_Action s = ''undrain''"
    | "\<not> ValidScheduleAction (sd_Action s)" by (auto simp: ValidScheduleAction_def)
  then show ?thesis
  proof cases
    case 1
    show ?thesis
    proof (cases "warm_target (wm_router w) (sd_Node s)")
      case (Inl why)
      then show ?thesis using 1 refl by (simp add: run_action_def WarmModels_refused)
    next
      case (Inr n)
      from WarmModels_loads [OF assms Inr, of env now "sd_Models s"] obtain why w'
        where w': "WarmModels env now (sd_Node s) (sd_Models s) w = Some (why, w')"
          "loads (warm_keepAlive env w) (ns_Name n) (set (sd_Models s) - {[]}) w w'" by blast
      then have "keeps_schedules w w'" using counts_loads [OF w'(2) assms] by (simp add: keeps_schedules_def loads_def)
      then show ?thesis using w'(1) 1 by (simp add: run_action_def)
    qed
  next
    case 2
    then show ?thesis using unload_keeps [OF assms, of env now "sd_Node s" "sd_Models s"]
      by (cases "UnloadModelsWithWarnings env now (sd_Node s) (sd_Models s) w") (simp add: run_action_def)
  next
    case 3
    then show ?thesis using drain_counts(1) [OF assms, of "sd_Node s" "''scheduled''" 0] drain_counts(3)
      by (cases "DrainNode (sd_Node s) ''scheduled'' 0 (wm_router w)") (auto simp: run_action_def intro!: router)
  next
    case 4
    then show ?thesis using drain_counts(2) [OF assms, of "sd_Node s"] drain_counts(3)
      by (cases "UndrainNode (sd_Node s) (wm_router w)") (auto simp: run_action_def intro!: router)
  next
    case 5
    then show ?thesis using refl by (simp add: run_action_def ValidScheduleAction_def)
  qed
qed

lemma fireSchedule_keeps:
  assumes "counts_all (wm_router w)"
  shows "\<exists>w'. fireSchedule env now s w = Some w' \<and> keeps_schedules w w'"
proof -
  obtain why w1 where w1: "run_action env now s w = Some (why, w1)" "keeps_schedules w w1" using run_action_keeps [OF assms] by metis
  have "map sched_key (wm_schedules (recordScheduleRun now i st nt v)) = map sched_key (wm_schedules v)" for i st nt v
    unfolding recordScheduleRun_def by (simp add: map_upd_first sched_key_def)
  then have "keeps_schedules w (auditScheduled s st nt (recordScheduleRun now i st nt w1))" for i st nt
    using w1(2) by (auto simp: keeps_schedules_def auditScheduled_def recordScheduleRun_def)
  then show ?thesis using w1(1) by (simp add: fireSchedule_def Let_def)
qed


lemma run_loop_fires:
  assumes "counts_all (wm_router w)" "distinct (map sd_ID ss)"
  shows "\<exists>w'. run_loop env now c ss w = Some w' \<and> counts_all (wm_router w') \<and> map sched_key (wm_schedules w') = map sched_key (wm_schedules w)
    \<and> wm_fired w' = wm_fired w @ map (\<lambda>s. (sd_ID s, stamp_of c)) (filter (\<lambda>s. is_due c s \<and> gm_at [] (wm_lastFired w) (sd_ID s) \<noteq> stamp_of c) ss)
    \<and> (\<forall>i. gm_at [] (wm_lastFired w') i = (if \<exists>s \<in> set ss. sd_ID s = i \<and> is_due c s then stamp_of c else gm_at [] (wm_lastFired w) i))"
  using assms
proof (induction ss arbitrary: w)
  case Nil
  then show ?case by simp
next
  case (Cons s ss)
  note d = Cons.prems(2) [unfolded list.map distinct.simps]
  show ?case
  proof (cases "\<not> is_due c s \<or> gm_at [] (wm_lastFired w) (sd_ID s) = stamp_of c")
    case True
    obtain w' where w': "run_loop env now c ss w = Some w'" "counts_all (wm_router w')" "map sched_key (wm_schedules w') = map sched_key (wm_schedules w)"
      "wm_fired w' = wm_fired w @ map (\<lambda>s. (sd_ID s, stamp_of c)) (filter (\<lambda>s. is_due c s \<and> gm_at [] (wm_lastFired w) (sd_ID s) \<noteq> stamp_of c) ss)"
      "\<forall>i. gm_at [] (wm_lastFired w') i = (if \<exists>s \<in> set ss. sd_ID s = i \<and> is_due c s then stamp_of c else gm_at [] (wm_lastFired w) i)"
      using Cons.IH [OF Cons.prems(1) conjunct2 [OF d]] by blast
    then show ?thesis using True by (intro exI [of _ w']) auto
  next
    case False
    let ?w1 = "w\<lparr> wm_lastFired := gm_put (sd_ID s) (stamp_of c) (wm_lastFired w), wm_fired := wm_fired w @ [(sd_ID s, stamp_of c)] \<rparr>"
    obtain w2 where w2: "fireSchedule env now s ?w1 = Some w2" "keeps_schedules ?w1 w2" using fireSchedule_keeps [of ?w1 env now s] Cons.prems(1) by auto
    then have k: "counts_all (wm_router w2)" "map sched_key (wm_schedules w2) = map sched_key (wm_schedules w)"
      "wm_fired w2 = wm_fired w @ [(sd_ID s, stamp_of c)]" "wm_lastFired w2 = gm_put (sd_ID s) (stamp_of c) (wm_lastFired w)"
      by (simp_all add: keeps_schedules_def)
    have at': "gm_at [] (wm_lastFired w2) i = (if i = sd_ID s then stamp_of c else gm_at [] (wm_lastFired w) i)" for i
      by (simp add: k(4) gm_at_def gm_get_put)
    obtain w' where w': "run_loop env now c ss w2 = Some w'" "counts_all (wm_router w')" "map sched_key (wm_schedules w') = map sched_key (wm_schedules w2)"
      "wm_fired w' = wm_fired w2 @ map (\<lambda>s. (sd_ID s, stamp_of c)) (filter (\<lambda>s. is_due c s \<and> gm_at [] (wm_lastFired w2) (sd_ID s) \<noteq> stamp_of c) ss)"
      "\<forall>i. gm_at [] (wm_lastFired w') i = (if \<exists>s \<in> set ss. sd_ID s = i \<and> is_due c s then stamp_of c else gm_at [] (wm_lastFired w2) i)"
      using Cons.IH [OF k(1) conjunct2 [OF d]] by blast
    have "filter (\<lambda>s. is_due c s \<and> gm_at [] (wm_lastFired w2) (sd_ID s) \<noteq> stamp_of c) ss
        = filter (\<lambda>s. is_due c s \<and> gm_at [] (wm_lastFired w) (sd_ID s) \<noteq> stamp_of c) ss"
      using conjunct1 [OF d] by (intro filter_cong) (auto simp: at', metis image_eqI)
    then show ?thesis using False w' k(1,2,3) w2(1) by (intro exI [of _ w']) (auto simp: at')
  qed
qed

text \<open>The ticks of the schedule ticker, one after the other, and the minutes at which a schedule fired.\<close>

fun tick_run :: "(warm_env \<times> gotime \<times> wall_clock) list \<Rightarrow> warming \<Rightarrow> warming option" where
  "tick_run [] w = Some w"
| "tick_run ((env, now, c) # ticks) w = Option.bind (runSchedules env now c w) (tick_run ticks)"

definition fired_of :: "string \<Rightarrow> warming \<Rightarrow> string list" where
  "fired_of i w = map snd (filter (\<lambda>(x, _). x = i) (wm_fired w))"

lemma is_due_key: "sched_key s = sched_key s' \<Longrightarrow> is_due c s = is_due c s'"
  by (simp add: sched_key_def is_due_def)

lemma filter_unique: "distinct (map f xs) \<Longrightarrow> x \<in> set xs \<Longrightarrow> filter (\<lambda>y. f y = f x \<and> P y) xs = (if P x then [x] else [])"
proof (induction xs)
  case (Cons y ys)
  show ?case
  proof (cases "y = x")
    case True
    then have "\<forall>z \<in> set ys. f z \<noteq> f x" using Cons.prems(1) by (metis distinct.simps(2) image_eqI list.set_map list.simps(9))
    then show ?thesis using True by (simp add: filter_empty_conv)
  next
    case False
    then have "f y \<noteq> f x" using Cons.prems by (metis distinct.simps(2) image_eqI list.set_map list.simps(9) set_ConsD)
    then show ?thesis using Cons False by auto
  qed
qed simp

lemma tick_fires:
  assumes "counts_all (wm_router w)" "distinct (map sd_ID (wm_schedules w))" "s \<in> set (wm_schedules w)"
  shows "\<exists>w'. runSchedules env now c w = Some w' \<and> counts_all (wm_router w') \<and> map sched_key (wm_schedules w') = map sched_key (wm_schedules w)
    \<and> fired_of (sd_ID s) w' = fired_of (sd_ID s) w @ (if is_due c s \<and> gm_at [] (wm_lastFired w) (sd_ID s) \<noteq> stamp_of c then [stamp_of c] else [])
    \<and> gm_at [] (wm_lastFired w') (sd_ID s) = (if is_due c s then stamp_of c else gm_at [] (wm_lastFired w) (sd_ID s))"
proof -
  let ?P = "\<lambda>s. is_due c s \<and> gm_at [] (wm_lastFired w) (sd_ID s) \<noteq> stamp_of c"
  obtain w' where w': "run_loop env now c (wm_schedules w) w = Some w'" "counts_all (wm_router w')" "map sched_key (wm_schedules w') = map sched_key (wm_schedules w)"
    "wm_fired w' = wm_fired w @ map (\<lambda>s. (sd_ID s, stamp_of c)) (filter ?P (wm_schedules w))"
    "\<forall>i. gm_at [] (wm_lastFired w') i = (if \<exists>s \<in> set (wm_schedules w). sd_ID s = i \<and> is_due c s then stamp_of c else gm_at [] (wm_lastFired w) i)"
    using run_loop_fires [OF assms(1,2), of env now c] by blast
  have "filter (\<lambda>(x, _). x = sd_ID s) (map (\<lambda>s. (sd_ID s, stamp_of c)) (filter ?P (wm_schedules w)))
      = map (\<lambda>s. (sd_ID s, stamp_of c)) (filter (\<lambda>y. sd_ID y = sd_ID s \<and> ?P y) (wm_schedules w))"
    by (simp add: filter_map comp_def conj_commute conj_left_commute)
  then have "fired_of (sd_ID s) w' = fired_of (sd_ID s) w @ (if ?P s then [stamp_of c] else [])"
    unfolding filter_unique [OF assms(2,3)] by (simp add: fired_of_def w'(4))
  moreover have "(\<exists>t \<in> set (wm_schedules w). sd_ID t = sd_ID s \<and> is_due c t) = is_due c s"
    using assms(2,3) by (metis distinct_map inj_onD)
  ultimately show ?thesis using w'(1,2,3,5) by (simp add: runSchedules_def)
qed

lemma tick_run_fires:
  assumes "counts_all (wm_router w)" "distinct (map sd_ID (wm_schedules w))" "s \<in> set (wm_schedules w)"
  shows "\<exists>w'. tick_run ticks w = Some w'
    \<and> gm_at [] (wm_lastFired w) (sd_ID s) # drop (length (fired_of (sd_ID s) w)) (fired_of (sd_ID s) w')
        = remdups_adj (gm_at [] (wm_lastFired w) (sd_ID s) # map stamp_of (filter (\<lambda>c. is_due c s) (map (snd \<circ> snd) ticks)))
    \<and> take (length (fired_of (sd_ID s) w)) (fired_of (sd_ID s) w') = fired_of (sd_ID s) w"
  using assms
proof (induction ticks arbitrary: w s)
  case Nil
  then show ?case by simp
next
  case (Cons tick ticks)
  obtain env now c where t: "tick = (env, now, c)" by (metis surj_pair)
  obtain w1 where w1: "runSchedules env now c w = Some w1" "counts_all (wm_router w1)" "map sched_key (wm_schedules w1) = map sched_key (wm_schedules w)"
    "fired_of (sd_ID s) w1 = fired_of (sd_ID s) w @ (if is_due c s \<and> gm_at [] (wm_lastFired w) (sd_ID s) \<noteq> stamp_of c then [stamp_of c] else [])"
    "gm_at [] (wm_lastFired w1) (sd_ID s) = (if is_due c s then stamp_of c else gm_at [] (wm_lastFired w) (sd_ID s))"
    using tick_fires [OF Cons.prems, of env now c] by blast
  have ids: "map sd_ID xs = map fst (map sched_key xs)" for xs by (simp add: sched_key_def)
  have "distinct (map sd_ID (wm_schedules w1))" using Cons.prems(2) unfolding ids w1(3) .
  have "sched_key s \<in> set (map sched_key (wm_schedules w1))" unfolding w1(3) using Cons.prems(3) by simp
  then obtain s1 where s1: "s1 \<in> set (wm_schedules w1)" "sched_key s1 = sched_key s" by auto
  then have sid: "sd_ID s1 = sd_ID s" by (simp add: sched_key_def)
  have due: "is_due c s1 = is_due c s" for c by (rule is_due_key [OF s1(2)])
  obtain w' where w': "tick_run ticks w1 = Some w'"
    "gm_at [] (wm_lastFired w1) (sd_ID s) # drop (length (fired_of (sd_ID s) w1)) (fired_of (sd_ID s) w')
        = remdups_adj (gm_at [] (wm_lastFired w1) (sd_ID s) # map stamp_of (filter (\<lambda>c. is_due c s) (map (snd \<circ> snd) ticks)))"
    "take (length (fired_of (sd_ID s) w1)) (fired_of (sd_ID s) w') = fired_of (sd_ID s) w1"
    using Cons.IH [OF w1(2) \<open>distinct (map sd_ID (wm_schedules w1))\<close> s1(1)] unfolding sid due by blast
  obtain more where more: "fired_of (sd_ID s) w' = fired_of (sd_ID s) w1 @ more" using w'(3) by (metis append_take_drop_id)
  let ?due = "filter (\<lambda>c. is_due c s) (map (snd \<circ> snd) ticks)"
  have ticks: "filter (\<lambda>c. is_due c s) (map (snd \<circ> snd) (tick # ticks)) = (if is_due c s then c # ?due else ?due)" by (simp add: t)
  have run: "tick_run (tick # ticks) w = Some w'" using w1(1) w'(1) by (simp add: t)
  show ?case
    apply (rule exI [of _ w'])
    using run w'(2) unfolding ticks more w1(4,5) by (auto simp del: map_map)
qed


lemma stamp_due: "is_due c s \<Longrightarrow> stamp_of c = wk_date c @ ''T'' @ sd_At s"
  by (simp add: is_due_def stamp_of_def)

lemma sorted_distinct_adj: "sorted xs \<Longrightarrow> distinct (remdups_adj xs)"
proof (induction xs rule: remdups_adj.induct)
  case (3 x y xs)
  then show ?case by (auto simp: order_antisym)
qed simp_all

text \<open>
  C23. Over any sequence of ticks whose dates do not go back, the scheduler returns after each of them, and a schedule that has not fired
  yet fires exactly once on each day that has a tick at which it is due (enabled, at its hour and minute, on one of its weekdays,
  with a known action), however many ticks fall into that minute and whatever the fired actions do.
\<close>

theorem schedules_fire_once_a_day:
  assumes "counts_all (wm_router w)" "distinct (map sd_ID (wm_schedules w))" "s \<in> set (wm_schedules w)"
    and "gm_get (wm_lastFired w) (sd_ID s) = None" "sorted (map (wk_date \<circ> snd \<circ> snd) ticks)"
  shows "\<exists>w' days. tick_run ticks w = Some w' \<and> fired_of (sd_ID s) w' = fired_of (sd_ID s) w @ map (\<lambda>d. d @ ''T'' @ sd_At s) days
    \<and> distinct days \<and> set days = wk_date ` {c \<in> (snd \<circ> snd) ` set ticks. is_due c s}"
proof -
  define due where "due = filter (\<lambda>c. is_due c s) (map (snd \<circ> snd) ticks)"
  have no: "gm_at [] (wm_lastFired w) (sd_ID s) = []" by (simp add: gm_at_def assms(4))
  have st: "map stamp_of due = map (\<lambda>d. d @ ''T'' @ sd_At s) (map wk_date due)"
    using stamp_due by (auto simp: due_def)
  have inj: "inj (\<lambda>d. d @ ''T'' @ sd_At s)" by (simp add: inj_def)
  obtain w' where w': "tick_run ticks w = Some w'"
    "[] # drop (length (fired_of (sd_ID s) w)) (fired_of (sd_ID s) w') = remdups_adj ([] # map stamp_of due)"
    "take (length (fired_of (sd_ID s) w)) (fired_of (sd_ID s) w') = fired_of (sd_ID s) w"
    using tick_run_fires [OF assms(1-3), of ticks] unfolding no due_def by blast
  have "remdups_adj ([] # map stamp_of due) = [] # remdups_adj (map stamp_of due)"
    by (cases due) (auto simp: stamp_of_def)
  then have "drop (length (fired_of (sd_ID s) w)) (fired_of (sd_ID s) w') = map (\<lambda>d. d @ ''T'' @ sd_At s) (remdups_adj (map wk_date due))"
    using w'(2) unfolding st remdups_adj_map_injective [OF inj] by simp
  moreover have "distinct (remdups_adj (map wk_date due))"
  proof (rule sorted_distinct_adj)
    have "sorted (map wk_date (map (snd \<circ> snd) ticks))" using assms(5) by (simp add: comp_assoc)
    then show "sorted (map wk_date due)" unfolding due_def by (rule sorted_filter)
  qed
  moreover have "set (remdups_adj (map wk_date due)) = wk_date ` {c \<in> (snd \<circ> snd) ` set ticks. is_due c s}" by (auto simp: due_def)
  ultimately show ?thesis using w'(1,3) by (metis append_take_drop_id)
qed


section \<open>Examples\<close>

text \<open>A node, and a daily unload of one of its models.\<close>

definition demo_daily :: schedule where
  "demo_daily = \<lparr> sd_ID = ''s'', sd_Action = ''unload'', sd_Node = ''h'', sd_Models = [''m''], sd_At = ''09:00'', sd_Days = [], sd_Enabled = True,
     sd_LastRunAt = time_zero, sd_LastStatus = [], sd_LastError = NoNote \<rparr>"

definition demo_warm :: warming where
  "demo_warm = \<lparr> wm_router = demo_router [demo_config ''h'' ''u''],
     wm_config = \<lparr> wc_Enabled = False, wc_IntervalMs = 1000, wc_KeepAlive = ''10m'', wc_Models = [] \<rparr>, wm_schedules = [demo_daily],
     wm_lastFired = [], wm_inProgress = [], wm_errors = [], wm_unloadErrors = [], wm_warnings = [], wm_audit = [], wm_pings = [], wm_fired = [] \<rparr>"

definition demo_warm_env :: warm_env where
  "demo_warm_env = \<lparr> wv_tags = (\<lambda>_. None), wv_evict = (\<lambda>_ _ _. ([], True)), wv_ping = (\<lambda>_ _ _. PingOK), wv_unload = (\<lambda>_ _. True),
     wv_agent_unload = (\<lambda>_ _. True), wv_parse_duration = (\<lambda>x. if x = ''10m'' then Some (10 * minute) else Some (int (length x))),
     wv_show_duration = (\<lambda>d. replicate (nat d) CHR ''x'') \<rparr>"

lemma demo_warm_ok: "counts_all (wm_router demo_warm)" "distinct (map ns_Name (r_nodes (wm_router demo_warm)))"
  "distinct (map sd_ID (wm_schedules demo_warm))" "demo_daily \<in> set (wm_schedules demo_warm)" "gm_get (wm_lastFired demo_warm) (sd_ID demo_daily) = None"
  by (simp_all add: demo_warm_def counts_all_def counts_ok_def new_node_def set_probe_def demo_config_def zero_node_def)

lemma demo_warm_run: "map_option (\<lambda>(why, w'). (why, wm_pings w')) (WarmModels demo_warm_env 5 ''h'' [''m''] demo_warm)
   = Some (NoNote, [(''h'', ''/api/generate'', ''m'', ''10m'')])"
  by code_simp

lemma demo_durations: "\<forall>d > 0. wv_parse_duration demo_warm_env (wv_show_duration demo_warm_env d) = Some d"
proof (intro allI impI)
  fix d :: duration assume "d > 0"
  then have "replicate (nat d) CHR ''x'' \<noteq> ''10m''" by (cases "nat d") auto
  with \<open>d > 0\<close> show "wv_parse_duration demo_warm_env (wv_show_duration demo_warm_env d) = Some d" by (simp add: demo_warm_env_def)
qed

definition demo_tick :: "string \<Rightarrow> nat \<Rightarrow> nat \<Rightarrow> warm_env \<times> gotime \<times> wall_clock" where
  "demo_tick day h m = (demo_warm_env, 0, \<lparr> wk_date = day, wk_hour = h, wk_minute = m, wk_weekday = 1 \<rparr>)"

theorem schedules_fire_once_a_day_witness:
  "\<exists>w' days. tick_run [demo_tick ''2026-01-01'' 8 59, demo_tick ''2026-01-01'' 9 0, demo_tick ''2026-01-01'' 9 0, demo_tick ''2026-01-02'' 9 0] demo_warm = Some w'
     \<and> fired_of ''s'' w' = map (\<lambda>d. d @ ''T09:00'') days \<and> distinct days \<and> set days = {''2026-01-01'', ''2026-01-02''}"
proof -
  let ?ticks = "[demo_tick ''2026-01-01'' 8 59, demo_tick ''2026-01-01'' 9 0, demo_tick ''2026-01-01'' 9 0, demo_tick ''2026-01-02'' 9 0]"
  have sort: "sorted (map (wk_date \<circ> snd \<circ> snd) ?ticks)" by (simp add: demo_tick_def)
  have days: "map wk_date (filter (\<lambda>c. is_due c demo_daily) (map (snd \<circ> snd) ?ticks)) = [''2026-01-01'', ''2026-01-01'', ''2026-01-02'']"
    by code_simp
  have due: "wk_date ` {c \<in> (snd \<circ> snd) ` set ?ticks. is_due c demo_daily} = {''2026-01-01'', ''2026-01-02''}"
    using arg_cong [OF days, of set] by (simp only: set_map set_filter list.set insert_absorb2)
  show ?thesis using schedules_fire_once_a_day [OF demo_warm_ok(1,3-5) sort] unfolding due
    by (simp add: demo_daily_def demo_warm_def fired_of_def)
qed


text \<open>The node is asked to keep two models warm, one of them twice.\<close>

definition demo_keep :: warming where
  "demo_keep = demo_warm\<lparr> wm_router := (wm_router demo_warm)\<lparr> r_nodeWarmup := [(''h'', \<lparr> nw_Enabled = True, nw_Models = [''m'', ''x'', ''m''] \<rparr>)] \<rparr> \<rparr>"

lemma demo_keep_jobs: "fst (pingWarmupModels demo_keep) = [(''h'', [''m'', ''x''])]"
  by code_simp

theorem keep_warm_pass_safe_witness:
  "fst (pingWarmupModels demo_keep) = [(''h'', [''m'', ''x''])] \<and> gm_at False (wm_inProgress (snd (pingWarmupModels demo_keep))) ''h''
     \<and> wanted (wm_config demo_keep) (wm_router demo_keep) ''h'' ''x''"
proof -
  obtain w' where w': "pingWarmupModels demo_keep = ([(''h'', [''m'', ''x''])], w')" using demo_keep_jobs by (metis prod.collapse)
  from keep_warm_pass_safe [OF w'] show ?thesis using w' by simp
qed

end
