(* ===== verification/Predictive.thy ===== *)
theory Predictive
  imports Warming
begin

text \<open>
  The predictive prewarming engine (\<^verbatim>\<open>internal/router/predictive.go\<close>): the cycle that loads the likely next models, the
  time-of-day pass, the decision log and the accuracy counters.  The transition history it reads is recorded in \<open>Affinity\<close>.
  A cycle returns the prewarms it dispatches; they run after its decisions, each as \<open>prewarmPredicted\<close>.
\<close>

section \<open>State\<close>

record predictive_decision =
  pc_Timestamp :: gotime
  pc_PredictedModel :: string
  pc_TriggerModel :: string
  pc_Node :: string
  pc_WasAlreadyWarm :: bool
  pc_WarmupTriggered :: bool
  pc_TransitionCount :: nat
  pc_Hour :: int

record prediction =
  pd_warming :: warming
  pd_decisionLog :: "predictive_decision list"
  pd_madeTotal :: int
  pd_metTotal :: int
  pd_lastAccuracyLogAt :: gotime
  pd_lastTimeOfDayHour :: int

text \<open>The calendar: the hour of an instant in the configured zone, and its date in the location of that name.\<close>

record zone =
  zn_hour :: "gotime \<Rightarrow> int"
  zn_date :: "string \<Rightarrow> gotime \<Rightarrow> string"

text \<open>A dispatched prewarm: the node, the model, the keep-alive.\<close>

type_synonym prewarm = "node_state \<times> string \<times> string"

abbreviation pd_router :: "prediction \<Rightarrow> router" where
  "pd_router p \<equiv> wm_router (pd_warming p)"

definition upd_router :: "(router \<Rightarrow> router) \<Rightarrow> prediction \<Rightarrow> prediction" where
  "upd_router f p = p\<lparr> pd_warming := (pd_warming p)\<lparr> wm_router := f (pd_router p) \<rparr> \<rparr>"

definition maxDecisionLogSize :: nat where "maxDecisionLogSize = 50"

definition push_decision :: "predictive_decision \<Rightarrow> predictive_decision list \<Rightarrow> predictive_decision list" where
  "push_decision d ds =
     (let ds1 = ds @ [d] in if length ds1 > maxDecisionLogSize then drop (length ds1 - maxDecisionLogSize) ds1 else ds1)"

definition recordDecision :: "predictive_decision \<Rightarrow> prediction \<Rightarrow> prediction" where
  "recordDecision d p = p\<lparr> pd_decisionLog := push_decision d (pd_decisionLog p) \<rparr>"

section \<open>The cycle\<close>

text \<open>Predictions that have expired are counted and dropped; once an hour the ratio is logged.\<close>

definition cleanExpiredPredictions :: "gotime \<Rightarrow> prediction \<Rightarrow> prediction" where
  "cleanExpiredPredictions now p =
     (let expired = filter (\<lambda>a. now > ap_ExpiresAt a) (r_activePredictions (pd_router p));
          p1 = (upd_router (\<lambda>r. r\<lparr> r_activePredictions := filter (\<lambda>a. \<not> now > ap_ExpiresAt a) (r_activePredictions r) \<rparr>) p)
                 \<lparr> pd_madeTotal := pd_madeTotal p + int (length expired),
                   pd_metTotal := pd_metTotal p + int (length (filter ap_Met expired)) \<rparr>
      in if pd_madeTotal p1 > 0 \<and> now - pd_lastAccuracyLogAt p1 \<ge> 60 * minute then p1\<lparr> pd_lastAccuracyLogAt := now \<rparr> else p1)"

definition count_transition :: "transition_entry \<Rightarrow> (string, (string, nat) gomap) gomap \<Rightarrow> (string, (string, nat) gomap) gomap" where
  "count_transition e ts =
     (let next = gm_at [] ts (te_FromModel e) in gm_put (te_FromModel e) (gm_put (te_ToModel e) (gm_at 0 next (te_ToModel e) + 1) next) ts)"

definition transitions_at :: "int \<Rightarrow> transition_entry list \<Rightarrow> (string, (string, nat) gomap) gomap" where
  "transitions_at hour hist = fold count_transition (filter (\<lambda>e. te_HourOfDay e = hour) hist) []"

definition predictive_nodes :: "router \<Rightarrow> node_state list" where
  "predictive_nodes r =
     (let roles = fst (scheduling_roles (r_nodes r)) in
      filter (\<lambda>n. role_of roles (ns_Name n) \<noteq> RoleWorker \<and> role_of roles (ns_Name n) \<noteq> RoleUnresolved \<and> WarmupSupportedForRuntime (ns_Runtime n)
                \<and> ns_Healthy n \<and> \<not> ns_Draining n \<and> \<not> ns_PrewarmDisabled n) (r_nodes r))"

text \<open>The most frequent followers, most frequent first, equal ones by name.\<close>

definition top_followers :: "(string, nat) gomap \<Rightarrow> (string \<times> nat) list" where
  "top_followers nextCounts = take 3 (sort_key (\<lambda>(m, c). (- int c, m)) nextCounts)"

definition is_resident :: "node_state \<Rightarrow> string \<Rightarrow> bool" where
  "is_resident n model \<longleftrightarrow> list_ex (\<lambda>m. modelNamesMatchOnRuntime (ns_Runtime n) (mi_Name m) model) (ns_LoadedModels n)"

definition fits_free :: "warm_env \<Rightarrow> router \<Rightarrow> node_state \<Rightarrow> string \<Rightarrow> bool" where
  "fits_free env r n model =
     (let estSize = estimateModelSizeBytes (wv_tags env) r (ns_URL n) model True 0;
          freeBytes = (ns_VRAMTotalMB n - ns_VRAMUsedMB n) * 1024 * 1024
      in estSize > 0 \<and> freeBytes \<ge> estSize)"

text \<open>Neither suppressed by an operator nor already being loaded, and it fits.\<close>

definition may_prewarm :: "warm_env \<Rightarrow> gotime \<Rightarrow> router \<Rightarrow> node_state \<Rightarrow> string \<Rightarrow> bool" where
  "may_prewarm env now r n model \<longleftrightarrow>
     \<not> isWarmupSuppressed r (ns_Name n) model \<and> \<not> hasActiveWarmReservation now (ns_Name n) model r \<and> fits_free env r n model"

text \<open>One predicted model for one resident trigger; the planned pairs are the dispatched ones of this loop.\<close>

definition predict_one ::
  "warm_env \<Rightarrow> gotime \<Rightarrow> int \<Rightarrow> string \<Rightarrow> node_state \<times> string \<times> string \<times> nat \<Rightarrow> prewarm list \<times> prediction \<Rightarrow> prewarm list \<times> prediction" where
  "predict_one env now hour keepAlive = (\<lambda>(n, trigger, model, count) (planned, p).
     let r = pd_router p;
         wasAlreadyWarm = is_resident n model;
         alreadyPlanned = list_ex (\<lambda>(n', m', _). ns_Name n' = ns_Name n \<and> m' = model) planned;
         triggered = (\<not> wasAlreadyWarm \<and> \<not> alreadyPlanned \<and> may_prewarm env now r n model);
         p1 = (if triggered
               then upd_router (\<lambda>r. r\<lparr> r_activePredictions := r_activePredictions r
                      @ [\<lparr> ap_Model = model, ap_ExpiresAt = now + 10 * minute, ap_Met = False \<rparr>] \<rparr>) p
               else p)
     in (if triggered then planned @ [(n, model, keepAlive)] else planned,
         recordDecision \<lparr> pc_Timestamp = now, pc_PredictedModel = model, pc_TriggerModel = trigger, pc_Node = ns_Name n,
           pc_WasAlreadyWarm = wasAlreadyWarm, pc_WarmupTriggered = triggered, pc_TransitionCount = count, pc_Hour = hour \<rparr> p1))"

text \<open>The predictions of a cycle in the order of its loops.\<close>

definition predictions :: "(string, (string, nat) gomap) gomap \<Rightarrow> node_state list \<Rightarrow> (node_state \<times> string \<times> string \<times> nat) list" where
  "predictions transitions healthy =
     concat (map (\<lambda>n. concat (map (\<lambda>trigger. map (\<lambda>(model, count). (n, trigger, model, count)) (top_followers (gm_at [] transitions trigger)))
       (map mi_Name (ns_LoadedModels n)))) healthy)"

text \<open>
  The distinct days on which a model was asked for in the target hour.  An entry is dated in the location of its own time stamp: the configured
  zone for one recorded since the start, UTC for one loaded from the store.
\<close>

definition model_days :: "zone \<Rightarrow> int \<Rightarrow> transition_entry list \<Rightarrow> (string, string list) gomap" where
  "model_days zn targetHour hist =
     fold (\<lambda>e days. gm_put (te_ToModel e) (List.insert (zn_date zn (te_Location e) (te_Timestamp e)) (gm_at [] days (te_ToModel e))) days)
       (filter (\<lambda>e. te_HourOfDay e = targetHour \<and> te_ToModel e \<noteq> []) hist) []"

definition runTimeOfDayPrewarm :: "zone \<Rightarrow> warm_env \<Rightarrow> gotime \<Rightarrow> int \<Rightarrow> node_state list \<Rightarrow> string \<Rightarrow> prediction \<Rightarrow> prewarm list" where
  "runTimeOfDayPrewarm zn env now targetHour healthy keepAlive p =
     concat (map (\<lambda>(model, days).
         if length days \<ge> 3
         then map (\<lambda>n. (n, model, keepAlive)) (filter (\<lambda>n. \<not> is_resident n model \<and> may_prewarm env now (pd_router p) n model) healthy)
         else [])
       (model_days zn targetHour (r_predictiveHistory (pd_router p))))"

text \<open>The part of a cycle that follows the transitions: its dispatched loads are tracked as predictions.\<close>

definition predicted_loads :: "zone \<Rightarrow> warm_env \<Rightarrow> gotime \<Rightarrow> prediction \<Rightarrow> prewarm list \<times> prediction" where
  "predicted_loads zn env now p =
     (let r = pd_router p;
          transitions = transitions_at (zn_hour zn now) (r_predictiveHistory r)
      in fold (predict_one env now (zn_hour zn now) (warm_keepAlive env (pd_warming p))) (predictions transitions (predictive_nodes r)) ([], p))"

text \<open>\<open>disabled\<close>: the store holds the setting that turns the engine off.\<close>

definition RunPredictionCycle :: "zone \<Rightarrow> bool \<Rightarrow> warm_env \<Rightarrow> gotime \<Rightarrow> prediction \<Rightarrow> prewarm list \<times> prediction" where
  "RunPredictionCycle zn disabled env now p =
     (if disabled then ([], p)
      else
        let p1 = cleanExpiredPredictions now p;
            healthy = predictive_nodes (pd_router p1);
            keepAlive = warm_keepAlive env (pd_warming p1);
            targetHour = zn_hour zn (now + 10 * minute)
        in case predicted_loads zn env now p1 of
             (jobs, p2) \<Rightarrow>
               if pd_lastTimeOfDayHour p2 \<noteq> targetHour
               then (jobs @ runTimeOfDayPrewarm zn env now targetHour healthy keepAlive p2, p2\<lparr> pd_lastTimeOfDayHour := targetHour \<rparr>)
               else (jobs, p2))"

definition prewarmPredicted :: "warm_env \<Rightarrow> gotime \<Rightarrow> prewarm \<Rightarrow> prediction \<Rightarrow> prediction option" where
  "prewarmPredicted env now = (\<lambda>(n, model, keepAlive) p.
     map_option (\<lambda>(err, w). p\<lparr> pd_warming := (case err of None \<Rightarrow> w | Some _ \<Rightarrow> w\<lparr> wm_router := clearWarmReservation (ns_Name n) model (wm_router w) \<rparr>) \<rparr>)
       (loadWithHeadroom env now n model keepAlive (pd_warming p)))"

fun run_prewarms :: "warm_env \<Rightarrow> gotime \<Rightarrow> prewarm list \<Rightarrow> prediction \<Rightarrow> prediction option" where
  "run_prewarms env now [] p = Some p"
| "run_prewarms env now (j # js) p = Option.bind (prewarmPredicted env now j p) (run_prewarms env now js)"


text \<open>What the process does at its start with the transitions of the store: their hour is that of the configured zone, their time stamp stays in UTC.\<close>

definition load_transitions :: "zone \<Rightarrow> store_rows \<Rightarrow> router \<Rightarrow> router" where
  "load_transitions zn st r =
     (if sr_transitions st = [] then r
      else SeedPredictiveHistory
             (map (\<lambda>(fromModel, toModel, ts). \<lparr> te_FromModel = fromModel, te_ToModel = toModel, te_Timestamp = ts, te_Location = ''UTC'',
                te_HourOfDay = zn_hour zn ts \<rparr>) (sr_transitions st)) r)"

section \<open>Counting transitions and days\<close>

definition follows :: "transition_entry list \<Rightarrow> int \<Rightarrow> string \<Rightarrow> string \<Rightarrow> nat" where
  "follows hist hour W m = length (filter (\<lambda>e. te_HourOfDay e = hour \<and> te_FromModel e = W \<and> te_ToModel e = m) hist)"

lemma count_fold:
  "gm_at 0 (gm_at [] (fold count_transition es ts) W) m
     = gm_at 0 (gm_at [] ts W) m + length (filter (\<lambda>e. te_FromModel e = W \<and> te_ToModel e = m) es)"
proof (induction es arbitrary: ts)
  case (Cons e es)
  have "gm_at 0 (gm_at [] (count_transition e ts) W) m
     = gm_at 0 (gm_at [] ts W) m + (if te_FromModel e = W \<and> te_ToModel e = m then 1 else 0)"
    by (auto simp: count_transition_def Let_def gm_at_def gm_get_put)
  then show ?case using Cons.IH [of "count_transition e ts"] by simp
qed simp

lemma transitions_count: "gm_at 0 (gm_at [] (transitions_at hour hist) W) m = follows hist hour W m"
proof -
  have "gm_at 0 (gm_at [] ([] :: (string, (string, nat) gomap) gomap) W) m = 0" by (simp add: gm_at_def)
  then show ?thesis unfolding transitions_at_def count_fold by (simp add: follows_def conj_commute conj_left_commute)
qed

definition counts_pos :: "(string, (string, nat) gomap) gomap \<Rightarrow> bool" where
  "counts_pos ts \<longleftrightarrow> (\<forall>W. gm_wf (gm_at [] ts W) \<and> (\<forall>m c. gm_get (gm_at [] ts W) m = Some c \<longrightarrow> c > 0))"

lemma transitions_wf: "counts_pos (transitions_at hour hist)"
proof -
  have step: "counts_pos (count_transition e ts)" if "counts_pos ts" for e ts
    using that by (auto simp: counts_pos_def count_transition_def Let_def gm_at_def [of "[]"] gm_get_put split: option.splits)
  have "counts_pos (fold count_transition es ts)" if "counts_pos ts" for es ts
    using that by (induction es arbitrary: ts) (simp_all add: step)
  then show ?thesis by (simp add: transitions_at_def counts_pos_def [of "[]"] gm_at_def)
qed

text \<open>An element among the first three of a sorted list has fewer than three before it.\<close>

lemma take_sorted_rank:
  fixes f :: "'a \<Rightarrow> 'b :: linorder"
  assumes "x \<in> set (take k (sort_key f xs))"
  shows "x \<in> set xs \<and> card {y \<in> set xs. f y < f x} < k"
proof -
  let ?ys = "sort_key f xs"
  obtain i where i: "i < k" "i < length ?ys" "?ys ! i = x" using assms by (auto simp: in_set_conv_nth)
  have "{y \<in> set xs. f y < f x} \<subseteq> set (take i ?ys)"
  proof
    fix y assume "y \<in> {y \<in> set xs. f y < f x}"
    then have y: "y \<in> set ?ys" "f y < f (?ys ! i)" using i(3) by auto
    from y(1) [unfolded in_set_conv_nth] obtain j where j: "j < length ?ys" "?ys ! j = y" by blast
    have "j < i"
    proof (rule ccontr)
      assume "\<not> j < i"
      then have "map f ?ys ! i \<le> map f ?ys ! j" using sorted_nth_mono [of "map f ?ys" i j] j(1) by simp
      then show False using y(2) j i(2) by simp
    qed
    then show "y \<in> set (take i ?ys)" using j by (auto simp: in_set_conv_nth)
  qed
  then have "card {y \<in> set xs. f y < f x} \<le> card (set (take i ?ys))" by (intro card_mono) simp_all
  also have "\<dots> \<le> i" using card_length [of "take i ?ys"] by simp
  finally show ?thesis using i nth_mem [OF i(2)] by simp
qed

text \<open>The models that come before \<open>m\<close> among those that follow \<open>W\<close>.\<close>

definition ahead :: "transition_entry list \<Rightarrow> int \<Rightarrow> string \<Rightarrow> string \<Rightarrow> string set" where
  "ahead hist hour W m = {x. follows hist hour W x > follows hist hour W m \<or> follows hist hour W x = follows hist hour W m \<and> x < m}"

lemma top_followers_spec:
  assumes "(m, c) \<in> set (top_followers (gm_at [] (transitions_at hour hist) W))"
  shows "c = follows hist hour W m \<and> 0 < c \<and> card (ahead hist hour W m) < 3"
proof -
  let ?nc = "gm_at [] (transitions_at hour hist) W"
  let ?f = "\<lambda>(m, c :: nat). (- int c, m :: string)"
  have wf: "gm_wf ?nc" and pos: "\<And>x k. gm_get ?nc x = Some k \<Longrightarrow> k > 0" using transitions_wf [of hour hist] by (auto simp: counts_pos_def)
  have mem: "(x, k) \<in> set ?nc \<longleftrightarrow> k = follows hist hour W x \<and> 0 < k" for x k
  proof -
    have "(x, k) \<in> set ?nc \<longleftrightarrow> gm_get ?nc x = Some k" using wf by (auto simp: gm_wf_def dest: map_of_SomeD)
    then show ?thesis using transitions_count [of hour hist W x] pos [of x] by (cases "gm_get ?nc x") (auto simp: gm_at_def [of 0])
  qed
  from take_sorted_rank [of "(m, c)" 3 ?f ?nc] assms
  have r: "(m, c) \<in> set ?nc" "card {y \<in> set ?nc. ?f y < ?f (m, c)} < 3" by (simp_all add: top_followers_def)
  have c: "c = follows hist hour W m" "0 < c" using r(1) mem by simp_all
  have "ahead hist hour W m = fst ` {y \<in> set ?nc. ?f y < ?f (m, c)}"
  proof (intro set_eqI iffI)
    fix x assume "x \<in> ahead hist hour W m"
    then have "(x, follows hist hour W x) \<in> {y \<in> set ?nc. ?f y < ?f (m, c)}" using c mem by (auto simp: ahead_def less_prod_def)
    then show "x \<in> fst ` {y \<in> set ?nc. ?f y < ?f (m, c)}" by force
  qed (use c mem in \<open>auto simp: ahead_def less_prod_def\<close>)
  then have "card (ahead hist hour W m) \<le> card {y \<in> set ?nc. ?f y < ?f (m, c)}" by (simp add: card_image_le)
  then show ?thesis using r(2) c by simp
qed

definition asked_days :: "zone \<Rightarrow> int \<Rightarrow> transition_entry list \<Rightarrow> string \<Rightarrow> string set" where
  "asked_days zn hour hist m = {zn_date zn (te_Location e) (te_Timestamp e) | e. e \<in> set hist \<and> te_HourOfDay e = hour \<and> te_ToModel e = m}"

lemma days_fold:
  "gm_wf days \<Longrightarrow> (\<And>m. distinct (gm_at [] days m)) \<Longrightarrow>
   (let days' = fold (\<lambda>e days. gm_put (te_ToModel e) (List.insert (zn_date zn (te_Location e) (te_Timestamp e)) (gm_at [] days (te_ToModel e))) days) es days
    in gm_wf days' \<and> (\<forall>m. distinct (gm_at [] days' m) \<and> set (gm_at [] days' m) = set (gm_at [] days m) \<union> {zn_date zn (te_Location e) (te_Timestamp e) | e. e \<in> set es \<and> te_ToModel e = m}))"
proof (induction es arbitrary: days)
  case (Cons e es)
  let ?d = "gm_put (te_ToModel e) (List.insert (zn_date zn (te_Location e) (te_Timestamp e)) (gm_at [] days (te_ToModel e))) days"
  have at': "gm_at [] ?d m = (if m = te_ToModel e then List.insert (zn_date zn (te_Location e) (te_Timestamp e)) (gm_at [] days m) else gm_at [] days m)" for m
    by (simp add: gm_at_def gm_get_put)
  have "gm_wf ?d" "\<And>m. distinct (gm_at [] ?d m)" unfolding at' using Cons.prems by simp_all
  from Cons.IH [OF this] show ?case unfolding at' by (auto simp: Let_def)
qed (simp add: Let_def)

lemma model_days_spec:
  assumes "(m, days) \<in> set (model_days zn hour hist)" "days \<noteq> []"
  shows "length days = card (asked_days zn hour hist m)"
proof -
  let ?es = "filter (\<lambda>e. te_HourOfDay e = hour \<and> te_ToModel e \<noteq> []) hist"
  have "gm_wf (model_days zn hour hist)" and s: "distinct (gm_at [] (model_days zn hour hist) m)"
    "set (gm_at [] (model_days zn hour hist) m) = {zn_date zn (te_Location e) (te_Timestamp e) | e. e \<in> set ?es \<and> te_ToModel e = m}"
    using days_fold [of "[]" zn ?es] by (simp_all add: model_days_def Let_def gm_at_def [of _ "[]"])
  then have "gm_get (model_days zn hour hist) m = Some days" using assms by (simp add: gm_wf_def)
  then have d: "distinct days" "set days = {zn_date zn (te_Location e) (te_Timestamp e) | e. e \<in> set ?es \<and> te_ToModel e = m}" using s by simp_all
  have "m \<noteq> []" using assms(2) d(2) by (cases days) auto
  then have "set days = asked_days zn hour hist m" using d(2) by (auto simp: asked_days_def)
  then show ?thesis using distinct_card [OF d(1)] by simp
qed


section \<open>What a cycle dispatches\<close>

interpretation decisions: capped_history push_decision maxDecisionLogSize
proof
  fix ds :: "predictive_decision list" and d
  assume "length ds \<le> maxDecisionLogSize"
  then show "push_decision d ds = last_n maxDecisionLogSize (ds @ [d])" by (auto simp: push_decision_def last_n_def Let_def)
qed

text \<open>The decisions read nothing of the router that a dispatch changes.\<close>

lemma estimate_frame [simp]: "estimateModelSizeBytes tags (r\<lparr> r_activePredictions := a \<rparr>) url m fetch ctx = estimateModelSizeBytes tags r url m fetch ctx"
proof -
  have arch: "modelArchFactsFor (r\<lparr> r_activePredictions := a \<rparr>) = modelArchFactsFor r" by (rule ext) (simp add: modelArchFactsFor_def)
  have vram: "lastKnownVRAMBytes (r\<lparr> r_activePredictions := a \<rparr>) = lastKnownVRAMBytes r" by (intro ext) (simp add: lastKnownVRAMBytes_def)
  have nodes: "r_nodes (r\<lparr> r_activePredictions := a \<rparr>) = r_nodes r" by simp
  show ?thesis unfolding estimateModelSizeBytes_def estimateModelSize_def Let_def arch vram nodes by simp
qed

lemma may_prewarm_frame [simp]: "may_prewarm env now (r\<lparr> r_activePredictions := a \<rparr>) n m = may_prewarm env now r n m"
  by (simp add: may_prewarm_def fits_free_def isWarmupSuppressed_def suppressed_of_def hasActiveWarmReservation_def node_reservations_def)

text \<open>The predictions that the dispatched loads are tracked by.\<close>

definition tracked :: "gotime \<Rightarrow> prewarm list \<Rightarrow> active_prediction list" where
  "tracked now jobs = map (\<lambda>(n, model, _). \<lparr> ap_Model = model, ap_ExpiresAt = now + 10 * minute, ap_Met = False \<rparr>) jobs"

definition dispatched_ok :: "warm_env \<Rightarrow> gotime \<Rightarrow> string \<Rightarrow> (node_state \<times> string \<times> string \<times> nat) set \<Rightarrow> router \<Rightarrow> prewarm \<Rightarrow> bool" where
  "dispatched_ok env now keepAlive ps r = (\<lambda>(n, model, k).
     k = keepAlive \<and> \<not> is_resident n model \<and> may_prewarm env now r n model \<and> (\<exists>W c. (n, W, model, c) \<in> ps))"

abbreviation job_keys :: "prewarm list \<Rightarrow> (string \<times> string) list" where
  "job_keys jobs \<equiv> map (\<lambda>(n, model, _). (ns_Name n, model)) jobs"

definition dispatches :: "warm_env \<Rightarrow> gotime \<Rightarrow> string \<Rightarrow> (node_state \<times> string \<times> string \<times> nat) set \<Rightarrow> prewarm list \<Rightarrow> prewarm list \<times> prediction \<Rightarrow> prewarm list \<times> prediction \<Rightarrow> bool" where
  "dispatches env now keepAlive ps new s s' \<longleftrightarrow> fst s' = fst s @ new
     \<and> pd_warming (snd s') = (pd_warming (snd s))\<lparr> wm_router := (pd_router (snd s))\<lparr> r_activePredictions := r_activePredictions (pd_router (snd s)) @ tracked now new \<rparr> \<rparr>
     \<and> list_all (dispatched_ok env now keepAlive ps (pd_router (snd s))) new
     \<and> (distinct (job_keys (fst s)) \<longrightarrow> distinct (job_keys (fst s')))
     \<and> pd_madeTotal (snd s') = pd_madeTotal (snd s) \<and> pd_metTotal (snd s') = pd_metTotal (snd s)
     \<and> pd_lastTimeOfDayHour (snd s') = pd_lastTimeOfDayHour (snd s)
     \<and> (length (pd_decisionLog (snd s)) \<le> maxDecisionLogSize \<longrightarrow> length (pd_decisionLog (snd s')) \<le> maxDecisionLogSize)"

lemma dispatches_refl: "dispatches env now ka ps [] s s"
  by (simp add: dispatches_def tracked_def)

lemma dispatches_trans:
  assumes "dispatches env now ka ps n1 s1 s2" "dispatches env now ka ps n2 s2 s3"
  shows "dispatches env now ka ps (n1 @ n2) s1 s3"
proof -
  have "pd_router (snd s2) = (pd_router (snd s1))\<lparr> r_activePredictions := r_activePredictions (pd_router (snd s1)) @ tracked now n1 \<rparr>"
    using assms(1) by (simp add: dispatches_def)
  then have "dispatched_ok env now ka ps (pd_router (snd s2)) = dispatched_ok env now ka ps (pd_router (snd s1))"
    by (simp add: dispatched_ok_def)
  moreover have "distinct (job_keys (fst s1)) \<longrightarrow> distinct (job_keys (fst s3))" using assms unfolding dispatches_def by blast
  ultimately show ?thesis using assms unfolding dispatches_def tracked_def map_append list_all_append by (elim conjE) (intro conjI; simp)
qed

lemma predict_one_dispatches:
  assumes "(n, W, model, c) \<in> ps"
  shows "\<exists>new. dispatches env now ka ps new s (predict_one env now hour ka (n, W, model, c) s)"
proof -
  obtain planned p where s: "s = (planned, p)" by fastforce
  define go where "go = (\<not> is_resident n model \<and> \<not> list_ex (\<lambda>(n', m', _). ns_Name n' = ns_Name n \<and> m' = model) planned \<and> may_prewarm env now (pd_router p) n model)"
  have fresh: "(ns_Name n, model) \<notin> (\<lambda>(n, model, _). (ns_Name n, model)) ` set planned" if go
    using that by (auto simp: go_def list_ex_iff)
  have len: "length ds \<le> maxDecisionLogSize \<Longrightarrow> length (push_decision d ds) \<le> maxDecisionLogSize" for d ds
    by (rule decisions.push_bounded)
  have okj: "dispatched_ok env now ka ps (pd_router p) (n, model, ka)" if go
    using that assms by (auto simp: go_def dispatched_ok_def)
  have "dispatches env now ka ps (if go then [(n, model, ka)] else []) s (predict_one env now hour ka (n, W, model, c) s)"
    unfolding s predict_one_def prod.case Let_def go_def [symmetric]
    using fresh okj by (cases go) (simp_all add: dispatches_def recordDecision_def upd_router_def tracked_def len)
  then show ?thesis by blast
qed

lemma predict_fold_dispatches: "set xs \<subseteq> ps \<Longrightarrow> \<exists>new. dispatches env now ka ps new s (fold (predict_one env now hour ka) xs s)"
proof (induction xs arbitrary: s)
  case Nil
  then show ?case by (intro exI [of _ "[]"]) (simp add: dispatches_refl)
next
  case (Cons x xs)
  obtain n W model c where x: "x = (n, W, model, c)" by (metis prod.exhaust)
  obtain n1 where "dispatches env now ka ps n1 s (predict_one env now hour ka x s)" 
    using predict_one_dispatches [of n W model c ps env now ka s hour] Cons.prems by (auto simp: x)
  moreover obtain n2 where "dispatches env now ka ps n2 (predict_one env now hour ka x s) (fold (predict_one env now hour ka) xs (predict_one env now hour ka x s))"
    using Cons.IH [of "predict_one env now hour ka x s"] Cons.prems by (meson set_subset_Cons subset_trans)
  ultimately have "dispatches env now ka ps (n1 @ n2) s (fold (predict_one env now hour ka) (x # xs) s)" using dispatches_trans by simp
  then show ?case by (rule exI)
qed


lemma predicted_loads_dispatches:
  "\<exists>new. dispatches env now (warm_keepAlive env (pd_warming p))
     (set (predictions (transitions_at (zn_hour zn now) (r_predictiveHistory (pd_router p))) (predictive_nodes (pd_router p)))) new ([], p) (predicted_loads zn env now p)"
  unfolding predicted_loads_def Let_def by (rule predict_fold_dispatches) simp

lemma predictions_mem:
  "(n, W, m, c) \<in> set (predictions ts healthy) \<longleftrightarrow> n \<in> set healthy \<and> W \<in> mi_Name ` set (ns_LoadedModels n) \<and> (m, c) \<in> set (top_followers (gm_at [] ts W))"
  by (auto simp: predictions_def)

lemma clean_frame:
  "pd_warming (cleanExpiredPredictions now p) = (pd_warming p)\<lparr> wm_router := (pd_router p)\<lparr> r_activePredictions :=
     filter (\<lambda>a. \<not> now > ap_ExpiresAt a) (r_activePredictions (pd_router p)) \<rparr> \<rparr>"
  "pd_decisionLog (cleanExpiredPredictions now p) = pd_decisionLog p"
  by (simp_all add: cleanExpiredPredictions_def Let_def upd_router_def)

text \<open>The model is likely to be asked for next on the node: it is one of the three most frequent followers of a resident model at this hour.\<close>

definition likely_next :: "zone \<Rightarrow> gotime \<Rightarrow> transition_entry list \<Rightarrow> node_state \<Rightarrow> string \<Rightarrow> bool" where
  "likely_next zn now hist n model \<longleftrightarrow>
     (\<exists>W \<in> mi_Name ` set (ns_LoadedModels n). 0 < follows hist (zn_hour zn now) W model \<and> card (ahead hist (zn_hour zn now) W model) < 3)"

text \<open>It was asked for in the hour ten minutes ahead on at least three days, each request dated where its time stamp is.\<close>

definition habitual :: "zone \<Rightarrow> gotime \<Rightarrow> transition_entry list \<Rightarrow> string \<Rightarrow> bool" where
  "habitual zn now hist model \<longleftrightarrow> 3 \<le> card (asked_days zn (zn_hour zn (now + 10 * minute)) hist model)"

lemma time_jobs:
  assumes "(n, model, k) \<in> set (runTimeOfDayPrewarm zn env now hour healthy ka p)"
  shows "n \<in> set healthy \<and> \<not> is_resident n model \<and> may_prewarm env now (pd_router p) n model
    \<and> 3 \<le> card (asked_days zn hour (r_predictiveHistory (pd_router p)) model)"
proof -
  obtain days where d: "(model, days) \<in> set (model_days zn hour (r_predictiveHistory (pd_router p)))" "3 \<le> length days"
    "n \<in> set healthy" "\<not> is_resident n model" "may_prewarm env now (pd_router p) n model"
    using assms by (auto simp: runTimeOfDayPrewarm_def split: if_splits)
  then have "days \<noteq> []" by auto
  then show ?thesis using model_days_spec [OF d(1)] d by simp
qed

lemma fits_free_unfold: "may_prewarm env now r n model \<Longrightarrow> \<not> isWarmupSuppressed r (ns_Name n) model \<and> \<not> hasActiveWarmReservation now (ns_Name n) model r
  \<and> 0 < estimateModelSizeBytes (wv_tags env) r (ns_URL n) model True 0
  \<and> estimateModelSizeBytes (wv_tags env) r (ns_URL n) model True 0 \<le> (ns_VRAMTotalMB n - ns_VRAMUsedMB n) * 1024 * 1024"
  by (simp add: may_prewarm_def fits_free_def Let_def)

text \<open>
  C26. A prediction cycle dispatches a load only to a node of the fleet that is standalone or the head of its replica, supports the keep-alive request,
  is healthy, not draining and open to prewarming, and only for a model that is not resident there under any equivalent name, was not taken cold by
  an operator, is not being loaded already and whose known size fits the free memory.  The model is one of the three most frequent followers, at this
  hour, of a model resident on the node, or was asked for in the coming hour on at least three days; a day is the date of the request in the location
  its time stamp carries, the configured zone for a request of this run and UTC for one loaded from the store.  The log of decisions stays bounded.
\<close>

theorem prediction_cycle_safe:
  assumes "RunPredictionCycle zn disabled env now p = (jobs, p')" "(n, model, keepAlive) \<in> set jobs" "length (pd_decisionLog p) \<le> maxDecisionLogSize"
  shows "\<not> disabled \<and> n \<in> set (r_nodes (pd_router p)) \<and> ns_Healthy n \<and> \<not> ns_Draining n \<and> \<not> ns_PrewarmDisabled n \<and> WarmupSupportedForRuntime (ns_Runtime n)
    \<and> role_of (fst (scheduling_roles (r_nodes (pd_router p)))) (ns_Name n) \<in> {RoleStandalone, RoleHead}
    \<and> (\<forall>m \<in> set (ns_LoadedModels n). \<not> modelNamesMatchOnRuntime (ns_Runtime n) (mi_Name m) model)
    \<and> \<not> isWarmupSuppressed (pd_router p) (ns_Name n) model \<and> \<not> hasActiveWarmReservation now (ns_Name n) model (pd_router p)
    \<and> 0 < estimateModelSizeBytes (wv_tags env) (pd_router p) (ns_URL n) model True 0
    \<and> estimateModelSizeBytes (wv_tags env) (pd_router p) (ns_URL n) model True 0 \<le> (ns_VRAMTotalMB n - ns_VRAMUsedMB n) * 1024 * 1024
    \<and> (likely_next zn now (r_predictiveHistory (pd_router p)) n model \<or> habitual zn now (r_predictiveHistory (pd_router p)) model)
    \<and> keepAlive = warm_keepAlive env (pd_warming p) \<and> length (pd_decisionLog p') \<le> maxDecisionLogSize"
proof -
  define p1 where "p1 = cleanExpiredPredictions now p"
  have on: "\<not> disabled" using assms(1,2) by (auto simp: RunPredictionCycle_def)
  obtain first p2 where pl: "predicted_loads zn env now p1 = (first, p2)" by fastforce
  let ?ps = "predictions (transitions_at (zn_hour zn now) (r_predictiveHistory (pd_router p1))) (predictive_nodes (pd_router p1))"
  obtain new where "dispatches env now (warm_keepAlive env (pd_warming p1)) (set ?ps) new ([], p1) (first, p2)"
    using predicted_loads_dispatches [of env now p1 zn] unfolding pl by blast
  then have d: "list_all (dispatched_ok env now (warm_keepAlive env (pd_warming p1)) (set ?ps) (pd_router p1)) first"
    and p2: "pd_router p2 = (pd_router p1)\<lparr> r_activePredictions := r_activePredictions (pd_router p1) @ tracked now new \<rparr>"
    and len: "length (pd_decisionLog p1) \<le> maxDecisionLogSize \<longrightarrow> length (pd_decisionLog p2) \<le> maxDecisionLogSize"
    by (auto simp: dispatches_def)
  let ?time = "runTimeOfDayPrewarm zn env now (zn_hour zn (now + 10 * minute)) (predictive_nodes (pd_router p1)) (warm_keepAlive env (pd_warming p1)) p2"
  have run: "(jobs = first \<or> jobs = first @ ?time) \<and> pd_decisionLog p' = pd_decisionLog p2"
    using assms(1) on pl unfolding RunPredictionCycle_def p1_def [symmetric] Let_def by (auto split: if_splits)
  have r1: "pd_router p1 = (pd_router p)\<lparr> r_activePredictions := filter (\<lambda>a. \<not> now > ap_ExpiresAt a) (r_activePredictions (pd_router p)) \<rparr>"
    by (simp add: p1_def clean_frame)
  have ka: "warm_keepAlive env (pd_warming p1) = warm_keepAlive env (pd_warming p)" by (simp add: warm_keepAlive_def p1_def clean_frame)
  have nodes: "predictive_nodes (pd_router p1) = predictive_nodes (pd_router p)" by (simp add: predictive_nodes_def r1)
  have "n \<in> set (predictive_nodes (pd_router p)) \<and> \<not> is_resident n model \<and> may_prewarm env now (pd_router p) n model \<and> keepAlive = warm_keepAlive env (pd_warming p)
      \<and> (likely_next zn now (r_predictiveHistory (pd_router p)) n model \<or> habitual zn now (r_predictiveHistory (pd_router p)) model)"
  proof (cases "(n, model, keepAlive) \<in> set first")
    case True
    with d have ok: "dispatched_ok env now (warm_keepAlive env (pd_warming p1)) (set ?ps) (pd_router p1) (n, model, keepAlive)" by (simp add: list_all_iff)
    then obtain W c where "(n, W, model, c) \<in> set ?ps" by (auto simp: dispatched_ok_def)
    then have W: "n \<in> set (predictive_nodes (pd_router p))" "W \<in> mi_Name ` set (ns_LoadedModels n)"
      "(model, c) \<in> set (top_followers (gm_at [] (transitions_at (zn_hour zn now) (r_predictiveHistory (pd_router p))) W))"
      by (simp_all add: predictions_mem nodes [unfolded r1] r1)
    then show ?thesis using ok top_followers_spec [OF W(3)] by (auto simp: dispatched_ok_def ka r1 likely_next_def)
  next
    case False
    then have "(n, model, keepAlive) \<in> set ?time" using run assms(2) by auto
    from time_jobs [OF this] this show ?thesis by (auto simp: p2 r1 nodes [unfolded r1] habitual_def ka runTimeOfDayPrewarm_def split: if_splits)
  qed
  moreover have "role_of roles (ns_Name n) \<in> {RoleStandalone, RoleHead}" if "role_of roles (ns_Name n) \<noteq> RoleWorker" "role_of roles (ns_Name n) \<noteq> RoleUnresolved" for roles
    using that by (cases "role_of roles (ns_Name n)") auto
  ultimately show ?thesis using on run len assms(3) fits_free_unfold [of env now "pd_router p" n model]
    by (auto simp: predictive_nodes_def Let_def is_resident_def list_ex_iff p1_def clean_frame)
qed


section \<open>The accuracy counters\<close>

text \<open>
  What happens to the engine: a request for a model, a cycle, and any other change of the router that leaves the tracked predictions alone.
\<close>

datatype predict_event = Request string gotime | Cycle bool warm_env gotime | Other "router \<Rightarrow> router"

fun event_times :: "predict_event list \<Rightarrow> gotime list" where
  "event_times [] = []"
| "event_times (Request _ t # es) = t # event_times es"
| "event_times (Cycle _ _ t # es) = t # event_times es"
| "event_times (Other _ # es) = event_times es"

fun predict_step :: "zone \<Rightarrow> predict_event \<Rightarrow> prediction \<Rightarrow> prediction" where
  "predict_step zn (Request m t) p = upd_router (RecordTransition (zn_hour zn) m t) p"
| "predict_step zn (Cycle disabled env t) p = snd (RunPredictionCycle zn disabled env t p)"
| "predict_step zn (Other f) p = upd_router (\<lambda>r. (f r)\<lparr> r_activePredictions := r_activePredictions r \<rparr>) p"

text \<open>Whether the model is asked for up to the deadline in the rest of the events.\<close>

definition asked_by :: "predict_event list \<Rightarrow> string \<Rightarrow> gotime \<Rightarrow> bool" where
  "asked_by es m deadline \<longleftrightarrow> m \<noteq> [] \<and> list_ex (\<lambda>e. case e of Request x t \<Rightarrow> x = m \<and> t \<le> deadline | _ \<Rightarrow> False) es"

text \<open>Every prediction of a run with its deadline and whether it came true, by looking ahead; and the time of the last cycle.\<close>

fun outcomes :: "zone \<Rightarrow> predict_event list \<Rightarrow> prediction \<Rightarrow> (gotime \<times> bool) list" where
  "outcomes zn [] p = []"
| "outcomes zn (Cycle disabled env t # es) p =
     (if disabled then []
      else map (\<lambda>(_, m, _). (t + 10 * minute, asked_by es m (t + 10 * minute))) (fst (predicted_loads zn env t (cleanExpiredPredictions t p))))
     @ outcomes zn es (predict_step zn (Cycle disabled env t) p)"
| "outcomes zn (e # es) p = outcomes zn es (predict_step zn e p)"

fun last_cycle :: "predict_event list \<Rightarrow> gotime \<Rightarrow> gotime" where
  "last_cycle [] T = T"
| "last_cycle (Cycle disabled _ t # es) T = last_cycle es (if disabled then T else t)"
| "last_cycle (_ # es) T = last_cycle es T"

definition pending_outcomes :: "predict_event list \<Rightarrow> prediction \<Rightarrow> (gotime \<times> bool) list" where
  "pending_outcomes es p = map (\<lambda>a. (ap_ExpiresAt a, ap_Met a \<or> asked_by es (ap_Model a) (ap_ExpiresAt a))) (r_activePredictions (pd_router p))"

lemma asked_Cons: "asked_by (e # es) m d \<longleftrightarrow> (\<exists>t. e = Request m t \<and> m \<noteq> [] \<and> t \<le> d) \<or> asked_by es m d"
  by (cases e) (auto simp: asked_by_def)

lemma asked_late: "sorted (event_times es) \<Longrightarrow> (\<forall>t \<in> set (event_times es). d < t) \<Longrightarrow> \<not> asked_by es m d"
proof -
  assume late: "\<forall>t \<in> set (event_times es). d < t"
  have "Request m t \<in> set es \<Longrightarrow> t \<in> set (event_times es)" for t by (induction es rule: event_times.induct) auto
  then show "\<not> asked_by es m d" using late by (auto simp: asked_by_def list_ex_iff not_le split: predict_event.splits)
qed

lemma last_cycle_mono: "sorted (T # event_times es) \<Longrightarrow> T \<le> last_cycle es T"
proof (induction es arbitrary: T)
  case (Cons e es)
  show ?case
  proof (cases e)
    case (Cycle d env t)
    then show ?thesis using Cons.IH [of T] Cons.IH [of t] Cons.prems by auto
  qed (use Cons in auto)
qed simp

text \<open>How many of the outcomes are over at a time, and how many of those came true.\<close>

definition over :: "gotime \<Rightarrow> (gotime \<times> bool) list \<Rightarrow> int" where
  "over T xs = int (length (filter (\<lambda>(d, _). T > d) xs))"

definition came_true :: "gotime \<Rightarrow> (gotime \<times> bool) list \<Rightarrow> int" where
  "came_true T xs = int (length (filter (\<lambda>(d, ok). T > d \<and> ok) xs))"

lemma over_simps [simp]: "over T [] = 0" "over T (xs @ ys) = over T xs + over T ys" "came_true T [] = 0" "came_true T (xs @ ys) = came_true T xs + came_true T ys"
  by (simp_all add: over_def came_true_def)

lemma request_pending:
  "pending_outcomes es (predict_step zn (Request m t) p) = pending_outcomes (Request m t # es) p"
  "pd_madeTotal (predict_step zn (Request m t) p) = pd_madeTotal p" "pd_metTotal (predict_step zn (Request m t) p) = pd_metTotal p"
  "r_activePredictions (pd_router (predict_step zn (Request m t) p)) = map (\<lambda>a. if m \<noteq> [] \<and> ap_Model a = m \<and> \<not> t > ap_ExpiresAt a then a\<lparr> ap_Met := True \<rparr> else a) (r_activePredictions (pd_router p))"
proof -
  show act: "r_activePredictions (pd_router (predict_step zn (Request m t) p)) = map (\<lambda>a. if m \<noteq> [] \<and> ap_Model a = m \<and> \<not> t > ap_ExpiresAt a then a\<lparr> ap_Met := True \<rparr> else a) (r_activePredictions (pd_router p))"
    by (auto simp: upd_router_def RecordTransition_def Let_def)
  show "pending_outcomes es (predict_step zn (Request m t) p) = pending_outcomes (Request m t # es) p"
    unfolding pending_outcomes_def act by (auto simp: asked_Cons)
qed (simp_all add: upd_router_def)

lemma cycle_effect:
  assumes "\<not> disabled"
  shows "r_activePredictions (pd_router (predict_step zn (Cycle disabled env t) p))
      = filter (\<lambda>a. \<not> t > ap_ExpiresAt a) (r_activePredictions (pd_router p)) @ tracked t (fst (predicted_loads zn env t (cleanExpiredPredictions t p)))"
    "pd_madeTotal (predict_step zn (Cycle disabled env t) p) = pd_madeTotal p + int (length (filter (\<lambda>a. t > ap_ExpiresAt a) (r_activePredictions (pd_router p))))"
    "pd_metTotal (predict_step zn (Cycle disabled env t) p) = pd_metTotal p + int (length (filter (\<lambda>a. t > ap_ExpiresAt a \<and> ap_Met a) (r_activePredictions (pd_router p))))"
proof -
  define p1 where "p1 = cleanExpiredPredictions t p"
  obtain first p2 where pl: "predicted_loads zn env t p1 = (first, p2)" by fastforce
  obtain new where "dispatches env t (warm_keepAlive env (pd_warming p1)) (set (predictions (transitions_at (zn_hour zn t) (r_predictiveHistory (pd_router p1)))
      (predictive_nodes (pd_router p1)))) new ([], p1) (first, p2)"
    using predicted_loads_dispatches [of env t p1 zn] unfolding pl by blast
  then have d: "pd_router p2 = (pd_router p1)\<lparr> r_activePredictions := r_activePredictions (pd_router p1) @ tracked t first \<rparr>"
    "pd_madeTotal p2 = pd_madeTotal p1" "pd_metTotal p2 = pd_metTotal p1" by (auto simp: dispatches_def)
  have step: "pd_router (predict_step zn (Cycle disabled env t) p) = pd_router p2" "pd_madeTotal (predict_step zn (Cycle disabled env t) p) = pd_madeTotal p2"
    "pd_metTotal (predict_step zn (Cycle disabled env t) p) = pd_metTotal p2"
    using assms pl by (simp_all add: RunPredictionCycle_def p1_def [symmetric] Let_def)
  have "pd_router p1 = (pd_router p)\<lparr> r_activePredictions := filter (\<lambda>a. \<not> t > ap_ExpiresAt a) (r_activePredictions (pd_router p)) \<rparr>"
    by (simp add: p1_def clean_frame)
  then show "r_activePredictions (pd_router (predict_step zn (Cycle disabled env t) p))
      = filter (\<lambda>a. \<not> t > ap_ExpiresAt a) (r_activePredictions (pd_router p)) @ tracked t (fst (predicted_loads zn env t (cleanExpiredPredictions t p)))"
    unfolding step d(1) p1_def [symmetric] pl by simp
  show "pd_madeTotal (predict_step zn (Cycle disabled env t) p) = pd_madeTotal p + int (length (filter (\<lambda>a. t > ap_ExpiresAt a) (r_activePredictions (pd_router p))))"
    "pd_metTotal (predict_step zn (Cycle disabled env t) p) = pd_metTotal p + int (length (filter (\<lambda>a. t > ap_ExpiresAt a \<and> ap_Met a) (r_activePredictions (pd_router p))))"
    unfolding step d p1_def by (simp_all add: cleanExpiredPredictions_def Let_def conj_commute)
qed


lemma over_split:
  "over T (map g A) = over T (map g (filter (\<lambda>a. \<not> P a) A)) + over T (map g (filter P A))"
  "came_true T (map g A) = came_true T (map g (filter (\<lambda>a. \<not> P a) A)) + came_true T (map g (filter P A))"
  by (induction A) (simp_all add: over_def came_true_def)

lemma over_expired:
  assumes "t \<le> L" "sorted (t # event_times es)"
  shows "over L (map (\<lambda>a. (ap_ExpiresAt a, ap_Met a \<or> asked_by es (ap_Model a) (ap_ExpiresAt a))) (filter (\<lambda>a. t > ap_ExpiresAt a) A))
      = int (length (filter (\<lambda>a. t > ap_ExpiresAt a) A))"
    "came_true L (map (\<lambda>a. (ap_ExpiresAt a, ap_Met a \<or> asked_by es (ap_Model a) (ap_ExpiresAt a))) (filter (\<lambda>a. t > ap_ExpiresAt a) A))
      = int (length (filter (\<lambda>a. t > ap_ExpiresAt a \<and> ap_Met a) A))"
proof -
  have "\<not> asked_by es m d" if "t > d" for m d using asked_late [of es d m] assms(2) that by fastforce
  then show "over L (map (\<lambda>a. (ap_ExpiresAt a, ap_Met a \<or> asked_by es (ap_Model a) (ap_ExpiresAt a))) (filter (\<lambda>a. t > ap_ExpiresAt a) A))
      = int (length (filter (\<lambda>a. t > ap_ExpiresAt a) A))"
    "came_true L (map (\<lambda>a. (ap_ExpiresAt a, ap_Met a \<or> asked_by es (ap_Model a) (ap_ExpiresAt a))) (filter (\<lambda>a. t > ap_ExpiresAt a) A))
      = int (length (filter (\<lambda>a. t > ap_ExpiresAt a \<and> ap_Met a) A))"
    using assms(1) by (induction A) (auto simp: over_def came_true_def)
qed

lemma accuracy_run:
  assumes "sorted (T # event_times es)" "\<forall>a \<in> set (r_activePredictions (pd_router p)). \<not> T > ap_ExpiresAt a"
  shows "pd_madeTotal (fold (predict_step zn) es p) = pd_madeTotal p + over (last_cycle es T) (pending_outcomes es p @ outcomes zn es p)
    \<and> pd_metTotal (fold (predict_step zn) es p) = pd_metTotal p + came_true (last_cycle es T) (pending_outcomes es p @ outcomes zn es p)"
  using assms
proof (induction es arbitrary: p T)
  case Nil
  then show ?case by (auto simp: over_def came_true_def pending_outcomes_def filter_empty_conv)
next
  case (Cons e es)
  show ?case
  proof (cases e)
    case (Request m t)
    have "\<forall>a \<in> set (r_activePredictions (pd_router (predict_step zn (Request m t) p))). \<not> T > ap_ExpiresAt a"
      using Cons.prems(2) unfolding request_pending(4) by auto
    moreover have "sorted (T # event_times es)" using Cons.prems(1) by (auto simp: Request)
    ultimately show ?thesis using Cons.IH [of T "predict_step zn (Request m t) p"]
      by (simp add: Request request_pending(1-3) del: predict_step.simps)
  next
    case (Other f)
    let ?p = "predict_step zn (Other f) p"
    have p: "r_activePredictions (pd_router ?p) = r_activePredictions (pd_router p)" "pd_madeTotal ?p = pd_madeTotal p" "pd_metTotal ?p = pd_metTotal p"
      by (simp_all add: upd_router_def)
    have "pending_outcomes es ?p = pending_outcomes (Other f # es) p" unfolding pending_outcomes_def p(1) by (simp add: asked_Cons)
    then show ?thesis using Cons.IH [of T ?p] Cons.prems unfolding p by (simp add: Other p del: predict_step.simps)
  next
    case (Cycle disabled env t)
    have asked: "asked_by (Cycle disabled env t # es) = asked_by es" by (intro ext) (simp add: asked_Cons)
    show ?thesis
    proof (cases disabled)
      case True
      then have "predict_step zn (Cycle disabled env t) p = p" by (simp add: RunPredictionCycle_def)
      moreover have "pending_outcomes (Cycle disabled env t # es) p = pending_outcomes es p" unfolding pending_outcomes_def asked ..
      moreover have "sorted (T # event_times es)" using Cons.prems(1) by (auto simp: Cycle)
      ultimately show ?thesis using Cons.IH [of T p] Cons.prems(2) True by (simp add: Cycle del: predict_step.simps)
    next
      case off: False
      then have e: "e = Cycle False env t" using Cycle by simp
      let ?p = "predict_step zn (Cycle False env t) p" let ?A = "r_activePredictions (pd_router p)"
      let ?new = "fst (predicted_loads zn env t (cleanExpiredPredictions t p))" let ?L = "last_cycle es t"
      let ?g = "\<lambda>a. (ap_ExpiresAt a, ap_Met a \<or> asked_by es (ap_Model a) (ap_ExpiresAt a))"
      note eff = cycle_effect [of False zn env t p, simplified simp_thms(8) True_implies_equals]
      have st: "sorted (t # event_times es)" using Cons.prems(1) by (simp add: e)
      have L: "t \<le> ?L" by (rule last_cycle_mono [OF st])
      have "\<forall>a \<in> set (r_activePredictions (pd_router ?p)). \<not> t > ap_ExpiresAt a"
        unfolding eff(1) by (auto simp: tracked_def duration_defs)
      note IH = Cons.IH [OF st this]
      have new: "map ?g (tracked t ?new) = map (\<lambda>(_, m, _). (t + 10 * minute, asked_by es m (t + 10 * minute))) ?new"
        by (simp add: tracked_def case_prod_beta)
      have pend: "pending_outcomes es ?p = map ?g (filter (\<lambda>a. \<not> t > ap_ExpiresAt a) ?A)
          @ map (\<lambda>(_, m, _). (t + 10 * minute, asked_by es m (t + 10 * minute))) ?new"
        unfolding pending_outcomes_def eff(1) map_append new ..
      have all: "pending_outcomes (Cycle False env t # es) p = map ?g ?A" unfolding pending_outcomes_def by (simp add: asked_Cons)
      note sp = over_split [of ?L ?g ?A "\<lambda>a. t > ap_ExpiresAt a", unfolded over_expired [OF L st]]
      show ?thesis using IH eff(2,3) sp unfolding e all by (simp add: pend del: predict_step.simps)
    qed
  qed
qed

text \<open>
  C25. The accuracy counters are exact.  Over any sequence of requests, cycles and other changes of the router, in order of time, starting without
  tracked predictions, the number of predictions made is the number of tracked loads whose ten minutes are over at the last cycle, and the number met is
  how many of those models were asked for within their ten minutes.  So the ratio that is reported never exceeds one.
\<close>

theorem prediction_accuracy_exact:
  assumes "sorted (T # event_times es)" "r_activePredictions (pd_router p) = []" "pd_madeTotal p = 0" "pd_metTotal p = 0"
    and "p' = fold (predict_step zn) es p"
  shows "pd_madeTotal p' = over (last_cycle es T) (outcomes zn es p) \<and> pd_metTotal p' = came_true (last_cycle es T) (outcomes zn es p)
    \<and> 0 \<le> pd_metTotal p' \<and> pd_metTotal p' \<le> pd_madeTotal p'"
proof -
  have "pending_outcomes es p = []" by (simp add: pending_outcomes_def assms(2))
  moreover have "came_true U xs \<le> over U xs \<and> 0 \<le> came_true U xs" for U xs
    by (induction xs) (auto simp: over_def came_true_def)
  ultimately show ?thesis using accuracy_run [of T es p zn] assms by simp
qed


section \<open>Examples\<close>

text \<open>A node with \<open>a\<close> resident, where \<open>b\<close> has followed \<open>a\<close> once at this hour.\<close>

definition demo_zone :: zone where
  "demo_zone = \<lparr> zn_hour = (\<lambda>_. 9), zn_date = (\<lambda>_ _. ''2026-01-01'') \<rparr>"

definition demo_host :: node_state where
  "demo_host = (new_node plain_lib 0 (demo_config ''h'' ''u''))\<lparr> ns_VRAMTotalMB := 9000,
     ns_LoadedModels := [\<lparr> mi_Name = ''a'', mi_SizeVRAM = 1, mi_Digest = [], mi_sizeAttributed = False \<rparr>] \<rparr>"

definition demo_prediction :: prediction where
  "demo_prediction = \<lparr> pd_warming = demo_warm\<lparr> wm_router := (demo_router [])\<lparr> r_nodes := [demo_host], r_lastKnownVRAM := [(modelKey ''h'' ''b'', 1)],
       r_predictiveHistory := [\<lparr> te_FromModel = ''a'', te_ToModel = ''b'', te_Timestamp = 0, te_Location = ''Local'', te_HourOfDay = 9 \<rparr>] \<rparr> \<rparr>,
     pd_decisionLog = [], pd_madeTotal = 0, pd_metTotal = 0, pd_lastAccuracyLogAt = 0, pd_lastTimeOfDayHour = 9 \<rparr>"

lemma demo_cycle: "fst (RunPredictionCycle demo_zone False demo_warm_env 5 demo_prediction) = [(demo_host, ''b'', ''10m'')]"
  by code_simp

theorem prediction_cycle_safe_witness:
  "fst (RunPredictionCycle demo_zone False demo_warm_env 5 demo_prediction) = [(demo_host, ''b'', ''10m'')]
     \<and> (likely_next demo_zone 5 (r_predictiveHistory (pd_router demo_prediction)) demo_host ''b'' \<or> habitual demo_zone 5 (r_predictiveHistory (pd_router demo_prediction)) ''b'')
     \<and> length (pd_decisionLog (snd (RunPredictionCycle demo_zone False demo_warm_env 5 demo_prediction))) \<le> 50"
proof -
  obtain p' where run: "RunPredictionCycle demo_zone False demo_warm_env 5 demo_prediction = ([(demo_host, ''b'', ''10m'')], p')"
    using demo_cycle by (metis prod.collapse)
  have "length (pd_decisionLog demo_prediction) \<le> maxDecisionLogSize" by (simp add: demo_prediction_def)
  from prediction_cycle_safe [OF run _ this, of demo_host "''b''" "''10m''"] show ?thesis
    unfolding run by (simp add: maxDecisionLogSize_def)
qed

text \<open>The load of \<open>b\<close> is predicted, \<open>b\<close> is asked for, and the next cycle counts a prediction that came true.\<close>

definition demo_events :: "predict_event list" where
  "demo_events = [Cycle False demo_warm_env 5, Request ''b'' 6, Cycle False demo_warm_env (20 * minute)]"

lemma demo_outcomes: "outcomes demo_zone demo_events demo_prediction = [(600000000005, True), (1800000000000, False)]"
  by code_simp

theorem prediction_accuracy_exact_witness:
  "pd_madeTotal (fold (predict_step demo_zone) demo_events demo_prediction) = 1 \<and> pd_metTotal (fold (predict_step demo_zone) demo_events demo_prediction) = 1"
proof -
  have "sorted (0 # event_times demo_events)" "r_activePredictions (pd_router demo_prediction) = []" "pd_madeTotal demo_prediction = 0" "pd_metTotal demo_prediction = 0"
    by (simp_all add: demo_events_def demo_prediction_def demo_router_def New_def Let_def duration_defs)
  from prediction_accuracy_exact [OF this refl, of demo_zone] show ?thesis
    unfolding demo_outcomes by (simp add: demo_events_def over_def came_true_def duration_defs)
qed

text \<open>
  The pairs planned by the first part of a cycle are not shown to the time-of-day part, so one cycle can dispatch the same load twice.
\<close>

definition demo_habit :: prediction where
  "demo_habit = demo_prediction\<lparr> pd_warming := (pd_warming demo_prediction)\<lparr> wm_router := (pd_router demo_prediction)\<lparr> r_predictiveHistory :=
     map (\<lambda>t. \<lparr> te_FromModel = ''a'', te_ToModel = ''b'', te_Timestamp = t, te_Location = ''Local'', te_HourOfDay = 9 \<rparr>) [0, 1, 2] \<rparr> \<rparr>, pd_lastTimeOfDayHour := 8 \<rparr>"

lemma cycle_can_repeat:
  "map (\<lambda>(n, m, _). (ns_Name n, m)) (fst (RunPredictionCycle (demo_zone\<lparr> zn_date := (\<lambda>_ t. replicate (nat t) CHR ''d'') \<rparr>) False demo_warm_env 5 demo_habit))
     = [(''h'', ''b''), (''h'', ''b'')]"
  by code_simp

text \<open>
  A transition is recorded in the configured zone but comes back from the store in UTC.  East of Greenwich a restart between two requests of one
  morning makes two days of it.
\<close>

definition tokyo :: zone where
  "tokyo = \<lparr> zn_hour = (\<lambda>t. (t div (60 * minute) + 9) mod 24),
     zn_date = (\<lambda>location t. replicate (nat ((t div (60 * minute) + (if location = ''Asia/Tokyo'' then 9 else 0)) div 24)) CHR ''d'') \<rparr>"

definition tokyo_router :: router where
  "tokyo_router = SetTimezone ''Asia/Tokyo'' ((demo_router [])\<lparr> r_store := Some \<lparr> sr_warm = [], sr_affinity = [], sr_transitions = [], sr_drains = [] \<rparr> \<rparr>)"

lemma restart_splits_a_day:
  defines "morning \<equiv> RecordTransition (zn_hour tokyo) ''b'' (23 * 60 * minute + 30 * minute) tokyo_router"
  shows "let later = 23 * 60 * minute + 40 * minute;
             kept = RecordTransition (zn_hour tokyo) ''b'' later morning;
             restarted = RecordTransition (zn_hour tokyo) ''b'' later (load_transitions tokyo (the (r_store morning)) tokyo_router)
         in map te_HourOfDay (r_predictiveHistory restarted) = [8, 8]
            \<and> map length (map snd (model_days tokyo 8 (r_predictiveHistory kept))) = [1]
            \<and> map length (map snd (model_days tokyo 8 (r_predictiveHistory restarted))) = [2]"
  unfolding morning_def by code_simp

end
