(* ===== verification/Request_Body.thy ===== *)
theory Request_Body
  imports Auth Go_Strings
begin

text \<open>
  What the proxy reads in a request before it routes it (\<^verbatim>\<open>internal/proxy/proxy.go\<close>, \<^verbatim>\<open>ExtractModelName\<close> of
  \<^verbatim>\<open>internal/router/router.go\<close>) and the model profiles it overlays on the body (\<^verbatim>\<open>internal/proxy/model_config.go\<close>,
  \<^verbatim>\<open>internal/store/model_config_capabilities.go\<close>).  Bodies are JSON values as \<^verbatim>\<open>encoding/json\<close> decodes them; a Go map
  that is nil is told from an empty one, since writing to it panics.
\<close>

section \<open>JSON bodies\<close>

text \<open>Objects keep their fields in the order of the text, duplicates included.  Numbers are kept as text.\<close>

datatype json = JNull | JBool bool | JNum string | JStr string | JArr "json list" | JObj "(string \<times> json) list"

text \<open>A body is one JSON value, or bytes that are not (empty, truncated, trailing data, plain text).\<close>

datatype body = Parsed json | Broken string

text \<open>\<^verbatim>\<open>strings.EqualFold\<close> with an ASCII word that has neither k nor s, the only letters with non-ASCII case variants.\<close>

definition equal_fold :: "string \<Rightarrow> string \<Rightarrow> bool" where
  "equal_fold key word \<longleftrightarrow> map lower_ascii key = word"

text \<open>Decoding into a struct with one string field: the last matching key wins, null leaves it, another type is an error.\<close>

definition decode_string :: "string \<Rightarrow> (string \<times> json) list \<Rightarrow> string option" where
  "decode_string name fs =
     fold (\<lambda>(k, v) acc. if equal_fold k name then (case v of JStr s \<Rightarrow> map_option (\<lambda>_. s) acc | JNull \<Rightarrow> acc | _ \<Rightarrow> None) else acc) fs (Some [])"

definition ExtractModelName :: "body \<Rightarrow> string" where
  "ExtractModelName b = (case b of Parsed (JObj fs) \<Rightarrow> (case decode_string ''model'' fs of Some m \<Rightarrow> m | None \<Rightarrow> []) | _ \<Rightarrow> [])"

definition maxBodyJSONDepth :: nat where "maxBodyJSONDepth = 1000"
definition maxModelNameBytes :: nat where "maxModelNameBytes = 256"

text \<open>How deep the brackets of a value nest.\<close>

fun json_depth :: "json \<Rightarrow> nat" where
  "json_depth (JArr vs) = Suc (fold (\<lambda>v d. max (json_depth v) d) vs 0)"
| "json_depth (JObj fs) = Suc (fold (\<lambda>(k, v) d. max (json_depth v) d) fs 0)"
| "json_depth _ = 0"

definition skipJSONValue :: "json \<Rightarrow> bool" where
  "skipJSONValue v \<longleftrightarrow> json_depth v \<le> maxBodyJSONDepth"

datatype body_problem = InvalidJSON | AmbiguousModel

fun model_field_loop :: "(string \<times> json) list \<Rightarrow> nat \<Rightarrow> body_problem option" where
  "model_field_loop [] exact = None"
| "model_field_loop ((k, v) # fs) exact =
     (if k = ''model'' then
        (if exact + 1 > 1 then Some AmbiguousModel
         else if \<not> skipJSONValue v then Some InvalidJSON else model_field_loop fs (exact + 1))
      else if equal_fold k ''model'' then Some AmbiguousModel
      else if \<not> skipJSONValue v then Some InvalidJSON else model_field_loop fs exact)"

text \<open>Bytes that start an object but are not one are refused; which of the two reasons is given first is not modelled for them.\<close>

definition modelFieldProblem :: "body \<Rightarrow> body_problem option" where
  "modelFieldProblem b =
     (case b of
        Parsed (JObj fs) \<Rightarrow> model_field_loop fs 0
      | Parsed _ \<Rightarrow> None
      | Broken s \<Rightarrow> (case dropWhile (\<lambda>c. c \<in> {CHR '' '', CHR 0x09, CHR 0x0A, CHR 0x0D}) s of
                      c # _ \<Rightarrow> if c = CHR ''{'' then Some InvalidJSON else None | [] \<Rightarrow> None))"

text \<open>Decoding into a map and encoding it again with its keys in order.\<close>

definition decode_map :: "(string \<times> json) list \<Rightarrow> (string, json) gomap" where
  "decode_map fs = fold (\<lambda>(k, v). gm_put k v) fs []"

definition marshal_map :: "(string, json) gomap \<Rightarrow> json" where
  "marshal_map m = JObj (sort_key fst m)"

text \<open>\<open>None\<close> is the panic of writing to the nil map that the body \<^verbatim>\<open>null\<close> decodes to.\<close>

definition rewriteModelField :: "body \<Rightarrow> string \<Rightarrow> body option" where
  "rewriteModelField b model =
     (case b of
        Parsed (JObj fs) \<Rightarrow>
          Some (Parsed (marshal_map (gm_put ''model'' (JStr model)
            (gm_remove_if (\<lambda>k _. k \<noteq> ''model'' \<and> equal_fold k ''model'') (decode_map fs)))))
      | Parsed JNull \<Rightarrow> None
      | _ \<Rightarrow> Some b)"

definition rewritePromptToInput :: "body \<Rightarrow> body" where
  "rewritePromptToInput b =
     (case b of
        Parsed (JObj fs) \<Rightarrow>
          (let m = decode_map fs in
           case gm_get m ''prompt'' of
             None \<Rightarrow> b
           | Some prompt \<Rightarrow> Parsed (marshal_map (gm_del ''prompt'' (if gm_get m ''input'' = None then gm_put ''input'' prompt m else m))))
      | _ \<Rightarrow> b)"

section \<open>Paths and headers\<close>

definition isBlockedManagementPath :: "string \<Rightarrow> bool" where
  "isBlockedManagementPath path0 \<longleftrightarrow>
     (let path = trim_right_char CHR ''/'' path0 in
      path \<in> {''/api/delete'', ''/api/pull'', ''/api/push'', ''/api/create'', ''/api/copy'', ''/api/blobs''} \<or> has_prefix path ''/api/blobs/'')"

definition isUnsupportedOpenAIPath :: "string \<Rightarrow> bool" where
  "isUnsupportedOpenAIPath path \<longleftrightarrow>
     list_ex (\<lambda>base. path = base \<or> has_prefix path (base @ ''/''))
       [''/v1/images'', ''/v1/audio'', ''/v1/fine-tuning'', ''/v1/fine_tuning'', ''/v1/files'', ''/v1/uploads'', ''/v1/assistants'', ''/v1/threads'',
        ''/v1/batches'', ''/v1/vector-stores'', ''/v1/vector_stores'', ''/v1/responses'', ''/v1/evals'']
     \<or> path = ''/v1/moderations''"

definition isOllamaPath :: "string \<Rightarrow> bool" where
  "isOllamaPath path \<longleftrightarrow> has_prefix path ''/api/''"

definition translateCloudPath :: "string \<Rightarrow> string" where
  "translateCloudPath path =
     (if path = ''/api/chat'' then ''/v1/chat/completions''
      else if path = ''/api/generate'' then ''/v1/completions''
      else if path = ''/api/embeddings'' then ''/v1/embeddings''
      else if path = ''/api/embed'' then ''/v1/embeddings''
      else path)"

text \<open>
  \<^verbatim>\<open>path.Clean\<close>: empty and dot segments go, a double dot takes its predecessor with it; where there is none it goes in a rooted path and stays in
  another.
\<close>

fun clean_segments :: "bool \<Rightarrow> string list \<Rightarrow> string list \<Rightarrow> string list" where
  "clean_segments rooted done [] = rev done"
| "clean_segments rooted done (s # ss) =
     (if s = [] \<or> s = ''.'' then clean_segments rooted done ss
      else if s = ''..'' then
        (if done \<noteq> [] \<and> hd done \<noteq> ''..'' then clean_segments rooted (tl done) ss
         else if rooted then clean_segments rooted done ss
         else clean_segments rooted (s # done) ss)
      else clean_segments rooted (s # done) ss)"

fun join_slash :: "string list \<Rightarrow> string" where
  "join_slash [] = []"
| "join_slash [s] = s"
| "join_slash (s # ss) = s @ ''/'' @ join_slash ss"

definition clean_path :: "string \<Rightarrow> string" where
  "clean_path p =
     (let rooted = (p \<noteq> [] \<and> hd p = CHR ''/'');
          ss = clean_segments rooted [] (split_char CHR ''/'' p)
      in if rooted then ''/'' @ join_slash ss else if ss = [] then ''.'' else join_slash ss)"

definition canonicalPath :: "string \<Rightarrow> string" where
  "canonicalPath p =
     (if p = [] then p
      else let cleaned = clean_path p in if last p = CHR ''/'' \<and> cleaned \<noteq> ''/'' then cleaned @ ''/'' else cleaned)"

definition hasNonIdentityEncoding :: "string list \<Rightarrow> bool" where
  "hasNonIdentityEncoding vals \<longleftrightarrow>
     list_ex (\<lambda>line. list_ex (\<lambda>v0. let v = TrimSpace v0 in v \<noteq> [] \<and> \<not> equal_fold v ''identity'') (split_char CHR '','' line)) vals"

section \<open>Model profiles\<close>

text \<open>
  The optional fields of \<^verbatim>\<open>ModelConfig\<close> that are set, by their JSON key, with their encoded values; the orchestration fields apart.
\<close>

record model_config =
  mc_fields :: "(string, json) gomap"
  mc_System :: "string option"
  mc_Template :: "string option"
  mc_TTL :: "json option"
  mc_RPM :: "int option"
  mc_TPM :: "int option"

definition setIfAbsent_json :: "string \<Rightarrow> json \<Rightarrow> (string, json) gomap \<Rightarrow> (string, json) gomap" where
  "setIfAbsent_json key val m = (if gm_get m key \<noteq> None then m else gm_put key val m)"

text \<open>A table of injections: the key on the wire and the field it carries.\<close>

definition inject_table :: "(string \<times> string) list \<Rightarrow> model_config \<Rightarrow> (string, json) gomap \<Rightarrow> (string, json) gomap" where
  "inject_table table cfg =
     fold (\<lambda>(wire, field) m. case gm_get (mc_fields cfg) field of None \<Rightarrow> m | Some v \<Rightarrow> setIfAbsent_json wire v m) table"

definition ollama_table :: "(string \<times> string) list" where
  "ollama_table =
     map (\<lambda>f. (f, f)) [''num_ctx'', ''num_gpu'', ''main_gpu'', ''num_batch'', ''num_thread'', ''use_mmap'', ''draft_num_predict'',
       ''temperature'', ''top_p'', ''top_k'', ''min_p'', ''typical_p'', ''num_keep'']
     @ [(''num_predict'', ''max_tokens'')]
     @ map (\<lambda>f. (f, f)) [''seed'', ''stop'', ''repeat_penalty'', ''repeat_last_n'', ''presence_penalty'', ''frequency_penalty'']"

definition openai_table :: "string \<Rightarrow> (string \<times> string) list" where
  "openai_table runtime =
     map (\<lambda>f. (f, f)) ([''temperature'', ''top_p'', ''max_tokens''] @ (if runtime = ''mlx'' then [] else [''seed'']) @ [''stop'', ''presence_penalty'', ''frequency_penalty''])"

definition OpenAICompatBaseFields :: "string list" where
  "OpenAICompatBaseFields = [''temperature'', ''top_p'', ''max_tokens'', ''seed'', ''stop'', ''presence_penalty'', ''frequency_penalty'', ''response_format'']"

definition OpenAICompatExtraFields :: "string \<Rightarrow> string list" where
  "OpenAICompatExtraFields runtime =
     (if runtime = ''vllm'' then
        [''top_k'', ''min_p'', ''repetition_penalty'', ''length_penalty'', ''stop_token_ids'', ''include_stop_str_in_output'',
         ''ignore_eos'', ''min_tokens'', ''skip_special_tokens'', ''truncate_prompt_tokens'']
      else if runtime = ''llamacpp'' then
        [''repeat_penalty'', ''repeat_last_n'', ''typical_p'', ''mirostat'', ''mirostat_tau'', ''mirostat_eta'', ''num_keep'', ''logit_bias'', ''n_probs'',
         ''min_keep'', ''dry_multiplier'', ''dry_base'', ''dry_allowed_length'', ''dry_penalty_last_n'', ''xtc_probability'', ''xtc_threshold'', ''ignore_eos'']
      else if runtime = ''mlx'' then [''top_k'', ''min_p'', ''repetition_penalty'', ''logit_bias'']
      else [])"

definition OpenAICompatUnsupportedBaseFields :: "string \<Rightarrow> string list" where
  "OpenAICompatUnsupportedBaseFields runtime = (if runtime = ''mlx'' then [''seed'', ''response_format''] else [])"

text \<open>The wire key and the field of an extra.\<close>

definition extra_entry :: "string \<Rightarrow> string \<times> string" where
  "extra_entry f = (if f = ''repetition_penalty'' then (f, ''repeat_penalty'') else if f = ''num_keep'' then (''n_keep'', f) else (f, f))"

definition has_system_message :: "json list \<Rightarrow> bool" where
  "has_system_message msgs \<longleftrightarrow> list_ex (\<lambda>m. case m of JObj fs \<Rightarrow> decode_string ''role'' fs = Some ''system'' | _ \<Rightarrow> False) msgs"

definition prependSystemMessage :: "json \<Rightarrow> string \<Rightarrow> json" where
  "prependSystemMessage raw system =
     (if system = [] then raw
      else case raw of
        JArr msgs \<Rightarrow>
          if has_system_message msgs then raw
          else JArr (JObj [(''content'', JStr system), (''role'', JStr ''system'')] # msgs)
      | _ \<Rightarrow> raw)"

text \<open>The options object of a body: \<open>None\<close> when there is something else under that key.\<close>

definition options_of :: "(string, json) gomap \<Rightarrow> (string, json) gomap option" where
  "options_of m = (case gm_get m ''options'' of
     None \<Rightarrow> Some [] | Some JNull \<Rightarrow> Some [] | Some (JObj fs) \<Rightarrow> Some (decode_map fs) | Some _ \<Rightarrow> None)"

text \<open>The steps of the injection: options, system prompt, and one optional field.\<close>

definition put_options :: "model_config \<Rightarrow> (string, json) gomap \<Rightarrow> (string, json) gomap" where
  "put_options cfg m =
     (case options_of m of
        None \<Rightarrow> m
      | Some opts0 \<Rightarrow> (let opts = inject_table ollama_table cfg opts0 in if opts \<noteq> [] then gm_put ''options'' (marshal_map opts) m else m))"

definition put_system :: "model_config \<Rightarrow> (string, json) gomap \<Rightarrow> (string, json) gomap" where
  "put_system cfg m =
     (case mc_System cfg of
        None \<Rightarrow> m
      | Some s \<Rightarrow> (case gm_get m ''messages'' of
           Some msgs \<Rightarrow> gm_put ''messages'' (prependSystemMessage msgs s) m
         | None \<Rightarrow> setIfAbsent_json ''system'' (JStr s) m))"

definition put_default :: "string \<Rightarrow> json option \<Rightarrow> (string, json) gomap \<Rightarrow> (string, json) gomap" where
  "put_default key val m = (case val of None \<Rightarrow> m | Some v \<Rightarrow> setIfAbsent_json key v m)"

definition inject_ollama :: "model_config \<Rightarrow> (string, json) gomap \<Rightarrow> (string, json) gomap" where
  "inject_ollama cfg m =
     put_default ''keep_alive'' (mc_TTL cfg)
       (put_default ''template'' (map_option JStr (mc_Template cfg)) (put_system cfg (put_options cfg m)))"

definition put_leading_system :: "model_config \<Rightarrow> (string, json) gomap \<Rightarrow> (string, json) gomap" where
  "put_leading_system cfg m =
     (case (mc_System cfg, gm_get m ''messages'') of
        (Some s, Some msgs) \<Rightarrow> gm_put ''messages'' (prependSystemMessage msgs s) m | _ \<Rightarrow> m)"

definition inject_openai :: "string \<Rightarrow> model_config \<Rightarrow> (string, json) gomap \<Rightarrow> (string, json) gomap" where
  "inject_openai runtime cfg m =
     inject_table (map extra_entry (OpenAICompatExtraFields runtime)) cfg
       (put_leading_system cfg
         (put_default ''response_format''
            (if runtime = ''mlx'' then None else map_option (\<lambda>v. JObj [(''type'', v)]) (gm_get (mc_fields cfg) ''response_format''))
           (inject_table (openai_table runtime) cfg m)))"

definition inject_map :: "string \<Rightarrow> model_config \<Rightarrow> (string, json) gomap \<Rightarrow> (string, json) gomap" where
  "inject_map runtime cfg = (if runtime = [] \<or> runtime = ''ollama'' then inject_ollama cfg else inject_openai runtime cfg)"

text \<open>The body \<^verbatim>\<open>null\<close> decodes to a nil map: any injection panics.\<close>

definition injectModelDefaults :: "body \<Rightarrow> string \<Rightarrow> model_config \<Rightarrow> body option" where
  "injectModelDefaults b runtime cfg =
     (case b of
        Parsed (JObj fs) \<Rightarrow> Some (Parsed (marshal_map (inject_map runtime cfg (decode_map fs))))
      | Parsed JNull \<Rightarrow> (if inject_map runtime cfg [] = [] then Some b else None)
      | _ \<Rightarrow> Some b)"

definition OllamaLoadTimeFields :: "string list" where
  "OllamaLoadTimeFields = [''num_ctx'', ''num_gpu'', ''main_gpu'', ''num_batch'', ''num_thread'', ''use_mmap'', ''draft_num_predict'', ''ttl'']"

definition OllamaInferenceFields :: "string list" where
  "OllamaInferenceFields = [''top_k'', ''min_p'', ''typical_p'', ''num_keep'', ''repeat_penalty'', ''repeat_last_n'']"

definition SupportedFieldsFor :: "string \<Rightarrow> string list" where
  "SupportedFieldsFor runtime =
     (if runtime \<in> {''vllm'', ''tgi'', ''llamacpp'', ''mlx''}
      then filter (\<lambda>f. f \<notin> set (OpenAICompatUnsupportedBaseFields runtime)) OpenAICompatBaseFields @ OpenAICompatExtraFields runtime @ [''system'', ''rpm'', ''tpm'']
      else filter (\<lambda>f. f \<noteq> ''response_format'') OpenAICompatBaseFields @ OllamaLoadTimeFields @ OllamaInferenceFields @ [''system'', ''template'', ''rpm'', ''tpm''])"

section \<open>The model of a body\<close>

text \<open>The keys of an object that some decoder may take for its model.\<close>

definition model_keys :: "(string \<times> json) list \<Rightarrow> string list" where
  "model_keys fs = filter (\<lambda>k. equal_fold k ''model'') (map fst fs)"

lemma equal_fold_model [simp]: "equal_fold ''model'' ''model''"
  by (simp add: equal_fold_def lower_ascii_def)

lemma model_keys_simps [simp]:
  "model_keys [] = []"
  "model_keys ((k, v) # fs) = (if equal_fold k ''model'' then k # model_keys fs else model_keys fs)"
  by (simp_all add: model_keys_def)

lemma model_field_loop_None:
  "model_field_loop fs e = None \<longleftrightarrow>
     (\<forall>v \<in> snd ` set fs. skipJSONValue v) \<and> set (model_keys fs) \<subseteq> {''model''} \<and> (model_keys fs = [] \<or> e + length (model_keys fs) \<le> 1)"
  by (induction fs e rule: model_field_loop.induct) auto

lemma accepted_iff:
  "modelFieldProblem (Parsed (JObj fs)) = None \<longleftrightarrow>
     (\<forall>v \<in> snd ` set fs. skipJSONValue v) \<and> set (model_keys fs) \<subseteq> {''model''} \<and> length (model_keys fs) \<le> 1"
  by (auto simp: modelFieldProblem_def model_field_loop_None)

text \<open>An object map: distinct keys, and decoding the encoded map gives it back.\<close>

lemma decode_map_get: "gm_get (decode_map fs) k = gm_get (rev fs) k"
  by (simp add: decode_map_def gm.fold_put_get split: option.split)

lemma gm_wf_decode_map [simp, intro]: "gm_wf (decode_map fs)"
proof -
  have "gm_wf m \<Longrightarrow> gm_wf (fold (\<lambda>(k, v). gm_put k v) fs m)" for m :: "(string, json) gomap"
    by (induction fs arbitrary: m) auto
  then show ?thesis by (simp add: decode_map_def)
qed

lemma decode_map_values: "snd ` set (decode_map fs) \<subseteq> snd ` set fs"
proof
  fix v assume "v \<in> snd ` set (decode_map fs)"
  then obtain k where "(k, v) \<in> set (decode_map fs)" by auto
  then have "gm_get (rev fs) k = Some v" using gm_wf_decode_map [of fs] by (simp add: gm_wf_def flip: decode_map_get)
  then show "v \<in> snd ` set fs" by (force dest: map_of_SomeD)
qed

lemma decode_map_keys: "fst ` set (decode_map fs) = fst ` set fs"
proof -
  have "k \<in> fst ` set (decode_map fs) \<longleftrightarrow> k \<in> fst ` set (rev fs)" for k
    unfolding gm_key_iff decode_map_get ..
  then show ?thesis by auto
qed

lemma sort_key_get: "gm_wf m \<Longrightarrow> gm_get (sort_key fst m) = gm_get m"
  by (rule gm_get_eqI) (simp_all add: gm_wf_def distinct_map)

lemma sort_key_wf: "gm_wf m \<Longrightarrow> gm_wf (sort_key fst m)"
  by (simp add: gm_wf_def distinct_map)

lemma decode_marshalled:
  "gm_wf m \<Longrightarrow> gm_get (decode_map (sort_key fst m)) = gm_get m"
  by (rule ext) (simp add: decode_map_get gm_get_rev sort_key_wf sort_key_get)

text \<open>Where at most one key can be taken for the name, decoding reads that key.\<close>

definition string_or_empty :: "json option \<Rightarrow> string option" where
  "string_or_empty j = (case j of None \<Rightarrow> Some [] | Some JNull \<Rightarrow> Some [] | Some (JStr s) \<Rightarrow> Some s | Some _ \<Rightarrow> None)"

lemma decode_string_filter:
  "decode_string n fs = decode_string n (filter (\<lambda>(k, v). equal_fold k n) fs)"
proof -
  have "fold (\<lambda>(k, v) acc. if equal_fold k n then (case v of JStr s \<Rightarrow> map_option (\<lambda>_. s) acc | JNull \<Rightarrow> acc | _ \<Rightarrow> None) else acc) fs a =
        fold (\<lambda>(k, v) acc. if equal_fold k n then (case v of JStr s \<Rightarrow> map_option (\<lambda>_. s) acc | JNull \<Rightarrow> acc | _ \<Rightarrow> None) else acc)
          (filter (\<lambda>(k, v). equal_fold k n) fs) a" for a :: "string option"
    by (induction fs arbitrary: a) auto
  then show ?thesis by (simp add: decode_string_def)
qed

lemma filter_model_keys:
  "set (model_keys fs) \<subseteq> {''model''} \<Longrightarrow> length (model_keys fs) \<le> 1 \<Longrightarrow>
   filter (\<lambda>(k, v). equal_fold k ''model'') fs = (case gm_get fs ''model'' of None \<Rightarrow> [] | Some v \<Rightarrow> [(''model'', v)])"
proof (induction fs)
  case (Cons f fs)
  obtain k v where f: "f = (k, v)" by fastforce
  show ?case
  proof (cases "equal_fold k ''model''")
    case True
    then have "k = ''model''" "model_keys fs = []" using Cons.prems by (auto simp: f)
    then have "filter (\<lambda>(k, v). equal_fold k ''model'') fs = []" by (auto simp: model_keys_def filter_empty_conv)
    then show ?thesis by (simp add: f \<open>k = ''model''\<close>)
  next
    case False
    then have "k \<noteq> ''model''" by auto
    then show ?thesis using Cons False by (simp add: f)
  qed
qed simp

lemma extract_unambiguous:
  assumes "set (model_keys fs) \<subseteq> {''model''}" "length (model_keys fs) \<le> 1"
  shows "ExtractModelName (Parsed (JObj fs)) = (case string_or_empty (gm_get fs ''model'') of Some m \<Rightarrow> m | None \<Rightarrow> [])"
proof -
  have "decode_string ''model'' fs = string_or_empty (gm_get fs ''model'')"
    unfolding decode_string_filter [of _ fs] filter_model_keys [OF assms]
    by (auto simp: decode_string_def string_or_empty_def split: option.split json.split)
  then show ?thesis by (simp add: ExtractModelName_def)
qed

lemma model_keys_wf:
  assumes "gm_wf m" "\<forall>k \<in> fst ` set m. equal_fold k ''model'' \<longrightarrow> k = ''model''"
  shows "set (model_keys m) \<subseteq> {''model''}" "length (model_keys m) \<le> 1"
proof -
  show "set (model_keys m) \<subseteq> {''model''}" using assms(2) by (auto simp: model_keys_def)
  moreover have "distinct (model_keys m)" using assms(1) by (simp add: model_keys_def gm_wf_def)
  ultimately show "length (model_keys m) \<le> 1"
    using card_mono [of "{''model''}" "set (model_keys m)"] by (simp add: distinct_card)
qed

definition with_model :: "(string \<times> json) list \<Rightarrow> string \<Rightarrow> (string, json) gomap" where
  "with_model fs m = gm_put ''model'' (JStr m) (gm_remove_if (\<lambda>k _. k \<noteq> ''model'' \<and> equal_fold k ''model'') (decode_map fs))"

lemma rewrite_object: "rewriteModelField (Parsed (JObj fs)) m = Some (Parsed (JObj (sort_key fst (with_model fs m))))"
  by (simp add: rewriteModelField_def with_model_def marshal_map_def)

lemma with_model_wf [simp, intro]: "gm_wf (with_model fs m)"
  by (simp add: with_model_def)

lemma with_model_get:
  "gm_get (with_model fs m) k =
     (if k = ''model'' then Some (JStr m) else if equal_fold k ''model'' then None else gm_get (rev fs) k)"
  by (auto simp: with_model_def gm_get_put gm_get_remove_if decode_map_get split: option.split)

lemma with_model_keys: "\<forall>k \<in> fst ` set (with_model fs m). equal_fold k ''model'' \<longrightarrow> k = ''model''"
  unfolding gm_ball_keys by (auto simp: with_model_get split: if_splits)

lemma model_keys_sorted:
  assumes "gm_wf m" "\<forall>k \<in> fst ` set m. equal_fold k ''model'' \<longrightarrow> k = ''model''"
  shows "set (model_keys (sort_key fst m)) \<subseteq> {''model''}" "length (model_keys (sort_key fst m)) \<le> 1"
  using model_keys_wf [of "sort_key fst m"] assms by (simp_all add: sort_key_wf)

lemma with_model_values:
  "v \<in> snd ` set (with_model fs m) \<Longrightarrow> v = JStr m \<or> v \<in> snd ` set fs"
proof -
  assume "v \<in> snd ` set (with_model fs m)"
  then obtain k where "(k, v) \<in> set (with_model fs m)" by auto
  then have "gm_get (with_model fs m) k = Some v" using with_model_wf [of fs m] by (simp add: gm_wf_def)
  then show ?thesis by (auto simp: with_model_get split: if_splits dest!: map_of_SomeD intro: rev_image_eqI)
qed

lemma with_model_model_keys: "model_keys (sort_key fst (with_model fs m)) = [''model'']"
proof -
  let ?ks = "model_keys (sort_key fst (with_model fs m))"
  have "''model'' \<in> fst ` set (with_model fs m)" by (simp add: gm_key_iff with_model_get)
  then have "''model'' \<in> set ?ks" by (auto simp: model_keys_def)
  moreover have "length ?ks \<le> 1" by (rule model_keys_sorted [OF with_model_wf with_model_keys])
  ultimately show ?thesis by (cases ?ks) auto
qed

lemma rewrite_extract:
  "ExtractModelName (Parsed (JObj (sort_key fst (with_model fs m)))) = m"
  using extract_unambiguous [OF model_keys_sorted [OF with_model_wf with_model_keys, of fs m]]
  by (simp add: sort_key_get with_model_get string_or_empty_def)

lemma rewrite_accepted:
  "\<forall>v \<in> snd ` set fs. skipJSONValue v \<Longrightarrow> modelFieldProblem (Parsed (JObj (sort_key fst (with_model fs m)))) = None"
proof -
  assume ok: "\<forall>v \<in> snd ` set fs. skipJSONValue v"
  have "skipJSONValue v" if "v \<in> snd ` set (sort_key fst (with_model fs m))" for v
  proof -
    from that have "v \<in> snd ` set (with_model fs m)" by (simp only: set_sort)
    then have "v = JStr m \<or> v \<in> snd ` set fs" by (rule with_model_values)
    then show ?thesis using ok by (auto simp: skipJSONValue_def)
  qed
  then show ?thesis by (simp only: accepted_iff with_model_model_keys) simp
qed

text \<open>
  C31. An accepted object names at most one model, under the exact key, so every decoder reads the same one.  Rewriting replaces
  it: the result is accepted again, names the new model under its only matching key, and keeps every other field with the
  value a decoder reads (the last of its duplicates).  Rewriting panics exactly on the body \<open>null\<close>.
\<close>

theorem rewrite_names_target:
  assumes "modelFieldProblem (Parsed (JObj fs)) = None"
  shows "set (model_keys fs) \<subseteq> {''model''} \<and> length (model_keys fs) \<le> 1
    \<and> (\<exists>gs. rewriteModelField (Parsed (JObj fs)) m = Some (Parsed (JObj gs)) \<and> modelFieldProblem (Parsed (JObj gs)) = None
          \<and> ExtractModelName (Parsed (JObj gs)) = m \<and> model_keys gs = [''model''] \<and> distinct (map fst gs)
          \<and> (\<forall>k. \<not> equal_fold k ''model'' \<longrightarrow> gm_get gs k = gm_get (rev fs) k))
    \<and> (\<forall>b. rewriteModelField b m = None \<longleftrightarrow> b = Parsed JNull)"
proof (intro conjI)
  show "set (model_keys fs) \<subseteq> {''model''}" "length (model_keys fs) \<le> 1" using assms by (simp_all add: accepted_iff)
  show "\<forall>b. rewriteModelField b m = None \<longleftrightarrow> b = Parsed JNull"
    by (auto simp: rewriteModelField_def split: body.split json.split)
  let ?gs = "sort_key fst (with_model fs m)"
  have "distinct (map fst ?gs)" using sort_key_wf [OF with_model_wf] by (simp add: gm_wf_def)
  moreover have "\<forall>k. \<not> equal_fold k ''model'' \<longrightarrow> gm_get ?gs k = gm_get (rev fs) k"
    by (auto simp: sort_key_get with_model_get)
  moreover have "\<forall>v \<in> snd ` set fs. skipJSONValue v" using assms by (simp add: accepted_iff)
  ultimately show "\<exists>gs. rewriteModelField (Parsed (JObj fs)) m = Some (Parsed (JObj gs)) \<and> modelFieldProblem (Parsed (JObj gs)) = None
          \<and> ExtractModelName (Parsed (JObj gs)) = m \<and> model_keys gs = [''model''] \<and> distinct (map fst gs)
          \<and> (\<forall>k. \<not> equal_fold k ''model'' \<longrightarrow> gm_get gs k = gm_get (rev fs) k)"
    by (intro exI [of _ ?gs] conjI rewrite_object rewrite_accepted rewrite_extract with_model_model_keys)
qed

text \<open>The witness: a body with a field given twice.\<close>

lemma rewrite_names_target_witness:
  "rewriteModelField (Parsed (JObj [(''stream'', JBool True), (''model'', JStr ''gpt-4''), (''stream'', JBool False)])) ''llama3:8b''
     = Some (Parsed (JObj [(''model'', JStr ''llama3:8b''), (''stream'', JBool False)]))
   \<and> (\<exists>gs. rewriteModelField (Parsed (JObj [(''stream'', JBool True), (''model'', JStr ''gpt-4''), (''stream'', JBool False)])) ''llama3:8b''
        = Some (Parsed (JObj gs)) \<and> ExtractModelName (Parsed (JObj gs)) = ''llama3:8b'')"
proof -
  have "modelFieldProblem (Parsed (JObj [(''stream'', JBool True), (''model'', JStr ''gpt-4''), (''stream'', JBool False)])) = None"
    by code_simp
  note applied = rewrite_names_target [OF this, of "''llama3:8b''"]
  have "rewriteModelField (Parsed (JObj [(''stream'', JBool True), (''model'', JStr ''gpt-4''), (''stream'', JBool False)])) ''llama3:8b''
     = Some (Parsed (JObj [(''model'', JStr ''llama3:8b''), (''stream'', JBool False)]))"
    by code_simp
  with applied show ?thesis by auto
qed

section \<open>What a profile may change\<close>

text \<open>The entries a table adds, in order.\<close>

definition profile_entries :: "(string \<times> string) list \<Rightarrow> model_config \<Rightarrow> (string \<times> json) list" where
  "profile_entries table cfg = List.map_filter (\<lambda>(wire, field). map_option (Pair wire) (gm_get (mc_fields cfg) field)) table"

lemma setIfAbsent_json_get:
  "gm_get (setIfAbsent_json k v m) j = (case gm_get m j of Some x \<Rightarrow> Some x | None \<Rightarrow> if j = k then Some v else None)"
  by (auto simp: setIfAbsent_json_def gm_get_put split: option.split)

lemma setIfAbsent_json_wf [simp, intro]: "gm_wf m \<Longrightarrow> gm_wf (setIfAbsent_json k v m)"
  by (simp add: setIfAbsent_json_def)

lemma inject_table_wf [simp, intro]: "gm_wf m \<Longrightarrow> gm_wf (inject_table table cfg m)"
  unfolding inject_table_def by (induction table arbitrary: m) (auto split: option.split)

lemma inject_table_Nil [simp]: "inject_table [] cfg m = m"
  by (simp add: inject_table_def)

lemma inject_table_Cons [simp]:
  "inject_table (e # table) cfg m =
     inject_table table cfg (case gm_get (mc_fields cfg) (snd e) of None \<Rightarrow> m | Some v \<Rightarrow> setIfAbsent_json (fst e) v m)"
  by (simp add: inject_table_def case_prod_unfold)

lemma inject_table_get:
  "gm_get (inject_table table cfg m) j = (case gm_get m j of Some x \<Rightarrow> Some x | None \<Rightarrow> gm_get (profile_entries table cfg) j)"
proof (induction table arbitrary: m)
  case (Cons e table)
  then show ?case
    by (cases e) (auto simp: profile_entries_def map_filter_simps setIfAbsent_json_get split: option.split)
qed (simp add: profile_entries_def map_filter_simps split: option.split)

lemma profile_entries_wires: "j \<notin> fst ` set table \<Longrightarrow> gm_get (profile_entries table cfg) j = None"
  by (induction table) (auto simp: profile_entries_def map_filter_simps split: option.split)

text \<open>Every key a profile may add to the top level of a body.\<close>

definition profile_keys :: "string list" where
  "profile_keys =
     [''options'', ''system'', ''template'', ''keep_alive'', ''response_format''] @ map fst (openai_table [])
     @ concat (map (\<lambda>rt. map (fst \<circ> extra_entry) (OpenAICompatExtraFields rt)) [''vllm'', ''llamacpp'', ''mlx''])"

lemma profile_keys_no_model: "\<forall>k \<in> set profile_keys. \<not> equal_fold k ''model'' \<and> k \<noteq> ''messages''"
  by code_simp

lemma profile_keys_extra: "fst ` set (map extra_entry (OpenAICompatExtraFields rt)) \<subseteq> set profile_keys - {''options''}"
proof -
  have known: "\<forall>rt \<in> {''vllm'', ''llamacpp'', ''mlx''}. \<forall>e \<in> set (map extra_entry (OpenAICompatExtraFields rt)). fst e \<in> set profile_keys \<and> fst e \<noteq> ''options''"
    by code_simp
  show ?thesis
  proof (cases "rt \<in> {''vllm'', ''llamacpp'', ''mlx''}")
    case True
    then show ?thesis using known by fast
  next
    case False
    then show ?thesis by (simp add: OpenAICompatExtraFields_def)
  qed
qed

lemma profile_keys_openai: "fst ` set (openai_table rt) \<subseteq> set profile_keys - {''options''}"
  by (auto simp: profile_keys_def openai_table_def)

definition with_system :: "model_config \<Rightarrow> json option \<Rightarrow> json option" where
  "with_system cfg messages = (case mc_System cfg of None \<Rightarrow> messages | Some s \<Rightarrow> map_option (\<lambda>msgs. prependSystemMessage msgs s) messages)"

lemma put_options_get:
  "gm_get (put_options cfg m) k =
     (if k = ''options''
      then (case options_of m of
              None \<Rightarrow> gm_get m ''options''
            | Some opts \<Rightarrow> (let opts' = inject_table ollama_table cfg opts in if opts' \<noteq> [] then Some (marshal_map opts') else gm_get m ''options''))
      else gm_get m k)"
  by (auto simp: put_options_def Let_def gm_get_put split: option.split)

lemma put_system_get:
  "gm_get (put_system cfg m) k =
     (case mc_System cfg of
        None \<Rightarrow> gm_get m k
      | Some s \<Rightarrow> (case gm_get m ''messages'' of
           Some msgs \<Rightarrow> if k = ''messages'' then Some (prependSystemMessage msgs s) else gm_get m k
         | None \<Rightarrow> if k = ''system'' \<and> gm_get m k = None then Some (JStr s) else gm_get m k))"
  by (auto simp: put_system_def gm_get_put setIfAbsent_json_get split: option.split)

lemma put_default_get:
  "gm_get (put_default key v m) k = (if k = key \<and> gm_get m k = None then v else gm_get m k)"
  by (auto simp: put_default_def setIfAbsent_json_get split: option.split)

lemma put_wf [simp, intro]:
  "gm_wf m \<Longrightarrow> gm_wf (put_options cfg m)" "gm_wf m \<Longrightarrow> gm_wf (put_system cfg m)" "gm_wf m \<Longrightarrow> gm_wf (put_default key v m)"
  by (auto simp: put_options_def put_system_def put_default_def Let_def split: option.split)

lemma inject_ollama_wf [simp, intro]: "gm_wf m \<Longrightarrow> gm_wf (inject_ollama cfg m)"
  by (simp add: inject_ollama_def)

lemma put_leading_system_get:
  "gm_get (put_leading_system cfg m) k = (if k = ''messages'' then with_system cfg (gm_get m k) else gm_get m k)"
  by (auto simp: put_leading_system_def with_system_def gm_get_put split: option.split)

lemma inject_openai_wf [simp, intro]: "gm_wf m \<Longrightarrow> gm_wf (inject_openai rt cfg m)"
  by (auto simp: inject_openai_def put_leading_system_def split: option.split)

lemma inject_map_wf [simp, intro]: "gm_wf m \<Longrightarrow> gm_wf (inject_map rt cfg m)"
  by (simp add: inject_map_def)

text \<open>Every key but the options object and the messages.\<close>

lemma inject_ollama_get:
  "k \<noteq> ''options'' \<Longrightarrow> k \<noteq> ''messages'' \<Longrightarrow>
   gm_get (inject_ollama cfg m) k =
     (case gm_get m k of
        Some v \<Rightarrow> Some v
      | None \<Rightarrow> if k = ''keep_alive'' then mc_TTL cfg
                else if k = ''template'' then map_option JStr (mc_Template cfg)
                else if k = ''system'' \<and> gm_get m ''messages'' = None then map_option JStr (mc_System cfg) else None)"
  by (cases "k = ''keep_alive''"; cases "k = ''template''"; cases "gm_get m k"; cases "gm_get m ''messages''"; cases "mc_System cfg")
     (simp_all add: inject_ollama_def put_default_get put_system_get put_options_get)

lemma inject_ollama_options: "gm_get (inject_ollama cfg m) ''options'' = gm_get (put_options cfg m) ''options''"
  by (simp add: inject_ollama_def put_default_get put_system_get split: option.split)

lemma inject_ollama_messages: "gm_get (inject_ollama cfg m) ''messages'' = with_system cfg (gm_get m ''messages'')"
  by (simp add: inject_ollama_def put_default_get put_system_get put_options_get with_system_def split: option.split)

lemma inject_openai_keeps:
  "gm_get m k = Some v \<Longrightarrow> gm_get (inject_openai rt cfg m) k = (if k = ''messages'' then with_system cfg (Some v) else Some v)"
  by (cases "k = ''messages''")
     (simp_all add: inject_openai_def inject_table_get put_leading_system_get put_default_get with_system_def split: option.split)

lemma inject_openai_adds:
  assumes "gm_get m k = None" "k \<notin> set profile_keys - {''options''}"
  shows "gm_get (inject_openai rt cfg m) k = None"
proof -
  have "k \<notin> fst ` set (map extra_entry (OpenAICompatExtraFields rt))" "k \<notin> fst ` set (openai_table rt)"
    using assms(2) profile_keys_extra [of rt] profile_keys_openai [of rt] by blast+
  then have none: "gm_get (profile_entries (map extra_entry (OpenAICompatExtraFields rt)) cfg) k = None"
      "gm_get (profile_entries (openai_table rt) cfg) k = None"
    using profile_entries_wires by blast+
  moreover have "k \<noteq> ''response_format''" using assms(2) by (auto simp: profile_keys_def)
  ultimately have "gm_get (put_default ''response_format'' d (inject_table (openai_table rt) cfg m)) k = None" for d
    by (simp add: put_default_get inject_table_get assms(1))
  then show ?thesis using none(1)
    by (cases "k = ''messages''") (simp_all add: inject_openai_def inject_table_get put_leading_system_get with_system_def split: option.split)
qed

lemma profile_keys_no_messages: "''messages'' \<notin> set profile_keys"
  using profile_keys_no_model by blast

text \<open>Both shapes: other fields stay, and only profile keys are added.\<close>

lemma inject_map_keeps:
  "gm_get m k = Some v \<Longrightarrow> k \<noteq> ''options'' \<Longrightarrow> k \<noteq> ''messages'' \<Longrightarrow> gm_get (inject_map rt cfg m) k = Some v"
  by (simp add: inject_map_def inject_ollama_get inject_openai_keeps)

lemma inject_map_messages: "gm_get (inject_map rt cfg m) ''messages'' = with_system cfg (gm_get m ''messages'')"
proof (cases "gm_get m ''messages''")
  case None
  then have "gm_get (inject_openai rt cfg m) ''messages'' = None" using profile_keys_no_messages by (intro inject_openai_adds) auto
  then show ?thesis using None by (simp add: inject_map_def inject_ollama_messages with_system_def split: option.split)
next
  case (Some v)
  then show ?thesis by (simp add: inject_map_def inject_ollama_messages inject_openai_keeps)
qed

lemma inject_map_options:
  "gm_get (inject_map rt cfg m) ''options'' = gm_get (if rt = [] \<or> rt = ''ollama'' then put_options cfg m else m) ''options''"
proof (cases "gm_get m ''options''")
  case None
  then have "gm_get (inject_openai rt cfg m) ''options'' = None" by (intro inject_openai_adds) auto
  then show ?thesis using None by (simp add: inject_map_def inject_ollama_options)
next
  case (Some v)
  then show ?thesis by (simp add: inject_map_def inject_ollama_options inject_openai_keeps)
qed

lemma inject_map_adds:
  assumes "gm_get m k = None" "k \<notin> set profile_keys"
  shows "gm_get (inject_map rt cfg m) k = None"
proof (cases "k = ''messages''")
  case True
  then show ?thesis using assms by (simp add: inject_map_messages with_system_def split: option.split)
next
  case False
  have "k \<noteq> ''options''" "k \<noteq> ''keep_alive''" "k \<noteq> ''template''" "k \<noteq> ''system''" using assms(2) by (auto simp: profile_keys_def)
  then have "gm_get (inject_ollama cfg m) k = None" using assms(1) False by (simp add: inject_ollama_get)
  moreover have "gm_get (inject_openai rt cfg m) k = None" using assms by (intro inject_openai_adds) auto
  ultimately show ?thesis by (simp add: inject_map_def)
qed

text \<open>The options object keeps the client's options.\<close>

lemma put_options_object:
  assumes "gm_get m ''options'' = Some (JObj fs)"
  shows "\<exists>gs. gm_get (put_options cfg m) ''options'' = Some (JObj gs) \<and> (\<forall>k v. gm_get (rev fs) k = Some v \<longrightarrow> gm_get (rev gs) k = Some v)"
proof (cases "inject_table ollama_table cfg (decode_map fs) = []")
  case True
  then have "gm_get (put_options cfg m) ''options'' = Some (JObj fs)" using assms by (simp add: put_options_get options_of_def Let_def)
  then show ?thesis by blast
next
  case False
  let ?opts = "inject_table ollama_table cfg (decode_map fs)"
  have "gm_get (rev (sort_key fst ?opts)) = gm_get ?opts" by (simp add: gm_get_rev sort_key_wf sort_key_get)
  then have "\<forall>k v. gm_get (rev fs) k = Some v \<longrightarrow> gm_get (rev (sort_key fst ?opts)) k = Some v"
    by (simp add: inject_table_get decode_map_get)
  moreover have "gm_get (put_options cfg m) ''options'' = Some (JObj (sort_key fst ?opts))"
    using assms False by (simp add: put_options_get options_of_def Let_def marshal_map_def)
  ultimately show ?thesis by blast
qed

lemma put_options_other:
  "gm_get m ''options'' = Some v \<Longrightarrow> v \<noteq> JNull \<Longrightarrow> \<forall>fs. v \<noteq> JObj fs \<Longrightarrow> gm_get (put_options cfg m) ''options'' = Some v"
  by (cases v) (simp_all add: put_options_get options_of_def)

text \<open>The model the client named stays the model of the body.\<close>

lemma gm_get_at_most_once:
  assumes "set (model_keys fs) \<subseteq> {''model''}" "length (model_keys fs) \<le> 1"
  shows "gm_get (rev fs) ''model'' = gm_get fs ''model''"
proof -
  have "set (model_keys (rev fs)) \<subseteq> {''model''}" "length (model_keys (rev fs)) \<le> 1"
    using assms by (simp_all add: model_keys_def rev_map [symmetric] rev_filter [symmetric])
  from filter_model_keys [OF this] filter_model_keys [OF assms]
  show ?thesis by (simp add: rev_filter [symmetric] split: option.splits)
qed

lemma inject_map_model_keys:
  assumes "set (model_keys fs) \<subseteq> {''model''}"
  shows "\<forall>k \<in> fst ` set (inject_map rt cfg (decode_map fs)). equal_fold k ''model'' \<longrightarrow> k = ''model''"
proof (intro ballI impI)
  fix k assume k: "k \<in> fst ` set (inject_map rt cfg (decode_map fs))" "equal_fold k ''model''"
  then have "k \<notin> set profile_keys" using profile_keys_no_model by blast
  moreover have "gm_get (inject_map rt cfg (decode_map fs)) k \<noteq> None" using k(1) by (simp add: map_of_eq_None_iff)
  ultimately have "gm_get (decode_map fs) k \<noteq> None" using inject_map_adds by metis
  then have "k \<in> fst ` set (decode_map fs)" by (simp add: map_of_eq_None_iff)
  then have "k \<in> fst ` set fs" by (simp only: decode_map_keys)
  then show "k = ''model''" using assms k(2) by (auto simp: model_keys_def)
qed

lemma inject_extract_clear:
  assumes ok: "set (model_keys fs) \<subseteq> {''model''}" "length (model_keys fs) \<le> 1"
  shows "ExtractModelName (Parsed (JObj (sort_key fst (inject_map rt cfg (decode_map fs))))) = ExtractModelName (Parsed (JObj fs))"
proof -
  let ?m = "inject_map rt cfg (decode_map fs)"
  have "gm_get ?m ''model'' = gm_get fs ''model''"
  proof (cases "gm_get fs ''model''")
    case None
    have "''model'' \<notin> set profile_keys" using profile_keys_no_model equal_fold_model by blast
    then show ?thesis using None by (simp add: inject_map_adds decode_map_get gm_get_at_most_once [OF ok])
  next
    case (Some v)
    then show ?thesis by (simp add: inject_map_keeps decode_map_get gm_get_at_most_once [OF ok])
  qed
  moreover have "gm_wf ?m" by simp
  ultimately show ?thesis
    using extract_unambiguous [OF model_keys_sorted [OF \<open>gm_wf ?m\<close> inject_map_model_keys [OF ok(1)]]] extract_unambiguous [OF ok]
    by (simp add: sort_key_get)
qed

lemma inject_extract:
  "modelFieldProblem (Parsed (JObj fs)) = None \<Longrightarrow>
   ExtractModelName (Parsed (JObj (sort_key fst (inject_map rt cfg (decode_map fs))))) = ExtractModelName (Parsed (JObj fs))"
  by (rule inject_extract_clear) (simp_all add: accepted_iff)

text \<open>A body that no decoder can read another model from; bodies that are not objects carry none.\<close>

definition names_model :: "body \<Rightarrow> string \<Rightarrow> bool" where
  "names_model b m \<longleftrightarrow>
     (case b of
        Parsed (JObj fs) \<Rightarrow> set (model_keys fs) \<subseteq> {''model''} \<and> length (model_keys fs) \<le> 1 \<and> ExtractModelName b = m
      | _ \<Rightarrow> True)"

lemma names_model_object:
  "names_model (Parsed (JObj fs)) m \<longleftrightarrow>
     set (model_keys fs) \<subseteq> {''model''} \<and> length (model_keys fs) \<le> 1 \<and> ExtractModelName (Parsed (JObj fs)) = m"
  by (simp add: names_model_def)

lemma accepted_names: "modelFieldProblem b = None \<Longrightarrow> names_model b (ExtractModelName b)"
  by (cases b rule: body.exhaust) (auto simp: names_model_def accepted_iff split: json.split)

lemma rewrite_names: "rewriteModelField b m = Some b' \<Longrightarrow> names_model b' m"
proof -
  assume r: "rewriteModelField b m = Some b'"
  show ?thesis
  proof (cases "\<exists>fs. b = Parsed (JObj fs)")
    case True
    then obtain fs where "b' = Parsed (JObj (sort_key fst (with_model fs m)))" using r by (auto simp: rewrite_object)
    then show ?thesis
      using rewrite_extract [of fs m] model_keys_sorted [OF with_model_wf with_model_keys, of fs m] by (simp add: names_model_object)
  next
    case False
    then have "b' = b" using r by (auto simp: rewriteModelField_def split: body.splits json.splits)
    then show ?thesis using False by (auto simp: names_model_def split: body.splits json.splits)
  qed
qed

lemma inject_names: "injectModelDefaults b rt cfg = Some b' \<Longrightarrow> names_model b m \<Longrightarrow> names_model b' m"
proof -
  assume i: "injectModelDefaults b rt cfg = Some b'" and n: "names_model b m"
  show ?thesis
  proof (cases "\<exists>fs. b = Parsed (JObj fs)")
    case True
    then obtain fs where b: "b = Parsed (JObj fs)" by blast
    have ok: "set (model_keys fs) \<subseteq> {''model''}" "length (model_keys fs) \<le> 1" using n b by (simp_all add: names_model_object)
    have b': "b' = Parsed (JObj (sort_key fst (inject_map rt cfg (decode_map fs))))"
      using i b by (simp add: injectModelDefaults_def marshal_map_def)
    have wf: "gm_wf (inject_map rt cfg (decode_map fs))" by simp
    show ?thesis
      using n b b' inject_extract_clear [OF ok, of rt cfg] model_keys_sorted [OF wf inject_map_model_keys [OF ok(1)]]
      by (simp add: names_model_object)
  next
    case False
    then have "b' = b" using i by (auto simp: injectModelDefaults_def split: body.splits json.splits if_splits)
    then show ?thesis using n by simp
  qed
qed

lemma prompt_names: "names_model b m \<Longrightarrow> names_model (rewritePromptToInput b) m"
proof (cases "\<exists>fs p. b = Parsed (JObj fs) \<and> gm_get (decode_map fs) ''prompt'' = Some p")
  case True
  assume n: "names_model b m"
  obtain fs p where b: "b = Parsed (JObj fs)" "gm_get (decode_map fs) ''prompt'' = Some p" using True by blast
  define d where "d = gm_del ''prompt'' (if gm_get (decode_map fs) ''input'' = None then gm_put ''input'' p (decode_map fs) else decode_map fs)"
  have ok: "set (model_keys fs) \<subseteq> {''model''}" "length (model_keys fs) \<le> 1" using n b by (simp_all add: names_model_object)
  have r: "rewritePromptToInput b = Parsed (JObj (sort_key fst d))"
    using b by (simp add: rewritePromptToInput_def marshal_map_def d_def Let_def)
  have wf: "gm_wf d" by (simp add: d_def)
  have get: "gm_get d ''model'' = gm_get fs ''model''"
    by (simp add: d_def gm_get_put gm_get_del decode_map_get gm_get_at_most_once [OF ok])
  have ei: "\<not> equal_fold ''input'' ''model''" by code_simp
  have "\<forall>k \<in> fst ` set d. equal_fold k ''model'' \<longrightarrow> k = ''model''"
  proof (intro ballI impI)
    fix k assume k: "k \<in> fst ` set d" "equal_fold k ''model''"
    then have "gm_get d k \<noteq> None" by (simp add: map_of_eq_None_iff)
    then have "gm_get (decode_map fs) k \<noteq> None" using k(2) ei by (auto simp: d_def gm_get_put gm_get_del split: if_splits)
    then have "k \<in> fst ` set (decode_map fs)" by (simp add: map_of_eq_None_iff)
    then have "k \<in> fst ` set fs" by (simp only: decode_map_keys)
    then show "k = ''model''" using ok(1) k(2) by (auto simp: model_keys_def)
  qed
  note ks = model_keys_sorted [OF wf this]
  show ?thesis
    using n b r ks extract_unambiguous [OF ks] extract_unambiguous [OF ok] wf by (simp add: names_model_object sort_key_get get)
next
  case False
  assume "names_model b m"
  moreover have "rewritePromptToInput b = b"
    using False by (auto simp: rewritePromptToInput_def Let_def split: body.split json.split option.split)
  ultimately show ?thesis by simp
qed

lemma prepend_cases:
  "prependSystemMessage v s = v \<or>
   (\<exists>msgs. v = JArr msgs \<and> \<not> has_system_message msgs
     \<and> prependSystemMessage v s = JArr (JObj [(''content'', JStr s), (''role'', JStr ''system'')] # msgs))"
  by (cases v) (auto simp: prependSystemMessage_def)

text \<open>
  C30. Overlaying a profile never changes what the client sent.  Every field but the options and the messages keeps its value; an
  options object keeps all its entries, and a malformed one is left alone; the messages are the client's, after at most one system
  message, which is added only when the profile has one and the client sent none.  The body still names the model that was
  checked.
\<close>

theorem profile_only_fills_gaps:
  assumes "modelFieldProblem (Parsed (JObj fs)) = None"
  shows "\<exists>gs. injectModelDefaults (Parsed (JObj fs)) rt cfg = Some (Parsed (JObj gs))
    \<and> (\<forall>k v. gm_get (rev fs) k = Some v \<and> k \<noteq> ''options'' \<and> k \<noteq> ''messages'' \<longrightarrow> gm_get (rev gs) k = Some v)
    \<and> (\<forall>os. gm_get (rev fs) ''options'' = Some (JObj os) \<longrightarrow>
          (\<exists>os'. gm_get (rev gs) ''options'' = Some (JObj os') \<and> (\<forall>k v. gm_get (rev os) k = Some v \<longrightarrow> gm_get (rev os') k = Some v)))
    \<and> (\<forall>v. gm_get (rev fs) ''options'' = Some v \<and> v \<noteq> JNull \<and> (\<forall>os. v \<noteq> JObj os) \<longrightarrow> gm_get (rev gs) ''options'' = Some v)
    \<and> (\<forall>v. gm_get (rev fs) ''messages'' = Some v \<longrightarrow> gm_get (rev gs) ''messages'' = Some v
          \<or> (\<exists>msgs s. v = JArr msgs \<and> mc_System cfg = Some s
               \<and> \<not> has_system_message msgs
               \<and> gm_get (rev gs) ''messages'' = Some (JArr (JObj [(''content'', JStr s), (''role'', JStr ''system'')] # msgs))))
    \<and> ExtractModelName (Parsed (JObj gs)) = ExtractModelName (Parsed (JObj fs))"
proof -
  let ?m = "inject_map rt cfg (decode_map fs)"
  let ?gs = "sort_key fst ?m"
  have get: "gm_get (rev ?gs) k = gm_get ?m k" for k
    by (simp add: gm_get_rev sort_key_wf sort_key_get)
  have "injectModelDefaults (Parsed (JObj fs)) rt cfg = Some (Parsed (JObj ?gs))" by (simp add: injectModelDefaults_def marshal_map_def)
  moreover have "\<forall>k v. gm_get (rev fs) k = Some v \<and> k \<noteq> ''options'' \<and> k \<noteq> ''messages'' \<longrightarrow> gm_get (rev ?gs) k = Some v"
    by (simp add: get inject_map_keeps decode_map_get)
  moreover have "\<forall>os. gm_get (rev fs) ''options'' = Some (JObj os) \<longrightarrow>
      (\<exists>os'. gm_get (rev ?gs) ''options'' = Some (JObj os') \<and> (\<forall>k v. gm_get (rev os) k = Some v \<longrightarrow> gm_get (rev os') k = Some v))"
    unfolding get inject_map_options by (auto simp: decode_map_get dest!: put_options_object [of "decode_map fs" for fs, unfolded decode_map_get])
  moreover have "\<forall>v. gm_get (rev fs) ''options'' = Some v \<and> v \<noteq> JNull \<and> (\<forall>os. v \<noteq> JObj os) \<longrightarrow> gm_get (rev ?gs) ''options'' = Some v"
    unfolding get inject_map_options by (simp add: put_options_other decode_map_get)
  moreover have "\<forall>v. gm_get (rev fs) ''messages'' = Some v \<longrightarrow> gm_get (rev ?gs) ''messages'' = Some v
      \<or> (\<exists>msgs s. v = JArr msgs \<and> mc_System cfg = Some s
           \<and> \<not> has_system_message msgs
           \<and> gm_get (rev ?gs) ''messages'' = Some (JArr (JObj [(''content'', JStr s), (''role'', JStr ''system'')] # msgs)))"
  proof (intro allI impI)
    fix v assume v: "gm_get (rev fs) ''messages'' = Some v"
    show "gm_get (rev ?gs) ''messages'' = Some v
      \<or> (\<exists>msgs s. v = JArr msgs \<and> mc_System cfg = Some s
           \<and> \<not> has_system_message msgs
           \<and> gm_get (rev ?gs) ''messages'' = Some (JArr (JObj [(''content'', JStr s), (''role'', JStr ''system'')] # msgs)))"
    proof (cases "mc_System cfg")
      case (Some s)
      then have "gm_get (rev ?gs) ''messages'' = Some (prependSystemMessage v s)"
        using v by (simp add: get inject_map_messages with_system_def decode_map_get)
      then show ?thesis using prepend_cases [of v s] Some by auto
    qed (simp add: get inject_map_messages with_system_def decode_map_get v)
  qed
  moreover have "ExtractModelName (Parsed (JObj ?gs)) = ExtractModelName (Parsed (JObj fs))" by (rule inject_extract [OF assms])
  ultimately show ?thesis by (intro exI [of _ ?gs] conjI)
qed

lemma profile_only_fills_gaps_witness:
  "\<exists>gs. injectModelDefaults (Parsed (JObj [(''model'', JStr ''m''), (''options'', JObj [(''num_ctx'', JNum ''512'')])])) ''ollama''
      \<lparr>mc_fields = [(''num_ctx'', JNum ''8192''), (''seed'', JNum ''1'')], mc_System = None, mc_Template = None, mc_TTL = None, mc_RPM = None, mc_TPM = None\<rparr>
      = Some (Parsed (JObj gs))
    \<and> gm_get (rev gs) ''options'' = Some (JObj [(''num_ctx'', JNum ''512''), (''seed'', JNum ''1'')])
    \<and> ExtractModelName (Parsed (JObj gs)) = ''m''"
proof -
  let ?fs = "[(''model'', JStr ''m''), (''options'', JObj [(''num_ctx'', JNum ''512'')])]"
  let ?cfg = "\<lparr>mc_fields = [(''num_ctx'', JNum ''8192''), (''seed'', JNum ''1'')], mc_System = None, mc_Template = None, mc_TTL = None, mc_RPM = None, mc_TPM = None\<rparr>"
  have ok: "modelFieldProblem (Parsed (JObj ?fs)) = None" by code_simp
  have out: "injectModelDefaults (Parsed (JObj ?fs)) ''ollama'' ?cfg =
      Some (Parsed (JObj [(''model'', JStr ''m''), (''options'', JObj [(''num_ctx'', JNum ''512''), (''seed'', JNum ''1'')])]))"
    by code_simp
  have name: "ExtractModelName (Parsed (JObj ?fs)) = ''m''" by code_simp
  from profile_only_fills_gaps [OF ok, of "''ollama''" ?cfg]
  show ?thesis unfolding out name by auto
qed

section \<open>What the dashboard offers\<close>

text \<open>A profile with one field set.\<close>

definition single_field :: "string \<Rightarrow> json \<Rightarrow> model_config" where
  "single_field f v = \<lparr>mc_fields = [(f, v)], mc_System = None, mc_Template = None, mc_TTL = None, mc_RPM = None, mc_TPM = None\<rparr>"

lemma profile_entries_single:
  "profile_entries table (single_field f v) = [] \<longleftrightarrow> f \<notin> snd ` set table"
  by (induction table) (auto simp: profile_entries_def map_filter_simps single_field_def split: option.split)

lemma inject_table_empty: "inject_table table cfg [] = [] \<longleftrightarrow> profile_entries table cfg = []"
proof -
  have "inject_table table cfg [] = [] \<longleftrightarrow> (\<forall>k. gm_get (inject_table table cfg []) k = None)"
    by (cases "inject_table table cfg []") (auto simp: map_of_eq_None_iff)
  also have "\<dots> \<longleftrightarrow> (\<forall>k. gm_get (profile_entries table cfg) k = None)" by (simp add: inject_table_get)
  also have "\<dots> \<longleftrightarrow> profile_entries table cfg = []"
    by (cases "profile_entries table cfg") (auto simp: map_of_eq_None_iff)
  finally show ?thesis .
qed

lemma inject_table_grows: "m \<noteq> [] \<Longrightarrow> inject_table table cfg m \<noteq> []"
proof
  assume "m \<noteq> []" "inject_table table cfg m = []"
  then obtain k v m' where "m = (k, v) # m'" by (cases m) auto
  then have "gm_get (inject_table table cfg m) k \<noteq> None" by (simp add: inject_table_get)
  then show False by (simp add: \<open>inject_table table cfg m = []\<close>)
qed

text \<open>The fields of a profile that reach the request.\<close>

definition injected_fields :: "string \<Rightarrow> string set" where
  "injected_fields rt =
     (if rt = [] \<or> rt = ''ollama'' then snd ` set ollama_table
      else snd ` set (openai_table rt) \<union> snd ` set (map extra_entry (OpenAICompatExtraFields rt))
             \<union> (if rt = ''mlx'' then {} else {''response_format''}))"

lemma inject_table_nonempty: "inject_table table cfg m \<noteq> [] \<longleftrightarrow> m \<noteq> [] \<or> profile_entries table cfg \<noteq> []"
  by (cases m) (simp_all add: inject_table_empty inject_table_grows)

lemma put_default_nonempty: "put_default k d m \<noteq> [] \<longleftrightarrow> m \<noteq> [] \<or> d \<noteq> None"
  by (auto simp: put_default_def setIfAbsent_json_def update_nonempty split: option.split)

lemma field_injected_iff: "inject_map rt (single_field f v) [] \<noteq> [] \<longleftrightarrow> f \<in> injected_fields rt"
proof (cases "rt = [] \<or> rt = ''ollama''")
  case True
  have "inject_map rt (single_field f v) [] = put_options (single_field f v) []"
    using True by (simp add: inject_map_def inject_ollama_def put_system_def put_default_def single_field_def)
  moreover have "put_options (single_field f v) [] \<noteq> [] \<longleftrightarrow> inject_table ollama_table (single_field f v) [] \<noteq> []"
    by (simp add: put_options_def options_of_def Let_def)
  ultimately show ?thesis using True by (simp only: inject_table_empty profile_entries_single injected_fields_def if_True) simp
next
  case False
  have lead: "put_leading_system (single_field f v) m = m" for m by (simp add: put_leading_system_def single_field_def)
  have format: "gm_get (mc_fields (single_field f v)) g = (if g = f then Some v else None)" for g by (simp add: single_field_def)
  have "inject_map rt (single_field f v) [] = inject_openai rt (single_field f v) []" using False by (simp add: inject_map_def)
  moreover have "inject_openai rt (single_field f v) [] \<noteq> [] \<longleftrightarrow> f \<in> snd ` set (openai_table rt) \<or> (rt \<noteq> ''mlx'' \<and> f = ''response_format'')
      \<or> f \<in> snd ` set (map extra_entry (OpenAICompatExtraFields rt))"
    unfolding inject_openai_def lead inject_table_nonempty put_default_nonempty profile_entries_single format by simp
  ultimately show ?thesis using False unfolding injected_fields_def by simp blast
qed

definition known_runtimes :: "string list" where
  "known_runtimes = [[], ''ollama'', ''vllm'', ''tgi'', ''llamacpp'', ''mlx'']"

lemma supported_known:
  "\<forall>rt \<in> set known_runtimes.
     injected_fields rt =
       (\<lambda>s. if s = ''repetition_penalty'' then ''repeat_penalty'' else s) ` set (SupportedFieldsFor rt)
         - {''ttl'', ''system'', ''template'', ''rpm'', ''tpm''}"
  by code_simp

text \<open>
  C32. For every runtime the code knows, the fields it lists for the dashboard (apart from those handled on their own) are exactly
  those whose setting changes the request, except that one is listed under its wire name.  For an unrecognised runtime the list and
  the injection disagree: it is offered the fields of Ollama but is sent the OpenAI ones.
\<close>

theorem capabilities_match_injection:
  "(\<forall>rt \<in> set known_runtimes. \<forall>f v.
      inject_map rt (single_field f v) [] \<noteq> [] \<longleftrightarrow>
      f \<in> (\<lambda>s. if s = ''repetition_penalty'' then ''repeat_penalty'' else s) ` set (SupportedFieldsFor rt)
           - {''ttl'', ''system'', ''template'', ''rpm'', ''tpm''})
   \<and> (\<forall>rt v. rt \<notin> set known_runtimes \<longrightarrow>
        ''num_ctx'' \<in> set (SupportedFieldsFor rt) \<and> inject_map rt (single_field ''num_ctx'' v) [] = []
        \<and> ''response_format'' \<notin> set (SupportedFieldsFor rt) \<and> inject_map rt (single_field ''response_format'' v) [] \<noteq> [])"
proof (intro conjI ballI allI impI)
  fix rt f v assume known: "rt \<in> set known_runtimes"
  show "inject_map rt (single_field f v) [] \<noteq> [] \<longleftrightarrow>
      f \<in> (\<lambda>s. if s = ''repetition_penalty'' then ''repeat_penalty'' else s) ` set (SupportedFieldsFor rt)
           - {''ttl'', ''system'', ''template'', ''rpm'', ''tpm''}"
    unfolding field_injected_iff supported_known [rule_format, OF known] ..
next
  fix rt v assume "rt \<notin> set known_runtimes"
  then have rt: "rt \<noteq> []" "rt \<noteq> ''ollama''" "rt \<notin> {''vllm'', ''tgi'', ''llamacpp'', ''mlx''}" by (simp_all add: known_runtimes_def)
  then have fields: "SupportedFieldsFor rt = SupportedFieldsFor ''ollama''" and inj: "injected_fields rt = injected_fields ''tgi''"
    by (simp_all add: SupportedFieldsFor_def injected_fields_def openai_table_def OpenAICompatExtraFields_def)
  show "''num_ctx'' \<in> set (SupportedFieldsFor rt)" "''response_format'' \<notin> set (SupportedFieldsFor rt)"
    unfolding fields by code_simp+
  have "''num_ctx'' \<notin> injected_fields rt" "''response_format'' \<in> injected_fields rt" unfolding inj by code_simp+
  then show "inject_map rt (single_field ''num_ctx'' v) [] = []" "inject_map rt (single_field ''response_format'' v) [] \<noteq> []"
    using field_injected_iff by blast+
qed

text \<open>The witness: a runtime of each kind.\<close>

lemma capabilities_match_injection_witness:
  "inject_map ''vllm'' (single_field ''repeat_penalty'' (JNum ''1.1'')) [] \<noteq> []
   \<and> inject_map ''auto'' (single_field ''num_ctx'' (JNum ''4096'')) [] = []"
proof -
  have known: "''vllm'' \<in> set known_runtimes" and unknown: "''auto'' \<notin> set known_runtimes" by code_simp+
  have listed: "''repeat_penalty'' \<in> (\<lambda>s. if s = ''repetition_penalty'' then ''repeat_penalty'' else s) ` set (SupportedFieldsFor ''vllm'')
           - {''ttl'', ''system'', ''template'', ''rpm'', ''tpm''}"
    by code_simp
  note applied = capabilities_match_injection
  show ?thesis
    using applied [THEN conjunct1, rule_format, OF known, THEN iffD2, OF listed]
      applied [THEN conjunct2, rule_format, OF unknown, THEN conjunct2, THEN conjunct1] by (rule conjI)
qed

section \<open>The management guard\<close>

text \<open>The segments a server that resolves a rooted path sees.\<close>

abbreviation resolve :: "string \<Rightarrow> string list" where
  "resolve p \<equiv> clean_segments True [] (split_char CHR ''/'' p)"

definition plain_segment :: "string \<Rightarrow> bool" where
  "plain_segment s \<longleftrightarrow> s \<noteq> [] \<and> s \<noteq> ''.'' \<and> s \<noteq> ''..'' \<and> CHR ''/'' \<notin> set s"

lemma split_char_free: "s \<in> set (split_char c p) \<Longrightarrow> c \<notin> set s"
  by (induction c p arbitrary: s rule: split_char.induct) (auto split: if_splits list.splits)

lemma split_char_ne [simp]: "split_char c p \<noteq> []"
  by (induction p) (auto split: list.split)

lemma split_char_at: "c \<notin> set s \<Longrightarrow> split_char c (s @ c # p) = s # split_char c p"
  by (induction s) auto

lemma split_char_single: "c \<notin> set s \<Longrightarrow> split_char c s = [s]"
  by (induction s) auto

lemma clean_segments_plain:
  "\<forall>s \<in> set ss. CHR ''/'' \<notin> set s \<Longrightarrow> \<forall>s \<in> set done. plain_segment s \<Longrightarrow> s \<in> set (clean_segments True done ss) \<Longrightarrow> plain_segment s"
proof (induction True "done" ss rule: clean_segments.induct)
  case (2 "done" s ss)
  then show ?case by (cases "done") (auto simp: plain_segment_def split: if_splits)
qed auto

lemma resolve_plain: "s \<in> set (resolve p) \<Longrightarrow> plain_segment s"
  by (rule clean_segments_plain) (auto dest: split_char_free)

lemma clean_segments_id: "\<forall>s \<in> set ss. plain_segment s \<Longrightarrow> clean_segments True done ss = rev done @ ss"
  by (induction ss arbitrary: "done") (auto simp: plain_segment_def)

lemma split_join: "ss \<noteq> [] \<Longrightarrow> \<forall>s \<in> set ss. plain_segment s \<Longrightarrow> split_char CHR ''/'' (join_slash ss) = ss"
  by (induction ss rule: join_slash.induct) (auto simp: plain_segment_def split_char_at split_char_single)

lemma resolve_join:
  assumes "\<forall>s \<in> set ss. plain_segment s"
  shows "resolve (CHR ''/'' # join_slash ss) = ss" "resolve (CHR ''/'' # join_slash ss @ ''/'') = ss"
proof -
  show "resolve (CHR ''/'' # join_slash ss) = ss"
    using assms by (cases "ss = []") (simp_all add: split_join clean_segments_id)
  have "split_char CHR ''/'' (join_slash ss @ ''/'') = ss @ [[]]" if "ss \<noteq> []" "\<forall>s \<in> set ss. plain_segment s" for ss
    using that by (induction ss rule: join_slash.induct) (auto simp: plain_segment_def split_char_at)
  moreover have "clean_segments True done (ss @ [[]]) = rev done @ ss" if "\<forall>s \<in> set ss. plain_segment s" for "done" ss
    using that by (induction ss arbitrary: "done") (auto simp: plain_segment_def)
  ultimately show "resolve (CHR ''/'' # join_slash ss @ ''/'') = ss"
    using assms by (cases "ss = []") simp_all
qed

lemma resolve_rooted: "resolve (CHR ''/'' # p) = resolve p"
  by simp

text \<open>A rooted path becomes its resolved segments, with its trailing slash.\<close>

lemma canonical_rooted:
  "canonicalPath (CHR ''/'' # p) =
     CHR ''/'' # join_slash (resolve p) @ (if last (CHR ''/'' # p) = CHR ''/'' \<and> resolve p \<noteq> [] then ''/'' else [])"
proof -
  have join_ne: "join_slash ss \<noteq> []" if "ss \<noteq> []" "\<forall>s \<in> set ss. plain_segment s" for ss
    using that by (cases ss rule: join_slash.cases) (auto simp: plain_segment_def)
  have clean: "clean_path (CHR ''/'' # p) = CHR ''/'' # join_slash (resolve p)"
    by (simp add: clean_path_def Let_def)
  have "clean_path (CHR ''/'' # p) = ''/'' \<longleftrightarrow> resolve p = []"
  proof (cases "resolve p = []")
    case False
    then have "join_slash (resolve p) \<noteq> []" using resolve_plain by (intro join_ne) blast+
    then show ?thesis using False by (simp add: clean)
  qed (simp add: clean)
  then show ?thesis by (simp add: canonicalPath_def Let_def clean)
qed

lemma join_last: "ss \<noteq> [] \<Longrightarrow> \<forall>s \<in> set ss. plain_segment s \<Longrightarrow> join_slash ss \<noteq> [] \<and> last (join_slash ss) \<noteq> CHR ''/''"
proof (induction ss rule: join_slash.induct)
  case (2 s)
  then have "s \<noteq> []" "CHR ''/'' \<notin> set s" by (simp_all add: plain_segment_def)
  then show ?case using last_in_set by fastforce
qed simp_all

lemma trim_join:
  assumes "ss \<noteq> []" "\<forall>s \<in> set ss. plain_segment s"
  shows "trim_right_char CHR ''/'' (CHR ''/'' # join_slash ss @ (if b then ''/'' else [])) = CHR ''/'' # join_slash ss"
proof -
  from join_last [OF assms] obtain q c where q: "join_slash ss = q @ [c]" "c \<noteq> CHR ''/''"
    by (metis append_butlast_last_id)
  then show ?thesis by (simp add: trim_right_char_def)
qed

lemma join_inject:
  "ss \<noteq> [] \<Longrightarrow> ts \<noteq> [] \<Longrightarrow> \<forall>s \<in> set ss. plain_segment s \<Longrightarrow> \<forall>s \<in> set ts. plain_segment s \<Longrightarrow> join_slash ss = join_slash ts \<longleftrightarrow> ss = ts"
  using split_join by metis

lemma canonical_join:
  assumes "\<forall>s \<in> set ss. plain_segment s"
  shows "canonicalPath (CHR ''/'' # join_slash ss @ (if b \<and> ss \<noteq> [] then ''/'' else [])) =
    CHR ''/'' # join_slash ss @ (if b \<and> ss \<noteq> [] then ''/'' else [])"
proof (cases "ss = []")
  case True
  then show ?thesis by (simp add: canonical_rooted)
next
  case False
  have "resolve (join_slash ss) = ss" "resolve (join_slash ss @ ''/'') = ss"
    using resolve_join [OF assms] by (simp_all only: resolve_rooted)
  then show ?thesis using False join_last [OF False assms] by (simp add: canonical_rooted)
qed

text \<open>The guard as a condition on the segments.\<close>

definition blocked_segments :: "string list \<Rightarrow> bool" where
  "blocked_segments ss \<longleftrightarrow>
     ss \<in> {[''api'', ''delete''], [''api'', ''pull''], [''api'', ''push''], [''api'', ''create''], [''api'', ''copy'']} \<or> take 2 ss = [''api'', ''blobs'']"

lemma blobs_prefix:
  assumes "ss \<noteq> []" "\<forall>s \<in> set ss. plain_segment s"
  shows "has_prefix (CHR ''/'' # join_slash ss) ''/api/blobs/'' \<longleftrightarrow> (\<exists>rest. rest \<noteq> [] \<and> ss = ''api'' # ''blobs'' # rest)"
proof
  assume "has_prefix (CHR ''/'' # join_slash ss) ''/api/blobs/''"
  then obtain t where "join_slash ss = ''api'' @ CHR ''/'' # ''blobs'' @ CHR ''/'' # t" by (auto simp: has_prefix_iff)
  then have "ss = split_char CHR ''/'' (''api'' @ CHR ''/'' # ''blobs'' @ CHR ''/'' # t)" using split_join [OF assms] by simp
  also have "\<dots> = ''api'' # ''blobs'' # split_char CHR ''/'' t" by simp
  finally show "\<exists>rest. rest \<noteq> [] \<and> ss = ''api'' # ''blobs'' # rest" by (intro exI conjI) simp_all
next
  assume "\<exists>rest. rest \<noteq> [] \<and> ss = ''api'' # ''blobs'' # rest"
  then obtain r rest where "ss = ''api'' # ''blobs'' # r # rest" by (metis list.exhaust)
  then show "has_prefix (CHR ''/'' # join_slash ss) ''/api/blobs/''" by (simp add: has_prefix_iff)
qed

lemma blocked_join:
  assumes "\<forall>s \<in> set ss. plain_segment s"
  shows "isBlockedManagementPath (CHR ''/'' # join_slash ss @ (if b \<and> ss \<noteq> [] then ''/'' else [])) \<longleftrightarrow> blocked_segments ss"
proof (cases "ss = []")
  case True
  then show ?thesis by (simp add: isBlockedManagementPath_def trim_right_char_def blocked_segments_def has_prefix_def)
next
  case False
  have eq: "CHR ''/'' # join_slash ss = CHR ''/'' # join_slash [''api'', w] \<longleftrightarrow> ss = [''api'', w]" if "plain_segment w" for w
    using join_inject [OF False, of "[''api'', w]"] assms that by (simp add: plain_segment_def)
  have words: "plain_segment ''delete''" "plain_segment ''pull''" "plain_segment ''push''" "plain_segment ''create''" "plain_segment ''copy''"
    "plain_segment ''blobs''" by (simp_all add: plain_segment_def)
  have "isBlockedManagementPath (CHR ''/'' # join_slash ss @ (if b \<and> ss \<noteq> [] then ''/'' else [])) \<longleftrightarrow>
      CHR ''/'' # join_slash ss \<in> {''/api/delete'', ''/api/pull'', ''/api/push'', ''/api/create'', ''/api/copy'', ''/api/blobs''}
      \<or> has_prefix (CHR ''/'' # join_slash ss) ''/api/blobs/''"
    using False trim_join [OF False assms, of b] by (simp only: isBlockedManagementPath_def Let_def simp_thms)
  also have "\<dots> \<longleftrightarrow> ss \<in> {[''api'', ''delete''], [''api'', ''pull''], [''api'', ''push''], [''api'', ''create''], [''api'', ''copy''], [''api'', ''blobs'']}
      \<or> (\<exists>rest. rest \<noteq> [] \<and> ss = ''api'' # ''blobs'' # rest)"
    using eq [OF words(1)] eq [OF words(2)] eq [OF words(3)] eq [OF words(4)] eq [OF words(5)] eq [OF words(6)] blobs_prefix [OF False assms]
    by simp
  also have "\<dots> \<longleftrightarrow> blocked_segments ss"
    by (cases ss rule: remdups_adj.cases) (auto simp: blocked_segments_def)
  finally show ?thesis .
qed

text \<open>
  C29. The management guard cannot be passed by spelling.  On the canonical form of a rooted path, which is what is both checked and forwarded, it
  refuses exactly the paths that resolve to a management endpoint, whatever dots, doubled or trailing slashes the client wrote;
  and the canonical form resolves to the same segments and is its own canonical form.
\<close>

theorem management_guard_by_meaning:
  "(isBlockedManagementPath (canonicalPath (CHR ''/'' # p)) \<longleftrightarrow> blocked_segments (resolve p))
   \<and> resolve (canonicalPath (CHR ''/'' # p)) = resolve p
   \<and> canonicalPath (canonicalPath (CHR ''/'' # p)) = canonicalPath (CHR ''/'' # p)"
proof -
  let ?ss = "resolve p"
  define b where "b \<longleftrightarrow> last (CHR ''/'' # p) = CHR ''/''"
  have plain: "\<forall>s \<in> set ?ss. plain_segment s" using resolve_plain by blast
  have form: "canonicalPath (CHR ''/'' # p) = CHR ''/'' # join_slash ?ss @ (if b \<and> ?ss \<noteq> [] then ''/'' else [])"
    by (simp only: canonical_rooted b_def)
  have same: "resolve (canonicalPath (CHR ''/'' # p)) = ?ss"
    unfolding form using resolve_join [OF plain] by (simp only: append_Nil2 split: if_split) blast
  show ?thesis
  proof (intro conjI same)
    show "isBlockedManagementPath (canonicalPath (CHR ''/'' # p)) \<longleftrightarrow> blocked_segments ?ss"
      unfolding form by (rule blocked_join [OF plain])
    show "canonicalPath (canonicalPath (CHR ''/'' # p)) = canonicalPath (CHR ''/'' # p)"
      unfolding form by (rule canonical_join [OF plain])
  qed
qed

end
