(* ===== verification/Accounting.thy ===== *)
theory Accounting
  imports Auth Placement Request_Body "HOL-Library.Sublist"
begin

text \<open>
  What requests cost and where it is kept (\<^verbatim>\<open>internal/admin/analytics.go\<close>, the request log and cloud spend of
  \<^verbatim>\<open>internal/admin/admin.go\<close>, and their tables in \<^verbatim>\<open>internal/store/sqlite.go\<close>).

  A table is a list of rows in insertion order or a map by primary key.  SQLite's \<^verbatim>\<open>SUM\<close> and the UTC calendar are parameters.
  A routing decision appears as its reason and its JSON text.  Node counters stand in a map by node name.
\<close>

section \<open>The tables\<close>

record request_record =
  rq_ID :: string
  rq_KeyName :: string
  rq_Model :: string
  rq_NodeName :: string
  rq_StatusCode :: int
  rq_LatencyMs :: int
  rq_TokensUsed :: int
  rq_CostUSD :: float64
  rq_RoutedTo :: string
  rq_IsCloud :: bool
  rq_RoutingReason :: string
  rq_RoutingDetail :: string
  rq_PrefillMs :: int
  rq_QueueWaitMs :: "int option"
  rq_CloudMs :: "int option"
  rq_TS :: gotime

record hourly_row =
  hr_Requests :: int
  hr_Tokens :: int
  hr_CloudRequests :: int
  hr_LocalRequests :: int
  hr_CostUSD :: float64
  hr_GenDurationMs :: int

record model_row =
  mr_Requests :: int
  mr_Tokens :: int
  mr_CostUSD :: float64

record counters =
  ct_LocalRequests :: int
  ct_CloudRequests :: int
  ct_TotalTokens :: int
  ct_CloudSpentUSD :: float64

record audit_row =
  au_RequestID :: string
  au_KeyName :: string
  au_Model :: string
  au_Node :: string
  au_Status :: string
  au_LatencyMs :: int
  au_Cloud :: bool
  au_CloudModel :: string
  au_RoutingReason :: string

text \<open>The saved cloud token count is the text of an \<^verbatim>\<open>int64\<close> or something else.\<close>

datatype saved_count = SavedInt int | SavedText string

text \<open>\<open>bk_up\<close> is off while every statement fails.  Hours are counted from the Unix epoch.\<close>

record books =
  bk_up :: bool
  bk_request_log :: "request_record list"
  bk_hourly :: "(int, hourly_row) gomap"
  bk_model_stats :: "(string, model_row) gomap"
  bk_spill :: "(string \<times> string, int) gomap"
  bk_counters :: "counters option"
  bk_cloud_tokens :: "saved_count option"
  bk_audit :: "audit_row list"
  bk_model_configs :: "(string \<times> string, model_config) gomap"

definition hour :: duration where "hour = 60 * minute"

text \<open>The rows that the trim of the log keeps, which orders ties by insertion, and the new log.\<close>

definition newest_rows :: "nat \<Rightarrow> request_record list \<Rightarrow> request_record list" where
  "newest_rows n rows = take n (sort_key (\<lambda>r. - rq_TS r) rows)"

definition trim_log :: "request_record list \<Rightarrow> request_record list" where
  "trim_log rows = filter (\<lambda>r. rq_ID r \<in> set (map rq_ID (newest_rows 1000 rows))) rows"

definition stored_row :: "request_record \<Rightarrow> request_record" where
  "stored_row r = r\<lparr> rq_TS := rq_TS r div second * second \<rparr>"

definition AppendRequest :: "request_record \<Rightarrow> books \<Rightarrow> books" where
  "AppendRequest r b =
     (if \<not> bk_up b then b
      else
        let rows = bk_request_log b;
            rows1 = (if list_ex (\<lambda>x. rq_ID x = rq_ID r) rows then rows else rows @ [stored_row r])
        in b\<lparr> bk_request_log := trim_log rows1 \<rparr>)"

definition LastRequests :: "nat \<Rightarrow> books \<Rightarrow> request_record list option" where
  "LastRequests n b = (if bk_up b then Some (rev (newest_rows n (bk_request_log b))) else None)"

definition GetRequest :: "string \<Rightarrow> books \<Rightarrow> request_record option option" where
  "GetRequest i b = (if bk_up b then Some (find (\<lambda>r. rq_ID r = i) (bk_request_log b)) else None)"

definition KeySpendSince :: "(float64 list \<Rightarrow> float64) \<Rightarrow> string \<Rightarrow> gotime \<Rightarrow> books \<Rightarrow> float64 option" where
  "KeySpendSince sql_sum key since b =
     (if bk_up b
      then Some (sql_sum (map rq_CostUSD
             (filter (\<lambda>r. rq_KeyName r = key \<and> rq_IsCloud r \<and> rq_TS r div second \<ge> since div second) (bk_request_log b))))
      else None)"

definition empty_hour :: hourly_row where
  "empty_hour = \<lparr> hr_Requests = 0, hr_Tokens = 0, hr_CloudRequests = 0, hr_LocalRequests = 0, hr_CostUSD = 0, hr_GenDurationMs = 0 \<rparr>"

definition add_hour :: "hourly_row \<Rightarrow> hourly_row \<Rightarrow> hourly_row" where
  "add_hour old new =
     \<lparr> hr_Requests = hr_Requests old + hr_Requests new, hr_Tokens = hr_Tokens old + hr_Tokens new,
       hr_CloudRequests = hr_CloudRequests old + hr_CloudRequests new, hr_LocalRequests = hr_LocalRequests old + hr_LocalRequests new,
       hr_CostUSD = fadd (hr_CostUSD old) (hr_CostUSD new), hr_GenDurationMs = hr_GenDurationMs old + hr_GenDurationMs new \<rparr>"

definition UpsertHourlyBucket :: "int \<Rightarrow> hourly_row \<Rightarrow> books \<Rightarrow> books" where
  "UpsertHourlyBucket h d b =
     (if \<not> bk_up b then b
      else b\<lparr> bk_hourly := gm_put h (case gm_get (bk_hourly b) h of None \<Rightarrow> d | Some old \<Rightarrow> add_hour old d) (bk_hourly b) \<rparr>)"

text \<open>The rows whose hour starts at or after the given second, by hour.\<close>

definition HourlyBuckets :: "gotime \<Rightarrow> books \<Rightarrow> (int \<times> hourly_row) list option" where
  "HourlyBuckets since b =
     (if bk_up b then Some (sort_key fst (filter (\<lambda>(h, _). h * 3600 \<ge> since div second) (bk_hourly b))) else None)"

definition UpsertModelStat :: "string \<Rightarrow> model_row \<Rightarrow> books \<Rightarrow> books" where
  "UpsertModelStat model d b =
     (if \<not> bk_up b then b
      else b\<lparr> bk_model_stats := gm_put model
             (case gm_get (bk_model_stats b) model of
                None \<Rightarrow> d
              | Some old \<Rightarrow> \<lparr> mr_Requests = mr_Requests old + mr_Requests d, mr_Tokens = mr_Tokens old + mr_Tokens d,
                             mr_CostUSD = fadd (mr_CostUSD old) (mr_CostUSD d) \<rparr>) (bk_model_stats b) \<rparr>)"

definition IncrSpillCounter :: "string \<Rightarrow> string \<Rightarrow> books \<Rightarrow> books" where
  "IncrSpillCounter keyName servedBy b =
     (if \<not> bk_up b then b
      else b\<lparr> bk_spill := gm_put (keyName, servedBy) (gm_at 0 (bk_spill b) (keyName, servedBy) + 1) (bk_spill b) \<rparr>)"

definition GetModelConfig :: "string \<Rightarrow> string \<Rightarrow> books \<Rightarrow> model_config option" where
  "GetModelConfig model node b = (if bk_up b then gm_get (bk_model_configs b) (model, node) else None)"

definition SetModelConfig :: "string \<Rightarrow> string \<Rightarrow> model_config \<Rightarrow> books \<Rightarrow> books" where
  "SetModelConfig model node cfg b =
     (if bk_up b then b\<lparr> bk_model_configs := gm_put (model, node) cfg (bk_model_configs b) \<rparr> else b)"

definition DeleteModelConfig :: "string \<Rightarrow> string \<Rightarrow> books \<Rightarrow> books" where
  "DeleteModelConfig model node b =
     (if bk_up b then b\<lparr> bk_model_configs := gm_del (model, node) (bk_model_configs b) \<rparr> else b)"

definition SetCounters :: "counters \<Rightarrow> books \<Rightarrow> books" where
  "SetCounters c b = (if bk_up b then b\<lparr> bk_counters := Some c \<rparr> else b)"

definition GetCounters :: "books \<Rightarrow> counters option" where
  "GetCounters b =
     (if \<not> bk_up b then None
      else case bk_counters b of
        None \<Rightarrow> Some \<lparr> ct_LocalRequests = 0, ct_CloudRequests = 0, ct_TotalTokens = 0, ct_CloudSpentUSD = 0 \<rparr>
      | Some c \<Rightarrow> Some c)"

section \<open>In-memory analytics\<close>

record hour_bucket =
  hb_Local :: int
  hb_Cloud :: int
  hb_SavedUSD :: float64
  hb_SpentUSD :: float64
  hb_Tokens :: int
  hb_GenDurationMs :: int
  hb_TokensPerSec :: float64

record model_stat =
  ms_Model :: string
  ms_Local :: int
  ms_Cloud :: int
  ms_SavedUSD :: float64

text \<open>The key of a bucket, the text of its UTC hour, stands for the number of that hour.\<close>

record analytics =
  an_refCostPer1K :: float64
  an_hourly :: "(int, hour_bucket) gomap"
  an_byModel :: "(string, model_stat) gomap"

definition hour_of :: "gotime \<Rightarrow> int" where "hour_of t = t div hour"

definition empty_bucket :: hour_bucket where
  "empty_bucket = \<lparr> hb_Local = 0, hb_Cloud = 0, hb_SavedUSD = 0, hb_SpentUSD = 0, hb_Tokens = 0, hb_GenDurationMs = 0, hb_TokensPerSec = 0 \<rparr>"

definition hourlyRetention :: duration where "hourlyRetention = 48 * hour"

definition pruneHourlyLocked :: "gotime \<Rightarrow> analytics \<Rightarrow> analytics" where
  "pruneHourlyLocked now a =
     (if length (an_hourly a) \<le> 48 then a
      else a\<lparr> an_hourly := gm_remove_if (\<lambda>h _. now - h * hour > hourlyRetention) (an_hourly a) \<rparr>)"

definition cost_of :: "float64 \<Rightarrow> int \<Rightarrow> float64" where
  "cost_of rate tokens = fdiv (fmul rate (f_of_int tokens)) 1000"

definition recordLocal :: "gotime \<Rightarrow> string \<Rightarrow> int \<Rightarrow> int \<Rightarrow> analytics \<Rightarrow> analytics" where
  "recordLocal now model tokens genDurationMs a0 =
     (let saved = cost_of (an_refCostPer1K a0) tokens;
          a = pruneHourlyLocked now a0;
          b = gm_at empty_bucket (an_hourly a) (hour_of now);
          s = gm_at \<lparr> ms_Model = model, ms_Local = 0, ms_Cloud = 0, ms_SavedUSD = 0 \<rparr> (an_byModel a) model
      in a\<lparr> an_hourly := gm_put (hour_of now)
              (b\<lparr> hb_Local := hb_Local b + 1, hb_SavedUSD := fadd (hb_SavedUSD b) saved, hb_Tokens := hb_Tokens b + tokens,
                 hb_GenDurationMs := hb_GenDurationMs b + genDurationMs \<rparr>) (an_hourly a),
            an_byModel := gm_put model (s\<lparr> ms_Local := ms_Local s + 1, ms_SavedUSD := fadd (ms_SavedUSD s) saved \<rparr>) (an_byModel a) \<rparr>)"

definition recordCloud :: "gotime \<Rightarrow> string \<Rightarrow> float64 \<Rightarrow> int \<Rightarrow> analytics \<Rightarrow> analytics" where
  "recordCloud now model costPer1K tokens a0 =
     (let spent = cost_of costPer1K tokens;
          a = pruneHourlyLocked now a0;
          b = gm_at empty_bucket (an_hourly a) (hour_of now);
          s = gm_at \<lparr> ms_Model = model, ms_Local = 0, ms_Cloud = 0, ms_SavedUSD = 0 \<rparr> (an_byModel a) model
      in a\<lparr> an_hourly := gm_put (hour_of now)
              (b\<lparr> hb_Cloud := hb_Cloud b + 1, hb_SpentUSD := fadd (hb_SpentUSD b) spent \<rparr>) (an_hourly a),
            an_byModel := gm_put model (s\<lparr> ms_Cloud := ms_Cloud s + 1 \<rparr>) (an_byModel a) \<rparr>)"

definition restoreFromStore :: "gotime \<Rightarrow> (int \<times> hourly_row) list \<Rightarrow> analytics \<Rightarrow> analytics" where
  "restoreFromStore now rows a =
     pruneHourlyLocked now
       (a\<lparr> an_hourly := fold (\<lambda>(h, r). gm_put h (empty_bucket\<lparr> hb_Local := hr_LocalRequests r, hb_Cloud := hr_CloudRequests r,
                                                            hb_SpentUSD := hr_CostUSD r \<rparr>)) rows (an_hourly a) \<rparr>)"

definition last24hBuckets :: "gotime \<Rightarrow> analytics \<Rightarrow> (int \<times> hour_bucket) list" where
  "last24hBuckets now a =
     map (\<lambda>i. let h = hour_of (now + (int i - 23) * hour); b = gm_at empty_bucket (an_hourly a) h
              in (h, if hb_GenDurationMs b > 0
                     then b\<lparr> hb_TokensPerSec := fdiv (f_of_int (hb_Tokens b)) (fdiv (f_of_int (hb_GenDurationMs b)) 1000) \<rparr> else b))
       [0..<24]"

text \<open>One round of the exchange sort: the element at the front meets every later one and they change places when the later is busier.\<close>

definition stat_requests :: "model_stat \<Rightarrow> int" where
  "stat_requests s = ms_Local s + ms_Cloud s"

fun exchange_round :: "model_stat \<Rightarrow> model_stat list \<Rightarrow> model_stat \<times> model_stat list" where
  "exchange_round x [] = (x, [])"
| "exchange_round x (y # ys) =
     (if stat_requests y > stat_requests x
      then let (z, zs) = exchange_round y ys in (z, x # zs)
      else let (z, zs) = exchange_round x ys in (z, y # zs))"

lemma exchange_round_length [simp]: "length (snd (exchange_round x ys)) = length ys"
  by (induction ys arbitrary: x) (simp_all add: Let_def case_prod_unfold)

function exchange_sort :: "model_stat list \<Rightarrow> model_stat list" where
  "exchange_sort [] = []"
| "exchange_sort (x # xs) = (let r = exchange_round x xs in fst r # exchange_sort (snd r))"
  by pat_completeness auto
termination by (relation "measure length") auto

definition topModels :: "analytics \<Rightarrow> model_stat list" where
  "topModels a = exchange_sort (map snd (an_byModel a))"

section \<open>The server's accounts\<close>

record request_log =
  ql_ID :: string
  ql_ApiKey :: string
  ql_SourceIP :: string
  ql_Model :: string
  ql_Node :: string
  ql_Status :: string
  ql_HTTPStatus :: int
  ql_Latency :: int
  ql_Tokens :: int
  ql_TokensPerSec :: float64
  ql_Time :: gotime
  ql_RoutingReason :: string
  ql_RoutingDetail :: string
  ql_PrefillMs :: int
  ql_QueueWaitMs :: "int option"
  ql_CloudMs :: "int option"

record node_stats =
  nt_ColdStarts :: int
  nt_WarmHits :: int
  nt_TokensTotal :: int
  nt_LatencySumMs :: int
  nt_LatencyCount :: int

type_synonym stats_job = "(int \<times> hourly_row) \<times> (string \<times> model_row)"

record ledger =
  lg_books :: books
  lg_requests :: "request_log list"
  lg_tokenEvents :: "(gotime \<times> int) list"
  lg_localCount :: int
  lg_cloudCount :: int
  lg_localTokens :: int
  lg_cloudTokens :: int
  lg_cloudTokensFlushed :: int
  lg_cloudSpentUSD :: float64
  lg_coldStarts :: int
  lg_warmHits :: int
  lg_refCostPer1K :: float64
  lg_analytics :: analytics
  lg_DailyUSDCap :: float64
  lg_MonthlyUSDCap :: float64
  lg_SoftBudgetPct :: float64
  lg_logChan :: "request_record list"
  lg_statsChan :: "stats_job list"
  lg_nodeStats :: "(string, node_stats) gomap"

definition on_books :: "(books \<Rightarrow> books) \<Rightarrow> ledger \<Rightarrow> ledger" where
  "on_books f s = s\<lparr> lg_books := f (lg_books s) \<rparr>"

definition IncrSpill :: "string \<Rightarrow> string \<Rightarrow> ledger \<Rightarrow> ledger" where
  "IncrSpill keyName servedBy = on_books (IncrSpillCounter keyName servedBy)"

definition zero_stats :: node_stats where
  "zero_stats = \<lparr> nt_ColdStarts = 0, nt_WarmHits = 0, nt_TokensTotal = 0, nt_LatencySumMs = 0, nt_LatencyCount = 0 \<rparr>"

text \<open>A completed request as the proxy reports it.\<close>

record completed =
  cq_requestID :: string
  cq_apiKey :: string
  cq_sourceIP :: string
  cq_model :: string
  cq_node :: string
  cq_status :: string
  cq_httpStatus :: int
  cq_latencyMs :: int
  cq_tokens :: int
  cq_prefillMs :: int
  cq_decision :: "(string \<times> string) option"
  cq_queueWaitMs :: "int option"
  cq_cloudMs :: "int option"

definition log_row :: "gotime \<Rightarrow> string \<Rightarrow> completed \<Rightarrow> request_record" where
  "log_row now i q =
     \<lparr> rq_ID = i, rq_KeyName = cq_apiKey q, rq_Model = cq_model q, rq_NodeName = cq_node q, rq_StatusCode = cq_httpStatus q,
       rq_LatencyMs = cq_latencyMs q, rq_TokensUsed = cq_tokens q, rq_CostUSD = 0, rq_RoutedTo = [], rq_IsCloud = False,
       rq_RoutingReason = (case cq_decision q of None \<Rightarrow> [] | Some d \<Rightarrow> fst d),
       rq_RoutingDetail = (case cq_decision q of None \<Rightarrow> [] | Some d \<Rightarrow> snd d),
       rq_PrefillMs = cq_prefillMs q, rq_QueueWaitMs = cq_queueWaitMs q, rq_CloudMs = cq_cloudMs q, rq_TS = now \<rparr>"

definition log_entry :: "gotime \<Rightarrow> string \<Rightarrow> completed \<Rightarrow> request_log" where
  "log_entry now i q =
     \<lparr> ql_ID = i, ql_ApiKey = cq_apiKey q, ql_SourceIP = cq_sourceIP q, ql_Model = cq_model q, ql_Node = cq_node q,
       ql_Status = cq_status q, ql_HTTPStatus = cq_httpStatus q, ql_Latency = cq_latencyMs q, ql_Tokens = cq_tokens q,
       ql_TokensPerSec = (if cq_tokens q > 0 \<and> cq_latencyMs q > 0
                          then fdiv (f_of_int (cq_tokens q)) (fdiv (f_of_int (cq_latencyMs q)) 1000) else 0),
       ql_Time = now, ql_RoutingReason = (case cq_decision q of None \<Rightarrow> [] | Some d \<Rightarrow> fst d),
       ql_RoutingDetail = (case cq_decision q of None \<Rightarrow> [] | Some d \<Rightarrow> snd d),
       ql_PrefillMs = cq_prefillMs q, ql_QueueWaitMs = cq_queueWaitMs q, ql_CloudMs = cq_cloudMs q \<rparr>"

definition count_node :: "completed \<Rightarrow> node_stats \<Rightarrow> node_stats" where
  "count_node q t =
     (let t1 = (if cq_status q = ''loading'' then t\<lparr> nt_ColdStarts := nt_ColdStarts t + 1 \<rparr>
                else if cq_status q = ''warm'' then t\<lparr> nt_WarmHits := nt_WarmHits t + 1 \<rparr> else t);
          t2 = t1\<lparr> nt_TokensTotal := nt_TokensTotal t1 + cq_tokens q \<rparr>
      in if cq_latencyMs q > 0
         then t2\<lparr> nt_LatencySumMs := nt_LatencySumMs t2 + cq_latencyMs q, nt_LatencyCount := nt_LatencyCount t2 + 1 \<rparr> else t2)"

text \<open>The capacity of both queues of the asynchronous writer.\<close>

definition queue_cap :: nat where "queue_cap = 5000"

definition enqueue :: "'a \<Rightarrow> 'a list \<Rightarrow> 'a list" where
  "enqueue x q = (if length q < queue_cap then q @ [x] else q)"

text \<open>\<open>fresh\<close> is the random identifier for a call without one.\<close>

definition LogRequestTimed ::
  "time_lib \<Rightarrow> gotime \<Rightarrow> string \<Rightarrow> completed \<Rightarrow> router \<Rightarrow> middleware option \<times> ledger \<Rightarrow> middleware option \<times> ledger" where
  "LogRequestTimed lib now fresh q r st =
     (let i = (if cq_requestID q = [] then fresh else cq_requestID q); s = snd st in
      (map_option (AddKeyTokens lib now (cq_apiKey q) (cq_tokens q)) (fst st),
       s\<lparr> lg_requests := push_capped 50 (log_entry now i q) (lg_requests s),
          lg_tokenEvents := filter (\<lambda>e. fst e > now - minute) (lg_tokenEvents s @ [(now, cq_tokens q)]),
          lg_coldStarts := lg_coldStarts s + (if cq_status q = ''loading'' then 1 else 0),
          lg_warmHits := lg_warmHits s + (if cq_status q = ''warm'' then 1 else 0),
          lg_nodeStats := (if FindNode r (cq_node q) = None then lg_nodeStats s
                           else gm_put (cq_node q) (count_node q (gm_at zero_stats (lg_nodeStats s) (cq_node q))) (lg_nodeStats s)),
          lg_logChan := enqueue (log_row now i q) (lg_logChan s) \<rparr>))"

definition LogRequest ::
  "time_lib \<Rightarrow> gotime \<Rightarrow> string \<Rightarrow> completed \<Rightarrow> router \<Rightarrow> middleware option \<times> ledger \<Rightarrow> middleware option \<times> ledger" where
  "LogRequest lib now fresh q r st = LogRequestTimed lib now fresh (q\<lparr> cq_queueWaitMs := None, cq_cloudMs := None \<rparr>) r st"

definition TrackLocalRequestModel :: "gotime \<Rightarrow> string \<Rightarrow> string \<Rightarrow> int \<Rightarrow> int \<Rightarrow> ledger \<Rightarrow> ledger" where
  "TrackLocalRequestModel now keyName model tokens genDurationMs s0 =
     (let s = IncrSpill keyName ''local'' s0;
          saved = cost_of (lg_refCostPer1K s) tokens
      in s\<lparr> lg_localCount := lg_localCount s + 1, lg_localTokens := lg_localTokens s + tokens,
            lg_analytics := recordLocal now model tokens genDurationMs (lg_analytics s),
            lg_statsChan := enqueue ((hour_of now, empty_hour\<lparr> hr_LocalRequests := 1, hr_Tokens := tokens, hr_GenDurationMs := genDurationMs \<rparr>),
               (model, \<lparr> mr_Requests = 1, mr_Tokens = tokens, mr_CostUSD = saved \<rparr>)) (lg_statsChan s) \<rparr>)"

definition TrackCloudCostModel :: "gotime \<Rightarrow> string \<Rightarrow> string \<Rightarrow> string \<Rightarrow> float64 \<Rightarrow> int \<Rightarrow> ledger \<Rightarrow> ledger" where
  "TrackCloudCostModel now keyName provider model costPer1K tokens s =
     (let cost = cost_of costPer1K tokens;
          s1 = s\<lparr> lg_cloudCount := lg_cloudCount s + 1, lg_cloudTokens := lg_cloudTokens s + tokens,
                  lg_cloudSpentUSD := fadd (lg_cloudSpentUSD s) cost,
                  lg_analytics := recordCloud now model costPer1K tokens (lg_analytics s) \<rparr>;
          s2 = IncrSpill keyName provider s1
      in on_books (UpsertModelStat model \<lparr> mr_Requests = 1, mr_Tokens = tokens, mr_CostUSD = cost \<rparr>)
           (on_books (UpsertHourlyBucket (hour_of now) (empty_hour\<lparr> hr_CloudRequests := 1, hr_Tokens := tokens, hr_CostUSD := cost \<rparr>)) s2))"

text \<open>One step of the asynchronous writer on either queue, and the drain at shutdown.\<close>

definition write_log :: "ledger \<Rightarrow> ledger" where
  "write_log s = (case lg_logChan s of [] \<Rightarrow> s | rec # rest \<Rightarrow> on_books (AppendRequest rec) (s\<lparr> lg_logChan := rest \<rparr>))"

definition write_stats :: "ledger \<Rightarrow> ledger" where
  "write_stats s =
     (case lg_statsChan s of
        [] \<Rightarrow> s
      | ((h, bucket), (model, stat)) # rest \<Rightarrow>
          on_books (UpsertModelStat model stat) (on_books (UpsertHourlyBucket h bucket) (s\<lparr> lg_statsChan := rest \<rparr>)))"

definition drain :: "ledger \<Rightarrow> ledger" where
  "drain s = (write_stats ^^ length (lg_statsChan s)) ((write_log ^^ length (lg_logChan s)) s)"

section \<open>Budgets\<close>

text \<open>The start of the UTC day and month of an instant; UTC days are multiples of 24 hours.\<close>

definition day_start :: "gotime \<Rightarrow> gotime" where
  "day_start now = now div (24 * hour) * (24 * hour)"

definition cloudSpendSince :: "gotime \<Rightarrow> ledger \<Rightarrow> float64" where
  "cloudSpendSince since s =
     (case HourlyBuckets since (lg_books s) of None \<Rightarrow> 0 | Some rows \<Rightarrow> fold (\<lambda>(_, r) total. fadd total (hr_CostUSD r)) rows 0)"

datatype budget_reason =
  DailyCap float64 float64 | MonthlyCap float64 float64 | KeyDailyCap string float64 float64 | KeyMonthlyCap string float64 float64

text \<open>A cap that is set and reached.\<close>

definition reached :: "float64 \<Rightarrow> float64 option \<Rightarrow> bool" where
  "reached limit spent \<longleftrightarrow> limit > 0 \<and> (case spent of None \<Rightarrow> False | Some x \<Rightarrow> x \<ge> limit)"

text \<open>\<open>month_start\<close> and \<open>sql_sum\<close> are the calendar and SQLite's sum.\<close>

definition CloudBudgetExceeded ::
  "(gotime \<Rightarrow> gotime) \<Rightarrow> (float64 list \<Rightarrow> float64) \<Rightarrow> gotime \<Rightarrow> string \<Rightarrow> middleware option \<Rightarrow> ledger \<Rightarrow> budget_reason option" where
  "CloudBudgetExceeded month_start sql_sum now keyName auth s =
     (let dayStart = day_start now; monthStart = month_start now;
          daily = cloudSpendSince dayStart s; monthly = cloudSpendSince monthStart s in
      if reached (lg_DailyUSDCap s) (Some daily) then Some (DailyCap (lg_DailyUSDCap s) daily)
      else if reached (lg_MonthlyUSDCap s) (Some monthly) then Some (MonthlyCap (lg_MonthlyUSDCap s) monthly)
      else case auth of
        None \<Rightarrow> None
      | Some m \<Rightarrow>
          if keyName = [] then None
          else case KeyUsdCaps m keyName of
            None \<Rightarrow> None
          | Some (keyDaily, keyMonthly) \<Rightarrow>
              (let d = KeySpendSince sql_sum keyName dayStart (lg_books s); mo = KeySpendSince sql_sum keyName monthStart (lg_books s) in
               if reached keyDaily d then Some (KeyDailyCap keyName keyDaily (the d))
               else if reached keyMonthly mo then Some (KeyMonthlyCap keyName keyMonthly (the mo))
               else None))"

definition budgetPct :: "float64 \<Rightarrow> float64 \<Rightarrow> float64" where
  "budgetPct spent limit = (if limit \<le> 0 then 0 else fdiv spent limit)"

record budget_entry =
  be_Name :: string
  be_DailySpent :: float64
  be_DailyCap :: float64
  be_DailyPct :: float64
  be_MonthlySpent :: float64
  be_MonthlyCap :: float64
  be_MonthlyPct :: float64

definition budget_entry_of :: "string \<Rightarrow> float64 \<Rightarrow> float64 \<Rightarrow> float64 \<Rightarrow> float64 \<Rightarrow> budget_entry" where
  "budget_entry_of name ds dc ms mc =
     \<lparr> be_Name = name, be_DailySpent = ds, be_DailyCap = dc, be_DailyPct = budgetPct ds dc,
       be_MonthlySpent = ms, be_MonthlyCap = mc, be_MonthlyPct = budgetPct ms mc \<rparr>"

fun key_entries ::
  "(gotime \<Rightarrow> string \<Rightarrow> float64) \<Rightarrow> gotime \<Rightarrow> gotime \<Rightarrow> middleware \<Rightarrow> string list \<Rightarrow> string list \<Rightarrow> budget_entry list" where
  "key_entries spend dayStart monthStart m done [] = []"
| "key_entries spend dayStart monthStart m done (name # names) =
     (if name \<in> set done then key_entries spend dayStart monthStart m done names
      else case KeyUsdCaps m name of
        None \<Rightarrow> key_entries spend dayStart monthStart m (name # done) names
      | Some (daily, monthly) \<Rightarrow>
          (if daily \<le> 0 \<and> monthly \<le> 0 then key_entries spend dayStart monthStart m (name # done) names
           else budget_entry_of name (spend dayStart name) daily (spend monthStart name) monthly
                  # key_entries spend dayStart monthStart m (name # done) names))"

text \<open>\<open>names\<close> are the configured keys followed by the stored ones that are not revoked.\<close>

definition handleCloudBudgetStatus ::
  "(gotime \<Rightarrow> gotime) \<Rightarrow> (float64 list \<Rightarrow> float64) \<Rightarrow> gotime \<Rightarrow> string list \<Rightarrow> middleware option \<Rightarrow> ledger
     \<Rightarrow> float64 \<times> budget_entry \<times> budget_entry list" where
  "handleCloudBudgetStatus month_start sql_sum now names auth s =
     (let dayStart = day_start now; monthStart = month_start now;
          spend = (\<lambda>since name. case KeySpendSince sql_sum name since (lg_books s) of None \<Rightarrow> 0 | Some x \<Rightarrow> x) in
      (lg_SoftBudgetPct s,
       budget_entry_of [] (cloudSpendSince dayStart s) (lg_DailyUSDCap s) (cloudSpendSince monthStart s) (lg_MonthlyUSDCap s),
       case auth of None \<Rightarrow> [] | Some m \<Rightarrow> key_entries spend dayStart monthStart m [] names))"

definition savingsUSD :: "ledger \<Rightarrow> float64 option \<times> float64 option" where
  "savingsUSD s =
     (if lg_localCount s > 0 \<and> lg_localTokens s = 0 then None
      else Some (fmul (fdiv (f_of_int (lg_localTokens s)) 1000) (lg_refCostPer1K s)),
      if lg_cloudCount s > 0 \<and> lg_cloudTokens s = 0 then None else Some (lg_cloudSpentUSD s))"

section \<open>Restart\<close>

definition flushCounters :: "ledger \<Rightarrow> ledger" where
  "flushCounters s =
     (let s1 = on_books (SetCounters \<lparr> ct_LocalRequests = lg_localCount s, ct_CloudRequests = lg_cloudCount s,
                                       ct_TotalTokens = lg_localTokens s, ct_CloudSpentUSD = lg_cloudSpentUSD s \<rparr>) s
      in if lg_cloudTokens s = lg_cloudTokensFlushed s \<or> \<not> bk_up (lg_books s) then s1
         else (on_books (\<lambda>b. b\<lparr> bk_cloud_tokens := Some (SavedInt (lg_cloudTokens s)) \<rparr>) s1)\<lparr> lg_cloudTokensFlushed := lg_cloudTokens s \<rparr>)"

text \<open>The counts of an audit status for a node, and the totals of its local requests.\<close>

definition audit_count :: "audit_row list \<Rightarrow> string \<Rightarrow> (audit_row \<Rightarrow> bool) \<Rightarrow> int" where
  "audit_count rows status p = int (length (filter (\<lambda>e. au_Status e = status \<and> p e) rows))"

definition restored_stats :: "audit_row list \<Rightarrow> string \<Rightarrow> node_stats \<Rightarrow> node_stats" where
  "restored_stats rows node t =
     (let local_rows = filter (\<lambda>e. \<not> au_Cloud e \<and> au_Node e = node) rows in
      t\<lparr> nt_ColdStarts := audit_count rows ''loading'' (\<lambda>e. au_Node e = node),
         nt_WarmHits := audit_count rows ''warm'' (\<lambda>e. au_Node e = node),
         nt_LatencySumMs := sum_list (map au_LatencyMs local_rows), nt_LatencyCount := int (length local_rows) \<rparr>)"

definition restored_log_entry :: "(int \<Rightarrow> string) \<Rightarrow> request_record \<Rightarrow> request_log" where
  "restored_log_entry itoa r =
     \<lparr> ql_ID = rq_ID r, ql_ApiKey = rq_KeyName r, ql_SourceIP = [], ql_Model = rq_Model r, ql_Node = rq_NodeName r,
       ql_Status = itoa (rq_StatusCode r), ql_HTTPStatus = rq_StatusCode r, ql_Latency = rq_LatencyMs r, ql_Tokens = rq_TokensUsed r,
       ql_TokensPerSec = 0, ql_Time = rq_TS r, ql_RoutingReason = rq_RoutingReason r, ql_RoutingDetail = rq_RoutingDetail r,
       ql_PrefillMs = rq_PrefillMs r, ql_QueueWaitMs = rq_QueueWaitMs r, ql_CloudMs = rq_CloudMs r \<rparr>"

text \<open>The last 10000 audit rows are read, newest first.\<close>

definition load_counters :: "ledger \<Rightarrow> ledger" where
  "load_counters s =
     (case GetCounters (lg_books s) of
        None \<Rightarrow> s
      | Some c \<Rightarrow> s\<lparr> lg_localCount := ct_LocalRequests c, lg_cloudCount := ct_CloudRequests c,
                    lg_localTokens := ct_TotalTokens c, lg_cloudSpentUSD := ct_CloudSpentUSD c \<rparr>)"

definition load_cloud_tokens :: "ledger \<Rightarrow> ledger" where
  "load_cloud_tokens s =
     (if \<not> bk_up (lg_books s) then s
      else case bk_cloud_tokens (lg_books s) of
        None \<Rightarrow> s
      | Some (SavedInt n) \<Rightarrow>
          if n < 0 then on_books (\<lambda>b. b\<lparr> bk_cloud_tokens := Some (SavedInt 0) \<rparr>) s
          else s\<lparr> lg_cloudTokens := n, lg_cloudTokensFlushed := n \<rparr>
      | Some (SavedText _) \<Rightarrow> on_books (\<lambda>b. b\<lparr> bk_cloud_tokens := Some (SavedInt 0) \<rparr>) s)"

definition LoadFromStore_server :: "(int \<Rightarrow> string) \<Rightarrow> gotime \<Rightarrow> router \<Rightarrow> ledger \<Rightarrow> ledger" where
  "LoadFromStore_server itoa now r s0 =
     (let s1 = load_cloud_tokens (load_counters s0);
          s2 = (case LastRequests 50 (lg_books s1) of
                  None \<Rightarrow> s1 | Some recs \<Rightarrow> s1\<lparr> lg_requests := map (restored_log_entry itoa) recs \<rparr>);
          s3 = (if \<not> bk_up (lg_books s2) then s2
                else
                  let rows = take 10000 (rev (bk_audit (lg_books s2))) in
                  s2\<lparr> lg_coldStarts := audit_count rows ''loading'' (\<lambda>_. True), lg_warmHits := audit_count rows ''warm'' (\<lambda>_. True),
                      lg_nodeStats := fold (\<lambda>n. gm_put (ns_Name n) (restored_stats rows (ns_Name n) (gm_at zero_stats (lg_nodeStats s2) (ns_Name n))))
                                        (r_nodes r) (lg_nodeStats s2) \<rparr>)
      in (case HourlyBuckets (now - 24 * hour) (lg_books s3) of
            None \<Rightarrow> s3 | Some rows \<Rightarrow> s3\<lparr> lg_analytics := restoreFromStore now rows (lg_analytics s3) \<rparr>))"

section \<open>The busiest models first\<close>

lemma exchange_round_mset: "mset (fst (exchange_round x ys) # snd (exchange_round x ys)) = mset (x # ys)"
  by (induction ys arbitrary: x) (simp_all add: Let_def case_prod_unfold)

lemma exchange_round_max: "y \<in> set (x # ys) \<Longrightarrow> stat_requests y \<le> stat_requests (fst (exchange_round x ys))"
proof (induction ys arbitrary: x y)
  case (Cons a ys)
  show ?case
  proof (cases "stat_requests a > stat_requests x")
    case True
    then show ?thesis using Cons.IH [of _ a] Cons.prems by (fastforce simp: Let_def case_prod_unfold)
  next
    case False
    then show ?thesis using Cons.IH [of _ x] Cons.prems by (fastforce simp: Let_def case_prod_unfold)
  qed
qed simp

lemma exchange_sort_mset: "mset (exchange_sort xs) = mset xs"
proof (induction xs rule: exchange_sort.induct)
  case (2 x xs)
  have "mset (exchange_sort (x # xs)) = mset (fst (exchange_round x xs) # snd (exchange_round x xs))"
    using 2 by (simp add: Let_def)
  then show ?case by (simp only: exchange_round_mset)
qed simp

lemma exchange_sort_sorted: "sorted_wrt (\<lambda>s t. stat_requests s \<ge> stat_requests t) (exchange_sort xs)"
proof (induction xs rule: exchange_sort.induct)
  case (2 x xs)
  let ?r = "exchange_round x xs"
  have "\<forall>y \<in> set (exchange_sort (snd ?r)). stat_requests y \<le> stat_requests (fst ?r)"
  proof
    fix y assume "y \<in> set (exchange_sort (snd ?r))"
    then have "y \<in># mset (fst ?r # snd ?r)" by (simp add: exchange_sort_mset flip: set_mset_mset)
    then have "y \<in> set (x # xs)" by (simp only: exchange_round_mset set_mset_mset)
    then show "stat_requests y \<le> stat_requests (fst ?r)" by (rule exchange_round_max)
  qed
  then show ?case using 2 by (simp add: Let_def)
qed simp

text \<open>
  The dashboard's model list is a permutation of the recorded models in order of their requests, busiest first; the numbers
  shown do not depend on the order in which the map of models is read.
\<close>

lemma top_models_sorted:
  "mset (topModels a) = mset (map snd (an_byModel a))
   \<and> sorted_wrt (\<lambda>s t. stat_requests s \<ge> stat_requests t) (topModels a)
   \<and> map stat_requests (topModels a) = rev (sort (map stat_requests (map snd (an_byModel a))))"
proof (intro conjI)
  show perm: "mset (topModels a) = mset (map snd (an_byModel a))" by (simp add: topModels_def exchange_sort_mset)
  show sorted: "sorted_wrt (\<lambda>s t. stat_requests s \<ge> stat_requests t) (topModels a)" by (simp add: topModels_def exchange_sort_sorted)
  have "sort (map stat_requests (map snd (an_byModel a))) = rev (map stat_requests (topModels a))"
  proof (rule properties_for_sort)
    show "mset (rev (map stat_requests (topModels a))) = mset (map stat_requests (map snd (an_byModel a)))"
      using arg_cong [OF perm, of "image_mset stat_requests"] by (simp add: multiset.map_comp)
    show "sorted (rev (map stat_requests (topModels a)))"
      using sorted by (simp add: sorted_wrt_rev sorted_wrt_map)
  qed
  then show "map stat_requests (topModels a) = rev (sort (map stat_requests (map snd (an_byModel a))))" by simp
qed

section \<open>The request log keeps its newest rows\<close>

lemma newest_subset: "set (newest_rows n rows) \<subseteq> set rows"
  unfolding newest_rows_def using set_take_subset by fastforce

lemma trim_log_set:
  assumes "distinct (map rq_ID rows)"
  shows "set (trim_log rows) = set (newest_rows 1000 rows)"
proof
  show "set (newest_rows 1000 rows) \<subseteq> set (trim_log rows)"
    using newest_subset [of 1000 rows] by (auto simp: trim_log_def)
  show "set (trim_log rows) \<subseteq> set (newest_rows 1000 rows)"
  proof
    fix r assume "r \<in> set (trim_log rows)"
    then obtain r' where r: "r \<in> set rows" "r' \<in> set (newest_rows 1000 rows)" "rq_ID r = rq_ID r'" by (auto simp: trim_log_def)
    then have "r' \<in> set rows" using newest_subset by blast
    then have "r = r'" using r assms by (simp add: distinct_map inj_on_def)
    then show "r \<in> set (newest_rows 1000 rows)" using r by simp
  qed
qed

lemma trim_log_distinct: "distinct (map rq_ID rows) \<Longrightarrow> distinct (map rq_ID (trim_log rows))"
  by (simp add: trim_log_def distinct_map_filter)

lemma newest_rows_length: "length (newest_rows n rows) \<le> n"
  by (simp add: newest_rows_def)

lemma newest_rows_newest:
  assumes "x \<in> set rows" "x \<notin> set (newest_rows n rows)" "y \<in> set (newest_rows n rows)"
  shows "rq_TS x \<le> rq_TS y"
proof -
  let ?s = "sort_key (\<lambda>r. - rq_TS r) rows"
  have "x \<in> set (take n ?s @ drop n ?s)" using assms(1) by simp
  then have x: "x \<in> set (drop n ?s)" using assms(2) by (simp only: set_append newest_rows_def) blast
  have "sorted (map (\<lambda>r. - rq_TS r) (take n ?s @ drop n ?s))" by simp
  then have "\<forall>a \<in> set (take n ?s). \<forall>b \<in> set (drop n ?s). - rq_TS a \<le> - rq_TS b"
    unfolding map_append sorted_append by auto
  then show ?thesis using x assms(3) by (force simp: newest_rows_def)
qed

lemma trim_log_length:
  assumes "distinct (map rq_ID rows)"
  shows "length (trim_log rows) = min 1000 (length rows)"
proof -
  have d: "distinct rows" using assms by (simp add: distinct_map)
  then have "distinct (newest_rows 1000 rows)" by (simp add: newest_rows_def)
  moreover have "distinct (trim_log rows)" using trim_log_distinct [OF assms] by (simp add: distinct_map)
  ultimately have "length (trim_log rows) = length (newest_rows 1000 rows)"
    using trim_log_set [OF assms] by (metis distinct_card)
  then show ?thesis by (simp add: newest_rows_def min.commute)
qed

text \<open>
  C33. The persisted request log is the newest part of what was logged: of the rows of the table and the new request, which joins them unless
  its identifier is already there, exactly the 1000 newest stay (all of them while there are no more), each identifier once, and a row that is
  dropped, be it the new one, is not newer than any that stays.
\<close>

theorem request_log_keeps_newest:
  assumes "distinct (map rq_ID (bk_request_log b))" "bk_up b"
  shows "let rows = set (bk_request_log b) \<union> (if rq_ID r \<in> rq_ID ` set (bk_request_log b) then {} else {stored_row r});
             kept = bk_request_log (AppendRequest r b)
         in distinct (map rq_ID kept) \<and> set kept \<subseteq> rows \<and> length kept = min 1000 (card rows)
            \<and> (\<forall>x \<in> rows - set kept. \<forall>y \<in> set kept. rq_TS x \<le> rq_TS y)"
proof -
  let ?rows = "if list_ex (\<lambda>x. rq_ID x = rq_ID r) (bk_request_log b) then bk_request_log b else bk_request_log b @ [stored_row r]"
  have log: "bk_request_log (AppendRequest r b) = trim_log ?rows" using assms(2) by (simp add: AppendRequest_def Let_def)
  have d: "distinct (map rq_ID ?rows)" using assms(1) by (auto simp: stored_row_def list_ex_iff)
  have set: "set (bk_request_log b) \<union> (if rq_ID r \<in> rq_ID ` set (bk_request_log b) then {} else {stored_row r}) = set ?rows"
    using image_iff [of "rq_ID r" rq_ID "set (bk_request_log b)"] by (auto simp: list_ex_iff)
  have newest: "rq_TS x \<le> rq_TS y" if "x \<in> set ?rows - set (trim_log ?rows)" "y \<in> set (trim_log ?rows)" for x y
    using that unfolding trim_log_set [OF d] by (intro newest_rows_newest [of x ?rows 1000 y]) auto
  have card: "card (set ?rows) = length ?rows" using d by (simp only: distinct_map distinct_card)
  have sub: "set (trim_log ?rows) \<subseteq> set ?rows" unfolding trim_log_def by (rule filter_is_subset)
  show ?thesis
    unfolding log set Let_def card using trim_log_distinct [OF d] trim_log_length [OF d] sub newest by blast
qed

text \<open>The witness: a full table.  The new request pushes out the oldest row.\<close>

definition demo_row :: "string \<Rightarrow> gotime \<Rightarrow> request_record" where
  "demo_row i t = \<lparr> rq_ID = i, rq_KeyName = ''k'', rq_Model = ''m'', rq_NodeName = ''n'', rq_StatusCode = 200, rq_LatencyMs = 5, rq_TokensUsed = 7,
     rq_CostUSD = 0, rq_RoutedTo = [], rq_IsCloud = False, rq_RoutingReason = [], rq_RoutingDetail = [], rq_PrefillMs = 0,
     rq_QueueWaitMs = None, rq_CloudMs = None, rq_TS = t * second \<rparr>"

definition full_books :: books where
  "full_books = \<lparr> bk_up = True, bk_request_log = map (\<lambda>i. demo_row (replicate i CHR ''x'') (int i)) [0..<1000], bk_hourly = [], bk_model_stats = [],
     bk_spill = [], bk_counters = None, bk_cloud_tokens = None, bk_audit = [], bk_model_configs = [] \<rparr>"

theorem request_log_keeps_newest_witness:
  "length (bk_request_log (AppendRequest (demo_row ''new'' 1000) full_books)) = 1000
   \<and> demo_row ''new'' 1000 \<in> set (bk_request_log (AppendRequest (demo_row ''new'' 1000) full_books))
   \<and> demo_row [] 0 \<notin> set (bk_request_log (AppendRequest (demo_row ''new'' 1000) full_books))"
proof -
  let ?old = "map (\<lambda>i. demo_row (replicate i CHR ''x'') (int i)) [0..<1000]" and ?new = "demo_row ''new'' 1000"
  let ?kept = "bk_request_log (AppendRequest ?new full_books)" and ?rows = "insert (demo_row ''new'' 1000) (set ?old)"
  have stored: "stored_row ?new = ?new" by (simp add: stored_row_def demo_row_def)
  have fresh: "rq_ID ?new \<notin> rq_ID ` set (bk_request_log full_books)"
  proof
    assume "rq_ID ?new \<in> rq_ID ` set (bk_request_log full_books)"
    then obtain i where "''new'' = replicate i CHR ''x''" by (auto simp: full_books_def demo_row_def)
    then have "hd ''new'' = CHR ''x''" by (cases i) simp_all
    then show False by simp
  qed
  have inj: "inj_on (\<lambda>i. replicate i CHR ''x'') A" for A by (metis inj_onI length_replicate)
  then have d: "distinct (map rq_ID (bk_request_log full_books))" by (simp add: full_books_def demo_row_def distinct_map comp_def)
  then have "distinct (bk_request_log full_books)" by (simp only: distinct_map)
  then have old: "distinct ?old" unfolding full_books_def books.simps .
  have "?new \<notin> set ?old" using fresh by (auto simp: full_books_def)
  from card_insert_disjoint [OF finite_set this] have card: "card ?rows = 1001" unfolding distinct_card [OF old] by simp
  have rows: "set (bk_request_log full_books) \<union> {stored_row ?new} = ?rows" by (simp add: stored full_books_def)
  have "bk_up full_books" by (simp add: full_books_def)
  note kept = request_log_keeps_newest [OF d this, of ?new, unfolded Let_def if_not_P [OF fresh] rows]
  note k = kept [THEN conjunct1] kept [THEN conjunct2, THEN conjunct1] kept [THEN conjunct2, THEN conjunct2, THEN conjunct1]
  have newest: "rq_TS x \<le> rq_TS y" if "x \<in> ?rows - set ?kept" "y \<in> set ?kept" for x y
    using kept that by blast
  have len: "length ?kept = 1000" unfolding k(3) card by simp
  have "card (set ?kept) = 1000" using k(1) len by (metis distinct_card distinct_map length_map)
  then have "card (?rows - set ?kept) = 1" using card k(2) by (simp only: card_Diff_subset finite_set)
  then obtain x where x: "?rows - set ?kept = {x}" by (rule card_1_singletonE)
  have late: "0 < rq_TS y" if "y \<in> ?rows" "y \<noteq> demo_row [] 0" for y
  proof (cases "y = ?new")
    case False
    then have "y \<in> set ?old" using that(1) by blast
    then obtain i where y: "y = demo_row (replicate i CHR ''x'') (int i)" unfolding set_map by (rule imageE)
    then have "0 < i" using that(2) by (cases i) auto
    then show ?thesis by (simp add: y demo_row_def duration_defs)
  qed (simp add: demo_row_def duration_defs)
  have oldest: "demo_row [] 0 \<notin> set ?kept"
  proof
    assume "demo_row [] 0 \<in> set ?kept"
    moreover have "rq_TS (demo_row [] 0) = 0" by (simp add: demo_row_def)
    ultimately have "rq_TS x \<le> 0" "x \<noteq> demo_row [] 0" using newest [of x "demo_row [] 0"] x by auto
    then show False using late [of x] x by auto
  qed
  have "demo_row [] 0 \<in> ?rows" by (force intro: rev_image_eqI [of 0])
  then have "x = demo_row [] 0" using x oldest by auto
  moreover have "?new \<noteq> demo_row [] 0" by (simp add: demo_row_def)
  ultimately have "?new \<in> set ?kept" using x by auto
  then show ?thesis using len oldest by simp
qed

section \<open>What may happen to the accounts\<close>

text \<open>
  The steps of the accounts, with the key table the caller passes: requests are logged and tracked, the writer runs, counters are
  flushed, keys change.  A tracked cloud request has a token count, which is not negative, and a price that is not.
\<close>

inductive ledger_step :: "middleware option \<times> ledger \<Rightarrow> middleware option \<times> ledger \<Rightarrow> bool" where
  log: "ledger_step st (LogRequestTimed lib now fresh q r st)"
| local: "ledger_step (m, s) (m, TrackLocalRequestModel now key model tokens gen s)"
| cloud: "0 \<le> tokens \<Longrightarrow> 0 \<le> price \<Longrightarrow> ledger_step (m, s) (m, TrackCloudCostModel now key provider model price tokens s)"
| spill: "ledger_step (m, s) (m, IncrSpill key servedBy s)"
| write_row: "ledger_step (m, s) (m, write_log s)"
| write_job: "ledger_step (m, s) (m, write_stats s)"
| flush: "ledger_step (m, s) (m, flushCounters s)"
| keys: "ledger_step (m, s) (m', s)"

subsection \<open>Spend per key\<close>

text \<open>No row of the log, stored or queued, is marked as a cloud request.\<close>

definition no_cloud_rows :: "ledger \<Rightarrow> bool" where
  "no_cloud_rows s \<longleftrightarrow> (\<forall>r \<in> set (bk_request_log (lg_books s)) \<union> set (lg_logChan s). \<not> rq_IsCloud r)"

lemma on_books_simps [simp]:
  "lg_books (on_books f s) = f (lg_books s)" "lg_logChan (on_books f s) = lg_logChan s" "lg_statsChan (on_books f s) = lg_statsChan s"
  "lg_DailyUSDCap (on_books f s) = lg_DailyUSDCap s" "lg_MonthlyUSDCap (on_books f s) = lg_MonthlyUSDCap s"
  by (simp_all add: on_books_def)

lemma books_log_simps [simp]:
  "bk_request_log (UpsertHourlyBucket h d b) = bk_request_log b" "bk_request_log (UpsertModelStat model st b) = bk_request_log b"
  "bk_request_log (IncrSpillCounter k v b) = bk_request_log b" "bk_request_log (SetCounters c b) = bk_request_log b"
  by (simp_all add: UpsertHourlyBucket_def UpsertModelStat_def IncrSpillCounter_def SetCounters_def)

lemma AppendRequest_rows: "set (bk_request_log (AppendRequest r b)) \<subseteq> insert (stored_row r) (set (bk_request_log b))"
  by (auto simp: AppendRequest_def Let_def trim_log_def split: if_splits)

lemma enqueue_set: "set (enqueue x q) \<subseteq> insert x (set q)"
  by (auto simp: enqueue_def)

lemma write_log_no_cloud: "no_cloud_rows s \<Longrightarrow> no_cloud_rows (write_log s)"
proof (cases "lg_logChan s")
  case (Cons r rest)
  assume ok: "no_cloud_rows s"
  then have "\<not> rq_IsCloud (stored_row r)" by (simp add: no_cloud_rows_def Cons stored_row_def)
  then show ?thesis
    using ok AppendRequest_rows [of r "lg_books s"] by (auto simp: no_cloud_rows_def write_log_def Cons)
qed (simp add: write_log_def)

lemma ledger_step_no_cloud: "ledger_step st st' \<Longrightarrow> no_cloud_rows (snd st) \<Longrightarrow> no_cloud_rows (snd st')"
proof (induction rule: ledger_step.induct)
  case (log st lib now fresh q r)
  then show ?case
    using enqueue_set [of "log_row now (if cq_requestID q = [] then fresh else cq_requestID q) q" "lg_logChan (snd st)"]
    by (auto simp: no_cloud_rows_def LogRequestTimed_def Let_def log_row_def)
qed (auto simp: no_cloud_rows_def TrackLocalRequestModel_def TrackCloudCostModel_def IncrSpill_def write_stats_def flushCounters_def Let_def
       write_log_no_cloud [unfolded no_cloud_rows_def] split: list.split)

lemma ledger_steps_no_cloud: "ledger_step\<^sup>*\<^sup>* st st' \<Longrightarrow> no_cloud_rows (snd st) \<Longrightarrow> no_cloud_rows (snd st')"
  by (induction rule: rtranclp_induct) (auto intro: ledger_step_no_cloud)

lemma no_cloud_key_spend:
  assumes "no_cloud_rows s" "sql_sum [] = 0"
  shows "KeySpendSince sql_sum key since (lg_books s) = (if bk_up (lg_books s) then Some 0 else None)"
proof -
  have "filter (\<lambda>r. rq_KeyName r = key \<and> rq_IsCloud r \<and> rq_TS r div second \<ge> since div second) (bk_request_log (lg_books s)) = []"
    using assms(1) by (auto simp: no_cloud_rows_def filter_empty_conv)
  then show ?thesis using assms(2) by (simp add: KeySpendSince_def)
qed

text \<open>
  C27. The spend caps of a key are never enforced.  The rows the server writes for requests never carry the cloud mark or a cost,
  so from an empty log, after any requests whatever they cost, the spend the store reports for a key is zero, and with no global
  cap no request is refused, whatever caps the keys have.
\<close>

theorem key_caps_never_refuse:
  assumes "ledger_step\<^sup>*\<^sup>* (m, s) (m', s')" "bk_request_log (lg_books s) = []" "lg_logChan s = []" "sql_sum [] = 0"
    and "lg_DailyUSDCap s' \<le> 0" "lg_MonthlyUSDCap s' \<le> 0"
  shows "CloudBudgetExceeded month_start sql_sum now key m' s' = None
    \<and> (bk_up (lg_books s') \<longrightarrow> KeySpendSince sql_sum key since (lg_books s') = Some 0)"
proof -
  have "no_cloud_rows s'" using ledger_steps_no_cloud [OF assms(1)] assms(2,3) by (simp add: no_cloud_rows_def)
  note spend = no_cloud_key_spend [where sql_sum = sql_sum, OF this assms(4)]
  show ?thesis using assms(5,6) by (auto simp: CloudBudgetExceeded_def spend reached_def Let_def split: option.split)
qed

text \<open>The witness: a key with a cap of one dollar spends ten.\<close>

definition empty_books :: books where
  "empty_books =
     \<lparr> bk_up = True, bk_request_log = [], bk_hourly = [], bk_model_stats = [], bk_spill = [], bk_counters = None, bk_cloud_tokens = None,
       bk_audit = [], bk_model_configs = [] \<rparr>"

definition empty_ledger :: ledger where
  "empty_ledger =
     \<lparr> lg_books = empty_books, lg_requests = [], lg_tokenEvents = [], lg_localCount = 0, lg_cloudCount = 0, lg_localTokens = 0, lg_cloudTokens = 0,
       lg_cloudTokensFlushed = 0, lg_cloudSpentUSD = 0, lg_coldStarts = 0, lg_warmHits = 0, lg_refCostPer1K = 1 / 500,
       lg_analytics = \<lparr> an_refCostPer1K = 1 / 500, an_hourly = [], an_byModel = [] \<rparr>, lg_DailyUSDCap = 0, lg_MonthlyUSDCap = 0, lg_SoftBudgetPct = 0,
       lg_logChan = [], lg_statsChan = [], lg_nodeStats = [] \<rparr>"

definition capped_keys :: middleware where
  "capped_keys =
     \<lparr> mw_enabled = True, mw_keys = [], mw_byName = [(''team'', 0)],
       mw_heap = [(new_key 0 \<lparr> kf_Name = ''team'', kf_Key = ''t'', kf_RateLimit = 60, kf_Models = [], kf_ExpiresAt = [],
          kf_DailyLimit = 0, kf_MonthlyLimit = 0, kf_DailyUsdCap = 1, kf_MonthlyUsdCap = 1, kf_LocalOnly = False, kf_AllowLocalDegradation = False \<rparr>)],
       mw_expiryWarned = [], mw_expiryHook = False, mw_expiryAudited = [], mw_audit = [] \<rparr>"

definition cloud_done :: completed where
  "cloud_done =
     \<lparr> cq_requestID = ''r1'', cq_apiKey = ''team'', cq_sourceIP = [], cq_model = ''m'', cq_node = ''cloud:x'', cq_status = ''cloud'', cq_httpStatus = 200,
       cq_latencyMs = 900, cq_tokens = 40000, cq_prefillMs = 0, cq_decision = None, cq_queueWaitMs = None, cq_cloudMs = None \<rparr>"

lemma cost_example: "cost_of (1 / 4) 40000 = 10"
proof -
  have "fl (of_int 40000) = of_int 40000" "fl (of_int 10000) = of_int 10000" "fl (of_int 10) = of_int 10" by (rule fl_of_int; simp)+
  then show ?thesis by (simp add: cost_of_def float_op_defs)
qed

lemma key_caps_never_refuse_witness:
  "\<exists>s. lg_cloudSpentUSD s = 10 \<and> KeyUsdCaps capped_keys ''team'' = Some (1, 1)
     \<and> bk_request_log (lg_books s) = [stored_row (log_row (5 * second) ''r1'' cloud_done)]
     \<and> CloudBudgetExceeded (\<lambda>_. 0) sum_list (6 * second) ''team'' (Some capped_keys) s = None"
proof -
  let ?lib = "\<lparr> tl_date = \<lambda>_. (1970, 1, 1), tl_next_day = \<lambda>t. t, tl_next_midnight = \<lambda>t. t, tl_next_month = \<lambda>t. t, tl_parse_date = \<lambda>_. None,
     tl_parse_minute = \<lambda>_. None, tl_parse_rfc3339 = \<lambda>_. None \<rparr>"
  define s1 where "s1 = snd (LogRequestTimed ?lib (5 * second) [] cloud_done demo_one (Some capped_keys, empty_ledger))"
  define s2 where "s2 = TrackCloudCostModel (5 * second) ''team'' ''x'' ''m'' (1 / 4) 40000 s1"
  define s3 where "s3 = write_log s2"
  have run: "ledger_step\<^sup>*\<^sup>* (Some capped_keys, empty_ledger) (Some capped_keys, s3)"
  proof -
    have "ledger_step (Some capped_keys, empty_ledger) (LogRequestTimed ?lib (5 * second) [] cloud_done demo_one (Some capped_keys, empty_ledger))"
      by (rule ledger_step.log)
    moreover have "ledger_step (LogRequestTimed ?lib (5 * second) [] cloud_done demo_one (Some capped_keys, empty_ledger)) (Some capped_keys, s1)"
      unfolding s1_def by (metis ledger_step.keys prod.collapse)
    moreover have "ledger_step (Some capped_keys, s1) (Some capped_keys, s2)" unfolding s2_def by (rule ledger_step.cloud) simp_all
    moreover have "ledger_step (Some capped_keys, s2) (Some capped_keys, s3)" unfolding s3_def by (rule ledger_step.write_row)
    ultimately show ?thesis by (meson converse_rtranclp_into_rtranclp rtranclp.rtrancl_refl)
  qed
  have s1: "lg_books s1 = empty_books" "lg_logChan s1 = [log_row (5 * second) ''r1'' cloud_done]" "lg_cloudSpentUSD s1 = 0"
      "lg_DailyUSDCap s1 = 0" "lg_MonthlyUSDCap s1 = 0"
    by (simp_all add: s1_def LogRequestTimed_def Let_def cloud_done_def empty_ledger_def enqueue_def queue_cap_def)
  have "fl 10 = 10" using fl_of_int [of 10] by simp
  then have s2: "lg_logChan s2 = [log_row (5 * second) ''r1'' cloud_done]" "bk_request_log (lg_books s2) = []" "bk_up (lg_books s2)" "lg_cloudSpentUSD s2 = 10"
      "lg_DailyUSDCap s2 = 0" "lg_MonthlyUSDCap s2 = 0"
    using s1 by (simp_all add: s2_def TrackCloudCostModel_def IncrSpill_def Let_def cost_example fadd_def on_books_def empty_books_def
        UpsertModelStat_def UpsertHourlyBucket_def IncrSpillCounter_def)
  have s3: "bk_request_log (lg_books s3) = [stored_row (log_row (5 * second) ''r1'' cloud_done)]" "lg_cloudSpentUSD s3 = 10"
      "lg_DailyUSDCap s3 = 0" "lg_MonthlyUSDCap s3 = 0"
    using s2 by (simp_all add: s3_def write_log_def on_books_def AppendRequest_def trim_log_def newest_rows_def)
  have "CloudBudgetExceeded (\<lambda>_. 0) sum_list (6 * second) ''team'' (Some capped_keys) s3 = None"
    using key_caps_never_refuse [OF run, of sum_list "\<lambda>_. 0" "6 * second" "''team''"] s3(3,4)
    by (simp add: empty_ledger_def empty_books_def)
  moreover have "KeyUsdCaps capped_keys ''team'' = Some (1, 1)"
    by (simp add: KeyUsdCaps_def by_key_name_def capped_keys_def new_key_def)
  ultimately show ?thesis using s3 by blast
qed

subsection \<open>Spend of the fleet\<close>

text \<open>An amount as the code can hold one: representable and not negative.\<close>

definition money :: "float64 \<Rightarrow> bool" where
  "money c \<longleftrightarrow> fl c = c \<and> 0 \<le> c"

lemma money_add: "money a \<Longrightarrow> money b \<Longrightarrow> money (fadd a b) \<and> a \<le> fadd a b"
  by (auto simp: money_def fadd_def intro!: fl_nonneg) (metis add.right_neutral add_left_mono fl_mono)

lemma money_zero [simp]: "money 0"
  by (simp add: money_def)

lemma money_cost: "0 \<le> price \<Longrightarrow> 0 \<le> tokens \<Longrightarrow> money (cost_of price tokens)"
  by (simp add: money_def cost_of_def float_op_defs fl_nonneg)

lemma fadd_mono: "a \<le> a' \<Longrightarrow> b \<le> b' \<Longrightarrow> fadd a b \<le> fadd a' b'"
  by (simp add: fadd_def fl_mono add_mono)

text \<open>Adding up a list never loses to adding up one it embeds in with smaller amounts.\<close>

lemma fold_spend_mono:
  "list_emb (\<lambda>x y. hr_CostUSD (snd x) \<le> hr_CostUSD (snd y)) xs ys \<Longrightarrow> \<forall>y \<in> set ys. money (hr_CostUSD (snd y)) \<Longrightarrow>
   \<forall>x \<in> set xs. money (hr_CostUSD (snd x)) \<Longrightarrow> a \<le> a' \<Longrightarrow> money a \<Longrightarrow> money a' \<Longrightarrow>
   fold (\<lambda>(_, r) total. fadd total (hr_CostUSD r)) xs a \<le> fold (\<lambda>(_, r) total. fadd total (hr_CostUSD r)) ys a'"
proof (induction arbitrary: a a' rule: list_emb.induct)
  case (list_emb_Nil ys)
  then show ?case
  proof (induction ys arbitrary: a')
    case (Cons y ys)
    have step: "a' \<le> fadd a' (hr_CostUSD (snd y))" "money (fadd a' (hr_CostUSD (snd y)))"
      using money_add [OF Cons.prems(5)] Cons.prems(1) by auto
    show ?case using Cons.IH [of "fadd a' (hr_CostUSD (snd y))"] Cons.prems step by (simp add: case_prod_unfold)
  qed simp
next
  case (list_emb_Cons xs ys y)
  have step: "a' \<le> fadd a' (hr_CostUSD (snd y))" "money (fadd a' (hr_CostUSD (snd y)))"
    using money_add [OF list_emb_Cons.prems(5)] list_emb_Cons.prems(1) by auto
  show ?case using list_emb_Cons.IH [of a "fadd a' (hr_CostUSD (snd y))"] list_emb_Cons.prems step by (simp add: case_prod_unfold)
next
  case (list_emb_Cons2 x y xs ys)
  have step: "money (fadd a (hr_CostUSD (snd x)))" "money (fadd a' (hr_CostUSD (snd y)))"
    using money_add [OF list_emb_Cons2.prems(4)] money_add [OF list_emb_Cons2.prems(5)] list_emb_Cons2.prems(1,2) by auto
  show ?case
    using list_emb_Cons2.IH [of "fadd a (hr_CostUSD (snd x))" "fadd a' (hr_CostUSD (snd y))"] list_emb_Cons2 step
    by (simp add: case_prod_unfold fadd_mono)
qed

text \<open>Tables with the same or more rows and the same or higher values embed, once in the order of their keys.\<close>

lemma sorted_emb:
  assumes "sorted (map fst xs)" "distinct (map fst xs)" "sorted (map fst ys)" "distinct (map fst ys)"
    and "\<forall>k v. gm_get xs k = Some v \<longrightarrow> (\<exists>w. gm_get ys k = Some w \<and> R v w)"
  shows "list_emb (\<lambda>x y. R (snd x) (snd y)) xs (ys :: ('k :: linorder \<times> 'v) list)"
  using assms
proof (induction ys arbitrary: xs)
  case Nil
  have "xs = []"
  proof (cases xs)
    case (Cons x l)
    then show ?thesis using Nil.prems(5) [rule_format, of "fst x" "snd x"] by (cases x) simp
  qed
  then show ?case by simp
next
  case (Cons y ys)
  show ?case
  proof (cases xs)
    case xs: (Cons x xs')
    have sub: "k \<in> fst ` set (y # ys)" if "k \<in> fst ` set xs" for k
      using that Cons.prems(5) unfolding gm_key_iff by blast
    show ?thesis
    proof (cases "fst x = fst y")
      case True
      have "R (snd x) (snd y)" using Cons.prems(5) [rule_format, of "fst x" "snd x"] True by (cases x; cases y) (simp add: xs)
      moreover have "\<forall>k v. gm_get xs' k = Some v \<longrightarrow> (\<exists>w. gm_get ys k = Some w \<and> R v w)"
      proof (intro allI impI)
        fix k v assume k: "gm_get xs' k = Some v"
        then have "k \<in> fst ` set xs'" by (rule gm_key)
        moreover have "fst x \<notin> fst ` set xs'" using Cons.prems(2) by (simp add: xs)
        ultimately have "k \<noteq> fst x" by blast
        then show "\<exists>w. gm_get ys k = Some w \<and> R v w" using Cons.prems(5) [rule_format, of k v] k True by (cases x; cases y) (simp add: xs)
      qed
      ultimately show ?thesis using Cons.IH [of xs'] Cons.prems(1-4) by (simp add: xs)
    next
      case False
      have "fst y < fst x"
      proof -
        have "fst x \<in> fst ` set ys" using sub [of "fst x"] False by (auto simp: xs)
        then have "fst y \<le> fst x" using Cons.prems(3) by auto
        then show ?thesis using False by simp
      qed
      then have "\<forall>k \<in> fst ` set xs. k \<noteq> fst y" using Cons.prems(1) by (auto simp: xs)
      have "gm_get (y # ys) k = gm_get ys k" if "gm_get xs k = Some v" for k v
      proof -
        have "k \<in> fst ` set xs" using that by (rule gm_key)
        then have "k \<noteq> fst y" using \<open>\<forall>k \<in> fst ` set xs. k \<noteq> fst y\<close> by blast
        then show ?thesis by (cases y) simp
      qed
      then have "\<forall>k v. gm_get xs k = Some v \<longrightarrow> (\<exists>w. gm_get ys k = Some w \<and> R v w)"
        using Cons.prems(5) by simp
      then show ?thesis using Cons.IH [of xs] Cons.prems(1-4) by (intro list_emb_Cons) simp
    qed
  qed simp
qed

definition hours_ok :: "books \<Rightarrow> bool" where
  "hours_ok b \<longleftrightarrow> gm_wf (bk_hourly b) \<and> (\<forall>h r. gm_get (bk_hourly b) h = Some r \<longrightarrow> money (hr_CostUSD r))"

definition ledger_ok :: "ledger \<Rightarrow> bool" where
  "ledger_ok s \<longleftrightarrow> hours_ok (lg_books s) \<and> (\<forall>j \<in> set (lg_statsChan s). money (hr_CostUSD (snd (fst j))))"

text \<open>The second table has every hour of the first, with no less spend.\<close>

definition spent_le :: "books \<Rightarrow> books \<Rightarrow> bool" where
  "spent_le b b' \<longleftrightarrow> bk_up b' = bk_up b
     \<and> (\<forall>h r. gm_get (bk_hourly b) h = Some r \<longrightarrow> (\<exists>r'. gm_get (bk_hourly b') h = Some r' \<and> hr_CostUSD r \<le> hr_CostUSD r'))"

lemma spent_le_refl [simp]: "spent_le b b"
  by (simp add: spent_le_def)

lemma spent_le_trans: "spent_le a b \<Longrightarrow> spent_le b c \<Longrightarrow> spent_le a c"
  unfolding spent_le_def by (meson order_trans)

lemma spent_le_same: "bk_up b' = bk_up b \<Longrightarrow> bk_hourly b' = bk_hourly b \<Longrightarrow> spent_le b b'"
  by (simp add: spent_le_def)

lemma filter_map_get: "gm_get (filter (\<lambda>(k, v). p k) m) k = (if p k then gm_get m k else None)"
  by (induction m) auto

lemma rows_filtered:
  assumes "hours_ok b" "bk_up b"
  obtains rows where "HourlyBuckets since b = Some rows" "sorted (map fst rows)" "distinct (map fst rows)"
    "\<And>h. gm_get rows h = (if h * 3600 \<ge> since div second then gm_get (bk_hourly b) h else None)"
    "\<forall>x \<in> set rows. money (hr_CostUSD (snd x))"
proof -
  define f where "f = filter (\<lambda>(h, r). h * 3600 \<ge> since div second) (bk_hourly b)"
  have wf: "gm_wf f" using assms(1) by (auto simp: hours_ok_def gm_wf_def f_def distinct_map_filter)
  have get: "gm_get f h = (if h * 3600 \<ge> since div second then gm_get (bk_hourly b) h else None)" for h
    unfolding f_def by (rule filter_map_get)
  have "money (hr_CostUSD (snd x))" if "x \<in> set f" for x
  proof -
    have "gm_get f (fst x) = Some (snd x)" using that wf unfolding gm_wf_def by (intro map_of_is_SomeI) simp_all
    then show ?thesis using assms(1) get unfolding hours_ok_def by (metis option.discI)
  qed
  then show ?thesis
    using that [of "sort_key fst f"] assms(2) wf get
    by (simp add: HourlyBuckets_def f_def [symmetric] sort_key_get sort_key_wf [unfolded gm_wf_def] gm_wf_def)
qed

lemma spend_mono:
  assumes "hours_ok (lg_books s)" "hours_ok (lg_books s')" "spent_le (lg_books s) (lg_books s')"
  shows "cloudSpendSince since s \<le> cloudSpendSince since s'"
proof (cases "bk_up (lg_books s)")
  case True
  then have up: "bk_up (lg_books s')" using assms(3) by (simp add: spent_le_def)
  obtain xs where xs: "HourlyBuckets since (lg_books s) = Some xs" "sorted (map fst xs)" "distinct (map fst xs)"
    "\<And>h. gm_get xs h = (if h * 3600 \<ge> since div second then gm_get (bk_hourly (lg_books s)) h else None)"
    "\<forall>x \<in> set xs. money (hr_CostUSD (snd x))"
    using rows_filtered [OF assms(1) True, of since] by blast
  obtain ys where ys: "HourlyBuckets since (lg_books s') = Some ys" "sorted (map fst ys)" "distinct (map fst ys)"
    "\<And>h. gm_get ys h = (if h * 3600 \<ge> since div second then gm_get (bk_hourly (lg_books s')) h else None)"
    "\<forall>x \<in> set ys. money (hr_CostUSD (snd x))"
    using rows_filtered [OF assms(2) up, of since] by blast
  have "\<forall>h r. gm_get xs h = Some r \<longrightarrow> (\<exists>r'. gm_get ys h = Some r' \<and> hr_CostUSD r \<le> hr_CostUSD r')"
    using assms(3) by (simp add: xs(4) ys(4) spent_le_def)
  from fold_spend_mono [OF sorted_emb [OF xs(2,3) ys(2,3) this] ys(5) xs(5), of 0 0]
  show ?thesis by (simp add: cloudSpendSince_def xs(1) ys(1))
next
  case False
  then show ?thesis using assms(3) by (simp add: cloudSpendSince_def HourlyBuckets_def spent_le_def)
qed

lemma upsert_hour:
  assumes "hours_ok b" "money (hr_CostUSD d)"
  shows "hours_ok (UpsertHourlyBucket h d b) \<and> spent_le b (UpsertHourlyBucket h d b)"
proof (cases "bk_up b \<and> gm_get (bk_hourly b) h \<noteq> None")
  case True
  then obtain old where old: "gm_get (bk_hourly b) h = Some old" by blast
  then have "money (hr_CostUSD old)" using assms(1) by (simp add: hours_ok_def)
  then have "money (fadd (hr_CostUSD old) (hr_CostUSD d))" "hr_CostUSD old \<le> fadd (hr_CostUSD old) (hr_CostUSD d)"
    using money_add assms(2) by blast+
  then show ?thesis using assms True old
    by (auto simp: hours_ok_def spent_le_def UpsertHourlyBucket_def add_hour_def gm_get_put)
next
  case False
  then show ?thesis using assms by (auto simp: hours_ok_def spent_le_def UpsertHourlyBucket_def gm_get_put)
qed

lemma hours_other [simp]:
  "bk_hourly (UpsertModelStat model d b) = bk_hourly b" "bk_hourly (IncrSpillCounter k v b) = bk_hourly b" "bk_hourly (SetCounters c b) = bk_hourly b"
  "bk_hourly (AppendRequest r b) = bk_hourly b"
  "bk_up (UpsertModelStat model d b) = bk_up b" "bk_up (IncrSpillCounter k v b) = bk_up b" "bk_up (SetCounters c b) = bk_up b"
  "bk_up (AppendRequest r b) = bk_up b" "bk_up (UpsertHourlyBucket h u b) = bk_up b"
  by (simp_all add: UpsertModelStat_def IncrSpillCounter_def SetCounters_def AppendRequest_def UpsertHourlyBucket_def Let_def)

lemma hours_ok_same: "bk_hourly b' = bk_hourly b \<Longrightarrow> hours_ok b' = hours_ok b"
  by (simp add: hours_ok_def)

definition caps_of :: "ledger \<Rightarrow> float64 \<times> float64" where
  "caps_of s = (lg_DailyUSDCap s, lg_MonthlyUSDCap s)"

definition tracks :: "ledger \<Rightarrow> ledger \<Rightarrow> bool" where
  "tracks s s' \<longleftrightarrow> (ledger_ok s \<longrightarrow> ledger_ok s' \<and> spent_le (lg_books s) (lg_books s')) \<and> caps_of s' = caps_of s"

lemma tracks_same:
  "bk_hourly (lg_books s') = bk_hourly (lg_books s) \<Longrightarrow> bk_up (lg_books s') = bk_up (lg_books s) \<Longrightarrow> set (lg_statsChan s') \<subseteq> set (lg_statsChan s)
     \<Longrightarrow> caps_of s' = caps_of s \<Longrightarrow> tracks s s'"
  unfolding tracks_def ledger_ok_def using hours_ok_same [of "lg_books s'" "lg_books s"] spent_le_same [of "lg_books s'" "lg_books s"] by blast

lemma tracks_trans: "tracks a b \<Longrightarrow> tracks b c \<Longrightarrow> tracks a c"
  unfolding tracks_def using spent_le_trans by metis

lemma spent_le_cong: "bk_hourly b' = bk_hourly c \<Longrightarrow> bk_up b' = bk_up c \<Longrightarrow> spent_le b b' = spent_le b c"
  by (simp add: spent_le_def)

lemma tracks_upsert:
  assumes "bk_hourly (lg_books s') = bk_hourly (UpsertHourlyBucket h d (lg_books s))" "bk_up (lg_books s') = bk_up (lg_books s)"
    and "set (lg_statsChan s') \<subseteq> set (lg_statsChan s)" "caps_of s' = caps_of s" "ledger_ok s \<Longrightarrow> money (hr_CostUSD d)"
  shows "tracks s s'"
proof -
  have "ledger_ok s' \<and> spent_le (lg_books s) (lg_books s')" if ok: "ledger_ok s"
  proof -
    have up: "hours_ok (UpsertHourlyBucket h d (lg_books s)) \<and> spent_le (lg_books s) (UpsertHourlyBucket h d (lg_books s))"
      using ok by (intro upsert_hour assms(5)) (simp_all add: ledger_ok_def)
    have "spent_le (lg_books s) (lg_books s') = spent_le (lg_books s) (UpsertHourlyBucket h d (lg_books s))"
      by (rule spent_le_cong) (simp_all add: assms(1,2))
    moreover have "hours_ok (lg_books s') = hours_ok (UpsertHourlyBucket h d (lg_books s))" by (rule hours_ok_same) (rule assms(1))
    ultimately show ?thesis using up ok assms(3) unfolding ledger_ok_def by blast
  qed
  then show ?thesis using assms(4) by (simp add: tracks_def)
qed

lemma upsert_hourly_cong: "bk_hourly b' = bk_hourly b \<Longrightarrow> bk_up b' = bk_up b \<Longrightarrow> bk_hourly (UpsertHourlyBucket h d b') = bk_hourly (UpsertHourlyBucket h d b)"
  by (simp add: UpsertHourlyBucket_def)

lemma track_local: "tracks s (TrackLocalRequestModel now key model tokens gen s)"
proof -
  let ?s' = "TrackLocalRequestModel now key model tokens gen s"
  have same: "bk_hourly (lg_books ?s') = bk_hourly (lg_books s)" "bk_up (lg_books ?s') = bk_up (lg_books s)" "caps_of ?s' = caps_of s"
    by (simp_all add: TrackLocalRequestModel_def IncrSpill_def Let_def caps_of_def)
  have jobs: "\<forall>j \<in> set (lg_statsChan ?s'). j \<in> set (lg_statsChan s) \<or> money (hr_CostUSD (snd (fst j)))"
    by (simp add: TrackLocalRequestModel_def IncrSpill_def Let_def enqueue_def empty_hour_def)
  have "ledger_ok s \<longrightarrow> ledger_ok ?s'" using jobs by (simp only: ledger_ok_def hours_ok_same [OF same(1)]) blast
  then show ?thesis using spent_le_same [OF same(2,1)] same(3) unfolding tracks_def by blast
qed

lemma track_cloud:
  assumes "0 \<le> tokens" "0 \<le> price"
  shows "tracks s (TrackCloudCostModel now key provider model price tokens s)"
proof (rule tracks_upsert)
  let ?d = "empty_hour\<lparr> hr_CloudRequests := 1, hr_Tokens := tokens, hr_CostUSD := cost_of price tokens \<rparr>"
  let ?s' = "TrackCloudCostModel now key provider model price tokens s"
  have "bk_hourly (lg_books ?s') = bk_hourly (UpsertHourlyBucket (hour_of now) ?d (IncrSpillCounter key provider (lg_books s)))"
    by (simp add: TrackCloudCostModel_def IncrSpill_def Let_def)
  then show "bk_hourly (lg_books ?s') = bk_hourly (UpsertHourlyBucket (hour_of now) ?d (lg_books s))"
    by (simp add: upsert_hourly_cong [of "IncrSpillCounter key provider (lg_books s)" "lg_books s"])
  show "money (hr_CostUSD ?d)" by (simp add: money_cost assms)
qed (simp_all add: TrackCloudCostModel_def IncrSpill_def Let_def caps_of_def)

lemma track_write_stats: "tracks s (write_stats s)"
proof (cases "lg_statsChan s")
  case (Cons j rest)
  obtain h d model st where j: "j = ((h, d), (model, st))" by (metis surj_pair)
  show ?thesis
  proof (rule tracks_upsert)
    show "bk_hourly (lg_books (write_stats s)) = bk_hourly (UpsertHourlyBucket h d (lg_books s))" by (simp add: write_stats_def Cons j)
    show "ledger_ok s \<Longrightarrow> money (hr_CostUSD d)" by (simp add: ledger_ok_def Cons j)
  qed (auto simp: write_stats_def Cons j caps_of_def)
qed (simp add: write_stats_def tracks_def)

lemma track_flush: "tracks s (flushCounters s)"
  by (rule tracks_same) (simp_all add: flushCounters_def Let_def caps_of_def)

lemma ledger_step_tracks: "ledger_step st st' \<Longrightarrow> tracks (snd st) (snd st')"
proof (induction rule: ledger_step.induct)
  case (log st lib now fresh q r)
  show ?case by (rule tracks_same) (simp_all add: LogRequestTimed_def Let_def caps_of_def)
next
  case (write_row m s)
  show ?case by (rule tracks_same) (simp_all add: write_log_def caps_of_def split: list.split)
next
  case (spill m s key servedBy)
  show ?case by (rule tracks_same) (simp_all add: IncrSpill_def caps_of_def)
next
  case (keys m s m')
  show ?case by (rule tracks_same) simp_all
qed (simp_all add: track_local track_cloud track_write_stats track_flush)

lemma ledger_steps_track: "ledger_step\<^sup>*\<^sup>* st st' \<Longrightarrow> tracks (snd st) (snd st')"
proof (induction rule: rtranclp_induct)
  case base
  show ?case by (rule tracks_same) simp_all
next
  case (step a b)
  then show ?case using ledger_step_tracks tracks_trans by blast
qed

text \<open>
  C28. A spent fleet budget stays spent.  Once a request is refused because the day's or the month's cap is reached, every request on
  the same day and month is refused, for every key, whatever is logged, tracked and written in between: the recorded spend
  never falls, in spite of the rounding of its sums.
\<close>

theorem spent_budget_stays_spent:
  assumes "CloudBudgetExceeded month_start sql_sum now [] m s \<noteq> None" "ledger_step\<^sup>*\<^sup>* (m, s) (m', s')" "ledger_ok s"
    and "day_start later = day_start now" "month_start later = month_start now"
  shows "CloudBudgetExceeded month_start sql_sum later key m' s' \<noteq> None
    \<and> cloudSpendSince since s \<le> cloudSpendSince since s'"
proof -
  have tr: "ledger_ok s'" "spent_le (lg_books s) (lg_books s')" "caps_of s' = caps_of s"
    using ledger_steps_track [OF assms(2)] assms(3) by (simp_all add: tracks_def)
  have mono: "cloudSpendSince t s \<le> cloudSpendSince t s'" for t
    using tr assms(3) by (intro spend_mono) (simp_all add: ledger_ok_def)
  have "reached (lg_DailyUSDCap s) (Some (cloudSpendSince (day_start now) s))
      \<or> reached (lg_MonthlyUSDCap s) (Some (cloudSpendSince (month_start now) s))"
    using assms(1) by (auto simp: CloudBudgetExceeded_def Let_def split: if_splits option.splits)
  then have "reached (lg_DailyUSDCap s') (Some (cloudSpendSince (day_start later) s'))
      \<or> reached (lg_MonthlyUSDCap s') (Some (cloudSpendSince (month_start later) s'))"
    using mono [of "day_start now"] mono [of "month_start now"] tr(3) assms(4,5) by (auto simp: reached_def caps_of_def)
  then have "CloudBudgetExceeded month_start sql_sum later key m' s' \<noteq> None" by (auto simp: CloudBudgetExceeded_def Let_def)
  then show ?thesis using mono by blast
qed

text \<open>The witness: a daily cap of five dollars, ten of which are spent.\<close>

lemma spent_budget_stays_spent_witness:
  "\<exists>s. CloudBudgetExceeded (\<lambda>_. 0) sum_list (6 * second) [] None s = Some (DailyCap 5 10)
     \<and> CloudBudgetExceeded (\<lambda>_. 0) sum_list (9 * second) ''team'' (Some capped_keys) (TrackLocalRequestModel (8 * second) ''team'' ''m'' 3 1 s) \<noteq> None"
proof -
  let ?s0 = "empty_ledger\<lparr> lg_DailyUSDCap := 5 \<rparr>"
  define s where "s = TrackCloudCostModel (5 * second) ''team'' ''x'' ''m'' (1 / 4) 40000 ?s0"
  have "tracks ?s0 s" unfolding s_def by (rule track_cloud) simp_all
  moreover have "ledger_ok ?s0" by (simp add: ledger_ok_def hours_ok_def empty_ledger_def empty_books_def)
  ultimately have ok: "ledger_ok s" by (simp add: tracks_def)
  have hours: "bk_hourly (lg_books s) = [(0, empty_hour\<lparr> hr_CloudRequests := 1, hr_Tokens := 40000, hr_CostUSD := 10 \<rparr>)]" "bk_up (lg_books s)"
      "lg_DailyUSDCap s = 5"
    by (simp_all add: s_def TrackCloudCostModel_def IncrSpill_def Let_def cost_example UpsertHourlyBucket_def hour_of_def hour_def duration_defs
        empty_ledger_def empty_books_def on_books_def UpsertModelStat_def IncrSpillCounter_def)
  have "fl 10 = 10" using fl_of_int [of 10] by simp
  then have "cloudSpendSince (day_start (6 * second)) s = 10"
    using hours by (simp add: cloudSpendSince_def HourlyBuckets_def day_start_def hour_def duration_defs fadd_def)
  then have exceeded: "CloudBudgetExceeded (\<lambda>_. 0) sum_list (6 * second) [] None s = Some (DailyCap 5 10)"
    using hours(3) by (simp add: CloudBudgetExceeded_def reached_def)
  have "ledger_step\<^sup>*\<^sup>* (None, s) (Some capped_keys, TrackLocalRequestModel (8 * second) ''team'' ''m'' 3 1 s)"
    by (meson ledger_step.keys ledger_step.local converse_rtranclp_into_rtranclp rtranclp.rtrancl_refl)
  then have "CloudBudgetExceeded (\<lambda>_. 0) sum_list (9 * second) ''team'' (Some capped_keys) (TrackLocalRequestModel (8 * second) ''team'' ''m'' 3 1 s) \<noteq> None"
    using spent_budget_stays_spent [of "\<lambda>_. 0" sum_list "6 * second" None s "Some capped_keys" _ "9 * second" "''team''"] exceeded ok
    by (simp add: day_start_def hour_def duration_defs)
  then show ?thesis using exceeded by blast
qed

section \<open>Restart\<close>

text \<open>The saved token count is the one last flushed.\<close>

definition flushed_ok :: "ledger \<Rightarrow> bool" where
  "flushed_ok s \<longleftrightarrow> bk_cloud_tokens (lg_books s) = Some (SavedInt (lg_cloudTokensFlushed s))
     \<or> (bk_cloud_tokens (lg_books s) = None \<and> lg_cloudTokensFlushed s = 0)"

lemma flush_books:
  assumes "bk_up (lg_books s)" "flushed_ok s"
  shows "bk_up (lg_books (flushCounters s))"
    "bk_counters (lg_books (flushCounters s)) = Some \<lparr> ct_LocalRequests = lg_localCount s, ct_CloudRequests = lg_cloudCount s,
       ct_TotalTokens = lg_localTokens s, ct_CloudSpentUSD = lg_cloudSpentUSD s \<rparr>"
    "bk_cloud_tokens (lg_books (flushCounters s)) = Some (SavedInt (lg_cloudTokens s))
       \<or> (bk_cloud_tokens (lg_books (flushCounters s)) = None \<and> lg_cloudTokens s = 0)"
    "bk_audit (lg_books (flushCounters s)) = bk_audit (lg_books s)"
  using assms by (auto simp: flushCounters_def SetCounters_def on_books_def flushed_ok_def Let_def)

lemma load_frames [simp]:
  "lg_books (load_counters s) = lg_books s"
  "lg_localCount (load_cloud_tokens s) = lg_localCount s" "lg_cloudCount (load_cloud_tokens s) = lg_cloudCount s"
  "lg_localTokens (load_cloud_tokens s) = lg_localTokens s" "lg_cloudSpentUSD (load_cloud_tokens s) = lg_cloudSpentUSD s"
  "lg_refCostPer1K (load_cloud_tokens s) = lg_refCostPer1K s" "lg_refCostPer1K (load_counters s) = lg_refCostPer1K s"
  "bk_up (lg_books (load_cloud_tokens s)) = bk_up (lg_books s)" "bk_audit (lg_books (load_cloud_tokens s)) = bk_audit (lg_books s)"
  by (simp_all add: load_counters_def load_cloud_tokens_def on_books_def split: option.split saved_count.split)

lemma load_server_counters:
  fixes s :: ledger
  defines "s1 \<equiv> load_cloud_tokens (load_counters s)"
  shows "lg_localCount (LoadFromStore_server itoa now r s) = lg_localCount s1" "lg_cloudCount (LoadFromStore_server itoa now r s) = lg_cloudCount s1"
    "lg_localTokens (LoadFromStore_server itoa now r s) = lg_localTokens s1" "lg_cloudTokens (LoadFromStore_server itoa now r s) = lg_cloudTokens s1"
    "lg_cloudSpentUSD (LoadFromStore_server itoa now r s) = lg_cloudSpentUSD s1" "lg_refCostPer1K (LoadFromStore_server itoa now r s) = lg_refCostPer1K s1"
  unfolding LoadFromStore_server_def s1_def [symmetric] Let_def by (simp_all split: option.split)

lemma load_server_warmth:
  assumes "bk_up (lg_books s)"
  shows "lg_coldStarts (LoadFromStore_server itoa now r s) = audit_count (take 10000 (rev (bk_audit (lg_books s)))) ''loading'' (\<lambda>_. True)"
    "lg_warmHits (LoadFromStore_server itoa now r s) = audit_count (take 10000 (rev (bk_audit (lg_books s)))) ''warm'' (\<lambda>_. True)"
  using assms unfolding LoadFromStore_server_def Let_def by (simp_all split: option.split)

text \<open>
  A flush and a restart keep the lifetime counters and with them the figures of the dashboard: a process that starts on the books another one
  flushed has its counts of local and cloud requests, its tokens, its cloud spend and its savings.
\<close>

lemma restart_keeps_counters:
  assumes "bk_up (lg_books s)" "flushed_ok s" "0 \<le> lg_cloudTokens s"
    and "lg_books s0 = lg_books (flushCounters s)" "lg_cloudTokens s0 = 0" "lg_refCostPer1K s0 = lg_refCostPer1K s"
  shows "lg_localCount (LoadFromStore_server itoa now r s0) = lg_localCount s
    \<and> lg_cloudCount (LoadFromStore_server itoa now r s0) = lg_cloudCount s
    \<and> lg_localTokens (LoadFromStore_server itoa now r s0) = lg_localTokens s
    \<and> lg_cloudTokens (LoadFromStore_server itoa now r s0) = lg_cloudTokens s
    \<and> lg_cloudSpentUSD (LoadFromStore_server itoa now r s0) = lg_cloudSpentUSD s
    \<and> savingsUSD (LoadFromStore_server itoa now r s0) = savingsUSD s"
proof -
  note flushed = flush_books [OF assms(1,2)]
  have counters: "lg_localCount (load_counters s0) = lg_localCount s" "lg_cloudCount (load_counters s0) = lg_cloudCount s"
      "lg_localTokens (load_counters s0) = lg_localTokens s" "lg_cloudSpentUSD (load_counters s0) = lg_cloudSpentUSD s"
      "lg_cloudTokens (load_counters s0) = 0"
    using flushed assms(4,5) by (simp_all add: load_counters_def GetCounters_def)
  have tokens: "lg_cloudTokens (load_cloud_tokens (load_counters s0)) = lg_cloudTokens s"
    using flushed(1,3) assms(3,4) counters(5) by (auto simp: load_cloud_tokens_def)
  have "savingsUSD (LoadFromStore_server itoa now r s0) = savingsUSD s"
    by (simp add: savingsUSD_def load_server_counters counters tokens assms(6))
  then show ?thesis by (simp add: load_server_counters counters tokens)
qed

text \<open>The witness: one local and one cloud request served.\<close>

text \<open>
  The cold starts and warm hits are counted from audit rows labelled \<open>loading\<close> and \<open>warm\<close>; where no row has such a label, as none that
  carries an HTTP code has, both restart at zero whatever they were.
\<close>

lemma restart_forgets_warmth:
  assumes "bk_up (lg_books s)" "\<forall>a \<in> set (bk_audit (lg_books s)). au_Status a \<noteq> ''loading'' \<and> au_Status a \<noteq> ''warm''"
  shows "lg_coldStarts (LoadFromStore_server itoa now r s) = 0 \<and> lg_warmHits (LoadFromStore_server itoa now r s) = 0"
proof -
  have none: "audit_count (take 10000 (rev (bk_audit (lg_books s)))) w (\<lambda>_. True) = 0" if "w = ''loading'' \<or> w = ''warm''" for w
  proof -
    have "set (take 10000 (rev (bk_audit (lg_books s)))) \<subseteq> set (bk_audit (lg_books s))"
      using set_take_subset [of 10000 "rev (bk_audit (lg_books s))"] by simp
    then have "filter (\<lambda>e. au_Status e = w) (take 10000 (rev (bk_audit (lg_books s)))) = []"
      using assms(2) that unfolding filter_empty_conv by fast
    then show ?thesis by (simp add: audit_count_def)
  qed
  show ?thesis using none [of "''loading''"] none [of "''warm''"] by (simp add: load_server_warmth [OF assms(1)])
qed

end
