(* ===== verification/Forwarding.thy ===== *)
theory Forwarding
  imports Request_Body Queue
begin

text \<open>
  What leaves the proxy with a request: the headers a node or a cloud provider is sent (\<^verbatim>\<open>internal/proxy/proxy.go\<close>), and the
  record of why a request goes to cloud (\<^verbatim>\<open>internal/proxy/cloud_route.go\<close>).
\<close>

section \<open>Headers\<close>

text \<open>\<^verbatim>\<open>http.Header\<close>: a key may have several lines.  \<^verbatim>\<open>Set\<close> and \<^verbatim>\<open>Del\<close> put the key into canonical form.\<close>

type_synonym headers = "(string, string list) gomap"

definition upper_ascii :: "char \<Rightarrow> char" where
  "upper_ascii c = (if of_char c \<ge> (97::nat) \<and> of_char c \<le> (122::nat) then char_of (of_char c - 32 :: nat) else c)"

definition is_token_char :: "char \<Rightarrow> bool" where
  "is_token_char c \<longleftrightarrow>
     (let n = (of_char c :: nat) in (48 \<le> n \<and> n \<le> 57) \<or> (65 \<le> n \<and> n \<le> 90) \<or> (97 \<le> n \<and> n \<le> 122))
     \<or> c \<in> set [CHR ''!'', CHR ''#'', CHR ''$'', CHR ''%'', CHR ''&'', CHR 0x27, CHR ''*'', CHR ''+'', CHR ''-'', CHR ''.'', CHR ''^'',
          CHR ''_'', CHR 0x60, CHR ''|'', CHR ''~'']"

fun title_case :: "bool \<Rightarrow> string \<Rightarrow> string" where
  "title_case up [] = []"
| "title_case up (c # cs) = (if up then upper_ascii c else lower_ascii c) # title_case (c = CHR ''-'') cs"

definition canonical_key :: "string \<Rightarrow> string" where
  "canonical_key k = (if list_all is_token_char k then title_case True k else k)"

definition h_get :: "headers \<Rightarrow> string \<Rightarrow> string list" where
  "h_get h k = gm_at [] h k"

definition h_set :: "string \<Rightarrow> string \<Rightarrow> headers \<Rightarrow> headers" where
  "h_set k v h = gm_put (canonical_key k) [v] h"

definition h_del :: "string \<Rightarrow> headers \<Rightarrow> headers" where
  "h_del k h = gm_del (canonical_key k) h"

definition hop_headers :: "string list" where
  "hop_headers = [''Connection'', ''Keep-Alive'', ''Proxy-Connection'', ''Te'', ''Trailer'', ''Transfer-Encoding'', ''Upgrade'']"

definition connection_names :: "headers \<Rightarrow> string list" where
  "connection_names h =
     filter (\<lambda>n. n \<noteq> []) (map TrimSpace (concat (map (split_char CHR '','') (h_get h ''Connection''))))"

definition stripHopByHop :: "headers \<Rightarrow> headers" where
  "stripHopByHop h = fold h_del hop_headers (fold h_del (connection_names h) h)"

text \<open>The headers of the request to a node, from those of the client.\<close>

definition local_headers :: "string \<Rightarrow> headers \<Rightarrow> headers" where
  "local_headers requestID h =
     (let out = stripHopByHop (filter (\<lambda>(k, _). k \<noteq> ''Authorization'' \<and> k \<noteq> ''Cookie'') h) in
      if requestID \<noteq> [] then h_set ''X-Request-ID'' requestID out else out)"

definition cloudForwardedHeaders :: "string list" where
  "cloudForwardedHeaders = [''Content-Type'', ''Accept'']"

text \<open>The headers of the request to a provider; the entry without lines stops \<^verbatim>\<open>ReverseProxy\<close> adding the client's address.\<close>

definition cloud_headers :: "string \<Rightarrow> string \<Rightarrow> headers \<Rightarrow> headers" where
  "cloud_headers requestID apiKey h =
     (let out = fold (\<lambda>name acc. case gm_get h name of None \<Rightarrow> acc | Some v \<Rightarrow> gm_put name v acc) cloudForwardedHeaders [];
          h1 = h_set ''User-Agent'' ''marbor'' (stripHopByHop out);
          h2 = (if requestID \<noteq> [] then h_set ''X-Request-ID'' requestID h1 else h1)
      in h_set ''Authorization'' (''Bearer '' @ apiKey) (gm_put ''X-Forwarded-For'' [] h2))"

text \<open>The caller's address; \<open>fwd\<close> and \<open>real_ip\<close> are the first lines of the two headers, empty when there is none.\<close>

definition client_ip :: "bool \<Rightarrow> string \<Rightarrow> string \<Rightarrow> string \<Rightarrow> string" where
  "client_ip trust remote fwd real_ip =
     (if \<not> trust then remote
      else if fwd \<noteq> [] then TrimSpace (before_char CHR '','' fwd)
      else if real_ip \<noteq> [] then real_ip else remote)"

section \<open>Why a request goes to cloud\<close>

record cloud_route =
  cr_reason :: string
  cr_noRoute :: "no_route option"
  cr_waited :: duration
  cr_base :: "routing_decision option"
  cr_cloudStart :: gotime

definition CloudReasonNoNodeServesModel :: string where "CloudReasonNoNodeServesModel = ''no_node_serves_model''"
definition CloudReasonAllNodesUnavailable :: string where "CloudReasonAllNodesUnavailable = ''all_nodes_unavailable''"
definition CloudReasonSaturatedSLAExpired :: string where "CloudReasonSaturatedSLAExpired = ''saturated_sla_expired''"
definition CloudReasonQueueTimeout :: string where "CloudReasonQueueTimeout = ''queue_timeout_cloud''"
definition CloudReasonQueueFull :: string where "CloudReasonQueueFull = ''queue_full_cloud''"
definition CloudReasonLocalUpstreamFailed :: string where "CloudReasonLocalUpstreamFailed = ''local_upstream_failed''"
definition CloudReasonLocalOnlyBlocked :: string where "CloudReasonLocalOnlyBlocked = ''local_only_blocked''"

definition newCloudRoute :: "gotime \<Rightarrow> wait_result \<Rightarrow> bool \<Rightarrow> cloud_route" where
  "newCloudRoute now res retryFailure =
     \<lparr> cr_reason =
         (if retryFailure then CloudReasonLocalUpstreamFailed
          else case wt_Outcome res of
            WaitSkipHard \<Rightarrow> (if wt_NoRoute res = Some NoRouteNoNodeServesModel then CloudReasonNoNodeServesModel else CloudReasonAllNodesUnavailable)
          | WaitSLAExpired \<Rightarrow> CloudReasonSaturatedSLAExpired
          | WaitQueueFull \<Rightarrow> CloudReasonQueueFull
          | WaitQueueDisabled \<Rightarrow> CloudReasonQueueFull
          | WaitQueueTimeout \<Rightarrow> CloudReasonQueueTimeout
          | _ \<Rightarrow> CloudReasonQueueTimeout),
       cr_noRoute = wt_NoRoute res, cr_waited = wt_Waited res,
       cr_base = (if retryFailure then None else wt_Decision res), cr_cloudStart = now \<rparr>"

definition sentence :: "cloud_route \<Rightarrow> string" where
  "sentence c =
     (if cr_reason c = CloudReasonNoNodeServesModel then ''No local node serves this model, so it went to cloud without queueing.''
      else if cr_reason c = CloudReasonAllNodesUnavailable then
        ''Every local node that could serve this model was down or draining, so it went to cloud without queueing.''
      else if cr_reason c = CloudReasonSaturatedSLAExpired then ''Local nodes were busy for longer than the overflow SLA, so it went to cloud.''
      else if cr_reason c = CloudReasonQueueFull then ''The local queue was full or disabled, so it went to cloud.''
      else if cr_reason c = CloudReasonLocalUpstreamFailed then ''The local node failed this request, so it went to cloud.''
      else if cr_reason c = CloudReasonLocalOnlyBlocked then
        ''This key is local_only and no local node could serve the request, so it was refused and never sent to cloud.''
      else ''No local node became free within the queue timeout, so it went to cloud.'')"

record cloud_decision =
  cd_Node :: string
  cd_Reason :: string
  cd_Detail :: string
  cd_NoRoute :: "no_route option"
  cd_Excluded :: "excluded_candidate list"
  cd_ExcludedTotal :: int

definition route_decision :: "cloud_route \<Rightarrow> string \<Rightarrow> cloud_decision" where
  "route_decision c node =
     \<lparr> cd_Node = node, cd_Reason = cr_reason c, cd_Detail = sentence c, cd_NoRoute = cr_noRoute c,
       cd_Excluded = (case cr_base c of None \<Rightarrow> [] | Some d \<Rightarrow> rd_Excluded d),
       cd_ExcludedTotal = (case cr_base c of None \<Rightarrow> 0 | Some d \<Rightarrow> rd_ExcludedTotal d) \<rparr>"

definition millis :: "duration \<Rightarrow> int" where
  "millis d = quot d millisecond"

definition route_split :: "cloud_route \<Rightarrow> duration \<Rightarrow> duration \<Rightarrow> int \<times> int" where
  "route_split c total_time cloud_time =
     (let totalMs = millis total_time; queueWait = min (millis (cr_waited c)) totalMs in
      (queueWait, max (min (millis cloud_time) (totalMs - queueWait)) 0))"

lemma route_split_bounded:
  assumes "0 \<le> cr_waited c" "0 \<le> t" "route_split c t x = (q, k)"
  shows "0 \<le> q" "0 \<le> k" "q + k \<le> millis t" "q \<le> millis (cr_waited c)"
proof -
  have "0 \<le> millis t" "0 \<le> millis (cr_waited c)" using assms(1,2) by (simp_all add: millis_def quot_nonneg millisecond_def)
  then show "0 \<le> q" "0 \<le> k" "q + k \<le> millis t" "q \<le> millis (cr_waited c)"
    using assms(3) by (auto simp: route_split_def Let_def)
qed

section \<open>What leaves with a request\<close>

lemma canonical_keys [simp]:
  "canonical_key ''X-Request-ID'' = ''X-Request-Id''" "canonical_key ''User-Agent'' = ''User-Agent''"
  "canonical_key ''Authorization'' = ''Authorization''"
  by code_simp+

lemma canonical_hop: "map canonical_key hop_headers = hop_headers"
  by code_simp

lemma fold_del: "gm_get (fold h_del ks h) k = (if k \<in> canonical_key ` set ks then None else gm_get h k)"
  by (induction ks arbitrary: h) (auto simp: h_del_def delete_conv')

lemma strip_get:
  "gm_get (stripHopByHop h) k = (if k \<in> set hop_headers \<union> canonical_key ` set (connection_names h) then None else gm_get h k)"
proof -
  have "canonical_key ` set hop_headers = set hop_headers" using arg_cong [OF canonical_hop, of set] by simp
  then show ?thesis by (simp add: stripHopByHop_def fold_del)
qed

lemma filter_keys_get: "gm_get (filter (\<lambda>(k, _). p k) h) k = (if p k then gm_get h k else None)"
  by (induction h) auto

text \<open>
  C19. The client's credentials stay with the proxy, in the headers its director hands to the transport.  A node gets the client's headers without Authorization and Cookie, without
  the hop-by-hop headers and every header the client names in Connection, and with the request identifier of the proxy,
  which a client cannot remove that way.  A cloud provider gets Content-Type and Accept of the client and nothing else: whatever
  other headers the client sends, the request carries the provider's own key, the proxy's user agent and
  identifier, and the entry that keeps the client's address out.
\<close>

theorem credentials_stay_with_the_proxy:
  "gm_get (local_headers rid h) k =
     (if k = ''X-Request-Id'' \<and> rid \<noteq> [] then Some [rid]
      else if k \<in> {''Authorization'', ''Cookie''} \<union> set hop_headers \<union> canonical_key ` set (connection_names h) then None
      else gm_get h k)
   \<and> gm_get (cloud_headers rid key h) k =
     (if k = ''Authorization'' then Some [''Bearer '' @ key]
      else if k = ''X-Forwarded-For'' then Some []
      else if k = ''X-Request-Id'' \<and> rid \<noteq> [] then Some [rid]
      else if k = ''User-Agent'' then Some [''marbor'']
      else if k = ''Content-Type'' \<or> k = ''Accept'' then gm_get h k
      else None)"
proof
  have "h_get (filter (\<lambda>(k, _). k \<noteq> ''Authorization'' \<and> k \<noteq> ''Cookie'') h) ''Connection'' = h_get h ''Connection''"
    by (simp add: h_get_def gm_at_def filter_keys_get)
  then have "connection_names (filter (\<lambda>(k, _). k \<noteq> ''Authorization'' \<and> k \<noteq> ''Cookie'') h) = connection_names h"
    by (simp add: connection_names_def)
  then show "gm_get (local_headers rid h) k =
     (if k = ''X-Request-Id'' \<and> rid \<noteq> [] then Some [rid]
      else if k \<in> {''Authorization'', ''Cookie''} \<union> set hop_headers \<union> canonical_key ` set (connection_names h) then None
      else gm_get h k)"
    by (simp add: local_headers_def Let_def h_set_def update_conv' strip_get filter_keys_get)
next
  define out where "out = fold (\<lambda>name acc. case gm_get h name of None \<Rightarrow> acc | Some v \<Rightarrow> gm_put name v acc) cloudForwardedHeaders []"
  have out: "gm_get out n = (if n = ''Content-Type'' \<or> n = ''Accept'' then gm_get h n else None)" for n
    by (simp add: out_def cloudForwardedHeaders_def update_conv' split: option.split)
  have "connection_names out = []" by (simp add: connection_names_def h_get_def gm_at_def out)
  then have st: "gm_get (stripHopByHop out) n = gm_get out n" for n by (simp add: strip_get out hop_headers_def)
  show "gm_get (cloud_headers rid key h) k =
     (if k = ''Authorization'' then Some [''Bearer '' @ key]
      else if k = ''X-Forwarded-For'' then Some []
      else if k = ''X-Request-Id'' \<and> rid \<noteq> [] then Some [rid]
      else if k = ''User-Agent'' then Some [''marbor'']
      else if k = ''Content-Type'' \<or> k = ''Accept'' then gm_get h k
      else None)"
    by (simp add: cloud_headers_def Let_def h_set_def update_conv' st flip: out_def) (simp add: out)
qed

end
