(* ===== verification/Model_Limits.thy ===== *)
theory Model_Limits
  imports Go_Strings
begin

text \<open>
  The per-model request and token caps of a node's model profile (\<^verbatim>\<open>modelRateLimiter\<close> of
  \<^verbatim>\<open>internal/proxy/model_config.go\<close>): one counter per model and node, which starts again when it is
  asked a minute or more after it started.
\<close>

section \<open>The limiter\<close>

record minute_stats =
  ms_windowStart :: gotime
  ms_requests :: int
  ms_tokens :: int

type_synonym limiter = "(string, minute_stats) gomap"

definition newModelRateLimiter :: limiter where
  "newModelRateLimiter = []"

definition limiterKey :: "string \<Rightarrow> string \<Rightarrow> string" where
  "limiterKey model node = model @ CHR 0x00 # node"

text \<open>The counter a call at \<open>now\<close> works on.\<close>

definition statsLocked :: "gotime \<Rightarrow> limiter \<Rightarrow> string \<Rightarrow> minute_stats" where
  "statsLocked now l key =
     (case gm_get l key of
        None \<Rightarrow> \<lparr> ms_windowStart = now, ms_requests = 0, ms_tokens = 0 \<rparr>
      | Some st \<Rightarrow>
          if now - ms_windowStart st \<ge> minute then st\<lparr> ms_windowStart := now, ms_requests := 0, ms_tokens := 0 \<rparr> else st)"

definition spent_cap :: "int option \<Rightarrow> int \<Rightarrow> bool" where
  "spent_cap limit used = (case limit of None \<Rightarrow> False | Some k \<Rightarrow> k > 0 \<and> used \<ge> k)"

definition limiter_allow :: "gotime \<Rightarrow> string \<Rightarrow> string \<Rightarrow> int option \<Rightarrow> int option \<Rightarrow> limiter \<Rightarrow> bool \<times> limiter" where
  "limiter_allow now model node rpm tpm l =
     (if rpm = None \<and> tpm = None then (True, l)
      else
        let key = limiterKey model node; st = statsLocked now l key in
        if spent_cap rpm (ms_requests st) then (False, gm_put key st l)
        else if spent_cap tpm (ms_tokens st) then (False, gm_put key st l)
        else (True, gm_put key (st\<lparr> ms_requests := ms_requests st + 1 \<rparr>) l))"

definition recordTokens :: "gotime \<Rightarrow> string \<Rightarrow> string \<Rightarrow> int \<Rightarrow> limiter \<Rightarrow> limiter" where
  "recordTokens now model node tokens l =
     (if tokens \<le> 0 then l
      else let key = limiterKey model node; st = statsLocked now l key in
        gm_put key (st\<lparr> ms_tokens := ms_tokens st + tokens \<rparr>) l)"

section \<open>Calls over time\<close>

datatype limiter_call = Ask string string "int option" "int option" | Spend string string int

definition call_key :: "limiter_call \<Rightarrow> string" where
  "call_key c = (case c of Ask model node _ _ \<Rightarrow> limiterKey model node | Spend model node _ \<Rightarrow> limiterKey model node)"

definition limiter_step :: "gotime \<Rightarrow> limiter_call \<Rightarrow> limiter \<Rightarrow> bool \<times> limiter" where
  "limiter_step now c l =
     (case c of
        Ask model node rpm tpm \<Rightarrow> limiter_allow now model node rpm tpm l
      | Spend model node n \<Rightarrow> (False, recordTokens now model node n l))"

text \<open>When the calls on one key were granted.\<close>

fun grants :: "string \<Rightarrow> (gotime \<times> limiter_call) list \<Rightarrow> limiter \<Rightarrow> gotime list" where
  "grants key [] l = []"
| "grants key ((now, c) # cs) l =
     (case limiter_step now c l of
        (granted, l') \<Rightarrow> (if granted \<and> call_key c = key then [now] else []) @ grants key cs l')"

definition capped_at :: "int \<Rightarrow> limiter_call \<Rightarrow> bool" where
  "capped_at K c = (case c of Ask _ _ (Some k) _ \<Rightarrow> 0 < k \<and> k \<le> K | Ask _ _ None _ \<Rightarrow> False | Spend _ _ _ \<Rightarrow> True)"

section \<open>How many requests a cap lets through\<close>

lemma limiter_step_other: "call_key c \<noteq> key \<Longrightarrow> gm_get (snd (limiter_step now c l)) key = gm_get l key"
  by (cases c) (auto simp: limiter_step_def limiter_allow_def recordTokens_def call_key_def Let_def update_conv')

text \<open>
  What the grants so far say about the counter of a key: those since its window started are its count, within the cap; those of
  the minute before are within the cap too.
\<close>

definition between :: "gotime \<Rightarrow> gotime \<Rightarrow> gotime list \<Rightarrow> int" where
  "between a b ts = int (length (filter (\<lambda>t. a \<le> t \<and> t < b) ts))"

lemma between_append: "between a b (xs @ ys) = between a b xs + between a b ys"
  by (simp add: between_def)

lemma between_simps [simp]: "between a b [] = 0" "between a b [t] = (if a \<le> t \<and> t < b then 1 else 0)"
  by (simp_all add: between_def)

lemma between_mono: "a' \<le> a \<Longrightarrow> b \<le> b' \<Longrightarrow> between a b ts \<le> between a' b' ts"
  unfolding between_def by (induction ts) auto

lemma between_split: "between a c ts \<le> between a b ts + between b c ts"
  unfolding between_def by (induction ts) auto

lemma between_nonneg [simp]: "0 \<le> between a b ts"
  by (simp add: between_def)

definition within_cap :: "int \<Rightarrow> gotime list \<Rightarrow> minute_stats option \<Rightarrow> gotime \<Rightarrow> bool" where
  "within_cap K ts st now \<longleftrightarrow>
     (\<forall>t \<in> set ts. t \<le> now) \<and> (\<forall>a. between a (a + minute) ts \<le> 2 * K)
     \<and> (case st of
          None \<Rightarrow> ts = []
        | Some s \<Rightarrow> ms_windowStart s \<le> now \<and> (\<forall>t \<in> set ts. t < ms_windowStart s + minute)
            \<and> between (ms_windowStart s) (now + 1) ts = ms_requests s \<and> ms_requests s \<le> K
            \<and> between (ms_windowStart s - minute) (ms_windowStart s) ts \<le> K)"

lemma between_eq_if: "(\<And>t. t \<in> set ts \<Longrightarrow> (a \<le> t \<and> t < b) = (a' \<le> t \<and> t < b')) \<Longrightarrow> between a b ts = between a' b' ts"
  unfolding between_def by (metis (mono_tags, lifting) filter_cong)

lemma between_le_if: "(\<And>t. t \<in> set ts \<Longrightarrow> a \<le> t \<and> t < b \<Longrightarrow> a' \<le> t \<and> t < b') \<Longrightarrow> between a b ts \<le> between a' b' ts"
  unfolding between_def by (induction ts) auto

lemma window_opens:
  assumes "within_cap K ts (gm_get l key) prev" "prev \<le> now" "0 \<le> K"
  defines "st \<equiv> statsLocked now l key"
  shows "within_cap K ts (Some st) now" "now < ms_windowStart st + minute"
proof -
  have m: "0 < minute" by (simp add: duration_defs)
  have past: "\<forall>t \<in> set ts. t \<le> prev" "\<forall>a. between a (a + minute) ts \<le> 2 * K" using assms(1) by (simp_all add: within_cap_def)
  have goal: "within_cap K ts (Some st) now \<and> now < ms_windowStart st + minute"
  proof (cases "gm_get l key")
    case None
    then show ?thesis using assms(1,3) m by (simp add: within_cap_def st_def statsLocked_def)
  next
    case (Some s)
    then have s: "ms_windowStart s \<le> prev" "\<forall>t \<in> set ts. t < ms_windowStart s + minute"
        "between (ms_windowStart s) (prev + 1) ts = ms_requests s" "ms_requests s \<le> K"
        "between (ms_windowStart s - minute) (ms_windowStart s) ts \<le> K"
      using assms(1) by (simp_all add: within_cap_def)
    show ?thesis
    proof (cases "now - ms_windowStart s \<ge> minute")
      case True
      then have st: "ms_windowStart st = now" "ms_requests st = 0" using Some by (simp_all add: st_def statsLocked_def)
      have "between now (now + 1) ts = between 0 0 ts" using s(2) True by (intro between_eq_if) force
      moreover have "between 0 0 ts = 0" by (simp add: between_def)
      moreover have "between (now - minute) now ts \<le> between (ms_windowStart s) (prev + 1) ts"
        using past(1) True by (intro between_le_if) force
      ultimately show ?thesis using st s past assms(2,3) m by (force simp: within_cap_def)
    next
      case False
      then have st: "st = s" using Some by (simp add: st_def statsLocked_def)
      have "between (ms_windowStart s) (now + 1) ts = between (ms_windowStart s) (prev + 1) ts"
        using past(1) assms(2) by (intro between_eq_if) force
      then show ?thesis using st s past assms(2) False by (force simp: within_cap_def)
    qed
  qed
  then show "within_cap K ts (Some st) now" "now < ms_windowStart st + minute" by simp_all
qed

lemma window_counts:
  assumes "within_cap K ts (Some st) now" "now < ms_windowStart st + minute" "ms_requests st < K"
  shows "within_cap K (ts @ [now]) (Some (st\<lparr> ms_requests := ms_requests st + 1 \<rparr>)) now"
proof -
  let ?w = "ms_windowStart st"
  have i: "\<forall>t \<in> set ts. t \<le> now" "\<forall>a. between a (a + minute) ts \<le> 2 * K" "?w \<le> now" "\<forall>t \<in> set ts. t < ?w + minute"
      "between ?w (now + 1) ts = ms_requests st" "between (?w - minute) ?w ts \<le> K"
    using assms(1) by (simp_all add: within_cap_def)
  have "between a (a + minute) (ts @ [now]) \<le> 2 * K" for a
  proof (cases "a \<le> now \<and> now < a + minute")
    case True
    have "between a (a + minute) ts \<le> between a ?w ts + between ?w (a + minute) ts" by (rule between_split)
    moreover have "between a ?w ts \<le> between (?w - minute) ?w ts" using True i(3) by (intro between_mono) auto
    moreover have "between ?w (a + minute) ts \<le> between ?w (now + 1) ts" using i(1) by (intro between_le_if) auto
    ultimately have "between a (a + minute) ts \<le> 2 * K - 1" using i(5,6) assms(3) by linarith
    then show ?thesis using True by (simp add: between_append)
  next
    case False
    then show ?thesis using i(2) by (auto simp: between_append)
  qed
  then show ?thesis using i assms(2,3) by (auto simp: within_cap_def between_append)
qed

lemma within_cap_requests:
  "within_cap K ts (Some (st\<lparr> ms_tokens := x \<rparr>)) now \<longleftrightarrow> within_cap K ts (Some st) now"
  by (simp add: within_cap_def)

lemma within_cap_later: "within_cap K ts st prev \<Longrightarrow> prev \<le> now \<Longrightarrow> within_cap K ts st now"
proof -
  assume a: "within_cap K ts st prev" "prev \<le> now"
  have "between w (now + 1) ts = between w (prev + 1) ts" for w
    using a by (intro between_eq_if) (force simp: within_cap_def)
  then show ?thesis using a by (force simp: within_cap_def split: option.splits)
qed

lemma spent_cap_free: "\<not> spent_cap (Some k) n \<Longrightarrow> 0 < k \<Longrightarrow> n < k"
  by (simp add: spent_cap_def)

lemma limiter_step_cap:
  assumes "within_cap K ts (gm_get l key) prev" "prev \<le> now" "0 \<le> K"
    and "call_key c = key \<longrightarrow> capped_at K c" and "limiter_step now c l = (granted, l')"
  shows "within_cap K (ts @ (if granted \<and> call_key c = key then [now] else [])) (gm_get l' key) now"
proof (cases "call_key c = key")
  case False
  then have "gm_get l' key = gm_get l key" using limiter_step_other [of c key now l] assms(5) by simp
  then show ?thesis using False within_cap_later [OF assms(1,2)] by simp
next
  case True
  define st where "st = statsLocked now l key"
  have w: "within_cap K ts (Some st) now" "now < ms_windowStart st + minute"
    using window_opens [OF assms(1-3)] by (simp_all add: st_def)
  show ?thesis
  proof (cases c)
    case (Ask m n rpm tpm)
    then obtain k where k: "rpm = Some k" "0 < k" "k \<le> K" and key: "limiterKey m n = key"
      using True assms(4) by (auto simp: capped_at_def call_key_def split: option.splits)
    have run: "(granted, l') = (if spent_cap rpm (ms_requests st) \<or> spent_cap tpm (ms_tokens st) then (False, gm_put key st l)
        else (True, gm_put key (st\<lparr> ms_requests := ms_requests st + 1 \<rparr>) l))"
      using assms(5) by (simp add: Ask k(1) key limiter_step_def limiter_allow_def Let_def st_def split: if_splits)
    show ?thesis
    proof (cases "spent_cap rpm (ms_requests st) \<or> spent_cap tpm (ms_tokens st)")
      case True
      then have "granted = False" "l' = gm_put key st l" using run by simp_all
      then show ?thesis using w by (simp add: update_conv')
    next
      case False
      then have g: "granted" "l' = gm_put key (st\<lparr> ms_requests := ms_requests st + 1 \<rparr>) l"
        using run by simp_all
      have "ms_requests st < K" using False k spent_cap_free [of k "ms_requests st"] by simp
      then show ?thesis using window_counts [OF w] g True by (simp add: update_conv')
    qed
  next
    case (Spend m n x)
    then have key: "limiterKey m n = key" using True by (simp add: call_key_def)
    have g: "granted = False" "l' = recordTokens now m n x l" using assms(5) Spend by (simp_all add: limiter_step_def)
    show ?thesis
    proof (cases "x \<le> 0")
      case True
      then show ?thesis using g within_cap_later [OF assms(1,2)] by (simp add: recordTokens_def)
    next
      case False
      then have "l' = gm_put key (st\<lparr> ms_tokens := ms_tokens st + x \<rparr>) l" using g key by (simp add: recordTokens_def Let_def st_def)
      then show ?thesis using g w by (simp add: update_conv' within_cap_requests)
    qed
  qed
qed

lemma grants_within:
  "within_cap K ts (gm_get l key) prev \<Longrightarrow> 0 \<le> K \<Longrightarrow> sorted (map fst cs) \<Longrightarrow> \<forall>x \<in> set cs. prev \<le> fst x \<Longrightarrow>
   \<forall>x \<in> set cs. call_key (snd x) = key \<longrightarrow> capped_at K (snd x) \<Longrightarrow> between a (a + minute) (ts @ grants key cs l) \<le> 2 * K"
proof (induction cs arbitrary: l ts prev)
  case Nil
  then show ?case by (simp add: within_cap_def)
next
  case (Cons x cs)
  obtain now c where x: "x = (now, c)" by (cases x)
  obtain granted l' where st: "limiter_step now c l = (granted, l')" by (cases "limiter_step now c l")
  have "within_cap K (ts @ (if granted \<and> call_key c = key then [now] else [])) (gm_get l' key) now"
    using limiter_step_cap [OF Cons.prems(1) _ Cons.prems(2) _ st] Cons.prems(4,5) x by simp
  then have "between a (a + minute) ((ts @ (if granted \<and> call_key c = key then [now] else [])) @ grants key cs l') \<le> 2 * K"
    using Cons.prems x by (intro Cons.IH [where prev = now]) auto
  then show ?case using x st by simp
qed

text \<open>
  A model's request cap holds with a factor of two: whatever the order of requests and token reports, if every request
  for a model on a node is asked under a cap of at most \<open>K\<close> requests per minute, then any 60 seconds contain at most \<open>2 * K\<close>
  granted requests for that pair.  The bound is reached, since the window is restarted at fixed points and does not roll: the
  example below grants two requests one nanosecond apart under a cap of one per minute.
\<close>

lemma model_cap_within_factor_two:
  assumes "sorted (map fst cs)" "0 \<le> K" "\<forall>x \<in> set cs. call_key (snd x) = key \<longrightarrow> capped_at K (snd x)"
  shows "int (length (filter (\<lambda>t. a \<le> t \<and> t < a + minute) (grants key cs newModelRateLimiter))) \<le> 2 * K"
proof (cases cs)
  case Nil
  then show ?thesis using assms(2) by simp
next
  case (Cons x xs)
  have "within_cap K [] (gm_get newModelRateLimiter key) (fst x)" using assms(2) by (simp add: within_cap_def newModelRateLimiter_def)
  then have "between a (a + minute) ([] @ grants key cs newModelRateLimiter) \<le> 2 * K"
    using assms Cons by (intro grants_within [where prev = "fst x"]) auto
  then show ?thesis by (simp add: between_def)
qed

definition demo_calls :: "(gotime \<times> limiter_call) list" where
  "demo_calls = [(0, Spend ''m'' ''a'' 5), (minute - 1, Ask ''m'' ''a'' (Some 1) None), (minute, Ask ''m'' ''a'' (Some 1) None),
     (minute + 1, Ask ''m'' ''a'' (Some 1) None)]"

lemma model_cap_reached:
  "grants (limiterKey ''m'' ''a'') demo_calls newModelRateLimiter = [minute - 1, minute]
   \<and> length (filter (\<lambda>t. minute - 1 \<le> t \<and> t < minute - 1 + minute)
        (grants (limiterKey ''m'' ''a'') demo_calls newModelRateLimiter)) = 2
   \<and> int (length (filter (\<lambda>t. minute - 1 \<le> t \<and> t < minute - 1 + minute)
        (grants (limiterKey ''m'' ''a'') demo_calls newModelRateLimiter))) \<le> 2 * 1"
proof -
  have g: "grants (limiterKey ''m'' ''a'') demo_calls newModelRateLimiter = [minute - 1, minute]" by code_simp
  have "int (length (filter (\<lambda>t. minute - 1 \<le> t \<and> t < minute - 1 + minute)
      (grants (limiterKey ''m'' ''a'') demo_calls newModelRateLimiter))) \<le> 2 * 1"
    by (rule model_cap_within_factor_two) (simp_all add: demo_calls_def capped_at_def duration_defs)
  moreover have "1 < minute" by (simp add: duration_defs)
  ultimately show ?thesis using g by simp
qed

end
