(* ===== verification/Proxy.thy ===== *)
theory Proxy
  imports Accounting Agent Forwarding Model_Limits Prefix_Locality
begin

text \<open>
  The request handler of the proxy (\<^verbatim>\<open>ServeHTTP\<close> and \<^verbatim>\<open>proxyToCloud\<close> of \<^verbatim>\<open>internal/proxy/proxy.go\<close>): what is refused, which model and
  node a request gets, how a failed attempt is retried on another node, degraded to another model or handed to a cloud
  provider, and what is recorded afterwards.

  A run of the handler is driven by a world: the wake-ups of its wait for a node, what each attempt on a node or a provider
  came to, when, and what the other requests did meanwhile.  It leaves a trace of the holds it took, the bodies it sent and the
  replies it wrote.  A panic of the code is a way to finish.
\<close>

section \<open>The state of the handler\<close>

text \<open>The audit logger: its queue, and the entries it dropped.\<close>

record audit_entry = audit_row +
  au_Time :: gotime
  au_QueueWaitMs :: "int option"
  au_CloudMs :: "int option"

record audit_log =
  al_enabled :: bool
  al_closed :: bool
  al_writes :: "audit_entry list"
  al_dropped :: nat

definition writeQueueSize :: nat where "writeQueueSize = 5000"

definition audit_Log :: "audit_entry \<Rightarrow> audit_log \<Rightarrow> audit_log" where
  "audit_Log e l =
     (if \<not> al_enabled l then l
      else if al_closed l \<or> writeQueueSize \<le> length (al_writes l) then l\<lparr> al_dropped := al_dropped l + 1 \<rparr>
      else l\<lparr> al_writes := al_writes l @ [e] \<rparr>)"

record access_entry =
  ax_RequestID :: string
  ax_KeyName :: string
  ax_Model :: string
  ax_Node :: string
  ax_Status :: int
  ax_LatencyMs :: int
  ax_Cloud :: bool
  ax_TimeUnixMs :: int

text \<open>
  \<open>hx_admin\<close> and \<open>hx_auth\<close> are absent where the code has nil pointers; the admin server and the handler share one middleware.  The
  access log is absent when it is disabled.
\<close>

record handler =
  hx_router :: router
  hx_admin :: "ledger option"
  hx_auth :: "middleware option"
  hx_audit :: "audit_log option"
  hx_access :: "access_entry list option"
  hx_allowManagement :: bool
  hx_trustProxyHeaders :: bool
  hx_modelLimiter :: limiter
  hx_contextWindows :: "(string, int) gomap"
  hx_prefix :: "prefix_store \<times> (int \<times> prefix_row list)"

text \<open>A body with its length in bytes.\<close>

type_synonym payload = "body \<times> int"

text \<open>What the handler relies on and does not compute: the nodes' catalogues, the clock and calendar, the digest, JSON's sizes, URLs.\<close>

record env =
  en_fetch :: "string \<Rightarrow> tag_model list option"
  en_hour :: "gotime \<Rightarrow> int"
  en_lib :: time_lib
  en_month :: "gotime \<Rightarrow> gotime"
  en_sum :: "float64 list \<Rightarrow> float64"
  en_digest :: "string \<Rightarrow> string"
  en_chat :: "body \<Rightarrow> chat_body option"
  en_len :: "body \<Rightarrow> int"
  en_urlOK :: "string \<Rightarrow> bool"

datatype read_error = TooLarge | ReadFailed

record request =
  rv_ID :: string
  rv_Key :: string
  rv_Allowed :: "string list"
  rv_Method :: string
  rv_Path :: string
  rv_Encodings :: "string list"
  rv_Read :: "read_error option"
  rv_Body :: payload
  rv_SessionID :: string
  rv_RemoteAddr :: string
  rv_ForwardedFor :: string
  rv_RealIP :: string

text \<open>
  What an attempt came to: an answer (its status, whether the stream died, the time to its first byte and what its tail reports), or no
  answer at all.  \<open>up_before\<close> and \<open>up_gone\<close> tell whether the client had left before and after it.
\<close>

record answer =
  as_Status :: int
  as_Died :: bool
  as_TTFT :: duration
  as_Tokens :: int
  as_EvalMs :: int
  as_PromptMs :: int

datatype upstream = Relayed answer | Unreachable

record attempt =
  up_result :: upstream
  up_time :: gotime
  up_before :: bool
  up_gone :: bool
  up_others :: "handler \<Rightarrow> handler"

record world =
  wd_wakes :: "(wake \<times> gotime \<times> (router \<Rightarrow> router)) list"
  wd_waited :: "handler \<Rightarrow> handler"
  wd_local :: "nat \<Rightarrow> attempt"
  wd_cloud :: "nat \<Rightarrow> attempt"

datatype event =
  Held string string | Freed string string
  | ToNode string string payload | ToCloud cloud_provider payload
  | Passed int | Replied int string | Listed "(string \<times> string) list"

datatype finish = Returned | AbortedStream | Panicked | StillWaiting | StillSearching

text \<open>The state of one run: the hold it has, its trace, and the response headers set so far.\<close>

record ongoing =
  og_h :: handler
  og_hold :: "(string \<times> string) option"
  og_trace :: "event list"
  og_headers :: "(string, string) gomap"

definition emit :: "event \<Rightarrow> ongoing \<Rightarrow> ongoing" where
  "emit e s = s\<lparr> og_trace := og_trace s @ [e] \<rparr>"

definition on_handler :: "(handler \<Rightarrow> handler) \<Rightarrow> ongoing \<Rightarrow> ongoing" where
  "on_handler f s = s\<lparr> og_h := f (og_h s) \<rparr>"

definition on_router :: "(router \<Rightarrow> router) \<Rightarrow> ongoing \<Rightarrow> ongoing" where
  "on_router f = on_handler (\<lambda>h. h\<lparr> hx_router := f (hx_router h) \<rparr>)"

definition og_router :: "ongoing \<Rightarrow> router" where
  "og_router s = hx_router (og_h s)"

definition set_header :: "string \<Rightarrow> string \<Rightarrow> ongoing \<Rightarrow> ongoing" where
  "set_header k v s = s\<lparr> og_headers := gm_put k v (og_headers s) \<rparr>"

definition del_header :: "string \<Rightarrow> ongoing \<Rightarrow> ongoing" where
  "del_header k s = s\<lparr> og_headers := gm_del k (og_headers s) \<rparr>"

definition writeAPIError :: "int \<Rightarrow> string \<Rightarrow> ongoing \<Rightarrow> ongoing" where
  "writeAPIError status code = emit (Replied status code)"

text \<open>The connection slot and in-flight count of a node, and giving them back.\<close>

definition acquire :: "node_state \<Rightarrow> string \<Rightarrow> ongoing \<Rightarrow> ongoing" where
  "acquire n model s =
     emit (Held (ns_Name n) model)
       ((on_router (upd_node (ns_Name n) (hold_node model)) s)\<lparr> og_hold := Some (ns_Name n, model) \<rparr>)"

definition release :: "ongoing \<Rightarrow> ongoing" where
  "release s =
     (case og_hold s of
        None \<Rightarrow> s
      | Some (node, model) \<Rightarrow>
          emit (Freed node model) ((on_router (upd_node node (release_node model)) s)\<lparr> og_hold := None \<rparr>))"

definition refund_key :: "string \<Rightarrow> ongoing \<Rightarrow> ongoing" where
  "refund_key key = on_handler (\<lambda>h. h\<lparr> hx_auth := map_option (Refund key) (hx_auth h) \<rparr>)"

section \<open>Gates\<close>

datatype gate = Continue | Deny int string | ListModels | OneModel string

definition path_gate :: "bool \<Rightarrow> string \<Rightarrow> string \<Rightarrow> string list \<Rightarrow> gate" where
  "path_gate allowManagement method path encodings =
     (if \<not> allowManagement \<and> isBlockedManagementPath path then Deny 403 ''endpoint_blocked''
      else if method = ''DELETE'' \<and> has_prefix path ''/v1/models/'' then Deny 501 ''unsupported_endpoint''
      else if isUnsupportedOpenAIPath path then Deny 501 ''unsupported_endpoint''
      else if method = ''GET'' \<and> path = ''/v1/models'' then ListModels
      else if method = ''GET'' \<and> has_prefix path ''/v1/models/'' \<and> drop (length ''/v1/models/'') path \<noteq> [] then OneModel (drop (length ''/v1/models/'') path)
      else if hasNonIdentityEncoding encodings then Deny 415 ''unsupported_content_encoding''
      else Continue)"

definition body_gate :: "read_error option \<Rightarrow> body \<Rightarrow> gate" where
  "body_gate err b =
     (case err of
        Some TooLarge \<Rightarrow> Deny 413 ''request_too_large''
      | Some ReadFailed \<Rightarrow> Deny 400 ''read_body_error''
      | None \<Rightarrow>
          if modelFieldProblem b \<noteq> None then Deny 400 ''invalid_model''
          else if length (ExtractModelName b) > maxModelNameBytes then Deny 400 ''invalid_model''
          else Continue)"

definition permitted :: "string list \<Rightarrow> string \<Rightarrow> string \<Rightarrow> bool \<Rightarrow> bool" where
  "permitted allowed model client aliased \<longleftrightarrow>
     allowed = [] \<or> model \<in> set allowed \<or> (aliased \<and> client \<in> set allowed)"

section \<open>Bodies\<close>

text \<open>An object is encoded anew, any other body is left byte for byte; \<open>None\<close> is the panic.\<close>

definition resized :: "env \<Rightarrow> payload \<Rightarrow> body \<Rightarrow> payload" where
  "resized e p b = (b, case fst p of Parsed (JObj _) \<Rightarrow> en_len e b | Parsed JNull \<Rightarrow> en_len e b | _ \<Rightarrow> snd p)"

definition rewrite_payload :: "env \<Rightarrow> payload \<Rightarrow> string \<Rightarrow> payload option" where
  "rewrite_payload e p model = map_option (resized e p) (rewriteModelField (fst p) model)"

definition inject_payload :: "env \<Rightarrow> payload \<Rightarrow> string \<Rightarrow> model_config \<Rightarrow> payload option" where
  "inject_payload e p runtime cfg = map_option (resized e p) (injectModelDefaults (fst p) runtime cfg)"

text \<open>The body and model name of a cloud request.\<close>

definition cloudRequestFor :: "env \<Rightarrow> payload \<Rightarrow> string \<Rightarrow> string \<Rightarrow> bool \<Rightarrow> (payload \<times> string) option" where
  "cloudRequestFor e p model client aliased =
     (if client = [] then Some (p, model)
      else if \<not> aliased \<and> model = client then Some (p, model)
      else map_option (\<lambda>b. (b, client)) (rewrite_payload e p client))"

text \<open>The client's text as Go's \<^verbatim>\<open>len(body) / 4\<close>.\<close>

definition token_estimate :: "payload \<Rightarrow> int" where
  "token_estimate p = quot (snd p) 4"

section \<open>The fleet's models\<close>

fun inventory_loop ::
  "(string \<Rightarrow> tag_model list option) \<Rightarrow> node_state list \<Rightarrow> (string, string) gomap \<Rightarrow> nat \<Rightarrow> bool \<Rightarrow> (string, string) gomap \<times> bool" where
  "inventory_loop fetch [] known healthy whole = (known, whole \<and> healthy > 0)"
| "inventory_loop fetch (n # ns) known healthy whole =
     (if \<not> ns_Healthy n then inventory_loop fetch ns known healthy whole
      else
        let k1 = fold (\<lambda>m. gm_put (mi_Name m) ''loaded'') (ns_LoadedModels n) known in
        case fetch (ns_URL n) of
          None \<Rightarrow> inventory_loop fetch ns k1 (Suc healthy) False
        | Some tags \<Rightarrow>
            inventory_loop fetch ns
              (fold (\<lambda>t k. if gm_get k (tm_Name t) = None then gm_put (tm_Name t) ''available'' k else k) tags k1) (Suc healthy) whole)"

definition FleetModelInventory :: "(string \<Rightarrow> tag_model list option) \<Rightarrow> router \<Rightarrow> (string, string) gomap \<times> bool" where
  "FleetModelInventory fetch r = inventory_loop fetch (r_nodes r) [] 0 True"

definition FleetModelStatuses :: "(string \<Rightarrow> tag_model list option) \<Rightarrow> router \<Rightarrow> (string, string) gomap" where
  "FleetModelStatuses fetch r = fst (FleetModelInventory fetch r)"

definition serveModels :: "(string \<Rightarrow> tag_model list option) \<Rightarrow> router \<Rightarrow> (string \<times> string) list" where
  "serveModels fetch r =
     (let known = fold (\<lambda>(a, t) k. case gm_get k t of Some status \<Rightarrow> gm_put a status k | None \<Rightarrow> gm_del a k)
            (ModelAliases (r_modelAliases r)) (FleetModelStatuses fetch r)
      in sort_key fst known)"

definition serveModel :: "(string \<Rightarrow> tag_model list option) \<Rightarrow> router \<Rightarrow> string \<Rightarrow> ongoing \<Rightarrow> ongoing" where
  "serveModel fetch r modelID s =
     (let name = (case ResolveModelAlias (r_modelAliases r) modelID of Some t \<Rightarrow> t | None \<Rightarrow> modelID);
          status = gm_at [] (FleetModelStatuses fetch r) name
      in if status = [] then writeAPIError 404 ''model_not_found'' s else emit (Listed [(modelID, status)]) s)"

section \<open>Cloud\<close>

definition decision_code :: "decision_reason \<Rightarrow> string" where
  "decision_code r =
     (case r of ReasonSessionAffinity \<Rightarrow> ''session_affinity'' | ReasonPinnedWarm \<Rightarrow> ''pinned_warm''
      | ReasonScoreBased \<Rightarrow> ''score_based'' | ReasonNoCandidate \<Rightarrow> ''no_candidate'')"

definition StatusCode :: "int \<Rightarrow> int" where
  "StatusCode n = (if n = 0 then 200 else n)"

definition localOnly :: "handler \<Rightarrow> string \<Rightarrow> bool" where
  "localOnly h key = (case hx_auth h of None \<Rightarrow> False | Some m \<Rightarrow> IsLocalOnly m key)"

definition budget_spent :: "env \<Rightarrow> gotime \<Rightarrow> handler \<Rightarrow> string \<Rightarrow> bool" where
  "budget_spent e now h key =
     (case hx_admin h of
        None \<Rightarrow> False | Some s \<Rightarrow> CloudBudgetExceeded (en_month e) (en_sum e) now key (hx_auth h) s \<noteq> None)"

definition cloudUsable :: "env \<Rightarrow> gotime \<Rightarrow> handler \<Rightarrow> string \<Rightarrow> bool" where
  "cloudUsable e now h key \<longleftrightarrow> CloudChain (hx_router h) \<noteq> [] \<and> \<not> localOnly h key \<and> \<not> budget_spent e now h key"

text \<open>The sinks of a finished request.  Both counters and rows go through the admin server; the audit and access logs are apart.\<close>

definition log_request :: "env \<Rightarrow> gotime \<Rightarrow> completed \<Rightarrow> ongoing \<Rightarrow> ongoing" where
  "log_request e now q =
     on_handler (\<lambda>h. case hx_admin h of
        None \<Rightarrow> h
      | Some s \<Rightarrow> (case LogRequestTimed (en_lib e) now [] q (hx_router h) (hx_auth h, s) of (m, s') \<Rightarrow> h\<lparr> hx_auth := m, hx_admin := Some s' \<rparr>))"

definition on_admin :: "(ledger \<Rightarrow> ledger) \<Rightarrow> ongoing \<Rightarrow> ongoing" where
  "on_admin f = on_handler (\<lambda>h. h\<lparr> hx_admin := map_option f (hx_admin h) \<rparr>)"

definition log_audit :: "audit_entry \<Rightarrow> ongoing \<Rightarrow> ongoing" where
  "log_audit x = on_handler (\<lambda>h. h\<lparr> hx_audit := map_option (audit_Log x) (hx_audit h) \<rparr>)"

definition log_access :: "access_entry \<Rightarrow> ongoing \<Rightarrow> ongoing" where
  "log_access x = on_handler (\<lambda>h. h\<lparr> hx_access := map_option (\<lambda>xs. xs @ [x]) (hx_access h) \<rparr>)"

definition clientIP :: "handler \<Rightarrow> request \<Rightarrow> string" where
  "clientIP h rq = client_ip (hx_trustProxyHeaders h) (rv_RemoteAddr rq) (rv_ForwardedFor rq) (rv_RealIP rq)"

definition logBlocked :: "env \<Rightarrow> request \<Rightarrow> string \<Rightarrow> gotime \<Rightarrow> gotime \<Rightarrow> wait_result \<Rightarrow> ongoing \<Rightarrow> ongoing" where
  "logBlocked e rq model start now res s =
     (let route = (newCloudRoute now res False)\<lparr> cr_reason := CloudReasonLocalOnlyBlocked \<rparr>;
          waitMs = fst (route_split route (now - start) 0);
          d = route_decision route ''none'';
          s1 = log_request e now
             \<lparr> cq_requestID = rv_ID rq, cq_apiKey = rv_Key rq, cq_sourceIP = clientIP (og_h s) rq, cq_model = model, cq_node = ''none'',
               cq_status = ''error'', cq_httpStatus = 503, cq_latencyMs = millis (now - start), cq_tokens = 0, cq_prefillMs = 0,
               cq_decision = Some (cd_Reason d, cd_Detail d), cq_queueWaitMs = Some waitMs, cq_cloudMs = None \<rparr> s
      in log_audit
           \<lparr> au_RequestID = rv_ID rq, au_KeyName = rv_Key rq, au_Model = model, au_Node = ''none'', au_Status = ''503'',
             au_LatencyMs = millis (now - start), au_Cloud = False, au_CloudModel = [], au_RoutingReason = cr_reason route,
             au_Time = now, au_QueueWaitMs = Some waitMs, au_CloudMs = None \<rparr> s1)"

text \<open>The refusal of a key that may not leave the local nodes: \<open>None\<close> when the key may.\<close>

definition localOnlyBlocked :: "env \<Rightarrow> request \<Rightarrow> string \<Rightarrow> gotime \<Rightarrow> gotime \<Rightarrow> wait_result \<Rightarrow> ongoing \<Rightarrow> ongoing option" where
  "localOnlyBlocked e rq model start now res s =
     (if \<not> localOnly (og_h s) (rv_Key rq) then None
      else Some (logBlocked e rq model start now res
             (on_admin (IncrSpill (rv_Key rq) ''blocked'') (writeAPIError 503 ''local_only_blocked'' s))))"

text \<open>What is recorded after a provider answered, or failed as the last one.\<close>

definition cloud_books ::
  "env \<Rightarrow> request \<Rightarrow> cloud_provider \<Rightarrow> cloud_route \<Rightarrow> string \<Rightarrow> string \<Rightarrow> string \<Rightarrow> gotime \<Rightarrow> gotime \<Rightarrow> int \<Rightarrow> bool \<Rightarrow> int \<Rightarrow> ongoing \<Rightarrow> ongoing" where
  "cloud_books e rq cloud route model loggedModel cloudModel start now code aborted tokens s =
     (let elapsed = now - start;
          (queueWait, cloudTime) = route_split route elapsed (now - cr_cloudStart route);
          nodeName = ''cloud:'' @ cp_Name cloud;
          d = route_decision route nodeName;
          s1 = (if hx_admin (og_h s) = None then s
                else
                  let s0 = log_request e now
                    \<lparr> cq_requestID = rv_ID rq, cq_apiKey = rv_Key rq, cq_sourceIP = clientIP (og_h s) rq, cq_model = loggedModel,
                      cq_node = nodeName, cq_status = (if aborted then ''aborted'' else ''cloud''), cq_httpStatus = code,
                      cq_latencyMs = millis elapsed, cq_tokens = tokens, cq_prefillMs = 0,
                      cq_decision = Some (cd_Reason d, cd_Detail d), cq_queueWaitMs = Some queueWait, cq_cloudMs = Some cloudTime \<rparr> s
                  in if tokens \<ge> 0 then on_admin (TrackCloudCostModel now (rv_Key rq) (cp_Name cloud) model (cp_CostPer1KTokens cloud) tokens) s0
                     else s0);
          s2 = log_audit
            \<lparr> au_RequestID = rv_ID rq, au_KeyName = rv_Key rq, au_Model = model, au_Node = nodeName,
              au_Status = (if aborted then ''aborted'' else itoa (StatusCode code)), au_LatencyMs = millis elapsed, au_Cloud = True,
              au_CloudModel = cloudModel, au_RoutingReason = cr_reason route, au_Time = now, au_QueueWaitMs = Some queueWait,
              au_CloudMs = Some cloudTime \<rparr> s1
      in log_access
           \<lparr> ax_RequestID = rv_ID rq, ax_KeyName = rv_Key rq, ax_Model = loggedModel, ax_Node = nodeName, ax_Status = code,
             ax_LatencyMs = millis elapsed, ax_Cloud = True, ax_TimeUnixMs = millis now \<rparr> s2)"

text \<open>The body a provider is sent, its own model and the model to log; \<open>None\<close> is the panic.\<close>

definition cloud_body :: "env \<Rightarrow> string \<Rightarrow> cloud_provider \<Rightarrow> payload \<Rightarrow> string \<Rightarrow> (payload \<times> string \<times> string) option" where
  "cloud_body e path cloud p model =
     (let p1 = (if path = ''/api/embeddings'' \<and> snd p > 0 then
                  let b = rewritePromptToInput (fst p) in (b, if b = fst p then snd p else en_len e b)
                else p)
      in if cp_DefaultModel cloud \<noteq> [] \<and> snd p1 > 0
         then map_option (\<lambda>p2. (p2, cp_DefaultModel cloud, model @ '' -> '' @ cp_DefaultModel cloud)) (rewrite_payload e p1 (cp_DefaultModel cloud))
         else Some (p1, [], model))"

text \<open>
  The walk over the providers.  Nothing is sent for a client that has left.  A provider that gives no answer hands over to the next
  one; the last one's failure is a 502 whose body carries no token count.  The empty chain is an index out of range.
\<close>

fun proxyToCloud ::
  "env \<Rightarrow> request \<Rightarrow> world \<Rightarrow> string \<Rightarrow> gotime \<Rightarrow> cloud_route \<Rightarrow> payload \<Rightarrow> string \<Rightarrow> nat \<Rightarrow> cloud_provider list \<Rightarrow> ongoing \<Rightarrow> finish \<times> ongoing" where
  "proxyToCloud e rq w path start route p model idx [] s = (Panicked, s)"
| "proxyToCloud e rq w path start route p model idx (cloud # rest) s =
     (let a = wd_cloud w idx in
      if up_before a then (Returned, s)
      else if equal_fold (cp_Provider cloud) ''anthropic'' \<and> translateCloudPath path = ''/v1/embeddings'' then
        (if rest \<noteq> [] then proxyToCloud e rq w path start route p model (Suc idx) rest s
         else (Returned, writeAPIError 501 ''unsupported_cloud_endpoint'' s))
      else case cloud_body e path cloud p model of
        None \<Rightarrow> (Panicked, s)
      | Some (out, cloudModel, loggedModel) \<Rightarrow>
          if \<not> en_urlOK e (cp_BaseURL cloud) then (Returned, writeAPIError 500 ''internal_error'' s)
          else
            let s1 = on_handler (up_others a) (emit (ToCloud cloud out) s) in
            case up_result a of
              Relayed r \<Rightarrow>
                (if as_Died r then AbortedStream else Returned,
                 cloud_books e rq cloud route model loggedModel cloudModel start (up_time a) (as_Status r) (as_Died r) (as_Tokens r)
                   (emit (Passed (as_Status r)) s1))
            | Unreachable \<Rightarrow>
                if rest \<noteq> [] then proxyToCloud e rq w path start route p model (Suc idx) rest s1
                else (Returned,
                      cloud_books e rq cloud route model loggedModel cloudModel start (up_time a) 502 False 0
                        (writeAPIError 502 ''upstream_error'' s1)))"

section \<open>A local node for a model\<close>

datatype 'a overlay = Overlaid 'a | CapSpent | OverlayPanic

text \<open>A node's profile for a model, over the body as the client sent it, behind the profile's own cap.\<close>

definition profileFor :: "env \<Rightarrow> gotime \<Rightarrow> payload \<Rightarrow> node_state \<Rightarrow> string \<Rightarrow> ongoing \<Rightarrow> payload overlay \<times> ongoing" where
  "profileFor e now base n model s =
     (case (case hx_admin (og_h s) of None \<Rightarrow> None | Some adm \<Rightarrow> GetModelConfig model (ns_Name n) (lg_books adm)) of
        None \<Rightarrow> (Overlaid base, s)
      | Some cfg \<Rightarrow>
          (let (ok, lim) = (if mc_RPM cfg \<noteq> None \<or> mc_TPM cfg \<noteq> None
                            then limiter_allow now model (ns_Name n) (mc_RPM cfg) (mc_TPM cfg) (hx_modelLimiter (og_h s))
                            else (True, hx_modelLimiter (og_h s)));
               s1 = on_handler (\<lambda>h. h\<lparr> hx_modelLimiter := lim \<rparr>) s
           in if \<not> ok then (CapSpent, s1)
              else case inject_payload e base (ns_Runtime n) cfg of None \<Rightarrow> (OverlayPanic, s1) | Some b \<Rightarrow> (Overlaid b, s1)))"

text \<open>The next node for the same model: \<open>None\<close> while the search goes on, else the node if there is one, and the nodes tried.\<close>

datatype 'a search = Found 'a | NotFound | SearchPanic

fun failover ::
  "nat \<Rightarrow> env \<Rightarrow> gotime \<Rightarrow> payload \<Rightarrow> string \<Rightarrow> string \<Rightarrow> string \<Rightarrow> (string, bool) gomap \<Rightarrow> ongoing
     \<Rightarrow> ((node_state \<times> payload \<times> routing_decision option) search \<times> (string, bool) gomap \<times> ongoing) option" where
  "failover 0 e now base model rt preferred tried s = None"
| "failover (Suc k) e now base model rt preferred tried s =
     (case RouteExcludingWithPrefix (en_fetch e) now model rt tried preferred (og_router s) of
        ((None, _, _), r1) \<Rightarrow> Some (NotFound, tried, on_router (\<lambda>_. r1) s)
      | ((Some alt, _, d), r1) \<Rightarrow>
          (case profileFor e now base alt model (on_router (\<lambda>_. r1) s) of
             (Overlaid b, s1) \<Rightarrow> Some (Found (alt, b, d), tried, s1)
           | (OverlayPanic, s1) \<Rightarrow> Some (SearchPanic, tried, s1)
           | (CapSpent, s1) \<Rightarrow> failover k e now base model rt preferred (gm_put (ns_URL alt) True tried) s1))"

text \<open>The walk over a degradation chain; \<open>accept\<close> may refuse a candidate's node.\<close>

fun degradation_walk ::
  "env \<Rightarrow> gotime \<Rightarrow> string \<Rightarrow> string list \<Rightarrow> (node_state \<Rightarrow> string \<Rightarrow> ongoing \<Rightarrow> 'a overlay \<times> ongoing) \<Rightarrow> string list \<Rightarrow> ongoing
     \<Rightarrow> (node_state \<times> string \<times> bool \<times> routing_decision option \<times> 'a) search \<times> ongoing" where
  "degradation_walk e now rt allowed accept [] s = (NotFound, s)"
| "degradation_walk e now rt allowed accept (candidate # cs) s =
     (if allowed \<noteq> [] \<and> candidate \<notin> set allowed then degradation_walk e now rt allowed accept cs s
      else case RouteExcluding (en_fetch e) now candidate rt [] (og_router s) of
        ((None, _, _), r1) \<Rightarrow> degradation_walk e now rt allowed accept cs (on_router (\<lambda>_. r1) s)
      | ((Some n, warm, d), r1) \<Rightarrow>
          (case accept n candidate (on_router (\<lambda>_. r1) s) of
             (CapSpent, s1) \<Rightarrow> degradation_walk e now rt allowed accept cs s1
           | (OverlayPanic, s1) \<Rightarrow> (SearchPanic, s1)
           | (Overlaid b, s1) \<Rightarrow> (Found (n, candidate, warm, d, b), s1)))"

definition tryLocalDegradationChain ::
  "env \<Rightarrow> gotime \<Rightarrow> string \<Rightarrow> string \<Rightarrow> bool \<Rightarrow> string list \<Rightarrow> (node_state \<Rightarrow> string \<Rightarrow> ongoing \<Rightarrow> 'a overlay \<times> ongoing) \<Rightarrow> ongoing
     \<Rightarrow> (node_state \<times> string \<times> bool \<times> routing_decision option \<times> 'a) search \<times> ongoing" where
  "tryLocalDegradationChain e now model rt allowDegradation allowed accept s =
     (if \<not> allowDegradation then (NotFound, s)
      else degradation_walk e now rt allowed accept (LocalDegradationChainFor (og_router s) model) s)"

definition fallback_header :: "string \<Rightarrow> string \<Rightarrow> ongoing \<Rightarrow> ongoing" where
  "fallback_header old new = set_header ''X-Marbor-Model-Fallback'' (old @ '' -> '' @ new)"

section \<open>Attempts on the local nodes\<close>

text \<open>What is fixed once the request has a node: the names it went by, its routing inputs and the result of its wait.\<close>

record dispatch =
  cx_path :: string
  cx_start :: gotime
  cx_client :: string
  cx_aliased :: bool
  cx_requested :: string
  cx_lookup :: string
  cx_prefixKey :: string
  cx_preferred :: string
  cx_runtime :: string
  cx_degradable :: bool
  cx_wait :: wait_result
  cx_maxRetries :: int
  cx_initialNode :: string
  cx_initialModel :: string

text \<open>What changes from attempt to attempt.\<close>

record leg =
  lp_node :: node_state
  lp_model :: string
  lp_base :: payload
  lp_body :: payload
  lp_warm :: bool
  lp_decision :: "routing_decision option"
  lp_tried :: "(string, bool) gomap"
  lp_degraded :: bool
  lp_retries :: nat
  lp_failed :: string

text \<open>
  The way out when no local node is left: the refusal of a local-only key, the refusal over budget, or the cloud.  \<open>None\<close> when there is
  no provider.  A cloud request takes the local resolution headers back.
\<close>

definition overflow ::
  "env \<Rightarrow> request \<Rightarrow> world \<Rightarrow> dispatch \<Rightarrow> bool \<Rightarrow> gotime \<Rightarrow> payload \<Rightarrow> string \<Rightarrow> ongoing \<Rightarrow> (finish \<times> ongoing) option" where
  "overflow e rq w cx retryFailure now base model s =
     (case localOnlyBlocked e rq model (cx_start cx) now (cx_wait cx) s of
        Some s1 \<Rightarrow> Some (Returned, s1)
      | None \<Rightarrow>
          if CloudChain (og_router s) = [] then None
          else if budget_spent e now (og_h s) (rv_Key rq) then Some (Returned, writeAPIError 503 ''cloud_budget_exceeded'' s)
          else
            let s1 = del_header ''X-Marbor-Model-Fallback'' (del_header ''X-Marbor-Model-Alias'' s) in
            case cloudRequestFor e base model (cx_client cx) (cx_aliased cx) of
              None \<Rightarrow> Some (Panicked, s1)
            | Some (p, m) \<Rightarrow>
                Some (proxyToCloud e rq w (cx_path cx) (cx_start cx) (newCloudRoute now (cx_wait cx) retryFailure) p m 0
                        (CloudChain (og_router s)) s1))"

definition retry_detail :: "leg \<Rightarrow> routing_decision option" where
  "retry_detail l =
     (if lp_retries l > 0
      then map_option (\<lambda>d. d\<lparr> rd_Detail := rd_Detail d @ '' (retry attempt '' @ itoa (int (lp_retries l) + 1) @ '' after node ''
             @ lp_failed l @ '' failed)'' \<rparr>) (lp_decision l)
      else lp_decision l)"

text \<open>The end of the loop: \<open>code\<close> is the status written, 0 when nothing was.\<close>

definition local_books ::
  "env \<Rightarrow> request \<Rightarrow> dispatch \<Rightarrow> leg \<Rightarrow> gotime \<Rightarrow> int \<Rightarrow> bool \<Rightarrow> duration \<Rightarrow> int \<Rightarrow> int \<Rightarrow> int \<Rightarrow> ongoing \<Rightarrow> ongoing" where
  "local_books e rq cx l now code aborted ttft tokens evalMs promptMs s =
     (let node = ns_Name (lp_node l); model = lp_model l; elapsed = now - cx_start cx;
          decision = retry_detail l;
          s1 = (if node \<noteq> cx_initialNode cx \<or> model \<noteq> cx_initialModel cx then on_router (RecordModelUse now node model) s else s);
          s2 = (if ttft > 0 then on_router (RecordTTFT node ttft) s1 else s1);
          status = (if aborted then ''aborted'' else if code \<ge> 500 then ''error'' else if lp_warm l then ''warm'' else ''loading'');
          served = (if model \<noteq> cx_requested cx then cx_requested cx @ '' -> '' @ model else model);
          loggedModel = (if cx_aliased cx then cx_client cx @ '' -> '' @ served else served);
          s3 = (if hx_admin (og_h s2) = None then s2
                else
                  let s0 = log_request e now
                    \<lparr> cq_requestID = rv_ID rq, cq_apiKey = rv_Key rq, cq_sourceIP = clientIP (og_h s2) rq, cq_model = loggedModel,
                      cq_node = node, cq_status = status, cq_httpStatus = code, cq_latencyMs = millis elapsed, cq_tokens = tokens,
                      cq_prefillMs = promptMs, cq_decision = map_option (\<lambda>d. (decision_code (rd_Reason d), rd_Detail d)) decision,
                      cq_queueWaitMs = None, cq_cloudMs = None \<rparr> s2
                  in if tokens \<ge> 0
                     then on_handler (\<lambda>h. h\<lparr> hx_modelLimiter := recordTokens now model node tokens (hx_modelLimiter h) \<rparr>)
                            (on_admin (TrackLocalRequestModel now (rv_Key rq) model tokens evalMs) s0)
                     else s0);
          s4 = log_audit
            \<lparr> au_RequestID = rv_ID rq, au_KeyName = rv_Key rq,
              au_Model = (if cx_aliased cx then cx_client cx @ '' -> '' @ cx_requested cx else cx_requested cx), au_Node = node,
              au_Status = (if aborted then ''aborted'' else itoa (StatusCode code)), au_LatencyMs = millis elapsed, au_Cloud = False,
              au_CloudModel = [], au_RoutingReason = (case decision of None \<Rightarrow> [] | Some d \<Rightarrow> decision_code (rd_Reason d)),
              au_Time = now, au_QueueWaitMs = None, au_CloudMs = None \<rparr> s3
      in log_access
           \<lparr> ax_RequestID = rv_ID rq, ax_KeyName = rv_Key rq,
             ax_Model = (if cx_aliased cx then cx_client cx @ '' -> '' @ model else model), ax_Node = node, ax_Status = code,
             ax_LatencyMs = millis elapsed, ax_Cloud = False, ax_TimeUnixMs = millis now \<rparr> s4)"

definition record_locality :: "gotime \<Rightarrow> string \<Rightarrow> string \<Rightarrow> bool \<Rightarrow> ongoing \<Rightarrow> ongoing" where
  "record_locality now key node ok =
     on_handler (\<lambda>h. h\<lparr> hx_prefix := RecordPrefixLocality now (hx_router h) key node ok (hx_prefix h) \<rparr>)"

text \<open>A node answered.  A client that left says nothing about the node, unless the node's own answer was a server error.\<close>

definition local_answered :: "env \<Rightarrow> request \<Rightarrow> dispatch \<Rightarrow> leg \<Rightarrow> attempt \<Rightarrow> answer \<Rightarrow> ongoing \<Rightarrow> finish \<times> ongoing" where
  "local_answered e rq cx l a r s0 =
     (let node = ns_Name (lp_node l); now = up_time a;
          s = release s0;
          success = (StatusCode (as_Status r) < 500 \<and> \<not> as_Died r);
          clientGone = (\<not> success \<and> up_gone a \<and> as_Status r < 500);
          s1 = (if clientGone then s
                else record_locality now (cx_prefixKey cx) node (success \<and> lp_model l = cx_lookup cx)
                       (on_router (RecordRequestOutcome now node success) s))
      in (if as_Died r then AbortedStream else Returned,
          local_books e rq cx l now (as_Status r) (as_Died r) (as_TTFT r) (as_Tokens r) (as_EvalMs r) (as_PromptMs r) s1))"

datatype next_leg = Again leg ongoing | Stop finish ongoing

text \<open>The request moves to another node, model or both.\<close>

definition move_to :: "env \<Rightarrow> leg \<Rightarrow> ongoing \<Rightarrow> next_leg" where
  "move_to e l s =
     (let s1 = acquire (lp_node l) (lp_model l) s in
      if \<not> en_urlOK e (ns_URL (lp_node l)) then Stop Returned (writeAPIError 500 ''internal_error'' (release s1)) else Again l s1)"

text \<open>The degradation chain after a failed attempt: the profile and cap of each candidate's node are applied as the chain is walked.\<close>

definition accept_profiled :: "env \<Rightarrow> gotime \<Rightarrow> payload \<Rightarrow> node_state \<Rightarrow> string \<Rightarrow> ongoing \<Rightarrow> payload overlay \<times> ongoing" where
  "accept_profiled e now base n model s =
     (case rewrite_payload e base model of None \<Rightarrow> (OverlayPanic, s) | Some b \<Rightarrow> profileFor e now b n model s)"

definition degrade_leg ::
  "env \<Rightarrow> request \<Rightarrow> dispatch \<Rightarrow> leg \<Rightarrow> gotime \<Rightarrow> ongoing \<Rightarrow> leg search \<times> ongoing" where
  "degrade_leg e rq cx l now s =
     (if lp_degraded l then (NotFound, s)
      else case tryLocalDegradationChain e now (lp_model l) (cx_runtime cx) (cx_degradable cx) (rv_Allowed rq)
                  (accept_profiled e now (lp_base l)) s of
        (NotFound, s1) \<Rightarrow> (NotFound, s1)
      | (SearchPanic, s1) \<Rightarrow> (SearchPanic, s1)
      | (Found (n, alt, warm, d, b), s1) \<Rightarrow>
          (case rewrite_payload e (lp_base l) alt of
             None \<Rightarrow> (SearchPanic, s1)
           | Some base \<Rightarrow>
               (Found (l\<lparr> lp_node := n, lp_model := alt, lp_base := base, lp_body := b, lp_decision := d, lp_degraded := True,
                         lp_retries := lp_retries l + 1, lp_failed := ns_Name (lp_node l), lp_warm := False \<rparr>),
                fallback_header (lp_model l) alt s1)))"

text \<open>No answer from the node: another node, another model, the cloud, or a 502 of the proxy's own.\<close>

definition local_failed ::
  "env \<Rightarrow> request \<Rightarrow> world \<Rightarrow> dispatch \<Rightarrow> nat \<Rightarrow> leg \<Rightarrow> attempt \<Rightarrow> ongoing \<Rightarrow> next_leg" where
  "local_failed e rq w cx k l0 a s0 =
     (let now = up_time a; node = ns_Name (lp_node l0);
          s = release s0;
          l = l0\<lparr> lp_tried := gm_put (ns_URL (lp_node l0)) True (lp_tried l0) \<rparr>
      in if up_gone a then Stop Returned (local_books e rq cx l now 0 True 0 (- 1) 0 0 s)
         else
           let s1 = on_router (RecordRequestOutcome now node False) s;
               preferred = (if lp_model l = cx_lookup cx then cx_preferred cx else [])
           in case (if int k < cx_maxRetries cx
                    then failover (Suc (length (r_nodes (og_router s1)))) e now (lp_base l) (lp_model l) (cx_runtime cx) preferred (lp_tried l) s1
                    else Some (NotFound, lp_tried l, s1)) of
                None \<Rightarrow> Stop StillSearching s1
              | Some (SearchPanic, _, s2) \<Rightarrow> Stop Panicked s2
              | Some (Found (alt, b, d), tried, s2) \<Rightarrow>
                  move_to e (l\<lparr> lp_node := alt, lp_body := b, lp_decision := d, lp_tried := tried, lp_warm := False,
                               lp_retries := lp_retries l + 1, lp_failed := node \<rparr>) s2
              | Some (NotFound, tried, s2) \<Rightarrow>
                  (let l2 = l\<lparr> lp_tried := tried \<rparr> in
                   case degrade_leg e rq cx l2 now s2 of
                     (SearchPanic, s3) \<Rightarrow> Stop Panicked s3
                   | (Found l3, s3) \<Rightarrow> move_to e l3 s3
                   | (NotFound, s3) \<Rightarrow>
                       (case overflow e rq w cx True now (lp_base l2) (lp_model l2) s3 of
                          Some (f, s4) \<Rightarrow> Stop f s4
                        | None \<Rightarrow>
                            Stop Returned (local_books e rq cx l2 now 502 False (now - cx_start cx) 0 0 0
                              (writeAPIError 502 ''upstream_error'' s3)))))"

definition local_step :: "env \<Rightarrow> request \<Rightarrow> world \<Rightarrow> dispatch \<Rightarrow> nat \<Rightarrow> leg \<Rightarrow> ongoing \<Rightarrow> next_leg" where
  "local_step e rq w cx k l s =
     (let a = wd_local w k;
          s1 = on_handler (up_others a) (emit (ToNode (ns_Name (lp_node l)) (lp_model l) (lp_body l)) s)
      in case up_result a of
           Relayed r \<Rightarrow> (case local_answered e rq cx l a r (emit (Passed (as_Status r)) s1) of (f, s2) \<Rightarrow> Stop f s2)
         | Unreachable \<Rightarrow> local_failed e rq w cx k l a s1)"

lemma move_to_Again: "move_to e l s = Again l' s' \<Longrightarrow> l' = l"
  by (simp add: move_to_def Let_def split: if_splits)

lemma degrade_leg_Found: "degrade_leg e rq cx l now s = (Found l', s') \<Longrightarrow> \<not> lp_degraded l \<and> lp_degraded l'"
  by (auto simp: degrade_leg_def split: if_splits prod.splits search.splits option.splits)

lemma local_failed_Again:
  assumes "local_failed e rq w cx k l a s = Again l' s'"
  shows "(int k < cx_maxRetries cx \<and> lp_degraded l' = lp_degraded l) \<or> (\<not> lp_degraded l \<and> lp_degraded l')"
  using assms
  by (auto simp: local_failed_def Let_def split: if_splits option.splits prod.splits search.splits
      dest!: move_to_Again degrade_leg_Found)

lemma local_step_Again:
  assumes "local_step e rq w cx k l s = Again l' s'"
  shows "(int k < cx_maxRetries cx \<and> lp_degraded l' = lp_degraded l) \<or> (\<not> lp_degraded l \<and> lp_degraded l')"
  using assms local_failed_Again [of e rq w cx k l]
  by (auto simp: local_step_def Let_def split: upstream.splits prod.splits)

text \<open>The loop: an attempt that goes on uses up a retry or the one degradation.\<close>

function local_loop :: "env \<Rightarrow> request \<Rightarrow> world \<Rightarrow> dispatch \<Rightarrow> nat \<Rightarrow> leg \<Rightarrow> ongoing \<Rightarrow> finish \<times> ongoing" where
  "local_loop e rq w cx k l s =
     (case local_step e rq w cx k l s of
        Stop f s' \<Rightarrow> (f, s')
      | Again l' s' \<Rightarrow> local_loop e rq w cx (Suc k) l' s')"
  by pat_completeness auto

definition attempts_left :: "dispatch \<Rightarrow> nat \<Rightarrow> leg \<Rightarrow> nat" where
  "attempts_left cx k l = nat (cx_maxRetries cx - int k) + (if lp_degraded l then 0 else 1)"

termination local_loop
proof (relation "measure (\<lambda>(e, rq, w, cx, k, l, s). attempts_left cx k l)")
  fix e rq w cx k l s l' s'
  assume "local_step e rq w cx k l s = Again l' s'"
  then show "((e, rq, w, cx, Suc k, l', s'), (e, rq, w, cx, k, l, s)) \<in> measure (\<lambda>(e, rq, w, cx, k, l, s). attempts_left cx k l)"
    using local_step_Again [of e rq w cx k l s l' s'] by (auto simp: attempts_left_def)
qed simp

declare local_loop.simps [simp del]

section \<open>Serving a request\<close>

definition alias_of :: "string \<Rightarrow> router \<Rightarrow> string \<Rightarrow> string option" where
  "alias_of path r model = (if isBlockedManagementPath path then None else ResolveModelAlias (r_modelAliases r) model)"

text \<open>The first alternate of a fallback chain that the key may use, some node has and some node has room for.\<close>

definition fallback_model :: "env \<Rightarrow> router \<Rightarrow> string list \<Rightarrow> string \<Rightarrow> int \<Rightarrow> string" where
  "fallback_model e r allowed model ctx =
     (let chain = FallbackChainFor r model in
      if chain \<noteq> [] \<and> \<not> ModelFitsAnyHealthyNode (en_fetch e) r model ctx
      then case find (\<lambda>alt. (allowed = [] \<or> alt \<in> set allowed) \<and> ModelDownloadedAnyNode (en_fetch e) r alt
                        \<and> ModelFitsAnyHealthyNode (en_fetch e) r alt ctx) chain of
             Some alt \<Rightarrow> alt | None \<Rightarrow> model
      else model)"

definition beyond_window :: "handler \<Rightarrow> string \<Rightarrow> payload \<Rightarrow> bool" where
  "beyond_window h model p \<longleftrightarrow>
     hx_admin h \<noteq> None \<and> (case gm_get (hx_contextWindows h) model of None \<Rightarrow> False | Some window \<Rightarrow> token_estimate p > window)"

definition allows_degradation :: "handler \<Rightarrow> string \<Rightarrow> bool" where
  "allows_degradation h key = (case hx_auth h of None \<Rightarrow> False | Some m \<Rightarrow> IsAllowLocalDegradation m key)"

text \<open>The request has a node: it is held, the profile applied, and the attempts start.\<close>

definition serve_on_node :: "env \<Rightarrow> request \<Rightarrow> world \<Rightarrow> dispatch \<Rightarrow> gotime \<Rightarrow> leg \<Rightarrow> ongoing \<Rightarrow> finish \<times> ongoing" where
  "serve_on_node e rq w cx now l s =
     (let node = lp_node l;
          s1 = on_router (RecordModelUse now (ns_Name node) (lp_model l)) (acquire node (lp_model l) s)
      in case profileFor e now (lp_base l) node (lp_model l) s1 of
           (OverlayPanic, s2) \<Rightarrow> (Panicked, s2)
         | (CapSpent, s2) \<Rightarrow>
             (Returned, writeAPIError 429 ''model_rate_limited'' (del_header ''X-Marbor-Model-Fallback'' (refund_key (rv_Key rq) (release s2))))
         | (Overlaid b, s2) \<Rightarrow>
             if \<not> en_urlOK e (ns_URL node) then (Returned, writeAPIError 500 ''internal_error'' (release s2))
             else local_loop e rq w cx 0 (l\<lparr> lp_body := b \<rparr>) s2)"

definition accept_any :: "node_state \<Rightarrow> string \<Rightarrow> ongoing \<Rightarrow> unit overlay \<times> ongoing" where
  "accept_any n model s = (Overlaid (), s)"

definition first_leg :: "node_state \<Rightarrow> string \<Rightarrow> payload \<Rightarrow> bool \<Rightarrow> routing_decision option \<Rightarrow> bool \<Rightarrow> leg" where
  "first_leg n model p warm d degraded =
     \<lparr> lp_node = n, lp_model = model, lp_base = p, lp_body = p, lp_warm = warm, lp_decision = d, lp_tried = [(ns_URL n, True)],
       lp_degraded = degraded, lp_retries = 0, lp_failed = [] \<rparr>"

text \<open>After the wait: the node it found, else one for a degraded model, else the way out.\<close>

definition after_wait :: "env \<Rightarrow> request \<Rightarrow> world \<Rightarrow> dispatch \<Rightarrow> gotime \<Rightarrow> payload \<Rightarrow> string \<Rightarrow> ongoing \<Rightarrow> finish \<times> ongoing" where
  "after_wait e rq w cx now p model s =
     (case wt_Node (cx_wait cx) of
        Some n \<Rightarrow>
          serve_on_node e rq w (cx\<lparr> cx_initialNode := ns_Name n, cx_initialModel := model \<rparr>) now
            (first_leg n model p (wt_Warm (cx_wait cx)) (wt_Decision (cx_wait cx)) False) s
      | None \<Rightarrow>
          (case tryLocalDegradationChain e now model (cx_runtime cx) (cx_degradable cx) (rv_Allowed rq) accept_any s of
             (SearchPanic, s1) \<Rightarrow> (Panicked, s1)
           | (Found (n, alt, warm, d, _), s1) \<Rightarrow>
               (case rewrite_payload e p alt of
                  None \<Rightarrow> (Panicked, fallback_header model alt s1)
                | Some p' \<Rightarrow>
                    serve_on_node e rq w (cx\<lparr> cx_initialNode := ns_Name n, cx_initialModel := alt \<rparr>) now
                      (first_leg n alt p' warm d True) (fallback_header model alt s1))
           | (NotFound, s1) \<Rightarrow>
               (case overflow e rq w cx False now p model s1 of
                  Some res \<Rightarrow> res
                | None \<Rightarrow> (Returned, writeAPIError 503 ''no_nodes_available'' s1))))"

text \<open>Admitted under a model: the window check, the locality lookup and the wait.\<close>

definition route_model ::
  "env \<Rightarrow> request \<Rightarrow> world \<Rightarrow> string \<Rightarrow> gotime \<Rightarrow> string \<Rightarrow> bool \<Rightarrow> string \<Rightarrow> payload \<Rightarrow> string \<Rightarrow> ongoing \<Rightarrow> finish \<times> ongoing" where
  "route_model e rq w path start client aliased requested p model s =
     (if beyond_window (og_h s) model p then (Returned, writeAPIError 400 ''context_length_exceeded'' s)
      else
        let h = og_h s;
            ((prefixKey, preferred), store) =
              PrefixLocalityLookup (\<lambda>_. en_chat e (fst p)) (en_digest e) start (hx_router h) (rv_Key rq) model [] (fst (hx_prefix h));
            rt = (if isOllamaPath path then ''ollama'' else []);
            q = \<lparr> wq_fetch = en_fetch e, wq_hour = en_hour e, wq_model = model, wq_session = TrimSpace (rv_SessionID rq), wq_runtime = rt,
                  wq_preferred = preferred, wq_cloudUsable = cloudUsable e start h (rv_Key rq) \<rparr>;
            s1 = on_handler (\<lambda>h. h\<lparr> hx_prefix := (store, snd (hx_prefix h)) \<rparr>) s
        in case WaitForNodeWithPrefixOpts q start (wd_wakes w) (og_router s1) of
             None \<Rightarrow> (StillWaiting, s1)
           | Some (res, r1) \<Rightarrow>
               (let s2 = on_handler (wd_waited w) (on_router (\<lambda>_. r1) s1) in
                after_wait e rq w
                 \<lparr> cx_path = path, cx_start = start, cx_client = client, cx_aliased = aliased, cx_requested = requested, cx_lookup = model,
                   cx_prefixKey = prefixKey, cx_preferred = preferred, cx_runtime = rt,
                   cx_degradable = allows_degradation h (rv_Key rq), cx_wait = res, cx_maxRetries = r_maxRetries (og_router s2),
                   cx_initialNode = [], cx_initialModel = [] \<rparr>
                 (start + wt_Waited res) p model s2))"

text \<open>Alias, allow-list and fallback.\<close>

definition admit :: "env \<Rightarrow> request \<Rightarrow> world \<Rightarrow> string \<Rightarrow> gotime \<Rightarrow> ongoing \<Rightarrow> finish \<times> ongoing" where
  "admit e rq w path start s =
     (let client = ExtractModelName (fst (rv_Body rq));
          target = alias_of path (og_router s) client;
          aliased = (target \<noteq> None);
          requested = (case target of None \<Rightarrow> client | Some t \<Rightarrow> t)
      in case (case target of None \<Rightarrow> Some (rv_Body rq) | Some t \<Rightarrow> rewrite_payload e (rv_Body rq) t) of
           None \<Rightarrow> (Panicked, s)
         | Some p \<Rightarrow>
             if \<not> permitted (rv_Allowed rq) requested client aliased
             then (Returned, writeAPIError 403 ''model_not_allowed'' (refund_key (rv_Key rq) s))
             else
               let s1 = (if aliased then set_header ''X-Marbor-Model-Alias'' (client @ '' -> '' @ requested) s else s);
                   model = fallback_model e (og_router s1) (rv_Allowed rq) requested (token_estimate p)
               in if model = requested then route_model e rq w path start client aliased requested p model s1
                  else case rewrite_payload e p model of
                    None \<Rightarrow> (Panicked, fallback_header requested model s1)
                  | Some p' \<Rightarrow> route_model e rq w path start client aliased requested p' model (fallback_header requested model s1))"

text \<open>The state a run starts in.\<close>

definition started :: "request \<Rightarrow> handler \<Rightarrow> ongoing" where
  "started rq h = \<lparr> og_h = h, og_hold = None, og_trace = [], og_headers = [(''X-Request-ID'', rv_ID rq)] \<rparr>"

text \<open>The whole handler; the deferred release runs however it ends.\<close>

definition ServeHTTP :: "env \<Rightarrow> request \<Rightarrow> world \<Rightarrow> gotime \<Rightarrow> handler \<Rightarrow> finish \<times> ongoing" where
  "ServeHTTP e rq w start h =
     (let s = started rq h;
          path = canonicalPath (rv_Path rq);
          (f, s1) =
            (case path_gate (hx_allowManagement h) (rv_Method rq) path (rv_Encodings rq) of
               Deny status code \<Rightarrow> (Returned, writeAPIError status code s)
             | ListModels \<Rightarrow> (Returned, emit (Listed (serveModels (en_fetch e) (hx_router h))) s)
             | OneModel i \<Rightarrow> (Returned, serveModel (en_fetch e) (hx_router h) i s)
             | Continue \<Rightarrow>
                 (case body_gate (rv_Read rq) (fst (rv_Body rq)) of
                    Deny status code \<Rightarrow> (Returned, writeAPIError status code s)
                  | _ \<Rightarrow> admit e rq w path start s))
      in (f, release s1))"

end
