(* ===== verification/Proxy_Safety.thy ===== *)
theory Proxy_Safety
  imports Proxy
begin

text \<open>
  What the request handler guarantees on every run: a hold is always given back, every request is answered once, local-only
  keys never reach a provider, allow-lists survive every substitution, and the attempts are bounded.  The invariants of a run
  share one induction over the handler, stated as a locale.
\<close>

section \<open>Steps that keep the policy\<close>

text \<open>A step that changes no key's policy and, in a fleet with distinct names, no node's name.\<close>

definition node_names :: "handler \<Rightarrow> string list" where
  "node_names h = map ns_Name (r_nodes (hx_router h))"

definition steady :: "handler \<Rightarrow> handler \<Rightarrow> bool" where
  "steady h h' \<longleftrightarrow> (\<forall>key. localOnly h' key = localOnly h key) \<and> (distinct (node_names h) \<longrightarrow> node_names h' = node_names h)"

lemma steady_refl [simp, intro]: "steady h h"
  by (simp add: steady_def)

lemma steady_trans: "steady h h' \<Longrightarrow> steady h' h'' \<Longrightarrow> steady h h''"
  by (simp add: steady_def)

lemma steady_same:
  "hx_auth h' = hx_auth h \<Longrightarrow> hx_router h' = hx_router h \<Longrightarrow> steady h h'"
  by (simp add: steady_def localOnly_def node_names_def)

lemma steady_router:
  "(distinct (map ns_Name (r_nodes (hx_router h))) \<Longrightarrow> map ns_Name (r_nodes r) = map ns_Name (r_nodes (hx_router h)))
   \<Longrightarrow> steady h (h\<lparr> hx_router := r \<rparr>)"
  by (simp add: steady_def localOnly_def node_names_def)

lemma upd_key_flag: "(\<And>ks. ks_localOnly (f ks) = ks_localOnly ks) \<Longrightarrow> ks_localOnly (mw_heap (upd_key i f m) ! j) = ks_localOnly (mw_heap m ! j)"
  by (cases "i < length (mw_heap m)"; cases "i = j") (simp_all add: upd_key_def list_update_beyond)

lemma upd_key_local: "(\<And>ks. ks_localOnly (f ks) = ks_localOnly ks) \<Longrightarrow> IsLocalOnly (upd_key i f m) key = IsLocalOnly m key"
  by (cases "gm_get (mw_byName m) key") (simp_all add: IsLocalOnly_def by_key_name_def upd_key_flag)

lemma Refund_local [simp]: "IsLocalOnly (Refund key' m) key = IsLocalOnly m key"
  by (simp add: Refund_def upd_key_local split: option.split)

lemma AddKeyTokens_local [simp]: "IsLocalOnly (AddKeyTokens lib now k n m) key = IsLocalOnly m key"
  by (simp add: AddKeyTokens_def upd_key_local split: option.split)

lemma RecordModelUse_nodes [simp]: "r_nodes (RecordModelUse now node model r) = r_nodes r"
  by (simp add: RecordModelUse_def Let_def undoIfNodeRemoved_def stampLastUsedLocked_def set_last_used_def
      forgetLastUsedForNode_def nodeExists_def)

lemma hold_names [simp]: "ns_Name (hold_node m n) = ns_Name n" "ns_Name (release_node m n) = ns_Name n"
  by (simp_all add: hold_node_def release_node_def IncrConn_def DecrConn_def IncrModelInFlight_def DecrModelInFlight_def Let_def
      split: option.split)

lemma record_names [simp]: "ns_Name (record_outcome now b n) = ns_Name n" "ns_Name (record_ttft t n) = ns_Name n"
  by (simp_all add: record_outcome_def record_ttft_def Let_def)

lemma RecordRequestOutcome_names [simp]: "map ns_Name (r_nodes (RecordRequestOutcome now n b r)) = map ns_Name (r_nodes r)"
  by (simp add: RecordRequestOutcome_def split: option.split)

lemma RecordTTFT_names [simp]: "map ns_Name (r_nodes (RecordTTFT n t r)) = map ns_Name (r_nodes r)"
  by (simp add: RecordTTFT_def split: option.split)

lemma steady_route:
  "RouteExcludingWithPrefix ft now m rt ex p (hx_router h) = (res, r1) \<Longrightarrow> steady h (h\<lparr> hx_router := r1 \<rparr>)"
proof (rule steady_router)
  assume r: "RouteExcludingWithPrefix ft now m rt ex p (hx_router h) = (res, r1)" and d: "distinct (map ns_Name (r_nodes (hx_router h)))"
  have "strip r1 = strip (hx_router h)"
    using filterAndSelect_strip [OF d, of ft now m rt p ex "hx_router h"] r by (simp add: RouteExcludingWithPrefix_def)
  then show "map ns_Name (r_nodes r1) = map ns_Name (r_nodes (hx_router h))" using strip_fields(6) by metis
qed

text \<open>A step on the handler alone: the hold, the trace and the headers of the run stay.\<close>

definition acts :: "ongoing \<Rightarrow> ongoing \<Rightarrow> bool" where
  "acts s s' \<longleftrightarrow> s' = s\<lparr> og_h := og_h s' \<rparr> \<and> steady (og_h s) (og_h s')"

lemma acts_refl [simp, intro]: "acts s s"
  by (simp add: acts_def)

lemma acts_trans: "acts s s' \<Longrightarrow> acts s' s'' \<Longrightarrow> acts s s''"
  unfolding acts_def by (metis (no_types, lifting) ongoing.surjective ongoing.update_convs(1) steady_trans)

lemma acts_fields: "acts s s' \<Longrightarrow> og_hold s' = og_hold s \<and> og_trace s' = og_trace s \<and> og_headers s' = og_headers s"
  unfolding acts_def by (metis ongoing.ext_inject ongoing.surjective ongoing.update_convs(1))

lemma acts_handler: "steady (og_h s) (f (og_h s)) \<Longrightarrow> acts s (on_handler f s)"
  by (simp add: acts_def on_handler_def)

lemma acts_router:
  "(distinct (map ns_Name (r_nodes (og_router s))) \<Longrightarrow> map ns_Name (r_nodes (f (og_router s))) = map ns_Name (r_nodes (og_router s)))
   \<Longrightarrow> acts s (on_router f s)"
  unfolding on_router_def by (rule acts_handler, rule steady_router) (simp add: og_router_def)

lemma acts_route:
  "RouteExcludingWithPrefix ft now m rt ex p (og_router s) = (res, r1) \<Longrightarrow> acts s (on_router (\<lambda>_. r1) s)"
  "RouteExcluding ft now m rt ex (og_router s) = (res, r1) \<Longrightarrow> acts s (on_router (\<lambda>_. r1) s)"
  unfolding RouteExcluding_def on_router_def og_router_def by (rule acts_handler, erule steady_route)+

lemma log_request_acts: "acts s (log_request e now q s)"
proof -
  have "hx_admin h = Some l \<Longrightarrow> LogRequestTimed lib now [] q (hx_router h) (hx_auth h, l) = (m, l') \<Longrightarrow>
      steady h (h\<lparr> hx_auth := m, hx_admin := Some l' \<rparr>)" for lib h l m l'
    by (auto simp: LogRequestTimed_def Let_def steady_def localOnly_def node_names_def split: option.splits)
  then show ?thesis
    unfolding log_request_def by (intro acts_handler) (auto split: option.split prod.split)
qed

lemma on_admin_acts: "acts s (on_admin f s)"
  by (simp add: on_admin_def acts_handler steady_same)

lemma log_audit_acts: "acts s (log_audit x s)"
  by (simp add: log_audit_def acts_handler steady_same)

lemma log_access_acts: "acts s (log_access x s)"
  by (simp add: log_access_def acts_handler steady_same)

lemma record_locality_acts: "acts s (record_locality now key node ok s)"
  by (simp add: record_locality_def acts_handler steady_same)

lemma limiter_acts: "acts s (on_handler (\<lambda>h. h\<lparr> hx_modelLimiter := f h \<rparr>) s)"
  by (simp add: acts_handler steady_same)

lemma refund_acts: "acts s (refund_key key s)"
  unfolding refund_key_def
  by (rule acts_handler) (auto simp: steady_def localOnly_def node_names_def split: option.split)

lemma profileFor_acts: "profileFor e now base n model s = (res, s') \<Longrightarrow> acts s s'"
  by (auto simp: profileFor_def Let_def limiter_acts split: if_splits option.splits prod.splits)

lemma profileFor_names:
  "profileFor e now base n model s = (Overlaid b, s') \<Longrightarrow> names_model (fst base) m \<Longrightarrow> names_model (fst b) m"
  by (auto simp: profileFor_def Let_def inject_payload_def resized_def inject_names split: if_splits option.splits prod.splits)

lemma rewrite_payload_names: "rewrite_payload e p m = Some p' \<Longrightarrow> names_model (fst p') m"
  by (auto simp: rewrite_payload_def resized_def rewrite_names)

lemma failover_acts:
  "failover k e now base model rt p tried s = Some (res, tried', s') \<Longrightarrow>
   acts s s' \<and> (\<forall>alt b d. res = Found (alt, b, d) \<longrightarrow> names_model (fst base) m \<longrightarrow> names_model (fst b) m)"
proof (induction k arbitrary: tried s)
  case (Suc k)
  obtain node warm d r1 where rt: "RouteExcludingWithPrefix (en_fetch e) now model rt tried p (og_router s) = ((node, warm, d), r1)"
    by (metis prod_cases3 prod.exhaust)
  note a1 = acts_route(1) [OF rt]
  show ?case
  proof (cases node)
    case None
    then show ?thesis using Suc.prems rt a1 by auto
  next
    case (Some alt)
    obtain ov s1 where pf: "profileFor e now base alt model (on_router (\<lambda>_. r1) s) = (ov, s1)" by (metis surj_pair)
    note a2 = acts_trans [OF a1 profileFor_acts [OF pf]]
    show ?thesis
    proof (cases ov)
      case (Overlaid b)
      then show ?thesis using Suc.prems rt Some pf a2 profileFor_names by fastforce
    next
      case CapSpent
      then have "failover k e now base model rt p (gm_put (ns_URL alt) True tried) s1 = Some (res, tried', s')"
        using Suc.prems rt Some pf by simp
      then show ?thesis using Suc.IH acts_trans [OF a2] by blast
    next
      case OverlayPanic
      then show ?thesis using Suc.prems rt Some pf a2 by auto
    qed
  qed
qed simp

definition usable :: "string list \<Rightarrow> string \<Rightarrow> bool" where
  "usable allowed m \<longleftrightarrow> allowed = [] \<or> m \<in> set allowed"

lemma degradation_walk_acts:
  assumes "\<And>n c s ov s'. accept n c s = (ov, s') \<Longrightarrow> acts s s'"
  shows "degradation_walk e now rt allowed accept cs s = (res, s') \<Longrightarrow>
    acts s s' \<and> (\<forall>n c wm d b. res = Found (n, c, wm, d, b) \<longrightarrow> usable allowed c \<and> (\<exists>s1. accept n c s1 = (Overlaid b, s')))"
proof (induction cs arbitrary: s)
  case (Cons c cs)
  show ?case
  proof (cases "allowed \<noteq> [] \<and> c \<notin> set allowed")
    case True
    then have "degradation_walk e now rt allowed accept cs s = (res, s')" using Cons.prems by simp
    then show ?thesis by (rule Cons.IH)
  next
    case False
    then have u: "usable allowed c" by (auto simp: usable_def)
    obtain node warm d r1 where rt: "RouteExcluding (en_fetch e) now c rt [] (og_router s) = ((node, warm, d), r1)"
      by (metis prod_cases3 prod.exhaust)
    note a1 = acts_route(2) [OF rt]
    show ?thesis
    proof (cases node)
      case None
      then have "degradation_walk e now rt allowed accept cs (on_router (\<lambda>_. r1) s) = (res, s')" using Cons.prems rt False by auto
      then show ?thesis using Cons.IH acts_trans [OF a1] by blast
    next
      case (Some n)
      obtain ov s1 where ac: "accept n c (on_router (\<lambda>_. r1) s) = (ov, s1)" by (metis surj_pair)
      note a2 = acts_trans [OF a1 assms [OF ac]]
      show ?thesis
      proof (cases ov)
        case (Overlaid b)
        then have "res = Found (n, c, warm, d, b)" "s' = s1" using Cons.prems rt False Some ac by auto
        then show ?thesis using a2 u ac Overlaid by blast
      next
        case CapSpent
        then have "degradation_walk e now rt allowed accept cs s1 = (res, s')" using Cons.prems rt False Some ac by auto
        then show ?thesis using Cons.IH acts_trans [OF a2] by blast
      next
        case OverlayPanic
        then have "res = SearchPanic" "s' = s1" using Cons.prems rt False Some ac by auto
        then show ?thesis using a2 by simp
      qed
    qed
  qed
qed simp

lemma chain_acts:
  assumes "\<And>n c s ov s'. accept n c s = (ov, s') \<Longrightarrow> acts s s'"
    and "tryLocalDegradationChain e now model rt ok allowed accept s = (res, s')"
  shows "acts s s'" "res = Found (n, c, wm, d, b) \<Longrightarrow> usable allowed c \<and> (\<exists>s1. accept n c s1 = (Overlaid b, s'))"
proof -
  have w: "acts s s' \<and> (\<forall>n c wm d b. res = Found (n, c, wm, d, b) \<longrightarrow> usable allowed c \<and> (\<exists>s1. accept n c s1 = (Overlaid b, s')))"
  proof (cases ok)
    case True
    then have walk: "degradation_walk e now rt allowed accept (LocalDegradationChainFor (og_router s) model) s = (res, s')"
      using assms(2) by (simp add: tryLocalDegradationChain_def)
    show ?thesis by (rule degradation_walk_acts [OF _ walk]) (rule assms(1))
  next
    case False
    then show ?thesis using assms(2) by (auto simp: tryLocalDegradationChain_def)
  qed
  then show "acts s s'" by blast
  show "res = Found (n, c, wm, d, b) \<Longrightarrow> usable allowed c \<and> (\<exists>s1. accept n c s1 = (Overlaid b, s'))" using w by blast
qed

lemma accept_profiled_acts: "accept_profiled e now base n m s = (ov, s') \<Longrightarrow> acts s s'"
  by (auto simp: accept_profiled_def profileFor_acts split: option.splits)

lemma accept_profiled_names: "accept_profiled e now base n m s = (Overlaid b, s') \<Longrightarrow> names_model (fst b) m"
  by (auto simp: accept_profiled_def split: option.splits dest: rewrite_payload_names profileFor_names)

text \<open>What a degraded leg is: the step before it acted on the handler alone, and the new model may be used and is the one the bodies name.\<close>

lemma degrade_leg_cases:
  assumes "degrade_leg e rq cx l now s = (res, s')"
  shows "case res of
      Found l' \<Rightarrow> (\<exists>s1. acts s s1 \<and> s' = fallback_header (lp_model l) (lp_model l') s1) \<and> usable (rv_Allowed rq) (lp_model l')
        \<and> names_model (fst (lp_base l')) (lp_model l') \<and> names_model (fst (lp_body l')) (lp_model l')
    | _ \<Rightarrow> acts s s'"
proof (cases "lp_degraded l")
  case True
  then show ?thesis using assms by (auto simp: degrade_leg_def)
next
  case False
  obtain ch s1 where ch: "tryLocalDegradationChain e now (lp_model l) (cx_runtime cx) (cx_degradable cx) (rv_Allowed rq)
      (accept_profiled e now (lp_base l)) s = (ch, s1)" by (metis surj_pair)
  have a: "acts s s1" by (rule chain_acts(1) [OF _ ch]) (rule accept_profiled_acts)
  show ?thesis
  proof (cases ch)
    case (Found x)
    obtain n alt wm d b where x: "x = (n, alt, wm, d, b)" by (metis prod_cases5)
    have "usable (rv_Allowed rq) alt \<and> (\<exists>s2. accept_profiled e now (lp_base l) n alt s2 = (Overlaid b, s1))"
      by (rule chain_acts(2) [OF _ ch Found [unfolded x]]) (rule accept_profiled_acts)
    then have u: "usable (rv_Allowed rq) alt" "names_model (fst b) alt" using accept_profiled_names by blast+
    show ?thesis
    proof (cases "rewrite_payload e (lp_base l) alt")
      case None
      then show ?thesis using assms False ch Found x a by (auto simp: degrade_leg_def)
    next
      case (Some base)
      then have "res = Found (l\<lparr> lp_node := n, lp_model := alt, lp_base := base, lp_body := b, lp_decision := d, lp_degraded := True,
                         lp_retries := lp_retries l + 1, lp_failed := ns_Name (lp_node l), lp_warm := False \<rparr>)"
          "s' = fallback_header (lp_model l) alt s1"
        using assms False ch Found x by (auto simp: degrade_leg_def)
      then show ?thesis using a u rewrite_payload_names [OF Some] by auto
    qed
  qed (use assms False ch a in \<open>auto simp: degrade_leg_def\<close>)
qed

lemma cloud_books_acts: "acts s (cloud_books e rq cloud route m lm cm start now code ab tk s)"
proof -
  note acts_intros = acts_trans [OF _ log_access_acts] acts_trans [OF _ log_audit_acts] acts_trans [OF log_request_acts on_admin_acts]
    log_request_acts
  show ?thesis
    unfolding cloud_books_def Let_def by (cases "route_split route (now - start) (now - cr_cloudStart route)") (auto intro!: acts_intros)
qed

lemma local_books_acts: "acts s (local_books e rq cx l now code ab ttft tk ev pr s)"
proof -
  have use: "acts s' (if c then on_router (RecordModelUse now n m) s' else s')" for c n m s'
    by (simp add: acts_router)
  have ttft: "acts s' (if c then on_router (RecordTTFT n t) s' else s')" for c n t s'
    by (simp add: acts_router)
  have admin: "acts s' (if hx_admin (og_h s') = None then s' else
      if tk \<ge> 0 then on_handler (\<lambda>h. h\<lparr> hx_modelLimiter := f h \<rparr>) (on_admin g (log_request e now q s')) else log_request e now q s')"
    for f g q s'
    using acts_trans [OF acts_trans [OF log_request_acts on_admin_acts] limiter_acts] log_request_acts by simp
  show ?thesis
    unfolding local_books_def Let_def
    by (rule acts_trans [OF _ log_access_acts], rule acts_trans [OF _ log_audit_acts],
        rule acts_trans [OF _ admin], rule acts_trans [OF use ttft])
qed

section \<open>Invariants of a run\<close>

definition client_model :: "request \<Rightarrow> string" where
  "client_model rq = ExtractModelName (fst (rv_Body rq))"

text \<open>The bodies of a leg name its model, which satisfies \<open>okm\<close>.\<close>

definition leg_ok :: "(string \<Rightarrow> bool) \<Rightarrow> leg \<Rightarrow> bool" where
  "leg_ok okm l \<longleftrightarrow> okm (lp_model l) \<and> names_model (fst (lp_base l)) (lp_model l) \<and> names_model (fst (lp_body l)) (lp_model l)"

text \<open>What a provider may be sent: the client's own model or the one the provider is configured with.\<close>

definition cloud_named :: "request \<Rightarrow> cloud_provider \<Rightarrow> body \<Rightarrow> bool" where
  "cloud_named rq cloud b \<longleftrightarrow>
     client_model rq \<noteq> [] \<longrightarrow> names_model b (client_model rq) \<or> cp_DefaultModel cloud \<noteq> [] \<and> names_model b (cp_DefaultModel cloud)"

lemma og_hold_simps [simp]:
  "og_hold (emit ev s) = og_hold s" "og_hold (on_handler f s) = og_hold s" "og_hold (on_router g s) = og_hold s"
  "og_hold (set_header k v s) = og_hold s" "og_hold (del_header k s) = og_hold s" "og_hold (fallback_header a b s) = og_hold s"
  "og_hold (writeAPIError c d s) = og_hold s" "og_hold (release s) = None" "og_hold (acquire n m s) = Some (ns_Name n, m)"
  by (simp_all add: emit_def on_handler_def on_router_def set_header_def del_header_def fallback_header_def writeAPIError_def
      release_def acquire_def split: option.split prod.split)

locale run_invariant =
  fixes rq :: request and w :: world and okm :: "string \<Rightarrow> bool" and cloudOK :: bool
    and K :: "handler \<Rightarrow> handler \<Rightarrow> bool" and I :: "ongoing \<Rightarrow> bool"
  assumes K_steady: "steady h h' \<Longrightarrow> K h h'"
    and K_local: "K h (up_others (wd_local w k) h)"
    and K_cloud: "K h (up_others (wd_cloud w k) h)"
    and K_waited: "K h (wd_waited w h)"
    and K_wait: "WaitForNodeWithPrefixOpts q now (wd_wakes w) (hx_router h) = Some (res, r) \<Longrightarrow> K h (h\<lparr> hx_router := r \<rparr>)"
    and okm_usable: "usable (rv_Allowed rq) m \<Longrightarrow> okm m"
    and I_handler: "I s \<Longrightarrow> K (og_h s) h \<Longrightarrow> I (s\<lparr> og_h := h \<rparr>)"
    and I_headers: "I s \<Longrightarrow> I (s\<lparr> og_headers := hs \<rparr>)"
    and I_reply: "I s \<Longrightarrow> I (emit (Replied status code) s)" "I s \<Longrightarrow> I (emit (Passed status) s)" "I s \<Longrightarrow> I (emit (Listed ms) s)"
    and I_acquire: "I s \<Longrightarrow> og_hold s = None \<Longrightarrow> I (acquire n m s)"
    and I_release: "I s \<Longrightarrow> I (release s)"
    and I_node: "I s \<Longrightarrow> og_hold s = Some (nm, m) \<Longrightarrow> okm m \<Longrightarrow> names_model (fst b) m \<Longrightarrow> I (emit (ToNode nm m b) s)"
    and I_leave: "I s \<Longrightarrow> \<not> localOnly (og_h s) (rv_Key rq) \<Longrightarrow> cloudOK"
    and I_cloud: "I s \<Longrightarrow> og_hold s = None \<Longrightarrow> cloudOK \<Longrightarrow> cloud_named rq cloud (fst b) \<Longrightarrow> I (emit (ToCloud cloud b) s)"
begin

lemma I_acts: "I s \<Longrightarrow> acts s s' \<Longrightarrow> I s'"
  using I_handler [OF _ K_steady] by (metis acts_def)

lemma I_on: "I s \<Longrightarrow> (\<And>h. K h (f h)) \<Longrightarrow> I (on_handler f s)"
  using I_handler by (simp add: on_handler_def)

lemma I_header: "I s \<Longrightarrow> I (set_header k v s)" "I s \<Longrightarrow> I (del_header k s)" "I s \<Longrightarrow> I (fallback_header a b s)"
  by (simp_all add: set_header_def del_header_def fallback_header_def I_headers)

lemma I_error: "I s \<Longrightarrow> I (writeAPIError status code s)"
  by (simp add: writeAPIError_def I_reply)

lemmas I_steps = I_error I_header I_reply I_release

lemma I_books:
  "I s \<Longrightarrow> I (cloud_books e rq' cloud route m lm cm start now code ab tk s)"
  "I s \<Longrightarrow> I (local_books e rq' cx l now code ab ttft tk ev pr s)"
  by (erule I_acts, rule cloud_books_acts local_books_acts)+

lemma cloud_body_named:
  assumes "cloud_body e path cloud p model = Some (out, cm, lm)" "client_model rq \<noteq> [] \<longrightarrow> names_model (fst p) (client_model rq)"
  shows "cloud_named rq cloud (fst out)"
proof -
  define p1 where "p1 = (if path = ''/api/embeddings'' \<and> snd p > 0 then
      let b = rewritePromptToInput (fst p) in (b, if b = fst p then snd p else en_len e b) else p)"
  have n1: "client_model rq \<noteq> [] \<longrightarrow> names_model (fst p1) (client_model rq)"
    using assms(2) prompt_names by (auto simp: p1_def Let_def)
  show ?thesis
  proof (cases "cp_DefaultModel cloud \<noteq> [] \<and> snd p1 > 0")
    case True
    then have "rewrite_payload e p1 (cp_DefaultModel cloud) = Some out"
      using assms(1) by (auto simp: cloud_body_def p1_def [symmetric] Let_def [of p1])
    then show ?thesis using True rewrite_payload_names by (auto simp: cloud_named_def)
  next
    case False
    then have "out = p1" using assms(1) by (auto simp: cloud_body_def p1_def [symmetric] Let_def [of p1])
    then show ?thesis using n1 by (auto simp: cloud_named_def)
  qed
qed

lemma proxyToCloud_inv:
  "I s \<Longrightarrow> og_hold s = None \<Longrightarrow> cloudOK \<Longrightarrow> client_model rq \<noteq> [] \<longrightarrow> names_model (fst p) (client_model rq) \<Longrightarrow>
   I (snd (proxyToCloud e rq w path start route p model idx clouds s))"
proof (induction clouds arbitrary: idx s)
  case (Cons cloud rest)
  define a where "a = wd_cloud w idx"
  show ?case
  proof (cases "up_before a \<or> (equal_fold (cp_Provider cloud) ''anthropic'' \<and> translateCloudPath path = ''/v1/embeddings'')
      \<or> cloud_body e path cloud p model = None")
    case True
    then show ?thesis
      using Cons.prems Cons.IH [of s "Suc idx"] by (auto simp: Let_def a_def [symmetric] I_error split: option.split)
  next
    case False
    then obtain out cm lm where b: "cloud_body e path cloud p model = Some (out, cm, lm)" by auto
    let ?s = "on_handler (up_others a) (emit (ToCloud cloud out) s)"
    have sent: "I ?s"
      using I_on [OF I_cloud [OF Cons.prems(1-3) cloud_body_named [OF b Cons.prems(4)]]] K_cloud by (simp add: a_def)
    show ?thesis
    proof (cases "\<not> en_urlOK e (cp_BaseURL cloud)")
      case True
      then show ?thesis using False b Cons.prems(1) by (auto simp: Let_def a_def [symmetric] I_error)
    next
      case url: False
      show ?thesis
      proof (cases "up_result a")
        case (Relayed r)
        then show ?thesis using False b url I_books(1) [OF I_reply(2) [OF sent]] by (auto simp: Let_def a_def [symmetric])
      next
        case Unreachable
        then show ?thesis
          using False b url I_books(1) [OF I_error [OF sent]] Cons.IH [OF sent _ Cons.prems(3,4), of "Suc idx"] Cons.prems(2)
          by (auto simp: Let_def a_def [symmetric])
      qed
    qed
  qed
qed simp

lemma localOnlyBlocked_inv: "I s \<Longrightarrow> localOnlyBlocked e rq model start now res s = Some s' \<Longrightarrow> I s'"
proof -
  assume i: "I s" and b: "localOnlyBlocked e rq model start now res s = Some s'"
  have "acts s1 (logBlocked e rq model start now res s1)" for s1
    unfolding logBlocked_def Let_def by (rule acts_trans [OF log_request_acts log_audit_acts])
  then have "I (logBlocked e rq model start now res (on_admin (IncrSpill (rv_Key rq) ''blocked'') (writeAPIError 503 ''local_only_blocked'' s)))"
    using I_acts [OF I_acts [OF I_error [OF i] on_admin_acts]] by blast
  then show ?thesis using b by (simp add: localOnlyBlocked_def split: if_splits)
qed

lemma cloudRequestFor_names:
  "cloudRequestFor e p model (client_model rq) aliased = Some (q, m) \<Longrightarrow> names_model (fst p) model \<Longrightarrow>
   client_model rq \<noteq> [] \<longrightarrow> names_model (fst q) (client_model rq)"
  by (auto simp: cloudRequestFor_def split: if_splits dest: rewrite_payload_names)

lemma overflow_inv:
  assumes "I s" "names_model (fst base) model" "cx_client cx = client_model rq" "og_hold s = None"
    and "overflow e rq w cx retried now base model s = Some (f, s')"
  shows "I s'"
proof (cases "localOnlyBlocked e rq model (cx_start cx) now (cx_wait cx) s")
  case (Some s1)
  then show ?thesis using assms localOnlyBlocked_inv by (auto simp: overflow_def)
next
  case None
  then have ok: cloudOK using I_leave [OF assms(1)] by (auto simp: localOnlyBlocked_def split: if_splits)
  show ?thesis
  proof (cases "budget_spent e now (og_h s) (rv_Key rq)")
    case True
    then show ?thesis using assms None I_error by (auto simp: overflow_def split: if_splits)
  next
    case False
    define s1 where "s1 = del_header ''X-Marbor-Model-Fallback'' (del_header ''X-Marbor-Model-Alias'' s)"
    have i: "I s1" "og_hold s1 = None" using assms(1,4) by (simp_all add: s1_def I_header)
    show ?thesis
    proof (cases "cloudRequestFor e base model (client_model rq) (cx_aliased cx)")
      case none: None
      then show ?thesis
        using assms None False i by (auto simp: overflow_def s1_def [symmetric] Let_def split: if_splits)
    next
      case (Some pm)
      obtain p m where pm: "pm = (p, m)" by (cases pm)
      have "s' = snd (proxyToCloud e rq w (cx_path cx) (cx_start cx) (newCloudRoute now (cx_wait cx) retried) p m 0
          (CloudChain (og_router s)) s1)"
        using assms(3,5) None False Some pm by (auto simp: overflow_def s1_def [symmetric] Let_def split: if_splits dest: arg_cong [of _ _ snd])
      then show ?thesis using proxyToCloud_inv [OF i(1) i(2) ok] cloudRequestFor_names [OF Some [unfolded pm] assms(2)] by simp
    qed
  qed
qed

end

lemma on_router_outcome_acts: "acts s (on_router (RecordRequestOutcome now n b) s)"
  by (rule acts_router) simp

context run_invariant
begin

lemma local_answered_inv: "I s \<Longrightarrow> I (snd (local_answered e rq cx l a r s))"
  unfolding local_answered_def Let_def snd_conv
  by (rule I_books, rule I_acts [where s = "release s"])
     (auto simp: I_release intro: acts_trans [OF on_router_outcome_acts record_locality_acts])

lemma move_to_inv:
  assumes "I s" "og_hold s = None" "leg_ok okm l"
  shows "case move_to e l s of Stop f s' \<Rightarrow> I s' | Again l' s' \<Rightarrow> I s' \<and> leg_ok okm l' \<and> og_hold s' = Some (ns_Name (lp_node l'), lp_model l')"
  using assms I_acquire [OF assms(1,2)] by (simp add: move_to_def Let_def I_error I_release)

lemma I_on_local: "I s \<Longrightarrow> I (on_handler (up_others (wd_local w k)) s)"
  using I_on K_local by blast

lemma local_failed_inv:
  assumes "I s0" "leg_ok okm l0" "cx_client cx = client_model rq"
  shows "case local_failed e rq w cx k l0 a s0 of Stop f s' \<Rightarrow> I s' | Again l' s' \<Rightarrow> I s' \<and> leg_ok okm l' \<and> og_hold s' = Some (ns_Name (lp_node l'), lp_model l')"
proof (cases "up_gone a")
  case True
  then show ?thesis using assms(1) by (simp add: local_failed_def Let_def I_books I_release)
next
  case False
  define l where "l = l0\<lparr> lp_tried := gm_put (ns_URL (lp_node l0)) True (lp_tried l0) \<rparr>"
  define s1 where "s1 = on_router (RecordRequestOutcome (up_time a) (ns_Name (lp_node l0)) False) (release s0)"
  define preferred where "preferred = (if lp_model l = cx_lookup cx then cx_preferred cx else [])"
  define fo where "fo = (if int k < cx_maxRetries cx
      then failover (Suc (length (r_nodes (og_router s1)))) e (up_time a) (lp_base l) (lp_model l) (cx_runtime cx) preferred (lp_tried l) s1
      else Some (NotFound, lp_tried l, s1))"
  have lok: "okm (lp_model l)" "names_model (fst (lp_base l)) (lp_model l)" using assms(2) by (simp_all add: leg_ok_def l_def)
  have i1: "I s1" "og_hold s1 = None"
    using I_acts [OF I_release [OF assms(1)] on_router_outcome_acts] by (simp_all add: s1_def)
  have run: "local_failed e rq w cx k l0 a s0 =
      (case fo of
         None \<Rightarrow> Stop StillSearching s1
       | Some (SearchPanic, _, s2) \<Rightarrow> Stop Panicked s2
       | Some (Found (alt, b, d), tried, s2) \<Rightarrow>
           move_to e (l\<lparr> lp_node := alt, lp_body := b, lp_decision := d, lp_tried := tried, lp_warm := False,
                        lp_retries := lp_retries l + 1, lp_failed := ns_Name (lp_node l0) \<rparr>) s2
       | Some (NotFound, tried, s2) \<Rightarrow>
           (let l2 = l\<lparr> lp_tried := tried \<rparr> in
            case degrade_leg e rq cx l2 (up_time a) s2 of
              (SearchPanic, s3) \<Rightarrow> Stop Panicked s3
            | (Found l3, s3) \<Rightarrow> move_to e l3 s3
            | (NotFound, s3) \<Rightarrow>
                (case overflow e rq w cx True (up_time a) (lp_base l2) (lp_model l2) s3 of
                   Some (f, s4) \<Rightarrow> Stop f s4
                 | None \<Rightarrow>
                     Stop Returned (local_books e rq cx l2 (up_time a) 502 False (up_time a - cx_start cx) 0 0 0
                       (writeAPIError 502 ''upstream_error'' s3)))))"
    using False unfolding local_failed_def Let_def l_def [symmetric] s1_def [symmetric] preferred_def [symmetric] fo_def [symmetric]
    by simp
  show ?thesis
  proof (cases fo)
    case None
    then show ?thesis using run i1 by simp
  next
    case (Some x)
    obtain res tried s2 where x: "x = (res, tried, s2)" by (cases x)
    have act: "acts s1 s2 \<and> (\<forall>alt b d. res = Found (alt, b, d) \<longrightarrow> names_model (fst b) (lp_model l))"
    proof (cases "int k < cx_maxRetries cx")
      case True
      then have "failover (Suc (length (r_nodes (og_router s1)))) e (up_time a) (lp_base l) (lp_model l) (cx_runtime cx) preferred
          (lp_tried l) s1 = Some (res, tried, s2)" using Some x by (simp add: fo_def)
      from failover_acts [OF this, of "lp_model l"] show ?thesis using lok(2) by blast
    next
      case no: False
      then show ?thesis using Some x by (auto simp: fo_def)
    qed
    have i2: "I s2" "og_hold s2 = None" using I_acts [OF i1(1)] acts_fields i1(2) act by fastforce+
    show ?thesis
    proof (cases res)
      case (Found y)
      obtain alt b d where y: "y = (alt, b, d)" by (cases y)
      have "names_model (fst b) (lp_model l)" using act Found y by blast
      then have "leg_ok okm (l\<lparr> lp_node := alt, lp_body := b, lp_decision := d, lp_tried := tried, lp_warm := False,
          lp_retries := lp_retries l + 1, lp_failed := ns_Name (lp_node l0) \<rparr>)"
        using lok by (simp add: leg_ok_def)
      from move_to_inv [OF i2 this] show ?thesis unfolding run Some x Found y by simp
    next
      case SearchPanic
      then show ?thesis using run Some x i2 by simp
    next
      case NotFound
      define l2 where "l2 = l\<lparr> lp_tried := tried \<rparr>"
      have l2: "lp_base l2 = lp_base l" "lp_model l2 = lp_model l" by (simp_all add: l2_def)
      obtain dg s3 where dg: "degrade_leg e rq cx l2 (up_time a) s2 = (dg, s3)" by (metis surj_pair)
      note dc = degrade_leg_cases [OF dg]
      show ?thesis
      proof (cases dg)
        case (Found l3)
        then obtain s' where s': "acts s2 s'" "s3 = fallback_header (lp_model l2) (lp_model l3) s'" using dc by auto
        have i3: "I s3" "og_hold s3 = None" using I_header I_acts [OF i2(1) s'(1)] acts_fields [OF s'(1)] i2(2) s'(2) by simp_all
        have "leg_ok okm l3" using dc Found okm_usable by (simp add: leg_ok_def)
        from move_to_inv [OF i3 this] show ?thesis
          unfolding run Some x NotFound Let_def using dg Found by (simp flip: l2_def)
      next
        case SearchPanic
        then show ?thesis using dc I_acts [OF i2(1)] unfolding run Some x NotFound Let_def using dg SearchPanic by (simp flip: l2_def)
      next
        case none: NotFound
        then have i3: "I s3" "og_hold s3 = None" using dc I_acts [OF i2(1)] acts_fields i2(2) by simp_all
        show ?thesis
        proof (cases "overflow e rq w cx True (up_time a) (lp_base l2) (lp_model l2) s3")
          case no: None
          then show ?thesis unfolding run Some x NotFound Let_def using dg none I_books(2) [OF I_error [OF i3(1)]] by (simp flip: l2_def)
        next
          case ov: (Some fs)
          obtain f s4 where fs: "fs = (f, s4)" by (cases fs)
          have "I s4" using overflow_inv [OF i3(1) _ assms(3) i3(2) ov [unfolded fs]] lok(2) l2 by simp
          then show ?thesis unfolding run Some x NotFound Let_def using dg none ov fs by (simp flip: l2_def)
        qed
      qed
    qed
  qed
qed

lemma local_step_inv:
  assumes "I s" "leg_ok okm l" "cx_client cx = client_model rq" "og_hold s = Some (ns_Name (lp_node l), lp_model l)"
  shows "case local_step e rq w cx k l s of Stop f s' \<Rightarrow> I s' | Again l' s' \<Rightarrow> I s' \<and> leg_ok okm l' \<and> og_hold s' = Some (ns_Name (lp_node l'), lp_model l')"
proof -
  define s1 where "s1 = on_handler (up_others (wd_local w k)) (emit (ToNode (ns_Name (lp_node l)) (lp_model l) (lp_body l)) s)"
  have i: "I s1" using I_on_local [OF I_node] assms(1,2,4) by (simp add: s1_def leg_ok_def)
  show ?thesis
  proof (cases "up_result (wd_local w k)")
    case (Relayed r)
    then show ?thesis
      using local_answered_inv [OF I_reply(2) [OF i]] by (auto simp: local_step_def Let_def s1_def [symmetric] split: prod.split)
         (metis snd_conv)
  next
    case Unreachable
    then show ?thesis using local_failed_inv [OF i assms(2,3)] by (simp add: local_step_def Let_def s1_def [symmetric])
  qed
qed

lemma local_loop_inv:
  "I s \<Longrightarrow> leg_ok okm l \<Longrightarrow> cx_client cx = client_model rq \<Longrightarrow> og_hold s = Some (ns_Name (lp_node l), lp_model l) \<Longrightarrow>
   I (snd (local_loop e rq w cx k l s))"
proof (induction "attempts_left cx k l" arbitrary: k l s rule: less_induct)
  case less
  note st = local_step_inv [OF less.prems, of e k]
  show ?case
  proof (cases "local_step e rq w cx k l s")
    case (Stop f s')
    then show ?thesis using st by (simp add: local_loop.simps)
  next
    case (Again l' s')
    have "attempts_left cx (Suc k) l' < attempts_left cx k l" using local_step_Again [OF Again] by (auto simp: attempts_left_def)
    then show ?thesis using less.hyps st Again less.prems(3) by (simp add: local_loop.simps)
  qed
qed

end

lemma fallback_model_usable: "fallback_model e r allowed m ctx = m \<or> usable allowed (fallback_model e r allowed m ctx)"
  by (auto simp: fallback_model_def usable_def Let_def find_Some_iff split: option.split)

text \<open>The model a request is admitted under, before any substitution.\<close>

definition admitted :: "request \<Rightarrow> handler \<Rightarrow> string \<Rightarrow> bool" where
  "admitted rq h m \<longleftrightarrow>
     (case alias_of (canonicalPath (rv_Path rq)) (hx_router h) (client_model rq) of
        None \<Rightarrow> m = client_model rq \<and> usable (rv_Allowed rq) m
      | Some t \<Rightarrow> m = t \<and> (usable (rv_Allowed rq) t \<or> client_model rq \<in> set (rv_Allowed rq)))"

context run_invariant
begin

lemma serve_on_node_inv:
  assumes "I s" "og_hold s = None" "okm (lp_model l)" "names_model (fst (lp_base l)) (lp_model l)" "cx_client cx = client_model rq"
  shows "I (snd (serve_on_node e rq w cx now l s))"
proof -
  define s1 where "s1 = on_router (RecordModelUse now (ns_Name (lp_node l)) (lp_model l)) (acquire (lp_node l) (lp_model l) s)"
  have i1: "I s1" using I_acts [OF I_acquire [OF assms(1,2)] acts_router] by (simp add: s1_def)
  have h1: "og_hold s1 = Some (ns_Name (lp_node l), lp_model l)" by (simp add: s1_def)
  obtain ov s2 where pf: "profileFor e now (lp_base l) (lp_node l) (lp_model l) s1 = (ov, s2)" by (metis surj_pair)
  note i2 = I_acts [OF i1 profileFor_acts [OF pf]]
  have h2: "og_hold s2 = Some (ns_Name (lp_node l), lp_model l)" using acts_fields [OF profileFor_acts [OF pf]] h1 by simp
  show ?thesis
  proof (cases ov)
    case (Overlaid b)
    have "leg_ok okm (l\<lparr> lp_body := b \<rparr>)"
      using assms(3,4) profileFor_names [OF pf [unfolded Overlaid] assms(4)] by (simp add: leg_ok_def)
    then have "I (snd (local_loop e rq w cx 0 (l\<lparr> lp_body := b \<rparr>) s2))" using local_loop_inv [OF i2, of "l\<lparr> lp_body := b \<rparr>" cx e 0] assms(5) h2 by simp
    moreover have "I (writeAPIError 500 ''internal_error'' (release s2))" using i2 by (simp add: I_steps)
    ultimately show ?thesis using pf Overlaid by (simp add: serve_on_node_def Let_def s1_def [symmetric])
  next
    case CapSpent
    have "I (writeAPIError 429 ''model_rate_limited'' (del_header ''X-Marbor-Model-Fallback'' (refund_key (rv_Key rq) (release s2))))"
      using I_acts [OF I_release [OF i2] refund_acts] by (simp add: I_steps)
    then show ?thesis using pf CapSpent by (simp add: serve_on_node_def Let_def s1_def [symmetric])
  next
    case OverlayPanic
    then show ?thesis using pf i2 by (simp add: serve_on_node_def Let_def s1_def [symmetric])
  qed
qed

lemma accept_any_acts: "accept_any n m s = (ov, s') \<Longrightarrow> acts s s'"
  by (auto simp: accept_any_def)

lemma after_wait_inv:
  assumes "I s" "og_hold s = None" "okm model" "names_model (fst p) model" "cx_client cx = client_model rq"
  shows "I (snd (after_wait e rq w cx now p model s))"
proof (cases "wt_Node (cx_wait cx)")
  case (Some n)
  then show ?thesis using assms by (auto simp: after_wait_def first_leg_def intro!: serve_on_node_inv)
next
  case None
  obtain ch s1 where ch: "tryLocalDegradationChain e now model (cx_runtime cx) (cx_degradable cx) (rv_Allowed rq) accept_any s = (ch, s1)"
    by (metis surj_pair)
  have a: "acts s s1" by (rule chain_acts(1) [OF _ ch]) (rule accept_any_acts)
  have i1: "I s1" "og_hold s1 = None" using I_acts [OF assms(1) a] acts_fields [OF a] assms(2) by simp_all
  show ?thesis
  proof (cases ch)
    case (Found x)
    obtain n alt wm d u where x: "x = (n, alt, wm, d, u)" by (metis prod_cases5)
    have "usable (rv_Allowed rq) alt \<and> (\<exists>s2. accept_any n alt s2 = (Overlaid u, s1))"
      by (rule chain_acts(2) [OF _ ch Found [unfolded x]]) (rule accept_any_acts)
    then have ok: "okm alt" by (simp add: okm_usable)
    show ?thesis
    proof (cases "rewrite_payload e p alt")
      case no: None
      then show ?thesis using None ch Found x i1 by (simp add: after_wait_def I_header)
    next
      case (Some p')
      then have "I (snd (serve_on_node e rq w (cx\<lparr> cx_initialNode := ns_Name n, cx_initialModel := alt \<rparr>) now
          (first_leg n alt p' wm d True) (fallback_header model alt s1)))"
        using i1 ok assms(5) rewrite_payload_names by (intro serve_on_node_inv) (simp_all add: I_header first_leg_def)
      then show ?thesis using None ch Found x Some by (simp add: after_wait_def)
    qed
  next
    case NotFound
    show ?thesis
    proof (cases "overflow e rq w cx False now p model s1")
      case no: None
      then show ?thesis using None ch NotFound i1 by (simp add: after_wait_def I_error)
    next
      case (Some fs)
      obtain f s4 where fs: "fs = (f, s4)" by (cases fs)
      have "I s4" by (rule overflow_inv [OF i1(1) assms(4,5) i1(2) Some [unfolded fs]])
      then show ?thesis using None ch NotFound Some fs by (simp add: after_wait_def)
    qed
  next
    case SearchPanic
    then show ?thesis using None ch i1 by (simp add: after_wait_def)
  qed
qed

lemma route_model_inv:
  assumes "I s" "og_hold s = None" "okm model" "names_model (fst p) model" "client = client_model rq"
  shows "I (snd (route_model e rq w path start client aliased requested p model s))"
proof (cases "beyond_window (og_h s) model p")
  case True
  then show ?thesis using assms(1) by (simp add: route_model_def I_error)
next
  case False
  obtain key pref store where lk: "PrefixLocalityLookup (\<lambda>_. en_chat e (fst p)) (en_digest e) start (hx_router (og_h s)) (rv_Key rq) model []
      (fst (hx_prefix (og_h s))) = ((key, pref), store)" by (metis prod.exhaust)
  define s1 where "s1 = on_handler (\<lambda>h. h\<lparr> hx_prefix := (store, snd (hx_prefix h)) \<rparr>) s"
  define rt where "rt = (if isOllamaPath path then ''ollama'' else [])"
  define q where "q = \<lparr> wq_fetch = en_fetch e, wq_hour = en_hour e, wq_model = model, wq_session = TrimSpace (rv_SessionID rq), wq_runtime = rt,
                  wq_preferred = pref, wq_cloudUsable = cloudUsable e start (og_h s) (rv_Key rq) \<rparr>"
  have i1: "I s1" using I_acts [OF assms(1) acts_handler] by (simp add: s1_def steady_same)
  note unf = route_model_def Let_def lk prod.case s1_def [symmetric] rt_def [symmetric] q_def [symmetric]
  show ?thesis
  proof (cases "WaitForNodeWithPrefixOpts q start (wd_wakes w) (og_router s1)")
    case None
    then show ?thesis using False i1 unfolding unf by simp
  next
    case (Some x)
    obtain res r1 where x: "x = (res, r1)" by (cases x)
    have "K (og_h s1) ((og_h s1)\<lparr> hx_router := r1 \<rparr>)" using K_wait Some x by (simp add: og_router_def)
    then have "I (on_router (\<lambda>_. r1) s1)" using I_handler [OF i1] by (simp add: on_router_def on_handler_def)
    then have i2: "I (on_handler (wd_waited w) (on_router (\<lambda>_. r1) s1))" by (rule I_on) (rule K_waited)
    have h2: "og_hold (on_handler (wd_waited w) (on_router (\<lambda>_. r1) s1)) = None" using assms(2) by (simp add: s1_def)
    show ?thesis using False after_wait_inv [OF i2 h2 assms(3,4)] assms(5) Some x unfolding unf by simp
  qed
qed

lemma admit_inv:
  assumes "I s" "og_hold s = None" "names_model (fst (rv_Body rq)) (client_model rq)"
    and adm: "\<And>m. admitted rq (og_h s) m \<Longrightarrow> okm m" and path: "path = canonicalPath (rv_Path rq)"
  shows "I (snd (admit e rq w path start s))"
proof -
  define client where "client = ExtractModelName (fst (rv_Body rq))"
  define target where "target = alias_of path (og_router s) client"
  define requested where "requested = (case target of None \<Rightarrow> client | Some t \<Rightarrow> t)"
  define start_body where "start_body = (case target of None \<Rightarrow> Some (rv_Body rq) | Some t \<Rightarrow> rewrite_payload e (rv_Body rq) t)"
  note unf = admit_def Let_def client_def [symmetric] target_def [symmetric] requested_def [symmetric] start_body_def [symmetric]
  have client: "client = client_model rq" by (simp add: client_def client_model_def)
  show ?thesis
  proof (cases start_body)
    case None
    then show ?thesis using assms(1) unfolding unf by simp
  next
    case (Some p)
    have names: "names_model (fst p) requested"
      using Some assms(3) rewrite_payload_names by (auto simp: start_body_def requested_def client split: option.splits)
    show ?thesis
    proof (cases "permitted (rv_Allowed rq) requested client (target \<noteq> None)")
      case False
      then show ?thesis using Some I_acts [OF assms(1) refund_acts] unfolding unf by (simp add: I_error)
    next
      case True
      then have "admitted rq (og_h s) requested"
        by (auto simp: admitted_def permitted_def usable_def requested_def target_def client path og_router_def split: option.splits)
      then have ok: "okm requested" by (rule adm)
      define s1 where "s1 = (if target \<noteq> None then set_header ''X-Marbor-Model-Alias'' (client @ '' -> '' @ requested) s else s)"
      define model where "model = fallback_model e (og_router s1) (rv_Allowed rq) requested (token_estimate p)"
      have i1: "I s1" "og_hold s1 = None" using assms(1,2) I_header by (simp_all add: s1_def)
      have okm: "okm model" using fallback_model_usable [of e "og_router s1" "rv_Allowed rq" requested "token_estimate p"] ok okm_usable
        by (auto simp: model_def)
      note unf' = unf Some option.case s1_def [symmetric] model_def [symmetric]
      show ?thesis
      proof (cases "model = requested")
        case eq: True
        then show ?thesis
          using True route_model_inv [OF i1 okm _ client] names unfolding unf' by simp
      next
        case ne: False
        show ?thesis
        proof (cases "rewrite_payload e p model")
          case none: None
          then show ?thesis using True ne i1 unfolding unf' by (simp add: I_header)
        next
          case p': (Some p')
          have "I (snd (route_model e rq w path start client (target \<noteq> None) requested p' model (fallback_header requested model s1)))"
            by (rule route_model_inv [OF _ _ okm rewrite_payload_names [OF p'] client]) (simp_all add: i1 I_header)
          then show ?thesis using True ne p' unfolding unf' by simp
        qed
      qed
    qed
  qed
qed

lemma ServeHTTP_inv:
  assumes "I (started rq h)" "\<And>m. admitted rq h m \<Longrightarrow> okm m"
  shows "I (snd (ServeHTTP e rq w start h))"
proof -
  have run: "ServeHTTP e rq w start h =
      (let (f, s1) =
        (case path_gate (hx_allowManagement h) (rv_Method rq) (canonicalPath (rv_Path rq)) (rv_Encodings rq) of
           Deny status code \<Rightarrow> (Returned, writeAPIError status code (started rq h))
         | ListModels \<Rightarrow> (Returned, emit (Listed (serveModels (en_fetch e) (hx_router h))) (started rq h))
         | OneModel i \<Rightarrow> (Returned, serveModel (en_fetch e) (hx_router h) i (started rq h))
         | Continue \<Rightarrow>
             (case body_gate (rv_Read rq) (fst (rv_Body rq)) of
                Deny status code \<Rightarrow> (Returned, writeAPIError status code (started rq h))
              | _ \<Rightarrow> admit e rq w (canonicalPath (rv_Path rq)) start (started rq h)))
       in (f, release s1))"
    by (simp add: ServeHTTP_def Let_def)
  have adm: "I (snd (admit e rq w (canonicalPath (rv_Path rq)) start (started rq h)))"
    if "body_gate (rv_Read rq) (fst (rv_Body rq)) = Continue"
  proof (rule admit_inv [OF assms(1)])
    show "names_model (fst (rv_Body rq)) (client_model rq)"
      using that accepted_names by (auto simp: body_gate_def client_model_def split: option.splits read_error.splits if_splits)
  qed (simp_all add: started_def assms(2))
  have models: "I (serveModel ft r i (started rq h))" for ft r i
    using assms(1) by (simp add: serveModel_def Let_def I_steps)
  have body: "\<exists>status code. body_gate (rv_Read rq) (fst (rv_Body rq)) = Deny status code \<or> body_gate (rv_Read rq) (fst (rv_Body rq)) = Continue"
    by (simp add: body_gate_def split: option.split read_error.split)
  show ?thesis
  proof (cases "path_gate (hx_allowManagement h) (rv_Method rq) (canonicalPath (rv_Path rq)) (rv_Encodings rq)")
    case Continue
    then show ?thesis using run body adm I_error [OF assms(1)] I_release by (auto simp: split_beta)
  next
    case (Deny status code)
    then show ?thesis using run I_release [OF I_error [OF assms(1)]] by simp
  next
    case ListModels
    then show ?thesis using run I_release [OF I_reply(3) [OF assms(1)]] by simp
  next
    case (OneModel i)
    then show ?thesis using run I_release [OF models] by simp
  qed
qed

end

section \<open>The search for another node ends\<close>

definition untried :: "(string, bool) gomap \<Rightarrow> node_state list \<Rightarrow> nat" where
  "untried tried ns = length (filter (\<lambda>n. \<not> gm_at False tried (ns_URL n)) ns)"

lemma untried_less:
  assumes "n \<in> set ns" "\<not> gm_at False tried (ns_URL n)"
  shows "untried (gm_put (ns_URL n) True tried) ns < untried tried ns"
proof -
  have at: "gm_at False (gm_put (ns_URL n) True tried) u = (u = ns_URL n \<or> gm_at False tried u)" for u
    by (simp add: gm_at_def gm_get_put)
  let ?xs = "filter (\<lambda>x. \<not> gm_at False tried (ns_URL x)) ns"
  have "untried (gm_put (ns_URL n) True tried) ns = length (filter (\<lambda>x. ns_URL x \<noteq> ns_URL n) ?xs)"
    by (simp add: untried_def at conj_commute)
  moreover have "length (filter (\<lambda>x. ns_URL x \<noteq> ns_URL n) ?xs) < length ?xs"
    using assms by (intro length_filter_less [of n]) simp_all
  ultimately show ?thesis by (simp add: untried_def)
qed

lemma profileFor_router: "profileFor e now base n m s = (ov, s') \<Longrightarrow> og_router s' = og_router s"
  by (auto simp: profileFor_def Let_def og_router_def on_handler_def split: if_splits option.splits prod.splits)

lemma failover_ends:
  "distinct (map ns_Name (r_nodes (og_router s))) \<Longrightarrow> untried tried (r_nodes (og_router s)) < k \<Longrightarrow>
   failover k e now base m rt p tried s \<noteq> None"
proof (induction k arbitrary: tried s)
  case (Suc k)
  obtain node warm d r1 where rt: "RouteExcludingWithPrefix (en_fetch e) now m rt tried p (og_router s) = ((node, warm, d), r1)"
    by (metis prod_cases3 prod.exhaust)
  then have fs: "fst (filterAndSelect (en_fetch e) now (r_nodes (og_router s)) m rt p tried (og_router s)) = (node, warm, d)"
      "snd (filterAndSelect (en_fetch e) now (r_nodes (og_router s)) m rt p tried (og_router s)) = r1"
    by (simp_all add: RouteExcludingWithPrefix_def)
  have r1: "r_nodes r1 = r_nodes (og_router s)"
    using filterAndSelect_strip [OF Suc.prems(1), of "en_fetch e" now m rt p tried "og_router s"] fs(2) strip_fields(6) by metis
  show ?case
  proof (cases node)
    case None
    then show ?thesis using rt by simp
  next
    case (Some alt)
    obtain d' where "alt \<in> set (candidates_of (og_router s) (r_nodes (og_router s)) m rt tried)"
      using filterAndSelect_Some [OF Suc.prems(1) fs(1) [unfolded Some]] by metis
    note alt = candidates_sound(1,2) [OF this]
    obtain ov s1 where pf: "profileFor e now base alt m (on_router (\<lambda>_. r1) s) = (ov, s1)" by (metis surj_pair)
    have n1: "r_nodes (og_router s1) = r_nodes (og_router s)"
      using profileFor_router [OF pf] r1 by (simp add: og_router_def on_router_def on_handler_def)
    have "failover k e now base m rt p (gm_put (ns_URL alt) True tried) s1 \<noteq> None"
      using Suc.IH [of s1 "gm_put (ns_URL alt) True tried"] Suc.prems untried_less [OF alt] n1 by simp
    then show ?thesis using rt Some pf by (cases ov) simp_all
  qed
qed simp

section \<open>Panics\<close>

text \<open>A body that decodes to something else than nil.\<close>

definition solid :: "payload \<Rightarrow> bool" where
  "solid p \<longleftrightarrow> fst p \<noteq> Parsed JNull"

lemma rewrite_solid: "solid p \<Longrightarrow> \<exists>p'. rewrite_payload e p m = Some p' \<and> solid p'"
  by (auto simp: solid_def rewrite_payload_def resized_def rewriteModelField_def marshal_map_def split: body.split json.split)

lemma inject_solid: "solid p \<Longrightarrow> \<exists>p'. inject_payload e p rt cfg = Some p' \<and> solid p'"
  by (auto simp: solid_def inject_payload_def resized_def injectModelDefaults_def marshal_map_def split: body.split json.split)

lemma profileFor_solid: "solid base \<Longrightarrow> profileFor e now base n m s = (ov, s') \<Longrightarrow> ov \<noteq> OverlayPanic"
proof
  assume b: "solid base" and p: "profileFor e now base n m s = (ov, s')" and ov: "ov = OverlayPanic"
  then obtain cfg where "inject_payload e base (ns_Runtime n) cfg = None"
    by (auto simp: profileFor_def Let_def split: if_splits option.splits prod.splits)
  then show False using inject_solid [OF b, of e "ns_Runtime n" cfg] by simp
qed

lemma failover_solid: "solid base \<Longrightarrow> failover k e now base m rt p tried s = Some (res, tried', s') \<Longrightarrow> res \<noteq> SearchPanic"
proof (induction k arbitrary: tried s)
  case (Suc k)
  obtain node warm d r1 where rt: "RouteExcludingWithPrefix (en_fetch e) now m rt tried p (og_router s) = ((node, warm, d), r1)"
    by (metis prod_cases3 prod.exhaust)
  show ?case
  proof (cases node)
    case None
    then show ?thesis using Suc.prems(2) rt by auto
  next
    case (Some alt)
    obtain ov s1 where pf: "profileFor e now base alt m (on_router (\<lambda>_. r1) s) = (ov, s1)" by (metis surj_pair)
    then show ?thesis
      using Suc.IH [OF Suc.prems(1)] Suc.prems(2) rt Some profileFor_solid [OF Suc.prems(1) pf] by (cases ov) auto
  qed
qed simp

lemma walk_solid:
  "(\<And>n c s ov s'. accept n c s = (ov, s') \<Longrightarrow> ov \<noteq> OverlayPanic) \<Longrightarrow>
   degradation_walk e now rt allowed accept cs s = (res, s') \<Longrightarrow> res \<noteq> SearchPanic"
proof (induction cs arbitrary: s)
  case (Cons c cs)
  obtain node warm d r1 where rt: "RouteExcluding (en_fetch e) now c rt [] (og_router s) = ((node, warm, d), r1)"
    by (metis prod_cases3 prod.exhaust)
  show ?case
  proof (cases "(allowed \<noteq> [] \<and> c \<notin> set allowed) \<or> node = None")
    case True
    then show ?thesis using Cons.IH [OF Cons.prems(1)] Cons.prems(2) rt by (auto split: if_splits)
  next
    case False
    then obtain n where n: "node = Some n" by auto
    obtain ov s1 where ac: "accept n c (on_router (\<lambda>_. r1) s) = (ov, s1)" by (metis surj_pair)
    show ?thesis
      using Cons.IH [OF Cons.prems(1)] Cons.prems(2) Cons.prems(1) [OF ac] rt n ac False by (cases ov) auto
  qed
qed simp

lemma chain_solid:
  assumes "\<And>n c s ov s'. accept n c s = (ov, s') \<Longrightarrow> ov \<noteq> OverlayPanic"
    and "tryLocalDegradationChain e now model rt ok allowed accept s = (res, s')"
  shows "res \<noteq> SearchPanic"
proof (cases ok)
  case True
  then have walk: "degradation_walk e now rt allowed accept (LocalDegradationChainFor (og_router s) model) s = (res, s')"
    using assms(2) by (simp add: tryLocalDegradationChain_def)
  show ?thesis by (rule walk_solid [OF _ walk]) (rule assms(1))
qed (use assms(2) in \<open>auto simp: tryLocalDegradationChain_def\<close>)

lemma accept_profiled_solid: "solid base \<Longrightarrow> accept_profiled e now base n m s = (ov, s') \<Longrightarrow> ov \<noteq> OverlayPanic"
  using rewrite_solid [of base e m] profileFor_solid by (fastforce simp: accept_profiled_def split: option.splits)

lemma degrade_leg_solid:
  assumes "solid (lp_base l)" "degrade_leg e rq cx l now s = (res, s')"
  shows "res \<noteq> SearchPanic \<and> (\<forall>l'. res = Found l' \<longrightarrow> solid (lp_base l'))"
proof (cases "lp_degraded l")
  case False
  obtain ch s1 where ch: "tryLocalDegradationChain e now (lp_model l) (cx_runtime cx) (cx_degradable cx) (rv_Allowed rq)
      (accept_profiled e now (lp_base l)) s = (ch, s1)" by (metis surj_pair)
  have "ch \<noteq> SearchPanic" by (rule chain_solid [OF _ ch]) (rule accept_profiled_solid [OF assms(1)])
  show ?thesis
  proof (cases ch)
    case (Found x)
    obtain n alt wm d b where x: "x = (n, alt, wm, d, b)" by (metis prod_cases5)
    obtain base where "rewrite_payload e (lp_base l) alt = Some base" "solid base" using rewrite_solid [OF assms(1)] by blast
    then show ?thesis using assms(2) False ch Found x by (auto simp: degrade_leg_def)
  qed (use assms(2) False ch \<open>ch \<noteq> SearchPanic\<close> in \<open>auto simp: degrade_leg_def\<close>)
qed (use assms in \<open>auto simp: degrade_leg_def\<close>)

section \<open>Answers\<close>

definition is_response :: "event \<Rightarrow> bool" where
  "is_response ev = (case ev of Passed _ \<Rightarrow> True | Replied _ _ \<Rightarrow> True | Listed _ \<Rightarrow> True | _ \<Rightarrow> False)"

definition responses :: "event list \<Rightarrow> nat" where
  "responses evs = length (filter is_response evs)"

abbreviation rs :: "ongoing \<Rightarrow> nat" where
  "rs s \<equiv> responses (og_trace s)"

lemma rs_emit: "rs (emit ev s) = rs s + (if is_response ev then 1 else 0)"
  by (simp add: emit_def responses_def)

lemma rs_simps [simp]:
  "rs (emit (Passed c) s) = Suc (rs s)" "rs (emit (Listed ms) s) = Suc (rs s)" "rs (writeAPIError c d s) = Suc (rs s)"
  "rs (emit (ToNode nm m b) s) = rs s" "rs (emit (ToCloud cl b) s) = rs s" "rs (on_handler f s) = rs s" "rs (on_router g s) = rs s"
  "rs (set_header k v s) = rs s" "rs (del_header k s) = rs s" "rs (fallback_header x y s) = rs s" "rs (refund_key k s) = rs s"
  "rs (acquire n m s) = rs s" "rs (release s) = rs s"
  by (simp_all add: rs_emit is_response_def writeAPIError_def acquire_def release_def on_handler_def on_router_def set_header_def
      del_header_def fallback_header_def refund_key_def responses_def emit_def split: option.split prod.split)

lemma rs_acts: "acts s s' \<Longrightarrow> rs s' = rs s"
  using acts_fields by metis

lemma rs_books [simp]:
  "rs (cloud_books e rq cloud route m lm cm start now code ab tk s) = rs s"
  "rs (local_books e rq cx l now code ab ttft tk ev pr s) = rs s"
  by (rule rs_acts, rule cloud_books_acts local_books_acts)+

definition answered :: "ongoing \<Rightarrow> finish \<Rightarrow> ongoing \<Rightarrow> bool" where
  "answered s f s' \<longleftrightarrow> f \<in> {Returned, AbortedStream} \<and> rs s' = Suc (rs s)"

lemma prompt_solid: "b \<noteq> Parsed JNull \<Longrightarrow> rewritePromptToInput b \<noteq> Parsed JNull"
  by (auto simp: rewritePromptToInput_def marshal_map_def Let_def split: body.split json.split option.split)

lemma cloud_body_solid: "solid p \<Longrightarrow> \<exists>out cm lm. cloud_body e path cloud p m = Some (out, cm, lm)"
proof -
  assume p: "solid p"
  define p1 where "p1 = (if path = ''/api/embeddings'' \<and> snd p > 0 then
      let b = rewritePromptToInput (fst p) in (b, if b = fst p then snd p else en_len e b) else p)"
  have "solid p1" using p prompt_solid by (simp add: solid_def p1_def Let_def)
  then obtain p2 where "rewrite_payload e p1 (cp_DefaultModel cloud) = Some p2" using rewrite_solid by blast
  then show ?thesis by (simp add: cloud_body_def p1_def [symmetric] Let_def [of p1])
qed

lemma cloudRequestFor_solid: "solid base \<Longrightarrow> \<exists>p m'. cloudRequestFor e base m client aliased = Some (p, m') \<and> solid p"
proof -
  assume b: "solid base"
  obtain p where p: "rewrite_payload e base client = Some p" "solid p" using rewrite_solid [OF b] by blast
  show ?thesis
  proof (cases "client = [] \<or> (\<not> aliased \<and> m = client)")
    case True
    then have "cloudRequestFor e base m client aliased = Some (base, m)" by (auto simp: cloudRequestFor_def)
    then show ?thesis using b by blast
  next
    case False
    then have "cloudRequestFor e base m client aliased = Some (p, client)" using p by (auto simp: cloudRequestFor_def)
    then show ?thesis using p(2) by blast
  qed
qed

lemma proxyToCloud_answers:
  assumes "\<And>k. \<not> up_before (wd_cloud w k)" "solid p"
  shows "clouds \<noteq> [] \<Longrightarrow> proxyToCloud e rq w path start route p m idx clouds s = (f, s') \<Longrightarrow> answered s f s'"
proof (induction clouds arbitrary: idx s)
  case (Cons cloud rest)
  define a where "a = wd_cloud w idx"
  have na: "\<not> up_before a" using assms(1) by (simp add: a_def)
  obtain out cm lm where b: "cloud_body e path cloud p m = Some (out, cm, lm)" using cloud_body_solid [OF assms(2)] by metis
  let ?anthropic = "equal_fold (cp_Provider cloud) ''anthropic'' \<and> translateCloudPath path = ''/v1/embeddings''"
  let ?s = "on_handler (up_others a) (emit (ToCloud cloud out) s)"
  show ?case
  proof (cases "rest \<noteq> [] \<and> (?anthropic \<or> (en_urlOK e (cp_BaseURL cloud) \<and> up_result a = Unreachable))")
    case True
    then have "proxyToCloud e rq w path start route p m (Suc idx) rest (if ?anthropic then s else ?s) = (f, s')"
      using Cons.prems(2) na b by (auto simp: Let_def a_def [symmetric])
    then have "answered (if ?anthropic then s else ?s) f s'" using Cons.IH True by blast
    then show ?thesis by (simp add: answered_def split: if_splits)
  next
    case False
    then show ?thesis
      using Cons.prems(2) na b by (cases "up_result a") (auto simp: Let_def a_def [symmetric] answered_def split: if_splits)
  qed
qed simp

lemma overflow_answers:
  assumes "\<And>k. \<not> up_before (wd_cloud w k)" "solid base" "overflow e rq w cx retried now base m s = Some (f, s')"
  shows "answered s f s'"
proof (cases "localOnlyBlocked e rq m (cx_start cx) now (cx_wait cx) s")
  case (Some s1)
  have "rs (logBlocked e rq m start now res s) = rs s" for start res s
    unfolding logBlocked_def Let_def by (rule rs_acts [OF acts_trans [OF log_request_acts log_audit_acts]])
  then have "rs s1 = Suc (rs s)"
    using Some rs_acts [OF on_admin_acts] by (auto simp: localOnlyBlocked_def split: if_splits)
  then show ?thesis using assms(3) Some by (simp add: overflow_def answered_def)
next
  case None
  show ?thesis
  proof (cases "budget_spent e now (og_h s) (rv_Key rq)")
    case True
    then show ?thesis using assms(3) None by (auto simp: overflow_def answered_def split: if_splits)
  next
    case False
    define s1 where "s1 = del_header ''X-Marbor-Model-Fallback'' (del_header ''X-Marbor-Model-Alias'' s)"
    obtain p m' where pm: "cloudRequestFor e base m (cx_client cx) (cx_aliased cx) = Some (p, m')" "solid p"
      using cloudRequestFor_solid [OF assms(2)] by blast
    then have "proxyToCloud e rq w (cx_path cx) (cx_start cx) (newCloudRoute now (cx_wait cx) retried) p m' 0 (CloudChain (og_router s)) s1 = (f, s')"
        "CloudChain (og_router s) \<noteq> []"
      using assms(3) None False by (auto simp: overflow_def s1_def [symmetric] Let_def split: if_splits)
    then have "answered s1 f s'" using proxyToCloud_answers [OF assms(1) pm(2)] by blast
    then show ?thesis by (simp add: answered_def s1_def)
  qed
qed

text \<open>One of the wake-ups of the wait is its end: its timer, or the client's cancellation.\<close>

definition wait_stops :: "world \<Rightarrow> bool" where
  "wait_stops w \<longleftrightarrow> (\<exists>x t f. (x, t, f) \<in> set (wd_wakes w) \<and> x \<in> {CtxDone, TimerFired})"

lemma wait_stops_returns: "wait_stops w \<Longrightarrow> WaitForNodeWithPrefixOpts q now (wd_wakes w) r \<noteq> None"
proof -
  assume "wait_stops w"
  then have loop: "wait_loop q' c st prior (wd_wakes w) r' \<noteq> None" for q' c st prior r'
    unfolding wait_stops_def using wait_loop_returns by blast
  have internal: "waitForNodeInternal q' now (wd_wakes w) r' \<noteq> None" for q' r'
    using loop unfolding waitForNodeInternal_def Let_def by (auto split: prod.split)
  obtain node warm d r1 where "try_route q now r = ((node, warm, d), r1)" by (metis prod_cases3 prod.exhaust)
  moreover obtain x where "waitForNodeInternal q now (wd_wakes w) r1 = Some x" using internal by blast
  ultimately show ?thesis by (cases node) (simp_all add: WaitForNodeWithPrefixOpts_def)
qed

text \<open>A client that waits for its answer.\<close>

definition client_stays :: "world \<Rightarrow> bool" where
  "client_stays w \<longleftrightarrow> (\<forall>k. \<not> up_gone (wd_local w k) \<and> \<not> up_before (wd_cloud w k))"

lemma move_to_answers:
  "case move_to e l s of Stop f s' \<Rightarrow> answered s f s' | Again l' s' \<Rightarrow> l' = l \<and> rs s' = rs s"
  by (simp add: move_to_def Let_def answered_def)

context run_invariant
begin

lemma local_failed_answers:
  assumes names: "\<And>s. I s \<Longrightarrow> distinct (node_names (og_h s))" and stays: "client_stays w"
    and "I s0" "solid (lp_base l0)"
  shows "case local_failed e rq w cx k l0 (wd_local w k) s0 of
      Stop f s' \<Rightarrow> answered s0 f s' | Again l' s' \<Rightarrow> solid (lp_base l') \<and> rs s' = rs s0"
proof -
  define a where "a = wd_local w k"
  define l where "l = l0\<lparr> lp_tried := gm_put (ns_URL (lp_node l0)) True (lp_tried l0) \<rparr>"
  define s1 where "s1 = on_router (RecordRequestOutcome (up_time a) (ns_Name (lp_node l0)) False) (release s0)"
  define preferred where "preferred = (if lp_model l = cx_lookup cx then cx_preferred cx else [])"
  define fo where "fo = (if int k < cx_maxRetries cx
      then failover (Suc (length (r_nodes (og_router s1)))) e (up_time a) (lp_base l) (lp_model l) (cx_runtime cx) preferred (lp_tried l) s1
      else Some (NotFound, lp_tried l, s1))"
  have gone: "\<not> up_gone a" using stays by (simp add: a_def client_stays_def)
  have base: "lp_base l = lp_base l0" by (simp add: l_def)
  have i1: "I s1" "rs s1 = rs s0"
    using I_acts [OF I_release [OF assms(3)] on_router_outcome_acts] by (simp_all add: s1_def)
  have run: "local_failed e rq w cx k l0 a s0 =
      (case fo of
         None \<Rightarrow> Stop StillSearching s1
       | Some (SearchPanic, _, s2) \<Rightarrow> Stop Panicked s2
       | Some (Found (alt, b, d), tried, s2) \<Rightarrow>
           move_to e (l\<lparr> lp_node := alt, lp_body := b, lp_decision := d, lp_tried := tried, lp_warm := False,
                        lp_retries := lp_retries l + 1, lp_failed := ns_Name (lp_node l0) \<rparr>) s2
       | Some (NotFound, tried, s2) \<Rightarrow>
           (let l2 = l\<lparr> lp_tried := tried \<rparr> in
            case degrade_leg e rq cx l2 (up_time a) s2 of
              (SearchPanic, s3) \<Rightarrow> Stop Panicked s3
            | (Found l3, s3) \<Rightarrow> move_to e l3 s3
            | (NotFound, s3) \<Rightarrow>
                (case overflow e rq w cx True (up_time a) (lp_base l2) (lp_model l2) s3 of
                   Some (f, s4) \<Rightarrow> Stop f s4
                 | None \<Rightarrow>
                     Stop Returned (local_books e rq cx l2 (up_time a) 502 False (up_time a - cx_start cx) 0 0 0
                       (writeAPIError 502 ''upstream_error'' s3)))))"
    using gone unfolding local_failed_def Let_def l_def [symmetric] s1_def [symmetric] preferred_def [symmetric] fo_def [symmetric]
    by simp
  have "fo \<noteq> None"
  proof (cases "int k < cx_maxRetries cx")
    case True
    have "untried (lp_tried l) ns < Suc (length ns)" for ns by (simp add: untried_def less_Suc_eq_le)
    then show ?thesis
      using True failover_ends [of s1] names [OF i1(1)] by (simp add: fo_def node_names_def og_router_def del: failover.simps)
  qed (simp add: fo_def)
  then obtain res tried s2 where x: "fo = Some (res, tried, s2)" by (metis not_None_eq prod_cases3)
  have act: "acts s1 s2" "res \<noteq> SearchPanic"
    using x failover_acts failover_solid [of "lp_base l"] assms(4) base
    by (auto simp: fo_def simp del: failover.simps split: if_splits)
  show ?thesis
  proof (cases res)
    case (Found y)
    obtain alt b d where y: "y = (alt, b, d)" by (cases y)
    let ?l = "l\<lparr> lp_node := alt, lp_body := b, lp_decision := d, lp_tried := tried, lp_warm := False,
        lp_retries := lp_retries l + 1, lp_failed := ns_Name (lp_node l0) \<rparr>"
    show ?thesis
      using move_to_answers [where e = e and l = ?l and s = s2] rs_acts [OF act(1)] i1(2) assms(4) base
      unfolding a_def [symmetric] run x Found y by (cases "move_to e ?l s2") (simp_all add: answered_def)
  next
    case SearchPanic
    then show ?thesis using act(2) by simp
  next
    case NotFound
    define l2 where "l2 = l\<lparr> lp_tried := tried \<rparr>"
    have l2: "lp_base l2 = lp_base l0" "lp_model l2 = lp_model l" by (simp_all add: l2_def base)
    obtain dg s3 where dg: "degrade_leg e rq cx l2 (up_time a) s2 = (dg, s3)" by (metis surj_pair)
    have solid: "dg \<noteq> SearchPanic" "dg = Found l' \<Longrightarrow> solid (lp_base l')" for l'
      using degrade_leg_solid [OF _ dg] l2 assms(4) by simp_all
    have r3: "rs s3 = rs s0"
      using degrade_leg_cases [OF dg] rs_acts act(1) i1(2) by (auto split: search.splits)
    show ?thesis
    proof (cases dg)
      case (Found l3)
      show ?thesis
        using move_to_answers [where e = e and l = l3 and s = s3] solid(2) [OF Found] r3 dg Found
        unfolding a_def [symmetric] run x NotFound Let_def by (cases "move_to e l3 s3") (simp_all add: answered_def flip: l2_def)
    next
      case SearchPanic
      then show ?thesis using solid(1) by simp
    next
      case none: NotFound
      show ?thesis
      proof (cases "overflow e rq w cx True (up_time a) (lp_base l2) (lp_model l2) s3")
        case no: None
        then show ?thesis
          using dg none r3 unfolding a_def [symmetric] run x NotFound Let_def by (simp add: answered_def flip: l2_def)
      next
        case ov: (Some fs)
        obtain f s4 where fs: "fs = (f, s4)" by (cases fs)
        have "answered s3 f s4" using overflow_answers [OF _ _ ov [unfolded fs]] stays assms(4) l2 by (simp add: client_stays_def)
        then show ?thesis
          using dg none ov fs r3 unfolding a_def [symmetric] run x NotFound Let_def by (simp add: answered_def flip: l2_def)
      qed
    qed
  qed
qed

lemma local_answered_answers:
  assumes "local_answered e rq cx l a r (emit (Passed c) s) = (f, s')"
  shows "answered s f s'"
proof -
  define s1 where "s1 = release (emit (Passed c) s)"
  define gone where "gone = (\<not> (StatusCode (as_Status r) < 500 \<and> \<not> as_Died r) \<and> up_gone a \<and> as_Status r < 500)"
  define ok where "ok = (StatusCode (as_Status r) < 500 \<and> \<not> as_Died r)"
  have "rs (if gone then s1 else record_locality now key n b (on_router g s1)) = Suc (rs s)" for now key n b g
    using rs_acts [OF record_locality_acts] by (simp add: s1_def)
  then show ?thesis
    using assms unfolding local_answered_def Let_def s1_def [symmetric] ok_def [symmetric] gone_def [unfolded ok_def [symmetric], symmetric]
    by (auto simp: answered_def)
qed

lemma local_step_answers:
  assumes names: "\<And>s. I s \<Longrightarrow> distinct (node_names (og_h s))" and stays: "client_stays w"
    and "I s" "leg_ok okm l" "solid (lp_base l)" "og_hold s = Some (ns_Name (lp_node l), lp_model l)"
  shows "case local_step e rq w cx k l s of
      Stop f s' \<Rightarrow> answered s f s' | Again l' s' \<Rightarrow> solid (lp_base l') \<and> rs s' = rs s"
proof -
  define s1 where "s1 = on_handler (up_others (wd_local w k)) (emit (ToNode (ns_Name (lp_node l)) (lp_model l) (lp_body l)) s)"
  have i: "I s1" "rs s1 = rs s" using I_on_local [OF I_node] assms(3,4,6) by (simp_all add: s1_def leg_ok_def)
  show ?thesis
  proof (cases "up_result (wd_local w k)")
    case (Relayed r)
    obtain f s' where la: "local_answered e rq cx l (wd_local w k) r (emit (Passed (as_Status r)) s1) = (f, s')" by (metis surj_pair)
    then show ?thesis
      using local_answered_answers [OF la] i(2) Relayed by (simp add: local_step_def Let_def s1_def [symmetric] answered_def)
  next
    case Unreachable
    then show ?thesis using local_failed_answers [OF names stays i(1) assms(5), of e cx k] i(2)
      by (simp add: local_step_def Let_def s1_def [symmetric] answered_def split: next_leg.splits)
  qed
qed

lemma local_loop_answers:
  assumes names: "\<And>s. I s \<Longrightarrow> distinct (node_names (og_h s))" and stays: "client_stays w" and cx: "cx_client cx = client_model rq"
  shows "I s \<Longrightarrow> leg_ok okm l \<Longrightarrow> solid (lp_base l) \<Longrightarrow> og_hold s = Some (ns_Name (lp_node l), lp_model l) \<Longrightarrow> local_loop e rq w cx k l s = (f, s') \<Longrightarrow> answered s f s'"
proof (induction "attempts_left cx k l" arbitrary: k l s rule: less_induct)
  case less
  note st = local_step_answers [OF names stays less.prems(1-4), of e cx k]
  note inv = local_step_inv [OF less.prems(1,2) cx less.prems(4), of e k]
  show ?case
  proof (cases "local_step e rq w cx k l s")
    case (Stop f' s'')
    then show ?thesis using st less.prems(5) by (simp add: local_loop.simps)
  next
    case (Again l' s'')
    have "attempts_left cx (Suc k) l' < attempts_left cx k l" using local_step_Again [OF Again] by (auto simp: attempts_left_def)
    moreover have "local_loop e rq w cx (Suc k) l' s'' = (f, s')" using less.prems(5) Again by (simp add: local_loop.simps)
    ultimately have "answered s'' f s'" using less.hyps st inv Again by simp
    then show ?thesis using st Again by (simp add: answered_def)
  qed
qed

lemma serve_on_node_answers:
  assumes names: "\<And>s. I s \<Longrightarrow> distinct (node_names (og_h s))" and stays: "client_stays w"
    and "I s" "og_hold s = None" "okm (lp_model l)" "names_model (fst (lp_base l)) (lp_model l)" "cx_client cx = client_model rq"
    and "solid (lp_base l)" "serve_on_node e rq w cx now l s = (f, s')"
  shows "answered s f s'"
proof -
  define s1 where "s1 = on_router (RecordModelUse now (ns_Name (lp_node l)) (lp_model l)) (acquire (lp_node l) (lp_model l) s)"
  have i1: "I s1" "rs s1 = rs s" using I_acts [OF I_acquire [OF assms(3,4)] acts_router] by (simp_all add: s1_def)
  have h1: "og_hold s1 = Some (ns_Name (lp_node l), lp_model l)" by (simp add: s1_def)
  obtain ov s2 where pf: "profileFor e now (lp_base l) (lp_node l) (lp_model l) s1 = (ov, s2)" by (metis surj_pair)
  have h2: "og_hold s2 = Some (ns_Name (lp_node l), lp_model l)" using acts_fields [OF profileFor_acts [OF pf]] h1 by simp
  have i2: "I s2" "rs s2 = rs s" using I_acts [OF i1(1) profileFor_acts [OF pf]] rs_acts [OF profileFor_acts [OF pf]] i1(2) by simp_all
  show ?thesis
  proof (cases ov)
    case (Overlaid b)
    have l: "leg_ok okm (l\<lparr> lp_body := b \<rparr>)" "solid (lp_base (l\<lparr> lp_body := b \<rparr>))"
      using assms(5,6,8) profileFor_names [OF pf [unfolded Overlaid] assms(6)] by (simp_all add: leg_ok_def)
    show ?thesis
    proof (cases "en_urlOK e (ns_URL (lp_node l))")
      case True
      then have "local_loop e rq w cx 0 (l\<lparr> lp_body := b \<rparr>) s2 = (f, s')"
        using assms(9) pf Overlaid by (simp add: serve_on_node_def Let_def s1_def [symmetric])
      from local_loop_answers [OF names stays assms(7) i2(1) l _ this] h2 show ?thesis using i2(2) by (simp add: answered_def)
    next
      case False
      then show ?thesis using assms(9) pf Overlaid i2(2) by (auto simp: serve_on_node_def Let_def s1_def [symmetric] answered_def)
    qed
  next
    case CapSpent
    then show ?thesis using assms(9) pf i2(2) by (auto simp: serve_on_node_def Let_def s1_def [symmetric] answered_def)
  next
    case OverlayPanic
    then show ?thesis using profileFor_solid [OF assms(8) pf] by simp
  qed
qed

lemma after_wait_answers:
  assumes names: "\<And>s. I s \<Longrightarrow> distinct (node_names (og_h s))" and stays: "client_stays w"
    and "I s" "og_hold s = None" "okm model" "names_model (fst p) model" "cx_client cx = client_model rq"
    and "solid p" "after_wait e rq w cx now p model s = (f, s')"
  shows "answered s f s'"
proof (cases "wt_Node (cx_wait cx)")
  case (Some n)
  have "serve_on_node e rq w (cx\<lparr> cx_initialNode := ns_Name n, cx_initialModel := model \<rparr>) now
      (first_leg n model p (wt_Warm (cx_wait cx)) (wt_Decision (cx_wait cx)) False) s = (f, s')"
    using assms(9) Some by (simp add: after_wait_def)
  then show ?thesis
    by (rule serve_on_node_answers [OF names stays assms(3,4), rotated 5]) (simp_all add: first_leg_def assms(5-8))
next
  case None
  obtain ch s1 where ch: "tryLocalDegradationChain e now model (cx_runtime cx) (cx_degradable cx) (rv_Allowed rq) accept_any s = (ch, s1)"
    by (metis surj_pair)
  have a: "acts s s1" by (rule chain_acts(1) [OF _ ch]) (rule accept_any_acts)
  have i1: "I s1" "og_hold s1 = None" "rs s1 = rs s" using I_acts [OF assms(3) a] acts_fields [OF a] assms(4) by simp_all
  have nopanic: "ch \<noteq> SearchPanic" by (rule chain_solid [OF _ ch]) (auto simp: accept_any_def)
  show ?thesis
  proof (cases ch)
    case (Found x)
    obtain n alt wm d u where x: "x = (n, alt, wm, d, u)" by (metis prod_cases5)
    have "usable (rv_Allowed rq) alt \<and> (\<exists>s2. accept_any n alt s2 = (Overlaid u, s1))"
      by (rule chain_acts(2) [OF _ ch Found [unfolded x]]) (rule accept_any_acts)
    then have ok: "okm alt" by (simp add: okm_usable)
    obtain p' where p': "rewrite_payload e p alt = Some p'" "solid p'" using rewrite_solid [OF assms(8)] by blast
    have "serve_on_node e rq w (cx\<lparr> cx_initialNode := ns_Name n, cx_initialModel := alt \<rparr>) now
        (first_leg n alt p' wm d True) (fallback_header model alt s1) = (f, s')"
      using assms(9) None ch Found x p' by (simp add: after_wait_def)
    then have "answered (fallback_header model alt s1) f s'"
      by (rule serve_on_node_answers [OF names stays, rotated 7])
         (simp_all add: first_leg_def i1 ok p' assms(7) I_header rewrite_payload_names [OF p'(1)])
    then show ?thesis using i1(3) by (simp add: answered_def)
  next
    case NotFound
    show ?thesis
    proof (cases "overflow e rq w cx False now p model s1")
      case no: None
      then show ?thesis using assms(9) None ch NotFound i1(3) by (auto simp: after_wait_def answered_def)
    next
      case (Some fs)
      then have "overflow e rq w cx False now p model s1 = Some (f, s')" using assms(9) None ch NotFound by (simp add: after_wait_def)
      from overflow_answers [OF _ assms(8) this] stays show ?thesis using i1(3) by (simp add: client_stays_def answered_def)
    qed
  qed (use nopanic in simp)
qed

end

context run_invariant
begin

lemma route_model_answers:
  assumes names: "\<And>s. I s \<Longrightarrow> distinct (node_names (og_h s))" and stays: "client_stays w"
    and "I s" "og_hold s = None" "okm model" "names_model (fst p) model" "client = client_model rq" "solid p"
    and "route_model e rq w path start client aliased requested p model s = (f, s')"
  shows "(f = StillWaiting \<and> \<not> wait_stops w \<and> rs s' = rs s) \<or> answered s f s'"
proof (cases "beyond_window (og_h s) model p")
  case True
  then show ?thesis using assms(9) by (auto simp: route_model_def answered_def)
next
  case False
  obtain key pref store where lk: "PrefixLocalityLookup (\<lambda>_. en_chat e (fst p)) (en_digest e) start (hx_router (og_h s)) (rv_Key rq) model []
      (fst (hx_prefix (og_h s))) = ((key, pref), store)" by (metis prod.exhaust)
  define s1 where "s1 = on_handler (\<lambda>h. h\<lparr> hx_prefix := (store, snd (hx_prefix h)) \<rparr>) s"
  define rt where "rt = (if isOllamaPath path then ''ollama'' else [])"
  define q where "q = \<lparr> wq_fetch = en_fetch e, wq_hour = en_hour e, wq_model = model, wq_session = TrimSpace (rv_SessionID rq), wq_runtime = rt,
                  wq_preferred = pref, wq_cloudUsable = cloudUsable e start (og_h s) (rv_Key rq) \<rparr>"
  have i1: "I s1" using I_acts [OF assms(3) acts_handler] by (simp add: s1_def steady_same)
  note unf = route_model_def Let_def lk prod.case s1_def [symmetric] rt_def [symmetric] q_def [symmetric]
  show ?thesis
  proof (cases "WaitForNodeWithPrefixOpts q start (wd_wakes w) (og_router s1)")
    case None
    then have "\<not> wait_stops w" using wait_stops_returns by blast
    moreover have "f = StillWaiting" "s' = s1" using assms(9) None False unfolding unf by auto
    ultimately show ?thesis by (simp add: s1_def)
  next
    case (Some x)
    obtain res r1 where x: "x = (res, r1)" by (cases x)
    have "K (og_h s1) ((og_h s1)\<lparr> hx_router := r1 \<rparr>)" using K_wait Some x by (simp add: og_router_def)
    then have "I (on_router (\<lambda>_. r1) s1)" using I_handler [OF i1] by (simp add: on_router_def on_handler_def)
    then have i2: "I (on_handler (wd_waited w) (on_router (\<lambda>_. r1) s1))" by (rule I_on) (rule K_waited)
    have h2: "og_hold (on_handler (wd_waited w) (on_router (\<lambda>_. r1) s1)) = None" using assms(4) by (simp add: s1_def)
    let ?cx = "\<lparr> cx_path = path, cx_start = start, cx_client = client, cx_aliased = aliased, cx_requested = requested, cx_lookup = model,
        cx_prefixKey = key, cx_preferred = pref, cx_runtime = rt, cx_degradable = allows_degradation (og_h s) (rv_Key rq), cx_wait = res,
        cx_maxRetries = r_maxRetries (og_router (on_handler (wd_waited w) (on_router (\<lambda>_. r1) s1))), cx_initialNode = [], cx_initialModel = [] \<rparr>"
    have run: "after_wait e rq w ?cx (start + wt_Waited res) p model (on_handler (wd_waited w) (on_router (\<lambda>_. r1) s1)) = (f, s')"
      using False assms(9) Some x unfolding unf by simp
    have "answered (on_handler (wd_waited w) (on_router (\<lambda>_. r1) s1)) f s'"
      by (rule after_wait_answers [OF names stays i2 h2 assms(5,6) _ assms(8) run]) (simp_all add: assms(7))
    then show ?thesis by (simp add: answered_def s1_def)
  qed
qed

lemma admit_answers:
  assumes names: "\<And>s. I s \<Longrightarrow> distinct (node_names (og_h s))" and stays: "client_stays w"
    and "I s" "og_hold s = None" "names_model (fst (rv_Body rq)) (client_model rq)"
    and adm: "\<And>m. admitted rq (og_h s) m \<Longrightarrow> okm m" and path: "path = canonicalPath (rv_Path rq)"
    and solid: "solid (rv_Body rq)" and res: "admit e rq w path start s = (f, s')"
  shows "(f = StillWaiting \<and> \<not> wait_stops w \<and> rs s' = rs s) \<or> answered s f s'"
proof -
  define client where "client = ExtractModelName (fst (rv_Body rq))"
  define target where "target = alias_of path (og_router s) client"
  define requested where "requested = (case target of None \<Rightarrow> client | Some t \<Rightarrow> t)"
  define start_body where "start_body = (case target of None \<Rightarrow> Some (rv_Body rq) | Some t \<Rightarrow> rewrite_payload e (rv_Body rq) t)"
  note unf = admit_def Let_def client_def [symmetric] target_def [symmetric] requested_def [symmetric] start_body_def [symmetric]
  have client: "client = client_model rq" by (simp add: client_def client_model_def)
  have "\<exists>p. start_body = Some p \<and> solid p"
    using rewrite_solid [OF solid, of e] solid by (cases target) (simp_all only: start_body_def option.case, blast+)
  then obtain p where p: "start_body = Some p" "solid p" by blast
  have named: "names_model (fst p) requested"
    using p(1) assms(5) rewrite_payload_names by (auto simp: start_body_def requested_def client split: option.splits)
  show ?thesis
  proof (cases "permitted (rv_Allowed rq) requested client (target \<noteq> None)")
    case False
    then show ?thesis using p res unfolding unf by (auto simp: answered_def)
  next
    case True
    then have "admitted rq (og_h s) requested"
      by (auto simp: admitted_def permitted_def usable_def requested_def target_def client path og_router_def split: option.splits)
    then have ok: "okm requested" by (rule adm)
    define s1 where "s1 = (if target \<noteq> None then set_header ''X-Marbor-Model-Alias'' (client @ '' -> '' @ requested) s else s)"
    define model where "model = fallback_model e (og_router s1) (rv_Allowed rq) requested (token_estimate p)"
    have i1: "I s1" "og_hold s1 = None" "rs s1 = rs s" using assms(3,4) I_header by (simp_all add: s1_def)
    have okm: "okm model" using fallback_model_usable [of e "og_router s1" "rv_Allowed rq" requested "token_estimate p"] ok okm_usable
      by (auto simp: model_def)
    note unf' = unf p(1) option.case s1_def [symmetric] model_def [symmetric]
    show ?thesis
    proof (cases "model = requested")
      case eq: True
      then have "route_model e rq w path start client (target \<noteq> None) requested p model s1 = (f, s')"
        using True res unfolding unf' by simp
      from route_model_answers [OF names stays i1(1,2) okm _ client p(2) this] named eq show ?thesis
        using i1(3) by (simp add: answered_def)
    next
      case ne: False
      obtain p' where p': "rewrite_payload e p model = Some p'" "solid p'" using rewrite_solid [OF p(2)] by blast
      then have run: "route_model e rq w path start client (target \<noteq> None) requested p' model (fallback_header requested model s1) = (f, s')"
        using True ne res unfolding unf' by simp
      have "(f = StillWaiting \<and> \<not> wait_stops w \<and> rs s' = rs (fallback_header requested model s1)) \<or> answered (fallback_header requested model s1) f s'"
        by (rule route_model_answers [OF names stays _ _ okm rewrite_payload_names [OF p'(1)] client p'(2) run]) (simp_all add: i1 I_header)
      then show ?thesis using i1(3) by (simp add: answered_def)
    qed
  qed
qed

lemma ServeHTTP_answers:
  assumes names: "\<And>s. I s \<Longrightarrow> distinct (node_names (og_h s))" and stays: "client_stays w"
    and "I (started rq h)" "\<And>m. admitted rq h m \<Longrightarrow> okm m" "fst (rv_Body rq) \<noteq> Parsed JNull"
    and res: "ServeHTTP e rq w start h = (f, s)"
  shows "(f = StillWaiting \<and> \<not> wait_stops w \<and> rs s = 0) \<or> (f \<in> {Returned, AbortedStream} \<and> rs s = 1)"
proof -
  have rs0: "rs (started rq h) = 0" by (simp add: started_def responses_def)
  let ?gate = "path_gate (hx_allowManagement h) (rv_Method rq) (canonicalPath (rv_Path rq)) (rv_Encodings rq)"
  show ?thesis
  proof (cases ?gate)
    case (Deny status code)
    then show ?thesis using res rs0 by (auto simp: ServeHTTP_def Let_def)
  next
    case ListModels
    then show ?thesis using res rs0 by (auto simp: ServeHTTP_def Let_def)
  next
    case (OneModel i)
    then show ?thesis using res rs0 by (auto simp: ServeHTTP_def serveModel_def Let_def)
  next
    case Continue
    show ?thesis
    proof (cases "body_gate (rv_Read rq) (fst (rv_Body rq)) = Continue")
      case True
      have nm: "names_model (fst (rv_Body rq)) (client_model rq)"
        using True accepted_names by (auto simp: body_gate_def client_model_def split: option.splits read_error.splits if_splits)
      obtain f' s1 where ad: "admit e rq w (canonicalPath (rv_Path rq)) start (started rq h) = (f', s1)" by (metis surj_pair)
      have "(f' = StillWaiting \<and> \<not> wait_stops w \<and> rs s1 = rs (started rq h)) \<or> answered (started rq h) f' s1"
        by (rule admit_answers [OF names stays assms(3) _ nm _ refl _ ad]) (simp_all add: started_def assms(4,5) solid_def)
      moreover have "f = f'" "s = release s1" using res Continue True ad by (auto simp: ServeHTTP_def Let_def)
      ultimately show ?thesis using rs0 by (auto simp: answered_def)
    next
      case False
      then obtain status code where "body_gate (rv_Read rq) (fst (rv_Body rq)) = Deny status code"
        by (auto simp: body_gate_def split: option.splits read_error.splits if_splits)
      then show ?thesis using res Continue rs0 by (auto simp: ServeHTTP_def Let_def)
    qed
  qed
qed

end

section \<open>Slots and bodies\<close>

text \<open>
  What a trace says of the slots: at most one is held, it is given back by the node and model it was taken for, a node is sent a body only
  while its slot is held for that model, and a provider only while none is.
\<close>

fun holds :: "event list \<Rightarrow> (string \<times> string) option \<Rightarrow> (string \<times> string) option option" where
  "holds [] slot = Some slot"
| "holds (ev # evs) slot =
     (case ev of
        Held n m \<Rightarrow> if slot = None then holds evs (Some (n, m)) else None
      | Freed n m \<Rightarrow> if slot = Some (n, m) then holds evs None else None
      | ToNode n m b \<Rightarrow> if slot = Some (n, m) then holds evs slot else None
      | ToCloud c b \<Rightarrow> if slot = None then holds evs slot else None
      | _ \<Rightarrow> holds evs slot)"

lemma holds_snoc: "holds (evs @ [ev]) slot = Option.bind (holds evs slot) (holds [ev])"
  by (induction evs arbitrary: slot) (auto split: event.split)

interpretation slots: run_invariant rq w "\<lambda>_. True" True "\<lambda>_ _. True" "\<lambda>s. holds (og_trace s) None = Some (og_hold s)" for rq w
  by unfold_locales
     (auto simp: holds_snoc emit_def acquire_def release_def on_router_def on_handler_def split: option.split)

text \<open>
  C6. A slot is always given back.  However a request goes, panics and broken streams included, its trace takes at most one slot at a time, gives
  each back for the node and model it was taken for, sends a body to a node only while it holds that node's slot for that model and to a
  provider only while it holds none, and ends with nothing held.
\<close>

theorem slots_given_back:
  "holds (og_trace (snd (ServeHTTP e rq w start h))) None = Some None \<and> og_hold (snd (ServeHTTP e rq w start h)) = None"
proof -
  have "og_hold (snd (ServeHTTP e rq w start h)) = None" by (simp add: ServeHTTP_def Let_def split: prod.split)
  moreover have "holds (og_trace (snd (ServeHTTP e rq w start h))) None = Some (og_hold (snd (ServeHTTP e rq w start h)))"
    by (rule slots.ServeHTTP_inv) (simp_all add: started_def)
  ultimately show ?thesis by simp
qed

text \<open>What a run may send: to a node a body that names a model the key may use, to a provider one that names the client's model or the provider's own.\<close>

definition event_allowed :: "request \<Rightarrow> handler \<Rightarrow> event \<Rightarrow> bool" where
  "event_allowed rq h ev =
     (case ev of
        ToNode n m b \<Rightarrow> (admitted rq h m \<or> usable (rv_Allowed rq) m) \<and> names_model (fst b) m
      | ToCloud c b \<Rightarrow> cloud_named rq c (fst b)
      | _ \<Rightarrow> True)"

interpretation naming: run_invariant rq w "\<lambda>m. admitted rq h m \<or> usable (rv_Allowed rq) m" True "\<lambda>_ _. True"
  "\<lambda>s. list_all (event_allowed rq h) (og_trace s)" for rq w h
  by unfold_locales
     (auto simp: emit_def acquire_def release_def on_router_def on_handler_def event_allowed_def split: option.split)

text \<open>
  C8. Allow-lists survive every substitution.  Whatever aliases, fallback chains, retries, degradations and profiles do, a node is only sent a body
  whose one model name is the model it was chosen for, and that model is in the allow-list of the key, or is the target of an alias that is; a
  provider is only sent a body that names the client's own model or the default model the provider is configured with.
\<close>

theorem allow_list_survives:
  "list_all (event_allowed rq h) (og_trace (snd (ServeHTTP e rq w start h)))"
  by (rule naming.ServeHTTP_inv) (simp_all add: started_def)

section \<open>Keys that stay local\<close>

definition to_cloud :: "event \<Rightarrow> bool" where
  "to_cloud ev = (case ev of ToCloud c b \<Rightarrow> True | _ \<Rightarrow> False)"

text \<open>What the other requests and the operator do during the run leaves the key local-only.\<close>

definition keeps_local :: "string \<Rightarrow> world \<Rightarrow> bool" where
  "keeps_local key w \<longleftrightarrow>
     (\<forall>h k. localOnly h key \<longrightarrow> localOnly (up_others (wd_local w k) h) key \<and> localOnly (up_others (wd_cloud w k) h) key
        \<and> localOnly (wd_waited w h) key)"

lemma localOnly_router: "localOnly (h\<lparr> hx_router := r \<rparr>) key = localOnly h key"
  by (simp add: localOnly_def)

lemma local_run:
  assumes "keeps_local (rv_Key rq) w"
  shows "run_invariant rq w (\<lambda>_. True) False (\<lambda>h h'. localOnly h (rv_Key rq) \<longrightarrow> localOnly h' (rv_Key rq))
    (\<lambda>s. localOnly (og_h s) (rv_Key rq) \<and> list_all (\<lambda>ev. \<not> to_cloud ev) (og_trace s))"
  using assms
  by unfold_locales
     (auto simp: keeps_local_def steady_def localOnly_router emit_def acquire_def release_def on_router_def on_handler_def to_cloud_def
        split: option.split)

text \<open>
  C7. A key marked local-only never leaves the fleet: no attempt, overflow or fallback of a request under it sends anything to a cloud provider,
  however its wait and its attempts end, as long as the key keeps its mark during the request.
\<close>

theorem local_only_stays_local:
  assumes "localOnly h (rv_Key rq)" "keeps_local (rv_Key rq) w"
  shows "list_all (\<lambda>ev. \<not> to_cloud ev) (og_trace (snd (ServeHTTP e rq w start h)))"
proof -
  have "localOnly (og_h (started rq h)) (rv_Key rq) \<and> list_all (\<lambda>ev. \<not> to_cloud ev) (og_trace (started rq h))"
    using assms(1) by (simp add: started_def)
  from run_invariant.ServeHTTP_inv [OF local_run [OF assms(2)] this] show ?thesis by simp
qed

section \<open>One answer\<close>

text \<open>What happens meanwhile keeps the names of the nodes apart, as every operation on the fleet does.\<close>

definition keeps_names :: "world \<Rightarrow> bool" where
  "keeps_names w \<longleftrightarrow>
     (\<forall>h k. distinct (node_names h) \<longrightarrow> distinct (node_names (up_others (wd_local w k) h)) \<and> distinct (node_names (up_others (wd_cloud w k) h))
        \<and> distinct (node_names (wd_waited w h)))
     \<and> (\<forall>(x, t, f) \<in> set (wd_wakes w). \<forall>r. distinct (map ns_Name (r_nodes r)) \<longrightarrow> distinct (map ns_Name (r_nodes (f r))))"

lemma wait_loop_names:
  "\<forall>(x, t, f) \<in> set ws. \<forall>r. distinct (map ns_Name (r_nodes r)) \<longrightarrow> distinct (map ns_Name (r_nodes (f r))) \<Longrightarrow>
   distinct (map ns_Name (r_nodes r)) \<Longrightarrow> wait_loop q c st prior ws r = Some (res, r') \<Longrightarrow> distinct (map ns_Name (r_nodes r'))"
proof (induction q c st prior ws r rule: wait_loop.induct)
  case (2 q c st prior w now f ws r)
  have f: "distinct (map ns_Name (r_nodes (f r)))"
    and ws: "\<forall>(x, t, f) \<in> set ws. \<forall>r. distinct (map ns_Name (r_nodes r)) \<longrightarrow> distinct (map ns_Name (r_nodes (f r)))"
    using 2(2,3) by auto
  obtain out p' r1 where rc: "recheck q st now prior (f r) = ((out, p'), r1)" by (metis prod.exhaust)
  have "r_nodes r1 = r_nodes (f r)"
    using recheck_snd [of q st now prior "f r"] rc RouteWithPrefix_nodes [OF f] by (simp add: try_route_def)
  then have r1: "distinct (map ns_Name (r_nodes r1))" using f by simp
  show ?case
  proof (cases "w = CtxDone")
    case True
    then show ?thesis using 2(4) f by simp
  next
    case False
    then show ?thesis using 2(1) [OF False rc [symmetric] refl _ _ ws r1] 2(4) rc r1
      by (cases out; cases "w = TimerFired") simp_all
  qed
qed simp

lemma wait_names:
  assumes "\<forall>(x, t, f) \<in> set ws. \<forall>r. distinct (map ns_Name (r_nodes r)) \<longrightarrow> distinct (map ns_Name (r_nodes (f r)))"
    and "distinct (map ns_Name (r_nodes r))" "WaitForNodeWithPrefixOpts q now ws r = Some (res, r')"
  shows "distinct (map ns_Name (r_nodes r'))"
proof -
  obtain node warm d r1 where rt: "try_route q now r = ((node, warm, d), r1)" by (metis prod_cases3 prod.exhaust)
  have r1: "distinct (map ns_Name (r_nodes r1))"
    using RouteWithPrefix_nodes [OF assms(2)] rt assms(2) unfolding try_route_def by (metis snd_conv)
  show ?thesis
  proof (cases "node \<noteq> None \<or> (wq_cloudUsable q \<and> hard_no_route (noRouteOf d))")
    case True
    then show ?thesis using assms(3) rt r1 by (cases node) (auto simp: WaitForNodeWithPrefixOpts_def)
  next
    case False
    then obtain res0 where w: "waitForNodeInternal q now ws r1 = Some (res0, r')"
      using assms(3) rt by (auto simp: WaitForNodeWithPrefixOpts_def)
    have add: "r_nodes (add_depth d' r0) = r_nodes r0" for d' r0 by (simp add: add_depth_def)
    show ?thesis
    proof (cases "r_queueTimeoutMs r1 * millisecond \<le> 0 \<or> r_queueMaxDepth r1 \<le> 0 \<or> r_queueDepth (add_depth 1 r1) > r_queueMaxDepth r1")
      case True
      then show ?thesis using w r1 by (auto simp: waitForNodeInternal_def Let_def add split: if_splits)
    next
      case False
      then obtain r2 where "wait_loop q (sla_capped q (add_depth 1 r1)) now None ws (add_depth 1 r1) = Some (res0, r2)" "r' = add_depth (- 1) r2"
        using w by (auto simp: waitForNodeInternal_def Let_def)
      from wait_loop_names [OF assms(1) _ this(1)] this(2) show ?thesis using r1 by (simp add: add)
    qed
  qed
qed

lemma slot_names: "node_names (og_h (acquire n m s)) = node_names (og_h s)" "node_names (og_h (release s)) = node_names (og_h s)"
  by (simp_all add: acquire_def release_def node_names_def emit_def on_router_def on_handler_def upd_node_names split: option.split)

lemma named_run:
  assumes "keeps_names w"
  shows "run_invariant rq w (\<lambda>_. True) True (\<lambda>h h'. distinct (node_names h) \<longrightarrow> distinct (node_names h')) (\<lambda>s. distinct (node_names (og_h s)))"
proof (intro run_invariant.intro)
  show "distinct (node_names h) \<longrightarrow> distinct (node_names (h\<lparr> hx_router := r \<rparr>))"
    if "WaitForNodeWithPrefixOpts q now (wd_wakes w) (hx_router h) = Some (res, r)" for q now res r and h :: handler
    using wait_names [OF _ _ that] assms unfolding keeps_names_def node_names_def by simp
  show "distinct (node_names h) \<longrightarrow> distinct (node_names h')" if "steady h h'" for h h'
    using that unfolding steady_def by simp
  show "distinct (node_names h) \<longrightarrow> distinct (node_names (up_others (wd_local w k) h))"
    "distinct (node_names h) \<longrightarrow> distinct (node_names (up_others (wd_cloud w k) h))"
    "distinct (node_names h) \<longrightarrow> distinct (node_names (wd_waited w h))" for h k
    using assms unfolding keeps_names_def by blast+
qed (simp_all add: slot_names emit_def)

text \<open>
  C9. A request is answered exactly once.  When the client stays, its body is not the literal null, the nodes have names of their own and the wait is
  ended by its timer if by nothing else, the handler returns, or aborts a stream that broke after its header, and on the way it wrote one response:
  one relayed answer, one listing or one error of its own, never two and never none, through every retry, degradation and provider.
\<close>

theorem request_answered_once:
  assumes "fst (rv_Body rq) \<noteq> Parsed JNull" "distinct (node_names h)" "keeps_names w" "client_stays w" "wait_stops w"
    and "ServeHTTP e rq w start h = (f, s)"
  shows "f \<in> {Returned, AbortedStream} \<and> responses (og_trace s) = 1"
proof -
  have "distinct (node_names (og_h (started rq h)))" using assms(2) by (simp add: started_def)
  from run_invariant.ServeHTTP_answers [OF named_run [OF assms(3)] _ assms(4) this _ assms(1,6)] assms(5) show ?thesis by blast
qed

section \<open>Examples\<close>

text \<open>A fleet of one node with a provider behind it, and a client whose key may not leave it.\<close>

definition demo_provider :: cloud_provider where
  "demo_provider = \<lparr> cp_Name = ''far'', cp_Provider = ''openai'', cp_BaseURL = ''https://far'', cp_APIKey = ''secret'', cp_DefaultModel = ''big'',
     cp_CostPer1KTokens = 0, cp_Enabled = True, cp_Priority = 1 \<rparr>"

definition demo_handler :: handler where
  "demo_handler = \<lparr> hx_router = SetClouds [demo_provider] demo_one, hx_admin = None,
     hx_auth = Some (NewMiddleware id 0 (demo_auth\<lparr> ac_Keys := [demo_key\<lparr> kf_LocalOnly := True \<rparr>] \<rparr>)), hx_audit = None, hx_access = None,
     hx_allowManagement = False, hx_trustProxyHeaders = False, hx_modelLimiter = newModelRateLimiter, hx_contextWindows = [],
     hx_prefix = (newPrefixLocalityStore, (0, [])) \<rparr>"

definition demo_request :: request where
  "demo_request = \<lparr> rv_ID = ''r1'', rv_Key = ''k'', rv_Allowed = [''m''], rv_Method = ''POST'', rv_Path = ''/v1/chat/completions'', rv_Encodings = [],
     rv_Read = None, rv_Body = (Parsed (JObj [(''model'', JStr ''m'')]), 13), rv_SessionID = [], rv_RemoteAddr = ''10.0.0.9:5000'',
     rv_ForwardedFor = [], rv_RealIP = [] \<rparr>"

definition demo_env :: env where
  "demo_env = \<lparr> en_fetch = (\<lambda>_. None), en_hour = (\<lambda>_. 0), en_lib = demo_time, en_month = id, en_sum = (\<lambda>_. 0), en_digest = id,
     en_chat = (\<lambda>_. None), en_len = (\<lambda>_. 13), en_urlOK = (\<lambda>_. True) \<rparr>"

text \<open>Nobody answers.\<close>

definition demo_attempt :: attempt where
  "demo_attempt = \<lparr> up_result = Unreachable, up_time = 20, up_before = False, up_gone = False, up_others = id \<rparr>"

definition demo_world :: world where
  "demo_world = \<lparr> wd_wakes = [(TimerFired, 15, id)], wd_waited = id, wd_local = (\<lambda>_. demo_attempt), wd_cloud = (\<lambda>_. demo_attempt) \<rparr>"

lemma demo_world_ok: "keeps_local key demo_world" "keeps_names demo_world" "client_stays demo_world" "wait_stops demo_world"
  by (simp_all add: demo_world_def demo_attempt_def keeps_local_def keeps_names_def client_stays_def wait_stops_def)

lemma demo_handler_ok: "localOnly demo_handler ''k''" "distinct (node_names demo_handler)" "CloudChain (hx_router demo_handler) = [demo_provider]"
  by (simp_all add: demo_handler_def localOnly_def IsLocalOnly_def by_key_name_def NewMiddleware_def demo_auth_def demo_key_def install_def
      new_key_def node_names_def SetClouds_def demo_one_def sortCloudsByPriority_def CloudChain_def demo_router_def New_def demo_provider_def Let_def)

theorem local_only_stays_local_witness:
  "localOnly demo_handler ''k'' \<and> CloudChain (hx_router demo_handler) \<noteq> []
     \<and> list_all (\<lambda>ev. \<not> to_cloud ev) (og_trace (snd (ServeHTTP demo_env demo_request demo_world 9 demo_handler)))"
  using local_only_stays_local [of demo_handler demo_request demo_world demo_env 9] demo_handler_ok demo_world_ok
  by (simp add: demo_request_def)

theorem request_answered_once_witness:
  "responses (og_trace (snd (ServeHTTP demo_env demo_request demo_world 9 demo_handler))) = 1"
proof -
  obtain f s where run: "ServeHTTP demo_env demo_request demo_world 9 demo_handler = (f, s)" by (metis surj_pair)
  have "fst (rv_Body demo_request) \<noteq> Parsed JNull" by (simp add: demo_request_def)
  from request_answered_once [OF this demo_handler_ok(2) demo_world_ok(2-4) run] show ?thesis by (simp add: run)
qed

end
