(* ===== verification/Spec2Isabelle.thy ===== *)
theory Spec2Isabelle
  imports Prefix_Locality Queue Auth Agent Sole_Replica Predictive Proxy_Safety
begin

text \<open>
  \<^bold>\<open>A verification of marbor.\<close>

  Marbor is a gateway in front of a fleet of LLM inference servers.  A client request passes the API
  key check (\<^verbatim>\<open>internal/auth\<close>), its model name is resolved through the aliases
  (\<^verbatim>\<open>internal/config/model_aliases.go\<close>, \<^verbatim>\<open>internal/router/aliases.go\<close>), and the proxy asks the router
  (\<^verbatim>\<open>internal/router\<close>) for a node.  The router keeps the fleet and what it knows of each node, removes the nodes
  that cannot serve the request, scores the rest, honours the session's pin and the caller's prefix locality,
  reserves memory for a cold load and makes room for it by eviction.  When no node is free the request waits
  in a queue.  The development models these decisions as functions on the router's state and proves what they
  promise.  All paths below are under \<^verbatim>\<open>src/\<close>.

  \<^bold>\<open>Theories, from the bottom up.\<close>

  \<^item> \<open>Prelude\<close>: times, durations, 32-bit counters, Go maps as association lists in iteration order; the locales
    \<open>go_map\<close> (what a map promises), \<open>capped_history\<close> (a history that keeps its newest entries) and \<open>best_pick\<close> (a loop that keeps
    the best element so far), interpreted on the code's maps, histories and loops.
  \<^item> \<open>Go_Strings\<close>: what the code uses of \<^verbatim>\<open>strings\<close>, \<^verbatim>\<open>unicode\<close> and \<^verbatim>\<open>strconv\<close>.
  \<^item> \<open>Float64\<close>: binary64 addition, subtraction, multiplication, division and conversion on the finite range, as
    correctly rounded operations on rationals; the locale \<open>float_rounding\<close> and its interpretation \<open>b64\<close>.
  \<^item> \<open>Model_Names\<close>, \<open>Aliases\<close>, \<open>Node_Url\<close>: \<^verbatim>\<open>modelname.go\<close>, \<^verbatim>\<open>model_aliases.go\<close>, \<^verbatim>\<open>aliases.go\<close> and the URL
    checks of \<^verbatim>\<open>config.go\<close>.  The matching rule is shown to be the equality of bookkeeping keys.  Alias clean-up yields a valid map.  C38: no
    spelling of a link-local address passes.
  \<^item> \<open>Nodes\<close>: \<^verbatim>\<open>NodeState\<close>, its construction, replacement and patches.
  \<^item> \<open>Union_Find\<close>, \<open>Replicas\<close>: the roles of nodes in multi-host replicas (\<^verbatim>\<open>resolveSchedulingRolesAndHeads\<close>).  C11: the
    closures over a shared parent map always return and compute the connected components of the declarations.
    The result does not depend on the order of the declarations.
  \<^item> \<open>Router_State\<close>, \<open>Registry\<close>: \<^verbatim>\<open>Router\<close>, \<^verbatim>\<open>New\<close>, and the operations on the fleet.  Names and backends stay unique, and a removed
    node leaves nothing behind. A drain survives re-registration.  A reload reaches the configured fleet, except where two
    nodes exchange URLs (C39).
  \<^item> \<open>Usage\<close>, \<open>Reservations\<close>: last-use and last-size records and the reservations of VRAM, both bounded (C15).
  \<^item> \<open>Scoring\<close>, \<open>Placement\<close>: the score in binary64 and its maximum (C14), the hard filter, its explanations, the
    routing entry points and the classification of failures (C1, C35).
  \<^item> \<open>Affinity\<close>: pins, routing with a session, snapshot and restore (C10, \<open>session_sticks_to_its_node\<close>, C37); C16 is the invariant of the whole
    fleet state under every operation of the step relation \<open>fleet_step\<close>.
  \<^item> \<open>Eviction\<close>: \<^verbatim>\<open>evictForHeadroom\<close>, \<^verbatim>\<open>makeHeadroom\<close> and the cooldown (C2, C4).
  \<^item> \<open>Health\<close>: \<^verbatim>\<open>health.go\<close>, \<^verbatim>\<open>thermal.go\<close>, \<^verbatim>\<open>warmstate.go\<close> and the warm rows of \<^verbatim>\<open>sqlite.go\<close>: one poll of a node with its
    failure hysteresis (C21), the thermal drain, and the residency rows that let a router
    start warm.
  \<^item> \<open>Telemetry\<close>, \<open>Agent\<close>: \<^verbatim>\<open>agent_sanitize.go\<close>, \<^verbatim>\<open>agent_poll.go\<close> and \<^verbatim>\<open>host_evidence.go\<close>: the bounds on a report of a node agent
    (C34), stated by the locale \<open>sanitiser\<close>, what a round of polling stores of it, and when a silent agent stops being believed (C22).  Two lemmas
    show which warning times are never pruned.
  \<^item> \<open>Sole_Replica\<close>: \<^verbatim>\<open>replica_safety.go\<close>, \<^verbatim>\<open>admin/sole_replica.go\<close> and the drain handler: the impact computed before a drain
    predicts routing after it (C20), and a drain that costs a model its last server
    needs consent.
  \<^item> \<open>Warming\<close>: \<^verbatim>\<open>warmer.go\<close>, \<^verbatim>\<open>scheduler.go\<close> and the scheduled unload of \<^verbatim>\<open>eviction.go\<close>: what a keep-warm pass starts
    (C24), where a scheduled warm-up sends its requests (\<open>scheduled_warmup_targets\<close>), and when schedules fire
    (C23).
  \<^item> \<open>Predictive\<close>: \<^verbatim>\<open>predictive.go\<close>: the cycle that loads the likely next models and its time-of-day pass, what they may
    dispatch (C26), the counters behind the reported accuracy
    (C25), and the history reloaded at start, whose dates are UTC (\<open>restart_splits_a_day\<close>).
  \<^item> \<open>Auth\<close>: buckets, counters, the key table, the request handler, reload and persistence (C3, C5, C17, C18, \<open>bucket_burst_bounded\<close>).
  \<^item> \<open>Prefix_Locality\<close>: \<^verbatim>\<open>prefixlocality.go\<close>; the store refines a bounded recency list, stated by the locale \<open>recency_store\<close>
    (C13, C40).
  \<^item> \<open>Request_Body\<close>: what the proxy reads and rewrites in a request (\<^verbatim>\<open>proxy.go\<close>) and the model profiles it overlays
    (\<^verbatim>\<open>proxy/model_config.go\<close>, \<^verbatim>\<open>store/model_config_capabilities.go\<close>): C29, the path guard; C31 and
    C30, what rewriting and overlaying keep; C32, the fields on offer.
  \<^item> \<open>Accounting\<close>: the request log, spend and statistics (\<^verbatim>\<open>admin.go\<close>, \<^verbatim>\<open>analytics.go\<close>) over their tables (\<^verbatim>\<open>sqlite.go\<close>).  A spent fleet budget
    stays spent (C28), the caps of keys are never enforced (C27), the log keeps its newest
    rows (C33).  \<open>restart_keeps_counters\<close>, \<open>restart_forgets_warmth\<close> and \<open>top_models_sorted\<close> are about restarts and the list of models.
  \<^item> \<open>Queue\<close>: in-flight counters and the queued wait (C36, C12).
  \<^item> \<open>Model_Limits\<close>: the caps of a model profile (\<^verbatim>\<open>modelRateLimiter\<close> of \<^verbatim>\<open>proxy/model_config.go\<close>); \<open>model_cap_within_factor_two\<close> bounds what its restarting
    minute lets through.
  \<^item> \<open>Forwarding\<close>: the headers that leave with a request (C19) and the record of why a request goes to cloud
    (\<^verbatim>\<open>proxy/cloud_route.go\<close>).
  \<^item> \<open>Proxy\<close>: the request handler, \<^verbatim>\<open>ServeHTTP\<close> and \<^verbatim>\<open>proxyToCloud\<close> of \<^verbatim>\<open>proxy/proxy.go\<close>, over all the components above: gates, alias, allow-list and
    fallback (\<open>admit\<close>), the wait (\<open>route_model\<close>, \<open>after_wait\<close>), the attempts on nodes (\<open>local_loop\<close>, \<open>local_step\<close>, \<open>local_failed\<close>), degradation, cloud overflow and
    the books.  A record \<open>world\<close> says how the wait is woken, what each attempt came to and what other requests did meanwhile; a run leaves a trace of slots taken,
    bodies sent and responses written.
  \<^item> \<open>Proxy_Safety\<close>: what every run guarantees.  The locale \<open>run_invariant\<close> is one induction over the handler for any invariant its steps keep; it is interpreted for the
    slots (C6) and the names in bodies (C8), and instantiated for local-only keys
    (C7) and, with the search for another node shown to end, for C9.

  \<^bold>\<open>How the code is represented.\<close>  A struct is a record whose fields carry a short prefix (\<open>ns_\<close> for
  \<^verbatim>\<open>NodeState\<close>, \<open>r_\<close> for \<^verbatim>\<open>Router\<close>, \<open>rd_\<close> for \<^verbatim>\<open>RoutingDecision\<close>); methods take and return the router.  Errors are values
  of a sum or option type with one constructor per error the code builds.  A Go map is an association list with distinct keys whose
  order stands for the iteration order, so a result that holds for every list holds for every iteration.  Where two places of the code share an object
  (the key states of \<^verbatim>\<open>auth.go\<close>), it lives in a store of its own and both hold its address.  \<^verbatim>\<open>float64\<close> values are rationals
  in the image of the rounding function.  Counters the code keeps in \<^verbatim>\<open>int32\<close> wrap; byte sums are unbounded
  integers, since they stay far below \<open>2 ^ 63\<close> for any memory a node can report.

  \<^bold>\<open>Assumptions.\<close>  An operation runs under the router's lock, so operations are atomic and interleave as sequences of steps; an
  operation reads the clock once and takes that time as an argument.  A run of the request handler lets the other requests act at each wake-up of its wait, after the
  wait and during each attempt; what it does between two of these is one step.  The compiler does not fuse multiplications with additions
  in scores.  Parameters, with their laws as named hypotheses where one is needed: \<^verbatim>\<open>url.Parse\<close>, \<^verbatim>\<open>net.ParseIP\<close> and Unicode lower-casing
  (record \<open>url_lib\<close>), time formats and calendar (record \<open>time_lib\<close>), SHA-256, JSON decoding, and the replies of
  the nodes to probes, runtime detection, catalog fetches and unload calls (records \<open>poll_env\<close> and \<open>agent_env\<close>).

  \<^bold>\<open>Loops.\<close>  Loops over a list are structural recursions.  The union-find walk and the eviction loop, whose code could run
  forever on other data, are partial functions to an option, and C11 and C2 prove that they return: the parent map is acyclic, and
  each round of eviction unloads a resident model or finds one busy and passes it over.  The queued wait recurses over the wake-ups of its \<^verbatim>\<open>select\<close>; C12
  proves that it returns by the one that fires its timer or cancels its client.  The attempts of a request recurse on the retries left and the one degradation; the search for
  another node takes fuel, one more than the number of nodes, and \<open>failover_ends\<close> proves that enough.

  \<^bold>\<open>Not modelled.\<close>  HTTP itself (the requests of the probes and agents, the bytes of streamed responses and the counts read from them, the translation between cloud dialects, the admin API), SQL in the store, the node agent's process control and probes, the command line, metrics, benchmarks and
  the web interface: they are input and output around the modelled decisions.
\<close>

end
